(* ===== verification/Go_Prelude.thy ===== *)
theory Go_Prelude
  imports Main "HOL-Library.Word"
begin

text \<open>
  Shared vocabulary of the development: Go's signed 64-bit integers, slices, errors and the
  pieces of the standard library (\<open>sort.Search\<close>, \<open>copy\<close>, \<open>errors.Is\<close>) that several
  components use, with the generic lemmas about them.

  An \<open>int64\<close> is an \<open>int\<close>; wherever the source adds or subtracts, the model applies
  \<open>wrap64\<close>, so that the wrap-around of the machine integer is written out. A
  \<open>time.Time\<close> is the number of nanoseconds since Go's zero time, so \<open>IsZero\<close> is
  equality with 0, and a \<open>time.Duration\<close> is a number of nanoseconds.
  A slice that the source compares with \<open>nil\<close> is an optional list (\<open>None\<close> is nil).
\<close>

type_synonym int64 = int
type_synonym gotime = int
type_synonym duration = int
type_synonym 'a slice = "'a list option"

named_theorems go_int "wrap-around arithmetic that does not wrap in range"

subsection \<open>Integers\<close>

definition in64 :: "int \<Rightarrow> bool" where
  "in64 x \<longleftrightarrow> - (2 ^ 63) \<le> x \<and> x < 2 ^ 63"

definition wrap64 :: "int \<Rightarrow> int64" where
  "wrap64 x = (x + 2 ^ 63) mod 2 ^ 64 - 2 ^ 63"

definition maxInt64 :: int64 where "maxInt64 = 2 ^ 63 - 1"
definition minInt32 :: int64 where "minInt32 = - (2 ^ 31)"
definition maxInt32 :: int64 where "maxInt32 = 2 ^ 31 - 1"

text \<open>\<open>time.Unix(0, 0)\<close>.\<close>

definition unixEpoch :: gotime where "unixEpoch = 62135596800 * 10 ^ 9"

subsection \<open>Slices\<close>

text \<open>The elements of a possibly nil slice.\<close>

definition sl :: "'a slice \<Rightarrow> 'a list" where
  "sl s = (case s of None \<Rightarrow> [] | Some xs \<Rightarrow> xs)"

text \<open>\<open>copy(dst[at:], src)\<close>: the destination keeps its length.\<close>

definition go_copy :: "'a list \<Rightarrow> nat \<Rightarrow> 'a list \<Rightarrow> 'a list" where
  "go_copy dst at src =
     take at dst @ take (length dst - at) src @ drop (at + length src) dst"

subsection \<open>sort.Search\<close>

function searchLoop :: "(nat \<Rightarrow> bool) \<Rightarrow> nat \<Rightarrow> nat \<Rightarrow> nat" where
  "searchLoop f i j =
     (if i < j
      then (let h = (i + j) div 2
            in if \<not> f h then searchLoop f (h + 1) j else searchLoop f i h)
      else i)"
  by pat_completeness auto
termination
  by (relation "measure (\<lambda>(f, i, j). j - i)") auto

declare searchLoop.simps [simp del]

definition sort_Search :: "nat \<Rightarrow> (nat \<Rightarrow> bool) \<Rightarrow> nat" where
  "sort_Search n f = searchLoop f 0 n"

subsection \<open>Errors\<close>

text \<open>
  The sentinel errors of the modelled packages, one constructor each, prefixed by the
  package where two packages use the same name. \<open>ErrMalformedMedia\<close> is
  \<open>ErrMalformedEvent\<close> wrapping a \<open>media.InvalidMessageError\<close> with its reason. \<open>Joined\<close> is \<open>errors.Join\<close>, and
  \<open>Other\<close> an error value of code outside the development. Several packages have a datatype of their own.
\<close>

datatype io_error = EOF | UnexpectedEOF | Canceled | DeadlineExceeded
datatype bridge_error = NotDurable | OutboundAlreadyAttempted | ProfileCheckpoint
datatype shadow_error = BSONDecodeBounds | BSONDecodeMalformed | BSONDecodeInvalidKey
datatype strictjson_error = StrictTooLarge | StrictInvalid
datatype chat_error = InvalidChatID | InvalidMessageID | InvalidMessage | InvalidWriteType | InvalidWriteResp
  | NotEditable | InvalidGetMessagesResp | NoMembers | InvalidMemberID | DuplicateMember | TooManyMembers
  | InvalidResponse | EditSourceMissing
datatype chatmeta_error = MetaInvalidRequest | MetaInvalidResponse
datatype authstate_error = AuthInvalidPath | AuthInvalidConfig | AuthAlreadyExists | AuthNotFound | AuthCorrupt
  | AuthVersionMismatch | AuthUnsafePermissions | IncompleteCredentials | InvalidCredentials | CredentialsChanged
datatype privatejson_error = PjNotFound | PjAlreadyExists | PjCorrupt | PjUnsafePermissions
datatype continuity_error = CnInvalidPath | CnCorrupt | CnVersionMismatch | CnUnsafePermissions
  | CnInvalidCursor | CnUnchanged
datatype loco_error = LoInvalidMethod | LoBodyTooLarge | LoInvalidFrame | LoProducerFailed | LoBufferTooLarge
  | LoInvalidKey | LoInvalidSecureEnvelope | LoCiphertextTooLarge | LoMissingStatus
datatype sessionlogin_error = SlMalformedPage | SlMissingRequiredValue | SlSKeySet | SlChatListLengthMismatch
datatype history_error = HiHistoryBusy | HiHistoryStoreCorrupt | HiHistoryStoreCapacity | HiHistoryTargetUnresolved
  | HiHistoryBelowFloor | HiHistoryIntervalUnavailable
datatype client_error = CredentialsAbsent | SignedOut | CredentialRenewal | PhotoNotCreated | AlbumNotCreated
  | UploadNotSent
datatype framework_error = NotLoggedIn | UnsupportedMessageType | FailedToGetIntent
datatype refusal_error = SourceAccessRemoved | MembershipPending | EditNotAllowed | DeleteNotAllowed
  | CallDeleteNotSupported | LeverageDeleteNotSupported | UnsupportedImageReply | UnsupportedUploadReply
  | GroupCreateUnresolved | InviteNotRegularGroup | InviteRefused | InviteUnconfirmed
datatype reply_error = MissingReplyMetadata | InvalidReplyTarget | CrossChatReply | ReplySenderMismatch
  | CallReplyTarget | LeverageReplyTarget
datatype media_error = InvalidImage | InvalidCaption | InvalidAlbum | UploadTooLarge | DeniedExtension
  | CaptionNotSupported | InvalidUpload | UploadRedirect | UploadFiltered | UnsupportedImage | MediaInvalidResponse
  | InvalidOffset

datatype go_error =
    ErrType
  | syncmsg_ErrInvalidRequest | syncmsg_ErrInvalidResponse | mchatlogs_ErrInvalid
  | chatlog_ErrMalformed
  | ErrMalformedEvent | ErrMalformedMedia string | ErrUnidentifiableMessage | ErrUnidentifiableMembership
  | ErrChatLogMisdirected
  | ErrProtocol | ErrProtocolAt string string
  | ErrClientClosed | errCommitOrder | ErrGapUnresolved
  | errInvalidID
  | booking_ErrMalformed | errBootstrap | errTicketPoolExhausted
  | ErrLogin | ErrClosed | StatusError string int
  | PrivatejsonErr privatejson_error | ContinuityErr continuity_error | LocoErr loco_error
  | SessionloginErr sessionlogin_error | HistoryErr history_error
  | Io io_error | Bridge bridge_error | Shadow shadow_error | Strictjson strictjson_error
  | Chat chat_error | Chatmeta chatmeta_error | Authstate authstate_error | ClientErr client_error
  | Framework framework_error | Refusal refusal_error | ReplyErr reply_error | MediaErr media_error
  | Other string
  | Joined "go_error list"

text \<open>The sentinels of those packages, by the names of the sources.\<close>

abbreviation "privatejson_ErrNotFound \<equiv> PrivatejsonErr PjNotFound"
abbreviation "privatejson_ErrAlreadyExists \<equiv> PrivatejsonErr PjAlreadyExists"
abbreviation "privatejson_ErrCorrupt \<equiv> PrivatejsonErr PjCorrupt"
abbreviation "privatejson_ErrUnsafePermissions \<equiv> PrivatejsonErr PjUnsafePermissions"
abbreviation "continuity_ErrInvalidPath \<equiv> ContinuityErr CnInvalidPath"
abbreviation "continuity_ErrCorrupt \<equiv> ContinuityErr CnCorrupt"
abbreviation "continuity_ErrVersionMismatch \<equiv> ContinuityErr CnVersionMismatch"
abbreviation "continuity_ErrUnsafePermissions \<equiv> ContinuityErr CnUnsafePermissions"
abbreviation "continuity_ErrInvalidCursor \<equiv> ContinuityErr CnInvalidCursor"
abbreviation "continuity_errUnchanged \<equiv> ContinuityErr CnUnchanged"
abbreviation "ErrInvalidMethod \<equiv> LocoErr LoInvalidMethod"
abbreviation "ErrBodyTooLarge \<equiv> LocoErr LoBodyTooLarge"
abbreviation "ErrInvalidFrame \<equiv> LocoErr LoInvalidFrame"
abbreviation "ErrProducerFailed \<equiv> LocoErr LoProducerFailed"
abbreviation "ErrBufferTooLarge \<equiv> LocoErr LoBufferTooLarge"
abbreviation "ErrInvalidKey \<equiv> LocoErr LoInvalidKey"
abbreviation "ErrInvalidSecureEnvelope \<equiv> LocoErr LoInvalidSecureEnvelope"
abbreviation "ErrCiphertextTooLarge \<equiv> LocoErr LoCiphertextTooLarge"
abbreviation "ErrMissingStatus \<equiv> LocoErr LoMissingStatus"
abbreviation "sessionlogin_ErrMalformedPage \<equiv> SessionloginErr SlMalformedPage"
abbreviation "sessionlogin_ErrMissingRequiredValue \<equiv> SessionloginErr SlMissingRequiredValue"
abbreviation "sessionlogin_ErrSKeySet \<equiv> SessionloginErr SlSKeySet"
abbreviation "sessionlogin_ErrChatListLengthMismatch \<equiv> SessionloginErr SlChatListLengthMismatch"
abbreviation "ErrHistoryBusy \<equiv> HistoryErr HiHistoryBusy"
abbreviation "ErrHistoryStoreCorrupt \<equiv> HistoryErr HiHistoryStoreCorrupt"
abbreviation "ErrHistoryStoreCapacity \<equiv> HistoryErr HiHistoryStoreCapacity"
abbreviation "ErrHistoryTargetUnresolved \<equiv> HistoryErr HiHistoryTargetUnresolved"
abbreviation "ErrHistoryBelowFloor \<equiv> HistoryErr HiHistoryBelowFloor"
abbreviation "errHistoryIntervalUnavailable \<equiv> HistoryErr HiHistoryIntervalUnavailable"
abbreviation "errCredentialsAbsent \<equiv> ClientErr CredentialsAbsent"
abbreviation "ErrSignedOut \<equiv> ClientErr SignedOut"
abbreviation "ErrCredentialRenewal \<equiv> ClientErr CredentialRenewal"
abbreviation "ErrPhotoNotCreated \<equiv> ClientErr PhotoNotCreated"
abbreviation "ErrAlbumNotCreated \<equiv> ClientErr AlbumNotCreated"
abbreviation "ErrUploadNotSent \<equiv> ClientErr UploadNotSent"
abbreviation "ErrNotLoggedIn \<equiv> Framework NotLoggedIn"
abbreviation "ErrUnsupportedMessageType \<equiv> Framework UnsupportedMessageType"
abbreviation "ErrFailedToGetIntent \<equiv> Framework FailedToGetIntent"
abbreviation "errSourceAccessRemoved \<equiv> Refusal SourceAccessRemoved"
abbreviation "errMembershipPending \<equiv> Refusal MembershipPending"
abbreviation "errEditNotAllowed \<equiv> Refusal EditNotAllowed"
abbreviation "errDeleteNotAllowed \<equiv> Refusal DeleteNotAllowed"
abbreviation "errCallDeleteNotSupported \<equiv> Refusal CallDeleteNotSupported"
abbreviation "errLeverageDeleteNotSupported \<equiv> Refusal LeverageDeleteNotSupported"
abbreviation "errUnsupportedImageReply \<equiv> Refusal UnsupportedImageReply"
abbreviation "errUnsupportedUploadReply \<equiv> Refusal UnsupportedUploadReply"
abbreviation "errGroupCreateUnresolved \<equiv> Refusal GroupCreateUnresolved"
abbreviation "errInviteNotRegularGroup \<equiv> Refusal InviteNotRegularGroup"
abbreviation "errInviteRefused \<equiv> Refusal InviteRefused"
abbreviation "errInviteUnconfirmed \<equiv> Refusal InviteUnconfirmed"
abbreviation "errMissingReplyMetadata \<equiv> ReplyErr MissingReplyMetadata"
abbreviation "errInvalidReplyTarget \<equiv> ReplyErr InvalidReplyTarget"
abbreviation "errCrossChatReply \<equiv> ReplyErr CrossChatReply"
abbreviation "errReplySenderMismatch \<equiv> ReplyErr ReplySenderMismatch"
abbreviation "errCallReplyTarget \<equiv> ReplyErr CallReplyTarget"
abbreviation "errLeverageReplyTarget \<equiv> ReplyErr LeverageReplyTarget"
abbreviation "media_ErrInvalidImage \<equiv> MediaErr InvalidImage"
abbreviation "media_ErrInvalidCaption \<equiv> MediaErr InvalidCaption"
abbreviation "media_ErrInvalidAlbum \<equiv> MediaErr InvalidAlbum"
abbreviation "media_ErrUploadTooLarge \<equiv> MediaErr UploadTooLarge"
abbreviation "media_ErrDeniedExtension \<equiv> MediaErr DeniedExtension"
abbreviation "media_ErrCaptionNotSupported \<equiv> MediaErr CaptionNotSupported"
abbreviation "media_ErrInvalidUpload \<equiv> MediaErr InvalidUpload"
abbreviation "media_ErrUploadRedirect \<equiv> MediaErr UploadRedirect"
abbreviation "media_ErrUploadFiltered \<equiv> MediaErr UploadFiltered"
abbreviation "media_ErrUnsupportedImage \<equiv> MediaErr UnsupportedImage"
abbreviation "media_ErrInvalidResponse \<equiv> MediaErr MediaInvalidResponse"
abbreviation "media_ErrInvalidOffset \<equiv> MediaErr InvalidOffset"
abbreviation "chat_ErrEditSourceMissing \<equiv> Chat EditSourceMissing"
abbreviation "io_EOF \<equiv> Io EOF"
abbreviation "io_ErrUnexpectedEOF \<equiv> Io UnexpectedEOF"
abbreviation "context_Canceled \<equiv> Io Canceled"
abbreviation "context_DeadlineExceeded \<equiv> Io DeadlineExceeded"
abbreviation "errNotDurable \<equiv> Bridge NotDurable"
abbreviation "errOutboundAlreadyAttempted \<equiv> Bridge OutboundAlreadyAttempted"
abbreviation "errProfileCheckpoint \<equiv> Bridge ProfileCheckpoint"
abbreviation "ErrBSONDecodeBounds \<equiv> Shadow BSONDecodeBounds"
abbreviation "ErrBSONDecodeMalformed \<equiv> Shadow BSONDecodeMalformed"
abbreviation "ErrBSONDecodeInvalidKey \<equiv> Shadow BSONDecodeInvalidKey"
abbreviation "strictjson_ErrTooLarge \<equiv> Strictjson StrictTooLarge"
abbreviation "strictjson_ErrInvalid \<equiv> Strictjson StrictInvalid"
abbreviation "chatmeta_ErrInvalidRequest \<equiv> Chatmeta MetaInvalidRequest"
abbreviation "chatmeta_ErrInvalidResponse \<equiv> Chatmeta MetaInvalidResponse"
abbreviation "chat_ErrInvalidChatID \<equiv> Chat InvalidChatID"
abbreviation "chat_ErrInvalidMessageID \<equiv> Chat InvalidMessageID"
abbreviation "chat_ErrInvalidMessage \<equiv> Chat InvalidMessage"
abbreviation "chat_ErrInvalidWriteType \<equiv> Chat InvalidWriteType"
abbreviation "chat_ErrInvalidWriteResp \<equiv> Chat InvalidWriteResp"
abbreviation "chat_ErrNotEditable \<equiv> Chat NotEditable"
abbreviation "chat_ErrInvalidGetMessagesResp \<equiv> Chat InvalidGetMessagesResp"
abbreviation "chat_ErrNoMembers \<equiv> Chat NoMembers"
abbreviation "chat_ErrInvalidMemberID \<equiv> Chat InvalidMemberID"
abbreviation "chat_ErrDuplicateMember \<equiv> Chat DuplicateMember"
abbreviation "chat_ErrTooManyMembers \<equiv> Chat TooManyMembers"
abbreviation "chat_ErrInvalidResponse \<equiv> Chat InvalidResponse"
abbreviation "authstate_ErrInvalidPath \<equiv> Authstate AuthInvalidPath"
abbreviation "authstate_ErrInvalidConfig \<equiv> Authstate AuthInvalidConfig"
abbreviation "authstate_ErrAlreadyExists \<equiv> Authstate AuthAlreadyExists"
abbreviation "authstate_ErrNotFound \<equiv> Authstate AuthNotFound"
abbreviation "authstate_ErrCorrupt \<equiv> Authstate AuthCorrupt"
abbreviation "authstate_ErrVersionMismatch \<equiv> Authstate AuthVersionMismatch"
abbreviation "authstate_ErrUnsafePermissions \<equiv> Authstate AuthUnsafePermissions"
abbreviation "authstate_ErrIncompleteCredentials \<equiv> Authstate IncompleteCredentials"
abbreviation "authstate_ErrInvalidCredentials \<equiv> Authstate InvalidCredentials"
abbreviation "authstate_ErrCredentialsChanged \<equiv> Authstate CredentialsChanged"

text \<open>\<open>errors.Is\<close>: the error itself or one of its joined members.\<close>

function errors_Is :: "go_error \<Rightarrow> go_error \<Rightarrow> bool" where
  "errors_Is e target =
     (case e of Joined es \<Rightarrow> (\<exists>e'\<in>set es. errors_Is e' target) | _ \<Rightarrow> e = target)"
  by pat_completeness auto
termination
  by (relation "measure (\<lambda>(e, t). size e)") (auto simp: less_Suc_eq_le size_list_estimation')

declare errors_Is.simps [simp del]

text \<open>\<open>errors.As\<close> with a \<open>StatusError\<close>: the status of the first one in the tree.\<close>

function asStatus :: "go_error \<Rightarrow> int option" where
  "asStatus e =
     (case e of
        StatusError command status \<Rightarrow> Some status
      | Joined es \<Rightarrow> (case filter (\<lambda>s. s \<noteq> None) (map asStatus es) of [] \<Rightarrow> None | s # _ \<Rightarrow> s)
      | _ \<Rightarrow> None)"
  by pat_completeness auto
termination
  by (relation "measure size") (auto simp: less_Suc_eq_le size_list_estimation')

declare asStatus.simps [simp del]

text \<open>\<open>errors.Join\<close> drops nil errors and is nil when nothing is left.\<close>

definition errors_Join :: "go_error option list \<Rightarrow> go_error option" where
  "errors_Join es =
     (let es' = map the (filter (\<lambda>e. e \<noteq> None) es)
      in if es' = [] then None else Some (Joined es'))"

type_synonym 'a result = "go_error + 'a"

definition is_ok :: "'a result \<Rightarrow> bool" where
  "is_ok r = (case r of Inl _ \<Rightarrow> False | Inr _ \<Rightarrow> True)"

subsection \<open>Lemmas\<close>

lemma wrap64_id [go_int]: "in64 x \<Longrightarrow> wrap64 x = x"
  by (simp add: in64_def wrap64_def)

lemma in64_wrap64 [simp, intro]: "in64 (wrap64 x)"
  by (simp add: in64_def wrap64_def)

lemma wrap64_succ_below [go_int]: "in64 y \<Longrightarrow> 0 \<le> x \<Longrightarrow> x < y \<Longrightarrow> wrap64 (x + 1) = x + 1"
  by (rule wrap64_id) (auto simp: in64_def)

lemma wrap64_pred_pos [go_int]: "in64 x \<Longrightarrow> 0 < x \<Longrightarrow> wrap64 (x - 1) = x - 1"
  by (rule wrap64_id) (auto simp: in64_def)

lemma sl_Some [simp]: "sl (Some xs) = xs"
  by (simp add: sl_def)

lemma sl_None [simp]: "sl None = []"
  by (simp add: sl_def)

text \<open>The append-then-copy-then-assign idiom of the source inserts one element.\<close>

lemma go_copy_insert:
  assumes "i \<le> length xs"
  shows "(go_copy (xs @ [v]) (i + 1) (drop i (xs @ [v])))[i := v] = take i xs @ v # drop i xs"
proof (cases "i = length xs")
  case True
  then show ?thesis by (simp add: go_copy_def)
next
  case False
  with assms have lt: "i < length xs" by simp
  have "go_copy (xs @ [v]) (i + 1) (drop i (xs @ [v])) = take (i + 1) xs @ drop i xs"
    using lt by (simp add: go_copy_def)
  also have "take (i + 1) xs = take i xs @ [xs ! i]"
    using lt by (simp add: take_Suc_conv_app_nth)
  finally show ?thesis
    using lt by (simp add: list_update_append min_def)
qed

lemma errors_Is_Joined [simp]: "errors_Is (Joined es) t = (\<exists>e\<in>set es. errors_Is e t)"
  by (simp add: errors_Is.simps)

lemma asStatus_StatusError [simp]: "asStatus (StatusError command status) = Some status"
  by (simp add: asStatus.simps)

lemma searchLoop_spec:
  assumes "\<And>a b. a \<le> b \<Longrightarrow> b < n \<Longrightarrow> f a \<Longrightarrow> f b"
    and "i \<le> j" "j \<le> n" "\<And>k. k < i \<Longrightarrow> \<not> f k" "j < n \<longrightarrow> f j"
  shows "searchLoop f i j \<le> n \<and> (\<forall>k < searchLoop f i j. \<not> f k)
    \<and> (searchLoop f i j < n \<longrightarrow> f (searchLoop f i j))"
  using assms
proof (induction f i j rule: searchLoop.induct)
  case (1 f i j)
  show ?case
  proof (cases "i < j")
    case False
    then have "searchLoop f i j = i" by (simp add: searchLoop.simps)
    with False "1.prems" show ?thesis by simp
  next
    case True
    define h where "h = (i + j) div 2"
    have h: "i \<le> h" "h < j" using True by (auto simp: h_def)
    show ?thesis
    proof (cases "f h")
      case fh: True
      have "searchLoop f i j = searchLoop f i h"
        using True fh by (simp add: searchLoop.simps [of f i j] h_def Let_def)
      moreover have "searchLoop f i h \<le> n \<and> (\<forall>k < searchLoop f i h. \<not> f k)
          \<and> (searchLoop f i h < n \<longrightarrow> f (searchLoop f i h))"
        using "1.IH"(2) [OF True h_def] fh h "1.prems" by simp
      ultimately show ?thesis by simp
    next
      case fh: False
      have below: "\<not> f k" if "k < h + 1" for k
        using that fh "1.prems"(1) [of k h] "1.prems"(3) h by auto
      have "searchLoop f i j = searchLoop f (h + 1) j"
        using True fh by (simp add: searchLoop.simps [of f i j] h_def Let_def)
      moreover have "searchLoop f (h + 1) j \<le> n \<and> (\<forall>k < searchLoop f (h + 1) j. \<not> f k)
          \<and> (searchLoop f (h + 1) j < n \<longrightarrow> f (searchLoop f (h + 1) j))"
        using "1.IH"(1) [OF True h_def] fh h below "1.prems" by simp
      ultimately show ?thesis by simp
    qed
  qed
qed

text \<open>On a monotone predicate \<open>sort.Search\<close> returns the least index that satisfies it.\<close>

lemma sort_Search_spec:
  assumes "\<And>a b. a \<le> b \<Longrightarrow> b < n \<Longrightarrow> f a \<Longrightarrow> f b"
  shows "sort_Search n f \<le> n" "k < sort_Search n f \<Longrightarrow> \<not> f k"
    "sort_Search n f < n \<Longrightarrow> f (sort_Search n f)"
  using searchLoop_spec [of n f 0 n] assms by (auto simp: sort_Search_def)

text \<open>A fold that keeps the greatest (least) selected value is a maximum (minimum).\<close>

lemma Max_insert_insert: "finite S \<Longrightarrow> Max (insert a (insert b S)) = Max (insert (max a b) S)"
  for a :: "'a :: linorder"
  by (cases "S = {}") (simp_all add: max.assoc)

lemma Min_insert_insert: "finite S \<Longrightarrow> Min (insert a (insert b S)) = Min (insert (min a b) S)"
  for a :: "'a :: linorder"
  by (cases "S = {}") (simp_all add: min.assoc)

lemma fold_max_if:
  fixes f :: "'a \<Rightarrow> int"
  shows "fold (\<lambda>x acc. if p x then max acc (f x) else acc) xs a
     = Max (insert a (f ` {x \<in> set xs. p x}))"
proof (induction xs arbitrary: a)
  case (Cons x xs)
  have fin: "finite (f ` {y \<in> set xs. p y})" by simp
  show ?case
  proof (cases "p x")
    case True
    have "insert a (f ` {y \<in> set (x # xs). p y}) = insert a (insert (f x) (f ` {y \<in> set xs. p y}))"
      using True by auto
    moreover have "Max (insert a (insert (f x) (f ` {y \<in> set xs. p y})))
        = Max (insert (max a (f x)) (f ` {y \<in> set xs. p y}))"
      using fin by (rule Max_insert_insert)
    ultimately show ?thesis using True Cons.IH [of "max a (f x)"] by simp
  next
    case False
    then have "{y \<in> set (x # xs). p y} = {y \<in> set xs. p y}" by auto
    then show ?thesis using False Cons.IH by simp
  qed
qed simp

lemma fold_min_if:
  fixes f :: "'a \<Rightarrow> int"
  shows "fold (\<lambda>x acc. if p x then min acc (f x) else acc) xs a
     = Min (insert a (f ` {x \<in> set xs. p x}))"
proof (induction xs arbitrary: a)
  case (Cons x xs)
  have fin: "finite (f ` {y \<in> set xs. p y})" by simp
  show ?case
  proof (cases "p x")
    case True
    have "insert a (f ` {y \<in> set (x # xs). p y}) = insert a (insert (f x) (f ` {y \<in> set xs. p y}))"
      using True by auto
    moreover have "Min (insert a (insert (f x) (f ` {y \<in> set xs. p y})))
        = Min (insert (min a (f x)) (f ` {y \<in> set xs. p y}))"
      using fin by (rule Min_insert_insert)
    ultimately show ?thesis using True Cons.IH [of "min a (f x)"] by simp
  next
    case False
    then have "{y \<in> set (x # xs). p y} = {y \<in> set xs. p y}" by auto
    then show ?thesis using False Cons.IH by simp
  qed
qed simp

end
