(* ===== verification/Loco.thy ===== *)
theory Loco
  imports Go_Prelude
begin

text \<open>
  \<open>src/internal/protocol/loco\<close>: the LOCO wire codec (\<open>frame.go\<close>), the incremental frame
  producer (\<open>producer.go\<close>) and the envelope of the version 3 secure layer (\<open>secure.go\<close>).

  Bytes are 8-bit words and the header's integers are words of their width, in little-endian
  order on the wire. A Go string is its bytes. The callbacks of \<open>Feed\<close> are the list of
  calls it makes. The authenticated cipher, the key wrapping and the random source are
  parameters: \<open>seal\<close> and \<open>unseal\<close> stand for AES-GCM, and what \<open>io.ReadFull\<close> read
  is an argument.
\<close>

unbundle bit_operations_syntax

type_synonym byte = "8 word"

subsection \<open>Frames\<close>

definition HeaderSize :: nat where "HeaderSize = 22"
definition MethodFieldSize :: nat where "MethodFieldSize = 11"
definition DefaultMaxBody :: "32 word" where "DefaultMaxBody = 16777216"

record Header =
  PacketID :: "32 word"
  Status :: "16 word"
  Method :: "byte list"
  BodyType :: byte
  BodyLen :: "32 word"

record Packet =
  pk_Header :: Header
  pk_Body :: "byte list"

text \<open>\<open>encoding/binary.LittleEndian\<close>.\<close>

definition PutUint32 :: "32 word \<Rightarrow> byte list" where
  "PutUint32 w = [ucast w, ucast (drop_bit 8 w), ucast (drop_bit 16 w), ucast (drop_bit 24 w)]"

definition PutUint16 :: "16 word \<Rightarrow> byte list" where
  "PutUint16 w = [ucast w, ucast (drop_bit 8 w)]"

definition Uint32 :: "byte list \<Rightarrow> 32 word" where
  "Uint32 b = ucast (b ! 0) OR push_bit 8 (ucast (b ! 1)) OR push_bit 16 (ucast (b ! 2))
     OR push_bit 24 (ucast (b ! 3))"

definition Uint16 :: "byte list \<Rightarrow> 16 word" where
  "Uint16 b = ucast (b ! 0) OR push_bit 8 (ucast (b ! 1))"

text \<open>\<open>unicode/utf8.Valid\<close>: well-formed sequences of one to four bytes.\<close>

definition cont :: "byte \<Rightarrow> bool" where "cont b \<longleftrightarrow> 0x80 \<le> b \<and> b \<le> 0xBF"

definition lead3 :: "byte \<Rightarrow> byte \<Rightarrow> bool" where
  "lead3 a b \<longleftrightarrow> (a = 0xE0 \<and> 0xA0 \<le> b \<and> b \<le> 0xBF) \<or> (a = 0xED \<and> 0x80 \<le> b \<and> b \<le> 0x9F)
     \<or> (0xE1 \<le> a \<and> a \<le> 0xEF \<and> a \<noteq> 0xED \<and> cont b)"

definition lead4 :: "byte \<Rightarrow> byte \<Rightarrow> bool" where
  "lead4 a b \<longleftrightarrow> (a = 0xF0 \<and> 0x90 \<le> b \<and> b \<le> 0xBF) \<or> (a = 0xF4 \<and> 0x80 \<le> b \<and> b \<le> 0x8F)
     \<or> (0xF1 \<le> a \<and> a \<le> 0xF3 \<and> cont b)"

fun utf8_Valid :: "byte list \<Rightarrow> bool" where
  "utf8_Valid [] = True"
| "utf8_Valid [a] = (a \<le> 0x7F)"
| "utf8_Valid [a, b] =
     (if a \<le> 0x7F then utf8_Valid [b] else 0xC2 \<le> a \<and> a \<le> 0xDF \<and> cont b)"
| "utf8_Valid [a, b, c] =
     (if a \<le> 0x7F then utf8_Valid [b, c]
      else if 0xC2 \<le> a \<and> a \<le> 0xDF then cont b \<and> utf8_Valid [c]
      else lead3 a b \<and> cont c)"
| "utf8_Valid (a # b # c # d # rest) =
     (if a \<le> 0x7F then utf8_Valid (b # c # d # rest)
      else if 0xC2 \<le> a \<and> a \<le> 0xDF then cont b \<and> utf8_Valid (c # d # rest)
      else if lead3 a b then cont c \<and> utf8_Valid (d # rest)
      else lead4 a b \<and> cont c \<and> cont d \<and> utf8_Valid rest)"

definition Header_MarshalBinary :: "Header \<Rightarrow> byte list result" where
  "Header_MarshalBinary h =
     (let m = Method h
      in if length m = 0 \<or> length m > MethodFieldSize \<or> \<not> utf8_Valid m then Inl ErrInvalidMethod
         else if \<exists>b\<in>set m. b = 0 \<or> b > 0x7F then Inl ErrInvalidMethod
         else Inr (PutUint32 (PacketID h) @ PutUint16 (Status h)
                @ go_copy (replicate 11 0) 0 m @ [BodyType h] @ PutUint32 (BodyLen h)))"

text \<open>The scan for the end of the method name; \<open>None\<close> is the rejection of a byte above 0x7f.\<close>

function methodEnd :: "byte list \<Rightarrow> nat \<Rightarrow> nat option" where
  "methodEnd src i =
     (if i < 17 \<and> src ! i \<noteq> 0
      then (if src ! i > 0x7F then None else methodEnd src (i + 1))
      else Some i)"
  by pat_completeness auto
termination
  by (relation "measure (\<lambda>(src, i). 17 - i)") auto

declare methodEnd.simps [simp del]

definition ParseHeader :: "byte list \<Rightarrow> 32 word \<Rightarrow> Header result" where
  "ParseHeader src maxBody0 =
     (if length src < HeaderSize then Inl ErrInvalidFrame
      else (let maxBody = (if maxBody0 = 0 then DefaultMaxBody else maxBody0)
            in case methodEnd src 6 of
                 None \<Rightarrow> Inl ErrInvalidMethod
               | Some e \<Rightarrow>
                   if e = 6 then Inl ErrInvalidMethod
                   else if \<exists>i\<in>set [e..<17]. src ! i \<noteq> 0 then Inl ErrInvalidMethod
                   else (let bodyLen = Uint32 (take 4 (drop 18 src))
                         in if bodyLen > maxBody then Inl ErrBodyTooLarge
                            else Inr \<lparr>PacketID = Uint32 (take 4 src), Status = Uint16 (take 2 (drop 4 src)),
                                      Method = take (e - 6) (drop 6 src), BodyType = src ! 17,
                                      BodyLen = bodyLen\<rparr>)))"

definition Packet_MarshalBinary :: "Packet \<Rightarrow> 32 word \<Rightarrow> byte list result" where
  "Packet_MarshalBinary p maxBody0 =
     (let maxBody = (if maxBody0 = 0 then DefaultMaxBody else maxBody0)
      in if length (pk_Body p) > unat maxBody then Inl ErrBodyTooLarge
         else (case Header_MarshalBinary ((pk_Header p)\<lparr>BodyLen := of_nat (length (pk_Body p))\<rparr>) of
                 Inl e \<Rightarrow> Inl e
               | Inr header \<Rightarrow> Inr (header @ pk_Body p)))"

subsection \<open>The producer\<close>

definition DefaultMaxBuffer :: "32 word" where "DefaultMaxBuffer = 2 * (22 + DefaultMaxBody)"

record Producer =
  maxBody :: "32 word"
  maxBuffer :: "32 word"
  buffer :: "byte list"
  header :: "Header option"
  failed :: bool

definition NewProducer :: "32 word \<Rightarrow> 32 word \<Rightarrow> Producer" where
  "NewProducer mb mbuf = \<lparr>maxBody = (if mb = 0 then DefaultMaxBody else mb),
     maxBuffer = (if mbuf = 0 then DefaultMaxBuffer else mbuf), buffer = [], header = None, failed = False\<rparr>"

text \<open>The calls a producer makes, in order.\<close>

datatype callback = OnHeader Header | OnPacket Packet

definition Append :: "Producer \<Rightarrow> byte list \<Rightarrow> go_error option \<times> Producer" where
  "Append p plaintext =
     (if failed p then (Some ErrProducerFailed, p)
      else if length (buffer p) + length plaintext > unat (maxBuffer p)
      then (Some ErrBufferTooLarge, p\<lparr>failed := True\<rparr>)
      else (None, p\<lparr>buffer := buffer p @ plaintext\<rparr>))"

definition takeBody :: "Producer \<Rightarrow> Header \<Rightarrow> Packet option \<times> Producer" where
  "takeBody p h =
     (let frameLen = HeaderSize + unat (BodyLen h)
      in if length (buffer p) < frameLen then (None, p)
         else (Some \<lparr>pk_Header = h, pk_Body = take (unat (BodyLen h)) (drop HeaderSize (buffer p))\<rparr>,
               p\<lparr>buffer := drop frameLen (buffer p), header := None\<rparr>))"

text \<open>\<open>next\<close>: the callbacks made, the packet if one is complete or the error, the producer.\<close>

definition next_frame :: "Producer \<Rightarrow> callback list \<times> Packet option result \<times> Producer" where
  "next_frame p =
     (if failed p then ([], Inl ErrProducerFailed, p)
      else (case header p of
        Some h \<Rightarrow> (let (pkt, p') = takeBody p h in ([], Inr pkt, p'))
      | None \<Rightarrow>
          if length (buffer p) < HeaderSize then ([], Inr None, p)
          else (case ParseHeader (take HeaderSize (buffer p)) (maxBody p) of
                  Inl e \<Rightarrow> ([], Inl e, p\<lparr>failed := True\<rparr>)
                | Inr h \<Rightarrow> (let (pkt, p') = takeBody (p\<lparr>header := Some h\<rparr>) h
                           in ([OnHeader h], Inr pkt, p')))))"

definition Next :: "Producer \<Rightarrow> Packet option result \<times> Producer" where
  "Next p = snd (next_frame p)"

lemma next_frame_shrinks:
  "next_frame p = (cs, Inr (Some pkt), p') \<Longrightarrow> length (buffer p') < length (buffer p)"
  by (auto simp: next_frame_def takeBody_def HeaderSize_def Let_def split: if_splits option.splits sum.splits)

function feedLoop :: "Producer \<Rightarrow> callback list \<times> go_error option \<times> Producer" where
  "feedLoop p =
     (case next_frame p of
        (cs, Inl e, p') \<Rightarrow> (cs, Some e, p')
      | (cs, Inr None, p') \<Rightarrow> (cs, None, p')
      | (cs, Inr (Some pkt), p') \<Rightarrow>
          if length (buffer p') = 0 then (cs @ [OnPacket pkt], None, p')
          else (let (cs', e, p'') = feedLoop p' in (cs @ [OnPacket pkt] @ cs', e, p'')))"
  by pat_completeness auto
termination
  by (relation "measure (\<lambda>p. length (buffer p))") (auto dest: next_frame_shrinks [OF sym])

declare feedLoop.simps [simp del]

definition Feed :: "Producer \<Rightarrow> byte list \<Rightarrow> callback list \<times> go_error option \<times> Producer" where
  "Feed p plaintext =
     (if failed p then ([], Some ErrProducerFailed, p)
      else (case Append p plaintext of
              (Some e, p') \<Rightarrow> ([], Some e, p')
            | (None, p') \<Rightarrow> feedLoop p'))"

definition Buffered :: "Producer \<Rightarrow> nat" where "Buffered p = length (buffer p)"

subsection \<open>The secure envelope\<close>

definition V3KeySize :: nat where "V3KeySize = 16"
definition V3NonceSize :: nat where "V3NonceSize = 12"
definition V3TagSize :: nat where "V3TagSize = 16"
definition V3Type :: "32 word" where "V3Type = 3"
definition DefaultMaxCiphertext :: "32 word" where "DefaultMaxCiphertext = DefaultMaxBody + 22 + 12 + 16"

record SecureV3 =
  sv_key :: "byte list"
  sv_maxSize :: "32 word"

text \<open>\<open>random\<close> is what \<open>io.ReadFull\<close> read, or \<open>None\<close> when it failed.\<close>

definition NewSecureV3 :: "byte list option \<Rightarrow> 32 word \<Rightarrow> SecureV3 result" where
  "NewSecureV3 random maxCiphertext =
     (case random of
        None \<Rightarrow> Inl (Other ''generate secure-layer key'')
      | Some key \<Rightarrow> Inr \<lparr>sv_key = key,
          sv_maxSize = (if maxCiphertext = 0 then DefaultMaxCiphertext else maxCiphertext)\<rparr>)"

text \<open>\<open>wrap\<close> is the RSA-OAEP encryption of the key under the embedded public key.\<close>

definition Handshake :: "(byte list \<Rightarrow> byte list option) \<Rightarrow> SecureV3 option \<Rightarrow> byte list result" where
  "Handshake wrap s =
     (case s of
        None \<Rightarrow> Inl ErrInvalidKey
      | Some sv \<Rightarrow> (case wrap (sv_key sv) of
          None \<Rightarrow> Inl (Other ''wrap secure-layer key'')
        | Some encrypted \<Rightarrow> Inr (PutUint32 (of_nat (length encrypted)) @ PutUint32 (of_nat V3KeySize)
                               @ PutUint32 V3Type @ encrypted)))"

definition Encrypt ::
  "(byte list \<Rightarrow> byte list \<Rightarrow> byte list \<Rightarrow> byte list) \<Rightarrow> byte list option \<Rightarrow> SecureV3 option \<Rightarrow> byte list
    \<Rightarrow> byte list result" where
  "Encrypt seal random s plaintext =
     (case s of
        None \<Rightarrow> Inl ErrInvalidKey
      | Some sv \<Rightarrow>
          if V3NonceSize + length plaintext + V3TagSize > unat (sv_maxSize sv) then Inl ErrCiphertextTooLarge
          else (case random of
                  None \<Rightarrow> Inl (Other ''generate secure-layer nonce'')
                | Some nonce \<Rightarrow>
                    (let sealed = seal (sv_key sv) nonce plaintext
                     in Inr (PutUint32 (of_nat (length nonce + length sealed)) @ nonce @ sealed))))"

definition Decrypt ::
  "(byte list \<Rightarrow> byte list \<Rightarrow> byte list \<Rightarrow> byte list option) \<Rightarrow> SecureV3 \<Rightarrow> byte list \<Rightarrow> byte list result" where
  "Decrypt unseal sv envelope =
     (if length envelope < 4 + V3NonceSize + V3TagSize then Inl ErrInvalidSecureEnvelope
      else (let len = Uint32 (take 4 envelope)
            in if len > sv_maxSize sv then Inl ErrCiphertextTooLarge
               else if unat len + 4 \<noteq> length envelope then Inl ErrInvalidSecureEnvelope
               else (case unseal (sv_key sv) (take V3NonceSize (drop 4 envelope)) (drop (4 + V3NonceSize) envelope) of
                       None \<Rightarrow> Inl ErrInvalidSecureEnvelope
                     | Some plaintext \<Rightarrow> Inr plaintext)))"

subsection \<open>Byte order\<close>

lemma length_Put [simp]: "length (PutUint32 w) = 4" "length (PutUint16 v) = 2"
  by (simp_all add: PutUint32_def PutUint16_def)

lemma Uint32_Put [simp]: "Uint32 (PutUint32 w) = w"
proof (rule bit_word_eqI)
  fix n assume n: "n < LENGTH(32)"
  consider "n < 8" | "8 \<le> n" "n < 16" | "16 \<le> n" "n < 24" | "24 \<le> n" by linarith
  then show "bit (Uint32 (PutUint32 w)) n = bit w n"
    by cases (use n in \<open>auto simp: Uint32_def PutUint32_def bit_simps\<close>)
qed

lemma Uint16_Put [simp]: "Uint16 (PutUint16 w) = w"
  unfolding Uint16_def PutUint16_def
  by (rule bit_word_eqI) (auto simp: bit_simps)

lemma byte_no_bit [simp]: "8 \<le> k \<Longrightarrow> \<not> bit (a :: byte) (k + n)"
  using bit_imp_le_length [of a "k + n"] by auto

lemma Put_Uint32: "PutUint32 (Uint32 [a, b, c, d]) = [a, b, c, d]"
  unfolding Uint32_def PutUint32_def
  by (auto simp: bit_simps dest: bit_imp_le_length intro!: bit_word_eqI)

lemma Put_Uint16: "PutUint16 (Uint16 [a, b]) = [a, b]"
  unfolding Uint16_def PutUint16_def
  by (auto simp: bit_simps dest: bit_imp_le_length intro!: bit_word_eqI)

lemma Put_Uint32_take: "length b = 4 \<Longrightarrow> PutUint32 (Uint32 b) = b"
  using Put_Uint32 by (auto simp: numeral_eq_Suc length_Suc_conv)

lemma Put_Uint16_take: "length b = 2 \<Longrightarrow> PutUint16 (Uint16 b) = b"
  using Put_Uint16 by (auto simp: numeral_eq_Suc length_Suc_conv)

subsection \<open>Headers\<close>

text \<open>The method names the codec accepts, and the bytes of a header.\<close>

definition validMethod :: "byte list \<Rightarrow> bool" where
  "validMethod m \<longleftrightarrow> m \<noteq> [] \<and> length m \<le> 11 \<and> (\<forall>b\<in>set m. b \<noteq> 0 \<and> b \<le> 0x7F)"

definition headerBytes :: "Header \<Rightarrow> byte list" where
  "headerBytes h = PutUint32 (PacketID h) @ PutUint16 (Status h)
     @ (Method h @ replicate (11 - length (Method h)) 0) @ [BodyType h] @ PutUint32 (BodyLen h)"

lemma ascii_utf8: "\<forall>b\<in>set m. b \<le> 0x7F \<Longrightarrow> utf8_Valid m"
  by (induction m rule: utf8_Valid.induct) simp_all

lemma Header_MarshalBinary_iff:
  "Header_MarshalBinary h = Inr bs \<longleftrightarrow> validMethod (Method h) \<and> bs = headerBytes h"
proof -
  have "(\<exists>b\<in>set (Method h). b = 0 \<or> b > 0x7F) \<longleftrightarrow> \<not> (\<forall>b\<in>set (Method h). b \<noteq> 0 \<and> b \<le> 0x7F)"
    by (auto simp: not_le)
  then show ?thesis using ascii_utf8 [of "Method h"]
    by (auto simp: Header_MarshalBinary_def validMethod_def headerBytes_def MethodFieldSize_def Let_def
      go_copy_def)
qed

lemma length_headerBytes: "validMethod (Method h) \<Longrightarrow> length (headerBytes h) = 22"
  by (simp add: headerBytes_def validMethod_def)

lemma methodEnd_takeWhile:
  assumes "17 \<le> length src" "i \<le> 17"
  shows "methodEnd src i = (let w = takeWhile (\<lambda>b. b \<noteq> 0) (take (17 - i) (drop i src))
    in if \<exists>b\<in>set w. b > 0x7F then None else Some (i + length w))"
  using assms
proof (induction src i rule: methodEnd.induct)
  case (1 src i)
  show ?case
  proof (cases "i = 17")
    case True
    then show ?thesis by (subst methodEnd.simps) simp
  next
    case False
    with "1.prems" have i: "i < 17" "i < length src" by auto
    have d: "take (17 - i) (drop i src) = src ! i # take (17 - (i + 1)) (drop (i + 1) src)"
      using i by (simp add: Cons_nth_drop_Suc [symmetric] take_Cons' Suc_diff_le)
    show ?thesis
    proof (cases "src ! i \<noteq> 0 \<and> \<not> src ! i > 0x7F")
      case True
      with i have "methodEnd src i = methodEnd src (i + 1)" by (simp add: methodEnd.simps [of src i])
      moreover from True i "1" have "methodEnd src (i + 1)
          = (let w = takeWhile (\<lambda>b. b \<noteq> 0) (take (17 - (i + 1)) (drop (i + 1) src))
             in if \<exists>b\<in>set w. b > 0x7F then None else Some (i + 1 + length w))"
        by auto
      ultimately show ?thesis using True by (simp add: d Let_def)
    next
      case False
      with i show ?thesis by (subst methodEnd.simps) (auto simp: d Let_def)
    qed
  qed
qed

text \<open>The method field of a header, read back.\<close>

lemma takeWhile_field:
  assumes "validMethod m"
  shows "takeWhile (\<lambda>b. b \<noteq> 0) (m @ replicate k 0) = m"
  using assms by (cases k) (auto simp: validMethod_def takeWhile_append2)

lemma field_of_takeWhile:
  assumes "\<forall>b\<in>set (drop (length (takeWhile (\<lambda>b. b \<noteq> 0) f)) f). b = (0 :: byte)"
  shows "f = takeWhile (\<lambda>b. b \<noteq> 0) f @ replicate (length f - length (takeWhile (\<lambda>b. b \<noteq> 0) f)) 0"
proof -
  let ?w = "takeWhile (\<lambda>b. b \<noteq> 0) f"
  have "drop (length ?w) f = replicate (length f - length ?w) 0"
    using assms by (metis length_drop replicate_eqI)
  then show ?thesis by (metis append_take_drop_id takeWhile_eq_take)
qed

text \<open>The pieces of the first 22 bytes.\<close>

lemma split_header:
  assumes "22 \<le> length src"
  shows "take 22 src = take 4 src @ take 2 (drop 4 src) @ take 11 (drop 6 src) @ [src ! 17] @ take 4 (drop 18 src)"
proof -
  have "take 22 src = take 4 src @ take 2 (drop 4 src) @ take 11 (drop 6 src) @ take 1 (drop 17 src) @ take 4 (drop 18 src)"
    using take_add [of 4 18 src] take_add [of 2 16 "drop 4 src"] take_add [of 11 5 "drop 6 src"] take_add [of 1 4 "drop 17 src"]
    by (simp add: add.commute)
  moreover have "take 1 (drop 17 src) = [src ! 17]"
    using assms by (simp add: take_Suc_conv_app_nth [of 0 "drop 17 src", simplified])
  ultimately show ?thesis by simp
qed

text \<open>Parsing accepts exactly the bytes that marshalling writes.\<close>

lemma ParseHeader_iff:
  "ParseHeader src mb = Inr h \<longleftrightarrow> 22 \<le> length src \<and> validMethod (Method h) \<and> take 22 src = headerBytes h
     \<and> BodyLen h \<le> (if mb = 0 then DefaultMaxBody else mb)"
proof (cases "22 \<le> length src")
  case False
  then show ?thesis by (simp add: ParseHeader_def HeaderSize_def)
next
  case len: True
  define f where "f = take 11 (drop 6 src)"
  define w where "w = takeWhile (\<lambda>b. b \<noteq> 0) f"
  have lf: "length f = 11" using len by (simp add: f_def)
  have lw: "length w \<le> 11" unfolding w_def using length_takeWhile_le [of _ f] lf by metis
  have me: "methodEnd src 6 = (if \<exists>b\<in>set w. b > 0x7F then None else Some (6 + length w))"
    using methodEnd_takeWhile [of src 6] len by (simp add: f_def w_def Let_def)
  have "drop (length w) f = map ((!) src) [6 + length w..<17]"
    using len lw lf by (intro nth_equalityI) (auto simp: f_def add.assoc)
  then have pad: "(\<exists>i\<in>set [6 + length w..<17]. src ! i \<noteq> 0) \<longleftrightarrow> \<not> (\<forall>b\<in>set (drop (length w) f). b = 0)"
    by simp
  have tw: "take (length w) (drop 6 src) = w"
    unfolding w_def by (metis f_def lw min.absorb1 take_take takeWhile_eq_take w_def)
  let ?m = "if mb = 0 then DefaultMaxBody else mb"
  let ?h = "\<lparr>PacketID = Uint32 (take 4 src), Status = Uint16 (take 2 (drop 4 src)), Method = w,
    BodyType = src ! 17, BodyLen = Uint32 (take 4 (drop 18 src))\<rparr>"
  have bytes: "take 22 src = headerBytes ?h \<longleftrightarrow> (\<forall>b\<in>set (drop (length w) f). b = 0)"
    using field_of_takeWhile [of f] lf len
    by (auto simp: split_header headerBytes_def Put_Uint32_take Put_Uint16_take f_def [symmetric] w_def [symmetric])
  have vm: "validMethod w \<longleftrightarrow> w \<noteq> [] \<and> \<not> (\<exists>b\<in>set w. b > 0x7F)"
    using lw by (auto simp: validMethod_def w_def not_less dest: set_takeWhileD)
  have p: "ParseHeader src mb = Inr h \<longleftrightarrow> validMethod w \<and> (\<forall>b\<in>set (drop (length w) f). b = 0)
      \<and> BodyLen ?h \<le> ?m \<and> h = ?h"
    unfolding ParseHeader_def using len me pad vm tw
    by (auto simp: HeaderSize_def Let_def not_less)
  have conv: "h = ?h" if "validMethod (Method h)" "take 22 src = headerBytes h"
  proof -
    define g where "g = Method h @ replicate (11 - length (Method h)) (0 :: byte)"
    have lg: "length g = 11" using that(1) by (simp add: g_def validMethod_def)
    have "take 4 src @ take 2 (drop 4 src) @ f @ [src ! 17] @ take 4 (drop 18 src)
        = PutUint32 (PacketID h) @ PutUint16 (Status h) @ g @ [BodyType h] @ PutUint32 (BodyLen h)"
      using that(2) len by (simp only: split_header headerBytes_def f_def g_def)
    then have parts: "take 4 src = PutUint32 (PacketID h)" "take 2 (drop 4 src) = PutUint16 (Status h)"
        "f = g" "src ! 17 = BodyType h" "take 4 (drop 18 src) = PutUint32 (BodyLen h)"
      using lf lg len by simp_all
    then have "w = Method h" using takeWhile_field [OF that(1)] by (simp add: w_def g_def)
    then show ?thesis using parts by simp
  qed
  show ?thesis using p bytes conv len by auto
qed

end
