(* ===== verification/Loco_Stream.thy ===== *)
theory Loco_Stream
  imports Loco
begin

text \<open>
  What the LOCO codec guarantees: headers and packets round-trip in both directions; the
  producer delivers the frames of a byte stream in wire order, one header call and one packet
  call each, however the stream is cut into supplies; its buffer stays bounded and its
  failures are final; a sealed envelope opens to the plaintext.
\<close>

subsection \<open>One frame\<close>

text \<open>Bytes appended to the buffer of a producer.\<close>

definition extend :: "Producer \<Rightarrow> byte list \<Rightarrow> Producer" where
  "extend p b = p\<lparr>buffer := buffer p @ b\<rparr>"

lemma extend_simps [simp]:
  "buffer (extend p b) = buffer p @ b" "header (extend p b) = header p" "failed (extend p b) = failed p"
  "maxBody (extend p b) = maxBody p" "maxBuffer (extend p b) = maxBuffer p"
  "extend p [] = p" "extend (extend p a) b = extend p (a @ b)"
  "extend (p\<lparr>header := h\<rparr>) b = (extend p b)\<lparr>header := h\<rparr>"
  "extend (p\<lparr>failed := t\<rparr>) b = (extend p b)\<lparr>failed := t\<rparr>"
  by (simp_all add: extend_def)

lemma takeBody_Some:
  "takeBody p h = (Some pkt, p') \<Longrightarrow> takeBody (extend p b) h = (Some pkt, extend p' b)"
  by (auto simp: takeBody_def extend_def Let_def split: if_splits)

lemma takeBody_None: "takeBody p h = (None, p') \<Longrightarrow> p' = p"
  by (auto simp: takeBody_def Let_def split: if_splits)

lemma next_frame_Some:
  assumes "next_frame p = (cs, Inr (Some pkt), p')"
  shows "next_frame (extend p b) = (cs, Inr (Some pkt), extend p' b)"
    "header p' = None" "failed p' = failed p" "maxBuffer p' = maxBuffer p" "maxBody p' = maxBody p"
proof -
  show "next_frame (extend p b) = (cs, Inr (Some pkt), extend p' b)"
    using assms takeBody_Some [of p] takeBody_Some [of "p\<lparr>header := Some h\<rparr>" for h]
    by (fastforce simp: next_frame_def HeaderSize_def Let_def split: if_splits option.splits sum.splits prod.splits)
  show "header p' = None" "failed p' = failed p" "maxBuffer p' = maxBuffer p" "maxBody p' = maxBody p"
    using assms by (auto simp: next_frame_def takeBody_def Let_def split: if_splits option.splits sum.splits prod.splits)
qed

lemma next_frame_error:
  assumes "next_frame p = (cs, Inl e, p')"
  shows "next_frame (extend p b) = (cs, Inl e, extend p' b)" "failed p'" "buffer p' = buffer p"
    "maxBuffer p' = maxBuffer p"
  using assms by (auto simp: next_frame_def HeaderSize_def Let_def split: if_splits option.splits sum.splits prod.splits)

lemma next_frame_None:
  assumes "next_frame p = (cs, Inr None, p')"
  shows "next_frame (extend p b) = (case next_frame (extend p' b) of (cs', r, q) \<Rightarrow> (cs @ cs', r, q))"
    "failed p' = failed p" "maxBuffer p' = maxBuffer p" "maxBody p' = maxBody p" "buffer p' = buffer p"
proof -
  have f: "\<not> failed p" using assms by (auto simp: next_frame_def)
  consider (short) "header p = None" "length (buffer p) < 22" "cs = []" "p' = p"
    | (old) h where "header p = Some h" "cs = []" "p' = p"
    | (new) h where "header p = None" "22 \<le> length (buffer p)" "ParseHeader (take 22 (buffer p)) (maxBody p) = Inr h"
        "cs = [OnHeader h]" "p' = p\<lparr>header := Some h\<rparr>"
    using assms by (auto simp: next_frame_def HeaderSize_def Let_def split: if_splits option.splits sum.splits prod.splits
        dest: takeBody_None)
  then show "next_frame (extend p b) = (case next_frame (extend p' b) of (cs', r, q) \<Rightarrow> (cs @ cs', r, q))"
    by cases (use f in \<open>auto simp: next_frame_def HeaderSize_def Let_def split: prod.splits\<close>)
  show "failed p' = failed p" "maxBuffer p' = maxBuffer p" "maxBody p' = maxBody p" "buffer p' = buffer p"
    using assms by (auto simp: next_frame_def takeBody_def Let_def split: if_splits option.splits sum.splits prod.splits)
qed

subsection \<open>The loop\<close>

lemma feedLoop_frame:
  assumes "feedLoop p = (cs, e, p')"
  shows "maxBuffer p' = maxBuffer p \<and> length (buffer p') \<le> length (buffer p) \<and> (e = None \<longrightarrow> failed p' = failed p)
    \<and> (e \<noteq> None \<longrightarrow> failed p')"
  using assms
proof (induction p arbitrary: cs e p' rule: feedLoop.induct)
  case (1 p)
  obtain cs1 r p1 where n: "next_frame p = (cs1, r, p1)" by (metis prod_cases3)
  show ?case
  proof (cases r)
    case (Inl x)
    with "1.prems" n next_frame_error [of p cs1 x p1] show ?thesis
      by (auto simp: feedLoop.simps [of p])
  next
    case (Inr o1)
    show ?thesis
    proof (cases o1)
      case None
      with "1.prems" n Inr next_frame_None [of p cs1 p1] show ?thesis by (auto simp: feedLoop.simps [of p])
    next
      case (Some pkt)
      note s = next_frame_Some [of p cs1 pkt p1] next_frame_shrinks [of p cs1 pkt p1]
      obtain cs2 e2 p2 where f: "feedLoop p1 = (cs2, e2, p2)" by (metis prod_cases3)
      show ?thesis
        using "1.prems" n Inr Some s "1.IH" [OF n [symmetric] refl Inr Some _ f] f
        by (auto simp: feedLoop.simps [of p] split: if_splits)
    qed
  qed
qed

text \<open>Cutting the stream makes no difference: an error stays, and otherwise the loop resumes.\<close>

lemma feedLoop_error:
  assumes "feedLoop p = (cs, Some x, p')"
  shows "feedLoop (extend p b) = (cs, Some x, extend p' b)"
  using assms
proof (induction p arbitrary: cs p' rule: feedLoop.induct)
  case (1 p)
  obtain cs1 r p1 where n: "next_frame p = (cs1, r, p1)" by (metis prod_cases3)
  show ?case
  proof (cases r)
    case (Inl y)
    with "1.prems" n next_frame_error(1) [of p cs1 y p1 b] show ?thesis
      by (auto simp: feedLoop.simps [of p] feedLoop.simps [of "extend p b"])
  next
    case (Inr o1)
    show ?thesis
    proof (cases o1)
      case None
      with "1.prems" n Inr show ?thesis by (auto simp: feedLoop.simps [of p])
    next
      case (Some pkt)
      obtain cs2 e2 p2 where f: "feedLoop p1 = (cs2, e2, p2)" by (metis prod_cases3)
      show ?thesis
        using "1.prems" n Inr Some f next_frame_Some(1) [of p cs1 pkt p1 b]
          "1.IH" [OF n [symmetric] refl Inr Some, of cs2 p2]
        by (auto simp: feedLoop.simps [of p] feedLoop.simps [of "extend p b"] split: if_splits)
    qed
  qed
qed

lemma feedLoop_idle: "\<not> failed p \<Longrightarrow> header p = None \<Longrightarrow> buffer p = [] \<Longrightarrow> feedLoop p = ([], None, p)"
  by (subst feedLoop.simps) (simp add: next_frame_def HeaderSize_def)

lemma feedLoop_extend:
  assumes "feedLoop p = (cs, None, p')"
  shows "feedLoop (extend p b) = (case feedLoop (extend p' b) of (cs', e, q) \<Rightarrow> (cs @ cs', e, q))"
  using assms
proof (induction p arbitrary: cs p' rule: feedLoop.induct)
  case (1 p)
  obtain cs1 r p1 where n: "next_frame p = (cs1, r, p1)" by (metis prod_cases3)
  show ?case
  proof (cases r)
    case (Inl y)
    with "1.prems" n show ?thesis by (auto simp: feedLoop.simps [of p])
  next
    case (Inr o1)
    show ?thesis
    proof (cases o1)
      case None
      with "1.prems" n Inr have "cs = cs1" "p' = p1" by (auto simp: feedLoop.simps [of p])
      with n Inr None next_frame_None(1) [of p cs1 p1 b] show ?thesis
        by (auto simp: feedLoop.simps [of "extend p b"] feedLoop.simps [of "extend p1 b"]
            split: prod.splits sum.splits option.splits)
    next
      case (Some pkt)
      have nf: "\<not> failed p" using n Inr by (auto simp: next_frame_def)
      note s = next_frame_Some [OF n [unfolded Inr Some]]
      obtain cs2 e2 p2 where f: "feedLoop p1 = (cs2, e2, p2)" by (metis prod_cases3)
      show ?thesis
      proof (cases "buffer p1 = []")
        case True
        with "1.prems" n Inr Some have "cs = cs1 @ [OnPacket pkt]" "p' = p1"
          by (auto simp: feedLoop.simps [of p])
        with True s nf show ?thesis
          by (auto simp: feedLoop.simps [of "extend p b"] feedLoop_idle split: prod.splits)
      next
        case False
        with "1.prems" n Inr Some f have c: "cs = cs1 @ [OnPacket pkt] @ cs2" "p' = p2" "e2 = None"
          by (auto simp: feedLoop.simps [of p])
        with "1.IH" [OF n [symmetric] refl Inr Some, of cs2 p2] False f s(1) show ?thesis
          by (auto simp: feedLoop.simps [of "extend p b"] split: prod.splits)
      qed
    qed
  qed
qed

subsection \<open>Supplies\<close>

text \<open>A sequence of supplies, stopping at the first error, as a transport feeds a producer.\<close>

fun feedAll :: "Producer \<Rightarrow> byte list list \<Rightarrow> callback list \<times> go_error option \<times> Producer" where
  "feedAll p [] = ([], None, p)"
| "feedAll p (c # cs) =
     (case Feed p c of
        (out, Some e, p') \<Rightarrow> (out, Some e, p')
      | (out, None, p') \<Rightarrow> (case feedAll p' cs of (out', e, q) \<Rightarrow> (out @ out', e, q)))"

lemma Feed_fits:
  "\<not> failed p \<Longrightarrow> length (buffer p) + length b \<le> unat (maxBuffer p) \<Longrightarrow> Feed p b = feedLoop (extend p b)"
  by (simp add: Feed_def Append_def extend_def)

lemma feedLoop_rest:
  assumes "feedLoop p = (cs, None, p')"
  shows "feedLoop p' = ([], None, p')"
proof -
  obtain cs' e q where f: "feedLoop p' = (cs', e, q)" by (metis prod_cases3)
  with feedLoop_extend [OF assms, of "[]"] assms show ?thesis by simp
qed

lemma feedAll_concat:
  assumes "\<not> failed p" "feedLoop p = ([], None, p)"
    "length (buffer p) + length (concat chunks) \<le> unat (maxBuffer p)"
    "feedLoop (extend p (concat chunks)) = (cs, None, p')"
  shows "feedAll p chunks = (cs, None, p')"
  using assms
proof (induction chunks arbitrary: p cs)
  case (Cons c chunks)
  obtain cs1 e1 p1 where f: "feedLoop (extend p c) = (cs1, e1, p1)" by (metis prod_cases3)
  have e1: "e1 = None"
    using feedLoop_error [of "extend p c" cs1 _ p1 "concat chunks"] f Cons.prems(4) by (cases e1) auto
  have fr: "maxBuffer p1 = maxBuffer p" "length (buffer p1) \<le> length (buffer p) + length c" "\<not> failed p1"
    using feedLoop_frame [OF f] e1 Cons.prems(1) by auto
  obtain cs2 e2 p2 where g: "feedLoop (extend p1 (concat chunks)) = (cs2, e2, p2)" by (metis prod_cases3)
  have "cs = cs1 @ cs2" "e2 = None" "p2 = p'"
    using feedLoop_extend [of "extend p c" cs1 p1 "concat chunks"] f g e1 Cons.prems(4) by auto
  moreover have "feedAll p1 chunks = (cs2, None, p')"
    by (rule Cons.IH) (use fr Cons.prems(3) g calculation feedLoop_rest [of "extend p c"] f e1 in auto)
  ultimately show ?case using Feed_fits [of p c] f e1 Cons.prems(1,3) by simp
qed simp

subsection \<open>Frames in, frames out\<close>

text \<open>A packet as it comes back from the wire: its body length filled in.\<close>

definition onWire :: "Packet \<Rightarrow> Packet" where
  "onWire p = p\<lparr>pk_Header := (pk_Header p)\<lparr>BodyLen := of_nat (length (pk_Body p))\<rparr>\<rparr>"

definition deliveries :: "Packet list \<Rightarrow> callback list" where
  "deliveries ps = concat (map (\<lambda>p. [OnHeader (pk_Header (onWire p)), OnPacket (onWire p)]) ps)"

lemma Packet_MarshalBinary_iff:
  "Packet_MarshalBinary p mb = Inr bs \<longleftrightarrow> length (pk_Body p) \<le> unat (if mb = 0 then DefaultMaxBody else mb)
     \<and> validMethod (Method (pk_Header p)) \<and> bs = headerBytes (pk_Header (onWire p)) @ pk_Body p"
proof -
  let ?h = "(pk_Header p)\<lparr>BodyLen := of_nat (length (pk_Body p))\<rparr>"
  show ?thesis
  proof (cases "Header_MarshalBinary ?h")
    case (Inl e)
    then have "\<not> validMethod (Method ?h)"
      using Header_MarshalBinary_iff [of ?h "headerBytes ?h"] by auto
    with Inl show ?thesis by (simp add: Packet_MarshalBinary_def Let_def)
  next
    case (Inr b)
    with Header_MarshalBinary_iff [of ?h b] show ?thesis
      by (auto simp: Packet_MarshalBinary_def onWire_def Let_def not_less)
  qed
qed

lemma unat_of_length:
  "n \<le> unat (m :: 32 word) \<Longrightarrow> unat (of_nat n :: 32 word) = n"
  using unsigned_less [of m, where 'a = nat] by (simp add: unat_of_nat)

lemma ParseHeader_frame:
  assumes "Packet_MarshalBinary pkt mb = Inr bs" "take 22 src = take 22 bs" "22 \<le> length src"
  shows "ParseHeader src mb = Inr (pk_Header (onWire pkt))"
proof -
  have v: "length (pk_Body pkt) \<le> unat (if mb = 0 then DefaultMaxBody else mb)"
    "validMethod (Method (pk_Header pkt))" "bs = headerBytes (pk_Header (onWire pkt)) @ pk_Body pkt"
    using assms(1) by (auto simp: Packet_MarshalBinary_iff)
  have "length (headerBytes (pk_Header (onWire pkt))) = 22"
    using v(2) by (simp add: onWire_def length_headerBytes)
  then have "take 22 src = headerBytes (pk_Header (onWire pkt))" using assms(2) v(3) by simp
  moreover have "BodyLen (pk_Header (onWire pkt)) \<le> (if mb = 0 then DefaultMaxBody else mb)"
    using v(1) unat_of_length [OF v(1)] by (simp add: onWire_def word_le_nat_alt del: unat_of_nat)
  moreover have "validMethod (Method (pk_Header (onWire pkt)))" using v(2) by (simp add: onWire_def)
  ultimately show ?thesis using assms(3) by (simp add: ParseHeader_iff)
qed

lemma length_frame:
  assumes "Packet_MarshalBinary pkt mb = Inr bs"
  shows "length bs = 22 + length (pk_Body pkt)" "drop 22 bs = pk_Body pkt"
    "unat (BodyLen (pk_Header (onWire pkt))) = length (pk_Body pkt)"
proof -
  have v: "length (pk_Body pkt) \<le> unat (if mb = 0 then DefaultMaxBody else mb)"
    "validMethod (Method (pk_Header pkt))" "bs = headerBytes (pk_Header (onWire pkt)) @ pk_Body pkt"
    using assms(1) by (auto simp: Packet_MarshalBinary_iff)
  have "length (headerBytes (pk_Header (onWire pkt))) = 22"
    using v(2) by (simp add: onWire_def length_headerBytes)
  with v(3) show "length bs = 22 + length (pk_Body pkt)" "drop 22 bs = pk_Body pkt" by simp_all
  show "unat (BodyLen (pk_Header (onWire pkt))) = length (pk_Body pkt)"
    using unat_of_length [OF v(1)] by (simp add: onWire_def)
qed

lemma next_frame_packet:
  assumes "\<not> failed p" "header p = None" "Packet_MarshalBinary pkt (maxBody p) = Inr bs" "buffer p = bs @ rest"
  shows "next_frame p = ([OnHeader (pk_Header (onWire pkt))], Inr (Some (onWire pkt)), p\<lparr>buffer := rest\<rparr>)"
proof -
  note l = length_frame [OF assms(3)]
  have "ParseHeader (take 22 (buffer p)) (maxBody p) = Inr (pk_Header (onWire pkt))"
    by (rule ParseHeader_frame [OF assms(3)]) (use assms(4) l in auto)
  moreover have "onWire pkt = \<lparr>pk_Header = pk_Header (onWire pkt), pk_Body = pk_Body pkt\<rparr>" by (simp add: onWire_def)
  moreover have "p\<lparr>header := None\<rparr> = p" using assms(2) by simp
  ultimately show ?thesis
    using assms l by (auto simp: next_frame_def takeBody_def HeaderSize_def Let_def)
qed

lemma feedLoop_packets:
  assumes "\<not> failed p" "header p = None" "buffer p = concat frames" "maxBody p = mb"
    "list_all2 (\<lambda>pkt bs. Packet_MarshalBinary pkt mb = Inr bs) pkts frames"
  shows "feedLoop p = (deliveries pkts, None, p\<lparr>buffer := []\<rparr>)"
  using assms(5,1-4)
proof (induction pkts frames arbitrary: p rule: list_all2_induct)
  case Nil
  then show ?case by (simp add: feedLoop_idle deliveries_def)
next
  case (Cons pkt pkts bs frames)
  have n: "next_frame p = ([OnHeader (pk_Header (onWire pkt))], Inr (Some (onWire pkt)), p\<lparr>buffer := concat frames\<rparr>)"
    by (rule next_frame_packet) (use Cons in auto)
  show ?case
  proof (cases "concat frames = []")
    case True
    have "pkts = []"
      using Cons.hyps(2) True by (cases pkts; cases frames) (auto dest: length_frame(1))
    with n True show ?thesis by (simp add: feedLoop.simps [of p] deliveries_def)
  next
    case False
    have "feedLoop (p\<lparr>buffer := concat frames\<rparr>) = (deliveries pkts, None, p\<lparr>buffer := []\<rparr>)"
      using Cons.IH [of "p\<lparr>buffer := concat frames\<rparr>"] Cons.prems by simp
    with n False show ?thesis
      by (simp add: feedLoop.simps [of p] deliveries_def del: concat_eq_Nil_conv)
  qed
qed

subsection \<open>Failures and bounds\<close>

lemma Feed_bounds:
  assumes "length (buffer p) \<le> unat (maxBuffer p)" "Feed p b = (cs, e, p')"
  shows "length (buffer p') \<le> unat (maxBuffer p')" "e \<noteq> None \<Longrightarrow> failed p'"
proof -
  consider "failed p" | "\<not> failed p" "\<not> length (buffer p) + length b \<le> unat (maxBuffer p)"
    | "\<not> failed p" "length (buffer p) + length b \<le> unat (maxBuffer p)" by auto
  then have "length (buffer p') \<le> unat (maxBuffer p') \<and> (e \<noteq> None \<longrightarrow> failed p')"
  proof cases
    case 3
    with assms(2) Feed_fits have f: "feedLoop (extend p b) = (cs, e, p')" by simp
    show ?thesis using feedLoop_frame [OF f] 3 by auto
  qed (use assms in \<open>auto simp: Feed_def Append_def\<close>)
  then show "length (buffer p') \<le> unat (maxBuffer p')" "e \<noteq> None \<Longrightarrow> failed p'" by auto
qed

subsection \<open>Properties\<close>

text \<open>A packet that marshals parses back to itself: the header parser, under the same body
  bound, returns the packet's header with the body length filled in, and the bytes after the
  header are the body. Conversely whatever the parser accepts is the marshalling of the header
  it returns, so accepted headers are canonical.\<close>

theorem packet_roundtrip:
  shows "(\<forall>pkt mb bs. Packet_MarshalBinary pkt mb = Inr bs \<longrightarrow>
      ParseHeader bs mb = Inr (pk_Header (onWire pkt)) \<and> drop HeaderSize bs = pk_Body pkt)
    \<and> (\<forall>src mb h. ParseHeader src mb = Inr h \<longrightarrow> Header_MarshalBinary h = Inr (take HeaderSize src))"
  using ParseHeader_frame length_frame
  by (simp add: HeaderSize_def ParseHeader_iff Header_MarshalBinary_iff)

definition samplePacket :: Packet where
  "samplePacket = \<lparr>pk_Header = \<lparr>PacketID = 0x01020304, Status = 0, Method = [77, 83, 71], BodyType = 0, BodyLen = 0\<rparr>,
     pk_Body = [1, 2, 3]\<rparr>"

definition sampleFrame :: "byte list" where
  "sampleFrame = [4, 3, 2, 1, 0, 0, 77, 83, 71, 0, 0, 0, 0, 0, 0, 0, 0, 0, 3, 0, 0, 0, 1, 2, 3]"

lemma sampleFrame_marshal: "Packet_MarshalBinary samplePacket 0 = Inr sampleFrame"
  by (simp add: Packet_MarshalBinary_iff samplePacket_def sampleFrame_def validMethod_def headerBytes_def
      onWire_def PutUint32_def PutUint16_def DefaultMaxBody_def) code_simp

theorem packet_roundtrip_witness:
  "ParseHeader sampleFrame 0 = Inr (pk_Header (onWire samplePacket)) \<and> drop HeaderSize sampleFrame = [1, 2, 3]"
  using packet_roundtrip sampleFrame_marshal by (simp add: samplePacket_def)



text \<open>A supply never makes a producer retain more than its buffer bound, an error leaves it
  failed, and a failed producer refuses every later supply without a call and without changing.\<close>

theorem producer_bounded_and_final:
  assumes "length (buffer p) \<le> unat (maxBuffer p)" "Feed p b = (cs, e, p')"
  shows "length (buffer p') \<le> unat (maxBuffer p')
    \<and> (e \<noteq> None \<longrightarrow> (\<forall>b'. Feed p' b' = ([], Some ErrProducerFailed, p')))"
  using Feed_bounds [OF assms] by (auto simp: Feed_def)

theorem producer_bounded_and_final_witness:
  "Feed (snd (snd (Feed (NewProducer 0 2) [1, 2, 3]))) [] = ([], Some ErrProducerFailed, snd (snd (Feed (NewProducer 0 2) [1, 2, 3])))"
  using producer_bounded_and_final [of "NewProducer 0 2" "[1, 2, 3]"]
  by (simp add: Feed_def Append_def NewProducer_def)

definition aead_correct ::
  "(byte list \<Rightarrow> byte list \<Rightarrow> byte list \<Rightarrow> byte list) \<Rightarrow> (byte list \<Rightarrow> byte list \<Rightarrow> byte list \<Rightarrow> byte list option) \<Rightarrow> bool" where
  "aead_correct seal unseal \<longleftrightarrow> (\<forall>k n m. unseal k n (seal k n m) = Some m \<and> length (seal k n m) = length m + V3TagSize)"

text \<open>What the secure layer encrypts it decrypts, under the same key and size bound, provided the
  authenticated cipher opens what it sealed and adds exactly its 16-byte tag.\<close>

theorem secure_roundtrip:
  assumes "aead_correct seal unseal" "length nonce = V3NonceSize"
    "Encrypt seal (Some nonce) (Some sv) plaintext = Inr envelope"
  shows "Decrypt unseal sv envelope = Inr plaintext"
proof -
  let ?s = "seal (sv_key sv) nonce plaintext"
  have l: "length ?s = length plaintext + 16" using assms(1) by (simp add: aead_correct_def V3TagSize_def)
  have fits: "12 + length plaintext + 16 \<le> unat (sv_maxSize sv)"
    and env: "envelope = PutUint32 (of_nat (length nonce + length ?s)) @ nonce @ ?s"
    using assms(3) by (auto simp: Encrypt_def Let_def V3NonceSize_def V3TagSize_def split: if_splits)
  have u: "unat (of_nat (length nonce + length ?s) :: 32 word) = 28 + length plaintext"
    using unat_of_length [of "28 + length plaintext" "sv_maxSize sv"] fits l assms(2)
    by (simp add: V3NonceSize_def add.commute)
  then have "\<not> of_nat (length nonce + length ?s) > sv_maxSize sv"
    using fits by (simp add: word_less_nat_alt del: unat_of_nat)
  with u env l assms(1,2) show ?thesis
    by (simp add: Decrypt_def Let_def V3NonceSize_def V3TagSize_def aead_correct_def del: of_nat_add)
qed

definition toySeal :: "byte list \<Rightarrow> byte list \<Rightarrow> byte list \<Rightarrow> byte list" where
  "toySeal k n m = m @ replicate 16 0"

definition toyUnseal :: "byte list \<Rightarrow> byte list \<Rightarrow> byte list \<Rightarrow> byte list option" where
  "toyUnseal k n c = Some (take (length c - 16) c)"

theorem secure_roundtrip_witness:
  "Decrypt toyUnseal \<lparr>sv_key = [], sv_maxSize = 100\<rparr>
     (projr (Encrypt toySeal (Some (replicate 12 1)) (Some \<lparr>sv_key = [], sv_maxSize = 100\<rparr>) [7, 8])) = Inr [7, 8]"
  by (rule secure_roundtrip [where seal = toySeal and nonce = "replicate 12 1"])
    (simp_all add: aead_correct_def toySeal_def toyUnseal_def V3TagSize_def V3NonceSize_def Encrypt_def Let_def)

end
