(* ===== verification/Wire.thy ===== *)
theory Wire
  imports Loco_Stream
begin

text \<open>
  \<open>src/internal/client/wire.go\<close>: one framed LOCO connection. The connection is the bytes that the
  peer still delivers and the error that its end reports; what is written is the list of payloads.
  Reading a plain connection takes exactly one frame; reading a secure one decrypts envelopes into the
  producer of \<open>Loco\<close> until a frame is complete. AES-GCM (\<open>seal\<close>, \<open>unseal\<close>), the RSA wrapping of
  the key, dials, writes and random bytes are answers, as in \<open>Loco\<close>.
\<close>

record wireConn =
  wc_stream :: "byte list"
  wc_end :: go_error
  wc_secure :: "SecureV3 option"
  wc_producer :: "Producer option"
  wc_observed :: "Packet list option"
  wc_written :: "byte list list"

type_synonym seal = "byte list \<Rightarrow> byte list \<Rightarrow> byte list \<Rightarrow> byte list"
type_synonym unseal = "byte list \<Rightarrow> byte list \<Rightarrow> byte list \<Rightarrow> byte list option"

subsection \<open>Reading\<close>

text \<open>
  \<open>io.ReadFull\<close> into a buffer of \<open>n\<close> bytes: what was read, and the rest of the stream. A stream
  that ends inside the buffer with \<open>io.EOF\<close> is \<open>io.ErrUnexpectedEOF\<close>.
\<close>

definition ReadFull :: "go_error \<Rightarrow> nat \<Rightarrow> byte list \<Rightarrow> byte list result \<times> byte list" where
  "ReadFull fin n s =
     (if n \<le> length s then (Inr (take n s), drop n s)
      else (Inl (if s \<noteq> [] \<and> fin = io_EOF then io_ErrUnexpectedEOF else fin), []))"

definition readPlain :: "go_error \<Rightarrow> byte list \<Rightarrow> Packet result \<times> byte list" where
  "readPlain fin s =
     (case ReadFull fin HeaderSize s of
        (Inl e, s1) \<Rightarrow> (Inl e, s1)
      | (Inr raw, s1) \<Rightarrow>
          (case ParseHeader raw 0 of
             Inl e \<Rightarrow> (Inl e, s1)
           | Inr h \<Rightarrow>
               (case ReadFull fin (unat (BodyLen h)) s1 of
                  (Inl e, s2) \<Rightarrow> (Inl e, s2)
                | (Inr body, s2) \<Rightarrow> (Inr \<lparr>pk_Header = h, pk_Body = body\<rparr>, s2))))"

function readSecure ::
    "unseal \<Rightarrow> SecureV3 \<Rightarrow> go_error \<Rightarrow> Producer \<Rightarrow> byte list \<Rightarrow> Packet result \<times> Producer \<times> byte list" where
  "readSecure unseal sv fin p s =
     (case Next p of
        (Inl e, p1) \<Rightarrow> (Inl e, p1, s)
      | (Inr (Some packet), p1) \<Rightarrow> (Inr packet, p1, s)
      | (Inr None, p1) \<Rightarrow>
          (case ReadFull fin 4 s of
             (Inl e, s1) \<Rightarrow> (Inl (if errors_Is e io_EOF \<and> Buffered p1 > 0 then io_ErrUnexpectedEOF else e), p1, s1)
           | (Inr prefix, s1) \<Rightarrow>
               (let n = Uint32 prefix
                in if n = 0 then readSecure unseal sv fin p1 s1
                   else if n > DefaultMaxCiphertext then (Inl ErrCiphertextTooLarge, p1, s1)
                   else
                     (case ReadFull fin (unat n) s1 of
                        (Inl e, s2) \<Rightarrow> (Inl e, p1, s2)
                      | (Inr body, s2) \<Rightarrow>
                          (case Decrypt unseal sv (prefix @ body) of
                             Inl e \<Rightarrow> (Inl e, p1, s2)
                           | Inr plaintext \<Rightarrow>
                               (case Append p1 plaintext of
                                  (Some e, p2) \<Rightarrow> (Inl e, p2, s2)
                                | (None, p2) \<Rightarrow> readSecure unseal sv fin p2 s2))))))"
  by pat_completeness auto
termination
  by (relation "measure (\<lambda>(unseal, sv, fin, p, s). length s)") (auto simp: ReadFull_def split: if_splits)

declare readSecure.simps [simp del]

definition readFrame :: "unseal \<Rightarrow> wireConn \<Rightarrow> Packet result \<times> wireConn" where
  "readFrame unseal w =
     (case wc_secure w of
        None \<Rightarrow> (let (r, s) = readPlain (wc_end w) (wc_stream w) in (r, w\<lparr>wc_stream := s\<rparr>))
      | Some sv \<Rightarrow>
          (let p = (case wc_producer w of None \<Rightarrow> NewProducer 0 0 | Some p \<Rightarrow> p);
               (r, p', s) = readSecure unseal sv (wc_end w) p (wc_stream w)
           in (r, w\<lparr>wc_stream := s, wc_producer := Some p'\<rparr>)))"

definition read_wire :: "unseal \<Rightarrow> wireConn \<Rightarrow> Packet result \<times> wireConn" where
  "read_wire unseal w =
     (case readFrame unseal w of
        (Inl e, w1) \<Rightarrow> (Inl e, w1)
      | (Inr packet, w1) \<Rightarrow> (Inr packet, w1\<lparr>wc_observed := map_option (\<lambda>seen. seen @ [packet]) (wc_observed w1)\<rparr>))"

subsection \<open>A request on a connection of its own\<close>

definition requestLimit :: nat where "requestLimit = 64"

definition BodyTypeBSON :: byte where "BodyTypeBSON = 0"

definition requestPacket :: "32 word \<Rightarrow> byte list \<Rightarrow> byte list \<Rightarrow> Packet" where
  "requestPacket packetID command body =
     \<lparr>pk_Header = \<lparr>PacketID = packetID, Status = 0, Method = command, BodyType = BodyTypeBSON, BodyLen = 0\<rparr>, pk_Body = body\<rparr>"

text \<open>What a request puts on the wire: the frame, encrypted on a secure connection.\<close>

definition encodeRequest ::
    "seal \<Rightarrow> byte list option \<Rightarrow> SecureV3 option \<Rightarrow> 32 word \<Rightarrow> byte list \<Rightarrow> byte list \<Rightarrow> byte list result" where
  "encodeRequest seal random secure packetID command body =
     (case Packet_MarshalBinary (requestPacket packetID command body) 0 of
        Inl e \<Rightarrow> Inl e
      | Inr raw \<Rightarrow> if secure = None then Inr raw else Encrypt seal random secure raw)"

fun awaitReply ::
    "unseal \<Rightarrow> 32 word \<Rightarrow> byte list \<Rightarrow> nat \<Rightarrow> wireConn \<Rightarrow> Packet result \<times> Packet list \<times> wireConn" where
  "awaitReply unseal packetID command 0 w = (Inl (ErrProtocolAt (map (char_of \<circ> uint) command) ''reply''), [], w)"
| "awaitReply unseal packetID command (Suc n) w =
     (case read_wire unseal w of
        (Inl e, w1) \<Rightarrow> (Inl e, [], w1)
      | (Inr packet, w1) \<Rightarrow>
          if PacketID (pk_Header packet) = packetID \<and> Method (pk_Header packet) = command
          then (Inr packet, [], w1)
          else (let (r, unsolicited, w2) = awaitReply unseal packetID command n w1 in (r, packet # unsolicited, w2)))"

definition wire_request ::
    "seal \<Rightarrow> unseal \<Rightarrow> byte list option \<Rightarrow> go_error option \<Rightarrow> 32 word \<Rightarrow> byte list \<Rightarrow> byte list \<Rightarrow> wireConn
     \<Rightarrow> Packet result \<times> Packet list \<times> wireConn" where
  "wire_request seal unseal random writeErr packetID command body w =
     (case encodeRequest seal random (wc_secure w) packetID command body of
        Inl e \<Rightarrow> (Inl e, [], w)
      | Inr raw \<Rightarrow>
          (case writeErr of
             Some e \<Rightarrow> (Inl e, [], w)
           | None \<Rightarrow> awaitReply unseal packetID command requestLimit (w\<lparr>wc_written := wc_written w @ [raw]\<rparr>)))"

subsection \<open>Dialing\<close>

text \<open>
  \<open>dialSecure\<close>: the answers are the dial (the bytes the peer delivers and its end, or the error), the
  random key, the wrapped key and the error of the handshake write. The flag says whether a dialed
  connection was closed again.
\<close>

definition dialTLS :: "(byte list \<times> go_error) result \<Rightarrow> wireConn result" where
  "dialTLS dial =
     (case dial of
        Inl e \<Rightarrow> Inl e
      | Inr (s, fin) \<Rightarrow> Inr \<lparr>wc_stream = s, wc_end = fin, wc_secure = None, wc_producer = None, wc_observed = None, wc_written = []\<rparr>)"

definition dialSecure ::
    "(byte list \<times> go_error) result \<Rightarrow> byte list option \<Rightarrow> (byte list \<Rightarrow> byte list option) \<Rightarrow> go_error option
     \<Rightarrow> bool \<times> wireConn result" where
  "dialSecure dial random wrap writeErr =
     (case dial of
        Inl e \<Rightarrow> (False, Inl e)
      | Inr (s, fin) \<Rightarrow>
          (case NewSecureV3 random 0 of
             Inl e \<Rightarrow> (True, Inl e)
           | Inr secure \<Rightarrow>
               (case Handshake wrap (Some secure) of
                  Inl e \<Rightarrow> (True, Inl e)
                | Inr handshake \<Rightarrow>
                    (case writeErr of
                       Some e \<Rightarrow> (True, Inl e)
                     | None \<Rightarrow> (False, Inr \<lparr>wc_stream = s, wc_end = fin, wc_secure = Some secure, wc_producer = None,
                                           wc_observed = None, wc_written = [handshake]\<rparr>)))))"

subsection \<open>The stream a connection delivers\<close>

text \<open>A producer that has read nothing of the next frame, and one that differs at most in a header it keeps.\<close>

definition idle :: "Producer \<Rightarrow> bool" where
  "idle q \<longleftrightarrow> \<not> failed q \<and> header q = None \<and> maxBody q = DefaultMaxBody \<and> maxBuffer q = DefaultMaxBuffer"

definition resumes :: "Producer \<Rightarrow> Producer \<Rightarrow> bool" where
  "resumes p q \<longleftrightarrow> idle q \<and> \<not> failed p \<and> buffer p = buffer q \<and> maxBuffer p = DefaultMaxBuffer
     \<and> (\<forall>c. Next (Loco_Stream.extend p c) = Next (Loco_Stream.extend q c))"

lemma idle_simps [simp]: "idle (NewProducer 0 0)" "idle (Loco_Stream.extend q c) = idle q" "idle (q\<lparr>buffer := b\<rparr>) = idle q"
  by (simp_all add: idle_def NewProducer_def)

lemma resumes_refl: "idle q \<Longrightarrow> resumes q q"
  by (simp add: resumes_def idle_def)

lemma resumes_extend: "resumes p q \<Longrightarrow> resumes (Loco_Stream.extend p c) (Loco_Stream.extend q c)"
  by (simp add: resumes_def)

lemma resumes_Next: "resumes p q \<Longrightarrow> Next p = Next q"
  unfolding resumes_def by (metis extend_simps(6))

lemma resumes_wait:
  assumes "resumes p q" "Next p = (Inr None, p1)"
  shows "resumes p1 q"
proof -
  from assms resumes_Next have "Next q = (Inr None, p1)" by simp
  then obtain cs where n: "next_frame q = (cs, Inr None, p1)" unfolding Next_def by (metis prod.collapse)
  have "Next (Loco_Stream.extend q c) = Next (Loco_Stream.extend p1 c)" for c
    using next_frame_None(1) [OF n, of c] by (simp add: Next_def split: prod.splits)
  then show ?thesis
    using assms(1) next_frame_None(2-5) [OF n] by (simp add: resumes_def idle_def)
qed

lemma marshal_default: "Packet_MarshalBinary pkt DefaultMaxBody = Packet_MarshalBinary pkt 0"
  by (simp add: Packet_MarshalBinary_def)

lemma Next_whole:
  assumes "idle q" "Packet_MarshalBinary pkt 0 = Inr f" "buffer q = f @ rest"
  shows "Next q = (Inr (Some (onWire pkt)), q\<lparr>buffer := rest\<rparr>)"
  using next_frame_packet [of q pkt f rest] assms by (simp add: idle_def marshal_default Next_def)

lemma Next_short:
  assumes "idle q" "Packet_MarshalBinary pkt 0 = Inr f" "f = buffer q @ z" "z \<noteq> []"
  shows "\<exists>p1. Next q = (Inr None, p1)"
proof (cases "length (buffer q) < 22")
  case True
  then show ?thesis using assms(1) by (simp add: Next_def next_frame_def idle_def HeaderSize_def)
next
  case False
  note l = length_frame [OF assms(2)]
  have "Packet_MarshalBinary pkt DefaultMaxBody = Inr f" using assms(2) by (simp add: marshal_default)
  from ParseHeader_frame [OF this, of "take 22 (buffer q)"]
  have "ParseHeader (take 22 (buffer q)) DefaultMaxBody = Inr (pk_Header (onWire pkt))" using False assms(3) by simp
  moreover have "length (buffer q) < 22 + length (pk_Body pkt)" using l(1) assms(3,4) by (metis add_less_cancel_left length_append length_greater_0_conv add.right_neutral)
  ultimately show ?thesis
    using assms(1) False l(3) by (simp add: Next_def next_frame_def idle_def HeaderSize_def takeBody_def)
qed

text \<open>An envelope: one encrypted chunk of the sender's frame stream.\<close>

definition envelopeOf :: "seal \<Rightarrow> SecureV3 \<Rightarrow> byte list \<Rightarrow> byte list \<Rightarrow> bool" where
  "envelopeOf seal sv chunk env \<longleftrightarrow> (\<exists>nonce. length nonce = V3NonceSize \<and> Encrypt seal (Some nonce) (Some sv) chunk = Inr env)"

lemma envelope_read:
  assumes "aead_correct seal unseal" "sv_maxSize sv = DefaultMaxCiphertext" "envelopeOf seal sv chunk env"
  shows "\<exists>body. env = take 4 env @ body \<and> length (take 4 env) = 4 \<and> Uint32 (take 4 env) \<noteq> 0
    \<and> Uint32 (take 4 env) \<le> DefaultMaxCiphertext \<and> unat (Uint32 (take 4 env)) = length body
    \<and> Decrypt unseal sv env = Inr chunk \<and> length chunk \<le> unat DefaultMaxBody + 22"
proof -
  from assms(3) obtain nonce where n: "length nonce = 12" "Encrypt seal (Some nonce) (Some sv) chunk = Inr env"
    by (auto simp: envelopeOf_def V3NonceSize_def)
  let ?s = "seal (sv_key sv) nonce chunk"
  have l: "length ?s = length chunk + 16" using assms(1) by (simp add: aead_correct_def V3TagSize_def)
  have e: "env = PutUint32 (of_nat (12 + length ?s)) @ nonce @ ?s" "12 + length chunk + 16 \<le> unat DefaultMaxCiphertext"
    using n assms(2) by (auto simp: Encrypt_def V3NonceSize_def V3TagSize_def Let_def split: if_splits)
  have u: "unat (of_nat (12 + length ?s) :: 32 word) = 12 + length ?s"
    by (rule unat_of_length [of _ DefaultMaxCiphertext]) (use e(2) l in simp)
  have "Decrypt unseal sv env = Inr chunk"
    using secure_roundtrip [OF assms(1) _ n(2)] n(1) by (simp add: V3NonceSize_def)
  moreover have "length chunk \<le> unat DefaultMaxBody + 22"
    using e(2) by (simp add: DefaultMaxCiphertext_def DefaultMaxBody_def)
  moreover have "Uint32 (take 4 env) = of_nat (12 + length ?s)" by (simp add: e(1))
  moreover have "(of_nat (12 + length ?s) :: 32 word) \<le> DefaultMaxCiphertext"
    unfolding word_le_nat_alt u using e(2) l by simp
  moreover have "(of_nat (12 + length ?s) :: 32 word) \<noteq> 0"
    using u by (metis add_is_0 unat_0 zero_neq_numeral)
  ultimately show ?thesis
    using u n(1) by (intro exI [of _ "nonce @ ?s"]) (simp add: e(1))
qed

lemma readSecure_envelope:
  assumes "aead_correct seal unseal" "sv_maxSize sv = DefaultMaxCiphertext" "envelopeOf seal sv chunk env"
    and "resumes p q" "Next q = (Inr None, p1)" "length (buffer q) \<le> unat DefaultMaxBody + 22"
  shows "\<exists>p2. readSecure unseal sv fin p (env @ s) = readSecure unseal sv fin p2 s \<and> resumes p2 (Loco_Stream.extend q chunk)"
proof -
  from envelope_read [OF assms(1-3)] obtain pre body where e: "env = pre @ body" "length pre = 4" "Uint32 pre \<noteq> 0"
    "Uint32 pre \<le> DefaultMaxCiphertext" "unat (Uint32 pre) = length body" "Decrypt unseal sv (pre @ body) = Inr chunk"
    "length chunk \<le> unat DefaultMaxBody + 22" by metis
  have n: "Next p = (Inr None, p1)" using resumes_Next [OF assms(4)] assms(5) by simp
  note r1 = resumes_wait [OF assms(4) n]
  have "unat DefaultMaxBuffer = 2 * (unat DefaultMaxBody + 22)" by (simp add: DefaultMaxBuffer_def DefaultMaxBody_def)
  then have a: "Append p1 chunk = (None, Loco_Stream.extend p1 chunk)"
    using r1 assms(6) e(7) by (simp add: Append_def resumes_def Loco_Stream.extend_def)
  have "readSecure unseal sv fin p (env @ s) = readSecure unseal sv fin (Loco_Stream.extend p1 chunk) s"
    using e n a leD [OF e(4)] by (subst readSecure.simps) (simp add: ReadFull_def Let_def)
  then show ?thesis using resumes_extend [OF r1] by blast
qed

lemma readSecure_packet:
  assumes "aead_correct seal unseal" "sv_maxSize sv = DefaultMaxCiphertext" "Packet_MarshalBinary pkt 0 = Inr f"
    and "list_all2 (envelopeOf seal sv) chunks envs" "resumes p q" "buffer q @ concat chunks = f @ rest"
  shows "\<exists>p' q' chunks' envs'. readSecure unseal sv fin p (concat envs) = (Inr (onWire pkt), p', concat envs')
    \<and> resumes p' q' \<and> list_all2 (envelopeOf seal sv) chunks' envs' \<and> buffer q' @ concat chunks' = rest"
  using assms(4-6)
proof (induction chunks envs arbitrary: p q rule: list_all2_induct)
  case Nil
  then have "Next p = (Inr (Some (onWire pkt)), q\<lparr>buffer := rest\<rparr>)"
    using resumes_Next [OF Nil(1)] Next_whole [OF _ assms(3), of q rest] by (simp add: resumes_def)
  then show ?case
    using Nil(1) by (intro exI [of _ "q\<lparr>buffer := rest\<rparr>"] exI [of _ "[]"])
      (subst readSecure.simps, auto simp: resumes_def idle_def)
next
  case (Cons chunk chunks env envs)
  from Cons.prems(2) consider (whole) z where "buffer q = f @ z" "z @ chunk @ concat chunks = rest"
    | (short) z where "f = buffer q @ z" "z \<noteq> []" "chunk @ concat chunks = z @ rest"
    unfolding append_eq_append_conv2 [of "buffer q" _ f] by (metis append_Nil append_Nil2 concat.simps(2))
  then show ?case
  proof cases
    case whole
    have "Next p = (Inr (Some (onWire pkt)), q\<lparr>buffer := z\<rparr>)"
      using resumes_Next [OF Cons.prems(1)] Next_whole [OF _ assms(3) whole(1)] Cons.prems(1) by (simp add: resumes_def)
    then show ?thesis
      using Cons.prems(1) Cons.hyps whole(2)
      by (intro exI [of _ "q\<lparr>buffer := z\<rparr>"] exI [of _ "chunk # chunks"] exI [of _ "env # envs"])
        (subst readSecure.simps, auto simp: resumes_def idle_def)
  next
    case short
    have "idle q" using Cons.prems(1) by (simp add: resumes_def)
    from Next_short [OF this assms(3) short(1,2)] obtain p1 where n: "Next q = (Inr None, p1)" by blast
    have len: "length (buffer q) \<le> unat DefaultMaxBody + 22"
    proof -
      have "length (buffer q) \<le> length f" by (simp add: short(1))
      also have "\<dots> \<le> 22 + unat DefaultMaxBody"
        using length_frame(1) [OF assms(3)] assms(3) by (simp add: Packet_MarshalBinary_iff)
      finally show ?thesis by simp
    qed
    from readSecure_envelope [OF assms(1,2) Cons.hyps(1) Cons.prems(1) n len, of fin "concat envs"]
    obtain p2 where p2: "readSecure unseal sv fin p (env @ concat envs) = readSecure unseal sv fin p2 (concat envs)"
      "resumes p2 (Loco_Stream.extend q chunk)" by blast
    from Cons.IH [OF p2(2)] short(1,3) p2(1) show ?thesis by simp
  qed
qed

lemma readSecure_end:
  assumes "aead_correct seal unseal" "sv_maxSize sv = DefaultMaxCiphertext"
    and "list_all2 (envelopeOf seal sv) chunks envs" "resumes p q" "buffer q = []" "concat chunks = []"
  shows "\<exists>p'. readSecure unseal sv io_EOF p (concat envs) = (Inl io_EOF, p', [])"
  using assms(3-6)
proof (induction chunks envs arbitrary: p q rule: list_all2_induct)
  case Nil
  have n: "Next q = (Inr None, q)" using Nil(1,2) by (simp add: resumes_def idle_def Next_def next_frame_def HeaderSize_def)
  then show ?case using resumes_Next [OF Nil(1)] Nil(2)
    by (subst readSecure.simps) (simp add: ReadFull_def Buffered_def errors_Is.simps)
next
  case (Cons chunk chunks env envs)
  have n: "Next q = (Inr None, q)"
    using Cons.prems(1,2) by (simp add: resumes_def idle_def Next_def next_frame_def HeaderSize_def)
  from readSecure_envelope [OF assms(1,2) Cons.hyps(1) Cons.prems(1) n, of io_EOF "concat envs"] Cons.prems
  obtain p2 where p2: "readSecure unseal sv io_EOF p (env @ concat envs) = readSecure unseal sv io_EOF p2 (concat envs)"
    "resumes p2 (Loco_Stream.extend q chunk)" by auto
  from Cons.IH [OF p2(2)] Cons.prems p2(1) show ?case by simp
qed

text \<open>Reading a connection until it fails.\<close>

fun reads :: "unseal \<Rightarrow> nat \<Rightarrow> wireConn \<Rightarrow> Packet result list \<times> wireConn" where
  "reads unseal 0 w = ([], w)"
| "reads unseal (Suc n) w = (let (r, w1) = read_wire unseal w; (rs, w2) = reads unseal n w1 in (r # rs, w2))"

lemma readPlain_packet:
  assumes "Packet_MarshalBinary pkt 0 = Inr f"
  shows "readPlain fin (f @ s) = (Inr (onWire pkt), s)"
proof -
  note l = length_frame [OF assms]
  have "ParseHeader (take 22 f) 0 = Inr (pk_Header (onWire pkt))"
    by (rule ParseHeader_frame [OF assms]) (use l in auto)
  moreover have "onWire pkt = \<lparr>pk_Header = pk_Header (onWire pkt), pk_Body = pk_Body pkt\<rparr>" by (simp add: onWire_def)
  ultimately show ?thesis using l by (simp add: readPlain_def ReadFull_def HeaderSize_def)
qed

lemma reads_plain:
  assumes "list_all2 (\<lambda>pkt f. Packet_MarshalBinary pkt 0 = Inr f) pkts frames"
  shows "wc_secure w = None \<Longrightarrow> wc_end w = io_EOF \<Longrightarrow> wc_stream w = concat frames \<Longrightarrow>
    \<exists>w'. reads unseal (Suc (length pkts)) w = (map (Inr \<circ> onWire) pkts @ [Inl io_EOF], w')
      \<and> wc_observed w' = map_option (\<lambda>seen. seen @ map onWire pkts) (wc_observed w)"
  using assms
proof (induction pkts frames arbitrary: w rule: list_all2_induct)
  case Nil
  then show ?case by (simp add: read_wire_def readFrame_def readPlain_def ReadFull_def HeaderSize_def option.map_ident)
next
  case (Cons pkt pkts f frames)
  let ?w1 = "w\<lparr>wc_stream := concat frames, wc_observed := map_option (\<lambda>seen. seen @ [onWire pkt]) (wc_observed w)\<rparr>"
  have "read_wire unseal w = (Inr (onWire pkt), ?w1)"
    using readPlain_packet [OF Cons.hyps(1)] Cons.prems by (simp add: read_wire_def readFrame_def)
  with Cons.IH [of ?w1] Cons.prems show ?case
    by (auto simp: Let_def option.map_comp comp_def split: prod.splits)
qed

lemma reads_secure:
  assumes "aead_correct seal unseal" "sv_maxSize sv = DefaultMaxCiphertext"
    and "list_all2 (\<lambda>pkt f. Packet_MarshalBinary pkt 0 = Inr f) pkts frames"
  shows "wc_secure w = Some sv \<Longrightarrow> wc_end w = io_EOF \<Longrightarrow> resumes (case wc_producer w of None \<Rightarrow> NewProducer 0 0 | Some p \<Rightarrow> p) q \<Longrightarrow>
    list_all2 (envelopeOf seal sv) chunks envs \<Longrightarrow> wc_stream w = concat envs \<Longrightarrow> buffer q @ concat chunks = concat frames \<Longrightarrow>
    \<exists>w'. reads unseal (Suc (length pkts)) w = (map (Inr \<circ> onWire) pkts @ [Inl io_EOF], w')
      \<and> wc_observed w' = map_option (\<lambda>seen. seen @ map onWire pkts) (wc_observed w)"
  using assms(3)
proof (induction pkts frames arbitrary: w q chunks envs rule: list_all2_induct)
  case Nil
  from readSecure_end [OF assms(1,2) Nil(4,3)] Nil(6) obtain p' where
    "readSecure unseal sv io_EOF (case wc_producer w of None \<Rightarrow> NewProducer 0 0 | Some p \<Rightarrow> p) (concat envs) = (Inl io_EOF, p', [])"
    by auto
  then show ?case using Nil by (simp add: read_wire_def readFrame_def option.map_ident)
next
  case (Cons pkt pkts f frames)
  let ?p = "case wc_producer w of None \<Rightarrow> NewProducer 0 0 | Some p \<Rightarrow> p"
  have "buffer q @ concat chunks = f @ concat frames" using Cons.prems(6) by simp
  from readSecure_packet [OF assms(1,2) Cons.hyps(1) Cons.prems(4,3) this, of io_EOF] obtain p' q' chunks' envs'
    where r: "readSecure unseal sv io_EOF ?p (concat envs) = (Inr (onWire pkt), p', concat envs')"
      "resumes p' q'" "list_all2 (envelopeOf seal sv) chunks' envs'" "buffer q' @ concat chunks' = concat frames" by blast
  let ?w1 = "w\<lparr>wc_stream := concat envs', wc_producer := Some p',
    wc_observed := map_option (\<lambda>seen. seen @ [onWire pkt]) (wc_observed w)\<rparr>"
  have "read_wire unseal w = (Inr (onWire pkt), ?w1)"
    using r(1) Cons.prems by (simp add: read_wire_def readFrame_def)
  with Cons.IH [of ?w1 q' chunks' envs'] Cons.prems r show ?case
    by (auto simp: Let_def option.map_comp comp_def split: prod.splits)
qed

subsection \<open>Properties\<close>

text \<open>
  C38: A connection delivers exactly the packets its peer sent. On a plain connection whose bytes are the
  frames of a list of packets, and on a secure connection whose bytes are envelopes that encrypt
  the same frames, cut into chunks in any way, repeated reads return every packet, in order, with
  nothing lost, merged or repeated, and then the end of the stream; an observer sees the same
  packets. The cipher opens what it sealed and adds its 16-byte tag.
\<close>

theorem wire_delivers_stream:
  assumes "aead_correct seal unseal" "sv_maxSize sv = DefaultMaxCiphertext"
    and "list_all2 (\<lambda>pkt f. Packet_MarshalBinary pkt 0 = Inr f) pkts frames"
    and "list_all2 (envelopeOf seal sv) chunks envs" "concat chunks = concat frames"
    and "wc_producer w = None" "wc_end w = io_EOF"
    and "wc_secure w = None \<and> wc_stream w = concat frames \<or> wc_secure w = Some sv \<and> wc_stream w = concat envs"
  shows "\<exists>w'. reads unseal (Suc (length pkts)) w = (map (Inr \<circ> onWire) pkts @ [Inl io_EOF], w')
    \<and> wc_observed w' = map_option (\<lambda>seen. seen @ map onWire pkts) (wc_observed w)"
  using assms(8)
proof
  assume "wc_secure w = None \<and> wc_stream w = concat frames"
  then show ?thesis using reads_plain [OF assms(3)] assms(7) by blast
next
  assume s: "wc_secure w = Some sv \<and> wc_stream w = concat envs"
  have "resumes (case wc_producer w of None \<Rightarrow> NewProducer 0 0 | Some p \<Rightarrow> p) (NewProducer 0 0)"
    using assms(6) by (simp add: resumes_refl)
  then show ?thesis
    using reads_secure [OF assms(1-3) _ assms(7) _ assms(4)] s assms(5) by (simp add: NewProducer_def)
qed

definition sampleSecure :: SecureV3 where
  "sampleSecure = \<lparr>sv_key = [], sv_maxSize = DefaultMaxCiphertext\<rparr>"

definition sampleEnvelope :: "byte list \<Rightarrow> byte list" where
  "sampleEnvelope chunk = PutUint32 (of_nat (28 + length chunk)) @ replicate 12 1 @ toySeal [] [] chunk"

lemma sampleEnvelope: "length chunk \<le> 1000 \<Longrightarrow> envelopeOf toySeal sampleSecure chunk (sampleEnvelope chunk)"
  unfolding envelopeOf_def
  by (rule exI [of _ "replicate 12 1"])
    (simp add: V3NonceSize_def V3TagSize_def Encrypt_def sampleSecure_def sampleEnvelope_def toySeal_def
      DefaultMaxCiphertext_def DefaultMaxBody_def)

lemma toy_aead: "aead_correct toySeal toyUnseal"
  by (simp add: aead_correct_def toySeal_def toyUnseal_def V3TagSize_def)

theorem wire_delivers_stream_witness:
  "\<exists>w'. reads toyUnseal 3
      \<lparr>wc_stream = concat (map sampleEnvelope [take 7 sampleFrame, drop 7 sampleFrame @ take 24 sampleFrame, drop 24 sampleFrame]),
       wc_end = io_EOF, wc_secure = Some sampleSecure, wc_producer = None, wc_observed = Some [], wc_written = []\<rparr>
     = ([Inr (onWire samplePacket), Inr (onWire samplePacket), Inl io_EOF], w') \<and> wc_observed w' = Some [onWire samplePacket, onWire samplePacket]"
proof -
  let ?chunks = "[take 7 sampleFrame, drop 7 sampleFrame @ take 24 sampleFrame, drop 24 sampleFrame]"
  let ?w = "\<lparr>wc_stream = concat (map sampleEnvelope ?chunks),
       wc_end = io_EOF, wc_secure = Some sampleSecure, wc_producer = None, wc_observed = Some [], wc_written = []\<rparr>"
  have e: "list_all2 (envelopeOf toySeal sampleSecure) ?chunks (map sampleEnvelope ?chunks)"
    by (simp add: sampleEnvelope sampleFrame_def)
  have f: "list_all2 (\<lambda>pkt f. Packet_MarshalBinary pkt 0 = Inr f) [samplePacket, samplePacket] [sampleFrame, sampleFrame]"
    by (simp add: sampleFrame_marshal)
  show ?thesis
    using wire_delivers_stream [OF toy_aead _ f e, of ?w]
    by (simp add: sampleSecure_def sampleFrame_def numeral_3_eq_3 del: reads.simps)
qed

lemma awaitReply_reads:
  assumes "awaitReply unseal packetID command n w = (r, unsolicited, w')"
  shows "(\<forall>u\<in>set unsolicited. \<not> (PacketID (pk_Header u) = packetID \<and> Method (pk_Header u) = command)) \<and> length unsolicited \<le> n
    \<and> (case r of Inr packet \<Rightarrow> length unsolicited < n \<and> PacketID (pk_Header packet) = packetID \<and> Method (pk_Header packet) = command
          \<and> reads unseal (Suc (length unsolicited)) w = (map Inr unsolicited @ [Inr packet], w')
       | Inl e \<Rightarrow> reads unseal n w = (map Inr unsolicited, w') \<and> length unsolicited = n
          \<or> reads unseal (Suc (length unsolicited)) w = (map Inr unsolicited @ [Inl e], w') \<and> length unsolicited < n)"
  using assms
proof (induction n arbitrary: w unsolicited)
  case 0
  then show ?case by auto
next
  case (Suc n)
  obtain r1 w1 where rd: "read_wire unseal w = (r1, w1)" by (metis surj_pair)
  show ?case
  proof (cases r1)
    case (Inl e)
    then show ?thesis using Suc.prems rd by auto
  next
    case (Inr packet)
    obtain r2 us w2 where a: "awaitReply unseal packetID command n w1 = (r2, us, w2)" by (metis prod_cases3)
    show ?thesis
    proof (cases "PacketID (pk_Header packet) = packetID \<and> Method (pk_Header packet) = command")
      case True
      then show ?thesis using Suc.prems rd Inr by auto
    next
      case False
      with Suc.prems rd Inr a have e: "r2 = r" "unsolicited = packet # us" "w2 = w'" by (auto split: if_splits)
      show ?thesis using Suc.IH [OF a [unfolded e]] False rd Inr e(2) by (auto simp: Let_def split: sum.splits prod.splits)
    qed
  qed
qed

text \<open>
  A request on a connection of its own returns only its own reply. The packet returned is the first
  one read whose packet ID and method are those of the request; the packets read before it,
  fewer than 64, are handed back as unsolicited, in order; nothing beyond the reply is read; and
  exactly one payload was written, the request's frame in the connection's encoding. Without a
  reply among 64 packets the request fails.
\<close>

theorem wire_request_matches:
  assumes "wire_request seal unseal random None packetID command body w = (r, unsolicited, w')"
    and "encodeRequest seal random (wc_secure w) packetID command body = Inr raw"
  shows "(\<forall>u\<in>set unsolicited. \<not> (PacketID (pk_Header u) = packetID \<and> Method (pk_Header u) = command)) \<and> length unsolicited \<le> 64
    \<and> (case r of Inr packet \<Rightarrow> length unsolicited < 64 \<and> PacketID (pk_Header packet) = packetID \<and> Method (pk_Header packet) = command
          \<and> reads unseal (Suc (length unsolicited)) (w\<lparr>wc_written := wc_written w @ [raw]\<rparr>) = (map Inr unsolicited @ [Inr packet], w')
       | Inl e \<Rightarrow> reads unseal 64 (w\<lparr>wc_written := wc_written w @ [raw]\<rparr>) = (map Inr unsolicited, w') \<and> length unsolicited = 64
          \<or> reads unseal (Suc (length unsolicited)) (w\<lparr>wc_written := wc_written w @ [raw]\<rparr>) = (map Inr unsolicited @ [Inl e], w')
            \<and> length unsolicited < 64)"
  using awaitReply_reads [of unseal packetID command 64 "w\<lparr>wc_written := wc_written w @ [raw]\<rparr>" r unsolicited w'] assms
  by (simp add: wire_request_def requestLimit_def)

definition sampleConn :: wireConn where
  "sampleConn = \<lparr>wc_stream = sampleFrame, wc_end = io_EOF, wc_secure = None, wc_producer = None, wc_observed = None, wc_written = []\<rparr>"

lemma sample_reads: "\<exists>w. read_wire unseal (sampleConn\<lparr>wc_written := ws\<rparr>) = (Inr (onWire samplePacket), w)"
  using readPlain_packet [OF sampleFrame_marshal, of io_EOF "[]"]
  by (simp add: read_wire_def readFrame_def sampleConn_def)

theorem wire_request_matches_witness:
  "\<exists>w'. wire_request toySeal toyUnseal None None 0x01020304 [77, 83, 71] [5, 0, 0, 0, 0] sampleConn = (Inr (onWire samplePacket), [], w')
     \<and> PacketID (pk_Header (onWire samplePacket)) = 0x01020304"
proof -
  obtain raw where raw: "encodeRequest toySeal None (wc_secure sampleConn) 0x01020304 [77, 83, 71] [5, 0, 0, 0, 0] = Inr raw"
    by (simp add: encodeRequest_def sampleConn_def requestPacket_def Packet_MarshalBinary_def Header_MarshalBinary_def
        DefaultMaxBody_def MethodFieldSize_def Let_def)
  obtain w' where "read_wire toyUnseal (sampleConn\<lparr>wc_written := [] @ [raw]\<rparr>) = (Inr (onWire samplePacket), w')"
    using sample_reads by blast
  then have r: "wire_request toySeal toyUnseal None None 0x01020304 [77, 83, 71] [5, 0, 0, 0, 0] sampleConn
      = (Inr (onWire samplePacket), [], w')"
    using raw by (simp add: wire_request_def requestLimit_def numeral_eq_Suc)
      (simp add: sampleConn_def onWire_def samplePacket_def)
  show ?thesis using wire_request_matches [OF r raw] r by simp
qed

end
