(* ===== verification/Session.thy ===== *)
theory Session
  imports Wire
begin

text \<open>
  \<open>src/internal/client/session.go\<close> and \<open>ping_timer_owner.go\<close>: the authenticated session that several
  goroutines share. Each operation is split at its lock: a definition here is one critical section (with
  the channel sends and timer calls that follow it), and the relation \<open>step\<close> interleaves the
  sections of any number of callers, the read loop, the timers and the consumer of the pushes.

  A result channel (capacity 1) is the list of its buffered values, named by a number; a timer is
  named by a number too, so that a callback which runs late is recognised as the source does, by pointer.
  The push channel is a list with a capacity; a nil channel has capacity 0. Methods are the bytes of the
  command. Context errors, the outcome of each \<open>Write\<close> and what the connection reads are answers.
\<close>

subsection \<open>The keep-alive timer\<close>

record pingTimerOwner =
  po_ready :: bool
  po_timer :: "64 word option"
  po_generation :: "64 word"
  po_closed :: bool

text \<open>The armed timer is the generation its callback carries; \<open>po_ready\<close> says that clock and callback are set.\<close>

definition newPingTimerOwner :: "bool \<Rightarrow> pingTimerOwner" where
  "newPingTimerOwner ready = \<lparr>po_ready = ready, po_timer = None, po_generation = 0, po_closed = False\<rparr>"

definition owner_queueSchedule :: "pingTimerOwner \<Rightarrow> bool \<times> pingTimerOwner" where
  "owner_queueSchedule w =
     (if po_closed w \<or> \<not> po_ready w then (False, w)
      else (True, w\<lparr>po_generation := po_generation w + 1, po_timer := Some (po_generation w + 1)\<rparr>))"

definition owner_queueCancel :: "pingTimerOwner \<Rightarrow> pingTimerOwner" where
  "owner_queueCancel w = w\<lparr>po_generation := po_generation w + 1, po_timer := None\<rparr>"

definition owner_shutdown :: "pingTimerOwner \<Rightarrow> pingTimerOwner" where
  "owner_shutdown w =
     (if po_closed w then w else w\<lparr>po_closed := True, po_generation := po_generation w + 1, po_timer := None\<rparr>)"

text \<open>The first component says whether the callback runs.\<close>

definition owner_fire :: "64 word \<Rightarrow> pingTimerOwner \<Rightarrow> bool \<times> pingTimerOwner" where
  "owner_fire generation w =
     (if po_closed w \<or> generation \<noteq> po_generation w then (False, w)
      else (True, w\<lparr>po_timer := None, po_generation := po_generation w + 1\<rparr>))"

subsection \<open>State\<close>

definition requestIDMin :: "32 word" where "requestIDMin = 100000000"
definition requestIDMax :: "32 word" where "requestIDMax = 200000000"

text \<open>\<open>errReceiveHeaderTimeout\<close> wraps \<open>ErrClosed\<close>; a failed request wraps its cause.\<close>

definition errReceiveHeaderTimeout :: go_error where
  "errReceiveHeaderTimeout = Joined [Other ''no reply within the receive-header timeout'', ErrClosed]"

definition requestErr :: "go_error \<Rightarrow> go_error" where "requestErr e = Joined [e]"

definition commandName :: "byte list \<Rightarrow> string" where "commandName command = map (char_of \<circ> uint) command"

definition PING :: "byte list" where "PING = [0x50, 0x49, 0x4E, 0x47]"

record headerTimer =
  ht_method :: "byte list"
  ht_handle :: nat

record pendingRequest =
  pr_method :: "byte list"
  pr_result :: nat

record session =
  se_nextID :: "32 word"
  se_closed :: bool
  se_closing :: bool
  se_wired :: bool
  se_wireClosed :: bool
  se_pushes :: "Packet list"
  se_pushCap :: nat
  se_pushesClosed :: bool
  se_pending :: "32 word \<rightharpoonup> pendingRequest"
  se_results :: "nat \<Rightarrow> Packet result list"
  se_channels :: nat
  se_scheduler :: "pingTimerOwner option"
  se_lifecycleStopped :: bool
  se_bootstrapDone :: bool
  se_bootstrapPushes :: "Packet list option"
  se_headerTimeout :: "duration option"
  se_headerTimers :: "32 word \<rightharpoonup> headerTimer"
  se_timers :: nat
  se_closeCause :: "go_error option"

definition newSession :: "pingTimerOwner option \<Rightarrow> session" where
  "newSession scheduler =
     \<lparr>se_nextID = 0, se_closed = False, se_closing = False, se_wired = False, se_wireClosed = False,
      se_pushes = [], se_pushCap = 0, se_pushesClosed = False, se_pending = Map.empty, se_results = (\<lambda>_. []),
      se_channels = 0, se_scheduler = scheduler, se_lifecycleStopped = False, se_bootstrapDone = True,
      se_bootstrapPushes = None, se_headerTimeout = None, se_headerTimers = Map.empty, se_timers = 0, se_closeCause = None\<rparr>"

text \<open>The session that \<open>connectSession\<close> prepares before LOGINLIST.\<close>

definition carriageSession :: "pingTimerOwner option \<Rightarrow> duration option \<Rightarrow> session" where
  "carriageSession scheduler timeout =
     (newSession scheduler)\<lparr>se_headerTimeout := timeout, se_wired := True, se_bootstrapDone := False,
       se_bootstrapPushes := Some [], se_nextID := 2, se_pushCap := requestLimit\<rparr>"

subsection \<open>The lifecycle scheduler\<close>

definition session_queueSchedule :: "session \<Rightarrow> session" where
  "session_queueSchedule s =
     (if se_lifecycleStopped s then s else s\<lparr>se_scheduler := map_option (snd \<circ> owner_queueSchedule) (se_scheduler s)\<rparr>)"

definition queueCancelRequest :: "session \<Rightarrow> session" where
  "queueCancelRequest s =
     (if se_lifecycleStopped s then s else s\<lparr>se_scheduler := map_option owner_queueCancel (se_scheduler s)\<rparr>)"

definition stopLifecycle :: "session \<Rightarrow> session" where
  "stopLifecycle s =
     (if se_lifecycleStopped s then s
      else s\<lparr>se_lifecycleStopped := True,
             se_scheduler := map_option (owner_shutdown \<circ> owner_queueCancel) (se_scheduler s)\<rparr>)"

subsection \<open>Request IDs\<close>

definition inRange :: "32 word \<Rightarrow> bool" where
  "inRange i \<longleftrightarrow> requestIDMin \<le> i \<and> i < requestIDMax"

definition followingID :: "32 word \<Rightarrow> 32 word" where
  "followingID i = (if i + 1 \<ge> requestIDMax then requestIDMin else i + 1)"

text \<open>How many IDs are left to try before the loop is back at its start.\<close>

definition idDistance :: "32 word \<Rightarrow> 32 word \<Rightarrow> nat" where
  "idDistance start i = (unat start + 100000000 - 1 - unat i) mod 100000000"

lemma idDistance_following:
  assumes "inRange start" "inRange i" "followingID i \<noteq> start"
  shows "idDistance start (followingID i) < idDistance start i" and "inRange (followingID i)"
proof -
  have u: "100000000 \<le> unat start" "unat start < 200000000" "100000000 \<le> unat i" "unat i < 200000000"
    using assms(1,2) by (simp_all add: inRange_def requestIDMin_def requestIDMax_def word_le_nat_alt word_less_nat_alt)
  have s: "unat (i + 1) = unat i + 1" using u(4) by (simp add: unat_word_ariths)
  have f: "unat (followingID i) = (if unat i + 1 \<ge> 200000000 then 100000000 else unat i + 1)"
    using s by (simp add: followingID_def requestIDMin_def requestIDMax_def word_le_nat_alt)
  have "unat (followingID i) \<noteq> unat start" using assms(3) by (metis word_unat_eq_iff)
  then show "idDistance start (followingID i) < idDistance start i"
    unfolding idDistance_def using u f by (auto simp: mod_if split: if_splits)
  show "inRange (followingID i)"
    using u f by (auto simp: inRange_def requestIDMin_def requestIDMax_def word_le_nat_alt word_less_nat_alt)
qed

text \<open>
  The allocation loop. Its caller puts \<open>nextID\<close> in the range first, so the first test never holds in the
  program; it only makes the function total.
\<close>

function allocLoop :: "(32 word \<Rightarrow> bool) \<Rightarrow> 32 word \<Rightarrow> 32 word \<Rightarrow> 32 word result \<times> 32 word" where
  "allocLoop taken start i =
     (if \<not> inRange start \<or> \<not> inRange i then (Inl ErrProtocol, i)
      else if \<not> taken i then (Inr i, followingID i)
      else if followingID i = start then (Inl ErrProtocol, followingID i)
      else allocLoop taken start (followingID i))"
  by pat_completeness auto
termination
  by (relation "measure (\<lambda>(taken, start, i). idDistance start i)") (auto intro: idDistance_following)

declare allocLoop.simps [simp del]

definition allocateRequestIDLocked :: "session \<Rightarrow> 32 word result \<times> session" where
  "allocateRequestIDLocked s =
     (let start = (if se_nextID s < requestIDMin \<or> se_nextID s \<ge> requestIDMax then requestIDMin else se_nextID s);
          (r, next) = allocLoop (\<lambda>i. se_pending s i \<noteq> None \<or> se_headerTimers s i \<noteq> None) start start
      in (r, s\<lparr>se_nextID := next\<rparr>))"

subsection \<open>A request\<close>

text \<open>
  \<open>requestRaw\<close> up to its first unlock, with the cancellation of the keep-alive: an ID, a result
  channel, and the entry that correlates them.
\<close>

definition explicitID :: "32 word \<Rightarrow> session \<Rightarrow> session" where
  "explicitID i s = (if i \<ge> se_nextID s then s\<lparr>se_nextID := followingID i\<rparr> else s)"

definition requestBegin :: "32 word \<Rightarrow> byte list \<Rightarrow> session \<Rightarrow> (32 word \<times> nat) result \<times> session" where
  "requestBegin i command s =
     (if command = [] then (Inl ErrProtocol, s)
      else if se_closed s \<or> se_closing s \<or> \<not> se_wired s then (Inl ErrClosed, s)
      else
        (let (allocated, s1) = (if i = 0 then allocateRequestIDLocked s else (Inr i, explicitID i s))
         in case allocated of
              Inl e \<Rightarrow> (Inl e, s1)
            | Inr packetID \<Rightarrow>
                if se_pending s1 packetID \<noteq> None then (Inl (ErrProtocolAt (commandName command) ''packetId''), s1)
                else
                  (let channel = se_channels s1
                   in (Inr (packetID, channel),
                       queueCancelRequest (s1\<lparr>se_pending := (se_pending s1)(packetID \<mapsto> \<lparr>pr_method = command, pr_result = channel\<rparr>),
                         se_channels := channel + 1\<rparr>)))))"

text \<open>
  \<open>writeRawPayload\<close>, before and after the bytes go out. The answers are the context's error while waiting
  for the write gate, after it, and after the write, and the result of each \<open>Write\<close>.
\<close>

record send_env =
  sd_acquire :: "go_error option"
  sd_ctx :: "go_error option"
  sd_write :: "nat \<Rightarrow> nat \<times> go_error option"
  sd_ctxAfter :: "go_error option"

function writeLoop :: "(nat \<Rightarrow> nat \<times> go_error option) \<Rightarrow> nat \<Rightarrow> byte list \<Rightarrow> nat \<times> go_error option" where
  "writeLoop answer k remaining =
     (if remaining = [] then (0, None)
      else case answer k of
             (n, Some e) \<Rightarrow> (n, Some e)
           | (n, None) \<Rightarrow>
               if n = 0 then (0, Some (Other ''zero-byte write''))
               else (let (written, err) = writeLoop answer (k + 1) (drop n remaining) in (n + written, err)))"
  by pat_completeness auto
termination
  by (relation "measure (\<lambda>(answer, k, remaining). length remaining)") auto

declare writeLoop.simps [simp del]

definition writeBegin :: "send_env \<Rightarrow> session \<Rightarrow> go_error option" where
  "writeBegin env s =
     (case sd_acquire env of
        Some e \<Rightarrow> Some e
      | None \<Rightarrow>
          (case sd_ctx env of
             Some e \<Rightarrow> Some e
           | None \<Rightarrow> if se_closed s \<or> se_closing s \<or> \<not> se_wired s then Some ErrClosed else None))"

definition writeFinish :: "send_env \<Rightarrow> byte list \<Rightarrow> session \<Rightarrow> (nat \<times> go_error option) \<times> session" where
  "writeFinish env raw s =
     (let (written, err) = writeLoop (sd_write env) 0 raw;
          s1 = (if err \<noteq> None \<and> written > 0 then stopLifecycle (s\<lparr>se_closing := True, se_wireClosed := True\<rparr>) else s)
      in ((written, if sd_ctxAfter env \<noteq> None then sd_ctxAfter env else err), s1))"

definition writeRawPayload :: "send_env \<Rightarrow> byte list \<Rightarrow> session \<Rightarrow> (nat \<times> go_error option) \<times> session" where
  "writeRawPayload env raw s =
     (case writeBegin env s of Some e \<Rightarrow> ((0, Some e), s) | None \<Rightarrow> writeFinish env raw s)"

definition removePending :: "32 word \<Rightarrow> nat \<Rightarrow> session \<Rightarrow> session" where
  "removePending packetID expected s =
     (if map_option pr_result (se_pending s packetID) = Some expected
      then s\<lparr>se_pending := (se_pending s)(packetID := None)\<rparr> else s)"

definition rearmAfterAbandon :: "bool \<Rightarrow> byte list \<Rightarrow> session \<Rightarrow> session" where
  "rearmAfterAbandon ctxDone command s = (if ctxDone \<and> command \<noteq> PING then session_queueSchedule s else s)"

definition armHeaderTimeout :: "32 word \<Rightarrow> byte list \<Rightarrow> nat \<Rightarrow> session \<Rightarrow> session" where
  "armHeaderTimeout packetID command channel s =
     (if (case se_headerTimeout s of None \<Rightarrow> True | Some d \<Rightarrow> d \<le> 0) \<or> se_closed s \<or> se_closing s
         \<or> map_option pr_result (se_pending s packetID) \<noteq> Some channel
      then s
      else s\<lparr>se_headerTimers := (se_headerTimers s)(packetID \<mapsto> \<lparr>ht_method = command, ht_handle = se_timers s\<rparr>),
             se_timers := se_timers s + 1\<rparr>)"

definition stopHeaderTimersLocked :: "session \<Rightarrow> session" where
  "stopHeaderTimersLocked s = s\<lparr>se_headerTimers := Map.empty\<rparr>"

definition disarmHeaderTimeoutLocked :: "Header \<Rightarrow> session \<Rightarrow> session" where
  "disarmHeaderTimeoutLocked h s =
     (if map_option ht_method (se_headerTimers s (PacketID h)) = Some (Method h)
      then s\<lparr>se_headerTimers := (se_headerTimers s)(PacketID h := None)\<rparr> else s)"

subsection \<open>Closing\<close>

definition Close :: "session \<Rightarrow> session" where
  "Close s =
     (if se_closed s \<or> se_closing s then s
      else
        (let s1 = stopHeaderTimersLocked (s\<lparr>se_closing := True\<rparr>)
         in if \<not> se_wired s then stopLifecycle (s1\<lparr>se_closed := True\<rparr>)
            else (stopLifecycle s1)\<lparr>se_wireClosed := True\<rparr>))"

definition Shutdown :: "bool \<Rightarrow> session \<Rightarrow> go_error option \<times> session" where
  "Shutdown ctx s = (if \<not> ctx then (Some context_Canceled, s) else (None, Close s))"

definition fireHeaderTimeout :: "32 word \<Rightarrow> nat \<Rightarrow> session \<Rightarrow> session" where
  "fireHeaderTimeout packetID timer s =
     (if map_option ht_handle (se_headerTimers s packetID) \<noteq> Some timer \<or> se_closed s \<or> se_closing s then s
      else Close (s\<lparr>se_headerTimers := (se_headerTimers s)(packetID := None),
        se_closeCause := (if se_closeCause s = None then Some errReceiveHeaderTimeout else se_closeCause s)\<rparr>))"

text \<open>The pending requests are a finite set; one \<open>queueSchedule\<close> per request, then the terminal shutdown.\<close>

definition failPending :: "go_error \<Rightarrow> session \<Rightarrow> nat \<Rightarrow> Packet result list" where
  "failPending e s channel =
     se_results s channel @ (if \<exists>pr\<in>ran (se_pending s). pr_result pr = channel then [Inl e] else [])"

definition finishRead :: "go_error \<Rightarrow> session \<Rightarrow> session" where
  "finishRead err s =
     (if se_closed s then s
      else
        (let e = (case se_closeCause s of None \<Rightarrow> err | Some cause \<Rightarrow> cause);
             s1 = stopHeaderTimersLocked (s\<lparr>se_closed := True, se_pending := Map.empty\<rparr>);
             s2 = (if \<not> se_closing s then (session_queueSchedule ^^ card (dom (se_pending s))) s1 else s1)
         in (stopLifecycle s2)\<lparr>se_results := failPending e s, se_pushesClosed := True\<rparr>))"

subsection \<open>The read loop\<close>

definition dispatchPacket :: "Packet \<Rightarrow> session \<Rightarrow> bool \<times> session" where
  "dispatchPacket packet s =
     (let h = pk_Header packet; s1 = disarmHeaderTimeoutLocked h s
      in case se_pending s1 (PacketID h) of
           None \<Rightarrow> (False, s1)
         | Some request \<Rightarrow>
             if pr_method request \<noteq> Method h then (False, s1)
             else
               (let s2 = session_queueSchedule (s1\<lparr>se_pending := (se_pending s1)(PacketID h := None)\<rparr>)
                in (True, s2\<lparr>se_results := (se_results s2)(pr_result request := se_results s2 (pr_result request) @ [Inr packet])\<rparr>)))"

definition pushPacket :: "Packet \<Rightarrow> session \<Rightarrow> bool \<times> session" where
  "pushPacket packet s =
     (case se_bootstrapPushes s of
        Some held \<Rightarrow>
          if \<not> se_bootstrapDone s then (True, s\<lparr>se_bootstrapPushes := Some (held @ [packet])\<rparr>)
          else if length (se_pushes s) < se_pushCap s then (True, s\<lparr>se_pushes := se_pushes s @ [packet]\<rparr>)
          else (False, (finishRead ErrProtocol s)\<lparr>se_wireClosed := True\<rparr>)
      | None \<Rightarrow>
          if length (se_pushes s) < se_pushCap s then (True, s\<lparr>se_pushes := se_pushes s @ [packet]\<rparr>)
          else (False, (finishRead ErrProtocol s)\<lparr>se_wireClosed := True\<rparr>))"

text \<open>One turn of \<open>readLoopBody\<close>: whether the loop goes on.\<close>

definition readLoopBody :: "Packet result \<Rightarrow> session \<Rightarrow> bool \<times> session" where
  "readLoopBody input s =
     (case input of
        Inl e \<Rightarrow> (False, finishRead e s)
      | Inr packet \<Rightarrow>
          (case dispatchPacket packet s of (True, s1) \<Rightarrow> (True, s1) | (False, s1) \<Rightarrow> pushPacket packet s1))"

definition finishBootstrap :: "session \<Rightarrow> bool \<times> session" where
  "finishBootstrap s =
     (if se_closed s \<or> se_closing s then (False, s)
      else
        (let held = (case se_bootstrapPushes s of None \<Rightarrow> [] | Some held \<Rightarrow> held)
         in (True, s\<lparr>se_pushes := held, se_pushCap := max requestLimit (length held), se_bootstrapPushes := None,
                     se_bootstrapDone := True\<rparr>)))"

text \<open>
  \<open>request\<close>: the outcome of \<open>requestRaw\<close> with the reply's status checked; \<open>status\<close> stands for
  \<open>loco.Status\<close> on the reply. The packet is returned beside the error, as the source does.
\<close>

definition session_request :: "(Packet \<Rightarrow> int result) \<Rightarrow> byte list \<Rightarrow> Packet result \<Rightarrow> Packet option \<times> go_error option" where
  "session_request status command outcome =
     (case outcome of
        Inl e \<Rightarrow> (None, Some e)
      | Inr reply \<Rightarrow>
          (case status reply of
             Inl _ \<Rightarrow> (Some reply, Some (ErrProtocolAt (commandName command) ''status''))
           | Inr st \<Rightarrow> (Some reply, if st \<noteq> 0 then Some (StatusError (commandName command) st) else None)))"

subsection \<open>Callers, reader, timers and consumer together\<close>

text \<open>
  Where a caller of \<open>requestRaw\<close> stands: about to write, sending its bytes, about to arm its
  receive-header timer, waiting in the \<open>select\<close>, giving up, or returned.
\<close>

datatype phase =
    Writing | Sending "byte list" | Arming | Waiting
  | Abandoning go_error bool
  | Returned "Packet result"

record call =
  ca_id :: "32 word"
  ca_command :: "byte list"
  ca_body :: "byte list"
  ca_phase :: phase

text \<open>
  \<open>sy_unsolicited\<close> and \<open>sy_delivered\<close> record, for the statements below, the packets that the reader
  put on the push path and those the consumer took.
\<close>

record system =
  sy_session :: session
  sy_calls :: "nat \<rightharpoonup> call"
  sy_reading :: bool
  sy_unsolicited :: "Packet list"
  sy_delivered :: "Packet list"

definition setCall :: "nat \<Rightarrow> call \<Rightarrow> phase \<Rightarrow> system \<Rightarrow> system" where
  "setCall channel c ph y = y\<lparr>sy_calls := (sy_calls y)(channel \<mapsto> c\<lparr>ca_phase := ph\<rparr>)\<rparr>"

definition startSystem :: "pingTimerOwner option \<Rightarrow> duration option \<Rightarrow> system" where
  "startSystem scheduler timeout =
     \<lparr>sy_session = carriageSession scheduler timeout, sy_calls = Map.empty, sy_reading = True, sy_unsolicited = [],
      sy_delivered = []\<rparr>"

text \<open>Only LOGINLIST, the first request, chooses its packet ID (2).\<close>

inductive step :: "seal \<Rightarrow> system \<Rightarrow> system \<Rightarrow> bool" for seal where
  issue: "i = 0 \<or> i = 2 \<and> se_channels (sy_session y) = 0 \<Longrightarrow>
    requestBegin i command (sy_session y) = (Inr (packetID, channel), s') \<Longrightarrow>
    step seal y (y\<lparr>sy_session := s', sy_calls := (sy_calls y)(channel \<mapsto>
      \<lparr>ca_id = packetID, ca_command = command, ca_body = body, ca_phase = Writing\<rparr>)\<rparr>)"
| refuse: "i = 0 \<or> i = 2 \<and> se_channels (sy_session y) = 0 \<Longrightarrow>
    requestBegin i command (sy_session y) = (Inl e, s') \<Longrightarrow> step seal y (y\<lparr>sy_session := s'\<rparr>)"
| unencodable: "sy_calls y channel = Some c \<Longrightarrow> ca_phase c = Writing \<Longrightarrow>
    encodeRequest seal random secure (ca_id c) (ca_command c) (ca_body c) = Inl e \<Longrightarrow>
    step seal y (setCall channel c (Abandoning e ctxDone) y)"
| unwritten: "sy_calls y channel = Some c \<Longrightarrow> ca_phase c = Writing \<Longrightarrow> writeBegin env (sy_session y) = Some e \<Longrightarrow>
    step seal y (setCall channel c (Abandoning e ctxDone) y)"
| send: "sy_calls y channel = Some c \<Longrightarrow> ca_phase c = Writing \<Longrightarrow> writeBegin env (sy_session y) = None \<Longrightarrow>
    encodeRequest seal random secure (ca_id c) (ca_command c) (ca_body c) = Inr raw \<Longrightarrow>
    step seal y (setCall channel c (Sending raw) y)"
| sent: "sy_calls y channel = Some c \<Longrightarrow> ca_phase c = Sending raw \<Longrightarrow>
    writeFinish env raw (sy_session y) = ((n, None), s') \<Longrightarrow>
    step seal y (setCall channel c Arming (y\<lparr>sy_session := s'\<rparr>))"
| unsent: "sy_calls y channel = Some c \<Longrightarrow> ca_phase c = Sending raw \<Longrightarrow>
    writeFinish env raw (sy_session y) = ((n, Some e), s') \<Longrightarrow>
    step seal y (setCall channel c (Abandoning e ctxDone) (y\<lparr>sy_session := s'\<rparr>))"
| arm: "sy_calls y channel = Some c \<Longrightarrow> ca_phase c = Arming \<Longrightarrow>
    step seal y (setCall channel c Waiting
      (y\<lparr>sy_session := armHeaderTimeout (ca_id c) (ca_command c) channel (sy_session y)\<rparr>))"
| receive: "sy_calls y channel = Some c \<Longrightarrow> ca_phase c = Waiting \<Longrightarrow> se_results (sy_session y) channel = r # rs \<Longrightarrow>
    step seal y (setCall channel c (Returned (case r of Inl e \<Rightarrow> Inl (requestErr e) | Inr packet \<Rightarrow> Inr packet))
      (y\<lparr>sy_session := (sy_session y)\<lparr>se_results := (se_results (sy_session y))(channel := rs)\<rparr>\<rparr>))"
| cancel: "sy_calls y channel = Some c \<Longrightarrow> ca_phase c = Waiting \<Longrightarrow>
    step seal y (setCall channel c (Abandoning e True) y)"
| abandon: "sy_calls y channel = Some c \<Longrightarrow> ca_phase c = Abandoning e ctxDone \<Longrightarrow>
    step seal y (setCall channel c (Returned (Inl (requestErr e)))
      (y\<lparr>sy_session := rearmAfterAbandon ctxDone (ca_command c) (removePending (ca_id c) channel (sy_session y))\<rparr>))"
| read: "sy_reading y \<Longrightarrow> readLoopBody input (sy_session y) = (continues, s') \<Longrightarrow>
    step seal y (y\<lparr>sy_session := s', sy_reading := continues,
      sy_unsolicited := sy_unsolicited y @ (case input of Inl _ \<Rightarrow> []
        | Inr packet \<Rightarrow> if fst (dispatchPacket packet (sy_session y)) then [] else [packet])\<rparr>)"
| header_timer: "step seal y (y\<lparr>sy_session := fireHeaderTimeout packetID timer (sy_session y)\<rparr>)"
| ping_timer: "se_scheduler (sy_session y) = Some w \<Longrightarrow>
    step seal y (y\<lparr>sy_session := (sy_session y)\<lparr>se_scheduler := Some (snd (owner_fire generation w))\<rparr>\<rparr>)"
| close: "step seal y (y\<lparr>sy_session := Close (sy_session y)\<rparr>)"
| bootstrapped: "\<not> se_bootstrapDone (sy_session y) \<Longrightarrow> step seal y (y\<lparr>sy_session := snd (finishBootstrap (sy_session y))\<rparr>)"
| consume: "se_pushes (sy_session y) = packet # rest \<Longrightarrow>
    step seal y (y\<lparr>sy_session := (sy_session y)\<lparr>se_pushes := rest\<rparr>, sy_delivered := sy_delivered y @ [packet]\<rparr>)"

inductive reachable :: "seal \<Rightarrow> system \<Rightarrow> bool" for seal where
  start: "(\<forall>w\<in>set_option scheduler. \<not> po_closed w) \<Longrightarrow> reachable seal (startSystem scheduler timeout)"
| stepped: "reachable seal y \<Longrightarrow> step seal y y' \<Longrightarrow> reachable seal y'"

subsection \<open>What the lifecycle operations leave alone\<close>

lemma session_queueSchedule_fields [simp]:
  "se_nextID (session_queueSchedule s) = se_nextID s"
  "se_closed (session_queueSchedule s) = se_closed s"
  "se_closing (session_queueSchedule s) = se_closing s"
  "se_wired (session_queueSchedule s) = se_wired s"
  "se_wireClosed (session_queueSchedule s) = se_wireClosed s"
  "se_pushes (session_queueSchedule s) = se_pushes s"
  "se_pushCap (session_queueSchedule s) = se_pushCap s"
  "se_pushesClosed (session_queueSchedule s) = se_pushesClosed s"
  "se_pending (session_queueSchedule s) = se_pending s"
  "se_results (session_queueSchedule s) = se_results s"
  "se_channels (session_queueSchedule s) = se_channels s"
  "se_bootstrapDone (session_queueSchedule s) = se_bootstrapDone s"
  "se_bootstrapPushes (session_queueSchedule s) = se_bootstrapPushes s"
  "se_headerTimeout (session_queueSchedule s) = se_headerTimeout s"
  "se_headerTimers (session_queueSchedule s) = se_headerTimers s"
  "se_timers (session_queueSchedule s) = se_timers s"
  "se_closeCause (session_queueSchedule s) = se_closeCause s"
  "se_lifecycleStopped (session_queueSchedule s) = se_lifecycleStopped s"
  by (simp_all add: session_queueSchedule_def)

lemma queueCancelRequest_fields [simp]:
  "se_nextID (queueCancelRequest s) = se_nextID s"
  "se_closed (queueCancelRequest s) = se_closed s"
  "se_closing (queueCancelRequest s) = se_closing s"
  "se_wired (queueCancelRequest s) = se_wired s"
  "se_wireClosed (queueCancelRequest s) = se_wireClosed s"
  "se_pushes (queueCancelRequest s) = se_pushes s"
  "se_pushCap (queueCancelRequest s) = se_pushCap s"
  "se_pushesClosed (queueCancelRequest s) = se_pushesClosed s"
  "se_pending (queueCancelRequest s) = se_pending s"
  "se_results (queueCancelRequest s) = se_results s"
  "se_channels (queueCancelRequest s) = se_channels s"
  "se_bootstrapDone (queueCancelRequest s) = se_bootstrapDone s"
  "se_bootstrapPushes (queueCancelRequest s) = se_bootstrapPushes s"
  "se_headerTimeout (queueCancelRequest s) = se_headerTimeout s"
  "se_headerTimers (queueCancelRequest s) = se_headerTimers s"
  "se_timers (queueCancelRequest s) = se_timers s"
  "se_closeCause (queueCancelRequest s) = se_closeCause s"
  "se_lifecycleStopped (queueCancelRequest s) = se_lifecycleStopped s"
  by (simp_all add: queueCancelRequest_def)

lemma stopLifecycle_fields [simp]:
  "se_nextID (stopLifecycle s) = se_nextID s"
  "se_closed (stopLifecycle s) = se_closed s"
  "se_closing (stopLifecycle s) = se_closing s"
  "se_wired (stopLifecycle s) = se_wired s"
  "se_wireClosed (stopLifecycle s) = se_wireClosed s"
  "se_pushes (stopLifecycle s) = se_pushes s"
  "se_pushCap (stopLifecycle s) = se_pushCap s"
  "se_pushesClosed (stopLifecycle s) = se_pushesClosed s"
  "se_pending (stopLifecycle s) = se_pending s"
  "se_results (stopLifecycle s) = se_results s"
  "se_channels (stopLifecycle s) = se_channels s"
  "se_bootstrapDone (stopLifecycle s) = se_bootstrapDone s"
  "se_bootstrapPushes (stopLifecycle s) = se_bootstrapPushes s"
  "se_headerTimeout (stopLifecycle s) = se_headerTimeout s"
  "se_headerTimers (stopLifecycle s) = se_headerTimers s"
  "se_timers (stopLifecycle s) = se_timers s"
  "se_closeCause (stopLifecycle s) = se_closeCause s"
  by (simp_all add: stopLifecycle_def)

lemma rearmAfterAbandon_fields [simp]:
  "se_nextID (rearmAfterAbandon b m s) = se_nextID s"
  "se_closed (rearmAfterAbandon b m s) = se_closed s"
  "se_closing (rearmAfterAbandon b m s) = se_closing s"
  "se_wired (rearmAfterAbandon b m s) = se_wired s"
  "se_wireClosed (rearmAfterAbandon b m s) = se_wireClosed s"
  "se_pushes (rearmAfterAbandon b m s) = se_pushes s"
  "se_pushCap (rearmAfterAbandon b m s) = se_pushCap s"
  "se_pushesClosed (rearmAfterAbandon b m s) = se_pushesClosed s"
  "se_pending (rearmAfterAbandon b m s) = se_pending s"
  "se_results (rearmAfterAbandon b m s) = se_results s"
  "se_channels (rearmAfterAbandon b m s) = se_channels s"
  "se_bootstrapDone (rearmAfterAbandon b m s) = se_bootstrapDone s"
  "se_bootstrapPushes (rearmAfterAbandon b m s) = se_bootstrapPushes s"
  "se_headerTimeout (rearmAfterAbandon b m s) = se_headerTimeout s"
  "se_headerTimers (rearmAfterAbandon b m s) = se_headerTimers s"
  "se_timers (rearmAfterAbandon b m s) = se_timers s"
  "se_closeCause (rearmAfterAbandon b m s) = se_closeCause s"
  "se_lifecycleStopped (rearmAfterAbandon b m s) = se_lifecycleStopped s"
  by (simp_all add: rearmAfterAbandon_def)

lemma stopLifecycle_stopped [simp]: "se_lifecycleStopped (stopLifecycle s)"
  by (simp add: stopLifecycle_def)

text \<open>Scheduling, any number of times, changes only the scheduler.\<close>

lemma schedules_only: "\<exists>w. (session_queueSchedule ^^ n) s = s\<lparr>se_scheduler := w\<rparr>"
proof (induction n)
  case 0
  then show ?case by (intro exI [of _ "se_scheduler s"]) simp
next
  case (Suc n)
  then show ?case by (auto simp: session_queueSchedule_def)
qed

definition quiet :: "pingTimerOwner option \<Rightarrow> bool" where
  "quiet scheduler \<longleftrightarrow> (\<forall>w\<in>set_option scheduler. po_closed w \<and> po_timer w = None)"

lemma stopLifecycle_quiet:
  "\<exists>w. stopLifecycle s = s\<lparr>se_lifecycleStopped := True, se_scheduler := w\<rparr>
     \<and> (if se_lifecycleStopped s then w = se_scheduler s else quiet w)"
  by (auto simp: stopLifecycle_def quiet_def owner_shutdown_def owner_queueCancel_def)

lemma schedules_stopped: "se_lifecycleStopped s \<Longrightarrow> (session_queueSchedule ^^ n) s = s"
  by (induction n) (simp_all add: session_queueSchedule_def)

lemma finishRead_open:
  assumes "\<not> se_closed s"
  shows "\<exists>w. finishRead err s = s\<lparr>se_closed := True, se_pending := Map.empty, se_headerTimers := Map.empty, se_pushesClosed := True,
    se_results := failPending (case se_closeCause s of None \<Rightarrow> err | Some cause \<Rightarrow> cause) s, se_lifecycleStopped := True, se_scheduler := w\<rparr>
    \<and> (if se_lifecycleStopped s then w = se_scheduler s else quiet w)"
proof -
  let ?s1 = "stopHeaderTimersLocked (s\<lparr>se_closed := True, se_pending := Map.empty\<rparr>)"
  obtain n where n: "(if \<not> se_closing s then (session_queueSchedule ^^ card (dom (se_pending s))) ?s1 else ?s1) = (session_queueSchedule ^^ n) ?s1"
    by (metis funpow_0)
  obtain v where v: "(session_queueSchedule ^^ n) ?s1 = ?s1\<lparr>se_scheduler := v\<rparr>" "se_lifecycleStopped s \<Longrightarrow> v = se_scheduler s"
  proof (cases "se_lifecycleStopped s")
    case True
    then have "se_lifecycleStopped ?s1" by (simp add: stopHeaderTimersLocked_def)
    from schedules_stopped [OF this] show ?thesis by (intro that [of "se_scheduler s"]) (simp_all add: stopHeaderTimersLocked_def)
  qed (use schedules_only that in blast)
  obtain w where w: "stopLifecycle (?s1\<lparr>se_scheduler := v\<rparr>) = ?s1\<lparr>se_scheduler := v, se_lifecycleStopped := True, se_scheduler := w\<rparr>"
    "if se_lifecycleStopped s then w = v else quiet w"
    using stopLifecycle_quiet [of "?s1\<lparr>se_scheduler := v\<rparr>"] by (auto simp: stopHeaderTimersLocked_def)
  have "finishRead err s = (stopLifecycle (?s1\<lparr>se_scheduler := v\<rparr>))
      \<lparr>se_results := failPending (case se_closeCause s of None \<Rightarrow> err | Some cause \<Rightarrow> cause) s, se_pushesClosed := True\<rparr>"
    by (simp only: finishRead_def assms Let_def if_False n v)
  then show ?thesis using v(2) w by (intro exI [of _ w]) (auto simp: stopHeaderTimersLocked_def)
qed

end
