(* ===== verification/Session_Safety.thy ===== *)
theory Session_Safety
  imports Session "HOL-Library.Sublist"
begin

text \<open>
  What holds of the session of \<open>Session\<close> however its callers, reader, timers and consumer
  interleave: the allocation of request IDs, the correlation of replies, the order of pushes, the end of
  a session, and the keep-alive timer.
\<close>

subsection \<open>Request IDs\<close>

lemma inRange_unat: "inRange i \<longleftrightarrow> 100000000 \<le> unat i \<and> unat i < 200000000"
  by (simp add: inRange_def requestIDMin_def requestIDMax_def word_le_nat_alt word_less_nat_alt)

lemma idDistance_start: "inRange start \<Longrightarrow> idDistance start start = 99999999"
  by (simp add: idDistance_def inRange_unat)

lemma idDistance_bound: "idDistance start i \<le> 99999999"
  using mod_less_divisor [of 100000000] by (simp add: idDistance_def less_Suc_eq_le [symmetric] del: mod_less_divisor)

lemma idDistance_inj:
  assumes "inRange start" "inRange i" "inRange j" "idDistance start i = idDistance start j"
  shows "i = j"
proof -
  have "unat i = unat j"
    using assms by (auto simp: inRange_unat idDistance_def mod_if split: if_splits)
  then show ?thesis by (simp add: word_unat_eq_iff)
qed

lemma unat_followingID: "inRange i \<Longrightarrow> unat (followingID i) = (if unat i + 1 = 200000000 then 100000000 else unat i + 1)"
proof -
  assume i: "inRange i"
  then have "unat (i + 1) = unat i + 1" by (simp add: inRange_unat unat_word_ariths)
  then show ?thesis using i by (auto simp: followingID_def requestIDMin_def requestIDMax_def word_le_nat_alt inRange_unat)
qed

lemma idDistance_pred:
  assumes "inRange start" "inRange i" "followingID i \<noteq> start"
  shows "idDistance start i = Suc (idDistance start (followingID i))"
proof -
  have "unat (followingID i) \<noteq> unat start" using assms(3) by (metis word_unat_eq_iff)
  then show ?thesis
    using assms(1,2) unat_followingID [OF assms(2)]
    by (auto simp: inRange_unat idDistance_def mod_if split: if_splits)
qed

lemma idDistance_last:
  assumes "inRange start" "inRange i" "followingID i = start"
  shows "idDistance start i = 0"
  using assms unat_followingID [OF assms(2)] by (auto simp: inRange_unat idDistance_def split: if_splits)

lemma allocLoop_exact:
  assumes "inRange start" "inRange i"
  shows "case allocLoop taken start i of
      (Inr j, n) \<Rightarrow> inRange j \<and> \<not> taken j \<and> n = followingID j \<and> idDistance start j \<le> idDistance start i
        \<and> (\<forall>k. inRange k \<and> idDistance start j < idDistance start k \<and> idDistance start k \<le> idDistance start i \<longrightarrow> taken k)
    | (Inl e, n) \<Rightarrow> e = ErrProtocol \<and> n = start \<and> (\<forall>k. inRange k \<and> idDistance start k \<le> idDistance start i \<longrightarrow> taken k)"
  using assms
proof (induction taken start i rule: allocLoop.induct)
  case (1 taken start i)
  have uniq: "k = i" if "inRange k" "idDistance start k = idDistance start i" for k
    using idDistance_inj [of start k i] that "1.prems" by simp
  show ?case
  proof (cases "taken i")
    case False
    then have "allocLoop taken start i = (Inr i, followingID i)" using "1.prems" by (subst allocLoop.simps) simp
    then show ?thesis using "1.prems" False by (simp add: not_less [symmetric])
  next
    case taken: True
    show ?thesis
    proof (cases "followingID i = start")
      case True
      then have "allocLoop taken start i = (Inl ErrProtocol, start)" using "1.prems" taken by (subst allocLoop.simps) simp
      then show ?thesis using taken idDistance_last [OF "1.prems" True] uniq by auto
    next
      case False
      note d = idDistance_pred [OF "1.prems" False]
      have u: "allocLoop taken start i = allocLoop taken start (followingID i)"
        using "1.prems" taken False by (subst allocLoop.simps) simp
      have split: "taken k" if "inRange k" "idDistance start k \<le> idDistance start i"
          "idDistance start k \<le> idDistance start (followingID i) \<Longrightarrow> taken k" for k
        using that uniq [of k] taken d by (cases "idDistance start k = idDistance start i") auto
      have "case allocLoop taken start (followingID i) of
          (Inr j, n) \<Rightarrow> inRange j \<and> \<not> taken j \<and> n = followingID j \<and> idDistance start j \<le> idDistance start (followingID i)
            \<and> (\<forall>k. inRange k \<and> idDistance start j < idDistance start k \<and> idDistance start k \<le> idDistance start (followingID i) \<longrightarrow> taken k)
        | (Inl e, n) \<Rightarrow> e = ErrProtocol \<and> n = start \<and> (\<forall>k. inRange k \<and> idDistance start k \<le> idDistance start (followingID i) \<longrightarrow> taken k)"
        using "1.IH" "1.prems" taken False idDistance_following(2) [OF "1.prems" False] by auto
      then show ?thesis unfolding u using split d
        by (auto split: prod.splits sum.splits)
    qed
  qed
qed

lemma allocate_spec:
  assumes "allocateRequestIDLocked s = (r, s')"
  shows "s' = s\<lparr>se_nextID := se_nextID s'\<rparr>"
    and "\<And>i. r = Inr i \<Longrightarrow> inRange i \<and> se_pending s i = None \<and> se_headerTimers s i = None"
    and "\<And>e. r = Inl e \<Longrightarrow> e = ErrProtocol \<and> (\<forall>i. inRange i \<longrightarrow> se_pending s i \<noteq> None \<or> se_headerTimers s i \<noteq> None)"
proof -
  define start where "start = (if se_nextID s < requestIDMin \<or> se_nextID s \<ge> requestIDMax then requestIDMin else se_nextID s)"
  let ?taken = "\<lambda>i. se_pending s i \<noteq> None \<or> se_headerTimers s i \<noteq> None"
  have st: "inRange start" by (auto simp: start_def inRange_def requestIDMin_def requestIDMax_def)
  obtain r1 n where a: "allocLoop ?taken start start = (r1, n)" by (rule prod.exhaust)
  have r: "r = r1" "s' = s\<lparr>se_nextID := n\<rparr>"
    using assms a by (simp_all add: allocateRequestIDLocked_def start_def [symmetric])
  note x = allocLoop_exact [OF st st, of ?taken, unfolded a idDistance_start [OF st]]
  show "s' = s\<lparr>se_nextID := se_nextID s'\<rparr>" by (simp add: r(2))
  show "inRange i \<and> se_pending s i = None \<and> se_headerTimers s i = None" if "r = Inr i" for i
    using x that r(1) by simp
  show "e = ErrProtocol \<and> (\<forall>i. inRange i \<longrightarrow> se_pending s i \<noteq> None \<or> se_headerTimers s i \<noteq> None)" if "r = Inl e" for e
    using x that r(1) idDistance_bound by simp
qed

text \<open>What beginning a request does to the session.\<close>

lemma requestBegin_refused:
  assumes "requestBegin i command s = (Inl e, s')"
  shows "s' = s\<lparr>se_nextID := se_nextID s'\<rparr>"
proof -
  have x: "explicitID i s = s\<lparr>se_nextID := se_nextID (explicitID i s)\<rparr>" by (simp add: explicitID_def)
  show ?thesis
  proof (cases "command = [] \<or> se_closed s \<or> se_closing s \<or> \<not> se_wired s")
    case True
    then show ?thesis using assms by (auto simp: requestBegin_def split: if_splits)
  next
    case False
    obtain r s1 where a: "allocateRequestIDLocked s = (r, s1)" by (metis surj_pair)
    show ?thesis using assms False a allocate_spec(1) [OF a] x
      by (auto simp: requestBegin_def Let_def split: if_splits sum.splits)
  qed
qed

lemma requestBegin_issued:
  assumes "requestBegin i command s = (Inr (packetID, channel), s')"
  shows "channel = se_channels s" "\<not> se_closed s" "\<not> se_closing s" "se_pending s packetID = None"
    "i = 0 \<Longrightarrow> inRange packetID \<and> se_headerTimers s packetID = None" "i \<noteq> 0 \<Longrightarrow> packetID = i"
    "\<exists>w n. s' = s\<lparr>se_nextID := n, se_pending := (se_pending s)(packetID \<mapsto> \<lparr>pr_method = command, pr_result = se_channels s\<rparr>),
       se_channels := se_channels s + 1, se_scheduler := w\<rparr> \<and> (se_lifecycleStopped s \<longrightarrow> w = se_scheduler s)"
proof -
  obtain r s1 where a: "(if i = 0 then allocateRequestIDLocked s else (Inr i, explicitID i s)) = (r, s1)" by (metis surj_pair)
  have s1: "s1 = s\<lparr>se_nextID := se_nextID s1\<rparr>"
    using a allocate_spec(1) [of s r s1] by (auto simp: explicitID_def split: if_splits)
  then have f: "se_pending s1 = se_pending s" "se_channels s1 = se_channels s" by (metis session.select_convs session.surjective session.update_convs(1))+
  have c: "command \<noteq> []" "\<not> se_closed s" "\<not> se_closing s" "se_wired s"
    using assms by (auto simp: requestBegin_def split: if_splits)
  have p: "r = Inr packetID" "se_pending s1 packetID = None" "channel = se_channels s1"
    "s' = queueCancelRequest (s1\<lparr>se_pending := (se_pending s1)(packetID \<mapsto> \<lparr>pr_method = command, pr_result = channel\<rparr>),
                         se_channels := channel + 1\<rparr>)"
    using assms c a by (auto simp: requestBegin_def Let_def split: if_splits sum.splits)
  show "channel = se_channels s" "\<not> se_closed s" "\<not> se_closing s" "se_pending s packetID = None" using p c f by auto
  show "inRange packetID \<and> se_headerTimers s packetID = None" if "i = 0"
    using allocate_spec(2) [of s r s1 packetID] a p(1) that by simp
  show "packetID = i" if "i \<noteq> 0" using a p(1) that by simp
  show "\<exists>w n. s' = s\<lparr>se_nextID := n, se_pending := (se_pending s)(packetID \<mapsto> \<lparr>pr_method = command, pr_result = se_channels s\<rparr>),
       se_channels := se_channels s + 1, se_scheduler := w\<rparr> \<and> (se_lifecycleStopped s \<longrightarrow> w = se_scheduler s)"
    unfolding p(4) p(3) f by (subst s1) (auto simp: queueCancelRequest_def)
qed

subsection \<open>The end of a session\<close>

definition endsWell :: "session \<Rightarrow> bool" where
  "endsWell s \<longleftrightarrow> se_wired s \<and> (se_closed s \<longrightarrow> se_pending s = Map.empty \<and> se_headerTimers s = Map.empty \<and> se_pushesClosed s)
     \<and> (se_closing s \<or> se_closed s \<longrightarrow> se_lifecycleStopped s) \<and> (se_lifecycleStopped s \<longrightarrow> quiet (se_scheduler s))"

lemma quiet_owner:
  "quiet w \<Longrightarrow> quiet (map_option (snd \<circ> owner_queueSchedule) w)" "quiet w \<Longrightarrow> quiet (map_option owner_queueCancel w)"
  "quiet (Some v) \<Longrightarrow> quiet (Some (snd (owner_fire generation v)))"
  by (auto simp: quiet_def owner_queueSchedule_def owner_queueCancel_def owner_fire_def split: if_splits)

lemma endsWell_schedule [simp]: "endsWell s \<Longrightarrow> endsWell (session_queueSchedule s)"
  by (auto simp: endsWell_def session_queueSchedule_def)

lemma endsWell_stop:
  assumes "se_lifecycleStopped s \<Longrightarrow> quiet (se_scheduler s)" "se_wired s"
    "se_closed s \<longrightarrow> se_pending s = Map.empty \<and> se_headerTimers s = Map.empty \<and> se_pushesClosed s"
  shows "endsWell (stopLifecycle s)"
proof -
  obtain w where "stopLifecycle s = s\<lparr>se_lifecycleStopped := True, se_scheduler := w\<rparr>"
    "if se_lifecycleStopped s then w = se_scheduler s else quiet w" using stopLifecycle_quiet by blast
  then show ?thesis using assms by (auto simp: endsWell_def split: if_splits)
qed

lemma endsWell_Close: "endsWell s \<Longrightarrow> endsWell (Close s)"
proof -
  assume s: "endsWell s"
  have "endsWell (stopLifecycle (stopHeaderTimersLocked (s\<lparr>se_closing := True\<rparr>)))"
    by (rule endsWell_stop) (use s in \<open>auto simp: endsWell_def stopHeaderTimersLocked_def\<close>)
  then show ?thesis using s by (auto simp: Close_def endsWell_def Let_def)
qed

lemma endsWell_finishRead: "endsWell s \<Longrightarrow> endsWell (finishRead err s)"
proof (cases "se_closed s")
  case True
  then show "endsWell s \<Longrightarrow> ?thesis" by (simp add: finishRead_def)
next
  case False
  assume "endsWell s"
  with finishRead_open [OF False, of err] show ?thesis by (auto simp: endsWell_def split: if_splits)
qed

lemma endsWell_fireHeader: "endsWell s \<Longrightarrow> endsWell (fireHeaderTimeout packetID timer s)"
proof -
  assume s: "endsWell s"
  show ?thesis
  proof (cases "map_option ht_handle (se_headerTimers s packetID) \<noteq> Some timer \<or> se_closed s \<or> se_closing s")
    case True
    then show ?thesis using s by (simp only: fireHeaderTimeout_def if_True)
  next
    case False
    then show ?thesis unfolding fireHeaderTimeout_def if_not_P [OF False]
      by (intro endsWell_Close) (use s in \<open>auto simp: endsWell_def\<close>)
  qed
qed

lemma endsWell_finish_write: "writeFinish env raw s = (r, s') \<Longrightarrow> endsWell s \<Longrightarrow> endsWell s'"
proof -
  assume w: "writeFinish env raw s = (r, s')" and s: "endsWell s"
  have "endsWell (stopLifecycle (s\<lparr>se_closing := True, se_wireClosed := True\<rparr>))"
    by (rule endsWell_stop) (use s in \<open>auto simp: endsWell_def\<close>)
  then show ?thesis using w s by (auto simp: writeFinish_def Let_def split: prod.splits if_splits)
qed

lemma dispatch_fields:
  assumes "dispatchPacket packet s = (ok, s')"
  shows "se_closed s' = se_closed s" "se_closing s' = se_closing s" "se_pushes s' = se_pushes s" "se_pushCap s' = se_pushCap s"
    "se_bootstrapDone s' = se_bootstrapDone s" "se_bootstrapPushes s' = se_bootstrapPushes s" "se_channels s' = se_channels s"
    "se_closeCause s' = se_closeCause s"
  using assms by (auto simp: dispatchPacket_def Let_def disarmHeaderTimeoutLocked_def split: option.splits if_splits)

lemma endsWell_dispatch: "dispatchPacket packet s = (ok, s') \<Longrightarrow> endsWell s \<Longrightarrow> endsWell s'"
proof -
  assume d: "dispatchPacket packet s = (ok, s')" and s: "endsWell s"
  let ?s1 = "disarmHeaderTimeoutLocked (pk_Header packet) s"
  have s1: "endsWell ?s1" using s by (auto simp: disarmHeaderTimeoutLocked_def endsWell_def)
  show ?thesis
  proof (cases ok)
    case False
    then show ?thesis using d s1 by (auto simp: dispatchPacket_def Let_def split: option.splits if_splits)
  next
    case True
    then obtain request where r: "se_pending ?s1 (PacketID (pk_Header packet)) = Some request"
      "s' = (session_queueSchedule (?s1\<lparr>se_pending := (se_pending ?s1)(PacketID (pk_Header packet) := None)\<rparr>))
         \<lparr>se_results := (se_results ?s1)(pr_result request := se_results ?s1 (pr_result request) @ [Inr packet])\<rparr>"
      using d by (auto simp: dispatchPacket_def Let_def split: option.splits if_splits)
    have "endsWell (?s1\<lparr>se_pending := (se_pending ?s1)(PacketID (pk_Header packet) := None)\<rparr>)"
      using s1 r(1) by (auto simp: endsWell_def)
    from endsWell_schedule [OF this] show ?thesis unfolding r(2) by (simp add: endsWell_def)
  qed
qed

lemma endsWell_push: "pushPacket packet s = (ok, s') \<Longrightarrow> endsWell s \<Longrightarrow> endsWell s'"
proof -
  assume p: "pushPacket packet s = (ok, s')" and s: "endsWell s"
  from p consider held where "s' = s\<lparr>se_bootstrapPushes := Some held\<rparr>" | ps where "s' = s\<lparr>se_pushes := ps\<rparr>"
    | "s' = (finishRead ErrProtocol s)\<lparr>se_wireClosed := True\<rparr>"
    by (auto simp: pushPacket_def split: option.splits if_splits)
  then show ?thesis using s endsWell_finishRead [OF s, of ErrProtocol] by cases (simp_all add: endsWell_def)
qed

text \<open>The three things a turn of the read loop can be.\<close>

lemma readLoopBody_cases:
  assumes "readLoopBody input s = (ok, s')"
  obtains (failed) e where "input = Inl e" "\<not> ok" "s' = finishRead e s"
  | (dispatched) packet where "input = Inr packet" "ok" "dispatchPacket packet s = (True, s')"
  | (pushed) packet s1 where "input = Inr packet" "dispatchPacket packet s = (False, s1)" "pushPacket packet s1 = (ok, s')"
proof (cases input)
  case (Inl e)
  with assms failed show ?thesis by (simp add: readLoopBody_def)
next
  case (Inr packet)
  obtain d s1 where "dispatchPacket packet s = (d, s1)" by (rule prod.exhaust)
  with assms Inr dispatched pushed show ?thesis by (cases d) (auto simp: readLoopBody_def)
qed

lemma endsWell_read: "readLoopBody input s = (ok, s') \<Longrightarrow> endsWell s \<Longrightarrow> endsWell s'"
  by (erule readLoopBody_cases) (auto intro: endsWell_finishRead endsWell_push endsWell_dispatch)

lemma finishRead_closed [simp]: "se_closed (finishRead err s)"
  using finishRead_open [of s err] by (cases "se_closed s") (auto simp: finishRead_def)

lemma read_closes:
  assumes "readLoopBody input s = (ok, s')" "\<not> se_closed s"
  shows "ok \<longleftrightarrow> \<not> se_closed s'"
  using assms(1)
proof (cases rule: readLoopBody_cases)
  case (dispatched packet)
  then show ?thesis using dispatch_fields(1) [OF dispatched(3)] assms(2) by simp
next
  case (pushed packet s1)
  then show ?thesis using dispatch_fields(1) [OF pushed(2)] assms(2)
    by (auto simp: pushPacket_def split: option.splits if_splits)
qed simp

lemma se_closed_simps [simp]:
  "se_closed (removePending i ch s) = se_closed s" "se_closed (armHeaderTimeout i m ch s) = se_closed s"
  "se_closed (snd (finishBootstrap s)) = se_closed s"
  by (simp_all add: removePending_def armHeaderTimeout_def finishBootstrap_def Let_def)

lemma Close_closed: "se_wired s \<Longrightarrow> se_closed (Close s) = se_closed s"
  by (simp add: Close_def Let_def stopHeaderTimersLocked_def)

lemma fireHeader_closed: "se_wired s \<Longrightarrow> se_closed (fireHeaderTimeout i t s) = se_closed s"
  by (simp add: fireHeaderTimeout_def Close_closed)

lemma finish_write_fields:
  assumes "writeFinish env raw s = (r, s')"
  shows "se_closed s' = se_closed s" "se_pending s' = se_pending s" "se_results s' = se_results s" "se_channels s' = se_channels s"
    "se_pushes s' = se_pushes s" "se_pushCap s' = se_pushCap s" "se_bootstrapDone s' = se_bootstrapDone s"
    "se_bootstrapPushes s' = se_bootstrapPushes s" "se_headerTimers s' = se_headerTimers s"
  using assms by (auto simp: writeFinish_def Let_def split: prod.splits if_splits)

lemma endsWell_frame:
  "endsWell s \<Longrightarrow> endsWell (removePending i ch s)" "endsWell s \<Longrightarrow> endsWell (armHeaderTimeout i m ch s)"
  "endsWell s \<Longrightarrow> endsWell (rearmAfterAbandon b m s)" "endsWell s \<Longrightarrow> endsWell (snd (finishBootstrap s))"
  by (auto simp: endsWell_def removePending_def armHeaderTimeout_def rearmAfterAbandon_def session_queueSchedule_def
      finishBootstrap_def Let_def)

lemma step_ends:
  assumes "step seal y y'" "endsWell (sy_session y)" "sy_reading y \<longleftrightarrow> \<not> se_closed (sy_session y)"
  shows "endsWell (sy_session y') \<and> (sy_reading y' \<longleftrightarrow> \<not> se_closed (sy_session y'))"
  using assms
proof (cases rule: step.cases)
  case (issue i command packetID channel s' body)
  from requestBegin_issued(7) [OF issue(3)] issue(1) assms(2,3) requestBegin_issued(2,3) [OF issue(3)]
  show ?thesis by (auto simp: endsWell_def)
next
  case (refuse i command e s')
  have "s' = (sy_session y)\<lparr>se_nextID := se_nextID s'\<rparr>" using requestBegin_refused [OF refuse(3)] .
  then have "endsWell s' \<and> se_closed s' = se_closed (sy_session y)" using assms(2)
    by (metis (mono_tags, lifting) endsWell_def session.select_convs session.surjective session.update_convs(1))
  then show ?thesis using refuse(1) assms(3) by simp
next
  case (sent channel c raw env n s')
  then show ?thesis using endsWell_finish_write [OF sent(4)] finish_write_fields(1) [OF sent(4)] assms(2,3) by (simp add: setCall_def)
next
  case (unsent channel c raw env n e s' ctxDone)
  then show ?thesis using endsWell_finish_write [OF unsent(4)] finish_write_fields(1) [OF unsent(4)] assms(2,3) by (simp add: setCall_def)
next
  case (read input continues s')
  then show ?thesis using endsWell_read [OF read(3)] read_closes [OF read(3)] assms(2,3) by simp
next
  case (ping_timer w generation)
  then show ?thesis using quiet_owner(3) assms(2,3) by (auto simp: endsWell_def)
qed (use assms endsWell_frame endsWell_Close endsWell_fireHeader Close_closed fireHeader_closed in
      \<open>auto simp: setCall_def endsWell_def [of "_\<lparr>se_pushes := _\<rparr>"] endsWell_def [of "_\<lparr>se_results := _\<rparr>"] endsWell_def [of "sy_session y"]\<close>)

subsection \<open>Correlation\<close>

text \<open>A result that may be given to a call: an error, or a packet with the call's ID and method.\<close>

definition answers :: "call \<Rightarrow> Packet result \<Rightarrow> bool" where
  "answers c r \<longleftrightarrow> (\<forall>packet. r = Inr packet \<longrightarrow>
     PacketID (pk_Header packet) = ca_id c \<and> Method (pk_Header packet) = ca_command c)"

definition listening :: "phase \<Rightarrow> bool" where
  "listening ph \<longleftrightarrow> (case ph of Abandoning _ _ \<Rightarrow> False | Returned _ \<Rightarrow> False | _ \<Rightarrow> True)"

definition unarmed :: "phase \<Rightarrow> bool" where
  "unarmed ph \<longleftrightarrow> (case ph of Writing \<Rightarrow> True | Sending _ \<Rightarrow> True | Arming \<Rightarrow> True | _ \<Rightarrow> False)"

definition callOK :: "session \<Rightarrow> nat \<Rightarrow> call \<Rightarrow> bool" where
  "callOK s channel c \<longleftrightarrow> length (se_results s channel) \<le> 1 \<and> (\<forall>r\<in>set (se_results s channel). answers c r)
     \<and> (\<forall>r. ca_phase c = Returned r \<longrightarrow> answers c r)
     \<and> (listening (ca_phase c) \<longrightarrow> se_results s channel \<noteq> []
          \<or> se_pending s (ca_id c) = Some \<lparr>pr_method = ca_command c, pr_result = channel\<rparr>)
     \<and> (unarmed (ca_phase c) \<and> se_pending s (ca_id c) = Some \<lparr>pr_method = ca_command c, pr_result = channel\<rparr>
          \<longrightarrow> se_headerTimers s (ca_id c) = None)
     \<and> (ca_id c = 2 \<or> inRange (ca_id c))"

definition correlated :: "session \<Rightarrow> (nat \<rightharpoonup> call) \<Rightarrow> bool" where
  "correlated s calls \<longleftrightarrow>
     (\<forall>i request. se_pending s i = Some request \<longrightarrow> (\<exists>c. calls (pr_result request) = Some c \<and> ca_id c = i
        \<and> ca_command c = pr_method request \<and> se_results s (pr_result request) = [] \<and> (\<forall>r. ca_phase c \<noteq> Returned r)))
   \<and> (\<forall>channel \<ge> se_channels s. calls channel = None \<and> se_results s channel = [])
   \<and> (\<forall>channel c. calls channel = Some c \<longrightarrow> callOK s channel c)
   \<and> (se_channels s = 0 \<longrightarrow> se_headerTimers s = Map.empty)"

lemma phase_simps [simp]:
  "listening Writing" "listening (Sending raw)" "listening Arming" "listening Waiting" "\<not> listening (Abandoning e b)"
  "\<not> listening (Returned r)" "unarmed Writing" "unarmed (Sending raw)" "unarmed Arming" "\<not> unarmed Waiting"
  "\<not> unarmed (Abandoning e b)" "\<not> unarmed (Returned r)"
  by (simp_all add: listening_def unarmed_def)

text \<open>The correlation reads four fields of the session.\<close>

lemma correlated_cong:
  "se_pending s = se_pending s' \<Longrightarrow> se_results s = se_results s' \<Longrightarrow> se_channels s = se_channels s' \<Longrightarrow>
   se_headerTimers s = se_headerTimers s' \<Longrightarrow> correlated s calls = correlated s' calls"
  by (simp add: correlated_def callOK_def)

lemma correlatedD:
  assumes "correlated s calls"
  shows "se_pending s i = Some request \<Longrightarrow> \<exists>c. calls (pr_result request) = Some c \<and> ca_id c = i
      \<and> ca_command c = pr_method request \<and> se_results s (pr_result request) = [] \<and> (\<forall>r. ca_phase c \<noteq> Returned r)"
    and "channel \<ge> se_channels s \<Longrightarrow> calls channel = None \<and> se_results s channel = []"
    and "calls channel = Some c \<Longrightarrow> callOK s channel c"
    and "se_channels s = 0 \<Longrightarrow> se_headerTimers s = Map.empty"
  using assms unfolding correlated_def by blast+

lemma correlatedI:
  assumes "\<And>i request. se_pending s i = Some request \<Longrightarrow> \<exists>c. calls (pr_result request) = Some c \<and> ca_id c = i
      \<and> ca_command c = pr_method request \<and> se_results s (pr_result request) = [] \<and> (\<forall>r. ca_phase c \<noteq> Returned r)"
    and "\<And>channel. channel \<ge> se_channels s \<Longrightarrow> calls channel = None \<and> se_results s channel = []"
    and "\<And>channel c. calls channel = Some c \<Longrightarrow> callOK s channel c"
    and "se_channels s = 0 \<Longrightarrow> se_headerTimers s = Map.empty"
  shows "correlated s calls"
  using assms unfolding correlated_def by blast

text \<open>Fewer header timers never hurt.\<close>

lemma correlated_same:
  assumes "correlated s calls" "se_pending s' = se_pending s" "se_results s' = se_results s" "se_channels s' = se_channels s"
    and "\<And>i. se_headerTimers s i = None \<Longrightarrow> se_headerTimers s' i = None"
  shows "correlated s' calls"
proof (rule correlatedI)
  fix channel c assume "calls channel = Some c"
  from correlatedD(3) [OF assms(1) this] show "callOK s' channel c" using assms(5) by (auto simp: callOK_def assms(2,3))
next
  assume "se_channels s' = 0"
  then have "se_headerTimers s = Map.empty" using correlatedD(4) [OF assms(1)] assms(4) by simp
  then show "se_headerTimers s' = Map.empty" using assms(5) by (intro ext) simp
qed (use correlatedD(1,2) [OF assms(1)] assms(2-4) in auto)

lemma pending_channel:
  assumes "correlated s calls" "se_pending s i = Some request"
  shows "pr_result request < se_channels s"
  using correlatedD(1) [OF assms] correlatedD(2) [OF assms(1), of "pr_result request"] by (metis leI option.distinct(1))

text \<open>A call moves to another phase: back to no earlier one, and returned only with an answer.\<close>

lemma correlated_move:
  assumes "correlated s calls" "calls channel = Some c"
    and "listening ph \<Longrightarrow> listening (ca_phase c)" "unarmed ph \<Longrightarrow> unarmed (ca_phase c)"
    and "\<And>r. ph = Returned r \<Longrightarrow> answers c r \<and> (\<forall>i request. se_pending s i = Some request \<longrightarrow> pr_result request \<noteq> channel)"
  shows "correlated s (calls(channel \<mapsto> c\<lparr>ca_phase := ph\<rparr>))"
proof (rule correlatedI)
  fix i request assume p: "se_pending s i = Some request"
  from correlatedD(1) [OF assms(1) this] obtain d where d: "calls (pr_result request) = Some d" "ca_id d = i"
    "ca_command d = pr_method request" "se_results s (pr_result request) = []" "\<forall>r. ca_phase d \<noteq> Returned r" by blast
  show "\<exists>c'. (calls(channel \<mapsto> c\<lparr>ca_phase := ph\<rparr>)) (pr_result request) = Some c' \<and> ca_id c' = i
      \<and> ca_command c' = pr_method request \<and> se_results s (pr_result request) = [] \<and> (\<forall>r. ca_phase c' \<noteq> Returned r)"
    using d assms(2) assms(5) p by (cases "pr_result request = channel") auto
next
  fix channel' assume "channel' \<ge> se_channels s"
  then show "(calls(channel \<mapsto> c\<lparr>ca_phase := ph\<rparr>)) channel' = None \<and> se_results s channel' = []"
    using correlatedD(2) [OF assms(1)] assms(2) by fastforce
next
  fix channel' d assume d: "(calls(channel \<mapsto> c\<lparr>ca_phase := ph\<rparr>)) channel' = Some d"
  show "callOK s channel' d"
  proof (cases "channel' = channel")
    case True
    have "callOK s channel c" using correlatedD(3) [OF assms(1,2)] .
    then show ?thesis using d True assms(3-5) by (auto simp: callOK_def answers_def)
  qed (use d correlatedD(3) [OF assms(1)] in simp)
qed (use correlatedD(4) [OF assms(1)] in simp)

lemma correlated_finish:
  assumes "correlated s calls" "\<not> se_closed s"
  shows "correlated (finishRead err s) calls"
proof -
  obtain w e where f: "finishRead err s = s\<lparr>se_closed := True, se_pending := Map.empty, se_headerTimers := Map.empty, se_pushesClosed := True,
    se_results := failPending e s, se_lifecycleStopped := True, se_scheduler := w\<rparr>"
    using finishRead_open [OF assms(2), of err] by blast
  have pend: "se_results s (pr_result request) = []" if "request \<in> ran (se_pending s)" for request
    using correlatedD(1) [OF assms(1)] that by (auto simp: ran_def)
  have fresh: "pr_result request < se_channels s" if "request \<in> ran (se_pending s)" for request
    using pending_channel [OF assms(1)] that by (auto simp: ran_def)
  have own: "\<exists>request\<in>ran (se_pending s). pr_result request = channel"
    if "se_pending s i = Some \<lparr>pr_method = m, pr_result = channel\<rparr>" for i m channel
    using that by (auto intro!: bexI [OF _ ranI])
  have "callOK (finishRead err s) channel c" if "calls channel = Some c" for channel c
  proof -
    have "callOK s channel c" using correlatedD(3) [OF assms(1) that] .
    then show ?thesis unfolding f
      using pend that by (auto simp: callOK_def failPending_def answers_def dest: own)
  qed
  moreover have "failPending e s channel = []" if "channel \<ge> se_channels s" for channel
    using fresh correlatedD(2) [OF assms(1) that] that by (auto simp: failPending_def dest!: fresh)
  ultimately show ?thesis using correlatedD(2) [OF assms(1)] unfolding f by (intro correlatedI) simp_all
qed

lemma correlated_dispatch:
  assumes "correlated s calls" "dispatchPacket packet s = (ok, s')"
  shows "correlated s' calls"
proof -
  let ?h = "pk_Header packet"
  let ?s1 = "disarmHeaderTimeoutLocked ?h s"
  have s1: "correlated ?s1 calls"
    by (rule correlated_same [OF assms(1)]) (auto simp: disarmHeaderTimeoutLocked_def)
  show ?thesis
  proof (cases ok)
    case False
    then show ?thesis using assms(2) s1 by (auto simp: dispatchPacket_def Let_def split: option.splits if_splits)
  next
    case True
    then obtain request where r: "se_pending ?s1 (PacketID ?h) = Some request" "pr_method request = Method ?h"
      "s' = (session_queueSchedule (?s1\<lparr>se_pending := (se_pending ?s1)(PacketID ?h := None)\<rparr>))
         \<lparr>se_results := (se_results ?s1)(pr_result request := se_results ?s1 (pr_result request) @ [Inr packet])\<rparr>"
      using assms(2) by (auto simp: dispatchPacket_def Let_def split: option.splits if_splits)
    let ?s2 = "?s1\<lparr>se_pending := (se_pending ?s1)(PacketID ?h := None), se_results := (se_results ?s1)(pr_result request := [Inr packet])\<rparr>"
    from s1 r(1) obtain c where c: "calls (pr_result request) = Some c" "ca_id c = PacketID ?h" "ca_command c = pr_method request"
      "se_results ?s1 (pr_result request) = []" "\<And>r. ca_phase c \<noteq> Returned r"
      using correlatedD(1) [OF s1] by blast
    have other: "pr_result request' \<noteq> pr_result request" if "se_pending ?s1 i = Some request'" "i \<noteq> PacketID ?h" for i request'
      using correlatedD(1) [OF s1 that(1)] that(2) c(1,2) by auto
    have "callOK ?s2 channel d" if d: "calls channel = Some d" for channel d
    proof -
      have ok: "callOK ?s1 channel d" using correlatedD(3) [OF s1 d] .
      show ?thesis
      proof (cases "channel = pr_result request")
        case True
        then show ?thesis using ok c r(2) d by (auto simp: callOK_def answers_def)
      next
        case False
        then show ?thesis using ok r(1) by (auto simp: callOK_def)
      qed
    qed
    then have "correlated ?s2 calls"
      using pending_channel [OF s1 r(1)] correlatedD(2,4) [OF s1] correlatedD(1) [OF s1] other
      by (intro correlatedI) (auto split: if_splits)
    then show ?thesis by (rule correlated_same) (simp_all add: r(3) c(4))
  qed
qed

lemma correlated_issue:
  assumes "correlated s calls" "requestBegin i command s = (Inr (packetID, channel), s')"
    and "i = 0 \<or> i = 2 \<and> se_channels s = 0"
  shows "correlated s' (calls(channel \<mapsto> \<lparr>ca_id = packetID, ca_command = command, ca_body = body, ca_phase = Writing\<rparr>))"
proof -
  note b = requestBegin_issued [OF assms(2)]
  have t: "se_headerTimers s packetID = None" "packetID = 2 \<or> inRange packetID"
    using assms(3) b(5,6) correlatedD(4) [OF assms(1)] by auto
  obtain w n where s': "s' = s\<lparr>se_nextID := n, se_pending := (se_pending s)(packetID \<mapsto> \<lparr>pr_method = command, pr_result = se_channels s\<rparr>),
       se_channels := se_channels s + 1, se_scheduler := w\<rparr>" using b(7) by blast
  have ch: "channel = se_channels s" by (rule b(1))
  note fresh = correlatedD(2) [OF assms(1), of "se_channels s"]
  show ?thesis
  proof (rule correlatedI)
    fix j request assume p: "se_pending s' j = Some request"
    show "\<exists>c. (calls(channel \<mapsto> \<lparr>ca_id = packetID, ca_command = command, ca_body = body, ca_phase = Writing\<rparr>)) (pr_result request) = Some c
        \<and> ca_id c = j \<and> ca_command c = pr_method request \<and> se_results s' (pr_result request) = [] \<and> (\<forall>r. ca_phase c \<noteq> Returned r)"
    proof (cases "j = packetID")
      case True
      then show ?thesis using p fresh by (auto simp: s' ch)
    next
      case False
      then have q: "se_pending s j = Some request" using p by (simp add: s')
      show ?thesis using correlatedD(1) [OF assms(1) q] pending_channel [OF assms(1) q] by (simp add: s' ch)
    qed
  next
    fix channel' assume "channel' \<ge> se_channels s'"
    then show "(calls(channel \<mapsto> \<lparr>ca_id = packetID, ca_command = command, ca_body = body, ca_phase = Writing\<rparr>)) channel' = None
        \<and> se_results s' channel' = []"
      using correlatedD(2) [OF assms(1), of channel'] by (simp add: s' ch)
  next
    fix channel' d
    assume d: "(calls(channel \<mapsto> \<lparr>ca_id = packetID, ca_command = command, ca_body = body, ca_phase = Writing\<rparr>)) channel' = Some d"
    show "callOK s' channel' d"
    proof (cases "channel' = channel")
      case True
      then show ?thesis using d fresh t by (auto simp: callOK_def s' ch)
    next
      case False
      then have "callOK s channel' d" using d correlatedD(3) [OF assms(1)] by simp
      then show ?thesis using False b(4) by (auto simp: callOK_def s' ch)
    qed
  qed (simp add: s')
qed

lemma correlated_receive:
  assumes "correlated s calls" "calls channel = Some c" "ca_phase c = Waiting" "se_results s channel = r # rs"
  shows "correlated (s\<lparr>se_results := (se_results s)(channel := rs)\<rparr>)
    (calls(channel \<mapsto> c\<lparr>ca_phase := Returned (case r of Inl e \<Rightarrow> Inl (requestErr e) | Inr packet \<Rightarrow> Inr packet)\<rparr>))"
proof -
  let ?r = "case r of Inl e \<Rightarrow> Inl (requestErr e) | Inr packet \<Rightarrow> Inr packet"
  have c: "rs = []" "answers c r" using correlatedD(3) [OF assms(1,2)] assms(4) by (auto simp: callOK_def)
  then have a: "answers c ?r" by (auto simp: answers_def split: sum.splits)
  have "pr_result request \<noteq> channel" if "se_pending s i = Some request" for i request
    using correlatedD(1) [OF assms(1) that] assms(4) by auto
  note ne = this
  have m: "correlated s (calls(channel \<mapsto> c\<lparr>ca_phase := Returned ?r\<rparr>))"
    by (intro correlated_move [OF assms(1,2)]) (use a ne in auto)
  show ?thesis
  proof (rule correlatedI)
    fix i request assume "se_pending (s\<lparr>se_results := (se_results s)(channel := rs)\<rparr>) i = Some request"
    then have p: "se_pending s i = Some request" by simp
    show "\<exists>d. (calls(channel \<mapsto> c\<lparr>ca_phase := Returned ?r\<rparr>)) (pr_result request) = Some d \<and> ca_id d = i
        \<and> ca_command d = pr_method request \<and> se_results (s\<lparr>se_results := (se_results s)(channel := rs)\<rparr>) (pr_result request) = []
        \<and> (\<forall>r. ca_phase d \<noteq> Returned r)"
      using correlatedD(1) [OF m p] ne [OF p] by simp
  next
    fix channel' d assume d: "(calls(channel \<mapsto> c\<lparr>ca_phase := Returned ?r\<rparr>)) channel' = Some d"
    show "callOK (s\<lparr>se_results := (se_results s)(channel := rs)\<rparr>) channel' d"
      using correlatedD(3) [OF m d] d c(1) by (auto simp: callOK_def split: if_splits)
  qed (use correlatedD(2,4) [OF m] c(1) in auto)
qed

lemma correlated_abandon:
  assumes "correlated s calls" "calls channel = Some c" "ca_phase c = Abandoning e ctxDone"
  shows "correlated (rearmAfterAbandon ctxDone command (removePending (ca_id c) channel s))
    (calls(channel \<mapsto> c\<lparr>ca_phase := Returned (Inl x)\<rparr>))"
proof -
  let ?s = "removePending (ca_id c) channel s"
  have own: "pr_result request = channel \<Longrightarrow> i = ca_id c" if "se_pending s i = Some request" for i request
    using correlatedD(1) [OF assms(1) that] assms(2) by auto
  have sub: "se_pending s i = Some request \<and> pr_result request \<noteq> channel" if "se_pending ?s i = Some request" for i request
    using that own [of i request] by (auto simp: removePending_def split: if_splits)
  have f: "se_results ?s = se_results s" "se_channels ?s = se_channels s" "se_headerTimers ?s = se_headerTimers s"
    by (simp_all add: removePending_def)
  have "correlated ?s calls"
  proof (rule correlatedI)
    fix channel' d assume d: "calls channel' = Some d"
    have ok: "callOK s channel' d" using correlatedD(3) [OF assms(1) d] .
    show "callOK ?s channel' d"
    proof (cases "channel' = channel")
      case True
      then have "ca_phase d = Abandoning e ctxDone" using d assms(2,3) by simp
      then show ?thesis using ok by (simp add: callOK_def f)
    next
      case False
      then have "se_pending ?s (ca_id d) = Some \<lparr>pr_method = ca_command d, pr_result = channel'\<rparr>
          \<longleftrightarrow> se_pending s (ca_id d) = Some \<lparr>pr_method = ca_command d, pr_result = channel'\<rparr>"
        by (auto simp: removePending_def)
      then show ?thesis using ok by (simp add: callOK_def f)
    qed
  next
    fix i request assume "se_pending ?s i = Some request"
    from sub [OF this] correlatedD(1) [OF assms(1), of i request] show "\<exists>c. calls (pr_result request) = Some c \<and> ca_id c = i
      \<and> ca_command c = pr_method request \<and> se_results ?s (pr_result request) = [] \<and> (\<forall>r. ca_phase c \<noteq> Returned r)" by (simp add: f)
  qed (use correlatedD(2,4) [OF assms(1)] in \<open>simp_all add: f\<close>)
  then have "correlated ?s (calls(channel \<mapsto> c\<lparr>ca_phase := Returned (Inl x)\<rparr>))"
    by (rule correlated_move) (use assms(2) sub in \<open>auto simp: answers_def dest!: sub\<close>)
  then show ?thesis by (rule correlated_same) simp_all
qed

lemma correlated_arm:
  assumes "correlated s calls" "calls channel = Some c" "ca_phase c = Arming"
  shows "correlated (armHeaderTimeout (ca_id c) (ca_command c) channel s) (calls(channel \<mapsto> c\<lparr>ca_phase := Waiting\<rparr>))"
proof -
  let ?s = "armHeaderTimeout (ca_id c) (ca_command c) channel s"
  have m: "correlated s (calls(channel \<mapsto> c\<lparr>ca_phase := Waiting\<rparr>))"
    by (rule correlated_move [OF assms(1,2)]) (use assms(3) in auto)
  have f: "se_pending ?s = se_pending s" "se_results ?s = se_results s" "se_channels ?s = se_channels s"
    by (simp_all add: armHeaderTimeout_def)
  have n: "se_channels s \<noteq> 0" using correlatedD(2) [OF assms(1), of channel] assms(2) by (metis le0 option.distinct(1))
  have t: "i = ca_id c \<and> map_option pr_result (se_pending s i) = Some channel"
    if "se_headerTimers s i = None" "se_headerTimers ?s i \<noteq> None" for i
    using that by (auto simp: armHeaderTimeout_def split: if_splits)
  show ?thesis
  proof (rule correlatedI)
    fix channel' d assume d: "(calls(channel \<mapsto> c\<lparr>ca_phase := Waiting\<rparr>)) channel' = Some d"
    have ok: "callOK s channel' d" using correlatedD(3) [OF m d] .
    show "callOK ?s channel' d"
    proof (cases "channel' = channel")
      case True
      then show ?thesis using ok d by (auto simp: callOK_def f)
    next
      case False
      then have "se_headerTimers ?s (ca_id d) = None" if "se_headerTimers s (ca_id d) = None"
        "se_pending s (ca_id d) = Some \<lparr>pr_method = ca_command d, pr_result = channel'\<rparr>"
        using t [OF that(1)] that(2) by fastforce
      then show ?thesis using ok by (simp add: callOK_def f)
    qed
  qed (use correlatedD(1,2) [OF m] f n in auto)
qed

lemma Close_frame:
  "se_pending (Close s) = se_pending s" "se_results (Close s) = se_results s" "se_channels (Close s) = se_channels s"
  "se_headerTimers s i = None \<Longrightarrow> se_headerTimers (Close s) i = None" "se_pushes (Close s) = se_pushes s"
  "se_pushCap (Close s) = se_pushCap s" "se_bootstrapDone (Close s) = se_bootstrapDone s" "se_bootstrapPushes (Close s) = se_bootstrapPushes s"
  by (simp_all add: Close_def Let_def stopHeaderTimersLocked_def)

lemma fire_frame:
  "se_pending (fireHeaderTimeout j t s) = se_pending s" "se_results (fireHeaderTimeout j t s) = se_results s"
  "se_channels (fireHeaderTimeout j t s) = se_channels s"
  "se_headerTimers s i = None \<Longrightarrow> se_headerTimers (fireHeaderTimeout j t s) i = None" "se_pushes (fireHeaderTimeout j t s) = se_pushes s"
  "se_pushCap (fireHeaderTimeout j t s) = se_pushCap s" "se_bootstrapDone (fireHeaderTimeout j t s) = se_bootstrapDone s"
  "se_bootstrapPushes (fireHeaderTimeout j t s) = se_bootstrapPushes s"
  by (simp_all add: fireHeaderTimeout_def Close_frame)

lemma correlated_close: "correlated s calls \<Longrightarrow> correlated (Close s) calls"
  by (erule correlated_same) (simp_all add: Close_frame)

lemma correlated_fire: "correlated s calls \<Longrightarrow> correlated (fireHeaderTimeout packetID timer s) calls"
  by (erule correlated_same) (simp_all add: fire_frame)

lemma correlated_read:
  assumes "correlated s calls" "readLoopBody input s = (ok, s')" "\<not> se_closed s"
  shows "correlated s' calls"
  using assms(2)
proof (cases rule: readLoopBody_cases)
  case (failed e)
  then show ?thesis using correlated_finish [OF assms(1,3)] by simp
next
  case (dispatched packet)
  then show ?thesis using correlated_dispatch [OF assms(1)] by blast
next
  case (pushed packet s1)
  have s1: "correlated s1 calls" "\<not> se_closed s1"
    using correlated_dispatch [OF assms(1) pushed(2)] dispatch_fields(1) [OF pushed(2)] assms(3) by auto
  from pushed(3) consider "se_pending s' = se_pending s1 \<and> se_results s' = se_results s1 \<and> se_channels s' = se_channels s1
      \<and> se_headerTimers s' = se_headerTimers s1"
    | "s' = (finishRead ErrProtocol s1)\<lparr>se_wireClosed := True\<rparr>"
    by (auto simp: pushPacket_def split: option.splits if_splits)
  then show ?thesis
  proof cases
    case 1
    then show ?thesis by (intro correlated_same [OF s1(1)]) simp_all
  next
    case 2
    then show ?thesis by (intro correlated_same [OF correlated_finish [OF s1]]) simp_all
  qed
qed

lemma step_correlated:
  assumes "step seal y y'" "correlated (sy_session y) (sy_calls y)" "sy_reading y \<longleftrightarrow> \<not> se_closed (sy_session y)"
  shows "correlated (sy_session y') (sy_calls y')"
  using assms(1)
proof (cases rule: step.cases)
  case (issue i command packetID channel s' body)
  then show ?thesis using correlated_issue [OF assms(2) issue(3,2)] by simp
next
  case (refuse i command e s')
  have "correlated s' (sy_calls y)"
    by (rule correlated_same [OF assms(2)]) (subst requestBegin_refused [OF refuse(3)], simp)+
  then show ?thesis using refuse(1) by simp
next
  case (unencodable channel c random secure e ctxDone)
  then show ?thesis using correlated_move [OF assms(2) unencodable(2), of "Abandoning e ctxDone"] by (simp add: setCall_def)
next
  case (unwritten channel c env e ctxDone)
  then show ?thesis using correlated_move [OF assms(2) unwritten(2), of "Abandoning e ctxDone"] by (simp add: setCall_def)
next
  case (send channel c env random secure raw)
  then show ?thesis using correlated_move [OF assms(2) send(2), of "Sending raw"] by (simp add: setCall_def)
next
  case (sent channel c raw env n s')
  have "correlated s' (sy_calls y)"
    by (rule correlated_same [OF assms(2)]) (simp_all add: finish_write_fields [OF sent(4)])
  from correlated_move [OF this sent(2), of Arming] sent show ?thesis by (simp add: setCall_def)
next
  case (unsent channel c raw env n e s' ctxDone)
  have "correlated s' (sy_calls y)"
    by (rule correlated_same [OF assms(2)]) (simp_all add: finish_write_fields [OF unsent(4)])
  from correlated_move [OF this unsent(2), of "Abandoning e ctxDone"] unsent show ?thesis by (simp add: setCall_def)
next
  case (arm channel c)
  then show ?thesis using correlated_arm [OF assms(2) arm(2,3)] by (simp add: setCall_def)
next
  case (receive channel c r rs)
  then show ?thesis using correlated_receive [OF assms(2) receive(2-4)] by (simp add: setCall_def)
next
  case (cancel channel c e)
  then show ?thesis using correlated_move [OF assms(2) cancel(2), of "Abandoning e True"] by (simp add: setCall_def)
next
  case (abandon channel c e ctxDone)
  then show ?thesis using correlated_abandon [OF assms(2) abandon(2,3)] by (simp add: setCall_def)
next
  case (read input continues s')
  then show ?thesis using correlated_read [OF assms(2) read(3)] assms(3) by simp
next
  case (header_timer packetID timer)
  then show ?thesis using correlated_fire [OF assms(2)] by simp
next
  case (ping_timer w generation)
  then show ?thesis by (auto intro: correlated_same [OF assms(2)])
next
  case close
  then show ?thesis using correlated_close [OF assms(2)] by simp
next
  case bootstrapped
  then show ?thesis by (auto intro!: correlated_same [OF assms(2)] simp: finishBootstrap_def Let_def)
next
  case (consume packet rest)
  then show ?thesis by (auto intro: correlated_same [OF assms(2)])
qed

subsection \<open>Pushes\<close>

definition pushesOK :: "system \<Rightarrow> bool" where
  "pushesOK y \<longleftrightarrow> (let s = sy_session y in
     if se_bootstrapDone s
     then se_bootstrapPushes s = None
       \<and> (if se_closed s then prefix (sy_delivered y @ se_pushes s) (sy_unsolicited y)
          else sy_delivered y @ se_pushes s = sy_unsolicited y)
     else sy_delivered y = [] \<and> se_pushes s = [] \<and> se_bootstrapPushes s = Some (sy_unsolicited y))"

lemma pushesOK_same:
  assumes "pushesOK y" "se_bootstrapDone (sy_session y') = se_bootstrapDone (sy_session y)"
    "se_bootstrapPushes (sy_session y') = se_bootstrapPushes (sy_session y)" "se_pushes (sy_session y') = se_pushes (sy_session y)"
    "se_closed (sy_session y') = se_closed (sy_session y)" "sy_delivered y' = sy_delivered y" "sy_unsolicited y' = sy_unsolicited y"
  shows "pushesOK y'"
  using assms by (simp add: pushesOK_def Let_def)

lemma finishRead_pushes [simp]:
  "se_pushes (finishRead err s) = se_pushes s" "se_bootstrapDone (finishRead err s) = se_bootstrapDone s"
  "se_bootstrapPushes (finishRead err s) = se_bootstrapPushes s"
  using finishRead_open [of s err] by (cases "se_closed s"; auto simp: finishRead_def)+

lemma pushesOK_read:
  assumes "pushesOK y" "\<not> se_closed (sy_session y)" "readLoopBody input (sy_session y) = (ok, s')"
  shows "pushesOK (y\<lparr>sy_session := s', sy_reading := ok,
      sy_unsolicited := sy_unsolicited y @ (case input of Inl _ \<Rightarrow> []
        | Inr packet \<Rightarrow> if fst (dispatchPacket packet (sy_session y)) then [] else [packet])\<rparr>)"
  using assms(3)
proof (cases rule: readLoopBody_cases)
  case (failed e)
  then show ?thesis using assms(1,2) by (simp add: pushesOK_def Let_def split: if_splits)
next
  case (dispatched packet)
  then show ?thesis using assms(1,2) dispatch_fields [OF dispatched(3)] by (simp add: pushesOK_def Let_def)
next
  case (pushed packet s1)
  then show ?thesis using assms(1,2) dispatch_fields [OF pushed(2)]
    by (auto simp: pushesOK_def Let_def pushPacket_def split: option.splits if_splits)
qed

lemma step_pushes:
  assumes "step seal y y'" "pushesOK y" "sy_reading y \<longleftrightarrow> \<not> se_closed (sy_session y)" "se_wired (sy_session y)"
  shows "pushesOK y'"
  using assms(1)
proof (cases rule: step.cases)
  case (issue i command packetID channel s' body)
  from requestBegin_issued(7) [OF issue(3)] issue(1) show ?thesis by (auto intro: pushesOK_same [OF assms(2)])
next
  case (refuse i command e s')
  have "pushesOK (y\<lparr>sy_session := s'\<rparr>)"
    by (rule pushesOK_same [OF assms(2)]; subst requestBegin_refused [OF refuse(3)]; simp)
  then show ?thesis using refuse(1) by simp
next
  case (sent channel c raw env n s')
  then show ?thesis using finish_write_fields [OF sent(4)] by (auto intro!: pushesOK_same [OF assms(2)] simp: setCall_def)
next
  case (unsent channel c raw env n e s' ctxDone)
  then show ?thesis using finish_write_fields [OF unsent(4)] by (auto intro!: pushesOK_same [OF assms(2)] simp: setCall_def)
next
  case (read input continues s')
  then show ?thesis using pushesOK_read [OF assms(2) _ read(3)] assms(3) by simp
next
  case (header_timer packetID timer)
  then show ?thesis using fire_frame fireHeader_closed [OF assms(4)] by (auto intro!: pushesOK_same [OF assms(2)])
next
  case close
  then show ?thesis using Close_frame Close_closed [OF assms(4)] by (auto intro!: pushesOK_same [OF assms(2)])
next
  case bootstrapped
  then show ?thesis using assms(2) by (auto simp: pushesOK_def finishBootstrap_def Let_def split: if_splits)
next
  case (consume packet rest)
  then show ?thesis using assms(2) by (auto simp: pushesOK_def Let_def split: if_splits)
next
  case (arm channel c)
  then show ?thesis by (auto intro!: pushesOK_same [OF assms(2)] simp: setCall_def armHeaderTimeout_def)
next
  case (abandon channel c e ctxDone)
  then show ?thesis by (auto intro!: pushesOK_same [OF assms(2)] simp: setCall_def removePending_def)
qed (auto intro!: pushesOK_same [OF assms(2)] simp: setCall_def)

lemma reachable_inv:
  assumes "reachable seal y"
  shows "endsWell (sy_session y) \<and> (sy_reading y \<longleftrightarrow> \<not> se_closed (sy_session y)) \<and> correlated (sy_session y) (sy_calls y) \<and> pushesOK y"
  using assms
proof (induction rule: reachable.induct)
  case (start scheduler timeout)
  show ?case by (simp add: startSystem_def carriageSession_def newSession_def endsWell_def correlated_def pushesOK_def)
next
  case (stepped y y')
  then have "se_wired (sy_session y)" by (simp add: endsWell_def)
  with stepped show ?case using step_ends [OF stepped(2)] step_correlated [OF stepped(2)] step_pushes [OF stepped(2)] by blast
qed

subsection \<open>Properties\<close>

text \<open>
  C21: A caller gets its own reply or an error, however callers, reader and timers interleave: a packet that a
  request returns has the packet ID and the method of that request. No two requests that
  still wait have the same ID, and a request that has not armed its own receive-header timer finds none
  armed at its ID, so the ID of an abandoned request stays reserved while its timer runs.
\<close>

theorem replies_correlate:
  assumes "reachable seal y" "sy_calls y channel = Some c"
  shows "(\<forall>packet. ca_phase c = Returned (Inr packet) \<longrightarrow>
      PacketID (pk_Header packet) = ca_id c \<and> Method (pk_Header packet) = ca_command c)
    \<and> (\<forall>channel' c'. sy_calls y channel' = Some c' \<longrightarrow> channel' \<noteq> channel \<longrightarrow> listening (ca_phase c) \<longrightarrow> listening (ca_phase c') \<longrightarrow>
         se_results (sy_session y) channel = [] \<longrightarrow> se_results (sy_session y) channel' = [] \<longrightarrow> ca_id c \<noteq> ca_id c')
    \<and> (unarmed (ca_phase c) \<longrightarrow> se_results (sy_session y) channel = [] \<longrightarrow> se_headerTimers (sy_session y) (ca_id c) = None)"
proof -
  have cor: "correlated (sy_session y) (sy_calls y)" using reachable_inv [OF assms(1)] by blast
  note ok = correlatedD(3) [OF cor]
  have "unarmed ph \<Longrightarrow> listening ph" for ph by (cases ph) simp_all
  then show ?thesis using ok [OF assms(2)] ok by (fastforce simp: callOK_def answers_def)
qed

lemma sampleReachable: "reachable seal (startSystem None (Some 5))"
  by (rule reachable.start) simp

definition sampleIssued :: system where
  "sampleIssued = (startSystem None (Some 5))\<lparr>sy_session :=
     (carriageSession None (Some 5))\<lparr>se_nextID := 3, se_pending := [2 \<mapsto> \<lparr>pr_method = PING, pr_result = 0\<rparr>], se_channels := 1\<rparr>,
     sy_calls := [0 \<mapsto> \<lparr>ca_id = 2, ca_command = PING, ca_body = [], ca_phase = Writing\<rparr>]\<rparr>"

lemma sampleIssued_reachable: "reachable seal sampleIssued"
proof -
  have b: "requestBegin 2 PING (sy_session (startSystem None (Some 5)))
      = (Inr (2, 0), (carriageSession None (Some 5))\<lparr>se_nextID := 3, se_pending := [2 \<mapsto> \<lparr>pr_method = PING, pr_result = 0\<rparr>], se_channels := 1\<rparr>)"
    by (simp add: requestBegin_def startSystem_def carriageSession_def newSession_def explicitID_def followingID_def
        requestIDMax_def requestIDMin_def queueCancelRequest_def PING_def)
  have "step seal (startSystem None (Some 5)) sampleIssued"
    using step.issue [OF _ b, of seal "[]"] by (simp add: sampleIssued_def startSystem_def carriageSession_def newSession_def)
  then show ?thesis by (rule reachable.stepped [OF sampleReachable])
qed

theorem replies_correlate_witness:
  "reachable toySeal sampleIssued \<and> se_headerTimers (sy_session sampleIssued) 2 = None"
proof -
  have "sy_calls sampleIssued 0 = Some \<lparr>ca_id = 2, ca_command = PING, ca_body = [], ca_phase = Writing\<rparr>"
    by (simp add: sampleIssued_def)
  from replies_correlate [OF sampleIssued_reachable [of toySeal] this] sampleIssued_reachable [of toySeal] show ?thesis
    by (simp add: sampleIssued_def carriageSession_def newSession_def)
qed

text \<open>
  C22: No caller is left waiting. When the reader ends, with an error or because the session was closed, every
  caller that waits has a result in its channel: the reply that already came, or else the
  error, which is the session's own cause if it closed itself. In particular a receive-header timer
  that fires in an open session makes every waiting request fail with \<open>errReceiveHeaderTimeout\<close>. In a closed
  session no caller waits for an empty channel.
\<close>

theorem callers_released:
  assumes "reachable seal y" "sy_calls y channel = Some c" "ca_phase c = Waiting"
  shows "(se_closed (sy_session y) \<longrightarrow> se_results (sy_session y) channel \<noteq> [])
    \<and> (\<not> se_closed (sy_session y) \<longrightarrow> sy_reading y
        \<and> se_results (finishRead e (sy_session y)) channel
            = (if se_results (sy_session y) channel = [] then [Inl (case se_closeCause (sy_session y) of None \<Rightarrow> e | Some cause \<Rightarrow> cause)]
               else se_results (sy_session y) channel))
    \<and> (\<not> se_closed (sy_session y) \<longrightarrow> \<not> se_closing (sy_session y) \<longrightarrow> se_closeCause (sy_session y) = None \<longrightarrow>
        se_results (sy_session y) channel = [] \<longrightarrow> (\<forall>i timer. map_option ht_handle (se_headerTimers (sy_session y) i) = Some timer \<longrightarrow>
          se_results (finishRead e (fireHeaderTimeout i timer (sy_session y))) channel = [Inl errReceiveHeaderTimeout]))"
proof -
  let ?s = "sy_session y"
  have inv: "endsWell ?s" "correlated ?s (sy_calls y)" "sy_reading y \<longleftrightarrow> \<not> se_closed ?s" using reachable_inv [OF assms(1)] by auto
  have ok: "se_results ?s channel \<noteq> [] \<or> se_pending ?s (ca_id c) = Some \<lparr>pr_method = ca_command c, pr_result = channel\<rparr>"
    using correlatedD(3) [OF inv(2) assms(2)] assms(3) by (simp add: callOK_def)
  have fail: "failPending x s channel = (if se_results s channel = [] then [Inl x] else se_results s channel)"
    if "se_pending s = se_pending ?s" "se_results s = se_results ?s" for x s
    using ok correlatedD(1) [OF inv(2)] that by (force simp: failPending_def ran_def)
  have fin: "se_results (finishRead e s) channel = failPending (case se_closeCause s of None \<Rightarrow> e | Some cause \<Rightarrow> cause) s channel"
    if "\<not> se_closed s" for s using finishRead_open [OF that, of e] by auto
  have timer: "se_closeCause (fireHeaderTimeout i timer ?s) = Some errReceiveHeaderTimeout"
    if "map_option ht_handle (se_headerTimers ?s i) = Some timer" "\<not> se_closed ?s" "\<not> se_closing ?s" "se_closeCause ?s = None" for i timer
    using that by (simp add: fireHeaderTimeout_def Close_def Let_def stopHeaderTimersLocked_def)
  have "se_closed ?s \<longrightarrow> se_results ?s channel \<noteq> []" using ok inv(1) by (auto simp: endsWell_def)
  moreover have "\<not> se_closed (fireHeaderTimeout i t ?s)" if "\<not> se_closed ?s" for i t
    using that fireHeader_closed inv(1) by (simp add: endsWell_def)
  ultimately show ?thesis
    using inv(3) fin [of ?s] fail [of ?s] fin fail timer by (simp add: fire_frame)
qed

lemma sample_written:
  assumes "reachable toySeal y" "sy_calls y 0 = Some c" "ca_phase c = Writing" "ca_command c = PING" "ca_id c = 2" "ca_body c = []"
    and "se_wired (sy_session y)" "\<not> se_closed (sy_session y)" "\<not> se_closing (sy_session y)"
  shows "\<exists>raw. reachable toySeal (setCall 0 c (Sending raw) y)"
proof -
  let ?env = "\<lparr>sd_acquire = None, sd_ctx = None, sd_write = (\<lambda>_. (1000, None)), sd_ctxAfter = None\<rparr>"
  have w: "writeBegin ?env (sy_session y) = None" using assms by (simp add: writeBegin_def)
  obtain raw where e: "encodeRequest toySeal None None (ca_id c) (ca_command c) (ca_body c) = Inr raw"
    using assms by (simp add: encodeRequest_def requestPacket_def Packet_MarshalBinary_def Header_MarshalBinary_def PING_def
        MethodFieldSize_def Let_def DefaultMaxBody_def)
  show ?thesis using reachable.stepped [OF assms(1) step.send [OF assms(2,3) w e]] by blast
qed

text \<open>A reachable state with a waiting caller: the write succeeds at once, then the timer is armed.\<close>

lemma sampleWaiting:
  "\<exists>y. reachable toySeal y \<and> sy_calls y 0 = Some \<lparr>ca_id = 2, ca_command = PING, ca_body = [], ca_phase = Waiting\<rparr>
     \<and> \<not> se_closed (sy_session y) \<and> se_results (sy_session y) 0 = [] \<and> se_closeCause (sy_session y) = None"
proof -
  let ?env = "\<lparr>sd_acquire = None, sd_ctx = None, sd_write = (\<lambda>_. (1000, None)), sd_ctxAfter = None\<rparr>"
  define c where "c = \<lparr>ca_id = 2, ca_command = PING, ca_body = [], ca_phase = Writing\<rparr>"
  have c0: "sy_calls sampleIssued 0 = Some c" "ca_phase c = Writing" by (simp_all add: sampleIssued_def c_def)
  obtain raw where r1: "reachable toySeal (setCall 0 c (Sending raw) sampleIssued)"
    using sample_written [OF sampleIssued_reachable c0]
    by (auto simp: c_def sampleIssued_def carriageSession_def newSession_def)
  let ?y1 = "setCall 0 c (Sending raw) sampleIssued"
  have c1: "sy_calls ?y1 0 = Some (c\<lparr>ca_phase := Sending raw\<rparr>)" "ca_phase (c\<lparr>ca_phase := Sending raw\<rparr>) = Sending raw"
    by (simp_all add: setCall_def)
  obtain n where w: "writeFinish ?env raw (sy_session ?y1) = ((n, None), sy_session ?y1)"
  proof -
    have "snd (writeLoop (\<lambda>_. (1000, None)) k rem) = None" for k rem
      by (induction "\<lambda>_ :: nat. (1000 :: nat, None :: go_error option)" k rem rule: writeLoop.induct)
        (subst writeLoop.simps, auto simp: split_beta)
    then show ?thesis by (intro that [of "fst (writeLoop (\<lambda>_. (1000, None)) 0 raw)"])
        (simp add: writeFinish_def split_beta)
  qed
  note r2 = reachable.stepped [OF r1 step.sent [OF c1 w]]
  let ?y2 = "setCall 0 (c\<lparr>ca_phase := Sending raw\<rparr>) Arming (?y1\<lparr>sy_session := sy_session ?y1\<rparr>)"
  have c2: "sy_calls ?y2 0 = Some (c\<lparr>ca_phase := Arming\<rparr>)" "ca_phase (c\<lparr>ca_phase := Arming\<rparr>) = Arming"
    by (simp_all add: setCall_def)
  from reachable.stepped [OF r2 step.arm [OF c2]] show ?thesis
    by (intro exI conjI, assumption)
      (simp_all add: setCall_def c_def sampleIssued_def armHeaderTimeout_def carriageSession_def newSession_def)
qed

theorem callers_released_witness:
  "\<exists>y. reachable toySeal y \<and> se_results (finishRead io_EOF (sy_session y)) 0 = [Inl io_EOF]"
proof -
  obtain y where y: "reachable toySeal y" "sy_calls y 0 = Some \<lparr>ca_id = 2, ca_command = PING, ca_body = [], ca_phase = Waiting\<rparr>"
    "\<not> se_closed (sy_session y)" "se_results (sy_session y) 0 = []" "se_closeCause (sy_session y) = None"
    using sampleWaiting by blast
  from callers_released [OF y(1,2), of io_EOF] y show ?thesis by auto
qed

text \<open>
  C23: Pushes keep the order of the wire. What the consumer has taken, followed by what is queued for it,
  is always a prefix of the unsolicited packets in the order they were read; while the session
  is open and its login is done nothing is missing, and packets that arrive during the login are held and
  come first.
\<close>

theorem pushes_in_order:
  assumes "reachable seal y"
  shows "prefix (sy_delivered y @ se_pushes (sy_session y)) (sy_unsolicited y)
    \<and> (se_bootstrapDone (sy_session y) \<and> \<not> se_closed (sy_session y) \<longrightarrow> sy_delivered y @ se_pushes (sy_session y) = sy_unsolicited y)
    \<and> (\<not> se_bootstrapDone (sy_session y) \<longrightarrow> se_bootstrapPushes (sy_session y) = Some (sy_unsolicited y))"
  using reachable_inv [OF assms] by (auto simp: pushesOK_def Let_def split: if_splits)

theorem pushes_in_order_witness:
  "\<exists>y. reachable toySeal y \<and> sy_unsolicited y = [samplePacket] \<and> se_bootstrapPushes (sy_session y) = Some [samplePacket]"
proof -
  let ?y = "startSystem None (Some 5)"
  have d: "dispatchPacket samplePacket (sy_session ?y) = (False, sy_session ?y)"
    by (simp add: dispatchPacket_def startSystem_def carriageSession_def newSession_def disarmHeaderTimeoutLocked_def Let_def)
  have "readLoopBody (Inr samplePacket) (sy_session ?y) = (True, (sy_session ?y)\<lparr>se_bootstrapPushes := Some [samplePacket]\<rparr>)"
    by (simp add: readLoopBody_def d) (simp add: pushPacket_def startSystem_def carriageSession_def newSession_def)
  from step.read [OF _ this, of toySeal] have s: "step toySeal ?y (?y\<lparr>sy_session := (sy_session ?y)\<lparr>se_bootstrapPushes := Some [samplePacket]\<rparr>,
      sy_reading := True, sy_unsolicited := [samplePacket]\<rparr>)"
    by (simp add: d) (simp add: startSystem_def)
  from pushes_in_order [OF reachable.stepped [OF sampleReachable s]] reachable.stepped [OF sampleReachable s] show ?thesis
    by (intro exI [of _ "?y\<lparr>sy_session := (sy_session ?y)\<lparr>se_bootstrapPushes := Some [samplePacket]\<rparr>,
      sy_reading := True, sy_unsolicited := [samplePacket]\<rparr>"]) simp
qed



text \<open>Where the search for an ID starts, and the IDs it must not return.\<close>

definition idStart :: "session \<Rightarrow> 32 word" where
  "idStart s = (if inRange (se_nextID s) then se_nextID s else requestIDMin)"

definition idTaken :: "session \<Rightarrow> 32 word \<Rightarrow> bool" where
  "idTaken s i \<longleftrightarrow> se_pending s i \<noteq> None \<or> se_headerTimers s i \<noteq> None"

text \<open>
  Request IDs are allocated exactly. From whatever value the counter has, the loop ends: with the first
  ID of the range 100000000 to 199999999, in cyclic order from the counter, that is neither pending nor kept
  by a receive-header timer, the counter standing just behind it; or with an error, and only
  when every ID of the range is taken.
\<close>

theorem request_id_exact:
  "case allocateRequestIDLocked s of
      (Inr i, s') \<Rightarrow> inRange i \<and> \<not> idTaken s i \<and> (\<forall>k. inRange k \<and> idDistance (idStart s) i < idDistance (idStart s) k \<longrightarrow> idTaken s k)
        \<and> s' = s\<lparr>se_nextID := followingID i\<rparr>
    | (Inl e, s') \<Rightarrow> e = ErrProtocol \<and> (\<forall>k. inRange k \<longrightarrow> idTaken s k) \<and> s' = s\<lparr>se_nextID := idStart s\<rparr>"
proof -
  have st: "inRange (idStart s)" "idStart s = (if se_nextID s < requestIDMin \<or> se_nextID s \<ge> requestIDMax then requestIDMin else se_nextID s)"
    by (auto simp: idStart_def inRange_def requestIDMin_def requestIDMax_def)
  obtain r n where a: "allocLoop (idTaken s) (idStart s) (idStart s) = (r, n)" by (rule prod.exhaust)
  have "allocateRequestIDLocked s = (r, s\<lparr>se_nextID := n\<rparr>)"
    using a by (simp add: allocateRequestIDLocked_def st(2) [symmetric] idTaken_def [abs_def])
  then show ?thesis
    using allocLoop_exact [OF st(1) st(1), of "idTaken s"] idDistance_bound [of "idStart s"]
    by (simp add: a idDistance_start [OF st(1)] split: sum.splits)
qed

theorem request_id_exact_witness:
  "fst (allocateRequestIDLocked ((newSession None)\<lparr>se_nextID := 199999999,
     se_pending := [199999999 \<mapsto> \<lparr>pr_method = PING, pr_result = 0\<rparr>]\<rparr>)) = Inr 100000000"
proof -
  let ?s = "(newSession None)\<lparr>se_nextID := 199999999, se_pending := [199999999 \<mapsto> \<lparr>pr_method = PING, pr_result = 0\<rparr>]\<rparr>"
  have r: "inRange 199999999" "inRange 100000000" by (simp_all add: inRange_unat)
  have t: "idTaken ?s i \<longleftrightarrow> i = 199999999" "idStart ?s = 199999999" for i using r by (simp_all add: newSession_def idTaken_def idStart_def)
  obtain x s' where a: "allocateRequestIDLocked ?s = (x, s')" by (rule prod.exhaust)
  note e = request_id_exact [of ?s, unfolded a t]
  obtain i where i: "x = Inr i" using e r by (cases x) auto
  have d: "idDistance 199999999 100000000 = 99999998" by (simp add: idDistance_def)
  from e i r d have "\<not> idDistance 199999999 i < idDistance 199999999 100000000" "inRange i" "i \<noteq> 199999999" by auto
  then have "idDistance 199999999 i = 99999998"
    using idDistance_bound [of 199999999 i] idDistance_inj [OF r(1) _ r(1), of i] idDistance_start [OF r(1)] d by fastforce
  then have "i = 100000000" using idDistance_inj [OF r(1) \<open>inRange i\<close> r(2)] d by simp
  then show ?thesis using a i by simp
qed

subsection \<open>The keep-alive timer\<close>

datatype timer_op = Schedule | Cancel | ShutdownOp | Fire "64 word"

fun timerStep :: "timer_op \<Rightarrow> pingTimerOwner \<Rightarrow> pingTimerOwner" where
  "timerStep Schedule w = snd (owner_queueSchedule w)"
| "timerStep Cancel w = owner_queueCancel w"
| "timerStep ShutdownOp w = owner_shutdown w"
| "timerStep (Fire g) w = snd (owner_fire g w)"

text \<open>An open owner counts one generation per operation at most, and only a stale callback leaves it as it is.\<close>

lemma timers_generation:
  assumes "po_ready w" "\<not> po_closed w"
  shows "po_closed (fold timerStep ops w) \<or> (\<exists>k \<le> length ops. po_generation (fold timerStep ops w) = po_generation w + of_nat k
     \<and> (k = 0 \<longleftrightarrow> (\<forall>op\<in>set ops. \<exists>g. op = Fire g \<and> g \<noteq> po_generation w)) \<and> (k = 0 \<longrightarrow> fold timerStep ops w = w))"
  using assms
proof (induction ops arbitrary: w)
  case Nil
  then show ?case by simp
next
  case (Cons op ops)
  have closed: "po_closed v \<Longrightarrow> po_closed (fold timerStep ops v)" for v ops
  proof (induction ops arbitrary: v)
    case (Cons op ops)
    have "po_closed (timerStep op v)" using Cons.prems
      by (cases op) (auto simp: owner_queueSchedule_def owner_queueCancel_def owner_shutdown_def owner_fire_def)
    then show ?case using Cons.IH by simp
  qed simp
  let ?w = "timerStep op w"
  consider (shut) "po_closed ?w"
    | (stale) g where "op = Fire g" "g \<noteq> po_generation w" "?w = w"
    | (moved) "po_ready ?w" "\<not> po_closed ?w" "po_generation ?w = po_generation w + 1" "\<not> (\<exists>g. op = Fire g \<and> g \<noteq> po_generation w)"
    using Cons.prems by (cases op) (auto simp: owner_queueSchedule_def owner_queueCancel_def owner_shutdown_def owner_fire_def)
  then show ?case
  proof cases
    case shut
    then show ?thesis using closed by simp
  next
    case stale
    from Cons.IH [OF Cons.prems] show ?thesis
    proof
      assume "\<exists>k \<le> length ops. po_generation (fold timerStep ops w) = po_generation w + of_nat k
        \<and> (k = 0 \<longleftrightarrow> (\<forall>op\<in>set ops. \<exists>g. op = Fire g \<and> g \<noteq> po_generation w)) \<and> (k = 0 \<longrightarrow> fold timerStep ops w = w)"
      then obtain k where "k \<le> length ops" "po_generation (fold timerStep ops w) = po_generation w + of_nat k"
        "k = 0 \<longleftrightarrow> (\<forall>op\<in>set ops. \<exists>g. op = Fire g \<and> g \<noteq> po_generation w)" "k = 0 \<longrightarrow> fold timerStep ops w = w" by blast
      then show ?thesis using stale by (intro disjI2 exI [of _ k]) simp
    qed (use stale in simp)
  next
    case moved
    from Cons.IH [OF moved(1,2)] show ?thesis
    proof
      assume "\<exists>k \<le> length ops. po_generation (fold timerStep ops ?w) = po_generation ?w + of_nat k
        \<and> (k = 0 \<longleftrightarrow> (\<forall>op\<in>set ops. \<exists>g. op = Fire g \<and> g \<noteq> po_generation ?w)) \<and> (k = 0 \<longrightarrow> fold timerStep ops ?w = ?w)"
      then obtain k where "k \<le> length ops" "po_generation (fold timerStep ops ?w) = po_generation ?w + of_nat k" by blast
      then show ?thesis using moved(3,4) by (intro disjI2 exI [of _ "Suc k"]) (auto simp: ac_simps)
    qed simp
  qed
qed

text \<open>
  A keep-alive runs exactly when it is still the current one. After a timer was scheduled, its callback,
  however late it runs, sends a PING if and only if no schedule, cancellation, shutdown or
  run of the same timer came in between (callbacks of older timers do not count), through
  fewer than 2^64 operations.
\<close>

theorem ping_timer_exact:
  assumes "po_ready w" "\<not> po_closed w" "length ops < 2 ^ 64"
  shows "fst (owner_fire (po_generation w + 1) (fold timerStep ops (snd (owner_queueSchedule w))))
    \<longleftrightarrow> (\<forall>op\<in>set ops. \<exists>g. op = Fire g \<and> g \<noteq> po_generation w + 1)"
proof -
  let ?v = "snd (owner_queueSchedule w)"
  have v: "po_ready ?v" "\<not> po_closed ?v" "po_generation ?v = po_generation w + 1"
    using assms by (simp_all add: owner_queueSchedule_def)
  have ne: "po_generation ?v + of_nat k = po_generation ?v \<longleftrightarrow> k = 0" if "k \<le> length ops" for k
  proof -
    have "unat (of_nat k :: 64 word) = k" using that assms(3) by (simp add: unat_of_nat)
    then have "(of_nat k :: 64 word) = 0 \<longleftrightarrow> k = 0" by auto
    then show ?thesis by simp
  qed
  have shut: "\<exists>op\<in>set ops. \<not> (\<exists>g. op = Fire g \<and> g \<noteq> po_generation ?v)" if "po_closed (fold timerStep ops ?v)"
  proof (rule ccontr)
    assume "\<not> ?thesis"
    then have "fold timerStep ops ?v = ?v"
      by (induction ops) (auto simp: owner_fire_def split: if_splits)
    then show False using that v(2) by simp
  qed
  from timers_generation [OF v(1,2), of ops] show ?thesis
  proof
    assume "po_closed (fold timerStep ops ?v)"
    then show ?thesis using shut v(3) by (simp add: owner_fire_def)
  next
    assume "\<exists>k \<le> length ops. po_generation (fold timerStep ops ?v) = po_generation ?v + of_nat k
      \<and> (k = 0 \<longleftrightarrow> (\<forall>op\<in>set ops. \<exists>g. op = Fire g \<and> g \<noteq> po_generation ?v)) \<and> (k = 0 \<longrightarrow> fold timerStep ops ?v = ?v)"
    then obtain k where k: "k \<le> length ops" "po_generation (fold timerStep ops ?v) = po_generation ?v + of_nat k"
      "k = 0 \<longleftrightarrow> (\<forall>op\<in>set ops. \<exists>g. op = Fire g \<and> g \<noteq> po_generation ?v)" "k = 0 \<longrightarrow> fold timerStep ops ?v = ?v" by blast
    have "fst (owner_fire (po_generation ?v) (fold timerStep ops ?v)) \<longleftrightarrow> k = 0"
      using ne [OF k(1)] k(2,4) v(2) shut k(3) by (auto simp: owner_fire_def)
    then show ?thesis using k(3) v(3) by simp
  qed
qed

theorem ping_timer_exact_witness:
  "fst (owner_fire 2 (fold timerStep [Fire 1, Fire 0] (snd (owner_queueSchedule \<lparr>po_ready = True, po_timer = Some 1, po_generation = 1, po_closed = False\<rparr>))))
   \<and> \<not> fst (owner_fire 2 (fold timerStep [Fire 1, Cancel] (snd (owner_queueSchedule \<lparr>po_ready = True, po_timer = Some 1, po_generation = 1, po_closed = False\<rparr>))))"
  using ping_timer_exact [of "\<lparr>po_ready = True, po_timer = Some 1, po_generation = 1, po_closed = False\<rparr>" "[Fire 1, Fire 0]"]
    ping_timer_exact [of "\<lparr>po_ready = True, po_timer = Some 1, po_generation = 1, po_closed = False\<rparr>" "[Fire 1, Cancel]"]
  by simp

end
