(* ===== verification/Bson_Field.thy ===== *)
theory Bson_Field
  imports Go_Prelude
begin

text \<open>
  \<open>src/internal/protocol/bsonfield/bsonfield.go\<close>: typed access to the fields of a BSON document.

  The MongoDB driver's \<open>bson\<close> package is a parameter: the record \<open>'r bson\<close> holds the
  functions of it that the program calls, over an abstract type \<open>'r\<close> of raw documents, and
  \<open>rawvalue\<close> is the driver's tagged \<open>RawValue\<close> (a value of an unlisted BSON type carries
  its type byte). What a property needs of the driver is a named hypothesis;
  \<open>docBson\<close> is a concrete instance that satisfies them, for the witnesses.

  An accessor's \<open>(value, present, err)\<close> is a result of an optional value. Error values that
  wrap a sentinel with text are the sentinel.
\<close>

subsection \<open>The driver\<close>

datatype 'r rawvalue =
    VInt32 int64 | VInt64 int64 | VString string | VBool bool
  | VDoc 'r | VArray 'r | VNull | VUndefined | VOther nat

text \<open>
  The values the program marshals in a \<open>bson.D\<close>. Unmarshalling a document into a
  \<open>bson.D\<close> lists its elements, and \<open>bs_MarshalRaw\<close> marshals such a list again.
\<close>

datatype 'r field =
    FInt64 int64 | FInt32 int64 | FBool bool | FString string | FDoc 'r | FInt64s "int64 list" | FDocs "'r list"
  | FStrings "string list"

record 'r bson =
  bs_Validate :: "'r \<Rightarrow> bool"
  bs_LookupErr :: "'r \<Rightarrow> string \<Rightarrow> 'r rawvalue option"
  bs_Values :: "'r \<Rightarrow> 'r rawvalue list option"
  bs_Elements :: "'r \<Rightarrow> (string \<times> 'r rawvalue) list option"
  bs_Marshal :: "(string \<times> 'r field) list \<Rightarrow> 'r option"
  bs_MarshalRaw :: "(string \<times> 'r rawvalue) list \<Rightarrow> 'r option"

subsection \<open>Accessors\<close>

record Reader =
  r_Err :: "go_error option"
  r_NullAbsent :: bool

definition sentinel :: "Reader \<Rightarrow> go_error" where
  "sentinel r = (case r_Err r of Some e \<Rightarrow> e | None \<Rightarrow> ErrType)"

definition typeError :: "Reader \<Rightarrow> go_error" where
  "typeError r = sentinel r"

fun Lookup :: "'r bson \<Rightarrow> Reader \<Rightarrow> 'r \<Rightarrow> string list \<Rightarrow> 'r rawvalue option" where
  "Lookup B r raw [] = None"
| "Lookup B r raw (key # keys) =
     (case bs_LookupErr B raw key of
        None \<Rightarrow> Lookup B r raw keys
      | Some value \<Rightarrow>
          if r_NullAbsent r \<and> (value = VNull \<or> value = VUndefined) then Lookup B r raw keys
          else Some value)"

fun Int64Value :: "'r rawvalue \<Rightarrow> int64 option" where
  "Int64Value (VInt32 n) = Some n"
| "Int64Value (VInt64 n) = Some n"
| "Int64Value _ = None"

definition Int64 :: "'r bson \<Rightarrow> Reader \<Rightarrow> 'r \<Rightarrow> string list \<Rightarrow> int64 option result" where
  "Int64 B r raw keys =
     (case Lookup B r raw keys of
        None \<Rightarrow> Inr None
      | Some value \<Rightarrow> (case Int64Value value of
          None \<Rightarrow> Inl (typeError r)
        | Some n \<Rightarrow> Inr (Some n)))"

definition Int64OrZero :: "'r bson \<Rightarrow> 'r \<Rightarrow> string list \<Rightarrow> int64" where
  "Int64OrZero B raw keys =
     (case Int64 B \<lparr>r_Err = None, r_NullAbsent = False\<rparr> raw keys of
        Inl _ \<Rightarrow> 0 | Inr None \<Rightarrow> 0 | Inr (Some n) \<Rightarrow> n)"

definition Int64Exact :: "'r bson \<Rightarrow> Reader \<Rightarrow> 'r \<Rightarrow> string list \<Rightarrow> int64 option result" where
  "Int64Exact B r raw keys =
     (case Lookup B r raw keys of
        None \<Rightarrow> Inr None
      | Some value \<Rightarrow> (case value of VInt64 n \<Rightarrow> Inr (Some n) | _ \<Rightarrow> Inl (typeError r)))"

definition Int32 :: "'r bson \<Rightarrow> Reader \<Rightarrow> 'r \<Rightarrow> string list \<Rightarrow> int64 option result" where
  "Int32 B r raw keys =
     (case Int64 B r raw keys of
        Inl e \<Rightarrow> Inl e
      | Inr None \<Rightarrow> Inr None
      | Inr (Some n) \<Rightarrow> if n < minInt32 \<or> n > maxInt32 then Inl (sentinel r) else Inr (Some n))"

definition String :: "'r bson \<Rightarrow> Reader \<Rightarrow> 'r \<Rightarrow> string list \<Rightarrow> string option result" where
  "String B r raw keys =
     (case Lookup B r raw keys of
        None \<Rightarrow> Inr None
      | Some value \<Rightarrow> (case value of VString s \<Rightarrow> Inr (Some s) | _ \<Rightarrow> Inl (typeError r)))"

definition Bool :: "'r bson \<Rightarrow> Reader \<Rightarrow> 'r \<Rightarrow> string list \<Rightarrow> bool option result" where
  "Bool B r raw keys =
     (case Lookup B r raw keys of
        None \<Rightarrow> Inr None
      | Some value \<Rightarrow> (case value of VBool b \<Rightarrow> Inr (Some b) | _ \<Rightarrow> Inl (typeError r)))"

definition array :: "'r bson \<Rightarrow> Reader \<Rightarrow> 'r \<Rightarrow> string list \<Rightarrow> 'r rawvalue list option result" where
  "array B r raw keys =
     (case Lookup B r raw keys of
        None \<Rightarrow> Inr None
      | Some value \<Rightarrow>
          (case value of
             VArray a \<Rightarrow> (case bs_Values B a of None \<Rightarrow> Inl (typeError r) | Some values \<Rightarrow> Inr (Some values))
           | _ \<Rightarrow> Inl (typeError r)))"

fun int64Elements :: "go_error \<Rightarrow> 'r rawvalue list \<Rightarrow> int64 list result" where
  "int64Elements err [] = Inr []"
| "int64Elements err (element # rest) =
     (case Int64Value element of
        None \<Rightarrow> Inl err
      | Some n \<Rightarrow> (case int64Elements err rest of Inl e \<Rightarrow> Inl e | Inr ns \<Rightarrow> Inr (n # ns)))"

definition Int64s :: "'r bson \<Rightarrow> Reader \<Rightarrow> 'r \<Rightarrow> string list \<Rightarrow> int64 list option result" where
  "Int64s B r raw keys =
     (case array B r raw keys of
        Inl e \<Rightarrow> Inl e
      | Inr None \<Rightarrow> Inr None
      | Inr (Some values) \<Rightarrow> (case int64Elements (sentinel r) values of Inl e \<Rightarrow> Inl e | Inr ns \<Rightarrow> Inr (Some ns)))"

fun stringElements :: "go_error \<Rightarrow> 'r rawvalue list \<Rightarrow> string list result" where
  "stringElements err [] = Inr []"
| "stringElements err (element # rest) =
     (case element of
        VString s \<Rightarrow> (case stringElements err rest of Inl e \<Rightarrow> Inl e | Inr ss \<Rightarrow> Inr (s # ss))
      | _ \<Rightarrow> Inl err)"

definition Strings :: "'r bson \<Rightarrow> Reader \<Rightarrow> 'r \<Rightarrow> string list \<Rightarrow> string list option result" where
  "Strings B r raw keys =
     (case array B r raw keys of
        Inl e \<Rightarrow> Inl e
      | Inr None \<Rightarrow> Inr None
      | Inr (Some values) \<Rightarrow> (case stringElements (sentinel r) values of Inl e \<Rightarrow> Inl e | Inr ss \<Rightarrow> Inr (Some ss)))"

definition Document :: "'r bson \<Rightarrow> Reader \<Rightarrow> 'r \<Rightarrow> string list \<Rightarrow> 'r option result" where
  "Document B r raw keys =
     (case Lookup B r raw keys of
        None \<Rightarrow> Inr None
      | Some value \<Rightarrow>
          (case value of
             VDoc d \<Rightarrow> if bs_Validate B d then Inr (Some d) else Inl (typeError r)
           | _ \<Rightarrow> Inl (typeError r)))"

subsection \<open>Reply status\<close>

text \<open>\<open>src/internal/protocol/loco/status.go\<close>: the status of a reply body.\<close>

definition loco_Status :: "'r bson \<Rightarrow> 'r \<Rightarrow> int64 result" where
  "loco_Status B body =
     (case Int32 B \<lparr>r_Err = Some ErrMissingStatus, r_NullAbsent = False\<rparr> body [''status''] of
        Inr (Some status) \<Rightarrow> Inr status
      | _ \<Rightarrow> Inl ErrMissingStatus)"

subsection \<open>Shapes\<close>

text \<open>\<open>fmt.Sprintf\<close> with \<open>type_0x%02x\<close>.\<close>

definition hexDigit :: "nat \<Rightarrow> char" where
  "hexDigit n = ''0123456789abcdef'' ! (n mod 16)"

fun shapeType :: "'r rawvalue \<Rightarrow> string" where
  "shapeType (VString _) = ''string''"
| "shapeType (VInt32 _) = ''int32''"
| "shapeType (VInt64 _) = ''int64''"
| "shapeType (VBool _) = ''bool''"
| "shapeType (VDoc _) = ''document''"
| "shapeType (VArray _) = ''array''"
| "shapeType VNull = ''null''"
| "shapeType VUndefined = ''type_0x06''"
| "shapeType (VOther t) =
     (if t = 1 then ''double'' else if t = 5 then ''binary''
      else ''type_0x'' @ [hexDigit (t div 16), hexDigit t])"

fun shape :: "'r bson \<Rightarrow> nat \<Rightarrow> 'r \<Rightarrow> string" where
  "shape B fuel raw =
     (case bs_Elements B raw of
        None \<Rightarrow> ''invalid''
      | Some elements \<Rightarrow>
          ''{'' @ concat (map (\<lambda>(i, (key, value)).
             (if i > 0 then '' '' else '''') @ key @ '':'' @
             (case (value, fuel) of
                (VDoc d, Suc fuel') \<Rightarrow> shape B fuel' d
              | _ \<Rightarrow> shapeType value)) (enumerate 0 elements)) @ ''}'')"

text \<open>The depth counts up to 4 in the source and the fuel down from 4.\<close>

definition Shape :: "'r bson \<Rightarrow> 'r \<Rightarrow> string" where
  "Shape B raw = shape B 4 raw"

subsection \<open>What the program relies on of the driver\<close>

text \<open>A marshalled field is read back as the value of its BSON type.\<close>

definition encodes :: "'r bson \<Rightarrow> 'r field \<Rightarrow> 'r rawvalue \<Rightarrow> bool" where
  "encodes B f v =
     (case f of
        FInt64 n \<Rightarrow> v = VInt64 n
      | FInt32 n \<Rightarrow> v = VInt32 n
      | FBool b \<Rightarrow> v = VBool b
      | FString s \<Rightarrow> v = VString s
      | FDoc d \<Rightarrow> v = VDoc d
      | FInt64s ns \<Rightarrow> (case v of VArray a \<Rightarrow> bs_Values B a = Some (map VInt64 ns) | _ \<Rightarrow> False)
      | FDocs ds \<Rightarrow> (case v of VArray a \<Rightarrow> bs_Values B a = Some (map VDoc ds) | _ \<Rightarrow> False)
      | FStrings ss \<Rightarrow> (case v of VArray a \<Rightarrow> bs_Values B a = Some (map VString ss) | _ \<Rightarrow> False))"

text \<open>
  \<open>bson.Marshal\<close> of a \<open>bson.D\<close> with distinct keys succeeds with a valid document whose
  lookups find the fields and nothing else.
\<close>

definition marshal_lawful :: "'r bson \<Rightarrow> bool" where
  "marshal_lawful B \<longleftrightarrow>
     (\<forall>kvs. distinct (map fst kvs) \<longrightarrow>
        (\<exists>raw. bs_Marshal B kvs = Some raw \<and> bs_Validate B raw
           \<and> (\<forall>k. case map_of kvs k of
                 None \<Rightarrow> bs_LookupErr B raw k = None
               | Some f \<Rightarrow> (\<exists>v. bs_LookupErr B raw k = Some v \<and> encodes B f v))))"

text \<open>Documents as lists of elements: a concrete driver.\<close>

datatype doc = Doc (doc_elements: "(string \<times> doc rawvalue) list")

definition docArray :: "doc rawvalue list \<Rightarrow> doc rawvalue" where
  "docArray vs = VArray (Doc (map (\<lambda>v. ([], v)) vs))"

fun docField :: "doc field \<Rightarrow> doc rawvalue" where
  "docField (FInt64 n) = VInt64 n"
| "docField (FInt32 n) = VInt32 n"
| "docField (FBool b) = VBool b"
| "docField (FString s) = VString s"
| "docField (FDoc d) = VDoc d"
| "docField (FInt64s ns) = docArray (map VInt64 ns)"
| "docField (FDocs ds) = docArray (map VDoc ds)"
| "docField (FStrings ss) = docArray (map VString ss)"

definition docBson :: "doc bson" where
  "docBson =
     \<lparr>bs_Validate = (\<lambda>d. True),
      bs_LookupErr = (\<lambda>d k. map_of (doc_elements d) k),
      bs_Values = (\<lambda>d. Some (map snd (doc_elements d))),
      bs_Elements = (\<lambda>d. Some (doc_elements d)),
      bs_Marshal = (\<lambda>kvs. Some (Doc (map (\<lambda>(k, f). (k, docField f)) kvs))),
      bs_MarshalRaw = (\<lambda>kvs. Some (Doc kvs))\<rparr>"

lemma docBson_simps [simp]:
  "bs_Validate docBson d"
  "bs_LookupErr docBson d k = map_of (doc_elements d) k"
  "bs_Values docBson d = Some (map snd (doc_elements d))"
  "bs_Elements docBson d = Some (doc_elements d)"
  "bs_Marshal docBson kvs = Some (Doc (map (\<lambda>(k, f). (k, docField f)) kvs))"
  "bs_MarshalRaw docBson elements = Some (Doc elements)"
  by (simp_all add: docBson_def)

lemma encodes_docField: "encodes docBson f (docField f)"
  by (cases f) (simp_all add: encodes_def docArray_def comp_def)

lemma map_of_docField:
  "map_of (map (\<lambda>(k, f). (k, docField f)) kvs) k = map_option docField (map_of kvs k)"
  by (induction kvs) auto

lemma docBson_lawful: "marshal_lawful docBson"
  by (simp add: marshal_lawful_def map_of_docField encodes_docField split: option.splits)

subsection \<open>Accessor contract\<close>

definition presentAt :: "'r bson \<Rightarrow> Reader \<Rightarrow> 'r \<Rightarrow> string \<Rightarrow> 'r rawvalue option" where
  "presentAt B r raw key =
     (case bs_LookupErr B raw key of
        Some v \<Rightarrow> if r_NullAbsent r \<and> (v = VNull \<or> v = VUndefined) then None else Some v
      | None \<Rightarrow> None)"

lemma Lookup_Cons_presentAt:
  "Lookup B r raw (key # keys) =
     (case presentAt B r raw key of Some v \<Rightarrow> Some v | None \<Rightarrow> Lookup B r raw keys)"
  by (auto simp: presentAt_def split: option.splits)

lemma Lookup_presentAt:
  "Lookup B r raw keys = Some v \<longleftrightarrow>
     (\<exists>pre key post. keys = pre @ key # post \<and> presentAt B r raw key = Some v
        \<and> (\<forall>k\<in>set pre. presentAt B r raw k = None))"
proof (induction keys)
  case (Cons k keys)
  show ?case
  proof (cases "presentAt B r raw k")
    case None
    then have "Lookup B r raw (k # keys) = Some v \<longleftrightarrow> Lookup B r raw keys = Some v"
      unfolding Lookup_Cons_presentAt by simp
    also have "\<dots> \<longleftrightarrow> (\<exists>pre key post. k # keys = pre @ key # post
        \<and> presentAt B r raw key = Some v \<and> (\<forall>k\<in>set pre. presentAt B r raw k = None))"
      unfolding Cons.IH
    proof (safe, goal_cases)
      case (1 pre key post)
      with None show ?case by (intro exI [of _ "k # pre"] exI [of _ key] exI [of _ post]) simp
    next
      case (2 pre key post)
      with None show ?case by (cases pre) auto
    qed
    finally show ?thesis .
  next
    case (Some w)
    then show ?thesis
      unfolding Lookup_Cons_presentAt by (force simp: Cons_eq_append_conv)
  qed
qed simp

lemma Lookup_None: "Lookup B r raw keys = None \<longleftrightarrow> (\<forall>k\<in>set keys. presentAt B r raw k = None)"
  by (induction keys) (auto simp: Lookup_Cons_presentAt simp del: Lookup.simps(2) split: option.splits)

lemma Int64_Some_iff:
  "Int64 B r raw [key] = Inr (Some n) \<longleftrightarrow>
     (\<exists>v. bs_LookupErr B raw key = Some v \<and> Int64Value v = Some n)"
  by (auto simp: Int64_def split: option.splits)

text \<open>
  The 32-bit reader. It returns a value exactly when the first present key (in the
  caller's order, so a current name wins over its aliases) holds an integer that fits 32 bits,
  reports the field absent exactly when no key is present, and every other document gives an
  error that carries the reader's own sentinel.
\<close>

theorem Int32_contract:
  "(Int32 B r raw keys = Inr (Some n) \<longleftrightarrow>
      (\<exists>pre key post v. keys = pre @ key # post \<and> (\<forall>k\<in>set pre. presentAt B r raw k = None)
         \<and> presentAt B r raw key = Some v \<and> Int64Value v = Some n
         \<and> - (2 ^ 31) \<le> n \<and> n < 2 ^ 31))
   \<and> (Int32 B r raw keys = Inr None \<longleftrightarrow> (\<forall>k\<in>set keys. presentAt B r raw k = None))
   \<and> (Int32 B r raw keys = Inl e \<longrightarrow> e = sentinel r)"
proof (intro conjI)
  have "Int32 B r raw keys = Inr (Some n) \<longleftrightarrow>
      (\<exists>v. Lookup B r raw keys = Some v \<and> Int64Value v = Some n \<and> - (2 ^ 31) \<le> n \<and> n < 2 ^ 31)"
    by (auto simp: Int32_def Int64_def minInt32_def maxInt32_def split: option.splits)
  then show "Int32 B r raw keys = Inr (Some n) \<longleftrightarrow>
      (\<exists>pre key post v. keys = pre @ key # post \<and> (\<forall>k\<in>set pre. presentAt B r raw k = None)
         \<and> presentAt B r raw key = Some v \<and> Int64Value v = Some n
         \<and> - (2 ^ 31) \<le> n \<and> n < 2 ^ 31)"
    unfolding Lookup_presentAt by blast
  show "Int32 B r raw keys = Inr None \<longleftrightarrow> (\<forall>k\<in>set keys. presentAt B r raw k = None)"
    unfolding Lookup_None [symmetric] by (auto simp: Int32_def Int64_def split: option.splits)
  show "Int32 B r raw keys = Inl e \<longrightarrow> e = sentinel r"
    by (auto simp: Int32_def Int64_def typeError_def split: option.splits)
qed

theorem Int32_contract_witness:
  "Int32 docBson \<lparr>r_Err = None, r_NullAbsent = True\<rparr>
     (Doc [(''t'', VNull), (''type'', VInt64 7)]) [''t'', ''type''] = Inr (Some 7)"
  unfolding conjunct1 [OF Int32_contract]
  by (intro exI [of _ "[''t'']"] exI [of _ "''type''"] exI [of _ "[]"] exI [of _ "VInt64 7"])
    (simp add: presentAt_def)

end
