(* ===== verification/Sync_Wire.thy ===== *)
theory Sync_Wire
  imports Bson_Field
begin

text \<open>
  The history-recovery wire contracts: \<open>src/internal/protocol/syncmsg/syncmsg.go\<close> (the
  single-room request and its response), \<open>src/internal/protocol/mchatlogs/mchatlogs.go\<close> (the
  bulk startup request) and \<open>src/internal/protocol/chatlog/chatlog.go\<close> (the envelope of a
  message packet). Documents are the abstract type \<open>'r\<close> of the driver; a body is the document
  its bytes hold. Properties: a response that parses has its log identities strictly in
  order, and a request that marshals is read back field by field.
\<close>

subsection \<open>syncmsg\<close>

definition MaxPageSize :: int64 where "MaxPageSize = 300"

definition syncmsg_fields :: Reader where
  "syncmsg_fields = \<lparr>r_Err = Some syncmsg_ErrInvalidResponse, r_NullAbsent = False\<rparr>"

record Request =
  rq_ChatID :: int64
  rq_Cur :: int64
  rq_Max :: int64
  rq_Count :: int64

definition marshal :: "'r bson \<Rightarrow> Request \<Rightarrow> 'r result" where
  "marshal B r =
     (if rq_ChatID r \<le> 0 \<or> rq_Cur r < 0 \<or> rq_Max r \<le> 0 \<or> rq_Count r < 0
         \<or> rq_Count r > MaxPageSize
      then Inl syncmsg_ErrInvalidRequest
      else (case bs_Marshal B
                [(''chatId'', FInt64 (rq_ChatID r)), (''cur'', FInt64 (rq_Cur r)),
                 (''max'', FInt64 (rq_Max r)), (''cnt'', FInt32 (rq_Count r))] of
              None \<Rightarrow> Inl (Other ''bson.Marshal'')
            | Some raw \<Rightarrow> Inr raw))"

definition ReadRequest_MarshalBSON :: "'r bson \<Rightarrow> Request \<Rightarrow> 'r result" where
  "ReadRequest_MarshalBSON B r =
     (if rq_Max r < rq_Cur r then Inl syncmsg_ErrInvalidRequest else marshal B r)"

definition Request_MarshalBSON :: "'r bson \<Rightarrow> Request \<Rightarrow> 'r result" where
  "Request_MarshalBSON B r =
     (if rq_Max r \<le> rq_Cur r then Inl syncmsg_ErrInvalidRequest else marshal B r)"

record 'r Response =
  rs_ChatLogs :: "'r list"
  rs_MinLogID :: int64
  rs_IsOK :: bool

record Target =
  tg_ChatID :: int64
  tg_MaxLogID :: int64

definition positiveField :: "int64 option result \<Rightarrow> int64 option" where
  "positiveField r = (case r of Inr (Some n) \<Rightarrow> if n \<le> 0 then None else Some n | _ \<Rightarrow> None)"

definition TargetFromChatData :: "'r bson \<Rightarrow> 'r \<Rightarrow> Target result" where
  "TargetFromChatData B raw =
     (if \<not> bs_Validate B raw then Inl syncmsg_ErrInvalidResponse
      else case positiveField (Int64 B syncmsg_fields raw [''c'']) of
        None \<Rightarrow> Inl syncmsg_ErrInvalidResponse
      | Some chatID \<Rightarrow>
          (case bs_LookupErr B raw ''l'' of
             Some (VDoc lastLog) \<Rightarrow>
               (case positiveField (Int64 B syncmsg_fields lastLog [''logId'']) of
                  None \<Rightarrow> Inl syncmsg_ErrInvalidResponse
                | Some logID \<Rightarrow>
                    if (case Int64 B syncmsg_fields lastLog [''chatId''] of
                          Inr (Some nestedChatID) \<Rightarrow> nestedChatID \<noteq> chatID | _ \<Rightarrow> False)
                    then Inl syncmsg_ErrInvalidResponse
                    else Inr \<lparr>tg_ChatID = chatID, tg_MaxLogID =
                      (case Int64 B syncmsg_fields raw [''ll''] of
                         Inr (Some lastLogID) \<Rightarrow> if lastLogID > logID then lastLogID else logID
                       | _ \<Rightarrow> logID)\<rparr>)
           | _ \<Rightarrow> Inl syncmsg_ErrInvalidResponse))"

text \<open>The loop over the elements of \<open>chatLogs\<close>, from the previous identity on.\<close>

fun parseChatLogs :: "'r bson \<Rightarrow> int64 \<Rightarrow> 'r rawvalue list \<Rightarrow> 'r list result" where
  "parseChatLogs B previous [] = Inr []"
| "parseChatLogs B previous (value # rest) =
     (case value of
        VDoc document \<Rightarrow>
          (case Int64 B syncmsg_fields document [''logId''] of
             Inr (Some logID) \<Rightarrow>
               if logID \<le> 0 \<or> (previous > 0 \<and> logID \<le> previous)
               then Inl syncmsg_ErrInvalidResponse
               else (case parseChatLogs B logID rest of
                       Inl e \<Rightarrow> Inl e | Inr logs \<Rightarrow> Inr (document # logs))
           | _ \<Rightarrow> Inl syncmsg_ErrInvalidResponse)
      | _ \<Rightarrow> Inl syncmsg_ErrInvalidResponse)"

definition syncmsg_ParseResponse :: "'r bson \<Rightarrow> 'r \<Rightarrow> 'r Response result" where
  "syncmsg_ParseResponse B raw =
     (if \<not> bs_Validate B raw then Inl syncmsg_ErrInvalidResponse
      else
        let result = \<lparr>rs_ChatLogs = [], rs_MinLogID = Int64OrZero B raw [''minLogId''],
              rs_IsOK = (case bs_LookupErr B raw ''isOK'' of Some (VBool b) \<Rightarrow> b | _ \<Rightarrow> False)\<rparr>
        in case bs_LookupErr B raw ''chatLogs'' of
             None \<Rightarrow> Inr result
           | Some VNull \<Rightarrow> Inr result
           | Some (VArray a) \<Rightarrow>
               (case bs_Values B a of
                  None \<Rightarrow> Inl syncmsg_ErrInvalidResponse
                | Some values \<Rightarrow>
                    (case parseChatLogs B 0 values of
                       Inl e \<Rightarrow> Inl e
                     | Inr logs \<Rightarrow> Inr (result\<lparr>rs_ChatLogs := logs\<rparr>)))
           | Some _ \<Rightarrow> Inl syncmsg_ErrInvalidResponse)"

definition LogID :: "'r bson \<Rightarrow> 'r \<Rightarrow> int64 result" where
  "LogID B raw =
     (case Int64 B syncmsg_fields raw [''logId''] of
        Inr (Some value) \<Rightarrow> if value \<le> 0 then Inl syncmsg_ErrInvalidResponse else Inr value
      | _ \<Rightarrow> Inl syncmsg_ErrInvalidResponse)"

definition PrevID :: "'r bson \<Rightarrow> 'r \<Rightarrow> int64 option" where
  "PrevID B raw =
     (case Int64 B syncmsg_fields raw [''prevId''] of
        Inr (Some value) \<Rightarrow> if value < 0 then None else Some value
      | _ \<Rightarrow> None)"

subsection \<open>mchatlogs\<close>

definition MaxChats :: nat where "MaxChats = 100"

record BulkRequest =
  bq_ChatIDs :: "int64 list"
  bq_Sinces :: "int64 list"

definition bulkRowInvalid :: "int64 list \<Rightarrow> int64 list \<Rightarrow> nat \<Rightarrow> bool" where
  "bulkRowInvalid ids sinces i \<longleftrightarrow>
     ids ! i \<le> 0 \<or> sinces ! i < 0 \<or> (i > 0 \<and> ids ! i \<le> ids ! (i - 1))"

definition BulkRequest_MarshalBSON :: "'r bson \<Rightarrow> BulkRequest \<Rightarrow> 'r result" where
  "BulkRequest_MarshalBSON B r =
     (let ids = bq_ChatIDs r; sinces = bq_Sinces r in
      if length ids = 0 \<or> length ids > MaxChats \<or> length ids \<noteq> length sinces
      then Inl mchatlogs_ErrInvalid
      else if (\<exists>i\<in>set [0..<length ids]. bulkRowInvalid ids sinces i)
      then Inl mchatlogs_ErrInvalid
      else (case bs_Marshal B [(''chatIds'', FInt64s ids), (''sinces'', FInt64s sinces)] of
              None \<Rightarrow> Inl (Other ''bson.Marshal'')
            | Some raw \<Rightarrow> Inr raw))"

record 'r BulkResponse =
  br_ChatLogs :: "'r list"
  br_EOF :: bool

text \<open>The loop over the rows; \<open>lastLog\<close> is the source's map with its zero default.\<close>

fun bulkRows :: "'r bson \<Rightarrow> (int64 \<Rightarrow> int64) \<Rightarrow> int64 \<Rightarrow> 'r rawvalue list \<Rightarrow> 'r list result" where
  "bulkRows B lastLog previousChat [] = Inr []"
| "bulkRows B lastLog previousChat (v # rest) =
     (case v of
        VDoc log \<Rightarrow>
          (let chat = Int64OrZero B log [''chatId''] in
           case LogID B log of
             Inl e \<Rightarrow> Inl mchatlogs_ErrInvalid
           | Inr logID \<Rightarrow>
               if chat \<le> 0 \<or> chat < previousChat \<or> (lastLog chat > 0 \<and> logID \<le> lastLog chat)
               then Inl mchatlogs_ErrInvalid
               else (case bulkRows B (lastLog(chat := logID)) chat rest of
                       Inl e \<Rightarrow> Inl e | Inr logs \<Rightarrow> Inr (log # logs)))
      | _ \<Rightarrow> Inl mchatlogs_ErrInvalid)"

definition mchatlogs_ParseResponse :: "'r bson \<Rightarrow> 'r \<Rightarrow> 'r BulkResponse result" where
  "mchatlogs_ParseResponse B raw =
     (if \<not> bs_Validate B raw then Inl mchatlogs_ErrInvalid
      else
        let out = \<lparr>br_ChatLogs = [],
              br_EOF = (case bs_LookupErr B raw ''eof'' of Some (VBool b) \<Rightarrow> b | _ \<Rightarrow> False)\<rparr>
        in case bs_LookupErr B raw ''chatLogs'' of
             None \<Rightarrow> Inr out
           | Some VNull \<Rightarrow> Inr out
           | Some (VArray a) \<Rightarrow>
               (case bs_Values B a of
                  None \<Rightarrow> Inl mchatlogs_ErrInvalid
                | Some values \<Rightarrow>
                    (case bulkRows B (\<lambda>_. 0) 0 values of
                       Inl e \<Rightarrow> Inl e | Inr logs \<Rightarrow> Inr (out\<lparr>br_ChatLogs := logs\<rparr>)))
           | Some _ \<Rightarrow> Inl mchatlogs_ErrInvalid)"

subsection \<open>chatlog\<close>

definition chatlog_fields :: Reader where
  "chatlog_fields = \<lparr>r_Err = Some chatlog_ErrMalformed, r_NullAbsent = False\<rparr>"

record 'r Envelope =
  ev_ChatID :: int64
  ev_LogID :: int64
  ev_AuthorID :: int64
  ev_SentAt :: int64
  ev_Type :: int64
  ev_Log :: 'r
  ev_LogIDInChatLog :: bool

definition DecodeIdentity :: "'r bson \<Rightarrow> 'r \<Rightarrow> 'r Envelope result" where
  "DecodeIdentity B raw =
     (if \<not> bs_Validate B raw then Inl chatlog_ErrMalformed
      else case positiveField (Int64 B chatlog_fields raw [''chatId'']) of
        None \<Rightarrow> Inl chatlog_ErrMalformed
      | Some chatID \<Rightarrow>
          (case bs_LookupErr B raw ''chatLog'' of
             Some (VDoc log) \<Rightarrow>
               (let (found, inner) =
                  (case Int64 B chatlog_fields log [''logId''] of
                     Inr (Some logID) \<Rightarrow> (Some logID, True)
                   | _ \<Rightarrow> (case Int64 B chatlog_fields raw [''logId''] of
                       Inr (Some logID) \<Rightarrow> (Some logID, False)
                     | _ \<Rightarrow> (None, False)))
                in case found of
                     None \<Rightarrow> Inl chatlog_ErrMalformed
                   | Some logID \<Rightarrow>
                       if logID \<le> 0 then Inl chatlog_ErrMalformed
                       else Inr \<lparr>ev_ChatID = chatID, ev_LogID = logID,
                              ev_AuthorID = Int64OrZero B log [''authorId''],
                              ev_SentAt = Int64OrZero B log [''sendAt''],
                              ev_Type = 0, ev_Log = log, ev_LogIDInChatLog = inner\<rparr>)
           | _ \<Rightarrow> Inl chatlog_ErrMalformed))"

definition chatlog_Decode :: "'r bson \<Rightarrow> 'r \<Rightarrow> 'r Envelope result" where
  "chatlog_Decode B raw =
     (case DecodeIdentity B raw of
        Inl e \<Rightarrow> Inl e
      | Inr envelope \<Rightarrow>
          (case Int64 B chatlog_fields (ev_Log envelope) [''type''] of
             Inr (Some messageType) \<Rightarrow>
               if messageType < 0 \<or> messageType > maxInt32 then Inl chatlog_ErrMalformed
               else Inr (envelope\<lparr>ev_Type := messageType\<rparr>)
           | _ \<Rightarrow> Inl chatlog_ErrMalformed))"

subsection \<open>Responses are ordered\<close>

lemma LogID_Inr: "LogID B d = Inr n \<longleftrightarrow> Int64 B syncmsg_fields d [''logId''] = Inr (Some n) \<and> 0 < n"
  by (auto simp: LogID_def split: sum.splits option.splits)

text \<open>A list of documents whose identities strictly ascend from above \<open>p\<close>.\<close>

definition ascends :: "'r bson \<Rightarrow> int64 \<Rightarrow> 'r list \<Rightarrow> bool" where
  "ascends B p ds \<longleftrightarrow> (\<exists>ids. list_all2 (\<lambda>d n. LogID B d = Inr n) ds ids \<and> sorted_wrt (<) (p # ids))"

lemma ascends_Nil [simp]: "ascends B p []"
  by (simp add: ascends_def)

lemma ascends_Cons [simp]:
  "ascends B p (d # ds) \<longleftrightarrow> (\<exists>n. LogID B d = Inr n \<and> p < n \<and> ascends B n ds)"
proof
  assume "ascends B p (d # ds)"
  then obtain n ids where "LogID B d = Inr n" "list_all2 (\<lambda>d n. LogID B d = Inr n) ds ids"
    "sorted_wrt (<) (p # n # ids)"
    by (auto simp: ascends_def list_all2_Cons1)
  then show "\<exists>n. LogID B d = Inr n \<and> p < n \<and> ascends B n ds"
    by (auto simp: ascends_def)
next
  assume "\<exists>n. LogID B d = Inr n \<and> p < n \<and> ascends B n ds"
  then obtain n ids where "LogID B d = Inr n" "p < n" "list_all2 (\<lambda>d n. LogID B d = Inr n) ds ids"
    "sorted_wrt (<) (n # ids)"
    by (auto simp: ascends_def)
  then have "list_all2 (\<lambda>d n. LogID B d = Inr n) (d # ds) (n # ids) \<and> sorted_wrt (<) (p # n # ids)"
    by auto
  then show "ascends B p (d # ds)" unfolding ascends_def by blast
qed

lemma parseChatLogs_iff:
  assumes "0 \<le> previous"
  shows "parseChatLogs B previous vals = Inr logs \<longleftrightarrow> vals = map VDoc logs \<and> ascends B previous logs"
  using assms
proof (induction B previous vals arbitrary: logs rule: parseChatLogs.induct)
  case (2 B previous v rest)
  show ?case
  proof (cases "\<exists>d n. v = VDoc d \<and> LogID B d = Inr n \<and> previous < n")
    case True
    then obtain d n where d: "v = VDoc d" "LogID B d = Inr n" "previous < n" by blast
    have "parseChatLogs B previous (v # rest) = Inr logs \<longleftrightarrow>
        (\<exists>logs'. logs = d # logs' \<and> parseChatLogs B n rest = Inr logs')"
      using d "2.prems" by (auto simp: LogID_Inr split: sum.splits)
    moreover have "parseChatLogs B n rest = Inr logs' \<longleftrightarrow> rest = map VDoc logs' \<and> ascends B n logs'"
      for logs'
      using "2.IH" d "2.prems" by (auto simp: LogID_Inr)
    ultimately show ?thesis
      using d by (auto simp: Cons_eq_map_conv)
  next
    case False
    have "\<exists>d n. v = VDoc d \<and> LogID B d = Inr n \<and> previous < n"
      if "parseChatLogs B previous (v # rest) = Inr logs"
      using that "2.prems" by (auto simp: LogID_Inr split: rawvalue.splits sum.splits option.splits if_splits)
    with False show ?thesis by (auto simp: Cons_eq_map_conv)
  qed
qed auto

text \<open>
  A single-room response whose \<open>chatLogs\<close> is an array parses exactly when every element is a document
  with a positive log identity and the identities strictly ascend; the parsed logs are then
  all the elements, in order, so catch-up never sees a repeated or reordered log.
\<close>

theorem ParseResponse_ordered:
  assumes "bs_Validate B body" and "bs_LookupErr B body ''chatLogs'' = Some (VArray a)"
    and "bs_Values B a = Some vals"
  shows "(\<exists>r. syncmsg_ParseResponse B body = Inr r \<and> rs_ChatLogs r = logs) \<longleftrightarrow>
     vals = map VDoc logs \<and>
     (\<exists>ids. list_all2 (\<lambda>d n. LogID B d = Inr n) logs ids \<and> sorted_wrt (<) (0 # ids))"
proof -
  have "(\<exists>r. syncmsg_ParseResponse B body = Inr r \<and> rs_ChatLogs r = logs) \<longleftrightarrow>
      parseChatLogs B 0 vals = Inr logs"
    using assms by (auto simp: syncmsg_ParseResponse_def Let_def split: sum.splits)
  then show ?thesis
    by (simp add: parseChatLogs_iff ascends_def)
qed

theorem ParseResponse_ordered_witness:
  "let log = \<lambda>n. Doc [(''logId'', VInt64 n)];
       body = Doc [(''isOK'', VBool True), (''chatLogs'', docArray [VDoc (log 4), VDoc (log 9)])]
   in \<exists>r. syncmsg_ParseResponse docBson body = Inr r \<and> rs_ChatLogs r = [log 4, log 9]"
proof -
  let ?log = "\<lambda>n. Doc [(''logId'', VInt64 n)]"
  have "list_all2 (\<lambda>d n. LogID docBson d = Inr n) [?log 4, ?log 9] [4, 9] \<and> sorted_wrt (<) [0, 4, 9::int]"
    by (simp add: LogID_Inr Int64_Some_iff)
  then have "\<exists>ids. list_all2 (\<lambda>d n. LogID docBson d = Inr n) [?log 4, ?log 9] ids \<and> sorted_wrt (<) (0 # ids)"
    by blast
  then show ?thesis
    unfolding Let_def docArray_def
    by (subst ParseResponse_ordered [where B = docBson and vals = "[VDoc (?log 4), VDoc (?log 9)]"
          and a = "Doc [([], VDoc (?log 4)), ([], VDoc (?log 9))]"]) simp_all
qed

text \<open>The (chat, log) order of the rows of a bulk response.\<close>

definition rowLess :: "int64 \<times> int64 \<Rightarrow> int64 \<times> int64 \<Rightarrow> bool" where
  "rowLess a b \<longleftrightarrow> fst a < fst b \<or> fst a = fst b \<and> snd a < snd b"

definition rowOf :: "'r bson \<Rightarrow> 'r \<Rightarrow> int64 \<times> int64" where
  "rowOf B d = (Int64OrZero B d [''chatId''], case LogID B d of Inr n \<Rightarrow> n | Inl _ \<Rightarrow> 0)"

lemma rowLess_trans: "rowLess a b \<Longrightarrow> rowLess b c \<Longrightarrow> rowLess a c"
  by (auto simp: rowLess_def)

text \<open>
  The map and the previous chat of the loop between rows: the map's entries are zero or
  the identity of an accepted row, of a chat not above the previous one.
\<close>

definition lastInv :: "(int64 \<Rightarrow> int64) \<Rightarrow> int64 \<Rightarrow> bool" where
  "lastInv lastLog previousChat \<longleftrightarrow>
     0 \<le> previousChat \<and> (\<forall>c. 0 \<le> lastLog c) \<and> (\<forall>c. lastLog c > 0 \<longrightarrow> c \<le> previousChat)
     \<and> (0 < previousChat \<longrightarrow> 0 < lastLog previousChat)"

lemma lastInv_update:
  assumes "lastInv lastLog previousChat" "previousChat \<le> chat" "0 < chat" "0 < n"
  shows "lastInv (lastLog(chat := n)) chat"
  using assms by (auto simp: lastInv_def)

lemma bulkRows_sound:
  assumes "lastInv lastLog previousChat" "bulkRows B lastLog previousChat vals = Inr logs"
  shows "vals = map VDoc logs \<and>
     sorted_wrt rowLess ((previousChat, lastLog previousChat) # map (rowOf B) logs)
     \<and> (\<forall>d\<in>set logs. 0 < fst (rowOf B d) \<and> 0 < snd (rowOf B d))"
  using assms
proof (induction B lastLog previousChat vals arbitrary: logs rule: bulkRows.induct)
  case (2 B lastLog previousChat v rest)
  define ok where "ok = (\<lambda>d n. let chat = Int64OrZero B d [''chatId''] in
      \<not> (chat \<le> 0 \<or> chat < previousChat \<or> (lastLog chat > 0 \<and> n \<le> lastLog chat)))"
  from "2.prems"(2) obtain d n logs' where d: "v = VDoc d" "LogID B d = Inr n" "ok d n"
    "bulkRows B (lastLog(Int64OrZero B d [''chatId''] := n)) (Int64OrZero B d [''chatId'']) rest = Inr logs'"
    "logs = d # logs'"
    by (auto simp: Let_def ok_def split: rawvalue.splits sum.splits if_splits)
  let ?chat = "Int64OrZero B d [''chatId'']"
  have n: "0 < n" using d(2) by (simp add: LogID_Inr)
  have chat: "0 < ?chat" "previousChat \<le> ?chat" "\<not> (lastLog ?chat > 0 \<and> n \<le> lastLog ?chat)"
    using d(3) by (auto simp: ok_def Let_def)
  have inv: "lastInv (lastLog(?chat := n)) ?chat"
    using lastInv_update [OF "2.prems"(1) chat(2,1) n] .
  have IH: "rest = map VDoc logs' \<and> sorted_wrt rowLess ((?chat, n) # map (rowOf B) logs')
      \<and> (\<forall>d\<in>set logs'. 0 < fst (rowOf B d) \<and> 0 < snd (rowOf B d))"
    using "2.IH" [OF d(1) refl d(2)] inv d(3,4) by (simp add: ok_def Let_def fun_upd_def)
  have row: "rowOf B d = (?chat, n)" using d(2) by (simp add: rowOf_def)
  have less: "rowLess (previousChat, lastLog previousChat) (?chat, n)"
    using chat "2.prems"(1) n by (auto simp: rowLess_def lastInv_def)
  have above: "rowLess (previousChat, lastLog previousChat) r" if "r \<in> set (map (rowOf B) logs')" for r
    using rowLess_trans [OF less] IH that by (auto simp del: set_map)
  show ?case
    using IH row less above chat(1) n d(1,5) by auto
qed auto

text \<open>
  The rows of a bulk response that parses are all the elements of its \<open>chatLogs\<close> array, in
  order, each with a positive chat and log identity, and strictly increasing in the
  (chat, log) order; so the rows of one chat are contiguous and no row repeats.
\<close>

theorem bulk_ParseResponse_ordered:
  assumes "mchatlogs_ParseResponse B body = Inr r"
  shows "sorted_wrt rowLess (map (rowOf B) (br_ChatLogs r))
     \<and> (\<forall>d\<in>set (br_ChatLogs r). 0 < fst (rowOf B d) \<and> 0 < snd (rowOf B d))
     \<and> (\<forall>a vals. bs_LookupErr B body ''chatLogs'' = Some (VArray a) \<and> bs_Values B a = Some vals
          \<longrightarrow> vals = map VDoc (br_ChatLogs r))"
proof (cases "br_ChatLogs r = [] \<and> \<not> (\<exists>a vals. bs_LookupErr B body ''chatLogs'' = Some (VArray a)
    \<and> bs_Values B a = Some vals)")
  case True
  then show ?thesis by auto
next
  case False
  with assms obtain a vals where a: "bs_LookupErr B body ''chatLogs'' = Some (VArray a)"
    "bs_Values B a = Some vals" "bulkRows B (\<lambda>_. 0) 0 vals = Inr (br_ChatLogs r)"
    by (auto simp: mchatlogs_ParseResponse_def Let_def
        split: if_splits option.splits rawvalue.splits sum.splits)
  have "lastInv (\<lambda>_. 0) 0" by (simp add: lastInv_def)
  from bulkRows_sound [OF this a(3)] a(1,2) show ?thesis by auto
qed

theorem bulk_ParseResponse_ordered_witness:
  "\<exists>r. mchatlogs_ParseResponse docBson
     (Doc [(''chatLogs'', docArray [VDoc (Doc [(''chatId'', VInt64 3), (''logId'', VInt32 8)]),
                                    VDoc (Doc [(''chatId'', VInt64 5), (''logId'', VInt64 2)])])]) = Inr r
   \<and> sorted_wrt rowLess (map (rowOf docBson) (br_ChatLogs r)) \<and> length (br_ChatLogs r) = 2"
  using bulk_ParseResponse_ordered [of docBson
     "Doc [(''chatLogs'', docArray [VDoc (Doc [(''chatId'', VInt64 3), (''logId'', VInt32 8)]),
                                    VDoc (Doc [(''chatId'', VInt64 5), (''logId'', VInt64 2)])])]"]
  by (simp add: mchatlogs_ParseResponse_def docArray_def LogID_def Int64_def Int64OrZero_def)

subsection \<open>Requests\<close>

lemma marshalled_field:
  assumes "marshal_lawful B" "distinct (map fst kvs)" "bs_Marshal B kvs = Some raw" "map_of kvs k = Some f"
  shows "\<exists>v. bs_LookupErr B raw k = Some v \<and> encodes B f v"
proof -
  from assms(1) [unfolded marshal_lawful_def, rule_format, OF assms(2)] assms(3)
  have "case map_of kvs k of None \<Rightarrow> bs_LookupErr B raw k = None
      | Some f \<Rightarrow> (\<exists>v. bs_LookupErr B raw k = Some v \<and> encodes B f v)"
    by auto
  then show ?thesis using assms(4) by simp
qed

lemma marshalled_absent:
  assumes "marshal_lawful B" "distinct (map fst kvs)" "bs_Marshal B kvs = Some raw" "map_of kvs k = None"
  shows "bs_LookupErr B raw k = None"
proof -
  from assms(1) [unfolded marshal_lawful_def, rule_format, OF assms(2)] assms(3)
  have "case map_of kvs k of None \<Rightarrow> bs_LookupErr B raw k = None
      | Some f \<Rightarrow> (\<exists>v. bs_LookupErr B raw k = Some v \<and> encodes B f v)"
    by auto
  then show ?thesis using assms(4) by simp
qed

lemma marshal_succeeds:
  assumes "marshal_lawful B" "distinct (map fst kvs)"
  obtains raw where "bs_Marshal B kvs = Some raw" "bs_Validate B raw"
  using assms(1) [unfolded marshal_lawful_def, rule_format, OF assms(2)] by blast

lemma marshalled_Int64:
  assumes "marshal_lawful B" "distinct (map fst kvs)" "bs_Marshal B kvs = Some raw"
    "map_of kvs k = Some (FInt64 n) \<or> map_of kvs k = Some (FInt32 n)"
  shows "Int64 B r raw [k] = Inr (Some n)"
  using assms(4) marshalled_field [OF assms(1-3), of k]
  by (auto simp: Int64_Some_iff encodes_def)

lemma int64Elements_VInt64 [simp]: "int64Elements e (map VInt64 ns) = Inr ns"
  by (induction ns) simp_all

lemma marshalled_Int64s:
  assumes "marshal_lawful B" "distinct (map fst kvs)" "bs_Marshal B kvs = Some raw"
    "map_of kvs k = Some (FInt64s ns)"
  shows "Int64s B \<lparr>r_Err = e, r_NullAbsent = False\<rparr> raw [k] = Inr (Some ns)"
proof -
  from marshalled_field [OF assms] obtain v
    where v: "bs_LookupErr B raw k = Some v" "encodes B (FInt64s ns) v" by blast
  from v(2) obtain a where "v = VArray a" "bs_Values B a = Some (map VInt64 ns)"
    by (cases v) (auto simp: encodes_def)
  with v(1) show ?thesis by (simp add: Int64s_def array_def)
qed

lemma bulkRows_valid:
  assumes "length sinces = length ids"
  shows "(\<forall>i<length ids. \<not> bulkRowInvalid ids sinces i) \<longleftrightarrow>
     sorted_wrt (<) (0 # ids) \<and> (\<forall>s\<in>set sinces. 0 \<le> s)"
proof -
  have "(\<forall>i<length ids. 0 < ids ! i \<and> (0 < i \<longrightarrow> ids ! (i - 1) < ids ! i)) \<longleftrightarrow> sorted_wrt (<) (0 # ids)"
  proof
    assume "\<forall>i<length ids. 0 < ids ! i \<and> (0 < i \<longrightarrow> ids ! (i - 1) < ids ! i)"
    then show "sorted_wrt (<) (0 # ids)"
      by (subst sorted_wrt_iff_nth_Suc_transp) (auto simp: transp_def nth_Cons split: nat.splits)
  next
    assume "sorted_wrt (<) (0 # ids)"
    then show "\<forall>i<length ids. 0 < ids ! i \<and> (0 < i \<longrightarrow> ids ! (i - 1) < ids ! i)"
      by (auto intro: sorted_wrt_nth_less)
  qed
  moreover have "(\<forall>i<length ids. 0 \<le> sinces ! i) \<longleftrightarrow> (\<forall>s\<in>set sinces. 0 \<le> s)"
    using assms by (auto simp: all_set_conv_all_nth)
  ultimately show ?thesis by (auto simp: bulkRowInvalid_def not_le not_less)
qed

text \<open>
  The single-room recovery request. Marshalling succeeds exactly for a positive chat, a
  non-empty range \<open>cur < max\<close> of non-negative bounds and a count within the page
  limit; the document then holds exactly those four numbers under the keys the server reads.
  The read-acknowledging request also accepts the empty range.
\<close>

theorem Request_roundtrip:
  fixes B :: "'r bson"
  assumes "marshal_lawful B"
  shows "((\<exists>raw. Request_MarshalBSON B r = Inr raw) \<longleftrightarrow>
      0 < rq_ChatID r \<and> 0 \<le> rq_Cur r \<and> rq_Cur r < rq_Max r \<and> 0 \<le> rq_Count r \<and> rq_Count r \<le> 300)
    \<and> ((\<exists>raw. ReadRequest_MarshalBSON B r = Inr raw) \<longleftrightarrow>
      0 < rq_ChatID r \<and> 0 \<le> rq_Cur r \<and> rq_Cur r \<le> rq_Max r \<and> 0 < rq_Max r
      \<and> 0 \<le> rq_Count r \<and> rq_Count r \<le> 300)
    \<and> (ReadRequest_MarshalBSON B r = Inr raw \<or> Request_MarshalBSON B r = Inr raw \<longrightarrow>
      Int64 B f raw [''chatId''] = Inr (Some (rq_ChatID r)) \<and> Int64 B f raw [''cur''] = Inr (Some (rq_Cur r))
      \<and> Int64 B f raw [''max''] = Inr (Some (rq_Max r)) \<and> Int64 B f raw [''cnt''] = Inr (Some (rq_Count r)))"
proof -
  let ?kvs = "[(''chatId'', FInt64 (rq_ChatID r)), (''cur'', FInt64 (rq_Cur r)),
               (''max'', FInt64 (rq_Max r)), (''cnt'', FInt32 (rq_Count r))] :: (string \<times> 'r field) list"
  have keys: "distinct (map fst ?kvs)" by simp
  obtain raw' where raw': "bs_Marshal B ?kvs = Some raw'" by (rule marshal_succeeds [OF assms keys])
  have read: "Int64 B f raw' [k] = Inr (Some n)"
    if "map_of ?kvs k = Some (FInt64 n) \<or> map_of ?kvs k = Some (FInt32 n)" for k n
    by (rule marshalled_Int64 [OF assms keys raw' that])
  have fields: "Int64 B f raw' [''chatId''] = Inr (Some (rq_ChatID r))"
    "Int64 B f raw' [''cur''] = Inr (Some (rq_Cur r))"
    "Int64 B f raw' [''max''] = Inr (Some (rq_Max r))"
    "Int64 B f raw' [''cnt''] = Inr (Some (rq_Count r))"
    by (rule read; simp)+
  define ok where "ok \<longleftrightarrow> 0 < rq_ChatID r \<and> 0 \<le> rq_Cur r \<and> 0 < rq_Max r \<and> 0 \<le> rq_Count r \<and> rq_Count r \<le> 300"
  have m: "marshal B r = (if ok then Inr raw' else Inl syncmsg_ErrInvalidRequest)"
    by (auto simp: marshal_def MaxPageSize_def ok_def raw')
  have accepts: "(\<exists>raw. Request_MarshalBSON B r = Inr raw) \<longleftrightarrow> rq_Cur r < rq_Max r \<and> ok"
    "(\<exists>raw. ReadRequest_MarshalBSON B r = Inr raw) \<longleftrightarrow> rq_Cur r \<le> rq_Max r \<and> ok"
    by (auto simp: Request_MarshalBSON_def ReadRequest_MarshalBSON_def m)
  have "raw = raw'" if "ReadRequest_MarshalBSON B r = Inr raw \<or> Request_MarshalBSON B r = Inr raw"
    using that by (auto simp: Request_MarshalBSON_def ReadRequest_MarshalBSON_def m split: if_splits)
  then show ?thesis
    unfolding accepts using fields by (auto simp: ok_def)
qed

theorem Request_roundtrip_witness:
  "\<exists>raw. Request_MarshalBSON docBson \<lparr>rq_ChatID = 7, rq_Cur = 10, rq_Max = 25, rq_Count = 0\<rparr> = Inr raw
     \<and> Int64 docBson syncmsg_fields raw [''max''] = Inr (Some 25)"
proof -
  let ?r = "\<lparr>rq_ChatID = 7, rq_Cur = 10, rq_Max = 25, rq_Count = 0\<rparr>"
  note rt = Request_roundtrip [OF docBson_lawful, of ?r]
  obtain raw where "Request_MarshalBSON docBson ?r = Inr raw" using rt [of undefined] by auto
  then show ?thesis using rt [of raw syncmsg_fields] by auto
qed

text \<open>
  The bulk request marshals exactly when it names between 1 and 100 chats, positive and
  strictly ascending, with one non-negative start each; both lists are read back unchanged.
\<close>

theorem BulkRequest_roundtrip:
  fixes B :: "'r bson"
  assumes "marshal_lawful B"
  shows "((\<exists>raw. BulkRequest_MarshalBSON B r = Inr raw) \<longleftrightarrow>
      bq_ChatIDs r \<noteq> [] \<and> length (bq_ChatIDs r) \<le> 100 \<and> length (bq_Sinces r) = length (bq_ChatIDs r)
      \<and> sorted_wrt (<) (0 # bq_ChatIDs r) \<and> (\<forall>s\<in>set (bq_Sinces r). 0 \<le> s))
    \<and> (BulkRequest_MarshalBSON B r = Inr raw \<longrightarrow>
      Int64s B \<lparr>r_Err = e, r_NullAbsent = False\<rparr> raw [''chatIds''] = Inr (Some (bq_ChatIDs r))
      \<and> Int64s B \<lparr>r_Err = e, r_NullAbsent = False\<rparr> raw [''sinces''] = Inr (Some (bq_Sinces r)))"
proof -
  let ?ids = "bq_ChatIDs r" and ?sinces = "bq_Sinces r"
  let ?kvs = "[(''chatIds'', FInt64s ?ids), (''sinces'', FInt64s ?sinces)] :: (string \<times> 'r field) list"
  have keys: "distinct (map fst ?kvs)" by simp
  obtain raw' where raw': "bs_Marshal B ?kvs = Some raw'" by (rule marshal_succeeds [OF assms keys])
  have rows: "(\<forall>i<length ?ids. \<not> bulkRowInvalid ?ids ?sinces i) \<longleftrightarrow>
      sorted_wrt (<) (0 # ?ids) \<and> (\<forall>s\<in>set ?sinces. 0 \<le> s)" if "length ?sinces = length ?ids"
    using that by (rule bulkRows_valid)
  have "Int64s B \<lparr>r_Err = e, r_NullAbsent = False\<rparr> raw' [k] = Inr (Some ns)"
    if "map_of ?kvs k = Some (FInt64s ns)" for k ns
    by (rule marshalled_Int64s [OF assms keys raw' that])
  then show ?thesis
    using rows by (auto simp: BulkRequest_MarshalBSON_def MaxChats_def raw' Let_def split: if_splits)
qed

theorem BulkRequest_roundtrip_witness:
  "\<exists>raw. BulkRequest_MarshalBSON docBson \<lparr>bq_ChatIDs = [3, 8], bq_Sinces = [0, 5]\<rparr> = Inr raw
     \<and> Int64s docBson \<lparr>r_Err = None, r_NullAbsent = False\<rparr> raw [''sinces''] = Inr (Some [0, 5])"
proof -
  let ?r = "\<lparr>bq_ChatIDs = [3, 8], bq_Sinces = [0, 5]\<rparr>"
  note rt = BulkRequest_roundtrip [OF docBson_lawful, of ?r]
  obtain raw where "BulkRequest_MarshalBSON docBson ?r = Inr raw" using rt [of undefined] by auto
  then show ?thesis using rt [of raw None] by auto
qed

end
