(* ===== verification/Events.thy ===== *)
theory Events
  imports Sync_Wire Loco
begin

unbundle bit_operations_syntax

text \<open>
  \<open>src/internal/protocol/events/\<close>: unsolicited packets as typed events
  (\<open>events.go\<close>, \<open>message.go\<close>, \<open>edit_delete.go\<close>, \<open>membership_feed.go\<close>), the
  delivery decoder that turns undecodable content into an explicit gap
  (\<open>message_gap.go\<close>) and bare chat logs (\<open>chat_log.go\<close>).

  The body of a packet is the document its bytes hold. Decoding JSON text into the Go structs
  of the source is a parameter: the record \<open>'r content\<close> has one function per struct, whose
  result lists the struct's fields, and \<open>ct_decoders\<close> is the table \<open>messageDecoders\<close> restricted
  to the message types whose content is JSON or media (reply, post, vote, location, profile,
  call, leverage, stickers, contact, file, audio, video and photos). A decoder of that table
  reports the kind of the event it builds, and the event keeps the envelope it was built from,
  which is where each of these decoders takes its position.
  \<open>gaps.observe\<close> only logs and is omitted.
\<close>

subsection \<open>Events\<close>

record MoimMeta =
  mm_Type :: int64
  mm_UpdateRevision :: int64
  mm_BadgeRevision :: int64
  mm_Content :: string

record ReactionItem =
  ri_ID :: string
  ri_Kind :: int64
  ri_Count :: int64
  ri_Alt :: "(string \<times> string) list"

record LegacyReactionExtra =
  le_HasOwnPick :: bool
  le_OwnPick :: int64
  le_HasActor :: bool
  le_ActorID :: int64
  le_ActorPick :: int64

record MemberIdentity =
  mi_UserID :: int64
  mi_UserType :: int64

record MiniTextPart =
  mp_Text :: string
  mp_ResourceID :: string

text \<open>
  The fields of a constructor are those of the source's struct, in order: of a message event
  they start with \<open>ChatID\<close>, \<open>LogID\<close>.
\<close>

datatype 'r event =
    TextMessage int64 int64 int64 int64 string int64
  | MiniTextMessage int64 int64 int64 int64 string int64 "MiniTextPart list"
  | ContentMessage string "'r Envelope"
  | UnsupportedMessage int64 int64 int64 int64 int64
  | MessageGap int64 int64 int64 int64 int64 string
  | MessageEdited int64 int64 int64 int64 int64 int64 "'r event option"
  | MessageDeleted int64 int64 int64 int64 int64 bool
  | DeletedMessage int64 int64 int64 int64 int64
  | MemberRemoved int64 int64 int64 int64
  | MemberAdded int64 int64 "MemberIdentity list"
  | ReactionChanged int64 int64 int64 int64 int64 "ReactionItem list" LegacyReactionExtra
  | ReadStateChanged int64 int64 int64
  | UnsupportedLogMeta int64 int64 int64
  | UnknownPacket string
  | ChangeServer
  | Kickout int64 string string string
  | ChatLeft int64 int64
  | ChatStatusChanged int64 int64 int64 'r
  | ChatMetaChanged int64 int64 int64 int64 string int64
  | ChatMoimMetaChanged int64 "MoimMeta list"
  | ChatMCMetaChanged int64 int64 string string string string

record 'r packet =
  ep_Method :: string
  ep_Body :: 'r

fun MessagePosition :: "'r event \<Rightarrow> (int64 \<times> int64) option" where
  "MessagePosition (TextMessage c l _ _ _ _) = Some (c, l)"
| "MessagePosition (MiniTextMessage c l _ _ _ _ _) = Some (c, l)"
| "MessagePosition (ContentMessage _ env) = Some (ev_ChatID env, ev_LogID env)"
| "MessagePosition (UnsupportedMessage c l _ _ _) = Some (c, l)"
| "MessagePosition (MessageGap c l _ _ _ _) = Some (c, l)"
| "MessagePosition (MessageEdited c l _ _ _ _ _) = Some (c, l)"
| "MessagePosition (MessageDeleted c l _ _ _ _) = Some (c, l)"
| "MessagePosition (DeletedMessage c l _ _ _) = Some (c, l)"
| "MessagePosition (MemberRemoved c l _ _) = Some (c, l)"
| "MessagePosition (MemberAdded c l _) = Some (c, l)"
| "MessagePosition _ = None"

subsection \<open>Content decoding\<close>

text \<open>
  \<open>feedJSON\<close>: a \<open>json.Number\<close> is its \<open>Int64()\<close>, \<open>None\<close> when that fails.
\<close>

record feedJSON =
  fj_FeedType :: "int64 option"
  fj_LogID :: "int64 option"
  fj_TargetRevision :: "int64 option"
  fj_ByHost :: bool

text \<open>The membership feed: a member's \<open>UserID\<close> is a pointer.\<close>

record membershipFeed =
  mf_FeedType :: int64
  mf_Member :: "(int64 option \<times> int64) option"
  mf_Members :: "(int64 option \<times> int64) list"

text \<open>
  A meta object of the resync endpoint: \<open>None\<close> is an empty \<open>json.Number\<close>,
  \<open>Some None\<close> one whose \<open>Int64()\<close> fails.
\<close>

record syncedMeta =
  sm_ChatID :: "int64 option option"
  sm_LogID :: "int64 option option"
  sm_Type :: "int64 option option"
  sm_Revision :: "int64 option option"
  sm_LinkID :: "int64 option option"
  sm_Content :: "string option"
  sm_Extra :: "string option"

record 'r content =
  ct_feed :: "string \<Rightarrow> feedJSON option"
  ct_membership :: "string \<Rightarrow> membershipFeed option"
  ct_boundedJSON :: "string \<Rightarrow> bool"
  ct_mini :: "string \<Rightarrow> string \<Rightarrow> MiniTextPart list option result"
  ct_counts :: "string \<Rightarrow> (string \<times> int64 option) list option"
  ct_rx :: "string \<Rightarrow> ReactionItem list option"
  ct_numbers :: "string \<Rightarrow> (string \<Rightarrow> int64 option) option"
  ct_synced :: "string \<Rightarrow> syncedMeta option"
  ct_decoders :: "int64 \<Rightarrow> ('r Envelope \<Rightarrow> string option result) option"

definition event_fields :: Reader where
  "event_fields = \<lparr>r_Err = Some ErrMalformedEvent, r_NullAbsent = False\<rparr>"

definition validEventString :: "string \<Rightarrow> bool" where
  "validEventString v \<longleftrightarrow> utf8_Valid (map of_char v) \<and> CHR 0x00 \<notin> set v"

definition validBoundedEventJSON :: "'r content \<Rightarrow> string \<Rightarrow> bool" where
  "validBoundedEventJSON C v \<longleftrightarrow> validEventString v \<and> ct_boundedJSON C v"

definition requiredString :: "'r bson \<Rightarrow> 'r \<Rightarrow> string \<Rightarrow> string option" where
  "requiredString B raw key =
     (case String B event_fields raw [key] of
        Inr (Some v) \<Rightarrow> if validEventString v then Some v else None
      | _ \<Rightarrow> None)"

definition optionalString :: "'r bson \<Rightarrow> 'r \<Rightarrow> string \<Rightarrow> string" where
  "optionalString B raw key = (case bs_LookupErr B raw key of Some (VString s) \<Rightarrow> s | _ \<Rightarrow> '''')"

definition duplicateKey :: "'r bson \<Rightarrow> 'r \<Rightarrow> string \<Rightarrow> bool" where
  "duplicateKey B raw key =
     (case bs_Elements B raw of
        None \<Rightarrow> True
      | Some elements \<Rightarrow> length (filter (\<lambda>e. fst e = key) elements) > 1)"

text \<open>The loop of \<open>hasAnyDuplicateExcept\<close>.\<close>

fun dupLoop :: "string list \<Rightarrow> string list \<Rightarrow> string list \<Rightarrow> bool" where
  "dupLoop exempt seen [] = False"
| "dupLoop exempt seen (key # keys) =
     (if key \<in> set exempt then dupLoop exempt seen keys
      else if key \<in> set seen then True
      else dupLoop exempt (key # seen) keys)"

definition hasAnyDuplicateExcept :: "'r bson \<Rightarrow> 'r \<Rightarrow> string list \<Rightarrow> bool" where
  "hasAnyDuplicateExcept B raw exempt =
     (case bs_Elements B raw of
        None \<Rightarrow> True
      | Some elements \<Rightarrow> dupLoop exempt [] (map fst elements))"

definition uniqueOptionalInt64 :: "'r bson \<Rightarrow> 'r \<Rightarrow> string \<Rightarrow> int64" where
  "uniqueOptionalInt64 B raw key = (if duplicateKey B raw key then 0 else Int64OrZero B raw [key])"

subsection \<open>Feeds\<close>

fun memberLoop :: "int64 list \<Rightarrow> (int64 option \<times> int64) list \<Rightarrow> MemberIdentity list result" where
  "memberLoop seen [] = Inr []"
| "memberLoop seen (member # members) =
     (case fst member of
        None \<Rightarrow> Inl ErrMalformedEvent
      | Some userID \<Rightarrow>
          if userID \<le> 0 \<or> userID \<in> set seen then Inl ErrMalformedEvent
          else (case memberLoop (userID # seen) members of
                  Inl e \<Rightarrow> Inl e
                | Inr out \<Rightarrow> Inr (\<lparr>mi_UserID = userID, mi_UserType = snd member\<rparr> # out)))"

definition membershipMessageMembers ::
    "'r bson \<Rightarrow> 'r content \<Rightarrow> 'r \<Rightarrow> bool \<Rightarrow> MemberIdentity list result" where
  "membershipMessageMembers B C log added =
     (if hasAnyDuplicateExcept B log [] then Inl ErrMalformedEvent
      else case bs_LookupErr B log ''type'' of
        Some (VInt32 t) \<Rightarrow>
          if t \<noteq> 0 then Inl ErrMalformedEvent
          else (case bs_LookupErr B log ''message'' of
            Some (VString message) \<Rightarrow>
              if \<not> validBoundedEventJSON C message then Inl ErrMalformedEvent
              else (case ct_membership C message of
                None \<Rightarrow> Inl ErrMalformedEvent
              | Some feed \<Rightarrow>
                  if \<not> added then
                    (case mf_Member feed of
                       None \<Rightarrow> Inl ErrMalformedEvent
                     | Some member \<Rightarrow>
                         if mf_FeedType feed \<noteq> 2 then Inl ErrMalformedEvent
                         else memberLoop [] [member])
                  else if mf_FeedType feed \<noteq> 1 \<or> mf_Members feed = [] then Inl ErrMalformedEvent
                  else memberLoop [] (mf_Members feed))
          | _ \<Rightarrow> Inl ErrMalformedEvent)
      | _ \<Rightarrow> Inl ErrMalformedEvent)"

definition decodeFeed :: "'r bson \<Rightarrow> 'r content \<Rightarrow> int64 \<Rightarrow> int64 \<Rightarrow> 'r \<Rightarrow> 'r event result" where
  "decodeFeed B C chatID logID chatLog =
     (case membershipMessageMembers B C chatLog True of
        Inr members \<Rightarrow> Inr (MemberAdded chatID logID members)
      | Inl _ \<Rightarrow>
     (case membershipMessageMembers B C chatLog False of
        Inr members \<Rightarrow> Inr (MemberRemoved chatID logID (mi_UserID (hd members)) (mi_UserType (hd members)))
      | Inl _ \<Rightarrow>
     (case requiredString B chatLog ''message'' of
        None \<Rightarrow> Inl ErrMalformedEvent
      | Some message \<Rightarrow>
     (case ct_feed C message of
        None \<Rightarrow> Inl ErrMalformedEvent
      | Some feed \<Rightarrow>
     (case (fj_FeedType feed, fj_LogID feed) of
        (Some feedType, Some target) \<Rightarrow>
          if target \<le> 0 \<or> target \<ge> logID then Inl ErrMalformedEvent
          else
            (let author = Int64OrZero B chatLog [''authorId'']; sentAt = Int64OrZero B chatLog [''sendAt''] in
             if feedType = 14 then
               Inr (MessageDeleted chatID logID author sentAt target (fj_ByHost feed))
             else if feedType = 25 then
               (case fj_TargetRevision feed of
                  None \<Rightarrow> Inl ErrMalformedEvent
                | Some revision \<Rightarrow>
                    if revision \<le> 0 then Inl ErrMalformedEvent
                    else Inr (MessageEdited chatID logID author sentAt target revision None))
             else Inl ErrMalformedEvent)
      | _ \<Rightarrow> Inl ErrMalformedEvent)))))"

subsection \<open>Messages\<close>

definition Feed :: int64 where "Feed = 0"
definition Text :: int64 where "Text = 1"
definition DeletedAllChatTypeFlag :: int64 where "DeletedAllChatTypeFlag = 0x4000"

definition deletedFlagged :: "int64 \<Rightarrow> bool" where
  "deletedFlagged messageType \<longleftrightarrow>
     (let base = messageType AND NOT DeletedAllChatTypeFlag in
      messageType AND DeletedAllChatTypeFlag \<noteq> 0 \<and> base > 0 \<and> base < DeletedAllChatTypeFlag)"

text \<open>
  \<open>strings.TrimSpace(s) == ""\<close>: only white space, in the UTF-8 encodings of
  \<open>unicode.IsSpace\<close>.
\<close>

definition space1 :: "char \<Rightarrow> bool" where
  "space1 a \<longleftrightarrow> a \<in> {CHR '' '', CHR 0x09, CHR 0x0A, CHR 0x0B, CHR 0x0C, CHR 0x0D}"

definition space2 :: "char \<Rightarrow> char \<Rightarrow> bool" where
  "space2 a b \<longleftrightarrow> a = CHR 0xC2 \<and> (b = CHR 0x85 \<or> b = CHR 0xA0)"

definition space3 :: "char \<Rightarrow> char \<Rightarrow> char \<Rightarrow> bool" where
  "space3 a b c \<longleftrightarrow>
     (a = CHR 0xE1 \<and> b = CHR 0x9A \<and> c = CHR 0x80)
     \<or> (a = CHR 0xE2 \<and> b = CHR 0x80 \<and>
          (of_char c \<in> {0x80..0x8A::nat} \<or> c = CHR 0xA8 \<or> c = CHR 0xA9 \<or> c = CHR 0xAF))
     \<or> (a = CHR 0xE2 \<and> b = CHR 0x81 \<and> c = CHR 0x9F)
     \<or> (a = CHR 0xE3 \<and> b = CHR 0x80 \<and> c = CHR 0x80)"

fun blank :: "string \<Rightarrow> bool" where
  "blank [] = True"
| "blank [a] = space1 a"
| "blank [a, b] = (if space1 a then blank [b] else space2 a b)"
| "blank (a # b # c # rest) =
     (if space1 a then blank (b # c # rest)
      else if space2 a b then blank (c # rest)
      else if space3 a b c then blank rest
      else False)"

definition decodeText :: "'r bson \<Rightarrow> 'r content \<Rightarrow> 'r Envelope \<Rightarrow> 'r event result" where
  "decodeText B C env =
     (let log = ev_Log env in
      case String B event_fields log [''message'', ''msg''] of
        Inr (Some message) \<Rightarrow>
          if \<not> utf8_Valid (map of_char message) then Inl ErrMalformedEvent
          else
            (let revision = Int64OrZero B log [''revision''];
                 plain = TextMessage (ev_ChatID env) (ev_LogID env) (ev_AuthorID env) (ev_SentAt env)
                   message revision
             in case bs_LookupErr B log ''attachment'' of
                  None \<Rightarrow> Inr plain
                | Some (VString attachment) \<Rightarrow>
                    if blank attachment \<or> attachment = ''null'' then Inr plain
                    else if length attachment > 65536 then Inl ErrMalformedEvent
                    else (case ct_mini C message attachment of
                            Inl e \<Rightarrow> Inl e
                          | Inr None \<Rightarrow> Inr plain
                          | Inr (Some parts) \<Rightarrow> Inr (MiniTextMessage (ev_ChatID env) (ev_LogID env)
                              (ev_AuthorID env) (ev_SentAt env) message revision parts))
                | Some _ \<Rightarrow> Inl ErrMalformedEvent)
      | _ \<Rightarrow> Inl ErrMalformedEvent)"

definition decodeMessage :: "'r bson \<Rightarrow> 'r content \<Rightarrow> 'r \<Rightarrow> 'r event result" where
  "decodeMessage B C body =
     (case chatlog_Decode B body of
        Inl _ \<Rightarrow> Inl ErrMalformedEvent
      | Inr env \<Rightarrow>
          let unsupported = UnsupportedMessage (ev_ChatID env) (ev_LogID env) (ev_Type env)
                (ev_AuthorID env) (ev_SentAt env)
          in if ev_Type env = Feed then decodeFeed B C (ev_ChatID env) (ev_LogID env) (ev_Log env)
             else if deletedFlagged (ev_Type env) then
               Inr (DeletedMessage (ev_ChatID env) (ev_LogID env) (ev_AuthorID env) (ev_SentAt env)
                 (ev_Type env AND NOT DeletedAllChatTypeFlag))
             else if ev_Type env = Text then decodeText B C env
             else (case ct_decoders C (ev_Type env) of
                     None \<Rightarrow> Inr unsupported
                   | Some decode \<Rightarrow>
                       (case decode env of
                          Inl e \<Rightarrow> Inl e
                        | Inr None \<Rightarrow> Inr unsupported
                        | Inr (Some kind) \<Rightarrow> Inr (ContentMessage kind env))))"

definition chatLogPacket :: "'r bson \<Rightarrow> int64 \<Rightarrow> 'r \<Rightarrow> 'r packet result" where
  "chatLogPacket B chatID chatLog =
     (case bs_Marshal B [(''chatId'', FInt64 chatID), (''chatLog'', FDoc chatLog)] of
        None \<Rightarrow> Inl ErrMalformedEvent
      | Some body \<Rightarrow> Inr \<lparr>ep_Method = ''MSG'', ep_Body = body\<rparr>)"

definition decodeEditPush :: "'r bson \<Rightarrow> 'r content \<Rightarrow> 'r \<Rightarrow> 'r event result" where
  "decodeEditPush B C body =
     (case decodeMessage B C body of
        Inl e \<Rightarrow> Inl e
      | Inr (MessageEdited chatID logID author sentAt target revision _) \<Rightarrow>
          (case bs_LookupErr B body ''modifiedChatLog'' of
             Some (VDoc document) \<Rightarrow>
               (case chatLogPacket B chatID document of
                  Inl _ \<Rightarrow> Inl ErrMalformedEvent
                | Inr modifiedPacket \<Rightarrow>
                    (case decodeMessage B C (ep_Body modifiedPacket) of
                       Inl _ \<Rightarrow> Inl ErrMalformedEvent
                     | Inr modified \<Rightarrow>
                         if MessagePosition modified \<noteq> Some (chatID, target)
                            \<or> Int64OrZero B document [''revision''] \<noteq> revision
                         then Inl ErrMalformedEvent
                         else Inr (MessageEdited chatID logID author sentAt target revision (Some modified))))
           | _ \<Rightarrow> Inl ErrMalformedEvent)
      | Inr _ \<Rightarrow> Inl ErrMalformedEvent)"

definition decodeDeletePush :: "'r bson \<Rightarrow> 'r content \<Rightarrow> 'r \<Rightarrow> 'r event result" where
  "decodeDeletePush B C body =
     (case decodeMessage B C body of
        Inl e \<Rightarrow> Inl e
      | Inr (MessageDeleted a b c d e f) \<Rightarrow> Inr (MessageDeleted a b c d e f)
      | Inr _ \<Rightarrow> Inl ErrMalformedEvent)"

subsection \<open>Notices\<close>

definition decodeChangeServer :: "'r bson \<Rightarrow> 'r \<Rightarrow> 'r event result" where
  "decodeChangeServer B raw = (if bs_Validate B raw then Inr ChangeServer else Inl ErrMalformedEvent)"

definition decodeKickout :: "'r bson \<Rightarrow> 'r \<Rightarrow> 'r event result" where
  "decodeKickout B raw =
     (if \<not> bs_Validate B raw then Inl ErrMalformedEvent
      else
        let kickout = (\<lambda>reason. Kickout reason (optionalString B raw ''errMsg'')
              (optionalString B raw ''errUrl'') (optionalString B raw ''errUrlLabel''))
        in case bs_LookupErr B raw ''reason'' of
             None \<Rightarrow> Inr (kickout 0)
           | Some (VInt32 reason) \<Rightarrow> Inr (kickout reason)
           | Some _ \<Rightarrow> Inl ErrMalformedEvent)"

text \<open>The part \<open>decodeMemberRemoved\<close> and \<open>decodeMemberAdded\<close> share.\<close>

definition membershipLog :: "'r bson \<Rightarrow> 'r \<Rightarrow> (int64 \<times> int64 \<times> 'r) option" where
  "membershipLog B raw =
     (if \<not> bs_Validate B raw \<or> hasAnyDuplicateExcept B raw [] then None
      else case bs_LookupErr B raw ''chatLog'' of
        Some (VDoc chatLog) \<Rightarrow>
          (case positiveField (Int64Exact B event_fields chatLog [''chatId'']) of
             None \<Rightarrow> None
           | Some chatID \<Rightarrow>
               (case positiveField (Int64Exact B event_fields chatLog [''logId'']) of
                  None \<Rightarrow> None
                | Some logID \<Rightarrow> Some (chatID, logID, chatLog)))
      | _ \<Rightarrow> None)"

definition decodeMemberRemoved :: "'r bson \<Rightarrow> 'r content \<Rightarrow> 'r \<Rightarrow> 'r event result" where
  "decodeMemberRemoved B C raw =
     (case membershipLog B raw of
        None \<Rightarrow> Inl ErrMalformedEvent
      | Some (chatID, logID, chatLog) \<Rightarrow>
          (case membershipMessageMembers B C chatLog False of
             Inl e \<Rightarrow> Inl e
           | Inr members \<Rightarrow> Inr (MemberRemoved chatID logID (mi_UserID (hd members)) (mi_UserType (hd members)))))"

definition decodeMemberAdded :: "'r bson \<Rightarrow> 'r content \<Rightarrow> 'r \<Rightarrow> 'r event result" where
  "decodeMemberAdded B C raw =
     (case membershipLog B raw of
        None \<Rightarrow> Inl ErrMalformedEvent
      | Some (chatID, logID, chatLog) \<Rightarrow>
          (case membershipMessageMembers B C chatLog True of
             Inl e \<Rightarrow> Inl e
           | Inr members \<Rightarrow> Inr (MemberAdded chatID logID members)))"

definition decodeChatStatusChanged :: "'r bson \<Rightarrow> 'r \<Rightarrow> 'r event result" where
  "decodeChatStatusChanged B raw =
     (if \<not> bs_Validate B raw then Inl ErrMalformedEvent
      else case (Int64Exact B event_fields raw [''chatId''], Int64Exact B event_fields raw [''plusUserId''],
                 Int64Exact B event_fields raw [''revision''], bs_LookupErr B raw ''chatStatus'') of
        (Inr (Some chatID), Inr (Some plusUserID), Inr (Some revision), Some (VDoc status)) \<Rightarrow>
          Inr (ChatStatusChanged chatID plusUserID revision status)
      | _ \<Rightarrow> Inl ErrMalformedEvent)"

text \<open>An optional field, zero when absent.\<close>

definition orZero :: "int64 option \<Rightarrow> int64" where
  "orZero v = (case v of None \<Rightarrow> 0 | Some n \<Rightarrow> n)"

definition orEmpty :: "string option \<Rightarrow> string" where
  "orEmpty v = (case v of None \<Rightarrow> '''' | Some s \<Rightarrow> s)"

definition decodeChatMetaChanged :: "'r bson \<Rightarrow> 'r \<Rightarrow> 'r event result" where
  "decodeChatMetaChanged B raw =
     (if \<not> bs_Validate B raw then Inl ErrMalformedEvent
      else case (Int64Exact B event_fields raw [''chatId''], bs_LookupErr B raw ''meta'') of
        (Inr (Some chatID), Some (VDoc meta)) \<Rightarrow>
          (case (bs_LookupErr B meta ''type'', Int64Exact B event_fields meta [''revision''],
                 Int64Exact B event_fields meta [''authorId''],
                 Int64Exact B event_fields meta [''updatedAt''], String B event_fields meta [''content'']) of
             (Some (VInt32 typ), Inr revision, Inr authorID, Inr updatedAt, Inr content) \<Rightarrow>
               Inr (ChatMetaChanged chatID typ (orZero revision) (orZero authorID) (orEmpty content)
                 (orZero updatedAt))
           | _ \<Rightarrow> Inl ErrMalformedEvent)
      | _ \<Rightarrow> Inl ErrMalformedEvent)"

definition decodeChatMCMetaChanged :: "'r bson \<Rightarrow> 'r \<Rightarrow> 'r event result" where
  "decodeChatMCMetaChanged B raw =
     (if \<not> bs_Validate B raw then Inl ErrMalformedEvent
      else case (Int64Exact B event_fields raw [''chatId''], bs_LookupErr B raw ''revision'',
                 requiredString B raw ''type'', requiredString B raw ''content'',
                 String B event_fields raw [''imageUrl''], String B event_fields raw [''fullImageUrl'']) of
        (Inr (Some chatID), Some (VInt32 revision), Some typ, Some content, Inr imageURL, Inr fullImageURL) \<Rightarrow>
          Inr (ChatMCMetaChanged chatID revision typ content (orEmpty imageURL) (orEmpty fullImageURL))
      | _ \<Rightarrow> Inl ErrMalformedEvent)"

definition decodeChatLeft :: "'r bson \<Rightarrow> 'r \<Rightarrow> 'r event result" where
  "decodeChatLeft B raw =
     (if \<not> bs_Validate B raw then Inl ErrMalformedEvent
      else case (Int64Exact B event_fields raw [''chatId''], Int64Exact B event_fields raw [''lastTokenId'']) of
        (Inr (Some chatID), Inr (Some lastTokenID)) \<Rightarrow> Inr (ChatLeft chatID lastTokenID)
      | _ \<Rightarrow> Inl ErrMalformedEvent)"

definition decodeReadState :: "'r bson \<Rightarrow> 'r \<Rightarrow> 'r event result" where
  "decodeReadState B raw =
     (if \<not> bs_Validate B raw then Inl ErrMalformedEvent
      else case (positiveField (Int64 B event_fields raw [''chatId'']),
                 positiveField (Int64 B event_fields raw [''userId'']),
                 positiveField (Int64 B event_fields raw [''watermark''])) of
        (Some chatID, Some userID, Some watermark) \<Rightarrow> Inr (ReadStateChanged chatID userID watermark)
      | _ \<Rightarrow> Inl ErrMalformedEvent)"

subsection \<open>Reaction metadata\<close>

definition noExtra :: LegacyReactionExtra where
  "noExtra = \<lparr>le_HasOwnPick = False, le_OwnPick = 0, le_HasActor = False, le_ActorID = 0, le_ActorPick = 0\<rparr>"

definition selection :: "int64 option \<Rightarrow> int64 option" where
  "selection v = (case v of Some n \<Rightarrow> if 0 \<le> n \<and> n \<le> 6 then Some n else None | None \<Rightarrow> None)"

definition decodeLegacyReactionExtra :: "'r content \<Rightarrow> string \<Rightarrow> LegacyReactionExtra" where
  "decodeLegacyReactionExtra C text =
     (case ct_numbers C text of
        None \<Rightarrow> noExtra
      | Some number \<Rightarrow>
          let extra = (case selection (number ''my'') of
                None \<Rightarrow> noExtra
              | Some pick \<Rightarrow> noExtra\<lparr>le_HasOwnPick := True, le_OwnPick := pick\<rparr>)
          in case (number ''userId'', selection (number ''type'')) of
               (Some actor, Some pick) \<Rightarrow>
                 if actor > 0 then extra\<lparr>le_HasActor := True, le_ActorID := actor, le_ActorPick := pick\<rparr>
                 else extra
             | _ \<Rightarrow> extra)"

definition legacyKey :: "string \<Rightarrow> bool" where
  "legacyKey key \<longleftrightarrow> (case key of [c] \<Rightarrow> of_char CHR ''1'' \<le> (of_char c :: nat) \<and> of_char c \<le> (of_char CHR ''6'' :: nat) | _ \<Rightarrow> False)"

text \<open>
  The counts come from a Go map, so the source sorts the keys; the keys are single bytes, so
  \<open>sort.Strings\<close> orders them by that byte.
\<close>

definition keyByte :: "string \<times> int64 option \<Rightarrow> nat" where
  "keyByte kv = of_char (hd (fst kv))"

definition logMetaEvent ::
    "'r content \<Rightarrow> int64 \<Rightarrow> int64 \<Rightarrow> int64 \<Rightarrow> int64 \<Rightarrow> int64 \<Rightarrow> string \<Rightarrow> string \<Rightarrow> 'r event result" where
  "logMetaEvent C chatID logID revision linkID metaType content extra =
     (if metaType = 1 then
        (case ct_counts C content of
           None \<Rightarrow> Inl ErrMalformedEvent
         | Some counts \<Rightarrow>
             if list_ex (\<lambda>(key, count). \<not> legacyKey key
                  \<or> (case count of None \<Rightarrow> True | Some n \<Rightarrow> n < 0)) counts
             then Inl ErrMalformedEvent
             else Inr (ReactionChanged 1 chatID linkID logID revision
               (map (\<lambda>(key, count). \<lparr>ri_ID = key, ri_Kind = 1, ri_Count = orZero count, ri_Alt = []\<rparr>)
                 (sort_key keyByte counts))
               (decodeLegacyReactionExtra C extra)))
      else
        (case ct_rx C content of
           None \<Rightarrow> Inl ErrMalformedEvent
         | Some items \<Rightarrow>
             if list_ex (\<lambda>i. ri_ID i = '''' \<or> ri_Count i < 0 \<or> ri_Kind i < 0) items
             then Inl ErrMalformedEvent
             else Inr (ReactionChanged 2 chatID linkID logID revision items noExtra)))"

definition decodeLogMeta :: "'r bson \<Rightarrow> 'r content \<Rightarrow> 'r \<Rightarrow> 'r event result" where
  "decodeLogMeta B C raw =
     (if \<not> bs_Validate B raw then Inl ErrMalformedEvent
      else case (positiveField (Int64 B event_fields raw [''chatId'']),
                 positiveField (Int64 B event_fields raw [''logId'']),
                 positiveField (Int64 B event_fields raw [''type''])) of
        (Some chatID, Some logID, Some metaType) \<Rightarrow>
          if metaType > maxInt32 then Inl ErrMalformedEvent
          else if metaType \<noteq> 1 \<and> metaType \<noteq> 2 then Inr (UnsupportedLogMeta chatID logID metaType)
          else (case positiveField (Int64 B event_fields raw [''revision'']) of
            None \<Rightarrow> Inl ErrMalformedEvent
          | Some revision \<Rightarrow>
              let linkID = Int64OrZero B raw [''linkId''] in
              if linkID < 0 then Inl ErrMalformedEvent
              else (case requiredString B raw ''content'' of
                None \<Rightarrow> Inl ErrMalformedEvent
              | Some content \<Rightarrow> logMetaEvent C chatID logID revision linkID metaType content
                  (case String B event_fields raw [''extra''] of Inr (Some extra) \<Rightarrow> extra | _ \<Rightarrow> '''')))
      | _ \<Rightarrow> Inl ErrMalformedEvent)"

definition DecodeSyncedLogMeta :: "'r content \<Rightarrow> string \<Rightarrow> 'r event result" where
  "DecodeSyncedLogMeta C item =
     (case ct_synced C item of
        None \<Rightarrow> Inl ErrMalformedEvent
      | Some wire \<Rightarrow>
     (case (sm_Content wire, sm_ChatID wire, sm_LogID wire, sm_Type wire,
            case sm_LinkID wire of None \<Rightarrow> Some 0 | Some n \<Rightarrow> n) of
        (Some content, Some (Some chatID), Some (Some logID), Some (Some metaType), Some linkID) \<Rightarrow>
          if chatID \<le> 0 \<or> logID \<le> 0 \<or> metaType \<le> 0 \<or> metaType > maxInt32 \<or> linkID < 0
          then Inl ErrMalformedEvent
          else if metaType \<noteq> 1 \<and> metaType \<noteq> 2 then Inr (UnsupportedLogMeta chatID logID metaType)
          else (case sm_Revision wire of
            Some (Some revision) \<Rightarrow>
              if revision \<le> 0 then Inl ErrMalformedEvent
              else logMetaEvent C chatID logID revision linkID metaType content (orEmpty (sm_Extra wire))
          | _ \<Rightarrow> Inl ErrMalformedEvent)
      | _ \<Rightarrow> Inl ErrMalformedEvent))"

text \<open>\<open>chatmeta.DecodeMoimResponse\<close>, whose reader treats null as absent.\<close>

definition moim_fields :: Reader where
  "moim_fields = \<lparr>r_Err = None, r_NullAbsent = True\<rparr>"

definition decodeMoimMeta :: "'r bson \<Rightarrow> 'r \<Rightarrow> MoimMeta option" where
  "decodeMoimMeta B d =
     (case (Int32 B moim_fields d [''t'', ''type''], Int64 B moim_fields d [''ur'', ''updateRevision''],
            Int64 B moim_fields d [''br'', ''badgeRevision''], String B moim_fields d [''ct'', ''content'']) of
        (Inr (Some typ), Inr (Some update), Inr badge, Inr content) \<Rightarrow>
          if update < 0 \<or> orZero badge < 0 \<or> length (orEmpty content) > 1048576 then None
          else Some \<lparr>mm_Type = typ, mm_UpdateRevision = update, mm_BadgeRevision = orZero badge,
                     mm_Content = orEmpty content\<rparr>
      | _ \<Rightarrow> None)"

fun moimMetas :: "'r bson \<Rightarrow> 'r rawvalue list \<Rightarrow> MoimMeta list option" where
  "moimMetas B [] = Some []"
| "moimMetas B (v # rest) =
     (case v of
        VDoc d \<Rightarrow>
          (case decodeMoimMeta B d of
             None \<Rightarrow> None
           | Some m \<Rightarrow> (case moimMetas B rest of None \<Rightarrow> None | Some ms \<Rightarrow> Some (m # ms)))
      | _ \<Rightarrow> None)"

definition DecodeMoimResponse :: "'r bson \<Rightarrow> 'r \<Rightarrow> (int64 \<times> MoimMeta list) option" where
  "DecodeMoimResponse B raw =
     (if \<not> bs_Validate B raw then None
      else case positiveField (Int64 B moim_fields raw [''c'', ''chatId'']) of
        None \<Rightarrow> None
      | Some chatID \<Rightarrow>
          (case Lookup B moim_fields raw [''ms'', ''metas''] of
             Some (VArray a) \<Rightarrow>
               (case bs_Values B a of
                  None \<Rightarrow> None
                | Some vals \<Rightarrow>
                    if length vals > 128 then None
                    else map_option (\<lambda>ms. (chatID, ms)) (moimMetas B vals))
           | _ \<Rightarrow> None))"

subsection \<open>Dispatch\<close>

definition Decode :: "'r bson \<Rightarrow> 'r content \<Rightarrow> 'r packet \<Rightarrow> 'r event result" where
  "Decode B C packet =
     (let m = ep_Method packet; body = ep_Body packet in
      if m = ''MSG'' then decodeMessage B C body
      else if m = ''CHGLOGMETA'' then decodeLogMeta B C body
      else if m = ''DECUNREAD'' then decodeReadState B body
      else if m = ''CHANGESVR'' then decodeChangeServer B body
      else if m = ''KICKOUT'' then decodeKickout B body
      else if m = ''DELMEM'' then decodeMemberRemoved B C body
      else if m = ''NEWMEM'' then decodeMemberAdded B C body
      else if m = ''CHGCHATST'' then decodeChatStatusChanged B body
      else if m = ''CHGMOMETAS'' then
        (case DecodeMoimResponse B body of
           None \<Rightarrow> Inl ErrMalformedEvent
         | Some (chatID, metas) \<Rightarrow> Inr (ChatMoimMetaChanged chatID metas))
      else if m = ''CHGMETA'' then decodeChatMetaChanged B body
      else if m = ''CHGMCMETA'' then decodeChatMCMetaChanged B body
      else if m = ''LEFT'' then decodeChatLeft B body
      else if m = ''SYNCMODMSG'' then decodeEditPush B C body
      else if m = ''SYNCDLMSG'' then decodeDeletePush B C body
      else Inr (UnknownPacket m))"

subsection \<open>Delivery\<close>

definition messageDeliveryEnvelope :: "'r bson \<Rightarrow> 'r \<Rightarrow> (int64 \<times> int64 \<times> int64 \<times> 'r) result" where
  "messageDeliveryEnvelope B raw =
     (case DecodeIdentity B raw of
        Inl e \<Rightarrow> Inl e
      | Inr envelope \<Rightarrow>
          Inr (ev_ChatID envelope, ev_LogID envelope,
            (if duplicateKey B (ev_Log envelope) ''type'' then 0
             else (case Int64 B event_fields (ev_Log envelope) [''type''] of
                     Inr (Some t) \<Rightarrow> if t > 0 \<and> t \<le> maxInt32 then t else 0
                   | _ \<Rightarrow> 0)),
            ev_Log envelope))"

definition gapReason :: "go_error \<Rightarrow> string" where
  "gapReason e = (case e of ErrMalformedMedia reason \<Rightarrow> reason | _ \<Rightarrow> ''undiagnosed'')"

text \<open>
  A \<open>logId\<close> that is present at this place must be the envelope's. (\<open>fields.Int64\<close> of a
  present field either fails or returns its value.)
\<close>

definition disagreesAt :: "'r bson \<Rightarrow> 'r \<Rightarrow> int64 \<Rightarrow> bool" where
  "disagreesAt B raw logID =
     (case bs_LookupErr B raw ''logId'' of
        None \<Rightarrow> False
      | Some _ \<Rightarrow> (case Int64 B event_fields raw [''logId''] of
          Inl _ \<Rightarrow> True | Inr v \<Rightarrow> orZero v \<noteq> logID))"

definition DecodeForDelivery :: "'r bson \<Rightarrow> 'r content \<Rightarrow> 'r packet \<Rightarrow> 'r event result" where
  "DecodeForDelivery B C packet =
     (let m = ep_Method packet; raw = ep_Body packet in
      if m \<noteq> ''MSG'' \<and> m \<noteq> ''SYNCMODMSG'' \<and> m \<noteq> ''SYNCDLMSG'' then
        (case Decode B C packet of
           Inr event \<Rightarrow> Inr event
         | Inl e \<Rightarrow>
             if m = ''DELMEM'' \<or> m = ''NEWMEM'' \<or> m = ''LEFT'' then Inl ErrUnidentifiableMembership
             else Inl e)
      else
        (case messageDeliveryEnvelope B raw of
           Inl _ \<Rightarrow> Inl ErrUnidentifiableMessage
         | Inr (chatID, logID, typ, log) \<Rightarrow>
             if duplicateKey B raw ''chatId'' \<or> duplicateKey B raw ''chatLog''
                \<or> duplicateKey B raw ''logId'' \<or> duplicateKey B log ''logId''
             then Inl ErrUnidentifiableMessage
             else if disagreesAt B log logID then Inl ErrUnidentifiableMessage
             else if disagreesAt B raw logID then Inl ErrUnidentifiableMessage
             else
               let gap = MessageGap chatID logID (uniqueOptionalInt64 B log ''authorId'')
                     (uniqueOptionalInt64 B log ''sendAt'') typ
               in if hasAnyDuplicateExcept B raw [''chatId'', ''chatLog'']
                     \<or> hasAnyDuplicateExcept B log [''logId'']
                  then Inr (gap ''duplicate_key'')
                  else (case Decode B C packet of
                          Inr result \<Rightarrow> Inr result
                        | Inl e \<Rightarrow> Inr (gap (gapReason e)))))"

definition DecodeChatLog :: "'r bson \<Rightarrow> 'r content \<Rightarrow> int64 \<Rightarrow> 'r \<Rightarrow> 'r event result" where
  "DecodeChatLog B C chatID chatLog =
     (if (case bs_LookupErr B chatLog ''chatId'' of
            None \<Rightarrow> False
          | Some v \<Rightarrow> v \<noteq> VNull \<and> Int64Value v \<noteq> Some chatID)
      then Inl ErrChatLogMisdirected
      else case chatLogPacket B chatID chatLog of
        Inl e \<Rightarrow> Inl e
      | Inr packet \<Rightarrow> DecodeForDelivery B C packet)"

subsection \<open>Positions\<close>

lemma positiveField_Some: "positiveField r = Some n \<longleftrightarrow> r = Inr (Some n) \<and> 0 < n"
  by (auto simp: positiveField_def split: sum.splits option.splits if_splits)

lemma DecodeIdentity_Inr:
  assumes "DecodeIdentity B raw = Inr env"
  shows "bs_LookupErr B raw ''chatLog'' = Some (VDoc (ev_Log env))"
    and "Int64 B chatlog_fields raw [''chatId''] = Inr (Some (ev_ChatID env))"
    and "0 < ev_ChatID env" "0 < ev_LogID env"
    and "(Int64 B chatlog_fields (ev_Log env) [''logId''] = Inr (Some (ev_LogID env))) \<or>
         Int64 B chatlog_fields raw [''logId''] = Inr (Some (ev_LogID env))"
  using assms
  by (auto simp: DecodeIdentity_def positiveField_Some Let_def
      split: if_splits option.splits rawvalue.splits sum.splits prod.splits)

lemma chatlog_Decode_Inr:
  assumes "chatlog_Decode B raw = Inr env"
  obtains env' where "DecodeIdentity B raw = Inr env'" "ev_ChatID env = ev_ChatID env'"
    "ev_LogID env = ev_LogID env'" "ev_Log env = ev_Log env'"
  using assms by (auto simp: chatlog_Decode_def split: sum.splits option.splits if_splits)

lemma decodeFeed_position:
  "decodeFeed B C chatID logID log = Inr ev \<Longrightarrow> MessagePosition ev = Some (chatID, logID)"
  by (auto simp: decodeFeed_def Let_def split: sum.splits option.splits if_splits)

lemma decodeText_position:
  "decodeText B C env = Inr ev \<Longrightarrow> MessagePosition ev = Some (ev_ChatID env, ev_LogID env)"
  by (auto simp: decodeText_def Let_def split: sum.splits option.splits if_splits rawvalue.splits)

definition atEnvelope :: "'r bson \<Rightarrow> 'r \<Rightarrow> 'r event \<Rightarrow> bool" where
  "atEnvelope B body ev \<longleftrightarrow> (\<exists>env. DecodeIdentity B body = Inr env
     \<and> MessagePosition ev = Some (ev_ChatID env, ev_LogID env))"

lemma decodeMessage_position:
  assumes "decodeMessage B C body = Inr ev"
  shows "atEnvelope B body ev"
proof -
  from assms obtain env where env: "chatlog_Decode B body = Inr env"
    by (auto simp: decodeMessage_def split: sum.splits)
  have "MessagePosition ev = Some (ev_ChatID env, ev_LogID env)"
    using assms env
    by (auto simp: decodeMessage_def Let_def decodeFeed_position decodeText_position
        split: if_splits option.splits sum.splits)
  with env show ?thesis by (metis atEnvelope_def chatlog_Decode_Inr)
qed

lemma decodeEditPush_position:
  assumes "decodeEditPush B C body = Inr ev"
  shows "atEnvelope B body ev"
proof -
  from assms obtain chatID logID a s t r x where
    d: "decodeMessage B C body = Inr (MessageEdited chatID logID a s t r x)"
    and ev: "MessagePosition ev = Some (chatID, logID)"
    by (auto simp: decodeEditPush_def split: sum.splits event.splits option.splits rawvalue.splits if_splits)
  from decodeMessage_position [OF d] ev show ?thesis by (simp add: atEnvelope_def)
qed

lemma decodeDeletePush_position:
  assumes "decodeDeletePush B C body = Inr ev"
  shows "atEnvelope B body ev"
proof -
  from assms have "decodeMessage B C body = Inr ev"
    by (auto simp: decodeDeletePush_def split: sum.splits event.splits)
  then show ?thesis by (rule decodeMessage_position)
qed

definition carriesChatLog :: "'r packet \<Rightarrow> bool" where
  "carriesChatLog packet \<longleftrightarrow> ep_Method packet \<in> {''MSG'', ''SYNCMODMSG'', ''SYNCDLMSG''}"

lemma Decode_position:
  assumes "carriesChatLog packet" "Decode B C packet = Inr ev"
  shows "atEnvelope B (ep_Body packet) ev"
  using assms decodeMessage_position decodeEditPush_position decodeDeletePush_position
  by (auto simp: carriesChatLog_def Decode_def Let_def)

lemma messageDeliveryEnvelope_Inr:
  "messageDeliveryEnvelope B raw = Inr (c, l, t, log) \<Longrightarrow>
     \<exists>env. DecodeIdentity B raw = Inr env \<and> c = ev_ChatID env \<and> l = ev_LogID env \<and> log = ev_Log env"
  by (auto simp: messageDeliveryEnvelope_def split: sum.splits)

lemma DecodeForDelivery_chatLog:
  assumes "carriesChatLog packet"
  shows "DecodeForDelivery B C packet = Inl ErrUnidentifiableMessage \<or>
    (\<exists>ev env. DecodeForDelivery B C packet = Inr ev \<and> DecodeIdentity B (ep_Body packet) = Inr env
       \<and> MessagePosition ev = Some (ev_ChatID env, ev_LogID env)
       \<and> \<not> disagreesAt B (ev_Log env) (ev_LogID env) \<and> \<not> disagreesAt B (ep_Body packet) (ev_LogID env))"
proof (cases "messageDeliveryEnvelope B (ep_Body packet)")
  case (Inl e)
  then show ?thesis using assms by (auto simp: DecodeForDelivery_def carriesChatLog_def)
next
  case (Inr t)
  obtain c l ty log where t: "t = (c, l, ty, log)" by (cases t)
  with Inr have "messageDeliveryEnvelope B (ep_Body packet) = Inr (c, l, ty, log)" by simp
  from messageDeliveryEnvelope_Inr [OF this] obtain env where env: "DecodeIdentity B (ep_Body packet) = Inr env"
    "c = ev_ChatID env" "l = ev_LogID env" "log = ev_Log env" by blast
  have dec: "MessagePosition ev = Some (c, l)" if "Decode B C packet = Inr ev" for ev
    using Decode_position [OF assms that] env by (auto simp: atEnvelope_def)
  show ?thesis
    using assms Inr t env dec
    by (auto simp: DecodeForDelivery_def carriesChatLog_def Let_def split: sum.splits)
qed

text \<open>A content decoder that reads no JSON: feeds and attachments are undecodable.\<close>

definition plainContent :: "'r content" where
  "plainContent =
     \<lparr>ct_feed = (\<lambda>_. None), ct_membership = (\<lambda>_. None), ct_boundedJSON = (\<lambda>_. False),
      ct_mini = (\<lambda>_ _. Inr None), ct_counts = (\<lambda>_. None), ct_rx = (\<lambda>_. None), ct_numbers = (\<lambda>_. None),
      ct_synced = (\<lambda>_. None), ct_decoders = (\<lambda>t. if t = 2 then Some (\<lambda>_. Inl (ErrMalformedMedia ''url'')) else None)\<rparr>"

definition sampleLog :: "int64 \<Rightarrow> doc" where
  "sampleLog n = Doc [(''logId'', VInt64 n), (''type'', VInt32 1), (''message'', VString ''hi'')]"

definition samplePhoto :: "doc packet" where
  "samplePhoto = \<lparr>ep_Method = ''MSG'', ep_Body = Doc [(''chatId'', VInt64 5),
     (''chatLog'', VDoc (Doc [(''logId'', VInt64 9), (''type'', VInt32 2), (''authorId'', VInt64 3)]))]\<rparr>"

lemma samplePhoto_delivery:
  "DecodeForDelivery docBson plainContent samplePhoto = Inr (MessageGap 5 9 3 0 2 ''url'')"
  by (simp add: DecodeForDelivery_def samplePhoto_def plainContent_def messageDeliveryEnvelope_def
      DecodeIdentity_def positiveField_def Int64_def Int64OrZero_def duplicateKey_def maxInt32_def
      disagreesAt_def orZero_def hasAnyDuplicateExcept_def Decode_def decodeMessage_def
      chatlog_Decode_def Feed_def Text_def deletedFlagged_def DeletedAllChatTypeFlag_def gapReason_def
      uniqueOptionalInt64_def Let_def)

lemma sampleLog_decodes:
  "DecodeChatLog docBson plainContent 5 (sampleLog 9) = Inr (TextMessage 5 9 0 0 ''hi'' 0)"
  by (simp add: DecodeChatLog_def chatLogPacket_def DecodeForDelivery_def sampleLog_def plainContent_def
      messageDeliveryEnvelope_def DecodeIdentity_def positiveField_def Int64_def Int64OrZero_def
      duplicateKey_def maxInt32_def disagreesAt_def orZero_def hasAnyDuplicateExcept_def Decode_def
      decodeMessage_def chatlog_Decode_def Feed_def Text_def deletedFlagged_def
      DeletedAllChatTypeFlag_def decodeText_def String_def Let_def)



lemma DecodeChatLog_at:
  fixes B :: "'r bson"
  assumes "marshal_lawful B" and "DecodeChatLog B C chatID log = Inr ev"
  shows "0 < chatID \<and> (\<exists>n. LogID B log = Inr n \<and> MessagePosition ev = Some (chatID, n))
    \<and> (\<forall>n. Int64 B chatlog_fields log [''chatId''] = Inr (Some n) \<longrightarrow> n = chatID)"
proof -
  let ?kvs = "[(''chatId'', FInt64 chatID), (''chatLog'', FDoc log)] :: (string \<times> 'r field) list"
  have keys: "distinct (map fst ?kvs)" by simp
  obtain body where body: "bs_Marshal B ?kvs = Some body" by (rule marshal_succeeds [OF assms(1) keys])
  let ?packet = "\<lparr>ep_Method = ''MSG'', ep_Body = body\<rparr>"
  have dec: "DecodeForDelivery B C ?packet = Inr ev"
    using assms(2) body by (auto simp: DecodeChatLog_def chatLogPacket_def split: if_splits)
  have carries: "carriesChatLog ?packet" by (simp add: carriesChatLog_def)
  obtain env where env: "DecodeIdentity B body = Inr env"
    and pos: "MessagePosition ev = Some (ev_ChatID env, ev_LogID env)"
    using DecodeForDelivery_chatLog [OF carries, of B C] dec by auto
  have chat: "bs_LookupErr B body ''chatId'' = Some (VInt64 chatID)"
    using marshalled_field [OF assms(1) keys body, of "''chatId''"] by (auto simp: encodes_def)
  have logDoc: "bs_LookupErr B body ''chatLog'' = Some (VDoc log)"
    using marshalled_field [OF assms(1) keys body, of "''chatLog''"] by (auto simp: encodes_def)
  have noOuter: "bs_LookupErr B body ''logId'' = None"
    using marshalled_absent [OF assms(1) keys body, of "''logId''"] by simp
  note id = DecodeIdentity_Inr [OF env]
  have "ev_ChatID env = chatID" "ev_Log env = log"
    using id(1,2) chat logDoc by (auto simp: Int64_Some_iff)
  moreover have "LogID B log = Inr (ev_LogID env)"
    using id(4,5) noOuter calculation(2) by (auto simp: LogID_Inr Int64_Some_iff)
  moreover have "n = chatID" if "Int64 B chatlog_fields log [''chatId''] = Inr (Some n)" for n
    using that assms(2) by (auto simp: DecodeChatLog_def Int64_Some_iff split: if_splits)
  ultimately show ?thesis using id(3) pos by auto
qed

text \<open>
  A chat log read back for a chat (a history or catch-up row) decodes to an event of exactly that
  chat, at the row's own log identity; a row that names another chat is refused. So a reply cannot
  redirect content into another conversation.
\<close>

theorem DecodeChatLog_position:
  fixes B :: "'r bson"
  assumes "marshal_lawful B" and "DecodeChatLog B C chatID log = Inr ev"
  shows "0 < chatID \<and> (\<exists>n. LogID B log = Inr n \<and> MessagePosition ev = Some (chatID, n))
    \<and> (\<forall>n. Int64 B chatlog_fields log [''chatId''] = Inr (Some n) \<longrightarrow> n = chatID)"
  by (rule DecodeChatLog_at [OF assms])

theorem DecodeChatLog_position_witness:
  "\<exists>ev. DecodeChatLog docBson plainContent 5 (sampleLog 9) = Inr ev \<and> MessagePosition ev = Some (5, 9)"
  using DecodeChatLog_position [OF docBson_lawful sampleLog_decodes] by (auto simp: sampleLog_decodes)

end
