(* ===== verification/History_Coverage.thy ===== *)
theory History_Coverage
  imports Events
begin

text \<open>
  Pages of acquired history and the interval arithmetic over them:
  \<open>decodeHistoryPage\<close> (\<open>src/internal/client/history.go\<close>), \<open>validateAcquiredPage\<close> and
  \<open>coveredThroughLocked\<close> (\<open>history_store.go\<close>), and the coverage loops of
  \<open>window\<close> (\<open>history_window.go\<close>).

  The store's \<open>pages\<close> is a Go map, whose iteration order is unspecified; here the
  references are a list in an arbitrary order, and the results are shown to depend on the set
  of references only. The specification is pointwise: an identity is \<open>acquired\<close> when some page
  of the chat reaches it, and connected coverage ends at the greatest identity all of whose
  predecessors above the start are acquired.
\<close>

subsection \<open>Pages\<close>

record 'r HistoryPage =
  hp_Events :: "'r event list"
  hp_Next :: int64
  hp_Complete :: bool

definition protocolErr :: "string \<Rightarrow> string \<Rightarrow> go_error" where
  "protocolErr command field = ErrProtocolAt command field"

text \<open>The loop over the logs of a page, with the events and the position so far.\<close>

fun pageLoop ::
    "'r bson \<Rightarrow> 'r content \<Rightarrow> Request \<Rightarrow> nat \<Rightarrow> 'r event list \<Rightarrow> int64 \<Rightarrow> 'r list
     \<Rightarrow> ('r event list \<times> int64) result" where
  "pageLoop B C request limit evs nxt [] = Inr (evs, nxt)"
| "pageLoop B C request limit evs nxt (raw # rest) =
     (case LogID B raw of
        Inl _ \<Rightarrow> Inl (protocolErr ''SYNCMSG'' ''chatLogs.logId'')
      | Inr logID \<Rightarrow>
          if logID < rq_Cur request then Inl (protocolErr ''SYNCMSG'' ''chatLogs.logId'')
          else if logID = rq_Cur request \<or> logID > rq_Max request
          then pageLoop B C request limit evs nxt rest
          else (case DecodeChatLog B C (rq_ChatID request) raw of
                  Inl e \<Rightarrow> Inl e
                | Inr event \<Rightarrow>
                    if MessagePosition event \<noteq> Some (rq_ChatID request, logID)
                    then Inl (protocolErr ''SYNCMSG'' ''chatLogs.chatId'')
                    else if length evs < limit
                    then pageLoop B C request limit (evs @ [event]) logID rest
                    else pageLoop B C request limit evs nxt rest))"

definition decodeHistoryPage ::
    "'r bson \<Rightarrow> 'r content \<Rightarrow> Request \<Rightarrow> 'r Response \<Rightarrow> nat \<Rightarrow> 'r HistoryPage result" where
  "decodeHistoryPage B C request response limit =
     (case pageLoop B C request limit [] (rq_Cur request) (rs_ChatLogs response) of
        Inl e \<Rightarrow> Inl e
      | Inr (evs, nxt) \<Rightarrow>
          if evs = [] then
            (if rs_ChatLogs response = [] \<and> rs_MinLogID response > rq_Max request
             then Inl (Joined [ErrGapUnresolved, ErrHistoryBelowFloor])
             else Inl (Joined [ErrGapUnresolved, errHistoryIntervalUnavailable]))
          else Inr \<lparr>hp_Events = evs, hp_Next = nxt, hp_Complete = (nxt = rq_Max request)\<rparr>)"

text \<open>The order check of \<open>validateAcquiredPage\<close>.\<close>

fun acquiredOrder :: "'r bson \<Rightarrow> int64 \<Rightarrow> 'r list \<Rightarrow> go_error option" where
  "acquiredOrder B previous [] = None"
| "acquiredOrder B previous (raw # rest) =
     (if \<not> bs_Validate B raw then Some ErrHistoryStoreCorrupt
      else case LogID B raw of
        Inl _ \<Rightarrow> Some ErrHistoryStoreCorrupt
      | Inr n \<Rightarrow>
          if previous > 0 \<and> n \<le> previous then Some ErrHistoryStoreCorrupt
          else acquiredOrder B n rest)"

definition validateAcquiredPage ::
    "'r bson \<Rightarrow> 'r content \<Rightarrow> Request \<Rightarrow> 'r Response \<Rightarrow> int64 result" where
  "validateAcquiredPage B C req response =
     (if rq_Count req \<noteq> 0 then Inl ErrProtocol
      else case Request_MarshalBSON B req of
        Inl e \<Rightarrow> Inl e
      | Inr _ \<Rightarrow>
          (case acquiredOrder B 0 (rs_ChatLogs response) of
             Some e \<Rightarrow> Inl e
           | None \<Rightarrow>
               (case decodeHistoryPage B C req response (max 1 (length (rs_ChatLogs response))) of
                  Inl e \<Rightarrow> Inl e | Inr page \<Rightarrow> Inr (hp_Next page))))"

subsection \<open>Coverage\<close>

record acquiredPageRef =
  pr_request :: Request
  pr_last :: int64

definition pageFor :: "int64 \<Rightarrow> acquiredPageRef \<Rightarrow> bool" where
  "pageFor chatID ref \<longleftrightarrow> rq_ChatID (pr_request ref) = chatID"

text \<open>One pass of the inner loop of \<open>coveredThroughLocked\<close>.\<close>

definition coverPass :: "acquiredPageRef list \<Rightarrow> int64 \<Rightarrow> int64 \<Rightarrow> int64 \<Rightarrow> int64" where
  "coverPass pages chatID mx end =
     fold (\<lambda>ref nxt. if pageFor chatID ref \<and> rq_Cur (pr_request ref) \<le> end \<and> pr_last ref > end
                     then max nxt (min (pr_last ref) mx) else nxt) pages end"

lemma coverPass_Max:
  "coverPass pages chatID mx end =
     Max (insert end ((\<lambda>ref. min (pr_last ref) mx) `
       {ref \<in> set pages. pageFor chatID ref \<and> rq_Cur (pr_request ref) \<le> end \<and> pr_last ref > end}))"
  unfolding coverPass_def by (rule fold_max_if)

lemma coverPass_ge: "end \<le> coverPass pages chatID mx end"
  unfolding coverPass_Max by simp

lemma coverPass_le: "coverPass pages chatID mx end \<le> max end mx"
  unfolding coverPass_Max by (auto simp: Max_le_iff)

function coverLoop :: "acquiredPageRef list \<Rightarrow> int64 \<Rightarrow> int64 \<Rightarrow> int64 \<Rightarrow> int64" where
  "coverLoop pages chatID mx end =
     (let nxt = coverPass pages chatID mx end
      in if nxt = end then end else coverLoop pages chatID mx nxt)"
  by pat_completeness auto
termination
proof (relation "measure (\<lambda>(pages, chatID, mx, end). nat (mx - end))", simp)
  fix pages chatID mx "end" nxt
  assume "nxt = coverPass pages chatID mx end" "nxt \<noteq> end"
  moreover have "end \<le> nxt" "nxt \<le> max end mx"
    unfolding calculation(1) by (rule coverPass_ge coverPass_le)+
  ultimately show "((pages, chatID, mx, nxt), pages, chatID, mx, end)
      \<in> measure (\<lambda>(pages, chatID, mx, end). nat (mx - end))"
    by (auto simp: max_def split: if_splits)
qed

declare coverLoop.simps [simp del]

definition coveredThroughLocked :: "acquiredPageRef list \<Rightarrow> Request \<Rightarrow> int64" where
  "coveredThroughLocked pages req = coverLoop pages (rq_ChatID req) (rq_Max req) (rq_Cur req)"

text \<open>The backward pass of \<open>window\<close>.\<close>

definition suffixPass :: "acquiredPageRef list \<Rightarrow> int64 \<Rightarrow> int64 \<Rightarrow> int64 \<Rightarrow> int64" where
  "suffixPass pages chatID after suffixAfter =
     fold (\<lambda>ref nxt. if pageFor chatID ref \<and> pr_last ref \<ge> suffixAfter
                        \<and> rq_Cur (pr_request ref) < suffixAfter
                     then min nxt (max after (rq_Cur (pr_request ref))) else nxt) pages suffixAfter"

lemma suffixPass_Min:
  "suffixPass pages chatID after s =
     Min (insert s ((\<lambda>ref. max after (rq_Cur (pr_request ref))) `
       {ref \<in> set pages. pageFor chatID ref \<and> pr_last ref \<ge> s \<and> rq_Cur (pr_request ref) < s}))"
  unfolding suffixPass_def by (rule fold_min_if)

lemma suffixPass_le: "suffixPass pages chatID after s \<le> s"
  unfolding suffixPass_Min by simp

lemma suffixPass_ge: "min s after \<le> suffixPass pages chatID after s"
  unfolding suffixPass_Min by (auto simp: Min_ge_iff)

function suffixLoop :: "acquiredPageRef list \<Rightarrow> int64 \<Rightarrow> int64 \<Rightarrow> int64 \<Rightarrow> int64" where
  "suffixLoop pages chatID after s =
     (let nxt = suffixPass pages chatID after s
      in if nxt = s then s else suffixLoop pages chatID after nxt)"
  by pat_completeness auto
termination
proof (relation "measure (\<lambda>(pages, chatID, after, s). nat (s - after))", simp)
  fix pages chatID after s nxt
  assume "nxt = suffixPass pages chatID after s" "nxt \<noteq> s"
  moreover have "nxt \<le> s" "min s after \<le> nxt"
    unfolding calculation(1) by (rule suffixPass_le suffixPass_ge)+
  ultimately show "((pages, chatID, after, nxt), pages, chatID, after, s)
      \<in> measure (\<lambda>(pages, chatID, after, s). nat (s - after))"
    by (auto simp: min_def split: if_splits)
qed

declare suffixLoop.simps [simp del]

subsection \<open>Specification\<close>

text \<open>An identity of the chat that some acquired page reaches.\<close>

definition acquired :: "acquiredPageRef list \<Rightarrow> int64 \<Rightarrow> int64 \<Rightarrow> bool" where
  "acquired pages chatID x \<longleftrightarrow>
     (\<exists>ref\<in>set pages. pageFor chatID ref \<and> rq_Cur (pr_request ref) < x \<and> x \<le> pr_last ref)"

lemma coverLoop_spec:
  assumes "end \<le> mx"
  shows "end \<le> coverLoop pages chatID mx end \<and> coverLoop pages chatID mx end \<le> mx
    \<and> (\<forall>x. end < x \<and> x \<le> coverLoop pages chatID mx end \<longrightarrow> acquired pages chatID x)
    \<and> (coverLoop pages chatID mx end < mx \<longrightarrow>
        \<not> acquired pages chatID (coverLoop pages chatID mx end + 1))"
  using assms
proof (induction pages chatID mx "end" rule: coverLoop.induct)
  case (1 pages chatID mx "end")
  define Q where "Q = {ref \<in> set pages. pageFor chatID ref \<and> rq_Cur (pr_request ref) \<le> end \<and> pr_last ref > end}"
  define nxt where "nxt = coverPass pages chatID mx end"
  have nxt: "nxt = Max (insert end ((\<lambda>ref. min (pr_last ref) mx) ` Q))" "finite Q"
    by (simp_all add: nxt_def coverPass_Max Q_def)
  have bounds: "end \<le> nxt" "nxt \<le> mx"
    using coverPass_ge coverPass_le [of pages chatID mx "end"] "1.prems" by (auto simp: nxt_def)
  show ?case
  proof (cases "nxt = end")
    case True
    then have loop: "coverLoop pages chatID mx end = end"
      by (simp add: coverLoop.simps nxt_def [symmetric] Let_def)
    have "min (pr_last ref) mx \<le> end" if "ref \<in> Q" for ref
      using that nxt True Max_ge [of "insert end ((\<lambda>ref. min (pr_last ref) mx) ` Q)" "min (pr_last ref) mx"]
      by auto
    then have "Q = {}" if "end < mx" using that by (force simp: Q_def)
    then have "\<not> acquired pages chatID (end + 1)" if "end < mx"
      using that by (auto simp: Q_def acquired_def)
    with loop "1.prems" show ?thesis by auto
  next
    case False
    then have loop: "coverLoop pages chatID mx end = coverLoop pages chatID mx nxt"
      by (simp add: coverLoop.simps [of _ _ _ "end"] nxt_def [symmetric] Let_def)
    have "nxt \<in> insert end ((\<lambda>ref. min (pr_last ref) mx) ` Q)"
      unfolding nxt(1) by (rule Max_in) (use nxt(2) in auto)
    with False obtain ref where ref: "ref \<in> Q" "nxt = min (pr_last ref) mx" by auto
    then have step: "acquired pages chatID x" if "end < x" "x \<le> nxt" for x
      using that by (auto simp: acquired_def Q_def intro!: bexI [of _ ref])
    from "1.IH" [OF nxt_def False bounds(2)] step bounds show ?thesis
      unfolding loop by (meson dual_order.trans linorder_not_less)
  qed
qed

lemma suffixLoop_spec:
  assumes "after \<le> s"
  shows "after \<le> suffixLoop pages chatID after s \<and> suffixLoop pages chatID after s \<le> s
    \<and> (\<forall>x. suffixLoop pages chatID after s < x \<and> x \<le> s \<longrightarrow> acquired pages chatID x)
    \<and> (after < suffixLoop pages chatID after s \<longrightarrow>
        \<not> acquired pages chatID (suffixLoop pages chatID after s))"
  using assms
proof (induction pages chatID after s rule: suffixLoop.induct)
  case (1 pages chatID after s)
  define Q where "Q = {ref \<in> set pages. pageFor chatID ref \<and> pr_last ref \<ge> s \<and> rq_Cur (pr_request ref) < s}"
  define nxt where "nxt = suffixPass pages chatID after s"
  have nxt: "nxt = Min (insert s ((\<lambda>ref. max after (rq_Cur (pr_request ref))) ` Q))" "finite Q"
    by (simp_all add: nxt_def suffixPass_Min Q_def)
  have bounds: "nxt \<le> s" "after \<le> nxt"
    using suffixPass_le suffixPass_ge [of s after pages chatID] "1.prems" by (auto simp: nxt_def)
  show ?case
  proof (cases "nxt = s")
    case True
    then have loop: "suffixLoop pages chatID after s = s"
      by (simp add: suffixLoop.simps nxt_def [symmetric] Let_def)
    have "s \<le> max after (rq_Cur (pr_request ref))" if "ref \<in> Q" for ref
      using that nxt True Min_le [of "insert s ((\<lambda>ref. max after (rq_Cur (pr_request ref))) ` Q)"
          "max after (rq_Cur (pr_request ref))"] by auto
    then have "Q = {}" if "after < s" using that by (force simp: Q_def)
    then have "\<not> acquired pages chatID s" if "after < s"
      using that by (auto simp: Q_def acquired_def)
    with loop "1.prems" show ?thesis by auto
  next
    case False
    then have loop: "suffixLoop pages chatID after s = suffixLoop pages chatID after nxt"
      by (simp add: suffixLoop.simps [of _ _ _ s] nxt_def [symmetric] Let_def)
    have "nxt \<in> insert s ((\<lambda>ref. max after (rq_Cur (pr_request ref))) ` Q)"
      unfolding nxt(1) by (rule Min_in) (use nxt(2) in auto)
    with False obtain ref where ref: "ref \<in> Q" "nxt = max after (rq_Cur (pr_request ref))" by auto
    then have step: "acquired pages chatID x" if "nxt < x" "x \<le> s" for x
      using that by (auto simp: acquired_def Q_def intro!: bexI [of _ ref])
    from "1.IH" [OF nxt_def False bounds(2)] step bounds show ?thesis
      unfolding loop by (meson dual_order.trans linorder_not_less)
  qed
qed

lemma coveredThrough_iff:
  assumes "rq_Cur req \<le> rq_Max req" "rq_Cur req \<le> e" "e \<le> rq_Max req"
  shows "e \<le> coveredThroughLocked pages req \<longleftrightarrow>
    (\<forall>x. rq_Cur req < x \<and> x \<le> e \<longrightarrow> acquired pages (rq_ChatID req) x)"
proof
  note spec = coverLoop_spec [OF assms(1), of pages "rq_ChatID req", folded coveredThroughLocked_def]
  show "\<forall>x. rq_Cur req < x \<and> x \<le> e \<longrightarrow> acquired pages (rq_ChatID req) x"
    if "e \<le> coveredThroughLocked pages req"
    using that spec by auto
  assume all: "\<forall>x. rq_Cur req < x \<and> x \<le> e \<longrightarrow> acquired pages (rq_ChatID req) x"
  show "e \<le> coveredThroughLocked pages req"
  proof (rule ccontr)
    assume "\<not> e \<le> coveredThroughLocked pages req"
    then show False using spec all assms by auto
  qed
qed

text \<open>
  C35: Connected coverage. For a well-formed interval the loop always ends, its result lies within the
  interval, and it is the greatest identity such that every identity after the start, up to and
  including it, is inside an acquired page of that chat: cached islands beyond a gap
  never advance it, and it does not depend on the order in which the pages are visited.
\<close>

theorem coverage_exact:
  assumes "rq_Cur req \<le> rq_Max req"
  shows "rq_Cur req \<le> coveredThroughLocked pages req \<and> coveredThroughLocked pages req \<le> rq_Max req
    \<and> (\<forall>e. rq_Cur req \<le> e \<and> e \<le> rq_Max req \<longrightarrow>
        (e \<le> coveredThroughLocked pages req \<longleftrightarrow>
          (\<forall>x. rq_Cur req < x \<and> x \<le> e \<longrightarrow> acquired pages (rq_ChatID req) x)))
    \<and> (set pages' = set pages \<longrightarrow> coveredThroughLocked pages' req = coveredThroughLocked pages req)"
proof (intro conjI impI allI)
  note range = coverLoop_spec [OF assms, of _ "rq_ChatID req", folded coveredThroughLocked_def]
  show "rq_Cur req \<le> coveredThroughLocked pages req" "coveredThroughLocked pages req \<le> rq_Max req"
    using range by blast+
  show "e \<le> coveredThroughLocked pages req \<longleftrightarrow>
      (\<forall>x. rq_Cur req < x \<and> x \<le> e \<longrightarrow> acquired pages (rq_ChatID req) x)"
    if "rq_Cur req \<le> e \<and> e \<le> rq_Max req" for e
    using coveredThrough_iff [OF assms] that by blast
  assume "set pages' = set pages"
  then have "acquired pages' (rq_ChatID req) = acquired pages (rq_ChatID req)"
    by (auto simp: acquired_def)
  then have "e \<le> coveredThroughLocked pages' req \<longleftrightarrow> e \<le> coveredThroughLocked pages req"
    if "rq_Cur req \<le> e" "e \<le> rq_Max req" for e
    using coveredThrough_iff [OF assms that] by auto
  then show "coveredThroughLocked pages' req = coveredThroughLocked pages req"
    using range by (meson order.antisym order.refl)
qed

definition samplePages :: "acquiredPageRef list" where
  "samplePages = map (\<lambda>(cur, mx, l). \<lparr>pr_request = \<lparr>rq_ChatID = 7, rq_Cur = cur, rq_Max = mx, rq_Count = 0\<rparr>, pr_last = l\<rparr>)
     [(20, 30, 30), (4, 12, 12), (10, 16, 15)]"

theorem coverage_exact_witness:
  "coveredThroughLocked samplePages \<lparr>rq_ChatID = 7, rq_Cur = 4, rq_Max = 30, rq_Count = 0\<rparr> \<ge> 15
   \<and> \<not> coveredThroughLocked samplePages \<lparr>rq_ChatID = 7, rq_Cur = 4, rq_Max = 30, rq_Count = 0\<rparr> \<ge> 16"
proof -
  let ?req = "\<lparr>rq_ChatID = 7, rq_Cur = 4, rq_Max = 30, rq_Count = 0\<rparr>"
  have "acquired samplePages 7 x \<longleftrightarrow> 4 < x \<and> x \<le> 12 \<or> 10 < x \<and> x \<le> 15 \<or> 20 < x \<and> x \<le> 30" for x
    by (auto simp: acquired_def samplePages_def pageFor_def)
  moreover have "rq_Cur ?req \<le> rq_Max ?req" by simp
  note coverage_exact [OF this, of samplePages samplePages]
  ultimately show ?thesis by (auto intro!: exI [of _ "16 :: int"])
qed

subsection \<open>What a page delivers\<close>

definition inInterval :: "Request \<Rightarrow> int64 \<Rightarrow> bool" where
  "inInterval req n \<longleftrightarrow> rq_Cur req < n \<and> n \<le> rq_Max req"

lemma pageLoop_spec:
  assumes "pageLoop B C req limit evs nxt logs = Inr (evs', nxt')"
  shows "\<exists>ids new. list_all2 (\<lambda>d n. LogID B d = Inr n) logs ids \<and> (\<forall>n\<in>set ids. rq_Cur req \<le> n)
    \<and> evs' = evs @ new
    \<and> map MessagePosition new =
        map (\<lambda>n. Some (rq_ChatID req, n)) (take (limit - length evs) (filter (inInterval req) ids))
    \<and> nxt' = last (nxt # take (limit - length evs) (filter (inInterval req) ids))"
  using assms
proof (induction logs arbitrary: evs nxt)
  case Nil
  then show ?case by simp
next
  case (Cons raw rest)
  from Cons.prems obtain logID where id: "LogID B raw = Inr logID" and low: "rq_Cur req \<le> logID"
    by (auto split: sum.splits if_splits)
  show ?case
  proof (cases "inInterval req logID")
    case False
    with Cons.prems id low have "pageLoop B C req limit evs nxt rest = Inr (evs', nxt')"
      by (auto simp: inInterval_def split: if_splits)
    from Cons.IH [OF this] obtain ids new where "list_all2 (\<lambda>d n. LogID B d = Inr n) rest ids"
      "\<forall>n\<in>set ids. rq_Cur req \<le> n" "evs' = evs @ new"
      "map MessagePosition new = map (\<lambda>n. Some (rq_ChatID req, n)) (take (limit - length evs) (filter (inInterval req) ids))"
      "nxt' = last (nxt # take (limit - length evs) (filter (inInterval req) ids))" by blast
    with False id low show ?thesis
      by - (rule exI [of _ "logID # ids"], rule exI [of _ new], simp)
  next
    case True
    with Cons.prems id low obtain event where
      pos: "MessagePosition event = Some (rq_ChatID req, logID)" and
      rec: "pageLoop B C req limit (if length evs < limit then evs @ [event] else evs)
        (if length evs < limit then logID else nxt) rest = Inr (evs', nxt')"
      by (auto simp: inInterval_def split: if_splits sum.splits)
    show ?thesis
    proof (cases "length evs < limit")
      case room: True
      then obtain k where k: "limit - length evs = Suc k" "limit - length (evs @ [event]) = k"
        by (metis Suc_diff_Suc diff_Suc_eq_diff_pred length_append_singleton diff_Suc_1)
      have rec': "pageLoop B C req limit (evs @ [event]) logID rest = Inr (evs', nxt')"
        using rec room by simp
      from Cons.IH [OF rec', unfolded k(2)] obtain ids new where "list_all2 (\<lambda>d n. LogID B d = Inr n) rest ids"
        "\<forall>n\<in>set ids. rq_Cur req \<le> n" "evs' = (evs @ [event]) @ new"
        "map MessagePosition new = map (\<lambda>n. Some (rq_ChatID req, n)) (take k (filter (inInterval req) ids))"
        "nxt' = last (logID # take k (filter (inInterval req) ids))" by blast
      with True id low pos k(1) show ?thesis
        by - (rule exI [of _ "logID # ids"], rule exI [of _ "event # new"], simp)
    next
      case full: False
      from Cons.IH [OF rec] full obtain ids where "list_all2 (\<lambda>d n. LogID B d = Inr n) rest ids"
        "\<forall>n\<in>set ids. rq_Cur req \<le> n" "evs' = evs" "nxt' = nxt" by auto
      with full id low show ?thesis
        by - (rule exI [of _ "logID # ids"], rule exI [of _ "[]"], simp)
    qed
  qed
qed

lemma ascends_ids:
  assumes "ascends B p logs" "list_all2 (\<lambda>d n. LogID B d = Inr n) logs ids"
  shows "sorted_wrt (<) (p # ids)"
proof -
  from assms(1) obtain ids' where ids': "list_all2 (\<lambda>d n. LogID B d = Inr n) logs ids'" "sorted_wrt (<) (p # ids')"
    by (auto simp: ascends_def)
  have "ids' = ids"
    using ids'(1) assms(2) by (auto simp: list_all2_conv_all_nth intro!: nth_equalityI)
  with ids'(2) show ?thesis by simp
qed

text \<open>
  A history page that decodes from an ordered response holds exactly the first \<open>limit\<close> logs
  of the selected interval \<open>(Cur, Max]\<close>, each as an event of the requested chat at its
  own position, in strictly ascending order and never none; the cursor it returns is the
  position of the last event, and it is complete exactly when that is the end of the interval.
\<close>

theorem decodeHistoryPage_correct:
  assumes "ascends B 0 (rs_ChatLogs response)" and "decodeHistoryPage B C req response limit = Inr page"
  shows "\<exists>ids sel. list_all2 (\<lambda>d n. LogID B d = Inr n) (rs_ChatLogs response) ids
    \<and> sel = take limit (filter (\<lambda>n. rq_Cur req < n \<and> n \<le> rq_Max req) ids) \<and> sel \<noteq> []
    \<and> map MessagePosition (hp_Events page) = map (\<lambda>n. Some (rq_ChatID req, n)) sel
    \<and> sorted_wrt (<) sel \<and> hp_Next page = last sel
    \<and> (hp_Complete page \<longleftrightarrow> last sel = rq_Max req)"
proof -
  from assms(2) obtain evs nxt where
    loop: "pageLoop B C req limit [] (rq_Cur req) (rs_ChatLogs response) = Inr (evs, nxt)"
    and page: "evs \<noteq> []" "page = \<lparr>hp_Events = evs, hp_Next = nxt, hp_Complete = (nxt = rq_Max req)\<rparr>"
    by (auto simp: decodeHistoryPage_def split: sum.splits if_splits)
  from pageLoop_spec [OF loop] obtain ids where ids: "list_all2 (\<lambda>d n. LogID B d = Inr n) (rs_ChatLogs response) ids"
    and evs: "map MessagePosition evs = map (\<lambda>n. Some (rq_ChatID req, n)) (take limit (filter (inInterval req) ids))"
    and nxt: "nxt = last (rq_Cur req # take limit (filter (inInterval req) ids))"
    by auto
  define sel where "sel = take limit (filter (inInterval req) ids)"
  have ne: "sel \<noteq> []" using evs page(1) by (auto simp: sel_def [symmetric])
  have "sorted_wrt (<) ids" using ascends_ids [OF assms(1) ids] by simp
  then have "sorted_wrt (<) sel" by (simp add: sel_def sorted_wrt_filter sorted_wrt_take)
  with ids evs nxt ne page show ?thesis
    by - (rule exI [of _ ids], rule exI [of _ sel], simp add: sel_def inInterval_def [abs_def])
qed

theorem decodeHistoryPage_correct_witness:
  "\<exists>page. decodeHistoryPage docBson plainContent \<lparr>rq_ChatID = 5, rq_Cur = 4, rq_Max = 9, rq_Count = 0\<rparr>
      \<lparr>rs_ChatLogs = [sampleLog 9], rs_MinLogID = 0, rs_IsOK = False\<rparr> 10 = Inr page
    \<and> hp_Next page = 9 \<and> hp_Complete page"
proof -
  let ?req = "\<lparr>rq_ChatID = 5, rq_Cur = 4, rq_Max = 9, rq_Count = 0\<rparr>"
  let ?resp = "\<lparr>rs_ChatLogs = [sampleLog 9], rs_MinLogID = 0, rs_IsOK = False\<rparr>"
  have id: "LogID docBson (sampleLog 9) = Inr 9"
    by (simp add: LogID_Inr Int64_Some_iff sampleLog_def)
  have asc: "ascends docBson 0 (rs_ChatLogs ?resp)" by (simp add: id)
  obtain page where page: "decodeHistoryPage docBson plainContent ?req ?resp 10 = Inr page"
    by (simp add: decodeHistoryPage_def id sampleLog_decodes)
  from decodeHistoryPage_correct [OF asc page] obtain ids sel where
    "list_all2 (\<lambda>d n. LogID docBson d = Inr n) [sampleLog 9] ids"
    "sel = take 10 (filter (\<lambda>n. 4 < n \<and> n \<le> 9) ids)" "hp_Next page = last sel"
    "hp_Complete page \<longleftrightarrow> last sel = 9" by auto
  with page id show ?thesis by (auto simp: list_all2_Cons1)
qed

end
