(* ===== verification/Private_Json.thy ===== *)
theory Private_Json
  imports Go_Prelude
begin

text \<open>
  \<open>src/internal/privatejson/privatejson.go\<close>: one JSON document per owner-only file.

  The operating system is the environment: what each call of the source answers is a field
  of a record (\<open>lstat\<close>, \<open>read_env\<close>, \<open>write_env\<close>, \<open>init_env\<close>), and the functions
  compute the error and the new content of the file from those answers. The file's content
  is the document itself: encoding and decoding by \<open>encoding/json\<close> of the same Go type
  is the identity, and a file that does not decode is an answer of the environment.
\<close>

subsection \<open>Definitions\<close>

definition MaxSize :: nat where "MaxSize = 2 * 2 ^ 20"

text \<open>What \<open>os.Lstat\<close> answers: the mode bits the source reads, or an error.\<close>

record file_info =
  fi_symlink :: bool
  fi_isDir :: bool
  fi_isRegular :: bool
  fi_perm :: nat

datatype lstat = LstatOk file_info | LstatNotExist | LstatError

definition ValidatePrivateDir :: "lstat \<Rightarrow> go_error option" where
  "ValidatePrivateDir info =
     (case info of
        LstatNotExist \<Rightarrow> Some privatejson_ErrNotFound
      | LstatError \<Rightarrow> Some privatejson_ErrCorrupt
      | LstatOk i \<Rightarrow>
          if fi_symlink i \<or> \<not> fi_isDir i \<or> fi_perm i \<noteq> 448
          then Some privatejson_ErrUnsafePermissions else None)"

definition ValidatePrivateFile :: "lstat \<Rightarrow> go_error option" where
  "ValidatePrivateFile info =
     (case info of
        LstatNotExist \<Rightarrow> Some privatejson_ErrNotFound
      | LstatError \<Rightarrow> Some privatejson_ErrCorrupt
      | LstatOk i \<Rightarrow>
          if fi_symlink i \<or> \<not> fi_isRegular i \<or> fi_perm i \<noteq> 384
          then Some privatejson_ErrUnsafePermissions else None)"

text \<open>
  \<open>Read\<close>: the environment answers \<open>Lstat\<close>, whether the file opens, the document that
  the first bounded strict decode yields (if any), and whether the second decode reports
  end of file. The result is an error, or the document when the file exists.
\<close>

record 'a read_env =
  re_stat :: lstat
  re_open :: bool
  re_decode :: "'a option"
  re_eof :: bool

definition Read :: "'a read_env \<Rightarrow> 'a option result" where
  "Read env =
     (case ValidatePrivateFile (re_stat env) of
        Some e \<Rightarrow> if e = privatejson_ErrNotFound then Inr None else Inl e
      | None \<Rightarrow>
          if \<not> re_open env then Inl privatejson_ErrCorrupt
          else (case re_decode env of
                  None \<Rightarrow> Inl privatejson_ErrCorrupt
                | Some v \<Rightarrow>
                    if \<not> re_eof env then Inl privatejson_ErrCorrupt else Inr (Some v)))"

record encode_env =
  ee_encode :: bool
  ee_sync :: bool
  ee_close :: bool

definition encode :: "encode_env \<Rightarrow> go_error option" where
  "encode env =
     (if \<not> ee_encode env then Some privatejson_ErrCorrupt
      else if \<not> ee_sync env then Some privatejson_ErrCorrupt
      else if \<not> ee_close env then Some privatejson_ErrCorrupt
      else None)"

record sync_env =
  se_windows :: bool
  se_open :: bool
  se_sync :: bool

definition syncDirectory :: "sync_env \<Rightarrow> go_error option" where
  "syncDirectory env =
     (if se_windows env then None
      else if \<not> se_open env then Some privatejson_ErrCorrupt
      else if \<not> se_sync env then Some privatejson_ErrCorrupt
      else None)"

record write_env =
  we_dir :: lstat
  we_createTemp :: bool
  we_tmpChmod :: bool
  we_encode :: encode_env
  we_rename :: bool
  we_chmod :: bool
  we_syncDir :: sync_env

text \<open>The error of \<open>WriteAtomic\<close> and the content of the file afterwards.\<close>

definition WriteAtomic :: "write_env \<Rightarrow> 'a \<Rightarrow> 'a option \<Rightarrow> go_error option \<times> 'a option" where
  "WriteAtomic env v disk =
     (case ValidatePrivateDir (we_dir env) of
        Some e \<Rightarrow> (Some e, disk)
      | None \<Rightarrow>
          if \<not> we_createTemp env then (Some privatejson_ErrCorrupt, disk)
          else if \<not> we_tmpChmod env then (Some privatejson_ErrUnsafePermissions, disk)
          else (case encode (we_encode env) of
                  Some e \<Rightarrow> (Some e, disk)
                | None \<Rightarrow>
                    if \<not> we_rename env then (Some privatejson_ErrCorrupt, disk)
                    else if \<not> we_chmod env then (Some privatejson_ErrUnsafePermissions, Some v)
                    else (syncDirectory (we_syncDir env), Some v)))"

datatype open_excl = OpenedExcl | OpenExists | OpenFailed

record init_env =
  ie_dir :: lstat
  ie_open :: open_excl
  ie_chmod :: bool
  ie_encode :: encode_env
  ie_syncDir :: sync_env

definition WriteInitial :: "init_env \<Rightarrow> 'a \<Rightarrow> 'a option \<Rightarrow> go_error option \<times> 'a option" where
  "WriteInitial env v disk =
     (case ValidatePrivateDir (ie_dir env) of
        Some e \<Rightarrow> (Some e, disk)
      | None \<Rightarrow>
          (case ie_open env of
             OpenExists \<Rightarrow> (Some privatejson_ErrAlreadyExists, disk)
           | OpenFailed \<Rightarrow> (Some privatejson_ErrCorrupt, disk)
           | OpenedExcl \<Rightarrow>
               if \<not> ie_chmod env then (Some privatejson_ErrUnsafePermissions, None)
               else (case encode (ie_encode env) of
                       Some e \<Rightarrow> (Some e, None)
                     | None \<Rightarrow> (syncDirectory (ie_syncDir env), Some v))))"

text \<open>An environment in which every call succeeds.\<close>

definition private_dir :: lstat where
  "private_dir = LstatOk \<lparr>fi_symlink = False, fi_isDir = True, fi_isRegular = False, fi_perm = 448\<rparr>"

definition good_encode :: encode_env where
  "good_encode = \<lparr>ee_encode = True, ee_sync = True, ee_close = True\<rparr>"

definition good_sync :: sync_env where
  "good_sync = \<lparr>se_windows = False, se_open = True, se_sync = True\<rparr>"

definition good_write :: write_env where
  "good_write = \<lparr>we_dir = private_dir, we_createTemp = True, we_tmpChmod = True,
     we_encode = good_encode, we_rename = True, we_chmod = True, we_syncDir = good_sync\<rparr>"

lemmas good_env_defs = private_dir_def good_encode_def good_sync_def good_write_def

subsection \<open>Lemmas\<close>

lemma WriteAtomic_good [simp]: "WriteAtomic good_write v d = (None, Some v)"
  by (simp add: WriteAtomic_def good_env_defs ValidatePrivateDir_def encode_def syncDirectory_def)

text \<open>Readers never see a partial document: the file holds the old or the new one.\<close>

lemma WriteAtomic_disk: "WriteAtomic env v d = (r, d') \<Longrightarrow> d' = d \<or> d' = Some v"
  by (auto simp: WriteAtomic_def split: option.splits if_splits)

lemma WriteAtomic_ok_disk: "WriteAtomic env v d = (None, d') \<Longrightarrow> d' = Some v"
  by (auto simp: WriteAtomic_def split: option.splits if_splits)

lemma WriteAtomic_before_rename:
  "WriteAtomic env v d = (Some e, d') \<Longrightarrow> \<not> we_rename env \<Longrightarrow> d' = d"
  by (auto simp: WriteAtomic_def split: option.splits if_splits)

lemma WriteInitial_disk:
  "WriteInitial env v d = (r, d') \<Longrightarrow> d' = d \<or> d' = None \<or> d' = Some v"
  by (auto simp: WriteInitial_def split: option.splits if_splits open_excl.splits)

lemma WriteInitial_ok_disk: "WriteInitial env v d = (None, d') \<Longrightarrow> d' = Some v"
  by (auto simp: WriteInitial_def split: option.splits if_splits open_excl.splits)

end
