(* ===== verification/History_Store.thy ===== *)
theory History_Store
  imports History_Coverage Private_Json "HOL-Library.AList"
begin

text \<open>
  The acquired-history store: \<open>src/internal/client/history_store.go\<close>,
  \<open>history_unavailable.go\<close> and \<open>history_window.go\<close>.

  A file is identified by the value whose SHA-256 digest is its name (the interval of a page,
  the target of a mutation), so the digest is taken to be collision-free. Go maps that the code
  iterates are association lists in an arbitrary order; the files are the fields of
  \<open>'r historyDisk\<close>. Each write consumes one answer of the operating system from
  \<open>hs_answers\<close> (an exhausted list answers success), and a read may fail as the argument
  \<open>faults\<close> says. The store lock makes every operation atomic, so an operation is a function
  from the store to the store. A \<open>HistoryUnavailableError\<close> is the joined pair of errors it
  unwraps to. \<open>Replacement\<close> of length zero is \<open>None\<close>.
\<close>

subsection \<open>State\<close>

type_synonym historyTarget = "int64 \<times> int64"
type_synonym interval = "int64 \<times> int64 \<times> int64"

record 'r historyMutation =
  mu_Version :: int64
  mu_Binding :: string
  mu_ChatID :: int64
  mu_TargetID :: int64
  mu_Sequence :: int64
  mu_Revision :: int64
  mu_Deleted :: bool
  mu_Acquired :: bool
  mu_Replacement :: "'r option"

record 'r acquiredPage =
  ap_Version :: int64
  ap_Binding :: string
  ap_Request :: Request
  ap_Response :: "'r Response"

record historyBulkProgress =
  bp_Version :: int64
  bp_Binding :: string
  bp_Cursors :: "(int64 \<times> int64) list"

record HistoryUnavailable =
  hu_MinLogID :: int64
  hu_ObservedAt :: gotime
  hu_RetryAfter :: gotime

record historyUnavailableRecord =
  ur_Version :: int64
  ur_Binding :: string
  ur_Request :: Request
  ur_Observation :: HistoryUnavailable

record historyStoreHeader =
  sh_Version :: int64
  sh_Binding :: string

text \<open>The length that \<open>json.Marshal\<close> yields (\<open>None\<close> when it fails) and the answers to the write.\<close>

record write_answer =
  wa_marshal :: "nat option"
  wa_env :: write_env

record 'r historyDisk =
  dk_header :: "historyStoreHeader option"
  dk_pages :: "interval \<Rightarrow> 'r acquiredPage option"
  dk_mutations :: "historyTarget \<Rightarrow> 'r historyMutation option"
  dk_bulk :: "historyBulkProgress option"
  dk_unavailable :: "interval \<Rightarrow> historyUnavailableRecord option"

record 'r historyStore =
  hs_binding :: string
  hs_pages :: "(interval \<times> acquiredPageRef) list"
  hs_mutations :: "(historyTarget \<times> 'r historyMutation) list"
  hs_failed :: "go_error option"
  hs_targets :: "historyTarget set"
  hs_bulkCursors :: "(int64 \<times> int64) list"
  hs_unavailable :: "(Request \<times> historyUnavailableRecord) list"
  hs_disk :: "'r historyDisk"
  hs_answers :: "write_answer list"

definition historyPageName :: "Request \<Rightarrow> interval" where
  "historyPageName req = (rq_ChatID req, rq_Cur req, rq_Max req)"

text \<open>Lookups with Go's zero default.\<close>

definition cursorOf :: "(int64 \<times> int64) list \<Rightarrow> int64 \<Rightarrow> int64" where
  "cursorOf cursors chatID = (case map_of cursors chatID of None \<Rightarrow> 0 | Some c \<Rightarrow> c)"

definition zeroMutation :: "'r historyMutation" where
  "zeroMutation = \<lparr>mu_Version = 0, mu_Binding = '''', mu_ChatID = 0, mu_TargetID = 0, mu_Sequence = 0,
     mu_Revision = 0, mu_Deleted = False, mu_Acquired = False, mu_Replacement = None\<rparr>"

definition mutationOf :: "'r historyStore \<Rightarrow> historyTarget \<Rightarrow> 'r historyMutation" where
  "mutationOf s target = (case map_of (hs_mutations s) target of None \<Rightarrow> zeroMutation | Some m \<Rightarrow> m)"

subsection \<open>Writing\<close>

definition writeHistoryObject :: "write_answer \<Rightarrow> 'a \<Rightarrow> 'a option \<Rightarrow> go_error option \<times> 'a option" where
  "writeHistoryObject ans v file =
     (case wa_marshal ans of
        None \<Rightarrow> (Some ErrHistoryStoreCorrupt, file)
      | Some n \<Rightarrow>
          if n + 1 > MaxSize then (Some ErrHistoryStoreCapacity, file)
          else WriteAtomic (wa_env ans) v file)"

definition goodAnswer :: write_answer where
  "goodAnswer = \<lparr>wa_marshal = Some 0, wa_env = good_write\<rparr>"

definition nextAnswer :: "'r historyStore \<Rightarrow> write_answer" where
  "nextAnswer s = (case hs_answers s of [] \<Rightarrow> goodAnswer | a # _ \<Rightarrow> a)"

definition popAnswer :: "'r historyStore \<Rightarrow> 'r historyStore" where
  "popAnswer s = s\<lparr>hs_answers := tl (hs_answers s)\<rparr>"

text \<open>
  The effects of the operations on the store: what a write leaves in each kind of file
  (it consumes one answer), recording a failure, and publishing in memory.
\<close>

definition putMutation :: "historyTarget \<Rightarrow> 'r historyMutation option \<Rightarrow> 'r historyStore \<Rightarrow> 'r historyStore" where
  "putMutation target file s = (popAnswer s)\<lparr>hs_disk := (hs_disk s)\<lparr>dk_mutations := (dk_mutations (hs_disk s))(target := file)\<rparr>\<rparr>"

definition putPage :: "interval \<Rightarrow> 'r acquiredPage option \<Rightarrow> 'r historyStore \<Rightarrow> 'r historyStore" where
  "putPage name file s = (popAnswer s)\<lparr>hs_disk := (hs_disk s)\<lparr>dk_pages := (dk_pages (hs_disk s))(name := file)\<rparr>\<rparr>"

definition putUnavailable :: "interval \<Rightarrow> historyUnavailableRecord option \<Rightarrow> 'r historyStore \<Rightarrow> 'r historyStore" where
  "putUnavailable name file s = (popAnswer s)\<lparr>hs_disk := (hs_disk s)\<lparr>dk_unavailable := (dk_unavailable (hs_disk s))(name := file)\<rparr>\<rparr>"

definition putBulk :: "historyBulkProgress option \<Rightarrow> 'r historyStore \<Rightarrow> 'r historyStore" where
  "putBulk file s = (popAnswer s)\<lparr>hs_disk := (hs_disk s)\<lparr>dk_bulk := file\<rparr>\<rparr>"

definition dropUnavailable :: "Request \<Rightarrow> 'r historyStore \<Rightarrow> 'r historyStore" where
  "dropUnavailable old s = s\<lparr>hs_unavailable := AList.delete old (hs_unavailable s),
     hs_disk := (hs_disk s)\<lparr>dk_unavailable := (dk_unavailable (hs_disk s))(historyPageName old := None)\<rparr>\<rparr>"

definition poison :: "go_error \<Rightarrow> 'r historyStore \<Rightarrow> 'r historyStore" where
  "poison e s = s\<lparr>hs_failed := Some e\<rparr>"

definition addTargets :: "historyTarget set \<Rightarrow> 'r historyStore \<Rightarrow> 'r historyStore" where
  "addTargets ts s = s\<lparr>hs_targets := hs_targets s \<union> ts\<rparr>"

definition setMutation :: "historyTarget \<Rightarrow> 'r historyMutation \<Rightarrow> 'r historyStore \<Rightarrow> 'r historyStore" where
  "setMutation target m s = addTargets (if mu_Acquired m then {target} else {})
     (s\<lparr>hs_mutations := AList.update target m (hs_mutations s)\<rparr>)"

definition setUnavailable :: "Request \<Rightarrow> historyUnavailableRecord \<Rightarrow> 'r historyStore \<Rightarrow> 'r historyStore" where
  "setUnavailable req r s = s\<lparr>hs_unavailable := AList.update req r (hs_unavailable s)\<rparr>"

definition raiseCursor :: "int64 \<Rightarrow> int64 \<Rightarrow> (int64 \<times> int64) list \<Rightarrow> (int64 \<times> int64) list" where
  "raiseCursor chatID c cursors = AList.update chatID (max (cursorOf cursors chatID) c) cursors"

definition setPage :: "interval \<Rightarrow> acquiredPageRef \<Rightarrow> 'r historyStore \<Rightarrow> 'r historyStore" where
  "setPage name ref s = s\<lparr>hs_pages := AList.update name ref (hs_pages s),
     hs_bulkCursors := raiseCursor (rq_ChatID (pr_request ref)) (pr_last ref) (hs_bulkCursors s)\<rparr>"

definition setBulk :: "(int64 \<times> int64) list \<Rightarrow> 'r historyStore \<Rightarrow> 'r historyStore" where
  "setBulk cursors s = s\<lparr>hs_bulkCursors := cursors\<rparr>"

lemmas effect_defs = popAnswer_def putMutation_def putPage_def putUnavailable_def putBulk_def
  dropUnavailable_def poison_def addTargets_def setMutation_def setUnavailable_def setPage_def setBulk_def

definition validateMutation ::
    "'r bson \<Rightarrow> 'r content \<Rightarrow> string \<Rightarrow> 'r historyMutation \<Rightarrow> bool" where
  "validateMutation B C binding m \<longleftrightarrow>
     \<not> (mu_Version m \<noteq> 1 \<or> mu_Binding m \<noteq> binding \<or> mu_ChatID m \<le> 0 \<or> mu_TargetID m \<le> 0
        \<or> mu_Sequence m < 0 \<or> mu_Revision m < 0
        \<or> (\<not> mu_Deleted m \<and> mu_Revision m = 0 \<and> mu_Replacement m = None))
     \<and> (case mu_Replacement m of
          None \<Rightarrow> True
        | Some raw \<Rightarrow>
            (case DecodeChatLog B C (mu_ChatID m) raw of
               Inl _ \<Rightarrow> False
             | Inr event \<Rightarrow> MessagePosition event = Some (mu_ChatID m, mu_TargetID m)
                 \<and> \<not> Int64OrZero B raw [''revision''] < mu_Revision m))"

definition mutationTarget :: "'r historyMutation \<Rightarrow> historyTarget" where
  "mutationTarget m = (mu_ChatID m, mu_TargetID m)"

definition writeMutation ::
    "'r bson \<Rightarrow> 'r content \<Rightarrow> 'r historyMutation \<Rightarrow> 'r historyStore \<Rightarrow> go_error option \<times> 'r historyStore" where
  "writeMutation B C m0 s =
     (let m = (if mu_Replacement m0 \<noteq> None then m0\<lparr>mu_Acquired := True\<rparr> else m0);
          target = mutationTarget m
      in if \<not> validateMutation B C (hs_binding s) m then (Some ErrHistoryStoreCorrupt, s)
         else case writeHistoryObject (nextAnswer s) m (dk_mutations (hs_disk s) target) of
           (Some e, file) \<Rightarrow> (Some e, poison e (putMutation target file s))
         | (None, file) \<Rightarrow> (None, setMutation target m (putMutation target file s)))"

subsection \<open>Observing\<close>

definition observe ::
    "'r bson \<Rightarrow> 'r content \<Rightarrow> 'r event \<Rightarrow> 'r option \<Rightarrow> 'r historyStore \<Rightarrow> go_error option \<times> 'r historyStore" where
  "observe B C event replacement s =
     (let fresh = (\<lambda>(chat, target) old. zeroMutation\<lparr>mu_Version := 1, mu_Binding := hs_binding s,
            mu_ChatID := chat, mu_TargetID := target, mu_Acquired := mu_Acquired old\<rparr>);
          delete = (\<lambda>target sequence.
            (let old = mutationOf s target in
             if mu_Deleted old then (None, s)
             else writeMutation B C ((fresh target old)\<lparr>mu_Replacement := mu_Replacement old,
                    mu_Revision := mu_Revision old, mu_Deleted := True, mu_Sequence := sequence\<rparr>) s))
      in case event of
           MessageDeleted chat logID _ _ target _ \<Rightarrow> delete (chat, target) logID
         | DeletedMessage chat logID _ _ _ \<Rightarrow> delete (chat, logID) logID
         | MessageEdited chat logID _ _ target revision _ \<Rightarrow>
             (let old = mutationOf s (chat, target) in
              if mu_Deleted old then (None, s)
              else if logID < mu_Sequence old \<or> revision < mu_Revision old then (None, s)
              else if logID = mu_Sequence old \<and> revision = mu_Revision old \<and> replacement = None then (None, s)
              else writeMutation B C ((fresh (chat, target) old)\<lparr>mu_Sequence := logID, mu_Revision := revision,
                     mu_Replacement :=
                       (case replacement of
                          Some r \<Rightarrow> Some r
                        | None \<Rightarrow> if mu_Revision old = revision then mu_Replacement old else None)\<rparr>) s)
         | _ \<Rightarrow> (None, s))"

text \<open>One record of \<open>observeRecords\<close> after its event was observed.\<close>

definition observeRow ::
    "'r bson \<Rightarrow> 'r content \<Rightarrow> int64 \<Rightarrow> int64 \<Rightarrow> 'r \<Rightarrow> 'r historyStore \<Rightarrow> go_error option \<times> 'r historyStore" where
  "observeRow B C chatID logID raw s =
     (let revision = Int64OrZero B raw [''revision''];
          old = mutationOf s (chatID, logID)
      in if mu_Deleted old then
           (if mu_Replacement old = None then writeMutation B C (old\<lparr>mu_Replacement := Some raw\<rparr>) s
            else (None, s))
         else if revision \<ge> mu_Revision old then
           writeMutation B C (old\<lparr>mu_Version := 1, mu_Binding := hs_binding s, mu_ChatID := chatID,
             mu_TargetID := logID, mu_Revision := revision, mu_Replacement := Some raw\<rparr>) s
         else (None, s))"

fun observeRecords ::
    "'r bson \<Rightarrow> 'r content \<Rightarrow> int64 \<Rightarrow> 'r list \<Rightarrow> 'r historyStore \<Rightarrow> go_error option \<times> 'r historyStore" where
  "observeRecords B C chatID [] s = (None, s)"
| "observeRecords B C chatID (raw # logs) s =
     (case DecodeChatLog B C chatID raw of
        Inl e \<Rightarrow> (Some e, s)
      | Inr event \<Rightarrow>
          (case observe B C event None s of
             (Some e, s1) \<Rightarrow> (Some e, s1)
           | (None, s1) \<Rightarrow>
               (case LogID B raw of
                  Inl e \<Rightarrow> (Some e, s1)
                | Inr logID \<Rightarrow>
                    (case observeRow B C chatID logID raw s1 of
                       (Some e, s2) \<Rightarrow> (Some e, s2)
                     | (None, s2) \<Rightarrow> observeRecords B C chatID logs s2))))"

definition rowIDs :: "'r bson \<Rightarrow> 'r list \<Rightarrow> int64 list" where
  "rowIDs B logs = map (\<lambda>raw. case LogID B raw of Inr n \<Rightarrow> n | Inl _ \<Rightarrow> 0) logs"

definition observeCurrentRecords ::
    "'r bson \<Rightarrow> 'r content \<Rightarrow> int64 \<Rightarrow> 'r list \<Rightarrow> 'r historyStore \<Rightarrow> go_error option \<times> 'r historyStore" where
  "observeCurrentRecords B C chatID logs s =
     (case hs_failed s of
        Some e \<Rightarrow> (Some e, s)
      | None \<Rightarrow>
          (case observeRecords B C chatID logs s of
             (Some e, s1) \<Rightarrow> (Some e, poison e s1)
           | (None, s1) \<Rightarrow> (None, addTargets ((\<lambda>n. (chatID, n)) ` set (rowIDs B logs)) s1)))"

definition observePacket ::
    "'r bson \<Rightarrow> 'r content \<Rightarrow> 'r packet \<Rightarrow> 'r event \<Rightarrow> 'r historyStore \<Rightarrow> go_error option \<times> 'r historyStore" where
  "observePacket B C packet event s =
     (let replacement = (case event of
            MessageEdited _ _ _ _ _ _ _ \<Rightarrow>
              (case bs_LookupErr B (ep_Body packet) ''modifiedChatLog'' of
                 Some (VDoc d) \<Rightarrow> Some d | _ \<Rightarrow> None)
          | _ \<Rightarrow> None)
      in case hs_failed s of
           Some e \<Rightarrow> (Some e, s)
         | None \<Rightarrow> observe B C event replacement s)"

subsection \<open>Unavailable intervals\<close>

definition historyUnavailableFreshness :: duration where
  "historyUnavailableFreshness = 5 * 60 * 1000000000"

definition historyUnavailableMaximum :: nat where "historyUnavailableMaximum = 1024"

definition unavailableError :: go_error where
  "unavailableError = Joined [ErrHistoryBelowFloor, ErrGapUnresolved]"

definition validUnavailable ::
    "'r bson \<Rightarrow> string \<Rightarrow> gotime \<Rightarrow> historyUnavailableRecord \<Rightarrow> bool" where
  "validUnavailable B binding now r \<longleftrightarrow>
     (let o' = ur_Observation r in
      is_ok (Request_MarshalBSON B (ur_Request r)) \<and> rq_Count (ur_Request r) = 0 \<and> ur_Version r = 1
      \<and> ur_Binding r = binding \<and> hu_MinLogID o' > rq_Max (ur_Request r) \<and> hu_ObservedAt o' \<noteq> 0
      \<and> \<not> hu_ObservedAt o' > now + 60000000000
      \<and> hu_RetryAfter o' = hu_ObservedAt o' + historyUnavailableFreshness)"

text \<open>
  The removal loop of \<open>saveUnavailable\<close>: \<open>removed\<close> answers \<open>os.Remove\<close> for each
  file (\<open>None\<close> is success or a missing file).
\<close>

fun expireLoop ::
    "gotime \<Rightarrow> (Request \<Rightarrow> go_error option) \<Rightarrow> (Request \<times> historyUnavailableRecord) list
     \<Rightarrow> 'r historyStore \<Rightarrow> go_error option \<times> 'r historyStore" where
  "expireLoop now removed [] s = (None, s)"
| "expireLoop now removed ((old, r) # rest) s =
     (if \<not> now < hu_RetryAfter (ur_Observation r) then
        (case removed old of
           Some e \<Rightarrow> (Some e, poison e s)
         | None \<Rightarrow> expireLoop now removed rest (dropUnavailable old s))
      else expireLoop now removed rest s)"

definition saveUnavailable ::
    "'r bson \<Rightarrow> gotime \<Rightarrow> (Request \<Rightarrow> go_error option) \<Rightarrow> Request \<Rightarrow> 'r Response \<Rightarrow> 'r historyStore
     \<Rightarrow> go_error option \<times> 'r historyStore" where
  "saveUnavailable B now removed req response s =
     (case Request_MarshalBSON B req of
        Inl e \<Rightarrow> (Some e, s)
      | Inr _ \<Rightarrow>
          if rq_Count req \<noteq> 0 \<or> rs_ChatLogs response \<noteq> [] \<or> rs_MinLogID response \<le> rq_Max req
          then (Some ErrProtocol, s)
          else case hs_failed s of
            Some e \<Rightarrow> (Some e, s)
          | None \<Rightarrow>
              (case expireLoop now removed (hs_unavailable s) s of
                 (Some e, s1) \<Rightarrow> (Some e, s1)
               | (None, s1) \<Rightarrow>
                   if map_of (hs_unavailable s1) req = None
                      \<and> length (hs_unavailable s1) \<ge> historyUnavailableMaximum
                   then (Some ErrHistoryStoreCapacity, s1)
                   else
                     let obs = \<lparr>hu_MinLogID = rs_MinLogID response, hu_ObservedAt = now,
                           hu_RetryAfter = now + historyUnavailableFreshness\<rparr>;
                         r = \<lparr>ur_Version = 1, ur_Binding = hs_binding s1, ur_Request = req, ur_Observation = obs\<rparr>;
                         name = historyPageName req
                     in case writeHistoryObject (nextAnswer s1) r (dk_unavailable (hs_disk s1) name) of
                          (Some e, file) \<Rightarrow> (Some e, poison e (putUnavailable name file s1))
                        | (None, file) \<Rightarrow> (Some unavailableError, setUnavailable req r (putUnavailable name file s1))))"

text \<open>The answer of \<open>privatejson.Read\<close> for a file that holds \<open>file\<close>.\<close>

definition readFile :: "go_error option \<Rightarrow> 'a option \<Rightarrow> 'a option result" where
  "readFile fault file = (case fault of Some e \<Rightarrow> Inl e | None \<Rightarrow> Inr file)"

definition unavailableLocked ::
    "'r bson \<Rightarrow> gotime \<Rightarrow> (interval \<Rightarrow> go_error option) \<Rightarrow> Request \<Rightarrow> 'r historyStore
     \<Rightarrow> HistoryUnavailable option result \<times> 'r historyStore" where
  "unavailableLocked B now faults req s =
     (if map_of (hs_unavailable s) req = None then (Inr None, s)
      else
        let name = historyPageName req; bad = (Inl ErrHistoryStoreCorrupt, poison ErrHistoryStoreCorrupt s)
        in case readFile (faults name) (dk_unavailable (hs_disk s) name) of
             Inl _ \<Rightarrow> bad
           | Inr None \<Rightarrow> bad
           | Inr (Some r) \<Rightarrow>
               if ur_Request r \<noteq> req \<or> \<not> validUnavailable B (hs_binding s) now r then bad
               else if now < hu_ObservedAt (ur_Observation r) then (Inl ErrHistoryStoreCorrupt, s)
               else if \<not> now < hu_RetryAfter (ur_Observation r) then (Inr None, s)
               else (Inr (Some (ur_Observation r)), s))"

subsection \<open>Saving\<close>

definition save ::
    "'r bson \<Rightarrow> 'r content \<Rightarrow> gotime \<Rightarrow> (Request \<Rightarrow> go_error option) \<Rightarrow> Request \<Rightarrow> 'r Response
     \<Rightarrow> 'r historyStore \<Rightarrow> go_error option \<times> 'r historyStore" where
  "save B C now removed req response s =
     (if rs_ChatLogs response = [] \<and> rs_MinLogID response > rq_Max req
      then saveUnavailable B now removed req response s
      else case validateAcquiredPage B C req response of
        Inl e \<Rightarrow> (Some e, s)
      | Inr lastID \<Rightarrow>
          (case hs_failed s of
             Some e \<Rightarrow> (Some e, s)
           | None \<Rightarrow>
               let selected = \<lparr>rs_ChatLogs = filter (\<lambda>raw. case LogID B raw of
                       Inr n \<Rightarrow> rq_Cur req < n \<and> n \<le> rq_Max req | Inl _ \<Rightarrow> False) (rs_ChatLogs response),
                     rs_MinLogID = rs_MinLogID response, rs_IsOK = False\<rparr>
               in case observeRecords B C (rq_ChatID req) (rs_ChatLogs selected) s of
                    (Some e, s1) \<Rightarrow> (Some e, poison e s1)
                  | (None, s1) \<Rightarrow>
                      let name = historyPageName req;
                          page = \<lparr>ap_Version = 1, ap_Binding = hs_binding s1, ap_Request = req, ap_Response = selected\<rparr>
                      in case writeHistoryObject (nextAnswer s1) page (dk_pages (hs_disk s1) name) of
                           (Some e, file) \<Rightarrow> (Some e, poison e (putPage name file s1))
                         | (None, file) \<Rightarrow> (None,
                             addTargets ((\<lambda>n. (rq_ChatID req, n)) ` set (rowIDs B (rs_ChatLogs selected)))
                               (setPage name \<lparr>pr_request = req, pr_last = lastID\<rparr> (putPage name file s1)))))"

text \<open>\<open>commitBulk\<close>: \<open>cursors\<close> lists the entries of its argument map.\<close>

fun mergeCursors :: "(int64 \<times> int64) list \<Rightarrow> (int64 \<times> int64) list \<Rightarrow> (int64 \<times> int64) list option" where
  "mergeCursors [] nxt = Some nxt"
| "mergeCursors ((chatID, cursor) # rest) nxt =
     (if chatID \<le> 0 \<or> cursor < 0 then None
      else mergeCursors rest (raiseCursor chatID cursor nxt))"

definition commitBulk :: "(int64 \<times> int64) list \<Rightarrow> 'r historyStore \<Rightarrow> go_error option \<times> 'r historyStore" where
  "commitBulk cursors s =
     (case hs_failed s of
        Some e \<Rightarrow> (Some e, s)
      | None \<Rightarrow>
          (case mergeCursors cursors (hs_bulkCursors s) of
             None \<Rightarrow> (Some ErrProtocol, s)
           | Some nxt \<Rightarrow>
               (case writeHistoryObject (nextAnswer s)
                     \<lparr>bp_Version = 1, bp_Binding = hs_binding s, bp_Cursors = nxt\<rparr> (dk_bulk (hs_disk s)) of
                  (Some e, file) \<Rightarrow> (Some e, poison e (putBulk file s))
                | (None, file) \<Rightarrow> (None, setBulk nxt (putBulk file s)))))"

definition pageRefs :: "'r historyStore \<Rightarrow> acquiredPageRef list" where
  "pageRefs s = map snd (hs_pages s)"

definition bulkSnapshot :: "'r historyStore \<Rightarrow> (int64 \<times> int64) list" where
  "bulkSnapshot s = map (\<lambda>(chatID, high). (chatID, coveredThroughLocked (pageRefs s)
     \<lparr>rq_ChatID = chatID, rq_Cur = 0, rq_Max = high, rq_Count = 0\<rparr>)) (hs_bulkCursors s)"

subsection \<open>Projection\<close>

definition wrap32 :: "int \<Rightarrow> int" where
  "wrap32 x = (x + 2 ^ 31) mod 2 ^ 32 - 2 ^ 31"

definition markDeleted :: "'r bson \<Rightarrow> 'r \<Rightarrow> 'r result" where
  "markDeleted B raw =
     (case bs_Elements B raw of
        None \<Rightarrow> Inl ErrHistoryStoreCorrupt
      | Some doc \<Rightarrow>
          let flagged = VInt32 (wrap32 (Int64OrZero B raw [''type'']) OR DeletedAllChatTypeFlag);
              doc' = (if list_ex (\<lambda>e. fst e = ''type'') doc
                      then map (\<lambda>(k, v). (k, if k = ''type'' then flagged else v)) doc
                      else doc @ [(''type'', VInt32 DeletedAllChatTypeFlag)])
          in case bs_MarshalRaw B doc' of None \<Rightarrow> Inl (Other ''bson.Marshal'') | Some d \<Rightarrow> Inr d)"

definition apply_mutation :: "'r bson \<Rightarrow> 'r historyStore \<Rightarrow> 'r \<Rightarrow> int64 \<Rightarrow> 'r result" where
  "apply_mutation B s raw chatID =
     (case LogID B raw of
        Inl e \<Rightarrow> Inl e
      | Inr n \<Rightarrow>
          (case map_of (hs_mutations s) (chatID, n) of
             None \<Rightarrow> Inr raw
           | Some mutation \<Rightarrow>
               if mu_Deleted mutation then markDeleted B raw
               else (case mu_Replacement mutation of
                       None \<Rightarrow> Inl ErrHistoryTargetUnresolved
                     | Some r \<Rightarrow> Inr r)))"

definition project :: "'r bson \<Rightarrow> 'r content \<Rightarrow> 'r historyStore \<Rightarrow> 'r event \<Rightarrow> 'r event result" where
  "project B C s event =
     (case MessagePosition event of
        None \<Rightarrow> Inr event
      | Some (chat, n) \<Rightarrow>
          (case hs_failed s of
             Some e \<Rightarrow> Inl e
           | None \<Rightarrow>
               (case map_of (hs_mutations s) (chat, n) of
                  None \<Rightarrow> Inr event
                | Some mutation \<Rightarrow>
                    (case mu_Replacement mutation of
                       None \<Rightarrow>
                         if mu_Deleted mutation then
                           (case event of
                              TextMessage _ _ author sentAt _ _ \<Rightarrow> Inr (DeletedMessage chat n author sentAt 1)
                            | _ \<Rightarrow> Inl ErrHistoryTargetUnresolved)
                         else Inl ErrHistoryTargetUnresolved
                     | Some replacement \<Rightarrow>
                         (case apply_mutation B s replacement chat of
                            Inl e \<Rightarrow> Inl e
                          | Inr raw \<Rightarrow> DecodeChatLog B C chat raw)))))"

fun projectAll :: "'r bson \<Rightarrow> 'r content \<Rightarrow> 'r historyStore \<Rightarrow> 'r event list \<Rightarrow> 'r event list result" where
  "projectAll B C s [] = Inr []"
| "projectAll B C s (event # rest) =
     (case project B C s event of
        Inl e \<Rightarrow> Inl e
      | Inr current \<Rightarrow> (case projectAll B C s rest of Inl e \<Rightarrow> Inl e | Inr out \<Rightarrow> Inr (current # out)))"

definition projectAcquiredEvents ::
    "'r bson \<Rightarrow> 'r content \<Rightarrow> 'r historyStore option \<Rightarrow> 'r event list \<Rightarrow> 'r event list result" where
  "projectAcquiredEvents B C hstore input =
     (case hstore of None \<Rightarrow> Inr input | Some s \<Rightarrow> projectAll B C s input)"

subsection \<open>Reading stored pages\<close>

text \<open>
  One page file: its content when it is the page the reference names and still valid. The
  file name of a page is its interval, so a page under another name is corrupt.
\<close>

definition readPage ::
    "'r bson \<Rightarrow> 'r content \<Rightarrow> (interval \<Rightarrow> go_error option) \<Rightarrow> 'r historyStore \<Rightarrow> interval
     \<Rightarrow> 'r acquiredPage option" where
  "readPage B C faults s name =
     (case readFile (faults name) (dk_pages (hs_disk s) name) of
        Inr (Some page) \<Rightarrow>
          if ap_Version page \<noteq> 1 \<or> ap_Binding page \<noteq> hs_binding s \<or> historyPageName (ap_Request page) \<noteq> name
          then None
          else (case validateAcquiredPage B C (ap_Request page) (ap_Response page) of
                  Inl _ \<Rightarrow> None | Inr _ \<Rightarrow> Some page)
      | _ \<Rightarrow> None)"

definition addRows :: "'r bson \<Rightarrow> (int64 \<Rightarrow> bool) \<Rightarrow> 'r list \<Rightarrow> (int64 \<times> 'r) list \<Rightarrow> (int64 \<times> 'r) list" where
  "addRows B keep logs rows =
     fold (\<lambda>raw rows. let n = (case LogID B raw of Inr n \<Rightarrow> n | Inl _ \<Rightarrow> 0) in
       if keep n then AList.update n raw rows else rows) logs rows"

text \<open>The page loop of \<open>lookup\<close>: rows and floor, or \<open>None\<close> when the store is corrupt.\<close>

fun lookupPages ::
    "'r bson \<Rightarrow> 'r content \<Rightarrow> (interval \<Rightarrow> go_error option) \<Rightarrow> 'r historyStore \<Rightarrow> Request \<Rightarrow> int64
     \<Rightarrow> (interval \<times> acquiredPageRef) list \<Rightarrow> (int64 \<times> 'r) list \<Rightarrow> int64 \<Rightarrow> ((int64 \<times> 'r) list \<times> int64) option" where
  "lookupPages B C faults s req end [] rows floor = Some (rows, floor)"
| "lookupPages B C faults s req end ((name, ref) # rest) rows floor =
     (if rq_ChatID (pr_request ref) \<noteq> rq_ChatID req \<or> rq_Cur (pr_request ref) \<ge> end \<or> pr_last ref \<le> rq_Cur req
      then lookupPages B C faults s req end rest rows floor
      else case readPage B C faults s name of
        None \<Rightarrow> None
      | Some page \<Rightarrow> lookupPages B C faults s req end rest
          (addRows B (\<lambda>n. rq_Cur req < n \<and> n \<le> end) (rs_ChatLogs (ap_Response page)) rows)
          (max floor (rs_MinLogID (ap_Response page))))"

text \<open>The loop over the mutations: the barrier (0 for none) and the rows.\<close>

fun overlay ::
    "'r historyStore \<Rightarrow> Request \<Rightarrow> int64 \<Rightarrow> (historyTarget \<times> 'r historyMutation) list
     \<Rightarrow> int64 \<Rightarrow> (int64 \<times> 'r) list \<Rightarrow> int64 \<times> (int64 \<times> 'r) list" where
  "overlay s req end [] barrier rows = (barrier, rows)"
| "overlay s req end (((chat, n), mutation) # rest) barrier rows =
     (if chat \<noteq> rq_ChatID req \<or> n \<le> rq_Cur req \<or> n > end then overlay s req end rest barrier rows
      else overlay s req end rest
        (if \<not> mu_Deleted mutation \<and> mu_Replacement mutation = None \<and> (chat, n) \<in> hs_targets s
            \<and> (barrier = 0 \<or> n < barrier) then n else barrier)
        (case mu_Replacement mutation of Some r \<Rightarrow> AList.update n r rows | None \<Rightarrow> rows))"

fun projectRows ::
    "'r bson \<Rightarrow> 'r historyStore \<Rightarrow> int64 \<Rightarrow> int64 \<Rightarrow> (int64 \<times> 'r) list \<Rightarrow> int64 list \<Rightarrow> 'r list result" where
  "projectRows B s chatID barrier rows [] = Inr []"
| "projectRows B s chatID barrier rows (n # ids) =
     (if barrier > 0 \<and> n \<ge> barrier then Inr []
      else case apply_mutation B s (the (map_of rows n)) chatID of
        Inl e \<Rightarrow> if errors_Is e ErrHistoryTargetUnresolved then Inr [] else Inl e
      | Inr projected \<Rightarrow>
          (case projectRows B s chatID barrier rows ids of Inl e \<Rightarrow> Inl e | Inr out \<Rightarrow> Inr (projected # out)))"

text \<open>\<open>lookup\<close>: a response, nothing (\<open>Inr None\<close>), or an error.\<close>

definition lookup ::
    "'r bson \<Rightarrow> 'r content \<Rightarrow> gotime \<Rightarrow> (interval \<Rightarrow> go_error option) \<Rightarrow> Request \<Rightarrow> 'r historyStore
     \<Rightarrow> 'r Response option result \<times> 'r historyStore" where
  "lookup B C now faults req s =
     (case hs_failed s of
        Some e \<Rightarrow> (Inl e, s)
      | None \<Rightarrow>
          let end = coveredThroughLocked (pageRefs s) req in
          if end = rq_Cur req then
            (case unavailableLocked B now faults req s of
               (Inl e, s1) \<Rightarrow> (Inl e, s1)
             | (Inr (Some _), s1) \<Rightarrow> (Inl unavailableError, s1)
             | (Inr None, s1) \<Rightarrow> (Inr None, s1))
          else
            case lookupPages B C faults s req end (hs_pages s) [] 0 of
              None \<Rightarrow> (Inl ErrHistoryStoreCorrupt, poison ErrHistoryStoreCorrupt s)
            | Some (rows0, floor) \<Rightarrow>
                let (barrier, rows) = overlay s req end (hs_mutations s) 0 rows0 in
                case projectRows B s (rq_ChatID req) barrier rows (sort (map fst rows)) of
                  Inl e \<Rightarrow> (Inl e, s)
                | Inr logs \<Rightarrow>
                    (Inr (if logs = [] then None
                          else Some \<lparr>rs_ChatLogs = logs, rs_MinLogID = floor, rs_IsOK = False\<rparr>), s))"

subsection \<open>Windows\<close>

record StoredHistoryRequest =
  sq_ChatID :: int64
  sq_After :: int64
  sq_Through :: int64
  sq_Limit :: nat
  sq_ExcludeThrough :: bool

record 'r StoredHistoryPage =
  sp_Events :: "'r event list"
  sp_CoveredThrough :: int64
  sp_MissingThrough :: int64
  sp_CachedSuffix :: bool
  sp_HasMore :: bool
  sp_Unavailable :: "HistoryUnavailable option"
  sp_Complete :: bool

definition windowRequest :: "StoredHistoryRequest \<Rightarrow> Request" where
  "windowRequest q = \<lparr>rq_ChatID = sq_ChatID q, rq_Cur = sq_After q, rq_Max = sq_Through q, rq_Count = 0\<rparr>"

text \<open>
  The page loop of \<open>window\<close>: \<open>cancelled\<close> is the answer of \<open>ctx.Err()\<close> when it reaches the
  page. \<open>Inl\<close> carries the error and whether it marks the store failed.
\<close>

fun windowPages ::
    "'r bson \<Rightarrow> 'r content \<Rightarrow> (interval \<Rightarrow> go_error option) \<Rightarrow> (interval \<Rightarrow> go_error option) \<Rightarrow> 'r historyStore
     \<Rightarrow> StoredHistoryRequest \<Rightarrow> (interval \<times> acquiredPageRef) list \<Rightarrow> (int64 \<times> 'r) list
     \<Rightarrow> (go_error \<times> bool) + (int64 \<times> 'r) list" where
  "windowPages B C cancelled faults s q [] rows = Inr rows"
| "windowPages B C cancelled faults s q ((name, ref) # rest) rows =
     (if rq_ChatID (pr_request ref) \<noteq> sq_ChatID q \<or> pr_last ref \<le> sq_After q
         \<or> rq_Cur (pr_request ref) \<ge> sq_Through q
      then windowPages B C cancelled faults s q rest rows
      else case cancelled name of
        Some e \<Rightarrow> Inl (e, False)
      | None \<Rightarrow>
          (case readPage B C faults s name of
             None \<Rightarrow> Inl (ErrHistoryStoreCorrupt, True)
           | Some page \<Rightarrow> windowPages B C cancelled faults s q rest
               (addRows B (\<lambda>n. sq_After q < n \<and> n \<le> sq_Through q
                   \<and> (\<not> sq_ExcludeThrough q \<or> n \<noteq> sq_Through q))
                 (rs_ChatLogs (ap_Response page)) rows)))"

fun windowEvents ::
    "'r bson \<Rightarrow> 'r content \<Rightarrow> 'r historyStore \<Rightarrow> int64 \<Rightarrow> (int64 \<times> 'r) list \<Rightarrow> int64 list \<Rightarrow> 'r event list result" where
  "windowEvents B C s chatID rows [] = Inr []"
| "windowEvents B C s chatID rows (n # ids) =
     (case apply_mutation B s (the (map_of rows n)) chatID of
        Inl e \<Rightarrow> Inl e
      | Inr raw \<Rightarrow>
          (case DecodeChatLog B C chatID raw of
             Inl e \<Rightarrow> Inl e
           | Inr evt \<Rightarrow> (case windowEvents B C s chatID rows ids of Inl e \<Rightarrow> Inl e | Inr out \<Rightarrow> Inr (evt # out))))"

definition missingAfter :: "acquiredPageRef list \<Rightarrow> int64 \<Rightarrow> int64 \<Rightarrow> int64 \<Rightarrow> int64" where
  "missingAfter pages chatID covered through =
     fold (\<lambda>ref nxt. if pageFor chatID ref \<and> rq_Cur (pr_request ref) > covered
                     then min nxt (rq_Cur (pr_request ref)) else nxt) pages through"

definition window ::
    "'r bson \<Rightarrow> 'r content \<Rightarrow> gotime \<Rightarrow> (interval \<Rightarrow> go_error option) \<Rightarrow> (interval \<Rightarrow> go_error option)
     \<Rightarrow> StoredHistoryRequest \<Rightarrow> 'r historyStore \<Rightarrow> 'r StoredHistoryPage result \<times> 'r historyStore" where
  "window B C now cancelled faults q s =
     (case hs_failed s of
        Some e \<Rightarrow> (Inl e, s)
      | None \<Rightarrow>
          let refs = pageRefs s;
              covered = coverLoop refs (sq_ChatID q) (sq_Through q) (sq_After q);
              suffixAfter = suffixLoop refs (sq_ChatID q) (sq_After q) (sq_Through q)
          in case windowPages B C cancelled faults s q (hs_pages s) [] of
               Inl (e, corrupt) \<Rightarrow> (Inl e, if corrupt then poison e s else s)
             | Inr rows \<Rightarrow>
                 let ids = sort (filter (\<lambda>n. \<not> (suffixAfter < sq_Through q \<and> n \<le> suffixAfter)) (map fst rows));
                     complete = (covered \<ge> sq_Through q);
                     cachedSuffix = (suffixAfter < sq_Through q \<and> ids \<noteq> []);
                     hasMore = (length ids > sq_Limit q \<or> (cachedSuffix \<and> \<not> complete));
                     (unavailable, s1) = (if \<not> complete \<and> ids = []
                        then unavailableLocked B now faults (windowRequest q) s else (Inr None, s))
                 in case unavailable of
                      Inl e \<Rightarrow> (Inl e, s1)
                    | Inr observation \<Rightarrow>
                        (case windowEvents B C s1 (sq_ChatID q) rows (drop (length ids - sq_Limit q) ids) of
                           Inl e \<Rightarrow> (Inl e, s1)
                         | Inr evs \<Rightarrow> (Inr \<lparr>sp_Events = evs, sp_CoveredThrough = covered,
                             sp_MissingThrough = missingAfter refs (sq_ChatID q) covered (sq_Through q),
                             sp_CachedSuffix = cachedSuffix, sp_HasMore = hasMore,
                             sp_Unavailable = observation, sp_Complete = complete\<rparr>, s1)))"

subsection \<open>Opening\<close>

text \<open>
  The files of the directory by the prefix of their names. A hidden file is a temporary one
  that an interrupted write left behind.
\<close>

datatype fileName =
    NHeader | NHidden | NUnavailable interval | NBulk | NPage interval | NTarget historyTarget | NUnknown

text \<open>
  The answers of the operating system: the stats of the parent and the directory, whether
  \<open>Mkdir\<close> succeeds or finds the directory, the listing, read faults, the writing of the
  header, the removal of expired files and the clock.
\<close>

record history_open_env =
  ho_parent :: lstat
  ho_mkdir :: bool
  ho_dir :: lstat
  ho_entries :: "fileName list option"
  ho_fault :: "fileName \<Rightarrow> go_error option"
  ho_init :: init_env
  ho_remove :: "interval \<Rightarrow> go_error option"
  ho_now :: gotime

definition emptyStore :: "string \<Rightarrow> 'r historyDisk \<Rightarrow> write_answer list \<Rightarrow> 'r historyStore" where
  "emptyStore binding dk answers =
     \<lparr>hs_binding = binding, hs_pages = [], hs_mutations = [], hs_failed = None, hs_targets = {},
      hs_bulkCursors = [], hs_unavailable = [], hs_disk = dk, hs_answers = answers\<rparr>"

definition openUnavailable ::
    "'r bson \<Rightarrow> history_open_env \<Rightarrow> interval \<Rightarrow> 'r historyStore \<Rightarrow> 'r historyStore result" where
  "openUnavailable B env name s =
     (case readFile (ho_fault env (NUnavailable name)) (dk_unavailable (hs_disk s) name) of
        Inr (Some r) \<Rightarrow>
          if \<not> validUnavailable B (hs_binding s) (ho_now env) r \<or> name \<noteq> historyPageName (ur_Request r)
          then Inl ErrHistoryStoreCorrupt
          else if \<not> ho_now env < hu_RetryAfter (ur_Observation r) then
            (case ho_remove env name of
               Some e \<Rightarrow> Inl e
             | None \<Rightarrow> Inr (dropUnavailable (ur_Request r) s))
          else if length (hs_unavailable s) \<ge> historyUnavailableMaximum then Inl ErrHistoryStoreCapacity
          else Inr (setUnavailable (ur_Request r) r s)
      | _ \<Rightarrow> Inl ErrHistoryStoreCorrupt)"

definition openBulk :: "history_open_env \<Rightarrow> 'r historyStore \<Rightarrow> 'r historyStore result" where
  "openBulk env s =
     (case readFile (ho_fault env NBulk) (dk_bulk (hs_disk s)) of
        Inr (Some progress) \<Rightarrow>
          if bp_Version progress \<noteq> 1 \<or> bp_Binding progress \<noteq> hs_binding s
             \<or> list_ex (\<lambda>(chatID, cursor). chatID \<le> 0 \<or> cursor < 0) (bp_Cursors progress)
          then Inl ErrHistoryStoreCorrupt
          else Inr (setBulk
            (fold (\<lambda>(chatID, cursor). raiseCursor chatID cursor) (bp_Cursors progress) (hs_bulkCursors s)) s)
      | _ \<Rightarrow> Inl ErrHistoryStoreCorrupt)"

definition openPage ::
    "'r bson \<Rightarrow> 'r content \<Rightarrow> history_open_env \<Rightarrow> interval \<Rightarrow> 'r historyStore \<Rightarrow> (int64 \<times> int64) list
     \<Rightarrow> ('r historyStore \<times> (int64 \<times> int64) list) result" where
  "openPage B C env name s pageCursors =
     (case readFile (ho_fault env (NPage name)) (dk_pages (hs_disk s) name) of
        Inr (Some page) \<Rightarrow>
          if ap_Version page \<noteq> 1 \<or> ap_Binding page \<noteq> hs_binding s \<or> name \<noteq> historyPageName (ap_Request page)
          then Inl ErrHistoryStoreCorrupt
          else (case validateAcquiredPage B C (ap_Request page) (ap_Response page) of
            Inl _ \<Rightarrow> Inl ErrHistoryStoreCorrupt
          | Inr lastID \<Rightarrow>
              let chatID = rq_ChatID (ap_Request page) in
              Inr (addTargets ((\<lambda>n. (chatID, n)) ` set (rowIDs B (rs_ChatLogs (ap_Response page))))
                     (setPage name \<lparr>pr_request = ap_Request page, pr_last = lastID\<rparr> s),
                   raiseCursor chatID lastID pageCursors))
      | _ \<Rightarrow> Inl ErrHistoryStoreCorrupt)"

definition openTarget ::
    "'r bson \<Rightarrow> 'r content \<Rightarrow> history_open_env \<Rightarrow> historyTarget \<Rightarrow> 'r historyStore \<Rightarrow> 'r historyStore result" where
  "openTarget B C env name s =
     (case readFile (ho_fault env (NTarget name)) (dk_mutations (hs_disk s) name) of
        Inr (Some m) \<Rightarrow>
          if \<not> validateMutation B C (hs_binding s) m \<or> name \<noteq> mutationTarget m then Inl ErrHistoryStoreCorrupt
          else Inr (addTargets (if mu_Replacement m \<noteq> None then {mutationTarget m} else {}) (setMutation (mutationTarget m) m s))
      | _ \<Rightarrow> Inl ErrHistoryStoreCorrupt)"

fun openEntries ::
    "'r bson \<Rightarrow> 'r content \<Rightarrow> history_open_env \<Rightarrow> fileName list \<Rightarrow> 'r historyStore \<Rightarrow> (int64 \<times> int64) list
     \<Rightarrow> ('r historyStore \<times> (int64 \<times> int64) list) result" where
  "openEntries B C env [] s pageCursors = Inr (s, pageCursors)"
| "openEntries B C env (NHeader # rest) s pageCursors = openEntries B C env rest s pageCursors"
| "openEntries B C env (NHidden # rest) s pageCursors = openEntries B C env rest s pageCursors"
| "openEntries B C env (NUnavailable name # rest) s pageCursors =
     (case openUnavailable B env name s of Inl e \<Rightarrow> Inl e | Inr s1 \<Rightarrow> openEntries B C env rest s1 pageCursors)"
| "openEntries B C env (NBulk # rest) s pageCursors =
     (case openBulk env s of Inl e \<Rightarrow> Inl e | Inr s1 \<Rightarrow> openEntries B C env rest s1 pageCursors)"
| "openEntries B C env (NPage name # rest) s pageCursors =
     (case openPage B C env name s pageCursors of
        Inl e \<Rightarrow> Inl e | Inr (s1, cursors1) \<Rightarrow> openEntries B C env rest s1 cursors1)"
| "openEntries B C env (NTarget name # rest) s pageCursors =
     (case openTarget B C env name s of Inl e \<Rightarrow> Inl e | Inr s1 \<Rightarrow> openEntries B C env rest s1 pageCursors)"
| "openEntries B C env (NUnknown # rest) s pageCursors = Inl ErrHistoryStoreCorrupt"

text \<open>
  \<open>openHistoryStore\<close>: \<open>binding\<close> is the digest of the account and the device; the result
  pairs the error or the store with the directory's content afterwards.
\<close>

definition openHistoryStore ::
    "'r bson \<Rightarrow> 'r content \<Rightarrow> history_open_env \<Rightarrow> int64 \<Rightarrow> string \<Rightarrow> string \<Rightarrow> write_answer list \<Rightarrow> 'r historyDisk
     \<Rightarrow> 'r historyStore result" where
  "openHistoryStore B C env accountID deviceID binding answers dk =
     (if accountID \<le> 0 \<or> deviceID = '''' then Inl ErrProtocol
      else case ValidatePrivateDir (ho_parent env) of
        Some e \<Rightarrow> Inl e
      | None \<Rightarrow>
          if \<not> ho_mkdir env then Inl ErrHistoryStoreCorrupt
          else case ValidatePrivateDir (ho_dir env) of
            Some e \<Rightarrow> Inl e
          | None \<Rightarrow>
              (case ho_entries env of
                 None \<Rightarrow> Inl ErrHistoryStoreCorrupt
               | Some entries \<Rightarrow>
                   (case readFile (ho_fault env NHeader) (dk_header dk) of
                      Inl e \<Rightarrow> Inl e
                    | Inr hdr \<Rightarrow>
                        let opened = (case hdr of
                              None \<Rightarrow>
                                if entries \<noteq> [] then Inl ErrHistoryStoreCorrupt
                                else (case WriteInitial (ho_init env) \<lparr>sh_Version = 1, sh_Binding = binding\<rparr> None of
                                        (Some e, _) \<Rightarrow> Inl e
                                      | (None, file) \<Rightarrow> Inr (dk\<lparr>dk_header := file\<rparr>))
                            | Some h \<Rightarrow>
                                if sh_Version h \<noteq> 1 \<or> sh_Binding h \<noteq> binding then Inl ErrHistoryStoreCorrupt
                                else Inr dk)
                        in case opened of
                             Inl e \<Rightarrow> Inl e
                           | Inr dk1 \<Rightarrow>
                               (case openEntries B C env entries (emptyStore binding dk1 answers) [] of
                                  Inl e \<Rightarrow> Inl e
                                | Inr (s, pageCursors) \<Rightarrow>
                                    if list_ex (\<lambda>(chatID, _). cursorOf (hs_bulkCursors s) chatID > cursorOf pageCursors chatID)
                                         (hs_bulkCursors s)
                                    then Inl ErrHistoryStoreCorrupt
                                    else Inr s))))"

subsection \<open>Effects, field by field\<close>

lemma effect_hs_binding [simp]:
  "hs_binding (popAnswer s) = hs_binding s"
  "hs_binding (putMutation t f s) = hs_binding s"
  "hs_binding (putPage n p s) = hs_binding s"
  "hs_binding (putUnavailable n u s) = hs_binding s"
  "hs_binding (putBulk b s) = hs_binding s"
  "hs_binding (dropUnavailable q s) = hs_binding s"
  "hs_binding (poison e s) = hs_binding s"
  "hs_binding (addTargets ts s) = hs_binding s"
  "hs_binding (setMutation t m s) = hs_binding s"
  "hs_binding (setUnavailable q r s) = hs_binding s"
  "hs_binding (setPage n ref s) = hs_binding s"
  "hs_binding (setBulk bs s) = hs_binding s"
  by (simp_all add: effect_defs)

lemma effect_hs_pages [simp]:
  "hs_pages (popAnswer s) = hs_pages s"
  "hs_pages (putMutation t f s) = hs_pages s"
  "hs_pages (putPage n p s) = hs_pages s"
  "hs_pages (putUnavailable n u s) = hs_pages s"
  "hs_pages (putBulk b s) = hs_pages s"
  "hs_pages (dropUnavailable q s) = hs_pages s"
  "hs_pages (poison e s) = hs_pages s"
  "hs_pages (addTargets ts s) = hs_pages s"
  "hs_pages (setMutation t m s) = hs_pages s"
  "hs_pages (setUnavailable q r s) = hs_pages s"
  "hs_pages (setPage n ref s) = AList.update n ref (hs_pages s)"
  "hs_pages (setBulk bs s) = hs_pages s"
  by (simp_all add: effect_defs)

lemma effect_hs_mutations [simp]:
  "hs_mutations (popAnswer s) = hs_mutations s"
  "hs_mutations (putMutation t f s) = hs_mutations s"
  "hs_mutations (putPage n p s) = hs_mutations s"
  "hs_mutations (putUnavailable n u s) = hs_mutations s"
  "hs_mutations (putBulk b s) = hs_mutations s"
  "hs_mutations (dropUnavailable q s) = hs_mutations s"
  "hs_mutations (poison e s) = hs_mutations s"
  "hs_mutations (addTargets ts s) = hs_mutations s"
  "hs_mutations (setMutation t m s) = AList.update t m (hs_mutations s)"
  "hs_mutations (setUnavailable q r s) = hs_mutations s"
  "hs_mutations (setPage n ref s) = hs_mutations s"
  "hs_mutations (setBulk bs s) = hs_mutations s"
  by (simp_all add: effect_defs)

lemma effect_hs_failed [simp]:
  "hs_failed (popAnswer s) = hs_failed s"
  "hs_failed (putMutation t f s) = hs_failed s"
  "hs_failed (putPage n p s) = hs_failed s"
  "hs_failed (putUnavailable n u s) = hs_failed s"
  "hs_failed (putBulk b s) = hs_failed s"
  "hs_failed (dropUnavailable q s) = hs_failed s"
  "hs_failed (poison e s) = Some e"
  "hs_failed (addTargets ts s) = hs_failed s"
  "hs_failed (setMutation t m s) = hs_failed s"
  "hs_failed (setUnavailable q r s) = hs_failed s"
  "hs_failed (setPage n ref s) = hs_failed s"
  "hs_failed (setBulk bs s) = hs_failed s"
  by (simp_all add: effect_defs)

lemma effect_hs_bulkCursors [simp]:
  "hs_bulkCursors (popAnswer s) = hs_bulkCursors s"
  "hs_bulkCursors (putMutation t f s) = hs_bulkCursors s"
  "hs_bulkCursors (putPage n p s) = hs_bulkCursors s"
  "hs_bulkCursors (putUnavailable n u s) = hs_bulkCursors s"
  "hs_bulkCursors (putBulk b s) = hs_bulkCursors s"
  "hs_bulkCursors (dropUnavailable q s) = hs_bulkCursors s"
  "hs_bulkCursors (poison e s) = hs_bulkCursors s"
  "hs_bulkCursors (addTargets ts s) = hs_bulkCursors s"
  "hs_bulkCursors (setMutation t m s) = hs_bulkCursors s"
  "hs_bulkCursors (setUnavailable q r s) = hs_bulkCursors s"
  "hs_bulkCursors (setPage n ref s) = raiseCursor (rq_ChatID (pr_request ref)) (pr_last ref) (hs_bulkCursors s)"
  "hs_bulkCursors (setBulk bs s) = bs"
  by (simp_all add: effect_defs)

lemma effect_hs_targets [simp]:
  "hs_targets (popAnswer s) = hs_targets s"
  "hs_targets (putMutation t f s) = hs_targets s"
  "hs_targets (putPage n p s) = hs_targets s"
  "hs_targets (putUnavailable n u s) = hs_targets s"
  "hs_targets (putBulk b s) = hs_targets s"
  "hs_targets (dropUnavailable q s) = hs_targets s"
  "hs_targets (poison e s) = hs_targets s"
  "hs_targets (addTargets ts s) = hs_targets s \<union> ts"
  "hs_targets (setMutation t m s) = hs_targets s \<union> (if mu_Acquired m then {t} else {})"
  "hs_targets (setUnavailable q r s) = hs_targets s"
  "hs_targets (setPage n ref s) = hs_targets s"
  "hs_targets (setBulk bs s) = hs_targets s"
  by (simp_all add: effect_defs)

lemma effect_dk_header [simp]:
  "dk_header (hs_disk (popAnswer s)) = dk_header (hs_disk s)"
  "dk_header (hs_disk (putMutation t f s)) = dk_header (hs_disk s)"
  "dk_header (hs_disk (putPage n p s)) = dk_header (hs_disk s)"
  "dk_header (hs_disk (putUnavailable n u s)) = dk_header (hs_disk s)"
  "dk_header (hs_disk (putBulk b s)) = dk_header (hs_disk s)"
  "dk_header (hs_disk (dropUnavailable q s)) = dk_header (hs_disk s)"
  "dk_header (hs_disk (poison e s)) = dk_header (hs_disk s)"
  "dk_header (hs_disk (addTargets ts s)) = dk_header (hs_disk s)"
  "dk_header (hs_disk (setMutation t m s)) = dk_header (hs_disk s)"
  "dk_header (hs_disk (setUnavailable q r s)) = dk_header (hs_disk s)"
  "dk_header (hs_disk (setPage n ref s)) = dk_header (hs_disk s)"
  "dk_header (hs_disk (setBulk bs s)) = dk_header (hs_disk s)"
  by (simp_all add: effect_defs)

lemma effect_dk_pages [simp]:
  "dk_pages (hs_disk (popAnswer s)) = dk_pages (hs_disk s)"
  "dk_pages (hs_disk (putMutation t f s)) = dk_pages (hs_disk s)"
  "dk_pages (hs_disk (putPage n p s)) = (dk_pages (hs_disk s))(n := p)"
  "dk_pages (hs_disk (putUnavailable n u s)) = dk_pages (hs_disk s)"
  "dk_pages (hs_disk (putBulk b s)) = dk_pages (hs_disk s)"
  "dk_pages (hs_disk (dropUnavailable q s)) = dk_pages (hs_disk s)"
  "dk_pages (hs_disk (poison e s)) = dk_pages (hs_disk s)"
  "dk_pages (hs_disk (addTargets ts s)) = dk_pages (hs_disk s)"
  "dk_pages (hs_disk (setMutation t m s)) = dk_pages (hs_disk s)"
  "dk_pages (hs_disk (setUnavailable q r s)) = dk_pages (hs_disk s)"
  "dk_pages (hs_disk (setPage n ref s)) = dk_pages (hs_disk s)"
  "dk_pages (hs_disk (setBulk bs s)) = dk_pages (hs_disk s)"
  by (simp_all add: effect_defs)

lemma effect_dk_mutations [simp]:
  "dk_mutations (hs_disk (popAnswer s)) = dk_mutations (hs_disk s)"
  "dk_mutations (hs_disk (putMutation t f s)) = (dk_mutations (hs_disk s))(t := f)"
  "dk_mutations (hs_disk (putPage n p s)) = dk_mutations (hs_disk s)"
  "dk_mutations (hs_disk (putUnavailable n u s)) = dk_mutations (hs_disk s)"
  "dk_mutations (hs_disk (putBulk b s)) = dk_mutations (hs_disk s)"
  "dk_mutations (hs_disk (dropUnavailable q s)) = dk_mutations (hs_disk s)"
  "dk_mutations (hs_disk (poison e s)) = dk_mutations (hs_disk s)"
  "dk_mutations (hs_disk (addTargets ts s)) = dk_mutations (hs_disk s)"
  "dk_mutations (hs_disk (setMutation t m s)) = dk_mutations (hs_disk s)"
  "dk_mutations (hs_disk (setUnavailable q r s)) = dk_mutations (hs_disk s)"
  "dk_mutations (hs_disk (setPage n ref s)) = dk_mutations (hs_disk s)"
  "dk_mutations (hs_disk (setBulk bs s)) = dk_mutations (hs_disk s)"
  by (simp_all add: effect_defs)

lemma effect_dk_bulk [simp]:
  "dk_bulk (hs_disk (popAnswer s)) = dk_bulk (hs_disk s)"
  "dk_bulk (hs_disk (putMutation t f s)) = dk_bulk (hs_disk s)"
  "dk_bulk (hs_disk (putPage n p s)) = dk_bulk (hs_disk s)"
  "dk_bulk (hs_disk (putUnavailable n u s)) = dk_bulk (hs_disk s)"
  "dk_bulk (hs_disk (putBulk b s)) = b"
  "dk_bulk (hs_disk (dropUnavailable q s)) = dk_bulk (hs_disk s)"
  "dk_bulk (hs_disk (poison e s)) = dk_bulk (hs_disk s)"
  "dk_bulk (hs_disk (addTargets ts s)) = dk_bulk (hs_disk s)"
  "dk_bulk (hs_disk (setMutation t m s)) = dk_bulk (hs_disk s)"
  "dk_bulk (hs_disk (setUnavailable q r s)) = dk_bulk (hs_disk s)"
  "dk_bulk (hs_disk (setPage n ref s)) = dk_bulk (hs_disk s)"
  "dk_bulk (hs_disk (setBulk bs s)) = dk_bulk (hs_disk s)"
  by (simp_all add: effect_defs)

end
