(* ===== verification/History_Safety.thy ===== *)
theory History_Safety
  imports History_Store
begin

text \<open>
  Safety of the acquired-history store: a deletion or a newer revision that the store has
  recorded is never lost, in memory, on disk or across a reopen, whatever fails in
  between; and the content of a deleted message is never projected.
\<close>

subsection \<open>The order on overlays\<close>

text \<open>A later overlay of the same target keeps the deletion and does not lower the revision.\<close>

definition mle :: "'r historyMutation option \<Rightarrow> 'r historyMutation option \<Rightarrow> bool" where
  "mle a b = (case a of
     None \<Rightarrow> True
   | Some m \<Rightarrow> (case b of
       None \<Rightarrow> False
     | Some m' \<Rightarrow> (mu_Deleted m \<longrightarrow> mu_Deleted m') \<and> mu_Revision m \<le> mu_Revision m'))"

lemma mle_refl [simp, intro]: "mle a a"
  by (simp add: mle_def split: option.splits)

lemma mle_None [simp]: "mle None b"
  by (simp add: mle_def)

lemma mle_trans [trans]: "mle a b \<Longrightarrow> mle b c \<Longrightarrow> mle a c"
  by (auto simp: mle_def split: option.splits)

lemma mle_Some: "mle (Some m) b \<longleftrightarrow>
    (\<exists>m'. b = Some m' \<and> (mu_Deleted m \<longrightarrow> mu_Deleted m') \<and> mu_Revision m \<le> mu_Revision m')"
  by (simp add: mle_def split: option.splits)

definition mem :: "'r historyStore \<Rightarrow> historyTarget \<Rightarrow> 'r historyMutation option" where
  "mem s t = map_of (hs_mutations s) t"

definition dsk :: "'r historyStore \<Rightarrow> historyTarget \<Rightarrow> 'r historyMutation option" where
  "dsk s t = dk_mutations (hs_disk s) t"

text \<open>
  Every overlay is valid and under its own target; the disk is never behind the memory, and
  they agree until a write fails.
\<close>

definition overlayInv :: "'r bson \<Rightarrow> 'r content \<Rightarrow> 'r historyStore \<Rightarrow> bool" where
  "overlayInv B C s \<longleftrightarrow>
     (\<forall>t m. mem s t = Some m \<or> dsk s t = Some m \<longrightarrow> validateMutation B C (hs_binding s) m \<and> mutationTarget m = t)
     \<and> (\<forall>t. mle (mem s t) (dsk s t))
     \<and> (hs_failed s = None \<longrightarrow> mem s = dsk s)
     \<and> distinct (map fst (hs_mutations s))"

text \<open>What an operation on overlays keeps of the rest of the store.\<close>

definition mstep :: "'r bson \<Rightarrow> 'r content \<Rightarrow> 'r historyStore \<Rightarrow> 'r historyStore \<Rightarrow> bool" where
  "mstep B C s s' \<longleftrightarrow>
     overlayInv B C s' \<and> hs_binding s' = hs_binding s
     \<and> (\<forall>t. mle (mem s t) (mem s' t)) \<and> (\<forall>t. mle (dsk s t) (dsk s' t))
     \<and> hs_pages s' = hs_pages s \<and> dk_pages (hs_disk s') = dk_pages (hs_disk s)
     \<and> hs_bulkCursors s' = hs_bulkCursors s \<and> dk_bulk (hs_disk s') = dk_bulk (hs_disk s)
     \<and> dk_header (hs_disk s') = dk_header (hs_disk s)"

lemma mstep_refl: "overlayInv B C s \<Longrightarrow> mstep B C s s"
  by (simp add: mstep_def)

lemma mstep_trans: "mstep B C s s' \<Longrightarrow> mstep B C s' s'' \<Longrightarrow> mstep B C s s''"
  unfolding mstep_def by (metis mle_trans)

lemma mstep_inv: "mstep B C s s' \<Longrightarrow> overlayInv B C s'"
  by (simp add: mstep_def)

lemma mutationOf_mem: "mutationOf s t = (case mem s t of None \<Rightarrow> zeroMutation | Some m \<Rightarrow> m)"
  by (simp add: mutationOf_def mem_def)

lemma zeroMutation_simps [simp]:
  "mu_Deleted zeroMutation = False" "mu_Revision zeroMutation = 0" "mu_Replacement zeroMutation = None"
  by (simp_all add: zeroMutation_def)

lemma validateMutation_revision: "validateMutation B C b m \<Longrightarrow> 0 \<le> mu_Revision m"
  by (simp add: validateMutation_def)

lemma map_of_AList_update [simp]: "map_of (AList.update k v al) k' = (if k' = k then Some v else map_of al k')"
  by (simp add: update_conv)

lemma writeHistoryObject_file:
  "writeHistoryObject ans v fl = (err, fl') \<Longrightarrow> fl' = fl \<or> fl' = Some v"
  by (auto simp: writeHistoryObject_def split: option.splits if_splits dest: WriteAtomic_disk)

lemma writeHistoryObject_ok:
  "writeHistoryObject ans v fl = (None, fl') \<Longrightarrow> fl' = Some v"
  by (auto simp: writeHistoryObject_def split: option.splits if_splits dest: WriteAtomic_ok_disk)

text \<open>A new overlay that dominates the old one is a step, whatever the write does.\<close>

lemma writeMutation_step:
  assumes inv: "overlayInv B C s" and ok: "hs_failed s = None"
    and dom: "mle (mem s (mutationTarget m)) (Some m)"
    and w: "writeMutation B C m s = (err, s')"
  shows "mstep B C s s'" and "err = None \<Longrightarrow> hs_failed s' = None"
proof -
  define m' where "m' = (if mu_Replacement m \<noteq> None then m\<lparr>mu_Acquired := True\<rparr> else m)"
  define t where "t = mutationTarget m"
  have same: "mutationTarget m' = t" "mu_Deleted m' = mu_Deleted m" "mu_Revision m' = mu_Revision m"
    by (simp_all add: m'_def mutationTarget_def t_def)
  obtain e fl where f: "writeHistoryObject (nextAnswer s) m' (dk_mutations (hs_disk s) t) = (e, fl)" by force
  have eq: "mem s = dsk s" using inv ok by (simp add: overlayInv_def)
  have dom': "mle (dsk s t) (Some m')"
    using dom eq same by (simp add: mle_def t_def split: option.splits)
  have fl: "fl = dsk s t \<or> fl = Some m'" using writeHistoryObject_file [OF f] by (simp add: dsk_def)
  have okfl: "fl = Some m'" if "e = None"
    by (rule writeHistoryObject_ok [of "nextAnswer s" m' "dk_mutations (hs_disk s) t"]) (use f that in simp)
  have res: "(err, s') = (if \<not> validateMutation B C (hs_binding s) m' then (Some ErrHistoryStoreCorrupt, s)
      else case e of Some e' \<Rightarrow> (Some e', poison e' (putMutation t fl s))
        | None \<Rightarrow> (None, setMutation t m' (putMutation t fl s)))"
    using w unfolding writeMutation_def Let_def m'_def [symmetric] same(1) f by (cases e) auto
  have "mstep B C s s' \<and> (err = None \<longrightarrow> hs_failed s' = None)"
  proof (cases "validateMutation B C (hs_binding s) m'")
    case False
    then show ?thesis using inv res by (auto simp: mstep_refl)
  next
    case valid: True
    have dsk': "dsk s' = (dsk s)(t := fl)"
      using res valid by (cases e) (simp_all add: dsk_def [abs_def] fun_eq_iff)
    have mem': "mem s' = (if e = None then (mem s)(t := Some m') else mem s)"
      using res valid by (cases e) (simp_all add: mem_def [abs_def] fun_eq_iff)
    have err: "err = e" and fail: "hs_failed s' = e"
      using res valid ok by (cases e; simp)+
    have rest: "hs_binding s' = hs_binding s" "hs_pages s' = hs_pages s"
        "dk_pages (hs_disk s') = dk_pages (hs_disk s)" "hs_bulkCursors s' = hs_bulkCursors s"
        "dk_bulk (hs_disk s') = dk_bulk (hs_disk s)" "dk_header (hs_disk s') = dk_header (hs_disk s)"
      using res valid by (cases e; simp)+
    have inv': "overlayInv B C s'"
      unfolding overlayInv_def
    proof (intro conjI allI impI)
      fix t' m1 assume "mem s' t' = Some m1 \<or> dsk s' t' = Some m1"
      then have "(mem s t' = Some m1 \<or> dsk s t' = Some m1) \<or> (m1 = m' \<and> t' = t)"
        using fl unfolding mem' dsk' by (auto split: if_splits)
      moreover have "validateMutation B C (hs_binding s) m1 \<and> mutationTarget m1 = t'"
        if "mem s t' = Some m1 \<or> dsk s t' = Some m1"
        using inv that unfolding overlayInv_def by blast
      ultimately show "validateMutation B C (hs_binding s') m1" "mutationTarget m1 = t'"
        using valid same(1) rest(1) by auto
    next
      fix t'
      have "mle (mem s t) fl" using fl dom' eq by auto
      then show "mle (mem s' t') (dsk s' t')"
        using okfl eq unfolding mem' dsk' by auto
    next
      assume "hs_failed s' = None"
      then show "mem s' = dsk s'" using okfl eq mem' dsk' fail by simp
    next
      show "distinct (map fst (hs_mutations s'))"
        using res valid inv by (cases e) (simp_all add: overlayInv_def distinct_update)
    qed
    have "mle (mem s t') (mem s' t')" "mle (dsk s t') (dsk s' t')" for t'
      using dom' eq fl unfolding mem' dsk' by auto
    with inv' rest err fail show ?thesis by (simp add: mstep_def)
  qed
  then show "mstep B C s s'" "err = None \<Longrightarrow> hs_failed s' = None" by blast+
qed

lemma mem_valid:
  assumes "overlayInv B C s" "mem s t = Some m"
  shows "mutationTarget m = t" "0 \<le> mu_Revision m"
  using assms validateMutation_revision unfolding overlayInv_def by blast+

lemma observe_step:
  assumes inv: "overlayInv B C s" and ok: "hs_failed s = None"
    and w: "observe B C event replacement s = (err, s')"
  shows "mstep B C s s' \<and> (err = None \<longrightarrow> hs_failed s' = None)"
proof -
  have keep: "mstep B C s s" using inv by (rule mstep_refl)
  have wr: "mstep B C s s' \<and> (err = None \<longrightarrow> hs_failed s' = None)"
    if "writeMutation B C m s = (err, s')" "mutationTarget m = t" "\<not> mu_Deleted (mutationOf s t)"
      "mu_Revision (mutationOf s t) \<le> mu_Revision m" for m t
  proof -
    have "mle (mem s (mutationTarget m)) (Some m)"
      using that(2-4) by (auto simp: mle_def mutationOf_mem split: option.splits)
    from writeMutation_step [OF inv ok this that(1)] show ?thesis by blast
  qed
  show ?thesis
  proof (cases event)
    case (MessageEdited chat logID a b target revision c)
    then show ?thesis
      using w ok keep wr [of _ "(chat, target)"]
      by (auto simp: observe_def Let_def mutationTarget_def zeroMutation_def split: if_splits)
  next
    case (MessageDeleted chat logID a b target c)
    then show ?thesis
      using w ok keep wr [of _ "(chat, target)"]
      by (auto simp: observe_def Let_def mutationTarget_def zeroMutation_def split: if_splits)
  next
    case (DeletedMessage chat logID a b c)
    then show ?thesis
      using w ok keep wr [of _ "(chat, logID)"]
      by (auto simp: observe_def Let_def mutationTarget_def zeroMutation_def split: if_splits)
  qed (use w ok keep in \<open>auto simp: observe_def Let_def\<close>)
qed

lemma observeRow_step:
  assumes inv: "overlayInv B C s" and ok: "hs_failed s = None"
    and w: "observeRow B C chatID logID raw s = (err, s')"
  shows "mstep B C s s' \<and> (err = None \<longrightarrow> hs_failed s' = None)"
proof -
  let ?old = "mutationOf s (chatID, logID)"
  have keep: "mstep B C s s" using inv by (rule mstep_refl)
  have wr: "mstep B C s s' \<and> (err = None \<longrightarrow> hs_failed s' = None)"
    if "writeMutation B C m s = (err, s')" "mle (mem s (mutationTarget m)) (Some m)" for m
    using writeMutation_step [OF inv ok that(2,1)] by blast
  show ?thesis
  proof (cases "mu_Deleted ?old")
    case True
    then obtain m where m: "mem s (chatID, logID) = Some m" "?old = m"
      by (auto simp: mutationOf_mem split: option.splits)
    have t: "mutationTarget (m\<lparr>mu_Replacement := Some raw\<rparr>) = (chatID, logID)"
      using mem_valid [OF inv m(1)] by (simp add: mutationTarget_def)
    show ?thesis
      using w True m t keep ok wr [of "m\<lparr>mu_Replacement := Some raw\<rparr>"]
      by (auto simp: observeRow_def Let_def mle_def split: if_splits)
  next
    case False
    then show ?thesis
      using w keep ok wr
      by (auto simp: observeRow_def Let_def mle_def mutationOf_mem mutationTarget_def split: if_splits option.splits)
  qed
qed

lemma observeRecords_step:
  assumes "overlayInv B C s" "hs_failed s = None" "observeRecords B C chatID logs s = (err, s')"
  shows "mstep B C s s' \<and> (err = None \<longrightarrow> hs_failed s' = None)"
  using assms
proof (induction logs arbitrary: s)
  case Nil
  then show ?case by (auto simp: mstep_refl)
next
  case (Cons raw logs)
  show ?case
  proof (cases "DecodeChatLog B C chatID raw")
    case (Inl e)
    then show ?thesis using Cons.prems by (auto simp: mstep_refl)
  next
    case (Inr event)
    obtain e1 s1 where o: "observe B C event None s = (e1, s1)" by (cases "observe B C event None s") auto
    note s1 = observe_step [OF Cons.prems(1,2) o]
    show ?thesis
    proof (cases "e1 = None \<and> is_ok (LogID B raw)")
      case False
      then show ?thesis using Cons.prems Inr o s1 by (auto simp: is_ok_def split: option.splits sum.splits)
    next
      case True
      then obtain n where n: "LogID B raw = Inr n" by (auto simp: is_ok_def split: sum.splits)
      obtain e2 s2 where r: "observeRow B C chatID n raw s1 = (e2, s2)"
        by (cases "observeRow B C chatID n raw s1") auto
      have inv1: "overlayInv B C s1" "hs_failed s1 = None" using s1 True by (auto simp: mstep_def)
      note s2 = observeRow_step [OF inv1 r]
      show ?thesis
      proof (cases e2)
        case (Some e)
        then show ?thesis using Cons.prems Inr o r n True s1 s2 mstep_trans by (auto split: option.splits)
      next
        case None
        have rec: "observeRecords B C chatID logs s2 = (err, s')"
          using Cons.prems(3) Inr o r n True None by simp
        have "overlayInv B C s2" "hs_failed s2 = None" using s2 None by (auto simp: mstep_def)
        from Cons.IH [OF this rec] s1 s2 show ?thesis using mstep_trans by blast
      qed
    qed
  qed
qed

subsection \<open>Operations\<close>

text \<open>The operations that change the store, with the answers of the operating system and the clock.\<close>

datatype 'r hist_op =
    OpSave gotime "Request \<Rightarrow> go_error option" Request "'r Response"
  | OpPacket "'r packet" "'r event"
  | OpRecords int64 "'r list"
  | OpBulk "(int64 \<times> int64) list"
  | OpLookup gotime "interval \<Rightarrow> go_error option" Request
  | OpWindow gotime "interval \<Rightarrow> go_error option" "interval \<Rightarrow> go_error option" StoredHistoryRequest

fun histExec :: "'r bson \<Rightarrow> 'r content \<Rightarrow> 'r hist_op \<Rightarrow> 'r historyStore \<Rightarrow> 'r historyStore" where
  "histExec B C (OpSave now removed req response) s = snd (save B C now removed req response s)"
| "histExec B C (OpPacket packet event) s = snd (observePacket B C packet event s)"
| "histExec B C (OpRecords chatID logs) s = snd (observeCurrentRecords B C chatID logs s)"
| "histExec B C (OpBulk cursors) s = snd (commitBulk cursors s)"
| "histExec B C (OpLookup now faults req) s = snd (lookup B C now faults req s)"
| "histExec B C (OpWindow now cancelled faults q) s = snd (window B C now cancelled faults q s)"

text \<open>What every operation keeps of the overlays.\<close>

definition keepsOverlays :: "'r bson \<Rightarrow> 'r content \<Rightarrow> 'r historyStore \<Rightarrow> 'r historyStore \<Rightarrow> bool" where
  "keepsOverlays B C s s' \<longleftrightarrow>
     overlayInv B C s' \<and> hs_binding s' = hs_binding s \<and> dk_header (hs_disk s') = dk_header (hs_disk s)
     \<and> (\<forall>t. mle (mem s t) (mem s' t)) \<and> (\<forall>t. mle (dsk s t) (dsk s' t))"

lemma keepsOverlays_refl: "overlayInv B C s \<Longrightarrow> keepsOverlays B C s s"
  by (simp add: keepsOverlays_def)

lemma keepsOverlays_trans: "keepsOverlays B C s s' \<Longrightarrow> keepsOverlays B C s' s'' \<Longrightarrow> keepsOverlays B C s s''"
  unfolding keepsOverlays_def by (metis mle_trans)

lemma mstep_keeps: "mstep B C s s' \<Longrightarrow> keepsOverlays B C s s'"
  by (simp add: mstep_def keepsOverlays_def)

text \<open>A change that leaves the overlays alone keeps them, whether or not it marks the store failed.\<close>

lemma keepsOverlays_same:
  assumes "overlayInv B C s" "hs_mutations s' = hs_mutations s" "hs_binding s' = hs_binding s"
    "dk_mutations (hs_disk s') = dk_mutations (hs_disk s)" "dk_header (hs_disk s') = dk_header (hs_disk s)"
    "hs_failed s' = None \<longrightarrow> hs_failed s = None"
  shows "keepsOverlays B C s s'"
proof -
  have "mem s' = mem s" "dsk s' = dsk s" using assms by (auto simp: mem_def dsk_def)
  then show ?thesis using assms by (auto simp: keepsOverlays_def overlayInv_def)
qed

lemma expireLoop_same:
  assumes "expireLoop now removed entries s = (err, s')"
  shows "hs_mutations s' = hs_mutations s \<and> hs_binding s' = hs_binding s
    \<and> dk_mutations (hs_disk s') = dk_mutations (hs_disk s) \<and> dk_header (hs_disk s') = dk_header (hs_disk s)
    \<and> dk_pages (hs_disk s') = dk_pages (hs_disk s) \<and> hs_pages s' = hs_pages s
    \<and> hs_bulkCursors s' = hs_bulkCursors s \<and> dk_bulk (hs_disk s') = dk_bulk (hs_disk s)
    \<and> (hs_failed s' = None \<longrightarrow> hs_failed s = None)"
  using assms
proof (induction now removed entries s arbitrary: err s' rule: expireLoop.induct)
  case (2 now removed old r rest s)
  show ?case
  proof (cases "now < hu_RetryAfter (ur_Observation r)")
    case True
    with "2.prems" have "expireLoop now removed rest s = (err, s')" by simp
    from "2.IH"(2) [OF _ this] True show ?thesis by simp
  next
    case expired: False
    show ?thesis
    proof (cases "removed old")
      case (Some e)
      with expired "2.prems" have "s' = poison e s" by auto
      then show ?thesis by simp
    next
      case None
      from "2.IH"(1) [OF expired None] "2.prems" expired None show ?thesis by simp
    qed
  qed
qed simp

lemma saveUnavailable_cases:
  assumes "saveUnavailable B now removed req response s = (err, s')"
  obtains "s' = s" | e1 s1 where "expireLoop now removed (hs_unavailable s) s = (e1, s1)" "s' = s1"
  | s1 r f e where "expireLoop now removed (hs_unavailable s) s = (None, s1)"
      "s' = poison e (putUnavailable (historyPageName req) f s1)
       \<or> s' = setUnavailable req r (putUnavailable (historyPageName req) f s1)"
  using assms
  by (auto simp: saveUnavailable_def Let_def split: sum.splits if_splits option.splits prod.splits)

lemma saveUnavailable_keeps:
  assumes inv: "overlayInv B C s" and w: "saveUnavailable B now removed req response s = (err, s')"
  shows "keepsOverlays B C s s'"
  using w
proof (cases rule: saveUnavailable_cases)
  case 1
  then show ?thesis using inv by (simp add: keepsOverlays_refl)
next
  case (2 e1 s1)
  with expireLoop_same [OF 2(1)] show ?thesis by (intro keepsOverlays_same [OF inv]) simp_all
next
  case (3 s1 r f e)
  with expireLoop_same [OF 3(1)] show ?thesis by (intro keepsOverlays_same [OF inv]) auto
qed

lemma unavailableLocked_keeps:
  assumes "overlayInv B C s" "unavailableLocked B now faults req s = (r, s')"
  shows "keepsOverlays B C s s'"
  using assms
  by (auto simp: unavailableLocked_def Let_def keepsOverlays_refl
      intro!: keepsOverlays_same split: if_splits sum.splits option.splits)

lemma save_keeps:
  assumes inv: "overlayInv B C s" and w: "save B C now removed req response s = (err, s')"
  shows "keepsOverlays B C s s'"
proof (cases "rs_ChatLogs response = [] \<and> rs_MinLogID response > rq_Max req")
  case True
  then show ?thesis using w saveUnavailable_keeps [OF inv] by (simp add: save_def)
next
  case False
  define sel where "sel = \<lparr>rs_ChatLogs = filter (\<lambda>raw. case LogID B raw of
      Inr n \<Rightarrow> rq_Cur req < n \<and> n \<le> rq_Max req | Inl _ \<Rightarrow> False) (rs_ChatLogs response),
    rs_MinLogID = rs_MinLogID response, rs_IsOK = False\<rparr>"
  note w' = w [unfolded save_def if_not_P [OF False] Let_def, folded sel_def]
  show ?thesis
  proof (cases "validateAcquiredPage B C req response")
    case (Inl e)
    then show ?thesis using w' inv by (auto simp: keepsOverlays_refl)
  next
    case (Inr lastID)
    obtain e1 s1 where o: "observeRecords B C (rq_ChatID req) (rs_ChatLogs sel) s = (e1, s1)" by force
    show ?thesis
    proof (cases "hs_failed s")
      case (Some e)
      then show ?thesis using w' Inr inv by (auto simp: keepsOverlays_refl)
    next
      case None
      note s1 = observeRecords_step [OF inv None o]
      have "keepsOverlays B C s1 s'"
        using w' Inr None o s1
        by (auto simp: mstep_def intro!: keepsOverlays_same split: option.splits prod.splits)
      with s1 show ?thesis using mstep_keeps keepsOverlays_trans by blast
    qed
  qed
qed

lemma observeCurrentRecords_keeps:
  assumes inv: "overlayInv B C s" and w: "observeCurrentRecords B C chatID logs s = (err, s')"
  shows "keepsOverlays B C s s'"
proof (cases "hs_failed s")
  case (Some e)
  then show ?thesis using w inv by (auto simp: observeCurrentRecords_def keepsOverlays_refl)
next
  case None
  obtain e1 s1 where o: "observeRecords B C chatID logs s = (e1, s1)" by force
  note s1 = observeRecords_step [OF inv None o]
  have "keepsOverlays B C s1 s'"
    using w None o s1
    by (auto simp: observeCurrentRecords_def mstep_def intro!: keepsOverlays_same split: option.splits)
  with s1 show ?thesis using mstep_keeps keepsOverlays_trans by blast
qed

lemma observePacket_keeps:
  assumes inv: "overlayInv B C s" and w: "observePacket B C packet event s = (err, s')"
  shows "keepsOverlays B C s s'"
proof (cases "hs_failed s")
  case (Some e)
  then show ?thesis using w inv by (auto simp: observePacket_def Let_def keepsOverlays_refl)
next
  case None
  with w obtain replacement where "observe B C event replacement s = (err, s')"
    by (auto simp: observePacket_def Let_def)
  from observe_step [OF inv None this] show ?thesis using mstep_keeps by blast
qed

lemma commitBulk_keeps:
  assumes "overlayInv B C s" "commitBulk cursors s = (err, s')"
  shows "keepsOverlays B C s s'"
  using assms
  by (auto simp: commitBulk_def keepsOverlays_refl
      intro!: keepsOverlays_same split: option.splits prod.splits)

lemma lookup_keeps:
  assumes inv: "overlayInv B C s" and w: "lookup B C now faults req s = (r, s')"
  shows "keepsOverlays B C s s'"
proof -
  obtain r1 s1 where u: "unavailableLocked B now faults req s = (r1, s1)" by force
  show ?thesis
    using w u unavailableLocked_keeps [OF inv u] inv
    by (auto simp: lookup_def Let_def keepsOverlays_refl
        intro!: keepsOverlays_same split: option.splits if_splits sum.splits prod.splits)
qed

lemma window_keeps:
  assumes inv: "overlayInv B C s" and w: "window B C now cancelled faults q s = (r, s')"
  shows "keepsOverlays B C s s'"
proof -
  obtain r1 s1 where u: "unavailableLocked B now faults (windowRequest q) s = (r1, s1)" by force
  show ?thesis
    using w u unavailableLocked_keeps [OF inv u] inv
    by (auto simp: window_def Let_def keepsOverlays_refl
        intro!: keepsOverlays_same split: option.splits if_splits sum.splits prod.splits)
qed

lemma histExec_keeps:
  assumes "overlayInv B C s"
  shows "keepsOverlays B C s (histExec B C op s)"
  using assms
  by (cases op) (simp_all, (metis save_keeps observePacket_keeps observeCurrentRecords_keeps commitBulk_keeps
        lookup_keeps window_keeps prod.collapse)+)

subsection \<open>Reopening\<close>

lemma openUnavailable_same:
  assumes "openUnavailable B env name s = Inr s'"
  shows "hs_mutations s' = hs_mutations s" "hs_binding s' = hs_binding s" "hs_failed s' = hs_failed s"
    "dk_mutations (hs_disk s') = dk_mutations (hs_disk s)" "hs_pages s' = hs_pages s"
    "dk_pages (hs_disk s') = dk_pages (hs_disk s)"
  using assms
  by (auto simp: openUnavailable_def split: sum.splits option.splits if_splits)

lemma openBulk_same:
  assumes "openBulk env s = Inr s'"
  shows "hs_mutations s' = hs_mutations s" "hs_binding s' = hs_binding s" "hs_failed s' = hs_failed s"
    "hs_disk s' = hs_disk s" "hs_pages s' = hs_pages s"
proof -
  have "hs_disk (setBulk c s) = hs_disk s" for c by (simp add: setBulk_def)
  then show "hs_mutations s' = hs_mutations s" "hs_binding s' = hs_binding s" "hs_failed s' = hs_failed s"
    "hs_disk s' = hs_disk s" "hs_pages s' = hs_pages s"
    using assms by (auto simp: openBulk_def split: sum.splits option.splits if_splits)
qed

lemma openPage_same:
  assumes "openPage B C env name s cursors = Inr (s', cursors')"
  shows "hs_mutations s' = hs_mutations s" "hs_binding s' = hs_binding s" "hs_failed s' = hs_failed s"
    "dk_mutations (hs_disk s') = dk_mutations (hs_disk s)" "dk_pages (hs_disk s') = dk_pages (hs_disk s)"
  using assms by (auto simp: openPage_def Let_def split: sum.splits option.splits if_splits)

lemma openTarget_Inr:
  assumes "openTarget B C env name s = Inr s'"
  shows "\<exists>m. dsk s name = Some m \<and> mem s' = (mem s)(name := Some m)" "hs_binding s' = hs_binding s"
    "hs_failed s' = hs_failed s" "dsk s' = dsk s" "hs_pages s' = hs_pages s"
    "dk_pages (hs_disk s') = dk_pages (hs_disk s)"
  using assms
  by (auto simp: openTarget_def readFile_def mem_def [abs_def] dsk_def [abs_def] fun_eq_iff
      split: sum.splits option.splits if_splits)

lemma openEntries_overlays:
  assumes "openEntries B C env entries s cursors = Inr (s', cursors')"
  shows "hs_binding s' = hs_binding s \<and> hs_failed s' = hs_failed s \<and> dsk s' = dsk s
    \<and> mem s' = (\<lambda>t. if NTarget t \<in> set entries then dsk s t else mem s t)"
  using assms
proof (induction B C env entries s cursors rule: openEntries.induct)
  case (4 B C env name rest s cursors)
  from "4.prems" obtain s1 where s1: "openUnavailable B env name s = Inr s1" "openEntries B C env rest s1 cursors = Inr (s', cursors')"
    by (auto split: sum.splits)
  from openUnavailable_same [OF s1(1)] have "mem s1 = mem s" "dsk s1 = dsk s" by (simp_all add: mem_def [abs_def] dsk_def [abs_def])
  with "4.IH" [OF s1] openUnavailable_same [OF s1(1)] show ?case by auto
next
  case (5 B C env rest s cursors)
  from "5.prems" obtain s1 where s1: "openBulk env s = Inr s1" "openEntries B C env rest s1 cursors = Inr (s', cursors')"
    by (auto split: sum.splits)
  from openBulk_same [OF s1(1)] have "mem s1 = mem s" "dsk s1 = dsk s" by (simp_all add: mem_def [abs_def] dsk_def [abs_def])
  with "5.IH" [OF s1] openBulk_same [OF s1(1)] show ?case by auto
next
  case (6 B C env name rest s cursors)
  from "6.prems" obtain s1 c1 where s1: "openPage B C env name s cursors = Inr (s1, c1)"
    "openEntries B C env rest s1 c1 = Inr (s', cursors')"
    by (auto split: sum.splits)
  from openPage_same [OF s1(1)] have "mem s1 = mem s" "dsk s1 = dsk s" by (simp_all add: mem_def [abs_def] dsk_def [abs_def])
  with "6.IH" [OF s1(1) refl s1(2)] openPage_same [OF s1(1)] show ?case by auto
next
  case (7 B C env name rest s cursors)
  from "7.prems" obtain s1 where s1: "openTarget B C env name s = Inr s1" "openEntries B C env rest s1 cursors = Inr (s', cursors')"
    by (auto split: sum.splits)
  from openTarget_Inr [OF s1(1)] "7.IH" [OF s1] show ?case by (auto simp: fun_eq_iff)
qed simp_all

lemma openEntries_distinct:
  assumes "openEntries B C env entries s cursors = Inr (s', cursors')" "distinct (map fst (hs_mutations s))"
  shows "distinct (map fst (hs_mutations s'))"
  using assms
proof (induction B C env entries s cursors rule: openEntries.induct)
  case (4 B C env name rest s cursors)
  from "4.prems"(1) obtain s1 where s1: "openUnavailable B env name s = Inr s1" "openEntries B C env rest s1 cursors = Inr (s', cursors')"
    by (auto split: sum.splits)
  with "4.IH" [OF s1] "4.prems"(2) openUnavailable_same [OF s1(1)] show ?case by simp
next
  case (5 B C env rest s cursors)
  from "5.prems"(1) obtain s1 where s1: "openBulk env s = Inr s1" "openEntries B C env rest s1 cursors = Inr (s', cursors')"
    by (auto split: sum.splits)
  with "5.IH" [OF s1] "5.prems"(2) openBulk_same [OF s1(1)] show ?case by simp
next
  case (6 B C env name rest s cursors)
  from "6.prems"(1) obtain s1 c1 where s1: "openPage B C env name s cursors = Inr (s1, c1)"
    "openEntries B C env rest s1 c1 = Inr (s', cursors')"
    by (auto split: sum.splits)
  with "6.IH" [OF s1(1) refl s1(2)] "6.prems"(2) openPage_same [OF s1(1)] show ?case by simp
next
  case (7 B C env name rest s cursors)
  from "7.prems"(1) obtain s1 where s1: "openTarget B C env name s = Inr s1" "openEntries B C env rest s1 cursors = Inr (s', cursors')"
    by (auto split: sum.splits)
  have "distinct (map fst (hs_mutations s1))"
    using s1(1) "7.prems"(2) by (auto simp: openTarget_def distinct_update split: sum.splits option.splits if_splits)
  with "7.IH" [OF s1] show ?case by simp
qed simp_all

lemma openHistoryStore_Inr:
  assumes "openHistoryStore B C env accountID deviceID binding answers dk = Inr s"
  obtains entries dk1 cursors where "ho_entries env = Some entries"
    "openEntries B C env entries (emptyStore binding dk1 answers) [] = Inr (s, cursors)"
    "dk1 = dk \<or> (\<exists>h. dk1 = dk\<lparr>dk_header := h\<rparr>)"
  using assms
  by (auto simp: openHistoryStore_def Let_def split: if_splits option.splits sum.splits prod.splits)

text \<open>The listing names every overlay file of the directory.\<close>

definition listsTargets :: "history_open_env \<Rightarrow> 'r historyDisk \<Rightarrow> bool" where
  "listsTargets env dk \<longleftrightarrow>
     (\<forall>entries t. ho_entries env = Some entries \<and> dk_mutations dk t \<noteq> None \<longrightarrow> NTarget t \<in> set entries)"

lemma reopen_overlays:
  assumes inv: "overlayInv B C s" and lists: "listsTargets env (hs_disk s)"
    and o: "openHistoryStore B C env accountID deviceID (hs_binding s) answers (hs_disk s) = Inr s'"
  shows "overlayInv B C s'" "hs_binding s' = hs_binding s" "dsk s' = dsk s" "mem s' = dsk s" "hs_failed s' = None"
proof -
  from o obtain entries dk1 cursors where e: "ho_entries env = Some entries"
    "openEntries B C env entries (emptyStore (hs_binding s) dk1 answers) [] = Inr (s', cursors)"
    and dk1: "dk1 = hs_disk s \<or> (\<exists>h. dk1 = (hs_disk s)\<lparr>dk_header := h\<rparr>)"
    by (rule openHistoryStore_Inr)
  have dsk0: "dsk (emptyStore (hs_binding s) dk1 answers) = dsk s"
    using dk1 by (auto simp: dsk_def emptyStore_def)
  have mem0: "mem (emptyStore (hs_binding s) dk1 answers) = (\<lambda>_. None)"
    by (simp add: mem_def [abs_def] emptyStore_def)
  note oe = openEntries_overlays [OF e(2)]
  show b: "hs_binding s' = hs_binding s" and d: "dsk s' = dsk s" and f: "hs_failed s' = None"
    using oe dsk0 by (simp_all add: emptyStore_def)
  show m: "mem s' = dsk s"
  proof
    fix t
    have "NTarget t \<in> set entries" if "dsk s t \<noteq> None"
      using lists e(1) that by (cases t) (auto simp: listsTargets_def dsk_def)
    then show "mem s' t = dsk s t" using oe dsk0 mem0 by (cases "dsk s t") auto
  qed
  have "distinct (map fst (hs_mutations s'))"
    by (rule openEntries_distinct [OF e(2)]) (simp add: emptyStore_def)
  then show "overlayInv B C s'"
    using inv b d m f unfolding overlayInv_def by (metis mle_refl)
qed

text \<open>
  The states of a store over the life of its directory: operations in any order, with any
  failures, and restarts that reopen what is on disk.
\<close>

inductive histReach :: "'r bson \<Rightarrow> 'r content \<Rightarrow> 'r historyStore \<Rightarrow> 'r historyStore \<Rightarrow> bool"
  for B C s0 where
  start: "histReach B C s0 s0"
| step: "histReach B C s0 s \<Longrightarrow> histReach B C s0 (histExec B C op s)"
| reopen: "histReach B C s0 s \<Longrightarrow> listsTargets env (hs_disk s) \<Longrightarrow>
    openHistoryStore B C env accountID deviceID (hs_binding s) answers (hs_disk s) = Inr s' \<Longrightarrow>
    histReach B C s0 s'"

lemma histReach_overlays:
  assumes "histReach B C s0 s" "overlayInv B C s0"
  shows "overlayInv B C s \<and> hs_binding s = hs_binding s0 \<and> (\<forall>t. mle (dsk s0 t) (dsk s t))"
  using assms
proof (induction rule: histReach.induct)
  case (step s op)
  then have "keepsOverlays B C s (histExec B C op s)" using histExec_keeps by blast
  with step show ?case unfolding keepsOverlays_def by (metis mle_trans)
next
  case (reopen s env accountID deviceID answers s')
  with reopen_overlays [of B C s env accountID deviceID answers s'] show ?case by metis
qed simp

text \<open>
  C3: Once the store has recorded that a message was deleted for everyone, it stays deleted: after any
  sequence of saved pages, observed packets, fetched records, bulk commits and reads, with
  any write failing at any point, and across any number of restarts, the message's overlay on disk (and
  in memory while the store is healthy) is still marked deleted, and its revision never goes down.
\<close>

theorem deletion_is_permanent:
  assumes "overlayInv B C s0" and "histReach B C s0 s"
    and "map_of (hs_mutations s0) target = Some m"
  shows "\<exists>m'. dk_mutations (hs_disk s) target = Some m' \<and> (mu_Deleted m \<longrightarrow> mu_Deleted m')
      \<and> mu_Revision m \<le> mu_Revision m'
      \<and> (hs_failed s = None \<longrightarrow> map_of (hs_mutations s) target = Some m')"
proof -
  note r = histReach_overlays [OF assms(2,1)]
  have "mle (Some m) (dsk s0 target)"
    using assms(1,3) unfolding overlayInv_def by (metis mem_def)
  then have "mle (Some m) (dsk s target)" using r mle_trans by blast
  then obtain m' where m': "dsk s target = Some m'" "mu_Deleted m \<longrightarrow> mu_Deleted m'" "mu_Revision m \<le> mu_Revision m'"
    by (auto simp: mle_Some)
  have "hs_failed s = None \<longrightarrow> mem s target = Some m'"
    using r m'(1) unfolding overlayInv_def by simp
  with m' show ?thesis by (auto simp: mem_def dsk_def)
qed

definition deletedNote :: "doc historyMutation" where
  "deletedNote = \<lparr>mu_Version = 1, mu_Binding = ''dev'', mu_ChatID = 5, mu_TargetID = 9, mu_Sequence = 12,
     mu_Revision = 2, mu_Deleted = True, mu_Acquired = False, mu_Replacement = None\<rparr>"

definition emptyDisk :: "'r historyDisk" where
  "emptyDisk = \<lparr>dk_header = None, dk_pages = (\<lambda>_. None), dk_mutations = (\<lambda>_. None), dk_bulk = None,
     dk_unavailable = (\<lambda>_. None)\<rparr>"

definition deletedStore :: "doc historyStore" where
  "deletedStore = (emptyStore ''dev'' (emptyDisk\<lparr>dk_mutations := (\<lambda>_. None)((5, 9) := Some deletedNote)\<rparr>) [])
     \<lparr>hs_mutations := [((5, 9), deletedNote)]\<rparr>"

lemma deletedStore_inv: "overlayInv docBson plainContent deletedStore"
  by (auto simp: overlayInv_def deletedStore_def mem_def dsk_def emptyStore_def emptyDisk_def
      validateMutation_def deletedNote_def mutationTarget_def fun_eq_iff split: if_splits)

theorem deletion_is_permanent_witness:
  "\<exists>m'. dk_mutations (hs_disk (histExec docBson plainContent
        (OpPacket samplePhoto (MessageEdited 5 20 3 0 9 7 None)) deletedStore)) (5, 9) = Some m' \<and> mu_Deleted m'"
proof -
  have "histReach docBson plainContent deletedStore (histExec docBson plainContent
      (OpPacket samplePhoto (MessageEdited 5 20 3 0 9 7 None)) deletedStore)"
    by (intro histReach.intros)
  moreover have "map_of (hs_mutations deletedStore) (5, 9) = Some deletedNote" by (simp add: deletedStore_def)
  ultimately show ?thesis
    using deletion_is_permanent [OF deletedStore_inv] by (fastforce simp: deletedNote_def)
qed

subsection \<open>Deleted content is not projected\<close>

text \<open>
  What the driver promises for a document that is unmarshalled into its elements: a lookup
  finds the first element of that key, and marshalling elements yields a document of them.
\<close>

definition elements_lawful :: "'r bson \<Rightarrow> bool" where
  "elements_lawful B \<longleftrightarrow>
     (\<forall>raw els. bs_Elements B raw = Some els \<longrightarrow> bs_LookupErr B raw = map_of els)
     \<and> (\<forall>els d. bs_MarshalRaw B els = Some d \<longrightarrow> bs_LookupErr B d = map_of els)"

lemma docBson_elements: "elements_lawful docBson"
  by (auto simp: elements_lawful_def fun_eq_iff)

text \<open>No message type with the deleted flag has a content decoder.\<close>

definition flagUndecoded :: "'r content \<Rightarrow> bool" where
  "flagUndecoded C \<longleftrightarrow> (\<forall>t. t AND DeletedAllChatTypeFlag \<noteq> 0 \<longrightarrow> ct_decoders C t = None)"

fun withheld :: "'r event \<Rightarrow> bool" where
  "withheld (DeletedMessage _ _ _ _ _) = True"
| "withheld (UnsupportedMessage _ _ _ _ _) = True"
| "withheld (MessageGap _ _ _ _ _ _) = True"
| "withheld _ = False"

lemma or_and_self: "(a OR b) AND b = (b :: int)"
  by (rule bit_eqI) (auto simp: bit_or_iff bit_and_iff)

lemma decodeMessage_flagged:
  assumes "flagUndecoded C" "decodeMessage B C body = Inr ev" "DecodeIdentity B body = Inr env"
    "Int64 B chatlog_fields (ev_Log env) [''type''] = Inr (Some (a OR DeletedAllChatTypeFlag))"
  shows "withheld ev"
proof -
  let ?t = "a OR DeletedAllChatTypeFlag"
  have flag: "?t AND DeletedAllChatTypeFlag = DeletedAllChatTypeFlag" by (rule or_and_self)
  then have ne: "?t \<noteq> Feed" "?t \<noteq> Text" "?t AND DeletedAllChatTypeFlag \<noteq> 0"
    by (auto simp: Feed_def Text_def DeletedAllChatTypeFlag_def)
  then have "ct_decoders C ?t = None" using assms(1) by (simp add: flagUndecoded_def)
  then show ?thesis
    using assms(2-4) ne
    by (auto simp: decodeMessage_def chatlog_Decode_def Let_def split: if_splits)
qed

lemma map_of_retype:
  "map_of (map (\<lambda>(k, v). (k, if k = key then w else v)) els) k' =
     (if k' = key then (case map_of els key of None \<Rightarrow> None | Some _ \<Rightarrow> Some w) else map_of els k')"
  by (induction els) (auto split: option.splits)

lemma markDeleted_lookup:
  assumes "elements_lawful B" "markDeleted B raw = Inr d"
  shows "\<exists>a. bs_LookupErr B d ''type'' = Some (VInt32 (a OR DeletedAllChatTypeFlag))"
    and "k \<noteq> ''type'' \<Longrightarrow> bs_LookupErr B d k = bs_LookupErr B raw k"
proof -
  from assms(2) obtain doc where doc: "bs_Elements B raw = Some doc"
    by (auto simp: markDeleted_def split: option.splits)
  let ?flagged = "VInt32 (wrap32 (Int64OrZero B raw [''type'']) OR DeletedAllChatTypeFlag)"
  define doc' where "doc' = (if list_ex (\<lambda>e. fst e = ''type'') doc
      then map (\<lambda>(k, v). (k, if k = ''type'' then ?flagged else v)) doc
      else doc @ [(''type'', VInt32 DeletedAllChatTypeFlag)])"
  have "bs_MarshalRaw B doc' = Some d"
    using assms(2) doc by (auto simp: markDeleted_def doc'_def Let_def split: option.splits)
  then have d: "bs_LookupErr B d = map_of doc'" and r: "bs_LookupErr B raw = map_of doc"
    using assms(1) doc by (auto simp: elements_lawful_def)
  have no: "map_of doc ''type'' = None" if "\<not> list_ex (\<lambda>e. fst e = ''type'') doc"
    using that by (auto simp: map_of_eq_None_iff list_ex_iff)
  have yes: "map_of doc ''type'' \<noteq> None" if "list_ex (\<lambda>e. fst e = ''type'') doc"
    using that unfolding map_of_eq_None_iff list_ex_iff by (metis image_eqI)
  show "\<exists>a. bs_LookupErr B d ''type'' = Some (VInt32 (a OR DeletedAllChatTypeFlag))"
  proof (cases "list_ex (\<lambda>e. fst e = ''type'') doc")
    case True
    then show ?thesis using yes unfolding d doc'_def by (auto simp: map_of_retype)
  next
    case False
    then show ?thesis using no unfolding d doc'_def by (auto simp: map_add_def intro: exI [of _ 0])
  qed
  assume "k \<noteq> ''type''"
  then show "bs_LookupErr B d k = bs_LookupErr B raw k"
    unfolding d r doc'_def by (auto simp: map_of_retype map_add_def split: option.splits)
qed

lemma DecodeChatLog_flagged:
  fixes B :: "'r bson"
  assumes "marshal_lawful B" "flagUndecoded C" "DecodeChatLog B C chatID d = Inr ev"
    "bs_LookupErr B d ''type'' = Some (VInt32 (a OR DeletedAllChatTypeFlag))"
  shows "withheld ev"
proof -
  let ?kvs = "[(''chatId'', FInt64 chatID), (''chatLog'', FDoc d)] :: (string \<times> 'r field) list"
  have keys: "distinct (map fst ?kvs)" by simp
  obtain body where body: "bs_Marshal B ?kvs = Some body" by (rule marshal_succeeds [OF assms(1) keys])
  have logDoc: "bs_LookupErr B body ''chatLog'' = Some (VDoc d)"
    using marshalled_field [OF assms(1) keys body, of "''chatLog''"] by (auto simp: encodes_def)
  have dec: "DecodeForDelivery B C \<lparr>ep_Method = ''MSG'', ep_Body = body\<rparr> = Inr ev"
    using assms(3) body by (auto simp: DecodeChatLog_def chatLogPacket_def split: if_splits)
  have "withheld ev \<or> decodeMessage B C body = Inr ev"
    using dec by (auto simp: DecodeForDelivery_def Let_def Decode_def split: sum.splits if_splits)
  moreover have "withheld ev" if m: "decodeMessage B C body = Inr ev"
  proof -
    from decodeMessage_position [OF m] obtain env where env: "DecodeIdentity B body = Inr env"
      by (auto simp: atEnvelope_def)
    have "ev_Log env = d" using DecodeIdentity_Inr(1) [OF env] logDoc by simp
    then have "Int64 B chatlog_fields (ev_Log env) [''type''] = Inr (Some (a OR DeletedAllChatTypeFlag))"
      using assms(4) by (simp add: Int64_Some_iff)
    with decodeMessage_flagged [OF assms(2) m env] show ?thesis by blast
  qed
  ultimately show ?thesis by blast
qed

text \<open>
  C4: The content of a message that was deleted for everyone is never handed out by the
  projection. If the store knows the deletion, projecting any event of that message either fails or
  yields a deletion marker, an unsupported-type marker or a gap, at the same position; whatever
  snapshot of the message is stored.
\<close>

theorem deleted_content_withheld:
  assumes "marshal_lawful B" and "elements_lawful B" and "flagUndecoded C"
    and "overlayInv B C s" and "map_of (hs_mutations s) (chat, n) = Some m" and "mu_Deleted m"
    and "MessagePosition event = Some (chat, n)" and "project B C s event = Inr event'"
  shows "withheld event' \<and> MessagePosition event' = Some (chat, n)"
proof (cases "mu_Replacement m")
  case None
  then show ?thesis
    using assms(5-8) by (auto simp: project_def split: option.splits event.splits)
next
  case (Some replacement)
  have valid: "validateMutation B C (hs_binding s) m" "mutationTarget m = (chat, n)"
    using assms(4,5) unfolding overlayInv_def by (auto simp: mem_def)
  then obtain ev0 where ev0: "DecodeChatLog B C chat replacement = Inr ev0" "MessagePosition ev0 = Some (chat, n)"
    using Some by (auto simp: validateMutation_def mutationTarget_def split: sum.splits)
  have id: "LogID B replacement = Inr n"
    using DecodeChatLog_at [OF assms(1) ev0(1)] ev0(2) by auto
  obtain d where d: "markDeleted B replacement = Inr d" "DecodeChatLog B C chat d = Inr event'"
    using assms(5-8) Some id by (auto simp: project_def apply_mutation_def split: option.splits sum.splits)
  have "LogID B d = Inr n"
    using id markDeleted_lookup(2) [OF assms(2) d(1), of "''logId''"]
    by (auto simp: LogID_Inr Int64_Some_iff)
  then show ?thesis
    using DecodeChatLog_at [OF assms(1) d(2)] markDeleted_lookup(1) [OF assms(2) d(1)]
      DecodeChatLog_flagged [OF assms(1,3) d(2)] by auto
qed

lemma plainContent_flag: "flagUndecoded plainContent"
  by (auto simp: flagUndecoded_def plainContent_def DeletedAllChatTypeFlag_def)

theorem deleted_content_withheld_witness:
  "\<exists>event'. project docBson plainContent deletedStore (TextMessage 5 9 3 40 ''secret'' 0) = Inr event'
    \<and> withheld event' \<and> MessagePosition event' = Some (5, 9)"
proof -
  have known: "map_of (hs_mutations deletedStore) (5, 9) = Some deletedNote" "mu_Deleted deletedNote"
    by (simp_all add: deletedStore_def deletedNote_def)
  obtain event' where "project docBson plainContent deletedStore (TextMessage 5 9 3 40 ''secret'' 0) = Inr event'"
    by (simp add: project_def deletedStore_def emptyStore_def deletedNote_def)
  with deleted_content_withheld [OF docBson_lawful docBson_elements plainContent_flag deletedStore_inv known, of _ event']
  show ?thesis by force
qed

end
