(* ===== verification/History_Window.thy ===== *)
theory History_Window
  imports History_Safety
begin

text \<open>
  What readers get out of the acquired-history store: \<open>lookup\<close> answers a catch-up request and
  \<open>window\<close> a stored-history request only with rows of the requested interval, in
  strictly ascending order, and \<open>lookup\<close> never beyond connected coverage.
\<close>

subsection \<open>Rows\<close>

text \<open>Rows are keyed by their own log identity and lie where \<open>keep\<close> says.\<close>

definition rowsOK :: "'r bson \<Rightarrow> (int64 \<Rightarrow> bool) \<Rightarrow> (int64 \<times> 'r) list \<Rightarrow> bool" where
  "rowsOK B keep rows \<longleftrightarrow>
     distinct (map fst rows) \<and> (\<forall>n raw. map_of rows n = Some raw \<longrightarrow> LogID B raw = Inr n \<and> keep n)"

lemma rowsOK_Nil [simp]: "rowsOK B keep []"
  by (simp add: rowsOK_def)

lemma rowsOK_update:
  assumes "rowsOK B keep rows" "LogID B raw = Inr n" "keep n"
  shows "rowsOK B keep (AList.update n raw rows)"
  using assms by (auto simp: rowsOK_def distinct_update)

lemma rowsOK_the:
  assumes "rowsOK B keep rows" "n \<in> set (map fst rows)"
  shows "LogID B (the (map_of rows n)) = Inr n" "keep n"
proof -
  obtain raw where "map_of rows n = Some raw"
    using assms(2) by (metis list.set_map map_of_eq_None_iff not_None_eq)
  then show "LogID B (the (map_of rows n)) = Inr n" "keep n"
    using assms(1) by (auto simp: rowsOK_def)
qed

lemma addRows_OK:
  assumes "rowsOK B keep rows" "\<forall>raw\<in>set logs. \<exists>n. LogID B raw = Inr n"
  shows "rowsOK B keep (addRows B keep logs rows)"
  using assms
proof (induction logs arbitrary: rows)
  case (Cons raw logs)
  then obtain n where n: "LogID B raw = Inr n" by auto
  have "addRows B keep (raw # logs) rows = addRows B keep logs (if keep n then AList.update n raw rows else rows)"
    by (simp add: addRows_def n)
  with Cons n show ?case by (simp add: rowsOK_update)
qed (simp add: addRows_def)

lemma acquiredOrder_IDs:
  "acquiredOrder B p logs = None \<Longrightarrow> raw \<in> set logs \<Longrightarrow> \<exists>n. LogID B raw = Inr n"
  by (induction B p logs rule: acquiredOrder.induct) (auto split: if_splits sum.splits)

lemma readPage_IDs:
  assumes "readPage B C faults s name = Some page"
  shows "\<forall>raw\<in>set (rs_ChatLogs (ap_Response page)). \<exists>n. LogID B raw = Inr n"
  using assms acquiredOrder_IDs
  by (auto simp: readPage_def validateAcquiredPage_def split: sum.splits option.splits if_splits)

lemma lookupPages_OK:
  assumes "lookupPages B C faults s req end pages rows floor = Some (rows', floor')"
    "rowsOK B (\<lambda>n. rq_Cur req < n \<and> n \<le> end) rows"
  shows "rowsOK B (\<lambda>n. rq_Cur req < n \<and> n \<le> end) rows'"
  using assms
proof (induction B C faults s req "end" pages rows floor rule: lookupPages.induct)
  case (2 B C faults s req "end" name ref rest rows floor)
  show ?case
  proof (cases "readPage B C faults s name")
    case None
    then show ?thesis using 2 by (auto split: if_splits)
  next
    case (Some page)
    then show ?thesis
      using 2 addRows_OK [OF "2.prems"(2) readPage_IDs [OF Some]] by (auto split: if_splits)
  qed
qed simp

lemma windowPages_OK:
  assumes "windowPages B C cancelled faults s q pages rows = Inr rows'"
    "rowsOK B (\<lambda>n. sq_After q < n \<and> n \<le> sq_Through q \<and> (\<not> sq_ExcludeThrough q \<or> n \<noteq> sq_Through q)) rows"
  shows "rowsOK B (\<lambda>n. sq_After q < n \<and> n \<le> sq_Through q \<and> (\<not> sq_ExcludeThrough q \<or> n \<noteq> sq_Through q)) rows'"
  using assms
proof (induction B C cancelled faults s q pages rows rule: windowPages.induct)
  case (2 B C cancelled faults s q name ref rest rows)
  show ?case
  proof (cases "readPage B C faults s name")
    case None
    then show ?thesis using 2 by (auto split: if_splits option.splits)
  next
    case (Some page)
    then show ?thesis
      using 2 addRows_OK [OF "2.prems"(2) readPage_IDs [OF Some]] by (auto split: if_splits option.splits)
  qed
qed simp

subsection \<open>Projection keeps the identity\<close>

text \<open>Valid overlays: a stored replacement is a snapshot of its own target.\<close>

definition overlaysValid :: "'r bson \<Rightarrow> 'r content \<Rightarrow> 'r historyStore \<Rightarrow> bool" where
  "overlaysValid B C s \<longleftrightarrow> (\<forall>chat n m. map_of (hs_mutations s) (chat, n) = Some m \<longrightarrow>
     validateMutation B C (hs_binding s) m \<and> mutationTarget m = (chat, n))"

lemma overlayInv_valid: "overlayInv B C s \<Longrightarrow> overlaysValid B C s"
  unfolding overlayInv_def overlaysValid_def mem_def by blast

lemma replacement_LogID:
  assumes "marshal_lawful B" "overlaysValid B C s" "map_of (hs_mutations s) (chat, n) = Some m"
    "mu_Replacement m = Some r"
  shows "LogID B r = Inr n"
proof -
  have "validateMutation B C (hs_binding s) m" "mutationTarget m = (chat, n)"
    using assms(2,3) unfolding overlaysValid_def by blast+
  then obtain ev where "DecodeChatLog B C chat r = Inr ev" "MessagePosition ev = Some (chat, n)"
    using assms(4) by (auto simp: validateMutation_def mutationTarget_def split: sum.splits)
  with DecodeChatLog_at [OF assms(1)] show ?thesis by fastforce
qed

lemma apply_LogID:
  assumes "marshal_lawful B" "elements_lawful B" "overlaysValid B C s" "LogID B raw = Inr n"
    "apply_mutation B s raw chat = Inr raw'"
  shows "LogID B raw' = Inr n"
proof (cases "map_of (hs_mutations s) (chat, n)")
  case None
  then show ?thesis using assms(4,5) by (simp add: apply_mutation_def)
next
  case (Some m)
  show ?thesis
  proof (cases "mu_Deleted m")
    case True
    then have "markDeleted B raw = Inr raw'" using Some assms(4,5) by (simp add: apply_mutation_def)
    from markDeleted_lookup(2) [OF assms(2) this, of "''logId''"] assms(4) show ?thesis
      by (auto simp: LogID_Inr Int64_Some_iff)
  next
    case False
    then show ?thesis
      using Some assms(4,5) replacement_LogID [OF assms(1,3) Some]
      by (auto simp: apply_mutation_def split: option.splits)
  qed
qed

lemma overlay_OK:
  assumes "overlay s req end muts barrier rows = (barrier', rows')"
    "rowsOK B (\<lambda>n. rq_Cur req < n \<and> n \<le> end) rows"
    "\<And>chat n m r. ((chat, n), m) \<in> set muts \<Longrightarrow> mu_Replacement m = Some r \<Longrightarrow> LogID B r = Inr n"
  shows "rowsOK B (\<lambda>n. rq_Cur req < n \<and> n \<le> end) rows'"
  using assms
proof (induction s req "end" muts barrier rows rule: overlay.induct)
  case (2 s req "end" chat n m rest barrier rows)
  show ?case
  proof (cases "chat \<noteq> rq_ChatID req \<or> n \<le> rq_Cur req \<or> n > end")
    case True
    with 2 show ?thesis by auto
  next
    case False
    let ?rows = "case mu_Replacement m of Some r \<Rightarrow> AList.update n r rows | None \<Rightarrow> rows"
    have "rowsOK B (\<lambda>n. rq_Cur req < n \<and> n \<le> end) ?rows"
      using "2.prems"(2) "2.prems"(3) [of chat n m] False by (auto intro: rowsOK_update split: option.splits)
    with 2 False show ?thesis by auto
  qed
qed simp

lemma projectRows_IDs:
  assumes "marshal_lawful B" "elements_lawful B" "overlaysValid B C s" "rowsOK B keep rows"
    "set ids \<subseteq> set (map fst rows)" "projectRows B s chat barrier rows ids = Inr logs"
  shows "\<exists>pre post. ids = pre @ post \<and> list_all2 (\<lambda>d n. LogID B d = Inr n) logs pre"
  using assms(5,6)
proof (induction ids arbitrary: logs)
  case Nil
  then show ?case by simp
next
  case (Cons n ids)
  show ?case
  proof (cases "logs = []")
    case True
    then show ?thesis by - (rule exI [of _ "[]"], rule exI [of _ "n # ids"], simp)
  next
    case False
    with Cons.prems obtain d logs' where d: "apply_mutation B s (the (map_of rows n)) chat = Inr d"
      "projectRows B s chat barrier rows ids = Inr logs'" "logs = d # logs'"
      by (auto split: if_splits sum.splits)
    have "LogID B d = Inr n"
      using apply_LogID [OF assms(1-3) _ d(1)] rowsOK_the [OF assms(4)] Cons.prems(1) by simp
    moreover obtain pre post where "ids = pre @ post" "list_all2 (\<lambda>d n. LogID B d = Inr n) logs' pre"
      using Cons.IH [OF _ d(2)] Cons.prems(1) by auto
    ultimately show ?thesis using d(3)
      by - (rule exI [of _ "n # pre"], rule exI [of _ post], simp)
  qed
qed

lemma strict_sorted_sort: "distinct xs \<Longrightarrow> sorted_wrt (<) (sort xs)" for xs :: "int list"
  by (simp add: strict_sorted_iff)

text \<open>
  A cached answer to a catch-up request contains only rows of the requested interval that lie
  inside the connected coverage that starts at the request's cursor: their identities ascend
  strictly from above the cursor and end at or below the covered end. Cached rows beyond a gap are never
  returned, so a caller that advances to the last row cannot step over a missing message.
\<close>

theorem lookup_within_coverage:
  assumes "marshal_lawful B" and "elements_lawful B" and "overlayInv B C s"
    and "lookup B C now faults req s = (Inr (Some response), s')"
  shows "\<exists>ids. list_all2 (\<lambda>d n. LogID B d = Inr n) (rs_ChatLogs response) ids \<and> ids \<noteq> []
     \<and> sorted_wrt (<) (rq_Cur req # ids) \<and> (\<forall>n\<in>set ids. n \<le> coveredThroughLocked (pageRefs s) req)"
proof -
  define fin where "fin = coveredThroughLocked (pageRefs s) req"
  have valid: "overlaysValid B C s" using assms(3) by (rule overlayInv_valid)
  from assms(4) obtain rows0 floor barrier rows where
    r0: "lookupPages B C faults s req fin (hs_pages s) [] 0 = Some (rows0, floor)"
    and ov: "overlay s req fin (hs_mutations s) 0 rows0 = (barrier, rows)"
    and pr: "projectRows B s (rq_ChatID req) barrier rows (sort (map fst rows)) = Inr (rs_ChatLogs response)"
    and ne: "rs_ChatLogs response \<noteq> []"
    by (auto simp: lookup_def Let_def fin_def split: option.splits if_splits sum.splits prod.splits)
  have keyed: "LogID B r = Inr n" if "((chat, n), m) \<in> set (hs_mutations s)" "mu_Replacement m = Some r" for chat n m r
    using replacement_LogID [OF assms(1) valid _ that(2)] that(1) assms(3)
    by (simp add: overlayInv_def)
  have ok: "rowsOK B (\<lambda>n. rq_Cur req < n \<and> n \<le> fin) rows"
    by (rule overlay_OK [OF ov lookupPages_OK [OF r0 rowsOK_Nil] keyed])
  have "set (sort (map fst rows)) \<subseteq> set (map fst rows)" by simp
  from projectRows_IDs [OF assms(1,2) valid ok this pr] obtain pre post where
    pre: "sort (map fst rows) = pre @ post" "list_all2 (\<lambda>d n. LogID B d = Inr n) (rs_ChatLogs response) pre"
    by blast
  have "sorted_wrt (<) (sort (map fst rows))"
    using ok by (intro strict_sorted_sort) (simp add: rowsOK_def)
  then have "sorted_wrt (<) pre" using pre(1) by (simp add: sorted_wrt_append)
  moreover have "n \<in> set (map fst rows)" if "n \<in> set pre" for n
    using that pre(1) by (metis Un_iff set_append set_sort)
  then have "rq_Cur req < n \<and> n \<le> fin" if "n \<in> set pre" for n
    using rowsOK_the(2) [OF ok] that by blast
  moreover have "pre \<noteq> []" using pre(2) ne by auto
  ultimately show ?thesis using pre(2) by (intro exI [of _ pre]) (auto simp: fin_def)
qed

text \<open>A store that holds one page with two messages, and the message of a later page.\<close>

definition storedPage :: "int64 \<Rightarrow> int64 \<Rightarrow> doc acquiredPage" where
  "storedPage cur n = \<lparr>ap_Version = 1, ap_Binding = ''dev'',
     ap_Request = \<lparr>rq_ChatID = 5, rq_Cur = cur, rq_Max = n, rq_Count = 0\<rparr>,
     ap_Response = \<lparr>rs_ChatLogs = [sampleLog n], rs_MinLogID = 0, rs_IsOK = False\<rparr>\<rparr>"

definition pageRef :: "int64 \<Rightarrow> int64 \<Rightarrow> interval \<times> acquiredPageRef" where
  "pageRef cur n = ((5, cur, n), \<lparr>pr_request = \<lparr>rq_ChatID = 5, rq_Cur = cur, rq_Max = n, rq_Count = 0\<rparr>, pr_last = n\<rparr>)"

definition sampleStore :: "doc historyStore" where
  "sampleStore = (emptyStore ''dev'' (emptyDisk\<lparr>dk_pages := (\<lambda>_. None)((5, 4, 9) := Some (storedPage 4 9),
     (5, 20, 30) := Some (storedPage 20 30))\<rparr>) [])\<lparr>hs_pages := [pageRef 20 30, pageRef 4 9]\<rparr>"

lemma sampleStore_inv: "overlayInv docBson plainContent sampleStore"
  by (simp add: overlayInv_def sampleStore_def mem_def dsk_def emptyStore_def emptyDisk_def fun_eq_iff)

lemma sampleLog_LogID: "0 < n \<Longrightarrow> LogID docBson (sampleLog n) = Inr n"
  by (simp add: LogID_Inr Int64_Some_iff sampleLog_def)

lemma sampleLog_decodesAt:
  assumes "0 < n"
  shows "DecodeChatLog docBson plainContent 5 (sampleLog n) = Inr (TextMessage 5 n 0 0 ''hi'' 0)"
  using assms
  by (simp add: DecodeChatLog_def chatLogPacket_def DecodeForDelivery_def sampleLog_def plainContent_def
      messageDeliveryEnvelope_def DecodeIdentity_def positiveField_def Int64_def Int64OrZero_def
      duplicateKey_def maxInt32_def disagreesAt_def orZero_def hasAnyDuplicateExcept_def Decode_def
      decodeMessage_def chatlog_Decode_def Feed_def Text_def deletedFlagged_def
      DeletedAllChatTypeFlag_def decodeText_def String_def Let_def)

lemma storedPage_valid:
  assumes "0 \<le> cur" "cur < n"
  shows "validateAcquiredPage docBson plainContent (ap_Request (storedPage cur n)) (ap_Response (storedPage cur n)) = Inr n"
  using assms
  by (simp add: storedPage_def validateAcquiredPage_def Request_MarshalBSON_def marshal_def MaxPageSize_def
      sampleLog_LogID decodeHistoryPage_def sampleLog_decodesAt)

lemma sampleStore_reads:
  "readPage docBson plainContent (\<lambda>_. None) sampleStore (5, 4, 9) = Some (storedPage 4 9)"
  "readPage docBson plainContent (\<lambda>_. None) sampleStore (5, 20, 30) = Some (storedPage 20 30)"
  using storedPage_valid [of 4 9] storedPage_valid [of 20 30]
  by (simp_all add: readPage_def readFile_def sampleStore_def emptyStore_def historyPageName_def storedPage_def)

lemma sampleStore_covered:
  "coveredThroughLocked (pageRefs sampleStore) \<lparr>rq_ChatID = 5, rq_Cur = 4, rq_Max = 30, rq_Count = 0\<rparr> = 9"
  by (simp add: coveredThroughLocked_def coverLoop.simps coverPass_def pageRefs_def sampleStore_def
      pageRef_def pageFor_def Let_def)

theorem lookup_within_coverage_witness:
  "\<exists>response. fst (lookup docBson plainContent 0 (\<lambda>_. None)
        \<lparr>rq_ChatID = 5, rq_Cur = 4, rq_Max = 30, rq_Count = 0\<rparr> sampleStore) = Inr (Some response)
      \<and> length (rs_ChatLogs response) = 1
      \<and> (\<exists>ids. list_all2 (\<lambda>d n. LogID docBson d = Inr n) (rs_ChatLogs response) ids \<and> (\<forall>n\<in>set ids. n \<le> 9))"
proof -
  let ?req = "\<lparr>rq_ChatID = 5, rq_Cur = 4, rq_Max = 30, rq_Count = 0\<rparr>"
  let ?response = "\<lparr>rs_ChatLogs = [sampleLog 9], rs_MinLogID = 0, rs_IsOK = False\<rparr>"
  have pages: "hs_pages sampleStore = [pageRef 20 30, pageRef 4 9]" "hs_failed sampleStore = None"
    "hs_mutations sampleStore = []"
    by (simp_all add: sampleStore_def emptyStore_def)
  have "lookupPages docBson plainContent (\<lambda>_. None) sampleStore ?req 9 (hs_pages sampleStore) [] 0
      = Some ([(9, sampleLog 9)], 0)"
    using sampleStore_reads unfolding pages(1) pageRef_def
    by (simp add: storedPage_def addRows_def sampleLog_LogID)
  then have "lookup docBson plainContent 0 (\<lambda>_. None) ?req sampleStore = (Inr (Some ?response), sampleStore)"
    by (simp add: lookup_def pages sampleStore_covered Let_def apply_mutation_def sampleLog_LogID)
  with lookup_within_coverage [OF docBson_lawful docBson_elements sampleStore_inv this] sampleStore_covered
  show ?thesis by auto
qed

lemma windowEvents_positions:
  assumes "marshal_lawful B" "elements_lawful B" "overlaysValid B C s" "rowsOK B keep rows"
    "set ids \<subseteq> set (map fst rows)" "windowEvents B C s chat rows ids = Inr evs"
  shows "map MessagePosition evs = map (\<lambda>n. Some (chat, n)) ids"
  using assms(5,6)
proof (induction ids arbitrary: evs)
  case (Cons n ids)
  from Cons.prems obtain raw evt rest where d: "apply_mutation B s (the (map_of rows n)) chat = Inr raw"
    "DecodeChatLog B C chat raw = Inr evt" "windowEvents B C s chat rows ids = Inr rest" "evs = evt # rest"
    by (auto split: sum.splits)
  have "LogID B raw = Inr n"
    using apply_LogID [OF assms(1-3) _ d(1)] rowsOK_the [OF assms(4)] Cons.prems(1) by simp
  with DecodeChatLog_at [OF assms(1) d(2)] have "MessagePosition evt = Some (chat, n)" by auto
  with Cons.IH [OF _ d(3)] Cons.prems(1) d(4) show ?case by simp
qed simp

lemma unavailableLocked_memory:
  assumes "unavailableLocked B now faults req s = (r, s')"
  shows "hs_mutations s' = hs_mutations s" "hs_binding s' = hs_binding s"
  using assms by (auto simp: unavailableLocked_def Let_def split: if_splits sum.splits option.splits)

lemma window_Inr:
  assumes "window B C now cancelled faults q s = (Inr page, s')"
  obtains rows ids where
    "windowPages B C cancelled faults s q (hs_pages s) [] = Inr rows"
    "ids = sort (filter (\<lambda>n. \<not> (suffixLoop (pageRefs s) (sq_ChatID q) (sq_After q) (sq_Through q) < sq_Through q
        \<and> n \<le> suffixLoop (pageRefs s) (sq_ChatID q) (sq_After q) (sq_Through q))) (map fst rows))"
    "windowEvents B C s' (sq_ChatID q) rows (drop (length ids - sq_Limit q) ids) = Inr (sp_Events page)"
    "sp_CoveredThrough page = coverLoop (pageRefs s) (sq_ChatID q) (sq_Through q) (sq_After q)"
    "sp_Complete page \<longleftrightarrow> sp_CoveredThrough page \<ge> sq_Through q"
    "hs_mutations s' = hs_mutations s" "hs_binding s' = hs_binding s"
proof -
  obtain r1 s1 where u: "unavailableLocked B now faults (windowRequest q) s = (r1, s1)" by force
  show thesis
    using assms that u unavailableLocked_memory [OF u]
    by (auto simp: window_def Let_def split: option.splits sum.splits if_splits prod.splits)
qed

text \<open>
  A stored-history window. Its events are at most \<open>Limit\<close> messages of the requested chat,
  strictly ascending, all inside \<open>(After, Through]\<close> (and not the anchor itself when it
  is excluded); \<open>CoveredThrough\<close> is the end of connected coverage from \<open>After\<close>, and the window
  claims to be complete exactly when every identity of the interval is inside an acquired page.
\<close>

theorem window_correct:
  assumes "marshal_lawful B" and "elements_lawful B" and "overlayInv B C s"
    and "sq_After q \<le> sq_Through q" and "window B C now cancelled faults q s = (Inr page, s')"
  shows "(\<exists>ids. map MessagePosition (sp_Events page) = map (\<lambda>n. Some (sq_ChatID q, n)) ids
      \<and> length ids \<le> sq_Limit q \<and> sorted_wrt (<) (sq_After q # ids)
      \<and> (\<forall>n\<in>set ids. n \<le> sq_Through q \<and> (sq_ExcludeThrough q \<longrightarrow> n \<noteq> sq_Through q)))
    \<and> (sp_Complete page \<longleftrightarrow>
      (\<forall>x. sq_After q < x \<and> x \<le> sq_Through q \<longrightarrow> acquired (pageRefs s) (sq_ChatID q) x))
    \<and> sp_CoveredThrough page = coveredThroughLocked (pageRefs s) (windowRequest q)"
proof -
  let ?keep = "\<lambda>n. sq_After q < n \<and> n \<le> sq_Through q \<and> (\<not> sq_ExcludeThrough q \<or> n \<noteq> sq_Through q)"
  from assms(5) obtain rows ids P where rows: "windowPages B C cancelled faults s q (hs_pages s) [] = Inr rows"
    and ids: "ids = sort (filter P (map fst rows))"
    and evs: "windowEvents B C s' (sq_ChatID q) rows (drop (length ids - sq_Limit q) ids) = Inr (sp_Events page)"
    and cov: "sp_CoveredThrough page = coverLoop (pageRefs s) (sq_ChatID q) (sq_Through q) (sq_After q)"
    and comp: "sp_Complete page \<longleftrightarrow> sp_CoveredThrough page \<ge> sq_Through q"
    and s': "hs_mutations s' = hs_mutations s" "hs_binding s' = hs_binding s"
    by (rule window_Inr) blast
  define sel where "sel = drop (length ids - sq_Limit q) ids"
  have ok: "rowsOK B ?keep rows" by (rule windowPages_OK [OF rows]) simp
  have valid: "overlaysValid B C s'"
    using overlayInv_valid [OF assms(3)] s' by (simp add: overlaysValid_def)
  have sub: "set sel \<subseteq> set (map fst rows)"
    by (auto simp: sel_def ids dest: in_set_dropD)
  have pos: "map MessagePosition (sp_Events page) = map (\<lambda>n. Some (sq_ChatID q, n)) sel"
    by (rule windowEvents_positions [OF assms(1,2) valid ok sub]) (use evs in \<open>simp add: sel_def\<close>)
  have "sorted_wrt (<) ids"
    unfolding ids using ok by (intro strict_sorted_sort) (simp add: rowsOK_def)
  then have "sorted_wrt (<) sel" by (simp add: sel_def sorted_wrt_drop)
  moreover have "?keep n" if "n \<in> set sel" for n
    using rowsOK_the(2) [OF ok] sub that by blast
  ultimately have first: "\<exists>ids. map MessagePosition (sp_Events page) = map (\<lambda>n. Some (sq_ChatID q, n)) ids
      \<and> length ids \<le> sq_Limit q \<and> sorted_wrt (<) (sq_After q # ids)
      \<and> (\<forall>n\<in>set ids. n \<le> sq_Through q \<and> (sq_ExcludeThrough q \<longrightarrow> n \<noteq> sq_Through q))"
    using pos by (intro exI [of _ sel]) (auto simp: sel_def)
  have c: "sp_CoveredThrough page = coveredThroughLocked (pageRefs s) (windowRequest q)"
    using cov by (simp add: coveredThroughLocked_def windowRequest_def)
  have "sp_Complete page \<longleftrightarrow>
      (\<forall>x. sq_After q < x \<and> x \<le> sq_Through q \<longrightarrow> acquired (pageRefs s) (sq_ChatID q) x)"
    using coveredThrough_iff [of "windowRequest q" "sq_Through q" "pageRefs s"] assms(4) comp c
    by (simp add: windowRequest_def)
  with first c show ?thesis by blast
qed

theorem window_correct_witness:
  "\<exists>page s'. window docBson plainContent 0 (\<lambda>_. None) (\<lambda>_. None)
        \<lparr>sq_ChatID = 5, sq_After = 4, sq_Through = 9, sq_Limit = 10, sq_ExcludeThrough = False\<rparr> sampleStore
      = (Inr page, s') \<and> sp_CoveredThrough page = 9 \<and> length (sp_Events page) = 1"
proof -
  let ?q = "\<lparr>sq_ChatID = 5, sq_After = 4, sq_Through = 9, sq_Limit = 10, sq_ExcludeThrough = False\<rparr>"
  have pages: "hs_pages sampleStore = [pageRef 20 30, pageRef 4 9]" "hs_failed sampleStore = None"
    "hs_mutations sampleStore = []"
    by (simp_all add: sampleStore_def emptyStore_def)
  have refs: "pageRefs sampleStore = [snd (pageRef 20 30), snd (pageRef 4 9)]" by (simp add: pageRefs_def pages)
  have cov: "coverLoop (pageRefs sampleStore) 5 9 4 = 9" and suf: "suffixLoop (pageRefs sampleStore) 5 4 9 = 4"
    by (simp_all add: coverLoop.simps suffixLoop.simps coverPass_def suffixPass_def refs pageRef_def pageFor_def Let_def)
  have "windowPages docBson plainContent (\<lambda>_. None) (\<lambda>_. None) sampleStore ?q (hs_pages sampleStore) []
      = Inr [(9, sampleLog 9)]"
    using sampleStore_reads unfolding pages(1) pageRef_def
    by (simp add: storedPage_def addRows_def sampleLog_LogID)
  then obtain page where page: "window docBson plainContent 0 (\<lambda>_. None) (\<lambda>_. None) ?q sampleStore = (Inr page, sampleStore)"
    "length (sp_Events page) = 1"
    by (simp add: window_def pages cov suf Let_def apply_mutation_def sampleLog_LogID sampleLog_decodesAt)
  have "sq_After ?q \<le> sq_Through ?q" by simp
  from window_correct [OF docBson_lawful docBson_elements sampleStore_inv this page(1)] page cov
  show ?thesis by (auto simp: coveredThroughLocked_def windowRequest_def)
qed

end
