(* ===== verification/Chat_Table.thy ===== *)
theory Chat_Table
  imports Go_Prelude
begin

text \<open>
  The generic tables of \<open>src/internal/continuity/continuity.go\<close>: slices kept strictly sorted
  by a positive chat ID, searched by \<open>sort.Search\<close>. The operations (\<open>searchChat\<close>,
  \<open>upsertByChat\<close>, \<open>removeByChat\<close>, \<open>sortedByChat\<close>) are parameterised by the key
  function that the source's \<open>chatKeyed\<close> interface provides.

  The locale \<open>chat_table\<close> states what the operations promise over the partial map
  \<open>entryOf\<close> that a table denotes; \<open>chat_table_impl\<close> shows that the slices keep the promise
  for every key function.
\<close>

subsection \<open>Operations\<close>

definition searchChat :: "('a \<Rightarrow> int64) \<Rightarrow> 'a list \<Rightarrow> int64 \<Rightarrow> nat \<times> bool" where
  "searchChat key items chatID =
     (let index = sort_Search (length items) (\<lambda>i. chatID \<le> key (items ! i))
      in (index, index < length items \<and> key (items ! index) = chatID))"

text \<open>
  The callback \<open>merge\<close> mutates the entry it is given and reports whether it changed it; here
  it returns both. An absent entry is inserted by appending, shifting with \<open>copy\<close> and
  assigning, as in the source.
\<close>

definition upsertByChat ::
  "('a \<Rightarrow> int64) \<Rightarrow> 'a list \<Rightarrow> 'a \<Rightarrow> ('a \<Rightarrow> 'a \<times> bool) \<Rightarrow> 'a list \<times> bool" where
  "upsertByChat key items value merge =
     (let (index, found) = searchChat key items (key value)
      in if found
         then (let (entry, changed) = merge (items ! index) in (items[index := entry], changed))
         else (let grown = items @ [value]
               in ((go_copy grown (index + 1) (drop index grown))[index := value], True)))"

definition removeByChat :: "('a \<Rightarrow> int64) \<Rightarrow> 'a list \<Rightarrow> int64 \<Rightarrow> 'a list" where
  "removeByChat key items chatID =
     (let (index, found) = searchChat key items chatID
      in if found then take index items @ drop (index + 1) items else items)"

fun sortedFrom :: "('a \<Rightarrow> int64) \<Rightarrow> ('a \<Rightarrow> bool) \<Rightarrow> int64 \<Rightarrow> 'a list \<Rightarrow> bool" where
  "sortedFrom key valid previous [] = True"
| "sortedFrom key valid previous (item # items) =
     (if key item \<le> previous \<or> \<not> valid item then False
      else sortedFrom key valid (key item) items)"

definition sortedByChat :: "('a \<Rightarrow> int64) \<Rightarrow> 'a list \<Rightarrow> ('a \<Rightarrow> bool) \<Rightarrow> bool" where
  "sortedByChat key items valid = sortedFrom key valid 0 items"

subsection \<open>Abstraction\<close>

text \<open>A table denotes the map from a chat to its first entry; the reference lookup.\<close>

definition entryOf :: "('a \<Rightarrow> int64) \<Rightarrow> 'a list \<Rightarrow> int64 \<Rightarrow> 'a option" where
  "entryOf key items chatID = find (\<lambda>x. key x = chatID) items"

definition tableSorted :: "('a \<Rightarrow> int64) \<Rightarrow> 'a list \<Rightarrow> bool" where
  "tableSorted key items = sortedByChat key items (\<lambda>_. True)"

text \<open>What a table promises to its clients.\<close>

locale chat_table =
  fixes key :: "'a \<Rightarrow> int64"
    and search :: "'a list \<Rightarrow> int64 \<Rightarrow> nat \<times> bool"
    and upsert :: "'a list \<Rightarrow> 'a \<Rightarrow> ('a \<Rightarrow> 'a \<times> bool) \<Rightarrow> 'a list \<times> bool"
    and remove :: "'a list \<Rightarrow> int64 \<Rightarrow> 'a list"
    and wf :: "'a list \<Rightarrow> bool"
  assumes search_found: "wf xs \<Longrightarrow> search xs c = (i, True) \<Longrightarrow> i < length xs \<and> entryOf key xs c = Some (xs ! i)"
    and search_absent: "wf xs \<Longrightarrow> search xs c = (i, False) \<Longrightarrow> entryOf key xs c = None"
    and wf_member: "wf xs \<Longrightarrow> x \<in> set xs \<longleftrightarrow> entryOf key xs (key x) = Some x"
    and upsert_wf: "wf xs \<Longrightarrow> 0 < key v \<Longrightarrow> (\<And>x. key x = key v \<Longrightarrow> key (fst (m x)) = key v)
      \<Longrightarrow> wf (fst (upsert xs v m))"
    and upsert_entry: "wf xs \<Longrightarrow> (\<And>x. key x = key v \<Longrightarrow> key (fst (m x)) = key v)
      \<Longrightarrow> entryOf key (fst (upsert xs v m)) = (entryOf key xs)
            (key v \<mapsto> (case entryOf key xs (key v) of None \<Rightarrow> v | Some x \<Rightarrow> fst (m x)))"
    and upsert_flag: "wf xs \<Longrightarrow> snd (upsert xs v m)
      = (case entryOf key xs (key v) of None \<Rightarrow> True | Some x \<Rightarrow> snd (m x))"
    and remove_wf: "wf xs \<Longrightarrow> wf (remove xs c)"
    and remove_entry: "wf xs \<Longrightarrow> entryOf key (remove xs c) = (entryOf key xs)(c := None)"
begin

lemma search_flag: "wf xs \<Longrightarrow> snd (search xs c) \<longleftrightarrow> entryOf key xs c \<noteq> None"
  using search_found search_absent by (cases "search xs c") fastforce

lemma entry_key: "entryOf key xs c = Some x \<Longrightarrow> key x = c"
  unfolding entryOf_def by (induction xs) (auto split: if_splits)

lemma upsert_all:
  assumes "wf xs" "0 < key v" "\<And>x. key x = key v \<Longrightarrow> key (fst (m x)) = key v"
    and "\<forall>x\<in>set xs. P x" "P v" "\<And>x. P x \<Longrightarrow> P (fst (m x))"
  shows "\<forall>x\<in>set (fst (upsert xs v m)). P x"
proof
  fix x assume "x \<in> set (fst (upsert xs v m))"
  then have e: "entryOf key (fst (upsert xs v m)) (key x) = Some x"
    using wf_member upsert_wf assms(1-3) by blast
  show "P x"
  proof (cases "key x = key v")
    case False
    with e show ?thesis using upsert_entry [OF assms(1,3)] wf_member assms(1,4) by auto
  next
    case True
    with e show ?thesis
      using upsert_entry [OF assms(1,3)] assms(4-6) wf_member [OF assms(1)] entry_key
      by (auto split: option.splits)
  qed
qed

lemma remove_all: "wf xs \<Longrightarrow> \<forall>x\<in>set xs. P x \<Longrightarrow> \<forall>x\<in>set (remove xs c). P x"
  using remove_entry wf_member remove_wf by (metis fun_upd_apply option.distinct(1))

text \<open>Storing the merged entry again changes nothing, when the merge is idempotent.\<close>

lemma upsert_idem:
  assumes "wf xs" "0 < key v" "\<And>x. key x = key v \<Longrightarrow> key (fst (m x)) = key v"
    and "\<And>x. fst (m (fst (m x))) = fst (m x)" "fst (m v) = v"
  shows "entryOf key (fst (upsert (fst (upsert xs v m)) v m)) = entryOf key (fst (upsert xs v m))"
  using upsert_entry [OF upsert_wf [OF assms(1-3)] assms(3)] upsert_entry [OF assms(1,3)] assms(4,5)
  by (auto simp: fun_eq_iff split: option.splits)

text \<open>Updates of different chats commute.\<close>

lemma upsert_commute:
  assumes "wf xs" "0 < key v" "0 < key u" "key v \<noteq> key u"
    and "\<And>x. key x = key v \<Longrightarrow> key (fst (m x)) = key v" "\<And>x. key x = key u \<Longrightarrow> key (fst (n x)) = key u"
  shows "entryOf key (fst (upsert (fst (upsert xs v m)) u n)) = entryOf key (fst (upsert (fst (upsert xs u n)) v m))"
  using upsert_entry [OF upsert_wf [OF assms(1,2,5)] assms(6)] upsert_entry [OF assms(1,5)]
    upsert_entry [OF upsert_wf [OF assms(1,3,6)] assms(5)] upsert_entry [OF assms(1,6)] assms(4)
  by (auto simp: fun_eq_iff)

end

subsection \<open>The slices keep the contract\<close>

lemma sortedFrom_iff:
  "sortedFrom key valid p xs \<longleftrightarrow>
     sorted_wrt (<) (map key xs) \<and> (\<forall>x\<in>set xs. p < key x \<and> valid x)"
proof (induction xs arbitrary: p)
  case (Cons a xs)
  show ?case by (auto simp: Cons.IH)
qed simp

lemma tableSorted_iff:
  "tableSorted key xs \<longleftrightarrow> sorted_wrt (<) (map key xs) \<and> (\<forall>x\<in>set xs. 0 < key x)"
  by (simp add: tableSorted_def sortedByChat_def sortedFrom_iff)

lemma sortedByChat_iff: "sortedByChat key xs valid \<longleftrightarrow> tableSorted key xs \<and> (\<forall>x\<in>set xs. valid x)"
  by (auto simp: tableSorted_iff sortedByChat_def sortedFrom_iff)

lemma tableSorted_Nil [simp]: "tableSorted key []"
  by (simp add: tableSorted_iff)

lemma sorted_nth_mono:
  "sorted_wrt (<) (map key xs) \<Longrightarrow> i < j \<Longrightarrow> j < length xs \<Longrightarrow> key (xs ! i) < (key (xs ! j) :: int)"
  by (auto simp: sorted_wrt_iff_nth_less)

text \<open>The index of a binary search splits a sorted table at the chat.\<close>

lemma searchChat_split:
  assumes "sorted_wrt (<) (map key xs)" "searchChat key xs c = (i, found)"
  shows "i \<le> length xs" "x \<in> set (take i xs) \<Longrightarrow> key x < c" "x \<in> set (drop i xs) \<Longrightarrow> c \<le> key x"
    "found \<longleftrightarrow> i < length xs \<and> key (xs ! i) = c"
proof -
  let ?f = "\<lambda>i. c \<le> key (xs ! i)"
  have mono: "\<And>a b. a \<le> b \<Longrightarrow> b < length xs \<Longrightarrow> ?f a \<Longrightarrow> ?f b"
    using sorted_nth_mono [OF assms(1)] by (metis le_eq_less_or_eq less_le_not_le order_trans)
  have i: "i = sort_Search (length xs) ?f" "found \<longleftrightarrow> i < length xs \<and> key (xs ! i) = c"
    using assms(2) by (auto simp: searchChat_def Let_def)
  have le: "i \<le> length xs"
    unfolding i(1) by (rule sort_Search_spec(1)) (rule mono)
  have "\<not> ?f k" if "k < i" for k
    using that unfolding i(1) by (rule sort_Search_spec(2) [rotated]) (rule mono)
  then have below: "key (xs ! k) < c" if "k < i" for k
    using that by (meson not_le)
  have at: "?f i" if "i < length xs"
    using that unfolding i(1) by (rule sort_Search_spec(3) [rotated]) (rule mono)
  show "i \<le> length xs" by (rule le)
  show "key x < c" if "x \<in> set (take i xs)"
    using that below le by (auto simp: in_set_conv_nth)
  show "c \<le> key x" if "x \<in> set (drop i xs)"
  proof -
    from that obtain k where k: "k < length xs - i" "x = xs ! (i + k)"
      by (auto simp: in_set_conv_nth)
    with at show ?thesis using mono [of i "i + k"] by simp
  qed
  show "found \<longleftrightarrow> i < length xs \<and> key (xs ! i) = c" by (rule i(2))
qed

lemma entryOf_append:
  "entryOf key (xs @ ys) c = (case entryOf key xs c of None \<Rightarrow> entryOf key ys c | Some x \<Rightarrow> Some x)"
  by (induction xs) (auto simp: entryOf_def)

lemma entryOf_Cons: "entryOf key (x # xs) c = (if key x = c then Some x else entryOf key xs c)"
  by (simp add: entryOf_def)

lemma entryOf_None: "entryOf key xs c = None \<longleftrightarrow> c \<notin> key ` set xs"
  by (auto simp: entryOf_def find_None_iff)

text \<open>Splitting a sorted table at a found chat, and at an absent one.\<close>

lemma searchChat_found_split:
  assumes "sorted_wrt (<) (map key xs)" "searchChat key xs c = (i, True)"
  obtains ys x zs where "xs = ys @ x # zs" "i = length ys" "key x = c"
    "\<forall>y\<in>set ys. key y < c" "\<forall>z\<in>set zs. c < key z"
proof -
  from searchChat_split(4) [OF assms] have i: "i < length xs" "key (xs ! i) = c" by auto
  have xs: "xs = take i xs @ xs ! i # drop (Suc i) xs" using i(1) by (simp add: id_take_nth_drop)
  have "\<forall>z\<in>set (drop (Suc i) xs). c < key z"
    using assms(1) i by (subst (asm) xs) (auto simp: sorted_wrt_append)
  with xs i searchChat_split(2) [OF assms] that [of "take i xs" "xs ! i" "drop (Suc i) xs"]
  show ?thesis by simp
qed

lemma searchChat_absent_split:
  assumes "sorted_wrt (<) (map key xs)" "searchChat key xs c = (i, False)"
  obtains ys zs where "xs = ys @ zs" "i = length ys" "\<forall>y\<in>set ys. key y < c" "\<forall>z\<in>set zs. c < key z"
proof -
  have i: "i \<le> length xs" by (rule searchChat_split(1) [OF assms])
  have "c < key z" if z: "z \<in> set (drop i xs)" for z
  proof -
    from z have lt: "i < length xs" by (cases "i < length xs") auto
    have xs: "xs = take i xs @ xs ! i # drop (Suc i) xs" using lt by (simp add: id_take_nth_drop)
    have mem: "xs ! i \<in> set (drop i xs)" "z = xs ! i \<or> z \<in> set (drop (Suc i) xs)"
      using z lt by (metis Cons_nth_drop_Suc list.set_intros(1)) (metis Cons_nth_drop_Suc z lt set_ConsD)
    have "c < key (xs ! i)"
      using searchChat_split(3) [OF assms mem(1)] searchChat_split(4) [OF assms] lt by simp
    moreover have "\<forall>u\<in>set (drop (Suc i) xs). key (xs ! i) < key u"
      using assms(1) by (subst (asm) xs) (auto simp: sorted_wrt_append)
    ultimately show ?thesis using mem(2) by auto
  qed
  with i searchChat_split(2) [OF assms] that [of "take i xs" "drop i xs"] show ?thesis by simp
qed

lemma upsertByChat_found:
  "searchChat key xs (key v) = (i, True) \<Longrightarrow>
     upsertByChat key xs v m = (xs[i := fst (m (xs ! i))], snd (m (xs ! i)))"
  by (simp add: upsertByChat_def case_prod_beta Let_def)

lemma upsertByChat_absent:
  assumes "searchChat key xs (key v) = (i, False)" "i \<le> length xs"
  shows "upsertByChat key xs v m = (take i xs @ v # drop i xs, True)"
  using assms go_copy_insert [OF assms(2), of v] by (simp add: upsertByChat_def Let_def)

lemma removeByChat_cases:
  "removeByChat key xs c =
     (if snd (searchChat key xs c)
      then take (fst (searchChat key xs c)) xs @ drop (fst (searchChat key xs c) + 1) xs else xs)"
  by (simp add: removeByChat_def case_prod_beta Let_def)

lemma entryOf_absent_parts:
  assumes "\<forall>y\<in>set ys. key y < c" "\<forall>z\<in>set zs. c < key z"
  shows "entryOf key ys c = None" "entryOf key zs c = None"
  using assms by (fastforce simp: entryOf_None)+

text \<open>Binary search agrees with the reference lookup.\<close>

lemma searchChat_entryOf:
  assumes "tableSorted key xs" "searchChat key xs c = (i, found)"
  shows "entryOf key xs c = (if found then Some (xs ! i) else None)" "found \<Longrightarrow> i < length xs"
proof -
  have st: "sorted_wrt (<) (map key xs)" using assms(1) by (simp add: tableSorted_iff)
  show "entryOf key xs c = (if found then Some (xs ! i) else None)"
  proof (cases found)
    case True
    with assms(2) have "searchChat key xs c = (i, True)" by simp
    then obtain ys x zs where *: "xs = ys @ x # zs" "i = length ys" "key x = c"
        "\<forall>y\<in>set ys. key y < c" "\<forall>z\<in>set zs. c < key z"
      by (rule searchChat_found_split [OF st])
    with True show ?thesis
      using entryOf_absent_parts(1) [OF *(4,5)] by (simp add: entryOf_append entryOf_Cons)
  next
    case False
    with assms(2) have "searchChat key xs c = (i, False)" by simp
    then obtain ys zs where *: "xs = ys @ zs" "\<forall>y\<in>set ys. key y < c" "\<forall>z\<in>set zs. c < key z"
      by (rule searchChat_absent_split [OF st])
    with False show ?thesis
      using entryOf_absent_parts [OF *(2,3)] by (simp add: entryOf_append)
  qed
  show "found \<Longrightarrow> i < length xs" using searchChat_split(4) [OF st assms(2)] by simp
qed

lemma upsertByChat_table:
  assumes "tableSorted key xs" "\<And>x. key x = key v \<Longrightarrow> key (fst (m x)) = key v"
  shows "0 < key v \<Longrightarrow> tableSorted key (fst (upsertByChat key xs v m))"
    and "entryOf key (fst (upsertByChat key xs v m)) = (entryOf key xs)
           (key v \<mapsto> (case entryOf key xs (key v) of None \<Rightarrow> v | Some x \<Rightarrow> fst (m x)))"
proof -
  have st: "sorted_wrt (<) (map key xs)" and pos: "\<forall>x\<in>set xs. 0 < key x"
    using assms(1) by (auto simp: tableSorted_iff)
  obtain i found where s: "searchChat key xs (key v) = (i, found)" by fastforce
  let ?c = "key v"
  have "(0 < key v \<longrightarrow> tableSorted key (fst (upsertByChat key xs v m))) \<and>
      entryOf key (fst (upsertByChat key xs v m)) = (entryOf key xs)
        (?c \<mapsto> (case entryOf key xs ?c of None \<Rightarrow> v | Some x \<Rightarrow> fst (m x)))"
  proof (cases found)
    case True
    with s have s': "searchChat key xs ?c = (i, True)" by simp
    then obtain ys x zs where xs: "xs = ys @ x # zs" "i = length ys" "key x = ?c"
        and lt: "\<forall>y\<in>set ys. key y < ?c" "\<forall>z\<in>set zs. ?c < key z"
      by (rule searchChat_found_split [OF st])
    have up: "fst (upsertByChat key xs v m) = ys @ fst (m x) # zs"
      using upsertByChat_found [OF s'] xs by simp
    have "key (fst (m x)) = ?c" using assms(2) xs(3) by simp
    with up st pos xs lt show ?thesis
      by (auto simp: tableSorted_iff sorted_wrt_append entryOf_append entryOf_Cons fun_eq_iff
          entryOf_absent_parts(1) [OF lt] split: option.splits)
  next
    case False
    with s have s': "searchChat key xs ?c = (i, False)" by simp
    then obtain ys zs where xs: "xs = ys @ zs" "i = length ys"
        and lt: "\<forall>y\<in>set ys. key y < ?c" "\<forall>z\<in>set zs. ?c < key z"
      by (rule searchChat_absent_split [OF st])
    have up: "fst (upsertByChat key xs v m) = ys @ v # zs"
      using upsertByChat_absent [OF s'] xs by simp
    with st pos xs lt show ?thesis
      using entryOf_absent_parts [OF lt]
      by (fastforce simp: tableSorted_iff sorted_wrt_append entryOf_append entryOf_Cons fun_eq_iff
          split: option.splits)
  qed
  then show "0 < key v \<Longrightarrow> tableSorted key (fst (upsertByChat key xs v m))"
    and "entryOf key (fst (upsertByChat key xs v m)) = (entryOf key xs)
           (key v \<mapsto> (case entryOf key xs (key v) of None \<Rightarrow> v | Some x \<Rightarrow> fst (m x)))"
    by auto
qed

lemma upsertByChat_flag:
  assumes "tableSorted key xs"
  shows "snd (upsertByChat key xs v m) = (case entryOf key xs (key v) of None \<Rightarrow> True | Some x \<Rightarrow> snd (m x))"
proof -
  obtain i found where s: "searchChat key xs (key v) = (i, found)" by fastforce
  note e = searchChat_entryOf [OF assms s]
  show ?thesis
  proof (cases found)
    case True
    with s e show ?thesis by (simp add: upsertByChat_found)
  next
    case False
    have "i \<le> length xs" using searchChat_split(1) [OF _ s] assms by (simp add: tableSorted_iff)
    with False s e show ?thesis by (simp add: upsertByChat_absent)
  qed
qed

lemma removeByChat_table:
  assumes "tableSorted key xs"
  shows "tableSorted key (removeByChat key xs c)"
    and "entryOf key (removeByChat key xs c) = (entryOf key xs)(c := None)"
proof -
  have st: "sorted_wrt (<) (map key xs)" and pos: "\<forall>x\<in>set xs. 0 < key x"
    using assms(1) by (auto simp: tableSorted_iff)
  obtain i found where s: "searchChat key xs c = (i, found)" by fastforce
  have "tableSorted key (removeByChat key xs c) \<and>
      entryOf key (removeByChat key xs c) = (entryOf key xs)(c := None)"
  proof (cases found)
    case True
    with s have s': "searchChat key xs c = (i, True)" by simp
    then obtain ys x zs where xs: "xs = ys @ x # zs" "i = length ys" "key x = c"
        and lt: "\<forall>y\<in>set ys. key y < c" "\<forall>z\<in>set zs. c < key z"
      by (rule searchChat_found_split [OF st])
    have "removeByChat key xs c = ys @ zs" using s' xs by (simp add: removeByChat_cases)
    with st pos xs lt show ?thesis
      using entryOf_absent_parts [OF lt]
      by (auto simp: tableSorted_iff sorted_wrt_append entryOf_append entryOf_Cons fun_eq_iff
          split: option.splits)
  next
    case False
    with s have "removeByChat key xs c = xs" by (simp add: removeByChat_cases)
    moreover have "entryOf key xs c = None" using searchChat_entryOf(1) [OF assms s] False by simp
    ultimately show ?thesis using assms by (auto simp: fun_eq_iff)
  qed
  then show "tableSorted key (removeByChat key xs c)"
    and "entryOf key (removeByChat key xs c) = (entryOf key xs)(c := None)" by auto
qed

lemma tableSorted_member:
  assumes "tableSorted key xs"
  shows "x \<in> set xs \<longleftrightarrow> entryOf key xs (key x) = Some x"
proof
  assume "x \<in> set xs"
  then show "entryOf key xs (key x) = Some x"
    using assms by (induction xs) (auto simp: tableSorted_iff entryOf_Cons)
next
  assume "entryOf key xs (key x) = Some x"
  then show "x \<in> set xs" by (auto simp: entryOf_def find_Some_iff)
qed

lemma chat_table_impl:
  "chat_table key (searchChat key) (upsertByChat key) (removeByChat key) (tableSorted key)"
proof
  fix xs :: "'a list" and c i
  assume "tableSorted key xs" "searchChat key xs c = (i, True)"
  then show "i < length xs \<and> entryOf key xs c = Some (xs ! i)" by (simp add: searchChat_entryOf)
next
  fix xs :: "'a list" and c i
  assume "tableSorted key xs" "searchChat key xs c = (i, False)"
  from searchChat_entryOf(1) [OF this] show "entryOf key xs c = None" by simp
qed (simp_all add: tableSorted_member upsertByChat_table upsertByChat_flag removeByChat_table)

text \<open>The check \<open>sortedByChat\<close> survives both mutations.\<close>

lemma upsertByChat_sorted:
  assumes "sortedByChat key xs P" "0 < key v" "P v"
    and "\<And>x. key x = key v \<Longrightarrow> key (fst (m x)) = key v" "\<And>x. P x \<Longrightarrow> P (fst (m x))"
  shows "sortedByChat key (fst (upsertByChat key xs v m)) P"
proof -
  have "tableSorted key xs" "\<forall>x\<in>set xs. P x" using assms(1) by (auto simp: sortedByChat_iff)
  then show ?thesis
    using chat_table.upsert_all [OF chat_table_impl, of key xs v m P] upsertByChat_table(1) [of key xs v m] assms
    by (simp add: sortedByChat_iff)
qed

lemma removeByChat_sorted:
  assumes "sortedByChat key xs P"
  shows "sortedByChat key (removeByChat key xs c) P"
  using assms chat_table.remove_all [OF chat_table_impl, of key xs P c] removeByChat_table(1) [of key xs c]
  by (simp add: sortedByChat_iff)

lemma sortedByChat_table: "sortedByChat key xs P \<Longrightarrow> tableSorted key xs"
  by (simp add: sortedByChat_iff)

lemma sortedByChat_entry: "sortedByChat key xs P \<Longrightarrow> entryOf key xs c = Some x \<Longrightarrow> P x"
  by (auto simp: sortedByChat_iff entryOf_def find_Some_iff)

lemma sortedByChat_Nil [simp]: "sortedByChat key [] P"
  by (simp add: sortedByChat_def)

end
