(* ===== verification/Continuity.thy ===== *)
theory Continuity
  imports Private_Json Chat_Table
begin

text \<open>
  \<open>src/internal/continuity/continuity.go\<close>: the durable boundary between the events an
  application has committed and the events the server may have to replay.

  The checkpoint is a record of five tables keyed by chat, each a slice kept strictly sorted
  by chat ID, on the generic operations of \<open>Chat_Table\<close>, whose contract is interpreted here
  at each of the five entry types.

  A world holds the store (\<open>None\<close> is a nil pointer) and the content of its file.
\<close>

subsection \<open>Checkpoint entries\<close>

definition Version :: nat where "Version = 6"
definition unprovenReadVersion :: nat where "unprovenReadVersion = 4"
definition previousVersion :: nat where "previousVersion = 3"
definition oldestVersion :: nat where "oldestVersion = 2"

record ChatCursor =
  cc_ChatID :: int64
  cc_MaxLogID :: int64

record DeliveryStart =
  ds_ChatID :: int64
  ds_FirstLogID :: int64

record ChatTarget =
  ct_ChatID :: int64
  ct_MaxLogID :: int64

record HistoryGap =
  hg_ChatID :: int64
  hg_FromLogID :: int64
  hg_ToLogID :: int64

record ReadWatermark =
  rw_ChatID :: int64
  rw_Watermark :: int64

record Checkpoint =
  cp_Version :: nat
  CleanShutdown :: bool
  LastTokenID :: int64
  LBK :: int64
  Chats :: "ChatCursor slice"
  KnownChats :: "ChatTarget slice"
  HistoryGaps :: "HistoryGap slice"
  ReadWatermarks :: "ReadWatermark slice"
  DeliveryStarts :: "DeliveryStart list"

subsection \<open>Targets\<close>

definition raiseMerge :: "ChatTarget \<Rightarrow> ChatTarget \<Rightarrow> ChatTarget \<times> bool" where
  "raiseMerge target current =
     (if ct_MaxLogID current \<ge> ct_MaxLogID target then (current, False)
      else (current\<lparr>ct_MaxLogID := ct_MaxLogID target\<rparr>, True))"

definition setTarget :: "ChatTarget list \<Rightarrow> ChatTarget \<Rightarrow> ChatTarget list" where
  "setTarget targets target =
     fst (upsertByChat ct_ChatID targets target (\<lambda>current. (target, True)))"

definition raiseTarget :: "ChatTarget list \<Rightarrow> ChatTarget \<Rightarrow> ChatTarget list \<times> bool" where
  "raiseTarget targets target = upsertByChat ct_ChatID targets target (raiseMerge target)"

text \<open>The conversion \<open>ChatTarget(cursor)\<close> of a cursor to a target.\<close>

definition targetOf :: "ChatCursor \<Rightarrow> ChatTarget" where
  "targetOf c = \<lparr>ct_ChatID = cc_ChatID c, ct_MaxLogID = cc_MaxLogID c\<rparr>"

subsection \<open>Reading a checkpoint\<close>

text \<open>Cloning allocates: a nil table becomes an empty one.\<close>

definition Clone :: "Checkpoint \<Rightarrow> Checkpoint" where
  "Clone c = c\<lparr>Chats := Some (sl (Chats c)), KnownChats := Some (sl (KnownChats c)),
     HistoryGaps := Some (sl (HistoryGaps c)), ReadWatermarks := Some (sl (ReadWatermarks c))\<rparr>"

definition SyncTargets :: "Checkpoint \<Rightarrow> ChatTarget list" where
  "SyncTargets c = sl (KnownChats c)"

definition LoginCursors :: "Checkpoint \<Rightarrow> int64 list \<times> int64 list" where
  "LoginCursors c = (map cc_ChatID (sl (Chats c)), map cc_MaxLogID (sl (Chats c)))"

definition CommittedMax :: "Checkpoint \<Rightarrow> int64 \<Rightarrow> int64" where
  "CommittedMax c chatID =
     (let (index, found) = searchChat cc_ChatID (sl (Chats c)) chatID
      in if found then cc_MaxLogID (sl (Chats c) ! index) else 0)"

definition FirstDeliveryStart :: "Checkpoint \<Rightarrow> int64 \<Rightarrow> int64" where
  "FirstDeliveryStart c chatID =
     (let (index, found) = searchChat ds_ChatID (DeliveryStarts c) chatID
      in if found then ds_FirstLogID (DeliveryStarts c ! index) else 0)"

definition HasGapThrough :: "Checkpoint \<Rightarrow> int64 \<Rightarrow> int64 \<Rightarrow> bool" where
  "HasGapThrough c chatID logID =
     (let (index, found) = searchChat hg_ChatID (sl (HistoryGaps c)) chatID
      in found \<and> hg_FromLogID (sl (HistoryGaps c) ! index) \<le> logID)"

subsection \<open>Validation and migration\<close>

definition validStart :: "DeliveryStart \<Rightarrow> bool" where "validStart s \<longleftrightarrow> ds_FirstLogID s > 0"
definition validCursor :: "ChatCursor \<Rightarrow> bool" where "validCursor c \<longleftrightarrow> cc_MaxLogID c > 0"
definition validTarget :: "ChatTarget \<Rightarrow> bool" where "validTarget t \<longleftrightarrow> ct_MaxLogID t \<ge> 0"
definition validGap :: "HistoryGap \<Rightarrow> bool" where
  "validGap g \<longleftrightarrow> hg_FromLogID g > 0 \<and> hg_ToLogID g \<ge> hg_FromLogID g"
definition validWatermark :: "ReadWatermark \<Rightarrow> bool" where
  "validWatermark w \<longleftrightarrow> rw_Watermark w > 0"

definition validate :: "Checkpoint \<Rightarrow> go_error option" where
  "validate d =
     (if cp_Version d \<noteq> Version then Some continuity_ErrVersionMismatch
      else if LastTokenID d < 0 \<or> LBK d < 0 \<or> Chats d = None \<or> KnownChats d = None
        \<or> HistoryGaps d = None \<or> ReadWatermarks d = None
      then Some continuity_ErrCorrupt
      else if \<not> sortedByChat ds_ChatID (DeliveryStarts d) validStart
        \<or> \<not> sortedByChat cc_ChatID (sl (Chats d)) validCursor
        \<or> \<not> sortedByChat ct_ChatID (sl (KnownChats d)) validTarget
        \<or> \<not> sortedByChat hg_ChatID (sl (HistoryGaps d)) validGap
        \<or> \<not> sortedByChat rw_ChatID (sl (ReadWatermarks d)) validWatermark
      then Some continuity_ErrCorrupt
      else None)"

definition migrate5 :: "Checkpoint \<Rightarrow> Checkpoint \<times> bool" where
  "migrate5 d = (if cp_Version d = 5 then (d\<lparr>cp_Version := Version\<rparr>, True) else (d, False))"

definition migrate4 :: "Checkpoint \<times> bool \<Rightarrow> (Checkpoint \<times> bool) result" where
  "migrate4 p =
     (let (d, migrated) = p
      in if cp_Version d = unprovenReadVersion
         then (if ReadWatermarks d = None then Inl continuity_ErrCorrupt
               else Inr (d\<lparr>ReadWatermarks := Some [], cp_Version := Version\<rparr>, True))
         else Inr (d, migrated))"

definition migrateOldest :: "Checkpoint \<times> bool \<Rightarrow> (Checkpoint \<times> bool) result" where
  "migrateOldest p =
     (let (d, migrated) = p
      in if cp_Version d = oldestVersion \<or> cp_Version d = previousVersion
         then (if LastTokenID d < 0 \<or> LBK d < 0 \<or> Chats d = None \<or> KnownChats d = None
               then Inl continuity_ErrCorrupt
               else (let d' = (if cp_Version d = oldestVersion then d\<lparr>HistoryGaps := Some []\<rparr> else d)
                     in Inr (d'\<lparr>ReadWatermarks := Some [], cp_Version := Version\<rparr>, True)))
         else Inr (d, migrated))"

definition migrate :: "Checkpoint \<Rightarrow> (Checkpoint \<times> bool) result" where
  "migrate data =
     (if cp_Version data \<noteq> Version \<and> DeliveryStarts data \<noteq> [] then Inl continuity_ErrCorrupt
      else (case migrate4 (migrate5 data) of
              Inl e \<Rightarrow> Inl e
            | Inr p \<Rightarrow>
                (case migrateOldest p of
                   Inl e \<Rightarrow> Inl e
                 | Inr (d, migrated) \<Rightarrow>
                     (case validate d of Some e \<Rightarrow> Inl e | None \<Rightarrow> Inr (d, migrated)))))"

definition translate :: "go_error option \<Rightarrow> go_error option" where
  "translate err =
     (case err of
        None \<Rightarrow> None
      | Some e \<Rightarrow> if errors_Is e privatejson_ErrUnsafePermissions
                 then Some continuity_ErrUnsafePermissions
                 else Some continuity_ErrCorrupt)"

subsection \<open>The store\<close>

record Store =
  st_path :: string
  st_data :: Checkpoint

record world =
  store :: "Store option"
  disk :: "Checkpoint option"

definition freshCheckpoint :: Checkpoint where
  "freshCheckpoint = \<lparr>cp_Version = Version, CleanShutdown = True, LastTokenID = 0, LBK = 0,
     Chats = Some [], KnownChats = Some [], HistoryGaps = Some [], ReadWatermarks = Some [],
     DeliveryStarts = []\<rparr>"

record open_env =
  oe_absolute :: bool
  oe_root :: bool
  oe_dir :: lstat
  oe_read :: "Checkpoint read_env"
  oe_init :: init_env
  oe_write :: write_env

text \<open>
  \<open>Open\<close>. What \<open>filepath\<close> says of the path (absolute; its clean form is the root) is part
  of the environment, and \<open>path\<close> is the clean path.
\<close>

definition Open :: "open_env \<Rightarrow> string \<Rightarrow> Checkpoint option \<Rightarrow> go_error option \<times> world" where
  "Open env path d =
     (if \<not> oe_absolute env \<or> oe_root env
      then (Some continuity_ErrInvalidPath, \<lparr>store = None, disk = d\<rparr>)
      else (case translate (ValidatePrivateDir (oe_dir env)) of
        Some e \<Rightarrow> (Some e, \<lparr>store = None, disk = d\<rparr>)
      | None \<Rightarrow> (case Read (oe_read env) of
          Inl e \<Rightarrow> (translate (Some e), \<lparr>store = None, disk = d\<rparr>)
        | Inr None \<Rightarrow>
            (let (err, d') = WriteInitial (oe_init env) freshCheckpoint d
             in case translate err of
                  Some e \<Rightarrow> (Some e, \<lparr>store = None, disk = d'\<rparr>)
                | None \<Rightarrow> (None, \<lparr>store = Some \<lparr>st_path = path, st_data = freshCheckpoint\<rparr>, disk = d'\<rparr>))
        | Inr (Some data) \<Rightarrow> (case migrate data of
            Inl e \<Rightarrow> (Some e, \<lparr>store = None, disk = d\<rparr>)
          | Inr (data', migrated) \<Rightarrow>
              if migrated
              then (let (err, d') = WriteAtomic (oe_write env) data' d
                    in case translate err of
                         Some e \<Rightarrow> (Some e, \<lparr>store = None, disk = d'\<rparr>)
                       | None \<Rightarrow> (None, \<lparr>store = Some \<lparr>st_path = path, st_data = data'\<rparr>, disk = d'\<rparr>))
              else (None, \<lparr>store = Some \<lparr>st_path = path, st_data = data'\<rparr>, disk = d\<rparr>)))))"

definition Snapshot :: "Store option \<Rightarrow> Checkpoint" where
  "Snapshot s =
     (case s of
        None \<Rightarrow> \<lparr>cp_Version = Version, CleanShutdown = False, LastTokenID = 0, LBK = 0,
                  Chats = None, KnownChats = None, HistoryGaps = None, ReadWatermarks = None,
                  DeliveryStarts = []\<rparr>
      | Some st \<Rightarrow> Clone (st_data st))"

text \<open>
  The transaction of every mutation: clone, change, validate, write, publish. The result is
  the error returned and the world afterwards.
\<close>

definition update_store ::
  "write_env \<Rightarrow> (Checkpoint \<Rightarrow> Checkpoint result) \<Rightarrow> world \<Rightarrow> go_error option \<times> world" where
  "update_store env change w =
     (case store w of
        None \<Rightarrow> (Some continuity_ErrInvalidPath, w)
      | Some s \<Rightarrow>
          if st_path s = [] then (Some continuity_ErrInvalidPath, w)
          else (case change (Clone (st_data s)) of
            Inl e \<Rightarrow> if errors_Is e continuity_errUnchanged then (None, w) else (Some e, w)
          | Inr nxt \<Rightarrow> (case validate nxt of
              Some e \<Rightarrow> (Some e, w)
            | None \<Rightarrow>
                (let (err, d') = WriteAtomic env nxt (disk w)
                 in case translate err of
                      Some e \<Rightarrow> (Some e, w\<lparr>disk := d'\<rparr>)
                    | None \<Rightarrow> (None, w\<lparr>store := Some (s\<lparr>st_data := nxt\<rparr>), disk := d'\<rparr>)))))"

subsection \<open>Mutations\<close>

text \<open>\<open>InstallSession\<close>: the loops of its callback, then the callback, then the call.\<close>

definition forgetChat :: "int64 \<Rightarrow> Checkpoint \<Rightarrow> Checkpoint" where
  "forgetChat chatID nxt = nxt
     \<lparr>KnownChats := map_option (\<lambda>xs. removeByChat ct_ChatID xs chatID) (KnownChats nxt),
      Chats := map_option (\<lambda>xs. removeByChat cc_ChatID xs chatID) (Chats nxt),
      HistoryGaps := map_option (\<lambda>xs. removeByChat hg_ChatID xs chatID) (HistoryGaps nxt),
      ReadWatermarks := map_option (\<lambda>xs. removeByChat rw_ChatID xs chatID) (ReadWatermarks nxt),
      DeliveryStarts := removeByChat ds_ChatID (DeliveryStarts nxt) chatID\<rparr>"

fun forgetChats :: "int64 list \<Rightarrow> Checkpoint \<Rightarrow> Checkpoint result" where
  "forgetChats [] nxt = Inr nxt"
| "forgetChats (chatID # rest) nxt =
     (if chatID \<le> 0 then Inl continuity_ErrInvalidCursor else forgetChats rest (forgetChat chatID nxt))"

fun observeTargets :: "ChatTarget list \<Rightarrow> ChatTarget list \<Rightarrow> ChatTarget list result" where
  "observeTargets [] known = Inr known"
| "observeTargets (target # rest) known =
     (if ct_ChatID target \<le> 0 \<or> ct_MaxLogID target < 0 then Inl continuity_ErrInvalidCursor
      else observeTargets rest (setTarget known target))"

definition raiseTargets :: "ChatCursor list \<Rightarrow> ChatTarget list \<Rightarrow> ChatTarget list" where
  "raiseTargets cursors known =
     foldl (\<lambda>ts cursor. fst (raiseTarget ts (targetOf cursor))) known cursors"

definition installChange ::
  "int64 option \<Rightarrow> int64 option \<Rightarrow> ChatTarget list \<Rightarrow> int64 list \<Rightarrow> bool \<Rightarrow> Checkpoint \<Rightarrow> Checkpoint result" where
  "installChange lastTokenID lbk observed deleted replaceInventory nxt =
     (if (\<exists>t\<in>set_option lastTokenID. t < 0) \<or> (\<exists>b\<in>set_option lbk. b < 0)
      then Inl continuity_ErrInvalidCursor
      else
       (let nxt1 = (case lastTokenID of None \<Rightarrow> nxt | Some t \<Rightarrow> nxt\<lparr>LastTokenID := t\<rparr>);
            nxt2 = (case lbk of None \<Rightarrow> nxt1 | Some b \<Rightarrow> nxt1\<lparr>LBK := b\<rparr>);
            nxt3 = (if replaceInventory then nxt2\<lparr>KnownChats := Some []\<rparr> else nxt2)
        in case forgetChats deleted nxt3 of
             Inl e \<Rightarrow> Inl e
           | Inr nxt4 \<Rightarrow> (case observeTargets observed (sl (KnownChats nxt4)) of
               Inl e \<Rightarrow> Inl e
             | Inr known \<Rightarrow>
                 Inr (nxt4\<lparr>KnownChats := Some (raiseTargets (sl (Chats nxt4)) known),
                           CleanShutdown := False\<rparr>))))"

definition InstallSession ::
  "write_env \<Rightarrow> int64 option \<Rightarrow> int64 option \<Rightarrow> ChatTarget list \<Rightarrow> int64 list \<Rightarrow> bool \<Rightarrow> world
    \<Rightarrow> go_error option \<times> world" where
  "InstallSession env lastTokenID lbk observed deleted replaceInventory w =
     update_store env (installChange lastTokenID lbk observed deleted replaceInventory) w"

definition gapMerge :: "int64 \<Rightarrow> int64 \<Rightarrow> HistoryGap \<Rightarrow> HistoryGap \<times> bool" where
  "gapMerge fromLogID toLogID gap =
     (gap\<lparr>hg_FromLogID := min (hg_FromLogID gap) fromLogID,
          hg_ToLogID := max (hg_ToLogID gap) toLogID\<rparr>, True)"

definition gapChange :: "int64 \<Rightarrow> int64 \<Rightarrow> int64 \<Rightarrow> Checkpoint \<Rightarrow> Checkpoint" where
  "gapChange chatID fromLogID toLogID nxt = nxt\<lparr>HistoryGaps := Some (fst (upsertByChat hg_ChatID
     (sl (HistoryGaps nxt)) \<lparr>hg_ChatID = chatID, hg_FromLogID = fromLogID, hg_ToLogID = toLogID\<rparr>
     (gapMerge fromLogID toLogID)))\<rparr>"

definition RecordGap ::
  "write_env \<Rightarrow> int64 \<Rightarrow> int64 \<Rightarrow> int64 \<Rightarrow> world \<Rightarrow> go_error option \<times> world" where
  "RecordGap env chatID fromLogID toLogID w =
     (if chatID \<le> 0 \<or> fromLogID \<le> 0 \<or> toLogID < fromLogID
      then (Some continuity_ErrInvalidCursor, w)
      else update_store env (\<lambda>nxt. Inr (gapChange chatID fromLogID toLogID nxt)) w)"

definition resolveChange :: "int64 \<Rightarrow> int64 \<Rightarrow> Checkpoint \<Rightarrow> Checkpoint" where
  "resolveChange chatID logID nxt =
     (let gaps = sl (HistoryGaps nxt); (index, found) = searchChat hg_ChatID gaps chatID
      in if \<not> found \<or> logID < hg_FromLogID (gaps ! index) then nxt
         else if logID \<ge> hg_ToLogID (gaps ! index)
         then nxt\<lparr>HistoryGaps := Some (removeByChat hg_ChatID gaps chatID)\<rparr>
         else nxt\<lparr>HistoryGaps :=
                Some (gaps[index := (gaps ! index)\<lparr>hg_FromLogID := wrap64 (logID + 1)\<rparr>])\<rparr>)"

definition ResolveGapThrough ::
  "write_env \<Rightarrow> int64 \<Rightarrow> int64 \<Rightarrow> world \<Rightarrow> go_error option \<times> world" where
  "ResolveGapThrough env chatID logID w =
     (if chatID \<le> 0 \<or> logID \<le> 0 then (Some continuity_ErrInvalidCursor, w)
      else update_store env (\<lambda>nxt. Inr (resolveChange chatID logID nxt)) w)"

definition startMerge :: "int64 \<Rightarrow> DeliveryStart \<Rightarrow> DeliveryStart \<times> bool" where
  "startMerge logID start =
     (if logID \<ge> ds_FirstLogID start then (start, False)
      else (start\<lparr>ds_FirstLogID := logID\<rparr>, True))"

definition startChange :: "int64 \<Rightarrow> int64 \<Rightarrow> Checkpoint \<Rightarrow> Checkpoint result" where
  "startChange chatID logID nxt =
     (if snd (searchChat cc_ChatID (sl (Chats nxt)) chatID) then Inl continuity_errUnchanged
      else (let (known, raised) =
                  raiseTarget (sl (KnownChats nxt)) \<lparr>ct_ChatID = chatID, ct_MaxLogID = logID\<rparr>;
                (starts, lowered) = upsertByChat ds_ChatID (DeliveryStarts nxt)
                  \<lparr>ds_ChatID = chatID, ds_FirstLogID = logID\<rparr> (startMerge logID)
            in if \<not> lowered \<and> \<not> raised then Inl continuity_errUnchanged
               else Inr (nxt\<lparr>KnownChats := Some known, DeliveryStarts := starts\<rparr>)))"

definition RecordDeliveryStart ::
  "write_env \<Rightarrow> int64 \<Rightarrow> int64 \<Rightarrow> world \<Rightarrow> go_error option \<times> world" where
  "RecordDeliveryStart env chatID logID w =
     (if chatID \<le> 0 \<or> logID \<le> 0 then (Some continuity_ErrInvalidCursor, w)
      else update_store env (startChange chatID logID) w)"

definition cursorMerge :: "int64 \<Rightarrow> ChatCursor \<Rightarrow> ChatCursor \<times> bool" where
  "cursorMerge logID cursor =
     (if logID \<le> cc_MaxLogID cursor then (cursor, False)
      else (cursor\<lparr>cc_MaxLogID := logID\<rparr>, True))"

definition commitChange :: "int64 \<Rightarrow> int64 \<Rightarrow> Checkpoint \<Rightarrow> bool \<times> Checkpoint" where
  "commitChange chatID logID nxt =
     (let nxt1 = nxt\<lparr>DeliveryStarts := removeByChat ds_ChatID (DeliveryStarts nxt) chatID\<rparr>;
          (chats, advanced) = upsertByChat cc_ChatID (sl (Chats nxt1))
             \<lparr>cc_ChatID = chatID, cc_MaxLogID = logID\<rparr> (cursorMerge logID);
          nxt2 = nxt1\<lparr>Chats := Some chats\<rparr>
      in if advanced
         then (True, nxt2\<lparr>KnownChats := Some (fst (raiseTarget (sl (KnownChats nxt2))
                \<lparr>ct_ChatID = chatID, ct_MaxLogID = logID\<rparr>))\<rparr>)
         else (False, nxt2))"

text \<open>Whether the callback ran at all decides what the captured \<open>advanced\<close> holds.\<close>

definition callbackRuns :: "world \<Rightarrow> bool" where
  "callbackRuns w = (case store w of None \<Rightarrow> False | Some s \<Rightarrow> st_path s \<noteq> [])"

definition storeData :: "world \<Rightarrow> Checkpoint" where
  "storeData w = (case store w of None \<Rightarrow> Snapshot None | Some s \<Rightarrow> st_data s)"

definition CommitMessage ::
  "write_env \<Rightarrow> int64 \<Rightarrow> int64 \<Rightarrow> world \<Rightarrow> bool \<times> go_error option \<times> world" where
  "CommitMessage env chatID logID w =
     (if chatID \<le> 0 \<or> logID \<le> 0 then (False, Some continuity_ErrInvalidCursor, w)
      else (callbackRuns w \<and> fst (commitChange chatID logID (Clone (storeData w))),
            update_store env (\<lambda>nxt. Inr (snd (commitChange chatID logID nxt))) w))"

definition ReadWatermark_of :: "world \<Rightarrow> int64 \<Rightarrow> int64" where
  "ReadWatermark_of w chatID =
     (case store w of
        None \<Rightarrow> 0
      | Some s \<Rightarrow>
          if chatID \<le> 0 then 0
          else (let (index, found) = searchChat rw_ChatID (sl (ReadWatermarks (st_data s))) chatID
                in if \<not> found then 0 else rw_Watermark (sl (ReadWatermarks (st_data s)) ! index)))"

definition watermarkMerge :: "int64 \<Rightarrow> ReadWatermark \<Rightarrow> ReadWatermark \<times> bool" where
  "watermarkMerge watermark current =
     (if watermark \<le> rw_Watermark current then (current, False)
      else (current\<lparr>rw_Watermark := watermark\<rparr>, True))"

definition watermarkChange :: "int64 \<Rightarrow> int64 \<Rightarrow> Checkpoint \<Rightarrow> bool \<times> Checkpoint" where
  "watermarkChange chatID watermark nxt =
     (let (marks, advanced) = upsertByChat rw_ChatID (sl (ReadWatermarks nxt))
             \<lparr>rw_ChatID = chatID, rw_Watermark = watermark\<rparr> (watermarkMerge watermark)
      in (advanced, nxt\<lparr>ReadWatermarks := Some marks\<rparr>))"

definition CommitReadWatermark ::
  "write_env \<Rightarrow> int64 \<Rightarrow> int64 \<Rightarrow> world \<Rightarrow> bool \<times> go_error option \<times> world" where
  "CommitReadWatermark env chatID watermark w =
     (if chatID \<le> 0 \<or> watermark \<le> 0 then (False, Some continuity_ErrInvalidCursor, w)
      else (callbackRuns w \<and> fst (watermarkChange chatID watermark (Clone (storeData w))),
            update_store env (\<lambda>nxt. Inr (snd (watermarkChange chatID watermark nxt))) w))"

definition IsCommitted :: "world \<Rightarrow> int64 \<Rightarrow> int64 \<Rightarrow> bool" where
  "IsCommitted w chatID logID =
     (case store w of
        None \<Rightarrow> False
      | Some s \<Rightarrow>
          if chatID \<le> 0 \<or> logID \<le> 0 then False
          else (let (index, found) = searchChat cc_ChatID (sl (Chats (st_data s))) chatID
                in found \<and> logID \<le> cc_MaxLogID (sl (Chats (st_data s)) ! index)))"

definition MarkClean :: "write_env \<Rightarrow> world \<Rightarrow> go_error option \<times> world" where
  "MarkClean env w = update_store env (\<lambda>nxt. Inr (nxt\<lparr>CleanShutdown := True\<rparr>)) w"

subsection \<open>The five tables\<close>

interpretation cursors: chat_table cc_ChatID "searchChat cc_ChatID" "upsertByChat cc_ChatID"
  "removeByChat cc_ChatID" "tableSorted cc_ChatID"
  by (rule chat_table_impl)

interpretation targets: chat_table ct_ChatID "searchChat ct_ChatID" "upsertByChat ct_ChatID"
  "removeByChat ct_ChatID" "tableSorted ct_ChatID"
  by (rule chat_table_impl)

interpretation gaps: chat_table hg_ChatID "searchChat hg_ChatID" "upsertByChat hg_ChatID"
  "removeByChat hg_ChatID" "tableSorted hg_ChatID"
  by (rule chat_table_impl)

interpretation marks: chat_table rw_ChatID "searchChat rw_ChatID" "upsertByChat rw_ChatID"
  "removeByChat rw_ChatID" "tableSorted rw_ChatID"
  by (rule chat_table_impl)

interpretation starts: chat_table ds_ChatID "searchChat ds_ChatID" "upsertByChat ds_ChatID"
  "removeByChat ds_ChatID" "tableSorted ds_ChatID"
  by (rule chat_table_impl)

text \<open>The maps a checkpoint denotes.\<close>

definition cursorAt :: "Checkpoint \<Rightarrow> int64 \<Rightarrow> ChatCursor option" where
  "cursorAt c = entryOf cc_ChatID (sl (Chats c))"
definition targetAt :: "Checkpoint \<Rightarrow> int64 \<Rightarrow> ChatTarget option" where
  "targetAt c = entryOf ct_ChatID (sl (KnownChats c))"
definition gapAt :: "Checkpoint \<Rightarrow> int64 \<Rightarrow> HistoryGap option" where
  "gapAt c = entryOf hg_ChatID (sl (HistoryGaps c))"
definition markAt :: "Checkpoint \<Rightarrow> int64 \<Rightarrow> ReadWatermark option" where
  "markAt c = entryOf rw_ChatID (sl (ReadWatermarks c))"
definition startAt :: "Checkpoint \<Rightarrow> int64 \<Rightarrow> DeliveryStart option" where
  "startAt c = entryOf ds_ChatID (DeliveryStarts c)"

lemmas at_defs = cursorAt_def targetAt_def gapAt_def markAt_def startAt_def

definition headerOk :: "Checkpoint \<Rightarrow> bool" where
  "headerOk c \<longleftrightarrow> cp_Version c = Version \<and> 0 \<le> LastTokenID c \<and> 0 \<le> LBK c \<and> Chats c \<noteq> None
     \<and> KnownChats c \<noteq> None \<and> HistoryGaps c \<noteq> None \<and> ReadWatermarks c \<noteq> None"

definition tablesOk :: "Checkpoint \<Rightarrow> bool" where
  "tablesOk c \<longleftrightarrow> sortedByChat cc_ChatID (sl (Chats c)) validCursor
     \<and> sortedByChat ct_ChatID (sl (KnownChats c)) validTarget
     \<and> sortedByChat hg_ChatID (sl (HistoryGaps c)) validGap
     \<and> sortedByChat rw_ChatID (sl (ReadWatermarks c)) validWatermark
     \<and> sortedByChat ds_ChatID (DeliveryStarts c) validStart"

lemma validate_iff: "validate c = None \<longleftrightarrow> headerOk c \<and> tablesOk c"
  by (auto simp: validate_def headerOk_def tablesOk_def)

lemma Clone_fields [simp]:
  "sl (Chats (Clone c)) = sl (Chats c)" "sl (KnownChats (Clone c)) = sl (KnownChats c)"
  "sl (HistoryGaps (Clone c)) = sl (HistoryGaps c)" "sl (ReadWatermarks (Clone c)) = sl (ReadWatermarks c)"
  "DeliveryStarts (Clone c) = DeliveryStarts c" "cp_Version (Clone c) = cp_Version c"
  "LastTokenID (Clone c) = LastTokenID c" "LBK (Clone c) = LBK c"
  by (simp_all add: Clone_def)

lemma Clone_id: "headerOk c \<Longrightarrow> Clone c = c"
  by (cases c) (auto simp: headerOk_def Clone_def)

lemma validate_Clone: "validate c = None \<Longrightarrow> Clone c = c"
  by (simp add: validate_iff Clone_id)

end
