(* ===== verification/Continuity_Ledger.thy ===== *)
theory Continuity_Ledger
  imports Continuity
begin

text \<open>
  The contract of the continuity store. A checkpoint denotes a \<open>ledger\<close> of partial maps
  (\<open>ledgerOf\<close>); every mutation of the store is one update of those maps
  (\<open>execL\<close>), and the store's operations (\<open>exec\<close>) refine it: with a working file
  system and admissible arguments they succeed, keep the checkpoint valid and commute with
  the abstraction; when anything fails the state in memory is untouched and the file holds
  the old or the new checkpoint, both valid. \<open>reach\<close> is every state of a store that
  starts fresh, under any sequence of operations, arguments and file-system behaviour.
\<close>

subsection \<open>The abstract ledger\<close>

record ledger =
  committed :: "int64 \<rightharpoonup> int64"
  known :: "int64 \<rightharpoonup> int64"
  gap :: "int64 \<rightharpoonup> int64 \<times> int64"
  readmark :: "int64 \<rightharpoonup> int64"
  started :: "int64 \<rightharpoonup> int64"

definition ledgerOf :: "Checkpoint \<Rightarrow> ledger" where
  "ledgerOf c = \<lparr>committed = (\<lambda>i. map_option cc_MaxLogID (cursorAt c i)),
     known = (\<lambda>i. map_option ct_MaxLogID (targetAt c i)),
     gap = (\<lambda>i. map_option (\<lambda>g. (hg_FromLogID g, hg_ToLogID g)) (gapAt c i)),
     readmark = (\<lambda>i. map_option rw_Watermark (markAt c i)),
     started = (\<lambda>i. map_option ds_FirstLogID (startAt c i))\<rparr>"

definition raised :: "int64 option \<Rightarrow> int64 \<Rightarrow> int64" where
  "raised old l = (case old of None \<Rightarrow> l | Some m \<Rightarrow> max m l)"

definition lowered :: "int64 option \<Rightarrow> int64 \<Rightarrow> int64" where
  "lowered old l = (case old of None \<Rightarrow> l | Some m \<Rightarrow> min m l)"

definition above :: "int64 option \<Rightarrow> int64 \<Rightarrow> bool" where
  "above old l = (case old of None \<Rightarrow> True | Some m \<Rightarrow> m < l)"

text \<open>The operations of a store and what each does to the ledger.\<close>

datatype store_op =
    OpInstall "int64 option" "int64 option" "ChatTarget list" "int64 list" bool
  | OpRecordGap int64 int64 int64
  | OpResolveGap int64 int64
  | OpStart int64 int64
  | OpCommit int64 int64
  | OpRead int64 int64
  | OpClean

definition forgetL :: "int64 list \<Rightarrow> ledger \<Rightarrow> ledger" where
  "forgetL chats l = \<lparr>committed = committed l |` (- set chats), known = known l |` (- set chats),
     gap = gap l |` (- set chats), readmark = readmark l |` (- set chats),
     started = started l |` (- set chats)\<rparr>"

definition observeL :: "ChatTarget list \<Rightarrow> (int64 \<rightharpoonup> int64) \<Rightarrow> (int64 \<rightharpoonup> int64)" where
  "observeL observed m = foldl (\<lambda>m t. m(ct_ChatID t \<mapsto> ct_MaxLogID t)) m observed"

definition coverL :: "(int64 \<rightharpoonup> int64) \<Rightarrow> (int64 \<rightharpoonup> int64) \<Rightarrow> (int64 \<rightharpoonup> int64)" where
  "coverL comm m = (\<lambda>i. case comm i of None \<Rightarrow> m i | Some l \<Rightarrow> Some (raised (m i) l))"

fun execL :: "store_op \<Rightarrow> ledger \<Rightarrow> ledger" where
  "execL (OpInstall _ _ observed deleted replaceInventory) l =
     (let l1 = (if replaceInventory then l\<lparr>known := Map.empty\<rparr> else l); l2 = forgetL deleted l1
      in l2\<lparr>known := coverL (committed l2) (observeL observed (known l2))\<rparr>)"
| "execL (OpRecordGap chat from to) l = l\<lparr>gap := (gap l)(chat \<mapsto>
     (case gap l chat of None \<Rightarrow> (from, to) | Some (a, b) \<Rightarrow> (min a from, max b to)))\<rparr>"
| "execL (OpResolveGap chat log) l =
     (case gap l chat of
        None \<Rightarrow> l
      | Some (a, b) \<Rightarrow> if log < a then l
                      else l\<lparr>gap := (gap l)(chat := if b \<le> log then None else Some (log + 1, b))\<rparr>)"
| "execL (OpStart chat log) l =
     (if committed l chat \<noteq> None then l
      else l\<lparr>known := (known l)(chat \<mapsto> raised (known l chat) log),
             started := (started l)(chat \<mapsto> lowered (started l chat) log)\<rparr>)"
| "execL (OpCommit chat log) l =
     l\<lparr>committed := (committed l)(chat \<mapsto> raised (committed l chat) log),
       known := (if above (committed l chat) log
                 then (known l)(chat \<mapsto> raised (known l chat) log) else known l),
       started := (started l)(chat := None)\<rparr>"
| "execL (OpRead chat mark) l = l\<lparr>readmark := (readmark l)(chat \<mapsto> raised (readmark l chat) mark)\<rparr>"
| "execL OpClean l = l"

fun exec :: "write_env \<Rightarrow> store_op \<Rightarrow> world \<Rightarrow> go_error option \<times> world" where
  "exec env (OpInstall token lbk observed deleted replaceInventory) w =
     InstallSession env token lbk observed deleted replaceInventory w"
| "exec env (OpRecordGap chat from to) w = RecordGap env chat from to w"
| "exec env (OpResolveGap chat log) w = ResolveGapThrough env chat log w"
| "exec env (OpStart chat log) w = RecordDeliveryStart env chat log w"
| "exec env (OpCommit chat log) w = snd (CommitMessage env chat log w)"
| "exec env (OpRead chat mark) w = snd (CommitReadWatermark env chat mark w)"
| "exec env OpClean w = MarkClean env w"

text \<open>The arguments an operation admits.\<close>

fun admissible :: "store_op \<Rightarrow> bool" where
  "admissible (OpInstall token lbk observed deleted _) =
     ((\<forall>t\<in>set_option token. 0 \<le> t) \<and> (\<forall>b\<in>set_option lbk. 0 \<le> b) \<and> (\<forall>c\<in>set deleted. 0 < c)
      \<and> (\<forall>t\<in>set observed. 0 < ct_ChatID t \<and> 0 \<le> ct_MaxLogID t))"
| "admissible (OpRecordGap chat from to) = (0 < chat \<and> 0 < from \<and> from \<le> to)"
| "admissible (OpResolveGap chat log) = (0 < chat \<and> 0 < log)"
| "admissible (OpStart chat log) = (0 < chat \<and> 0 < log)"
| "admissible (OpCommit chat log) = (0 < chat \<and> 0 < log)"
| "admissible (OpRead chat mark) = (0 < chat \<and> 0 < mark)"
| "admissible OpClean = True"

definition gapsIn64 :: "Checkpoint \<Rightarrow> bool" where
  "gapsIn64 c \<longleftrightarrow> (\<forall>g\<in>set (sl (HistoryGaps c)). in64 (hg_ToLogID g))"

text \<open>The change each operation applies to the cloned checkpoint.\<close>

fun changeOf :: "store_op \<Rightarrow> Checkpoint \<Rightarrow> Checkpoint result" where
  "changeOf (OpInstall token lbk observed deleted replaceInventory) c =
     installChange token lbk observed deleted replaceInventory c"
| "changeOf (OpRecordGap chat from to) c = Inr (gapChange chat from to c)"
| "changeOf (OpResolveGap chat log) c = Inr (resolveChange chat log c)"
| "changeOf (OpStart chat log) c = startChange chat log c"
| "changeOf (OpCommit chat log) c = Inr (snd (commitChange chat log c))"
| "changeOf (OpRead chat mark) c = Inr (snd (watermarkChange chat mark c))"
| "changeOf OpClean c = Inr (c\<lparr>CleanShutdown := True\<rparr>)"

subsection \<open>Merges keep the key and the validity of an entry\<close>

lemma merge_keys [simp]:
  "cc_ChatID (fst (cursorMerge l c)) = cc_ChatID c" "ct_ChatID (fst (raiseMerge t u)) = ct_ChatID u"
  "hg_ChatID (fst (gapMerge a b g)) = hg_ChatID g" "rw_ChatID (fst (watermarkMerge l r)) = rw_ChatID r"
  "ds_ChatID (fst (startMerge l s)) = ds_ChatID s" "ct_ChatID (targetOf c) = cc_ChatID c"
  "ct_MaxLogID (targetOf c) = cc_MaxLogID c"
  by (simp_all add: cursorMerge_def raiseMerge_def gapMerge_def watermarkMerge_def startMerge_def targetOf_def)

lemma merge_valid:
  "0 < l \<Longrightarrow> validCursor c \<Longrightarrow> validCursor (fst (cursorMerge l c))"
  "validTarget t \<Longrightarrow> validTarget u \<Longrightarrow> validTarget (fst (raiseMerge t u))"
  "0 < a \<Longrightarrow> a \<le> b \<Longrightarrow> validGap g \<Longrightarrow> validGap (fst (gapMerge a b g))"
  "0 < l \<Longrightarrow> validWatermark r \<Longrightarrow> validWatermark (fst (watermarkMerge l r))"
  "0 < l \<Longrightarrow> validStart s \<Longrightarrow> validStart (fst (startMerge l s))"
  by (auto simp: cursorMerge_def raiseMerge_def gapMerge_def watermarkMerge_def startMerge_def
      validCursor_def validTarget_def validGap_def validWatermark_def validStart_def)

lemma merge_values:
  "cc_MaxLogID (fst (cursorMerge l c)) = max (cc_MaxLogID c) l"
  "ct_MaxLogID (fst (raiseMerge t u)) = max (ct_MaxLogID u) (ct_MaxLogID t)"
  "hg_FromLogID (fst (gapMerge a b g)) = min (hg_FromLogID g) a"
  "hg_ToLogID (fst (gapMerge a b g)) = max (hg_ToLogID g) b"
  "rw_Watermark (fst (watermarkMerge l r)) = max (rw_Watermark r) l"
  "ds_FirstLogID (fst (startMerge l s)) = min (ds_FirstLogID s) l"
  "snd (cursorMerge l c) \<longleftrightarrow> cc_MaxLogID c < l"
  "snd (raiseMerge t u) \<longleftrightarrow> ct_MaxLogID u < ct_MaxLogID t"
  "snd (startMerge l s) \<longleftrightarrow> l < ds_FirstLogID s"
  "snd (watermarkMerge l r) \<longleftrightarrow> rw_Watermark r < l"
  by (auto simp: cursorMerge_def raiseMerge_def gapMerge_def watermarkMerge_def startMerge_def)

lemma raiseTarget_ok:
  assumes "sortedByChat ct_ChatID ts validTarget" "0 < ct_ChatID t" "validTarget t"
  shows "sortedByChat ct_ChatID (fst (raiseTarget ts t)) validTarget"
  unfolding raiseTarget_def by (rule upsertByChat_sorted) (use assms in \<open>auto intro: merge_valid\<close>)

lemma raiseTarget_map:
  assumes "tableSorted ct_ChatID ts"
  shows "map_option ct_MaxLogID (entryOf ct_ChatID (fst (raiseTarget ts t)) i)
    = (if i = ct_ChatID t then Some (raised (map_option ct_MaxLogID (entryOf ct_ChatID ts i)) (ct_MaxLogID t))
       else map_option ct_MaxLogID (entryOf ct_ChatID ts i))"
  unfolding raiseTarget_def using assms
  by (simp add: targets.upsert_entry raised_def merge_values split: option.split)

lemma setTarget_ok:
  assumes "sortedByChat ct_ChatID ts validTarget" "0 < ct_ChatID t" "validTarget t"
  shows "sortedByChat ct_ChatID (setTarget ts t) validTarget"
  unfolding setTarget_def by (rule upsertByChat_sorted) (use assms in auto)

lemma setTarget_map:
  assumes "tableSorted ct_ChatID ts"
  shows "map_option ct_MaxLogID (entryOf ct_ChatID (setTarget ts t) i)
    = (if i = ct_ChatID t then Some (ct_MaxLogID t) else map_option ct_MaxLogID (entryOf ct_ChatID ts i))"
  unfolding setTarget_def using assms by (simp add: targets.upsert_entry split: option.split)

lemmas table_laws = sortedByChat_table targets.upsert_entry cursors.upsert_entry gaps.upsert_entry
  marks.upsert_entry starts.upsert_entry targets.remove_entry cursors.remove_entry
  gaps.remove_entry marks.remove_entry starts.remove_entry

subsection \<open>Each change keeps the checkpoint valid and refines the ledger\<close>

lemma ledger_eqI:
  assumes "committed a = committed b" "known a = known b" "gap a = gap b"
    "readmark a = readmark b" "started a = started b"
  shows "a = (b :: ledger)"
  using assms by (cases a; cases b) auto

lemma gapChange_ok:
  assumes "validate c = None" "0 < chat" "0 < a" "a \<le> b"
  shows "validate (gapChange chat a b c) = None"
    "ledgerOf (gapChange chat a b c) = execL (OpRecordGap chat a b) (ledgerOf c)"
proof -
  have s: "sortedByChat hg_ChatID (sl (HistoryGaps c)) validGap"
    using assms(1) by (simp add: validate_iff tablesOk_def)
  let ?v = "\<lparr>hg_ChatID = chat, hg_FromLogID = a, hg_ToLogID = b\<rparr>"
  have "sortedByChat hg_ChatID (fst (upsertByChat hg_ChatID (sl (HistoryGaps c)) ?v (gapMerge a b))) validGap"
    by (rule upsertByChat_sorted [OF s]) (use assms in \<open>auto simp: validGap_def [of ?v] intro: merge_valid\<close>)
  with assms(1) show "validate (gapChange chat a b c) = None"
    by (simp add: validate_iff tablesOk_def headerOk_def gapChange_def)
  show "ledgerOf (gapChange chat a b c) = execL (OpRecordGap chat a b) (ledgerOf c)"
    using s by (intro ledger_eqI) (auto simp: ledgerOf_def gapChange_def at_defs table_laws
        merge_values fun_eq_iff split: option.split)
qed

lemma watermarkChange_ok:
  assumes "validate c = None" "0 < chat" "0 < l"
  shows "validate (snd (watermarkChange chat l c)) = None"
    "ledgerOf (snd (watermarkChange chat l c)) = execL (OpRead chat l) (ledgerOf c)"
proof -
  have s: "sortedByChat rw_ChatID (sl (ReadWatermarks c)) validWatermark"
    using assms(1) by (simp add: validate_iff tablesOk_def)
  let ?v = "\<lparr>rw_ChatID = chat, rw_Watermark = l\<rparr>"
  have "sortedByChat rw_ChatID (fst (upsertByChat rw_ChatID (sl (ReadWatermarks c)) ?v (watermarkMerge l))) validWatermark"
    by (rule upsertByChat_sorted [OF s]) (use assms in \<open>auto simp: validWatermark_def [of ?v] intro: merge_valid\<close>)
  with assms(1) show "validate (snd (watermarkChange chat l c)) = None"
    by (simp add: validate_iff tablesOk_def headerOk_def watermarkChange_def case_prod_beta Let_def)
  show "ledgerOf (snd (watermarkChange chat l c)) = execL (OpRead chat l) (ledgerOf c)"
    using s by (intro ledger_eqI) (auto simp: ledgerOf_def watermarkChange_def at_defs table_laws
        merge_values raised_def fun_eq_iff case_prod_beta Let_def split: option.split)
qed

lemma commitChange_ok:
  assumes "validate c = None" "0 < chat" "0 < l"
  shows "validate (snd (commitChange chat l c)) = None"
    "ledgerOf (snd (commitChange chat l c)) = execL (OpCommit chat l) (ledgerOf c)"
    "fst (commitChange chat l c) \<longleftrightarrow> above (committed (ledgerOf c) chat) l"
proof -
  let ?v = "\<lparr>cc_ChatID = chat, cc_MaxLogID = l\<rparr>" and ?t = "\<lparr>ct_ChatID = chat, ct_MaxLogID = l\<rparr>"
  have s: "sortedByChat cc_ChatID (sl (Chats c)) validCursor"
    "sortedByChat ct_ChatID (sl (KnownChats c)) validTarget"
    "sortedByChat ds_ChatID (DeliveryStarts c) validStart"
    using assms(1) by (simp_all add: validate_iff tablesOk_def)
  have "sortedByChat cc_ChatID (fst (upsertByChat cc_ChatID (sl (Chats c)) ?v (cursorMerge l))) validCursor"
    by (rule upsertByChat_sorted [OF s(1)]) (use assms in \<open>auto simp: validCursor_def [of ?v] intro: merge_valid\<close>)
  moreover have "sortedByChat ct_ChatID (fst (raiseTarget (sl (KnownChats c)) ?t)) validTarget"
    by (rule raiseTarget_ok [OF s(2)]) (use assms in \<open>auto simp: validTarget_def\<close>)
  ultimately show "validate (snd (commitChange chat l c)) = None"
    using assms(1) removeByChat_sorted [OF s(3), of chat]
    by (simp add: validate_iff tablesOk_def headerOk_def commitChange_def case_prod_beta Let_def)
  have flag: "snd (upsertByChat cc_ChatID (sl (Chats c)) ?v (cursorMerge l))
      \<longleftrightarrow> above (committed (ledgerOf c) chat) l"
    using s(1) by (simp add: cursors.upsert_flag table_laws ledgerOf_def at_defs above_def merge_values
        split: option.split)
  then show "fst (commitChange chat l c) \<longleftrightarrow> above (committed (ledgerOf c) chat) l"
    by (simp add: commitChange_def case_prod_beta Let_def)
  show "ledgerOf (snd (commitChange chat l c)) = execL (OpCommit chat l) (ledgerOf c)"
    using s flag by (intro ledger_eqI) (auto simp: ledgerOf_def commitChange_def at_defs table_laws
        raiseTarget_map merge_values raised_def fun_eq_iff case_prod_beta Let_def split: option.split)
qed

lemma startChange_ok:
  assumes "validate c = None" "0 < chat" "0 < l"
  shows "startChange chat l c = Inr c' \<Longrightarrow> validate c' = None"
    "startChange chat l c = Inr c' \<Longrightarrow> ledgerOf c' = execL (OpStart chat l) (ledgerOf c)"
    "startChange chat l c = Inl e \<Longrightarrow> e = continuity_errUnchanged
       \<and> execL (OpStart chat l) (ledgerOf c) = ledgerOf c"
proof -
  let ?v = "\<lparr>ds_ChatID = chat, ds_FirstLogID = l\<rparr>" and ?t = "\<lparr>ct_ChatID = chat, ct_MaxLogID = l\<rparr>"
  have s: "sortedByChat cc_ChatID (sl (Chats c)) validCursor"
    "sortedByChat ct_ChatID (sl (KnownChats c)) validTarget"
    "sortedByChat ds_ChatID (DeliveryStarts c) validStart"
    using assms(1) by (simp_all add: validate_iff tablesOk_def)
  have "sortedByChat ds_ChatID (fst (upsertByChat ds_ChatID (DeliveryStarts c) ?v (startMerge l))) validStart"
    by (rule upsertByChat_sorted [OF s(3)]) (use assms in \<open>auto simp: validStart_def [of ?v] intro: merge_valid\<close>)
  moreover have "sortedByChat ct_ChatID (fst (raiseTarget (sl (KnownChats c)) ?t)) validTarget"
    by (rule raiseTarget_ok [OF s(2)]) (use assms in \<open>auto simp: validTarget_def\<close>)
  ultimately show "startChange chat l c = Inr c' \<Longrightarrow> validate c' = None"
    using assms(1) by (auto simp: validate_iff tablesOk_def headerOk_def startChange_def case_prod_beta
        Let_def split: if_splits)
  have comm: "snd (searchChat cc_ChatID (sl (Chats c)) chat) \<longleftrightarrow> committed (ledgerOf c) chat \<noteq> None"
    using s(1) by (simp add: cursors.search_flag table_laws ledgerOf_def at_defs)
  show "startChange chat l c = Inr c' \<Longrightarrow> ledgerOf c' = execL (OpStart chat l) (ledgerOf c)"
    using s comm by (intro ledger_eqI) (auto simp: ledgerOf_def startChange_def at_defs table_laws
        raiseTarget_def merge_values raised_def lowered_def fun_eq_iff case_prod_beta Let_def
        split: option.split if_splits)
  have flags: "snd (raiseTarget (sl (KnownChats c)) ?t) \<longleftrightarrow> above (known (ledgerOf c) chat) l"
    "\<not> snd (upsertByChat ds_ChatID (DeliveryStarts c) ?v (startMerge l)) \<longleftrightarrow>
       (\<exists>f. started (ledgerOf c) chat = Some f \<and> f \<le> l)"
    using s by (auto simp: raiseTarget_def targets.upsert_flag starts.upsert_flag table_laws ledgerOf_def
        at_defs above_def merge_values split: option.split)
  show "startChange chat l c = Inl e \<Longrightarrow> e = continuity_errUnchanged
       \<and> execL (OpStart chat l) (ledgerOf c) = ledgerOf c"
    using comm flags by (auto simp: startChange_def case_prod_beta Let_def above_def raised_def
        lowered_def max_def min_def intro!: ledger_eqI split: if_splits option.splits)
qed

lemma resolveChange_ok:
  assumes "validate c = None" "gapsIn64 c" "0 < l"
  shows "validate (resolveChange chat l c) = None"
    "ledgerOf (resolveChange chat l c) = execL (OpResolveGap chat l) (ledgerOf c)"
    "gapsIn64 (resolveChange chat l c)"
proof -
  let ?gs = "sl (HistoryGaps c)"
  have s: "sortedByChat hg_ChatID ?gs validGap"
    using assms(1) by (simp add: validate_iff tablesOk_def)
  have t: "tableSorted hg_ChatID ?gs" using s by (rule sortedByChat_table)
  obtain i found where sr: "searchChat hg_ChatID ?gs chat = (i, found)" by fastforce
  have e: "entryOf hg_ChatID ?gs chat = (if found then Some (?gs ! i) else None)"
    and lt: "found \<Longrightarrow> i < length ?gs" using searchChat_entryOf [OF t sr] by auto
  let ?g = "?gs ! i" let ?g' = "?g\<lparr>hg_FromLogID := wrap64 (l + 1)\<rparr>"
  have key: "found \<Longrightarrow> hg_ChatID ?g = chat" using gaps.entry_key e by (metis)
  have up: "?gs[i := ?g'] = fst (upsertByChat hg_ChatID ?gs ?g (\<lambda>g. (?g', True)))" if found
    using upsertByChat_found [of hg_ChatID ?gs ?g i "\<lambda>g. (?g', True)"] sr that key by simp
  have w: "wrap64 (l + 1) = l + 1" if found "l < hg_ToLogID ?g"
    using assms(2,3) lt that by (intro wrap64_succ_below [of "hg_ToLogID ?g"]) (auto simp: gapsIn64_def)
  have s': "sortedByChat hg_ChatID (?gs[i := ?g']) validGap" if "found" "l < hg_ToLogID ?g"
    unfolding up [OF that(1)]
  proof (rule upsertByChat_sorted [OF s])
    show "validGap ?g" using s lt that by (auto simp: sortedByChat_iff)
    show "0 < hg_ChatID ?g" using t lt that by (auto simp: tableSorted_iff)
    show "validGap (fst (?g', True))" using w that assms(3) by (simp add: validGap_def)
  qed simp
  show "validate (resolveChange chat l c) = None"
    using assms(1) s' sr removeByChat_sorted [OF s, of chat]
    by (auto simp: validate_iff tablesOk_def headerOk_def resolveChange_def Let_def)
  have m: "entryOf hg_ChatID (?gs[i := ?g']) = (entryOf hg_ChatID ?gs)(chat \<mapsto> ?g')" if found
    unfolding up [OF that] using t that key e by (subst gaps.upsert_entry) auto
  show "ledgerOf (resolveChange chat l c) = execL (OpResolveGap chat l) (ledgerOf c)"
    using e sr w m t by (intro ledger_eqI) (auto simp: ledgerOf_def resolveChange_def at_defs
        gaps.remove_entry fun_eq_iff Let_def split: option.split)
  have "set (removeByChat hg_ChatID ?gs chat) \<subseteq> set ?gs"
    by (auto simp: removeByChat_cases dest: in_set_takeD in_set_dropD)
  with assms(2) lt show "gapsIn64 (resolveChange chat l c)"
    using sr by (auto simp: gapsIn64_def resolveChange_def Let_def dest!: set_update_subset_insert [THEN subsetD])
qed

text \<open>\<open>InstallSession\<close>, loop by loop.\<close>

lemma sl_remove [simp]:
  "sl (map_option (\<lambda>xs. removeByChat key xs c) s) = removeByChat key (sl s) c"
  by (cases s) (simp_all add: removeByChat_cases)

lemma forgetChat_ok:
  assumes "validate c = None"
  shows "validate (forgetChat chat c) = None" "ledgerOf (forgetChat chat c) = forgetL [chat] (ledgerOf c)"
    "gapsIn64 c \<Longrightarrow> gapsIn64 (forgetChat chat c)"
proof -
  have h: "headerOk c" and s: "sortedByChat cc_ChatID (sl (Chats c)) validCursor"
    "sortedByChat ct_ChatID (sl (KnownChats c)) validTarget"
    "sortedByChat hg_ChatID (sl (HistoryGaps c)) validGap"
    "sortedByChat rw_ChatID (sl (ReadWatermarks c)) validWatermark"
    "sortedByChat ds_ChatID (DeliveryStarts c) validStart"
    using assms by (simp_all add: validate_iff tablesOk_def)
  show "validate (forgetChat chat c) = None"
    using h s by (simp add: validate_iff tablesOk_def headerOk_def forgetChat_def removeByChat_sorted)
  show "ledgerOf (forgetChat chat c) = forgetL [chat] (ledgerOf c)"
    using s by (intro ledger_eqI) (auto simp: ledgerOf_def forgetChat_def forgetL_def at_defs table_laws
        fun_eq_iff restrict_map_def)
  show "gapsIn64 (forgetChat chat c)" if "gapsIn64 c"
    using that gaps.remove_all [OF sortedByChat_table [OF s(3)], of "\<lambda>g. in64 (hg_ToLogID g)" chat]
    by (simp add: gapsIn64_def forgetChat_def)
qed

lemma forgetL_Cons: "forgetL (x # xs) l = forgetL xs (forgetL [x] l)"
  by (intro ledger_eqI) (auto simp: forgetL_def restrict_map_def fun_eq_iff)

lemma forgetL_Nil: "forgetL [] l = l"
  by (intro ledger_eqI) (auto simp: forgetL_def restrict_map_def fun_eq_iff)

lemma forgetChats_ok:
  assumes "validate c = None" "\<forall>i\<in>set chats. 0 < i"
  shows "\<exists>c'. forgetChats chats c = Inr c' \<and> validate c' = None \<and> ledgerOf c' = forgetL chats (ledgerOf c)
    \<and> (gapsIn64 c \<longrightarrow> gapsIn64 c')"
  using assms
proof (induction chats arbitrary: c)
  case (Cons x xs)
  then have "validate (forgetChat x c) = None" by (simp add: forgetChat_ok)
  from Cons.IH [OF this] Cons.prems show ?case by (auto simp: forgetChat_ok forgetL_Cons [of x xs])
qed (simp add: forgetL_Nil)

lemma observeTargets_ok:
  assumes "sortedByChat ct_ChatID ts validTarget" "\<forall>t\<in>set obs. 0 < ct_ChatID t \<and> 0 \<le> ct_MaxLogID t"
  shows "\<exists>ts'. observeTargets obs ts = Inr ts' \<and> sortedByChat ct_ChatID ts' validTarget
    \<and> (\<lambda>i. map_option ct_MaxLogID (entryOf ct_ChatID ts' i))
        = observeL obs (\<lambda>i. map_option ct_MaxLogID (entryOf ct_ChatID ts i))"
  using assms
proof (induction obs arbitrary: ts)
  case (Cons t obs)
  let ?m = "\<lambda>ts i. map_option ct_MaxLogID (entryOf ct_ChatID ts i)"
  have s: "sortedByChat ct_ChatID (setTarget ts t) validTarget"
    by (rule setTarget_ok) (use Cons.prems in \<open>auto simp: validTarget_def [of t]\<close>)
  have "?m (setTarget ts t) = (?m ts)(ct_ChatID t \<mapsto> ct_MaxLogID t)"
    using Cons.prems(1) by (auto simp: setTarget_map sortedByChat_table)
  with Cons.IH [OF s] Cons.prems(2) show ?case by (fastforce simp: observeL_def)
qed (simp add: observeL_def)

lemma raiseTargets_ok:
  assumes "sortedByChat ct_ChatID ts validTarget" "sortedByChat cc_ChatID cs validCursor"
  shows "sortedByChat ct_ChatID (raiseTargets cs ts) validTarget"
    "(\<lambda>i. map_option ct_MaxLogID (entryOf ct_ChatID (raiseTargets cs ts) i))
       = coverL (\<lambda>i. map_option cc_MaxLogID (entryOf cc_ChatID cs i))
           (\<lambda>i. map_option ct_MaxLogID (entryOf ct_ChatID ts i))"
proof -
  let ?m = "\<lambda>ts i. map_option ct_MaxLogID (entryOf ct_ChatID ts i)"
  have "sorted_wrt (<) (map cc_ChatID cs)" "\<forall>x\<in>set cs. 0 < cc_ChatID x \<and> validCursor x"
    using assms(2) by (auto simp: sortedByChat_iff tableSorted_iff)
  with assms(1) have "sortedByChat ct_ChatID (raiseTargets cs ts) validTarget \<and>
      ?m (raiseTargets cs ts) = coverL (\<lambda>i. map_option cc_MaxLogID (entryOf cc_ChatID cs i)) (?m ts)"
  proof (induction cs arbitrary: ts)
    case Nil
    then show ?case by (simp add: raiseTargets_def coverL_def entryOf_def)
  next
    case (Cons c cs)
    let ?ts = "fst (raiseTarget ts (targetOf c))"
    have s: "sortedByChat ct_ChatID ?ts validTarget"
      by (rule raiseTarget_ok) (use Cons.prems in \<open>auto simp: validTarget_def [of "targetOf c"] validCursor_def\<close>)
    have absent: "entryOf cc_ChatID cs (cc_ChatID c) = None"
      using Cons.prems(2) by (auto simp: entryOf_None)
    have "raiseTargets (c # cs) ts = raiseTargets cs ?ts" by (simp add: raiseTargets_def)
    moreover have "?m ?ts = (?m ts)(cc_ChatID c \<mapsto> raised (?m ts (cc_ChatID c)) (cc_MaxLogID c))"
      using Cons.prems(1) by (auto simp: raiseTarget_map sortedByChat_table)
    ultimately show ?case using Cons.IH [OF s] Cons.prems absent
      by (auto simp: coverL_def entryOf_Cons fun_eq_iff)
  qed
  then show "sortedByChat ct_ChatID (raiseTargets cs ts) validTarget"
    "?m (raiseTargets cs ts) = coverL (\<lambda>i. map_option cc_MaxLogID (entryOf cc_ChatID cs i)) (?m ts)"
    by auto
qed

lemma installChange_ok:
  assumes "validate c = None" "admissible (OpInstall token lbk observed deleted repl)"
  shows "\<exists>c'. installChange token lbk observed deleted repl c = Inr c' \<and> validate c' = None
    \<and> ledgerOf c' = execL (OpInstall token lbk observed deleted repl) (ledgerOf c)
    \<and> (gapsIn64 c \<longrightarrow> gapsIn64 c')"
proof -
  define c1 where "c1 = (case token of None \<Rightarrow> c | Some t \<Rightarrow> c\<lparr>LastTokenID := t\<rparr>)"
  define c2 where "c2 = (case lbk of None \<Rightarrow> c1 | Some b \<Rightarrow> c1\<lparr>LBK := b\<rparr>)"
  define c3 where "c3 = (if repl then c2\<lparr>KnownChats := Some []\<rparr> else c2)"
  note ok_defs = validate_iff headerOk_def tablesOk_def
  have v1: "validate c1 = None" using assms by (cases token) (simp_all add: c1_def ok_defs)
  have v2: "validate c2 = None" using assms v1 by (cases lbk) (simp_all add: c2_def ok_defs)
  have l1: "ledgerOf c1 = ledgerOf c" by (cases token) (simp_all add: c1_def ledgerOf_def at_defs)
  have l2: "ledgerOf c2 = ledgerOf c" using l1 by (cases lbk) (simp_all add: c2_def ledgerOf_def at_defs)
  have g3: "HistoryGaps c3 = HistoryGaps c"
    by (cases token; cases lbk) (simp_all add: c1_def c2_def c3_def)
  have c3: "validate c3 = None"
    "ledgerOf c3 = (if repl then (ledgerOf c)\<lparr>known := Map.empty\<rparr> else ledgerOf c)"
    using v2 l2 by (simp_all add: c3_def ok_defs ledgerOf_def at_defs entryOf_def)
  obtain c4 where c4: "forgetChats deleted c3 = Inr c4" "validate c4 = None"
      "ledgerOf c4 = forgetL deleted (ledgerOf c3)" "gapsIn64 c3 \<longrightarrow> gapsIn64 c4"
    using forgetChats_ok [OF c3(1), of deleted] assms(2) by auto
  have s4: "sortedByChat ct_ChatID (sl (KnownChats c4)) validTarget"
      "sortedByChat cc_ChatID (sl (Chats c4)) validCursor"
    using c4(2) by (simp_all add: validate_iff tablesOk_def)
  obtain ts where ts: "observeTargets observed (sl (KnownChats c4)) = Inr ts"
      "sortedByChat ct_ChatID ts validTarget"
      "(\<lambda>i. map_option ct_MaxLogID (entryOf ct_ChatID ts i)) = observeL observed (known (ledgerOf c4))"
    using observeTargets_ok [OF s4(1), of observed] assms(2) by (auto simp: ledgerOf_def targetAt_def)
  let ?c = "c4\<lparr>KnownChats := Some (raiseTargets (sl (Chats c4)) ts), CleanShutdown := False\<rparr>"
  have "installChange token lbk observed deleted repl c = Inr ?c"
    unfolding installChange_def Let_def c1_def [symmetric] c2_def [symmetric] c3_def [symmetric]
    using assms(2) c4(1) ts(1) by auto
  moreover have "validate ?c = None"
    using c4(2) raiseTargets_ok(1) [OF ts(2) s4(2)] by (simp add: validate_iff headerOk_def tablesOk_def)
  moreover have "ledgerOf ?c = (ledgerOf c4)\<lparr>known := coverL (committed (ledgerOf c4))
      (observeL observed (known (ledgerOf c4)))\<rparr>"
    using raiseTargets_ok(2) [OF ts(2) s4(2)] ts(3) by (simp add: ledgerOf_def at_defs)
  moreover have "gapsIn64 c \<longrightarrow> gapsIn64 ?c"
    using g3 c4(4) by (simp add: gapsIn64_def)
  ultimately show ?thesis using c3(2) c4(3) by (simp add: Let_def)
qed

subsection \<open>The transaction\<close>

lemmas changeOf_abs = changeOf.simps [abs_def]

lemma exec_update: "admissible op \<Longrightarrow> exec env op w = update_store env (changeOf op) w"
  by (cases op) (simp_all add: changeOf_abs InstallSession_def RecordGap_def ResolveGapThrough_def
      RecordDeliveryStart_def CommitMessage_def CommitReadWatermark_def MarkClean_def)

lemma forgetChats_bad:
  "\<exists>x\<in>set chats. x \<le> 0 \<Longrightarrow> forgetChats chats c = Inl continuity_ErrInvalidCursor"
  by (induction chats arbitrary: c) auto

lemma observeTargets_bad:
  "\<exists>t\<in>set obs. ct_ChatID t \<le> 0 \<or> ct_MaxLogID t < 0 \<Longrightarrow> observeTargets obs ts = Inl continuity_ErrInvalidCursor"
  by (induction obs arbitrary: ts) auto

lemma forgetChats_Inl: "forgetChats chats c = Inl e \<Longrightarrow> e = continuity_ErrInvalidCursor"
  by (induction chats arbitrary: c) (auto split: if_splits)

lemma installChange_bad:
  assumes "\<not> admissible (OpInstall token lbk observed deleted repl)"
  shows "installChange token lbk observed deleted repl c = Inl continuity_ErrInvalidCursor"
proof (cases "(\<exists>t\<in>set_option token. t < 0) \<or> (\<exists>b\<in>set_option lbk. b < 0)")
  case True
  then show ?thesis by (simp add: installChange_def)
next
  case False
  with assms consider "\<exists>x\<in>set deleted. x \<le> 0" | "\<exists>t\<in>set observed. ct_ChatID t \<le> 0 \<or> ct_MaxLogID t < 0"
    by (auto simp: not_le not_less)
  then show ?thesis
    by cases (auto simp: installChange_def Let_def forgetChats_bad observeTargets_bad
        dest: forgetChats_Inl split: sum.split)
qed

text \<open>Rejected arguments change nothing.\<close>

lemma exec_inadmissible:
  assumes "\<not> admissible op" "store w = Some s" "st_path s \<noteq> []"
  shows "exec env op w = (Some continuity_ErrInvalidCursor, w)"
proof (cases op)
  case (OpInstall token lbk observed deleted repl)
  with assms show ?thesis
    by (simp add: InstallSession_def update_store_def installChange_bad errors_Is.simps)
qed (use assms in \<open>auto simp: RecordGap_def ResolveGapThrough_def RecordDeliveryStart_def
      CommitMessage_def CommitReadWatermark_def\<close>)

text \<open>A change that validates: the outcome of the transaction, whatever the file system does.\<close>

lemma changeOf_ok:
  assumes "validate c = None" "gapsIn64 c" "admissible op"
  shows "(\<exists>c'. changeOf op c = Inr c' \<and> validate c' = None \<and> ledgerOf c' = execL op (ledgerOf c))
    \<or> (changeOf op c = Inl continuity_errUnchanged \<and> execL op (ledgerOf c) = ledgerOf c)"
proof (cases op)
  case (OpInstall token lbk observed deleted repl)
  with installChange_ok [OF assms(1), of token lbk observed deleted repl] assms(3)
  obtain c' where "changeOf op c = Inr c'" "validate c' = None" "ledgerOf c' = execL op (ledgerOf c)"
    by (auto simp del: execL.simps admissible.simps)
  then show ?thesis by blast
next
  case (OpStart chat l)
  with assms(3) have p: "0 < chat" "0 < l" by auto
  show ?thesis
  proof (cases "startChange chat l c")
    case (Inl e)
    with startChange_ok(3) [OF assms(1) p Inl] OpStart show ?thesis by simp
  next
    case (Inr c')
    with startChange_ok(1,2) [OF assms(1) p Inr] OpStart show ?thesis by simp
  qed
next
  case OpClean
  have "ledgerOf (c\<lparr>CleanShutdown := True\<rparr>) = ledgerOf c" by (simp add: ledgerOf_def at_defs)
  with OpClean assms(1) show ?thesis by (simp add: validate_iff headerOk_def tablesOk_def)
qed (use assms in \<open>simp_all add: gapChange_ok resolveChange_ok commitChange_ok watermarkChange_ok
      del: execL.simps\<close>)

definition okStore :: "world \<Rightarrow> bool" where
  "okStore w \<longleftrightarrow> (\<exists>s. store w = Some s \<and> st_path s \<noteq> [] \<and> validate (st_data s) = None \<and> gapsIn64 (st_data s))"

lemma okStoreE:
  assumes "okStore w"
  obtains s where "store w = Some s" "st_path s \<noteq> []" "validate (st_data s) = None" "gapsIn64 (st_data s)"
    "storeData w = st_data s" "Clone (st_data s) = st_data s"
  using assms by (auto simp: okStore_def storeData_def validate_Clone)

text \<open>The four outcomes of an operation on a valid store.\<close>

lemma exec_cases:
  assumes "okStore w" "exec env op w = (r, w')"
  obtains (rejected) "\<not> admissible op" "r = Some continuity_ErrInvalidCursor" "w' = w"
  | (unchanged) "admissible op" "r = None" "w' = w" "execL op (ledgerOf (storeData w)) = ledgerOf (storeData w)"
  | (failed) c e where "admissible op" "r = Some e" "store w' = store w" "disk w' = disk w \<or> disk w' = Some c"
      "changeOf op (storeData w) = Inr c" "validate c = None" "ledgerOf c = execL op (ledgerOf (storeData w))"
  | (written) c where "admissible op" "r = None" "store w' = Some ((the (store w))\<lparr>st_data := c\<rparr>)" "disk w' = Some c"
      "changeOf op (storeData w) = Inr c" "validate c = None" "ledgerOf c = execL op (ledgerOf (storeData w))"
proof -
  obtain s where s: "store w = Some s" "st_path s \<noteq> []" "validate (st_data s) = None" "gapsIn64 (st_data s)"
      "storeData w = st_data s" "Clone (st_data s) = st_data s"
    using assms(1) by (rule okStoreE)
  show thesis
  proof (cases "admissible op")
    case False
    with exec_inadmissible [OF False s(1,2)] assms(2) rejected show thesis by simp
  next
    case True
    have u: "update_store env (changeOf op) w = (r, w')" using assms(2) exec_update [OF True] by simp
    from changeOf_ok [OF s(3,4) True] show thesis
    proof
      assume "changeOf op (st_data s) = Inl continuity_errUnchanged \<and> execL op (ledgerOf (st_data s)) = ledgerOf (st_data s)"
      with u s True unchanged show thesis by (simp add: update_store_def errors_Is.simps)
    next
      assume "\<exists>c. changeOf op (st_data s) = Inr c \<and> validate c = None \<and> ledgerOf c = execL op (ledgerOf (st_data s))"
      then obtain c where c: "changeOf op (st_data s) = Inr c" "validate c = None"
          "ledgerOf c = execL op (ledgerOf (st_data s))" by blast
      obtain err d where wr: "WriteAtomic env c (disk w) = (err, d)" by fastforce
      show thesis
      proof (cases "translate err")
        case None
        then have "err = None" by (simp add: translate_def split: option.splits if_splits)
        with wr have "d = Some c" by (simp add: WriteAtomic_ok_disk)
        with u s c wr None True written [of c] show thesis by (auto simp: update_store_def)
      next
        case (Some e)
        with u s c wr True failed [where c = c and e = e] WriteAtomic_disk [OF wr] show thesis by (auto simp: update_store_def)
      qed
    qed
  qed
qed

lemma exec_good:
  assumes "okStore w" "admissible op" "exec good_write op w = (r, w')"
  shows "r = None" "ledgerOf (storeData w') = execL op (ledgerOf (storeData w))"
    "w' = w \<or> disk w' = Some (storeData w')"
proof -
  obtain s where s: "store w = Some s" "st_path s \<noteq> []" "validate (st_data s) = None" "gapsIn64 (st_data s)"
      "storeData w = st_data s" "Clone (st_data s) = st_data s"
    using assms(1) by (rule okStoreE)
  show "r = None"
    using changeOf_ok [OF s(3,4) assms(2)] s assms(3) exec_update [OF assms(2)]
    by (auto simp: update_store_def translate_def errors_Is.simps)
  with assms(1,3) show "ledgerOf (storeData w') = execL op (ledgerOf (storeData w))"
    "w' = w \<or> disk w' = Some (storeData w')"
    by (auto elim!: exec_cases simp: storeData_def)
qed

subsection \<open>Reachable stores\<close>

fun argsIn64 :: "store_op \<Rightarrow> bool" where
  "argsIn64 (OpRecordGap _ _ to) = in64 to"
| "argsIn64 _ = True"

text \<open>
  A committed position is always covered by the chat's known target, and a chat that has a
  committed position has no delivery start any more.
\<close>

definition ledgerInv :: "ledger \<Rightarrow> bool" where
  "ledgerInv l \<longleftrightarrow> (\<forall>i m. committed l i = Some m \<longrightarrow> (\<exists>t. known l i = Some t \<and> m \<le> t))
     \<and> (\<forall>i. committed l i \<noteq> None \<longrightarrow> started l i = None)"

definition soundCheckpoint :: "Checkpoint \<Rightarrow> bool" where
  "soundCheckpoint c \<longleftrightarrow> validate c = None \<and> gapsIn64 c \<and> ledgerInv (ledgerOf c)"

definition soundWorld :: "world \<Rightarrow> bool" where
  "soundWorld w \<longleftrightarrow> (\<exists>s d. store w = Some s \<and> st_path s \<noteq> [] \<and> soundCheckpoint (st_data s)
     \<and> disk w = Some d \<and> soundCheckpoint d)"

inductive reach :: "world \<Rightarrow> bool" where
  fresh: "path \<noteq> [] \<Longrightarrow> reach \<lparr>store = Some \<lparr>st_path = path, st_data = freshCheckpoint\<rparr>, disk = Some freshCheckpoint\<rparr>"
| step: "reach w \<Longrightarrow> argsIn64 op \<Longrightarrow> exec env op w = (r, w') \<Longrightarrow> reach w'"
| reopen: "reach w \<Longrightarrow> disk w = Some d \<Longrightarrow> Read (oe_read env) = Inr (Some d) \<Longrightarrow> path \<noteq> []
    \<Longrightarrow> Open env path (Some d) = (None, w') \<Longrightarrow> reach w'"

fun run :: "(write_env \<times> store_op) list \<Rightarrow> world \<Rightarrow> world" where
  "run [] w = w"
| "run ((env, op) # ops) w = run ops (snd (exec env op w))"

fun deletes :: "store_op \<Rightarrow> int64 \<Rightarrow> bool" where
  "deletes (OpInstall _ _ _ deleted _) chat = (chat \<in> set deleted)"
| "deletes _ chat = False"

lemma execL_inv:
  assumes "ledgerInv l"
  shows "ledgerInv (execL op l)"
proof (cases op)
  case (OpInstall token lbk observed deleted repl)
  have "\<exists>t. coverL m k i = Some t \<and> x \<le> t" if "m i = Some x" for m k i x
    using that by (auto simp: coverL_def raised_def split: option.split)
  with assms OpInstall show ?thesis
    by (auto simp: ledgerInv_def Let_def forgetL_def restrict_map_def split: if_splits)
next
  case (OpCommit chat log)
  with assms show ?thesis
    by (fastforce simp: ledgerInv_def above_def raised_def split: option.splits if_splits)
next
  case (OpStart chat log)
  with assms show ?thesis
    by (fastforce simp: ledgerInv_def raised_def split: option.splits if_splits)
next
  case (OpResolveGap chat log)
  with assms show ?thesis by (auto simp: ledgerInv_def split: option.splits)
qed (use assms in \<open>auto simp: ledgerInv_def\<close>)

lemma gapChange_in64:
  assumes "validate c = None" "0 < chat" "0 < a" "a \<le> b" "gapsIn64 c" "in64 b"
  shows "gapsIn64 (gapChange chat a b c)"
proof -
  have s: "tableSorted hg_ChatID (sl (HistoryGaps c))"
    using assms(1) by (auto simp: validate_iff tablesOk_def intro: sortedByChat_table)
  have "\<forall>g\<in>set (fst (upsertByChat hg_ChatID (sl (HistoryGaps c))
      \<lparr>hg_ChatID = chat, hg_FromLogID = a, hg_ToLogID = b\<rparr> (gapMerge a b))). in64 (hg_ToLogID g)"
    by (rule gaps.upsert_all [OF s]) (use assms in \<open>auto simp: merge_values gapsIn64_def max_def\<close>)
  then show ?thesis by (simp add: gapsIn64_def gapChange_def)
qed

lemma changeOf_in64:
  assumes "validate c = None" "gapsIn64 c" "admissible op" "argsIn64 op" "changeOf op c = Inr c'"
  shows "gapsIn64 c'"
proof (cases op)
  case (OpInstall token lbk observed deleted repl)
  then show ?thesis
    using installChange_ok [OF assms(1), of token lbk observed deleted repl] assms
    by (auto simp del: execL.simps admissible.simps)
next
  case (OpRecordGap chat a b)
  with assms show ?thesis by (auto intro: gapChange_in64)
next
  case (OpResolveGap chat l)
  with assms resolveChange_ok(3) show ?thesis by auto
next
  case (OpStart chat l)
  with assms show ?thesis
    by (auto simp: startChange_def gapsIn64_def case_prod_beta Let_def split: if_splits)
next
  case (OpCommit chat l)
  with assms show ?thesis
    by (auto simp: commitChange_def gapsIn64_def case_prod_beta Let_def split: if_splits)
next
  case (OpRead chat l)
  with assms show ?thesis
    by (auto simp: watermarkChange_def gapsIn64_def case_prod_beta Let_def split: if_splits)
qed (use assms in \<open>auto simp: gapsIn64_def\<close>)

lemma soundWorld_ok: "soundWorld w \<Longrightarrow> okStore w"
  by (auto simp: soundWorld_def okStore_def soundCheckpoint_def)

lemma exec_sound:
  assumes "soundWorld w" "argsIn64 op" "exec env op w = (r, w')"
  shows "soundWorld w'"
proof -
  obtain s d where w: "store w = Some s" "st_path s \<noteq> []" "soundCheckpoint (st_data s)"
      "disk w = Some d" "soundCheckpoint d" "storeData w = st_data s"
    using assms(1) by (auto simp: soundWorld_def storeData_def)
  have c: "soundCheckpoint c" if "admissible op" "changeOf op (storeData w) = Inr c" "validate c = None"
      "ledgerOf c = execL op (ledgerOf (storeData w))" for c
    using that w(3,6) changeOf_in64 [of "st_data s" op c] assms(2) execL_inv
    by (simp add: soundCheckpoint_def)
  show ?thesis
    using soundWorld_ok [OF assms(1)] assms(3)
    by (rule exec_cases) (use w c assms(1) in \<open>auto simp: soundWorld_def\<close>)
qed

lemma migrate_current:
  assumes "validate d = None"
  shows "migrate d = Inr (d, False)"
proof -
  have "cp_Version d = 6" using assms by (simp add: validate_iff headerOk_def Version_def)
  with assms show ?thesis
    by (simp add: migrate_def migrate5_def migrate4_def migrateOldest_def Version_def
        unprovenReadVersion_def oldestVersion_def previousVersion_def)
qed

lemma reach_sound: "reach w \<Longrightarrow> soundWorld w"
proof (induction rule: reach.induct)
  case (fresh path)
  then show ?case
    by (auto simp: soundWorld_def soundCheckpoint_def freshCheckpoint_def validate_iff headerOk_def
        tablesOk_def gapsIn64_def ledgerInv_def ledgerOf_def at_defs entryOf_def)
next
  case (step w op env r w')
  then show ?case by (blast intro: exec_sound)
next
  case (reopen w d env path w')
  then have "soundCheckpoint d" by (auto simp: soundWorld_def)
  moreover have "migrate d = Inr (d, False)"
    using calculation by (simp add: soundCheckpoint_def migrate_current)
  ultimately show ?case
    using reopen by (auto simp: Open_def soundWorld_def split: if_splits option.splits)
qed

lemma execL_committed:
  assumes "committed l i = Some m" "\<not> deletes op i"
  shows "\<exists>m'\<ge>m. committed (execL op l) i = Some m'"
  using assms by (cases op) (auto simp: raised_def Let_def forgetL_def restrict_map_def split: option.splits)

lemma exec_committed:
  assumes "soundWorld w" "committed (ledgerOf (storeData w)) i = Some m" "\<not> deletes op i"
    "exec env op w = (r, w')"
  shows "\<exists>m'\<ge>m. committed (ledgerOf (storeData w')) i = Some m'"
  using soundWorld_ok [OF assms(1)] assms(4)
  by (rule exec_cases) (use assms(2) execL_committed [OF assms(2,3)] in \<open>auto simp: storeData_def\<close>)

subsection \<open>Derived facts for the properties\<close>

text \<open>The positions of a chat that are recorded as unresolved.\<close>

definition gapPositions :: "world \<Rightarrow> int64 \<Rightarrow> int64 set" where
  "gapPositions w chat = (case gap (ledgerOf (storeData w)) chat of None \<Rightarrow> {} | Some (a, b) \<Rightarrow> {a..b})"

text \<open>A store with two chats, one of them with a gap and a read watermark, for the witnesses.\<close>

definition sampleCheckpoint :: Checkpoint where
  "sampleCheckpoint = freshCheckpoint
     \<lparr>Chats := Some [\<lparr>cc_ChatID = 7, cc_MaxLogID = 40\<rparr>, \<lparr>cc_ChatID = 9, cc_MaxLogID = 55\<rparr>],
      KnownChats := Some [\<lparr>ct_ChatID = 7, ct_MaxLogID = 60\<rparr>, \<lparr>ct_ChatID = 9, ct_MaxLogID = 55\<rparr>],
      HistoryGaps := Some [\<lparr>hg_ChatID = 7, hg_FromLogID = 41, hg_ToLogID = 60\<rparr>],
      ReadWatermarks := Some [\<lparr>rw_ChatID = 9, rw_Watermark = 50\<rparr>]\<rparr>"

definition sampleWorld :: world where
  "sampleWorld = \<lparr>store = Some \<lparr>st_path = ''/p'', st_data = sampleCheckpoint\<rparr>, disk = Some sampleCheckpoint\<rparr>"

lemmas sample_defs = sampleWorld_def sampleCheckpoint_def freshCheckpoint_def

lemma sampleCheckpoint_sound: "soundCheckpoint sampleCheckpoint"
  by (auto simp: soundCheckpoint_def sample_defs validate_iff headerOk_def tablesOk_def sortedByChat_def
      validCursor_def validTarget_def validGap_def validWatermark_def gapsIn64_def in64_def ledgerInv_def
      ledgerOf_def at_defs entryOf_def split: if_splits)

lemma sampleWorld_sound: "soundWorld sampleWorld"
  using sampleCheckpoint_sound by (simp add: soundWorld_def sampleWorld_def)

lemma sampleWorld_ok: "okStore sampleWorld"
  by (rule soundWorld_ok [OF sampleWorld_sound])

lemma run_committed:
  assumes "soundWorld w" "\<forall>(env, op)\<in>set ops. argsIn64 op \<and> \<not> deletes op i"
    "committed (ledgerOf (storeData w)) i = Some m"
  shows "\<exists>m'\<ge>m. committed (ledgerOf (storeData (run ops w))) i = Some m'"
  using assms
proof (induction ops arbitrary: w m)
  case (Cons x ops)
  obtain env op where x: "x = (env, op)" by fastforce
  obtain r w' where e: "exec env op w = (r, w')" by fastforce
  have a: "argsIn64 op" "\<not> deletes op i" using Cons.prems(2) x by auto
  have "soundWorld w'" using Cons.prems(1) a(1) e by (rule exec_sound)
  moreover obtain m' where "m \<le> m'" "committed (ledgerOf (storeData w')) i = Some m'"
    using exec_committed [OF Cons.prems(1,3) a(2) e] by blast
  ultimately show ?case using Cons.IH [of w' m'] Cons.prems(2) x e by auto
qed auto

lemma gapsValid:
  "validate c = None \<Longrightarrow> gap (ledgerOf c) i = Some (a, b) \<Longrightarrow> 0 < a \<and> a \<le> b"
  by (auto simp: ledgerOf_def gapAt_def validate_iff tablesOk_def validGap_def dest!: sortedByChat_entry)

lemma IsCommitted_ledger:
  assumes "okStore w"
  shows "IsCommitted w chat l \<longleftrightarrow> 0 < chat \<and> 0 < l \<and> (\<exists>m. committed (ledgerOf (storeData w)) chat = Some m \<and> l \<le> m)"
proof -
  obtain s where s: "store w = Some s" "validate (st_data s) = None" "storeData w = st_data s"
    using assms by (rule okStoreE)
  have t: "tableSorted cc_ChatID (sl (Chats (st_data s)))"
    using s(2) by (auto simp: validate_iff tablesOk_def intro: sortedByChat_table)
  obtain i found where sr: "searchChat cc_ChatID (sl (Chats (st_data s))) chat = (i, found)" by fastforce
  show ?thesis using searchChat_entryOf(1) [OF t sr] sr s
    by (auto simp: IsCommitted_def ledgerOf_def cursorAt_def not_le)
qed

lemma CommittedMax_ledger:
  assumes "validate c = None"
  shows "CommittedMax c chat = (case committed (ledgerOf c) chat of None \<Rightarrow> 0 | Some m \<Rightarrow> m)"
proof -
  have t: "tableSorted cc_ChatID (sl (Chats c))"
    using assms by (auto simp: validate_iff tablesOk_def intro: sortedByChat_table)
  obtain i found where sr: "searchChat cc_ChatID (sl (Chats c)) chat = (i, found)" by fastforce
  show ?thesis using searchChat_entryOf(1) [OF t sr] sr
    by (simp add: CommittedMax_def ledgerOf_def cursorAt_def)
qed

lemma FirstDeliveryStart_ledger:
  assumes "validate c = None"
  shows "FirstDeliveryStart c chat = (case started (ledgerOf c) chat of None \<Rightarrow> 0 | Some m \<Rightarrow> m)"
proof -
  have t: "tableSorted ds_ChatID (DeliveryStarts c)"
    using assms by (auto simp: validate_iff tablesOk_def intro: sortedByChat_table)
  obtain i found where sr: "searchChat ds_ChatID (DeliveryStarts c) chat = (i, found)" by fastforce
  show ?thesis using searchChat_entryOf(1) [OF t sr] sr
    by (simp add: FirstDeliveryStart_def ledgerOf_def startAt_def)
qed

lemma okStore_exec:
  assumes "okStore w" "argsIn64 op" "exec env op w = (r, w')"
  shows "okStore w'"
  using assms(1,3)
proof (rule exec_cases)
  fix c
  assume "admissible op" "changeOf op (storeData w) = Inr c" "validate c = None"
    "store w' = Some ((the (store w))\<lparr>st_data := c\<rparr>)"
  then show "okStore w'"
    using assms(1,2) changeOf_in64 [of "storeData w" op c] by (auto simp: okStore_def storeData_def)
qed (use assms(1) in \<open>auto simp: okStore_def\<close>)

lemma map_of_zip_entryOf: "map_of (zip (map k xs) (map f xs)) i = map_option f (entryOf k xs i)"
  by (induction xs) (auto simp: entryOf_def)

subsection \<open>Properties\<close>

text \<open>C34: every operation of the continuity store, called with admissible arguments on a valid
  store and a working file system, succeeds, leaves a checkpoint that passes validation, and
  changes the maps the checkpoint denotes exactly as the abstract ledger prescribes.\<close>

theorem store_refines_ledger:
  assumes "okStore w" "admissible op" "argsIn64 op" "exec good_write op w = (r, w')"
  shows "r = None \<and> okStore w' \<and> ledgerOf (storeData w') = execL op (ledgerOf (storeData w))"
  using exec_good [OF assms(1,2,4)] okStore_exec [OF assms(1,3,4)] by simp

theorem store_refines_ledger_witness:
  "fst (exec good_write (OpCommit 7 50) sampleWorld) = None \<and>
   ledgerOf (storeData (snd (exec good_write (OpCommit 7 50) sampleWorld)))
     = execL (OpCommit 7 50) (ledgerOf sampleCheckpoint)"
  using store_refines_ledger [of sampleWorld "OpCommit 7 50", OF sampleWorld_ok]
  by (simp add: storeData_def sampleWorld_def prod_eq_iff)

text \<open>An operation that reports an error leaves the checkpoint in memory untouched, and the
  file holds either what it held before or the complete, valid successor checkpoint: never a
  partial or invalid document.\<close>

theorem failed_operation_atomic:
  assumes "okStore w" "exec env op w = (Some e, w')"
  shows "store w' = store w \<and> (disk w' = disk w \<or> (\<exists>c. disk w' = Some c \<and> validate c = None
    \<and> ledgerOf c = execL op (ledgerOf (storeData w))))"
  using assms by (rule exec_cases) auto

theorem failed_operation_atomic_witness:
  "exec (good_write\<lparr>we_rename := False\<rparr>) (OpCommit 7 50) sampleWorld = (Some continuity_ErrCorrupt, sampleWorld)
   \<and> store (snd (exec (good_write\<lparr>we_rename := False\<rparr>) (OpCommit 7 50) sampleWorld)) = store sampleWorld"
proof -
  let ?env = "good_write\<lparr>we_rename := False\<rparr>"
  have c: "validate (snd (commitChange 7 50 (Clone sampleCheckpoint))) = None"
    using commitChange_ok(1) [of sampleCheckpoint 7 50] sampleCheckpoint_sound
    by (simp add: soundCheckpoint_def validate_Clone)
  have e: "exec ?env (OpCommit 7 50) sampleWorld = (Some continuity_ErrCorrupt, sampleWorld)"
    using c by (simp add: CommitMessage_def update_store_def sampleWorld_def WriteAtomic_def good_env_defs
        ValidatePrivateDir_def encode_def translate_def errors_Is.simps)
  from failed_operation_atomic [OF sampleWorld_ok e] e show ?thesis by simp
qed

text \<open>C33: in every state a store can reach from a fresh profile, through any sequence of
  operations, arguments, file-system failures and restarts from the file, the checkpoint in
  memory and the one on disk are valid, every committed position is covered by the chat's
  known target, and a committed chat has no pending delivery start.\<close>

theorem reachable_store_sound:
  assumes "reach w"
  shows "\<exists>s d. store w = Some s \<and> disk w = Some d \<and> (\<forall>c\<in>{st_data s, d}. validate c = None
    \<and> (\<forall>i m. committed (ledgerOf c) i = Some m \<longrightarrow>
         (\<exists>t. known (ledgerOf c) i = Some t \<and> m \<le> t) \<and> started (ledgerOf c) i = None))"
  using reach_sound [OF assms] by (auto simp: soundWorld_def soundCheckpoint_def ledgerInv_def)

definition freshWorld :: world where
  "freshWorld = \<lparr>store = Some \<lparr>st_path = ''/p'', st_data = freshCheckpoint\<rparr>, disk = Some freshCheckpoint\<rparr>"

theorem reachable_store_sound_witness:
  "\<exists>s d. store (snd (exec good_write (OpCommit 7 50) freshWorld)) = Some s
     \<and> disk (snd (exec good_write (OpCommit 7 50) freshWorld)) = Some d \<and> validate (st_data s) = None \<and> validate d = None"
proof -
  have f: "reach freshWorld" unfolding freshWorld_def by (rule reach.fresh) simp
  have "reach (snd (exec good_write (OpCommit 7 50) freshWorld))"
    by (rule reach.step [OF f, of "OpCommit 7 50" good_write]) (simp_all add: prod_eq_iff)
  from reachable_store_sound [OF this] show ?thesis by auto
qed

text \<open>C32: a committed position is never lost or lowered. Whatever operations run on a sound store,
  successful or failing, as long as none of them deletes the chat, the chat stays committed at
  least as far as before.\<close>

theorem commits_survive:
  assumes "soundWorld w" "\<forall>(env, op)\<in>set ops. argsIn64 op \<and> \<not> deletes op chat"
    "committed (ledgerOf (storeData w)) chat = Some m"
  shows "\<exists>m'\<ge>m. committed (ledgerOf (storeData (run ops w))) chat = Some m'"
  using assms by (rule run_committed)

theorem commits_survive_witness:
  "\<exists>m'\<ge>40. committed (ledgerOf (storeData (run
     [(good_write, OpCommit 7 30), (good_write, OpInstall None (Some 3) [] [9] True)] sampleWorld))) 7 = Some m'"
  using commits_survive [of sampleWorld
      "[(good_write, OpCommit 7 30), (good_write, OpInstall None (Some 3) [] [9] True)]" 7 40,
      OF sampleWorld_sound]
  by (simp add: storeData_def ledgerOf_def cursorAt_def entryOf_def sample_defs)

text \<open>\<open>CommitMessage\<close> reports an advance exactly when the position is above the chat's committed
  maximum, afterwards exactly the positions up to the larger of the two count as committed,
  and no other chat's commit changes.\<close>

theorem CommitMessage_correct:
  assumes "okStore w" "0 < chat" "0 < l" "CommitMessage good_write chat l w = (advanced, r, w')"
  shows "r = None \<and> (advanced \<longleftrightarrow> CommittedMax (storeData w) chat < l)
    \<and> (\<forall>x. IsCommitted w' chat x \<longleftrightarrow> 0 < x \<and> x \<le> max l (CommittedMax (storeData w) chat))
    \<and> (\<forall>other x. other \<noteq> chat \<longrightarrow> IsCommitted w' other x = IsCommitted w other x)"
proof -
  obtain s where s: "store w = Some s" "st_path s \<noteq> []" "validate (st_data s) = None" "gapsIn64 (st_data s)"
      "storeData w = st_data s" "Clone (st_data s) = st_data s"
    using assms(1) by (rule okStoreE)
  let ?op = "OpCommit chat l"
  have e: "exec good_write ?op w = (r, w')" using assms(4) by simp
  have a: "admissible ?op" using assms(2,3) by simp
  note g = exec_good [OF assms(1) a e] and ok = okStore_exec [OF assms(1) _ e]
  have pos: "\<forall>m. committed (ledgerOf (st_data s)) chat = Some m \<longrightarrow> 0 < m"
    using s(3) by (auto simp: ledgerOf_def cursorAt_def validate_iff tablesOk_def validCursor_def
        dest!: sortedByChat_entry)
  have adv: "advanced \<longleftrightarrow> above (committed (ledgerOf (st_data s)) chat) l"
    using assms(2-4) s commitChange_ok(3) [OF s(3) assms(2,3)] by (simp add: CommitMessage_def callbackRuns_def)
  show ?thesis
    using g(1,2) adv pos IsCommitted_ledger [OF ok] IsCommitted_ledger [OF assms(1)] s assms(2,3)
    by (auto simp: CommittedMax_ledger above_def raised_def max_def split: option.splits if_splits)
qed

theorem CommitMessage_correct_witness:
  "fst (CommitMessage good_write 7 50 sampleWorld) \<and> IsCommitted (snd (snd (CommitMessage good_write 7 50 sampleWorld))) 7 45"
  using CommitMessage_correct [of sampleWorld 7 50, OF sampleWorld_ok]
  by (simp add: prod_eq_iff storeData_def CommittedMax_def searchChat_def sort_Search_def searchLoop.simps
      Let_def sample_defs nth_Cons')

text \<open>Resolving a gap through a position removes exactly the positions up to it from the chat's
  unresolved positions, and leaves every other chat's gap as it was.\<close>

theorem ResolveGapThrough_exact:
  assumes "okStore w" "0 < chat" "0 < l" "ResolveGapThrough good_write chat l w = (r, w')"
  shows "r = None \<and> gapPositions w' chat = gapPositions w chat \<inter> {l<..}
    \<and> (\<forall>other. other \<noteq> chat \<longrightarrow> gapPositions w' other = gapPositions w other)"
proof -
  have e: "exec good_write (OpResolveGap chat l) w = (r, w')" using assms(4) by simp
  have a: "admissible (OpResolveGap chat l)" using assms(2,3) by simp
  show ?thesis using exec_good [OF assms(1) a e] by (auto simp: gapPositions_def split: option.splits)
qed

theorem ResolveGapThrough_exact_witness:
  "gapPositions (snd (ResolveGapThrough good_write 7 45 sampleWorld)) 7 = {46..60}"
proof -
  have "gapPositions sampleWorld 7 = {41..60}"
    by (simp add: gapPositions_def storeData_def ledgerOf_def gapAt_def entryOf_def sample_defs)
  with ResolveGapThrough_exact [of sampleWorld 7 45, OF sampleWorld_ok] show ?thesis
    by (auto simp: prod_eq_iff)
qed

text \<open>Recording a gap keeps every position recorded before and adds every position of the new
  interval, and the chat's record is the smallest interval that does both.\<close>

theorem RecordGap_covers:
  assumes "okStore w" "0 < chat" "0 < a" "a \<le> b" "RecordGap good_write chat a b w = (r, w')"
  shows "r = None \<and> gapPositions w chat \<union> {a..b} \<subseteq> gapPositions w' chat
    \<and> (\<forall>lo hi. gapPositions w chat \<union> {a..b} \<subseteq> {lo..hi} \<longrightarrow> gapPositions w' chat \<subseteq> {lo..hi})"
proof -
  have e: "exec good_write (OpRecordGap chat a b) w = (r, w')" using assms(5) by simp
  have ad: "admissible (OpRecordGap chat a b)" using assms(2-4) by simp
  have v: "\<And>x y. gap (ledgerOf (storeData w)) chat = Some (x, y) \<Longrightarrow> x \<le> y"
    using assms(1) by (auto simp: okStore_def storeData_def dest: gapsValid)
  show ?thesis using exec_good [OF assms(1) ad e] v assms(4)
    by (auto simp: gapPositions_def split: option.splits)
qed

theorem RecordGap_covers_witness:
  "{41..60} \<union> {70..80} \<subseteq> gapPositions (snd (RecordGap good_write 7 70 80 sampleWorld)) 7"
proof -
  have "gapPositions sampleWorld 7 = {41..60}"
    by (simp add: gapPositions_def storeData_def ledgerOf_def gapAt_def entryOf_def sample_defs)
  with RecordGap_covers [of sampleWorld 7 70 80, OF sampleWorld_ok] show ?thesis
    by (simp add: prod_eq_iff)
qed

text \<open>Opening a checkpoint of an earlier version yields a valid current one with the same
  committed positions and targets; read watermarks are kept only from the versions that
  recorded them after a proven acknowledgement (5 and 6), and the file is rewritten exactly
  when the version was not current.\<close>

theorem migrate_correct:
  assumes "migrate d = Inr (d', migrated)"
  shows "validate d' = None \<and> cp_Version d \<in> {2..6} \<and> (migrated \<longleftrightarrow> cp_Version d \<noteq> Version)
    \<and> committed (ledgerOf d') = committed (ledgerOf d) \<and> known (ledgerOf d') = known (ledgerOf d)
    \<and> readmark (ledgerOf d') = (if cp_Version d < 5 then Map.empty else readmark (ledgerOf d))"
proof -
  have v: "validate d' = None"
    using assms by (auto simp: migrate_def split: if_splits sum.splits option.splits)
  then have "cp_Version d' = 6" by (simp add: validate_iff headerOk_def Version_def)
  with assms v show ?thesis
    by (auto simp: migrate_def migrate5_def migrate4_def migrateOldest_def Version_def Let_def
        unprovenReadVersion_def oldestVersion_def previousVersion_def ledgerOf_def at_defs entryOf_def
        split: if_splits sum.splits option.splits)
qed

theorem migrate_correct_witness:
  "readmark (ledgerOf (fst (projr (migrate (sampleCheckpoint\<lparr>cp_Version := 4\<rparr>))))) = Map.empty"
proof -
  let ?d = "sampleCheckpoint\<lparr>cp_Version := 4\<rparr>"
  have "migrate ?d = Inr (sampleCheckpoint\<lparr>ReadWatermarks := Some []\<rparr>, True)"
    by (simp add: migrate_def migrate5_def migrate4_def migrateOldest_def Version_def sample_defs
        unprovenReadVersion_def oldestVersion_def previousVersion_def validate_def sortedByChat_def
        validCursor_def validTarget_def validGap_def)
  from migrate_correct [OF this] this show ?thesis by simp
qed

text \<open>The positional arrays sent at login list the committed chats in strictly increasing
  order, pair every chat with its committed maximum, and list nothing else.\<close>

theorem LoginCursors_correct:
  assumes "validate c = None" "LoginCursors c = (ids, maxs)"
  shows "length ids = length maxs \<and> sorted_wrt (<) ids \<and> (\<forall>i\<in>set ids. 0 < i) \<and> (\<forall>m\<in>set maxs. 0 < m)
    \<and> map_of (zip ids maxs) = committed (ledgerOf c)"
  using assms by (auto simp: LoginCursors_def validate_iff tablesOk_def sortedByChat_iff tableSorted_iff
      validCursor_def ledgerOf_def cursorAt_def map_of_zip_entryOf fun_eq_iff)

theorem LoginCursors_correct_witness:
  "map_of (zip [7, 9] [40, 55]) = committed (ledgerOf sampleCheckpoint)"
  using LoginCursors_correct [of sampleCheckpoint "[7, 9]" "[40, 55]"] sampleCheckpoint_sound
  by (simp add: soundCheckpoint_def) (simp add: LoginCursors_def sample_defs)

end
