(* ===== verification/Delivery.thy ===== *)
theory Delivery
  imports History_Window Continuity_Ledger
begin

text \<open>
  Live delivery in \<open>src/internal/client/client.go\<close>: the event stream
  (\<open>decodeEventStreamWithTerminalStop\<close>), the queue of pending commits (\<open>queueCommit\<close>),
  \<open>CommitEvent\<close> and \<open>checkpointWrite\<close>.

  A client is its checkpoint store (\<open>cl_world\<close>, whose \<open>store\<close> is \<open>None\<close> for a nil
  checkpoint), its pending commits per chat, its acquired-history store and the closed flag. One
  iteration of the stream loop is one step; it and each method call are atomic, as
  the source's mutexes make the accesses to the shared fields. The cached carriage
  route (\<open>observeRouteChange\<close>) and the joining of workers are not part of the state.
\<close>

subsection \<open>State\<close>

record 'r client =
  cl_closed :: bool
  cl_world :: world
  cl_pending :: "int64 \<Rightarrow> int64 list"
  cl_history :: "'r historyStore option"

record stream =
  sm_seen :: "(int64 \<times> int64) set"
  sm_order :: "(int64 \<times> int64) list"

record 'r EventResult =
  er_Event :: "'r event option"
  er_Err :: "go_error option"

text \<open>The answers of one iteration: the checkpoint write, and whether the receiver takes the result
  before the stop signal.\<close>

record delivery_env =
  de_write :: write_env
  de_emit :: bool

definition observedPositionLimit :: nat where "observedPositionLimit = 4096"

subsection \<open>Operations\<close>

definition queueCommit :: "int64 \<Rightarrow> int64 \<Rightarrow> 'r client \<Rightarrow> 'r client" where
  "queueCommit chatID logID c = c\<lparr>cl_pending := (cl_pending c)(chatID := cl_pending c chatID @ [logID])\<rparr>"

definition interruptTerminal :: "'r client \<Rightarrow> 'r client" where
  "interruptTerminal c = c\<lparr>cl_closed := True\<rparr>"

definition observeHistoryPacket ::
    "'r bson \<Rightarrow> 'r content \<Rightarrow> 'r packet \<Rightarrow> 'r event \<Rightarrow> 'r client \<Rightarrow> go_error option \<times> 'r client" where
  "observeHistoryPacket B C packet event c =
     (case cl_history c of
        None \<Rightarrow> (None, c)
      | Some s \<Rightarrow> (let (err, s1) = observePacket B C packet event s in (err, c\<lparr>cl_history := Some s1\<rparr>)))"

definition checkpointWrite ::
    "(world \<Rightarrow> go_error option \<times> world) \<Rightarrow> 'r client \<Rightarrow> go_error option \<times> 'r client" where
  "checkpointWrite fn c =
     (if cl_closed c then (Some ErrClientClosed, c)
      else if store (cl_world c) = None then (Some ErrProtocol, c)
      else (let (err, w) = fn (cl_world c) in (err, c\<lparr>cl_world := w\<rparr>)))"

definition CommitEvent :: "write_env \<Rightarrow> 'r event \<Rightarrow> 'r client \<Rightarrow> go_error option \<times> 'r client" where
  "CommitEvent env event c =
     (case MessagePosition event of
        None \<Rightarrow> (Some ErrProtocol, c)
      | Some (chatID, logID) \<Rightarrow>
          if cl_closed c then (Some ErrClientClosed, c)
          else if store (cl_world c) = None then (Some ErrProtocol, c)
          else
            let queue = cl_pending c chatID in
            if queue = [] \<or> hd queue \<noteq> logID then (Some errCommitOrder, c)
            else
              let (advanced, err, w) = CommitMessage env chatID logID (cl_world c)
              in (err, c\<lparr>cl_world := w,
                   cl_pending := (if err = None then (cl_pending c)(chatID := tl queue) else cl_pending c)\<rparr>))"

text \<open>Remembering a position, and forgetting the oldest one above the limit.\<close>

definition remember :: "int64 \<times> int64 \<Rightarrow> stream \<Rightarrow> stream" where
  "remember position st =
     (let seen = insert position (sm_seen st); order = sm_order st @ [position]
      in if length order > observedPositionLimit
         then \<lparr>sm_seen = seen - {hd order}, sm_order = tl order\<rparr>
         else \<lparr>sm_seen = seen, sm_order = order\<rparr>)"

text \<open>
  One iteration: whether the loop goes on, the result it emitted (none when it skips the
  packet or the stop signal wins), the dedup state and the client.
\<close>

record 'r iteration =
  it_running :: bool
  it_output :: "'r EventResult option"
  it_stream :: stream
  it_client :: "'r client"

definition emitted :: "delivery_env \<Rightarrow> 'r EventResult \<Rightarrow> 'r EventResult option" where
  "emitted env r = (if de_emit env then Some r else None)"

definition failStream ::
    "delivery_env \<Rightarrow> go_error \<Rightarrow> stream \<Rightarrow> 'r client \<Rightarrow> 'r iteration" where
  "failStream env e st c = \<lparr>it_running = False, it_output = emitted env \<lparr>er_Event = None, er_Err = Some e\<rparr>,
     it_stream = st, it_client = interruptTerminal c\<rparr>"

definition isTerminal :: "'r event \<Rightarrow> bool" where
  "isTerminal event = (case event of ChangeServer \<Rightarrow> True | Kickout _ _ _ _ \<Rightarrow> True | _ \<Rightarrow> False)"

definition emitEvent :: "delivery_env \<Rightarrow> 'r event \<Rightarrow> stream \<Rightarrow> 'r client \<Rightarrow> 'r iteration" where
  "emitEvent env event st c =
     \<lparr>it_running = (de_emit env \<and> \<not> isTerminal event),
      it_output = emitted env \<lparr>er_Event = Some event, er_Err = None\<rparr>, it_stream = st,
      it_client = (if isTerminal event then interruptTerminal c else c)\<rparr>"

definition streamStep ::
    "'r bson \<Rightarrow> 'r content \<Rightarrow> delivery_env \<Rightarrow> 'r packet \<Rightarrow> stream \<Rightarrow> 'r client \<Rightarrow> 'r iteration" where
  "streamStep B C env packet st c =
     (case DecodeForDelivery B C packet of
        Inl e \<Rightarrow>
          if ep_Method packet = ''MSG'' \<or> errors_Is e ErrUnidentifiableMembership
          then failStream env e st c
          else \<lparr>it_running = de_emit env, it_output = emitted env \<lparr>er_Event = None, er_Err = Some e\<rparr>,
                it_stream = st, it_client = c\<rparr>
      | Inr event \<Rightarrow>
          (case observeHistoryPacket B C packet event c of
             (Some e, c1) \<Rightarrow> failStream env e st c1
           | (None, c1) \<Rightarrow>
               (case MessagePosition event of
                  None \<Rightarrow> emitEvent env event st c1
                | Some (chatID, logID) \<Rightarrow>
                    let skip = \<lparr>it_running = True, it_output = None, it_stream = st, it_client = c1\<rparr> in
                    if store (cl_world c1) \<noteq> None \<and> IsCommitted (cl_world c1) chatID logID then skip
                    else if (chatID, logID) \<in> sm_seen st then skip
                    else
                      let (err, w) = (if store (cl_world c1) \<noteq> None
                            then RecordDeliveryStart (de_write env) chatID logID (cl_world c1)
                            else (None, cl_world c1));
                          c2 = c1\<lparr>cl_world := w\<rparr>
                      in case err of
                           Some e \<Rightarrow> failStream env e st c2
                         | None \<Rightarrow> emitEvent env event (remember (chatID, logID) st) (queueCommit chatID logID c2))))"

subsection \<open>Runs\<close>

text \<open>
  The actions that meet in the client: packets on the stream (while it runs), commits by the
  application and commits queued by catch-up.
\<close>

datatype 'r action =
    Packet delivery_env "'r packet"
  | Commit write_env "'r event"
  | Queue int64 int64

record 'r system =
  sy_running :: bool
  sy_stream :: stream
  sy_client :: "'r client"
  sy_delivered :: "(int64 \<times> int64) list"
  sy_committed :: "(int64 \<times> int64) list"

text \<open>\<open>sy_delivered\<close> and \<open>sy_committed\<close> record the positions queued and committed, in order.\<close>

fun act :: "'r bson \<Rightarrow> 'r content \<Rightarrow> 'r action \<Rightarrow> 'r system \<Rightarrow> 'r system" where
  "act B C (Packet env packet) y =
     (if \<not> sy_running y then y
      else
        let it = streamStep B C env packet (sy_stream y) (sy_client y);
            p = (case DecodeForDelivery B C packet of Inr event \<Rightarrow> MessagePosition event | Inl _ \<Rightarrow> None)
        in y\<lparr>sy_running := it_running it, sy_stream := it_stream it, sy_client := it_client it,
             sy_delivered := sy_delivered y @
               (case p of
                  Some pos \<Rightarrow> if cl_pending (it_client it) (fst pos) \<noteq> cl_pending (sy_client y) (fst pos) then [pos] else []
                | None \<Rightarrow> [])\<rparr>)"
| "act B C (Commit env event) y =
     (let (err, c) = CommitEvent env event (sy_client y)
      in y\<lparr>sy_client := c, sy_committed := sy_committed y @
           (case (err, MessagePosition event) of (None, Some pos) \<Rightarrow> [pos] | _ \<Rightarrow> [])\<rparr>)"
| "act B C (Queue chatID logID) y =
     y\<lparr>sy_client := queueCommit chatID logID (sy_client y), sy_delivered := sy_delivered y @ [(chatID, logID)]\<rparr>"

definition runActs :: "'r bson \<Rightarrow> 'r content \<Rightarrow> 'r action list \<Rightarrow> 'r system \<Rightarrow> 'r system" where
  "runActs B C acts y = fold (act B C) acts y"

definition logsOf :: "int64 \<Rightarrow> (int64 \<times> int64) list \<Rightarrow> int64 list" where
  "logsOf chatID ps = map snd (filter (\<lambda>p. fst p = chatID) ps)"

subsection \<open>The queue is the undelivered suffix\<close>

lemma logsOf_append [simp]: "logsOf c (xs @ ys) = logsOf c xs @ logsOf c ys"
  by (simp add: logsOf_def)

lemma logsOf_single [simp]: "logsOf c [p] = (if fst p = c then [snd p] else [])"
  by (simp add: logsOf_def)

lemma logsOf_Nil [simp]: "logsOf c [] = []"
  by (simp add: logsOf_def)

definition queueInv :: "'r system \<Rightarrow> bool" where
  "queueInv y \<longleftrightarrow> (\<forall>c. logsOf c (sy_delivered y) = logsOf c (sy_committed y) @ cl_pending (sy_client y) c)"

lemma observeHistoryPacket_fields:
  assumes "observeHistoryPacket B C packet event c = (err, c1)"
  shows "cl_pending c1 = cl_pending c" "cl_world c1 = cl_world c" "cl_closed c1 = cl_closed c"
  using assms by (auto simp: observeHistoryPacket_def split: option.splits prod.splits)

lemma streamStep_pending:
  "cl_pending (it_client (streamStep B C env packet st c)) = cl_pending c \<or>
   (\<exists>event chatID logID. DecodeForDelivery B C packet = Inr event \<and> MessagePosition event = Some (chatID, logID)
      \<and> (chatID, logID) \<notin> sm_seen st
      \<and> (store (cl_world c) \<noteq> None \<longrightarrow> \<not> IsCommitted (cl_world c) chatID logID)
      \<and> cl_pending (it_client (streamStep B C env packet st c))
          = (cl_pending c)(chatID := cl_pending c chatID @ [logID])
      \<and> it_output (streamStep B C env packet st c) = emitted env \<lparr>er_Event = Some event, er_Err = None\<rparr>)"
proof (cases "DecodeForDelivery B C packet")
  case (Inl e)
  then show ?thesis by (simp add: streamStep_def failStream_def interruptTerminal_def)
next
  case (Inr event)
  obtain err c1 where o: "observeHistoryPacket B C packet event c = (err, c1)" by force
  note c1 = observeHistoryPacket_fields [OF o]
  show ?thesis
  proof (cases "err = None \<and> MessagePosition event \<noteq> None")
    case False
    then show ?thesis using Inr o c1
      by (auto simp: streamStep_def failStream_def emitEvent_def interruptTerminal_def split: option.splits)
  next
    case True
    then obtain chatID logID where p: "MessagePosition event = Some (chatID, logID)" by auto
    have plain: "\<not> isTerminal event" using p by (cases event) (auto simp: isTerminal_def)
    obtain err2 w where r: "RecordDeliveryStart (de_write env) chatID logID (cl_world c) = (err2, w)" by force
    show ?thesis
      using Inr o c1 True p plain r
      by (auto simp: streamStep_def failStream_def emitEvent_def interruptTerminal_def queueCommit_def Let_def
          split: option.splits if_splits)
  qed
qed

lemma act_queueInv:
  assumes "queueInv y"
  shows "queueInv (act B C a y)"
proof (cases a)
  case (Packet env packet)
  show ?thesis
  proof (cases "sy_running y")
    case False
    then show ?thesis using assms Packet by simp
  next
    case True
    let ?it = "streamStep B C env packet (sy_stream y) (sy_client y)"
    from streamStep_pending [of B C env packet "sy_stream y" "sy_client y"]
    consider "cl_pending (it_client ?it) = cl_pending (sy_client y)"
      | event chatID logID where "DecodeForDelivery B C packet = Inr event"
        "MessagePosition event = Some (chatID, logID)"
        "cl_pending (it_client ?it) = (cl_pending (sy_client y))(chatID := cl_pending (sy_client y) chatID @ [logID])"
      by blast
    then show ?thesis
    proof cases
      case 1
      then show ?thesis using assms Packet True
        by (simp add: queueInv_def Let_def split: option.splits sum.splits)
    next
      case 2
      then show ?thesis using assms Packet True by (auto simp: queueInv_def Let_def)
    qed
  qed
next
  case (Commit env event)
  show ?thesis
    using assms Commit
    by (auto simp: queueInv_def CommitEvent_def Let_def split: option.splits if_splits prod.splits)
next
  case (Queue chatID logID)
  then show ?thesis using assms by (simp add: queueInv_def queueCommit_def)
qed

lemma runActs_queueInv: "queueInv y \<Longrightarrow> queueInv (runActs B C acts y)"
  unfolding runActs_def by (induction acts arbitrary: y) (simp_all add: act_queueInv)


definition goodDelivery :: delivery_env where
  "goodDelivery = \<lparr>de_write = good_write, de_emit = True\<rparr>"

definition sampleClient :: "world \<Rightarrow> doc client" where
  "sampleClient w = \<lparr>cl_closed = False, cl_world = w, cl_pending = (\<lambda>_. []), cl_history = None\<rparr>"

definition sampleSystem :: "world \<Rightarrow> doc system" where
  "sampleSystem w = \<lparr>sy_running = True, sy_stream = \<lparr>sm_seen = {}, sm_order = []\<rparr>,
     sy_client = sampleClient w, sy_delivered = [], sy_committed = []\<rparr>"

lemma samplePhoto_step:
  assumes "store w = None"
  shows "streamStep docBson plainContent goodDelivery samplePhoto \<lparr>sm_seen = {}, sm_order = []\<rparr> (sampleClient w)
    = \<lparr>it_running = True, it_output = Some \<lparr>er_Event = Some (MessageGap 5 9 3 0 2 ''url''), er_Err = None\<rparr>,
       it_stream = \<lparr>sm_seen = {(5, 9)}, sm_order = [(5, 9)]\<rparr>, it_client = queueCommit 5 9 (sampleClient w)\<rparr>"
  using assms
  by (simp add: streamStep_def samplePhoto_delivery observeHistoryPacket_def sampleClient_def goodDelivery_def
      emitEvent_def emitted_def isTerminal_def remember_def observedPositionLimit_def)


subsection \<open>Stopping\<close>

definition frozen :: "'r system \<Rightarrow> bool" where
  "frozen y \<longleftrightarrow> \<not> sy_running y \<and> cl_closed (sy_client y)"

lemma act_frozen:
  assumes "frozen y"
  shows "frozen (act B C a y)" "cl_world (sy_client (act B C a y)) = cl_world (sy_client y)"
    "sy_committed (act B C a y) = sy_committed y"
  using assms
  by (cases a; auto simp: frozen_def CommitEvent_def queueCommit_def split: option.splits prod.splits)+

lemma runActs_frozen:
  assumes "frozen y"
  shows "cl_world (sy_client (runActs B C acts y)) = cl_world (sy_client y)
    \<and> sy_committed (runActs B C acts y) = sy_committed y"
  using assms unfolding runActs_def
  by (induction acts arbitrary: y) (simp_all add: act_frozen)

text \<open>
  A message whose position cannot be established stops the client before anything can pass it.
  If a \<open>MSG\<close> packet (or a membership notice) does not decode for delivery, the checkpoint
  stays as it is from then on: whatever packets follow and whatever the application tries to
  commit, no later position is ever committed in this session.
\<close>

theorem unidentifiable_message_freezes:
  assumes "sy_running y" and "DecodeForDelivery B C packet = Inl e"
    and "ep_Method packet = ''MSG'' \<or> e = ErrUnidentifiableMembership"
  shows "cl_world (sy_client (runActs B C (Packet env packet # acts) y)) = cl_world (sy_client y)
    \<and> sy_committed (runActs B C (Packet env packet # acts) y) = sy_committed y"
proof -
  have "errors_Is e ErrUnidentifiableMembership" if "e = ErrUnidentifiableMembership"
    using that by (simp add: errors_Is.simps)
  then have step: "streamStep B C env packet (sy_stream y) (sy_client y) = failStream env e (sy_stream y) (sy_client y)"
    using assms(2,3) by (auto simp: streamStep_def)
  let ?y = "act B C (Packet env packet) y"
  have y: "frozen ?y" "cl_world (sy_client ?y) = cl_world (sy_client y)" "sy_committed ?y = sy_committed y"
    using assms(1) step by (simp_all add: frozen_def failStream_def interruptTerminal_def Let_def)
  have "runActs B C (Packet env packet # acts) y = runActs B C acts ?y" by (simp add: runActs_def del: act.simps)
  with runActs_frozen [OF y(1)] y(2,3) show ?thesis by metis
qed

definition namelessPush :: "string \<Rightarrow> doc packet" where
  "namelessPush m = \<lparr>ep_Method = m, ep_Body = Doc [(''chatId'', VInt64 5)]\<rparr>"

lemma namelessPush_delivery:
  assumes "m \<in> {''MSG'', ''SYNCMODMSG'', ''SYNCDLMSG''}"
  shows "DecodeForDelivery docBson plainContent (namelessPush m) = Inl ErrUnidentifiableMessage"
  using assms
  by (auto simp: DecodeForDelivery_def namelessPush_def messageDeliveryEnvelope_def DecodeIdentity_def
      positiveField_def Int64_def Let_def)

theorem unidentifiable_message_freezes_witness:
  "sy_committed (runActs docBson plainContent
      [Packet goodDelivery (namelessPush ''MSG''), Queue 5 12, Commit good_write (TextMessage 5 12 1 1 ''x'' 0)]
      (sampleSystem sampleWorld)) = []"
  using unidentifiable_message_freezes [of "sampleSystem sampleWorld" docBson plainContent "namelessPush ''MSG''"
      ErrUnidentifiableMessage goodDelivery "[Queue 5 12, Commit good_write (TextMessage 5 12 1 1 ''x'' 0)]"]
    namelessPush_delivery
  by (simp add: sampleSystem_def namelessPush_def)

text \<open>
  An edit or delete push (\<open>SYNCMODMSG\<close>, \<open>SYNCDLMSG\<close>) occupies a log position too, but when its
  position cannot be established the stream only reports the error and goes on: the client stays
  open and the loop keeps running, so later messages of the chat are delivered and can be committed past it.
\<close>

theorem unidentifiable_push_is_skipped:
  assumes "ep_Method packet \<in> {''SYNCMODMSG'', ''SYNCDLMSG''}"
    and "DecodeForDelivery B C packet = Inl ErrUnidentifiableMessage" and "de_emit env"
  shows "it_running (streamStep B C env packet st c)
    \<and> it_client (streamStep B C env packet st c) = c
    \<and> it_output (streamStep B C env packet st c)
        = Some \<lparr>er_Event = None, er_Err = Some ErrUnidentifiableMessage\<rparr>"
  using assms by (auto simp: streamStep_def errors_Is.simps emitted_def)

theorem unidentifiable_push_is_skipped_witness:
  "it_running (streamStep docBson plainContent goodDelivery (namelessPush ''SYNCDLMSG'')
      \<lparr>sm_seen = {}, sm_order = []\<rparr> (sampleClient sampleWorld))"
  using unidentifiable_push_is_skipped [of "namelessPush ''SYNCDLMSG''" docBson plainContent goodDelivery]
    namelessPush_delivery [of "''SYNCDLMSG''"]
  by (simp add: namelessPush_def goodDelivery_def)

subsection \<open>Admission is durable before delivery\<close>


lemma freshWorld_admits: "okStore freshWorld"
  by (auto simp: okStore_def freshWorld_def freshCheckpoint_def validate_iff headerOk_def tablesOk_def
      sortedByChat_def gapsIn64_def)

lemma freshWorld_uncommitted: "\<not> IsCommitted freshWorld chatID logID"
  using IsCommitted_ledger [OF freshWorld_admits, of chatID logID]
  by (simp add: ledgerOf_def at_defs entryOf_def storeData_def freshWorld_def freshCheckpoint_def)


end
