(* ===== verification/Catch_Up.thy ===== *)
theory Catch_Up
  imports Delivery
begin

text \<open>
  Recovery of one chat's missed interval: \<open>src/internal/client/sync.go\<close>.

  The session is its answers: the body of the reply to the \<open>n\<close>-th page request of a call,
  or the error the request or its status ended in. The other answers are those of the history
  admission (refusing a demand, failing to record a cooldown), of the file system and of the clock. A call is one sequential run; live delivery is not
  interleaved with it. Reporting of gaps to the observer has no effect on the state.

  Identities are \<open>int64\<close>. The additions and subtractions by one below cannot wrap: each
  is applied to a position that is strictly below, or strictly above, another position.
\<close>

subsection \<open>Answers\<close>

record 'r catchup_env =
  cu_sync :: "nat \<Rightarrow> Request \<Rightarrow> 'r result"
  cu_admission :: bool
  cu_refused :: "nat \<Rightarrow> go_error option"
  cu_persist :: "nat \<Rightarrow> go_error option"
  cu_cancelled :: "nat \<Rightarrow> go_error option"
  cu_now :: "nat \<Rightarrow> gotime"
  cu_faults :: "interval \<Rightarrow> go_error option"
  cu_removed :: "Request \<Rightarrow> go_error option"
  cu_write :: write_env

definition maxCatchUpPages :: nat where "maxCatchUpPages = 100"

definition setHistory :: "'r historyStore \<Rightarrow> 'r client \<Rightarrow> 'r client" where
  "setHistory s c = c\<lparr>cl_history := Some s\<rparr>"

subsection \<open>One page\<close>

text \<open>The session's request: the reply's body, parsed.\<close>

definition session_syncMessages :: "'r bson \<Rightarrow> 'r catchup_env \<Rightarrow> nat \<Rightarrow> Request \<Rightarrow> 'r Response result" where
  "session_syncMessages B env n req =
     (case Request_MarshalBSON B req of
        Inl e \<Rightarrow> Inl e
      | Inr _ \<Rightarrow> (case cu_sync env n req of Inl e \<Rightarrow> Inl e | Inr body \<Rightarrow> syncmsg_ParseResponse B body))"

text \<open>The closure \<open>fetch\<close>: the acquired store first, then the session, whose page is acquired and read back.\<close>

definition fetchPage ::
    "'r bson \<Rightarrow> 'r content \<Rightarrow> 'r catchup_env \<Rightarrow> nat \<Rightarrow> Request \<Rightarrow> 'r client \<Rightarrow> 'r Response result \<times> 'r client" where
  "fetchPage B C env n req c =
     (case (if rq_Count req = 0 then cl_history c else None) of
        None \<Rightarrow> (session_syncMessages B env n req, c)
      | Some s \<Rightarrow>
          (case lookup B C (cu_now env n) (cu_faults env) req s of
             (Inl e, s1) \<Rightarrow> (Inl e, setHistory s1 c)
           | (Inr (Some cached), s1) \<Rightarrow> (Inr cached, setHistory s1 c)
           | (Inr None, s1) \<Rightarrow>
               (case session_syncMessages B env n req of
                  Inl e \<Rightarrow> (Inl e, setHistory s1 c)
                | Inr response \<Rightarrow>
                    (case save B C (cu_now env n) (cu_removed env) req response s1 of
                       (Some e, s2) \<Rightarrow> (Inl e, setHistory s2 c)
                     | (None, s2) \<Rightarrow>
                         (case lookup B C (cu_now env n) (cu_faults env) req s2 of
                            (Inl e, s3) \<Rightarrow> (Inl e, setHistory s3 c)
                          | (Inr None, s3) \<Rightarrow> (Inl ErrHistoryTargetUnresolved, setHistory s3 c)
                          | (Inr (Some projected), s3) \<Rightarrow> (Inr projected, setHistory s3 c))))))"

text \<open>
  The admission (\<open>historyAdmission.run\<close>) refuses the demand, or runs the fetch, checks that the page
  decodes, and records the cooldown.
\<close>

definition admissionRun ::
    "'r bson \<Rightarrow> 'r content \<Rightarrow> 'r catchup_env \<Rightarrow> nat \<Rightarrow> Request \<Rightarrow> 'r client \<Rightarrow> 'r Response result \<times> 'r client" where
  "admissionRun B C env n req c =
     (case cu_refused env n of
        Some e \<Rightarrow> (Inl e, c)
      | None \<Rightarrow>
          (let (fetched, c1) = fetchPage B C env n req c;
               checked = (case fetched of
                  Inl e \<Rightarrow> Inl e
                | Inr response \<Rightarrow>
                    (case decodeHistoryPage B C req response (max 1 (length (rs_ChatLogs response))) of
                       Inl e \<Rightarrow> Inl e | Inr _ \<Rightarrow> Inr response))
           in case (checked, cu_persist env n) of
                (Inl e, Some persistErr) \<Rightarrow> (Inl (Joined [e, persistErr]), c1)
              | (Inl e, None) \<Rightarrow> (Inl e, c1)
              | (Inr response, Some persistErr) \<Rightarrow> (Inl persistErr, c1)
              | (Inr response, None) \<Rightarrow> (Inr response, c1)))"

definition admitted ::
    "'r bson \<Rightarrow> 'r content \<Rightarrow> 'r catchup_env \<Rightarrow> nat \<Rightarrow> Request \<Rightarrow> 'r client \<Rightarrow> 'r Response result \<times> 'r client" where
  "admitted B C env n req c =
     (if cu_admission env then admissionRun B C env n req c else fetchPage B C env n req c)"

definition Client_syncMessages ::
    "'r bson \<Rightarrow> 'r content \<Rightarrow> 'r catchup_env \<Rightarrow> nat \<Rightarrow> Request \<Rightarrow> 'r client \<Rightarrow> 'r Response result \<times> 'r client" where
  "Client_syncMessages B C env n req c =
     (if rq_Count req = 0 \<and> (cu_admission env \<or> cl_history c \<noteq> None) then
        if cl_closed c then (Inl ErrClientClosed, c)
        else
          (case Request_MarshalBSON B req of
             Inl e \<Rightarrow> (Inl e, c)
           | Inr _ \<Rightarrow>
               (case cu_cancelled env n of
                  Some e \<Rightarrow> (Inl e, c)
                | None \<Rightarrow>
                    (case cl_history c of
                       None \<Rightarrow> admitted B C env n req c
                     | Some s \<Rightarrow>
                         (case lookup B C (cu_now env n) (cu_faults env) req s of
                            (Inl e, s1) \<Rightarrow> (Inl e, setHistory s1 c)
                          | (Inr (Some cached), s1) \<Rightarrow> (Inr cached, setHistory s1 c)
                          | (Inr None, s1) \<Rightarrow> admitted B C env n req (setHistory s1 c)))))
      else fetchPage B C env n req c)"

subsection \<open>Catch-up of one chat\<close>

text \<open>The rows of one page: the events of the interval, the new position, and whether there was any.\<close>

fun catchRows ::
    "'r bson \<Rightarrow> 'r content \<Rightarrow> int64 \<Rightarrow> int64 \<Rightarrow> 'r list \<Rightarrow> int64 \<Rightarrow> ('r event list \<times> int64) result" where
  "catchRows B C chatID targetMax [] current = Inr ([], current)"
| "catchRows B C chatID targetMax (raw # rest) current =
     (case LogID B raw of
        Inl _ \<Rightarrow> Inl (protocolErr ''SYNCMSG'' ''chatLogs.logId'')
      | Inr logID \<Rightarrow>
          if logID < current then Inl (protocolErr ''SYNCMSG'' ''chatLogs.logId'')
          else if logID > targetMax then catchRows B C chatID targetMax rest current
          else if logID = current then catchRows B C chatID targetMax rest current
          else
            (case DecodeChatLog B C chatID raw of
               Inl e \<Rightarrow> Inl e
             | Inr event \<Rightarrow>
                 (case catchRows B C chatID targetMax rest logID of
                    Inl e \<Rightarrow> Inl e
                  | Inr (evs, current') \<Rightarrow> Inr (event # evs, current'))))"

text \<open>Recording the whole interval as a gap, with the error \<open>e\<close> the call then returns.\<close>

definition failGap ::
    "'r catchup_env \<Rightarrow> int64 \<Rightarrow> int64 \<Rightarrow> int64 \<Rightarrow> go_error \<Rightarrow> 'r client \<Rightarrow> 'r event list result \<times> 'r client" where
  "failGap env chatID gapStart targetMax e c =
     (case checkpointWrite (RecordGap (cu_write env) chatID gapStart targetMax) c of
        (None, c1) \<Rightarrow> (Inl e, c1)
      | (Some persistErr, c1) \<Rightarrow> (Inl (Joined [e, persistErr]), c1))"

definition queueEvents :: "'r event list \<Rightarrow> 'r client \<Rightarrow> 'r client" where
  "queueEvents evs c = fold (\<lambda>event c. case MessagePosition event of
     Some (chatID, logID) \<Rightarrow> queueCommit chatID logID c | None \<Rightarrow> queueCommit 0 0 c) evs c"

definition clearGap ::
    "'r catchup_env \<Rightarrow> Checkpoint \<Rightarrow> int64 \<Rightarrow> int64 \<Rightarrow> 'r client \<Rightarrow> go_error option \<times> 'r client" where
  "clearGap env state chatID targetMax c =
     (if HasGapThrough state chatID targetMax
      then checkpointWrite (ResolveGapThrough (cu_write env) chatID targetMax) c else (None, c))"

text \<open>The interval is complete: project the events, resolve a recorded gap and queue the commits.\<close>

definition finishCatchUp ::
    "'r bson \<Rightarrow> 'r content \<Rightarrow> 'r catchup_env \<Rightarrow> Checkpoint \<Rightarrow> int64 \<Rightarrow> int64 \<Rightarrow> int64 \<Rightarrow> 'r event list
     \<Rightarrow> 'r client \<Rightarrow> 'r event list result \<times> 'r client" where
  "finishCatchUp B C env state chatID gapStart targetMax evs c =
     (case projectAcquiredEvents B C (cl_history c) evs of
        Inl projectionErr \<Rightarrow>
          (let (persistErr, c1) = checkpointWrite (RecordGap (cu_write env) chatID gapStart targetMax) c
           in (Inl (the (errors_Join [Some ErrGapUnresolved, Some projectionErr, persistErr])), c1))
      | Inr projected \<Rightarrow>
          (case clearGap env state chatID targetMax c of
             (Some e, c1) \<Rightarrow> (Inl e, c1)
           | (None, c1) \<Rightarrow> (Inr projected, queueEvents projected c1)))"

fun catchPages ::
    "'r bson \<Rightarrow> 'r content \<Rightarrow> 'r catchup_env \<Rightarrow> Checkpoint \<Rightarrow> int64 \<Rightarrow> int64 \<Rightarrow> int64 \<Rightarrow> nat \<Rightarrow> int64
     \<Rightarrow> 'r event list \<Rightarrow> 'r client \<Rightarrow> 'r event list result \<times> 'r client" where
  "catchPages B C env state chatID gapStart targetMax 0 current evs c =
     failGap env chatID gapStart targetMax ErrGapUnresolved c"
| "catchPages B C env state chatID gapStart targetMax (Suc k) current evs c =
     (case Client_syncMessages B C env (maxCatchUpPages - Suc k)
             \<lparr>rq_ChatID = chatID, rq_Cur = current, rq_Max = targetMax, rq_Count = 0\<rparr> c of
        (Inl e, c1) \<Rightarrow>
          if errors_Is e ErrGapUnresolved then failGap env chatID gapStart targetMax e c1 else (Inl e, c1)
      | (Inr page, c1) \<Rightarrow>
          (case catchRows B C chatID targetMax (rs_ChatLogs page) current of
             Inl e \<Rightarrow> (Inl e, c1)
           | Inr (found, current') \<Rightarrow>
               if current' = targetMax
               then finishCatchUp B C env state chatID gapStart targetMax (evs @ found) c1
               else if found = [] then failGap env chatID gapStart targetMax ErrGapUnresolved c1
               else catchPages B C env state chatID gapStart targetMax k current' (evs @ found) c1))"

text \<open>The position catch-up starts from: the committed maximum, or just before the first live admission.\<close>

definition resumePosition :: "Checkpoint \<Rightarrow> int64 \<Rightarrow> int64" where
  "resumePosition state chatID =
     (if CommittedMax state chatID = 0
      then if FirstDeliveryStart state chatID > 0 then FirstDeliveryStart state chatID - 1 else 0
      else CommittedMax state chatID)"

definition CatchUp ::
    "'r bson \<Rightarrow> 'r content \<Rightarrow> 'r catchup_env \<Rightarrow> int64 \<Rightarrow> int64 \<Rightarrow> 'r client \<Rightarrow> 'r event list result \<times> 'r client" where
  "CatchUp B C env chatID targetMax c =
     (if chatID \<le> 0 \<or> targetMax \<le> 0 then (Inl ErrProtocol, c)
      else if cl_closed c then (Inl ErrClientClosed, c)
      else if store (cl_world c) = None then (Inl ErrProtocol, c)
      else
        let state = Snapshot (store (cl_world c)); current = resumePosition state chatID in
        if current \<ge> targetMax then
          (case clearGap env state chatID targetMax c of
             (Some e, c1) \<Rightarrow> (Inl e, c1)
           | (None, c1) \<Rightarrow> (Inr [], c1))
        else catchPages B C env state chatID (current + 1) targetMax maxCatchUpPages current [] c)"

subsection \<open>Targets\<close>

text \<open>The inventory of a login without a checkpoint: one maximum per chat, which must not contradict itself.\<close>

fun inventoryTargets :: "'r bson \<Rightarrow> 'r list \<Rightarrow> (int64 \<times> int64) list \<Rightarrow> (int64 \<times> int64) list result" where
  "inventoryTargets B [] byChat = Inr byChat"
| "inventoryTargets B (raw # rest) byChat =
     (case bs_LookupErr B raw ''l'' of
        None \<Rightarrow> inventoryTargets B rest byChat
      | Some VNull \<Rightarrow> inventoryTargets B rest byChat
      | Some _ \<Rightarrow>
          (case TargetFromChatData B raw of
             Inl _ \<Rightarrow> Inl (protocolErr ''LOGINLIST'' ''chatDatas'')
           | Inr target \<Rightarrow>
               (case map_of byChat (tg_ChatID target) of
                  Some previous \<Rightarrow>
                    if previous \<noteq> tg_MaxLogID target then Inl (protocolErr ''LOGINLIST'' ''chatDatas.l'')
                    else inventoryTargets B rest (AList.update (tg_ChatID target) (tg_MaxLogID target) byChat)
                | None \<Rightarrow> inventoryTargets B rest (AList.update (tg_ChatID target) (tg_MaxLogID target) byChat))))"

text \<open>\<open>data\<close> is the session's login inventory, or the error of opening the session.\<close>

definition InitialSyncTargets :: "'r bson \<Rightarrow> 'r list result \<Rightarrow> 'r client \<Rightarrow> Target list result" where
  "InitialSyncTargets B data c =
     (case data of
        Inl e \<Rightarrow> Inl e
      | Inr data \<Rightarrow>
          if store (cl_world c) \<noteq> None then
            Inr (map (\<lambda>t. \<lparr>tg_ChatID = ct_ChatID t, tg_MaxLogID = ct_MaxLogID t\<rparr>)
              (filter (\<lambda>t. ct_MaxLogID t > 0) (SyncTargets (Snapshot (store (cl_world c))))))
          else
            (case inventoryTargets B data [] of
               Inl e \<Rightarrow> Inl e
             | Inr byChat \<Rightarrow>
                 Inr (map (\<lambda>(chatID, maxLogID). \<lparr>tg_ChatID = chatID, tg_MaxLogID = maxLogID\<rparr>) (sort_key fst byChat))))"

definition selectTargets ::
    "'r bson \<Rightarrow> (Checkpoint \<Rightarrow> Target \<Rightarrow> bool) \<Rightarrow> 'r list result \<Rightarrow> 'r client \<Rightarrow> Target list result" where
  "selectTargets B keep data c =
     (case InitialSyncTargets B data c of
        Inl e \<Rightarrow> Inl e
      | Inr targets \<Rightarrow>
          if store (cl_world c) = None then Inl ErrProtocol
          else Inr (filter (keep (Snapshot (store (cl_world c)))) targets))"

definition ResumeTargets :: "'r bson \<Rightarrow> 'r list result \<Rightarrow> 'r client \<Rightarrow> Target list result" where
  "ResumeTargets B = selectTargets B (\<lambda>state target.
     let committed = CommittedMax state (tg_ChatID target); start = FirstDeliveryStart state (tg_ChatID target)
     in (committed > 0 \<and> tg_MaxLogID target > committed)
        \<or> (committed = 0 \<and> start > 0 \<and> tg_MaxLogID target \<ge> start))"

definition UndeliveredTargets :: "'r bson \<Rightarrow> 'r list result \<Rightarrow> 'r client \<Rightarrow> Target list result" where
  "UndeliveredTargets B = selectTargets B (\<lambda>state target.
     tg_MaxLogID target > 0 \<and> CommittedMax state (tg_ChatID target) = 0
     \<and> FirstDeliveryStart state (tg_ChatID target) = 0)"

text \<open>The fields of \<open>chatmeta.ChatData\<close> that recovery reads; an empty \<open>LastChatLog\<close> is \<open>None\<close>.\<close>

record 'r ChatData =
  cd_ChatID :: int64
  cd_Type :: string
  cd_LinkID :: int64
  cd_LastServerLogID :: int64
  cd_LastChatLog :: "'r option"

definition SeedLastMessage ::
    "'r bson \<Rightarrow> 'r content \<Rightarrow> ('r event \<Rightarrow> bool) \<Rightarrow> 'r ChatData \<Rightarrow> 'r client \<Rightarrow> 'r event option result \<times> 'r client" where
  "SeedLastMessage B C accept chat c =
     (if cd_ChatID chat \<le> 0 then (Inl ErrProtocol, c)
      else
        (case cd_LastChatLog chat of
           None \<Rightarrow> (Inr None, c)
         | Some lastLog \<Rightarrow>
             if cl_closed c then (Inl ErrClientClosed, c)
             else if store (cl_world c) = None then (Inl ErrProtocol, c)
             else
               let state = Snapshot (store (cl_world c)) in
               if CommittedMax state (cd_ChatID chat) > 0 \<or> FirstDeliveryStart state (cd_ChatID chat) > 0
               then (Inr None, c)
               else
                 (case DecodeChatLog B C (cd_ChatID chat) lastLog of
                    Inl e \<Rightarrow> (Inl e, c)
                  | Inr event \<Rightarrow>
                      (case MessagePosition event of
                         None \<Rightarrow> (Inl (protocolErr ''LOGINLIST'' ''chatDatas.l''), c)
                       | Some (chatID, logID) \<Rightarrow>
                           if chatID \<noteq> cd_ChatID chat then (Inl (protocolErr ''LOGINLIST'' ''chatDatas.l''), c)
                           else if \<not> accept event then (Inr None, c)
                           else if cl_pending c chatID \<noteq> [] then (Inr None, c)
                           else (Inr (Some event), c\<lparr>cl_pending := (cl_pending c)(chatID := [logID])\<rparr>)))))"

subsection \<open>Lemmas\<close>

text \<open>An operation of the checkpoint that reports no error has its effect on the ledger.\<close>

lemma exec_ok:
  assumes "okStore w" "exec env op w = (None, w')"
  shows "admissible op \<and> ledgerOf (storeData w') = execL op (ledgerOf (storeData w))"
  using assms by (rule exec_cases) (auto simp: storeData_def)

lemma exec_keeps:
  assumes "okStore w" "exec env op w = (Some e, w')"
  shows "storeData w' = storeData w"
  using assms by (rule exec_cases) (auto simp: storeData_def)

lemma Snapshot_ok: "okStore w \<Longrightarrow> Snapshot (store w) = storeData w"
  by (auto simp: okStore_def Snapshot_def storeData_def validate_Clone)

lemma okStore_validate: "okStore w \<Longrightarrow> validate (storeData w) = None"
  by (auto simp: okStore_def storeData_def)

lemma recordGap_positions:
  assumes "okStore w" "exec env (OpRecordGap chat a b) w = (None, w')"
  shows "gapPositions w chat \<union> {a..b} \<subseteq> gapPositions w' chat"
    "other \<noteq> chat \<Longrightarrow> gapPositions w' other = gapPositions w other"
    "committed (ledgerOf (storeData w')) = committed (ledgerOf (storeData w))"
  using exec_ok [OF assms] by (auto simp: gapPositions_def split: option.splits)

lemma resolveGap_positions:
  assumes "okStore w" "exec env (OpResolveGap chat l) w = (None, w')"
  shows "gapPositions w' chat = gapPositions w chat \<inter> {l<..}"
    "other \<noteq> chat \<Longrightarrow> gapPositions w' other = gapPositions w other"
    "committed (ledgerOf (storeData w')) = committed (ledgerOf (storeData w))"
  using exec_ok [OF assms] by (auto simp: gapPositions_def split: option.splits)

lemma HasGapThrough_ledger:
  assumes "validate c = None"
  shows "HasGapThrough c chat l \<longleftrightarrow> (\<exists>a b. gap (ledgerOf c) chat = Some (a, b) \<and> a \<le> l)"
proof -
  have t: "tableSorted hg_ChatID (sl (HistoryGaps c))"
    using assms by (auto simp: validate_iff tablesOk_def intro: sortedByChat_table)
  obtain i found where sr: "searchChat hg_ChatID (sl (HistoryGaps c)) chat = (i, found)" by fastforce
  show ?thesis using searchChat_entryOf(1) [OF t sr] sr
    by (simp add: HasGapThrough_def ledgerOf_def gapAt_def)
qed

text \<open>Checkpoint writes of an open client with a checkpoint are the operation on the checkpoint.\<close>

definition onlyWorld :: "'r client \<Rightarrow> 'r client \<Rightarrow> bool" where
  "onlyWorld c c' \<longleftrightarrow> (\<exists>w. c' = c\<lparr>cl_world := w\<rparr>)"

lemma onlyWorld_fields:
  "onlyWorld c c' \<Longrightarrow> cl_pending c' = cl_pending c \<and> cl_closed c' = cl_closed c \<and> cl_history c' = cl_history c"
  by (auto simp: onlyWorld_def)

lemma checkpointWrite_exec:
  assumes "\<not> cl_closed c" "okStore (cl_world c)" "checkpointWrite (exec env op) c = (r, c')"
  shows "exec env op (cl_world c) = (r, cl_world c')" "onlyWorld c c'"
  using assms by (auto simp: checkpointWrite_def onlyWorld_def okStore_def split: prod.splits)

lemma checkpointWrite_ops:
  "checkpointWrite (RecordGap env chat a b) = checkpointWrite (exec env (OpRecordGap chat a b))"
  "checkpointWrite (ResolveGapThrough env chat l) = checkpointWrite (exec env (OpResolveGap chat l))"
  by (simp_all add: fun_eq_iff checkpointWrite_def)

subsubsection \<open>Requests keep the checkpoint and the queue\<close>

definition histOK :: "'r bson \<Rightarrow> 'r content \<Rightarrow> 'r client \<Rightarrow> bool" where
  "histOK B C c \<longleftrightarrow> (\<forall>s. cl_history c = Some s \<longrightarrow> overlayInv B C s)"

definition onlyHistory :: "'r client \<Rightarrow> 'r client \<Rightarrow> bool" where
  "onlyHistory c c' \<longleftrightarrow> cl_world c' = cl_world c \<and> cl_pending c' = cl_pending c \<and> cl_closed c' = cl_closed c"

lemma onlyHistory_refl [simp]: "onlyHistory c c"
  by (simp add: onlyHistory_def)

lemma onlyHistory_trans: "onlyHistory a b \<Longrightarrow> onlyHistory b c \<Longrightarrow> onlyHistory a c"
  by (simp add: onlyHistory_def)

lemma setHistory_only [simp]: "onlyHistory c (setHistory s c)" "cl_history (setHistory s c) = Some s"
  by (simp_all add: onlyHistory_def setHistory_def)

lemma keeps_inv: "keepsOverlays B C s s' \<Longrightarrow> overlayInv B C s'"
  by (simp add: keepsOverlays_def)

lemma fetchPage_frame:
  assumes "histOK B C c" "fetchPage B C env n req c = (r, c')"
  shows "histOK B C c' \<and> onlyHistory c c'"
proof (cases "if rq_Count req = 0 then cl_history c else None")
  case None
  then show ?thesis using assms by (auto simp: fetchPage_def)
next
  case (Some s)
  then have inv: "overlayInv B C s" using assms(1) by (auto simp: histOK_def split: if_splits)
  obtain l1 s1 where l1: "lookup B C (cu_now env n) (cu_faults env) req s = (l1, s1)" by force
  have i1: "overlayInv B C s1" using lookup_keeps [OF inv l1] by (rule keeps_inv)
  have "\<exists>s'. c' = setHistory s' c \<and> overlayInv B C s'"
  proof (cases "l1 = Inr None \<and> is_ok (session_syncMessages B env n req)")
    case False
    then show ?thesis using assms(2) Some l1 i1
      by (auto simp: fetchPage_def is_ok_def split: sum.splits option.splits)
  next
    case True
    then obtain response where resp: "session_syncMessages B env n req = Inr response" "l1 = Inr None"
      by (auto simp: is_ok_def split: sum.splits)
    obtain e2 s2 where s2: "save B C (cu_now env n) (cu_removed env) req response s1 = (e2, s2)" by force
    have i2: "overlayInv B C s2" using save_keeps [OF i1 s2] by (rule keeps_inv)
    obtain l3 s3 where l3: "lookup B C (cu_now env n) (cu_faults env) req s2 = (l3, s3)" by force
    have "overlayInv B C s3" using lookup_keeps [OF i2 l3] by (rule keeps_inv)
    then show ?thesis using assms(2) Some l1 resp s2 l3 i2
      by (auto simp: fetchPage_def split: sum.splits option.splits)
  qed
  then show ?thesis by (auto simp: histOK_def)
qed

lemma admitted_frame:
  assumes "histOK B C c" "admitted B C env n req c = (r, c')"
  shows "histOK B C c' \<and> onlyHistory c c'"
proof -
  obtain r1 c1 where f: "fetchPage B C env n req c = (r1, c1)" by force
  have "c' = c \<or> c' = c1"
    using assms(2) f by (auto simp: admitted_def admissionRun_def Let_def split: if_splits option.splits sum.splits)
  with assms(1) fetchPage_frame [OF assms(1) f] show ?thesis by auto
qed

lemma Client_syncMessages_frame:
  assumes "histOK B C c" "Client_syncMessages B C env n req c = (r, c')"
  shows "histOK B C c' \<and> onlyHistory c c'"
proof (cases "cl_history c")
  case None
  then show ?thesis
    using assms admitted_frame [OF assms(1)] fetchPage_frame [OF assms(1)]
    by (auto simp: Client_syncMessages_def split: if_splits sum.splits option.splits)
next
  case (Some s)
  then have inv: "overlayInv B C s" using assms(1) by (auto simp: histOK_def)
  obtain l1 s1 where l1: "lookup B C (cu_now env n) (cu_faults env) req s = (l1, s1)" by force
  have "overlayInv B C s1" using lookup_keeps [OF inv l1] by (rule keeps_inv)
  then have h1: "histOK B C (setHistory s1 c)" by (simp add: histOK_def)
  have "(c' = c \<or> c' = setHistory s1 c) \<or> admitted B C env n req (setHistory s1 c) = (r, c')
      \<or> fetchPage B C env n req c = (r, c')"
    using assms(2) Some l1
    by (auto simp: Client_syncMessages_def split: if_splits sum.splits option.splits)
  with h1 assms(1) show ?thesis
    using admitted_frame [OF h1] fetchPage_frame [OF assms(1)]
    by (metis onlyHistory_refl onlyHistory_trans setHistory_only(1))
qed

subsubsection \<open>Pages\<close>

text \<open>The events of a chat at the given positions.\<close>

definition eventsAt :: "int64 \<Rightarrow> int64 list \<Rightarrow> 'r event list \<Rightarrow> bool" where
  "eventsAt chat ids evs \<longleftrightarrow> map MessagePosition evs = map (\<lambda>n. Some (chat, n)) ids"

lemma eventsAt_Nil [simp]: "eventsAt chat ids [] \<longleftrightarrow> ids = []"
  by (auto simp: eventsAt_def)

lemma eventsAt_Cons [simp]:
  "eventsAt chat (n # ids) (ev # evs) \<longleftrightarrow> MessagePosition ev = Some (chat, n) \<and> eventsAt chat ids evs"
  by (auto simp: eventsAt_def)

lemma eventsAt_append:
  "eventsAt chat ids evs \<Longrightarrow> eventsAt chat ids' evs' \<Longrightarrow> eventsAt chat (ids @ ids') (evs @ evs')"
  by (simp add: eventsAt_def)

lemma catchRows_spec:
  assumes "marshal_lawful B" "catchRows B C chat mx rows current = Inr (evs, current')"
  shows "\<exists>ids. eventsAt chat ids evs \<and> sorted_wrt (<) (current # ids) \<and> current' = last (current # ids)
    \<and> (\<forall>n\<in>set ids. n \<le> mx)"
  using assms(2)
proof (induction rows arbitrary: current evs)
  case (Cons raw rest)
  from Cons.prems obtain logID where logID: "LogID B raw = Inr logID" by (auto split: sum.splits)
  show ?case
  proof (cases "logID > mx \<or> logID = current")
    case True
    then have "catchRows B C chat mx rest current = Inr (evs, current')"
      using Cons.prems logID by (auto split: if_splits)
    from Cons.IH [OF this] show ?thesis .
  next
    case False
    then obtain ev evs1 where ev: "DecodeChatLog B C chat raw = Inr ev" "evs = ev # evs1" "current < logID" "logID \<le> mx"
        and rest: "catchRows B C chat mx rest logID = Inr (evs1, current')"
      using Cons.prems logID by (auto split: if_splits sum.splits)
    from Cons.IH [OF rest] obtain ids where ids: "eventsAt chat ids evs1" "sorted_wrt (<) (logID # ids)"
      "current' = last (logID # ids)" "\<forall>n\<in>set ids. n \<le> mx" by blast
    have "MessagePosition ev = Some (chat, logID)"
      using DecodeChatLog_at [OF assms(1) ev(1)] logID by auto
    with ids ev show ?thesis by (intro exI [of _ "logID # ids"]) auto
  qed
qed simp

text \<open>Projection keeps the position of every event.\<close>

lemma project_position:
  assumes "marshal_lawful B" "elements_lawful B" "overlayInv B C s" "project B C s event = Inr event'"
  shows "MessagePosition event' = MessagePosition event"
proof (cases "MessagePosition event")
  case None
  then show ?thesis using assms(4) by (simp add: project_def)
next
  case (Some p)
  obtain chat n where p: "p = (chat, n)" by (cases p)
  note pos = Some [unfolded p]
  show ?thesis
  proof (cases "map_of (hs_mutations s) (chat, n)")
    case None
    then show ?thesis using assms(4) pos by (auto simp: project_def split: option.splits)
  next
    case (Some m)
    note m = Some
    show ?thesis
    proof (cases "mu_Replacement m")
      case None
      then show ?thesis using assms(4) pos m by (auto simp: project_def split: option.splits if_splits event.splits)
    next
      case (Some r)
      then obtain d where d: "apply_mutation B s r chat = Inr d" "DecodeChatLog B C chat d = Inr event'"
        using assms(4) pos m by (auto simp: project_def split: option.splits sum.splits)
      have "LogID B r = Inr n" using replacement_LogID [OF assms(1) overlayInv_valid [OF assms(3)] m Some] .
      then have "LogID B d = Inr n" using apply_LogID [OF assms(1,2) overlayInv_valid [OF assms(3)] _ d(1)] by simp
      then show ?thesis using DecodeChatLog_at [OF assms(1) d(2)] pos by auto
    qed
  qed
qed

lemma projectAll_positions:
  assumes "marshal_lawful B" "elements_lawful B" "overlayInv B C s" "projectAll B C s evs = Inr out"
  shows "map MessagePosition out = map MessagePosition evs"
  using assms(4)
proof (induction evs arbitrary: out)
  case (Cons ev evs)
  then show ?case using project_position [OF assms(1-3)] by (fastforce split: sum.splits)
qed simp

lemma projectAcquired_eventsAt:
  assumes "marshal_lawful B" "elements_lawful B" "histOK B C c" "eventsAt chat ids evs"
    "projectAcquiredEvents B C (cl_history c) evs = Inr out"
  shows "eventsAt chat ids out"
  using assms projectAll_positions [OF assms(1,2)]
  by (auto simp: projectAcquiredEvents_def eventsAt_def histOK_def split: option.splits)

lemma queueEvents_fields:
  assumes "eventsAt chat ids evs"
  shows "cl_pending (queueEvents evs c) = (cl_pending c)(chat := cl_pending c chat @ ids)
    \<and> cl_world (queueEvents evs c) = cl_world c \<and> cl_closed (queueEvents evs c) = cl_closed c
    \<and> cl_history (queueEvents evs c) = cl_history c"
  using assms
proof (induction evs arbitrary: ids c)
  case Nil
  then show ?case by (simp add: queueEvents_def)
next
  case (Cons ev evs)
  then obtain n ids' where ids: "ids = n # ids'" by (cases ids) (auto simp: eventsAt_def)
  have pos: "MessagePosition ev = Some (chat, n)" and rest: "eventsAt chat ids' evs" using Cons.prems ids by auto
  have "queueEvents (ev # evs) c = queueEvents evs (queueCommit chat n c)" using pos by (simp add: queueEvents_def)
  then show ?case using Cons.IH [OF rest, of "queueCommit chat n c"] ids by (auto simp: queueCommit_def)
qed

text \<open>The two ways a catch-up ends: with every event of the interval, or with an error.\<close>

definition caughtUp :: "int64 \<Rightarrow> int64 \<Rightarrow> int64 \<Rightarrow> 'r client \<Rightarrow> 'r event list \<Rightarrow> 'r client \<Rightarrow> bool" where
  "caughtUp chat start mx c evs c' \<longleftrightarrow>
     (\<exists>ids. eventsAt chat ids evs \<and> sorted_wrt (<) (start # ids) \<and> last (start # ids) = mx
       \<and> cl_pending c' = (cl_pending c)(chat := cl_pending c chat @ ids))
     \<and> gapPositions (cl_world c') chat = gapPositions (cl_world c) chat \<inter> {mx<..}
     \<and> committed (ledgerOf (storeData (cl_world c'))) = committed (ledgerOf (storeData (cl_world c)))"

definition gaveUp :: "int64 \<Rightarrow> int64 \<Rightarrow> int64 \<Rightarrow> write_env \<Rightarrow> 'r client \<Rightarrow> go_error \<Rightarrow> 'r client \<Rightarrow> bool" where
  "gaveUp chat start mx env c e c' \<longleftrightarrow>
     cl_pending c' = cl_pending c
     \<and> committed (ledgerOf (storeData (cl_world c'))) = committed (ledgerOf (storeData (cl_world c)))
     \<and> gapPositions (cl_world c) chat \<subseteq> gapPositions (cl_world c') chat
     \<and> (errors_Is e ErrGapUnresolved \<and> env = good_write \<longrightarrow> {start<..mx} \<subseteq> gapPositions (cl_world c') chat)"

lemma clearGap_ok:
  assumes "\<not> cl_closed c" "okStore (cl_world c)" "clearGap env (storeData (cl_world c)) chat mx c = (None, c')"
  shows "onlyWorld c c' \<and> gapPositions (cl_world c') chat = gapPositions (cl_world c) chat \<inter> {mx<..}
    \<and> committed (ledgerOf (storeData (cl_world c'))) = committed (ledgerOf (storeData (cl_world c)))"
proof (cases "HasGapThrough (storeData (cl_world c)) chat mx")
  case True
  then have "checkpointWrite (exec (cu_write env) (OpResolveGap chat mx)) c = (None, c')"
    using assms(3) by (simp add: clearGap_def checkpointWrite_ops)
  note e = checkpointWrite_exec [OF assms(1,2) this]
  from resolveGap_positions [OF assms(2) e(1)] e(2) show ?thesis by simp
next
  case False
  then have "c' = c" using assms(3) by (simp add: clearGap_def)
  moreover have "gapPositions (cl_world c) chat = gapPositions (cl_world c) chat \<inter> {mx<..}"
    using False by (auto simp: gapPositions_def HasGapThrough_ledger [OF okStore_validate [OF assms(2)]] split: option.splits)
  ultimately show ?thesis by (auto simp: onlyWorld_def intro: exI [of _ "cl_world c"])
qed

lemma DecodeForDelivery_error:
  assumes "carriesChatLog packet" "DecodeForDelivery B C packet = Inl e"
  shows "e = ErrUnidentifiableMessage"
  using assms
  by (auto simp: DecodeForDelivery_def carriesChatLog_def Let_def split: sum.splits prod.splits if_splits)

lemma DecodeChatLog_error:
  assumes "DecodeChatLog B C chatID d = Inl e"
  shows "\<not> errors_Is e ErrGapUnresolved"
proof -
  have "e \<in> {ErrMalformedEvent, ErrChatLogMisdirected, ErrUnidentifiableMessage}"
    using assms DecodeForDelivery_error [of "\<lparr>ep_Method = ''MSG'', ep_Body = b\<rparr>" B C e for b]
    by (auto simp: DecodeChatLog_def chatLogPacket_def carriesChatLog_def split: if_splits option.splits sum.splits)
  then show ?thesis by (auto simp: errors_Is.simps)
qed

lemma catchRows_error:
  assumes "catchRows B C chat mx rows current = Inl e"
  shows "\<not> errors_Is e ErrGapUnresolved"
  using assms
proof (induction rows arbitrary: current)
  case (Cons raw rest)
  show ?case
  proof (cases "LogID B raw")
    case (Inl e')
    then show ?thesis using Cons.prems by (auto simp: protocolErr_def errors_Is.simps)
  next
    case (Inr logID)
    show ?thesis
    proof (cases "DecodeChatLog B C chat raw")
      case (Inl e')
      then show ?thesis
        using Cons.prems Inr Cons.IH [of current] DecodeChatLog_error [OF Inl]
        by (auto simp: protocolErr_def errors_Is.simps split: if_splits)
    next
      case decoded: (Inr ev)
      then show ?thesis
        using Cons.prems Inr Cons.IH [of current] Cons.IH [of logID]
        by (auto simp: protocolErr_def errors_Is.simps split: if_splits sum.splits)
    qed
  qed
qed simp

lemma failGap_spec:
  assumes c: "\<not> cl_closed c" "okStore (cl_world c)" and a: "0 < chat" "0 \<le> start" "start < mx"
    and f: "failGap env chat (start + 1) mx e c = (r, c')"
  shows "\<exists>e'. r = Inl e' \<and> gaveUp chat start mx (cu_write env) c e' c' \<and> onlyWorld c c'"
proof -
  let ?op = "OpRecordGap chat (start + 1) mx"
  obtain p where p: "checkpointWrite (exec (cu_write env) ?op) c = (p, c')"
      and r: "r = (case p of None \<Rightarrow> Inl e | Some persistErr \<Rightarrow> Inl (Joined [e, persistErr]))"
    using f by (auto simp: failGap_def checkpointWrite_ops split: option.splits prod.splits)
  note x = checkpointWrite_exec [OF c p]
  have good: "p = None" if "cu_write env = good_write"
    using exec_good(1) [OF c(2), of ?op p "cl_world c'"] x(1) a that by simp
  have pend: "cl_pending c' = cl_pending c" using onlyWorld_fields [OF x(2)] by simp
  show ?thesis
  proof (cases p)
    case None
    with recordGap_positions [OF c(2), of "cu_write env" chat "start + 1" mx "cl_world c'"] x r pend
    show ?thesis by (auto simp: gaveUp_def)
  next
    case (Some persistErr)
    then have same: "storeData (cl_world c') = storeData (cl_world c)"
      using exec_keeps [OF c(2), of "cu_write env" ?op] x(1) by simp
    have "cu_write env \<noteq> good_write" using good Some by auto
    with same x(2) r pend Some show ?thesis by (simp add: gaveUp_def gapPositions_def)
  qed
qed

lemma finishCatchUp_spec:
  assumes law: "marshal_lawful B" "elements_lawful B" and h: "histOK B C c"
    and c: "\<not> cl_closed c" "okStore (cl_world c)" and a: "0 < chat" "0 \<le> start" "start < mx"
    and evs: "eventsAt chat ids evs" "sorted_wrt (<) (start # ids)" "last (start # ids) = mx"
    and f: "finishCatchUp B C env (storeData (cl_world c)) chat (start + 1) mx evs c = (r, c')"
  shows "case r of Inl e \<Rightarrow> gaveUp chat start mx (cu_write env) c e c' | Inr out \<Rightarrow> caughtUp chat start mx c out c'"
proof (cases "projectAcquiredEvents B C (cl_history c) evs")
  case (Inl pe)
  define op where "op = OpRecordGap chat (start + 1) mx"
  obtain p where p: "checkpointWrite (exec (cu_write env) op) c = (p, c')"
      and r: "r = Inl (the (errors_Join [Some ErrGapUnresolved, Some pe, p]))"
    using f Inl by (auto simp: finishCatchUp_def checkpointWrite_ops op_def split: prod.splits)
  note x = checkpointWrite_exec [OF c p]
  have good: "p = None" if "cu_write env = good_write"
    using exec_good(1) [OF c(2), of op p "cl_world c'"] x(1) a that by (simp add: op_def)
  have pend: "cl_pending c' = cl_pending c" using onlyWorld_fields [OF x(2)] by simp
  show ?thesis
  proof (cases p)
    case None
    with recordGap_positions [OF c(2), of "cu_write env" chat "start + 1" mx "cl_world c'"] x r pend
    show ?thesis by (auto simp: gaveUp_def op_def)
  next
    case (Some persistErr)
    then have "storeData (cl_world c') = storeData (cl_world c)"
      using exec_keeps [OF c(2), of "cu_write env" op] x(1) by simp
    moreover have "cu_write env \<noteq> good_write" using good Some by auto
    ultimately show ?thesis using r pend by (simp add: gaveUp_def gapPositions_def)
  qed
next
  case (Inr out)
  have out: "eventsAt chat ids out" by (rule projectAcquired_eventsAt [OF law h evs(1) Inr])
  obtain e c1 where g: "clearGap env (storeData (cl_world c)) chat mx c = (e, c1)" by force
  show ?thesis
  proof (cases e)
    case None
    then have r: "r = Inr out" "c' = queueEvents out c1" using f Inr g by (auto simp: finishCatchUp_def)
    note k = clearGap_ok [OF c g [unfolded None]]
    have "cl_pending c1 = cl_pending c" using k onlyWorld_fields by blast
    then have "cl_pending c' = (cl_pending c)(chat := cl_pending c chat @ ids)" "cl_world c' = cl_world c1"
      using queueEvents_fields [OF out, of c1] r(2) by simp_all
    with k out evs(2,3) have "caughtUp chat start mx c out c'" unfolding caughtUp_def by metis
    then show ?thesis by (simp add: r)
  next
    case (Some e')
    then have r: "r = Inl e'" "c' = c1" using f Inr g by (auto simp: finishCatchUp_def)
    have w: "checkpointWrite (exec (cu_write env) (OpResolveGap chat mx)) c = (Some e', c1)"
      using g Some by (auto simp: clearGap_def checkpointWrite_ops split: if_splits)
    note x = checkpointWrite_exec [OF c w]
    have "cu_write env \<noteq> good_write"
      using exec_good(1) [OF c(2), of "OpResolveGap chat mx"] x(1) a by force
    moreover have "storeData (cl_world c1) = storeData (cl_world c)" using exec_keeps [OF c(2) x(1)] .
    ultimately show ?thesis using r onlyWorld_fields [OF x(2)] by (simp add: gaveUp_def gapPositions_def)
  qed
qed

lemma outcome_onlyHistory:
  assumes "onlyHistory c c1"
  shows "caughtUp chat start mx c1 = caughtUp chat start mx c" "gaveUp chat start mx env c1 = gaveUp chat start mx env c"
  using assms by (simp_all add: fun_eq_iff caughtUp_def gaveUp_def onlyHistory_def)

lemma last_append_Cons: "last (s # xs @ ys) = last (last (s # xs) # ys)"
  by (cases ys) auto

lemma sorted_append_Cons:
  fixes s :: int64
  assumes "sorted_wrt (<) (s # xs)" "sorted_wrt (<) (last (s # xs) # ys)"
  shows "sorted_wrt (<) (s # xs @ ys)"
proof -
  have "x \<le> last (s # xs)" if "x \<in> set (s # xs)" for x
    using assms(1) that by (induction xs arbitrary: s) (auto split: if_splits)
  with assms show ?thesis by (auto simp: sorted_wrt_append) fastforce+
qed

lemma catchPages_spec:
  assumes law: "marshal_lawful B" "elements_lawful B" and a: "0 < chat" "0 \<le> start" "start < mx"
    and "histOK B C c" "\<not> cl_closed c" "okStore (cl_world c)" "eventsAt chat ids evs"
    "sorted_wrt (<) (start # ids)" "last (start # ids) = current"
    "catchPages B C env (storeData (cl_world c)) chat (start + 1) mx k current evs c = (r, c')"
  shows "case r of Inl e \<Rightarrow> gaveUp chat start mx (cu_write env) c e c' | Inr out \<Rightarrow> caughtUp chat start mx c out c'"
  using assms(6-)
proof (induction k arbitrary: c current evs ids)
  case 0
  note p = "0.prems"
  from failGap_spec [OF p(2,3) a, of env ErrGapUnresolved r c'] p(7) show ?case by auto
next
  case (Suc k)
  note p = Suc.prems
  let ?req = "\<lparr>rq_ChatID = chat, rq_Cur = current, rq_Max = mx, rq_Count = 0\<rparr>"
  obtain m c1 where m: "Client_syncMessages B C env (maxCatchUpPages - Suc k) ?req c = (m, c1)" by force
  note fr = Client_syncMessages_frame [OF p(1) m]
  have h1: "histOK B C c1" and o: "onlyHistory c c1" using fr by auto
  have c1: "\<not> cl_closed c1" "okStore (cl_world c1)" "cl_world c1 = cl_world c" "cl_pending c1 = cl_pending c"
    using o p(2,3) by (auto simp: onlyHistory_def)
  note out = outcome_onlyHistory [OF o]
  have fail: "gaveUp chat start mx (cu_write env) c e c1" if "\<not> errors_Is e ErrGapUnresolved" for e
    using that c1 by (simp add: gaveUp_def)
  note gap = failGap_spec [OF c1(1,2) a, of env, unfolded out]
  show ?case
  proof (cases m)
    case (Inl e)
    then show ?thesis using p(7) m fail [of e] gap [of e r c'] by (auto split: if_splits)
  next
    case page: (Inr page)
    show ?thesis
    proof (cases "catchRows B C chat mx (rs_ChatLogs page) current")
      case (Inl e)
      then show ?thesis using p(7) m page fail [OF catchRows_error [OF Inl]] by auto
    next
      case (Inr fc)
      obtain found current' where fc: "fc = (found, current')" by force
      from catchRows_spec [OF law(1) Inr [unfolded fc]] obtain ids' where ids': "eventsAt chat ids' found"
        "sorted_wrt (<) (current # ids')" "current' = last (current # ids')" by blast
      have all: "eventsAt chat (ids @ ids') (evs @ found)" "sorted_wrt (<) (start # ids @ ids')"
          "last (start # ids @ ids') = current'"
        using eventsAt_append [OF p(4) ids'(1)] sorted_append_Cons [OF p(5), of ids'] ids'(2,3) p(6)
          last_append_Cons [of start ids ids'] by auto
      note step = p(7) [unfolded catchPages.simps m page prod.case sum.case Inr fc]
      consider "current' = mx" | "current' \<noteq> mx" "found = []" | "current' \<noteq> mx" "found \<noteq> []" by blast
      then show ?thesis
      proof cases
        case 1
        then have f: "finishCatchUp B C env (storeData (cl_world c1)) chat (start + 1) mx (evs @ found) c1 = (r, c')"
          using step c1 by simp
        from finishCatchUp_spec [OF law h1 c1(1,2) a all(1,2) _ f] all(3) 1 show ?thesis unfolding out by simp
      next
        case 2
        then show ?thesis using step gap [of ErrGapUnresolved r c'] by auto
      next
        case 3
        then have f: "catchPages B C env (storeData (cl_world c1)) chat (start + 1) mx k current' (evs @ found) c1 = (r, c')"
          using step c1 by simp
        from Suc.IH [OF h1 c1(1,2) all f] show ?thesis unfolding out .
      qed
    qed
  qed
qed

lemma resumePosition_nonneg: "validate state = None \<Longrightarrow> 0 \<le> resumePosition state chat"
  by (auto simp: resumePosition_def CommittedMax_ledger ledgerOf_def cursorAt_def validate_iff tablesOk_def validCursor_def
      split: option.splits dest!: sortedByChat_entry)

lemma CatchUp_spec:
  assumes law: "marshal_lawful B" "elements_lawful B" and h: "histOK B C c" and ok: "okStore (cl_world c)"
    and s: "start = resumePosition (storeData (cl_world c)) chat" and f: "CatchUp B C env chat mx c = (r, c')"
  shows "case r of
      Inl e \<Rightarrow> (start < mx \<longrightarrow> gaveUp chat start mx (cu_write env) c e c')
        \<and> (mx \<le> start \<longrightarrow> cl_pending c' = cl_pending c \<and> storeData (cl_world c') = storeData (cl_world c))
    | Inr out \<Rightarrow> (start < mx \<longrightarrow> caughtUp chat start mx c out c')
        \<and> (mx \<le> start \<longrightarrow> out = [] \<and> caughtUp chat mx mx c out c')"
proof (cases "chat \<le> 0 \<or> mx \<le> 0 \<or> cl_closed c")
  case True
  then have "r \<in> {Inl ErrProtocol, Inl ErrClientClosed}" "c' = c" using f by (auto simp: CatchUp_def split: if_splits)
  then show ?thesis by (auto simp: gaveUp_def errors_Is.simps)
next
  case False
  then have a: "0 < chat" "0 < mx" "\<not> cl_closed c" by auto
  have sto: "store (cl_world c) \<noteq> None" using ok by (auto simp: okStore_def)
  have nonneg: "0 \<le> start" using s resumePosition_nonneg [OF okStore_validate [OF ok]] by simp
  have snap: "Snapshot (store (cl_world c)) = storeData (cl_world c)" by (rule Snapshot_ok [OF ok])
  show ?thesis
  proof (cases "start < mx")
    case True
    then have "catchPages B C env (storeData (cl_world c)) chat (start + 1) mx maxCatchUpPages start [] c = (r, c')"
      using f a sto snap by (simp add: CatchUp_def s Let_def)
    from catchPages_spec [OF law a(1) nonneg True h a(3) ok _ _ _ this, of "[]"] True show ?thesis
      by (auto split: sum.splits)
  next
    case False
    obtain e c1 where g: "clearGap env (storeData (cl_world c)) chat mx c = (e, c1)" by force
    have rc: "r = (case e of None \<Rightarrow> Inr [] | Some e' \<Rightarrow> Inl e')" "c' = c1"
      using f a sto snap False g by (auto simp: CatchUp_def s split: option.splits)
    show ?thesis
    proof (cases e)
      case None
      from clearGap_ok [OF a(3) ok g [unfolded None]] have "caughtUp chat mx mx c [] c1"
        by (auto simp: caughtUp_def dest!: onlyWorld_fields)
      then show ?thesis using rc None False by simp
    next
      case (Some e')
      have w: "checkpointWrite (exec (cu_write env) (OpResolveGap chat mx)) c = (Some e', c1)"
        using g Some by (auto simp: clearGap_def checkpointWrite_ops split: if_splits)
      note x = checkpointWrite_exec [OF a(3) ok w]
      show ?thesis using rc Some False onlyWorld_fields [OF x(2)] exec_keeps [OF ok x(1)] by simp
    qed
  qed
qed

subsection \<open>Properties\<close>


text \<open>
  C10: A catch-up that fails loses nothing. No commit is queued, no commit or recorded gap of the chat is
  lost, and when the failure means that the interval could not be recovered (the error is
  \<open>ErrGapUnresolved\<close>: a server floor, a page without progress, the page cap, or acquired
  content that cannot be shown), the whole interval is recorded as a gap, provided the file
  system accepts the write.
\<close>

theorem CatchUp_failure:
  assumes "marshal_lawful B" and "elements_lawful B" and "histOK B C c" and "okStore (cl_world c)"
    and "start = resumePosition (storeData (cl_world c)) chat"
    and "CatchUp B C env chat targetMax c = (Inl e, c')"
  shows "cl_pending c' = cl_pending c
    \<and> committed (ledgerOf (storeData (cl_world c'))) = committed (ledgerOf (storeData (cl_world c)))
    \<and> gapPositions (cl_world c) chat \<subseteq> gapPositions (cl_world c') chat
    \<and> (errors_Is e ErrGapUnresolved \<and> cu_write env = good_write \<longrightarrow>
         {start<..targetMax} \<subseteq> gapPositions (cl_world c') chat)"
proof (cases "start < targetMax")
  case True
  then have "gaveUp chat start targetMax (cu_write env) c e c'" using CatchUp_spec [OF assms] by simp
  then show ?thesis by (auto simp: gaveUp_def)
next
  case False
  then show ?thesis using CatchUp_spec [OF assms] by (simp add: gapPositions_def)
qed

subsection \<open>Witnesses\<close>

definition samplePage :: "int64 list \<Rightarrow> doc" where
  "samplePage ids = Doc [(''chatLogs'', docArray (map (\<lambda>n. VDoc (sampleLog n)) ids))]"

definition sampleCatchUp :: "(nat \<Rightarrow> int64 list) \<Rightarrow> doc catchup_env" where
  "sampleCatchUp pages = \<lparr>cu_sync = (\<lambda>n req. Inr (samplePage (pages n))), cu_admission = False,
     cu_refused = (\<lambda>_. None), cu_persist = (\<lambda>_. None), cu_cancelled = (\<lambda>_. None), cu_now = (\<lambda>_. 0),
     cu_faults = (\<lambda>_. None), cu_removed = (\<lambda>_. None), cu_write = good_write\<rparr>"

lemma sampleLog_at:
  assumes "0 < n" "0 < chat"
  shows "DecodeChatLog docBson plainContent chat (sampleLog n) = Inr (TextMessage chat n 0 0 ''hi'' 0)"
  using assms
  by (simp add: DecodeChatLog_def chatLogPacket_def DecodeForDelivery_def sampleLog_def plainContent_def
      messageDeliveryEnvelope_def DecodeIdentity_def positiveField_def Int64_def Int64OrZero_def
      duplicateKey_def maxInt32_def disagreesAt_def orZero_def hasAnyDuplicateExcept_def Decode_def
      decodeMessage_def chatlog_Decode_def Feed_def Text_def deletedFlagged_def
      DeletedAllChatTypeFlag_def decodeText_def String_def Let_def)

lemma samplePage_parse:
  assumes "sorted_wrt (<) (0 # ids)"
  shows "\<exists>r. syncmsg_ParseResponse docBson (samplePage ids) = Inr r \<and> rs_ChatLogs r = map sampleLog ids"
proof -
  have "ascends docBson 0 (map sampleLog ids)"
    using assms unfolding ascends_def
    by (intro exI [of _ ids]) (auto simp: list_all2_map1 list_all2_same sampleLog_LogID)
  then have "parseChatLogs docBson 0 (map VDoc (map sampleLog ids)) = Inr (map sampleLog ids)"
    using parseChatLogs_iff [of 0 docBson "map VDoc (map sampleLog ids)" "map sampleLog ids"] by simp
  then show ?thesis
    by (simp add: syncmsg_ParseResponse_def samplePage_def docArray_def comp_def)
qed

lemma sampleCatchUp_page:
  assumes "sorted_wrt (<) (0 # pages n)" "0 < rq_ChatID req" "0 \<le> rq_Cur req" "rq_Cur req < rq_Max req" "rq_Count req = 0"
  shows "\<exists>r. Client_syncMessages docBson plainContent (sampleCatchUp pages) n req (sampleClient w) = (Inr r, sampleClient w)
    \<and> rs_ChatLogs r = map sampleLog (pages n)"
  using samplePage_parse [OF assms(1)] assms(2-)
  by (auto simp: Client_syncMessages_def fetchPage_def session_syncMessages_def sampleCatchUp_def sampleClient_def
      Request_MarshalBSON_def marshal_def MaxPageSize_def)

lemma sampleWorld_resume: "resumePosition (storeData sampleWorld) 7 = 40" "HasGapThrough (storeData sampleWorld) 7 60"
  using sampleCheckpoint_sound
  by (simp_all add: resumePosition_def soundCheckpoint_def storeData_def CommittedMax_ledger HasGapThrough_ledger
      ledgerOf_def cursorAt_def gapAt_def entryOf_def sampleWorld_def)
     (simp_all add: sample_defs entryOf_def)

lemma sampleWorld_gaps: "gapPositions sampleWorld 7 = {41..60}"
  by (simp add: gapPositions_def storeData_def ledgerOf_def gapAt_def entryOf_def sample_defs)


theorem CatchUp_failure_witness:
  "\<exists>c'. CatchUp docBson plainContent (sampleCatchUp (\<lambda>_. [])) 7 70 (sampleClient sampleWorld) = (Inl ErrGapUnresolved, c')
     \<and> cl_pending c' = (\<lambda>_. []) \<and> {40<..70} \<subseteq> gapPositions (cl_world c') 7"
proof -
  let ?env = "sampleCatchUp (\<lambda>_. [])" and ?c = "sampleClient sampleWorld"
  have c: "\<not> cl_closed ?c" "okStore (cl_world ?c)" "histOK docBson plainContent ?c"
    by (simp_all add: sampleClient_def sampleWorld_ok histOK_def)
  obtain r1 where r1: "Client_syncMessages docBson plainContent ?env 0
      \<lparr>rq_ChatID = 7, rq_Cur = 40, rq_Max = 70, rq_Count = 0\<rparr> ?c = (Inr r1, ?c)" "rs_ChatLogs r1 = []"
    using sampleCatchUp_page [of "\<lambda>_. []" 0 "\<lparr>rq_ChatID = 7, rq_Cur = 40, rq_Max = 70, rq_Count = 0\<rparr>"] by auto
  obtain e c1 where g: "checkpointWrite (exec good_write (OpRecordGap 7 41 70)) ?c = (e, c1)" by force
  have "e = None"
    using checkpointWrite_exec(1) [OF c(1,2) g] exec_good(1) [OF c(2), of "OpRecordGap 7 41 70"] by fastforce
  with g have f: "failGap ?env 7 41 70 ErrGapUnresolved ?c = (Inl ErrGapUnresolved, c1)"
    by (simp add: failGap_def checkpointWrite_ops sampleCatchUp_def)
  have "catchPages docBson plainContent ?env (storeData sampleWorld) 7 41 70 (Suc 99) 40 [] ?c = (Inl ErrGapUnresolved, c1)"
    unfolding catchPages.simps using r1 f by (simp add: maxCatchUpPages_def)
  then have run: "CatchUp docBson plainContent ?env 7 70 ?c = (Inl ErrGapUnresolved, c1)"
    using c sampleWorld_resume(1) Snapshot_ok [OF sampleWorld_ok] sampleWorld_ok
    by (auto simp: CatchUp_def Let_def sampleClient_def maxCatchUpPages_def okStore_def)
  have s: "40 = resumePosition (storeData (cl_world ?c)) 7" by (simp add: sampleClient_def sampleWorld_resume)
  have "cu_write ?env = good_write" by (simp add: sampleCatchUp_def)
  with CatchUp_failure [OF docBson_lawful docBson_elements c(3,2) s run] run show ?thesis
    by (auto simp: sampleClient_def errors_Is.simps)
qed

subsection \<open>Selection of the chats to catch up\<close>

lemma selectTargets_known:
  assumes ok: "okStore (cl_world c)" and s: "selectTargets B keep data c = Inr ts"
  shows "sorted_wrt (<) (map tg_ChatID ts)
    \<and> (\<forall>chat m. \<lparr>tg_ChatID = chat, tg_MaxLogID = m\<rparr> \<in> set ts \<longleftrightarrow>
         known (ledgerOf (storeData (cl_world c))) chat = Some m \<and> 0 < m
         \<and> keep (storeData (cl_world c)) \<lparr>tg_ChatID = chat, tg_MaxLogID = m\<rparr>)"
proof -
  let ?d = "storeData (cl_world c)"
  let ?f = "\<lambda>t. \<lparr>tg_ChatID = ct_ChatID t, tg_MaxLogID = ct_MaxLogID t\<rparr>"
  have st: "store (cl_world c) \<noteq> None" using ok by (auto simp: okStore_def)
  have ts: "ts = filter (keep ?d) (map ?f (filter (\<lambda>t. ct_MaxLogID t > 0) (sl (KnownChats ?d))))"
    using s st unfolding selectTargets_def InitialSyncTargets_def Snapshot_ok [OF ok] SyncTargets_def
    by (auto split: sum.splits)
  have tab: "tableSorted ct_ChatID (sl (KnownChats ?d))"
    using okStore_validate [OF ok] by (auto simp: validate_iff tablesOk_def intro: sortedByChat_table)
  have "map tg_ChatID ts = map ct_ChatID (filter (\<lambda>t. keep ?d (?f t)) (filter (\<lambda>t. ct_MaxLogID t > 0) (sl (KnownChats ?d))))"
    by (simp add: ts filter_map comp_def)
  moreover have "sorted_wrt (\<lambda>a b. ct_ChatID a < ct_ChatID b) (sl (KnownChats ?d))"
    using tab by (simp add: tableSorted_iff sorted_wrt_map)
  ultimately have "sorted_wrt (<) (map tg_ChatID ts)"
    by (simp add: sorted_wrt_map sorted_wrt_filter)
  moreover have "\<lparr>tg_ChatID = chat, tg_MaxLogID = m\<rparr> \<in> set ts \<longleftrightarrow>
      known (ledgerOf ?d) chat = Some m \<and> 0 < m \<and> keep ?d \<lparr>tg_ChatID = chat, tg_MaxLogID = m\<rparr>" for chat m
  proof -
    have "targetAt ?d chat = Some t \<longleftrightarrow> t \<in> set (sl (KnownChats ?d)) \<and> ct_ChatID t = chat" for t
      unfolding targetAt_def by (metis targets.wf_member [OF tab] targets.entry_key)
    then have "known (ledgerOf ?d) chat = Some m \<longleftrightarrow> (\<exists>t\<in>set (sl (KnownChats ?d)). ct_ChatID t = chat \<and> ct_MaxLogID t = m)"
      by (auto simp: ledgerOf_def)
    then show ?thesis by (auto simp: ts)
  qed
  ultimately show ?thesis by blast
qed

lemma ledger_positive:
  assumes "validate c = None"
  shows "committed (ledgerOf c) i = Some m \<Longrightarrow> 0 < m" "started (ledgerOf c) i = Some f \<Longrightarrow> 0 < f"
  using assms
  by (auto simp: ledgerOf_def cursorAt_def startAt_def validate_iff tablesOk_def validCursor_def validStart_def
      dest!: sortedByChat_entry)

text \<open>
  The chats selected for catch-up after a login. They are listed once each, in ascending order, with
  their known maximum, and they are exactly the chats this profile delivered from before (a committed
  position or a recorded first admission) whose known maximum lies beyond the position catch-up
  starts from. The undelivered chats are exactly the known ones with a message and neither
  record: history alone never selects a chat.
\<close>

theorem targets_exact:
  assumes "okStore (cl_world c)" and "ResumeTargets B data c = Inr resume" and "UndeliveredTargets B data c = Inr fresh"
    and "l = ledgerOf (storeData (cl_world c))"
  shows "sorted_wrt (<) (map tg_ChatID resume) \<and> sorted_wrt (<) (map tg_ChatID fresh)
    \<and> (\<forall>chat m. \<lparr>tg_ChatID = chat, tg_MaxLogID = m\<rparr> \<in> set resume \<longleftrightarrow>
         known l chat = Some m \<and> (committed l chat \<noteq> None \<or> started l chat \<noteq> None)
         \<and> resumePosition (storeData (cl_world c)) chat < m)
    \<and> (\<forall>chat m. \<lparr>tg_ChatID = chat, tg_MaxLogID = m\<rparr> \<in> set fresh \<longleftrightarrow>
         known l chat = Some m \<and> 0 < m \<and> committed l chat = None \<and> started l chat = None)"
proof -
  let ?d = "storeData (cl_world c)"
  note v = okStore_validate [OF assms(1)]
  note pos = ledger_positive [OF v]
  have com: "CommittedMax ?d chat = (case committed l chat of None \<Rightarrow> 0 | Some m \<Rightarrow> m)" for chat
    using CommittedMax_ledger [OF v] assms(4) by simp
  have fst: "FirstDeliveryStart ?d chat = (case started l chat of None \<Rightarrow> 0 | Some m \<Rightarrow> m)" for chat
    using FirstDeliveryStart_ledger [OF v] assms(4) by simp
  have sel: "0 < m \<and> (let committed = CommittedMax ?d chat; start = FirstDeliveryStart ?d chat
      in (committed > 0 \<and> m > committed) \<or> (committed = 0 \<and> start > 0 \<and> m \<ge> start))
    \<longleftrightarrow> (committed l chat \<noteq> None \<or> started l chat \<noteq> None) \<and> resumePosition ?d chat < m" for chat m
    using pos assms(4) unfolding resumePosition_def com fst
    by (cases "committed l chat"; cases "started l chat") (force simp: Let_def)+
  have und: "0 < m \<and> 0 < m \<and> CommittedMax ?d chat = 0 \<and> FirstDeliveryStart ?d chat = 0
    \<longleftrightarrow> 0 < m \<and> committed l chat = None \<and> started l chat = None" for chat m
    using pos assms(4) unfolding com fst by (cases "committed l chat"; cases "started l chat") force+
  note r = selectTargets_known [OF assms(1) assms(2) [unfolded ResumeTargets_def], unfolded Target.simps sel, folded assms(4)]
  note f = selectTargets_known [OF assms(1) assms(3) [unfolded UndeliveredTargets_def], unfolded Target.simps und, folded assms(4)]
  from r f show ?thesis by blast
qed

theorem targets_exact_witness:
  "\<exists>resume fresh. ResumeTargets docBson (Inr []) (sampleClient sampleWorld) = Inr resume
     \<and> UndeliveredTargets docBson (Inr []) (sampleClient sampleWorld) = Inr fresh
     \<and> \<lparr>tg_ChatID = 7, tg_MaxLogID = 60\<rparr> \<in> set resume \<and> \<lparr>tg_ChatID = 9, tg_MaxLogID = 55\<rparr> \<notin> set resume"
proof -
  let ?c = "sampleClient sampleWorld"
  have ok: "okStore (cl_world ?c)" by (simp add: sampleClient_def sampleWorld_ok)
  have st: "store (cl_world ?c) \<noteq> None" by (simp add: sampleClient_def sampleWorld_def)
  obtain resume fresh where r: "ResumeTargets docBson (Inr []) ?c = Inr resume" "UndeliveredTargets docBson (Inr []) ?c = Inr fresh"
    using st by (simp add: ResumeTargets_def UndeliveredTargets_def selectTargets_def InitialSyncTargets_def)
  have l: "ledgerOf (storeData (cl_world ?c)) = ledgerOf sampleCheckpoint" by (simp add: sampleClient_def storeData_def sampleWorld_def)
  have facts: "known (ledgerOf sampleCheckpoint) 7 = Some 60" "committed (ledgerOf sampleCheckpoint) 7 = Some 40"
      "committed (ledgerOf sampleCheckpoint) 9 = Some 55"
    by (simp_all add: ledgerOf_def targetAt_def cursorAt_def entryOf_def sample_defs)
  have "validate sampleCheckpoint = None" using sampleCheckpoint_sound by (simp add: soundCheckpoint_def)
  then have res: "resumePosition (storeData (cl_world ?c)) 7 = 40" "resumePosition (storeData (cl_world ?c)) 9 = 55"
    using facts by (simp_all add: resumePosition_def CommittedMax_ledger sampleClient_def storeData_def sampleWorld_def)
  from targets_exact [OF ok r l [symmetric]] facts res r show ?thesis by auto
qed

end
