(* ===== verification/Bulk_Catch_Up.thy ===== *)
theory Bulk_Catch_Up
  imports Catch_Up
begin

text \<open>
  Recovery of every missed interval at connect: \<open>src/internal/client/bulk_catchup.go\<close>.

  The answers are those of the session (its login inventory and floor, the chat list, the body of
  the reply to the \<open>n\<close>-th page request or its error), of the history admission, of the clock and
  of the file system. The map of rooms is an association list; its pointers are the entries. The wait for
  another chain to end is an answer too.
\<close>

subsection \<open>Options and rooms\<close>

definition maxBulkCatchUpPages :: nat where "maxBulkCatchUpPages = maxCatchUpPages"

definition second :: duration where "second = 1000000000"

record StartupHistoryOptions =
  so_MaxPages :: int64
  so_MaximumDuration :: duration

definition StartupHistoryOptions_normalized :: "StartupHistoryOptions \<Rightarrow> StartupHistoryOptions result" where
  "StartupHistoryOptions_normalized o0 =
     (let o1 = (if so_MaxPages o0 = 0 then o0\<lparr>so_MaxPages := 25\<rparr> else o0);
          o2 = (if so_MaximumDuration o1 = 0 then o1\<lparr>so_MaximumDuration := 60 * second\<rparr> else o1)
      in if so_MaxPages o2 < 1 \<or> so_MaxPages o2 > 1000 \<or> so_MaximumDuration o2 < 0
            \<or> so_MaximumDuration o2 > 3600 * second
         then Inl ErrProtocol else Inr o2)"

record 'r chainRoom =
  ro_chatID :: int64
  ro_ceiling :: int64
  ro_cursor :: int64
  ro_catchUp :: bool
  ro_gapStart :: int64
  ro_events :: "'r event list"
  ro_skipFrom :: int64
  ro_skipThrough :: int64
  ro_done :: bool

type_synonym 'r rooms = "(int64 \<times> 'r chainRoom) list"

record 'r CaughtUpRoom =
  cr_ChatID :: int64
  cr_Ceiling :: int64
  cr_Events :: "'r event list"
  cr_Skipped :: bool
  cr_Unresolved :: bool

record 'r CatchUpResult =
  cs_Rooms :: "'r CaughtUpRoom list"
  cs_Pages :: nat
  cs_Logs :: nat
  cs_HistoryPending :: nat

record 'r bulk_env =
  be_data :: "'r list result"
  be_floor :: "int64 result"
  be_chats :: "'r ChatData list result"
  be_bulk :: "nat \<Rightarrow> BulkRequest \<Rightarrow> 'r result"
  be_admission :: bool
  be_refused :: "nat \<Rightarrow> go_error option"
  be_persist :: "nat \<Rightarrow> go_error option"
  be_busy :: bool
  be_wait :: "go_error option"
  be_started :: gotime
  be_clock :: "nat \<Rightarrow> gotime"
  be_removed :: "Request \<Rightarrow> go_error option"
  be_skipWrite :: "int64 \<Rightarrow> write_env"
  be_write :: "int64 \<Rightarrow> write_env"

definition roomOf :: "'r rooms \<Rightarrow> int64 \<Rightarrow> 'r chainRoom" where
  "roomOf rooms chatID = the (map_of rooms chatID)"

definition countHistoryRooms :: "'r rooms \<Rightarrow> int64 list \<Rightarrow> nat" where
  "countHistoryRooms rooms ids = length (filter (\<lambda>chatID. \<not> ro_catchUp (roomOf rooms chatID)) ids)"

subsection \<open>Selection\<close>

definition catchUpRoom :: "Checkpoint \<Rightarrow> int64 \<Rightarrow> Target \<Rightarrow> 'r chainRoom" where
  "catchUpRoom state floor target =
     (let cursor = (if CommittedMax state (tg_ChatID target) = 0
                    then FirstDeliveryStart state (tg_ChatID target) - 1
                    else CommittedMax state (tg_ChatID target))
      in \<lparr>ro_chatID = tg_ChatID target, ro_ceiling = tg_MaxLogID target, ro_cursor = cursor,
          ro_catchUp = True, ro_gapStart = cursor + 1, ro_events = [], ro_skipFrom = 0, ro_skipThrough = 0,
          ro_done = (tg_MaxLogID target < floor)\<rparr>)"

definition addHistoryRoom ::
    "'r bson \<Rightarrow> (int64 \<times> int64) list \<Rightarrow> int64 \<Rightarrow> 'r ChatData \<Rightarrow> 'r rooms \<Rightarrow> 'r rooms" where
  "addHistoryRoom B cursors floor chat rooms =
     (if map_of rooms (cd_ChatID chat) \<noteq> None \<or> cd_LinkID chat \<noteq> 0
         \<or> (cd_Type chat \<noteq> ''DirectChat'' \<and> cd_Type chat \<noteq> ''MultiChat'')
      then rooms
      else
        let ceiling = (case cd_LastChatLog chat of
              None \<Rightarrow> cd_LastServerLogID chat
            | Some log \<Rightarrow> (case LogID B log of
                  Inr n \<Rightarrow> max (cd_LastServerLogID chat) n | Inl _ \<Rightarrow> cd_LastServerLogID chat));
            cursor = cursorOf cursors (cd_ChatID chat)
        in if ceiling > 0 \<and> cursor < ceiling \<and> ceiling \<ge> floor
           then AList.update (cd_ChatID chat)
                  \<lparr>ro_chatID = cd_ChatID chat, ro_ceiling = ceiling, ro_cursor = cursor, ro_catchUp = False,
                   ro_gapStart = 0, ro_events = [], ro_skipFrom = 0, ro_skipThrough = 0, ro_done = False\<rparr> rooms
           else rooms)"

definition selectBulkRooms ::
    "'r bson \<Rightarrow> 'r bulk_env \<Rightarrow> StartupHistoryOptions option \<Rightarrow> 'r client \<Rightarrow> 'r rooms result" where
  "selectBulkRooms B env history c =
     (case ResumeTargets B (be_data env) c of
        Inl e \<Rightarrow> Inl e
      | Inr targets \<Rightarrow>
          (case be_floor env of
             Inl e \<Rightarrow> Inl e
           | Inr floor \<Rightarrow>
               let state = Snapshot (store (cl_world c));
                   rooms = fold (\<lambda>target. AList.update (tg_ChatID target) (catchUpRoom state floor target)) targets []
               in case history of
                    None \<Rightarrow> Inr rooms
                  | Some _ \<Rightarrow>
                      (case be_chats env of
                         Inl e \<Rightarrow> Inl e
                       | Inr chats \<Rightarrow>
                           Inr (fold (addHistoryRoom B (case cl_history c of None \<Rightarrow> [] | Some s \<Rightarrow> bulkSnapshot s) floor)
                                  chats rooms))))"

subsection \<open>One page\<close>

definition bulkFetch :: "'r bson \<Rightarrow> 'r bulk_env \<Rightarrow> nat \<Rightarrow> BulkRequest \<Rightarrow> 'r BulkResponse result" where
  "bulkFetch B env n request =
     (case BulkRequest_MarshalBSON B request of
        Inl e \<Rightarrow> Inl e
      | Inr _ \<Rightarrow> (case be_bulk env n request of Inl e \<Rightarrow> Inl e | Inr body \<Rightarrow> mchatlogs_ParseResponse B body))"

text \<open>Through the admission the reply is marshalled again, so that waiting callers share it.\<close>

definition bulkChatLogs :: "'r bson \<Rightarrow> 'r bulk_env \<Rightarrow> nat \<Rightarrow> BulkRequest \<Rightarrow> 'r BulkResponse result" where
  "bulkChatLogs B env n request =
     (if \<not> be_admission env then bulkFetch B env n request
      else
        (case BulkRequest_MarshalBSON B request of
           Inl e \<Rightarrow> Inl e
         | Inr _ \<Rightarrow>
             (case be_refused env n of
                Some e \<Rightarrow> Inl e
              | None \<Rightarrow>
                  (case (case bulkFetch B env n request of
                           Inl e \<Rightarrow> Inl e
                         | Inr response \<Rightarrow>
                             (case bs_Marshal B [(''eof'', FBool (br_EOF response)), (''chatLogs'', FDocs (br_ChatLogs response))] of
                                None \<Rightarrow> Inl (Other ''bson.Marshal'') | Some payload \<Rightarrow> Inr payload)) of
                     Inl e \<Rightarrow> Inl (case be_persist env n of None \<Rightarrow> e | Some persistErr \<Rightarrow> Joined [e, persistErr])
                   | Inr payload \<Rightarrow>
                       (case be_persist env n of
                          Some e \<Rightarrow> Inl e
                        | None \<Rightarrow> mchatlogs_ParseResponse B payload)))))"

text \<open>
  The runs of a page, as rows in their order: the source's map from a room to its rows is a filter of it.
\<close>

fun bulkRuns :: "'r bson \<Rightarrow> (int64 \<times> int64) list \<Rightarrow> 'r list \<Rightarrow> (int64 \<times> 'r) list result" where
  "bulkRuns B since [] = Inr []"
| "bulkRuns B since (raw # rest) =
     (let chatID = Int64OrZero B raw [''chatId''] in
      case (map_of since chatID, LogID B raw) of
        (Some cursor, Inr logID) \<Rightarrow>
          if logID < cursor then Inl (protocolErr ''MCHATLOGS'' ''chatLogs'')
          else (case bulkRuns B since rest of
                  Inl e \<Rightarrow> Inl e
                | Inr runs \<Rightarrow> Inr (if logID > cursor then (chatID, raw) # runs else runs))
      | _ \<Rightarrow> Inl (protocolErr ''MCHATLOGS'' ''chatLogs''))"

definition runOf :: "(int64 \<times> 'r) list \<Rightarrow> int64 \<Rightarrow> 'r list" where
  "runOf runs chatID = map snd (filter (\<lambda>r. fst r = chatID) runs)"

text \<open>\<open>logID, _ := syncmsg.LogID(raw)\<close>.\<close>

definition logIDOf :: "'r bson \<Rightarrow> 'r \<Rightarrow> int64" where
  "logIDOf B raw = (case LogID B raw of Inr n \<Rightarrow> n | Inl _ \<Rightarrow> 0)"

text \<open>The loop over a run: its events, or the end of the chain at a broken link.\<close>

datatype 'r chain = Broken | Failed go_error | Decoded "'r event list"

fun decodeRun :: "'r bson \<Rightarrow> 'r content \<Rightarrow> int64 \<Rightarrow> int64 \<Rightarrow> 'r list \<Rightarrow> int64 \<Rightarrow> 'r chain" where
  "decodeRun B C chatID ceiling [] previous = Decoded []"
| "decodeRun B C chatID ceiling (raw # rest) previous =
     (if PrevID B raw \<noteq> Some previous then Broken
      else
        let logID = logIDOf B raw in
        if logID > ceiling then decodeRun B C chatID ceiling rest logID
        else
          (case DecodeChatLog B C chatID raw of
             Inl e \<Rightarrow> Failed e
           | Inr event \<Rightarrow>
               if MessagePosition event \<noteq> Some (chatID, logID)
               then Failed (protocolErr ''MCHATLOGS'' ''chatLogs.chatId'')
               else
                 (case decodeRun B C chatID ceiling rest logID of
                    Decoded evs \<Rightarrow> Decoded (event # evs)
                  | other \<Rightarrow> other)))"

definition saveRun ::
    "'r bson \<Rightarrow> 'r content \<Rightarrow> gotime \<Rightarrow> (Request \<Rightarrow> go_error option) \<Rightarrow> Request \<Rightarrow> 'r list \<Rightarrow> 'r historyStore option
     \<Rightarrow> go_error option \<times> 'r historyStore option" where
  "saveRun B C now removed req rows hist =
     (case hist of
        None \<Rightarrow> (None, None)
      | Some s \<Rightarrow>
          (let (err, s1) = save B C now removed req \<lparr>rs_ChatLogs = rows, rs_MinLogID = 0, rs_IsOK = False\<rparr> s
           in (err, Some s1)))"

text \<open>A predecessor beyond the cursor: the server skipped what lies between.\<close>

definition noteSkip :: "int64 \<Rightarrow> 'r chainRoom \<Rightarrow> 'r chainRoom" where
  "noteSkip first room =
     (let from = ro_cursor room + 1; through = min first (ro_ceiling room) in
      if first \<le> ro_cursor room then room
      else if from \<le> through \<and> ro_skipFrom room = 0 then room\<lparr>ro_skipFrom := from, ro_skipThrough := through\<rparr>
      else if from \<le> through then room\<lparr>ro_skipThrough := through\<rparr>
      else room)"

definition applyBulkRun ::
    "'r bson \<Rightarrow> 'r content \<Rightarrow> gotime \<Rightarrow> (Request \<Rightarrow> go_error option) \<Rightarrow> 'r chainRoom \<Rightarrow> 'r list \<Rightarrow> 'r historyStore option
     \<Rightarrow> go_error option \<times> 'r chainRoom \<times> 'r historyStore option" where
  "applyBulkRun B C now removed room rows hist =
     (if rows = [] then (None, room, hist)
      else
        let lastID = logIDOf B (last rows); upper = max (ro_ceiling room) lastID;
            request = (\<lambda>cur. \<lparr>rq_ChatID = ro_chatID room, rq_Cur = cur, rq_Max = upper, rq_Count = 0\<rparr>) in
        if \<not> ro_catchUp room then
          (case saveRun B C now removed (request (ro_cursor room)) rows hist of
             (Some e, hist1) \<Rightarrow> (Some e, room, hist1)
           | (None, hist1) \<Rightarrow> (None, room\<lparr>ro_cursor := lastID\<rparr>, hist1))
        else
          (case PrevID B (hd rows) of
             None \<Rightarrow> (None, room\<lparr>ro_done := True\<rparr>, hist)
           | Some first \<Rightarrow>
               if first < ro_cursor room then (None, room\<lparr>ro_done := True\<rparr>, hist)
               else
                 let room1 = noteSkip first room in
                 (case decodeRun B C (ro_chatID room) (ro_ceiling room) rows first of
                    Broken \<Rightarrow> (None, room1\<lparr>ro_done := True\<rparr>, hist)
                  | Failed e \<Rightarrow> (Some e, room1, hist)
                  | Decoded evs \<Rightarrow>
                      (case saveRun B C now removed (request first) rows hist of
                         (Some e, hist1) \<Rightarrow> (Some e, room1, hist1)
                       | (None, hist1) \<Rightarrow>
                           (None, room1\<lparr>ro_events := ro_events room @ evs, ro_cursor := lastID\<rparr>, hist1)))))"

text \<open>The rooms of a page, in order, with whether any progressed and the acquisition-only cursors.\<close>

fun applyRuns ::
    "'r bson \<Rightarrow> 'r content \<Rightarrow> gotime \<Rightarrow> (Request \<Rightarrow> go_error option) \<Rightarrow> (int64 \<times> 'r) list \<Rightarrow> int64 list
     \<Rightarrow> 'r rooms \<Rightarrow> 'r historyStore option
     \<Rightarrow> go_error option \<times> 'r rooms \<times> bool \<times> (int64 \<times> int64) list \<times> 'r historyStore option" where
  "applyRuns B C now removed runs [] rooms hist = (None, rooms, False, [], hist)"
| "applyRuns B C now removed runs (chatID # ids) rooms hist =
     (let room = roomOf rooms chatID in
      case applyBulkRun B C now removed room (runOf runs chatID) hist of
        (Some e, room1, hist1) \<Rightarrow> (Some e, AList.update chatID room1 rooms, False, [], hist1)
      | (None, room1, hist1) \<Rightarrow>
          (let (err, rooms2, progressed, advanced, hist2) =
                 applyRuns B C now removed runs ids (AList.update chatID room1 rooms) hist1
           in (err, rooms2, progressed \<or> ro_cursor room1 > ro_cursor room \<or> ro_done room1 \<noteq> ro_done room,
               (if ro_cursor room1 > ro_cursor room \<and> \<not> ro_catchUp room1
                then (chatID, ro_cursor room1) # advanced else advanced), hist2)))"

definition commitAcquired ::
    "(int64 \<times> int64) list \<Rightarrow> 'r historyStore option \<Rightarrow> go_error option \<times> 'r historyStore option" where
  "commitAcquired advanced hist =
     (if advanced = [] then (None, hist)
      else (case hist of
              None \<Rightarrow> (None, None)
            | Some s \<Rightarrow> (let (err, s1) = commitBulk advanced s in (err, Some s1))))"

definition retiredRooms :: "'r bson \<Rightarrow> 'r BulkResponse \<Rightarrow> int64 list \<Rightarrow> int64 list" where
  "retiredRooms B response ids =
     (if br_EOF response then ids
      else if br_ChatLogs response = [] then []
      else filter (\<lambda>chatID. chatID < Int64OrZero B (last (br_ChatLogs response)) [''chatId'']) ids)"

subsection \<open>The chain\<close>

text \<open>The state of the loop.\<close>

record 'r chainState =
  ch_history :: "StartupHistoryOptions option"
  ch_rooms :: "'r rooms"
  ch_pending :: "int64 list"
  ch_pages :: nat
  ch_logs :: nat
  ch_historyPending :: nat

definition bulkRequest :: "'r rooms \<Rightarrow> int64 list \<Rightarrow> BulkRequest" where
  "bulkRequest rooms ids = \<lparr>bq_ChatIDs = ids, bq_Sinces = map (\<lambda>chatID. ro_cursor (roomOf rooms chatID)) ids\<rparr>"

text \<open>One page: the error of the call, or the next state and whether the loop goes on.\<close>

definition bulkPage ::
    "'r bson \<Rightarrow> 'r content \<Rightarrow> 'r bulk_env \<Rightarrow> 'r chainState \<Rightarrow> 'r historyStore option
     \<Rightarrow> ('r chainState \<times> bool) result \<times> 'r historyStore option" where
  "bulkPage B C env ch hist =
     (let ids = take MaxChats (ch_pending ch); request = bulkRequest (ch_rooms ch) ids; n = ch_pages ch in
      case bulkChatLogs B env n request of
        Inl e \<Rightarrow> (Inl e, hist)
      | Inr response \<Rightarrow>
          (case bulkRuns B (zip ids (bq_Sinces request)) (br_ChatLogs response) of
             Inl e \<Rightarrow> (Inl e, hist)
           | Inr runs \<Rightarrow>
               (case applyRuns B C (be_clock env n) (be_removed env) runs ids (ch_rooms ch) hist of
                  (Some e, _, _, _, hist1) \<Rightarrow> (Inl e, hist1)
                | (None, rooms1, progressed, advanced, hist1) \<Rightarrow>
                    (case commitAcquired advanced hist1 of
                       (Some e, hist2) \<Rightarrow> (Inl e, hist2)
                     | (None, hist2) \<Rightarrow>
                         let retired = retiredRooms B response ids;
                             ch1 = ch\<lparr>ch_rooms := rooms1, ch_pages := n + 1,
                                      ch_logs := ch_logs ch + length (br_ChatLogs response)\<rparr>
                         in if retired = [] \<and> \<not> progressed then (Inr (ch1, False), hist2)
                            else (Inr (ch1\<lparr>ch_pending := filter (\<lambda>chatID.
                                    \<not> (ro_done (roomOf rooms1 chatID) \<or> chatID \<in> set retired)) (ch_pending ch)\<rparr>, True), hist2)))))"

text \<open>The acquisition budget is spent: its rooms leave the chain.\<close>

definition spent :: "'r bulk_env \<Rightarrow> gotime \<Rightarrow> 'r chainState \<Rightarrow> bool" where
  "spent env deadline ch = (case ch_history ch of
     None \<Rightarrow> False
   | Some history \<Rightarrow> int (ch_pages ch) \<ge> so_MaxPages history \<or> \<not> be_clock env (ch_pages ch) < deadline)"

definition dropHistory :: "'r chainState \<Rightarrow> 'r chainState" where
  "dropHistory ch = ch\<lparr>ch_historyPending := ch_historyPending ch + countHistoryRooms (ch_rooms ch) (ch_pending ch),
     ch_pending := filter (\<lambda>chatID. ro_catchUp (roomOf (ch_rooms ch) chatID)) (ch_pending ch), ch_history := None\<rparr>"

lemma bulkPage_pages:
  "bulkPage B C env ch hist = (Inr (ch1, continue), hist1) \<Longrightarrow> ch_pages ch1 = Suc (ch_pages ch) \<and> ch_history ch1 = ch_history ch"
  by (auto simp: bulkPage_def Let_def split: sum.splits option.splits prod.splits if_splits)

function bulkLoop ::
    "'r bson \<Rightarrow> 'r content \<Rightarrow> 'r bulk_env \<Rightarrow> gotime \<Rightarrow> 'r chainState \<Rightarrow> 'r historyStore option
     \<Rightarrow> 'r chainState result \<times> 'r historyStore option" where
  "bulkLoop B C env deadline ch hist =
     (if ch_pending ch = [] then (Inr ch, hist)
      else if spent env deadline ch then bulkLoop B C env deadline (dropHistory ch) hist
      else if ch_pages ch \<ge> maxBulkCatchUpPages then (Inr ch, hist)
      else
        (case bulkPage B C env ch hist of
           (Inl e, hist1) \<Rightarrow> (Inl e, hist1)
         | (Inr (ch1, continue), hist1) \<Rightarrow>
             if continue then bulkLoop B C env deadline ch1 hist1 else (Inr ch1, hist1)))"
  by pat_completeness auto

termination
  by (relation "measure (\<lambda>(B, C, env, deadline, ch, hist).
        2 * (maxBulkCatchUpPages - ch_pages ch) + (if ch_history ch = None then 0 else 1))")
     (auto simp: spent_def dropHistory_def split: option.splits dest!: bulkPage_pages [OF sym])

declare bulkLoop.simps [simp del]

subsection \<open>The end of the chain\<close>

text \<open>What the end does with one room: its projected events and the room, reset when they cannot be shown.\<close>

definition projectRoom ::
    "'r bson \<Rightarrow> 'r content \<Rightarrow> 'r historyStore option \<Rightarrow> 'r chainRoom \<Rightarrow> 'r event list \<times> 'r chainRoom" where
  "projectRoom B C hist room =
     (case projectAcquiredEvents B C hist (ro_events room) of
        Inr projected \<Rightarrow> (projected, room)
      | Inl _ \<Rightarrow> ([], room\<lparr>ro_cursor := ro_gapStart room - 1, ro_skipFrom := 0\<rparr>))"

definition recordRoom ::
    "'r bulk_env \<Rightarrow> Checkpoint \<Rightarrow> int64 \<Rightarrow> 'r chainRoom \<Rightarrow> 'r client \<Rightarrow> go_error option \<times> 'r client" where
  "recordRoom env state chatID room c =
     (let unresolved = ro_cursor room < ro_ceiling room; skipped = ro_skipFrom room > 0;
          (err, c1) = (if skipped
             then checkpointWrite (RecordGap (be_skipWrite env chatID) chatID (ro_skipFrom room) (ro_skipThrough room)) c
             else (None, c))
      in case err of
           Some e \<Rightarrow> (Some e, c1)
         | None \<Rightarrow>
             if unresolved
             then checkpointWrite (RecordGap (be_write env chatID) chatID (ro_cursor room + 1) (ro_ceiling room)) c1
             else if \<not> skipped \<and> HasGapThrough state chatID (ro_ceiling room)
             then checkpointWrite (ResolveGapThrough (be_write env chatID) chatID (ro_ceiling room)) c1
             else (None, c1))"

fun finishRooms ::
    "'r bson \<Rightarrow> 'r content \<Rightarrow> 'r bulk_env \<Rightarrow> Checkpoint \<Rightarrow> 'r rooms \<Rightarrow> int64 list \<Rightarrow> 'r client
     \<Rightarrow> 'r CaughtUpRoom list result \<times> 'r client" where
  "finishRooms B C env state rooms [] c = (Inr [], c)"
| "finishRooms B C env state rooms (chatID # ids) c =
     (let (projected, room) = projectRoom B C (cl_history c) (roomOf rooms chatID) in
      case recordRoom env state chatID room c of
        (Some e, c1) \<Rightarrow> (Inl e, c1)
      | (None, c1) \<Rightarrow>
          (case finishRooms B C env state rooms ids (queueEvents projected c1) of
             (Inl e, c2) \<Rightarrow> (Inl e, c2)
           | (Inr out, c2) \<Rightarrow>
               (Inr (\<lparr>cr_ChatID = chatID, cr_Ceiling = ro_ceiling room, cr_Events = projected,
                      cr_Skipped = (ro_skipFrom room > 0), cr_Unresolved = (ro_cursor room < ro_ceiling room)\<rparr> # out), c2)))"

definition finishBulkRooms ::
    "'r bson \<Rightarrow> 'r content \<Rightarrow> 'r bulk_env \<Rightarrow> 'r rooms \<Rightarrow> 'r client \<Rightarrow> 'r CaughtUpRoom list result \<times> 'r client" where
  "finishBulkRooms B C env rooms c =
     finishRooms B C env (Snapshot (store (cl_world c))) rooms
       (sort (map fst (filter (\<lambda>r. ro_catchUp (snd r)) rooms))) c"

definition runChain ::
    "'r bson \<Rightarrow> 'r content \<Rightarrow> 'r bulk_env \<Rightarrow> StartupHistoryOptions option \<Rightarrow> 'r rooms \<Rightarrow> 'r client
     \<Rightarrow> 'r CatchUpResult result \<times> 'r client" where
  "runChain B C env history rooms c =
     (let pending = sort (map fst (filter (\<lambda>r. \<not> ro_done (snd r)) rooms));
          deadline = (case history of None \<Rightarrow> 0 | Some h \<Rightarrow> be_started env + so_MaximumDuration h);
          (r, hist) = bulkLoop B C env deadline
             \<lparr>ch_history = history, ch_rooms = rooms, ch_pending = pending, ch_pages = 0, ch_logs = 0, ch_historyPending = 0\<rparr>
             (cl_history c);
          c1 = c\<lparr>cl_history := hist\<rparr>
      in case r of
           Inl e \<Rightarrow> (Inl e, c1)
         | Inr ch \<Rightarrow>
             (case finishBulkRooms B C env (ch_rooms ch) c1 of
                (Inl e, c2) \<Rightarrow> (Inl e, c2)
              | (Inr out, c2) \<Rightarrow>
                  (Inr \<lparr>cs_Rooms = out, cs_Pages = ch_pages ch, cs_Logs = ch_logs ch,
                     cs_HistoryPending = ch_historyPending ch + countHistoryRooms (ch_rooms ch) (ch_pending ch)\<rparr>, c2)))"

definition CatchUpAll ::
    "'r bson \<Rightarrow> 'r content \<Rightarrow> 'r bulk_env \<Rightarrow> StartupHistoryOptions option \<Rightarrow> 'r client
     \<Rightarrow> 'r CatchUpResult result \<times> 'r client" where
  "CatchUpAll B C env options c =
     (case (case options of None \<Rightarrow> Inr None
            | Some opts \<Rightarrow> (case StartupHistoryOptions_normalized opts of Inl e \<Rightarrow> Inl e | Inr n \<Rightarrow> Inr (Some n))) of
        Inl e \<Rightarrow> (Inl e, c)
      | Inr history \<Rightarrow>
          if cl_closed c then (Inl ErrClientClosed, c)
          else if store (cl_world c) = None
                  \<or> (history \<noteq> None \<and> (cl_history c = None \<or> \<not> be_admission env)) then (Inl ErrProtocol, c)
          else if be_admission env \<and> be_busy env then (Inl ErrHistoryBusy, c)
          else
            (case be_wait env of
               Some e \<Rightarrow> (Inl e, c)
             | None \<Rightarrow>
                 (case selectBulkRooms B env history c of
                    Inl e \<Rightarrow> (Inl e, c)
                  | Inr rooms \<Rightarrow> runChain B C env history rooms c)))"

subsection \<open>Lemmas on one page\<close>

lemma logIDOf_rowOf: "logIDOf B d = snd (rowOf B d)"
  by (simp add: logIDOf_def rowOf_def)

lemma ParseResponse_sorted:
  assumes "mchatlogs_ParseResponse B body = Inr r"
  shows "sorted_wrt rowLess (map (rowOf B) (br_ChatLogs r))"
proof (cases "br_ChatLogs r = []")
  case False
  with assms obtain vals where "bulkRows B (\<lambda>_. 0) 0 vals = Inr (br_ChatLogs r)"
    by (auto simp: mchatlogs_ParseResponse_def Let_def split: if_splits option.splits rawvalue.splits sum.splits)
  with bulkRows_sound [of "\<lambda>_. 0" 0 B vals "br_ChatLogs r"] show ?thesis by (simp add: lastInv_def)
qed simp

lemma bulkChatLogs_sorted:
  "bulkChatLogs B env n request = Inr r \<Longrightarrow> sorted_wrt rowLess (map (rowOf B) (br_ChatLogs r))"
  by (auto simp: bulkChatLogs_def bulkFetch_def dest: ParseResponse_sorted split: if_splits sum.splits option.splits)

lemma bulkRuns_spec:
  assumes "bulkRuns B since logs = Inr runs" "map_of since chat = Some cursor"
  shows "runOf runs chat = filter (\<lambda>d. fst (rowOf B d) = chat \<and> cursor < logIDOf B d) logs"
  using assms
proof (induction logs arbitrary: runs)
  case (Cons raw rest)
  then obtain cur n runs' where r: "map_of since (fst (rowOf B raw)) = Some cur" "LogID B raw = Inr n"
    "bulkRuns B since rest = Inr runs'"
    "runs = (if n > cur then (fst (rowOf B raw), raw) # runs' else runs')"
    by (auto simp: rowOf_def Let_def split: option.splits sum.splits if_splits)
  with Cons show ?case by (auto simp: runOf_def logIDOf_def)
qed (simp add: runOf_def)

text \<open>The run of a room: rows of the room beyond its cursor, in strictly ascending order.\<close>

definition goodRun :: "'r bson \<Rightarrow> int64 \<Rightarrow> int64 \<Rightarrow> 'r list \<Rightarrow> 'r list \<Rightarrow> bool" where
  "goodRun B chat cursor logs rows \<longleftrightarrow> sorted_wrt (<) (cursor # map (logIDOf B) rows)
     \<and> (\<forall>d\<in>set rows. d \<in> set logs \<and> fst (rowOf B d) = chat)"

lemma runOf_good:
  assumes "sorted_wrt rowLess (map (rowOf B) logs)" "bulkRuns B since logs = Inr runs" "map_of since chat = Some cursor"
  shows "goodRun B chat cursor logs (runOf runs chat)"
proof -
  let ?keep = "\<lambda>d. fst (rowOf B d) = chat \<and> cursor < logIDOf B d"
  have "sorted_wrt (\<lambda>a b. rowLess (rowOf B a) (rowOf B b)) (filter ?keep logs)"
    using assms(1) by (simp add: sorted_wrt_map sorted_wrt_filter)
  then have "sorted_wrt (\<lambda>a b. logIDOf B a < logIDOf B b) (filter ?keep logs)"
    by (rule sorted_wrt_mono_rel [rotated]) (auto simp: rowLess_def logIDOf_rowOf)
  then show ?thesis
    unfolding goodRun_def bulkRuns_spec [OF assms(2,3)] by (auto simp: sorted_wrt_map)
qed

lemma goodRun_last:
  assumes "goodRun B chat cursor logs rows" "rows \<noteq> []"
  shows "cursor < logIDOf B (last rows)" "\<forall>d\<in>set rows. logIDOf B d \<le> logIDOf B (last rows) \<and> cursor < logIDOf B d"
proof -
  have s: "sorted_wrt (<) (map (logIDOf B) rows)" "\<forall>d\<in>set rows. cursor < logIDOf B d"
    using assms(1) by (auto simp: goodRun_def)
  show "cursor < logIDOf B (last rows)" using s(2) assms(2) by simp
  have "logIDOf B d \<le> logIDOf B (last rows)" if "d \<in> set rows" for d
    using s(1) that by (induction rows) (auto split: if_splits dest: last_in_set bspec)
  with s(2) show "\<forall>d\<in>set rows. logIDOf B d \<le> logIDOf B (last rows) \<and> cursor < logIDOf B d" by blast
qed

text \<open>A decoded run: the events at and below the ceiling, and nothing between its rows by their own links.\<close>

lemma decodeRun_spec:
  assumes "decodeRun B C chat ceiling rows previous = Decoded evs"
  shows "eventsAt chat (filter (\<lambda>n. n \<le> ceiling) (map (logIDOf B) rows)) evs
    \<and> (\<forall>x. previous < x \<and> x \<le> last (previous # map (logIDOf B) rows) \<longrightarrow>
         x \<in> logIDOf B ` set rows \<or> (\<exists>d\<in>set rows. \<exists>p. PrevID B d = Some p \<and> p < x \<and> x < logIDOf B d))"
  using assms
proof (induction rows arbitrary: previous evs)
  case (Cons raw rest)
  let ?n = "logIDOf B raw"
  have link: "PrevID B raw = Some previous" using Cons.prems by (auto split: if_splits)
  obtain evs' where r: "decodeRun B C chat ceiling rest ?n = Decoded evs'"
      "if ?n \<le> ceiling then (\<exists>ev. evs = ev # evs' \<and> MessagePosition ev = Some (chat, ?n)) else evs = evs'"
    using Cons.prems by (auto simp: Let_def split: if_splits sum.splits chain.splits)
  note ih = Cons.IH [OF r(1)]
  have "x \<in> logIDOf B ` set (raw # rest) \<or> (\<exists>d\<in>set (raw # rest). \<exists>p. PrevID B d = Some p \<and> p < x \<and> x < logIDOf B d)"
    if x: "previous < x" "x \<le> last (previous # map (logIDOf B) (raw # rest))" for x
  proof -
    consider "x < ?n" | "x = ?n" | "?n < x" by linarith
    then show ?thesis
    proof cases
      case 1
      then show ?thesis using link x(1) by auto
    next
      case 3
      then show ?thesis using ih x(2) by (auto split: if_splits)
    qed simp
  qed
  then show ?case using r(2) ih by (auto split: if_splits)
qed simp

subsection \<open>What a room has accounted for\<close>

text \<open>
  \<open>D x\<close>: the server's own links say that no message has the identity \<open>x\<close>. A catch-up room
  accounts for every identity of its interval up to its cursor: it is one of its events, inside the
  skipped interval, or excluded by a link.
\<close>

definition inSkip :: "'r chainRoom \<Rightarrow> int64 \<Rightarrow> bool" where
  "inSkip room x \<longleftrightarrow> ro_skipFrom room > 0 \<and> ro_skipFrom room \<le> x \<and> x \<le> ro_skipThrough room"

definition accounts :: "(int64 \<Rightarrow> bool) \<Rightarrow> 'r chainRoom \<Rightarrow> int64 list \<Rightarrow> bool" where
  "accounts D room ids \<longleftrightarrow>
     eventsAt (ro_chatID room) ids (ro_events room) \<and> sorted_wrt (<) ((ro_gapStart room - 1) # ids)
     \<and> (\<forall>n\<in>set ids. n \<le> ro_ceiling room \<and> n \<le> ro_cursor room)
     \<and> (\<forall>x. ro_gapStart room \<le> x \<and> x \<le> ro_cursor room \<and> x \<le> ro_ceiling room \<longrightarrow>
          x \<in> set ids \<or> inSkip room x \<or> D x)"

definition roomBounds :: "'r chainRoom \<Rightarrow> bool" where
  "roomBounds room \<longleftrightarrow> 0 < ro_gapStart room \<and> ro_gapStart room \<le> ro_ceiling room
     \<and> ro_gapStart room \<le> ro_cursor room + 1 \<and> 0 \<le> ro_skipFrom room
     \<and> (ro_skipFrom room > 0 \<longrightarrow> ro_gapStart room \<le> ro_skipFrom room \<and> ro_skipFrom room \<le> ro_cursor room + 1
          \<and> ro_skipFrom room \<le> ro_skipThrough room \<and> ro_skipThrough room \<le> ro_ceiling room)"

definition roomOK :: "(int64 \<Rightarrow> bool) \<Rightarrow> 'r chainRoom \<Rightarrow> bool" where
  "roomOK D room \<longleftrightarrow> (ro_catchUp room \<longrightarrow> roomBounds room \<and> (\<exists>ids. accounts D room ids))"

definition sameRoom :: "'r chainRoom \<Rightarrow> 'r chainRoom \<Rightarrow> bool" where
  "sameRoom room room1 \<longleftrightarrow> ro_chatID room1 = ro_chatID room \<and> ro_ceiling room1 = ro_ceiling room
     \<and> ro_catchUp room1 = ro_catchUp room \<and> ro_gapStart room1 = ro_gapStart room"

lemma noteSkip_fields [simp]:
  "ro_chatID (noteSkip first room) = ro_chatID room" "ro_ceiling (noteSkip first room) = ro_ceiling room"
  "ro_cursor (noteSkip first room) = ro_cursor room" "ro_catchUp (noteSkip first room) = ro_catchUp room"
  "ro_gapStart (noteSkip first room) = ro_gapStart room" "ro_events (noteSkip first room) = ro_events room"
  by (simp_all add: noteSkip_def Let_def)

lemma noteSkip_bounds:
  assumes "roomBounds room" "ro_cursor room \<le> first"
  shows "roomBounds (noteSkip first room)"
  using assms unfolding roomBounds_def by (auto simp: noteSkip_def Let_def min_def)

lemma noteSkip_keeps:
  assumes "roomBounds room" "ro_cursor room \<le> first" "inSkip room x" "x \<le> ro_cursor room"
  shows "inSkip (noteSkip first room) x"
  using assms by (auto simp: noteSkip_def inSkip_def roomBounds_def Let_def min_def)

lemma noteSkip_covers:
  assumes "roomBounds room" "ro_cursor room < x" "x \<le> first" "x \<le> ro_ceiling room"
  shows "inSkip (noteSkip first room) x"
  using assms by (auto simp: noteSkip_def inSkip_def roomBounds_def Let_def min_def)

lemma saveRun_hist:
  assumes "\<forall>s. hist = Some s \<longrightarrow> overlayInv B C s" "saveRun B C now removed req rows hist = (err, hist1)"
  shows "\<forall>s. hist1 = Some s \<longrightarrow> overlayInv B C s"
  using assms save_keeps [THEN keeps_inv]
  by (auto simp: saveRun_def Let_def split: option.splits prod.splits)

lemma applyBulkRun_hist:
  assumes "\<forall>s. hist = Some s \<longrightarrow> overlayInv B C s" "applyBulkRun B C now removed room rows hist = (err, room1, hist1)"
  shows "\<forall>s. hist1 = Some s \<longrightarrow> overlayInv B C s"
proof -
  have "hist1 = hist \<or> (\<exists>req e. saveRun B C now removed req rows hist = (e, hist1))"
    using assms(2) by (auto simp: applyBulkRun_def Let_def split: if_splits option.splits prod.splits chain.splits)
  with assms(1) saveRun_hist [OF assms(1)] show ?thesis by metis
qed

lemma applyBulkRun_same:
  assumes "applyBulkRun B C now removed room rows hist = (err, room1, hist1)"
  shows "sameRoom room room1"
  using assms
  by (auto simp: applyBulkRun_def sameRoom_def Let_def split: if_splits option.splits prod.splits chain.splits)

text \<open>Appending a decoded run that starts beyond the cursor.\<close>

lemma accounts_run:
  assumes acc: "accounts D room ids" and bnd: "roomBounds room" and first: "ro_cursor room \<le> first"
    and run: "goodRun B (ro_chatID room) (ro_cursor room) logs rows" "rows \<noteq> []"
    and dec: "decodeRun B C (ro_chatID room) (ro_ceiling room) rows first = Decoded evs"
    and D: "\<And>d p x. d \<in> set rows \<Longrightarrow> PrevID B d = Some p \<Longrightarrow> p < x \<Longrightarrow> x < logIDOf B d \<Longrightarrow> D x"
  shows "accounts D ((noteSkip first room)\<lparr>ro_events := ro_events room @ evs, ro_cursor := logIDOf B (last rows)\<rparr>)
           (ids @ filter (\<lambda>n. n \<le> ro_ceiling room) (map (logIDOf B) rows))"
proof -
  define new where "new = filter (\<lambda>n. n \<le> ro_ceiling room) (map (logIDOf B) rows)"
  define room1 where "room1 = (noteSkip first room)\<lparr>ro_events := ro_events room @ evs, ro_cursor := logIDOf B (last rows)\<rparr>"
  note gl = goodRun_last [OF run]
  note ds = decodeRun_spec [OF dec]
  have old: "\<forall>n\<in>set ids. n \<le> ro_ceiling room \<and> n \<le> ro_cursor room" "sorted_wrt (<) ((ro_gapStart room - 1) # ids)"
    using acc by (auto simp: accounts_def)
  have sorted: "sorted_wrt (<) ((ro_gapStart room - 1) # ids @ new)"
  proof -
    have "sorted_wrt (<) new" using run(1) by (simp add: goodRun_def new_def sorted_wrt_filter)
    moreover have "ro_cursor room < n" if "n \<in> set new" for n using that gl(2) by (auto simp: new_def)
    moreover have "ro_gapStart room - 1 \<le> ro_cursor room" using bnd by (simp add: roomBounds_def)
    ultimately show ?thesis using old by (fastforce simp: sorted_wrt_append)
  qed
  have cov: "x \<in> set (ids @ new) \<or> inSkip room1 x \<or> D x"
    if x: "ro_gapStart room \<le> x" "x \<le> logIDOf B (last rows)" "x \<le> ro_ceiling room" for x
  proof -
    consider "x \<le> ro_cursor room" | "ro_cursor room < x" "x \<le> first" | "first < x" by linarith
    then show ?thesis
    proof cases
      case 1
      then have "x \<in> set ids \<or> inSkip room x \<or> D x" using acc x by (auto simp: accounts_def)
      then show ?thesis using noteSkip_keeps [OF bnd first _ 1] by (auto simp: room1_def inSkip_def)
    next
      case 2
      then show ?thesis using noteSkip_covers [OF bnd 2 x(3)] by (simp add: room1_def inSkip_def)
    next
      case 3
      have "last (first # map (logIDOf B) rows) = logIDOf B (last rows)" using run(2) by (simp add: last_map)
      with ds 3 x(2) have "x \<in> logIDOf B ` set rows \<or> (\<exists>d\<in>set rows. \<exists>p. PrevID B d = Some p \<and> p < x \<and> x < logIDOf B d)"
        by auto
      then show ?thesis using D x(3) by (auto simp: new_def)
    qed
  qed
  have "eventsAt (ro_chatID room) (ids @ new) (ro_events room @ evs)"
    using acc ds by (auto simp: accounts_def new_def intro: eventsAt_append)
  moreover have "\<forall>n\<in>set (ids @ new). n \<le> ro_ceiling room \<and> n \<le> logIDOf B (last rows)"
    using old(1) gl by (fastforce simp: new_def)
  ultimately show ?thesis
    using sorted cov unfolding accounts_def new_def [symmetric] room1_def [symmetric]
    by (simp add: room1_def)
qed

lemma applyBulkRun_OK:
  assumes ok: "roomOK D room" and run: "goodRun B (ro_chatID room) (ro_cursor room) logs rows"
    and D: "\<And>d p x. d \<in> set rows \<Longrightarrow> PrevID B d = Some p \<Longrightarrow> p < x \<Longrightarrow> x < logIDOf B d \<Longrightarrow> D x"
    and a: "applyBulkRun B C now removed room rows hist = (None, room1, hist1)"
  shows "roomOK D room1"
proof (cases "rows = [] \<or> \<not> ro_catchUp room")
  case True
  have "ro_catchUp room1 \<longrightarrow> room1 = room"
  proof (cases "rows = []")
    case True
    then show ?thesis using a by (simp add: applyBulkRun_def)
  next
    case False
    with True show ?thesis using applyBulkRun_same [OF a] by (simp add: sameRoom_def)
  qed
  then show ?thesis using ok by (auto simp: roomOK_def)
next
  case False
  then have bnd: "roomBounds room" and "\<exists>ids. accounts D room ids" using ok by (auto simp: roomOK_def)
  then obtain ids where acc: "accounts D room ids" by blast
  have doneOK: "roomOK D (room\<lparr>ro_done := True\<rparr>)"
    using bnd acc by (auto simp: roomOK_def roomBounds_def accounts_def inSkip_def)
  show ?thesis
  proof (cases "PrevID B (hd rows)")
    case None
    then show ?thesis using a False doneOK by (simp add: applyBulkRun_def)
  next
    case (Some first)
    show ?thesis
    proof (cases "first < ro_cursor room")
      case True
      then show ?thesis using a False Some doneOK by (simp add: applyBulkRun_def)
    next
      case first: False
      then have le: "ro_cursor room \<le> first" by simp
      note nb = noteSkip_bounds [OF bnd le]
      show ?thesis
      proof (cases "decodeRun B C (ro_chatID room) (ro_ceiling room) rows first")
        case Broken
        then have "room1 = (noteSkip first room)\<lparr>ro_done := True\<rparr>"
          using a False Some first by (simp add: applyBulkRun_def)
        moreover have "accounts D (noteSkip first room) ids"
          using acc noteSkip_keeps [OF bnd le] by (auto simp: accounts_def)
        ultimately show ?thesis using nb by (auto simp: roomOK_def roomBounds_def accounts_def inSkip_def)
      next
        case (Failed e)
        then show ?thesis using a False Some first by (simp add: applyBulkRun_def)
      next
        case (Decoded evs)
        then have r1: "room1 = (noteSkip first room)\<lparr>ro_events := ro_events room @ evs, ro_cursor := logIDOf B (last rows)\<rparr>"
          using a False Some first by (auto simp: applyBulkRun_def Let_def split: prod.splits option.splits)
        have "rows \<noteq> []" using False by simp
        from accounts_run [OF acc bnd le run this Decoded] D have "\<exists>ids. accounts D room1 ids" unfolding r1 by blast
        moreover have "roomBounds room1"
          using nb goodRun_last(1) [OF run] False unfolding r1 roomBounds_def by auto
        ultimately show ?thesis by (simp add: roomOK_def)
      qed
    qed
  qed
qed

subsection \<open>The rooms of the chain\<close>

definition declared :: "'r bson \<Rightarrow> 'r bulk_env \<Rightarrow> int64 \<Rightarrow> int64 \<Rightarrow> bool" where
  "declared B env chat x \<longleftrightarrow> (\<exists>n request response d p. bulkChatLogs B env n request = Inr response
     \<and> d \<in> set (br_ChatLogs response) \<and> fst (rowOf B d) = chat \<and> PrevID B d = Some p \<and> p < x \<and> x < snd (rowOf B d))"

definition roomsOK :: "(int64 \<Rightarrow> int64 \<Rightarrow> bool) \<Rightarrow> 'r rooms \<Rightarrow> bool" where
  "roomsOK E rooms \<longleftrightarrow> distinct (map fst rooms)
     \<and> (\<forall>i room. map_of rooms i = Some room \<longrightarrow> ro_chatID room = i \<and> roomOK (E i) room)"

definition sameRooms :: "'r rooms \<Rightarrow> 'r rooms \<Rightarrow> bool" where
  "sameRooms rooms rooms1 \<longleftrightarrow> map fst rooms1 = map fst rooms
     \<and> (\<forall>i room1. map_of rooms1 i = Some room1 \<longrightarrow> (\<exists>room. map_of rooms i = Some room \<and> sameRoom room room1))"

lemma sameRoom_refl [simp]: "sameRoom room room"
  by (simp add: sameRoom_def)

lemma sameRooms_refl [simp]: "sameRooms rooms rooms"
  by (simp add: sameRooms_def)

lemma sameRooms_trans: "sameRooms a b \<Longrightarrow> sameRooms b c \<Longrightarrow> sameRooms a c"
  by (fastforce simp: sameRooms_def sameRoom_def)

lemma updateRoom:
  assumes "roomsOK E rooms" "map_of rooms i = Some room" "sameRoom room room1" "roomOK (E i) room1"
  shows "roomsOK E (AList.update i room1 rooms)" "sameRooms rooms (AList.update i room1 rooms)"
proof -
  have i: "i \<in> set (map fst rooms)" using assms(2) by (metis map_of_SomeD in_set_zipE zip_map_fst_snd)
  then have keys: "map fst (AList.update i room1 rooms) = map fst rooms" by (simp add: update_keys)
  then show "roomsOK E (AList.update i room1 rooms)" "sameRooms rooms (AList.update i room1 rooms)"
    using assms by (auto simp: roomsOK_def sameRooms_def sameRoom_def keys)
qed

definition histAll :: "'r bson \<Rightarrow> 'r content \<Rightarrow> 'r historyStore option \<Rightarrow> bool" where
  "histAll B C hist \<longleftrightarrow> (\<forall>s. hist = Some s \<longrightarrow> overlayInv B C s)"

lemma applyRuns_OK:
  assumes "roomsOK E rooms" "distinct ids" "\<forall>i\<in>set ids. map_of rooms i \<noteq> None"
    "\<forall>i\<in>set ids. goodRun B i (ro_cursor (roomOf rooms i)) logs (runOf runs i)"
    "\<And>i d p x. d \<in> set logs \<Longrightarrow> fst (rowOf B d) = i \<Longrightarrow> PrevID B d = Some p \<Longrightarrow> p < x \<Longrightarrow> x < logIDOf B d \<Longrightarrow> E i x"
    "applyRuns B C now removed runs ids rooms hist = (None, rooms1, progressed, advanced, hist1)"
  shows "roomsOK E rooms1 \<and> sameRooms rooms rooms1"
  using assms
proof (induction ids arbitrary: rooms hist progressed advanced)
  case (Cons i ids)
  note p = Cons.prems
  from p(3) obtain room where room: "map_of rooms i = Some room" by auto
  then have ro: "roomOf rooms i = room" by (simp add: roomOf_def)
  have ok: "roomOK (E i) room" "ro_chatID room = i" using p(1) room by (auto simp: roomsOK_def)
  obtain room1 h1 pr ad where a: "applyBulkRun B C now removed room (runOf runs i) hist = (None, room1, h1)"
    and rest: "applyRuns B C now removed runs ids (AList.update i room1 rooms) h1 = (None, rooms1, pr, ad, hist1)"
    using p(6) ro by (auto simp: Let_def split: prod.splits option.splits)
  have good: "goodRun B (ro_chatID room) (ro_cursor room) logs (runOf runs i)" using p(4) ok(2) ro by simp
  have "roomOK (E i) room1"
  proof (rule applyBulkRun_OK [OF ok(1) good _ a])
    fix d pv x
    assume "d \<in> set (runOf runs i)" "PrevID B d = Some pv" "pv < x" "x < logIDOf B d"
    then show "E i x" using p(5) [of d i pv x] good ok(2) by (auto simp: goodRun_def)
  qed
  note u = updateRoom [OF p(1) room applyBulkRun_same [OF a] this]
  have other: "roomOf (AList.update i room1 rooms) j = roomOf rooms j" if "j \<in> set ids" for j
    using that p(2) by (auto simp: roomOf_def)
  have "roomsOK E rooms1 \<and> sameRooms (AList.update i room1 rooms) rooms1"
    using p(2-5) other by (intro Cons.IH [OF u(1) _ _ _ _ rest]) auto
  with u(2) sameRooms_trans show ?case by blast
qed simp

lemma applyRuns_hist:
  assumes "histAll B C hist" "applyRuns B C now removed runs ids rooms hist = (err, rooms1, progressed, advanced, hist1)"
  shows "histAll B C hist1"
  using assms
proof (induction ids arbitrary: rooms hist progressed advanced)
  case (Cons i ids)
  obtain e room1 h1 where a: "applyBulkRun B C now removed (roomOf rooms i) (runOf runs i) hist = (e, room1, h1)"
    by (metis prod_cases3)
  have h1: "histAll B C h1" using applyBulkRun_hist [OF Cons.prems(1) [unfolded histAll_def] a] by (simp add: histAll_def)
  show ?case
  proof (cases e)
    case (Some e')
    then show ?thesis using Cons.prems(2) a h1 by (simp add: Let_def)
  next
    case None
    then obtain pr ad where "applyRuns B C now removed runs ids (AList.update i room1 rooms) h1 = (err, rooms1, pr, ad, hist1)"
      using Cons.prems(2) a by (auto simp: Let_def split: prod.splits)
    from Cons.IH [OF h1 this] show ?thesis .
  qed
qed simp

lemma commitAcquired_hist:
  "histAll B C hist \<Longrightarrow> commitAcquired advanced hist = (err, hist1) \<Longrightarrow> histAll B C hist1"
  using commitBulk_keeps [THEN keeps_inv]
  by (auto simp: commitAcquired_def histAll_def Let_def split: if_splits option.splits prod.splits)

lemma bulkPage_hist:
  assumes "histAll B C hist" "bulkPage B C env ch hist = (r, hist1)"
  shows "histAll B C hist1"
proof -
  define ids where "ids = take MaxChats (ch_pending ch)"
  define request where "request = bulkRequest (ch_rooms ch) ids"
  note pg = assms(2) [unfolded bulkPage_def Let_def, folded ids_def, folded request_def]
  show ?thesis
  proof (cases "bulkChatLogs B env (ch_pages ch) request")
    case (Inl e)
    then show ?thesis using pg assms(1) by simp
  next
    case response: (Inr response)
    show ?thesis
    proof (cases "bulkRuns B (zip ids (bq_Sinces request)) (br_ChatLogs response)")
      case (Inl e)
      then show ?thesis using pg response assms(1) by simp
    next
      case (Inr runs)
      obtain e rooms1 pr ad h1 where ap: "applyRuns B C (be_clock env (ch_pages ch)) (be_removed env) runs ids (ch_rooms ch) hist
          = (e, rooms1, pr, ad, h1)" by (metis prod_cases5)
      note h1 = applyRuns_hist [OF assms(1) ap]
      obtain e2 h2 where ca: "commitAcquired ad h1 = (e2, h2)" by force
      note h2 = commitAcquired_hist [OF h1 ca]
      show ?thesis using pg response Inr ap ca h1 h2 by (cases e; cases e2) (auto split: if_splits)
    qed
  qed
qed

text \<open>The state of the chain: pending rooms are known and listed once.\<close>

definition chainOK :: "(int64 \<Rightarrow> int64 \<Rightarrow> bool) \<Rightarrow> 'r rooms \<Rightarrow> 'r chainState \<Rightarrow> bool" where
  "chainOK E rooms0 ch \<longleftrightarrow> roomsOK E (ch_rooms ch) \<and> sameRooms rooms0 (ch_rooms ch) \<and> distinct (ch_pending ch)
     \<and> (\<forall>i\<in>set (ch_pending ch). map_of (ch_rooms ch) i \<noteq> None)"

lemma sameRooms_dom: "sameRooms rooms rooms1 \<Longrightarrow> map_of rooms i \<noteq> None \<Longrightarrow> map_of rooms1 i \<noteq> None"
  by (metis map_of_eq_None_iff image_set sameRooms_def)

lemma bulkPage_OK:
  assumes ok: "chainOK (declared B env) rooms0 ch" and pg: "bulkPage B C env ch hist = (Inr (ch1, continue), hist1)"
  shows "chainOK (declared B env) rooms0 ch1"
proof -
  define ids where "ids = take MaxChats (ch_pending ch)"
  define request where "request = bulkRequest (ch_rooms ch) ids"
  obtain response runs rooms1 pr ad h1 where
    response: "bulkChatLogs B env (ch_pages ch) request = Inr response"
    and runs: "bulkRuns B (zip ids (bq_Sinces request)) (br_ChatLogs response) = Inr runs"
    and ap: "applyRuns B C (be_clock env (ch_pages ch)) (be_removed env) runs ids (ch_rooms ch) hist = (None, rooms1, pr, ad, h1)"
    and ch1: "ch_rooms ch1 = rooms1" "ch_pending ch1 = ch_pending ch \<or>
      ch_pending ch1 = filter (\<lambda>i. \<not> (ro_done (roomOf rooms1 i) \<or> i \<in> set (retiredRooms B response ids))) (ch_pending ch)"
    using pg unfolding bulkPage_def Let_def ids_def [symmetric] request_def [symmetric]
    by (auto split: sum.splits option.splits prod.splits if_splits)
  have ids: "distinct ids" "\<forall>i\<in>set ids. map_of (ch_rooms ch) i \<noteq> None"
    using ok by (auto simp: ids_def chainOK_def distinct_take dest: in_set_takeD)
  have "map_of (zip ids (bq_Sinces request)) i = Some (ro_cursor (roomOf (ch_rooms ch) i))" if "i \<in> set ids" for i
    using that by (simp add: request_def bulkRequest_def map_of_zip_map)
  then have good: "\<forall>i\<in>set ids. goodRun B i (ro_cursor (roomOf (ch_rooms ch) i)) (br_ChatLogs response) (runOf runs i)"
    using runOf_good [OF bulkChatLogs_sorted [OF response] runs] by blast
  have dec: "declared B env i x" if "d \<in> set (br_ChatLogs response)" "fst (rowOf B d) = i" "PrevID B d = Some pv"
      "pv < x" "x < logIDOf B d" for i d pv x
    using that response unfolding declared_def logIDOf_rowOf by blast
  have "roomsOK (declared B env) (ch_rooms ch)" using ok by (simp add: chainOK_def)
  from applyRuns_OK [OF this ids good dec ap]
  have "roomsOK (declared B env) rooms1 \<and> sameRooms (ch_rooms ch) rooms1" .
  then have r1: "roomsOK (declared B env) rooms1" "sameRooms (ch_rooms ch) rooms1" by auto
  have "\<forall>i\<in>set (ch_pending ch). map_of rooms1 i \<noteq> None"
    using ok sameRooms_dom [OF r1(2)] by (auto simp: chainOK_def)
  with r1 ok ch1 sameRooms_trans [OF _ r1(2)] show ?thesis by (auto simp: chainOK_def)
qed

lemma dropHistory_OK: "chainOK E rooms0 ch \<Longrightarrow> chainOK E rooms0 (dropHistory ch)"
  by (auto simp: chainOK_def dropHistory_def)

lemma bulkLoop_OK:
  assumes "chainOK (declared B env) rooms0 ch" "histAll B C hist" "ch_pages ch \<le> maxBulkCatchUpPages"
    "bulkLoop B C env deadline ch hist = (r, hist1)"
  shows "histAll B C hist1 \<and> (\<forall>ch1. r = Inr ch1 \<longrightarrow> chainOK (declared B env) rooms0 ch1 \<and> ch_pages ch1 \<le> maxBulkCatchUpPages)"
  using assms
proof (induction B C env deadline ch hist rule: bulkLoop.induct)
  case (1 B C env deadline ch hist)
  note p = "1.prems"
  note loop = p(4) [unfolded bulkLoop.simps [of B C env deadline ch hist]]
  consider "ch_pending ch = []" | "ch_pending ch \<noteq> []" "spent env deadline ch"
    | "ch_pending ch \<noteq> []" "\<not> spent env deadline ch" "ch_pages ch \<ge> maxBulkCatchUpPages"
    | "ch_pending ch \<noteq> []" "\<not> spent env deadline ch" "\<not> ch_pages ch \<ge> maxBulkCatchUpPages" by blast
  then show ?case
  proof cases
    case 2
    then show ?thesis using "1.IH"(1) [OF 2 dropHistory_OK [OF p(1)] p(2)] p(3) loop by (simp add: dropHistory_def)
  next
    case 4
    obtain pr h1 where pg: "bulkPage B C env ch hist = (pr, h1)" by force
    note h1 = bulkPage_hist [OF p(2) pg]
    show ?thesis
    proof (cases pr)
      case (Inl e)
      then show ?thesis using loop 4 pg h1 by auto
    next
      case (Inr cc)
      obtain ch1 continue where cc: "cc = (ch1, continue)" by force
      note ok1 = bulkPage_OK [OF p(1) pg [unfolded Inr cc]]
      have pages: "ch_pages ch1 \<le> maxBulkCatchUpPages" using bulkPage_pages [OF pg [unfolded Inr cc]] 4(3) by simp
      show ?thesis
      proof (cases continue)
        case True
        with loop 4 pg Inr cc have "bulkLoop B C env deadline ch1 h1 = (r, hist1)" by simp
        from "1.IH"(2) [OF 4 pg [symmetric] Inr cc [symmetric] True ok1 h1 pages this] show ?thesis .
      next
        case False
        then show ?thesis using loop 4 pg Inr cc h1 ok1 pages by auto
      qed
    qed
  qed (use loop p in auto)
qed

subsection \<open>The end of the chain, room by room\<close>

lemma recordGap_step:
  assumes c: "\<not> cl_closed c" "okStore (cl_world c)" and b: "in64 b"
    and w: "checkpointWrite (RecordGap env chat a b) c = (None, c1)"
  shows "onlyWorld c c1" "okStore (cl_world c1)" "gapPositions (cl_world c) chat \<union> {a..b} \<subseteq> gapPositions (cl_world c1) chat"
    "\<And>other. other \<noteq> chat \<Longrightarrow> gapPositions (cl_world c1) other = gapPositions (cl_world c) other"
    "committed (ledgerOf (storeData (cl_world c1))) = committed (ledgerOf (storeData (cl_world c)))"
proof -
  note x = checkpointWrite_exec [OF c w [unfolded checkpointWrite_ops]]
  show "onlyWorld c c1" by (rule x(2))
  show "okStore (cl_world c1)" using okStore_exec [OF c(2) _ x(1)] b by simp
  show "gapPositions (cl_world c) chat \<union> {a..b} \<subseteq> gapPositions (cl_world c1) chat"
    "\<And>other. other \<noteq> chat \<Longrightarrow> gapPositions (cl_world c1) other = gapPositions (cl_world c) other"
    "committed (ledgerOf (storeData (cl_world c1))) = committed (ledgerOf (storeData (cl_world c)))"
    by (rule recordGap_positions [OF c(2) x(1)] | assumption)+
qed

lemma resolveGap_step:
  assumes c: "\<not> cl_closed c" "okStore (cl_world c)"
    and w: "checkpointWrite (ResolveGapThrough env chat l) c = (None, c1)"
  shows "onlyWorld c c1" "okStore (cl_world c1)"
    "\<And>other. other \<noteq> chat \<Longrightarrow> gapPositions (cl_world c1) other = gapPositions (cl_world c) other"
    "committed (ledgerOf (storeData (cl_world c1))) = committed (ledgerOf (storeData (cl_world c)))"
proof -
  note x = checkpointWrite_exec [OF c w [unfolded checkpointWrite_ops]]
  show "onlyWorld c c1" by (rule x(2))
  show "okStore (cl_world c1)" using okStore_exec [OF c(2) _ x(1)] by simp
  show "\<And>other. other \<noteq> chat \<Longrightarrow> gapPositions (cl_world c1) other = gapPositions (cl_world c) other"
    "committed (ledgerOf (storeData (cl_world c1))) = committed (ledgerOf (storeData (cl_world c)))"
    by (rule resolveGap_positions [OF c(2) x(1)] | assumption)+
qed

lemma onlyWorld_refl [simp]: "onlyWorld c c"
  by (auto simp: onlyWorld_def intro: exI [of _ "cl_world c"])

lemma onlyWorld_trans: "onlyWorld a b \<Longrightarrow> onlyWorld b c \<Longrightarrow> onlyWorld a c"
  by (auto simp: onlyWorld_def)

text \<open>What recording a room does: its skipped and its unrecovered interval become gaps of the chat.\<close>

definition recorded :: "int64 \<Rightarrow> 'r chainRoom \<Rightarrow> 'r client \<Rightarrow> 'r client \<Rightarrow> bool" where
  "recorded chat room c c1 \<longleftrightarrow> onlyWorld c c1 \<and> okStore (cl_world c1)
     \<and> (\<forall>x. inSkip room x \<or> (ro_cursor room < x \<and> x \<le> ro_ceiling room) \<longrightarrow> x \<in> gapPositions (cl_world c1) chat)
     \<and> (\<forall>other. other \<noteq> chat \<longrightarrow> gapPositions (cl_world c1) other = gapPositions (cl_world c) other)
     \<and> committed (ledgerOf (storeData (cl_world c1))) = committed (ledgerOf (storeData (cl_world c)))"

lemma recordRoom_recorded:
  assumes c: "\<not> cl_closed c" "okStore (cl_world c)" and b: "roomBounds room" "in64 (ro_ceiling room)"
    and r: "recordRoom env state chat room c = (None, c1)"
  shows "recorded chat room c c1"
proof -
  obtain e0 c0 where s: "(if ro_skipFrom room > 0
      then checkpointWrite (RecordGap (be_skipWrite env chat) chat (ro_skipFrom room) (ro_skipThrough room)) c
      else (None, c)) = (e0, c0)" by force
  then have e0: "e0 = None" using r by (auto simp: recordRoom_def Let_def split: option.splits)
  have thr: "in64 (ro_skipThrough room)" if "ro_skipFrom room > 0" using that b by (auto simp: roomBounds_def in64_def)
  have "onlyWorld c c0 \<and> okStore (cl_world c0) \<and> (\<forall>x. inSkip room x \<longrightarrow> x \<in> gapPositions (cl_world c0) chat)
      \<and> (\<forall>other. other \<noteq> chat \<longrightarrow> gapPositions (cl_world c0) other = gapPositions (cl_world c) other)
      \<and> committed (ledgerOf (storeData (cl_world c0))) = committed (ledgerOf (storeData (cl_world c)))"
  proof (cases "ro_skipFrom room > 0")
    case True
    have w: "checkpointWrite (RecordGap (be_skipWrite env chat) chat (ro_skipFrom room) (ro_skipThrough room)) c = (None, c0)"
      using s True e0 by simp
    from recordGap_step [OF c thr [OF True] w] show ?thesis by (auto simp: inSkip_def)
  next
    case False
    then show ?thesis using s c by (simp add: inSkip_def)
  qed
  then have c0: "onlyWorld c c0" "okStore (cl_world c0)"
    "\<forall>x. inSkip room x \<longrightarrow> x \<in> gapPositions (cl_world c0) chat"
    "\<forall>other. other \<noteq> chat \<longrightarrow> gapPositions (cl_world c0) other = gapPositions (cl_world c) other"
    "committed (ledgerOf (storeData (cl_world c0))) = committed (ledgerOf (storeData (cl_world c)))" by auto
  have open0: "\<not> cl_closed c0" using onlyWorld_fields [OF c0(1)] c(1) by simp
  note rest = r [unfolded recordRoom_def Let_def s prod.case e0 option.case]
  consider "ro_cursor room < ro_ceiling room"
    | "\<not> ro_cursor room < ro_ceiling room" "ro_skipFrom room \<le> 0" "HasGapThrough state chat (ro_ceiling room)"
    | "\<not> ro_cursor room < ro_ceiling room" "c1 = c0"
    using rest by (auto split: if_splits)
  then show ?thesis
  proof cases
    case 1
    then have "checkpointWrite (RecordGap (be_write env chat) chat (ro_cursor room + 1) (ro_ceiling room)) c0 = (None, c1)"
      using rest by simp
    note g = recordGap_step [OF open0 c0(2) b(2) this]
    have "x \<in> gapPositions (cl_world c1) chat" if "inSkip room x \<or> (ro_cursor room < x \<and> x \<le> ro_ceiling room)" for x
      using that g(3) c0(3) by auto
    with g c0 onlyWorld_trans [OF c0(1) g(1)] show ?thesis by (simp add: recorded_def)
  next
    case 2
    then have "checkpointWrite (ResolveGapThrough (be_write env chat) chat (ro_ceiling room)) c0 = (None, c1)"
      using rest by simp
    note g = resolveGap_step [OF open0 c0(2) this]
    with 2 c0 onlyWorld_trans [OF c0(1) g(1)] show ?thesis by (auto simp: recorded_def inSkip_def)
  next
    case 3
    with c0 show ?thesis by (auto simp: recorded_def)
  qed
qed

lemma recordRoom_good:
  assumes c: "\<not> cl_closed c" "okStore (cl_world c)" and b: "roomBounds room" "in64 (ro_ceiling room)" "0 < chat"
    and g: "be_write env chat = good_write" "be_skipWrite env chat = good_write"
  shows "fst (recordRoom env state chat room c) = None"
proof -
  have ok: "fst (checkpointWrite (exec good_write op) c') = None"
    if "admissible op" "\<not> cl_closed c'" "okStore (cl_world c')" for op and c' :: "'a client"
    using that exec_good(1) [OF that(3,1)] by (auto simp: checkpointWrite_def okStore_def split: prod.splits)
  obtain e0 c0 where s: "(if ro_skipFrom room > 0
      then checkpointWrite (RecordGap (be_skipWrite env chat) chat (ro_skipFrom room) (ro_skipThrough room)) c
      else (None, c)) = (e0, c0)" by force
  have e0: "e0 = None"
    using s ok [OF _ c, of "OpRecordGap chat (ro_skipFrom room) (ro_skipThrough room)"] b g(2)
    by (auto simp: checkpointWrite_ops roomBounds_def split: if_splits)
  have "\<not> cl_closed c0 \<and> okStore (cl_world c0)"
  proof (cases "ro_skipFrom room > 0")
    case True
    have "in64 (ro_skipThrough room)" using True b by (auto simp: roomBounds_def in64_def)
    from recordGap_step [OF c this, of "be_skipWrite env chat" chat "ro_skipFrom room" c0] s e0 True c(1) onlyWorld_fields
    show ?thesis by fastforce
  qed (use s c in auto)
  with ok [of "OpRecordGap chat (ro_cursor room + 1) (ro_ceiling room)" c0]
    ok [of "OpResolveGap chat (ro_ceiling room)" c0] b g(1)
  show ?thesis unfolding recordRoom_def Let_def s
    by (auto simp: e0 checkpointWrite_ops roomBounds_def)
qed

text \<open>The result of one room, between the client before the end of the chain and after it.\<close>

definition roomResult :: "(int64 \<Rightarrow> int64 \<Rightarrow> bool) \<Rightarrow> 'r rooms \<Rightarrow> 'r client \<Rightarrow> 'r client \<Rightarrow> 'r CaughtUpRoom \<Rightarrow> bool" where
  "roomResult E rooms c c' out \<longleftrightarrow> (\<exists>room ids. map_of rooms (cr_ChatID out) = Some room \<and> ro_catchUp room
     \<and> cr_Ceiling out = ro_ceiling room \<and> eventsAt (cr_ChatID out) ids (cr_Events out)
     \<and> sorted_wrt (<) ((ro_gapStart room - 1) # ids) \<and> (\<forall>n\<in>set ids. n \<le> ro_ceiling room)
     \<and> cl_pending c' (cr_ChatID out) = cl_pending c (cr_ChatID out) @ ids
     \<and> (\<forall>x. ro_gapStart room \<le> x \<and> x \<le> ro_ceiling room \<longrightarrow>
          x \<in> set ids \<or> x \<in> gapPositions (cl_world c') (cr_ChatID out) \<or> E (cr_ChatID out) x))"

text \<open>Projection keeps a room accounted for: unshowable events leave the whole interval to be recorded.\<close>

lemma projectRoom_spec:
  assumes law: "marshal_lawful B" "elements_lawful B" and h: "histOK B C c"
    and ok: "roomOK D room" "ro_catchUp room" and p: "projectRoom B C (cl_history c) room = (projected, room1)"
  shows "sameRoom room room1 \<and> roomBounds room1
    \<and> (\<exists>ids. eventsAt (ro_chatID room) ids projected \<and> sorted_wrt (<) ((ro_gapStart room - 1) # ids)
       \<and> (\<forall>n\<in>set ids. n \<le> ro_ceiling room)
       \<and> (\<forall>x. ro_gapStart room \<le> x \<and> x \<le> ro_cursor room1 \<and> x \<le> ro_ceiling room \<longrightarrow>
            x \<in> set ids \<or> inSkip room1 x \<or> D x))"
proof -
  obtain ids where acc: "accounts D room ids" and bnd: "roomBounds room" using ok by (auto simp: roomOK_def)
  show ?thesis
  proof (cases "projectAcquiredEvents B C (cl_history c) (ro_events room)")
    case (Inl e)
    then have "projected = []" "room1 = room\<lparr>ro_cursor := ro_gapStart room - 1, ro_skipFrom := 0\<rparr>"
      using p by (auto simp: projectRoom_def)
    then show ?thesis using bnd by (auto simp: sameRoom_def roomBounds_def)
  next
    case (Inr out)
    then have r: "projected = out" "room1 = room" using p by (auto simp: projectRoom_def)
    have "eventsAt (ro_chatID room) ids out"
      using projectAcquired_eventsAt [OF law h _ Inr] acc by (auto simp: accounts_def)
    then show ?thesis using acc bnd r by (auto simp: accounts_def)
  qed
qed

lemma finishRooms_spec:
  assumes law: "marshal_lawful B" "elements_lawful B" and rooms: "roomsOK E rooms"
    and i64: "\<And>i room. map_of rooms i = Some room \<Longrightarrow> ro_catchUp room \<Longrightarrow> in64 (ro_ceiling room)"
    and "histOK B C c" "\<not> cl_closed c" "okStore (cl_world c)" "distinct ids"
    "\<forall>i\<in>set ids. \<exists>room. map_of rooms i = Some room \<and> ro_catchUp room"
    "finishRooms B C env state rooms ids c = (Inr out, c')"
  shows "map cr_ChatID out = ids \<and> (\<forall>r\<in>set out. roomResult E rooms c c' r)
    \<and> (\<forall>i. i \<notin> set ids \<longrightarrow> cl_pending c' i = cl_pending c i \<and> gapPositions (cl_world c') i = gapPositions (cl_world c) i)
    \<and> committed (ledgerOf (storeData (cl_world c'))) = committed (ledgerOf (storeData (cl_world c)))"
  using assms(5-)
proof (induction ids arbitrary: c out)
  case (Cons i ids)
  note p = Cons.prems
  from p(5) obtain room where room: "map_of rooms i = Some room" "ro_catchUp room" by auto
  have ok: "roomOK (E i) room" "ro_chatID room = i" using rooms room(1) by (auto simp: roomsOK_def)
  obtain projected room1 where pr: "projectRoom B C (cl_history c) room = (projected, room1)" by force
  note ps = projectRoom_spec [OF law p(1) ok(1) room(2) pr]
  have same: "ro_ceiling room1 = ro_ceiling room" using ps by (simp add: sameRoom_def)
  have step: "finishRooms B C env state rooms (i # ids) c = (case recordRoom env state i room1 c of
        (Some e, c1) \<Rightarrow> (Inl e, c1)
      | (None, c1) \<Rightarrow>
          (case finishRooms B C env state rooms ids (queueEvents projected c1) of
             (Inl e, c2) \<Rightarrow> (Inl e, c2)
           | (Inr out, c2) \<Rightarrow>
               (Inr (\<lparr>cr_ChatID = i, cr_Ceiling = ro_ceiling room1, cr_Events = projected,
                      cr_Skipped = (ro_skipFrom room1 > 0), cr_Unresolved = (ro_cursor room1 < ro_ceiling room1)\<rparr> # out), c2)))"
    by (simp add: roomOf_def room(1) pr)
  obtain e c1 where rec0: "recordRoom env state i room1 c = (e, c1)" by force
  obtain r2 c2' where fin0: "finishRooms B C env state rooms ids (queueEvents projected c1) = (r2, c2')" by force
  obtain r out1 where rec: "recordRoom env state i room1 c = (None, c1)"
    and fin: "finishRooms B C env state rooms ids (queueEvents projected c1) = (Inr out1, c')"
    and out: "out = r # out1" "cr_ChatID r = i" "cr_Ceiling r = ro_ceiling room1" "cr_Events r = projected"
    using p(6) [unfolded step rec0 prod.case] rec0 fin0 by (cases e; cases r2) auto
  have b1: "roomBounds room1" using ps by blast
  have c64: "in64 (ro_ceiling room1)" using i64 [OF room] same by simp
  have rd: "recorded i room1 c c1" by (rule recordRoom_recorded [OF p(2,3) b1 c64 rec])
  then have ow: "cl_pending c1 = cl_pending c" "cl_closed c1 = cl_closed c" "cl_history c1 = cl_history c"
    using onlyWorld_fields by (auto simp: recorded_def)
  from ps obtain js where js: "eventsAt i js projected" "sorted_wrt (<) ((ro_gapStart room - 1) # js)"
    "\<forall>n\<in>set js. n \<le> ro_ceiling room"
    "\<forall>x. ro_gapStart room \<le> x \<and> x \<le> ro_cursor room1 \<and> x \<le> ro_ceiling room \<longrightarrow> x \<in> set js \<or> inSkip room1 x \<or> E i x"
    unfolding ok(2) by blast
  define c2 where "c2 = queueEvents projected c1"
  have c2: "cl_pending c2 = (cl_pending c)(i := cl_pending c i @ js)" "cl_world c2 = cl_world c1"
    "cl_closed c2 = cl_closed c" "cl_history c2 = cl_history c"
    using queueEvents_fields [OF js(1), of c1] ow by (simp_all add: c2_def)
  have pre: "histOK B C c2" "\<not> cl_closed c2" "okStore (cl_world c2)" "distinct ids"
      "\<forall>j\<in>set ids. \<exists>room. map_of rooms j = Some room \<and> ro_catchUp room" "i \<notin> set ids"
    using p rd c2 by (auto simp: histOK_def recorded_def)
  note ih = Cons.IH [OF pre(1-5) fin [folded c2_def]]
  have rec': "\<And>other. other \<noteq> i \<Longrightarrow> gapPositions (cl_world c2) other = gapPositions (cl_world c) other"
      "committed (ledgerOf (storeData (cl_world c2))) = committed (ledgerOf (storeData (cl_world c)))"
      "\<And>x. inSkip room1 x \<or> ro_cursor room1 < x \<and> x \<le> ro_ceiling room1 \<Longrightarrow> x \<in> gapPositions (cl_world c2) i"
    using rd c2(2) by (auto simp: recorded_def)
  have head: "roomResult E rooms c c' r"
  proof -
    have "gapPositions (cl_world c') i = gapPositions (cl_world c2) i" "cl_pending c' i = cl_pending c i @ js"
      using ih pre(6) c2(1) by auto
    moreover have "x \<in> set js \<or> x \<in> gapPositions (cl_world c2) i \<or> E i x"
      if "ro_gapStart room \<le> x" "x \<le> ro_ceiling room" for x
      using that js(4) rec'(3) [of x] same by (metis not_le)
    ultimately show ?thesis
      unfolding roomResult_def out(2-4) same using room js by auto
  qed
  have tail: "roomResult E rooms c c' r'" if "r' \<in> set out1" for r'
  proof -
    have "cr_ChatID r' \<in> set ids" using that ih by (metis image_eqI set_map)
    then have "cr_ChatID r' \<noteq> i" using pre(6) by auto
    then show ?thesis using ih that c2(1) unfolding roomResult_def by auto
  qed
  show ?case using ih head tail out c2(1) rec' by auto
qed simp

subsection \<open>The selected rooms\<close>

lemma fold_update_find:
  "distinct (map k ts) \<Longrightarrow> map_of (fold (\<lambda>t. AList.update (k t) (v t)) ts acc) i
     = (case find (\<lambda>t. k t = i) ts of Some t \<Rightarrow> Some (v t) | None \<Rightarrow> map_of acc i)"
proof (induction ts arbitrary: acc)
  case (Cons t ts)
  have "find (\<lambda>u. k u = k t) ts = None" using Cons.prems by (auto simp: find_None_iff) (metis image_eqI)
  with Cons show ?case by (auto split: option.splits)
qed simp

lemma find_SomeD: "find P xs = Some x \<Longrightarrow> x \<in> set xs \<and> P x"
  by (auto simp: find_Some_iff)

lemma fold_update_distinct:
  "distinct (map fst acc) \<Longrightarrow> distinct (map fst (fold (\<lambda>t. AList.update (k t) (v t)) ts acc))"
  by (induction ts arbitrary: acc) (auto simp: distinct_update)

lemma resumePosition_target:
  assumes "\<lparr>tg_ChatID = chat, tg_MaxLogID = m\<rparr> \<in> set targets" "okStore (cl_world c)" "ResumeTargets B data c = Inr targets"
  shows "resumePosition (storeData (cl_world c)) chat < m"
    "resumePosition (storeData (cl_world c)) chat =
      (if CommittedMax (storeData (cl_world c)) chat = 0 then FirstDeliveryStart (storeData (cl_world c)) chat - 1
       else CommittedMax (storeData (cl_world c)) chat)"
    "known (ledgerOf (storeData (cl_world c))) chat = Some m"
  using selectTargets_known [OF assms(2) assms(3) [unfolded ResumeTargets_def]] assms(1)
  by (auto simp: Let_def resumePosition_def)

lemma known_positive:
  assumes "okStore w" "known (ledgerOf (storeData w)) chat = Some m"
  shows "0 < chat"
proof -
  have t: "tableSorted ct_ChatID (sl (KnownChats (storeData w)))"
    using okStore_validate [OF assms(1)] by (auto simp: validate_iff tablesOk_def intro: sortedByChat_table)
  obtain x where "entryOf ct_ChatID (sl (KnownChats (storeData w))) chat = Some x"
    using assms(2) by (auto simp: ledgerOf_def targetAt_def)
  then have "x \<in> set (sl (KnownChats (storeData w)))" "ct_ChatID x = chat"
    by (auto simp: entryOf_def find_Some_iff)
  then show ?thesis using t by (auto simp: tableSorted_iff)
qed

text \<open>A catch-up room is a resume target, starting at its resume position; the others are only acquired.\<close>

definition selected :: "world \<Rightarrow> Target list \<Rightarrow> 'r rooms \<Rightarrow> bool" where
  "selected w targets rooms \<longleftrightarrow>
     (\<forall>i room. map_of rooms i = Some room \<and> ro_catchUp room \<longrightarrow>
        \<lparr>tg_ChatID = i, tg_MaxLogID = ro_ceiling room\<rparr> \<in> set targets
        \<and> ro_gapStart room = resumePosition (storeData w) i + 1)
     \<and> (\<forall>t\<in>set targets. \<exists>room. map_of rooms (tg_ChatID t) = Some room \<and> ro_catchUp room)"

lemma addHistoryRoom_OK:
  assumes "roomsOK E rooms" "selected w targets rooms"
  shows "roomsOK E (addHistoryRoom B cursors floor chat rooms) \<and> selected w targets (addHistoryRoom B cursors floor chat rooms)"
proof (cases "addHistoryRoom B cursors floor chat rooms = rooms")
  case True
  then show ?thesis using assms by simp
next
  case False
  then obtain room where r: "addHistoryRoom B cursors floor chat rooms = AList.update (cd_ChatID chat) room rooms"
      "map_of rooms (cd_ChatID chat) = None" "\<not> ro_catchUp room" "ro_chatID room = cd_ChatID chat"
    by (auto simp: addHistoryRoom_def Let_def split: if_splits)
  show ?thesis
    using assms r(2-4) unfolding r(1) roomsOK_def selected_def roomOK_def
    by (auto simp: distinct_update)
qed

lemma selectBulkRooms_OK:
  assumes ok: "okStore (cl_world c)" and s: "selectBulkRooms B env history c = Inr rooms"
  shows "roomsOK E rooms \<and> (\<exists>targets. ResumeTargets B (be_data env) c = Inr targets \<and> selected (cl_world c) targets rooms)"
proof -
  obtain targets floor where t: "ResumeTargets B (be_data env) c = Inr targets" "be_floor env = Inr floor"
    using s by (auto simp: selectBulkRooms_def split: sum.splits)
  define rooms0 where "rooms0 = fold (\<lambda>target. AList.update (tg_ChatID target)
     (catchUpRoom (storeData (cl_world c)) floor target :: 'a chainRoom)) targets []"
  have srt: "sorted_wrt (<) (map tg_ChatID targets)"
    using selectTargets_known [OF ok t(1) [unfolded ResumeTargets_def]] by blast
  then have dis: "distinct (map tg_ChatID targets)" by (simp add: strict_sorted_iff)
  have at: "map_of rooms0 i = (case find (\<lambda>t. tg_ChatID t = i) targets of
      Some t \<Rightarrow> Some (catchUpRoom (storeData (cl_world c)) floor t) | None \<Rightarrow> None)" for i
    unfolding rooms0_def fold_update_find [OF dis] by (simp split: option.splits)
  have room: "ro_chatID room = i \<and> roomOK (E i) room \<and> ro_catchUp room
      \<and> \<lparr>tg_ChatID = i, tg_MaxLogID = ro_ceiling room\<rparr> \<in> set targets
      \<and> ro_gapStart room = resumePosition (storeData (cl_world c)) i + 1" if "map_of rooms0 i = Some room" for i room
  proof -
    from that obtain t where tt: "t \<in> set targets" "tg_ChatID t = i" "room = catchUpRoom (storeData (cl_world c)) floor t"
      by (auto simp: at split: option.splits dest!: find_SomeD)
    have "\<lparr>tg_ChatID = i, tg_MaxLogID = tg_MaxLogID t\<rparr> = t" using tt(2) by (cases t) simp
    then have mem: "\<lparr>tg_ChatID = i, tg_MaxLogID = tg_MaxLogID t\<rparr> \<in> set targets" using tt(1) by simp
    note rp = resumePosition_target [OF mem ok t(1)]
    have "0 \<le> resumePosition (storeData (cl_world c)) i" by (rule resumePosition_nonneg [OF okStore_validate [OF ok]])
    then show ?thesis
      using tt mem rp(1) by (auto simp: catchUpRoom_def Let_def rp(2) roomOK_def roomBounds_def accounts_def intro: exI [of _ "[]"])
  qed
  have base: "roomsOK E rooms0" "selected (cl_world c) targets rooms0"
  proof -
    have "distinct (map fst rooms0)" unfolding rooms0_def by (rule fold_update_distinct) simp
    then show "roomsOK E rooms0" using room by (auto simp: roomsOK_def)
    have "\<exists>room. map_of rooms0 (tg_ChatID t) = Some room" if "t \<in> set targets" for t
      using that by (auto simp: at find_None_iff split: option.splits)
    then show "selected (cl_world c) targets rooms0" using room by (fastforce simp: selected_def)
  qed
  have fold: "roomsOK E (fold (addHistoryRoom B cursors floor) chats rs) \<and> selected (cl_world c) targets (fold (addHistoryRoom B cursors floor) chats rs)"
    if "roomsOK E rs" "selected (cl_world c) targets rs" for cursors chats and rs :: "'a rooms"
    using that by (induction chats arbitrary: rs) (auto simp: addHistoryRoom_OK)
  have "rooms = rooms0 \<or> (\<exists>cursors chats. rooms = fold (addHistoryRoom B cursors floor) chats rooms0)"
    using s t by (auto simp: selectBulkRooms_def Let_def Snapshot_ok [OF ok] rooms0_def split: option.splits sum.splits)
  with base fold [OF base] t(1) show ?thesis by auto
qed

subsection \<open>Properties\<close>

text \<open>The chain keeps the client, but for the acquired store, and hands rooms that are accounted for to the end.\<close>

lemma runChain_spec:
  assumes law: "marshal_lawful B" "elements_lawful B" and h: "histOK B C c" and c: "\<not> cl_closed c" "okStore (cl_world c)"
    and rooms: "roomsOK (declared B env) rooms" "selected (cl_world c) targets rooms"
    and r: "runChain (B :: 'r bson) C env history rooms c = (r, c')"
  obtains e where "r = Inl e" "onlyHistory c c'"
  | ch :: "'r chainState" and c1 where "onlyHistory c c1" "histOK B C c1" "roomsOK (declared B env) (ch_rooms ch)" "sameRooms rooms (ch_rooms ch)"
      "selected (cl_world c) targets (ch_rooms ch)" "ch_pages ch \<le> maxBulkCatchUpPages"
      "finishBulkRooms B C env (ch_rooms ch) c1 = (case r of Inl e \<Rightarrow> (Inl e, c') | Inr res \<Rightarrow> (Inr (cs_Rooms res), c'))"
      "\<forall>res. r = Inr res \<longrightarrow> cs_Pages res = ch_pages ch"
proof -
  define ch0 where "ch0 = \<lparr>ch_history = history, ch_rooms = rooms,
    ch_pending = sort (map fst (filter (\<lambda>r. \<not> ro_done (snd r)) rooms)), ch_pages = 0, ch_logs = 0, ch_historyPending = 0\<rparr>"
  define deadline where "deadline = (case history of None \<Rightarrow> 0 | Some h \<Rightarrow> be_started env + so_MaximumDuration h)"
  obtain lr hist where loop: "bulkLoop B C env deadline ch0 (cl_history c) = (lr, hist)" by force
  have dis: "distinct (map fst rooms)" using rooms(1) by (simp add: roomsOK_def)
  have dom: "map_of rooms i \<noteq> None" if "i \<in> fst ` set rooms" for i using that by (simp add: map_of_eq_None_iff)
  have ch0: "chainOK (declared B env) rooms ch0"
    using rooms(1) dis dom by (auto simp: chainOK_def ch0_def distinct_map_filter)
  have "histAll B C (cl_history c)" using h by (simp add: histOK_def histAll_def)
  note L = bulkLoop_OK [OF ch0 this _ loop]
  define c1 where "c1 = c\<lparr>cl_history := hist\<rparr>"
  have o1: "onlyHistory c c1" "histOK B C c1" using L by (auto simp: c1_def onlyHistory_def histOK_def histAll_def ch0_def)
  note rr = r [unfolded runChain_def Let_def, folded ch0_def deadline_def, unfolded loop prod.case, folded c1_def]
  show thesis
  proof (cases lr)
    case (Inl e)
    then show thesis using that(1) rr o1 by auto
  next
    case (Inr ch)
    then have ch: "chainOK (declared B env) rooms ch" "ch_pages ch \<le> maxBulkCatchUpPages" using L by (auto simp: ch0_def)
    have same: "sameRooms rooms (ch_rooms ch)" using ch(1) by (simp add: chainOK_def)
    have sel: "selected (cl_world c) targets (ch_rooms ch)"
      unfolding selected_def
    proof (intro conjI allI ballI impI)
      fix i room assume "map_of (ch_rooms ch) i = Some room \<and> ro_catchUp room"
      then obtain room0 where "map_of rooms i = Some room0" "sameRoom room0 room" "ro_catchUp room0"
        using same by (auto simp: sameRooms_def sameRoom_def)
      then show "\<lparr>tg_ChatID = i, tg_MaxLogID = ro_ceiling room\<rparr> \<in> set targets"
        "ro_gapStart room = resumePosition (storeData (cl_world c)) i + 1"
        using rooms(2) by (auto simp: selected_def sameRoom_def)
    next
      fix t assume "t \<in> set targets"
      then obtain room0 where r0: "map_of rooms (tg_ChatID t) = Some room0" "ro_catchUp room0"
        using rooms(2) by (auto simp: selected_def)
      then obtain room where "map_of (ch_rooms ch) (tg_ChatID t) = Some room"
        using sameRooms_dom [OF same, of "tg_ChatID t"] by auto
      then show "\<exists>room. map_of (ch_rooms ch) (tg_ChatID t) = Some room \<and> ro_catchUp room"
        using same r0 by (fastforce simp: sameRooms_def sameRoom_def)
    qed
    obtain fr c2 where fin: "finishBulkRooms B C env (ch_rooms ch) c1 = (fr, c2)" by force
    have end_eq: "finishBulkRooms B C env (ch_rooms ch) c1 = (case r of Inl e \<Rightarrow> (Inl e, c') | Inr res \<Rightarrow> (Inr (cs_Rooms res), c'))"
      "\<forall>res. r = Inr res \<longrightarrow> cs_Pages res = ch_pages ch"
      using rr Inr fin by (cases fr; auto)+
    have "roomsOK (declared B env) (ch_rooms ch)" using ch(1) by (simp add: chainOK_def)
    from that(2) [OF o1 this same sel ch(2) end_eq] show thesis .
  qed
qed

lemma finish_ids:
  assumes ok: "roomsOK E rooms" and s: "selected w targets rooms" and t: "sorted_wrt (<) (map tg_ChatID targets)"
  shows "sort (map fst (filter (\<lambda>r. ro_catchUp (snd r)) rooms)) = map tg_ChatID targets"
proof (rule sorted_distinct_set_unique)
  have dis: "distinct (map fst rooms)" using ok by (simp add: roomsOK_def)
  then show "distinct (sort (map fst (filter (\<lambda>r. ro_catchUp (snd r)) rooms)))" by (simp add: distinct_map_filter)
  have mem: "(i, room) \<in> set rooms \<longleftrightarrow> map_of rooms i = Some room" for i room using dis by simp
  show "set (sort (map fst (filter (\<lambda>r. ro_catchUp (snd r)) rooms))) = set (map tg_ChatID targets)"
  proof (intro equalityI subsetI)
    fix i assume "i \<in> set (sort (map fst (filter (\<lambda>r. ro_catchUp (snd r)) rooms)))"
    then obtain room where "map_of rooms i = Some room" "ro_catchUp room" using mem by auto
    then have "\<lparr>tg_ChatID = i, tg_MaxLogID = ro_ceiling room\<rparr> \<in> set targets" using s by (simp add: selected_def)
    then show "i \<in> set (map tg_ChatID targets)" by force
  next
    fix i assume "i \<in> set (map tg_ChatID targets)"
    then obtain room where "map_of rooms i = Some room" "ro_catchUp room" using s by (auto simp: selected_def)
    then show "i \<in> set (sort (map fst (filter (\<lambda>r. ro_catchUp (snd r)) rooms)))" using mem by force
  qed
qed (use t in \<open>simp_all add: strict_sorted_iff\<close>)

lemma CatchUpAll_stages:
  assumes "CatchUpAll B C env options c = (r, c')"
  obtains e where "r = Inl e" "c' = c"
  | history rooms where "\<not> cl_closed c" "selectBulkRooms B env history c = Inr rooms"
      "runChain B C env history rooms c = (r, c')"
  using assms unfolding CatchUpAll_def
  by (auto split: sum.splits option.splits if_splits)

text \<open>The result of a room, read at the position the chat was delivered to.\<close>

lemma roomResult_accounts:
  assumes "roomResult E rooms c1 c' r" "selected w targets rooms"
  shows "\<exists>ids. map MessagePosition (cr_Events r) = map (\<lambda>n. Some (cr_ChatID r, n)) ids
         \<and> sorted_wrt (<) (resumePosition (storeData w) (cr_ChatID r) # ids)
         \<and> (\<forall>n\<in>set ids. n \<le> cr_Ceiling r)
         \<and> cl_pending c' (cr_ChatID r) = cl_pending c1 (cr_ChatID r) @ ids
         \<and> {resumePosition (storeData w) (cr_ChatID r)<..cr_Ceiling r}
             \<subseteq> set ids \<union> gapPositions (cl_world c') (cr_ChatID r) \<union> {x. E (cr_ChatID r) x}"
proof -
  from assms(1) obtain rm ids where rr: "map_of rooms (cr_ChatID r) = Some rm" "ro_catchUp rm"
      "cr_Ceiling r = ro_ceiling rm" "eventsAt (cr_ChatID r) ids (cr_Events r)"
      "sorted_wrt (<) ((ro_gapStart rm - 1) # ids)" "\<forall>n\<in>set ids. n \<le> ro_ceiling rm"
      "cl_pending c' (cr_ChatID r) = cl_pending c1 (cr_ChatID r) @ ids"
      "\<forall>x. ro_gapStart rm \<le> x \<and> x \<le> ro_ceiling rm \<longrightarrow>
        x \<in> set ids \<or> x \<in> gapPositions (cl_world c') (cr_ChatID r) \<or> E (cr_ChatID r) x"
    unfolding roomResult_def by blast
  have "ro_gapStart rm = resumePosition (storeData w) (cr_ChatID r) + 1"
    using assms(2) rr(1,2) by (simp add: selected_def)
  with rr show ?thesis by (intro exI [of _ ids]) (auto simp: eventsAt_def add1_zle_eq)
qed

text \<open>
  C6: The bulk catch-up loses no position in silence. On success its rooms are exactly the chats to be resumed,
  in ascending order, at most 100 pages were requested, and for each room: its events are of the
  chat, in strictly ascending order, all after the position the chat was delivered to and none
  after the ceiling; exactly their positions are appended to the chat's commit queue; and every
  position from the resume position to the ceiling is one of the events, or is recorded as a
  gap of the chat, or lies strictly between a row the server sent and that row's own predecessor link.
  Nothing is committed.
\<close>

theorem CatchUpAll_accounts:
  assumes "marshal_lawful B" and "elements_lawful B" and "histOK B C c" and "okStore (cl_world c)"
    and "\<forall>chat m. known (ledgerOf (storeData (cl_world c))) chat = Some m \<longrightarrow> in64 m"
    and "CatchUpAll B C env options c = (Inr result, c')"
  shows "(\<exists>targets. ResumeTargets B (be_data env) c = Inr targets
        \<and> map (\<lambda>r. \<lparr>tg_ChatID = cr_ChatID r, tg_MaxLogID = cr_Ceiling r\<rparr>) (cs_Rooms result) = targets)
    \<and> cs_Pages result \<le> 100
    \<and> (\<forall>r\<in>set (cs_Rooms result). \<exists>ids.
         map MessagePosition (cr_Events r) = map (\<lambda>n. Some (cr_ChatID r, n)) ids
         \<and> sorted_wrt (<) (resumePosition (storeData (cl_world c)) (cr_ChatID r) # ids)
         \<and> (\<forall>n\<in>set ids. n \<le> cr_Ceiling r)
         \<and> cl_pending c' (cr_ChatID r) = cl_pending c (cr_ChatID r) @ ids
         \<and> {resumePosition (storeData (cl_world c)) (cr_ChatID r)<..cr_Ceiling r}
             \<subseteq> set ids \<union> gapPositions (cl_world c') (cr_ChatID r) \<union> {x. declared B env (cr_ChatID r) x})
    \<and> committed (ledgerOf (storeData (cl_world c'))) = committed (ledgerOf (storeData (cl_world c)))"
  using assms(6)
proof (cases rule: CatchUpAll_stages)
  case (2 history rooms)
  note sb = selectBulkRooms_OK [OF assms(4) 2(2), of "declared B env"]
  then obtain targets where t: "roomsOK (declared B env) rooms" "ResumeTargets B (be_data env) c = Inr targets"
    "selected (cl_world c) targets rooms" by blast
  note srt = selectTargets_known [OF assms(4) t(2) [unfolded ResumeTargets_def], THEN conjunct1]
  obtain ch :: "'a chainState" and c1 where ch: "onlyHistory c c1" "histOK B C c1" "roomsOK (declared B env) (ch_rooms ch)"
      "selected (cl_world c) targets (ch_rooms ch)" "ch_pages ch \<le> maxBulkCatchUpPages"
      "finishBulkRooms B C env (ch_rooms ch) c1 = (Inr (cs_Rooms result), c')" "cs_Pages result = ch_pages ch"
  proof (cases rule: runChain_spec [OF assms(1-3) 2(1) assms(4) t(1,3) 2(3)])
    case (2 ch c1)
    then show ?thesis using that [of c1 ch] by simp
  qed simp
  have c1: "cl_world c1 = cl_world c" "cl_closed c1 = cl_closed c" "cl_pending c1 = cl_pending c"
    using ch(1) by (auto simp: onlyHistory_def)
  note ids = finish_ids [OF ch(3,4) srt]
  note fin = ch(6) [unfolded finishBulkRooms_def ids]
  have i64: "in64 (ro_ceiling room)" if "map_of (ch_rooms ch) i = Some room" "ro_catchUp room" for i room
  proof -
    have "\<lparr>tg_ChatID = i, tg_MaxLogID = ro_ceiling room\<rparr> \<in> set targets" using that ch(4) by (simp add: selected_def)
    from resumePosition_target(3) [OF this assms(4) t(2)] assms(5) show ?thesis by blast
  qed
  have pre: "\<not> cl_closed c1" "okStore (cl_world c1)" "distinct (map tg_ChatID targets)"
      "\<forall>i\<in>set (map tg_ChatID targets). \<exists>room. map_of (ch_rooms ch) i = Some room \<and> ro_catchUp room"
    using 2(1) c1 assms(4) srt ch(4) by (auto simp: strict_sorted_iff selected_def)
  note F = finishRooms_spec [OF assms(1,2) ch(3) i64 ch(2) pre fin]
  have room: "\<lparr>tg_ChatID = cr_ChatID r, tg_MaxLogID = cr_Ceiling r\<rparr> \<in> set targets
      \<and> roomResult (declared B env) (ch_rooms ch) c1 c' r" if "r \<in> set (cs_Rooms result)" for r
    using that F ch(4) by (fastforce simp: roomResult_def selected_def)
  have tg: "map (\<lambda>r. \<lparr>tg_ChatID = cr_ChatID r, tg_MaxLogID = cr_Ceiling r\<rparr>) (cs_Rooms result) = targets"
  proof (rule map_inj_on [of tg_ChatID])
    show "map tg_ChatID (map (\<lambda>r. \<lparr>tg_ChatID = cr_ChatID r, tg_MaxLogID = cr_Ceiling r\<rparr>) (cs_Rooms result))
        = map tg_ChatID targets" using F by (simp add: comp_def)
    have "inj_on tg_ChatID (set targets)" using pre(3) by (simp add: distinct_map)
    then show "inj_on tg_ChatID (set (map (\<lambda>r. \<lparr>tg_ChatID = cr_ChatID r, tg_MaxLogID = cr_Ceiling r\<rparr>) (cs_Rooms result)) \<union> set targets)"
      using room by (auto simp: sup.absorb2 image_subset_iff Un_absorb1)
  qed
  have each: "\<exists>ids. map MessagePosition (cr_Events r) = map (\<lambda>n. Some (cr_ChatID r, n)) ids
         \<and> sorted_wrt (<) (resumePosition (storeData (cl_world c)) (cr_ChatID r) # ids)
         \<and> (\<forall>n\<in>set ids. n \<le> cr_Ceiling r)
         \<and> cl_pending c' (cr_ChatID r) = cl_pending c (cr_ChatID r) @ ids
         \<and> {resumePosition (storeData (cl_world c)) (cr_ChatID r)<..cr_Ceiling r}
             \<subseteq> set ids \<union> gapPositions (cl_world c') (cr_ChatID r) \<union> {x. declared B env (cr_ChatID r) x}"
    if "r \<in> set (cs_Rooms result)" for r
    using roomResult_accounts [OF room [OF that, THEN conjunct2] ch(4)] unfolding c1(3) .
  have "cs_Pages result \<le> 100" using ch(5,7) by (simp add: maxBulkCatchUpPages_def maxCatchUpPages_def)
  with tg each t(2) F c1(1) show ?thesis by (intro conjI ballI) auto
qed simp

lemma finishRooms_good:
  assumes law: "marshal_lawful B" "elements_lawful B" and rooms: "roomsOK E rooms"
    and i64: "\<And>i room. map_of rooms i = Some room \<Longrightarrow> ro_catchUp room \<Longrightarrow> in64 (ro_ceiling room)"
    and good: "\<And>i. be_write env i = good_write" "\<And>i. be_skipWrite env i = good_write"
    and "histOK B C c" "\<not> cl_closed c" "okStore (cl_world c)"
    "\<forall>i\<in>set ids. 0 < i \<and> (\<exists>room. map_of rooms i = Some room \<and> ro_catchUp room)"
  shows "\<exists>out c'. finishRooms B C env state rooms ids c = (Inr out, c')"
  using assms(7-)
proof (induction ids arbitrary: c)
  case (Cons i ids)
  note p = Cons.prems
  from p(4) obtain room where room: "map_of rooms i = Some room" "ro_catchUp room" and pos: "0 < i" by auto
  have ok: "roomOK (E i) room" using rooms room(1) by (auto simp: roomsOK_def)
  obtain projected room1 where pr: "projectRoom B C (cl_history c) room = (projected, room1)" by force
  note ps = projectRoom_spec [OF law p(1) ok room(2) pr]
  then have b1: "roomBounds room1" and c64: "in64 (ro_ceiling room1)" using i64 [OF room] by (auto simp: sameRoom_def)
  obtain c1 where rec: "recordRoom env state i room1 c = (None, c1)"
    using recordRoom_good [OF p(2,3) b1 c64 pos good] by (metis prod.collapse)
  have rd: "recorded i room1 c c1" by (rule recordRoom_recorded [OF p(2,3) b1 c64 rec])
  from ps obtain js where js: "eventsAt (ro_chatID room) js projected" by blast
  define c2 where "c2 = queueEvents projected c1"
  have c2: "histOK B C c2" "\<not> cl_closed c2" "okStore (cl_world c2)"
    using queueEvents_fields [OF js, of c1] rd onlyWorld_fields p(1,2) by (auto simp: c2_def recorded_def histOK_def)
  from Cons.IH [OF c2] p(4) obtain out c' where "finishRooms B C env state rooms ids c2 = (Inr out, c')" by auto
  then show ?case by (simp add: roomOf_def room(1) pr rec c2_def)
qed simp

text \<open>
  C11: A bulk catch-up that fails while the file system accepts the checkpoint writes leaves the delivery state as it
  was: whatever stage failed (options, selection, a page, an acquired-history write), the
  checkpoint, the file on disk, the commit queues and whether the client is closed are unchanged, only acquired rows may have been
  added. No room is half finished: a retry starts from the same resume positions.
\<close>

theorem CatchUpAll_failure:
  assumes "marshal_lawful B" and "elements_lawful B" and "histOK B C c" and "okStore (cl_world c)"
    and "\<forall>chat m. known (ledgerOf (storeData (cl_world c))) chat = Some m \<longrightarrow> in64 m"
    and "\<forall>chat. be_write env chat = good_write \<and> be_skipWrite env chat = good_write"
    and "CatchUpAll B C env options c = (Inl e, c')"
  shows "cl_world c' = cl_world c \<and> cl_pending c' = cl_pending c \<and> cl_closed c' = cl_closed c"
  using assms(7)
proof (cases rule: CatchUpAll_stages)
  case 1
  then show ?thesis by simp
next
  case (2 history rooms)
  obtain targets where t: "roomsOK (declared B env) rooms" "ResumeTargets B (be_data env) c = Inr targets"
    "selected (cl_world c) targets rooms"
    using selectBulkRooms_OK [OF assms(4) 2(2), of "declared B env"] by blast
  show ?thesis
  proof (cases rule: runChain_spec [OF assms(1-3) 2(1) assms(4) t(1,3) 2(3)])
    case (1 e')
    then show ?thesis by (auto simp: onlyHistory_def)
  next
    case (2 ch c1)
    have tg: "\<lparr>tg_ChatID = i, tg_MaxLogID = ro_ceiling room\<rparr> \<in> set targets"
      if "map_of (ch_rooms ch) i = Some room" "ro_catchUp room" for i room
      using that 2(5) by (simp add: selected_def)
    have k: "known (ledgerOf (storeData (cl_world c))) i = Some (ro_ceiling room)"
      if "map_of (ch_rooms ch) i = Some room" "ro_catchUp room" for i room
      using resumePosition_target(3) [OF tg [OF that] assms(4) t(2)] .
    have i64: "in64 (ro_ceiling room)" if "map_of (ch_rooms ch) i = Some room" "ro_catchUp room" for i room
      using assms(5) k [OF that] by blast
    have pos: "\<forall>i\<in>set (sort (map fst (filter (\<lambda>r. ro_catchUp (snd r)) (ch_rooms ch)))).
        0 < i \<and> (\<exists>room. map_of (ch_rooms ch) i = Some room \<and> ro_catchUp room)"
    proof
      fix i assume "i \<in> set (sort (map fst (filter (\<lambda>r. ro_catchUp (snd r)) (ch_rooms ch))))"
      then obtain room where "(i, room) \<in> set (ch_rooms ch)" and cu: "ro_catchUp room" by auto
      then have m: "map_of (ch_rooms ch) i = Some room" using 2(3) by (simp add: roomsOK_def)
      with known_positive [OF assms(4) k [OF m cu]] cu
      show "0 < i \<and> (\<exists>room. map_of (ch_rooms ch) i = Some room \<and> ro_catchUp room)" by blast
    qed
    have c1: "\<not> cl_closed c1" "okStore (cl_world c1)" using 2(1) \<open>\<not> cl_closed c\<close> assms(4) by (auto simp: onlyHistory_def)
    have "\<exists>out c2. finishBulkRooms B C env (ch_rooms ch) c1 = (Inr out, c2)"
      unfolding finishBulkRooms_def
      using assms(6) by (intro finishRooms_good [OF assms(1,2) 2(3) _ _ _ 2(2) c1 pos] i64) auto
    then show ?thesis using 2(7) by auto
  qed
qed

subsection \<open>Witnesses\<close>

definition sampleRow :: doc where
  "sampleRow = Doc [(''chatId'', VInt64 7), (''logId'', VInt64 60), (''prevId'', VInt64 50), (''type'', VInt32 1),
     (''message'', VString ''hi'')]"

definition sampleBulk :: "doc result \<Rightarrow> doc bulk_env" where
  "sampleBulk reply = \<lparr>be_data = Inr [], be_floor = Inr 0, be_chats = Inr [], be_bulk = (\<lambda>n req. reply),
     be_admission = False, be_refused = (\<lambda>_. None), be_persist = (\<lambda>_. None), be_busy = False, be_wait = None,
     be_started = 0, be_clock = (\<lambda>_. 0), be_removed = (\<lambda>_. None), be_skipWrite = (\<lambda>_. good_write),
     be_write = (\<lambda>_. good_write)\<rparr>"

definition sampleRoom :: "doc chainRoom" where
  "sampleRoom = \<lparr>ro_chatID = 7, ro_ceiling = 60, ro_cursor = 40, ro_catchUp = True, ro_gapStart = 41, ro_events = [],
     ro_skipFrom = 0, ro_skipThrough = 0, ro_done = False\<rparr>"

lemma sample_committed: "CommittedMax sampleCheckpoint 7 = 40" "CommittedMax sampleCheckpoint 9 = 55"
  using CommittedMax_ledger [of sampleCheckpoint] sampleCheckpoint_sound
  by (simp_all add: soundCheckpoint_def ledgerOf_def cursorAt_def entryOf_def) (simp_all add: sample_defs entryOf_def)

lemma sampleBulk_targets: "ResumeTargets docBson (Inr []) (sampleClient sampleWorld)
    = Inr [\<lparr>tg_ChatID = 7, tg_MaxLogID = 60\<rparr>]"
proof -
  have "Snapshot (store sampleWorld) = sampleCheckpoint"
    using Snapshot_ok [OF sampleWorld_ok] by (simp add: storeData_def sampleWorld_def)
  moreover have "sl (KnownChats sampleCheckpoint) = [\<lparr>ct_ChatID = 7, ct_MaxLogID = 60\<rparr>, \<lparr>ct_ChatID = 9, ct_MaxLogID = 55\<rparr>]"
    by (simp add: sampleCheckpoint_def)
  moreover note sample_committed
  ultimately show ?thesis
    by (simp add: ResumeTargets_def selectTargets_def InitialSyncTargets_def SyncTargets_def sampleClient_def Let_def)
       (simp add: sampleWorld_def)
qed

lemma sampleBulk_select: "selectBulkRooms docBson (sampleBulk reply) None (sampleClient sampleWorld) = Inr [(7, sampleRoom)]"
  using sampleBulk_targets sample_committed Snapshot_ok [OF sampleWorld_ok]
  by (simp add: selectBulkRooms_def sampleBulk_def catchUpRoom_def sampleClient_def sampleRoom_def Let_def
      storeData_def sampleWorld_def)

lemma sampleRow_parse:
  "mchatlogs_ParseResponse docBson (Doc [(''eof'', VBool True), (''chatLogs'', docArray [VDoc sampleRow])])
     = Inr \<lparr>br_ChatLogs = [sampleRow], br_EOF = True\<rparr>"
  by (simp add: mchatlogs_ParseResponse_def docArray_def LogID_def Int64_def Int64OrZero_def sampleRow_def)

lemma sampleRow_decode: "DecodeChatLog docBson plainContent 7 sampleRow = Inr (TextMessage 7 60 0 0 ''hi'' 0)"
  by (simp add: DecodeChatLog_def chatLogPacket_def DecodeForDelivery_def sampleRow_def plainContent_def
      messageDeliveryEnvelope_def DecodeIdentity_def positiveField_def Int64_def Int64OrZero_def
      duplicateKey_def maxInt32_def disagreesAt_def orZero_def hasAnyDuplicateExcept_def Decode_def
      decodeMessage_def chatlog_Decode_def Feed_def Text_def deletedFlagged_def
      DeletedAllChatTypeFlag_def decodeText_def String_def Let_def)

lemma sampleRow_fields: "LogID docBson sampleRow = Inr 60" "PrevID docBson sampleRow = Some 50"
    "Int64OrZero docBson sampleRow [''chatId''] = 7" "logIDOf docBson sampleRow = 60"
  by (simp_all add: LogID_def PrevID_def Int64_def Int64OrZero_def sampleRow_def logIDOf_def)

lemma sampleBulk_request:
  "\<exists>raw. BulkRequest_MarshalBSON docBson \<lparr>bq_ChatIDs = [7], bq_Sinces = [40]\<rparr> = Inr raw"
  by (simp add: BulkRequest_MarshalBSON_def MaxChats_def bulkRowInvalid_def)

definition sampleReply :: doc where
  "sampleReply = Doc [(''eof'', VBool True), (''chatLogs'', docArray [VDoc sampleRow])]"

definition sampleChain :: "doc chainState" where
  "sampleChain = \<lparr>ch_history = None, ch_rooms = [(7, sampleRoom)], ch_pending = [7], ch_pages = 0, ch_logs = 0,
     ch_historyPending = 0\<rparr>"

definition sampleRoomAfter :: "doc chainRoom" where
  "sampleRoomAfter = sampleRoom\<lparr>ro_events := [TextMessage 7 60 0 0 ''hi'' 0], ro_cursor := 60, ro_skipFrom := 41,
     ro_skipThrough := 50\<rparr>"

lemma sampleBulk_run: "applyBulkRun docBson plainContent 0 removed sampleRoom [sampleRow] None = (None, sampleRoomAfter, None)"
  by (simp add: applyBulkRun_def sampleRow_fields sampleRoom_def sampleRoomAfter_def noteSkip_def sampleRow_decode saveRun_def)

lemma sampleBulk_page:
  "bulkPage docBson plainContent (sampleBulk (Inr sampleReply)) sampleChain None
     = (Inr (sampleChain\<lparr>ch_rooms := [(7, sampleRoomAfter)], ch_pages := 1, ch_logs := 1, ch_pending := []\<rparr>, True), None)"
proof -
  have rq: "bulkRequest [(7, sampleRoom)] [7] = \<lparr>bq_ChatIDs = [7], bq_Sinces = [40]\<rparr>"
    by (simp add: bulkRequest_def roomOf_def sampleRoom_def)
  have "bulkChatLogs docBson (sampleBulk (Inr sampleReply)) 0 \<lparr>bq_ChatIDs = [7], bq_Sinces = [40]\<rparr>
      = Inr \<lparr>br_ChatLogs = [sampleRow], br_EOF = True\<rparr>"
    using sampleBulk_request sampleRow_parse by (auto simp: bulkChatLogs_def bulkFetch_def sampleBulk_def sampleReply_def)
  moreover have "applyRuns docBson plainContent 0 (\<lambda>_. None) [(7, sampleRow)] [7] [(7, sampleRoom)] None
      = (None, [(7, sampleRoomAfter)], True, [], None)"
    by (simp add: roomOf_def runOf_def sampleBulk_run) (simp add: sampleRoom_def sampleRoomAfter_def)
  moreover have "be_clock (sampleBulk (Inr sampleReply)) 0 = 0" "be_removed (sampleBulk (Inr sampleReply)) = (\<lambda>_. None)"
    by (simp_all add: sampleBulk_def)
  ultimately show ?thesis
    by (simp add: bulkPage_def sampleChain_def MaxChats_def rq sampleRow_fields commitAcquired_def retiredRooms_def roomOf_def
        del: applyRuns.simps)
qed

lemma bulkLoop_page:
  assumes "ch_pending ch \<noteq> [] \<and> \<not> spent env deadline ch \<and> \<not> ch_pages ch \<ge> maxBulkCatchUpPages"
  shows "bulkLoop B C env deadline ch hist = (case bulkPage B C env ch hist of
           (Inl e, hist1) \<Rightarrow> (Inl e, hist1)
         | (Inr (ch1, continue), hist1) \<Rightarrow>
             if continue then bulkLoop B C env deadline ch1 hist1 else (Inr ch1, hist1))"
  using assms by (subst bulkLoop.simps) simp

lemma sampleChain_open:
  "ch_pending sampleChain \<noteq> [] \<and> \<not> spent env deadline sampleChain \<and> \<not> ch_pages sampleChain \<ge> maxBulkCatchUpPages"
  by (simp add: sampleChain_def spent_def maxBulkCatchUpPages_def maxCatchUpPages_def)

lemma sampleBulk_loop:
  "bulkLoop docBson plainContent (sampleBulk (Inr sampleReply)) 0 sampleChain None
     = (Inr (sampleChain\<lparr>ch_rooms := [(7, sampleRoomAfter)], ch_pages := 1, ch_logs := 1, ch_pending := []\<rparr>), None)"
  unfolding bulkLoop_page [OF sampleChain_open] sampleBulk_page by (simp add: bulkLoop.simps)

lemma sample_in64: "\<forall>chat m. known (ledgerOf (storeData (cl_world (sampleClient sampleWorld)))) chat = Some m \<longrightarrow> in64 m"
  by (auto simp: sampleClient_def storeData_def ledgerOf_def targetAt_def entryOf_def sample_defs in64_def split: if_splits)

theorem CatchUpAll_accounts_witness:
  "\<exists>result c'. CatchUpAll docBson plainContent (sampleBulk (Inr sampleReply)) None (sampleClient sampleWorld) = (Inr result, c')
     \<and> map cr_Events (cs_Rooms result) = [[TextMessage 7 60 0 0 ''hi'' 0]] \<and> cs_Pages result \<le> 100 \<and> cl_pending c' 7 = [60]"
proof -
  let ?env = "sampleBulk (Inr sampleReply)" and ?c = "sampleClient sampleWorld"
  have c: "\<not> cl_closed ?c" "okStore (cl_world ?c)" "cl_history ?c = None" "histOK docBson plainContent ?c" "store (cl_world ?c) \<noteq> None"
    using sampleWorld_ok by (auto simp: sampleClient_def histOK_def okStore_def)
  have "fst (recordRoom ?env (Snapshot (store (cl_world ?c))) 7 sampleRoomAfter ?c) = None"
    by (rule recordRoom_good [OF c(1,2)])
       (simp_all add: sampleBulk_def sampleRoomAfter_def sampleRoom_def roomBounds_def in64_def)
  then obtain c1 where rec: "recordRoom ?env (Snapshot (store (cl_world ?c))) 7 sampleRoomAfter ?c = (None, c1)"
    by (metis prod.collapse)
  have pr: "projectRoom docBson plainContent None sampleRoomAfter = ([TextMessage 7 60 0 0 ''hi'' 0], sampleRoomAfter)"
    by (simp add: projectRoom_def projectAcquiredEvents_def sampleRoomAfter_def)
  have "ro_catchUp sampleRoomAfter" by (simp add: sampleRoomAfter_def sampleRoom_def)
  then obtain out c2 where fin: "finishBulkRooms docBson plainContent ?env [(7, sampleRoomAfter)] ?c = (Inr out, c2)"
      "map cr_Events out = [[TextMessage 7 60 0 0 ''hi'' 0]]" "map cr_ChatID out = [7]"
    using pr rec c(3) by (simp add: finishBulkRooms_def roomOf_def)
  have "\<not> ro_done sampleRoom" by (simp add: sampleRoom_def)
  then have chain: "runChain docBson plainContent ?env None [(7, sampleRoom)] ?c =
      (Inr \<lparr>cs_Rooms = out, cs_Pages = 1, cs_Logs = 1, cs_HistoryPending = 0\<rparr>, c2)"
    using sampleBulk_loop c(3) fin(1)
    by (simp add: runChain_def sampleChain_def) (simp add: sampleClient_def countHistoryRooms_def)
  let ?res = "\<lparr>cs_Rooms = out, cs_Pages = 1, cs_Logs = 1, cs_HistoryPending = 0\<rparr>"
  have run: "CatchUpAll docBson plainContent ?env None ?c = (Inr ?res, c2)"
    using chain c sampleBulk_select [of "Inr sampleReply"] by (simp add: CatchUpAll_def sampleBulk_def)
  from CatchUpAll_accounts [OF docBson_lawful docBson_elements c(4,2) sample_in64 run]
  have each: "\<forall>r\<in>set out. \<exists>ids. map MessagePosition (cr_Events r) = map (\<lambda>n. Some (cr_ChatID r, n)) ids
      \<and> cl_pending c2 (cr_ChatID r) = cl_pending ?c (cr_ChatID r) @ ids" and pages: "cs_Pages ?res \<le> 100" by auto
  from fin(2,3) obtain r where "r \<in> set out" "cr_ChatID r = 7" "cr_Events r = [TextMessage 7 60 0 0 ''hi'' 0]"
    by (cases out) auto
  with each have "cl_pending c2 7 = [60]" by (force simp: sampleClient_def)
  with run fin(2) pages show ?thesis by auto
qed

theorem CatchUpAll_failure_witness:
  "\<exists>c'. CatchUpAll docBson plainContent (sampleBulk (Inl ErrClientClosed)) None (sampleClient sampleWorld) = (Inl ErrClientClosed, c')
     \<and> cl_world c' = sampleWorld"
proof -
  let ?env = "sampleBulk (Inl ErrClientClosed)" and ?c = "sampleClient sampleWorld"
  have c: "\<not> cl_closed ?c" "okStore (cl_world ?c)" "cl_history ?c = None" "histOK docBson plainContent ?c" "store (cl_world ?c) \<noteq> None"
    using sampleWorld_ok by (auto simp: sampleClient_def histOK_def okStore_def)
  have rq: "bulkRequest [(7, sampleRoom)] [7] = \<lparr>bq_ChatIDs = [7], bq_Sinces = [40]\<rparr>"
    by (simp add: bulkRequest_def roomOf_def sampleRoom_def)
  have "bulkPage docBson plainContent ?env sampleChain None = (Inl ErrClientClosed, None)"
    using sampleBulk_request
    by (auto simp: bulkPage_def sampleChain_def MaxChats_def rq bulkChatLogs_def bulkFetch_def sampleBulk_def)
  then have loop: "bulkLoop docBson plainContent ?env 0 sampleChain None = (Inl ErrClientClosed, None)"
    unfolding bulkLoop_page [OF sampleChain_open] by simp
  have "\<not> ro_done sampleRoom" by (simp add: sampleRoom_def)
  then have "\<exists>c'. runChain docBson plainContent ?env None [(7, sampleRoom)] ?c = (Inl ErrClientClosed, c')"
    using loop c(3) by (simp add: runChain_def sampleChain_def)
  then obtain c' where run: "CatchUpAll docBson plainContent ?env None ?c = (Inl ErrClientClosed, c')"
    using c sampleBulk_select [of "Inl ErrClientClosed"] by (auto simp: CatchUpAll_def sampleBulk_def)
  have "\<forall>chat. be_write ?env chat = good_write \<and> be_skipWrite ?env chat = good_write" by (simp add: sampleBulk_def)
  from CatchUpAll_failure [OF docBson_lawful docBson_elements c(4,2) sample_in64 this run] run show ?thesis
    by (auto simp: sampleClient_def)
qed

end
