(* ===== verification/Read_State.thy ===== *)
theory Read_State
  imports Catch_Up
begin

text \<open>
  Read acknowledgements: \<open>src/internal/client/read_state.go\<close>.

  The answers are those of the caller's message store (\<open>HeldMessages\<close>, a function value), of the session and of the file system, for
  the \<open>n\<close>-th turn of the loop. A session answer is the error of \<open>ensureSession\<close> or the body of the reply, or its
  error. Properties: the loop always ends, a watermark is only ever raised to a position the server
  confirmed, and against a server that confirms what is covered the chat ends up read.
\<close>

definition readSyncHeldCap :: int64 where "readSyncHeldCap = 300"

record 'r mark_env =
  rd_held :: "nat \<Rightarrow> int64 \<Rightarrow> int64 \<Rightarrow> int64 \<Rightarrow> (int64 \<times> int64) result"
  rd_session :: "nat \<Rightarrow> go_error option"
  rd_reply :: "nat \<Rightarrow> Request \<Rightarrow> 'r result"
  rd_write :: "nat \<Rightarrow> write_env"

text \<open>\<open>withSession\<close> around \<open>call(session, ctx, SYNCMSG, request, syncmsg.ParseResponse)\<close>.\<close>

definition readExchange :: "'r bson \<Rightarrow> 'r mark_env \<Rightarrow> nat \<Rightarrow> Request \<Rightarrow> 'r Response result" where
  "readExchange B env n request =
     (case rd_session env n of
        Some e \<Rightarrow> Inl e
      | None \<Rightarrow>
          (case ReadRequest_MarshalBSON B request of
             Inl e \<Rightarrow> Inl e
           | Inr _ \<Rightarrow> (case rd_reply env n request of Inl e \<Rightarrow> Inl e | Inr body \<Rightarrow> syncmsg_ParseResponse B body)))"

text \<open>What one request declares: the held messages, or the watermark with none when the report is unusable.\<close>

definition declareHeld :: "int64 \<Rightarrow> int64 \<Rightarrow> int64 \<times> int64 \<Rightarrow> int64 \<times> int64" where
  "declareHeld cur watermark report =
     (let (maxLogID, count) = report in
      if count \<le> 0 \<or> maxLogID \<le> cur \<or> maxLogID > watermark then (watermark, 0) else (maxLogID, count))"

definition readRequest :: "int64 \<Rightarrow> int64 \<Rightarrow> int64 \<times> int64 \<Rightarrow> Request" where
  "readRequest chatID cur declared = \<lparr>rq_ChatID = chatID, rq_Cur = cur, rq_Max = fst declared,
     rq_Count = min (snd declared) readSyncHeldCap\<rparr>"

text \<open>Where the loop continues after a reply, if it does.\<close>

definition continueAt :: "'r bson \<Rightarrow> int64 \<Rightarrow> int64 \<Rightarrow> int64 \<times> int64 \<Rightarrow> 'r Response \<Rightarrow> int64 option" where
  "continueAt B cur watermark declared response =
     (if rs_IsOK response
      then (if snd declared \<ge> readSyncHeldCap \<and> fst declared < watermark then Some (fst declared) else None)
      else if rs_ChatLogs response = [] then None
      else (case LogID B (last (rs_ChatLogs response)) of
              Inr last' \<Rightarrow> if last' > cur \<and> last' \<le> fst declared then Some last' else None
            | Inl _ \<Rightarrow> None))"

definition confirmRead :: "write_env \<Rightarrow> int64 \<Rightarrow> int64 \<Rightarrow> 'r Response \<Rightarrow> world \<Rightarrow> go_error option \<times> world" where
  "confirmRead wenv chatID maxLogID response w =
     (if rs_IsOK response \<and> store w \<noteq> None then snd (CommitReadWatermark wenv chatID maxLogID w) else (None, w))"

lemma declareHeld_cases:
  obtains "declareHeld cur watermark report = (watermark, 0)"
  | m k where "declareHeld cur watermark report = (m, k)" "report = (m, k)" "0 < k" "cur < m" "m \<le> watermark"
proof -
  obtain m k where r: "report = (m, k)" by force
  show thesis
  proof (cases "k \<le> 0 \<or> m \<le> cur \<or> m > watermark")
    case True
    then show thesis using that(1) r by (simp add: declareHeld_def)
  next
    case False
    then show thesis using that(2) [of m k] r by (simp add: declareHeld_def)
  qed
qed

lemma continueAt_progress:
  assumes "continueAt B cur watermark (declareHeld cur watermark report) response = Some cur1"
  shows "cur < cur1 \<and> cur1 \<le> watermark"
  using assms
  by (cases rule: declareHeld_cases [of cur watermark report])
     (auto simp: continueAt_def readSyncHeldCap_def split: if_splits sum.splits)

function markLoop :: "'r bson \<Rightarrow> 'r mark_env \<Rightarrow> int64 \<Rightarrow> int64 \<Rightarrow> nat \<Rightarrow> int64 \<Rightarrow> world \<Rightarrow> 'r Response result \<times> world" where
  "markLoop B env chatID watermark n cur w =
     (case rd_held env n cur watermark readSyncHeldCap of
        Inl e \<Rightarrow> (Inl e, w)
      | Inr report \<Rightarrow>
          let declared = declareHeld cur watermark report in
          (case readExchange B env n (readRequest chatID cur declared) of
             Inl e \<Rightarrow> (Inl e, w)
           | Inr response \<Rightarrow>
               (case confirmRead (rd_write env n) chatID (fst declared) response w of
                  (Some e, w1) \<Rightarrow> (Inl e, w1)
                | (None, w1) \<Rightarrow>
                    (case continueAt B cur watermark declared response of
                       None \<Rightarrow> (Inr response, w1)
                     | Some cur1 \<Rightarrow> markLoop B env chatID watermark (n + 1) cur1 w1))))"
  by pat_completeness auto
termination
  by (relation "measure (\<lambda>(B, env, chatID, watermark, n, cur, w). nat (watermark - cur))")
     (auto dest: continueAt_progress)

declare markLoop.simps [simp del]

definition MarkRead :: "'r bson \<Rightarrow> 'r mark_env \<Rightarrow> int64 \<Rightarrow> int64 \<Rightarrow> 'r client \<Rightarrow> 'r Response result \<times> 'r client" where
  "MarkRead B env chatID watermark c =
     (case Request_MarshalBSON B \<lparr>rq_ChatID = chatID, rq_Cur = watermark - 1, rq_Max = watermark, rq_Count = 0\<rparr> of
        Inl e \<Rightarrow> (Inl e, c)
      | Inr _ \<Rightarrow>
          if cl_closed c then (Inl ErrClientClosed, c)
          else
            let cur = ReadWatermark_of (cl_world c) chatID;
                (r, w) = (if cur < watermark then markLoop B env chatID watermark 0 cur (cl_world c)
                          else (Inr \<lparr>rs_ChatLogs = [], rs_MinLogID = 0, rs_IsOK = False\<rparr>, cl_world c))
            in (r, c\<lparr>cl_world := w\<rparr>))"


subsection \<open>Lemmas\<close>

lemma ReadWatermark_ledger:
  assumes "okStore w" "0 < chat"
  shows "ReadWatermark_of w chat = (case readmark (ledgerOf (storeData w)) chat of None \<Rightarrow> 0 | Some m \<Rightarrow> m)"
proof -
  obtain s where s: "store w = Some s" "validate (st_data s) = None" using assms(1) by (auto simp: okStore_def)
  have t: "tableSorted rw_ChatID (sl (ReadWatermarks (st_data s)))"
    using s(2) by (auto simp: validate_iff tablesOk_def intro: sortedByChat_table)
  obtain i found where sr: "searchChat rw_ChatID (sl (ReadWatermarks (st_data s))) chat = (i, found)" by fastforce
  show ?thesis using searchChat_entryOf(1) [OF t sr] sr s(1) assms(2)
    by (simp add: ReadWatermark_of_def ledgerOf_def markAt_def storeData_def)
qed

lemma ReadWatermark_nonneg: "okStore w \<Longrightarrow> 0 < chat \<Longrightarrow> 0 \<le> ReadWatermark_of w chat"
  using okStore_validate [of w]
  by (auto simp: ReadWatermark_ledger ledgerOf_def markAt_def validate_iff tablesOk_def validWatermark_def
      split: option.splits dest!: sortedByChat_entry)

text \<open>A commit of a read watermark raises that chat's mark, if it is accepted, and changes nothing else.\<close>

definition onlyRead :: "int64 \<Rightarrow> world \<Rightarrow> world \<Rightarrow> bool" where
  "onlyRead chat w w' \<longleftrightarrow> okStore w'
     \<and> (\<exists>m. ledgerOf (storeData w') = (ledgerOf (storeData w))\<lparr>readmark := (readmark (ledgerOf (storeData w)))(chat := m)\<rparr>)"

lemma onlyRead_refl: "okStore w \<Longrightarrow> onlyRead chat w w"
  by (auto simp: onlyRead_def intro!: exI [of _ "readmark (ledgerOf (storeData w)) chat"])

lemma onlyRead_trans: "onlyRead chat a b \<Longrightarrow> onlyRead chat b c \<Longrightarrow> onlyRead chat a c"
  by (auto simp: onlyRead_def)

lemma confirmRead_spec:
  assumes ok: "okStore w" and pos: "0 < chat" and f: "confirmRead wenv chat m response w = (r, w1)"
  shows "onlyRead chat w w1"
    "ReadWatermark_of w1 chat = (if rs_IsOK response \<and> r = None then max (ReadWatermark_of w chat) m else ReadWatermark_of w chat)"
    "rs_IsOK response \<Longrightarrow> wenv = good_write \<Longrightarrow> 0 < m \<Longrightarrow> r = None"
    "\<not> rs_IsOK response \<Longrightarrow> r = None"
proof -
  have st: "store w \<noteq> None" using ok by (auto simp: okStore_def)
  show "\<not> rs_IsOK response \<Longrightarrow> r = None" using f by (simp add: confirmRead_def)
  have ex: "exec wenv (OpRead chat m) w = (r, w1)" if "rs_IsOK response" using f st that by (simp add: confirmRead_def)
  show "r = None" if "rs_IsOK response" "wenv = good_write" "0 < m"
    using exec_good(1) [OF ok, of "OpRead chat m"] ex that pos by simp
  show o: "onlyRead chat w w1"
  proof (cases "rs_IsOK response")
    case True
    note o1 = okStore_exec [OF ok _ ex [OF True]]
    show ?thesis
    proof (cases r)
      case None
      have "ledgerOf (storeData w1) = execL (OpRead chat m) (ledgerOf (storeData w))"
        using exec_ok [OF ok ex [OF True, unfolded None]] by simp
      then show ?thesis using o1 by (auto simp: onlyRead_def)
    next
      case (Some e)
      have "storeData w1 = storeData w" by (intro exec_keeps [OF ok ex [OF True, unfolded Some]])
      then show ?thesis using o1 onlyRead_refl [OF ok] by (simp add: onlyRead_def)
    qed
  qed (use f ok onlyRead_refl in \<open>simp add: confirmRead_def\<close>)
  have rm: "ReadWatermark_of w1 chat = (case readmark (ledgerOf (storeData w1)) chat of None \<Rightarrow> 0 | Some m \<Rightarrow> m)"
    "ReadWatermark_of w chat = (case readmark (ledgerOf (storeData w)) chat of None \<Rightarrow> 0 | Some m \<Rightarrow> m)"
    using ReadWatermark_ledger o ok pos by (auto simp: onlyRead_def)
  show "ReadWatermark_of w1 chat = (if rs_IsOK response \<and> r = None then max (ReadWatermark_of w chat) m else ReadWatermark_of w chat)"
  proof (cases "rs_IsOK response")
    case True
    note e = ex [OF True]
    show ?thesis
    proof (cases r)
      case None
      have "0 < m" "ledgerOf (storeData w1) = execL (OpRead chat m) (ledgerOf (storeData w))"
        using exec_ok [OF ok e [unfolded None]] by auto
      then show ?thesis using True None by (simp add: rm raised_def split: option.split)
    next
      case (Some e')
      have "storeData w1 = storeData w" by (intro exec_keeps [OF ok e [unfolded Some]])
      then show ?thesis using Some by (simp add: rm)
    qed
  qed (use f in \<open>simp add: confirmRead_def\<close>)
qed

subsection \<open>Only confirmed positions\<close>

text \<open>The server confirmed a chat as read through a position: it answered \<open>isOK\<close> to a request with that maximum.\<close>

definition confirmed :: "'r bson \<Rightarrow> 'r mark_env \<Rightarrow> int64 \<Rightarrow> int64 \<Rightarrow> bool" where
  "confirmed B env chat m \<longleftrightarrow> (\<exists>n req r. rq_ChatID req = chat \<and> rq_Max req = m
     \<and> readExchange B env n req = Inr r \<and> rs_IsOK r)"

definition raisedRead :: "'r bson \<Rightarrow> 'r mark_env \<Rightarrow> int64 \<Rightarrow> int64 \<Rightarrow> world \<Rightarrow> world \<Rightarrow> bool" where
  "raisedRead B env chat watermark w w' \<longleftrightarrow> onlyRead chat w w' \<and>
     (ReadWatermark_of w' chat = ReadWatermark_of w chat
      \<or> ReadWatermark_of w chat < ReadWatermark_of w' chat \<and> ReadWatermark_of w' chat \<le> watermark
        \<and> confirmed B env chat (ReadWatermark_of w' chat))"

lemma raisedRead_trans:
  "raisedRead B env chat wm a b \<Longrightarrow> raisedRead B env chat wm b c \<Longrightarrow> raisedRead B env chat wm a c"
  unfolding raisedRead_def by (elim conjE disjE) (simp_all add: onlyRead_trans [of chat a b c])

lemma declareHeld_max: "cur \<le> watermark \<Longrightarrow> fst (declareHeld cur watermark report) \<le> watermark"
  by (cases rule: declareHeld_cases [of cur watermark report]) auto

lemma markLoop_raises:
  assumes "0 < chat" "okStore w" "cur \<le> watermark" "markLoop B env chat watermark n cur w = (r, w')"
  shows "raisedRead B env chat watermark w w'"
  using assms
proof (induction B env chat watermark n cur w rule: markLoop.induct)
  case (1 B env chat watermark n cur w)
  note p = "1.prems"
  note loop = p(4) [unfolded markLoop.simps [of B env chat watermark n cur w]]
  have same: "raisedRead B env chat watermark w w" using onlyRead_refl [OF p(2)] by (simp add: raisedRead_def)
  show ?case
  proof (cases "rd_held env n cur watermark readSyncHeldCap")
    case (Inl e)
    then show ?thesis using loop same by simp
  next
    case held: (Inr report)
    define d where "d = declareHeld cur watermark report"
    note loop1 = loop [unfolded held sum.case Let_def, folded d_def]
    show ?thesis
    proof (cases "readExchange B env n (readRequest chat cur d)")
      case (Inl e)
      then show ?thesis using loop1 same by simp
    next
      case exch: (Inr response)
      obtain e w1 where cf: "confirmRead (rd_write env n) chat (fst d) response w = (e, w1)" by force
      note cs = confirmRead_spec [OF p(2,1) cf]
      have "confirmed B env chat (fst d)" if "rs_IsOK response"
        using that exch unfolding confirmed_def by (intro exI [of _ n] exI [of _ "readRequest chat cur d"]) (simp add: readRequest_def)
      then have step: "raisedRead B env chat watermark w w1"
        using cs(1,2) declareHeld_max [OF p(3), of report] unfolding raisedRead_def d_def [symmetric]
        by (auto simp: max_def)
      show ?thesis
      proof (cases "e = None \<and> continueAt B cur watermark d response \<noteq> None")
        case False
        then show ?thesis using loop1 exch cf step by (cases e) auto
      next
        case True
        then obtain cur1 where cur1: "continueAt B cur watermark d response = Some cur1" and e: "e = None" by auto
        have le: "cur1 \<le> watermark" using continueAt_progress [OF cur1 [unfolded d_def]] by simp
        have ok1: "okStore w1" using cs(1) by (simp add: onlyRead_def)
        have rest: "markLoop B env chat watermark (n + 1) cur1 w1 = (r, w')" using loop1 exch cf e cur1 by simp
        note ih = "1.IH" [OF held d_def exch cf [unfolded e, symmetric] refl cur1 p(1) ok1 le rest]
        show ?thesis by (rule raisedRead_trans [OF step ih])
      qed
    qed
  qed
qed

lemma MarkRead_cases:
  assumes "MarkRead B env chat watermark c = (r, c')"
  obtains "c' = c"
  | w where "0 < chat" "ReadWatermark_of (cl_world c) chat < watermark"
      "markLoop B env chat watermark 0 (ReadWatermark_of (cl_world c) chat) (cl_world c) = (r, w)" "c' = c\<lparr>cl_world := w\<rparr>"
proof -
  have pos: "0 < chat" if "Request_MarshalBSON B \<lparr>rq_ChatID = chat, rq_Cur = watermark - 1, rq_Max = watermark, rq_Count = 0\<rparr> = Inr raw" for raw
    using that by (auto simp: Request_MarshalBSON_def marshal_def split: if_splits)
  obtain r1 w where loop: "markLoop B env chat watermark 0 (ReadWatermark_of (cl_world c) chat) (cl_world c) = (r1, w)" by force
  show thesis
  proof (cases "Request_MarshalBSON B \<lparr>rq_ChatID = chat, rq_Cur = watermark - 1, rq_Max = watermark, rq_Count = 0\<rparr>")
    case (Inl e)
    then show thesis using assms that(1) by (simp add: MarkRead_def)
  next
    case (Inr raw)
    show thesis
    proof (cases "\<not> cl_closed c \<and> ReadWatermark_of (cl_world c) chat < watermark")
      case True
      then show thesis using assms that(2) [OF pos [OF Inr], of w] loop Inr by (simp add: MarkRead_def)
    next
      case False
      then show thesis using assms that(1) Inr by (auto simp: MarkRead_def split: if_splits)
    qed
  qed
qed

text \<open>
  C12: A read acknowledgement never claims more than the server confirmed. Whatever the caller's message
  store, the session and the file system answer, and whether the call succeeds or fails, the chat's read
  watermark afterwards is the one before, or a higher one not above the requested position for
  which the server answered \<open>isOK\<close>; positions it only returned rows for are never recorded. Other chats'
  watermarks, committed positions, targets, gaps, first admissions and the commit queues are untouched.
\<close>

theorem MarkRead_confirmed:
  assumes "okStore (cl_world c)" and "MarkRead B env chat watermark c = (r, c')"
  shows "okStore (cl_world c') \<and> cl_pending c' = cl_pending c \<and> cl_history c' = cl_history c
    \<and> (\<exists>m. ledgerOf (storeData (cl_world c')) = (ledgerOf (storeData (cl_world c)))
          \<lparr>readmark := (readmark (ledgerOf (storeData (cl_world c))))(chat := m)\<rparr>)
    \<and> (ReadWatermark_of (cl_world c') chat = ReadWatermark_of (cl_world c) chat
       \<or> ReadWatermark_of (cl_world c) chat < ReadWatermark_of (cl_world c') chat
         \<and> ReadWatermark_of (cl_world c') chat \<le> watermark
         \<and> confirmed B env chat (ReadWatermark_of (cl_world c') chat))"
proof -
  have "raisedRead B env chat watermark (cl_world c) (cl_world c') \<and> cl_pending c' = cl_pending c \<and> cl_history c' = cl_history c"
  proof (cases rule: MarkRead_cases [OF assms(2)])
    case 1
    then show ?thesis using onlyRead_refl [OF assms(1)] by (simp add: raisedRead_def)
  next
    case (2 w)
    then show ?thesis using markLoop_raises [OF 2(1) assms(1) less_imp_le [OF 2(2)] 2(3)] by simp
  qed
  then show ?thesis by (simp add: raisedRead_def onlyRead_def)
qed

subsection \<open>Termination\<close>

text \<open>Two environments give the same answers up to a turn of the loop.\<close>

definition sameAnswers :: "nat \<Rightarrow> 'r mark_env \<Rightarrow> 'r mark_env \<Rightarrow> bool" where
  "sameAnswers k env env' \<longleftrightarrow> (\<forall>n\<le>k. rd_held env n = rd_held env' n \<and> rd_session env n = rd_session env' n
     \<and> rd_reply env n = rd_reply env' n \<and> rd_write env n = rd_write env' n)"

lemma markLoop_bounded:
  assumes "sameAnswers k env env'" "n + nat (watermark - cur) \<le> k"
  shows "markLoop B env chat watermark n cur w = markLoop B env' chat watermark n cur w"
  using assms
proof (induction B env chat watermark n cur w rule: markLoop.induct)
  case (1 B env chat watermark n cur w)
  have s0: "rd_held env' n = rd_held env n" "rd_session env' n = rd_session env n" "rd_reply env' n = rd_reply env n"
      "rd_write env' n = rd_write env n"
    using "1.prems" by (auto simp: sameAnswers_def)
  have "readExchange B env' n x = readExchange B env n x" for x unfolding readExchange_def s0 ..
  then have s: "rd_held env' n = rd_held env n" "rd_write env' n = rd_write env n" "readExchange B env' n = readExchange B env n"
    using s0 by auto
  have rec: "markLoop B env chat watermark (n + 1) cur1 w1 = markLoop B env' chat watermark (n + 1) cur1 w1"
    if "rd_held env n cur watermark readSyncHeldCap = Inr report" "d = declareHeld cur watermark report"
      "readExchange B env n (readRequest chat cur d) = Inr response"
      "confirmRead (rd_write env n) chat (fst d) response w = (None, w1)"
      "continueAt B cur watermark d response = Some cur1" for report d response w1 cur1
  proof -
    have "cur < cur1 \<and> cur1 \<le> watermark" using continueAt_progress that(2,5) by simp
    then have "n + 1 + nat (watermark - cur1) \<le> k" using "1.prems"(2) by linarith
    with "1.IH" [OF that(1-3) that(4) [symmetric] HOL.refl that(5) "1.prems"(1)] show ?thesis .
  qed
  show ?case
  proof (cases "rd_held env n cur watermark readSyncHeldCap")
    case (Inl e)
    then show ?thesis by (subst (1 2) markLoop.simps) (simp add: s)
  next
    case held: (Inr report)
    define d where "d = declareHeld cur watermark report"
    show ?thesis
    proof (cases "readExchange B env n (readRequest chat cur d)")
      case (Inl e)
      then show ?thesis by (subst (1 2) markLoop.simps) (simp add: s held d_def)
    next
      case (Inr response)
      obtain e w1 where cf: "confirmRead (rd_write env n) chat (fst d) response w = (e, w1)" by force
      show ?thesis
        using rec [OF held d_def Inr] cf
        by (subst (1 2) markLoop.simps)
           (simp add: s held Inr Let_def d_def [symmetric] split: option.split)
    qed
  qed
qed

text \<open>
  C30: A read acknowledgement always returns, after at most one request per position between the confirmed watermark and the
  requested one, plus one: the result depends only on that many answers of the caller's store, the session
  and the file system, whatever they are. In particular a server that never confirms cannot keep it busy.
\<close>

theorem MarkRead_terminates:
  assumes "sameAnswers (nat (watermark - ReadWatermark_of (cl_world c) chat)) env env'"
  shows "MarkRead B env chat watermark c = MarkRead B env' chat watermark c"
  using markLoop_bounded [OF assms, of 0 watermark "ReadWatermark_of (cl_world c) chat" B chat]
  by (simp add: MarkRead_def Let_def split: sum.splits)

subsection \<open>Completion\<close>

text \<open>
  The caller's store as \<open>HeldMessages\<close> documents it, for a set of held positions, and a server with a set of
  logs: it confirms a request whose count covers every log of the interval, and otherwise returns logs of the
  interval.
\<close>

definition heldReport :: "int64 set \<Rightarrow> int64 \<Rightarrow> int64 \<Rightarrow> int64 \<times> int64 \<Rightarrow> bool" where
  "heldReport H after upTo report \<longleftrightarrow>
     snd report = min readSyncHeldCap (int (card (H \<inter> {after<..upTo})))
     \<and> (0 < snd report \<longrightarrow> fst report \<in> H \<inter> {after<..upTo} \<and> int (card (H \<inter> {after<..fst report})) = snd report)"

definition holds :: "'r mark_env \<Rightarrow> int64 set \<Rightarrow> int64 \<Rightarrow> bool" where
  "holds env H upTo \<longleftrightarrow> (\<forall>n after. 0 \<le> after \<and> after \<le> upTo \<longrightarrow> (\<exists>report. rd_held env n after upTo readSyncHeldCap = Inr report \<and> heldReport H after upTo report))"

definition readReply :: "'r bson \<Rightarrow> int64 set \<Rightarrow> Request \<Rightarrow> 'r Response \<Rightarrow> bool" where
  "readReply B L req r \<longleftrightarrow>
     (if rq_Count req \<ge> int (card (L \<inter> {rq_Cur req<..rq_Max req})) then rs_IsOK r
      else \<not> rs_IsOK r \<and> rs_ChatLogs r \<noteq> []
        \<and> (\<exists>k\<in>L \<inter> {rq_Cur req<..rq_Max req}. LogID B (last (rs_ChatLogs r)) = Inr k))"

definition serves :: "'r bson \<Rightarrow> 'r mark_env \<Rightarrow> int64 \<Rightarrow> int64 set \<Rightarrow> bool" where
  "serves B env chat L \<longleftrightarrow> (\<forall>n req. rq_ChatID req = chat \<and> 0 \<le> rq_Cur req \<and> rq_Cur req \<le> rq_Max req
      \<and> 0 < rq_Max req \<and> 0 \<le> rq_Count req \<and> rq_Count req \<le> readSyncHeldCap
      \<longrightarrow> (\<exists>r. readExchange B env n req = Inr r \<and> readReply B L req r))"

lemma heldReport_below_cap:
  assumes "heldReport H cur watermark (m, k)" "0 < k" "k < readSyncHeldCap" "watermark \<in> H" "cur < watermark"
  shows "m = watermark"
proof -
  have m: "m \<in> H" "cur < m" "m \<le> watermark" "card (H \<inter> {cur<..m}) = card (H \<inter> {cur<..watermark})"
    using assms(1-3) by (auto simp: heldReport_def)
  have "H \<inter> {cur<..m} = H \<inter> {cur<..watermark}"
    by (rule card_subset_eq) (use m in auto)
  then have "watermark \<in> {cur<..m}" using assms(4,5) by (metis IntD2 IntI greaterThanAtMost_iff order_refl)
  then show ?thesis using m(3) by simp
qed

lemma heldReport_none: "heldReport H cur watermark (m, k) \<Longrightarrow> H \<inter> {cur<..watermark} = {} \<Longrightarrow> k = 0"
  by (simp add: heldReport_def readSyncHeldCap_def)

lemma declareHeld_report:
  assumes "heldReport H cur watermark report" "watermark \<in> H \<or> H \<inter> {..watermark} = {}" "cur \<le> watermark"
    "declareHeld cur watermark report = (m, k)"
  shows "cur \<le> m \<and> m \<le> watermark \<and> 0 \<le> k \<and> k \<le> readSyncHeldCap \<and> (k < readSyncHeldCap \<longrightarrow> m = watermark)"
proof (cases rule: declareHeld_cases [of cur watermark report])
  case 1
  then show ?thesis using assms(3,4) by (simp add: readSyncHeldCap_def)
next
  case (2 m' k')
  then have r: "report = (m, k)" "0 < k" "cur < m" "m \<le> watermark" using assms(4) by auto
  moreover have "m \<in> H" using assms(1) r by (simp add: heldReport_def)
  then have "watermark \<in> H" using assms(2) r(4) by auto
  moreover have "k \<le> readSyncHeldCap" using assms(1) r(1) by (simp add: heldReport_def)
  ultimately show ?thesis using heldReport_below_cap [of H cur watermark m k] assms(1) by auto
qed

lemma markLoop_completes:
  assumes "holds env H watermark" "serves B env chat L" "\<forall>n. rd_write env n = good_write"
    "watermark \<in> H \<or> H \<inter> {..watermark} = {}" "0 < chat" "0 < watermark"
    "okStore w" "0 \<le> cur" "cur \<le> watermark" "ReadWatermark_of w chat \<le> watermark"
  shows "\<exists>response w'. markLoop B env chat watermark n cur w = (Inr response, w') \<and> rs_IsOK response
    \<and> ReadWatermark_of w' chat = watermark"
  using assms
proof (induction "nat (watermark - cur)" arbitrary: n cur w rule: less_induct)
  case less
  note p = less.prems
  obtain report where rp: "rd_held env n cur watermark readSyncHeldCap = Inr report" "heldReport H cur watermark report"
    using p(1,8,9) unfolding holds_def by blast
  obtain m k where d: "declareHeld cur watermark report = (m, k)" by force
  note dr = declareHeld_report [OF rp(2) p(4,9) d]
  have mpos: "0 < m" using dr p(6) d p(8) by (cases rule: declareHeld_cases [of cur watermark report]) auto
  define req where "req = readRequest chat cur (m, k)"
  obtain response where ex: "readExchange B env n req = Inr response" and rr: "readReply B L req response"
  proof -
    have "rq_ChatID req = chat \<and> 0 \<le> rq_Cur req \<and> rq_Cur req \<le> rq_Max req \<and> 0 < rq_Max req
        \<and> 0 \<le> rq_Count req \<and> rq_Count req \<le> readSyncHeldCap"
      using dr mpos p(8) by (simp add: req_def readRequest_def readSyncHeldCap_def)
    with p(2) that show thesis unfolding serves_def by blast
  qed
  obtain e w1 where cf: "confirmRead (rd_write env n) chat m response w = (e, w1)" by force
  note cs = confirmRead_spec [OF p(7,5) cf]
  have e: "e = None" using cs(3,4) p(3) mpos by blast
  have ok1: "okStore w1" using cs(1) by (simp add: onlyRead_def)
  have mark: "ReadWatermark_of w1 chat \<le> watermark" using cs(2) p(10) dr by (auto simp: max_def)
  have step: "markLoop B env chat watermark n cur w = (case continueAt B cur watermark (m, k) response of
      None \<Rightarrow> (Inr response, w1) | Some cur1 \<Rightarrow> markLoop B env chat watermark (n + 1) cur1 w1)"
    by (subst markLoop.simps) (simp add: rp(1) d ex [unfolded req_def] cf e)
  show ?case
  proof (cases "continueAt B cur watermark (m, k) response")
    case None
    have ok: "rs_IsOK response"
    proof (rule ccontr)
      assume "\<not> rs_IsOK response"
      then show False using rr None by (auto simp: readReply_def req_def readRequest_def continueAt_def split: if_splits)
    qed
    then have "m = watermark" using None dr by (auto simp: continueAt_def split: if_splits)
    then show ?thesis using None step ok cs(2) e p(10) by simp
  next
    case (Some cur1)
    have pr: "cur < cur1 \<and> cur1 \<le> watermark" by (rule continueAt_progress [of B cur watermark report response]) (simp add: d Some)
    have "nat (watermark - cur1) < nat (watermark - cur)" using pr by linarith
    from less.hyps [OF this p(1-6) ok1, of "n + 1"] pr p(8) mark step Some show ?thesis by simp
  qed
qed

text \<open>
  Reading a chat through a message completes. When the caller holds the message at the requested position (or holds none up
  to it), the server confirms every request whose count covers the interval's logs and returns logs of the
  interval otherwise, and the file system accepts the writes, the call succeeds and the chat's read watermark is the requested position,
  however many messages are missing or beyond the cap of 300.
\<close>

theorem MarkRead_completes:
  assumes "holds env H watermark" and "serves B env chat L" and "\<forall>n. rd_write env n = good_write"
    and "watermark \<in> H \<or> H \<inter> {..watermark} = {}" and "0 < chat" and "0 < watermark"
    and "\<exists>raw. Request_MarshalBSON B \<lparr>rq_ChatID = chat, rq_Cur = watermark - 1, rq_Max = watermark, rq_Count = 0\<rparr> = Inr raw"
    and "\<not> cl_closed c" and "okStore (cl_world c)" and "ReadWatermark_of (cl_world c) chat < watermark"
  shows "\<exists>response c'. MarkRead B env chat watermark c = (Inr response, c') \<and> rs_IsOK response
    \<and> ReadWatermark_of (cl_world c') chat = watermark"
  using markLoop_completes [OF assms(1-6,9) ReadWatermark_nonneg [OF assms(9,5)] less_imp_le less_imp_le, OF assms(10,10), of 0]
    assms(7,8,10)
  by (auto simp: MarkRead_def)

subsection \<open>Witnesses\<close>

text \<open>A server with one log at 50, which the caller does not hold.\<close>

definition sampleRead :: "doc mark_env" where
  "sampleRead = \<lparr>rd_held = (\<lambda>n after upTo limit. Inr (0, 0)), rd_session = (\<lambda>n. None),
     rd_reply = (\<lambda>n req. Inr (if rq_Cur req < 50 \<and> 50 \<le> rq_Max req \<and> rq_Count req = 0 then samplePage [50]
        else Doc [(''isOK'', VBool True)])), rd_write = (\<lambda>n. good_write)\<rparr>"

lemma sampleRead_holds: "holds sampleRead {} upTo"
  by (simp add: holds_def heldReport_def sampleRead_def readSyncHeldCap_def)

lemma sampleRead_serves: "serves docBson sampleRead 7 {50}"
proof -
  have "\<exists>r. readExchange docBson sampleRead n req = Inr r \<and> readReply docBson {50} req r"
    if q: "rq_ChatID req = 7" "0 \<le> rq_Cur req" "rq_Cur req \<le> rq_Max req" "0 < rq_Max req" "0 \<le> rq_Count req"
      "rq_Count req \<le> readSyncHeldCap" for n req
  proof (cases "rq_Cur req < 50 \<and> 50 \<le> rq_Max req \<and> rq_Count req = 0")
    case True
    obtain r where r: "syncmsg_ParseResponse docBson (samplePage [50]) = Inr r" "rs_ChatLogs r = [sampleLog 50]"
      using samplePage_parse [of "[50]"] by auto
    have nok: "\<not> rs_IsOK r" using r(1) by (auto simp: syncmsg_ParseResponse_def samplePage_def docArray_def split: sum.splits)
    have "{50} \<inter> {rq_Cur req<..rq_Max req} = {50}" using True by auto
    then have "readReply docBson {50} req r" using nok r(2) True by (simp add: readReply_def sampleLog_LogID)
    moreover have "readExchange docBson sampleRead n req = Inr r"
      using q r(1) True by (simp add: readExchange_def sampleRead_def ReadRequest_MarshalBSON_def marshal_def MaxPageSize_def)
    ultimately show ?thesis by blast
  next
    case False
    obtain r where r: "syncmsg_ParseResponse docBson (Doc [(''isOK'', VBool True)]) = Inr r" "rs_IsOK r"
      by (simp add: syncmsg_ParseResponse_def)
    have "int (card ({50} \<inter> {rq_Cur req<..rq_Max req})) \<le> rq_Count req"
      using False q(5) by (cases "rq_Cur req < 50 \<and> 50 \<le> rq_Max req") auto
    moreover have "readExchange docBson sampleRead n req = Inr r"
      using q r(1) False
      by (auto simp: readExchange_def sampleRead_def ReadRequest_MarshalBSON_def marshal_def MaxPageSize_def readSyncHeldCap_def)
    ultimately show ?thesis using r(2) by (auto simp: readReply_def)
  qed
  then show ?thesis by (simp add: serves_def)
qed

lemma sampleRead_start: "ReadWatermark_of (cl_world (sampleClient sampleWorld)) 7 = 0" "\<not> cl_closed (sampleClient sampleWorld)"
    "okStore (cl_world (sampleClient sampleWorld))"
  using ReadWatermark_ledger [OF sampleWorld_ok, of 7] sampleWorld_ok
  by (simp_all add: sampleClient_def) (simp add: storeData_def ledgerOf_def markAt_def entryOf_def sample_defs)

lemma sampleRead_request:
  "\<exists>raw. Request_MarshalBSON docBson \<lparr>rq_ChatID = 7, rq_Cur = 50 - 1, rq_Max = 50, rq_Count = 0\<rparr> = Inr raw"
  by (simp add: Request_MarshalBSON_def marshal_def MaxPageSize_def)

theorem MarkRead_completes_witness:
  "\<exists>response c'. MarkRead docBson sampleRead 7 50 (sampleClient sampleWorld) = (Inr response, c') \<and> rs_IsOK response
     \<and> ReadWatermark_of (cl_world c') 7 = 50"
  by (rule MarkRead_completes [OF sampleRead_holds sampleRead_serves _ _ _ _ sampleRead_request sampleRead_start(2,3)])
     (simp_all add: sampleRead_start, simp add: sampleRead_def)

theorem MarkRead_confirmed_witness:
  "\<exists>r c'. MarkRead docBson (sampleRead\<lparr>rd_session := \<lambda>n. Some ErrClientClosed\<rparr>) 7 50 (sampleClient sampleWorld) = (r, c')
     \<and> ReadWatermark_of (cl_world c') 7 = 0"
proof -
  let ?env = "sampleRead\<lparr>rd_session := \<lambda>n. Some ErrClientClosed\<rparr>" and ?c = "sampleClient sampleWorld"
  obtain r c' where m: "MarkRead docBson ?env 7 50 ?c = (r, c')" by force
  have "\<not> confirmed docBson ?env 7 k" for k by (simp add: confirmed_def readExchange_def)
  with MarkRead_confirmed [OF sampleRead_start(3) m] m sampleRead_start(1) show ?thesis by auto
qed

theorem MarkRead_terminates_witness:
  "sameAnswers 50 sampleRead (sampleRead\<lparr>rd_session := \<lambda>n. if n \<le> 50 then None else Some ErrClientClosed\<rparr>)
   \<and> MarkRead docBson sampleRead 7 50 (sampleClient sampleWorld)
     = MarkRead docBson (sampleRead\<lparr>rd_session := \<lambda>n. if n \<le> 50 then None else Some ErrClientClosed\<rparr>) 7 50 (sampleClient sampleWorld)"
proof -
  let ?env = "sampleRead\<lparr>rd_session := \<lambda>n. if n \<le> 50 then None else Some ErrClientClosed\<rparr>"
  have s: "sameAnswers 50 sampleRead ?env" by (simp add: sameAnswers_def) (simp add: sampleRead_def)
  then have "sameAnswers (nat (50 - ReadWatermark_of (cl_world (sampleClient sampleWorld)) 7)) sampleRead ?env"
    by (simp add: sampleRead_start)
  from MarkRead_terminates [OF this] s show ?thesis by simp
qed

end
