(* ===== verification/Bridge_Ids.thy ===== *)
theory Bridge_Ids
  imports Go_Prelude
begin

text \<open>
  \<open>src/internal/bridge/connector/ids.go\<close>: the identifiers under which chats, users and messages are known
  to the bridge framework, over the decimal formatting and parsing of \<open>strconv\<close>.
\<close>

subsection \<open>Decimal numbers\<close>

text \<open>
  \<open>strconv.FormatInt(n, 10)\<close> and \<open>strconv.ParseInt(s, 10, 64)\<close>: the value (0 for a
  syntax error, the nearest 64-bit value when out of range) and whether there was no error.
\<close>

definition digitChar :: "nat \<Rightarrow> char" where
  "digitChar d = char_of (48 + d)"

definition isDigit :: "char \<Rightarrow> bool" where
  "isDigit c \<longleftrightarrow> 48 \<le> (of_char c :: nat) \<and> (of_char c :: nat) \<le> 57"

fun formatNat :: "nat \<Rightarrow> string" where
  "formatNat n = (if n < 10 then [digitChar n] else formatNat (n div 10) @ [digitChar (n mod 10)])"

declare formatNat.simps [simp del]

definition FormatInt :: "int64 \<Rightarrow> string" where
  "FormatInt n = (if n < 0 then CHR ''-'' # formatNat (nat (- n)) else formatNat (nat n))"

definition digitsValue :: "string \<Rightarrow> nat" where
  "digitsValue s = foldl (\<lambda>n c. 10 * n + (of_char c - 48)) 0 s"

definition parseDigits :: "bool \<Rightarrow> string \<Rightarrow> int64 \<times> bool" where
  "parseDigits neg s =
     (if s = [] \<or> \<not> list_all isDigit s then (0, False)
      else
        (let n = int (digitsValue s)
         in if \<not> neg \<and> n \<ge> 2 ^ 63 then (2 ^ 63 - 1, False)
            else if neg \<and> n > 2 ^ 63 then (- (2 ^ 63), False)
            else (if neg then - n else n, True)))"

definition ParseInt :: "string \<Rightarrow> int64 \<times> bool" where
  "ParseInt s =
     (case s of
        [] \<Rightarrow> (0, False)
      | c # cs \<Rightarrow> if c = CHR ''+'' then parseDigits False cs else if c = CHR ''-'' then parseDigits True cs
                  else parseDigits False s)"

subsection \<open>Identifiers\<close>

definition parseID :: "string \<Rightarrow> int64 result" where
  "parseID value =
     (let (parsed, ok) = ParseInt value
      in if \<not> ok \<or> parsed \<le> 0 \<or> FormatInt parsed \<noteq> value then Inl errInvalidID else Inr parsed)"

definition parseChatID :: "string \<Rightarrow> int64 result" where
  "parseChatID portalID = parseID portalID"

record PortalKey =
  pk_ID :: string
  pk_Receiver :: string

definition makePortalKey :: "int64 \<Rightarrow> string \<Rightarrow> PortalKey" where
  "makePortalKey chatID login = \<lparr>pk_ID = FormatInt chatID, pk_Receiver = login\<rparr>"

definition makeUserID :: "int64 \<Rightarrow> string" where "makeUserID userID = FormatInt userID"

definition makeUserLoginID :: "int64 \<Rightarrow> string" where "makeUserLoginID userID = FormatInt userID"

definition parseUserID :: "string \<Rightarrow> int64 result" where "parseUserID value = parseID value"

definition makeMessageID :: "int64 \<Rightarrow> int64 \<Rightarrow> string" where
  "makeMessageID chatID logID = FormatInt chatID @ [CHR '':''] @ FormatInt logID"

text \<open>\<open>strings.Cut\<close> at the first colon.\<close>

definition cutColon :: "string \<Rightarrow> (string \<times> string) option" where
  "cutColon s =
     (case dropWhile (\<lambda>c. c \<noteq> CHR '':'') s of
        [] \<Rightarrow> None | _ # after \<Rightarrow> Some (takeWhile (\<lambda>c. c \<noteq> CHR '':'') s, after))"

definition parseMessageID :: "string \<Rightarrow> (int64 \<times> int64) result" where
  "parseMessageID messageID =
     (case cutColon messageID of
        None \<Rightarrow> Inl errInvalidID
      | Some (chatPart, logPart) \<Rightarrow>
          (case parseID chatPart of
             Inl e \<Rightarrow> Inl e
           | Inr chatID \<Rightarrow> (case parseID logPart of Inl e \<Rightarrow> Inl e | Inr logID \<Rightarrow> Inr (chatID, logID))))"

subsection \<open>Profile names\<close>

text \<open>
  The pattern \<open>^[A-Za-z0-9][A-Za-z0-9._-]{0,63}$\<close>. \<open>filepath.Join\<close> is \<open>clean\<close> (\<open>filepath.Clean\<close>) of
  the two parts with a separator between them.
\<close>

definition alphaNumeric :: "char \<Rightarrow> bool" where
  "alphaNumeric c \<longleftrightarrow> (let n = (of_char c :: nat) in 48 \<le> n \<and> n \<le> 57 \<or> 65 \<le> n \<and> n \<le> 90 \<or> 97 \<le> n \<and> n \<le> 122)"

definition profileNamePattern :: "string \<Rightarrow> bool" where
  "profileNamePattern name =
     (case name of
        [] \<Rightarrow> False
      | c # cs \<Rightarrow> alphaNumeric c \<and> length cs \<le> 63
          \<and> list_all (\<lambda>c. alphaNumeric c \<or> c = CHR ''.'' \<or> c = CHR ''_'' \<or> c = CHR ''-'') cs)"

definition profileStatePath :: "(string \<Rightarrow> string) \<Rightarrow> string \<Rightarrow> string \<Rightarrow> string result" where
  "profileStatePath clean profileDir name =
     (if profileDir = [] then Inl (Other ''profile directory is not configured'')
      else if \<not> profileNamePattern name then Inl (Other ''invalid profile name'')
      else Inr (clean (profileDir @ ''/'' @ name)))"

text \<open>An accepted name is one path component: it holds no separator and is neither \<open>.\<close> nor \<open>..\<close>.\<close>

lemma profileStatePath_confined:
  assumes "profileStatePath clean profileDir name = Inr path"
  shows "CHR ''/'' \<notin> set name \<and> name \<noteq> ''.'' \<and> name \<noteq> ''..'' \<and> path = clean (profileDir @ ''/'' @ name)"
proof -
  have p: "profileNamePattern name" "path = clean (profileDir @ ''/'' @ name)"
    using assms by (auto simp: profileStatePath_def split: if_splits)
  then show ?thesis by (auto simp: profileNamePattern_def alphaNumeric_def Let_def list_all_iff split: list.splits)
qed

subsection \<open>Identifiers round trip\<close>

lemma digitChar [simp]: "d < 10 \<Longrightarrow> (of_char (digitChar d) :: nat) = 48 + d"
  by (simp add: digitChar_def)

lemma isDigit_digitChar: "d < 10 \<Longrightarrow> isDigit (digitChar d)"
  by (simp add: isDigit_def)

lemma digitsValue_snoc: "digitsValue (s @ [c]) = 10 * digitsValue s + (of_char c - 48)"
  by (simp add: digitsValue_def)

lemma formatNat_spec: "digitsValue (formatNat n) = n \<and> list_all isDigit (formatNat n) \<and> formatNat n \<noteq> []"
proof (induction n rule: less_induct)
  case (less n)
  show ?case
  proof (cases "n < 10")
    case True
    then show ?thesis by (subst (1 2 3) formatNat.simps) (simp add: digitsValue_def isDigit_digitChar)
  next
    case False
    then have "n div 10 < n" by simp
    from less [OF this] False show ?thesis
      by (subst (1 2 3) formatNat.simps) (simp add: digitsValue_snoc isDigit_digitChar)
  qed
qed

lemma isDigit_not [simp]: "isDigit c \<Longrightarrow> c \<noteq> CHR ''+''" "isDigit c \<Longrightarrow> c \<noteq> CHR ''-''" "isDigit c \<Longrightarrow> c \<noteq> CHR '':''"
  by (auto simp: isDigit_def)

lemma ParseInt_FormatInt_all:
  assumes "- (2 ^ 63) \<le> n" "n < 2 ^ 63"
  shows "ParseInt (FormatInt n) = (n, True)"
proof (cases "0 \<le> n")
  case True
  have f: "digitsValue (formatNat (nat n)) = nat n" "list_all isDigit (formatNat (nat n))" "formatNat (nat n) \<noteq> []"
    using formatNat_spec [of "nat n"] by simp_all
  then obtain c cs where c: "formatNat (nat n) = c # cs" by (cases "formatNat (nat n)") auto
  have "isDigit c" using f(2) c by simp
  then have "c \<noteq> CHR ''+''" "c \<noteq> CHR ''-''" by simp_all
  then have "ParseInt (FormatInt n) = parseDigits False (formatNat (nat n))"
    using True c by (simp add: ParseInt_def FormatInt_def)
  with f assms True show ?thesis by (simp add: parseDigits_def)
next
  case False
  have f: "digitsValue (formatNat (nat (- n))) = nat (- n)" "list_all isDigit (formatNat (nat (- n)))" "formatNat (nat (- n)) \<noteq> []"
    using formatNat_spec [of "nat (- n)"] by simp_all
  have "ParseInt (FormatInt n) = parseDigits True (formatNat (nat (- n)))"
    using False by (simp add: ParseInt_def FormatInt_def)
  with f assms False show ?thesis by (simp add: parseDigits_def)
qed

lemma ParseInt_in64: "ParseInt s = (n, True) \<Longrightarrow> - (2 ^ 63) \<le> n \<and> n < 2 ^ 63"
  by (auto simp: ParseInt_def parseDigits_def Let_def split: list.splits if_splits)

lemma parseID_iff: "parseID v = Inr n \<longleftrightarrow> 0 < n \<and> n < 2 ^ 63 \<and> v = FormatInt n"
proof
  assume "parseID v = Inr n"
  then have "ParseInt v = (n, True)" "0 < n" "FormatInt n = v"
    by (auto simp: parseID_def Let_def split: prod.splits if_splits)
  with ParseInt_in64 show "0 < n \<and> n < 2 ^ 63 \<and> v = FormatInt n" by auto
next
  assume "0 < n \<and> n < 2 ^ 63 \<and> v = FormatInt n"
  then show "parseID v = Inr n" using ParseInt_FormatInt_all [of n] by (simp add: parseID_def)
qed

lemma FormatInt_no_colon: "0 < n \<Longrightarrow> \<forall>c\<in>set (FormatInt n). c \<noteq> CHR '':''"
  using formatNat_spec [of "nat n"] by (auto simp: FormatInt_def list_all_iff)

lemma cutColon_append:
  assumes "\<forall>c\<in>set a. c \<noteq> CHR '':''"
  shows "cutColon (a @ CHR '':'' # b) = Some (a, b)"
proof -
  have "dropWhile (\<lambda>c. c \<noteq> CHR '':'') (a @ CHR '':'' # b) = CHR '':'' # b"
    "takeWhile (\<lambda>c. c \<noteq> CHR '':'') (a @ CHR '':'' # b) = a"
    using assms by (simp_all add: dropWhile_append3 takeWhile_append2 dropWhile_append2)
  then show ?thesis by (simp add: cutColon_def)
qed

lemma cutColon_Some:
  assumes "cutColon s = Some (a, b)"
  shows "s = a @ CHR '':'' # b"
proof -
  obtain c where c: "dropWhile (\<lambda>c. c \<noteq> CHR '':'') s = c # b" "a = takeWhile (\<lambda>c. c \<noteq> CHR '':'') s"
    using assms by (auto simp: cutColon_def split: list.splits)
  have "c = CHR '':''" using hd_dropWhile [of "\<lambda>c. c \<noteq> CHR '':''" s] c(1) by force
  with c show ?thesis by (metis takeWhile_dropWhile_id)
qed

lemma parseMessageID_iff:
  "parseMessageID s = Inr (chat, l) \<longleftrightarrow>
     0 < chat \<and> chat < 2 ^ 63 \<and> 0 < l \<and> l < 2 ^ 63 \<and> s = makeMessageID chat l"
proof
  assume "parseMessageID s = Inr (chat, l)"
  then obtain a b where "cutColon s = Some (a, b)" "parseID a = Inr chat" "parseID b = Inr l"
    by (auto simp: parseMessageID_def split: option.splits sum.splits prod.splits)
  then show "0 < chat \<and> chat < 2 ^ 63 \<and> 0 < l \<and> l < 2 ^ 63 \<and> s = makeMessageID chat l"
    using cutColon_Some [of s a b] by (simp add: parseID_iff makeMessageID_def)
next
  assume a: "0 < chat \<and> chat < 2 ^ 63 \<and> 0 < l \<and> l < 2 ^ 63 \<and> s = makeMessageID chat l"
  then have "cutColon s = Some (FormatInt chat, FormatInt l)"
    using cutColon_append [OF FormatInt_no_colon, of chat "FormatInt l"] by (simp add: makeMessageID_def)
  moreover have "parseID (FormatInt chat) = Inr chat" "parseID (FormatInt l) = Inr l" using a by (simp_all only: parseID_iff)
  ultimately show "parseMessageID s = Inr (chat, l)" by (simp add: parseMessageID_def)
qed

text \<open>
  C37: Message identifiers. A string parses to a chat and a log exactly when it is the identifier the
  bridge makes of them, for positive 64-bit identities: so parsing inverts making, two messages never
  share an identifier, and no other spelling of the numbers (a sign, a leading zero, an out-of-range
  value) is accepted.
\<close>

theorem parseMessageID_exact:
  "parseMessageID s = Inr (chat, l) \<longleftrightarrow>
     0 < chat \<and> chat < 2 ^ 63 \<and> 0 < l \<and> l < 2 ^ 63 \<and> s = makeMessageID chat l"
  by (rule parseMessageID_iff)

end
