(* ===== verification/Read_Receipts.thy ===== *)
theory Read_Receipts
  imports Read_State Bridge_Ids
begin

text \<open>
  The bridge's read receipts, \<open>src/internal/bridge/connector/read_receipts.go\<close>, in both directions (a Kakao read notice
  to a Matrix receipt, a Matrix receipt to a Kakao acknowledgement through
  \<open>Client.MarkRead\<close>).

  The bridge database is a parameter: the record \<open>receipt_env\<close> holds the answers of the queries the
  code makes (\<open>store.go\<close>, \<open>kv.go\<close> are calls into it), of the event queue and of the
  connection. What a property needs of the queries is a named hypothesis. A timer is the token of
  the pending acknowledgement it was armed for, which is the pointer identity the source compares.
\<close>

subsection \<open>The database\<close>

record message_row =
  mr_ID :: string
  mr_Timestamp :: gotime
  mr_HasFakeMXID :: bool

record receipt_env =
  rr_lastMessagePart :: "string \<Rightarrow> message_row option result"
  rr_firstMessagePart :: "string \<Rightarrow> message_row option result"
  rr_lastNMessagesInPortal :: "int64 \<Rightarrow> nat \<Rightarrow> message_row list result"
  rr_lastRealMessageAtOrBefore :: "string \<Rightarrow> gotime \<Rightarrow> message_row option result"
  rr_messagesBetweenTime :: "int64 \<Rightarrow> gotime \<Rightarrow> gotime \<Rightarrow> message_row list result"
  rr_kvGetFails :: bool
  rr_kvPutFails :: bool
  rr_queue :: bool
  rr_access :: "int64 \<Rightarrow> go_error option"
  rr_connected :: bool

record receipt_state =
  rx_login :: string
  rx_kv :: "string \<rightharpoonup> string"
  rx_queued :: "(int64 \<times> int64 \<times> string) list"
  rx_acks :: "int64 \<rightharpoonup> int64 \<times> nat"
  rx_next :: nat
  rx_sent :: "(int64 \<times> int64) list"

subsection \<open>Kakao to Matrix\<close>

definition readReceiptTargetWindow :: nat where "readReceiptTargetWindow = 100"

definition memberReadWatermarkKey :: "string \<Rightarrow> int64 \<Rightarrow> int64 \<Rightarrow> string" where
  "memberReadWatermarkKey login chatID userID =
     ''kakao:read-watermark:'' @ login @ '':'' @ FormatInt chatID @ '':'' @ FormatInt userID"

definition memberReadWatermark :: "receipt_env \<Rightarrow> int64 \<Rightarrow> int64 \<Rightarrow> receipt_state \<Rightarrow> int64" where
  "memberReadWatermark env chatID userID s =
     (let raw = (if rr_kvGetFails env then [] else case rx_kv s (memberReadWatermarkKey (rx_login s) chatID userID) of
                   None \<Rightarrow> [] | Some v \<Rightarrow> v)
      in fst (ParseInt raw))"

definition setMemberReadWatermark :: "receipt_env \<Rightarrow> int64 \<Rightarrow> int64 \<Rightarrow> int64 \<Rightarrow> receipt_state \<Rightarrow> receipt_state" where
  "setMemberReadWatermark env chatID userID watermark s =
     (if rr_kvPutFails env then s
      else s\<lparr>rx_kv := (rx_kv s)(memberReadWatermarkKey (rx_login s) chatID userID \<mapsto> FormatInt watermark)\<rparr>)"

text \<open>The loop over the recent rows, with the best position and target so far.\<close>

fun bestTarget :: "int64 \<Rightarrow> int64 \<Rightarrow> message_row list \<Rightarrow> int64 \<times> string \<Rightarrow> int64 \<times> string" where
  "bestTarget chatID watermark [] best = best"
| "bestTarget chatID watermark (row # rows) best =
     bestTarget chatID watermark rows
       (case parseMessageID (mr_ID row) of
          Inl _ \<Rightarrow> best
        | Inr (rowChat, logID) \<Rightarrow>
            if rowChat \<noteq> chatID \<or> mr_HasFakeMXID row \<or> logID > watermark \<or> logID \<le> fst best then best
            else (logID, mr_ID row))"

definition readReceiptTarget :: "receipt_env \<Rightarrow> int64 \<Rightarrow> int64 \<Rightarrow> string result" where
  "readReceiptTarget env chatID watermark =
     (let exact = makeMessageID chatID watermark
      in case rr_lastMessagePart env exact of
           Inl e \<Rightarrow> Inl e
         | Inr row \<Rightarrow>
             if (\<exists>r\<in>set_option row. \<not> mr_HasFakeMXID r) then Inr exact
             else (case rr_lastNMessagesInPortal env chatID readReceiptTargetWindow of
                     Inl e \<Rightarrow> Inl e
                   | Inr recent \<Rightarrow> Inr (snd (bestTarget chatID watermark recent (0, [])))))"

definition handleReadState :: "receipt_env \<Rightarrow> int64 \<times> int64 \<times> int64 \<Rightarrow> receipt_state \<Rightarrow> bool \<times> receipt_state" where
  "handleReadState env notice s =
     (case notice of (chatID, userID, watermark) \<Rightarrow>
        if watermark \<le> memberReadWatermark env chatID userID s then (True, s)
        else
          (case readReceiptTarget env chatID watermark of
             Inl _ \<Rightarrow> (False, s)
           | Inr target \<Rightarrow>
               if target = [] then (True, s)
               else if \<not> rr_queue env then (False, s)
               else (True, setMemberReadWatermark env chatID userID watermark
                             (s\<lparr>rx_queued := rx_queued s @ [(chatID, userID, target)]\<rparr>))))"

text \<open>The watermarks of a CHATONROOM reply, as an association list without repeated members.\<close>

definition applyChatOnRoomWatermarks ::
    "receipt_env \<Rightarrow> int64 \<Rightarrow> (int64 \<times> int64) list \<Rightarrow> receipt_state \<Rightarrow> receipt_state" where
  "applyChatOnRoomWatermarks env chatID watermarks s =
     fold (\<lambda>member s. snd (handleReadState env (chatID, member, the (map_of watermarks member)) s))
       (sort (map fst watermarks)) s"

subsection \<open>Matrix to Kakao\<close>

text \<open>
  The held messages of a chat: the closure \<open>heldMessages\<close>. \<open>time.Unix(0, 0)\<close> is
  \<open>unixEpoch\<close>.
\<close>

fun heldLogs :: "int64 \<Rightarrow> int64 \<Rightarrow> int64 \<Rightarrow> message_row list \<Rightarrow> int64 list \<Rightarrow> int64 list" where
  "heldLogs chatID after upTo [] logs = logs"
| "heldLogs chatID after upTo (row # rows) logs =
     heldLogs chatID after upTo rows
       (case parseMessageID (mr_ID row) of
          Inl _ \<Rightarrow> logs
        | Inr (rowChat, logID) \<Rightarrow>
            if rowChat \<noteq> chatID \<or> logID \<le> after \<or> logID > upTo then logs
            else if logID \<in> set logs then logs else logs @ [logID])"

definition heldMessages :: "receipt_env \<Rightarrow> int64 \<Rightarrow> int64 \<Rightarrow> int64 \<Rightarrow> int64 \<Rightarrow> (int64 \<times> int64) result" where
  "heldMessages env chatID after upTo limit =
     (case rr_lastMessagePart env (makeMessageID chatID upTo) of
        Inl e \<Rightarrow> Inl e
      | Inr None \<Rightarrow> Inr (0, 0)
      | Inr (Some upper) \<Rightarrow>
          (case (if after > 0 then rr_firstMessagePart env (makeMessageID chatID after) else Inr None) of
             Inl e \<Rightarrow> Inl e
           | Inr lower \<Rightarrow>
               (let from = (case lower of None \<Rightarrow> unixEpoch | Some l \<Rightarrow> mr_Timestamp l - 1)
                in case rr_messagesBetweenTime env chatID from (mr_Timestamp upper) of
                     Inl e \<Rightarrow> Inl e
                   | Inr rows \<Rightarrow>
                       (let logs = heldLogs chatID after upTo rows []
                        in if logs = [] then Inr (0, 0)
                           else (let kept = take (nat (min (int (length logs)) limit)) (sort logs)
                                 in Inr (last kept, int (length kept)))))))"

definition scheduleReadAck :: "int64 \<Rightarrow> int64 \<Rightarrow> receipt_state \<Rightarrow> receipt_state" where
  "scheduleReadAck chatID logID s =
     (case rx_acks s chatID of
        Some (pending, token) \<Rightarrow> s\<lparr>rx_acks := (rx_acks s)(chatID \<mapsto> (max pending logID, token))\<rparr>
      | None \<Rightarrow> s\<lparr>rx_acks := (rx_acks s)(chatID \<mapsto> (logID, rx_next s)), rx_next := rx_next s + 1\<rparr>)"

definition sendReadAck :: "receipt_env \<Rightarrow> int64 \<Rightarrow> int64 \<Rightarrow> receipt_state \<Rightarrow> receipt_state" where
  "sendReadAck env chatID logID s =
     (if rr_connected env then s\<lparr>rx_sent := rx_sent s @ [(chatID, logID)]\<rparr> else s)"

definition flushReadAck :: "receipt_env \<Rightarrow> int64 \<Rightarrow> nat \<Rightarrow> receipt_state \<Rightarrow> receipt_state" where
  "flushReadAck env chatID token s =
     (case rx_acks s chatID of
        Some (logID, token') \<Rightarrow>
          if token' = token then sendReadAck env chatID logID (s\<lparr>rx_acks := (rx_acks s)(chatID := None)\<rparr>) else s
      | None \<Rightarrow> s)"

text \<open>The pending chats in ascending order are an argument, as the map cannot be listed.\<close>

definition flushReadAcks :: "receipt_env \<Rightarrow> int64 list \<Rightarrow> receipt_state \<Rightarrow> receipt_state" where
  "flushReadAcks env chats s =
     fold (\<lambda>chatID s'. case rx_acks s chatID of
         None \<Rightarrow> s' | Some (logID, _) \<Rightarrow> sendReadAck env chatID logID s') chats (s\<lparr>rx_acks := Map.empty\<rparr>)"

record matrix_receipt =
  mx_PortalID :: string
  mx_ExactMessage :: "message_row option"
  mx_ReadUpTo :: gotime

definition HandleMatrixReadReceipt ::
    "receipt_env \<Rightarrow> matrix_receipt option \<Rightarrow> receipt_state \<Rightarrow> go_error option \<times> receipt_state" where
  "HandleMatrixReadReceipt env receipt s =
     (case receipt of
        None \<Rightarrow> (None, s)
      | Some r \<Rightarrow>
          (case parseChatID (mx_PortalID r) of
             Inl _ \<Rightarrow> (None, s)
           | Inr chatID \<Rightarrow>
               (case rr_access env chatID of
                  Some e \<Rightarrow> (Some e, s)
                | None \<Rightarrow>
                    (let missing = (\<lambda>t. t = None \<or> (\<exists>row\<in>set_option t. mr_HasFakeMXID row))
                     in case (if missing (mx_ExactMessage r) \<and> mx_ReadUpTo r \<noteq> 0
                              then rr_lastRealMessageAtOrBefore env (mx_PortalID r) (mx_ReadUpTo r)
                              else Inr (mx_ExactMessage r)) of
                          Inl _ \<Rightarrow> (Some (Other ''connector: read receipt target lookup failed''), s)
                        | Inr target \<Rightarrow>
                            if missing target then (None, s)
                            else
                              (case parseMessageID (mr_ID (the target)) of
                                 Inl _ \<Rightarrow> (None, s)
                               | Inr (targetChat, logID) \<Rightarrow>
                                   if targetChat \<noteq> chatID then (None, s)
                                   else if \<not> rr_connected env then (Some (Other ''not logged in''), s)
                                   else (None, scheduleReadAck chatID logID s))))))"

subsection \<open>Held messages\<close>

definition rowLog :: "int64 \<Rightarrow> message_row \<Rightarrow> int64 option" where
  "rowLog chat row = (case parseMessageID (mr_ID row) of Inl _ \<Rightarrow> None | Inr (c, l) \<Rightarrow> if c = chat then Some l else None)"

definition heldSet :: "message_row set \<Rightarrow> int64 \<Rightarrow> int64 set" where
  "heldSet R chat = {l. \<exists>row\<in>R. rowLog chat row = Some l}"

text \<open>
  The database holds the rows \<open>R\<close> of a chat's portal: a lookup by identifier finds a row of
  it when there is one, the query by time returns the rows after the first time through the second,
  timestamps follow the order of the logs, and every row is later than 1970.
\<close>

definition lookupOk :: "(string \<Rightarrow> message_row option result) \<Rightarrow> int64 \<Rightarrow> message_row set \<Rightarrow> bool" where
  "lookupOk f chat R \<longleftrightarrow> (\<forall>l. case f (makeMessageID chat l) of
      Inl _ \<Rightarrow> False
    | Inr None \<Rightarrow> \<forall>row\<in>R. mr_ID row \<noteq> makeMessageID chat l
    | Inr (Some row) \<Rightarrow> row \<in> R \<and> mr_ID row = makeMessageID chat l)"

definition databaseOk :: "receipt_env \<Rightarrow> int64 \<Rightarrow> message_row set \<Rightarrow> bool" where
  "databaseOk env chat R \<longleftrightarrow> finite R \<and> lookupOk (rr_lastMessagePart env) chat R \<and> lookupOk (rr_firstMessagePart env) chat R
     \<and> (\<forall>lo hi. \<exists>rows. rr_messagesBetweenTime env chat lo hi = Inr rows \<and> set rows = {r\<in>R. lo < mr_Timestamp r \<and> mr_Timestamp r \<le> hi})
     \<and> (\<forall>r\<in>R. \<forall>r'\<in>R. \<forall>l l'. rowLog chat r = Some l \<and> rowLog chat r' = Some l' \<and> l \<le> l' \<longrightarrow> mr_Timestamp r \<le> mr_Timestamp r')
     \<and> (\<forall>r\<in>R. unixEpoch < mr_Timestamp r)"

lemma rowLog_iff: "0 < chat \<Longrightarrow> chat < 2 ^ 63 \<Longrightarrow> rowLog chat row = Some l \<longleftrightarrow> 0 < l \<and> l < 2 ^ 63 \<and> mr_ID row = makeMessageID chat l"
  using parseMessageID_iff [of "mr_ID row" chat l]
  by (auto simp: rowLog_def split: sum.splits prod.splits if_splits)

lemma heldLogs_spec:
  "distinct logs \<Longrightarrow> distinct (heldLogs chat after upTo rows logs)
    \<and> set (heldLogs chat after upTo rows logs) = set logs \<union> {l. \<exists>row\<in>set rows. rowLog chat row = Some l \<and> after < l \<and> l \<le> upTo}"
proof (induction rows arbitrary: logs)
  case (Cons row rows)
  show ?case
  proof (cases "\<exists>l. rowLog chat row = Some l \<and> after < l \<and> l \<le> upTo \<and> l \<notin> set logs")
    case True
    then obtain l where l: "rowLog chat row = Some l" "after < l" "l \<le> upTo" "l \<notin> set logs" by blast
    then have "heldLogs chat after upTo (row # rows) logs = heldLogs chat after upTo rows (logs @ [l])"
      by (auto simp: rowLog_def split: sum.splits prod.splits if_splits)
    with Cons.IH [of "logs @ [l]"] Cons.prems l show ?thesis by auto
  next
    case False
    then have "heldLogs chat after upTo (row # rows) logs = heldLogs chat after upTo rows logs"
      by (auto simp: rowLog_def split: sum.splits prod.splits if_splits)
    with Cons.IH [OF Cons.prems] False show ?thesis by auto
  qed
qed simp

lemma sorted_take_below:
  fixes S :: "int list"
  assumes "sorted S" "distinct S" "0 < k" "k \<le> length S"
  shows "{x \<in> set S. x \<le> last (take k S)} = set (take k S)"
proof -
  have last: "last (take k S) = S ! (k - 1)" using assms(3,4) by (subst last_conv_nth) (auto simp: min_def)
  have strict: "S ! i < S ! j" if "i < j" "j < length S" for i j
    using that List.sorted_nth_mono [OF assms(1), of i j] nth_eq_iff_index_eq [OF assms(2), of i j] by (simp add: order_less_le)
  show ?thesis
  proof
    show "{x \<in> set S. x \<le> last (take k S)} \<subseteq> set (take k S)"
    proof
      fix x assume "x \<in> {x \<in> set S. x \<le> last (take k S)}"
      then obtain i where i: "i < length S" "x = S ! i" "S ! i \<le> S ! (k - 1)" by (auto simp: in_set_conv_nth last)
      then have "i < k" using strict [of "k - 1" i] assms(3) by (metis Suc_pred' less_Suc_eq_le not_le)
      then show "x \<in> set (take k S)" using i by (auto simp: in_set_conv_nth)
    qed
    show "set (take k S) \<subseteq> {x \<in> set S. x \<le> last (take k S)}"
    proof
      fix x assume "x \<in> set (take k S)"
      then obtain i where i: "i < k" "i < length S" "x = S ! i" by (auto simp: in_set_conv_nth)
      then have "S ! i \<le> S ! (k - 1)" using assms(1,3,4) by (intro List.sorted_nth_mono) auto
      with i show "x \<in> {x \<in> set S. x \<le> last (take k S)}" by (simp add: last)
    qed
  qed
qed

lemma rows_in_interval:
  assumes db: "databaseOk env chat R" and chat: "0 < chat" "chat < 2 ^ 63"
    and upper: "upper \<in> R" "mr_ID upper = makeMessageID chat upTo" and pos: "0 < upTo" "upTo < 2 ^ 63"
    and lower: "lower = None \<or> (\<exists>r\<in>R. lower = Some r \<and> rowLog chat r = Some after)"
    and rows: "set rows = {r\<in>R. (case lower of None \<Rightarrow> unixEpoch | Some l \<Rightarrow> mr_Timestamp l - 1) < mr_Timestamp r \<and> mr_Timestamp r \<le> mr_Timestamp upper}"
  shows "{l. \<exists>row\<in>set rows. rowLog chat row = Some l \<and> after < l \<and> l \<le> upTo} = heldSet R chat \<inter> {after<..upTo}"
proof -
  have order: "mr_Timestamp r \<le> mr_Timestamp r'" if "r \<in> R" "r' \<in> R" "rowLog chat r = Some l" "rowLog chat r' = Some l'" "l \<le> l'" for r r' l l'
    using db that unfolding databaseOk_def by blast
  have epoch: "unixEpoch < mr_Timestamp r" if "r \<in> R" for r using db that unfolding databaseOk_def by blast
  have up: "rowLog chat upper = Some upTo" using rowLog_iff [OF chat] upper(2) pos by simp
  have "row \<in> set rows" if r: "row \<in> R" "rowLog chat row = Some l" "after < l" "l \<le> upTo" for row l
  proof -
    have "mr_Timestamp row \<le> mr_Timestamp upper" by (rule order [OF r(1) upper(1) r(2) up r(4)])
    moreover have "(case lower of None \<Rightarrow> unixEpoch | Some l \<Rightarrow> mr_Timestamp l - 1) < mr_Timestamp row"
      using lower
    proof
      assume "\<exists>x\<in>R. lower = Some x \<and> rowLog chat x = Some after"
      then obtain x where x: "x \<in> R" "lower = Some x" "rowLog chat x = Some after" by blast
      from order [OF x(1) r(1) x(3) r(2)] r(3) show ?thesis by (simp add: x(2))
    qed (simp add: epoch [OF r(1)])
    ultimately show ?thesis using r(1) rows by simp
  qed
  then show ?thesis using rows unfolding heldSet_def by auto
qed

lemma lookupOk_Inr:
  assumes "lookupOk f chat R"
  obtains (none) "f (makeMessageID chat l) = Inr None" "\<forall>row\<in>R. mr_ID row \<noteq> makeMessageID chat l"
  | (some) row where "f (makeMessageID chat l) = Inr (Some row)" "row \<in> R" "mr_ID row = makeMessageID chat l"
proof (cases "f (makeMessageID chat l)")
  case (Inl e)
  with assms [unfolded lookupOk_def, rule_format, of l] show thesis by simp
next
  case (Inr found)
  with assms [unfolded lookupOk_def, rule_format, of l] none some show thesis by (cases found) auto
qed

text \<open>The first held positions up to the cap, in ascending order.\<close>

lemma firstHeld_report:
  assumes "distinct logs" "set logs = H \<inter> {after<..upTo}" "logs \<noteq> []"
    "kept = take (nat (min (int (length logs)) readSyncHeldCap)) (sort logs)"
  shows "heldReport H after upTo (last kept, int (length kept))"
proof -
  define k where "k = nat (min (int (length logs)) readSyncHeldCap)"
  have cap: "readSyncHeldCap = 300" by (simp add: readSyncHeldCap_def)
  have k: "0 < k" "k \<le> length (sort logs)" "int k = min readSyncHeldCap (int (length logs))"
    using assms(3) by (auto simp: k_def cap min_def)
  have kept: "kept = take k (sort logs)" "length kept = k" using assms(4) k by (simp_all add: k_def [symmetric])
  have card: "card (H \<inter> {after<..upTo}) = length logs" using assms(1,2) distinct_card by metis
  have mem: "last kept \<in> H \<inter> {after<..upTo}"
    using last_in_set [of kept] kept k(1) set_take_subset [of k "sort logs"] assms(2) by fastforce
  have "H \<inter> {after<..last kept} = {x \<in> set (sort logs). x \<le> last (take k (sort logs))}"
    using mem assms(2) by (auto simp: kept(1) [symmetric])
  also have "\<dots> = set (take k (sort logs))"
    by (rule sorted_take_below) (use assms(1) k in auto)
  finally have "card (H \<inter> {after<..last kept}) = k"
    using assms(1) k(2) by (simp add: distinct_card min_def)
  with mem k card kept(2) show ?thesis by (simp add: heldReport_def)
qed

lemma heldMessages_report:
  assumes db: "databaseOk env chat R" and chat: "0 < chat" "chat < 2 ^ 63" and pos: "0 < upTo" "upTo < 2 ^ 63"
    and after: "0 \<le> after" "after \<le> upTo"
  shows "\<exists>report. heldMessages env chat after upTo readSyncHeldCap = Inr report
    \<and> heldReport (if upTo \<in> heldSet R chat then heldSet R chat else {}) after upTo report"
proof -
  have last: "lookupOk (rr_lastMessagePart env) chat R" and first: "lookupOk (rr_firstMessagePart env) chat R"
    using db unfolding databaseOk_def by blast+
  have held: "upTo \<in> heldSet R chat \<longleftrightarrow> (\<exists>row\<in>R. mr_ID row = makeMessageID chat upTo)"
    using pos by (simp add: heldSet_def rowLog_iff [OF chat])
  from last show ?thesis
  proof (cases rule: lookupOk_Inr [of _ _ _ upTo])
    case none
    then have "upTo \<notin> heldSet R chat" using held by auto
    with none show ?thesis by (simp add: heldMessages_def heldReport_def readSyncHeldCap_def)
  next
    case (some upper)
    obtain lower where low: "(if after > 0 then rr_firstMessagePart env (makeMessageID chat after) else Inr None) = Inr lower"
        "lower = None \<or> (\<exists>r\<in>R. lower = Some r \<and> rowLog chat r = Some after)"
    proof (cases "after > 0")
      case True
      from first show thesis
      proof (cases rule: lookupOk_Inr [of _ _ _ after])
        case none
        with that [of None] True show thesis by simp
      next
        case (some r)
        then have "rowLog chat r = Some after" using rowLog_iff [OF chat] True after pos by simp
        with that [of "Some r"] True some show thesis by simp
      qed
    qed (use that in simp)
    define lo where "lo = (case lower of None \<Rightarrow> unixEpoch | Some l \<Rightarrow> mr_Timestamp l - 1)"
    obtain rows where rows: "rr_messagesBetweenTime env chat lo (mr_Timestamp upper) = Inr rows"
        "set rows = {r\<in>R. lo < mr_Timestamp r \<and> mr_Timestamp r \<le> mr_Timestamp upper}"
      using db unfolding databaseOk_def by blast
    define logs where "logs = heldLogs chat after upTo rows []"
    have logs: "distinct logs" "set logs = heldSet R chat \<inter> {after<..upTo}"
      using heldLogs_spec [of "[]" chat after upTo rows]
        rows_in_interval [OF db chat some(2,3) pos low(2) rows(2) [unfolded lo_def]]
      by (simp_all add: logs_def)
    have eq: "heldMessages env chat after upTo readSyncHeldCap = (if logs = [] then Inr (0, 0)
        else (let kept = take (nat (min (int (length logs)) readSyncHeldCap)) (sort logs) in Inr (last kept, int (length kept))))"
      using some(1) low(1) rows(1) by (simp add: heldMessages_def lo_def [symmetric] logs_def Let_def)
    have in_held: "upTo \<in> heldSet R chat" using held some(2,3) by blast
    show ?thesis
    proof (cases "logs = []")
      case True
      then have "heldSet R chat \<inter> {after<..upTo} = {}" using logs(2) by simp
      with eq True in_held show ?thesis by (simp add: heldReport_def readSyncHeldCap_def)
    next
      case False
      from firstHeld_report [OF logs False refl] eq False in_held show ?thesis by (simp add: Let_def)
    qed
  qed
qed

subsection \<open>Reading through the bridge\<close>


text \<open>A bridge that holds the message at 50 of chat 7, and a server with that log alone.\<close>

definition sampleRow :: message_row where
  "sampleRow = \<lparr>mr_ID = makeMessageID 7 50, mr_Timestamp = unixEpoch + 1, mr_HasFakeMXID = False\<rparr>"

definition sampleDatabase :: receipt_env where
  "sampleDatabase =
     \<lparr>rr_lastMessagePart = (\<lambda>i. Inr (if i = makeMessageID 7 50 then Some sampleRow else None)),
      rr_firstMessagePart = (\<lambda>i. Inr (if i = makeMessageID 7 50 then Some sampleRow else None)),
      rr_lastNMessagesInPortal = (\<lambda>c n. Inr [sampleRow]),
      rr_lastRealMessageAtOrBefore = (\<lambda>c t. Inr (Some sampleRow)),
      rr_messagesBetweenTime = (\<lambda>c lo hi. Inr (if lo < unixEpoch + 1 \<and> unixEpoch + 1 \<le> hi then [sampleRow] else [])),
      rr_kvGetFails = False, rr_kvPutFails = False, rr_queue = True, rr_access = (\<lambda>c. None), rr_connected = True\<rparr>"

definition sampleAck :: "doc mark_env" where
  "sampleAck = sampleRead\<lparr>rd_held := \<lambda>n. heldMessages sampleDatabase 7\<rparr>"

lemma sampleDatabase_ok: "databaseOk sampleDatabase 7 {sampleRow}"
  by (auto simp: databaseOk_def lookupOk_def sampleDatabase_def sampleRow_def)

lemma sampleAck_serves: "serves docBson sampleAck 7 {50}"
proof -
  have "rd_session sampleAck = rd_session sampleRead" "rd_reply sampleAck = rd_reply sampleRead"
    by (simp_all add: sampleAck_def)
  then have "readExchange docBson sampleAck n req = readExchange docBson sampleRead n req" for n req
    by (simp add: readExchange_def cong: option.case_cong sum.case_cong)
  with sampleRead_serves show ?thesis by (simp only: serves_def)
qed


subsection \<open>Receipts only move forward\<close>

text \<open>The rows a receipt may name: real rows of the chat, not above the watermark.\<close>

definition eligible :: "int64 \<Rightarrow> int64 \<Rightarrow> message_row \<Rightarrow> int64 \<Rightarrow> bool" where
  "eligible chat watermark row l \<longleftrightarrow> rowLog chat row = Some l \<and> \<not> mr_HasFakeMXID row \<and> l \<le> watermark"

lemma bestTarget_Cons:
  "bestTarget chat watermark (row # rows) best =
     bestTarget chat watermark rows (if \<exists>l. eligible chat watermark row l \<and> fst best < l
       then (the (rowLog chat row), mr_ID row) else best)"
  by (auto simp: eligible_def rowLog_def not_le not_less split: sum.splits prod.splits)

lemma bestTarget_spec:
  assumes "bestTarget chat watermark rows best = (b, target)"
  shows "fst best \<le> b \<and> ((b, target) = best \<or> (\<exists>row\<in>set rows. eligible chat watermark row b \<and> target = mr_ID row))
    \<and> (\<forall>row\<in>set rows. \<forall>l. eligible chat watermark row l \<longrightarrow> l \<le> b)"
  using assms
proof (induction rows arbitrary: best)
  case (Cons row rows)
  show ?case
  proof (cases "\<exists>l. eligible chat watermark row l \<and> fst best < l")
    case True
    then obtain l where l: "eligible chat watermark row l" "fst best < l" by blast
    then have "the (rowLog chat row) = l" by (simp add: eligible_def)
    with True Cons.prems have "bestTarget chat watermark rows (l, mr_ID row) = (b, target)"
      by (simp only: bestTarget_Cons if_True)
    from Cons.IH [OF this] l show ?thesis by (auto simp: eligible_def)
  next
    case False
    with Cons.prems have "bestTarget chat watermark rows best = (b, target)" by (simp only: bestTarget_Cons if_False)
    from Cons.IH [OF this] False show ?thesis by force
  qed
qed auto



text \<open>
  A failed lookup counts as no recorded watermark: the notice is then handled as if it were the first,
  and an older watermark replaces the recorded one.
\<close>

lemma failed_lookup_moves_back:
  "memberReadWatermark sampleDatabase 7 1 (snd (handleReadState (sampleDatabase\<lparr>rr_kvGetFails := True\<rparr>) (7, 1, 50)
      \<lparr>rx_login = ''1'', rx_kv = [memberReadWatermarkKey ''1'' 7 1 \<mapsto> FormatInt 60], rx_queued = [], rx_acks = Map.empty,
       rx_next = 0, rx_sent = []\<rparr>)) = 50"
proof -
  have "makeMessageID 7 50 \<noteq> []" by (simp add: makeMessageID_def)
  then show ?thesis
    using ParseInt_FormatInt_all [of 50]
    by (simp add: handleReadState_def memberReadWatermark_def ParseInt_def [of "[]"] readReceiptTarget_def sampleDatabase_def
        sampleRow_def setMemberReadWatermark_def)
qed

subsection \<open>Acknowledgements\<close>

text \<open>
  The acknowledgements of one login, with the positions receipted so far: receipts, timers of any
  token (also stale ones), and flushes of everything pending.
\<close>

inductive acked :: "receipt_env \<Rightarrow> (int64 \<times> int64) list \<Rightarrow> receipt_state \<Rightarrow> bool" for env where
  start: "rx_acks s = Map.empty \<Longrightarrow> rx_sent s = [] \<Longrightarrow> acked env [] s"
| receipt: "acked env rs s \<Longrightarrow> acked env (rs @ [(c, l)]) (scheduleReadAck c l s)"
| timer: "acked env rs s \<Longrightarrow> acked env rs (flushReadAck env c token s)"
| disconnect: "acked env rs s \<Longrightarrow> sorted chats \<Longrightarrow> set chats = dom (rx_acks s) \<Longrightarrow> acked env rs (flushReadAcks env chats s)"

definition covers :: "receipt_state \<Rightarrow> int64 \<Rightarrow> int64 \<Rightarrow> bool" where
  "covers s c l \<longleftrightarrow> (\<exists>l'\<ge>l. (c, l') \<in> set (rx_sent s) \<or> (\<exists>t. rx_acks s c = Some (l', t)))"

definition named :: "(int64 \<times> int64) list \<Rightarrow> receipt_state \<Rightarrow> bool" where
  "named rs s \<longleftrightarrow> set (rx_sent s) \<subseteq> set rs \<and> (\<forall>c l t. rx_acks s c = Some (l, t) \<longrightarrow> (c, l) \<in> set rs)"

text \<open>Sending the pending acknowledgements of the listed chats.\<close>

lemma flushReadAcks_spec:
  assumes "rr_connected env" "set chats = dom (rx_acks s)"
  shows "rx_acks (flushReadAcks env chats s) = Map.empty"
    "(c, l) \<in> set (rx_sent (flushReadAcks env chats s)) \<longleftrightarrow> (c, l) \<in> set (rx_sent s) \<or> (\<exists>t. rx_acks s c = Some (l, t))"
proof -
  define f where "f = (\<lambda>c s'. case rx_acks s c of None \<Rightarrow> s' | Some (l, _) \<Rightarrow> sendReadAck env c l s')"
  have f1: "rx_acks (f c s') = rx_acks s'"
      "(d, l) \<in> set (rx_sent (f c s')) \<longleftrightarrow> (d, l) \<in> set (rx_sent s') \<or> d = c \<and> (\<exists>t. rx_acks s c = Some (l, t))" for c d l s'
    using assms(1) by (auto simp: f_def sendReadAck_def split: option.splits)
  have acks: "rx_acks (fold f cs s0) = rx_acks s0" for cs s0
    by (induction cs arbitrary: s0) (simp_all add: f1)
  have sent: "(d, l) \<in> set (rx_sent (fold f cs s0)) \<longleftrightarrow> (d, l) \<in> set (rx_sent s0) \<or> d \<in> set cs \<and> (\<exists>t. rx_acks s d = Some (l, t))" for d l cs s0
    by (induction cs arbitrary: s0) (auto simp: f1)
  have eq: "flushReadAcks env chats s = fold f chats (s\<lparr>rx_acks := Map.empty\<rparr>)" by (simp add: flushReadAcks_def f_def)
  show "rx_acks (flushReadAcks env chats s) = Map.empty" by (simp add: eq acks)
  show "(c, l) \<in> set (rx_sent (flushReadAcks env chats s)) \<longleftrightarrow> (c, l) \<in> set (rx_sent s) \<or> (\<exists>t. rx_acks s c = Some (l, t))"
    using assms(2) by (auto simp: eq sent)
qed

lemma scheduleReadAck_spec:
  obtains m t where "rx_acks (scheduleReadAck c l s) = (rx_acks s)(c \<mapsto> (m, t))" "rx_sent (scheduleReadAck c l s) = rx_sent s"
    "l \<le> m" "m = l \<or> rx_acks s c = Some (m, t)" "\<forall>m' t'. rx_acks s c = Some (m', t') \<longrightarrow> m' \<le> m"
proof (cases "rx_acks s c")
  case None
  with that [of l "rx_next s"] show thesis by (simp add: scheduleReadAck_def)
next
  case (Some p)
  obtain m t where "p = (m, t)" by (cases p)
  with Some that [of "max m l" t] show thesis by (auto simp: scheduleReadAck_def max_def split: if_splits)
qed

lemma flushReadAck_spec:
  assumes "rr_connected env"
  obtains (sent) m where "rx_acks s c = Some (m, token)" "rx_acks (flushReadAck env c token s) = (rx_acks s)(c := None)"
      "rx_sent (flushReadAck env c token s) = rx_sent s @ [(c, m)]"
  | (stale) "flushReadAck env c token s = s"
proof (cases "\<exists>m. rx_acks s c = Some (m, token)")
  case True
  then obtain m where "rx_acks s c = Some (m, token)" by blast
  with sent [of m] assms show thesis by (simp add: flushReadAck_def sendReadAck_def)
next
  case False
  with stale show thesis by (auto simp: flushReadAck_def split: option.splits)
qed

lemma acked_covers:
  assumes "rr_connected env"
  shows "acked env rs s \<Longrightarrow> (c, l) \<in> set rs \<Longrightarrow> covers s c l"
proof (induction arbitrary: c l rule: acked.induct)
  case (receipt rs s d k)
  obtain m t where a: "rx_acks (scheduleReadAck d k s) = (rx_acks s)(d \<mapsto> (m, t))" "rx_sent (scheduleReadAck d k s) = rx_sent s"
    "k \<le> m" "\<forall>m' t'. rx_acks s d = Some (m', t') \<longrightarrow> m' \<le> m"
    by (rule scheduleReadAck_spec)
  from receipt.prems consider "(c, l) = (d, k)" | "(c, l) \<in> set rs" by auto
  then show ?case
  proof cases
    case 1
    with a show ?thesis by (auto simp: covers_def)
  next
    case 2
    from receipt.IH [OF this] obtain l' where l': "l \<le> l'" "(c, l') \<in> set (rx_sent s) \<or> (\<exists>t. rx_acks s c = Some (l', t))"
      unfolding covers_def by blast
    show ?thesis
    proof (cases "c = d \<and> (c, l') \<notin> set (rx_sent s)")
      case True
      with l' a(4) have "l' \<le> m" by auto
      with l'(1) True a(1) show ?thesis unfolding covers_def by (intro exI [of _ m]) simp
    next
      case False
      with l' a(1,2) show ?thesis unfolding covers_def by (intro exI [of _ l']) auto
    qed
  qed
next
  case (timer rs s d token)
  from timer.IH [OF timer.prems] obtain l' where l': "l \<le> l'" "(c, l') \<in> set (rx_sent s) \<or> (\<exists>t. rx_acks s c = Some (l', t))"
    unfolding covers_def by blast
  from assms show ?case
  proof (cases rule: flushReadAck_spec [of env s d token])
    case (sent m)
    with l' show ?thesis unfolding covers_def by (intro exI [of _ l']) auto
  next
    case stale
    with l' show ?thesis unfolding covers_def by auto
  qed
next
  case (disconnect rs s chats)
  from disconnect.IH [OF disconnect.prems] show ?case
    unfolding covers_def flushReadAcks_spec(2) [OF assms disconnect.hyps(3)] by blast
qed simp

lemma acked_named:
  assumes "rr_connected env"
  shows "acked env rs s \<Longrightarrow> named rs s"
proof (induction rule: acked.induct)
  case (receipt rs s c l)
  obtain m t where a: "rx_acks (scheduleReadAck c l s) = (rx_acks s)(c \<mapsto> (m, t))" "rx_sent (scheduleReadAck c l s) = rx_sent s"
    "m = l \<or> rx_acks s c = Some (m, t)"
    by (rule scheduleReadAck_spec)
  with receipt.IH have "(c, m) \<in> set (rs @ [(c, l)])" by (auto simp: named_def)
  with receipt.IH a(1,2) show ?case by (auto simp: named_def split: if_splits)
next
  case (timer rs s c token)
  from assms show ?case
  proof (cases rule: flushReadAck_spec [of env s c token])
    case (sent m)
    with timer.IH have "(c, m) \<in> set rs" unfolding named_def by blast
    with sent timer.IH show ?thesis by (auto simp: named_def split: if_splits)
  next
    case stale
    with timer.IH show ?thesis by simp
  qed
next
  case (disconnect rs s chats)
  then show ?case
    using flushReadAcks_spec [OF assms disconnect.hyps(3)] by (auto simp: named_def)
qed (simp add: named_def)


definition idleReceipts :: receipt_state where
  "idleReceipts = \<lparr>rx_login = ''1'', rx_kv = Map.empty, rx_queued = [], rx_acks = Map.empty, rx_next = 0, rx_sent = []\<rparr>"


end
