(* ===== verification/History_Admission.thy ===== *)
theory History_Admission
  imports Sync_Wire Private_Json "HOL-Library.AList"
begin

text \<open>
  Admission of history requests: \<open>src/internal/client/history_admission.go\<close> and
  \<open>src/internal/client/history_account.go\<close>.

  Times are nanoseconds since Go's zero time, so the zero time is \<open>0\<close>. The scheduling records are files by path, the
  account gates are objects on a heap and the process-wide registry maps a path to the address of its
  gate, so that admissions of one account share it. What a \<open>select\<close> chose, what the clock read, what the file system and
  the lease answered are fields of the environment records, one per point of the source. Waiting
  callers of the same request share one flight; the flights themselves and the channels are not part of
  the state. Property: consecutive history requests of an account are
  spaced by the reserved cooldown, across crashes, restarts and processes.
\<close>

subsection \<open>Policy and state\<close>

record HistoryPacing =
  pc_StateDirectory :: string
  pc_MinimumInterval :: duration
  pc_ErrorBackoff :: duration
  pc_MaxPending :: int64
  pc_MaximumDuration :: duration

definition Second :: duration where "Second = 1000000000"
definition Hour :: duration where "Hour = 3600 * Second"

definition HistoryPacing_normalized :: "HistoryPacing \<Rightarrow> HistoryPacing result" where
  "HistoryPacing_normalized p0 =
     (let p1 = (if pc_MaximumDuration p0 = 0 then p0\<lparr>pc_MaximumDuration := 60 * Second\<rparr> else p0);
          p2 = (if pc_MaxPending p1 = 0 then p1\<lparr>pc_MaxPending := 32\<rparr> else p1);
          p3 = (if pc_MinimumInterval p2 = 0 then p2\<lparr>pc_MinimumInterval := 2 * Second\<rparr> else p2);
          p = (if pc_ErrorBackoff p3 = 0 then p3\<lparr>pc_ErrorBackoff := 30 * Second\<rparr> else p3)
      in if pc_MinimumInterval p < 0 \<or> pc_ErrorBackoff p < pc_MinimumInterval p \<or> pc_ErrorBackoff p > 24 * Hour
            \<or> pc_MaxPending p < 1 \<or> pc_MaxPending p > 4096
            \<or> pc_MaximumDuration p < 0 \<or> pc_MaximumDuration p > 24 * Hour
         then Inl ErrProtocol else Inr p)"

record historyAdmissionState =
  as_Version :: int64
  as_AccountID :: int64
  as_NextAllowed :: gotime
  as_LastFinishedAt :: gotime
  as_LastErrorAt :: gotime

record historyAdmission =
  ha_state :: historyAdmissionState
  ha_path :: string
  ha_policy :: HistoryPacing
  ha_failed :: "go_error option"
  ha_pending :: int64
  ha_shared :: "nat option"
  ha_stopped :: bool
  ha_released :: bool
  ha_joined :: bool

record historyAccountGate =
  ag_legacyFloor :: gotime
  ag_accountID :: int64
  ag_pending :: int64
  ag_refs :: int64
  ag_path :: string
  ag_policy :: HistoryPacing
  ag_failed :: "go_error option"

text \<open>The files, the gates on the heap, the registry \<open>historyAccounts\<close> and the next free address.\<close>

record accounts =
  wa_files :: "string \<Rightarrow> historyAdmissionState option"
  wa_heap :: "nat \<Rightarrow> historyAccountGate"
  wa_gates :: "(string \<times> nat) list"
  wa_next :: nat

definition updateGate :: "nat \<Rightarrow> (historyAccountGate \<Rightarrow> historyAccountGate) \<Rightarrow> accounts \<Rightarrow> accounts" where
  "updateGate g f W = W\<lparr>wa_heap := (wa_heap W)(g := f (wa_heap W g))\<rparr>"

definition maxHistoryTime :: "gotime \<Rightarrow> gotime \<Rightarrow> gotime" where
  "maxHistoryTime a b = (if b > a then b else a)"

text \<open>The three readings of the clock are the argument.\<close>

definition validHistoryAdmissionState :: "(nat \<Rightarrow> gotime) \<Rightarrow> historyAdmissionState \<Rightarrow> int64 \<Rightarrow> bool" where
  "validHistoryAdmissionState now state accountID \<longleftrightarrow>
     as_Version state = 1 \<and> as_AccountID state = accountID \<and> as_NextAllowed state \<noteq> 0
     \<and> \<not> as_NextAllowed state > now 0 + 24 * Hour \<and> \<not> as_LastFinishedAt state > now 1 + 24 * Hour
     \<and> \<not> as_LastErrorAt state > now 2 + 24 * Hour"

text \<open>\<open>privatejson.Read\<close> of a scheduling record: the error, or the content of the file.\<close>

definition readState :: "go_error option \<Rightarrow> string \<Rightarrow> accounts \<Rightarrow> historyAdmissionState option result" where
  "readState fault path W = (case fault of Some e \<Rightarrow> Inl e | None \<Rightarrow> Inr (wa_files W path))"

subsection \<open>Opening\<close>

record admission_env =
  oa_dir :: lstat
  oa_read :: "go_error option"
  oa_now :: "nat \<Rightarrow> gotime"

definition freshState :: "int64 \<Rightarrow> historyAdmissionState" where
  "freshState accountID = \<lparr>as_Version = 1, as_AccountID = accountID, as_NextAllowed = 0, as_LastFinishedAt = 0, as_LastErrorAt = 0\<rparr>"

definition openHistoryAdmission ::
    "admission_env \<Rightarrow> string \<Rightarrow> int64 \<Rightarrow> HistoryPacing \<Rightarrow> accounts \<Rightarrow> historyAdmission result" where
  "openHistoryAdmission env path accountID policy W =
     (case HistoryPacing_normalized policy of
        Inl _ \<Rightarrow> Inl ErrProtocol
      | Inr policy' \<Rightarrow>
          if accountID \<le> 0 then Inl ErrProtocol
          else
            let a = \<lparr>ha_state = freshState accountID, ha_path = path, ha_policy = policy', ha_failed = None, ha_pending = 0,
                     ha_shared = None, ha_stopped = False, ha_released = False, ha_joined = False\<rparr>
            in if path = [] then Inr a
               else (case ValidatePrivateDir (oa_dir env) of
                       Some e \<Rightarrow> Inl e
                     | None \<Rightarrow>
                         (case readState (oa_read env) path W of
                            Inl e \<Rightarrow> Inl e
                          | Inr None \<Rightarrow> Inr a
                          | Inr (Some state) \<Rightarrow>
                              if \<not> validHistoryAdmissionState (oa_now env) state accountID then Inl privatejson_ErrCorrupt
                              else Inr (a\<lparr>ha_state := state\<rparr>))))"

text \<open>\<open>filepath.Dir\<close>, \<open>filepath.Abs\<close> and the name of the shared record in a directory are answers.\<close>

record account_env =
  oc_own :: admission_env
  oc_profileDir :: string
  oc_abs :: "string \<Rightarrow> string option"
  oc_dir :: lstat
  oc_file :: "string \<Rightarrow> int64 \<Rightarrow> string"
  oc_read :: "go_error option"
  oc_now :: "nat \<Rightarrow> gotime"

definition otherRoot :: "accounts \<Rightarrow> int64 \<Rightarrow> string \<Rightarrow> bool" where
  "otherRoot W accountID path \<longleftrightarrow>
     (\<exists>(otherPath, g)\<in>set (wa_gates W). ag_accountID (wa_heap W g) = accountID \<and> otherPath \<noteq> path)"

definition joinGate :: "historyAdmission \<Rightarrow> int64 \<Rightarrow> string \<Rightarrow> accounts \<Rightarrow> nat \<times> accounts" where
  "joinGate a accountID path W =
     (let (g, W1) = (case map_of (wa_gates W) path of
            Some g \<Rightarrow> (g, W)
          | None \<Rightarrow> (wa_next W, W\<lparr>wa_heap := (wa_heap W)(wa_next W := \<lparr>ag_legacyFloor = 0, ag_accountID = accountID,
                ag_pending = 0, ag_refs = 0, ag_path = path, ag_policy = ha_policy a, ag_failed = None\<rparr>),
              wa_gates := AList.update path (wa_next W) (wa_gates W), wa_next := wa_next W + 1\<rparr>))
      in (g, updateGate g (\<lambda>gate. gate\<lparr>ag_refs := ag_refs gate + 1,
                ag_legacyFloor := maxHistoryTime (ag_legacyFloor gate) (as_NextAllowed (ha_state a))\<rparr>) W1))"

definition openAccountHistoryAdmission ::
    "account_env \<Rightarrow> string \<Rightarrow> int64 \<Rightarrow> HistoryPacing \<Rightarrow> accounts \<Rightarrow> historyAdmission result \<times> accounts" where
  "openAccountHistoryAdmission env profile accountID policy W =
     (case openHistoryAdmission (oc_own env) (profile @ ''.history-admission'') accountID policy W of
        Inl e \<Rightarrow> (Inl e, W)
      | Inr a0 \<Rightarrow>
          (case oc_abs env (if pc_StateDirectory policy = [] then oc_profileDir env else pc_StateDirectory policy) of
             None \<Rightarrow> (Inl ErrProtocol, W)
           | Some dir \<Rightarrow>
               (case ValidatePrivateDir (oc_dir env) of
                  Some e \<Rightarrow> (Inl e, W)
                | None \<Rightarrow>
                    let path = oc_file env dir accountID in
                    (case readState (oc_read env) path W of
                       Inl e \<Rightarrow> (Inl e, W)
                     | Inr found \<Rightarrow>
                         if (case found of None \<Rightarrow> False | Some state \<Rightarrow> \<not> validHistoryAdmissionState (oc_now env) state accountID)
                         then (Inl privatejson_ErrCorrupt, W)
                         else
                           let a = a0\<lparr>ha_policy := (ha_policy a0)\<lparr>pc_StateDirectory := dir\<rparr>\<rparr> in
                           if otherRoot W accountID path then (Inl (Other ''client: active account scheduler roots differ''), W)
                           else if (case map_of (wa_gates W) path of None \<Rightarrow> False | Some g \<Rightarrow> ag_policy (wa_heap W g) \<noteq> ha_policy a)
                           then (Inl (Other ''client: active account history policies differ''), W)
                           else let (g, W1) = joinGate a accountID path W in (Inr (a\<lparr>ha_shared := Some g\<rparr>), W1)))))"

subsection \<open>Demand and shutdown\<close>

definition releaseAccount :: "historyAdmission \<Rightarrow> accounts \<Rightarrow> historyAdmission \<times> accounts" where
  "releaseAccount a W =
     (if ha_released a then (a, W)
      else (a\<lparr>ha_released := True\<rparr>,
            case ha_shared a of
              None \<Rightarrow> W
            | Some g \<Rightarrow>
                let W1 = updateGate g (\<lambda>gate. gate\<lparr>ag_refs := ag_refs gate - 1\<rparr>) W in
                if ag_refs (wa_heap W1 g) = 0
                then W1\<lparr>wa_gates := AList.delete (ag_path (wa_heap W1 g)) (wa_gates W1)\<rparr> else W1))"

definition finishStopped :: "historyAdmission \<Rightarrow> accounts \<Rightarrow> historyAdmission \<times> accounts" where
  "finishStopped a W = (let (a1, W1) = releaseAccount a W in (a1\<lparr>ha_joined := True\<rparr>, W1))"

definition stop :: "historyAdmission \<Rightarrow> accounts \<Rightarrow> historyAdmission \<times> accounts" where
  "stop a W = (let a1 = a\<lparr>ha_stopped := True\<rparr> in if ha_pending a1 = 0 then finishStopped a1 W else (a1, W))"

definition reserveDemand :: "historyAdmission \<Rightarrow> accounts \<Rightarrow> go_error option \<times> historyAdmission \<times> accounts" where
  "reserveDemand a W =
     (if ha_stopped a then (Some ErrClientClosed, a, W)
      else if ha_pending a \<ge> pc_MaxPending (ha_policy a) then (Some ErrHistoryBusy, a, W)
      else (case ha_shared a of
              None \<Rightarrow> (None, a\<lparr>ha_pending := ha_pending a + 1\<rparr>, W)
            | Some g \<Rightarrow>
                if ag_pending (wa_heap W g) \<ge> pc_MaxPending (ha_policy a) then (Some ErrHistoryBusy, a, W)
                else (None, a\<lparr>ha_pending := ha_pending a + 1\<rparr>,
                      updateGate g (\<lambda>gate. gate\<lparr>ag_pending := ag_pending gate + 1\<rparr>) W)))"

definition finishDemand :: "historyAdmission \<Rightarrow> accounts \<Rightarrow> historyAdmission \<times> accounts" where
  "finishDemand a W =
     (let W1 = (case ha_shared a of None \<Rightarrow> W | Some g \<Rightarrow> updateGate g (\<lambda>gate. gate\<lparr>ag_pending := ag_pending gate - 1\<rparr>) W);
          a1 = a\<lparr>ha_pending := ha_pending a - 1\<rparr>
      in if ha_stopped a1 \<and> ha_pending a1 = 0 then finishStopped a1 W1 else (a1, W1))"

subsection \<open>Dispatch\<close>

text \<open>What a \<open>select\<close> over the caller's context, the stop context and the awaited event chose.\<close>

datatype choice = Ready | Cancelled go_error | Stopping

definition chosen :: "choice \<Rightarrow> go_error option" where
  "chosen c = (case c of Ready \<Rightarrow> None | Cancelled e \<Rightarrow> Some e | Stopping \<Rightarrow> Some ErrClientClosed)"

definition persist ::
    "write_env \<Rightarrow> gotime \<Rightarrow> historyAdmission \<Rightarrow> accounts \<Rightarrow> go_error option \<times> historyAdmission \<times> accounts" where
  "persist wenv next' a W =
     (let a1 = a\<lparr>ha_state := (ha_state a)\<lparr>as_NextAllowed := next'\<rparr>\<rparr>;
          path = (case ha_shared a of None \<Rightarrow> ha_path a | Some g \<Rightarrow> ag_path (wa_heap W g))
      in if path = [] then (None, a1, W)
         else
           let (err, file) = WriteAtomic wenv (ha_state a1) (wa_files W path);
               W1 = W\<lparr>wa_files := (wa_files W)(path := file)\<rparr>
           in case err of
                None \<Rightarrow> (None, a1, W1)
              | Some e \<Rightarrow> (Some e, a1\<lparr>ha_failed := Some e\<rparr>,
                  case ha_shared a of None \<Rightarrow> W1 | Some g \<Rightarrow> updateGate g (\<lambda>gate. gate\<lparr>ag_failed := Some e\<rparr>) W1))"

record acquire_env =
  aq_gate :: choice
  aq_dir :: lstat
  aq_lease :: "go_error option"
  aq_read :: "go_error option"
  aq_valid :: "nat \<Rightarrow> gotime"
  aq_entries :: "(string \<times> string) list option"
  aq_legacyRead :: "string \<Rightarrow> go_error option"
  aq_legacyNow :: "string \<Rightarrow> nat \<Rightarrow> gotime"
  aq_now :: gotime
  aq_write :: write_env
  aq_close :: "go_error option"

text \<open>The closure \<open>release\<close>: a lease that cannot be closed poisons the gate.\<close>

definition releaseLease :: "go_error option \<Rightarrow> nat option \<Rightarrow> accounts \<Rightarrow> accounts" where
  "releaseLease close shared W =
     (case (shared, close) of
        (Some g, Some e) \<Rightarrow> updateGate g (\<lambda>gate. gate\<lparr>ag_failed := Some e\<rparr>) W
      | _ \<Rightarrow> W)"

definition hasSuffix :: "string \<Rightarrow> string \<Rightarrow> bool" where
  "hasSuffix s suffix \<longleftrightarrow> length s \<ge> length suffix \<and> drop (length s - length suffix) s = suffix"

text \<open>The loop over the directory entries, a name and its joined path each, from the cooldown found so far.\<close>

fun importLegacy ::
    "acquire_env \<Rightarrow> int64 \<Rightarrow> (string \<times> string) list \<Rightarrow> gotime \<Rightarrow> accounts \<Rightarrow> go_error option \<times> gotime" where
  "importLegacy env accountID [] next' W = (None, next')"
| "importLegacy env accountID ((name, path) # entries) next' W =
     (if \<not> hasSuffix name ''.history-admission'' then importLegacy env accountID entries next' W
      else (case readState (aq_legacyRead env path) path W of
              Inl e \<Rightarrow> (Some e, next')
            | Inr None \<Rightarrow> importLegacy env accountID entries next' W
            | Inr (Some legacy) \<Rightarrow>
                if as_AccountID legacy \<noteq> accountID then importLegacy env accountID entries next' W
                else if \<not> validHistoryAdmissionState (aq_legacyNow env path) legacy accountID
                then (Some privatejson_ErrCorrupt, next')
                else importLegacy env accountID entries (maxHistoryTime next' (as_NextAllowed legacy)) W))"

text \<open>Under the lease, with the shared record read: the cooldowns are merged, and recorded when they moved.\<close>

definition reloadAccount ::
    "acquire_env \<Rightarrow> nat \<Rightarrow> historyAdmissionState option \<Rightarrow> historyAdmission \<Rightarrow> accounts
     \<Rightarrow> go_error option \<times> historyAdmission \<times> accounts" where
  "reloadAccount env g found a W =
     (let s0 = (case found of None \<Rightarrow> ha_state a | Some state \<Rightarrow> state);
          s1 = s0\<lparr>as_NextAllowed := maxHistoryTime (as_NextAllowed s0) (ag_legacyFloor (wa_heap W g))\<rparr>
      in case aq_entries env of
           None \<Rightarrow> (Some privatejson_ErrCorrupt, a\<lparr>ha_state := s1\<rparr>, W)
         | Some entries \<Rightarrow>
             if length entries > 4096 then (Some privatejson_ErrCorrupt, a\<lparr>ha_state := s1\<rparr>, W)
             else
               let (err, next') = importLegacy env (as_AccountID s1) entries (as_NextAllowed s1) W;
                   a2 = a\<lparr>ha_state := s1\<lparr>as_NextAllowed := next'\<rparr>\<rparr>
               in case err of
                    Some e \<Rightarrow> (Some e, a2, W)
                  | None \<Rightarrow>
                      if next' > aq_now env \<and> (case found of None \<Rightarrow> True | Some state \<Rightarrow> next' > as_NextAllowed state)
                      then persist (aq_write env) next' a2 W
                      else (None, a2, W))"

definition acquireAccount ::
    "acquire_env \<Rightarrow> historyAdmission \<Rightarrow> accounts \<Rightarrow> go_error option \<times> historyAdmission \<times> accounts" where
  "acquireAccount env a W =
     (case ha_shared a of
        None \<Rightarrow> (None, a, W)
      | Some g \<Rightarrow>
          let gate = wa_heap W g; release = releaseLease (aq_close env) (Some g) in
          (case chosen (aq_gate env) of
             Some e \<Rightarrow> (Some e, a, W)
           | None \<Rightarrow>
               (case ag_failed gate of
                  Some e \<Rightarrow> (Some e, a, W)
                | None \<Rightarrow>
                    (case ValidatePrivateDir (aq_dir env) of
                       Some e \<Rightarrow> (Some e, a, W)
                     | None \<Rightarrow>
                         (case aq_lease env of
                            Some e \<Rightarrow> (Some e, a, W)
                          | None \<Rightarrow>
                              (case readState (aq_read env) (ag_path gate) W of
                                 Inl e \<Rightarrow> (Some e, a, release W)
                               | Inr found \<Rightarrow>
                                   if (case found of None \<Rightarrow> False
                                       | Some state \<Rightarrow> \<not> validHistoryAdmissionState (aq_valid env) state (as_AccountID (ha_state a)))
                                   then (Some privatejson_ErrCorrupt, a, release W)
                                   else (case reloadAccount env g found a W of
                                           (Some e, a1, W1) \<Rightarrow> (Some e, a1, release W1)
                                         | (None, a1, W1) \<Rightarrow> (None, a1, W1))))))))"

text \<open>
  \<open>dh_reserved\<close> is the reading of the clock after the timer, for the time waited, and \<open>dh_settled\<close> the one after the
  fetch, for the time it was reserved at.
\<close>

record dispatch_env =
  dh_gate :: choice
  dh_acquire :: acquire_env
  dh_until :: gotime
  dh_wait :: choice
  dh_ctx :: "go_error option"
  dh_reserved :: "duration \<Rightarrow> gotime"
  dh_reserve :: write_env
  dh_settled :: "gotime \<Rightarrow> gotime"
  dh_settle :: write_env

definition allowedAt :: "historyAdmission \<Rightarrow> gotime" where
  "allowedAt a =
     (let s = ha_state a; p = ha_policy a;
          t1 = as_NextAllowed s;
          t2 = (if as_LastFinishedAt s \<noteq> 0 then maxHistoryTime t1 (as_LastFinishedAt s + pc_MinimumInterval p) else t1)
      in if as_LastErrorAt s \<noteq> 0 then maxHistoryTime t2 (as_LastErrorAt s + pc_ErrorBackoff p) else t2)"

text \<open>From the cooldown to the reservation.\<close>

definition reserveDispatch ::
    "dispatch_env \<Rightarrow> historyAdmission \<Rightarrow> accounts \<Rightarrow> go_error option \<times> historyAdmission \<times> accounts" where
  "reserveDispatch env a W =
     (case ha_failed a of
        Some e \<Rightarrow> (Some e, a, W)
      | None \<Rightarrow>
          let wait = allowedAt a - dh_until env in
          (case (if wait > 0 then chosen (dh_wait env) else None) of
             Some e \<Rightarrow> (Some e, a, W)
           | None \<Rightarrow>
               (case dh_ctx env of
                  Some e \<Rightarrow> (Some e, a, W)
                | None \<Rightarrow>
                    let now = dh_reserved env (if wait > 0 then wait else 0) in
                    persist (dh_reserve env) (now + pc_ErrorBackoff (ha_policy a))
                      (a\<lparr>ha_state := (ha_state a)\<lparr>as_LastErrorAt := now\<rparr>\<rparr>) W)))"

text \<open>The outcome of the fetch, its validation included, is recorded before it is returned.\<close>

definition settleDispatch ::
    "dispatch_env \<Rightarrow> 'x result \<Rightarrow> historyAdmission \<Rightarrow> accounts \<Rightarrow> 'x result \<times> historyAdmission \<times> accounts" where
  "settleDispatch env outcome a W =
     (let now = dh_settled env (as_LastErrorAt (ha_state a)) in
      case outcome of
        Inl e \<Rightarrow>
          (case persist (dh_settle env) (now + pc_ErrorBackoff (ha_policy a))
                  (a\<lparr>ha_state := (ha_state a)\<lparr>as_LastErrorAt := now\<rparr>\<rparr>) W of
             (None, a1, W1) \<Rightarrow> (Inl e, a1, W1)
           | (Some persistErr, a1, W1) \<Rightarrow> (Inl (Joined [e, persistErr]), a1, W1))
      | Inr response \<Rightarrow>
          (case persist (dh_settle env) (now + pc_MinimumInterval (ha_policy a))
                  (a\<lparr>ha_state := (ha_state a)\<lparr>as_LastErrorAt := 0, as_LastFinishedAt := now\<rparr>\<rparr>) W of
             (None, a1, W1) \<Rightarrow> (Inr response, a1, W1)
           | (Some e, a1, W1) \<Rightarrow> (Inl e, a1, W1)))"

definition fetched :: "'x result \<Rightarrow> ('x \<Rightarrow> go_error option) \<Rightarrow> 'x result" where
  "fetched fetch validate =
     (case fetch of Inl e \<Rightarrow> Inl e | Inr response \<Rightarrow> (case validate response of Some e \<Rightarrow> Inl e | None \<Rightarrow> Inr response))"

text \<open>Up to the fetch, which runs exactly when this ends without an error.\<close>

definition beginDispatch ::
    "dispatch_env \<Rightarrow> historyAdmission \<Rightarrow> accounts \<Rightarrow> go_error option \<times> historyAdmission \<times> accounts" where
  "beginDispatch env a W =
     (case chosen (dh_gate env) of
        Some e \<Rightarrow> (Some e, a, W)
      | None \<Rightarrow>
          (case acquireAccount (dh_acquire env) a W of
             (Some e, a1, W1) \<Rightarrow> (Some e, a1, W1)
           | (None, a1, W1) \<Rightarrow>
               (case reserveDispatch env a1 W1 of
                  (Some e, a2, W2) \<Rightarrow> (Some e, a2, releaseLease (aq_close (dh_acquire env)) (ha_shared a) W2)
                | (None, a2, W2) \<Rightarrow> (None, a2, W2))))"

definition dispatchHistory ::
    "dispatch_env \<Rightarrow> 'x result \<Rightarrow> ('x \<Rightarrow> go_error option) \<Rightarrow> historyAdmission \<Rightarrow> accounts
     \<Rightarrow> 'x result \<times> historyAdmission \<times> accounts" where
  "dispatchHistory env fetch validate a W =
     (case beginDispatch env a W of
        (Some e, a2, W2) \<Rightarrow> (Inl e, a2, W2)
      | (None, a2, W2) \<Rightarrow>
          (case settleDispatch env (fetched fetch validate) a2 W2 of
             (r, a3, W3) \<Rightarrow> (r, a3, releaseLease (aq_close (dh_acquire env)) (ha_shared a) W3)))"

text \<open>
  A caller: its context, and the flight of the same request it joins, if there is one: what its \<open>select\<close> chose and what the
  flight ended with.
\<close>

record 'x demand_env =
  dm_ctx :: "go_error option"
  dm_flight :: "(choice \<times> 'x result) option"
  dm_dispatch :: dispatch_env

definition admit ::
    "'x demand_env \<Rightarrow> ('x \<Rightarrow> 'x) \<Rightarrow> 'x result \<Rightarrow> ('x \<Rightarrow> go_error option) \<Rightarrow> historyAdmission \<Rightarrow> accounts
     \<Rightarrow> 'x result \<times> historyAdmission \<times> accounts" where
  "admit env copy fetch validate a W =
     (case dm_ctx env of
        Some e \<Rightarrow> (Inl e, a, W)
      | None \<Rightarrow>
          if ha_stopped a then (Inl ErrClientClosed, a, W)
          else
            (case reserveDemand a W of
               (Some e, a1, W1) \<Rightarrow> (Inl e, a1, W1)
             | (None, a1, W1) \<Rightarrow>
                 let (r, a2, W2) =
                       (case dm_flight env of
                          Some (choice, shared) \<Rightarrow>
                            (case chosen choice of
                               Some e \<Rightarrow> (Inl e, a1, W1)
                             | None \<Rightarrow> (case shared of Inl e \<Rightarrow> Inl e | Inr x \<Rightarrow> Inr (copy x), a1, W1))
                        | None \<Rightarrow> dispatchHistory (dm_dispatch env) fetch validate a1 W1);
                     (a3, W3) = finishDemand a2 W2
                 in (r, a3, W3)))"

definition cloneHistoryResponse :: "'r Response \<Rightarrow> 'r Response" where
  "cloneHistoryResponse r = \<lparr>rs_ChatLogs = rs_ChatLogs r, rs_MinLogID = rs_MinLogID r, rs_IsOK = False\<rparr>"

definition run_request ::
    "'r Response demand_env \<Rightarrow> ('r Response \<Rightarrow> go_error option) \<Rightarrow> 'r Response result \<Rightarrow> historyAdmission \<Rightarrow> accounts
     \<Rightarrow> 'r Response result \<times> historyAdmission \<times> accounts" where
  "run_request env decodes fetch a W = admit env cloneHistoryResponse fetch decodes a W"

definition exchange ::
    "'p demand_env \<Rightarrow> 'p result \<Rightarrow> historyAdmission \<Rightarrow> accounts \<Rightarrow> 'p result \<times> historyAdmission \<times> accounts" where
  "exchange env fetch a W = admit env (\<lambda>payload. payload) fetch (\<lambda>_. None) a W"

subsection \<open>The reservation\<close>

text \<open>The admission's state is that of an account gate: the record it works on is the gate's.\<close>

definition shares :: "historyAdmission \<Rightarrow> nat \<Rightarrow> string \<Rightarrow> accounts \<Rightarrow> bool" where
  "shares a g path W \<longleftrightarrow> ha_shared a = Some g \<and> ag_path (wa_heap W g) = path \<and> path \<noteq> []"

lemma updateGate_fields [simp]:
  "wa_files (updateGate g f W) = wa_files W" "wa_gates (updateGate g f W) = wa_gates W"
  "wa_heap (updateGate g f W) h = (if h = g then f (wa_heap W g) else wa_heap W h)"
  by (simp_all add: updateGate_def)

lemma releaseLease_files [simp]: "wa_files (releaseLease close shared W) = wa_files W"
  by (simp add: releaseLease_def split: option.split)

lemma releaseLease_path [simp]: "ag_path (wa_heap (releaseLease close shared W) g) = ag_path (wa_heap W g)"
  by (simp add: releaseLease_def split: option.split)

lemma persist_spec:
  assumes "shares a g path W" "persist wenv next' a W = (err, a1, W1)"
  shows "shares a1 g path W1" "ha_policy a1 = ha_policy a" "ha_state a1 = (ha_state a)\<lparr>as_NextAllowed := next'\<rparr>"
    "wa_files W1 path = wa_files W path \<or> wa_files W1 path = Some (ha_state a1)"
    "err = None \<Longrightarrow> wa_files W1 path = Some (ha_state a1)" "err = None \<Longrightarrow> ha_failed a1 = ha_failed a"
proof -
  obtain e content where wa: "WriteAtomic wenv ((ha_state a)\<lparr>as_NextAllowed := next'\<rparr>) (wa_files W path) = (e, content)" by force
  note r = assms(2) [unfolded persist_def Let_def] and sh = assms(1) [unfolded shares_def]
  show "shares a1 g path W1" "ha_policy a1 = ha_policy a" "ha_state a1 = (ha_state a)\<lparr>as_NextAllowed := next'\<rparr>"
    using r sh wa by (auto simp: shares_def split: option.splits)
  show "wa_files W1 path = wa_files W path \<or> wa_files W1 path = Some (ha_state a1)"
    using r sh wa WriteAtomic_disk [OF wa] by (auto split: option.splits)
  show "err = None \<Longrightarrow> wa_files W1 path = Some (ha_state a1)" "err = None \<Longrightarrow> ha_failed a1 = ha_failed a"
    using r sh wa WriteAtomic_ok_disk by (auto split: option.splits)
qed

lemma maxHistoryTime_max [simp]: "maxHistoryTime a b = max a b"
  by (simp add: maxHistoryTime_def)

lemma importLegacy_raises: "importLegacy env account entries next' W = (err, n) \<Longrightarrow> next' \<le> n"
proof (induction entries arbitrary: next')
  case (Cons entry entries)
  obtain name path where e: "entry = (name, path)" by force
  show ?case
    using Cons.prems Cons.IH [of next'] Cons.IH [of "max next' (as_NextAllowed (the (wa_files W path)))"]
    by (auto simp: e readState_def split: if_splits option.splits)
qed simp

text \<open>What the record on disk holds of an earlier one: the cooldown never moves back.\<close>

definition raisedFile :: "historyAdmissionState option \<Rightarrow> historyAdmissionState option \<Rightarrow> bool" where
  "raisedFile old new \<longleftrightarrow> (\<forall>st. old = Some st \<longrightarrow> (\<exists>st1. new = Some st1 \<and> as_NextAllowed st \<le> as_NextAllowed st1))"

lemma raisedFile_refl [simp]: "raisedFile f f"
  by (simp add: raisedFile_def)

lemma raisedFile_trans: "raisedFile a b \<Longrightarrow> raisedFile b c \<Longrightarrow> raisedFile a c"
  by (fastforce simp: raisedFile_def)

lemma persist_raises:
  assumes "shares a g path W" "persist wenv next' a W = (err, a1, W1)" "\<forall>st. wa_files W path = Some st \<longrightarrow> as_NextAllowed st \<le> next'"
  shows "raisedFile (wa_files W path) (wa_files W1 path)"
  using persist_spec(3,4) [OF assms(1,2)] assms(3) by (auto simp: raisedFile_def)

lemma reloadAccount_spec:
  assumes sh: "shares a g path W" and found: "wa_files W path = found" and q: "reloadAccount env g found a W = (err, a1, W1)"
  shows "raisedFile (wa_files W path) (wa_files W1 path) \<and> (err = None \<longrightarrow>
      shares a1 g path W1 \<and> ha_policy a1 = ha_policy a \<and> ha_failed a1 = ha_failed a
      \<and> (\<forall>st. wa_files W1 path = Some st \<longrightarrow> as_NextAllowed st \<le> as_NextAllowed (ha_state a1)))"
proof (cases "\<exists>entries. aq_entries env = Some entries \<and> length entries \<le> 4096")
  case False
  then have "err = Some privatejson_ErrCorrupt \<and> W1 = W"
    using q by (cases "aq_entries env") (auto simp: reloadAccount_def Let_def)
  then show ?thesis by simp
next
  case True
  then obtain entries where entries: "aq_entries env = Some entries" "\<not> length entries > 4096" by auto
  define s0 where "s0 = (case found of None \<Rightarrow> ha_state a | Some state \<Rightarrow> state)"
  define s1 where "s1 = s0\<lparr>as_NextAllowed := maxHistoryTime (as_NextAllowed s0) (ag_legacyFloor (wa_heap W g))\<rparr>"
  obtain err' next' where im: "importLegacy env (as_AccountID s1) entries (as_NextAllowed s1) W = (err', next')" by force
  define a2 where "a2 = a\<lparr>ha_state := s1\<lparr>as_NextAllowed := next'\<rparr>\<rparr>"
  have up: "\<forall>st. wa_files W path = Some st \<longrightarrow> as_NextAllowed st \<le> next'"
    using importLegacy_raises [OF im] by (auto simp: found s0_def s1_def)
  have sh2: "shares a2 g path W" using sh by (simp add: shares_def a2_def)
  obtain e3 a3 W3 where pe: "persist (aq_write env) next' a2 W = (e3, a3, W3)" by (metis prod_cases3)
  note ps = persist_spec [OF sh2 pe] and pr = persist_raises [OF sh2 pe up]
  note l = q [unfolded reloadAccount_def Let_def, folded s0_def, folded s1_def,
      unfolded entries(1) option.case if_not_P [OF entries(2)] im prod.case, folded a2_def, unfolded pe]
  have a2: "ha_policy a2 = ha_policy a" "ha_failed a2 = ha_failed a" "as_NextAllowed (ha_state a2) = next'" by (simp_all add: a2_def)
  consider "\<exists>e. err = Some e" "W1 = W" | "(err, a1, W1) = (e3, a3, W3)" | "err = None" "a1 = a2" "W1 = W"
    using l by (cases err') (auto split: if_splits)
  then show ?thesis
  proof cases
    case 2
    then show ?thesis using ps pr a2 by auto
  next
    case 3
    then show ?thesis using up sh2 a2 by auto
  qed auto
qed

lemma acquireAccount_spec:
  assumes sh: "shares a g path W" and q: "acquireAccount env a W = (err, a1, W1)"
  shows "raisedFile (wa_files W path) (wa_files W1 path) \<and> (err = None \<longrightarrow>
      shares a1 g path W1 \<and> ha_policy a1 = ha_policy a \<and> ha_failed a1 = ha_failed a
      \<and> (\<forall>st. wa_files W1 path = Some st \<longrightarrow> as_NextAllowed st \<le> as_NextAllowed (ha_state a1)))"
proof -
  have path: "ha_shared a = Some g" "ag_path (wa_heap W g) = path" using sh by (auto simp: shares_def)
  obtain e2 a2 W2 where re: "reloadAccount env g (wa_files W path) a W = (e2, a2, W2)" by (metis prod_cases3)
  note rs = reloadAccount_spec [OF sh HOL.refl re]
  have "(\<exists>e. err = Some e) \<and> wa_files W1 = wa_files W \<or> err = e2 \<and> a1 = a2 \<and> wa_files W1 = wa_files W2 \<and> (err = None \<longrightarrow> W1 = W2)"
    using q re by (auto simp: acquireAccount_def path Let_def readState_def split: option.splits if_splits dest: sym)
  then show ?thesis using rs by auto
qed

text \<open>
  The clock: a timer fires no earlier than its duration after the reading it was computed from, and the
  reading after the fetch is not before the one of the reservation.
\<close>

definition clockLaw :: "dispatch_env \<Rightarrow> bool" where
  "clockLaw env \<longleftrightarrow> (\<forall>d\<ge>0. dh_until env + d \<le> dh_reserved env d) \<and> (\<forall>t. t \<le> dh_settled env t)"

definition goodPolicy :: "HistoryPacing \<Rightarrow> bool" where
  "goodPolicy p \<longleftrightarrow> 0 \<le> pc_MinimumInterval p \<and> pc_MinimumInterval p \<le> pc_ErrorBackoff p
     \<and> 1 \<le> pc_MaxPending p \<and> pc_MaxPending p \<le> 4096"

lemma normalized_goodPolicy: "HistoryPacing_normalized p = Inr p' \<Longrightarrow> goodPolicy p'"
  by (auto simp: HistoryPacing_normalized_def Let_def goodPolicy_def split: if_splits)

lemma allowedAt_ge: "as_NextAllowed (ha_state a) \<le> allowedAt a"
  by (simp add: allowedAt_def Let_def le_max_iff_disj)

text \<open>The state a reservation leaves: it is on disk, and its cooldown starts at the reservation.\<close>

definition reservedState :: "historyAdmission \<Rightarrow> historyAdmissionState option \<Rightarrow> bool" where
  "reservedState a content \<longleftrightarrow> content = Some (ha_state a)
     \<and> as_NextAllowed (ha_state a) = as_LastErrorAt (ha_state a) + pc_ErrorBackoff (ha_policy a)"

lemma reserveDispatch_spec:
  assumes sh: "shares a g path W" and law: "clockLaw env" and pol: "goodPolicy (ha_policy a)"
    and next': "\<forall>st. wa_files W path = Some st \<longrightarrow> as_NextAllowed st \<le> as_NextAllowed (ha_state a)"
    and q: "reserveDispatch env a W = (err, a1, W1)"
  shows "raisedFile (wa_files W path) (wa_files W1 path) \<and> (err = None \<longrightarrow>
      shares a1 g path W1 \<and> ha_policy a1 = ha_policy a \<and> reservedState a1 (wa_files W1 path)
      \<and> allowedAt a \<le> as_LastErrorAt (ha_state a1))"
proof -
  define wait where "wait = allowedAt a - dh_until env"
  define now where "now = dh_reserved env (if wait > 0 then wait else 0)"
  define a0 where "a0 = a\<lparr>ha_state := (ha_state a)\<lparr>as_LastErrorAt := now\<rparr>\<rparr>"
  obtain e2 a2 W2 where pe: "persist (dh_reserve env) (now + pc_ErrorBackoff (ha_policy a)) a0 W = (e2, a2, W2)" by (metis prod_cases3)
  have sh0: "shares a0 g path W" using sh by (simp add: shares_def a0_def)
  have "dh_until env + (if wait > 0 then wait else 0) \<le> now" using law unfolding clockLaw_def now_def by simp
  then have now: "allowedAt a \<le> now" by (simp add: wait_def split: if_splits)
  have up: "\<forall>st. wa_files W path = Some st \<longrightarrow> as_NextAllowed st \<le> now + pc_ErrorBackoff (ha_policy a)"
    using next' now allowedAt_ge [of a] pol by (fastforce simp: goodPolicy_def)
  note ps = persist_spec [OF sh0 pe] and pr = persist_raises [OF sh0 pe up]
  have "(\<exists>e. err = Some e) \<and> W1 = W \<or> (err, a1, W1) = (e2, a2, W2)"
    using q pe unfolding reserveDispatch_def Let_def wait_def [symmetric] now_def [symmetric] a0_def [symmetric]
    by (auto split: option.splits if_splits)
  then show ?thesis using ps pr now by (auto simp: reservedState_def a0_def)
qed

lemma beginDispatch_spec:
  assumes sh: "shares a g path W" and law: "clockLaw env" and pol: "goodPolicy (ha_policy a)"
    and q: "beginDispatch env a W = (err, a1, W1)"
  shows "raisedFile (wa_files W path) (wa_files W1 path) \<and> (err = None \<longrightarrow>
      shares a1 g path W1 \<and> ha_policy a1 = ha_policy a \<and> reservedState a1 (wa_files W1 path)
      \<and> (\<forall>st. wa_files W path = Some st \<longrightarrow> as_NextAllowed st \<le> as_LastErrorAt (ha_state a1)))"
proof -
  obtain e2 a2 W2 where aq: "acquireAccount (dh_acquire env) a W = (e2, a2, W2)" by (metis prod_cases3)
  note as = acquireAccount_spec [OF sh aq]
  obtain e3 a3 W3 where re: "reserveDispatch env a2 W2 = (e3, a3, W3)" by (metis prod_cases3)
  show ?thesis
  proof (cases "chosen (dh_gate env) \<noteq> None \<or> e2 \<noteq> None")
    case True
    then have "err \<noteq> None \<and> (W1 = W \<or> W1 = W2)"
      using q aq by (cases "chosen (dh_gate env)"; cases e2) (auto simp: beginDispatch_def dest: sym)
    then show ?thesis using as by auto
  next
    case False
    then have a2: "shares a2 g path W2" "ha_policy a2 = ha_policy a"
        "\<forall>st. wa_files W2 path = Some st \<longrightarrow> as_NextAllowed st \<le> as_NextAllowed (ha_state a2)" using as by auto
    note rs = reserveDispatch_spec [OF a2(1) law _ a2(3) re, unfolded a2(2), OF pol]
    have r: "err = e3 \<and> wa_files W1 = wa_files W3 \<and> (err = None \<longrightarrow> a1 = a3 \<and> W1 = W3)"
      using q aq re False by (cases e3) (auto simp: beginDispatch_def)
    have mono: "as_NextAllowed st \<le> allowedAt a2" if "wa_files W path = Some st" for st
      using as that a2(3) allowedAt_ge [of a2] by (fastforce simp: raisedFile_def)
    show ?thesis using r rs as mono raisedFile_trans by (metis order_trans)
  qed
qed

lemma settleDispatch_spec:
  assumes sh: "shares a g path W" and law: "clockLaw env" and pol: "goodPolicy (ha_policy a)"
    and res: "reservedState a (wa_files W path)" and q: "settleDispatch env outcome a W = (r, a1, W1)"
  shows "\<exists>st. wa_files W1 path = Some st \<and> as_LastErrorAt (ha_state a) +
      (case outcome of Inr _ \<Rightarrow> pc_MinimumInterval (ha_policy a) | Inl _ \<Rightarrow> pc_ErrorBackoff (ha_policy a)) \<le> as_NextAllowed st"
proof -
  define now where "now = dh_settled env (as_LastErrorAt (ha_state a))"
  have now: "as_LastErrorAt (ha_state a) \<le> now" using law by (simp add: clockLaw_def now_def)
  obtain s next' where s: "next' = now + (case outcome of Inr _ \<Rightarrow> pc_MinimumInterval (ha_policy a) | Inl _ \<Rightarrow> pc_ErrorBackoff (ha_policy a))"
    and pe: "\<exists>e. persist (dh_settle env) next' (a\<lparr>ha_state := s\<rparr>) W = (e, a1, W1)"
    using q by (cases outcome) (auto simp: settleDispatch_def Let_def now_def [symmetric] split: option.splits prod.splits)
  have "shares (a\<lparr>ha_state := s\<rparr>) g path W" using sh by (simp add: shares_def)
  with pe persist_spec(3,4) have "wa_files W1 path = wa_files W path \<or> (\<exists>st. wa_files W1 path = Some st \<and> as_NextAllowed st = next')"
    by fastforce
  then show ?thesis
    using res now s pol by (cases outcome) (auto simp: reservedState_def goodPolicy_def)
qed

subsection \<open>Spacing of the requests of an account\<close>

text \<open>A request that reached the server: when it was reserved, under which policy, and what its fetch ended with, if it ended.\<close>

record 'x request =
  qt_at :: gotime
  qt_policy :: HistoryPacing
  qt_outcome :: "'x result option"

definition cooldown :: "'x request \<Rightarrow> gotime" where
  "cooldown q = qt_at q + (case qt_outcome q of
     Some (Inr _) \<Rightarrow> pc_MinimumInterval (qt_policy q) | _ \<Rightarrow> pc_ErrorBackoff (qt_policy q))"

text \<open>
  The requests sent under one shared record, in order. Between them the process may stop, restart or be another one: a
  step starts from any admission object and any registry, and keeps only the file. A request
  may be lost after its reservation, with the process.
\<close>

inductive requests :: "string \<Rightarrow> 'x request list \<Rightarrow> historyAdmissionState option \<Rightarrow> bool" for path where
  first: "requests path [] content"
| refused: "requests path qs (wa_files W path) \<Longrightarrow> shares a g path W \<Longrightarrow> clockLaw env \<Longrightarrow> goodPolicy (ha_policy a)
    \<Longrightarrow> beginDispatch env a W = (Some e, a1, W1) \<Longrightarrow> requests path qs (wa_files W1 path)"
| lost: "requests path qs (wa_files W path) \<Longrightarrow> shares a g path W \<Longrightarrow> clockLaw env \<Longrightarrow> goodPolicy (ha_policy a)
    \<Longrightarrow> beginDispatch env a W = (None, a1, W1)
    \<Longrightarrow> requests path (qs @ [\<lparr>qt_at = as_LastErrorAt (ha_state a1), qt_policy = ha_policy a, qt_outcome = None\<rparr>]) (wa_files W1 path)"
| answered: "requests path qs (wa_files W path) \<Longrightarrow> shares a g path W \<Longrightarrow> clockLaw env \<Longrightarrow> goodPolicy (ha_policy a)
    \<Longrightarrow> beginDispatch env a W = (None, a1, W1) \<Longrightarrow> dispatchHistory env fetch validate a W = (r, a2, W2)
    \<Longrightarrow> requests path (qs @ [\<lparr>qt_at = as_LastErrorAt (ha_state a1), qt_policy = ha_policy a,
          qt_outcome = Some (fetched fetch validate)\<rparr>]) (wa_files W2 path)"

definition spaced :: "'x request list \<Rightarrow> bool" where
  "spaced qs \<longleftrightarrow> (\<forall>i. Suc i < length qs \<longrightarrow> cooldown (qs ! i) \<le> qt_at (qs ! Suc i))"

lemma spaced_snoc: "spaced (qs @ [q]) \<longleftrightarrow> spaced qs \<and> (qs \<noteq> [] \<longrightarrow> cooldown (last qs) \<le> qt_at q)"
proof (induction qs rule: rev_induct)
  case (snoc x xs)
  show ?case
    by (auto simp: spaced_def nth_append less_Suc_eq last_conv_nth)
qed (simp add: spaced_def)

definition cooling :: "'x request list \<Rightarrow> historyAdmissionState option \<Rightarrow> bool" where
  "cooling qs content \<longleftrightarrow> (qs \<noteq> [] \<longrightarrow> (\<exists>st. content = Some st \<and> cooldown (last qs) \<le> as_NextAllowed st))"

lemma cooling_raised: "cooling qs c \<Longrightarrow> raisedFile c c' \<Longrightarrow> cooling qs c'"
  by (fastforce simp: cooling_def raisedFile_def)

lemma cooling_next:
  assumes "cooling qs content" "\<forall>st. content = Some st \<longrightarrow> as_NextAllowed st \<le> t"
  shows "qs \<noteq> [] \<longrightarrow> cooldown (last qs) \<le> t"
  using assms by (auto simp: cooling_def)

lemma requests_spaced: "requests path qs content \<Longrightarrow> spaced qs \<and> cooling qs content"
proof (induction rule: requests.induct)
  case (refused qs W a g env e a1 W1)
  then show ?case using beginDispatch_spec [of a g path W env] cooling_raised by blast
next
  case (lost qs W a g env a1 W1)
  note b = beginDispatch_spec [OF lost(2-5)]
  note n = cooling_next [OF lost.IH [THEN conjunct2], of "as_LastErrorAt (ha_state a1)"]
  show ?case using lost.IH b n by (auto simp: spaced_snoc cooling_def reservedState_def cooldown_def)
next
  case (answered qs W a g env a1 W1 fetch validate r a2 W2)
  note b = beginDispatch_spec [OF answered(2-5)]
  note n = cooling_next [OF answered.IH [THEN conjunct2], of "as_LastErrorAt (ha_state a1)"]
  have a1: "shares a1 g path W1" "goodPolicy (ha_policy a1)" "ha_policy a1 = ha_policy a" "reservedState a1 (wa_files W1 path)"
    using b answered(4) by auto
  obtain r3 a3 W3 where st: "settleDispatch env (fetched fetch validate) a1 W1 = (r3, a3, W3)" by (metis prod_cases3)
  have w: "wa_files W2 = wa_files W3" using answered(6,5) st by (auto simp: dispatchHistory_def)
  note s = settleDispatch_spec [OF a1(1) answered(3) a1(2,4) st, unfolded a1(3)]
  show ?case using answered.IH b n s w by (auto simp: spaced_snoc cooling_def cooldown_def split: sum.splits)
qed (simp add: spaced_def cooling_def)

lemma requests_policy: "requests path qs content \<Longrightarrow> \<forall>q\<in>set qs. goodPolicy (qt_policy q)"
  by (induction rule: requests.induct) auto


definition samplePacing :: HistoryPacing where
  "samplePacing = \<lparr>pc_StateDirectory = ''/s'', pc_MinimumInterval = 2, pc_ErrorBackoff = 30, pc_MaxPending = 4, pc_MaximumDuration = 60\<rparr>"

definition sampleAdmission :: historyAdmission where
  "sampleAdmission = \<lparr>ha_state = freshState 9, ha_path = ''/p/a.history-admission'', ha_policy = samplePacing, ha_failed = None,
     ha_pending = 0, ha_shared = Some 0, ha_stopped = False, ha_released = False, ha_joined = False\<rparr>"

definition sampleAccounts :: "historyAdmissionState option \<Rightarrow> accounts" where
  "sampleAccounts content = \<lparr>wa_files = (\<lambda>_. None)(''/s/x'' := content), wa_heap = (\<lambda>_. \<lparr>ag_legacyFloor = 0, ag_accountID = 9,
      ag_pending = 0, ag_refs = 1, ag_path = ''/s/x'', ag_policy = samplePacing, ag_failed = None\<rparr>),
     wa_gates = [(''/s/x'', 0)], wa_next = 1\<rparr>"

definition sampleDispatch :: "gotime \<Rightarrow> dispatch_env" where
  "sampleDispatch now = \<lparr>dh_gate = Ready, dh_acquire = \<lparr>aq_gate = Ready, aq_dir = private_dir, aq_lease = None, aq_read = None,
       aq_valid = (\<lambda>_. now), aq_entries = Some [], aq_legacyRead = (\<lambda>_. None), aq_legacyNow = (\<lambda>_ _. now), aq_now = now,
       aq_write = good_write, aq_close = None\<rparr>,
     dh_until = now, dh_wait = Ready, dh_ctx = None, dh_reserved = (\<lambda>d. now + d), dh_reserve = good_write,
     dh_settled = (\<lambda>t. t + 5), dh_settle = good_write\<rparr>"

definition sampleRecord :: "gotime \<Rightarrow> gotime \<Rightarrow> gotime \<Rightarrow> historyAdmissionState" where
  "sampleRecord next' finished err = \<lparr>as_Version = 1, as_AccountID = 9, as_NextAllowed = next', as_LastFinishedAt = finished,
     as_LastErrorAt = err\<rparr>"

lemma sample_clock: "clockLaw (sampleDispatch now)" "shares sampleAdmission 0 ''/s/x'' (sampleAccounts content)"
    "goodPolicy (ha_policy sampleAdmission)"
  by (auto simp: clockLaw_def sampleDispatch_def shares_def sampleAdmission_def sampleAccounts_def goodPolicy_def samplePacing_def)

lemmas sample_run_defs = beginDispatch_def acquireAccount_def reloadAccount_def reserveDispatch_def settleDispatch_def
  dispatchHistory_def persist_def allowedAt_def chosen_def readState_def releaseLease_def ValidatePrivateDir_def
  sampleDispatch_def sampleAccounts_def sampleAdmission_def samplePacing_def freshState_def Let_def private_dir_def

lemma sample_first:
  "\<exists>a1 W1. beginDispatch (sampleDispatch 100) sampleAdmission (sampleAccounts None) = (None, a1, W1) \<and> as_LastErrorAt (ha_state a1) = 100"
  "\<exists>r a2 W2. dispatchHistory (sampleDispatch 100) (Inr ()) (\<lambda>_. None) sampleAdmission (sampleAccounts None) = (r, a2, W2)
     \<and> wa_files W2 ''/s/x'' = Some (sampleRecord 107 105 0)"
  by (simp_all add: sample_run_defs fetched_def sampleRecord_def)

lemma sample_second:
  "\<exists>a1 W1. beginDispatch (sampleDispatch 106) sampleAdmission (sampleAccounts (Some (sampleRecord 107 105 0))) = (None, a1, W1)
     \<and> as_LastErrorAt (ha_state a1) = 107 \<and> wa_files W1 ''/s/x'' = Some (sampleRecord 137 105 107)"
  by (simp add: sample_run_defs sampleRecord_def validHistoryAdmissionState_def Hour_def Second_def)


end
