(* ===== verification/History_Demand.thy ===== *)
theory History_Demand
  imports History_Admission
begin

text \<open>
  The admissions of a process as a whole: opening, demand, dispatch and shutdown of several admissions that share the gates of their
  accounts through the registry of \<open>src/internal/client/history_account.go\<close>. The invariant ties each gate's counters and its
  place in the registry to the admissions that use it.
\<close>

subsection \<open>The demand of an account\<close>

text \<open>
  The admissions of a process, in the order they were opened, and the shared state: admissions are opened, reserve and finish
  demands, dispatch requests and stop, in any order. The payload of a dispatch plays no part in the state. The name of an
  account's shared record in a directory is the same function throughout.
\<close>

inductive running :: "(string \<Rightarrow> int64 \<Rightarrow> string) \<Rightarrow> historyAdmission list \<Rightarrow> accounts \<Rightarrow> bool" for name where
  start: "wa_gates W = [] \<Longrightarrow> wa_next W = 0 \<Longrightarrow> running name [] W"
| opened: "running name as W \<Longrightarrow> oc_file env = name
    \<Longrightarrow> openAccountHistoryAdmission env profile accountID policy W = (Inr a, W1) \<Longrightarrow> running name (as @ [a]) W1"
| reserved: "running name as W \<Longrightarrow> i < length as \<Longrightarrow> reserveDemand (as ! i) W = (r, a, W1) \<Longrightarrow> running name (as[i := a]) W1"
| finished: "running name as W \<Longrightarrow> i < length as \<Longrightarrow> 0 < ha_pending (as ! i) \<Longrightarrow> finishDemand (as ! i) W = (a, W1)
    \<Longrightarrow> running name (as[i := a]) W1"
| dispatched: "running name as W \<Longrightarrow> i < length as \<Longrightarrow> dispatchHistory env fetch (\<lambda>u :: unit. None) (as ! i) W = (r, a, W1)
    \<Longrightarrow> running name (as[i := a]) W1"
| stopped: "running name as W \<Longrightarrow> i < length as \<Longrightarrow> stop (as ! i) W = (a, W1) \<Longrightarrow> running name (as[i := a]) W1"

definition load :: "nat \<Rightarrow> historyAdmission \<Rightarrow> int" where
  "load g a = (if ha_shared a = Some g then ha_pending a else 0)"

definition live :: "nat \<Rightarrow> historyAdmission \<Rightarrow> int" where
  "live g a = (if ha_shared a = Some g \<and> \<not> ha_released a then 1 else 0)"

definition account :: "historyAdmission \<Rightarrow> int64" where
  "account a = as_AccountID (ha_state a)"

definition memberInv :: "accounts \<Rightarrow> historyAdmission \<Rightarrow> bool" where
  "memberInv W a \<longleftrightarrow> (\<exists>g. ha_shared a = Some g \<and> g < wa_next W \<and> ha_policy a = ag_policy (wa_heap W g)
       \<and> account a = ag_accountID (wa_heap W g))
     \<and> 0 \<le> ha_pending a \<and> (ha_released a \<longrightarrow> ha_pending a = 0 \<and> ha_stopped a) \<and> goodPolicy (ha_policy a)"

definition gateInv :: "historyAdmission list \<Rightarrow> accounts \<Rightarrow> nat \<Rightarrow> bool" where
  "gateInv as W g \<longleftrightarrow> ag_pending (wa_heap W g) = sum_list (map (load g) as)
     \<and> ag_refs (wa_heap W g) = sum_list (map (live g) as)
     \<and> ag_pending (wa_heap W g) \<le> pc_MaxPending (ag_policy (wa_heap W g))
     \<and> (0 < ag_refs (wa_heap W g) \<longleftrightarrow> map_of (wa_gates W) (ag_path (wa_heap W g)) = Some g)"

definition registryInv :: "(string \<Rightarrow> int64 \<Rightarrow> string) \<Rightarrow> accounts \<Rightarrow> bool" where
  "registryInv name W \<longleftrightarrow> distinct (map fst (wa_gates W))
     \<and> (\<forall>(p, g)\<in>set (wa_gates W). g < wa_next W \<and> ag_path (wa_heap W g) = p \<and> (\<exists>d. p = name d (ag_accountID (wa_heap W g))))
     \<and> (\<forall>(p, g)\<in>set (wa_gates W). \<forall>(q, h)\<in>set (wa_gates W). ag_accountID (wa_heap W g) = ag_accountID (wa_heap W h) \<longrightarrow> p = q)"

definition accountInv :: "(string \<Rightarrow> int64 \<Rightarrow> string) \<Rightarrow> historyAdmission list \<Rightarrow> accounts \<Rightarrow> bool" where
  "accountInv name as W \<longleftrightarrow> (\<forall>a\<in>set as. memberInv W a) \<and> (\<forall>g<wa_next W. gateInv as W g) \<and> registryInv name W"

text \<open>A step of one admission: its gate follows its demand and its reference, and leaves the registry with the last one.\<close>

definition gateStep :: "nat \<Rightarrow> historyAdmission \<Rightarrow> historyAdmission \<Rightarrow> accounts \<Rightarrow> accounts \<Rightarrow> bool" where
  "gateStep g a a1 W W1 \<longleftrightarrow> ha_shared a1 = Some g \<and> ha_policy a1 = ha_policy a \<and> account a1 = account a
     \<and> 0 \<le> ha_pending a1 \<and> (ha_released a1 \<longrightarrow> ha_pending a1 = 0 \<and> ha_stopped a1) \<and> (ha_released a \<longrightarrow> ha_released a1)
     \<and> wa_next W1 = wa_next W \<and> (\<forall>h. h \<noteq> g \<longrightarrow> wa_heap W1 h = wa_heap W h)
     \<and> ag_path (wa_heap W1 g) = ag_path (wa_heap W g) \<and> ag_policy (wa_heap W1 g) = ag_policy (wa_heap W g)
     \<and> ag_accountID (wa_heap W1 g) = ag_accountID (wa_heap W g)
     \<and> ag_pending (wa_heap W1 g) = ag_pending (wa_heap W g) + ha_pending a1 - ha_pending a
     \<and> (ag_pending (wa_heap W1 g) \<le> ag_pending (wa_heap W g) \<or> ag_pending (wa_heap W1 g) \<le> pc_MaxPending (ha_policy a))
     \<and> ag_refs (wa_heap W1 g) = ag_refs (wa_heap W g) + live g a1 - live g a
     \<and> wa_gates W1 = (if ha_released a1 \<and> \<not> ha_released a \<and> ag_refs (wa_heap W1 g) = 0
          then AList.delete (ag_path (wa_heap W g)) (wa_gates W) else wa_gates W)"

lemma sum_list_member:
  "i < length as \<Longrightarrow> sum_list (map f (as[i := a])) = sum_list (map f as) + f a - (f (as ! i) :: int)"
proof (induction as arbitrary: i)
  case (Cons b as)
  then show ?case by (cases i) auto
qed simp

lemma live_total: "0 \<le> sum_list (map (live g) as)"
  by (induction as) (auto simp: live_def)

lemma gateStep_members:
  assumes inv: "accountInv name as W" and i: "i < length as" and g: "ha_shared (as ! i) = Some g" and st: "gateStep g (as ! i) a W W1"
  shows "\<forall>b\<in>set (as[i := a]). memberInv W1 b"
proof
  fix b assume "b \<in> set (as[i := a])"
  then consider "b = a" | "b \<in> set as" using set_update_subset_insert [of as i a] by auto
  then show "memberInv W1 b"
  proof cases
    case 1
    have "memberInv W (as ! i)" using inv i by (simp add: accountInv_def)
    then show ?thesis using 1 st g by (auto simp: memberInv_def gateStep_def)
  next
    case 2
    then have m: "memberInv W b" using inv by (simp add: accountInv_def)
    then obtain h where h: "ha_shared b = Some h" by (auto simp: memberInv_def)
    show ?thesis using m h st by (cases "h = g") (auto simp: memberInv_def gateStep_def)
  qed
qed

lemma gateStep_gates:
  assumes inv: "accountInv name as W" and i: "i < length as" and g: "ha_shared (as ! i) = Some g" and st: "gateStep g (as ! i) a W W1"
    and h: "h < wa_next W"
  shows "gateInv (as[i := a]) W1 h"
proof -
  have m: "memberInv W (as ! i)" using inv i by (simp add: accountInv_def)
  then have "g < wa_next W" using g by (auto simp: memberInv_def)
  then have gh: "gateInv as W h" and gg: "gateInv as W g" using inv h by (simp_all add: accountInv_def)
  have sums: "sum_list (map (load h) (as[i := a])) = sum_list (map (load h) as) + load h a - load h (as ! i)"
    "sum_list (map (live h) (as[i := a])) = sum_list (map (live h) as) + live h a - live h (as ! i)"
    by (rule sum_list_member [OF i])+
  have gone: "map_of (wa_gates W) (ag_path (wa_heap W g)) = Some g" if "ha_released a" "\<not> ha_released (as ! i)" "ag_refs (wa_heap W1 g) = 0"
    using that gg st g by (auto simp: gateInv_def gateStep_def live_def)
  show ?thesis
  proof (cases "h = g")
    case False
    then have z: "load h a = 0" "load h (as ! i) = 0" "live h a = 0" "live h (as ! i) = 0"
      using st g by (auto simp: load_def live_def gateStep_def)
    have heap: "wa_heap W1 h = wa_heap W h" using st False by (simp add: gateStep_def)
    have "map_of (wa_gates W1) (ag_path (wa_heap W h)) = Some h \<longleftrightarrow> map_of (wa_gates W) (ag_path (wa_heap W h)) = Some h"
      using st gone False by (auto simp: gateStep_def delete_conv split: if_splits)
    with gh sums z show ?thesis unfolding gateInv_def heap by auto
  next
    case True
    have ld: "load g a = ha_pending a" "load g (as ! i) = ha_pending (as ! i)" using st g by (simp_all add: load_def gateStep_def)
    have pol: "ha_policy (as ! i) = ag_policy (wa_heap W g)" using m g by (auto simp: memberInv_def)
    have refs: "ag_refs (wa_heap W1 g) = sum_list (map (live g) (as[i := a]))"
      using sums(2) gg st True by (simp add: gateInv_def gateStep_def)
    then have nn: "0 \<le> ag_refs (wa_heap W1 g)" using live_total by simp
    have reg: "0 < ag_refs (wa_heap W1 g) \<longleftrightarrow> map_of (wa_gates W1) (ag_path (wa_heap W g)) = Some g"
    proof (cases "ha_released a \<and> \<not> ha_released (as ! i) \<and> ag_refs (wa_heap W1 g) = 0")
      case True
      then show ?thesis using st by (simp add: gateStep_def delete_conv)
    next
      case False
      have "0 < ag_refs (wa_heap W1 g) \<longleftrightarrow> 0 < ag_refs (wa_heap W g)"
        using False st g nn by (cases "ha_released a"; cases "ha_released (as ! i)") (auto simp: gateStep_def live_def)
      moreover have "wa_gates W1 = wa_gates W" using False st unfolding gateStep_def by auto
      moreover have "0 < ag_refs (wa_heap W g) \<longleftrightarrow> map_of (wa_gates W) (ag_path (wa_heap W g)) = Some g"
        using gg unfolding gateInv_def by blast
      ultimately show ?thesis by simp
    qed
    show ?thesis
      using gg st True sums(1) ld pol refs reg by (auto simp: gateInv_def gateStep_def)
  qed
qed

lemma gateStep_inv:
  assumes inv: "accountInv name as W" and i: "i < length as" and g: "ha_shared (as ! i) = Some g" and st: "gateStep g (as ! i) a W W1"
  shows "accountInv name (as[i := a]) W1"
proof -
  have sub: "set (wa_gates W1) \<subseteq> set (wa_gates W)" "distinct (map fst (wa_gates W)) \<Longrightarrow> distinct (map fst (wa_gates W1))"
  proof -
    have "wa_gates W1 = wa_gates W \<or> wa_gates W1 = AList.delete (ag_path (wa_heap W g)) (wa_gates W)"
      using st by (auto simp: gateStep_def)
    then show "set (wa_gates W1) \<subseteq> set (wa_gates W)" "distinct (map fst (wa_gates W)) \<Longrightarrow> distinct (map fst (wa_gates W1))"
      by (auto simp: distinct_delete AList.delete_eq intro: distinct_map_filter)
  qed
  have same: "ag_path (wa_heap W1 h) = ag_path (wa_heap W h)" "ag_accountID (wa_heap W1 h) = ag_accountID (wa_heap W h)" for h
    using st by (cases "h = g"; simp add: gateStep_def)+
  have nx: "wa_next W1 = wa_next W" using st by (simp add: gateStep_def)
  have "registryInv name W1" using inv sub unfolding accountInv_def registryInv_def same nx by blast
  then show ?thesis
    using gateStep_members [OF assms] gateStep_gates [OF assms] nx by (simp add: accountInv_def)
qed

lemma gateStep_refl:
  assumes "memberInv W a" "ha_shared a = Some g"
  shows "gateStep g a a W W"
  using assms by (auto simp: gateStep_def memberInv_def)

lemma demand_step:
  assumes m: "memberInv W a" "ha_shared a = Some g" and p: "0 \<le> p" "ha_released a \<longrightarrow> p = 0"
    and le: "p \<le> ha_pending a \<or> ag_pending (wa_heap W g) + p - ha_pending a \<le> pc_MaxPending (ha_policy a)"
    and a1: "a1 = a\<lparr>ha_stopped := st, ha_pending := p\<rparr>" "ha_stopped a \<longrightarrow> st"
    and W1: "W1 = updateGate g (\<lambda>gate. gate\<lparr>ag_pending := ag_pending gate + p - ha_pending a\<rparr>) W"
  shows "gateStep g a a1 W W1"
proof -
  have "ha_released a \<longrightarrow> ha_stopped a" using m(1) by (simp add: memberInv_def)
  then show ?thesis
    using m(2) p le a1(2) unfolding gateStep_def a1(1) W1 by (auto simp: account_def live_def updateGate_def)
qed

lemma reserveDemand_step:
  assumes m: "memberInv W a" "ha_shared a = Some g" and r: "reserveDemand a W = (r, a1, W1)"
  shows "gateStep g a a1 W W1"
proof (cases r)
  case (Some e)
  then have "a1 = a" "W1 = W" using r m(2) by (auto simp: reserveDemand_def split: if_splits)
  then show ?thesis using gateStep_refl [OF m] by simp
next
  case None
  then have a1: "a1 = a\<lparr>ha_stopped := ha_stopped a, ha_pending := ha_pending a + 1\<rparr>" and ns: "\<not> ha_stopped a"
    and lt: "ag_pending (wa_heap W g) < pc_MaxPending (ha_policy a)"
    and W1: "W1 = updateGate g (\<lambda>gate. gate\<lparr>ag_pending := ag_pending gate + 1\<rparr>) W"
    using r m(2) by (auto simp: reserveDemand_def split: if_splits)
  have "0 \<le> ha_pending a" "\<not> ha_released a" using m(1) ns by (auto simp: memberInv_def)
  then show ?thesis
    by (intro demand_step [OF m _ _ _ a1]) (use lt W1 in \<open>auto simp: algebra_simps\<close>)
qed

text \<open>The last demand of a stopped admission drops its reference to the gate.\<close>

lemma finishStopped_step:
  assumes st: "gateStep g a a1 W W1" and a1: "ha_stopped a1" "ha_pending a1 = 0" and f: "finishStopped a1 W1 = (a2, W2)"
    and same: "ha_released a1 = ha_released a" "ha_shared a = Some g"
  shows "gateStep g a a2 W W2"
proof (cases "ha_released a")
  case True
  then have "W2 = W1" "a2 = a1\<lparr>ha_joined := True\<rparr>" using f same by (auto simp: finishStopped_def releaseAccount_def)
  then show ?thesis using st by (auto simp: gateStep_def account_def live_def)
next
  case False
  have sh: "ha_shared a1 = Some g" using st by (simp add: gateStep_def)
  define W0 where "W0 = updateGate g (\<lambda>gate. gate\<lparr>ag_refs := ag_refs gate - 1\<rparr>) W1"
  have a2: "a2 = a1\<lparr>ha_released := True, ha_joined := True\<rparr>"
    and W2: "W2 = (if ag_refs (wa_heap W0 g) = 0 then W0\<lparr>wa_gates := AList.delete (ag_path (wa_heap W0 g)) (wa_gates W0)\<rparr> else W0)"
    using f False same sh by (auto simp: finishStopped_def releaseAccount_def W0_def Let_def)
  have gates: "wa_gates W1 = wa_gates W" "live g a1 = live g a" using st False same unfolding gateStep_def by (auto simp: live_def)
  have heap: "wa_heap W2 = wa_heap W0" "wa_next W2 = wa_next W1" by (simp_all add: W2 W0_def updateGate_def)
  have live: "live g a2 = live g a1 - 1" using sh False same by (simp add: a2 live_def)
  have g2: "wa_gates W2 = (if ag_refs (wa_heap W2 g) = 0 then AList.delete (ag_path (wa_heap W g)) (wa_gates W) else wa_gates W)"
    using st unfolding W2 W0_def by (auto simp: gateStep_def gates)
  have hg: "wa_heap W2 g = (wa_heap W1 g)\<lparr>ag_refs := ag_refs (wa_heap W1 g) - 1\<rparr>" "h \<noteq> g \<Longrightarrow> wa_heap W2 h = wa_heap W1 h" for h
    by (simp_all add: heap W0_def)
  have acc: "account a2 = account a1" "ha_shared a2 = ha_shared a1" "ha_policy a2 = ha_policy a1" "ha_pending a2 = ha_pending a1"
      "ha_stopped a2" "ha_released a2" using a1 by (simp_all add: a2 account_def)
  show ?thesis
    using st a1(2) False unfolding gateStep_def acc(1-4) hg(1) heap(2) live gates(2) g2
    by (auto simp: acc hg)
qed

lemma finishDemand_step:
  assumes m: "memberInv W a" "ha_shared a = Some g" and pos: "0 < ha_pending a" and f: "finishDemand a W = (a1, W1)"
  shows "gateStep g a a1 W W1"
proof -
  define a0 where "a0 = a\<lparr>ha_stopped := ha_stopped a, ha_pending := ha_pending a - 1\<rparr>"
  define W0 where "W0 = updateGate g (\<lambda>gate. gate\<lparr>ag_pending := ag_pending gate + (ha_pending a - 1) - ha_pending a\<rparr>) W"
  have rel: "\<not> ha_released a" using m(1) pos by (auto simp: memberInv_def)
  have s0: "gateStep g a a0 W W0"
    by (rule demand_step [OF m _ _ _ a0_def _ W0_def]) (use pos rel in auto)
  have eq: "a0 = a\<lparr>ha_pending := ha_pending a - 1\<rparr>" "W0 = updateGate g (\<lambda>gate. gate\<lparr>ag_pending := ag_pending gate - 1\<rparr>) W"
    by (simp_all add: a0_def W0_def)
  note f1 = f [unfolded finishDemand_def m(2) option.case Let_def, folded eq]
  show ?thesis
  proof (cases "ha_stopped a0 \<and> ha_pending a0 = 0")
    case True
    with f1 have "finishStopped a0 W0 = (a1, W1)" by simp
    from finishStopped_step [OF s0 _ _ this _ m(2)] True show ?thesis by (simp add: a0_def)
  next
    case False
    then show ?thesis using f1 s0 by auto
  qed
qed

lemma stop_step:
  assumes m: "memberInv W a" "ha_shared a = Some g" and f: "stop a W = (a1, W1)"
  shows "gateStep g a a1 W W1"
proof -
  define a0 where "a0 = a\<lparr>ha_stopped := True, ha_pending := ha_pending a\<rparr>"
  have W: "W = updateGate g (\<lambda>gate. gate\<lparr>ag_pending := ag_pending gate + ha_pending a - ha_pending a\<rparr>) W"
    by (simp add: updateGate_def)
  have s0: "gateStep g a a0 W W"
    by (rule demand_step [OF m _ _ _ a0_def _ W]) (use m(1) in \<open>auto simp: memberInv_def\<close>)
  have eq: "a0 = a\<lparr>ha_stopped := True\<rparr>" by (simp add: a0_def)
  note f1 = f [unfolded stop_def Let_def, folded eq]
  show ?thesis
  proof (cases "ha_pending a0 = 0")
    case True
    with f1 have "finishStopped a0 W = (a1, W1)" by simp
    from finishStopped_step [OF s0 _ True this _ m(2)] show ?thesis by (simp add: a0_def)
  next
    case False
    then show ?thesis using f1 s0 by simp
  qed
qed

text \<open>A dispatch changes files, cooldowns and failures only.\<close>

definition sameDemand :: "historyAdmission \<Rightarrow> historyAdmission \<Rightarrow> accounts \<Rightarrow> accounts \<Rightarrow> bool" where
  "sameDemand a a1 W W1 \<longleftrightarrow> ha_shared a1 = ha_shared a \<and> ha_policy a1 = ha_policy a \<and> account a1 = account a
     \<and> ha_pending a1 = ha_pending a \<and> ha_stopped a1 = ha_stopped a \<and> ha_released a1 = ha_released a
     \<and> wa_next W1 = wa_next W \<and> wa_gates W1 = wa_gates W
     \<and> (\<forall>h. ag_path (wa_heap W1 h) = ag_path (wa_heap W h) \<and> ag_policy (wa_heap W1 h) = ag_policy (wa_heap W h)
          \<and> ag_accountID (wa_heap W1 h) = ag_accountID (wa_heap W h) \<and> ag_pending (wa_heap W1 h) = ag_pending (wa_heap W h)
          \<and> ag_refs (wa_heap W1 h) = ag_refs (wa_heap W h) \<and> (ha_shared a \<noteq> Some h \<longrightarrow> wa_heap W1 h = wa_heap W h))"

lemma sameDemand_trans: "sameDemand a b W X \<Longrightarrow> sameDemand b c X Y \<Longrightarrow> sameDemand a c W Y"
  by (simp add: sameDemand_def)

lemma sameDemand_step: "sameDemand a a1 W W1 \<Longrightarrow> memberInv W a \<Longrightarrow> ha_shared a = Some g \<Longrightarrow> gateStep g a a1 W W1"
  by (auto simp: sameDemand_def gateStep_def memberInv_def live_def)

lemma persist_same:
  assumes "persist wenv next' a W = (err, a1, W1)"
  shows "sameDemand a a1 W W1"
proof -
  define path where "path = (case ha_shared a of None \<Rightarrow> ha_path a | Some g \<Rightarrow> ag_path (wa_heap W g))"
  obtain e content where w: "WriteAtomic wenv ((ha_state a)\<lparr>as_NextAllowed := next'\<rparr>) (wa_files W path) = (e, content)" by force
  show ?thesis
    using assms w unfolding persist_def Let_def path_def [symmetric]
    by (cases "path = []"; cases e; cases "ha_shared a") (auto simp: sameDemand_def account_def updateGate_def)
qed

lemma releaseLease_same: "sameDemand a b W X \<Longrightarrow> sameDemand a b W (releaseLease close (ha_shared a) X)"
  by (auto simp: sameDemand_def releaseLease_def updateGate_def split: option.splits)

lemma sameDemand_state: "as_AccountID s = account a \<Longrightarrow> sameDemand a (a\<lparr>ha_state := s\<rparr>) W W"
  by (simp add: sameDemand_def account_def)

lemma reloadAccount_same:
  assumes acc: "\<forall>st. found = Some st \<longrightarrow> as_AccountID st = account a" and q: "reloadAccount env g found a W = (err, a1, W1)"
  shows "sameDemand a a1 W W1"
proof -
  define s0 where "s0 = (case found of None \<Rightarrow> ha_state a | Some state \<Rightarrow> state)"
  have s0: "as_AccountID s0 = account a" using acc by (auto simp: s0_def account_def split: option.splits)
  have st: "sameDemand a (a\<lparr>ha_state := s0\<lparr>as_NextAllowed := n\<rparr>\<rparr>) W W" for n
    by (rule sameDemand_state) (simp add: s0)
  have pe: "sameDemand a a3 W W3" if "persist wenv n' (a\<lparr>ha_state := s0\<lparr>as_NextAllowed := n\<rparr>\<rparr>) W = (e, a3, W3)" for wenv n' n e a3 W3
    by (rule sameDemand_trans [OF st persist_same [OF that]])
  have "(\<exists>n. a1 = a\<lparr>ha_state := s0\<lparr>as_NextAllowed := n\<rparr>\<rparr> \<and> W1 = W)
      \<or> (\<exists>wenv n' n. persist wenv n' (a\<lparr>ha_state := s0\<lparr>as_NextAllowed := n\<rparr>\<rparr>) W = (err, a1, W1))"
    using q unfolding reloadAccount_def Let_def s0_def [symmetric]
    by (cases "aq_entries env") (auto simp: Let_def split: if_splits option.splits prod.splits)
  then show ?thesis using st pe by auto
qed

lemma acquireAccount_same:
  assumes "acquireAccount env a W = (err, a1, W1)"
  shows "sameDemand a a1 W W1"
proof (cases "ha_shared a")
  case None
  then show ?thesis using assms by (auto simp: acquireAccount_def sameDemand_def)
next
  case (Some g)
  have r: "sameDemand a a W W" by (simp add: sameDemand_def)
  have r2: "sameDemand a a W (releaseLease (aq_close env) (Some g) W)" using releaseLease_same [OF r] Some by simp
  define found where "found = wa_files W (ag_path (wa_heap W g))"
  obtain e2 a2 W2 where re: "reloadAccount env g found a W = (e2, a2, W2)" by (metis prod_cases3)
  have cases: "(a1 = a \<and> (W1 = W \<or> W1 = releaseLease (aq_close env) (Some g) W))
      \<or> (\<forall>st. found = Some st \<longrightarrow> as_AccountID st = account a) \<and> a1 = a2 \<and> (W1 = W2 \<or> W1 = releaseLease (aq_close env) (Some g) W2)"
    using assms re
    by (auto simp: acquireAccount_def Some Let_def readState_def found_def [symmetric] validHistoryAdmissionState_def account_def
        split: option.splits if_splits)
  show ?thesis
    using cases r r2 reloadAccount_same [OF _ re] releaseLease_same [of a a2 W W2 "aq_close env"] Some by auto
qed

lemma beginDispatch_same:
  assumes "beginDispatch env a W = (err, a1, W1)"
  shows "sameDemand a a1 W W1"
proof -
  obtain e2 a2 W2 where aq: "acquireAccount (dh_acquire env) a W = (e2, a2, W2)" by (metis prod_cases3)
  note s2 = acquireAccount_same [OF aq]
  obtain e3 a3 W3 where re: "reserveDispatch env a2 W2 = (e3, a3, W3)" by (metis prod_cases3)
  have r: "sameDemand a a W W" by (simp add: sameDemand_def)
  have "sameDemand a2 a3 W2 W3"
  proof -
    have "(a3 = a2 \<and> W3 = W2) \<or> (\<exists>wenv n t. persist wenv n (a2\<lparr>ha_state := (ha_state a2)\<lparr>as_LastErrorAt := t\<rparr>\<rparr>) W2 = (e3, a3, W3))"
      using re by (auto simp: reserveDispatch_def Let_def split: option.splits if_splits)
    then show ?thesis
      using persist_same sameDemand_trans [OF sameDemand_state [of _ a2 W2]] by (fastforce simp: sameDemand_def account_def)
  qed
  note s3 = sameDemand_trans [OF s2 this]
  have "(a1 = a \<and> W1 = W) \<or> (a1 = a2 \<and> W1 = W2) \<or> (a1 = a3 \<and> (W1 = W3 \<or> W1 = releaseLease (aq_close (dh_acquire env)) (ha_shared a) W3))"
    using assms aq re by (cases e2; cases e3) (auto simp: beginDispatch_def split: option.splits)
  then show ?thesis using r s2 s3 releaseLease_same [OF s3] by auto
qed

lemma dispatchHistory_same:
  assumes "dispatchHistory env fetch validate a W = (r, a1, W1)"
  shows "sameDemand a a1 W W1"
proof -
  obtain e2 a2 W2 where b: "beginDispatch env a W = (e2, a2, W2)" by (metis prod_cases3)
  note s2 = beginDispatch_same [OF b]
  obtain r3 a3 W3 where st: "settleDispatch env (fetched fetch validate) a2 W2 = (r3, a3, W3)" by (metis prod_cases3)
  have "\<exists>e s n. persist (dh_settle env) n (a2\<lparr>ha_state := s\<rparr>) W2 = (e, a3, W3) \<and> as_AccountID s = account a2"
    using st by (fastforce simp: settleDispatch_def Let_def account_def split: sum.splits option.splits prod.splits)
  then have "sameDemand a2 a3 W2 W3" using persist_same sameDemand_trans [OF sameDemand_state [of _ a2 W2]] by blast
  note s3 = sameDemand_trans [OF s2 this]
  have "(a1 = a2 \<and> W1 = W2) \<or> (a1 = a3 \<and> W1 = releaseLease (aq_close (dh_acquire env)) (ha_shared a) W3)"
    using assms b st by (cases e2) (auto simp: dispatchHistory_def)
  then show ?thesis using s2 releaseLease_same [OF s3] by auto
qed

lemma openHistoryAdmission_fields:
  assumes "openHistoryAdmission env path accountID policy W = Inr a"
  shows "ha_pending a = 0 \<and> \<not> ha_stopped a \<and> \<not> ha_released a \<and> goodPolicy (ha_policy a) \<and> account a = accountID"
  using assms normalized_goodPolicy [of policy]
  by (auto simp: openHistoryAdmission_def Let_def account_def freshState_def validHistoryAdmissionState_def
      split: sum.splits option.splits if_splits)

lemma openAccount_fields:
  assumes "openAccountHistoryAdmission env profile accountID policy W = (Inr a, W1)"
  obtains b g dir where "a = b\<lparr>ha_shared := Some g\<rparr>" "joinGate b accountID (oc_file env dir accountID) W = (g, W1)"
    "\<not> otherRoot W accountID (oc_file env dir accountID)"
    "\<forall>h. map_of (wa_gates W) (oc_file env dir accountID) = Some h \<longrightarrow> ag_policy (wa_heap W h) = ha_policy b"
    "ha_pending b = 0" "\<not> ha_stopped b" "\<not> ha_released b" "goodPolicy (ha_policy b)" "account b = accountID"
proof -
  obtain a0 where a0: "openHistoryAdmission (oc_own env) (profile @ ''.history-admission'') accountID policy W = Inr a0"
    using assms by (cases "openHistoryAdmission (oc_own env) (profile @ ''.history-admission'') accountID policy W")
      (auto simp: openAccountHistoryAdmission_def)
  note f = openHistoryAdmission_fields [OF a0]
  obtain dir where dir: "oc_abs env (if pc_StateDirectory policy = [] then oc_profileDir env else pc_StateDirectory policy) = Some dir"
    using assms a0 by (auto simp: openAccountHistoryAdmission_def split: option.splits)
  define b where "b = a0\<lparr>ha_policy := (ha_policy a0)\<lparr>pc_StateDirectory := dir\<rparr>\<rparr>"
  obtain g W2 where jg: "joinGate b accountID (oc_file env dir accountID) W = (g, W2)" by force
  have r: "a = b\<lparr>ha_shared := Some g\<rparr> \<and> W1 = W2 \<and> \<not> otherRoot W accountID (oc_file env dir accountID)
      \<and> \<not> (case map_of (wa_gates W) (oc_file env dir accountID) of None \<Rightarrow> False | Some g \<Rightarrow> ag_policy (wa_heap W g) \<noteq> ha_policy b)"
    using assms a0 dir
    by (auto simp: openAccountHistoryAdmission_def Let_def jg [unfolded b_def] b_def
        split: option.splits sum.splits if_splits)
  have "goodPolicy (ha_policy b)" "account b = accountID" "ha_pending b = 0" "\<not> ha_stopped b" "\<not> ha_released b"
    using f by (simp_all add: b_def goodPolicy_def account_def)
  then show thesis using that [where b = b and g = g and dir = dir] r jg by (auto split: option.splits)
qed

text \<open>Joining a gate: the registered one of the record, or a new one.\<close>

definition joinInv :: "historyAdmission \<Rightarrow> nat \<Rightarrow> string \<Rightarrow> accounts \<Rightarrow> bool" where
  "joinInv a g path W \<longleftrightarrow> ha_shared a = Some g \<and> ha_pending a = 0 \<and> \<not> ha_stopped a \<and> \<not> ha_released a \<and> goodPolicy (ha_policy a)
     \<and> (\<forall>h. map_of (wa_gates W) path = Some h \<longrightarrow> ag_policy (wa_heap W h) = ha_policy a)
     \<and> \<not> otherRoot W (account a) path"

lemma join_existing:
  assumes inv: "accountInv name as W" and inj: "\<forall>d d' x y. name d x = name d' y \<longrightarrow> x = y"
    and j: "joinInv a g (name dir (account a)) W" and m: "map_of (wa_gates W) (name dir (account a)) = Some g"
    and W1: "W1 = updateGate g (\<lambda>gate. gate\<lparr>ag_refs := ag_refs gate + 1, ag_legacyFloor := t\<rparr>) W"
  shows "accountInv name (as @ [a]) W1"
proof -
  have "(name dir (account a), g) \<in> set (wa_gates W)" using m by (rule map_of_SomeD)
  then have g: "g < wa_next W" "ag_path (wa_heap W g) = name dir (account a)"
    and d: "\<exists>d. name dir (account a) = name d (ag_accountID (wa_heap W g))"
    using inv by (auto simp: accountInv_def registryInv_def)
  have acc: "ag_accountID (wa_heap W g) = account a" using d inj by metis
  have pol: "ag_policy (wa_heap W g) = ha_policy a" using j m by (simp add: joinInv_def)
  have same: "ag_path (wa_heap W1 h) = ag_path (wa_heap W h)" "ag_accountID (wa_heap W1 h) = ag_accountID (wa_heap W h)"
    "ag_policy (wa_heap W1 h) = ag_policy (wa_heap W h)" "ag_pending (wa_heap W1 h) = ag_pending (wa_heap W h)"
    "ag_refs (wa_heap W1 h) = ag_refs (wa_heap W h) + live h a" "load h a = 0" for h
    using j by (auto simp: W1 live_def load_def joinInv_def)
  have next1: "wa_next W1 = wa_next W" "wa_gates W1 = wa_gates W" by (simp_all add: W1 updateGate_def)
  have "memberInv W1 x" if "x \<in> set (as @ [a])" for x
    using that inv j g acc pol by (auto simp: accountInv_def memberInv_def same next1 joinInv_def)
  moreover have "gateInv (as @ [a]) W1 h" if "h < wa_next W1" for h
  proof -
    have gi: "gateInv as W h" using inv that by (simp add: accountInv_def next1)
    have "0 \<le> ag_refs (wa_heap W h)" using gi live_total [of h as] by (simp add: gateInv_def)
    moreover have "live h a > 0 \<Longrightarrow> h = g" using j by (auto simp: live_def joinInv_def split: if_splits)
    moreover have "0 \<le> live h a" by (simp add: live_def)
    ultimately have "0 < ag_refs (wa_heap W h) + live h a \<longleftrightarrow> map_of (wa_gates W) (ag_path (wa_heap W h)) = Some h"
      using gi m g(2) unfolding gateInv_def by (cases "live h a = 0") auto
    then show ?thesis using gi same(6) unfolding gateInv_def same(1-5) next1 by auto
  qed
  moreover have "registryInv name W1" using inv unfolding accountInv_def registryInv_def same next1 by blast
  ultimately show ?thesis by (simp add: accountInv_def)
qed

lemma fresh_sums:
  assumes "\<forall>a\<in>set as. memberInv W a" "wa_next W \<le> g"
  shows "sum_list (map (load g) as) = 0" "sum_list (map (live g) as) = 0"
  using assms by (induction as) (auto simp: load_def live_def memberInv_def)

lemma update_absent: "map_of xs k = None \<Longrightarrow> AList.update k v xs = xs @ [(k, v)]"
  by (induction xs) (auto split: if_splits)

lemma join_new:
  assumes inv: "accountInv name as W" and j: "joinInv a g (name dir (account a)) W" and m: "map_of (wa_gates W) (name dir (account a)) = None"
    and g: "g = wa_next W"
    and W1: "W1 = W\<lparr>wa_heap := (wa_heap W)(g := \<lparr>ag_legacyFloor = t, ag_accountID = account a, ag_pending = 0, ag_refs = 1,
        ag_path = name dir (account a), ag_policy = ha_policy a, ag_failed = None\<rparr>),
      wa_gates := AList.update (name dir (account a)) g (wa_gates W), wa_next := g + 1\<rparr>"
  shows "accountInv name (as @ [a]) W1"
proof -
  let ?p = "name dir (account a)"
  have ok: "\<forall>x\<in>set as. memberInv W x" and reg: "registryInv name W" using inv by (simp_all add: accountInv_def)
  have heap: "h \<noteq> g \<Longrightarrow> wa_heap W1 h = wa_heap W h" for h by (simp add: W1)
  have new: "ag_path (wa_heap W1 g) = ?p" "ag_accountID (wa_heap W1 g) = account a" "ag_policy (wa_heap W1 g) = ha_policy a"
    "ag_pending (wa_heap W1 g) = 0" "ag_refs (wa_heap W1 g) = 1" "wa_next W1 = Suc g" "wa_gates W1 = AList.update ?p g (wa_gates W)"
    by (simp_all add: W1)
  have member: "memberInv W1 x" if x: "x \<in> set (as @ [a])" for x
  proof (cases "x \<in> set as")
    case True
    then obtain h where "ha_shared x = Some h" "h < wa_next W" using ok by (auto simp: memberInv_def)
    then show ?thesis using ok True heap [of h] by (auto simp: memberInv_def g new)
  next
    case False
    then show ?thesis using x j new by (auto simp: memberInv_def joinInv_def)
  qed
  have gates: "gateInv (as @ [a]) W1 h" if h: "h < wa_next W1" for h
  proof (cases "h = g")
    case True
    have "load g a = 0" "live g a = 1" "1 \<le> pc_MaxPending (ha_policy a)"
      using j by (auto simp: load_def live_def joinInv_def goodPolicy_def)
    moreover have "sum_list (map (load g) as) = 0" "sum_list (map (live g) as) = 0" using fresh_sums [OF ok, of g] g by auto
    ultimately show ?thesis unfolding gateInv_def True new by (simp add: update_conv')
  next
    case False
    then have gi: "gateInv as W h" using inv h g by (simp add: accountInv_def new)
    have "load h a = 0" "live h a = 0" using j False by (auto simp: load_def live_def joinInv_def)
    moreover have "map_of (AList.update ?p g (wa_gates W)) (ag_path (wa_heap W h)) = Some h
        \<longleftrightarrow> map_of (wa_gates W) (ag_path (wa_heap W h)) = Some h"
      using m False by (auto simp: update_conv')
    ultimately show ?thesis using gi heap [OF False] unfolding gateInv_def new by auto
  qed
  have "registryInv name W1"
  proof -
    have old: "q \<noteq> ?p \<and> h \<noteq> g \<and> h < g \<and> ag_path (wa_heap W h) = q \<and> (\<exists>d. q = name d (ag_accountID (wa_heap W h)))
        \<and> ag_accountID (wa_heap W h) \<noteq> account a" if e: "(q, h) \<in> set (wa_gates W)" for q h
    proof -
      have "q \<noteq> ?p" using e m by (metis map_of_eq_None_iff image_eqI fst_conv)
      moreover have "ag_accountID (wa_heap W h) \<noteq> account a" using e j calculation by (auto simp: joinInv_def otherRoot_def)
      ultimately show ?thesis using reg e g by (auto simp: registryInv_def)
    qed
    have set1: "e \<in> set (wa_gates W1) \<longleftrightarrow> e = (?p, g) \<or> e \<in> set (wa_gates W)" for e
    proof -
      have "AList.update ?p g (wa_gates W) = wa_gates W @ [(?p, g)]" by (rule update_absent [OF m])
      then show ?thesis by (auto simp: new)
    qed
    have "distinct (map fst (wa_gates W1))" using reg by (simp add: new(7) registryInv_def distinct_update)
    moreover have "h < wa_next W1 \<and> ag_path (wa_heap W1 h) = q \<and> (\<exists>d. q = name d (ag_accountID (wa_heap W1 h)))"
      if "(q, h) \<in> set (wa_gates W1)" for q h
      using that [unfolded set1] old [of q h] heap [of h] new by auto
    moreover have "q = q'" if "(q, h) \<in> set (wa_gates W1)" "(q', h') \<in> set (wa_gates W1)"
        "ag_accountID (wa_heap W1 h) = ag_accountID (wa_heap W1 h')" for q h q' h'
    proof -
      have "(q, h) \<in> set (wa_gates W) \<Longrightarrow> (q', h') \<in> set (wa_gates W) \<Longrightarrow> ag_accountID (wa_heap W h) = ag_accountID (wa_heap W h') \<Longrightarrow> q = q'"
        using reg by (auto simp: registryInv_def)
      then show ?thesis
        using that old [of q h] old [of q' h'] heap [of h] heap [of h'] new(2) unfolding set1 by auto
    qed
    ultimately show ?thesis unfolding registryInv_def by blast
  qed
  with member gates show ?thesis by (simp add: accountInv_def)
qed

lemma opened_inv:
  assumes inv: "accountInv name as W" and inj: "\<forall>d d' x y. name d x = name d' y \<longrightarrow> x = y"
    and f: "oc_file env = name" and o: "openAccountHistoryAdmission env profile accountID policy W = (Inr a, W1)"
  shows "accountInv name (as @ [a]) W1"
proof (cases rule: openAccount_fields [OF o])
  case (1 b g dir)
  have a: "account a = accountID" "ha_policy a = ha_policy b" "ha_state a = ha_state b" using 1(1,9) by (simp_all add: account_def)
  have j: "joinInv a g (name dir (account a)) W" unfolding joinInv_def a using 1 f by auto
  show ?thesis
  proof (cases "map_of (wa_gates W) (name dir (account a))")
    case (Some g')
    then have W1: "g' = g" "W1 = updateGate g (\<lambda>gate. gate\<lparr>ag_refs := ag_refs gate + 1,
        ag_legacyFloor := maxHistoryTime (ag_legacyFloor (wa_heap W g)) (as_NextAllowed (ha_state b))\<rparr>) W"
      using 1(2) f by (auto simp: joinGate_def a updateGate_def)
    show ?thesis using join_existing [OF inv inj j _ W1(2)] Some W1(1) by simp
  next
    case None
    have g: "g = wa_next W" using 1(2) f None by (auto simp: joinGate_def a)
    have "W1 = W\<lparr>wa_heap := (wa_heap W)(g := \<lparr>ag_legacyFloor = maxHistoryTime 0 (as_NextAllowed (ha_state b)), ag_accountID = account a,
        ag_pending = 0, ag_refs = 1, ag_path = name dir (account a), ag_policy = ha_policy a, ag_failed = None\<rparr>),
      wa_gates := AList.update (name dir (account a)) g (wa_gates W), wa_next := g + 1\<rparr>"
      using 1(2) f None by (auto simp: joinGate_def a updateGate_def)
    from join_new [OF inv j None g this] show ?thesis .
  qed
qed

lemma member_step:
  assumes "accountInv name as W" "i < length as"
    "\<And>g. memberInv W (as ! i) \<Longrightarrow> ha_shared (as ! i) = Some g \<Longrightarrow> gateStep g (as ! i) a W W1"
  shows "accountInv name (as[i := a]) W1"
proof -
  have m: "memberInv W (as ! i)" using assms(1,2) by (simp add: accountInv_def)
  then obtain g where "ha_shared (as ! i) = Some g" by (auto simp: memberInv_def)
  with gateStep_inv [OF assms(1,2)] assms(3) [OF m] show ?thesis by blast
qed

lemma running_inv:
  assumes "running name as W" and inj: "\<forall>d d' x y. name d x = name d' y \<longrightarrow> x = y"
  shows "accountInv name as W"
  using assms(1)
proof (induction rule: running.induct)
  case (start W)
  then show ?case by (simp add: accountInv_def registryInv_def)
next
  case (opened as W env profile accountID policy a W1)
  then show ?case using opened_inv [OF _ inj] by blast
next
  case (reserved as W i r a W1)
  show ?case by (rule member_step [OF reserved.IH reserved(2)]) (rule reserveDemand_step [OF _ _ reserved(3)])
next
  case (finished as W i a W1)
  show ?case by (rule member_step [OF finished.IH finished(2)]) (rule finishDemand_step [OF _ _ finished(3,4)])
next
  case (dispatched as W i env fetch r a W1)
  show ?case by (rule member_step [OF dispatched.IH dispatched(2)]) (rule sameDemand_step [OF dispatchHistory_same [OF dispatched(3)]])
next
  case (stopped as W i a W1)
  show ?case by (rule member_step [OF stopped.IH stopped(2)]) (rule stop_step [OF _ _ stopped(3)])
qed


definition sampleName :: "string \<Rightarrow> int64 \<Rightarrow> string" where
  "sampleName d x = (if x \<ge> 0 then replicate (nat x) CHR ''p'' else replicate (nat (- x)) CHR ''n'')"

lemma sampleName_inj: "\<forall>d d' x y. sampleName d x = sampleName d' y \<longrightarrow> x = y"
proof (intro allI impI)
  fix d d' x y assume e: "sampleName d x = sampleName d' y"
  then have len: "length (sampleName d x) = length (sampleName d' y)" by simp
  show "x = y"
  proof (cases "(0 \<le> x) = (0 \<le> y)")
    case True
    then show ?thesis using len by (auto simp: sampleName_def split: if_splits)
  next
    case False
    then show ?thesis using e by (cases "nat x"; cases "nat y"; cases "nat (- x)"; cases "nat (- y)") (auto simp: sampleName_def split: if_splits)
  qed
qed

definition sampleOpen :: account_env where
  "sampleOpen = \<lparr>oc_own = \<lparr>oa_dir = private_dir, oa_read = None, oa_now = (\<lambda>_. 100)\<rparr>, oc_profileDir = ''/p'', oc_abs = Some,
     oc_dir = private_dir, oc_file = sampleName, oc_read = None, oc_now = (\<lambda>_. 100)\<rparr>"

definition emptyAccounts :: accounts where
  "emptyAccounts = (sampleAccounts None)\<lparr>wa_gates := [], wa_next := 0\<rparr>"


end
