(* ===== verification/Login_Sync.thy ===== *)
theory Login_Sync
  imports Delivery
begin

text \<open>
  The login list: \<open>src/internal/protocol/sessionlogin\<close> (the LOGINLIST request, its status
  classification and the decoder of a LOGINLIST or LCHATLIST page) and
  \<open>src/internal/client/login_sync.go\<close> (following the pages), up to the installation of the
  result in the continuity checkpoint (\<open>adoptSession\<close> of \<open>client.go\<close>).

  The session is its answers: the body of the reply to the \<open>n\<close>-th LCHATLIST request of a
  login, or the error the request ended in. \<open>finishLoginSyncSession\<close> also returns the requests
  it sent. The hook \<open>beforeRequest\<close> has no result and is left out.
  A chat's data is a copy of its document, so the document itself.
\<close>

subsection \<open>The LOGINLIST request\<close>

record LoginListRequest =
  ll_AppVer :: string
  ll_OS :: string
  ll_Lang :: string
  ll_DUUID :: string
  ll_SKey :: string
  ll_OAuthToken :: string
  ll_NType :: int64
  ll_MCCMNC :: string
  ll_Revision :: int64
  ll_DType :: int64
  ll_PCST :: int64
  ll_BG :: bool
  ll_ChatIDs :: "int64 slice"
  ll_MaxIDs :: "int64 slice"
  ll_LastTokenID :: int64
  ll_LBK :: int64

text \<open>
  \<open>strings.TrimSpace(value) == ""\<close>: the bytes of the string are the UTF-8 encodings of
  white-space runes (\<open>unicode.IsSpace\<close>), here by the length of the encoding.
\<close>

definition asciiSpace :: "nat \<Rightarrow> bool" where
  "asciiSpace b \<longleftrightarrow> b = 32 \<or> 9 \<le> b \<and> b \<le> 13"

definition space3 :: "nat \<Rightarrow> nat \<Rightarrow> nat \<Rightarrow> bool" where
  "space3 a b c \<longleftrightarrow>
     (a, b, c) = (225, 154, 128) \<or> (a, b, c) = (227, 128, 128) \<or> (a, b, c) = (226, 129, 159)
     \<or> (a, b) = (226, 128) \<and> (128 \<le> c \<and> c \<le> 138 \<or> c \<in> {168, 169, 175})"

fun allSpace :: "nat list \<Rightarrow> bool" where
  "allSpace [] = True"
| "allSpace (a # bs) =
     (if asciiSpace a then allSpace bs
      else case bs of
        [] \<Rightarrow> False
      | b # cs \<Rightarrow>
          if a = 194 \<and> (b = 133 \<or> b = 160) then allSpace cs
          else case cs of [] \<Rightarrow> False | c # ds \<Rightarrow> space3 a b c \<and> allSpace ds)"

definition trimmedEmpty :: "string \<Rightarrow> bool" where
  "trimmedEmpty s = allSpace (map of_char s)"

definition LoginListRequest_Validate :: "LoginListRequest \<Rightarrow> go_error option" where
  "LoginListRequest_Validate r =
     (if list_ex trimmedEmpty [ll_AppVer r, ll_OS r, ll_Lang r, ll_DUUID r, ll_OAuthToken r]
      then Some sessionlogin_ErrMissingRequiredValue
      else if ll_SKey r \<noteq> [] then Some sessionlogin_ErrSKeySet
      else if length (sl (ll_ChatIDs r)) \<noteq> length (sl (ll_MaxIDs r))
      then Some sessionlogin_ErrChatListLengthMismatch
      else None)"

definition loginListDocument :: "LoginListRequest \<Rightarrow> (string \<times> 'r field) list" where
  "loginListDocument r =
     [(''appVer'', FString (ll_AppVer r)), (''os'', FString (ll_OS r)), (''lang'', FString (ll_Lang r)),
      (''duuid'', FString (ll_DUUID r)), (''oauthToken'', FString (ll_OAuthToken r)),
      (''ntype'', FInt32 (ll_NType r))]
     @ (if ll_MCCMNC r = [] then [] else [(''MCCMNC'', FString (ll_MCCMNC r))])
     @ [(''revision'', FInt32 (ll_Revision r)), (''dtype'', FInt32 (ll_DType r)),
        (''pcst'', FInt32 (ll_PCST r)), (''bg'', FBool (ll_BG r)),
        (''chatIds'', FInt64s (sl (ll_ChatIDs r))), (''maxIds'', FInt64s (sl (ll_MaxIDs r))),
        (''lastTokenId'', FInt64 (ll_LastTokenID r)), (''lbk'', FInt32 (ll_LBK r))]"

definition LoginListRequest_MarshalBSON ::
    "'r bson \<Rightarrow> LoginListRequest \<Rightarrow> 'r result" where
  "LoginListRequest_MarshalBSON B r =
     (case LoginListRequest_Validate r of
        Some e \<Rightarrow> Inl e
      | None \<Rightarrow> (case bs_Marshal B (loginListDocument r) of
          None \<Rightarrow> Inl (Other ''sessionlogin: encode LOGINLIST'') | Some raw \<Rightarrow> Inr raw))"

subsection \<open>Statuses\<close>

datatype LoginStatusClass =
  LoginStatusUnknown | LoginStatusSuccess | LoginStatusPartialSuccess | LoginStatusBlocked

record ClassifiedStatus =
  cs_Code :: int64
  cs_Class :: LoginStatusClass

definition ClassifyLoginStatus :: "int64 \<Rightarrow> ClassifiedStatus" where
  "ClassifyLoginStatus code =
     \<lparr>cs_Code = code,
      cs_Class = (if code = 0 \<or> code = -305 then LoginStatusSuccess
                  else if code = -310 then LoginStatusPartialSuccess
                  else if code = -445 then LoginStatusBlocked
                  else LoginStatusUnknown)\<rparr>"

definition Accepted :: "ClassifiedStatus \<Rightarrow> bool" where
  "Accepted s \<longleftrightarrow> cs_Class s = LoginStatusSuccess"

definition StatusLoginListDeltaOnly :: int64 where "StatusLoginListDeltaOnly = -305"
definition StatusPartial :: int64 where "StatusPartial = -310"

definition AcceptedLChatListStatus :: "int64 \<Rightarrow> bool" where
  "AcceptedLChatListStatus status \<longleftrightarrow> status = 0 \<or> status = StatusPartial"

definition replyFailure :: "string \<Rightarrow> go_error option \<Rightarrow> go_error option \<Rightarrow> int64 \<Rightarrow> go_error option" where
  "replyFailure command requestErr statusErr status =
     (if requestErr \<noteq> None then requestErr
      else if statusErr \<noteq> None then statusErr
      else if status \<noteq> 0 then Some (StatusError command status)
      else None)"

text \<open>
  A bootstrap failure wraps both the sentinel and the cause; any other wraps the sentinel and
  formats the cause.
\<close>

definition stageErr :: "go_error \<Rightarrow> string \<Rightarrow> go_error \<Rightarrow> go_error" where
  "stageErr snt stage cause = (if snt = errBootstrap then Joined [snt, cause] else snt)"

subsection \<open>A page\<close>

record LChatListRequest =
  lr_LastTokenID :: int64
  lr_LastChatID :: int64

definition LChatListRequest_MarshalBSON :: "'r bson \<Rightarrow> LChatListRequest \<Rightarrow> 'r option" where
  "LChatListRequest_MarshalBSON B r =
     bs_Marshal B [(''lastTokenId'', FInt64 (lr_LastTokenID r)), (''lastChatId'', FInt64 (lr_LastChatID r))]"

record 'r LoginChat =
  lg_ChatID :: int64
  lg_MaxLogID :: int64
  lg_Data :: 'r

record 'r LoginListPage =
  lp_Status :: int64
  lp_DeletedChatIDs :: "int64 list"
  lp_Chats :: "'r LoginChat list"
  lp_EOF :: bool
  lp_LastTokenID :: "int64 option"
  lp_LBK :: "int64 option"
  lp_MCMRevision :: "int64 option"
  lp_Next :: "LChatListRequest option"

definition CommitsCursor :: "'r LoginListPage \<Rightarrow> bool" where
  "CommitsCursor p \<longleftrightarrow> lp_Status p = 0 \<and> lp_EOF p"

definition sessionlogin_fields :: Reader where
  "sessionlogin_fields = \<lparr>r_Err = Some sessionlogin_ErrMalformedPage, r_NullAbsent = False\<rparr>"

text \<open>The loop of \<open>decodeDeletedChatIDs\<close>.\<close>

fun deletedIDs :: "'r rawvalue list \<Rightarrow> int64 list result" where
  "deletedIDs [] = Inr []"
| "deletedIDs (v # vs) =
     (case Int64Value v of
        None \<Rightarrow> Inl sessionlogin_ErrMalformedPage
      | Some chatID \<Rightarrow>
          if chatID \<le> 0 then Inl sessionlogin_ErrMalformedPage
          else (case deletedIDs vs of Inl e \<Rightarrow> Inl e | Inr ids \<Rightarrow> Inr (chatID # ids)))"

definition decodeDeletedChatIDs :: "'r bson \<Rightarrow> 'r rawvalue \<Rightarrow> int64 list result" where
  "decodeDeletedChatIDs B v =
     (case v of
        VArray a \<Rightarrow> (case bs_Values B a of
            None \<Rightarrow> Inl sessionlogin_ErrMalformedPage | Some vs \<Rightarrow> deletedIDs vs)
      | _ \<Rightarrow> Inl sessionlogin_ErrMalformedPage)"

text \<open>A chat whose \<open>l\<close> is absent or null takes its target from \<open>ll\<close> alone.\<close>

definition decodeLoginChat :: "'r bson \<Rightarrow> 'r \<Rightarrow> 'r LoginChat result" where
  "decodeLoginChat B raw =
     (case Int64 B sessionlogin_fields raw [''c''] of
        Inr (Some chatID) \<Rightarrow>
          if chatID \<le> 0 then Inl sessionlogin_ErrMalformedPage
          else
            (let ll = Int64 B sessionlogin_fields raw [''ll'']
             in case bs_LookupErr B raw ''l'' of
                  None \<Rightarrow> Inr \<lparr>lg_ChatID = chatID, lg_MaxLogID = (case ll of Inr (Some n) \<Rightarrow> if n > 0 then n else 0 | _ \<Rightarrow> 0), lg_Data = raw\<rparr>
                | Some VNull \<Rightarrow> Inr \<lparr>lg_ChatID = chatID, lg_MaxLogID = (case ll of Inr (Some n) \<Rightarrow> if n > 0 then n else 0 | _ \<Rightarrow> 0), lg_Data = raw\<rparr>
                | Some (VDoc d) \<Rightarrow>
                    (case Int64 B sessionlogin_fields d [''logId''] of
                       Inr (Some logID) \<Rightarrow>
                         if logID \<le> 0 then Inl sessionlogin_ErrMalformedPage
                         else if (case Int64 B sessionlogin_fields d [''chatId''] of
                                    Inr (Some nested) \<Rightarrow> nested \<noteq> chatID | _ \<Rightarrow> False)
                         then Inl sessionlogin_ErrMalformedPage
                         else Inr \<lparr>lg_ChatID = chatID,
                                   lg_MaxLogID = (case ll of Inr (Some n) \<Rightarrow> if n > logID then n else logID | _ \<Rightarrow> logID),
                                   lg_Data = raw\<rparr>
                     | _ \<Rightarrow> Inl sessionlogin_ErrMalformedPage)
                | Some _ \<Rightarrow> Inl sessionlogin_ErrMalformedPage)
      | _ \<Rightarrow> Inl sessionlogin_ErrMalformedPage)"

text \<open>The loop of \<open>decodeLoginChats\<close>.\<close>

fun loginChats :: "'r bson \<Rightarrow> 'r rawvalue list \<Rightarrow> 'r LoginChat list result" where
  "loginChats B [] = Inr []"
| "loginChats B (v # vs) =
     (case v of
        VDoc d \<Rightarrow> (case decodeLoginChat B d of
            Inl e \<Rightarrow> Inl e
          | Inr chat \<Rightarrow> (case loginChats B vs of Inl e \<Rightarrow> Inl e | Inr chats \<Rightarrow> Inr (chat # chats)))
      | _ \<Rightarrow> Inl sessionlogin_ErrMalformedPage)"

definition decodeLoginChats :: "'r bson \<Rightarrow> 'r rawvalue \<Rightarrow> 'r LoginChat list result" where
  "decodeLoginChats B v =
     (case v of
        VArray a \<Rightarrow> (case bs_Values B a of
            None \<Rightarrow> Inl sessionlogin_ErrMalformedPage | Some vs \<Rightarrow> loginChats B vs)
      | _ \<Rightarrow> Inl sessionlogin_ErrMalformedPage)"

text \<open>The three optional scalars of a page, then the request that continues the list.\<close>

definition pageCursors :: "'r bson \<Rightarrow> 'r \<Rightarrow> 'r LoginListPage \<Rightarrow> 'r LoginListPage" where
  "pageCursors B body page = page
     \<lparr>lp_LastTokenID := (case Int64 B sessionlogin_fields body [''lastTokenId''] of
          Inr (Some n) \<Rightarrow> if n \<ge> 0 then Some n else None | _ \<Rightarrow> None),
      lp_LBK := (case Int64 B sessionlogin_fields body [''lbk''] of
          Inr (Some n) \<Rightarrow> if n \<ge> 0 \<and> n \<le> maxInt32 then Some n else None | _ \<Rightarrow> None),
      lp_MCMRevision := (case bs_LookupErr B body ''mcmRevision'' of
          Some (VInt32 n) \<Rightarrow> Some n | _ \<Rightarrow> None)\<rparr>"

definition pageNext :: "'r bson \<Rightarrow> 'r \<Rightarrow> 'r LoginListPage \<Rightarrow> 'r LoginListPage result" where
  "pageNext B body page =
     (if lp_Status page = 0 \<and> \<not> lp_EOF page then
        (case (Int64 B sessionlogin_fields body [''lastTokenId''], Int64 B sessionlogin_fields body [''lastChatId'']) of
           (Inr (Some token), Inr (Some chat)) \<Rightarrow>
             Inr (page\<lparr>lp_Next := Some \<lparr>lr_LastTokenID = token, lr_LastChatID = chat\<rparr>\<rparr>)
         | _ \<Rightarrow> Inl sessionlogin_ErrMalformedPage)
      else Inr page)"

definition DecodeLoginListPage :: "'r bson \<Rightarrow> 'r \<Rightarrow> 'r LoginListPage result" where
  "DecodeLoginListPage B body =
     (if \<not> bs_Validate B body then Inl sessionlogin_ErrMalformedPage
      else case Int32 B sessionlogin_fields body [''status''] of
        Inr (Some status) \<Rightarrow>
          if status \<noteq> 0 \<and> status \<noteq> StatusLoginListDeltaOnly \<and> status \<noteq> StatusPartial
          then Inl sessionlogin_ErrMalformedPage
          else
            (case bs_LookupErr B body ''eof'' of
               Some (VBool eof) \<Rightarrow>
                 (case (case bs_LookupErr B body ''delChatIds'' of
                          None \<Rightarrow> Inr [] | Some v \<Rightarrow> decodeDeletedChatIDs B v) of
                    Inl e \<Rightarrow> Inl e
                  | Inr deleted \<Rightarrow>
                      (case (case bs_LookupErr B body ''chatDatas'' of
                               None \<Rightarrow> Inr [] | Some v \<Rightarrow> decodeLoginChats B v) of
                         Inl e \<Rightarrow> Inl e
                       | Inr chats \<Rightarrow>
                           pageNext B body (pageCursors B body
                             \<lparr>lp_Status = status, lp_DeletedChatIDs = deleted, lp_Chats = chats,
                              lp_EOF = eof, lp_LastTokenID = None, lp_LBK = None,
                              lp_MCMRevision = None, lp_Next = None\<rparr>)))
             | _ \<Rightarrow> Inl sessionlogin_ErrMalformedPage)
      | _ \<Rightarrow> Inl sessionlogin_ErrMalformedPage)"

subsection \<open>Following the pages\<close>

record 'r loginCursor =
  lc_chatData :: "int64 \<rightharpoonup> 'r"
  lc_complete :: bool
  lc_lastTokenID :: "int64 option"
  lc_lbk :: "int64 option"
  lc_observed :: "ChatTarget list"
  lc_deleted :: "int64 list"
  lc_replaceInventory :: bool
  lc_mcmRevision :: "int64 option"
  lc_pages :: nat

definition zeroCursor :: "'r loginCursor" where
  "zeroCursor = \<lparr>lc_chatData = Map.empty, lc_complete = False, lc_lastTokenID = None, lc_lbk = None,
     lc_observed = [], lc_deleted = [], lc_replaceInventory = False, lc_mcmRevision = None, lc_pages = 0\<rparr>"

text \<open>Removing the first target of a chat, and replacing it or appending a new one.\<close>

fun dropTarget :: "int64 \<Rightarrow> ChatTarget list \<Rightarrow> ChatTarget list" where
  "dropTarget chatID [] = []"
| "dropTarget chatID (t # ts) = (if ct_ChatID t = chatID then ts else t # dropTarget chatID ts)"

fun setLoginTarget :: "ChatTarget list \<Rightarrow> ChatTarget \<Rightarrow> ChatTarget list" where
  "setLoginTarget [] target = [target]"
| "setLoginTarget (t # ts) target =
     (if ct_ChatID t = ct_ChatID target then target # ts else t # setLoginTarget ts target)"

definition applyDeleted :: "int64 \<Rightarrow> 'r loginCursor \<Rightarrow> 'r loginCursor" where
  "applyDeleted chatID c = c
     \<lparr>lc_deleted := lc_deleted c @ [chatID],
      lc_chatData := (lc_chatData c)(chatID := None),
      lc_observed := dropTarget chatID (lc_observed c)\<rparr>"

definition applyChat :: "'r LoginChat \<Rightarrow> 'r loginCursor \<Rightarrow> 'r loginCursor" where
  "applyChat chat c = c
     \<lparr>lc_observed := setLoginTarget (lc_observed c) \<lparr>ct_ChatID = lg_ChatID chat, ct_MaxLogID = lg_MaxLogID chat\<rparr>,
      lc_chatData := (lc_chatData c)(lg_ChatID chat \<mapsto> lg_Data chat)\<rparr>"

definition apply_page :: "'r LoginListPage \<Rightarrow> 'r loginCursor \<Rightarrow> 'r loginCursor" where
  "apply_page page c =
     (let c1 = (if lc_pages c = 0 then c\<lparr>lc_mcmRevision := lp_MCMRevision page\<rparr> else c);
          c2 = c1\<lparr>lc_pages := lc_pages c1 + 1\<rparr>;
          c3 = (if CommitsCursor page
                then c2\<lparr>lc_lastTokenID := (case lp_LastTokenID page of None \<Rightarrow> lc_lastTokenID c2 | Some t \<Rightarrow> Some t),
                        lc_lbk := (case lp_LBK page of None \<Rightarrow> lc_lbk c2 | Some b \<Rightarrow> Some b)\<rparr>
                else c2);
          c4 = fold applyDeleted (lp_DeletedChatIDs page) c3
      in fold applyChat (lp_Chats page) c4)"

definition maxLoginPages :: nat where "maxLoginPages = 20"

fun loginPages ::
    "'r bson \<Rightarrow> (nat \<Rightarrow> 'r \<Rightarrow> 'r result) \<Rightarrow> nat \<Rightarrow> nat \<Rightarrow> string \<Rightarrow> 'r \<Rightarrow> 'r list \<Rightarrow> 'r loginCursor
      \<Rightarrow> LChatListRequest list \<times> 'r loginCursor \<times> 'r list result" where
  "loginPages B answer 0 n command body chats cursor =
     ([], cursor, Inl (protocolErr ''LCHATLIST'' ''pages''))"
| "loginPages B answer (Suc left) n command body chats cursor =
     (case DecodeLoginListPage B body of
        Inl _ \<Rightarrow> ([], cursor, Inl (protocolErr command ''page''))
      | Inr page \<Rightarrow>
          (let cursor1 = apply_page page cursor; chats1 = chats @ map lg_Data (lp_Chats page)
           in case lp_Next page of
                None \<Rightarrow> ([], cursor1\<lparr>lc_complete := CommitsCursor page\<rparr>, Inr chats1)
              | Some nxt \<Rightarrow>
                  (case LChatListRequest_MarshalBSON B nxt of
                     None \<Rightarrow> ([], cursor1, Inl (protocolErr ''LCHATLIST'' ''request''))
                   | Some req \<Rightarrow>
                       (let (sent, result) =
                          (case answer n req of
                             Inl e \<Rightarrow> ([], cursor1, Inl (stageErr ErrProtocol ''LCHATLIST'' e))
                           | Inr reply \<Rightarrow>
                               (case loco_Status B reply of
                                  Inr status \<Rightarrow>
                                    if AcceptedLChatListStatus status
                                    then loginPages B answer left (n + 1) ''LCHATLIST'' reply chats1 cursor1
                                    else ([], cursor1, Inl (protocolErr ''LCHATLIST'' ''status''))
                                | Inl _ \<Rightarrow> ([], cursor1, Inl (protocolErr ''LCHATLIST'' ''status''))))
                        in (nxt # sent, result)))))"

definition finishLoginSyncSession ::
    "'r bson \<Rightarrow> (nat \<Rightarrow> 'r \<Rightarrow> 'r result) \<Rightarrow> 'r \<Rightarrow> LChatListRequest list \<times> 'r loginCursor \<times> 'r list result" where
  "finishLoginSyncSession B answer first =
     loginPages B answer maxLoginPages 0 ''LOGINLIST'' first [] zeroCursor"

subsection \<open>The session's login\<close>

text \<open>
  The part of \<open>connectSession\<close> from the LOGINLIST reply on: the status, the pages, and whether
  the result replaces the whole inventory. \<open>bootstrapped\<close> is the answer of \<open>finishBootstrap\<close>:
  false when the session was closed meanwhile.
\<close>

record 'r login =
  lo_minLogID :: int64
  lo_status :: int64
  lo_chatData :: "'r list"
  lo_cursor :: "'r loginCursor"

definition completeLogin ::
    "'r bson \<Rightarrow> (nat \<Rightarrow> 'r \<Rightarrow> 'r result) \<Rightarrow> bool \<Rightarrow> Checkpoint \<Rightarrow> 'r \<Rightarrow> 'r login result" where
  "completeLogin B answer bootstrapped resume reply =
     (case loco_Status B reply of
        Inl e \<Rightarrow> Inl (stageErr ErrLogin ''loginlist'' e)
      | Inr status \<Rightarrow>
          if \<not> Accepted (ClassifyLoginStatus status) then Inl (StatusError ''LOGINLIST'' status)
          else
            (case finishLoginSyncSession B answer reply of
               (_, _, Inl e) \<Rightarrow> Inl (stageErr ErrLogin ''lchatlist'' e)
             | (_, cursor, Inr chatData) \<Rightarrow>
                 if \<not> bootstrapped then Inl ErrClosed
                 else Inr \<lparr>lo_minLogID = Int64OrZero B reply [''minLogId''], lo_status = status,
                      lo_chatData = chatData,
                      lo_cursor = cursor\<lparr>lc_replaceInventory := LastTokenID resume = 0 \<and> lc_complete cursor\<rparr>\<rparr>))"

definition LoginCompleted :: "'r login option \<Rightarrow> bool" where
  "LoginCompleted session \<longleftrightarrow> (\<exists>s\<in>set_option session. lo_status s \<noteq> StatusLoginListDeltaOnly)"

text \<open>The session is published as the value of the call; a failed installation closes the client.\<close>

definition adoptSession :: "write_env \<Rightarrow> 'r login \<Rightarrow> 'r client \<Rightarrow> 'r login result \<times> 'r client" where
  "adoptSession env session c =
     (let publish = (\<lambda>c. if cl_closed c then (Inl ErrClientClosed, c) else (Inr session, c));
          cursor = lo_cursor session
      in if store (cl_world c) = None then publish c
         else case InstallSession env (lc_lastTokenID cursor) (lc_lbk cursor) (lc_observed cursor)
                     (lc_deleted cursor) (lc_replaceInventory cursor) (cl_world c) of
                (Some e, w) \<Rightarrow> (Inl e, c\<lparr>cl_world := w, cl_closed := True\<rparr>)
              | (None, w) \<Rightarrow> publish (c\<lparr>cl_world := w\<rparr>))"

subsection \<open>Specification: the last word on each chat\<close>

text \<open>
  What the pages say, in the order they say it: a page's deletions before its chats. The last word
  on a chat decides.
\<close>

datatype 'r word_on = Gone | Seen int64 'r

definition mentions :: "'r LoginListPage \<Rightarrow> (int64 \<times> 'r word_on) list" where
  "mentions page = map (\<lambda>i. (i, Gone)) (lp_DeletedChatIDs page)
     @ map (\<lambda>chat. (lg_ChatID chat, Seen (lg_MaxLogID chat) (lg_Data chat))) (lp_Chats page)"

definition lastWord :: "'r LoginListPage list \<Rightarrow> int64 \<Rightarrow> 'r word_on option" where
  "lastWord pages = map_of (rev (concat (map mentions pages)))"

fun seenData :: "'r word_on option \<Rightarrow> 'r option" where
  "seenData (Some (Seen m d)) = Some d"
| "seenData _ = None"

fun seenMax :: "'r word_on option \<Rightarrow> int64 option" where
  "seenMax (Some (Seen m d)) = Some m"
| "seenMax _ = None"

text \<open>The pages of a list that ends: each but the last names the request whose accepted reply is the next.\<close>

fun pageChain :: "'r bson \<Rightarrow> (nat \<Rightarrow> 'r \<Rightarrow> 'r result) \<Rightarrow> nat \<Rightarrow> 'r \<Rightarrow> 'r LoginListPage list \<Rightarrow> bool" where
  "pageChain B answer n body [] = False"
| "pageChain B answer n body (page # pages) =
     (DecodeLoginListPage B body = Inr page \<and>
      (case lp_Next page of
         None \<Rightarrow> pages = []
       | Some nxt \<Rightarrow>
           (case LChatListRequest_MarshalBSON B nxt of
              None \<Rightarrow> False
            | Some req \<Rightarrow>
                (case answer n req of
                   Inl _ \<Rightarrow> False
                 | Inr reply \<Rightarrow>
                     (case loco_Status B reply of
                        Inl _ \<Rightarrow> False
                      | Inr status \<Rightarrow> AcceptedLChatListStatus status \<and> pageChain B answer (n + 1) reply pages)))))"

subsection \<open>Following the pages, proved\<close>

lemma DecodeLoginListPage_ok:
  assumes "DecodeLoginListPage B body = Inr page"
  obtains status eof deleted chats where
    "(case bs_LookupErr B body ''delChatIds'' of None \<Rightarrow> Inr [] | Some v \<Rightarrow> decodeDeletedChatIDs B v) = Inr deleted"
    "(case bs_LookupErr B body ''chatDatas'' of None \<Rightarrow> Inr [] | Some v \<Rightarrow> decodeLoginChats B v) = Inr chats"
    "pageNext B body (pageCursors B body
       \<lparr>lp_Status = status, lp_DeletedChatIDs = deleted, lp_Chats = chats, lp_EOF = eof,
        lp_LastTokenID = None, lp_LBK = None, lp_MCMRevision = None, lp_Next = None\<rparr>) = Inr page"
proof -
  have valid: "bs_Validate B body" using assms by (cases "bs_Validate B body") (simp_all add: DecodeLoginListPage_def)
  obtain status where status: "Int32 B sessionlogin_fields body [''status''] = Inr (Some status)"
    using assms valid by (cases "Int32 B sessionlogin_fields body [''status'']" rule: sum.exhaust)
      (auto simp: DecodeLoginListPage_def split: option.splits)
  have accepted: "\<not> (status \<noteq> 0 \<and> status \<noteq> StatusLoginListDeltaOnly \<and> status \<noteq> StatusPartial)"
    by (rule notI) (use assms valid status in \<open>simp add: DecodeLoginListPage_def\<close>)
  obtain v where v: "bs_LookupErr B body ''eof'' = Some v"
    using assms valid status accepted by (cases "bs_LookupErr B body ''eof''") (simp_all add: DecodeLoginListPage_def)
  obtain eof where eof: "v = VBool eof"
    using assms valid status accepted v by (cases v) (simp_all add: DecodeLoginListPage_def)
  let ?d = "case bs_LookupErr B body ''delChatIds'' of None \<Rightarrow> Inr [] | Some v \<Rightarrow> decodeDeletedChatIDs B v"
  let ?c = "case bs_LookupErr B body ''chatDatas'' of None \<Rightarrow> Inr [] | Some v \<Rightarrow> decodeLoginChats B v"
  obtain deleted where d: "?d = Inr deleted"
    using assms valid status accepted v eof by (cases ?d) (simp_all add: DecodeLoginListPage_def)
  obtain chats where c: "?c = Inr chats"
    using assms valid status accepted v eof d by (cases ?c) (simp_all add: DecodeLoginListPage_def)
  show ?thesis
    by (rule that [OF d c]) (use assms valid status accepted v eof d c in \<open>simp add: DecodeLoginListPage_def\<close>)
qed

lemma pageCursors_simps [simp]:
  "lp_Status (pageCursors B body p) = lp_Status p" "lp_EOF (pageCursors B body p) = lp_EOF p"
  "lp_DeletedChatIDs (pageCursors B body p) = lp_DeletedChatIDs p" "lp_Chats (pageCursors B body p) = lp_Chats p"
  "lp_Next (pageCursors B body p) = lp_Next p"
  by (simp_all add: pageCursors_def)

lemma pageNext_Inr:
  assumes "pageNext B body p = Inr page"
  shows "\<exists>nxt. page = p\<lparr>lp_Next := nxt\<rparr>
    \<and> (nxt \<noteq> lp_Next p \<longrightarrow> lp_Status p = 0 \<and> \<not> lp_EOF p) \<and> (lp_Status p = 0 \<and> \<not> lp_EOF p \<longrightarrow> nxt \<noteq> None)"
proof (cases "lp_Status p = 0 \<and> \<not> lp_EOF p")
  case True
  with assms show ?thesis by (auto simp: pageNext_def split: sum.splits option.splits)
next
  case False
  with assms show ?thesis by (intro exI [of _ "lp_Next p"]) (auto simp: pageNext_def)
qed

lemma DecodeLoginListPage_next:
  assumes "DecodeLoginListPage B body = Inr page"
  shows "lp_Next page \<noteq> None \<longleftrightarrow> lp_Status page = 0 \<and> \<not> lp_EOF page"
  using assms by (rule DecodeLoginListPage_ok) (drule pageNext_Inr, fastforce)

lemma chain_success:
  "pageChain B answer n body pages \<Longrightarrow> length pages \<le> left \<Longrightarrow>
   loginPages B answer left n command body chats cursor =
     (map (the \<circ> lp_Next) (butlast pages),
      (fold apply_page pages cursor)\<lparr>lc_complete := CommitsCursor (last pages)\<rparr>,
      Inr (chats @ concat (map (map lg_Data \<circ> lp_Chats) pages)))"
proof (induction pages arbitrary: left n command body chats cursor)
  case (Cons page pages)
  then obtain left' where left: "left = Suc left'" by (cases left) auto
  show ?case
  proof (cases "lp_Next page")
    case None
    with Cons.prems left show ?thesis by simp
  next
    case (Some nxt)
    with Cons.prems obtain req reply status where r: "LChatListRequest_MarshalBSON B nxt = Some req"
        "answer n req = Inr reply" "loco_Status B reply = Inr status" "AcceptedLChatListStatus status"
        "pageChain B answer (n + 1) reply pages"
      by (auto split: option.splits sum.splits)
    then have "pages \<noteq> []" by auto
    with Cons.prems left Some r show ?thesis
      by (simp add: Cons.IH Let_def)
  qed
qed simp

lemma success_chain:
  "loginPages B answer left n command body chats cursor = (sent, cursor', Inr chats') \<Longrightarrow>
   \<exists>pages. pageChain B answer n body pages \<and> length pages \<le> left"
proof (induction left arbitrary: n command body chats cursor sent)
  case (Suc left)
  from Suc.prems obtain page where page: "DecodeLoginListPage B body = Inr page"
    by (cases "DecodeLoginListPage B body") auto
  show ?case
  proof (cases "lp_Next page")
    case None
    with page show ?thesis by (intro exI [of _ "[page]"]) simp
  next
    case (Some nxt)
    with Suc.prems page obtain req where req: "LChatListRequest_MarshalBSON B nxt = Some req"
      by (auto simp: Let_def split: option.splits)
    with Suc.prems page Some obtain reply where reply: "answer n req = Inr reply"
      by (cases "answer n req") (auto simp: Let_def)
    with Suc.prems page Some req obtain status where st: "loco_Status B reply = Inr status" "AcceptedLChatListStatus status"
      by (cases "loco_Status B reply") (auto simp: Let_def split: if_splits)
    with Suc.prems page Some req reply obtain sent' where
        "loginPages B answer left (n + 1) ''LCHATLIST'' reply (chats @ map lg_Data (lp_Chats page)) (apply_page page cursor)
           = (sent', cursor', Inr chats')"
      by (auto simp: Let_def split: prod.splits)
    from Suc.IH [OF this] obtain pages where "pageChain B answer (n + 1) reply pages" "length pages \<le> left" by blast
    with page Some req reply st show ?thesis by (intro exI [of _ "page # pages"]) simp
  qed
qed simp

subsection \<open>The inventory, proved\<close>

definition targetsOf :: "ChatTarget list \<Rightarrow> int64 \<rightharpoonup> int64" where
  "targetsOf ts = map_of (map (\<lambda>t. (ct_ChatID t, ct_MaxLogID t)) ts)"

definition agrees :: "'r loginCursor \<Rightarrow> (int64 \<Rightarrow> 'r word_on option) \<Rightarrow> bool" where
  "agrees c w \<longleftrightarrow> distinct (map ct_ChatID (lc_observed c)) \<and> lc_chatData c = seenData \<circ> w
     \<and> targetsOf (lc_observed c) = seenMax \<circ> w"

lemma targetsOf_None: "targetsOf ts i = None \<longleftrightarrow> i \<notin> ct_ChatID ` set ts"
  by (auto simp: targetsOf_def map_of_eq_None_iff image_image)

lemma dropTarget_set: "set (dropTarget i ts) \<subseteq> set ts"
  by (induction ts) auto

lemma dropTarget_ok:
  assumes "distinct (map ct_ChatID ts)"
  shows "distinct (map ct_ChatID (dropTarget i ts))" "targetsOf (dropTarget i ts) = (targetsOf ts)(i := None)"
proof -
  show "distinct (map ct_ChatID (dropTarget i ts))"
    using assms dropTarget_set by (induction ts) fastforce+
  show "targetsOf (dropTarget i ts) = (targetsOf ts)(i := None)"
    using assms
  proof (induction ts)
    case (Cons t ts)
    then show ?case by (cases "ct_ChatID t = i") (auto simp: targetsOf_def fun_eq_iff map_of_eq_None_iff image_image)
  qed (simp add: targetsOf_def)
qed

lemma setLoginTarget_ids:
  "set (map ct_ChatID (setLoginTarget ts t)) = insert (ct_ChatID t) (set (map ct_ChatID ts))"
  by (induction ts) auto

lemma setLoginTarget_set: "set (setLoginTarget ts t) \<subseteq> insert t (set ts)"
  by (induction ts) auto

lemma setLoginTarget_ok:
  assumes "distinct (map ct_ChatID ts)"
  shows "distinct (map ct_ChatID (setLoginTarget ts t))"
    "targetsOf (setLoginTarget ts t) = (targetsOf ts)(ct_ChatID t \<mapsto> ct_MaxLogID t)"
proof -
  show "distinct (map ct_ChatID (setLoginTarget ts t))"
    using assms
  proof (induction ts)
    case (Cons a ts)
    then show ?case using setLoginTarget_ids [of ts t] by auto
  qed simp
  show "targetsOf (setLoginTarget ts t) = (targetsOf ts)(ct_ChatID t \<mapsto> ct_MaxLogID t)"
    by (induction ts) (auto simp: targetsOf_def)
qed

lemma applyDeleted_agrees: "agrees c w \<Longrightarrow> agrees (applyDeleted i c) (w(i \<mapsto> Gone))"
  by (auto simp: agrees_def applyDeleted_def dropTarget_ok)

lemma applyChat_agrees:
  "agrees c w \<Longrightarrow> agrees (applyChat chat c) (w(lg_ChatID chat \<mapsto> Seen (lg_MaxLogID chat) (lg_Data chat)))"
  by (auto simp: agrees_def applyChat_def setLoginTarget_ok)

lemma fold_agrees:
  assumes "\<And>x c w. agrees c w \<Longrightarrow> agrees (f x c) (w(fst (g x) \<mapsto> snd (g x)))" "agrees c (map_of (rev ms))"
  shows "agrees (fold f xs c) (map_of (rev (ms @ map g xs)))"
  using assms(2)
proof (induction xs arbitrary: c ms)
  case (Cons x xs)
  have "agrees (f x c) (map_of (rev (ms @ [g x])))"
    using assms(1) [OF Cons.prems, of x] by (cases "g x") simp
  from Cons.IH [OF this] show ?case by simp
qed simp

lemma apply_page_agrees:
  assumes "agrees c (map_of (rev ms))"
  shows "agrees (apply_page page c) (map_of (rev (ms @ mentions page)))"
proof -
  have start: "agrees (c\<lparr>lc_mcmRevision := m, lc_pages := n, lc_lastTokenID := t, lc_lbk := b\<rparr>) (map_of (rev ms))" for m n t b
    using assms by (simp add: agrees_def)
  obtain m n t b where c3: "apply_page page c = fold applyChat (lp_Chats page) (fold applyDeleted (lp_DeletedChatIDs page)
      (c\<lparr>lc_mcmRevision := m, lc_pages := n, lc_lastTokenID := t, lc_lbk := b\<rparr>))"
  proof
    show "apply_page page c = fold applyChat (lp_Chats page) (fold applyDeleted (lp_DeletedChatIDs page)
      (c\<lparr>lc_mcmRevision := (if lc_pages c = 0 then lp_MCMRevision page else lc_mcmRevision c), lc_pages := lc_pages c + 1,
         lc_lastTokenID := (if CommitsCursor page \<and> lp_LastTokenID page \<noteq> None then lp_LastTokenID page else lc_lastTokenID c),
         lc_lbk := (if CommitsCursor page \<and> lp_LBK page \<noteq> None then lp_LBK page else lc_lbk c)\<rparr>))"
      by (cases c) (auto simp: apply_page_def Let_def split: option.splits)
  qed
  have "agrees (fold applyDeleted (lp_DeletedChatIDs page) (c\<lparr>lc_mcmRevision := m, lc_pages := n, lc_lastTokenID := t, lc_lbk := b\<rparr>))
      (map_of (rev (ms @ map (\<lambda>i. (i, Gone)) (lp_DeletedChatIDs page))))"
    by (rule fold_agrees) (use applyDeleted_agrees start in auto)
  from fold_agrees [of applyChat "\<lambda>chat. (lg_ChatID chat, Seen (lg_MaxLogID chat) (lg_Data chat))", OF _ this, of "lp_Chats page"]
  show ?thesis by (simp add: c3 mentions_def applyChat_agrees)
qed

lemma pages_agree: "agrees (fold apply_page pages zeroCursor) (lastWord pages)"
proof -
  have "agrees c (map_of (rev ms)) \<Longrightarrow>
      agrees (fold apply_page pages c) (map_of (rev (ms @ concat (map mentions pages))))" for c :: "'a loginCursor" and ms
  proof (induction pages arbitrary: c ms)
    case (Cons page pages)
    from Cons.IH [OF apply_page_agrees [OF Cons.prems, of page]] show ?case by simp
  qed simp
  from this [of zeroCursor "[]"] show ?thesis by (simp add: lastWord_def agrees_def zeroCursor_def targetsOf_def fun_eq_iff)
qed

text \<open>The parts of the cursor the pages' chats do not touch.\<close>

lemma fold_applyDeleted [simp]:
  "lc_deleted (fold applyDeleted xs c) = lc_deleted c @ xs"
  "lc_lastTokenID (fold applyDeleted xs c) = lc_lastTokenID c" "lc_lbk (fold applyDeleted xs c) = lc_lbk c"
  "lc_pages (fold applyDeleted xs c) = lc_pages c" "lc_mcmRevision (fold applyDeleted xs c) = lc_mcmRevision c"
  by (induction xs arbitrary: c) (simp_all add: applyDeleted_def)

lemma fold_applyChat [simp]:
  "lc_deleted (fold applyChat xs c) = lc_deleted c"
  "lc_lastTokenID (fold applyChat xs c) = lc_lastTokenID c" "lc_lbk (fold applyChat xs c) = lc_lbk c"
  "lc_pages (fold applyChat xs c) = lc_pages c" "lc_mcmRevision (fold applyChat xs c) = lc_mcmRevision c"
  by (induction xs arbitrary: c) (simp_all add: applyChat_def)

lemma apply_page_simps [simp]:
  "lc_deleted (apply_page page c) = lc_deleted c @ lp_DeletedChatIDs page"
  "lc_pages (apply_page page c) = lc_pages c + 1"
  "\<not> CommitsCursor page \<Longrightarrow> lc_lastTokenID (apply_page page c) = lc_lastTokenID c"
  "\<not> CommitsCursor page \<Longrightarrow> lc_lbk (apply_page page c) = lc_lbk c"
  "CommitsCursor page \<Longrightarrow> lc_lastTokenID c = None \<Longrightarrow> lc_lastTokenID (apply_page page c) = lp_LastTokenID page"
  "CommitsCursor page \<Longrightarrow> lc_lbk c = None \<Longrightarrow> lc_lbk (apply_page page c) = lp_LBK page"
  "lc_mcmRevision (apply_page page c) = (if lc_pages c = 0 then lp_MCMRevision page else lc_mcmRevision c)"
  by (simp_all add: apply_page_def Let_def split: option.splits)

lemma chain_ne: "pageChain B answer n body pages \<Longrightarrow> pages \<noteq> []"
  by (cases pages) auto

lemma chain_pages:
  "pageChain B answer n body pages \<Longrightarrow>
   (\<forall>p\<in>set (butlast pages). \<not> CommitsCursor p) \<and> (\<forall>p\<in>set pages. \<exists>raw. DecodeLoginListPage B raw = Inr p)"
proof (induction pages arbitrary: n body)
  case (Cons page pages)
  then have decoded: "DecodeLoginListPage B body = Inr page" by simp
  show ?case
  proof (cases "lp_Next page")
    case None
    with Cons.prems decoded show ?thesis by auto
  next
    case (Some nxt)
    with Cons.prems obtain reply where chain: "pageChain B answer (n + 1) reply pages"
      by (auto split: option.splits sum.splits)
    have "\<not> CommitsCursor page"
      using DecodeLoginListPage_next [OF decoded] Some by (simp add: CommitsCursor_def)
    with Cons.IH [OF chain] chain_ne [OF chain] decoded show ?thesis by auto
  qed
qed simp

lemma pages_deleted: "lc_deleted (fold apply_page pages c) = lc_deleted c @ concat (map lp_DeletedChatIDs pages)"
  by (induction pages arbitrary: c) auto

lemma pages_mcm:
  "lc_pages c > 0 \<Longrightarrow> lc_mcmRevision (fold apply_page pages c) = lc_mcmRevision c"
  by (induction pages arbitrary: c) auto

lemma pages_tokens:
  assumes "pages \<noteq> []" "\<forall>p\<in>set (butlast pages). \<not> CommitsCursor p" "lc_lastTokenID c = None" "lc_lbk c = None"
  shows "lc_lastTokenID (fold apply_page pages c) = (if CommitsCursor (last pages) then lp_LastTokenID (last pages) else None)
    \<and> lc_lbk (fold apply_page pages c) = (if CommitsCursor (last pages) then lp_LBK (last pages) else None)"
  using assms
proof (induction pages arbitrary: c)
  case (Cons page pages)
  show ?case
  proof (cases "pages = []")
    case True
    with Cons.prems show ?thesis by (cases "CommitsCursor page") simp_all
  next
    case False
    with Cons show ?thesis by simp
  qed
qed simp

subsection \<open>Properties of the list\<close>

text \<open>
  C8: The login list, against the last word of its pages. Following the list succeeds exactly when
  it ends within twenty pages, every reply decodes and every later reply has an accepted status;
  the requests sent are then the ones the pages name, in order. The inventory is decided by the
  last word of the pages on each chat, a page's deletions coming before its chats: a chat seen last
  is observed once, with the target and data seen last, and a chat deleted last is absent. The
  global cursors come from the last page alone, and only when it is a status-zero end.
\<close>

theorem login_list_exact:
  "((\<exists>chats. snd (snd (finishLoginSyncSession B answer first)) = Inr chats) \<longleftrightarrow>
      (\<exists>pages. length pages \<le> 20 \<and> pageChain B answer 0 first pages))
   \<and> (\<forall>pages sent cursor r. length pages \<le> 20 \<and> pageChain B answer 0 first pages
        \<and> finishLoginSyncSession B answer first = (sent, cursor, r) \<longrightarrow>
        r = Inr (concat (map (map lg_Data \<circ> lp_Chats) pages)) \<and> sent = map (the \<circ> lp_Next) (butlast pages)
        \<and> distinct (map ct_ChatID (lc_observed cursor))
        \<and> (\<forall>i. targetsOf (lc_observed cursor) i = seenMax (lastWord pages i))
        \<and> (\<forall>i. lc_chatData cursor i = seenData (lastWord pages i))
        \<and> lc_deleted cursor = concat (map lp_DeletedChatIDs pages)
        \<and> lc_mcmRevision cursor = lp_MCMRevision (hd pages)
        \<and> lc_complete cursor = CommitsCursor (last pages)
        \<and> lc_lastTokenID cursor = (if CommitsCursor (last pages) then lp_LastTokenID (last pages) else None)
        \<and> lc_lbk cursor = (if CommitsCursor (last pages) then lp_LBK (last pages) else None))"
proof (intro conjI allI impI; (elim conjE)?)
  show "(\<exists>chats. snd (snd (finishLoginSyncSession B answer first)) = Inr chats) \<longleftrightarrow>
      (\<exists>pages. length pages \<le> 20 \<and> pageChain B answer 0 first pages)"
  proof
    assume "\<exists>chats. snd (snd (finishLoginSyncSession B answer first)) = Inr chats"
    then obtain sent cursor chats where "loginPages B answer 20 0 ''LOGINLIST'' first [] zeroCursor = (sent, cursor, Inr chats)"
      unfolding finishLoginSyncSession_def maxLoginPages_def by (metis prod.collapse)
    from success_chain [OF this] show "\<exists>pages. length pages \<le> 20 \<and> pageChain B answer 0 first pages" by blast
  next
    assume "\<exists>pages. length pages \<le> 20 \<and> pageChain B answer 0 first pages"
    then obtain pages where "pageChain B answer 0 first pages" "length pages \<le> 20" by blast
    from chain_success [OF this] show "\<exists>chats. snd (snd (finishLoginSyncSession B answer first)) = Inr chats"
      by (simp add: finishLoginSyncSession_def maxLoginPages_def)
  qed
next
  fix pages sent cursor r
  assume len: "length pages \<le> 20" and chain: "pageChain B answer 0 first pages"
    and fin: "finishLoginSyncSession B answer first = (sent, cursor, r)"
  have res: "sent = map (the \<circ> lp_Next) (butlast pages)"
      "cursor = (fold apply_page pages zeroCursor)\<lparr>lc_complete := CommitsCursor (last pages)\<rparr>"
      "r = Inr (concat (map (map lg_Data \<circ> lp_Chats) pages))"
    using fin chain_success [OF chain len] by (simp_all add: finishLoginSyncSession_def maxLoginPages_def)
  show "r = Inr (concat (map (map lg_Data \<circ> lp_Chats) pages))" "sent = map (the \<circ> lp_Next) (butlast pages)"
    by (fact res)+
  show "distinct (map ct_ChatID (lc_observed cursor))"
    "targetsOf (lc_observed cursor) i = seenMax (lastWord pages i)" "lc_chatData cursor i = seenData (lastWord pages i)" for i
    using pages_agree [of pages] by (simp_all add: agrees_def res(2))
  show "lc_deleted cursor = concat (map lp_DeletedChatIDs pages)"
    by (simp add: res(2) pages_deleted) (simp add: zeroCursor_def)
  show "lc_mcmRevision cursor = lp_MCMRevision (hd pages)"
    using chain_ne [OF chain] by (cases pages) (simp_all add: res(2) pages_mcm zeroCursor_def)
  show "lc_complete cursor = CommitsCursor (last pages)" by (simp add: res(2))
  show "lc_lastTokenID cursor = (if CommitsCursor (last pages) then lp_LastTokenID (last pages) else None)"
    "lc_lbk cursor = (if CommitsCursor (last pages) then lp_LBK (last pages) else None)"
    using pages_tokens [OF chain_ne [OF chain], of zeroCursor] chain_pages [OF chain]
    by (simp_all add: res(2)) (simp_all add: zeroCursor_def)
qed

text \<open>A list of two pages: the second deletes the chat the first lists.\<close>

definition samplePage1 :: doc where
  "samplePage1 = Doc [(''status'', VInt32 0), (''eof'', VBool False),
     (''chatDatas'', docArray [VDoc (Doc [(''c'', VInt64 7), (''ll'', VInt64 50)])]),
     (''lastTokenId'', VInt64 3), (''lastChatId'', VInt64 7)]"

definition samplePage2 :: doc where
  "samplePage2 = Doc [(''status'', VInt32 0), (''eof'', VBool True), (''delChatIds'', docArray [VInt64 7]),
     (''chatDatas'', docArray [VDoc (Doc [(''c'', VInt64 9), (''ll'', VInt64 20)])]),
     (''lastTokenId'', VInt64 5), (''lbk'', VInt32 2)]"

definition sampleAnswer :: "nat \<Rightarrow> doc \<Rightarrow> doc result" where
  "sampleAnswer n req = Inr samplePage2"

definition sampleP1 :: "doc LoginListPage" where
  "sampleP1 = \<lparr>lp_Status = 0, lp_DeletedChatIDs = [],
     lp_Chats = [\<lparr>lg_ChatID = 7, lg_MaxLogID = 50, lg_Data = Doc [(''c'', VInt64 7), (''ll'', VInt64 50)]\<rparr>],
     lp_EOF = False, lp_LastTokenID = Some 3, lp_LBK = None, lp_MCMRevision = None,
     lp_Next = Some \<lparr>lr_LastTokenID = 3, lr_LastChatID = 7\<rparr>\<rparr>"

definition sampleP2 :: "doc LoginListPage" where
  "sampleP2 = \<lparr>lp_Status = 0, lp_DeletedChatIDs = [7],
     lp_Chats = [\<lparr>lg_ChatID = 9, lg_MaxLogID = 20, lg_Data = Doc [(''c'', VInt64 9), (''ll'', VInt64 20)]\<rparr>],
     lp_EOF = True, lp_LastTokenID = Some 5, lp_LBK = Some 2, lp_MCMRevision = None, lp_Next = None\<rparr>"

lemmas page_defs = DecodeLoginListPage_def pageNext_def pageCursors_def decodeDeletedChatIDs_def decodeLoginChats_def
  decodeLoginChat_def Int32_def Int64_def docArray_def minInt32_def maxInt32_def

lemma samplePage1_decoded: "DecodeLoginListPage docBson samplePage1 = Inr sampleP1"
  by (simp add: page_defs samplePage1_def sampleP1_def)

lemma samplePage2_decoded: "DecodeLoginListPage docBson samplePage2 = Inr sampleP2"
  by (simp add: page_defs samplePage2_def sampleP2_def)

lemma sampleChain: "pageChain docBson sampleAnswer 0 samplePage1 [sampleP1, sampleP2]"
proof -
  have "loco_Status docBson samplePage2 = Inr 0"
    by (simp add: loco_Status_def Int32_def Int64_def samplePage2_def minInt32_def maxInt32_def)
  moreover have "lp_Next sampleP2 = None" "lp_Next sampleP1 = Some \<lparr>lr_LastTokenID = 3, lr_LastChatID = 7\<rparr>"
    by (simp_all add: sampleP1_def sampleP2_def)
  ultimately show ?thesis
    using samplePage1_decoded samplePage2_decoded
    by (simp add: sampleAnswer_def LChatListRequest_MarshalBSON_def AcceptedLChatListStatus_def)
qed

theorem login_list_exact_witness:
  "\<exists>sent cursor chats. finishLoginSyncSession docBson sampleAnswer samplePage1 = (sent, cursor, Inr chats)
     \<and> length chats = 2 \<and> targetsOf (lc_observed cursor) 7 = None \<and> targetsOf (lc_observed cursor) 9 = Some 20
     \<and> lc_complete cursor \<and> lc_lastTokenID cursor = Some 5 \<and> lc_deleted cursor = [7]"
proof -
  obtain sent cursor r where f: "finishLoginSyncSession docBson sampleAnswer samplePage1 = (sent, cursor, r)"
    by (cases "finishLoginSyncSession docBson sampleAnswer samplePage1") auto
  have "length [sampleP1, sampleP2] \<le> 20 \<and> pageChain docBson sampleAnswer 0 samplePage1 [sampleP1, sampleP2]
      \<and> finishLoginSyncSession docBson sampleAnswer samplePage1 = (sent, cursor, r)"
    using sampleChain f by simp
  from conjunct2 [OF login_list_exact, rule_format, OF this] f show ?thesis
    by (simp add: sampleP1_def sampleP2_def lastWord_def mentions_def CommitsCursor_def)
qed

subsection \<open>Installing the login\<close>

definition pageOk :: "'r LoginListPage \<Rightarrow> bool" where
  "pageOk p \<longleftrightarrow> (\<forall>i\<in>set (lp_DeletedChatIDs p). 0 < i) \<and> (\<forall>c\<in>set (lp_Chats p). 0 < lg_ChatID c \<and> 0 \<le> lg_MaxLogID c)
     \<and> (\<forall>t\<in>set_option (lp_LastTokenID p). 0 \<le> t) \<and> (\<forall>b\<in>set_option (lp_LBK p). 0 \<le> b)"

lemma deletedIDs_positive: "deletedIDs vs = Inr ids \<Longrightarrow> i \<in> set ids \<Longrightarrow> 0 < i"
  by (induction vs arbitrary: ids) (auto split: option.splits if_splits sum.splits)

lemma decodeDeletedChatIDs_positive: "decodeDeletedChatIDs B v = Inr ids \<Longrightarrow> i \<in> set ids \<Longrightarrow> 0 < i"
  by (auto simp: decodeDeletedChatIDs_def dest: deletedIDs_positive split: rawvalue.splits option.splits)

lemma decodeLoginChat_ok:
  assumes "decodeLoginChat B raw = Inr chat"
  shows "0 < lg_ChatID chat \<and> 0 \<le> lg_MaxLogID chat"
proof -
  obtain chatID where id: "Int64 B sessionlogin_fields raw [''c''] = Inr (Some chatID)" "0 < chatID"
    using assms by (cases "Int64 B sessionlogin_fields raw [''c'']" rule: sum.exhaust)
      (auto simp: decodeLoginChat_def split: option.splits if_splits)
  show ?thesis
  proof (cases "\<exists>d. bs_LookupErr B raw ''l'' = Some (VDoc d)")
    case True
    then obtain d where d: "bs_LookupErr B raw ''l'' = Some (VDoc d)" by blast
    show ?thesis using assms id
      by (simp add: decodeLoginChat_def d) (auto split: sum.splits option.splits if_splits)
  next
    case False
    then show ?thesis using assms id
      by (auto simp: decodeLoginChat_def Let_def split: option.splits rawvalue.splits sum.splits if_splits)
  qed
qed

lemma loginChats_ok: "loginChats B vs = Inr chats \<Longrightarrow> c \<in> set chats \<Longrightarrow> 0 < lg_ChatID c \<and> 0 \<le> lg_MaxLogID c"
  by (induction vs arbitrary: chats) (auto dest: decodeLoginChat_ok split: rawvalue.splits sum.splits)

lemma decodeLoginChats_ok: "decodeLoginChats B v = Inr chats \<Longrightarrow> c \<in> set chats \<Longrightarrow> 0 < lg_ChatID c \<and> 0 \<le> lg_MaxLogID c"
  by (auto simp: decodeLoginChats_def dest: loginChats_ok split: rawvalue.splits option.splits)

lemma pageCursors_ok: "lp_LastTokenID (pageCursors B body p) = Some t \<Longrightarrow> 0 \<le> t"
  "lp_LBK (pageCursors B body p) = Some b \<Longrightarrow> 0 \<le> b"
  by (auto simp: pageCursors_def split: sum.splits option.splits if_splits)

lemma decoded_pageOk:
  assumes "DecodeLoginListPage B body = Inr page"
  shows "pageOk page"
  using assms
proof (rule DecodeLoginListPage_ok)
  fix status eof deleted chats
  assume d: "(case bs_LookupErr B body ''delChatIds'' of None \<Rightarrow> Inr [] | Some v \<Rightarrow> decodeDeletedChatIDs B v) = Inr deleted"
    and c: "(case bs_LookupErr B body ''chatDatas'' of None \<Rightarrow> Inr [] | Some v \<Rightarrow> decodeLoginChats B v) = Inr chats"
    and n: "pageNext B body (pageCursors B body
       \<lparr>lp_Status = status, lp_DeletedChatIDs = deleted, lp_Chats = chats, lp_EOF = eof,
        lp_LastTokenID = None, lp_LBK = None, lp_MCMRevision = None, lp_Next = None\<rparr>) = Inr page"
  have "\<forall>i\<in>set deleted. 0 < i"
    using d by (auto dest: decodeDeletedChatIDs_positive split: option.splits)
  moreover have "\<forall>x\<in>set chats. 0 < lg_ChatID x \<and> 0 \<le> lg_MaxLogID x"
    using c by (auto dest: decodeLoginChats_ok split: option.splits)
  moreover obtain nxt where "page = (pageCursors B body
       \<lparr>lp_Status = status, lp_DeletedChatIDs = deleted, lp_Chats = chats, lp_EOF = eof,
        lp_LastTokenID = None, lp_LBK = None, lp_MCMRevision = None, lp_Next = None\<rparr>)\<lparr>lp_Next := nxt\<rparr>"
    using pageNext_Inr [OF n] by blast
  ultimately show "pageOk page" by (auto simp: pageOk_def dest: pageCursors_ok)
qed

lemma mentions_ok:
  assumes "\<forall>p\<in>set pages. pageOk p" "lastWord pages i = Some (Seen m d)"
  shows "0 < i \<and> 0 \<le> m"
proof -
  from assms(2) obtain p where "p \<in> set pages" "(i, Seen m d) \<in> set (mentions p)"
    by (auto simp: lastWord_def dest!: map_of_SomeD)
  with assms(1) show ?thesis by (auto simp: mentions_def pageOk_def)
qed

lemma observed_ok:
  assumes "distinct (map ct_ChatID ts)" "\<forall>i. targetsOf ts i = seenMax (lastWord pages i)"
    "\<forall>p\<in>set pages. pageOk p" "t \<in> set ts"
  shows "0 < ct_ChatID t \<and> 0 \<le> ct_MaxLogID t"
proof -
  have "targetsOf ts (ct_ChatID t) = Some (ct_MaxLogID t)"
    unfolding targetsOf_def using assms(1,4) by (intro map_of_is_SomeI) (auto simp: comp_def)
  with assms(2) obtain d where "lastWord pages (ct_ChatID t) = Some (Seen (ct_MaxLogID t) d)"
    by (metis option.distinct(1) option.inject seenMax.elims)
  with mentions_ok [OF assms(3)] show ?thesis by blast
qed

lemma observeL_targetsOf:
  "distinct (map ct_ChatID ts) \<Longrightarrow>
   observeL ts m i = (case targetsOf ts i of None \<Rightarrow> m i | Some l \<Rightarrow> Some l)"
  unfolding observeL_def
proof (induction ts arbitrary: m)
  case (Cons t ts)
  then show ?case
    using targetsOf_None [of ts "ct_ChatID t"]
    by (auto simp: targetsOf_def split: option.splits)
qed (simp add: targetsOf_def)

lemma lastWord_Gone_deleted:
  assumes "lastWord pages i = Some Gone"
  shows "i \<in> set (concat (map lp_DeletedChatIDs pages))"
  using assms by (auto simp: lastWord_def mentions_def dest!: map_of_SomeD)

lemma deleted_lastWord:
  assumes "i \<in> set (concat (map lp_DeletedChatIDs pages))"
  shows "lastWord pages i \<noteq> None"
proof -
  from assms obtain p where "p \<in> set pages" "i \<in> set (lp_DeletedChatIDs p)" by auto
  then have "(i, Gone) \<in> set (rev (concat (map mentions pages)))" by (auto simp: mentions_def)
  then show ?thesis unfolding lastWord_def by (metis option.distinct(1) weak_map_of_SomeI)
qed

text \<open>The commit a chat keeps through the installation, and its target afterwards.\<close>

definition keptCommit :: "'r LoginListPage list \<Rightarrow> ledger \<Rightarrow> int64 \<Rightarrow> int64 option" where
  "keptCommit pages l i = (if i \<in> set (concat (map lp_DeletedChatIDs pages)) then None else committed l i)"

definition installedTarget :: "'r LoginListPage list \<Rightarrow> bool \<Rightarrow> ledger \<Rightarrow> int64 \<Rightarrow> int64 option" where
  "installedTarget pages fresh l i =
     (let before = (case lastWord pages i of
            Some Gone \<Rightarrow> None
          | Some (Seen m d) \<Rightarrow> Some m
          | None \<Rightarrow> if fresh then None else known l i)
      in case keptCommit pages l i of None \<Rightarrow> before | Some m \<Rightarrow> Some (raised before m))"

lemma install_ledger:
  assumes "distinct (map ct_ChatID ts)" "\<forall>i. targetsOf ts i = seenMax (lastWord pages i)"
    "deleted = concat (map lp_DeletedChatIDs pages)"
  shows "known (execL (OpInstall token lbk ts deleted fresh) l) i = installedTarget pages fresh l i"
    "committed (execL (OpInstall token lbk ts deleted fresh) l) i = keptCommit pages l i"
proof -
  show "known (execL (OpInstall token lbk ts deleted fresh) l) i = installedTarget pages fresh l i"
    using assms(2) deleted_lastWord [of i pages] lastWord_Gone_deleted [of pages i]
    by (cases "lastWord pages i" rule: seenMax.cases)
      (auto simp: assms(3) forgetL_def coverL_def observeL_targetsOf [OF assms(1)] installedTarget_def keptCommit_def
        restrict_map_def Let_def split: option.splits)
  show "committed (execL (OpInstall token lbk ts deleted fresh) l) i = keptCommit pages l i"
    by (simp add: assms(3) forgetL_def keptCommit_def restrict_map_def Let_def)
qed

lemma completeLogin_chain:
  assumes "completeLogin B answer bootstrapped resume reply = Inr session"
  obtains pages where "pageChain B answer 0 reply pages" "length pages \<le> 20"
    "distinct (map ct_ChatID (lc_observed (lo_cursor session)))"
    "\<forall>i. targetsOf (lc_observed (lo_cursor session)) i = seenMax (lastWord pages i)"
    "lc_deleted (lo_cursor session) = concat (map lp_DeletedChatIDs pages)"
    "lc_replaceInventory (lo_cursor session) \<longleftrightarrow> LastTokenID resume = 0 \<and> CommitsCursor (last pages)"
    "\<forall>t\<in>set_option (lc_lastTokenID (lo_cursor session)). 0 \<le> t" "\<forall>b\<in>set_option (lc_lbk (lo_cursor session)). 0 \<le> b"
    "\<forall>p\<in>set pages. pageOk p"
proof -
  obtain sent cursor chats where fin: "finishLoginSyncSession B answer reply = (sent, cursor, Inr chats)"
      and session: "lo_cursor session = cursor\<lparr>lc_replaceInventory := LastTokenID resume = 0 \<and> lc_complete cursor\<rparr>"
    using assms by (auto simp: completeLogin_def split: sum.splits if_splits prod.splits)
  obtain pages where chain: "pageChain B answer 0 reply pages" and len: "length pages \<le> 20"
    using success_chain [of B answer 20 0 "''LOGINLIST''" reply "[]" zeroCursor sent cursor chats] fin
    by (auto simp: finishLoginSyncSession_def maxLoginPages_def)
  have cursor: "cursor = (fold apply_page pages zeroCursor)\<lparr>lc_complete := CommitsCursor (last pages)\<rparr>"
    using fin chain_success [OF chain len] by (simp add: finishLoginSyncSession_def maxLoginPages_def)
  have ok: "\<forall>p\<in>set pages. pageOk p" using chain_pages [OF chain] by (metis decoded_pageOk)
  have tokens: "lc_lastTokenID cursor = (if CommitsCursor (last pages) then lp_LastTokenID (last pages) else None)"
    "lc_lbk cursor = (if CommitsCursor (last pages) then lp_LBK (last pages) else None)"
    using pages_tokens [OF chain_ne [OF chain], of zeroCursor] chain_pages [OF chain]
    by (simp_all add: cursor) (simp_all add: zeroCursor_def)
  have last: "pageOk (last pages)" using ok chain_ne [OF chain] by simp
  show ?thesis
    by (rule that [OF chain len])
      (use pages_agree [of pages] tokens last ok in
        \<open>auto simp: session cursor agrees_def pages_deleted zeroCursor_def pageOk_def split: if_splits\<close>)
qed

text \<open>
  C9: Adopting a session installs exactly what its login list said. Whatever accepted login the
  server produced, the checkpoint admits it: on a valid store with a working file system the session
  is adopted, and afterwards each chat's target is the last word of the pages on it, a chat the
  pages do not mention keeps its target (or loses it, when the login replaced the whole
  inventory), and no target is below a commit the chat kept; a chat keeps its commit unless a
  page deleted it. An installation that fails in the file system closes the client and leaves the
  checkpoint in memory as it was.
\<close>

theorem login_installed:
  assumes "okStore (cl_world c)" "\<not> cl_closed c" "completeLogin B answer bootstrapped resume reply = Inr session"
  shows "\<exists>pages. pageChain B answer 0 reply pages \<and> length pages \<le> 20
    \<and> (\<exists>c'. adoptSession good_write session c = (Inr session, c')
         \<and> (\<forall>i. known (ledgerOf (storeData (cl_world c'))) i
                  = installedTarget pages (LastTokenID resume = 0 \<and> CommitsCursor (last pages)) (ledgerOf (storeData (cl_world c))) i
              \<and> committed (ledgerOf (storeData (cl_world c'))) i = keptCommit pages (ledgerOf (storeData (cl_world c))) i))
    \<and> (\<forall>env e c'. adoptSession env session c = (Inl e, c') \<longrightarrow> cl_closed c' \<and> store (cl_world c') = store (cl_world c))"
proof -
  let ?cu = "lo_cursor session"
  obtain pages where pages: "pageChain B answer 0 reply pages" "length pages \<le> 20"
    "distinct (map ct_ChatID (lc_observed ?cu))"
    "\<forall>i. targetsOf (lc_observed ?cu) i = seenMax (lastWord pages i)"
    "lc_deleted ?cu = concat (map lp_DeletedChatIDs pages)"
    "lc_replaceInventory ?cu \<longleftrightarrow> LastTokenID resume = 0 \<and> CommitsCursor (last pages)"
    "\<forall>t\<in>set_option (lc_lastTokenID ?cu). 0 \<le> t" "\<forall>b\<in>set_option (lc_lbk ?cu). 0 \<le> b" "\<forall>p\<in>set pages. pageOk p"
    using assms(3) by (rule completeLogin_chain)
  define op where "op = OpInstall (lc_lastTokenID ?cu) (lc_lbk ?cu) (lc_observed ?cu) (lc_deleted ?cu) (lc_replaceInventory ?cu)"
  have adm: "admissible op"
    using pages(5,7,8,9) observed_ok [OF pages(3,4,9)] unfolding op_def by (auto simp: pageOk_def)
  have adopt: "adoptSession env session c = (case exec env op (cl_world c) of
      (Some e, w) \<Rightarrow> (Inl e, c\<lparr>cl_world := w, cl_closed := True\<rparr>) | (None, w) \<Rightarrow> (Inr session, c\<lparr>cl_world := w\<rparr>))" for env
    using assms(1,2) by (auto simp: adoptSession_def op_def okStore_def split: option.splits prod.splits)
  obtain w' where w': "exec good_write op (cl_world c) = (None, w')"
      "ledgerOf (storeData w') = execL op (ledgerOf (storeData (cl_world c)))"
    using exec_good [OF assms(1) adm] by (metis surj_pair)
  have "adoptSession good_write session c = (Inr session, c\<lparr>cl_world := w'\<rparr>)" by (simp add: adopt w'(1))
  moreover have "known (ledgerOf (storeData w')) i
        = installedTarget pages (LastTokenID resume = 0 \<and> CommitsCursor (last pages)) (ledgerOf (storeData (cl_world c))) i"
      "committed (ledgerOf (storeData w')) i = keptCommit pages (ledgerOf (storeData (cl_world c))) i" for i
    using install_ledger [OF pages(3,4,5)] pages(6) by (simp_all only: w'(2) op_def)
  moreover have "cl_closed c' \<and> store (cl_world c') = store (cl_world c)" if "adoptSession env session c = (Inl e, c')" for env e c'
  proof -
    from that adopt obtain w where w: "exec env op (cl_world c) = (Some e, w)" "c' = c\<lparr>cl_world := w, cl_closed := True\<rparr>"
      by (cases "exec env op (cl_world c)") (auto split: option.splits)
    from exec_cases [OF assms(1) w(1)] w(2) show ?thesis by auto
  qed
  ultimately show ?thesis using pages(1,2) by (intro exI [of _ pages]) auto
qed

lemma sampleLogin:
  "\<exists>session. completeLogin docBson sampleAnswer True sampleCheckpoint samplePage1 = Inr session"
proof -
  have "loco_Status docBson samplePage1 = Inr 0"
    by (simp add: loco_Status_def Int32_def Int64_def samplePage1_def minInt32_def maxInt32_def)
  moreover have "\<exists>sent cursor chats. finishLoginSyncSession docBson sampleAnswer samplePage1 = (sent, cursor, Inr chats)"
    using chain_success [OF sampleChain, of 20] by (simp add: finishLoginSyncSession_def maxLoginPages_def)
  ultimately show ?thesis
    by (auto simp: completeLogin_def Accepted_def ClassifyLoginStatus_def)
qed

theorem login_installed_witness:
  "\<exists>session c'. completeLogin docBson sampleAnswer True sampleCheckpoint samplePage1 = Inr session
     \<and> adoptSession good_write session
         \<lparr>cl_closed = False, cl_world = sampleWorld, cl_pending = (\<lambda>_. []), cl_history = None\<rparr> = (Inr session, c')"
proof -
  obtain session where s: "completeLogin docBson sampleAnswer True sampleCheckpoint samplePage1 = Inr session"
    using sampleLogin by blast
  from login_installed [of "\<lparr>cl_closed = False, cl_world = sampleWorld, cl_pending = (\<lambda>_. []), cl_history = None\<rparr>", OF _ _ s]
  show ?thesis using s sampleWorld_ok by auto
qed

end
