(* ===== verification/Route.thy ===== *)
theory Route
  imports Login_Sync
begin

text \<open>
  How a session finds its server: \<open>src/internal/protocol/booking/booking.go\<close> (the GETCONF and
  CHECKIN bodies) and \<open>src/internal/client/route.go\<close> (the cached carriage route, the walk
  over the ticket addresses, the retries), up to the carriage dial of \<open>connectSession\<close>.

  The network, the clock, the randomness and the context are answers, by the number of the call:
  the error of a dial (\<open>None\<close> when it succeeds), the reply or error of a request, the reading of
  the clock, the draw of \<open>intN\<close> and the error of a sleep that was cancelled. The operations that
  use the network also return what they did, in order. A carriage connection is the endpoint it
  was dialed at.
\<close>

subsection \<open>Requests and replies\<close>

definition DefaultPort :: int where "DefaultPort = 995"
definition second :: duration where "second = 10 ^ 9"

record GetConfRequest =
  gc_MCCMNC :: string
  gc_Model :: string
  gc_OS :: string
  gc_UserID :: int64

definition GetConfRequest_MarshalBSON :: "'r bson \<Rightarrow> GetConfRequest \<Rightarrow> 'r option" where
  "GetConfRequest_MarshalBSON B r = bs_Marshal B
     [(''MCCMNC'', FString (gc_MCCMNC r)), (''model'', FString (gc_Model r)), (''os'', FString (gc_OS r)),
      (''userId'', FInt64 (gc_UserID r))]"

record CheckinRequest =
  ck_UserID :: int64
  ck_OS :: string
  ck_NType :: int64
  ck_AppVer :: string
  ck_MCCMNC :: string
  ck_Lang :: string
  ck_CountryISO :: string
  ck_UseSub :: bool

definition CheckinRequest_MarshalBSON :: "'r bson \<Rightarrow> CheckinRequest \<Rightarrow> 'r option" where
  "CheckinRequest_MarshalBSON B r = bs_Marshal B
     [(''userId'', FInt64 (ck_UserID r)), (''os'', FString (ck_OS r)), (''ntype'', FInt32 (ck_NType r)),
      (''appVer'', FString (ck_AppVer r)), (''MCCMNC'', FString (ck_MCCMNC r)), (''lang'', FString (ck_Lang r)),
      (''countryISO'', FString (ck_CountryISO r)), (''useSub'', FBool (ck_UseSub r))]"

text \<open>A field of an embedded document, and the elements of an array inside one.\<close>

definition nestedField :: "'r bson \<Rightarrow> 'r \<Rightarrow> string \<Rightarrow> string \<Rightarrow> 'r rawvalue option" where
  "nestedField B raw outer inner =
     (case bs_LookupErr B raw outer of Some (VDoc d) \<Rightarrow> bs_LookupErr B d inner | _ \<Rightarrow> None)"

definition nestedArray :: "'r bson \<Rightarrow> 'r \<Rightarrow> string \<Rightarrow> string \<Rightarrow> 'r rawvalue list option" where
  "nestedArray B raw outer inner =
     (case nestedField B raw outer inner of Some (VArray a) \<Rightarrow> bs_Values B a | _ \<Rightarrow> None)"

fun ticketHosts :: "'r rawvalue list \<Rightarrow> string list" where
  "ticketHosts [] = []"
| "ticketHosts (v # vs) =
     (case v of VString s \<Rightarrow> if s \<noteq> [] then s # ticketHosts vs else ticketHosts vs | _ \<Rightarrow> ticketHosts vs)"

fun wifiPorts :: "'r rawvalue list \<Rightarrow> int list" where
  "wifiPorts [] = []"
| "wifiPorts (v # vs) =
     (case v of VInt32 p \<Rightarrow> if p > 0 \<and> p \<le> 65535 then p # wifiPorts vs else wifiPorts vs | _ \<Rightarrow> wifiPorts vs)"

definition DecodeBookingTargets :: "'r bson \<Rightarrow> 'r \<Rightarrow> (string list \<times> int list) result" where
  "DecodeBookingTargets B raw =
     (case nestedArray B raw ''ticket'' ''lsl'' of
        None \<Rightarrow> Inl booking_ErrMalformed
      | Some lsl \<Rightarrow>
          (case nestedArray B raw ''wifi'' ''ports'' of
             None \<Rightarrow> Inl booking_ErrMalformed
           | Some portValues \<Rightarrow>
               (let hosts = ticketHosts lsl; ports = wifiPorts portValues
                in if hosts = [] then Inl booking_ErrMalformed
                   else Inr (hosts, if ports = [] then [DefaultPort] else ports))))"

definition DefaultPingInterval :: duration where "DefaultPingInterval = 180 * second"
definition DefaultReceiveHeaderTimeout :: duration where "DefaultReceiveHeaderTimeout = 20 * second"

definition DecodeForegroundPingInterval :: "'r bson \<Rightarrow> 'r \<Rightarrow> duration" where
  "DecodeForegroundPingInterval B body =
     (case nestedField B body ''wifi'' ''fgPingItv'' of
        Some (VInt32 n) \<Rightarrow> if n < 1 then DefaultPingInterval else wrap64 (n * second)
      | _ \<Rightarrow> DefaultPingInterval)"

definition DecodeReceiveHeaderTimeout :: "'r bson \<Rightarrow> 'r \<Rightarrow> duration" where
  "DecodeReceiveHeaderTimeout B body =
     (case nestedField B body ''wifi'' ''recvHeaderTimeout'' of
        Some (VInt32 n) \<Rightarrow> if n < 1 then DefaultReceiveHeaderTimeout else wrap64 (n * second)
      | _ \<Rightarrow> DefaultReceiveHeaderTimeout)"

definition DecodeCheckinEndpoint :: "'r bson \<Rightarrow> 'r \<Rightarrow> (string \<times> int) result" where
  "DecodeCheckinEndpoint B raw =
     (case bs_LookupErr B raw ''host'' of
        Some (VString host) \<Rightarrow>
          if host = [] then Inl booking_ErrMalformed
          else (case bs_LookupErr B raw ''port'' of
                  None \<Rightarrow> Inl booking_ErrMalformed
                | Some v \<Rightarrow> (case Int64Value v of
                    None \<Rightarrow> Inl booking_ErrMalformed
                  | Some port \<Rightarrow> if port \<le> 0 \<or> port > 65535 then Inl booking_ErrMalformed else Inr (host, port)))
      | _ \<Rightarrow> Inl booking_ErrMalformed)"

text \<open>The product with one second is a 64-bit product.\<close>

definition DecodeCheckinCacheExpire :: "'r bson \<Rightarrow> 'r \<Rightarrow> duration" where
  "DecodeCheckinCacheExpire B raw =
     (case bs_LookupErr B raw ''cacheExpire'' of
        None \<Rightarrow> 0
      | Some v \<Rightarrow> (case Int64Value v of
          None \<Rightarrow> 0
        | Some seconds \<Rightarrow> if seconds \<le> 0 then 0 else wrap64 (seconds * second)))"

subsection \<open>The routing state\<close>

record carriageRoute =
  cr_host :: string
  cr_port :: int
  cr_expire :: duration
  cr_checkedAt :: gotime
  cr_cursor :: nat
  cr_addresses :: nat

definition newRoute :: carriageRoute where
  "newRoute = \<lparr>cr_host = [], cr_port = 0, cr_expire = 0, cr_checkedAt = 0, cr_cursor = 0, cr_addresses = 0\<rparr>"

text \<open>\<open>Time.Sub\<close> saturates at the ends of a duration.\<close>

definition time_Sub :: "gotime \<Rightarrow> gotime \<Rightarrow> duration" where
  "time_Sub t u = max (- (2 ^ 63)) (min maxInt64 (t - u))"

definition cached :: "gotime \<Rightarrow> carriageRoute \<Rightarrow> (string \<times> int) option" where
  "cached now r =
     (if cr_checkedAt r = 0 \<or> cr_expire r \<le> 0 \<or> time_Sub now (cr_checkedAt r) \<ge> cr_expire r then None
      else Some (cr_host r, cr_port r))"

definition storeRoute :: "string \<Rightarrow> int \<Rightarrow> duration \<Rightarrow> gotime \<Rightarrow> nat \<Rightarrow> carriageRoute \<Rightarrow> carriageRoute" where
  "storeRoute host port expire now cursor r = r
     \<lparr>cr_host := host, cr_port := port, cr_expire := expire, cr_checkedAt := now, cr_cursor := cursor\<rparr>"

definition clearRoute :: "carriageRoute \<Rightarrow> carriageRoute" where
  "clearRoute r = r\<lparr>cr_host := [], cr_port := 0, cr_expire := 0, cr_checkedAt := 0\<rparr>"

definition changeServer :: "carriageRoute \<Rightarrow> carriageRoute" where
  "changeServer r =
     (let r1 = clearRoute r
      in if cr_cursor r1 + 1 < cr_addresses r1 then r1\<lparr>cr_cursor := cr_cursor r1 + 1\<rparr> else r1)"

definition resetCursor :: "carriageRoute \<Rightarrow> carriageRoute" where
  "resetCursor r = r\<lparr>cr_cursor := 0\<rparr>"

definition walkStart :: "nat \<Rightarrow> carriageRoute \<Rightarrow> nat \<times> carriageRoute" where
  "walkStart addresses r =
     (let r1 = (if cr_cursor r \<ge> addresses then r\<lparr>cr_cursor := 0\<rparr> else r);
          r2 = r1\<lparr>cr_addresses := addresses\<rparr>
      in (cr_cursor r2, r2))"

subsection \<open>Waiting\<close>

definition bookingAttempts :: nat where "bookingAttempts = 3"
definition bookingBackoffCap :: duration where "bookingBackoffCap = 8 * second"
definition ticketBackoffCap :: duration where "ticketBackoffCap = 32 * second"

definition jitteredBackoff :: "nat \<Rightarrow> duration \<Rightarrow> (int \<Rightarrow> int) \<Rightarrow> duration" where
  "jitteredBackoff n limit intN =
     (if n < 1 then 0
      else
        (let base = (if n < 32 then min (wrap64 (2 ^ n * second) div 2) limit else limit);
             half = base div 2
         in half + intN (half div second + 1) * second))"

subsection \<open>The walk over the ticket addresses\<close>

type_synonym ticketAddress = "string \<times> int"

definition ticketPool :: "string list \<Rightarrow> int list \<Rightarrow> ticketAddress list" where
  "ticketPool hosts ports = concat (map (\<lambda>port. map (\<lambda>host. (host, port)) hosts) ports)"

datatype route_event =
    Slept duration
  | GetConfTry
  | CheckinTry ticketAddress
  | CarriageTry ticketAddress
  | Booked

record 'r route_env =
  re_conf_dial :: "nat \<Rightarrow> go_error option"
  re_conf_reply :: "nat \<Rightarrow> 'r result"
  re_conf_sleep :: "nat \<Rightarrow> go_error option"
  re_dial :: "nat \<Rightarrow> go_error option"
  re_reply :: "nat \<Rightarrow> 'r result"
  re_sleep :: "nat \<Rightarrow> go_error option"
  re_secure :: "string \<times> int \<Rightarrow> go_error option"
  re_now :: "nat \<Rightarrow> gotime"
  re_intN :: "nat \<Rightarrow> int \<Rightarrow> int"

text \<open>The reason the reply of a single exchange is not accepted.\<close>

definition exchangeFailure :: "'r bson \<Rightarrow> string \<Rightarrow> 'r result \<Rightarrow> go_error option" where
  "exchangeFailure B command reply =
     (case reply of
        Inl e \<Rightarrow> replyFailure command (Some e) (Some ErrMissingStatus) 0
      | Inr body \<Rightarrow> (case loco_Status B body of
          Inl e \<Rightarrow> replyFailure command None (Some e) 0
        | Inr status \<Rightarrow> replyFailure command None None status))"

fun checkinWalk ::
    "'r bson \<Rightarrow> 'r route_env \<Rightarrow> nat \<Rightarrow> nat \<Rightarrow> ticketAddress list \<Rightarrow> go_error \<Rightarrow> route_event list \<times> ('r \<times> nat) result" where
  "checkinWalk B env start index [] failure = ([], Inl (Joined [failure, errTicketPoolExhausted]))"
| "checkinWalk B env start index (address # rest) failure =
     (let delay = jitteredBackoff index ticketBackoffCap (re_intN env index);
          waits = (if index > start then [Slept delay] else [])
      in case (if index > start then re_sleep env index else None) of
           Some e \<Rightarrow> (waits, Inl (stageErr errBootstrap ''checkin'' e))
         | None \<Rightarrow>
             (let (evs, r) =
                (case re_dial env index of
                   Some e \<Rightarrow> checkinWalk B env start (index + 1) rest (stageErr errBootstrap ''checkin dial'' e)
                 | None \<Rightarrow>
                     (case exchangeFailure B ''CHECKIN'' (re_reply env index) of
                        Some cause \<Rightarrow> checkinWalk B env start (index + 1) rest (stageErr errBootstrap ''checkin'' cause)
                      | None \<Rightarrow> ([], case re_reply env index of Inl e \<Rightarrow> Inl e | Inr reply \<Rightarrow> Inr (reply, index))))
              in (waits @ CheckinTry address # evs, r)))"

definition checkin ::
    "'r bson \<Rightarrow> 'r route_env \<Rightarrow> ticketAddress list \<Rightarrow> nat \<Rightarrow> route_event list \<times> ('r \<times> nat) result" where
  "checkin B env pool start =
     (let start' = (if start \<ge> length pool then 0 else start)
      in checkinWalk B env start' start' (drop start' pool) errBootstrap)"

subsection \<open>Booking\<close>

definition getConfOnce :: "'r bson \<Rightarrow> 'r route_env \<Rightarrow> nat \<Rightarrow> 'r result" where
  "getConfOnce B env n =
     (case re_conf_dial env n of
        Some e \<Rightarrow> Inl (stageErr errBootstrap ''getconf dial'' e)
      | None \<Rightarrow>
          (case exchangeFailure B ''GETCONF'' (re_conf_reply env n) of
             Some cause \<Rightarrow> Inl (stageErr errBootstrap ''getconf'' cause)
           | None \<Rightarrow>
               (case re_conf_reply env n of
                  Inl e \<Rightarrow> Inl e
                | Inr body \<Rightarrow> (case DecodeBookingTargets B body of
                    Inl e \<Rightarrow> Inl (stageErr errBootstrap ''getconf'' e)
                  | Inr _ \<Rightarrow> Inr body))))"

text \<open>
  The attempts of \<open>getConf\<close> that are left, with the failure so far. An accepted reply is saved;
  a failed save is ignored, so saving is an event and has no result.
\<close>

fun getConfTries :: "'r bson \<Rightarrow> 'r route_env \<Rightarrow> nat \<Rightarrow> nat \<Rightarrow> go_error \<Rightarrow> route_event list \<times> 'r result" where
  "getConfTries B env n 0 failure = ([], Inl failure)"
| "getConfTries B env n (Suc left) failure =
     (let delay = jitteredBackoff n bookingBackoffCap (re_intN env n);
          waits = (if n > 0 then [Slept delay] else [])
      in case (if n > 0 then re_conf_sleep env n else None) of
           Some e \<Rightarrow> (waits, Inl (stageErr errBootstrap ''getconf'' e))
         | None \<Rightarrow>
             (case getConfOnce B env n of
                Inr reply \<Rightarrow> (waits @ [GetConfTry, Booked], Inr reply)
              | Inl e \<Rightarrow> (let (evs, r) = getConfTries B env (n + 1) left e in (waits @ GetConfTry # evs, r))))"

definition getConf :: "'r bson \<Rightarrow> 'r route_env \<Rightarrow> route_event list \<times> 'r result" where
  "getConf B env = getConfTries B env 0 bookingAttempts errBootstrap"

text \<open>\<open>dialCarriage\<close>: the cached route, then the route of a CHECKIN walk.\<close>

definition dialCached :: "'r route_env \<Rightarrow> carriageRoute \<Rightarrow> route_event list \<times> (string \<times> int) option \<times> carriageRoute" where
  "dialCached env r =
     (case cached (re_now env 0) r of
        None \<Rightarrow> ([], None, r)
      | Some endpoint \<Rightarrow>
          (case re_secure env endpoint of
             None \<Rightarrow> ([CarriageTry endpoint], Some endpoint, r)
           | Some _ \<Rightarrow> ([CarriageTry endpoint], None, clearRoute r)))"

definition dialWalked ::
    "'r bson \<Rightarrow> 'r route_env \<Rightarrow> ticketAddress list \<Rightarrow> carriageRoute
      \<Rightarrow> route_event list \<times> (string \<times> int) result \<times> carriageRoute" where
  "dialWalked B env pool r =
     (let (start, r1) = walkStart (length pool) r; (evs, walked) = checkin B env pool start
      in case walked of
           Inl e \<Rightarrow> (evs, Inl e, resetCursor r1)
         | Inr (reply, index) \<Rightarrow>
             (case DecodeCheckinEndpoint B reply of
                Inl e \<Rightarrow> (evs, Inl (stageErr errBootstrap ''checkin'' e), r1)
              | Inr (host, port) \<Rightarrow>
                  (let r2 = storeRoute host port (DecodeCheckinCacheExpire B reply) (re_now env 1) index r1
                   in case re_secure env (host, port) of
                        Some e \<Rightarrow> (evs @ [CarriageTry (host, port)],
                                   Inl (stageErr errBootstrap ''carriage dial'' e), clearRoute r2)
                      | None \<Rightarrow> (evs @ [CarriageTry (host, port)], Inr (host, port), r2))))"

definition dialCarriage ::
    "'r bson \<Rightarrow> 'r route_env \<Rightarrow> ticketAddress list \<Rightarrow> carriageRoute
      \<Rightarrow> route_event list \<times> (string \<times> int) result \<times> carriageRoute" where
  "dialCarriage B env pool r =
     (case dialCached env r of
        (evs0, Some endpoint, r0) \<Rightarrow> (evs0, Inr endpoint, r0)
      | (evs0, None, r0) \<Rightarrow> (let (evs, res, r1) = dialWalked B env pool r0 in (evs0 @ evs, res, r1)))"

text \<open>
  The carriage of \<open>connectSession\<close>: the stored GETCONF reply first, a new booking when none is
  stored, and one more booking when the walk over a stored pool is exhausted (a reply that does
  not decode fails with \<open>booking.ErrMalformed\<close>, which is not an exhausted pool). The
  environment of the second booking and dial is separate.
\<close>

definition carriageAt ::
    "'r bson \<Rightarrow> 'r route_env \<Rightarrow> 'r \<Rightarrow> carriageRoute \<Rightarrow> route_event list \<times> (string \<times> int) result \<times> carriageRoute" where
  "carriageAt B env reply r =
     (case DecodeBookingTargets B reply of
        Inl e \<Rightarrow> ([], Inl (stageErr errBootstrap ''getconf'' e), r)
      | Inr (hosts, ports) \<Rightarrow> dialCarriage B env (ticketPool hosts ports) r)"

definition bookAndDial ::
    "'r bson \<Rightarrow> 'r route_env \<Rightarrow> carriageRoute \<Rightarrow> route_event list \<times> (string \<times> int) result \<times> carriageRoute" where
  "bookAndDial B env r =
     (case getConf B env of
        (evs, Inl e) \<Rightarrow> (evs, Inl e, r)
      | (evs, Inr reply) \<Rightarrow> (let (evs1, res, r1) = carriageAt B env reply r in (evs @ evs1, res, r1)))"

definition connectCarriage ::
    "'r bson \<Rightarrow> 'r route_env \<Rightarrow> 'r route_env \<Rightarrow> 'r option \<Rightarrow> carriageRoute
      \<Rightarrow> route_event list \<times> (string \<times> int) result \<times> carriageRoute" where
  "connectCarriage B env env2 stored r =
     (case stored of
        None \<Rightarrow> bookAndDial B env r
      | Some reply \<Rightarrow>
          (case carriageAt B env reply r of
             (evs, Inr carriage, r1) \<Rightarrow> (evs, Inr carriage, r1)
           | (evs, Inl e, r1) \<Rightarrow>
               if errors_Is e errTicketPoolExhausted
               then (let (evs1, res, r2) = bookAndDial B env2 r1 in (evs @ evs1, res, r2))
               else (evs, Inl e, r1)))"

text \<open>The states of one profile's route: connects, and CHANGESVR notices between them.\<close>

inductive routed :: "'r bson \<Rightarrow> carriageRoute \<Rightarrow> bool" for B where
  fresh: "routed B newRoute"
| connect: "routed B r \<Longrightarrow> \<forall>n m. 0 < m \<longrightarrow> 0 \<le> re_intN env n m \<and> re_intN env n m < m \<Longrightarrow>
    \<forall>n m. 0 < m \<longrightarrow> 0 \<le> re_intN env2 n m \<and> re_intN env2 n m < m \<Longrightarrow>
    connectCarriage B env env2 stored r = (evs, res, r') \<Longrightarrow> routed B r'"
| changed: "routed B r \<Longrightarrow> routed B (changeServer r)"

subsection \<open>The walk, proved\<close>

definition tried :: "route_event list \<Rightarrow> ticketAddress list" where
  "tried evs = concat (map (\<lambda>e. case e of CheckinTry a \<Rightarrow> [a] | _ \<Rightarrow> []) evs)"

definition slept :: "route_event list \<Rightarrow> duration list" where
  "slept evs = concat (map (\<lambda>e. case e of Slept d \<Rightarrow> [d] | _ \<Rightarrow> []) evs)"

definition getConfs :: "route_event list \<Rightarrow> nat" where
  "getConfs evs = length (filter (\<lambda>e. e = GetConfTry) evs)"

definition carriageTries :: "route_event list \<Rightarrow> ticketAddress list" where
  "carriageTries evs = concat (map (\<lambda>e. case e of CarriageTry a \<Rightarrow> [a] | _ \<Rightarrow> []) evs)"

lemmas event_defs = tried_def slept_def getConfs_def carriageTries_def

lemma event_append [simp]:
  "tried (xs @ ys) = tried xs @ tried ys" "slept (xs @ ys) = slept xs @ slept ys"
  "getConfs (xs @ ys) = getConfs xs + getConfs ys" "carriageTries (xs @ ys) = carriageTries xs @ carriageTries ys"
  by (simp_all add: event_defs)

lemma event_Cons [simp]:
  "tried (e # es) = (case e of CheckinTry a \<Rightarrow> [a] | _ \<Rightarrow> []) @ tried es"
  "slept (e # es) = (case e of Slept d \<Rightarrow> [d] | _ \<Rightarrow> []) @ slept es"
  "getConfs (e # es) = (if e = GetConfTry then 1 else 0) + getConfs es"
  "carriageTries (e # es) = (case e of CarriageTry a \<Rightarrow> [a] | _ \<Rightarrow> []) @ carriageTries es"
  by (simp_all add: event_defs)

lemma event_Nil [simp]: "tried [] = []" "slept [] = []" "getConfs [] = 0" "carriageTries [] = []"
  by (simp_all add: event_defs)

text \<open>An address serves the walk: its dial succeeds and its reply is accepted.\<close>

definition serves :: "'r bson \<Rightarrow> 'r route_env \<Rightarrow> nat \<Rightarrow> bool" where
  "serves B env i \<longleftrightarrow> re_dial env i = None \<and> exchangeFailure B ''CHECKIN'' (re_reply env i) = None"

lemma replyFailure_request [simp]: "replyFailure c (Some e) s n = Some e"
  by (simp add: replyFailure_def)

lemma exchange_accepted:
  "exchangeFailure B c r = None \<longleftrightarrow> (\<exists>body. r = Inr body \<and> loco_Status B body = Inr 0)"
  by (auto simp: exchangeFailure_def replyFailure_def split: sum.splits if_splits)

lemma serves_reply: "serves B env i \<Longrightarrow> \<exists>body. re_reply env i = Inr body"
  by (auto simp: serves_def exchange_accepted)

lemma walk_skip:
  assumes "\<not> serves B env index" "\<not> (index > start \<and> re_sleep env index \<noteq> None)"
  shows "\<exists>waits failure'. slept waits = (if index > start then [jitteredBackoff index ticketBackoffCap (re_intN env index)] else [])
    \<and> tried waits = [] \<and> getConfs waits = 0 \<and> carriageTries waits = []
    \<and> checkinWalk B env start index (a # rest) failure
       = (let (evs, r) = checkinWalk B env start (index + 1) rest failure' in (waits @ CheckinTry a # evs, r))"
proof -
  let ?w = "if index > start then [Slept (jitteredBackoff index ticketBackoffCap (re_intN env index))] else []"
  have w: "slept ?w = (if index > start then [jitteredBackoff index ticketBackoffCap (re_intN env index)] else [])"
    "tried ?w = []" "getConfs ?w = 0" "carriageTries ?w = []" by simp_all
  show ?thesis
  proof (cases "re_dial env index")
    case (Some e)
    with assms(2) w show ?thesis
      by (intro exI [of _ ?w] exI [of _ "stageErr errBootstrap ''checkin dial'' e"]) (auto simp: Let_def split: prod.splits)
  next
    case None
    with assms(1) obtain cause where "exchangeFailure B ''CHECKIN'' (re_reply env index) = Some cause"
      by (auto simp: serves_def)
    with None assms(2) w show ?thesis
      by (intro exI [of _ ?w] exI [of _ "stageErr errBootstrap ''checkin'' cause"]) (auto simp: Let_def split: prod.splits)
  qed
qed

lemma walk_served:
  "start \<le> index \<Longrightarrow> \<forall>i\<in>{index..<k}. \<not> serves B env i \<Longrightarrow> serves B env k \<Longrightarrow> index \<le> k \<Longrightarrow> k < index + length pool \<Longrightarrow>
   \<forall>i\<in>{index..k}. start < i \<longrightarrow> re_sleep env i = None \<Longrightarrow>
   \<exists>evs body. checkinWalk B env start index pool failure = (evs, Inr (body, k)) \<and> re_reply env k = Inr body
     \<and> tried evs = take (Suc k - index) pool"
proof (induction pool arbitrary: index failure)
  case (Cons a rest)
  show ?case
  proof (cases "index = k")
    case True
    obtain body where "re_reply env k = Inr body" using serves_reply [OF Cons.prems(3)] by blast
    with True Cons.prems(3,6) show ?thesis by (auto simp: serves_def Let_def)
  next
    case False
    then have k: "index + 1 \<le> k" using Cons.prems(4) by simp
    obtain waits failure' where w: "tried waits = []" "checkinWalk B env start index (a # rest) failure
       = (let (evs, r) = checkinWalk B env start (index + 1) rest failure' in (waits @ CheckinTry a # evs, r))"
      using walk_skip [of B env index start] Cons.prems(2,6) k by (metis atLeastAtMost_iff atLeastLessThan_iff False le_neq_implies_less order.refl Cons.prems(4))
    obtain evs body where ih: "checkinWalk B env start (index + 1) rest failure' = (evs, Inr (body, k))"
        "re_reply env k = Inr body" "tried evs = take (Suc k - (index + 1)) rest"
      using Cons.IH [of "index + 1" failure'] Cons.prems k by auto
    from k have "Suc k - index = Suc (Suc k - (index + 1))" by simp
    with w ih show ?thesis by simp
  qed
qed simp

lemma walk_exhausted:
  "start \<le> index \<Longrightarrow> \<forall>i\<in>{index..<index + length pool}. \<not> serves B env i \<Longrightarrow>
   \<forall>i\<in>{index..<index + length pool}. start < i \<longrightarrow> re_sleep env i = None \<Longrightarrow>
   \<exists>evs e. checkinWalk B env start index pool failure = (evs, Inl e) \<and> errors_Is e errTicketPoolExhausted \<and> tried evs = pool"
proof (induction pool arbitrary: index failure)
  case Nil
  then show ?case by (simp add: errors_Is.simps)
next
  case (Cons a rest)
  obtain waits failure' where w: "tried waits = []" "checkinWalk B env start index (a # rest) failure
       = (let (evs, r) = checkinWalk B env start (index + 1) rest failure' in (waits @ CheckinTry a # evs, r))"
    using walk_skip [of B env index start a rest failure] Cons.prems(2,3) by fastforce
  obtain evs e where "checkinWalk B env start (index + 1) rest failure' = (evs, Inl e)" "errors_Is e errTicketPoolExhausted" "tried evs = rest"
    using Cons.IH [of "index + 1" failure'] Cons.prems by auto
  with w show ?case by simp
qed

text \<open>
  The CHECKIN walk tries the ticket addresses in order from the start it is given (from the
  first when that is past the end of the pool), and stops at the first one whose dial succeeds and
  whose reply is accepted: its result is that reply and its index, and nothing after it is dialed.
  When no address serves, every address from the start on was tried once and the failure says that
  the pool is exhausted.
\<close>

theorem checkin_walk_exact:
  assumes "\<forall>i. re_sleep env i = None" "first = (if start < length pool then start else 0)"
  shows "(\<forall>k. first \<le> k \<and> k < length pool \<and> serves B env k \<and> (\<forall>i. first \<le> i \<and> i < k \<longrightarrow> \<not> serves B env i) \<longrightarrow>
      (\<exists>evs body. checkin B env pool start = (evs, Inr (body, k)) \<and> re_reply env k = Inr body
         \<and> tried evs = take (Suc k - first) (drop first pool)))
    \<and> ((\<forall>i. first \<le> i \<and> i < length pool \<longrightarrow> \<not> serves B env i) \<longrightarrow>
      (\<exists>evs e. checkin B env pool start = (evs, Inl e) \<and> errors_Is e errTicketPoolExhausted \<and> tried evs = drop first pool))"
proof (intro conjI allI impI; (elim conjE)?)
  have walk: "checkin B env pool start = checkinWalk B env first first (drop first pool) errBootstrap"
    using assms(2) by (simp add: checkin_def Let_def not_less)
  fix k assume "first \<le> k" "k < length pool" "serves B env k" "\<forall>i. first \<le> i \<and> i < k \<longrightarrow> \<not> serves B env i"
  then show "\<exists>evs body. checkin B env pool start = (evs, Inr (body, k)) \<and> re_reply env k = Inr body
         \<and> tried evs = take (Suc k - first) (drop first pool)"
    unfolding walk using assms(1) by (intro walk_served) auto
next
  have walk: "checkin B env pool start = checkinWalk B env first first (drop first pool) errBootstrap"
    using assms(2) by (simp add: checkin_def Let_def not_less)
  assume "\<forall>i. first \<le> i \<and> i < length pool \<longrightarrow> \<not> serves B env i"
  moreover have "first + length (drop first pool) = length pool" using assms(2) by auto
  ultimately show "\<exists>evs e. checkin B env pool start = (evs, Inl e) \<and> errors_Is e errTicketPoolExhausted \<and> tried evs = drop first pool"
    unfolding walk using assms(1) by (intro walk_exhausted) auto
qed

text \<open>Three addresses, of which the first cannot be dialed and the second answers.\<close>

definition sampleCheckin :: doc where
  "sampleCheckin = Doc [(''status'', VInt32 0), (''host'', VString ''carriage''), (''port'', VInt32 9000),
     (''cacheExpire'', VInt32 3600)]"

definition sampleBooking :: doc where
  "sampleBooking = Doc [(''status'', VInt32 0), (''ticket'', VDoc (Doc [(''lsl'', docArray [VString ''a'', VString ''b'', VString ''c''])])),
     (''wifi'', VDoc (Doc [(''ports'', docArray [VInt32 443])]))]"

definition sampleRouteEnv :: "doc route_env" where
  "sampleRouteEnv = \<lparr>re_conf_dial = (\<lambda>n. None), re_conf_reply = (\<lambda>n. Inr sampleBooking), re_conf_sleep = (\<lambda>n. None),
     re_dial = (\<lambda>n. if n = 0 then Some (Other ''refused'') else None), re_reply = (\<lambda>n. Inr sampleCheckin),
     re_sleep = (\<lambda>n. None), re_secure = (\<lambda>ep. None), re_now = (\<lambda>n. int n + 1), re_intN = (\<lambda>n m. 0)\<rparr>"

lemma sampleCheckin_status: "loco_Status docBson sampleCheckin = Inr 0"
  by (simp add: loco_Status_def Int32_def Int64_def sampleCheckin_def minInt32_def maxInt32_def)

theorem checkin_walk_exact_witness:
  "\<exists>evs. checkin docBson sampleRouteEnv [(''a'', 443), (''b'', 443), (''c'', 443)] 7 = (evs, Inr (sampleCheckin, 1))
     \<and> tried evs = [(''a'', 443), (''b'', 443)]"
proof -
  have s: "serves docBson sampleRouteEnv i \<longleftrightarrow> 0 < i" for i
    by (auto simp: serves_def sampleRouteEnv_def exchange_accepted sampleCheckin_status)
  have "\<forall>i. re_sleep sampleRouteEnv i = None" by (simp add: sampleRouteEnv_def)
  from conjunct1 [OF checkin_walk_exact [OF this refl, of 7 "[(''a'', 443), (''b'', 443), (''c'', 443)]" docBson], rule_format, of 1]
  show ?thesis by (auto simp: s) (auto simp: sampleRouteEnv_def)
qed

subsection \<open>Bounds\<close>

definition intNOk :: "'r route_env \<Rightarrow> bool" where
  "intNOk env \<longleftrightarrow> (\<forall>n m. 0 < m \<longrightarrow> 0 \<le> re_intN env n m \<and> re_intN env n m < m)"

lemma jitter_bounds:
  assumes "\<forall>m. 0 < m \<longrightarrow> 0 \<le> intN m \<and> intN m < m" "0 \<le> limit"
  shows "0 \<le> jitteredBackoff n limit intN \<and> jitteredBackoff n limit intN \<le> limit"
proof (cases "n < 1")
  case True
  with assms(2) show ?thesis by (simp add: jitteredBackoff_def)
next
  case False
  define base where "base = (if n < 32 then min (wrap64 (2 ^ n * second) div 2) limit else limit)"
  define half where "half = base div 2"
  have "0 \<le> base \<and> base \<le> limit"
  proof (cases "n < 32")
    case True
    have "(2::int) ^ n \<le> 2 ^ 31" using True by (intro power_increasing) auto
    moreover have "(0::int) < 2 ^ n" by simp
    ultimately have "in64 (2 ^ n * second)" by (simp add: in64_def second_def del: zero_less_power)
    then show ?thesis using True assms(2) by (simp add: base_def wrap64_id second_def)
  qed (use assms(2) in \<open>simp add: base_def\<close>)
  moreover have "0 \<le> half div second" using calculation by (simp add: half_def second_def pos_imp_zdiv_nonneg_iff)
  moreover have "intN (half div second + 1) \<le> half div second" "0 \<le> intN (half div second + 1)"
    using assms(1) [rule_format, of "half div second + 1"] calculation by linarith+
  moreover have "2 * half \<le> base" by (simp add: half_def)
  moreover have "half div second * second \<le> half" by (simp add: second_def)
  ultimately have "intN (half div second + 1) * second \<le> half" "0 \<le> intN (half div second + 1) * second" "0 \<le> half" "2 * half \<le> limit"
    by (auto simp: second_def half_def)
  then show ?thesis using False by (simp add: jitteredBackoff_def Let_def base_def [symmetric] half_def [symmetric])
qed

lemma jitter_env:
  assumes "intNOk env"
  shows "0 \<le> jitteredBackoff n ticketBackoffCap (re_intN env i) \<and> jitteredBackoff n ticketBackoffCap (re_intN env i) \<le> 32 * second"
    "0 \<le> jitteredBackoff n bookingBackoffCap (re_intN env i) \<and> jitteredBackoff n bookingBackoffCap (re_intN env i) \<le> 8 * second"
  using jitter_bounds [of "re_intN env i" ticketBackoffCap n] jitter_bounds [of "re_intN env i" bookingBackoffCap n] assms
  by (simp_all add: intNOk_def ticketBackoffCap_def bookingBackoffCap_def second_def)

lemma walk_bounds:
  assumes "intNOk env"
  shows "checkinWalk B env start index pool failure = (evs, r) \<Longrightarrow>
    getConfs evs = 0 \<and> carriageTries evs = [] \<and> (\<forall>d\<in>set (slept evs). 0 \<le> d \<and> d \<le> 32 * second)
    \<and> (\<exists>k. tried evs = take k pool) \<and> (\<forall>body i. r = Inr (body, i) \<longrightarrow> index \<le> i \<and> i < index + length pool \<and> serves B env i \<and> re_reply env i = Inr body)"
proof (induction pool arbitrary: index failure evs r)
  case Nil
  then show ?case by auto
next
  case (Cons a rest)
  note j = jitter_env(1) [OF assms]
  consider (cancelled) e where "index > start" "re_sleep env index = Some e"
    | (skip) "\<not> serves B env index" "\<not> (index > start \<and> re_sleep env index \<noteq> None)"
    | (served) "serves B env index" "\<not> (index > start \<and> re_sleep env index \<noteq> None)"
    by (cases "index > start \<and> re_sleep env index \<noteq> None"; cases "serves B env index") blast+
  then show ?case
  proof cases
    case cancelled
    with Cons.prems j show ?thesis by (auto intro: exI [of _ 0])
  next
    case skip
    obtain waits failure' where w: "slept waits = (if index > start then [jitteredBackoff index ticketBackoffCap (re_intN env index)] else [])"
        "tried waits = []" "getConfs waits = 0" "carriageTries waits = []"
        "checkinWalk B env start index (a # rest) failure
          = (let (evs, r) = checkinWalk B env start (index + 1) rest failure' in (waits @ CheckinTry a # evs, r))"
      using walk_skip [OF skip, of a rest failure] by blast
    obtain evs' where e: "checkinWalk B env start (index + 1) rest failure' = (evs', r)" "evs = waits @ CheckinTry a # evs'"
      using w(5) Cons.prems by (auto split: prod.splits)
    obtain k where k: "tried evs' = take k rest" using Cons.IH [OF e(1)] by blast
    then have "tried evs = take (Suc k) (a # rest)" by (simp add: e(2) w)
    with Cons.IH [OF e(1)] w j show ?thesis by (auto simp: e(2) split: if_splits intro: exI [of _ "Suc k"])
  next
    case served
    obtain body where "re_reply env index = Inr body" using serves_reply [OF served(1)] by blast
    with served Cons.prems j show ?thesis
      by (cases "index > start") (auto simp: serves_def Let_def intro!: exI [of _ 1])
  qed
qed

lemma checkin_bounds:
  assumes "intNOk env" "checkin B env pool start = (evs, r)"
  shows "getConfs evs = 0" "carriageTries evs = []" "\<forall>d\<in>set (slept evs). 0 \<le> d \<and> d \<le> 32 * second"
    "set (tried evs) \<subseteq> set pool"
    "r = Inr (body, i) \<Longrightarrow> i < length pool \<and> serves B env i \<and> re_reply env i = Inr body"
proof -
  let ?s = "if start \<ge> length pool then 0 else start"
  have w: "checkinWalk B env ?s ?s (drop ?s pool) errBootstrap = (evs, r)"
    using assms(2) by (simp add: checkin_def Let_def)
  note b = walk_bounds [OF assms(1) w]
  show "getConfs evs = 0" "carriageTries evs = []" "\<forall>d\<in>set (slept evs). 0 \<le> d \<and> d \<le> 32 * second"
    using b by blast+
  from b obtain k where "tried evs = take k (drop ?s pool)" by blast
  then show "set (tried evs) \<subseteq> set pool" by (metis dual_order.trans set_drop_subset set_take_subset)
  assume "r = Inr (body, i)"
  with b have "i < ?s + length (drop ?s pool) \<and> serves B env i \<and> re_reply env i = Inr body" by blast
  then show "i < length pool \<and> serves B env i \<and> re_reply env i = Inr body" by (auto split: if_splits)
qed

lemma getConf_bounds:
  assumes "intNOk env"
  shows "getConfTries B env n left failure = (evs, r) \<Longrightarrow>
    getConfs evs \<le> left \<and> tried evs = [] \<and> carriageTries evs = [] \<and> (\<forall>d\<in>set (slept evs). 0 \<le> d \<and> d \<le> 8 * second)
    \<and> (\<forall>body. r = Inr body \<longrightarrow> 0 < getConfs evs \<and> is_ok (DecodeBookingTargets B body))"
proof (induction left arbitrary: n failure evs)
  case 0
  then show ?case by auto
next
  case (Suc left)
  note j = jitter_env(2) [OF assms]
  let ?w = "if n > 0 then [Slept (jitteredBackoff n bookingBackoffCap (re_intN env n))] else []"
  show ?case
  proof (cases "if n > 0 then re_conf_sleep env n else None")
    case (Some e)
    with Suc.prems j show ?thesis by (auto split: if_splits)
  next
    case None
    show ?thesis
    proof (cases "getConfOnce B env n")
      case (Inl e)
      then obtain evs' where e: "getConfTries B env (n + 1) left e = (evs', r)" "evs = ?w @ GetConfTry # evs'"
        using Suc.prems None by (auto simp: Let_def split: prod.splits)
      from Suc.IH [OF e(1)] j show ?thesis by (auto simp: e(2))
    next
      case (Inr reply)
      then have "is_ok (DecodeBookingTargets B reply)"
        by (auto simp: getConfOnce_def is_ok_def split: option.splits sum.splits)
      with Inr Suc.prems None j show ?thesis by (cases "n > 0") (auto simp: Let_def)
    qed
  qed
qed

subsection \<open>The carriage dial\<close>

lemma walkStart_simps [simp]:
  "fst (walkStart n r) = cr_cursor (snd (walkStart n r))" "cr_addresses (snd (walkStart n r)) = n"
  "cr_cursor (snd (walkStart n r)) = 0 \<or> cr_cursor (snd (walkStart n r)) < n"
  "cached t (snd (walkStart n r)) = cached t r" "cr_checkedAt (snd (walkStart n r)) = cr_checkedAt r"
  "cr_host (snd (walkStart n r)) = cr_host r" "cr_port (snd (walkStart n r)) = cr_port r"
  "cr_expire (snd (walkStart n r)) = cr_expire r"
  by (auto simp: walkStart_def cached_def Let_def)

lemma cached_simps [simp]:
  "cached t (clearRoute r) = None" "cached t (resetCursor r) = cached t r"
  by (simp_all add: cached_def clearRoute_def resetCursor_def)

lemma dialCached_cases:
  assumes "dialCached env r = (evs, hit, r0)"
  obtains (hit) ep where "cached (re_now env 0) r = Some ep" "re_secure env ep = None" "evs = [CarriageTry ep]" "hit = Some ep" "r0 = r"
  | (none) "cached (re_now env 0) r = None" "evs = []" "hit = None" "r0 = r"
  | (dead) ep where "cached (re_now env 0) r = Some ep" "evs = [CarriageTry ep]" "hit = None" "r0 = clearRoute r"
  using assms by (auto simp: dialCached_def split: option.splits)

lemma dialWalked_cases:
  assumes "dialWalked B env pool r = (evs, res, r')"
  obtains r1 evs1 walked where "r1 = snd (walkStart (length pool) r)" "checkin B env pool (cr_cursor r1) = (evs1, walked)"
      "(\<exists>e. walked = Inl e \<and> evs = evs1 \<and> res = Inl e \<and> r' = resetCursor r1)
       \<or> (\<exists>reply i e. walked = Inr (reply, i) \<and> evs = evs1 \<and> res = Inl e \<and> r' = r1)
       \<or> (\<exists>reply i host port. walked = Inr (reply, i) \<and> DecodeCheckinEndpoint B reply = Inr (host, port)
            \<and> evs = evs1 @ [CarriageTry (host, port)]
            \<and> (let r2 = storeRoute host port (DecodeCheckinCacheExpire B reply) (re_now env 1) i r1
               in res = Inr (host, port) \<and> re_secure env (host, port) = None \<and> r' = r2
                  \<or> (\<exists>e. res = Inl e) \<and> r' = clearRoute r2))"
proof -
  define r1 where r1: "r1 = snd (walkStart (length pool) r)"
  obtain evs1 walked where walked: "checkin B env pool (cr_cursor r1) = (evs1, walked)"
    by (cases "checkin B env pool (cr_cursor r1)") auto
  have "walkStart (length pool) r = (cr_cursor r1, r1)" by (simp add: r1 prod_eq_iff)
  with assms walked show ?thesis
    by (intro that [OF r1 walked]) (auto simp: dialWalked_def Let_def split: sum.splits prod.splits option.splits)
qed

definition endpointOk :: "string \<times> int \<Rightarrow> bool" where
  "endpointOk a \<longleftrightarrow> fst a \<noteq> [] \<and> 0 < snd a \<and> snd a \<le> 65535"

definition routeOk :: "carriageRoute \<Rightarrow> bool" where
  "routeOk r \<longleftrightarrow> (cr_cursor r = 0 \<or> cr_cursor r < cr_addresses r) \<and> (cr_checkedAt r \<noteq> 0 \<longrightarrow> endpointOk (cr_host r, cr_port r))"

lemma cached_ok: "routeOk r \<Longrightarrow> cached t r = Some ep \<Longrightarrow> endpointOk ep"
  by (auto simp: cached_def routeOk_def split: if_splits)

lemma DecodeCheckinEndpoint_ok: "DecodeCheckinEndpoint B raw = Inr ep \<Longrightarrow> endpointOk ep"
  by (auto simp: DecodeCheckinEndpoint_def endpointOk_def split: option.splits rawvalue.splits if_splits)

lemma routeOk_ops [simp]:
  "routeOk newRoute" "routeOk r \<Longrightarrow> routeOk (clearRoute r)" "routeOk r \<Longrightarrow> routeOk (resetCursor r)"
  "routeOk r \<Longrightarrow> routeOk (changeServer r)" "routeOk r \<Longrightarrow> routeOk (snd (walkStart n r))"
proof -
  show "routeOk r \<Longrightarrow> routeOk (snd (walkStart n r))"
    using walkStart_simps(3) [of n r] by (simp add: routeOk_def)
qed (auto simp: routeOk_def newRoute_def clearRoute_def resetCursor_def changeServer_def Let_def)

lemma dialWalked_sound:
  assumes "intNOk env" "dialWalked B env pool r = (evs, res, r')" "routeOk r"
  shows "getConfs evs = 0" "length (carriageTries evs) \<le> 1" "\<forall>d\<in>set (slept evs). 0 \<le> d \<and> d \<le> 32 * second"
    "set (tried evs) \<subseteq> set pool" "routeOk r'" "\<forall>a\<in>set (carriageTries evs). endpointOk a"
    "res = Inr ep \<Longrightarrow> re_secure env ep = None \<and> ep \<in> set (carriageTries evs)"
    "cached t r' = Some ep \<Longrightarrow> cached t r = Some ep \<or> res = Inr ep \<and> (\<exists>i body. serves B env i \<and> re_reply env i = Inr body
       \<and> DecodeCheckinEndpoint B body = Inr ep \<and> time_Sub t (re_now env 1) < DecodeCheckinCacheExpire B body)"
proof -
  obtain r1 evs1 walked where w: "r1 = snd (walkStart (length pool) r)" "checkin B env pool (cr_cursor r1) = (evs1, walked)"
      "(\<exists>e. walked = Inl e \<and> evs = evs1 \<and> res = Inl e \<and> r' = resetCursor r1)
       \<or> (\<exists>reply i e. walked = Inr (reply, i) \<and> evs = evs1 \<and> res = Inl e \<and> r' = r1)
       \<or> (\<exists>reply i host port. walked = Inr (reply, i) \<and> DecodeCheckinEndpoint B reply = Inr (host, port)
            \<and> evs = evs1 @ [CarriageTry (host, port)]
            \<and> (let r2 = storeRoute host port (DecodeCheckinCacheExpire B reply) (re_now env 1) i r1
               in res = Inr (host, port) \<and> re_secure env (host, port) = None \<and> r' = r2
                  \<or> (\<exists>e. res = Inl e) \<and> r' = clearRoute r2))"
    using assms(2) by (rule dialWalked_cases)
  note b = checkin_bounds [OF assms(1) w(2)]
  have r1: "routeOk r1" "cr_addresses r1 = length pool" "cached t r1 = cached t r" for t
    using assms(3) by (simp_all add: w(1))
  have st: "routeOk (storeRoute host port ex nw i r1)" if "endpointOk (host, port)" "i < length pool" for host port ex nw i
    using that r1 by (auto simp: routeOk_def storeRoute_def)
  note cases = w(3) [unfolded Let_def]
  show "getConfs evs = 0" "length (carriageTries evs) \<le> 1" "\<forall>d\<in>set (slept evs). 0 \<le> d \<and> d \<le> 32 * second"
    "set (tried evs) \<subseteq> set pool"
    using cases b(1-4) by auto
  show "\<forall>a\<in>set (carriageTries evs). endpointOk a"
    using cases b(2) DecodeCheckinEndpoint_ok by auto
  show "routeOk r'"
    using cases r1(1) b(5) by (auto intro!: st routeOk_ops(2,3) dest: DecodeCheckinEndpoint_ok)
  show "re_secure env ep = None \<and> ep \<in> set (carriageTries evs)" if "res = Inr ep"
    using cases that by auto
  show "cached t r = Some ep \<or> res = Inr ep \<and> (\<exists>i body. serves B env i \<and> re_reply env i = Inr body
       \<and> DecodeCheckinEndpoint B body = Inr ep \<and> time_Sub t (re_now env 1) < DecodeCheckinCacheExpire B body)"
    if c: "cached t r' = Some ep"
    using cases
  proof (elim disjE exE conjE)
    fix reply i host port
    assume s: "walked = Inr (reply, i)" "DecodeCheckinEndpoint B reply = Inr (host, port)" "res = Inr (host, port)"
      "r' = storeRoute host port (DecodeCheckinCacheExpire B reply) (re_now env 1) i r1"
    from c s(4) have "ep = (host, port)" "time_Sub t (re_now env 1) < DecodeCheckinCacheExpire B reply"
      by (auto simp: cached_def storeRoute_def split: if_splits)
    with s b(5) show ?thesis by blast
  qed (use c r1 in auto)
qed

text \<open>The laws of a dial that makes at most \<open>n\<close> carriage attempts.\<close>

definition freshEndpoint :: "'r bson \<Rightarrow> 'r route_env \<Rightarrow> gotime \<Rightarrow> string \<times> int \<Rightarrow> bool" where
  "freshEndpoint B env t ep \<longleftrightarrow> (\<exists>i body. serves B env i \<and> re_reply env i = Inr body
     \<and> DecodeCheckinEndpoint B body = Inr ep \<and> time_Sub t (re_now env 1) < DecodeCheckinCacheExpire B body)"

definition soundDial ::
    "'r bson \<Rightarrow> 'r route_env \<Rightarrow> ticketAddress list \<Rightarrow> carriageRoute \<Rightarrow> nat \<Rightarrow> route_event list
      \<Rightarrow> (string \<times> int) result \<Rightarrow> carriageRoute \<Rightarrow> bool" where
  "soundDial B env pool r n evs res r' \<longleftrightarrow>
     getConfs evs = 0 \<and> length (carriageTries evs) \<le> n \<and> (\<forall>d\<in>set (slept evs). 0 \<le> d \<and> d \<le> 32 * second)
     \<and> set (tried evs) \<subseteq> set pool \<and> routeOk r' \<and> (\<forall>a\<in>set (carriageTries evs). endpointOk a)
     \<and> (\<forall>ep. res = Inr ep \<longrightarrow> re_secure env ep = None \<and> ep \<in> set (carriageTries evs))
     \<and> (\<forall>t ep. cached t r' = Some ep \<longrightarrow> cached t r = Some ep \<or> res = Inr ep \<and> freshEndpoint B env t ep)"

lemma dialCarriage_sound:
  assumes "intNOk env" "dialCarriage B env pool r = (evs, res, r')" "routeOk r"
  shows "soundDial B env pool r 2 evs res r'"
proof -
  obtain evs0 hit0 r0 where c: "dialCached env r = (evs0, hit0, r0)" by (cases "dialCached env r") auto
  have w: "soundDial B env pool r 2 evs res r'"
    if "dialWalked B env pool r0 = (evs1, res, r')" "evs = evs0 @ evs1" "routeOk r0"
      "\<forall>t ep. cached t r0 = Some ep \<longrightarrow> cached t r = Some ep" "getConfs evs0 = 0" "length (carriageTries evs0) \<le> 1"
      "slept evs0 = []" "tried evs0 = []" "\<forall>a\<in>set (carriageTries evs0). endpointOk a" for evs1
  proof -
    note s = dialWalked_sound [OF assms(1) that(1,3)]
    show ?thesis unfolding soundDial_def
    proof (intro conjI allI impI)
      fix t ep assume "cached t r' = Some ep"
      from s(8) [OF this] that(4) show "cached t r = Some ep \<or> res = Inr ep \<and> freshEndpoint B env t ep"
        unfolding freshEndpoint_def by blast
    next
      fix ep assume "res = Inr ep"
      with s(7) that(2) show "re_secure env ep = None" "ep \<in> set (carriageTries evs)" by auto
    qed (use that s(1-6) in auto)
  qed
  from c show ?thesis
  proof (cases rule: dialCached_cases)
    case (hit ep)
    with c assms(2) have "evs = evs0" "res = Inr ep" "r' = r" by (auto simp: dialCarriage_def)
    with hit cached_ok [OF assms(3) hit(1)] assms(3) show ?thesis by (simp add: soundDial_def)
  next
    case none
    then obtain evs1 where "dialWalked B env pool r0 = (evs1, res, r')" "evs = evs0 @ evs1"
      using c assms(2) by (auto simp: dialCarriage_def split: prod.splits)
    with none assms(3) show ?thesis by (intro w) auto
  next
    case (dead ep)
    then obtain evs1 where "dialWalked B env pool r0 = (evs1, res, r')" "evs = evs0 @ evs1"
      using c assms(2) by (auto simp: dialCarriage_def split: prod.splits)
    with dead cached_ok [OF assms(3) dead(1)] assms(3) show ?thesis by (intro w) auto
  qed
qed

subsection \<open>Connecting\<close>

lemma ticketHosts_ok: "h \<in> set (ticketHosts vs) \<Longrightarrow> h \<noteq> []"
  by (induction vs) (auto split: rawvalue.splits if_splits)

lemma wifiPorts_ok: "p \<in> set (wifiPorts vs) \<Longrightarrow> 0 < p \<and> p \<le> 65535"
  by (induction vs) (auto split: rawvalue.splits if_splits)

lemma ticketPool_ok:
  "DecodeBookingTargets B reply = Inr (hosts, ports) \<Longrightarrow> a \<in> set (ticketPool hosts ports) \<Longrightarrow> endpointOk a"
  by (auto simp: DecodeBookingTargets_def ticketPool_def endpointOk_def DefaultPort_def Let_def
      dest: ticketHosts_ok wifiPorts_ok split: option.splits if_splits)

text \<open>What a connect from a route keeps: \<open>g\<close> bounds its bookings and \<open>n\<close> its carriage attempts.\<close>

definition soundConnect ::
    "'r bson \<Rightarrow> 'r route_env set \<Rightarrow> carriageRoute \<Rightarrow> nat \<Rightarrow> nat \<Rightarrow> route_event list
      \<Rightarrow> (string \<times> int) result \<Rightarrow> carriageRoute \<Rightarrow> bool" where
  "soundConnect B E r g n evs res r' \<longleftrightarrow>
     getConfs evs \<le> g \<and> length (carriageTries evs) \<le> n \<and> (\<forall>d\<in>set (slept evs). 0 \<le> d \<and> d \<le> 32 * second)
     \<and> (\<forall>a\<in>set (tried evs) \<union> set (carriageTries evs). endpointOk a) \<and> routeOk r'
     \<and> (\<forall>ep. res = Inr ep \<longrightarrow> ep \<in> set (carriageTries evs) \<and> (\<exists>env\<in>E. re_secure env ep = None))
     \<and> (\<forall>t ep. cached t r' = Some ep \<longrightarrow> cached t r = Some ep \<or> res = Inr ep \<and> (\<exists>env\<in>E. freshEndpoint B env t ep))"

lemma carriageAt_sound:
  assumes "intNOk env" "carriageAt B env reply r = (evs, res, r')" "routeOk r"
  shows "soundConnect B {env} r 0 2 evs res r'"
proof (cases "DecodeBookingTargets B reply")
  case (Inl e)
  with assms show ?thesis by (auto simp: carriageAt_def soundConnect_def)
next
  case (Inr targets)
  obtain hosts ports where t: "targets = (hosts, ports)" by (cases targets)
  have "dialCarriage B env (ticketPool hosts ports) r = (evs, res, r')"
    using assms(2) Inr t by (simp add: carriageAt_def)
  from dialCarriage_sound [OF assms(1) this assms(3)] ticketPool_ok [OF Inr [unfolded t]]
  show ?thesis by (auto simp: soundDial_def soundConnect_def)
qed

lemma getConf_sound:
  assumes "intNOk env" "getConf B env = (evs, r)"
  shows "getConfs evs \<le> 3 \<and> tried evs = [] \<and> carriageTries evs = [] \<and> (\<forall>d\<in>set (slept evs). 0 \<le> d \<and> d \<le> 32 * second)"
  using getConf_bounds [OF assms(1) assms(2) [unfolded getConf_def]] by (force simp: bookingAttempts_def second_def)

lemma bookAndDial_sound:
  assumes "intNOk env" "bookAndDial B env r = (evs, res, r')" "routeOk r"
  shows "soundConnect B {env} r 3 2 evs res r'"
proof -
  obtain evs0 booked where g: "getConf B env = (evs0, booked)" by (cases "getConf B env")
  note b = getConf_sound [OF assms(1) g]
  show ?thesis
  proof (cases booked)
    case (Inl e)
    with assms(2,3) g b show ?thesis by (auto simp: bookAndDial_def soundConnect_def)
  next
    case (Inr reply)
    then obtain evs1 where c: "carriageAt B env reply r = (evs1, res, r')" "evs = evs0 @ evs1"
      using assms(2) g by (auto simp: bookAndDial_def split: prod.splits)
    from carriageAt_sound [OF assms(1) c(1) assms(3)] b show ?thesis by (auto simp: soundConnect_def c(2))
  qed
qed

lemma soundConnect_seq:
  assumes "soundConnect B E r g n evs (Inl e) r1" "soundConnect B E' r1 g' n' evs' res r2"
  shows "soundConnect B (E \<union> E') r (g + g') (n + n') (evs @ evs') res r2"
  unfolding soundConnect_def
proof (intro conjI allI impI)
  fix t ep assume "cached t r2 = Some ep"
  with assms(2) consider "cached t r1 = Some ep" | "res = Inr ep" "\<exists>env\<in>E'. freshEndpoint B env t ep"
    unfolding soundConnect_def by blast
  then show "cached t r = Some ep \<or> res = Inr ep \<and> (\<exists>env\<in>E \<union> E'. freshEndpoint B env t ep)"
    by cases (use assms(1) in \<open>unfold soundConnect_def, blast+\<close>)
next
  fix ep assume "res = Inr ep"
  with assms(2) have "ep \<in> set (carriageTries evs') \<and> (\<exists>env\<in>E'. re_secure env ep = None)"
    unfolding soundConnect_def by blast
  then show "ep \<in> set (carriageTries (evs @ evs'))" "\<exists>env\<in>E \<union> E'. re_secure env ep = None" by auto
qed (use assms in \<open>auto simp: soundConnect_def\<close>)

lemma soundConnect_none: "routeOk r \<Longrightarrow> soundConnect B E r 0 0 [] (Inl e) r"
  by (simp add: soundConnect_def)

lemma soundConnect_more:
  assumes "soundConnect B E r g n evs res r'" "g \<le> g'" "n \<le> n'"
  shows "soundConnect B E r g' n' evs res r'"
  using assms unfolding soundConnect_def by (elim conjE, intro conjI) (linarith | assumption)+

lemma connectCarriage_sound:
  assumes "intNOk env" "intNOk env2" "connectCarriage B env env2 stored r = (evs, res, r')" "routeOk r"
  shows "soundConnect B {env, env2} r 3 4 evs res r'"
proof (cases stored)
  case None
  with assms(3) have "bookAndDial B env r = (evs, res, r')" by (simp add: connectCarriage_def)
  from soundConnect_seq [OF soundConnect_none [OF assms(4), where E = "{env2}"] bookAndDial_sound [OF assms(1) this assms(4)]]
  show ?thesis by (simp add: insert_commute soundConnect_more)
next
  case (Some reply)
  obtain evs0 res0 r1 where c: "carriageAt B env reply r = (evs0, res0, r1)" by (cases "carriageAt B env reply r") auto
  note s0 = carriageAt_sound [OF assms(1) c assms(4)]
  show ?thesis
  proof (cases "\<exists>e. res0 = Inl e \<and> errors_Is e errTicketPoolExhausted")
    case True
    then obtain evs1 e where d: "res0 = Inl e" "bookAndDial B env2 r1 = (evs1, res, r')" "evs = evs0 @ evs1"
      using Some assms(3) c by (auto simp: connectCarriage_def split: prod.splits)
    have "routeOk r1" using s0 by (simp add: soundConnect_def)
    from soundConnect_seq [OF s0 [unfolded d(1)] bookAndDial_sound [OF assms(2) d(2) this]] show ?thesis
      by (simp add: d(3) insert_commute)
  next
    case False
    then have "evs = evs0" "res = res0" "r' = r1"
      using Some assms(3) c by (auto simp: connectCarriage_def split: sum.splits)
    moreover from soundConnect_seq [OF soundConnect_none [OF assms(4), where E = "{env2}"] s0]
    have "soundConnect B {env, env2} r 0 2 evs0 res0 r1" by (simp add: insert_commute numeral_2_eq_2)
    ultimately show ?thesis by (simp add: soundConnect_more)
  qed
qed

lemma routed_ok: "routed B r \<Longrightarrow> routeOk r"
proof (induction rule: routed.induct)
  case (connect r env env2 stored evs res r')
  then show ?case using connectCarriage_sound [of env env2 B stored r evs res r'] by (simp add: intNOk_def soundConnect_def)
qed simp_all


lemma sampleRoute_replies:
  "loco_Status docBson sampleBooking = Inr 0"
  "DecodeBookingTargets docBson sampleBooking = Inr ([''a'', ''b'', ''c''], [443])"
  "DecodeCheckinEndpoint docBson sampleCheckin = Inr (''carriage'', 9000)"
  by (simp_all add: loco_Status_def Int32_def Int64_def sampleBooking_def sampleCheckin_def minInt32_def maxInt32_def
      DecodeBookingTargets_def nestedArray_def nestedField_def docArray_def DecodeCheckinEndpoint_def)

lemma sampleConnect:
  "\<exists>evs r'. connectCarriage docBson sampleRouteEnv sampleRouteEnv None newRoute = (evs, Inr (''carriage'', 9000), r')"
proof -
  have env: "re_conf_dial sampleRouteEnv n = None" "re_conf_reply sampleRouteEnv n = Inr sampleBooking"
    "re_dial sampleRouteEnv n = (if n = 0 then Some (Other ''refused'') else None)" "re_reply sampleRouteEnv n = Inr sampleCheckin"
    "re_sleep sampleRouteEnv n = None" "re_secure sampleRouteEnv ep = None" for n ep
    by (simp_all add: sampleRouteEnv_def)
  have "exchangeFailure docBson c (Inr sampleBooking) = None" "exchangeFailure docBson c (Inr sampleCheckin) = None" for c
    by (simp_all add: exchange_accepted sampleRoute_replies sampleCheckin_status)
  then show ?thesis
    by (simp add: connectCarriage_def bookAndDial_def getConf_def bookingAttempts_def numeral_3_eq_3 getConfOnce_def
        carriageAt_def dialCarriage_def dialCached_def cached_def newRoute_def dialWalked_def walkStart_def checkin_def
        ticketPool_def sampleRoute_replies env Let_def)
qed


text \<open>
  The lifetime of a route is computed in 64 bits: a \<open>cacheExpire\<close> of more than 292 years wraps
  around, here to less than a third of a second.
\<close>

lemma cacheExpire_wraps:
  "DecodeCheckinCacheExpire docBson (Doc [(''cacheExpire'', VInt64 18446744074)]) = 290448384"
  by (simp add: DecodeCheckinCacheExpire_def wrap64_def second_def)

end
