(* ===== verification/Delivery_Hold.thy ===== *)
theory Delivery_Hold
  imports Events
begin

text \<open>
  The bridge's event pump: \<open>src/internal/bridge/connector/delivery_hold.go\<close> (holding the
  events of a chat whose delivery fails), the loop \<open>run\<close> of \<open>lifecycle.go\<close> that
  feeds it, and the reconnect schedule of \<open>recovery_schedule.go\<close>.

  The delivery of one event (\<open>handleEvent\<close>), the access check, the clock and the catch-up of a
  chat are answers, by the number of the call (\<open>pu_clock\<close>). The pump also records the
  events \<open>handleEvent\<close> accepted, in order. A Go map is iterated in an arbitrary order, so
  the operations that iterate over the holds take the order of the keys as an argument. The holds
  are owned by one goroutine; nothing runs beside it.
\<close>

subsection \<open>State\<close>

definition maxHeldEvents :: nat where "maxHeldEvents = 1024"

definition seconds :: "int \<Rightarrow> duration" where "seconds n = n * 10 ^ 9"

definition heldChatRetryDelays :: "duration list" where
  "heldChatRetryDelays = map seconds [5, 10, 20, 40, 60]"

record 'r heldChat =
  hc_events :: "'r event list"
  hc_attempts :: nat
  hc_due :: gotime
  hc_paused :: bool
  hc_missedThrough :: int64

record 'r pump =
  pu_chats :: "int64 \<rightharpoonup> 'r heldChat"
  pu_paused :: int
  pu_ready :: nat
  pu_resume :: bool
  pu_handled :: "'r event list"
  pu_clock :: nat

record 'r hold_env =
  he_handle :: "nat \<Rightarrow> 'r event \<Rightarrow> bool"
  he_access :: "nat \<Rightarrow> int64 \<Rightarrow> bool"
  he_now :: "nat \<Rightarrow> gotime"
  he_catchUp :: "nat \<Rightarrow> int64 \<Rightarrow> int64 \<Rightarrow> 'r event list result"
  he_delays :: "duration list"

definition newDeliveryHolds :: "'r pump" where
  "newDeliveryHolds = \<lparr>pu_chats = Map.empty, pu_paused = 0, pu_ready = 0, pu_resume = False,
     pu_handled = [], pu_clock = 0\<rparr>"

fun heldChatOf :: "'r event \<Rightarrow> int64 option" where
  "heldChatOf (ReactionChanged c _ _ _ _ _ _) = Some c"
| "heldChatOf (ReadStateChanged c _ _) = Some c"
| "heldChatOf (ChatLeft c _) = Some c"
| "heldChatOf (ChatStatusChanged c _ _ _) = Some c"
| "heldChatOf (ChatMetaChanged c _ _ _ _ _) = Some c"
| "heldChatOf (ChatMoimMetaChanged c _) = Some c"
| "heldChatOf (UnsupportedLogMeta c _ _) = Some c"
| "heldChatOf evt = map_option fst (MessagePosition evt)"

subsection \<open>Holding\<close>

definition tick :: "'r pump \<Rightarrow> 'r pump" where
  "tick p = p\<lparr>pu_clock := pu_clock p + 1\<rparr>"

definition handleEvent :: "'r hold_env \<Rightarrow> 'r event \<Rightarrow> 'r pump \<Rightarrow> bool \<times> 'r pump" where
  "handleEvent env evt p =
     (if he_handle env (pu_clock p) evt then (True, (tick p)\<lparr>pu_handled := pu_handled p @ [evt]\<rparr>)
      else (False, tick p))"

definition heldChat_add :: "'r event \<Rightarrow> 'r heldChat \<Rightarrow> 'r heldChat" where
  "heldChat_add evt h =
     (if hc_missedThrough h = 0 \<and> length (hc_events h) < maxHeldEvents
      then h\<lparr>hc_events := hc_events h @ [evt]\<rparr>
      else case MessagePosition evt of
             None \<Rightarrow> h
           | Some (_, logID) \<Rightarrow> h\<lparr>hc_missedThrough := max (hc_missedThrough h) logID\<rparr>)"

text \<open>The hold is stored back, as the source updates it in place.\<close>

definition putHeld :: "int64 \<Rightarrow> 'r heldChat \<Rightarrow> 'r pump \<Rightarrow> 'r pump" where
  "putHeld chatID held p = p\<lparr>pu_chats := (pu_chats p)(chatID \<mapsto> held)\<rparr>"

definition scheduleHeld :: "'r hold_env \<Rightarrow> int64 \<Rightarrow> 'r heldChat \<Rightarrow> 'r pump \<Rightarrow> 'r pump" where
  "scheduleHeld env chatID held p =
     (let held1 = held\<lparr>hc_due := 0\<rparr>; p1 = tick p
      in if \<not> he_access env (pu_clock p) chatID then putHeld chatID held1 p1
         else if hc_attempts held1 < length (he_delays env)
         then putHeld chatID (held1\<lparr>hc_due := he_now env (pu_clock p) + he_delays env ! hc_attempts held1\<rparr>) p1
         else if \<not> hc_paused held1
         then putHeld chatID (held1\<lparr>hc_paused := True\<rparr>) (p1\<lparr>pu_paused := pu_paused p1 + 1, pu_ready := pu_ready p1 + 1\<rparr>)
         else putHeld chatID held1 p1)"

definition newHeld :: "'r heldChat" where
  "newHeld = \<lparr>hc_events = [], hc_attempts = 0, hc_due = 0, hc_paused = False, hc_missedThrough = 0\<rparr>"

definition hold :: "'r hold_env \<Rightarrow> int64 \<Rightarrow> 'r event list \<Rightarrow> 'r pump \<Rightarrow> 'r pump" where
  "hold env chatID pending p = scheduleHeld env chatID (fold heldChat_add pending newHeld) p"

definition deliver :: "'r hold_env \<Rightarrow> 'r event \<Rightarrow> 'r pump \<Rightarrow> bool \<times> 'r pump" where
  "deliver env evt p =
     (case (case heldChatOf evt of None \<Rightarrow> None | Some chatID \<Rightarrow> map_option (\<lambda>h. (chatID, h)) (pu_chats p chatID)) of
        Some (chatID, held) \<Rightarrow> (True, putHeld chatID (heldChat_add evt held) p)
      | None \<Rightarrow>
          (case handleEvent env evt p of
             (True, p1) \<Rightarrow> (True, p1)
           | (False, p1) \<Rightarrow>
               (case heldChatOf evt of
                  None \<Rightarrow> (False, p1)
                | Some chatID \<Rightarrow> (True, hold env chatID [evt] p1))))"

definition nextHeldRetry :: "int64 list \<Rightarrow> 'r pump \<Rightarrow> gotime option" where
  "nextHeldRetry order p =
     (let nxt = fold (\<lambda>chatID nxt. case pu_chats p chatID of
            None \<Rightarrow> nxt
          | Some held \<Rightarrow> if hc_due held \<noteq> 0 \<and> (nxt = 0 \<or> hc_due held < nxt) then hc_due held else nxt) order 0
      in if nxt = 0 then None else Some nxt)"

subsection \<open>Retrying\<close>

text \<open>The inner loop: the events left after the first failure, none when all were handled.\<close>

fun handleHeld :: "'r hold_env \<Rightarrow> 'r event list \<Rightarrow> 'r pump \<Rightarrow> 'r event list \<times> 'r pump" where
  "handleHeld env [] p = ([], p)"
| "handleHeld env (evt # rest) p =
     (case handleEvent env evt p of
        (True, p1) \<Rightarrow> handleHeld env rest p1
      | (False, p1) \<Rightarrow> (evt # rest, p1))"

definition release :: "int64 \<Rightarrow> 'r heldChat \<Rightarrow> 'r pump \<Rightarrow> 'r pump" where
  "release chatID held p =
     (let p1 = p\<lparr>pu_chats := (pu_chats p)(chatID := None)\<rparr>
      in if hc_paused held
         then p1\<lparr>pu_paused := pu_paused p1 - 1, pu_ready := pu_ready p1 + (if pu_paused p1 - 1 = 0 then 1 else 0)\<rparr>
         else p1)"

text \<open>The outer loop: a round of catch-up clears \<open>missedThrough\<close>, so there are at most two rounds.\<close>

function retryLoop :: "'r hold_env \<Rightarrow> int64 \<Rightarrow> 'r heldChat \<Rightarrow> 'r pump \<Rightarrow> 'r pump" where
  "retryLoop env chatID held p =
     (case handleHeld env (hc_events held) p of
        (evt # rest, p1) \<Rightarrow>
          scheduleHeld env chatID (held\<lparr>hc_events := evt # rest, hc_attempts := hc_attempts held + 1\<rparr>) p1
      | ([], p1) \<Rightarrow>
          if hc_missedThrough held = 0 then release chatID held p1
          else
            (case he_catchUp env (pu_clock p1) chatID (hc_missedThrough held) of
               Inl _ \<Rightarrow>
                 scheduleHeld env chatID (held\<lparr>hc_events := [], hc_attempts := hc_attempts held + 1\<rparr>) (tick p1)
             | Inr missed \<Rightarrow>
                 retryLoop env chatID (held\<lparr>hc_events := missed, hc_missedThrough := 0\<rparr>) (tick p1)))"
  by pat_completeness auto
termination
  by (relation "measure (\<lambda>(env, chatID, held, p). if hc_missedThrough held = 0 then 0 else 1)") auto

declare retryLoop.simps [simp del]

definition retryHeld :: "'r hold_env \<Rightarrow> int64 \<Rightarrow> 'r pump \<Rightarrow> 'r pump" where
  "retryHeld env chatID p =
     (case pu_chats p chatID of None \<Rightarrow> p | Some held \<Rightarrow> retryLoop env chatID held p)"

definition retryDueHolds :: "'r hold_env \<Rightarrow> int64 list \<Rightarrow> gotime \<Rightarrow> 'r pump \<Rightarrow> 'r pump" where
  "retryDueHolds env order now p =
     fold (\<lambda>chatID p. case pu_chats p chatID of
         None \<Rightarrow> p
       | Some held \<Rightarrow> if hc_due held \<noteq> 0 \<and> hc_due held \<le> now then retryHeld env chatID p else p) order p"

definition resumeOne :: "'r hold_env \<Rightarrow> int64 \<Rightarrow> 'r pump \<Rightarrow> 'r pump" where
  "resumeOne env chatID p =
     (case pu_chats p chatID of
        None \<Rightarrow> p
      | Some held \<Rightarrow>
          if hc_due held = 0 then retryHeld env chatID (putHeld chatID (held\<lparr>hc_attempts := 0\<rparr>) p) else p)"

definition resumeHeld :: "'r hold_env \<Rightarrow> int64 list \<Rightarrow> int64 \<Rightarrow> 'r pump \<Rightarrow> 'r pump" where
  "resumeHeld env order chatID p =
     fold (\<lambda>i p. if chatID = 0 \<or> i = chatID then resumeOne env i p else p) order p"

definition requestDeliveryResume :: "'r pump \<Rightarrow> bool \<times> 'r pump" where
  "requestDeliveryResume p = (if pu_paused p = 0 then (False, p) else (True, p\<lparr>pu_resume := True\<rparr>))"

subsection \<open>The event loop\<close>

text \<open>
  What one iteration of \<open>run\<close> receives: the timer of the earliest retry, the resume
  request, a result of the metadata refresh (the chat whose deliveries it resumes, and whether it
  ends the session), a result of the event stream, or the end of the stream.
\<close>

datatype 'r pump_input =
    HeldTimer gotime "int64 list"
  | ResumeRequest "int64 list"
  | MetadataResult "int64 option" bool "int64 list"
  | StreamEvent "'r event"
  | StreamError go_error
  | StreamClosed

record 'r pumpRun =
  ru_pump :: "'r pump"
  ru_kickedOut :: bool
  ru_changeServer :: bool
  ru_deliveryFailed :: bool
  ru_terminalErr :: "go_error option"
  ru_ended :: bool

definition startRun :: "'r pump \<Rightarrow> 'r pumpRun" where
  "startRun p = \<lparr>ru_pump = p, ru_kickedOut = False, ru_changeServer = False, ru_deliveryFailed = False,
     ru_terminalErr = None, ru_ended = False\<rparr>"

definition isKickout :: "'r event \<Rightarrow> bool" where
  "isKickout evt = (case evt of Kickout _ _ _ _ \<Rightarrow> True | _ \<Rightarrow> False)"

definition runStep :: "'r hold_env \<Rightarrow> 'r pump_input \<Rightarrow> 'r pumpRun \<Rightarrow> 'r pumpRun" where
  "runStep env input s =
     (let closing = ru_kickedOut s \<or> ru_changeServer s; p = ru_pump s
      in case input of
           HeldTimer now order \<Rightarrow> if closing then s else s\<lparr>ru_pump := retryDueHolds env order now p\<rparr>
         | ResumeRequest order \<Rightarrow>
             (let p1 = p\<lparr>pu_resume := False\<rparr>
              in if closing then s\<lparr>ru_pump := p1\<rparr> else s\<lparr>ru_pump := resumeHeld env order 0 p1\<rparr>)
         | MetadataResult resumed stop order \<Rightarrow>
             if closing then s
             else s\<lparr>ru_pump := (case resumed of None \<Rightarrow> p | Some chatID \<Rightarrow> resumeHeld env order chatID p),
                    ru_ended := stop\<rparr>
         | StreamClosed \<Rightarrow> s\<lparr>ru_ended := True\<rparr>
         | StreamError e \<Rightarrow>
             if closing then s
             else if errors_Is e ErrUnidentifiableMembership
             then s\<lparr>ru_terminalErr := Some ErrUnidentifiableMembership, ru_ended := True\<rparr>
             else if errors_Is e ErrUnidentifiableMessage
             then s\<lparr>ru_terminalErr := Some ErrUnidentifiableMessage, ru_ended := True\<rparr>
             else s
         | StreamEvent evt \<Rightarrow>
             if closing then s
             else
               (let kicked = isKickout evt; changed = (evt = ChangeServer);
                    (ok, p1) = deliver env evt p;
                    s1 = s\<lparr>ru_pump := p1, ru_kickedOut := kicked, ru_changeServer := changed\<rparr>
                in if \<not> ok \<and> \<not> kicked \<and> \<not> changed
                   then s1\<lparr>ru_deliveryFailed := True, ru_ended := True\<rparr> else s1))"

fun runPump :: "'r hold_env \<Rightarrow> 'r pump_input list \<Rightarrow> 'r pumpRun \<Rightarrow> 'r pumpRun" where
  "runPump env [] s = s"
| "runPump env (input # inputs) s = (if ru_ended s then s else runPump env inputs (runStep env input s))"

subsection \<open>The reconnect schedule\<close>

definition firstRecoveryDelay :: duration where "firstRecoveryDelay = 10 ^ 8"
definition episodeRetryDelay :: duration where "episodeRetryDelay = seconds 10"
definition episodeWatchdog :: duration where "episodeWatchdog = seconds 600"

record recoverySchedule =
  es_episodeAt :: gotime
  es_attempt :: nat
  es_gaveUp :: bool

definition begin_attempt :: "gotime \<Rightarrow> recoverySchedule \<Rightarrow> bool \<times> recoverySchedule" where
  "begin_attempt now s = (if es_episodeAt s \<noteq> 0 then (False, s) else (True, s\<lparr>es_episodeAt := now, es_attempt := 0\<rparr>))"

definition active :: "recoverySchedule \<Rightarrow> bool" where
  "active s \<longleftrightarrow> es_episodeAt s \<noteq> 0"

definition succeeded :: "recoverySchedule \<Rightarrow> recoverySchedule" where
  "succeeded s = s\<lparr>es_episodeAt := 0, es_attempt := 0\<rparr>"

definition failed :: "gotime \<Rightarrow> recoverySchedule \<Rightarrow> duration option \<times> recoverySchedule" where
  "failed now s =
     (let s1 = snd (begin_attempt now s); s2 = s1\<lparr>es_attempt := es_attempt s1 + 1\<rparr>
      in if \<not> now + episodeRetryDelay < es_episodeAt s2 + episodeWatchdog then (None, s2)
         else (Some episodeRetryDelay, s2))"

definition watchdogDelay :: "gotime \<Rightarrow> recoverySchedule \<Rightarrow> duration" where
  "watchdogDelay now s = max (es_episodeAt s + episodeWatchdog - now) 0"

subsection \<open>What one retry does\<close>

lemma handleEvent_simps [simp]:
  "pu_chats (snd (handleEvent env evt p)) = pu_chats p" "pu_paused (snd (handleEvent env evt p)) = pu_paused p"
  "pu_handled (snd (handleEvent env evt p)) = pu_handled p @ (if fst (handleEvent env evt p) then [evt] else [])"
  by (simp_all add: handleEvent_def tick_def)

lemma tick_simps [simp]: "pu_chats (tick p) = pu_chats p" "pu_paused (tick p) = pu_paused p" "pu_handled (tick p) = pu_handled p"
  by (simp_all add: tick_def)

lemma handleHeld_spec:
  assumes "handleHeld env evs p = (rest, p')"
  shows "pu_chats p' = pu_chats p" "pu_paused p' = pu_paused p" "pu_handled p' @ rest = pu_handled p @ evs" "set rest \<subseteq> set evs"
proof -
  have "pu_chats p' = pu_chats p \<and> pu_paused p' = pu_paused p \<and> pu_handled p' @ rest = pu_handled p @ evs \<and> set rest \<subseteq> set evs"
    using assms
  proof (induction evs arbitrary: p)
    case (Cons evt evs)
    obtain ok p1 where h: "handleEvent env evt p = (ok, p1)" by (cases "handleEvent env evt p")
    then have p1: "pu_chats p1 = pu_chats p" "pu_paused p1 = pu_paused p" "pu_handled p1 = pu_handled p @ (if ok then [evt] else [])"
      using handleEvent_simps [of env evt p] by simp_all
    show ?case
    proof (cases ok)
      case True
      with Cons.IH [of p1] Cons.prems h p1 show ?thesis by auto
    next
      case False
      with Cons.prems h p1 show ?thesis by auto
    qed
  qed simp
  then show "pu_chats p' = pu_chats p" "pu_paused p' = pu_paused p" "pu_handled p' @ rest = pu_handled p @ evs" "set rest \<subseteq> set evs"
    by simp_all
qed

lemma scheduleHeld_spec:
  obtains due paused where
    "pu_chats (scheduleHeld env c h p) = (pu_chats p)(c \<mapsto> h\<lparr>hc_due := due, hc_paused := paused\<rparr>)"
    "pu_handled (scheduleHeld env c h p) = pu_handled p"
    "pu_paused (scheduleHeld env c h p) = pu_paused p + (if paused \<and> \<not> hc_paused h then 1 else 0)"
    "hc_paused h \<longrightarrow> paused" "due \<noteq> 0 \<longrightarrow> hc_attempts h < length (he_delays env)"
    "paused \<and> \<not> hc_paused h \<longrightarrow> length (he_delays env) \<le> hc_attempts h \<and> due = 0"
proof (cases "he_access env (pu_clock p) c")
  case False
  show ?thesis by (rule that [where due = 0 and paused = "hc_paused h"]) (use False in \<open>simp_all add: scheduleHeld_def putHeld_def Let_def\<close>)
next
  case access: True
  show ?thesis
  proof (cases "hc_attempts h < length (he_delays env)")
    case True
    show ?thesis by (rule that [where due = "he_now env (pu_clock p) + he_delays env ! hc_attempts h" and paused = "hc_paused h"])
      (use access True in \<open>simp_all add: scheduleHeld_def putHeld_def Let_def\<close>)
  next
    case False
    show ?thesis by (rule that [where due = 0 and paused = True])
      (use access False in \<open>auto simp: scheduleHeld_def putHeld_def Let_def\<close>)
  qed
qed

lemma release_simps [simp]:
  "pu_chats (release c h p) = (pu_chats p)(c := None)" "pu_handled (release c h p) = pu_handled p"
  "pu_paused (release c h p) = pu_paused p - (if hc_paused h then 1 else 0)"
  by (simp_all add: release_def Let_def)

text \<open>The outcomes of a retry: released, or held again behind the first event that failed.\<close>

lemma retryLoop_cases:
  fixes h :: "'r heldChat"
  obtains (released) extra p1 where "retryLoop env c h p = release c h p1 \<or> retryLoop env c h p = release c (h\<lparr>hc_events := extra, hc_missedThrough := 0\<rparr>) p1"
      "pu_chats p1 = pu_chats p" "pu_paused p1 = pu_paused p" "pu_handled p1 = pu_handled p @ hc_events h @ extra"
      "hc_missedThrough h = 0 \<and> extra = [] \<or> hc_missedThrough h \<noteq> 0 \<and> (\<exists>n. he_catchUp env n c (hc_missedThrough h) = Inr extra)"
  | (again) h1 p1 extra where "retryLoop env c h p = scheduleHeld env c (h1\<lparr>hc_attempts := hc_attempts h + 1\<rparr>) p1"
      "pu_chats p1 = pu_chats p" "pu_paused p1 = pu_paused p" "hc_paused h1 = hc_paused h"
      "pu_handled p1 @ hc_events h1 = pu_handled p @ hc_events h @ extra" "set (hc_events h1) \<subseteq> set (hc_events h) \<union> set extra"
      "hc_missedThrough h1 = hc_missedThrough h \<and> extra = []
       \<or> hc_missedThrough h \<noteq> 0 \<and> hc_missedThrough h1 = 0 \<and> (\<exists>n. he_catchUp env n c (hc_missedThrough h) = Inr extra)"
proof -
  obtain rest p1 where d: "handleHeld env (hc_events h) p = (rest, p1)" by (cases "handleHeld env (hc_events h) p")
  note s = handleHeld_spec [OF d]
  show ?thesis
  proof (cases rest)
    case (Cons evt es)
    have "retryLoop env c h p = scheduleHeld env c (h\<lparr>hc_events := rest, hc_attempts := hc_attempts h + 1\<rparr>) p1"
      by (subst retryLoop.simps) (simp add: d Cons)
    then show ?thesis using s by (intro again [where ?h1.0 = "h\<lparr>hc_events := rest\<rparr>" and ?p1.0 = p1 and extra = "[]"]) simp_all
  next
    case Nil
    show ?thesis
    proof (cases "hc_missedThrough h = 0")
      case True
      have "retryLoop env c h p = release c h p1" by (subst retryLoop.simps) (simp add: d Nil True)
      then show ?thesis using s Nil True by (intro released [where ?p1.0 = p1 and extra = "[]"]) simp_all
    next
      case False
      show ?thesis
      proof (cases "he_catchUp env (pu_clock p1) c (hc_missedThrough h)")
        case (Inl e)
        have "retryLoop env c h p = scheduleHeld env c (h\<lparr>hc_events := [], hc_attempts := hc_attempts h + 1\<rparr>) (tick p1)"
          by (subst retryLoop.simps) (simp add: d Nil False Inl)
        then show ?thesis using s Nil by (intro again [where ?h1.0 = "h\<lparr>hc_events := []\<rparr>" and ?p1.0 = "tick p1" and extra = "[]"]) simp_all
      next
        case (Inr extra)
        let ?h = "h\<lparr>hc_events := extra, hc_missedThrough := 0\<rparr>"
        have l: "retryLoop env c h p = retryLoop env c ?h (tick p1)"
          by (subst retryLoop.simps) (simp add: d Nil False Inr)
        obtain rest2 p2 where d2: "handleHeld env extra (tick p1) = (rest2, p2)" by (cases "handleHeld env extra (tick p1)")
        note s2 = handleHeld_spec [OF d2]
        have caught: "\<exists>n. he_catchUp env n c (hc_missedThrough h) = Inr extra" using Inr by blast
        show ?thesis
        proof (cases rest2)
          case (Cons evt es)
          have "retryLoop env c h p = scheduleHeld env c (?h\<lparr>hc_events := rest2, hc_attempts := hc_attempts h + 1\<rparr>) p2"
            unfolding l by (subst retryLoop.simps) (simp add: d2 Cons)
          then show ?thesis using s s2 Nil False caught
            by (intro again [where ?h1.0 = "?h\<lparr>hc_events := rest2\<rparr>" and ?p1.0 = p2 and extra = extra]) auto
        next
          case Nil2: Nil
          have "retryLoop env c h p = release c ?h p2"
            unfolding l by (subst retryLoop.simps) (simp add: d2 Nil2)
          then show ?thesis using s s2 Nil Nil2 False caught by (intro released [where ?p1.0 = p2 and extra = extra]) simp_all
        qed
      qed
    qed
  qed
qed

subsection \<open>Order within a chat\<close>

definition chatEvents :: "int64 \<Rightarrow> 'r event list \<Rightarrow> 'r event list" where
  "chatEvents c evs = filter (\<lambda>e. heldChatOf e = Some c) evs"

definition buffered :: "'r pump \<Rightarrow> int64 \<Rightarrow> 'r event list" where
  "buffered p c = (case pu_chats p c of None \<Rightarrow> [] | Some h \<Rightarrow> hc_events h)"

definition ownEvents :: "'r pump \<Rightarrow> bool" where
  "ownEvents p \<longleftrightarrow> (\<forall>c h e. pu_chats p c = Some h \<and> e \<in> set (hc_events h) \<longrightarrow> heldChatOf e = Some c)"

text \<open>A catch-up of a chat returns events of that chat.\<close>

definition catchUpOk :: "'r hold_env \<Rightarrow> bool" where
  "catchUpOk env \<longleftrightarrow> (\<forall>n c m evs. he_catchUp env n c m = Inr evs \<longrightarrow> (\<forall>e\<in>set evs. heldChatOf e = Some c))"

definition inOrder :: "'r pump \<Rightarrow> int64 \<Rightarrow> 'r event list \<Rightarrow> bool" where
  "inOrder p c arrived \<longleftrightarrow> chatEvents c (pu_handled p) @ buffered p c = arrived
     \<and> (\<forall>h. pu_chats p c = Some h \<longrightarrow> hc_missedThrough h = 0)"

lemma chatEvents_simps [simp]:
  "chatEvents c [] = []" "chatEvents c (xs @ ys) = chatEvents c xs @ chatEvents c ys"
  "chatEvents c (e # es) = (if heldChatOf e = Some c then e # chatEvents c es else chatEvents c es)"
  by (simp_all add: chatEvents_def)

lemma chatEvents_of: "\<forall>e\<in>set evs. heldChatOf e = Some d \<Longrightarrow> chatEvents c evs = (if d = c then evs else [])"
  by (auto simp: chatEvents_def filter_empty_conv)

lemma retryHeld_order:
  assumes "catchUpOk env" "ownEvents p" "inOrder p c arrived"
  shows "ownEvents (retryHeld env d p) \<and> inOrder (retryHeld env d p) c arrived"
proof (cases "pu_chats p d")
  case None
  with assms show ?thesis by (simp add: retryHeld_def)
next
  case (Some h)
  have own: "\<forall>e\<in>set (hc_events h). heldChatOf e = Some d" using assms(2) Some by (auto simp: ownEvents_def)
  have extra: "\<forall>e\<in>set extra. heldChatOf e = Some d" if "he_catchUp env n d m = Inr extra" for n m extra
    using assms(1) that by (auto simp: catchUpOk_def)
  have mine: "hc_missedThrough h = 0" if "d = c" using assms(3) Some that by (auto simp: inOrder_def)
  have buf: "buffered p d = hc_events h" using Some by (simp add: buffered_def)
  have q: "retryHeld env d p = retryLoop env d h p" using Some by (simp add: retryHeld_def)
  show ?thesis unfolding q
  proof (cases rule: retryLoop_cases [of env d h p])
    case (released extra p1)
    have e: "\<forall>x\<in>set extra. heldChatOf x = Some d" "d = c \<Longrightarrow> extra = []"
      using released(5) extra mine by auto
    obtain h' where r: "retryLoop env d h p = release d h' p1" using released(1) by blast
    have "chatEvents c (pu_handled p1) = chatEvents c (pu_handled p) @ (if d = c then hc_events h else [])"
      using released(4) chatEvents_of [OF own, of c] chatEvents_of [OF e(1), of c] e(2) by (cases "d = c") simp_all
    then show "ownEvents (retryLoop env d h p) \<and> inOrder (retryLoop env d h p) c arrived"
      using assms(2,3) buf released(2) by (auto simp: r ownEvents_def inOrder_def buffered_def split: if_splits)
  next
    case (again h1 p1 extra)
    have e: "\<forall>x\<in>set extra. heldChatOf x = Some d" "d = c \<Longrightarrow> extra = []" "d = c \<Longrightarrow> hc_missedThrough h1 = 0"
      using again(7) extra mine by auto
    have own1: "\<forall>x\<in>set (hc_events h1). heldChatOf x = Some d" using again(6) own e(1) by auto
    obtain due paused where s:
        "pu_chats (retryLoop env d h p) = (pu_chats p)(d \<mapsto> h1\<lparr>hc_attempts := hc_attempts h + 1, hc_due := due, hc_paused := paused\<rparr>)"
        "pu_handled (retryLoop env d h p) = pu_handled p1"
      using scheduleHeld_spec [of env d "h1\<lparr>hc_attempts := hc_attempts h + 1\<rparr>" p1] again(1,2) by metis
    have "chatEvents c (pu_handled p1) @ chatEvents c (hc_events h1) = chatEvents c (pu_handled p) @ chatEvents c (hc_events h @ extra)"
      using arg_cong [OF again(5), of "chatEvents c"] by simp
    then have "chatEvents c (pu_handled p1) @ (if d = c then hc_events h1 else []) = chatEvents c (pu_handled p) @ (if d = c then hc_events h else [])"
      using chatEvents_of [OF own, of c] chatEvents_of [OF own1, of c] chatEvents_of [OF e(1), of c] e(2)
      by (cases "d = c") simp_all
    then show "ownEvents (retryLoop env d h p) \<and> inOrder (retryLoop env d h p) c arrived"
      using assms(2,3) buf s own1 e(3) by (auto simp: ownEvents_def inOrder_def buffered_def split: if_splits)
  qed
qed

lemma resumeOne_order:
  assumes "catchUpOk env" "ownEvents p" "inOrder p c arrived"
  shows "ownEvents (resumeOne env d p) \<and> inOrder (resumeOne env d p) c arrived"
proof (cases "pu_chats p d")
  case None
  with assms show ?thesis by (simp add: resumeOne_def)
next
  case (Some h)
  have "ownEvents (putHeld d (h\<lparr>hc_attempts := 0\<rparr>) p)" "inOrder (putHeld d (h\<lparr>hc_attempts := 0\<rparr>) p) c arrived"
    using assms(2,3) Some by (auto simp: ownEvents_def inOrder_def buffered_def putHeld_def)
  from retryHeld_order [OF assms(1) this, of d] show ?thesis
    using assms(2,3) Some by (simp add: resumeOne_def)
qed

lemma resumeHeld_order:
  assumes "catchUpOk env" "ownEvents p" "inOrder p c arrived"
  shows "ownEvents (resumeHeld env order d p) \<and> inOrder (resumeHeld env order d p) c arrived"
  using assms(2,3) unfolding resumeHeld_def
proof (induction order arbitrary: p)
  case (Cons i order)
  then show ?case using resumeOne_order [OF assms(1), of p c arrived i] by simp
qed simp

lemma retryDueHolds_order:
  assumes "catchUpOk env" "ownEvents p" "inOrder p c arrived"
  shows "ownEvents (retryDueHolds env order now p) \<and> inOrder (retryDueHolds env order now p) c arrived"
  using assms(2,3) unfolding retryDueHolds_def
proof (induction order arbitrary: p)
  case (Cons i order)
  then show ?case using retryHeld_order [OF assms(1), of p c arrived i] by (simp split: option.splits)
qed simp

lemma deliver_cases:
  assumes "deliver env evt p = (ok, p')"
  obtains (kept) d h where "heldChatOf evt = Some d" "pu_chats p d = Some h" "ok" "p' = putHeld d (heldChat_add evt h) p"
  | (handled) "\<forall>d. heldChatOf evt = Some d \<longrightarrow> pu_chats p d = None" "ok" "pu_chats p' = pu_chats p" "pu_paused p' = pu_paused p"
      "pu_handled p' = pu_handled p @ [evt]"
  | (refused) "heldChatOf evt = None" "\<not> ok" "pu_chats p' = pu_chats p" "pu_paused p' = pu_paused p" "pu_handled p' = pu_handled p"
  | (held) d p1 where "heldChatOf evt = Some d" "pu_chats p d = None" "ok" "p' = hold env d [evt] p1"
      "pu_chats p1 = pu_chats p" "pu_paused p1 = pu_paused p" "pu_handled p1 = pu_handled p"
proof -
  obtain done1 p1 where h: "handleEvent env evt p = (done1, p1)" by (cases "handleEvent env evt p")
  then have p1: "pu_chats p1 = pu_chats p" "pu_paused p1 = pu_paused p" "pu_handled p1 = pu_handled p @ (if done1 then [evt] else [])"
    using handleEvent_simps [of env evt p] by simp_all
  show ?thesis
  proof (cases "heldChatOf evt")
    case None
    show ?thesis
    proof (cases done1)
      case True
      with None h assms p1 show ?thesis by (intro handled) (auto simp: deliver_def)
    next
      case False
      with None h assms p1 show ?thesis by (intro refused) (auto simp: deliver_def)
    qed
  next
    case (Some d)
    show ?thesis
    proof (cases "pu_chats p d")
      case None
      show ?thesis
      proof (cases done1)
        case True
        with Some None h assms p1 show ?thesis by (intro handled) (auto simp: deliver_def)
      next
        case False
        with Some None h assms p1 show ?thesis by (intro held [of d p1]) (auto simp: deliver_def)
      qed
    next
      case (Some h0)
      with \<open>heldChatOf evt = Some d\<close> assms show ?thesis by (intro kept [of d h0]) (auto simp: deliver_def)
    qed
  qed
qed

lemma heldChat_add_new: "heldChat_add evt newHeld = newHeld\<lparr>hc_events := [evt]\<rparr>"
  by (simp add: heldChat_add_def newHeld_def maxHeldEvents_def)

lemma heldChat_add_events:
  "set (hc_events (heldChat_add evt h)) \<subseteq> insert evt (set (hc_events h))"
  "hc_missedThrough h = 0 \<Longrightarrow> length (hc_events h) < 1024 \<Longrightarrow> heldChat_add evt h = h\<lparr>hc_events := hc_events h @ [evt]\<rparr>"
  by (auto simp: heldChat_add_def maxHeldEvents_def split: option.splits)

lemma hold_one:
  obtains due paused where
    "pu_chats (hold env d [evt] p) = (pu_chats p)(d \<mapsto> newHeld\<lparr>hc_events := [evt], hc_due := due, hc_paused := paused\<rparr>)"
    "pu_handled (hold env d [evt] p) = pu_handled p" "pu_paused (hold env d [evt] p) = pu_paused p + (if paused then 1 else 0)"
    "due \<noteq> 0 \<longrightarrow> 0 < length (he_delays env)" "paused \<longrightarrow> due = 0 \<and> he_delays env = []"
proof -
  have "hold env d [evt] p = scheduleHeld env d (newHeld\<lparr>hc_events := [evt]\<rparr>) p"
    by (simp add: hold_def heldChat_add_new)
  then show ?thesis
    by (rule_tac scheduleHeld_spec [of env d "newHeld\<lparr>hc_events := [evt]\<rparr>" p])
      (rule that, auto simp: newHeld_def)
qed

lemma deliver_order:
  assumes "ownEvents p" "inOrder p c arrived" "length (arrived @ chatEvents c [evt]) \<le> 1024" "deliver env evt p = (ok, p')"
  shows "inOrder p' c (arrived @ chatEvents c [evt])"
  using assms(4)
proof (cases rule: deliver_cases)
  case (kept d h)
  show ?thesis
  proof (cases "d = c")
    case True
    with assms(2) kept have m: "hc_missedThrough h = 0" "chatEvents c (pu_handled p) @ hc_events h = arrived"
      by (auto simp: inOrder_def buffered_def)
    then have "length (hc_events h) \<le> length arrived" by auto
    moreover have "length arrived < 1024" using assms(3) kept True by simp
    ultimately have "heldChat_add evt h = h\<lparr>hc_events := hc_events h @ [evt]\<rparr>"
      using m by (intro heldChat_add_events(2)) auto
    then show ?thesis using kept True m by (auto simp: inOrder_def buffered_def putHeld_def)
  next
    case False
    with kept assms(2) show ?thesis by (auto simp: inOrder_def buffered_def putHeld_def)
  qed
next
  case handled
  with assms(2) show ?thesis by (auto simp: inOrder_def buffered_def)
next
  case refused
  with assms(2) show ?thesis by (auto simp: inOrder_def buffered_def)
next
  case (held d p1)
  obtain due paused where
      "pu_chats (hold env d [evt] p1) = (pu_chats p1)(d \<mapsto> newHeld\<lparr>hc_events := [evt], hc_due := due, hc_paused := paused\<rparr>)"
      "pu_handled (hold env d [evt] p1) = pu_handled p1"
    by (rule hold_one)
  with held assms(2) show ?thesis by (auto simp: inOrder_def buffered_def newHeld_def)
qed

lemma deliver_own:
  assumes "ownEvents p" "deliver env evt p = (ok, p')"
  shows "ownEvents p'"
  using assms(2)
proof (cases rule: deliver_cases)
  case (kept d h)
  have "heldChatOf e = Some d" if "e \<in> set (hc_events (heldChat_add evt h))" for e
    using heldChat_add_events(1) [of evt h] that kept(1,2) assms(1) unfolding ownEvents_def by blast
  with kept assms(1) show ?thesis by (auto simp: ownEvents_def putHeld_def)
next
  case (held d p1)
  obtain due paused where
      "pu_chats (hold env d [evt] p1) = (pu_chats p1)(d \<mapsto> newHeld\<lparr>hc_events := [evt], hc_due := due, hc_paused := paused\<rparr>)"
      "pu_handled (hold env d [evt] p1) = pu_handled p1"
    by (rule hold_one)
  with held assms(1) show ?thesis unfolding ownEvents_def by (auto split: if_splits)
next
  case handled
  from assms(1) handled(3) show ?thesis unfolding ownEvents_def by simp
next
  case refused
  from assms(1) refused(3) show ?thesis unfolding ownEvents_def by simp
qed

subsection \<open>The loop\<close>

text \<open>The events of the stream that the loop delivers: those it receives before a terminal notice or its end.\<close>

fun arrivals :: "'r hold_env \<Rightarrow> 'r pump_input list \<Rightarrow> 'r pumpRun \<Rightarrow> 'r event list" where
  "arrivals env [] s = []"
| "arrivals env (input # inputs) s =
     (if ru_ended s then []
      else (case input of StreamEvent evt \<Rightarrow> if ru_kickedOut s \<or> ru_changeServer s then [] else [evt] | _ \<Rightarrow> [])
           @ arrivals env inputs (runStep env input s))"

lemma runStep_order:
  assumes "catchUpOk env" "ownEvents (ru_pump s)" "inOrder (ru_pump s) c arrived" "\<not> ru_ended s"
    "new = (case input of StreamEvent evt \<Rightarrow> if ru_kickedOut s \<or> ru_changeServer s then [] else [evt] | _ \<Rightarrow> [])"
    "length (arrived @ chatEvents c new) \<le> 1024"
  shows "ownEvents (ru_pump (runStep env input s)) \<and> inOrder (ru_pump (runStep env input s)) c (arrived @ chatEvents c new)"
proof -
  define p where "p = ru_pump s"
  have p: "ownEvents p" "inOrder p c arrived" using assms(2,3) by (simp_all add: p_def)
  have flag: "ownEvents (p\<lparr>pu_resume := b\<rparr>)" "inOrder (p\<lparr>pu_resume := b\<rparr>) c arrived" for b
    using p by (simp_all add: ownEvents_def inOrder_def buffered_def)
  show ?thesis
  proof (cases "ru_kickedOut s \<or> ru_changeServer s")
    case True
    with assms(5) p flag show ?thesis
      by (cases input) (simp_all add: runStep_def Let_def p_def [symmetric])
  next
    case open': False
    show ?thesis
    proof (cases input)
      case (HeldTimer now order)
      with open' assms(5) retryDueHolds_order [OF assms(1) p] show ?thesis by (simp add: runStep_def Let_def p_def)
    next
      case (ResumeRequest order)
      with open' assms(5) resumeHeld_order [OF assms(1) flag] show ?thesis by (simp add: runStep_def Let_def p_def)
    next
      case (MetadataResult resumed stop order)
      with open' assms(5) resumeHeld_order [OF assms(1) p] p show ?thesis
        by (cases resumed) (simp_all add: runStep_def Let_def p_def)
    next
      case (StreamError e)
      with open' assms(5) p show ?thesis by (simp add: runStep_def Let_def p_def)
    next
      case StreamClosed
      with open' assms(5) p show ?thesis by (simp add: runStep_def Let_def p_def)
    next
      case (StreamEvent evt)
      obtain ok p1 where d: "deliver env evt p = (ok, p1)" by (cases "deliver env evt p")
      have new: "new = [evt]" using assms(5) StreamEvent open' by simp
      have "ownEvents p1" "inOrder p1 c (arrived @ chatEvents c new)"
        using deliver_own [OF p(1) d] deliver_order [OF p _ d] assms(6) new by simp_all
      moreover have "ru_pump (runStep env input s) = p1"
        using StreamEvent open' d by (simp add: runStep_def Let_def p_def)
      ultimately show ?thesis by simp
    qed
  qed
qed

lemma runPump_order:
  assumes "catchUpOk env"
  shows "ownEvents (ru_pump s) \<Longrightarrow> inOrder (ru_pump s) c arrived \<Longrightarrow>
    length (arrived @ chatEvents c (arrivals env inputs s)) \<le> 1024 \<Longrightarrow>
    inOrder (ru_pump (runPump env inputs s)) c (arrived @ chatEvents c (arrivals env inputs s))"
proof (induction inputs arbitrary: s arrived)
  case (Cons input inputs)
  show ?case
  proof (cases "ru_ended s")
    case True
    with Cons.prems show ?thesis by simp
  next
    case False
    define new where "new = (case input of StreamEvent evt \<Rightarrow> if ru_kickedOut s \<or> ru_changeServer s then [] else [evt] | _ \<Rightarrow> [])"
    have arr: "arrivals env (input # inputs) s = new @ arrivals env inputs (runStep env input s)"
      using False by (simp add: new_def)
    have "ownEvents (ru_pump (runStep env input s)) \<and> inOrder (ru_pump (runStep env input s)) c (arrived @ chatEvents c new)"
      using Cons.prems arr by (intro runStep_order [OF assms _ _ False new_def]) auto
    with Cons.IH [of "runStep env input s" "arrived @ chatEvents c new"] Cons.prems(3) arr False
    show ?thesis by simp
  qed
qed simp


definition sampleHoldEnv :: "doc hold_env" where
  "sampleHoldEnv = \<lparr>he_handle = (\<lambda>n evt. n \<noteq> 0), he_access = (\<lambda>n c. True), he_now = (\<lambda>n. 100),
     he_catchUp = (\<lambda>n c m. Inl ErrProtocol), he_delays = heldChatRetryDelays\<rparr>"

definition sampleInputs :: "doc pump_input list" where
  "sampleInputs = [StreamEvent (ReadStateChanged 7 1 10), StreamEvent (ReadStateChanged 9 1 20),
     StreamEvent (ReadStateChanged 7 1 30), HeldTimer (10 ^ 12) [7]]"


subsection \<open>Retries: exactness\<close>

lemma handleHeld_all: "\<forall>n e. he_handle env n e \<Longrightarrow> fst (handleHeld env evs p) = []"
  by (induction evs arbitrary: p) (simp_all add: handleEvent_def)

lemma retryLoop_succeeds:
  fixes h :: "'r heldChat"
  assumes "\<forall>n e. he_handle env n e" "\<forall>n c m. \<exists>evs. he_catchUp env n c m = Inr evs"
  shows "pu_chats (retryLoop env c h p) c = None"
proof -
  have round: "pu_chats (retryLoop env c h p) c = None" if "hc_missedThrough h = 0" for h :: "'r heldChat" and p
  proof -
    obtain p1 where "handleHeld env (hc_events h) p = ([], p1)"
      using handleHeld_all [OF assms(1), of "hc_events h" p] by (cases "handleHeld env (hc_events h) p") auto
    then show ?thesis by (subst retryLoop.simps) (simp add: that)
  qed
  obtain p1 where d: "handleHeld env (hc_events h) p = ([], p1)"
    using handleHeld_all [OF assms(1), of "hc_events h" p] by (cases "handleHeld env (hc_events h) p") auto
  show ?thesis
  proof (cases "hc_missedThrough h = 0")
    case False
    obtain evs where "he_catchUp env (pu_clock p1) c (hc_missedThrough h) = Inr evs" using assms(2) by blast
    with False d have "retryLoop env c h p = retryLoop env c (h\<lparr>hc_events := evs, hc_missedThrough := 0\<rparr>) (tick p1)"
      by (subst retryLoop.simps) simp
    then show ?thesis using round by simp
  qed (rule round)
qed

text \<open>
  A retry of a held chat. It either releases the chat after delivering, in order, the events it
  held and then, if events had been dropped, the events of a successful catch-up through the highest
  dropped position; or it keeps the chat held with the undelivered rest in front and one more attempt
  counted, the dropped position forgotten only once a catch-up through it has succeeded. No other chat's hold
  changes. When the dependencies work again, the retry releases the chat.
\<close>

theorem retryHeld_exact:
  assumes "pu_chats p c = Some h" "p' = retryHeld env c p"
  shows "((\<exists>extra. pu_chats p' = (pu_chats p)(c := None) \<and> pu_handled p' = pu_handled p @ hc_events h @ extra
        \<and> (if hc_missedThrough h = 0 then extra = []
           else \<exists>n. he_catchUp env n c (hc_missedThrough h) = Inr extra))
     \<or> (\<exists>h' extra. pu_chats p' = (pu_chats p)(c \<mapsto> h') \<and> hc_attempts h' = hc_attempts h + 1
        \<and> pu_handled p' @ hc_events h' = pu_handled p @ hc_events h @ extra
        \<and> (hc_missedThrough h' = hc_missedThrough h \<and> extra = []
           \<or> hc_missedThrough h' = 0 \<and> (\<exists>n. he_catchUp env n c (hc_missedThrough h) = Inr extra))))
   \<and> ((\<forall>n e. he_handle env n e) \<and> (\<forall>n c m. \<exists>evs. he_catchUp env n c m = Inr evs) \<longrightarrow> pu_chats p' c = None)"
proof (intro conjI impI)
  have q: "p' = retryLoop env c h p" using assms by (simp add: retryHeld_def)
  show "(\<exists>extra. pu_chats p' = (pu_chats p)(c := None) \<and> pu_handled p' = pu_handled p @ hc_events h @ extra
        \<and> (if hc_missedThrough h = 0 then extra = []
           else \<exists>n. he_catchUp env n c (hc_missedThrough h) = Inr extra))
     \<or> (\<exists>h' extra. pu_chats p' = (pu_chats p)(c \<mapsto> h') \<and> hc_attempts h' = hc_attempts h + 1
        \<and> pu_handled p' @ hc_events h' = pu_handled p @ hc_events h @ extra
        \<and> (hc_missedThrough h' = hc_missedThrough h \<and> extra = []
           \<or> hc_missedThrough h' = 0 \<and> (\<exists>n. he_catchUp env n c (hc_missedThrough h) = Inr extra)))"
  proof (cases rule: retryLoop_cases [of env c h p])
    case (released extra p1)
    then have "pu_chats p' = (pu_chats p)(c := None)" "pu_handled p' = pu_handled p @ hc_events h @ extra"
      by (auto simp: q)
    with released(5) show ?thesis by auto
  next
    case (again h1 p1 extra)
    obtain due paused where s:
        "pu_chats p' = (pu_chats p)(c \<mapsto> h1\<lparr>hc_attempts := hc_attempts h + 1, hc_due := due, hc_paused := paused\<rparr>)"
        "pu_handled p' = pu_handled p1"
      using scheduleHeld_spec [of env c "h1\<lparr>hc_attempts := hc_attempts h + 1\<rparr>" p1] again(1,2) q by metis
    show ?thesis
      by (rule disjI2, rule exI [of _ "h1\<lparr>hc_attempts := hc_attempts h + 1, hc_due := due, hc_paused := paused\<rparr>"], rule exI [of _ extra])
        (use s again(5,7) in auto)
  qed
  assume "(\<forall>n e. he_handle env n e) \<and> (\<forall>n c m. \<exists>evs. he_catchUp env n c m = Inr evs)"
  then show "pu_chats p' c = None" unfolding q by (intro retryLoop_succeeds) auto
qed

theorem retryHeld_exact_witness:
  "pu_chats (retryHeld (sampleHoldEnv\<lparr>he_handle := \<lambda>n e. True, he_catchUp := \<lambda>n c m. Inr [ReadStateChanged 7 1 40]\<rparr>) 7
     (newDeliveryHolds\<lparr>pu_chats := [7 \<mapsto> newHeld\<lparr>hc_events := [ReadStateChanged 7 1 10], hc_missedThrough := 50\<rparr>]\<rparr>)) 7 = None"
  using conjunct2 [OF retryHeld_exact [of
      "newDeliveryHolds\<lparr>pu_chats := [7 \<mapsto> newHeld\<lparr>hc_events := [ReadStateChanged 7 1 10], hc_missedThrough := 50\<rparr>]\<rparr>" 7
      "newHeld\<lparr>hc_events := [ReadStateChanged 7 1 10], hc_missedThrough := 50\<rparr>", OF _ refl,
      of "sampleHoldEnv\<lparr>he_handle := \<lambda>n e. True, he_catchUp := \<lambda>n c m. Inr [ReadStateChanged 7 1 40]\<rparr>"]]
  by simp

subsection \<open>The reconnect schedule, proved\<close>

text \<open>A run of failed attempts at the given times: each is after the delay the one before it returned.\<close>

fun episode :: "gotime list \<Rightarrow> recoverySchedule \<Rightarrow> bool" where
  "episode [] s = True"
| "episode (t # ts) s =
     (case failed t s of
        (None, s1) \<Rightarrow> False
      | (Some d, s1) \<Rightarrow> (ts = [] \<or> t + d \<le> hd ts) \<and> episode ts s1)"

lemma episode_bound:
  "es_episodeAt s \<noteq> 0 \<Longrightarrow> episode ts s \<Longrightarrow> ts \<noteq> [] \<Longrightarrow>
   hd ts + episodeRetryDelay * int (length ts) < es_episodeAt s + episodeWatchdog"
proof (induction ts arbitrary: s)
  case (Cons t ts)
  define s1 where "s1 = s\<lparr>es_attempt := es_attempt s + 1\<rparr>"
  have f: "failed t s = (Some episodeRetryDelay, s1)" "t + episodeRetryDelay < es_episodeAt s + episodeWatchdog"
    using Cons.prems(1,2) by (auto simp: failed_def begin_attempt_def Let_def s1_def split: if_splits)
  show ?case
  proof (cases "ts = []")
    case True
    with f show ?thesis by simp
  next
    case False
    have "hd ts + episodeRetryDelay * int (length ts) < es_episodeAt s + episodeWatchdog"
      using Cons.IH [of s1] Cons.prems f False by (simp add: s1_def)
    with Cons.prems(2) f False show ?thesis by (simp add: algebra_simps)
  qed
qed simp

text \<open>
  A recovery episode ends. However the login attempts of an episode fail, as long as the clock
  does not run backwards before the first failure and each retry waits the delay it was given, at most 59
  attempts are retried before the schedule refuses another one, so a profile that cannot
  log in stops by itself within the watchdog's 600 seconds.
\<close>

theorem recovery_episode_ends:
  assumes "begin_attempt now s = (True, s')" "now \<noteq> 0" "episode (t # ts) s'" "now \<le> t"
  shows "length (t # ts) \<le> 59 \<and> (\<forall>u\<in>set (t # ts). u + seconds 10 < now + seconds 600)"
proof -
  have at: "es_episodeAt s' = now" using assms(1) by (auto simp: begin_attempt_def split: if_splits)
  have "t + episodeRetryDelay * int (length (t # ts)) < now + episodeWatchdog"
    using episode_bound [OF _ assms(3)] at assms(2) by simp
  with assms(4) have "length (t # ts) \<le> 59"
    by (simp add: episodeRetryDelay_def episodeWatchdog_def seconds_def)
  moreover have "\<forall>u\<in>set us. u + seconds 10 < now + seconds 600" if "episode us s1" "es_episodeAt s1 = now" for us s1
    using that assms(2)
    by (induction us arbitrary: s1)
      (auto simp: failed_def begin_attempt_def Let_def episodeRetryDelay_def episodeWatchdog_def split: if_splits)
  ultimately show ?thesis using assms(3) at by blast
qed

theorem recovery_episode_ends_witness:
  "begin_attempt 5 \<lparr>es_episodeAt = 0, es_attempt = 0, es_gaveUp = False\<rparr>
     = (True, \<lparr>es_episodeAt = 5, es_attempt = 0, es_gaveUp = False\<rparr>)
   \<and> episode [6, seconds 20] \<lparr>es_episodeAt = 5, es_attempt = 0, es_gaveUp = False\<rparr>
   \<and> length [6, seconds 20] \<le> 59"
proof -
  have b: "begin_attempt 5 \<lparr>es_episodeAt = 0, es_attempt = 0, es_gaveUp = False\<rparr>
     = (True, \<lparr>es_episodeAt = 5, es_attempt = 0, es_gaveUp = False\<rparr>)"
    by (simp add: begin_attempt_def)
  have e: "episode [6, seconds 20] \<lparr>es_episodeAt = 5, es_attempt = 0, es_gaveUp = False\<rparr>"
    by (simp add: failed_def begin_attempt_def episodeRetryDelay_def episodeWatchdog_def seconds_def)
  from recovery_episode_ends [OF b _ e] b e show ?thesis by simp
qed

subsection \<open>Pauses and attempts\<close>

definition pausedChats :: "'r pump \<Rightarrow> int64 set" where
  "pausedChats p = {c. \<exists>h. pu_chats p c = Some h \<and> hc_paused h}"

definition holdsOk :: "'r hold_env \<Rightarrow> 'r pump \<Rightarrow> bool" where
  "holdsOk env p \<longleftrightarrow> finite (pausedChats p) \<and> pu_paused p = int (card (pausedChats p))
     \<and> (\<forall>c h. pu_chats p c = Some h \<longrightarrow> hc_attempts h \<le> length (he_delays env)
          \<and> (hc_due h \<noteq> 0 \<longrightarrow> hc_attempts h < length (he_delays env)))"

lemma pausedChats_put:
  "pu_chats p' = (pu_chats p)(c \<mapsto> h) \<Longrightarrow> pausedChats p' = (if hc_paused h then insert c (pausedChats p) else pausedChats p - {c})"
  "pu_chats p' = (pu_chats p)(c := None) \<Longrightarrow> pausedChats p' = pausedChats p - {c}"
  by (auto simp: pausedChats_def split: if_splits)

lemma scheduleHeld_ok:
  assumes "holdsOk env p" "pu_chats p1 = pu_chats p" "pu_paused p1 = pu_paused p"
    "hc_paused h \<longleftrightarrow> c \<in> pausedChats p" "hc_attempts h \<le> length (he_delays env)"
  shows "holdsOk env (scheduleHeld env c h p1)"
proof (rule scheduleHeld_spec [of env c h p1])
  fix due paused
  assume s: "pu_chats (scheduleHeld env c h p1) = (pu_chats p1)(c \<mapsto> h\<lparr>hc_due := due, hc_paused := paused\<rparr>)"
    "pu_paused (scheduleHeld env c h p1) = pu_paused p1 + (if paused \<and> \<not> hc_paused h then 1 else 0)"
    "hc_paused h \<longrightarrow> paused" "due \<noteq> 0 \<longrightarrow> hc_attempts h < length (he_delays env)"
  have "pausedChats (scheduleHeld env c h p1) = (if paused then insert c (pausedChats p) else pausedChats p - {c})"
    using pausedChats_put(1) [of _ p c "h\<lparr>hc_due := due, hc_paused := paused\<rparr>"] s(1) assms(2) by simp
  with assms s show ?thesis
    by (auto simp: holdsOk_def card_insert_if insert_absorb split: if_splits)
qed

lemma release_ok:
  assumes "holdsOk env p" "pu_chats p1 = pu_chats p" "pu_paused p1 = pu_paused p" "hc_paused h \<longleftrightarrow> c \<in> pausedChats p"
  shows "holdsOk env (release c h p1)"
proof -
  have p: "pausedChats (release c h p1) = pausedChats p - {c}"
    using pausedChats_put(2) [of "release c h p1" p c] assms(2) by simp
  have "int (card (pausedChats p - {c})) = int (card (pausedChats p)) - (if c \<in> pausedChats p then 1 else 0)"
    using assms(1) card_gt_0_iff [of "pausedChats p"] by (auto simp: holdsOk_def card_Diff_singleton_if of_nat_diff)
  with assms p show ?thesis by (auto simp: holdsOk_def split: if_splits)
qed

lemma retryHeld_ok:
  assumes "holdsOk env p" "pu_chats p c = Some h" "hc_attempts h < length (he_delays env)"
  shows "holdsOk env (retryHeld env c p)"
proof -
  have q: "retryHeld env c p = retryLoop env c h p" using assms(2) by (simp add: retryHeld_def)
  have paused: "hc_paused h \<longleftrightarrow> c \<in> pausedChats p" using assms(2) by (auto simp: pausedChats_def)
  show ?thesis unfolding q
  proof (cases rule: retryLoop_cases [of env c h p])
    case (released extra p1)
    from released(1) show "holdsOk env (retryLoop env c h p)"
    proof
      assume "retryLoop env c h p = release c h p1"
      with release_ok [OF assms(1) released(2,3) paused] show ?thesis by simp
    next
      assume "retryLoop env c h p = release c (h\<lparr>hc_events := extra, hc_missedThrough := 0\<rparr>) p1"
      with release_ok [OF assms(1) released(2,3), of "h\<lparr>hc_events := extra, hc_missedThrough := 0\<rparr>" c] paused
      show ?thesis by simp
    qed
  next
    case (again h1 p1 extra)
    then show "holdsOk env (retryLoop env c h p)"
      using scheduleHeld_ok [OF assms(1) again(2,3), of "h1\<lparr>hc_attempts := hc_attempts h + 1\<rparr>" c] paused assms(3) by simp
  qed
qed

lemma resumeOne_ok:
  assumes "holdsOk env p" "he_delays env \<noteq> []"
  shows "holdsOk env (resumeOne env c p)"
proof (cases "pu_chats p c")
  case None
  with assms show ?thesis by (simp add: resumeOne_def)
next
  case (Some h)
  show ?thesis
  proof (cases "hc_due h = 0")
    case True
    let ?h = "h\<lparr>hc_attempts := 0\<rparr>" and ?p = "putHeld c (h\<lparr>hc_attempts := 0\<rparr>) p"
    have "pausedChats ?p = pausedChats p" using Some by (auto simp: pausedChats_def putHeld_def)
    then have "holdsOk env ?p" using assms True Some by (auto simp: holdsOk_def putHeld_def)
    from retryHeld_ok [OF this, of c ?h] True Some assms(2) show ?thesis by (simp add: resumeOne_def putHeld_def)
  next
    case False
    with assms Some show ?thesis by (simp add: resumeOne_def)
  qed
qed

lemma resumeHeld_ok:
  "holdsOk env p \<Longrightarrow> he_delays env \<noteq> [] \<Longrightarrow> holdsOk env (resumeHeld env order c p)"
  unfolding resumeHeld_def by (induction order arbitrary: p) (simp_all add: resumeOne_ok)

lemma retryDueHolds_ok: "holdsOk env p \<Longrightarrow> holdsOk env (retryDueHolds env order now p)"
  unfolding retryDueHolds_def
proof (induction order arbitrary: p)
  case (Cons i order)
  show ?case
  proof (cases "pu_chats p i")
    case None
    with Cons show ?thesis by simp
  next
    case (Some h)
    with Cons.prems have "hc_due h \<noteq> 0 \<longrightarrow> hc_attempts h < length (he_delays env)" by (auto simp: holdsOk_def)
    with Cons Some retryHeld_ok [OF Cons.prems Some] show ?thesis by simp
  qed
qed simp

lemma heldChat_add_keeps [simp]:
  "hc_paused (heldChat_add evt h) = hc_paused h" "hc_attempts (heldChat_add evt h) = hc_attempts h"
  "hc_due (heldChat_add evt h) = hc_due h"
  by (auto simp: heldChat_add_def split: option.splits)

lemma deliver_ok:
  assumes "holdsOk env p" "deliver env evt p = (ok, p')"
  shows "holdsOk env p'"
  using assms(2)
proof (cases rule: deliver_cases)
  case (kept d h)
  have "pausedChats p' = pausedChats p"
    using pausedChats_put(1) [of p' p d "heldChat_add evt h"] kept by (auto simp: putHeld_def pausedChats_def)
  with kept assms(1) show ?thesis by (auto simp: holdsOk_def putHeld_def)
next
  case handled
  from assms(1) handled(3,4) show ?thesis by (simp add: holdsOk_def pausedChats_def)
next
  case refused
  from assms(1) refused(3,4) show ?thesis by (simp add: holdsOk_def pausedChats_def)
next
  case (held d p1)
  have "d \<notin> pausedChats p" using held(2) by (simp add: pausedChats_def)
  then show ?thesis unfolding held(4) hold_def
    by (intro scheduleHeld_ok [OF assms(1) held(5,6)]) (simp_all add: newHeld_def)
qed

lemma runPump_ok: "holdsOk env (ru_pump s) \<Longrightarrow> he_delays env \<noteq> [] \<Longrightarrow> holdsOk env (ru_pump (runPump env inputs s))"
proof (induction inputs arbitrary: s)
  case (Cons input inputs)
  have flag: "holdsOk env ((ru_pump s)\<lparr>pu_resume := b\<rparr>)" for b
    using Cons.prems(1) by (simp add: holdsOk_def pausedChats_def)
  have "holdsOk env (ru_pump (runStep env input s))"
  proof (cases input)
    case (StreamEvent evt)
    obtain ok p1 where d: "deliver env evt (ru_pump s) = (ok, p1)" by (cases "deliver env evt (ru_pump s)")
    from deliver_ok [OF Cons.prems(1) d] Cons.prems(1) StreamEvent d show ?thesis by (simp add: runStep_def Let_def)
  qed (use Cons.prems in \<open>auto simp: runStep_def Let_def intro: flag retryDueHolds_ok resumeHeld_ok split: option.splits\<close>)
  with Cons show ?case by simp
qed simp



subsection \<open>Events without a position\<close>

text \<open>
  A full buffer drops every later event of the chat, but records only the position of those that
  have one. When only events without a position are dropped, the chat is released without a catch-up
  and they are gone: here a notice that the account left the chat.
\<close>

lemma overflow_loses_unpositioned:
  assumes "length (hc_events h) = 1024" "hc_missedThrough h = 0"
  shows "heldChat_add (ChatLeft c token) h = h"
  using assms by (simp add: heldChat_add_def maxHeldEvents_def)

end
