(* ===== verification/Runes.thy ===== *)
theory Runes
  imports Loco "HOL-Library.Sublist"
begin

text \<open>
  Go's view of a string as text, as far as the connector and the chat requests use it: the conversion of a string
  to its runes and back, \<open>unicode/utf16\<close>, and \<open>truncateReplyPreview\<close>, which both
  \<open>src/internal/protocol/chat/reply.go\<close> and \<open>src/internal/bridge/connector/message_metadata.go\<close> declare.
  A string is its bytes; \<open>utf8_Valid\<close> of the framing theory is \<open>utf8.ValidString\<close>.
\<close>

definition bytesOf :: "string \<Rightarrow> byte list" where "bytesOf s = map of_char s"

definition stringOf :: "byte list \<Rightarrow> string" where "stringOf bs = map (\<lambda>b. char_of (unat b)) bs"

definition validString :: "string \<Rightarrow> bool" where "validString s = utf8_Valid (bytesOf s)"

subsection \<open>UTF-8\<close>

definition RuneError :: nat where "RuneError = 0xFFFD"

text \<open>A rune that has an encoding: no surrogate, and at most \<open>unicode.MaxRune\<close>.\<close>

definition scalar :: "nat \<Rightarrow> bool" where
  "scalar r \<longleftrightarrow> r < 0xD800 \<or> 0xE000 \<le> r \<and> r \<le> 0x10FFFF"

text \<open>\<open>utf8.DecodeRune\<close>: the first rune and its width; a byte that starts no well-formed sequence is \<open>RuneError\<close>.\<close>

definition DecodeRune :: "byte list \<Rightarrow> nat \<times> nat" where
  "DecodeRune bs =
     (case bs of
        [] \<Rightarrow> (RuneError, 0)
      | a # bs1 \<Rightarrow>
          if a \<le> 0x7F then (unat a, 1)
          else (case bs1 of
                  [] \<Rightarrow> (RuneError, 1)
                | b # bs2 \<Rightarrow>
                    if 0xC2 \<le> a \<and> a \<le> 0xDF \<and> cont b then (unat a mod 32 * 64 + unat b mod 64, 2)
                    else (case bs2 of
                            [] \<Rightarrow> (RuneError, 1)
                          | c # bs3 \<Rightarrow>
                              if lead3 a b \<and> cont c
                              then (unat a mod 16 * 4096 + unat b mod 64 * 64 + unat c mod 64, 3)
                              else (case bs3 of
                                      [] \<Rightarrow> (RuneError, 1)
                                    | d # _ \<Rightarrow>
                                        if lead4 a b \<and> cont c \<and> cont d
                                        then (unat a mod 8 * 262144 + unat b mod 64 * 4096 + unat c mod 64 * 64
                                              + unat d mod 64, 4)
                                        else (RuneError, 1)))))"

text \<open>\<open>[]rune(s)\<close>.\<close>

function runes :: "byte list \<Rightarrow> nat list" where
  "runes bs = (if bs = [] then [] else fst (DecodeRune bs) # runes (drop (snd (DecodeRune bs)) bs))"
  by pat_completeness auto
termination
  by (relation "measure length") (auto simp: DecodeRune_def split: list.splits)

declare runes.simps [simp del]

text \<open>\<open>utf8.AppendRune\<close>, and \<open>string(runes)\<close>.\<close>

definition EncodeRune :: "nat \<Rightarrow> byte list" where
  "EncodeRune r0 =
     (let r = (if scalar r0 then r0 else RuneError)
      in map of_nat
           (if r < 0x80 then [r]
            else if r < 0x800 then [0xC0 + r div 64, 0x80 + r mod 64]
            else if r < 0x10000 then [0xE0 + r div 4096, 0x80 + r div 64 mod 64, 0x80 + r mod 64]
            else [0xF0 + r div 262144, 0x80 + r div 4096 mod 64, 0x80 + r div 64 mod 64, 0x80 + r mod 64]))"

definition fromRunes :: "nat list \<Rightarrow> byte list" where "fromRunes rs = concat (map EncodeRune rs)"

subsection \<open>UTF-16\<close>

definition highSurrogate :: "nat \<Rightarrow> bool" where "highSurrogate u \<longleftrightarrow> 0xD800 \<le> u \<and> u \<le> 0xDBFF"
definition lowSurrogate :: "nat \<Rightarrow> bool" where "lowSurrogate u \<longleftrightarrow> 0xDC00 \<le> u \<and> u \<le> 0xDFFF"

definition utf16Units :: "nat \<Rightarrow> nat list" where
  "utf16Units r =
     (if \<not> scalar r then [RuneError]
      else if r < 0x10000 then [r]
      else [0xD800 + (r - 0x10000) div 1024, 0xDC00 + (r - 0x10000) mod 1024])"

definition utf16_Encode :: "nat list \<Rightarrow> nat list" where "utf16_Encode rs = concat (map utf16Units rs)"

fun utf16_Decode :: "nat list \<Rightarrow> nat list" where
  "utf16_Decode [] = []"
| "utf16_Decode [u] = [if highSurrogate u \<or> lowSurrogate u then RuneError else u]"
| "utf16_Decode (u # v # us) =
     (if \<not> highSurrogate u \<and> \<not> lowSurrogate u then u # utf16_Decode (v # us)
      else if highSurrogate u \<and> lowSurrogate v
           then ((u - 0xD800) * 1024 + (v - 0xDC00) + 0x10000) # utf16_Decode us
      else RuneError # utf16_Decode (v # us))"

definition maxReplyPreviewUTF16 :: nat where "maxReplyPreviewUTF16 = 100"

definition truncateReplyPreview :: "string \<Rightarrow> string" where
  "truncateReplyPreview message =
     (let units = utf16_Encode (runes (bytesOf message))
      in if length units \<le> maxReplyPreviewUTF16 then message
         else (let units1 = take maxReplyPreviewUTF16 units;
                   units2 = (if highSurrogate (last units1) then butlast units1 else units1)
               in stringOf (fromRunes (utf16_Decode units2))))"

subsection \<open>Encoding and decoding\<close>

lemma byte_less: "unat (b :: byte) < 256"
  using unsigned_less [of b] by simp

lemma of_nat_byte: "unat (b :: byte) = n \<Longrightarrow> of_nat n = b"
  by auto

lemma unat_of_char: "unat (of_char c :: byte) = of_char c"
  by (cases c) (simp add: of_char_def unat_of_nat)

lemma stringOf_bytesOf [simp]: "stringOf (bytesOf s) = s"
  by (simp add: stringOf_def bytesOf_def comp_def unat_of_char)

lemma bytesOf_stringOf [simp]: "bytesOf (stringOf bs) = bs"
proof -
  have "of_char (char_of (unat b) :: char) = b" for b :: byte
    by (rule word_unat_eq_iff [THEN iffD2]) (simp add: unat_of_char byte_less)
  then show ?thesis by (simp add: stringOf_def bytesOf_def comp_def)
qed

lemmas byte_ranges = cont_def lead3_def lead4_def word_le_nat_alt word_less_nat_alt word_unat_eq_iff

text \<open>The payload bits of a lead byte and of a continuation byte.\<close>

lemma tail_mod: "k * m \<le> x \<Longrightarrow> x < k * m + m \<Longrightarrow> x = k * m + x mod m" for x :: nat
proof -
  assume "k * m \<le> x" "x < k * m + m"
  then obtain y where "x = k * m + y" "y < m" by (metis add_less_cancel_left le_Suc_ex)
  then show ?thesis by simp
qed

lemma cont_tail: "cont b \<Longrightarrow> unat b = 128 + unat b mod 64"
  using tail_mod [of 2 64 "unat b"] by (simp add: byte_ranges)

lemma base64: "y < 64 \<Longrightarrow> r = q * 64 + y \<Longrightarrow> r div 64 = q \<and> r mod 64 = y" for y :: nat
  by simp

text \<open>A well-formed sequence is the encoding of its rune.\<close>

lemma two_bytes:
  assumes "0xC2 \<le> (a :: byte)" "a \<le> 0xDF" "cont b"
  shows "EncodeRune (unat a mod 32 * 64 + unat b mod 64) = [a, b]" "scalar (unat a mod 32 * 64 + unat b mod 64)"
proof -
  let ?x = "unat a mod 32" and ?y = "unat b mod 64"
  have a: "unat a = 192 + ?x" "194 \<le> unat a" using assms tail_mod [of 6 32 "unat a"] by (simp_all add: byte_ranges)
  have lt: "?x < 32" "?y < 64" "2 \<le> ?x" using a by simp_all
  have r: "128 \<le> ?x * 64 + ?y" "?x * 64 + ?y < 2048" using lt by linarith+
  show s: "scalar (?x * 64 + ?y)" using r by (simp add: scalar_def)
  have "EncodeRune (?x * 64 + ?y) = map of_nat [192 + ?x, 128 + ?y]"
    using s r lt unfolding EncodeRune_def Let_def by simp
  then show "EncodeRune (?x * 64 + ?y) = [a, b]" using a(1) cont_tail [OF assms(3)] by (simp only: list.map of_nat_byte)
qed

lemma three_bytes:
  assumes "lead3 a b" "cont c"
  defines "r \<equiv> unat a mod 16 * 4096 + unat b mod 64 * 64 + unat c mod 64"
  shows "EncodeRune r = [a, b, c]" "scalar r"
proof -
  let ?x = "unat a mod 16" and ?y = "unat b mod 64" and ?z = "unat c mod 64"
  have b: "cont b" using assms by (auto simp: byte_ranges)
  have a: "unat a = 224 + ?x" using assms tail_mod [of 14 16 "unat a"] by (auto simp: byte_ranges)
  have lt: "?x < 16" "?y < 64" "?z < 64" by simp_all
  have lead: "?x = 0 \<longrightarrow> 32 \<le> ?y" "?x = 13 \<longrightarrow> ?y < 32"
    using assms(1) a cont_tail [OF b] by (auto simp: byte_ranges)
  have r: "2048 \<le> r" "r < 0x10000" using lt lead unfolding r_def by (cases "?x = 0"; linarith)+
  show s: "scalar r"
  proof (cases "?x \<le> 13")
    case True
    then have "r < 0xD800" using lt lead unfolding r_def by (cases "?x = 13"; linarith)
    then show ?thesis by (simp add: scalar_def)
  next
    case False
    then have "0xE000 \<le> r" unfolding r_def by linarith
    then show ?thesis using r by (simp add: scalar_def)
  qed
  have d: "r div 4096 = ?x" "r div 64 mod 64 = ?y" "r mod 64 = ?z"
  proof -
    have "r = (?x * 64 + ?y) * 64 + ?z" by (simp add: r_def algebra_simps)
    then have q: "r div 64 = ?x * 64 + ?y" "r mod 64 = ?z" using base64 lt(3) by blast+
    have "r div 4096 = r div 64 div 64" by (simp add: div_mult2_eq [symmetric])
    then show "r div 4096 = ?x" "r div 64 mod 64 = ?y" "r mod 64 = ?z" using q base64 [OF lt(2) q(1)] by simp_all
  qed
  have "EncodeRune r = map of_nat [224 + ?x, 128 + ?y, 128 + ?z]"
    using s r d unfolding EncodeRune_def Let_def by simp
  then show "EncodeRune r = [a, b, c]"
    using a cont_tail [OF b] cont_tail [OF assms(2)] by (simp only: list.map of_nat_byte)
qed

lemma four_bytes:
  assumes "lead4 a b" "cont c" "cont d"
  defines "r \<equiv> unat a mod 8 * 262144 + unat b mod 64 * 4096 + unat c mod 64 * 64 + unat d mod 64"
  shows "EncodeRune r = [a, b, c, d]" "scalar r"
proof -
  let ?x = "unat a mod 8" and ?y = "unat b mod 64" and ?z = "unat c mod 64" and ?w = "unat d mod 64"
  have b: "cont b" using assms by (auto simp: byte_ranges)
  have a: "unat a = 240 + ?x" using assms tail_mod [of 30 8 "unat a"] by (auto simp: byte_ranges)
  have lt: "?x < 5" "?y < 64" "?z < 64" "?w < 64" using assms(1) a by (auto simp: byte_ranges)
  have lead: "?x = 0 \<longrightarrow> 16 \<le> ?y" "?x = 4 \<longrightarrow> ?y < 16"
    using assms(1) a cont_tail [OF b] by (auto simp: byte_ranges)
  have "?x = 4 \<or> ?x \<le> 3" using lt by linarith
  then have r: "0x10000 \<le> r" "r \<le> 0x10FFFF"
    using lt lead unfolding r_def by (cases "?x = 0"; linarith)+
  show s: "scalar r" using r by (simp add: scalar_def)
  have d: "r div 262144 = ?x" "r div 4096 mod 64 = ?y" "r div 64 mod 64 = ?z" "r mod 64 = ?w"
  proof -
    have "r = ((?x * 64 + ?y) * 64 + ?z) * 64 + ?w" by (simp add: r_def algebra_simps)
    then have q: "r div 64 = (?x * 64 + ?y) * 64 + ?z" "r mod 64 = ?w" using base64 lt(4) by blast+
    have "r div 4096 = r div 64 div 64" by (simp add: div_mult2_eq [symmetric])
    then have q2: "r div 4096 = ?x * 64 + ?y" using base64 [OF lt(3) q(1)] by simp
    have "r div 262144 = r div 4096 div 64" by (simp add: div_mult2_eq [symmetric])
    then show "r div 262144 = ?x" "r div 4096 mod 64 = ?y" "r div 64 mod 64 = ?z" "r mod 64 = ?w"
      using q(2) base64 [OF lt(3) q(1)] base64 [OF lt(2) q2] by simp_all
  qed
  have "EncodeRune r = map of_nat [240 + ?x, 128 + ?y, 128 + ?z, 128 + ?w]"
    using s r d unfolding EncodeRune_def Let_def by simp
  then show "EncodeRune r = [a, b, c, d]"
    using a cont_tail [OF b] cont_tail [OF assms(2)] cont_tail [OF assms(3)] by (simp only: list.map of_nat_byte)
qed

lemma DecodeRune_valid:
  assumes "utf8_Valid bs" "bs \<noteq> []"
  shows "EncodeRune (fst (DecodeRune bs)) = take (snd (DecodeRune bs)) bs \<and> scalar (fst (DecodeRune bs))
    \<and> utf8_Valid (drop (snd (DecodeRune bs)) bs) \<and> snd (DecodeRune bs) \<noteq> 0"
proof -
  have one: "EncodeRune (unat a) = [a] \<and> scalar (unat a)" if "a \<le> 0x7F" for a :: byte
    using that by (simp add: EncodeRune_def scalar_def byte_ranges)
  note facts = one two_bytes three_bytes four_bytes DecodeRune_def
  show ?thesis
  proof (cases bs rule: utf8_Valid.cases)
    case (3 a b)
    then show ?thesis using assms by (auto simp: facts split: if_splits)
  next
    case (4 a b c)
    then show ?thesis using assms by (auto simp: facts split: if_splits)
  next
    case (5 a b c d rest)
    then show ?thesis using assms by (auto simp: facts split: if_splits)
  qed (use assms in \<open>auto simp: facts\<close>)
qed

lemma fromRunes_runes: "utf8_Valid bs \<Longrightarrow> fromRunes (runes bs) = bs \<and> list_all scalar (runes bs)"
proof (induction bs rule: runes.induct)
  case (1 bs)
  show ?case
  proof (cases "bs = []")
    case False
    then have d: "EncodeRune (fst (DecodeRune bs)) = take (snd (DecodeRune bs)) bs" "scalar (fst (DecodeRune bs))"
      "utf8_Valid (drop (snd (DecodeRune bs)) bs)" using DecodeRune_valid [OF "1.prems"] by blast+
    then show ?thesis using "1.IH" [OF False d(3)] False
      by (subst (1 2) runes.simps) (simp add: fromRunes_def)
  qed (simp add: runes.simps fromRunes_def)
qed

lemma byte_of_nat: "n < 256 \<Longrightarrow> unat (of_nat n :: byte) = n"
  by (simp add: unat_of_nat)

lemma EncodeRune_cases:
  assumes "scalar r"
  obtains (one) "r < 0x80" "EncodeRune r = [of_nat r]"
  | (two) x y where "r = x * 64 + y" "2 \<le> x" "x < 32" "y < 64" "EncodeRune r = map of_nat [192 + x, 128 + y]"
  | (three) x y z where "r = x * 4096 + y * 64 + z" "x < 16" "y < 64" "z < 64" "x = 0 \<longrightarrow> 32 \<le> y" "x = 13 \<longrightarrow> y < 32"
      "EncodeRune r = map of_nat [224 + x, 128 + y, 128 + z]"
  | (four) x y z w where "r = x * 262144 + y * 4096 + z * 64 + w" "x < 5" "y < 64" "z < 64" "w < 64"
      "x = 0 \<longrightarrow> 16 \<le> y" "x = 4 \<longrightarrow> y < 16" "EncodeRune r = map of_nat [240 + x, 128 + y, 128 + z, 128 + w]"
proof -
  let ?y = "r div 64 mod 64" and ?z = "r mod 64" and ?u = "r div 4096 mod 64"
  have split: "r = r div 64 * 64 + ?z" "r div 64 = r div 4096 * 64 + ?y" "r div 4096 = r div 262144 * 64 + ?u"
    using div_mult_mod_eq [of r 64] div_mult_mod_eq [of "r div 64" 64] div_mult_mod_eq [of "r div 4096" 64]
    by (simp_all add: div_mult2_eq [symmetric])
  have lt: "?y < 64" "?z < 64" "?u < 64" by simp_all
  note enc = EncodeRune_def Let_def
  consider "r < 0x80" | "0x80 \<le> r" "r < 0x800" | "0x800 \<le> r" "r < 0x10000" | "0x10000 \<le> r" by linarith
  then show thesis
  proof cases
    case 1
    then show thesis using assms by (intro one) (simp_all add: enc)
  next
    case 2
    then have "2 \<le> r div 64" "r div 64 < 32" using split lt by linarith+
    then show thesis using assms 2 lt split(1) by (intro two [of "r div 64" ?z]) (simp_all add: enc)
  next
    case 3
    have "EncodeRune r = map of_nat [224 + r div 4096, 128 + ?y, 128 + ?z]" using assms 3 by (simp add: enc)
    moreover have "r div 4096 < 16" "r div 4096 = 0 \<longrightarrow> 32 \<le> ?y" using 3 split lt by linarith+
    moreover have "r div 4096 = 13 \<longrightarrow> ?y < 32" using assms split lt unfolding scalar_def by linarith
    moreover have "r = r div 4096 * 4096 + ?y * 64 + ?z" using split by linarith
    ultimately show thesis using lt by (intro three)
  next
    case 4
    have "EncodeRune r = map of_nat [240 + r div 262144, 128 + ?u, 128 + ?y, 128 + ?z]" using assms 4 by (simp add: enc)
    moreover have top: "r \<le> 0x10FFFF" using assms 4 by (simp add: scalar_def)
    then have "r div 262144 < 5" "r div 262144 = 4 \<longrightarrow> ?u < 16" using split lt by linarith+
    moreover have "r div 262144 = 0 \<longrightarrow> 16 \<le> ?u" using 4 split lt by linarith
    moreover have "r = r div 262144 * 262144 + ?u * 4096 + ?y * 64 + ?z" using split by linarith
    ultimately show thesis using lt by (intro four)
  qed
qed

lemma DecodeRune_EncodeRune:
  assumes "scalar r"
  shows "DecodeRune (EncodeRune r @ rest) = (r, length (EncodeRune r)) \<and> (utf8_Valid (EncodeRune r @ rest) \<longleftrightarrow> utf8_Valid rest)"
  using assms
proof (cases rule: EncodeRune_cases)
  case one
  then have "(of_nat r :: byte) \<le> 0x7F" by (simp add: word_le_nat_alt byte_of_nat)
  with one show ?thesis
    by (cases "(of_nat r # rest :: byte list)" rule: utf8_Valid.cases) (auto simp: DecodeRune_def byte_of_nat)
next
  case (two x y)
  let ?a = "of_nat (192 + x) :: byte" and ?b = "of_nat (128 + y) :: byte"
  have u: "unat ?a = 192 + x" "unat ?b = 128 + y" using two by (simp_all only: byte_of_nat)
  then have c: "0xC2 \<le> ?a" "?a \<le> 0xDF" "\<not> ?a \<le> 0x7F" "cont ?b" using two by (simp_all add: byte_ranges)
  have m: "(192 + x) mod 32 = x" "(128 + y) mod 64 = y" using two tail_mod [of 6 32 "192 + x"] tail_mod [of 2 64 "128 + y"] by simp_all
  show ?thesis unfolding two(5) using c u m two(1)
    by (cases "?a # ?b # rest" rule: utf8_Valid.cases) (simp_all add: DecodeRune_def)
next
  case (three x y z)
  let ?a = "of_nat (224 + x) :: byte" and ?b = "of_nat (128 + y) :: byte" and ?c = "of_nat (128 + z) :: byte"
  have u: "unat ?a = 224 + x" "unat ?b = 128 + y" "unat ?c = 128 + z" using three by (simp_all only: byte_of_nat)
  then have c: "\<not> ?a \<le> 0xDF" "\<not> ?a \<le> 0x7F" "lead3 ?a ?b" "cont ?c" using three by (auto simp: byte_ranges)
  have m: "(224 + x) mod 16 = x" "(128 + y) mod 64 = y" "(128 + z) mod 64 = z"
    using three tail_mod [of 14 16 "224 + x"] tail_mod [of 2 64 "128 + y"] tail_mod [of 2 64 "128 + z"] by simp_all
  show ?thesis unfolding three(7) using c u m three(1)
    by (cases "?a # ?b # ?c # rest" rule: utf8_Valid.cases) (simp_all add: DecodeRune_def)
next
  case (four x y z w)
  let ?a = "of_nat (240 + x) :: byte" and ?b = "of_nat (128 + y) :: byte" and ?c = "of_nat (128 + z) :: byte"
    and ?d = "of_nat (128 + w) :: byte"
  have u: "unat ?a = 240 + x" "unat ?b = 128 + y" "unat ?c = 128 + z" "unat ?d = 128 + w"
    using four by (simp_all only: byte_of_nat)
  then have c: "\<not> ?a \<le> 0xDF" "\<not> ?a \<le> 0x7F" "\<not> lead3 ?a ?b" "lead4 ?a ?b" "cont ?c" "cont ?d"
    using four by (auto simp: byte_ranges)
  have m: "(240 + x) mod 8 = x" "(128 + y) mod 64 = y" "(128 + z) mod 64 = z" "(128 + w) mod 64 = w"
    using four tail_mod [of 30 8 "240 + x"] tail_mod [of 2 64 "128 + y"] tail_mod [of 2 64 "128 + z"]
      tail_mod [of 2 64 "128 + w"] by simp_all
  show ?thesis unfolding four(8) using c u m four(1)
    by (cases "?a # ?b # ?c # ?d # rest" rule: utf8_Valid.cases) (simp_all add: DecodeRune_def)
qed

lemma EncodeRune_nonempty: "EncodeRune r \<noteq> []"
  by (simp add: EncodeRune_def Let_def)

lemma runes_fromRunes: "list_all scalar rs \<Longrightarrow> runes (fromRunes rs) = rs \<and> utf8_Valid (fromRunes rs)"
proof (induction rs)
  case (Cons r rs)
  then have d: "DecodeRune (EncodeRune r @ fromRunes rs) = (r, length (EncodeRune r))"
    "utf8_Valid (EncodeRune r @ fromRunes rs)" using DecodeRune_EncodeRune [of r "fromRunes rs"] by simp_all
  have "fromRunes (r # rs) = EncodeRune r @ fromRunes rs" by (simp add: fromRunes_def)
  then show ?case using Cons d by (subst runes.simps) (simp add: EncodeRune_nonempty)
qed (simp add: fromRunes_def runes.simps)

subsection \<open>Truncation\<close>

lemma utf16_simps [simp]:
  "utf16_Encode [] = []" "utf16_Encode (r # rs) = utf16Units r @ utf16_Encode rs"
  by (simp_all add: utf16_Encode_def)

lemma utf16Units_cases:
  assumes "scalar r"
  obtains (single) "utf16Units r = [r]" "\<not> highSurrogate r" "\<not> lowSurrogate r"
  | (pair) u v where "utf16Units r = [u, v]" "highSurrogate u" "lowSurrogate v" "(u - 0xD800) * 1024 + (v - 0xDC00) + 0x10000 = r"
proof (cases "r < 0x10000")
  case True
  then show thesis using assms
    by (intro single) (auto simp: utf16Units_def scalar_def highSurrogate_def lowSurrogate_def)
next
  case False
  have "(r - 0x10000) div 1024 \<le> 1023" using assms False by (simp add: scalar_def)
  moreover have "(r - 0x10000) div 1024 * 1024 + (r - 0x10000) mod 1024 + 0x10000 = r" using False by simp
  moreover have "(r - 0x10000) mod 1024 < 1024" by simp
  ultimately show thesis using assms False
    by (intro pair [of "0xD800 + (r - 0x10000) div 1024" "0xDC00 + (r - 0x10000) mod 1024"])
      (simp_all add: utf16Units_def highSurrogate_def lowSurrogate_def)
qed

lemma utf16_roundtrip: "list_all scalar rs \<Longrightarrow> utf16_Decode (utf16_Encode rs) = rs"
proof (induction rs)
  case (Cons r rs)
  from Cons.prems have "scalar r" by simp
  then show ?case
  proof (cases rule: utf16Units_cases)
    case single
    with Cons show ?thesis by (cases "utf16_Encode rs") auto
  next
    case (pair u v)
    then show ?thesis using Cons by (auto simp: highSurrogate_def lowSurrogate_def)
  qed
qed simp

definition trimPair :: "nat list \<Rightarrow> nat list" where
  "trimPair us = (if us \<noteq> [] \<and> highSurrogate (last us) then butlast us else us)"

text \<open>Cutting the units between two runes cuts the runes.\<close>

lemma cut_units:
  "list_all scalar rs \<Longrightarrow> \<exists>k. trimPair (take n (utf16_Encode rs)) = utf16_Encode (take k rs)"
proof (induction rs arbitrary: n)
  case (Cons r rs)
  show ?case
  proof (cases n)
    case 0
    then show ?thesis by (intro exI [of _ 0]) (simp add: trimPair_def)
  next
    case (Suc m)
    from Cons.prems have "scalar r" by simp
    then show ?thesis
    proof (cases rule: utf16Units_cases)
      case single
      obtain k where "trimPair (take m (utf16_Encode rs)) = utf16_Encode (take k rs)" using Cons by auto
      then show ?thesis using single Suc by (intro exI [of _ "Suc k"]) (auto simp: trimPair_def split: if_splits)
    next
      case (pair u v)
      obtain k where k: "trimPair (take (m - 1) (utf16_Encode rs)) = utf16_Encode (take k rs)" using Cons by auto
      show ?thesis
      proof (cases m)
        case 0
        then show ?thesis using pair Suc by (intro exI [of _ 0]) (simp add: trimPair_def)
      next
        case (Suc l)
        have "\<not> highSurrogate v" using pair by (simp add: highSurrogate_def lowSurrogate_def)
        then show ?thesis using pair k \<open>n = Suc m\<close> Suc
          by (intro exI [of _ "Suc k"]) (auto simp: trimPair_def split: if_splits)
      qed
    qed
  qed
qed (simp add: trimPair_def)

lemma fromRunes_append: "fromRunes (as @ bs) = fromRunes as @ fromRunes bs"
  by (simp add: fromRunes_def)

lemma truncated:
  assumes "validString s" "maxReplyPreviewUTF16 < length (utf16_Encode (runes (bytesOf s)))"
  obtains k where "truncateReplyPreview s = stringOf (fromRunes (take k (runes (bytesOf s))))"
    "utf16_Encode (take k (runes (bytesOf s))) = trimPair (take 100 (utf16_Encode (runes (bytesOf s))))"
proof -
  let ?rs = "runes (bytesOf s)"
  have sc: "list_all scalar ?rs" using fromRunes_runes assms(1) by (simp add: validString_def)
  obtain k where k: "trimPair (take 100 (utf16_Encode ?rs)) = utf16_Encode (take k ?rs)"
    using cut_units [OF sc] by blast
  have "take 100 (utf16_Encode ?rs) \<noteq> []" using assms(2) by (auto simp: maxReplyPreviewUTF16_def)
  then have "truncateReplyPreview s = stringOf (fromRunes (utf16_Decode (trimPair (take 100 (utf16_Encode ?rs)))))"
    using assms(2) by (simp add: truncateReplyPreview_def trimPair_def maxReplyPreviewUTF16_def Let_def)
  also have "\<dots> = stringOf (fromRunes (take k ?rs))"
    unfolding k by (subst utf16_roundtrip) (use sc in \<open>auto simp: list_all_iff dest: in_set_takeD\<close>)
  finally show thesis using that k by simp
qed



end
