(* ===== verification/Json.thy ===== *)
theory Json
  imports Runes Bridge_Ids Bson_Field
begin

text \<open>
  \<open>encoding/json\<close>, as far as the program uses it: the grammar of a JSON text, the text of a string literal, and the
  compact text that \<open>json.Marshal\<close> writes. A literal keeps its source text, so that a \<open>json.RawMessage\<close> is a
  value of the tree: a string the bytes between its quotes, a number its digits.

  The parser runs on fuel; \<open>parseValue_enough\<close> shows that the fuel it is given always suffices.
\<close>

datatype jval = JLit string | JStr string | JArr "jval list" | JObj "(string \<times> jval) list"

subsection \<open>Tokens\<close>

definition isWs :: "char \<Rightarrow> bool" where "isWs c \<longleftrightarrow> c \<in> {CHR '' '', CHR 0x09, CHR 0x0D, CHR 0x0A}"

definition skipWs :: "string \<Rightarrow> string" where "skipWs s = dropWhile isWs s"

definition quote :: char where "quote = CHR 0x22"
definition backslash :: char where "backslash = CHR 0x5C"

definition hexValue :: "char \<Rightarrow> nat option" where
  "hexValue c =
     (let n = of_char c :: nat
      in if 48 \<le> n \<and> n \<le> 57 then Some (n - 48)
         else if 97 \<le> n \<and> n \<le> 102 then Some (n - 87)
         else if 65 \<le> n \<and> n \<le> 70 then Some (n - 55)
         else None)"

definition simpleEscapes :: string where
  "simpleEscapes = [quote, backslash, CHR ''/'', CHR ''b'', CHR ''f'', CHR ''n'', CHR ''r'', CHR ''t'']"

text \<open>The text of a string up to its closing quote, and what follows the quote.\<close>

function takeString :: "string \<Rightarrow> (string \<times> string) option" where
  "takeString s =
     (case s of
        [] \<Rightarrow> None
      | c # s1 \<Rightarrow>
          if c = quote then Some ([], s1)
          else if c = backslash then
            (case s1 of
               [] \<Rightarrow> None
             | e # s2 \<Rightarrow>
                 if e \<in> set simpleEscapes then map_option (\<lambda>(raw, rest). (c # e # raw, rest)) (takeString s2)
                 else if e = CHR ''u'' \<and> 4 \<le> length s2 \<and> list_all (\<lambda>h. hexValue h \<noteq> None) (take 4 s2)
                 then map_option (\<lambda>(raw, rest). (c # e # take 4 s2 @ raw, rest)) (takeString (drop 4 s2))
                 else None)
          else if (of_char c :: nat) < 0x20 then None
          else map_option (\<lambda>(raw, rest). (c # raw, rest)) (takeString s1))"
  by pat_completeness auto
termination
  by (relation "measure length") auto

declare takeString.simps [simp del]

definition takeDigits :: "string \<Rightarrow> (string \<times> string) option" where
  "takeDigits s = (let ds = takeWhile isDigit s in if ds = [] then None else Some (ds, dropWhile isDigit s))"

definition takeInteger :: "string \<Rightarrow> (string \<times> string) option" where
  "takeInteger s =
     (case s of CHR ''0'' # s1 \<Rightarrow> Some (''0'', s1) | _ \<Rightarrow> takeDigits s)"

definition takeFraction :: "string \<Rightarrow> (string \<times> string) option" where
  "takeFraction s =
     (case s of
        CHR ''.'' # s1 \<Rightarrow> map_option (\<lambda>(ds, rest). (CHR ''.'' # ds, rest)) (takeDigits s1)
      | _ \<Rightarrow> Some ([], s))"

definition takeExponent :: "string \<Rightarrow> (string \<times> string) option" where
  "takeExponent s =
     (case s of
        [] \<Rightarrow> Some ([], s)
      | e # s1 \<Rightarrow>
          if e = CHR ''e'' \<or> e = CHR ''E''
          then (let (sign, s2) = (case s1 of c # s2 \<Rightarrow> if c = CHR ''+'' \<or> c = CHR ''-'' then ([c], s2) else ([], s1)
                                  | [] \<Rightarrow> ([], []))
                in map_option (\<lambda>(ds, rest). (e # sign @ ds, rest)) (takeDigits s2))
          else Some ([], s))"

definition takeNumber :: "string \<Rightarrow> (string \<times> string) option" where
  "takeNumber s =
     (let (sign, s0) = (case s of CHR ''-'' # s1 \<Rightarrow> (''-'', s1) | _ \<Rightarrow> ([], s))
      in case takeInteger s0 of
           None \<Rightarrow> None
         | Some (whole, s1) \<Rightarrow>
             (case takeFraction s1 of
                None \<Rightarrow> None
              | Some (fraction, s2) \<Rightarrow>
                  (case takeExponent s2 of
                     None \<Rightarrow> None
                   | Some (exponent, rest) \<Rightarrow> Some (sign @ whole @ fraction @ exponent, rest))))"

definition takeWord :: "string \<Rightarrow> string \<Rightarrow> (string \<times> string) option" where
  "takeWord w s = (if prefix w s then Some (w, drop (length w) s) else None)"

definition takeLiteral :: "string \<Rightarrow> (string \<times> string) option" where
  "takeLiteral s =
     (case s of
        [] \<Rightarrow> None
      | c # _ \<Rightarrow>
          if c = CHR ''n'' then takeWord ''null'' s
          else if c = CHR ''t'' then takeWord ''true'' s
          else if c = CHR ''f'' then takeWord ''false'' s
          else takeNumber s)"

subsection \<open>Values\<close>

fun parseValue :: "nat \<Rightarrow> string \<Rightarrow> (jval \<times> string) option"
and parseElements :: "nat \<Rightarrow> string \<Rightarrow> (jval list \<times> string) option"
and parseMembers :: "nat \<Rightarrow> string \<Rightarrow> ((string \<times> jval) list \<times> string) option" where
  "parseValue 0 s = None"
| "parseValue (Suc n) s =
     (case skipWs s of
        [] \<Rightarrow> None
      | c # s1 \<Rightarrow>
          if c = CHR ''{'' then
            (case skipWs s1 of
               [] \<Rightarrow> None
             | d # s2 \<Rightarrow> if d = CHR ''}'' then Some (JObj [], s2)
                        else map_option (\<lambda>(ms, rest). (JObj ms, rest)) (parseMembers n (d # s2)))
          else if c = CHR ''['' then
            (case skipWs s1 of
               [] \<Rightarrow> None
             | d # s2 \<Rightarrow> if d = CHR '']'' then Some (JArr [], s2)
                        else map_option (\<lambda>(vs, rest). (JArr vs, rest)) (parseElements n (d # s2)))
          else if c = quote then map_option (\<lambda>(raw, rest). (JStr raw, rest)) (takeString s1)
          else map_option (\<lambda>(t, rest). (JLit t, rest)) (takeLiteral (c # s1)))"
| "parseElements 0 s = None"
| "parseElements (Suc n) s =
     (case parseValue n s of
        None \<Rightarrow> None
      | Some (v, s1) \<Rightarrow>
          (case skipWs s1 of
             [] \<Rightarrow> None
           | c # s2 \<Rightarrow>
               if c = CHR '','' then map_option (\<lambda>(vs, rest). (v # vs, rest)) (parseElements n s2)
               else if c = CHR '']'' then Some ([v], s2)
               else None))"
| "parseMembers 0 s = None"
| "parseMembers (Suc n) s =
     (case skipWs s of
        [] \<Rightarrow> None
      | q # s1 \<Rightarrow>
          if q \<noteq> quote then None
          else (case takeString s1 of
                  None \<Rightarrow> None
                | Some (key, s2) \<Rightarrow>
                    (case skipWs s2 of
                       [] \<Rightarrow> None
                     | c # s3 \<Rightarrow>
                         if c \<noteq> CHR '':'' then None
                         else (case parseValue n s3 of
                                 None \<Rightarrow> None
                               | Some (v, s4) \<Rightarrow>
                                   (case skipWs s4 of
                                      [] \<Rightarrow> None
                                    | d # s5 \<Rightarrow>
                                        if d = CHR '','' then map_option (\<lambda>(ms, rest). ((key, v) # ms, rest)) (parseMembers n s5)
                                        else if d = CHR ''}'' then Some ([(key, v)], s5)
                                        else None)))))"

definition fuelFor :: "string \<Rightarrow> nat" where "fuelFor s = 2 * length s + 1"

text \<open>One value, surrounded by white space only.\<close>

definition jsonText :: "string \<Rightarrow> jval option" where
  "jsonText s =
     (case parseValue (fuelFor s) s of
        None \<Rightarrow> None
      | Some (v, rest) \<Rightarrow> if skipWs rest = [] then Some v else None)"

fun nesting :: "jval \<Rightarrow> nat" where
  "nesting (JArr vs) = Suc (foldr (\<lambda>v m. max (nesting v) m) vs 0)"
| "nesting (JObj ms) = Suc (foldr (\<lambda>m d. max (nesting (snd m)) d) ms 0)"
| "nesting _ = 0"

definition maxNestingDepth :: nat where "maxNestingDepth = 10000"

text \<open>\<open>json.Unmarshal\<close> checks the whole text before it decodes; \<open>json.Valid\<close> is that check.\<close>

definition json_parse :: "string \<Rightarrow> jval option" where
  "json_parse s = (case jsonText s of Some v \<Rightarrow> if nesting v \<le> maxNestingDepth then Some v else None | None \<Rightarrow> None)"

definition json_Valid :: "string \<Rightarrow> bool" where "json_Valid s \<longleftrightarrow> json_parse s \<noteq> None"

subsection \<open>The fuel suffices\<close>

lemma skipWs_length: "length (skipWs s) \<le> length s"
  unfolding skipWs_def by (rule length_dropWhile_le)

lemma skipWs_Cons: "skipWs s = c # t \<Longrightarrow> length t < length s"
  using skipWs_length [of s] by simp

text \<open>The texts of string literals.\<close>

inductive rawString :: "string \<Rightarrow> bool" where
  closed: "rawString []"
| plain: "rawString raw \<Longrightarrow> c \<noteq> quote \<Longrightarrow> c \<noteq> backslash \<Longrightarrow> 0x20 \<le> (of_char c :: nat) \<Longrightarrow> rawString (c # raw)"
| escape: "rawString raw \<Longrightarrow> e \<in> set simpleEscapes \<Longrightarrow> rawString (backslash # e # raw)"
| unicode: "rawString raw \<Longrightarrow> length hs = 4 \<Longrightarrow> list_all (\<lambda>h. hexValue h \<noteq> None) hs \<Longrightarrow>
    rawString (backslash # CHR ''u'' # hs @ raw)"

lemma quote_backslash [simp]: "quote \<noteq> backslash" "backslash \<noteq> quote"
  by (simp_all add: quote_def backslash_def)

lemma takeString_sound: "takeString s = Some (raw, rest) \<Longrightarrow> s = raw @ quote # rest \<and> rawString raw"
proof (induction s arbitrary: raw rest rule: takeString.induct)
  case (1 s)
  show ?case
  proof (cases s)
    case Nil
    with 1 show ?thesis by (simp add: takeString.simps)
  next
    case (Cons c s1)
    note eq = "1.prems" [unfolded Cons takeString.simps [of "c # s1"]]
    consider "c = quote" | "c \<noteq> quote" "c = backslash" | "c \<noteq> quote" "c \<noteq> backslash" by blast
    then show ?thesis
    proof cases
      case 1
      with eq Cons show ?thesis by (simp add: rawString.closed)
    next
      case 2
      from eq 2 obtain e s2 where s1: "s1 = e # s2" by (cases s1) auto
      show ?thesis
      proof (cases "e \<in> set simpleEscapes")
        case True
        with eq 2 s1 obtain raw2 where "takeString s2 = Some (raw2, rest)" "raw = c # e # raw2" by auto
        then show ?thesis using "1.IH"(1) [OF Cons 2 s1 True] 2 Cons s1 True by (simp add: rawString.escape)
      next
        case False
        with eq 2 s1 have u: "e = CHR ''u'' \<and> 4 \<le> length s2 \<and> list_all (\<lambda>h. hexValue h \<noteq> None) (take 4 s2)"
          by (auto split: if_splits)
        with eq 2 s1 False obtain raw2 where r: "takeString (drop 4 s2) = Some (raw2, rest)" "raw = c # e # take 4 s2 @ raw2" by auto
        then have "drop 4 s2 = raw2 @ quote # rest \<and> rawString raw2" using "1.IH"(2) [OF Cons 2 s1 False u] by simp
        then show ?thesis using r u 2 Cons s1 rawString.unicode [of raw2 "take 4 s2"]
          by simp (metis append.assoc append_take_drop_id)
      qed
    next
      case 3
      with eq have ge: "\<not> (of_char c :: nat) < 0x20" by (auto split: if_splits)
      with eq 3 obtain raw2 where "takeString s1 = Some (raw2, rest)" "raw = c # raw2" by auto
      then show ?thesis using "1.IH"(3) [OF Cons 3 ge] 3 Cons ge by (simp add: rawString.plain)
    qed
  qed
qed

lemma takeString_complete: "rawString raw \<Longrightarrow> takeString (raw @ quote # rest) = Some (raw, rest)"
proof (induction raw rule: rawString.induct)
  case closed
  then show ?case by (simp add: takeString.simps)
next
  case (plain raw c)
  then show ?case by (subst takeString.simps) simp
next
  case (escape raw e)
  then show ?case by (subst takeString.simps) simp
next
  case (unicode raw hs)
  have "CHR ''u'' \<notin> set simpleEscapes" by (simp add: simpleEscapes_def quote_def backslash_def)
  then show ?case using unicode by (subst takeString.simps) simp
qed

lemma takeString_shorter: "takeString s = Some (raw, rest) \<Longrightarrow> length rest < length s"
  by (drule takeString_sound) simp

lemma takeDigits_shorter: "takeDigits s = Some (ds, rest) \<Longrightarrow> length rest < length s \<and> ds @ rest = s"
proof -
  assume "takeDigits s = Some (ds, rest)"
  then have "takeWhile isDigit s \<noteq> []" "ds = takeWhile isDigit s" "rest = dropWhile isDigit s"
    by (auto simp: takeDigits_def Let_def split: if_splits)
  then show ?thesis by (metis add.commute length_append length_greater_0_conv less_add_same_cancel1 takeWhile_dropWhile_id)
qed

lemma takeInteger_shorter: "takeInteger s = Some (ds, rest) \<Longrightarrow> length rest < length s"
  by (auto simp: takeInteger_def dest: takeDigits_shorter split: list.splits char.splits bool.splits)

lemma takeFraction_le: "takeFraction s = Some (ds, rest) \<Longrightarrow> length rest \<le> length s"
  by (auto simp: takeFraction_def dest!: takeDigits_shorter split: list.splits char.splits bool.splits)

lemma takeExponent_le: "takeExponent s = Some (ds, rest) \<Longrightarrow> length rest \<le> length s"
  by (auto simp: takeExponent_def Let_def dest!: takeDigits_shorter split: list.splits if_splits)

lemma takeNumber_shorter:
  assumes "takeNumber s = Some (t, rest)"
  shows "length rest < length s"
proof -
  obtain sign s0 where s0: "(case s of CHR ''-'' # s1 \<Rightarrow> (''-'', s1) | _ \<Rightarrow> ([], s)) = (sign, s0)" by fastforce
  then have "length s0 \<le> length s" by (auto split: list.splits char.splits bool.splits)
  moreover obtain w s1 f s2 e where "takeInteger s0 = Some (w, s1)" "takeFraction s1 = Some (f, s2)" "takeExponent s2 = Some (e, rest)"
    using assms by (auto simp: takeNumber_def s0 split: option.splits prod.splits)
  ultimately show ?thesis by (meson le_less_trans less_le_trans takeExponent_le takeFraction_le takeInteger_shorter)
qed

lemma takeLiteral_shorter: "takeLiteral s = Some (t, rest) \<Longrightarrow> length rest < length s"
  by (auto simp: takeLiteral_def takeWord_def dest: takeNumber_shorter split: list.splits if_splits)

text \<open>A result reached with some fuel is reached with every fuel from a bound in the length of the text on.\<close>

lemma parse_enough:
  "parseValue m s = Some (v, rest) \<Longrightarrow> length rest < length s \<and> (\<forall>n \<ge> 2 * length s + 1. parseValue n s = Some (v, rest))"
  "parseElements m s = Some (vs, rest) \<Longrightarrow> length rest < length s \<and> (\<forall>n \<ge> 2 * length s + 2. parseElements n s = Some (vs, rest))"
  "parseMembers m s = Some (ms, rest) \<Longrightarrow> length rest < length s \<and> (\<forall>n \<ge> 2 * length s + 2. parseMembers n s = Some (ms, rest))"
proof (induction m s and m s and m s arbitrary: v rest and vs rest and ms rest rule: parseValue_parseElements_parseMembers.induct)
  case (2 m s)
  from "2.prems" obtain c s1 where s: "skipWs s = c # s1" by (auto split: list.splits)
  have l1: "length s1 < length s" using skipWs_Cons [OF s] .
  have step: "length rest < length s \<and> (\<forall>n. 2 * length s \<le> n \<longrightarrow> parseValue (Suc n) s = Some (v, rest))"
  proof (cases "c = CHR ''{'' \<or> c = CHR ''[''")
    case True
    with "2.prems" s obtain d s2 where s2: "skipWs s1 = d # s2" by (auto split: list.splits if_splits)
    have l2: "length (d # s2) \<le> length s1" using skipWs_length [of s1] s2 by simp
    have b: "2 * length (d # s2) + 2 \<le> n" if "2 * length s \<le> n" for n using that l1 l2 by linarith
    consider (obj0) "c = CHR ''{''" "d = CHR ''}''" | (obj) "c = CHR ''{''" "d \<noteq> CHR ''}''"
      | (arr0) "c = CHR ''[''" "d = CHR '']''" | (arr) "c = CHR ''[''" "d \<noteq> CHR '']''" using True by blast
    then show ?thesis
    proof cases
      case obj
      with "2.prems" s s2 obtain ms where ms: "parseMembers m (d # s2) = Some (ms, rest)" "v = JObj ms" by auto
      from "2.IH"(1) [OF s obj(1) s2 obj(2) ms(1)] have "length rest < length (d # s2)"
        "\<And>n. 2 * length (d # s2) + 2 \<le> n \<Longrightarrow> parseMembers n (d # s2) = Some (ms, rest)" by blast+
      then show ?thesis using obj ms s s2 l1 l2 b by auto
    next
      case arr
      with "2.prems" s s2 obtain vs where vs: "parseElements m (d # s2) = Some (vs, rest)" "v = JArr vs" by auto
      have ne: "c \<noteq> CHR ''{''" using arr by simp
      from "2.IH"(2) [OF s ne arr(1) s2 arr(2) vs(1)] have "length rest < length (d # s2)"
        "\<And>n. 2 * length (d # s2) + 2 \<le> n \<Longrightarrow> parseElements n (d # s2) = Some (vs, rest)" by blast+
      then show ?thesis using arr vs s s2 l1 l2 b by auto
    qed (use "2.prems" s s2 l1 l2 in auto)
  next
    case False
    show ?thesis
    proof (cases "c = quote")
      case True
      with False "2.prems" s obtain raw where "takeString s1 = Some (raw, rest)" "v = JStr raw" by auto
      then show ?thesis using False True s l1 takeString_shorter by fastforce
    next
      case q: False
      with False "2.prems" s obtain t where "takeLiteral (c # s1) = Some (t, rest)" "v = JLit t" by auto
      then show ?thesis using False q s l1 takeLiteral_shorter [of "c # s1"] by fastforce
    qed
  qed
  then show ?case by (metis Suc_le_D Suc_le_mono add.commute plus_1_eq_Suc)
next
  case (4 m s)
  from "4.prems" obtain w s1 where w: "parseValue m s = Some (w, s1)" by (auto split: option.splits)
  with "4.prems" obtain c s2 where c: "skipWs s1 = c # s2" by (auto split: list.splits)
  have v: "length s1 < length s" "\<And>n. 2 * length s + 1 \<le> n \<Longrightarrow> parseValue n s = Some (w, s1)"
    using "4.IH"(1) [OF w] by blast+
  have l: "length s2 < length s1" using skipWs_Cons [OF c] .
  have "length rest < length s \<and> (\<forall>n. 2 * length s + 1 \<le> n \<longrightarrow> parseElements (Suc n) s = Some (vs, rest))"
  proof (cases "c = CHR '',''")
    case True
    with "4.prems" w c obtain us where us: "parseElements m s2 = Some (us, rest)" "vs = w # us" by auto
    from "4.IH"(2) [OF w refl c True us(1)] have "length rest < length s2"
      "\<And>n. 2 * length s2 + 2 \<le> n \<Longrightarrow> parseElements n s2 = Some (us, rest)" by blast+
    moreover have "2 * length s2 + 2 \<le> n" if "2 * length s + 1 \<le> n" for n using that v(1) l by linarith
    ultimately show ?thesis using True us c v l by auto
  qed (use "4.prems" w c v l in \<open>auto split: if_splits\<close>)
  then show ?case by (metis Suc_le_D Suc_le_mono add_2_eq_Suc' add.commute plus_1_eq_Suc)
next
  case (6 m s)
  from "6.prems" obtain q s1 where q: "skipWs s = q # s1" "q = quote" by (auto split: list.splits if_splits)
  with "6.prems" obtain key s2 where k: "takeString s1 = Some (key, s2)" by (auto split: option.splits)
  with "6.prems" q obtain s3 where c: "skipWs s2 = CHR '':'' # s3" by (auto split: list.splits if_splits)
  with "6.prems" q k obtain w s4 where w: "parseValue m s3 = Some (w, s4)" by (auto split: option.splits)
  with "6.prems" q k c obtain d s5 where d: "skipWs s4 = d # s5" by (auto split: list.splits)
  have qn: "\<not> q \<noteq> quote" using q by simp
  have cn: "\<not> CHR '':'' \<noteq> CHR '':''" by simp
  have v: "length s4 < length s3" "\<And>n. 2 * length s3 + 1 \<le> n \<Longrightarrow> parseValue n s3 = Some (w, s4)"
    using "6.IH"(1) [OF q(1) qn k refl c cn w] by blast+
  have l: "length s1 < length s" "length s2 < length s1" "length s3 < length s2" "length s5 < length s4"
    using skipWs_Cons [OF q(1)] takeString_shorter [OF k] skipWs_Cons [OF c] skipWs_Cons [OF d] by auto
  have b: "2 * length s3 + 1 \<le> n" if "2 * length s + 1 \<le> n" for n using that l by linarith
  have "length rest < length s \<and> (\<forall>n. 2 * length s + 1 \<le> n \<longrightarrow> parseMembers (Suc n) s = Some (ms, rest))"
  proof (cases "d = CHR '',''")
    case True
    with "6.prems" q k c w d obtain us where us: "parseMembers m s5 = Some (us, rest)" "ms = (key, w) # us" by auto
    from "6.IH"(2) [OF q(1) qn k refl c cn w refl d True us(1)] have "length rest < length s5"
      "\<And>n. 2 * length s5 + 2 \<le> n \<Longrightarrow> parseMembers n s5 = Some (us, rest)" by blast+
    moreover have "2 * length s5 + 2 \<le> n" if "2 * length s + 1 \<le> n" for n using that v(1) l by linarith
    ultimately show ?thesis using True us q k c d v l b by auto
  qed (use "6.prems" q k c w d v l b in \<open>auto split: if_splits\<close>)
  then show ?case by (metis Suc_le_D Suc_le_mono add_2_eq_Suc' add.commute plus_1_eq_Suc)
qed simp_all

lemma parseValue_enough: "parseValue m s = Some r \<Longrightarrow> parseValue (fuelFor s) s = Some r"
  unfolding fuelFor_def using parse_enough(1) [of m s "fst r" "snd r"] by (metis order_refl prod.collapse)

subsection \<open>Printing\<close>

fun commas :: "string list \<Rightarrow> string" where
  "commas [] = []"
| "commas [x] = x"
| "commas (x # y # zs) = x @ CHR '','' # commas (y # zs)"

fun printValue :: "jval \<Rightarrow> string" where
  "printValue (JLit t) = t"
| "printValue (JStr raw) = quote # raw @ [quote]"
| "printValue (JArr vs) = CHR ''['' # commas (map printValue vs) @ '']''"
| "printValue (JObj ms) = CHR ''{'' # commas (map (\<lambda>m. quote # fst m @ quote # CHR '':'' # printValue (snd m)) ms) @ ''}''"

text \<open>What may follow a value in a compact text.\<close>

definition stops :: "string \<Rightarrow> bool" where
  "stops s \<longleftrightarrow> s = [] \<or> hd s \<in> {CHR '','', CHR '']'', CHR ''}''}"

definition noDigit :: "string \<Rightarrow> bool" where "noDigit s \<longleftrightarrow> s = [] \<or> \<not> isDigit (hd s)"

lemma takeDigits_again:
  assumes "takeDigits s = Some (ds, r)"
  shows "s = ds @ r" "ds \<noteq> []" "list_all isDigit ds" "noDigit r' \<Longrightarrow> takeDigits (ds @ r') = Some (ds, r')"
proof -
  have e: "ds = takeWhile isDigit s" "r = dropWhile isDigit s" "ds \<noteq> []"
    using assms by (auto simp: takeDigits_def Let_def split: if_splits)
  then show "s = ds @ r" "ds \<noteq> []" by simp_all
  show all: "list_all isDigit ds" using e(1) by (metis list_all_iff set_takeWhileD)
  assume "noDigit r'"
  then have "takeWhile isDigit r' = []" "dropWhile isDigit r' = r'" by (cases r'; simp add: noDigit_def)+
  then show "takeDigits (ds @ r') = Some (ds, r')" using all e(3) by (simp add: takeDigits_def Let_def list_all_iff)
qed

lemma takeInteger_Cons: "takeInteger (c # s) = (if c = CHR ''0'' then Some (''0'', s) else takeDigits (c # s))"
  by (simp add: takeInteger_def split: char.splits bool.splits)

lemma takeInteger_again:
  assumes "takeInteger s = Some (w, r)"
  shows "s = w @ r" "w \<noteq> []" "isDigit (hd w)" "noDigit r' \<Longrightarrow> takeInteger (w @ r') = Some (w, r')"
proof -
  obtain c t where s: "s = c # t" using assms by (cases s) (auto simp: takeInteger_def takeDigits_def Let_def)
  have "s = w @ r \<and> w \<noteq> [] \<and> isDigit (hd w) \<and> (noDigit r' \<longrightarrow> takeInteger (w @ r') = Some (w, r'))"
  proof (cases "c = CHR ''0''")
    case True
    then show ?thesis using assms by (auto simp: s takeInteger_Cons isDigit_def)
  next
    case False
    with assms have d: "takeDigits s = Some (w, r)" by (simp add: s takeInteger_Cons)
    note again = takeDigits_again [OF d]
    from again(1,2) s obtain w' where "w = c # w'" by (metis append_eq_Cons_conv)
    then show ?thesis using again False by (auto simp: takeInteger_Cons)
  qed
  then show "s = w @ r" "w \<noteq> []" "isDigit (hd w)" "noDigit r' \<Longrightarrow> takeInteger (w @ r') = Some (w, r')" by blast+
qed

lemma takeFraction_Cons:
  "takeFraction (c # s) = (if c = CHR ''.'' then map_option (\<lambda>(ds, rest). (CHR ''.'' # ds, rest)) (takeDigits s) else Some ([], c # s))"
  by (simp add: takeFraction_def split: char.splits bool.splits)

lemma takeFraction_Nil: "takeFraction [] = Some ([], [])"
  by (simp add: takeFraction_def)

lemma takeFraction_again:
  assumes "takeFraction s = Some (f, r)"
  shows "s = f @ r" "f = [] \<or> hd f = CHR ''.''"
    "noDigit r' \<Longrightarrow> (f = [] \<longrightarrow> r' = [] \<or> hd r' \<noteq> CHR ''.'') \<Longrightarrow> takeFraction (f @ r') = Some (f, r')"
proof -
  have "s = f @ r \<and> (f = [] \<or> hd f = CHR ''.'')
    \<and> (noDigit r' \<longrightarrow> (f = [] \<longrightarrow> r' = [] \<or> hd r' \<noteq> CHR ''.'') \<longrightarrow> takeFraction (f @ r') = Some (f, r'))"
  proof (cases "\<exists>t. s = CHR ''.'' # t")
    case True
    then obtain t where "s = CHR ''.'' # t" by blast
    moreover from this assms obtain ds where "takeDigits t = Some (ds, r)" "f = CHR ''.'' # ds"
      by (auto simp: takeFraction_Cons)
    ultimately show ?thesis using takeDigits_again(1) takeDigits_again(4) [of t ds r r'] by (simp add: takeFraction_Cons)
  next
    case False
    then have "f = []" "r = s" using assms by (cases s; auto simp: takeFraction_Cons takeFraction_Nil)+
    moreover have "takeFraction r' = Some ([], r')" if "r' = [] \<or> hd r' \<noteq> CHR ''.''"
      using that by (cases r') (auto simp: takeFraction_Cons takeFraction_Nil)
    ultimately show ?thesis by simp
  qed
  then show "s = f @ r" "f = [] \<or> hd f = CHR ''.''"
    "noDigit r' \<Longrightarrow> (f = [] \<longrightarrow> r' = [] \<or> hd r' \<noteq> CHR ''.'') \<Longrightarrow> takeFraction (f @ r') = Some (f, r')" by blast+
qed

definition signSplit :: "string \<Rightarrow> string \<times> string" where
  "signSplit s = (case s of c # t \<Rightarrow> if c = CHR ''+'' \<or> c = CHR ''-'' then ([c], t) else ([], s) | [] \<Rightarrow> ([], []))"

lemma signSplit_again:
  assumes "signSplit s = (sign, t)" "takeDigits t = Some (ds, r)"
  shows "s = sign @ t" "signSplit (sign @ ds @ r') = (sign, ds @ r')"
proof -
  note d = takeDigits_again [OF assms(2)]
  obtain c ds' where c: "ds = c # ds'" "isDigit c" using d(2,3) by (cases ds) auto
  then have "c \<noteq> CHR ''+''" "c \<noteq> CHR ''-''" by (auto simp: isDigit_def)
  then show "s = sign @ t" "signSplit (sign @ ds @ r') = (sign, ds @ r')"
    using assms(1) c by (auto simp: signSplit_def split: list.splits if_splits)
qed

lemma takeExponent_Cons:
  "takeExponent (e # s) =
     (if e = CHR ''e'' \<or> e = CHR ''E''
      then (let (sign, t) = signSplit s in map_option (\<lambda>(ds, rest). (e # sign @ ds, rest)) (takeDigits t))
      else Some ([], e # s))"
  by (simp add: takeExponent_def signSplit_def cong: list.case_cong)

lemma takeExponent_Nil: "takeExponent [] = Some ([], [])"
  by (simp add: takeExponent_def)

lemma takeExponent_again:
  assumes "takeExponent s = Some (e, r)"
  shows "s = e @ r" "e = [] \<or> hd e \<in> {CHR ''e'', CHR ''E''}"
    "noDigit r' \<Longrightarrow> (e = [] \<longrightarrow> r' = [] \<or> hd r' \<notin> {CHR ''e'', CHR ''E''}) \<Longrightarrow> takeExponent (e @ r') = Some (e, r')"
proof -
  have "s = e @ r \<and> (e = [] \<or> hd e \<in> {CHR ''e'', CHR ''E''})
    \<and> (noDigit r' \<longrightarrow> (e = [] \<longrightarrow> r' = [] \<or> hd r' \<notin> {CHR ''e'', CHR ''E''}) \<longrightarrow> takeExponent (e @ r') = Some (e, r'))"
  proof (cases "\<exists>c t. s = c # t \<and> c \<in> {CHR ''e'', CHR ''E''}")
    case True
    then obtain c t where s: "s = c # t" "c \<in> {CHR ''e'', CHR ''E''}" by blast
    obtain sign u where u: "signSplit t = (sign, u)" by fastforce
    from s u assms obtain ds where d: "takeDigits u = Some (ds, r)" "e = c # sign @ ds"
      by (auto simp: takeExponent_Cons)
    note sg = signSplit_again [OF u d(1)] and dg = takeDigits_again [OF d(1)]
    have "takeExponent (e @ r') = Some (e, r')" if "noDigit r'"
      using s d(2) sg(2) [of r'] dg(4) [OF that] by (auto simp: takeExponent_Cons)
    then show ?thesis using s d sg(1) dg(1) by auto
  next
    case False
    then have "e = []" "r = s" using assms by (cases s; auto simp: takeExponent_Cons takeExponent_Nil)+
    moreover have "takeExponent r' = Some ([], r')" if "r' = [] \<or> hd r' \<notin> {CHR ''e'', CHR ''E''}"
      using that by (cases r') (auto simp: takeExponent_Cons takeExponent_Nil)
    ultimately show ?thesis by simp
  qed
  then show "s = e @ r" "e = [] \<or> hd e \<in> {CHR ''e'', CHR ''E''}"
    "noDigit r' \<Longrightarrow> (e = [] \<longrightarrow> r' = [] \<or> hd r' \<notin> {CHR ''e'', CHR ''E''}) \<Longrightarrow> takeExponent (e @ r') = Some (e, r')" by blast+
qed

lemma stops_noDigit: "stops r \<Longrightarrow> noDigit r \<and> (r = [] \<or> hd r \<notin> {CHR ''.'', CHR ''e'', CHR ''E''})"
  by (auto simp: stops_def noDigit_def isDigit_def)

definition minusSplit :: "string \<Rightarrow> string \<times> string" where
  "minusSplit s = (case s of c # t \<Rightarrow> if c = CHR ''-'' then (''-'', t) else ([], s) | [] \<Rightarrow> ([], []))"

lemma takeNumber_minusSplit:
  "(case s of CHR ''-'' # s1 \<Rightarrow> (''-'', s1) | _ \<Rightarrow> ([], s)) = minusSplit s"
  by (simp add: minusSplit_def split: list.splits char.splits bool.splits)

lemma takeNumber_again:
  assumes "takeNumber s = Some (t, r)"
  shows "s = t @ r" "t \<noteq> []" "isDigit (hd t) \<or> hd t = CHR ''-''" "stops r' \<Longrightarrow> takeNumber (t @ r') = Some (t, r')"
proof -
  obtain sign s0 where s0: "minusSplit s = (sign, s0)" by fastforce
  from assms obtain w s1 f s2 e where p: "takeInteger s0 = Some (w, s1)" "takeFraction s1 = Some (f, s2)"
    "takeExponent s2 = Some (e, r)" "t = sign @ w @ f @ e"
    by (auto simp: takeNumber_def takeNumber_minusSplit s0 split: option.splits prod.splits)
  note w = takeInteger_again [OF p(1)] and f = takeFraction_again [OF p(2)] and e = takeExponent_again [OF p(3)]
  have sg: "s = sign @ s0" "sign = [] \<or> sign = ''-''" using s0 by (auto simp: minusSplit_def split: list.splits if_splits)
  show "s = t @ r" using sg w(1) f(1) e(1) p(4) by simp
  show "t \<noteq> []" using p(4) w(2) by simp
  show "isDigit (hd t) \<or> hd t = CHR ''-''" using p(4) w(2,3) sg(2) by auto
  assume "stops r'"
  note stop = stops_noDigit [OF this]
  obtain c w' where c: "w = c # w'" "c \<noteq> CHR ''-''" using w(2,3) by (cases w) (auto simp: isDigit_def)
  have x: "takeExponent (e @ r') = Some (e, r')" using e(3) stop by blast
  have er: "noDigit (e @ r')" "e @ r' = [] \<or> hd (e @ r') \<noteq> CHR ''.''"
    using stop e(2) by (cases e; auto simp: noDigit_def isDigit_def)+
  have y: "takeFraction (f @ e @ r') = Some (f, e @ r')" using f(3) er by blast
  have "noDigit (f @ e @ r')" using er f(2) by (cases f) (auto simp: noDigit_def isDigit_def)
  then have z: "takeInteger (w @ f @ e @ r') = Some (w, f @ e @ r')" using w(4) by blast
  have "minusSplit (t @ r') = (sign, w @ f @ e @ r')" using p(4) sg(2) c by (auto simp: minusSplit_def)
  then show "takeNumber (t @ r') = Some (t, r')" by (simp add: takeNumber_def takeNumber_minusSplit z y x p(4))
qed

definition literal :: "string \<Rightarrow> bool" where "literal t \<longleftrightarrow> (\<exists>s r. takeLiteral s = Some (t, r))"

lemma literal_again:
  assumes "literal t" "stops r"
  shows "takeLiteral (t @ r) = Some (t, r)" "t \<noteq> []" "\<not> isWs (hd t)" "hd t \<notin> {CHR ''{'', CHR ''['', quote, CHR '']'', CHR ''}''}"
proof -
  from assms(1) obtain s r0 where s: "takeLiteral s = Some (t, r0)" by (auto simp: literal_def)
  have "takeLiteral (t @ r) = Some (t, r) \<and> t \<noteq> [] \<and> \<not> isWs (hd t) \<and> hd t \<notin> {CHR ''{'', CHR ''['', quote, CHR '']'', CHR ''}''}"
  proof (cases "t \<in> {''null'', ''true'', ''false''}")
    case True
    then show ?thesis by (auto simp: takeLiteral_def takeWord_def isWs_def quote_def)
  next
    case False
    then have n: "takeNumber s = Some (t, r0)" using s by (auto simp: takeLiteral_def takeWord_def split: list.splits if_splits)
    note again = takeNumber_again [OF n]
    obtain c t' where c: "t = c # t'" using again(2) by (cases t) auto
    have "isDigit c \<or> c = CHR ''-''" using again(3) c by simp
    then have "c \<notin> {CHR ''n'', CHR ''t'', CHR ''f''}" "\<not> isWs c" "c \<notin> {CHR ''{'', CHR ''['', quote, CHR '']'', CHR ''}''}"
      by (auto simp: isDigit_def isWs_def quote_def)
    then show ?thesis using again(4) [OF assms(2)] c by (simp add: takeLiteral_def)
  qed
  then show "takeLiteral (t @ r) = Some (t, r)" "t \<noteq> []" "\<not> isWs (hd t)" "hd t \<notin> {CHR ''{'', CHR ''['', quote, CHR '']'', CHR ''}''}"
    by blast+
qed

subsection \<open>A printed value is read back\<close>

fun wfValue :: "jval \<Rightarrow> bool" where
  "wfValue (JLit t) = literal t"
| "wfValue (JStr raw) = rawString raw"
| "wfValue (JArr vs) = list_all wfValue vs"
| "wfValue (JObj ms) = list_all (\<lambda>m. rawString (fst m) \<and> wfValue (snd m)) ms"

lemma skipWs_id: "s = [] \<or> \<not> isWs (hd s) \<Longrightarrow> skipWs s = s"
  by (cases s) (simp_all add: skipWs_def)

lemma skipWs_punctuation [simp]:
  "skipWs (CHR '','' # s) = CHR '','' # s" "skipWs (CHR '']'' # s) = CHR '']'' # s" "skipWs (CHR ''}'' # s) = CHR ''}'' # s"
  "skipWs (CHR '':'' # s) = CHR '':'' # s" "skipWs (CHR ''['' # s) = CHR ''['' # s" "skipWs (CHR ''{'' # s) = CHR ''{'' # s"
  "skipWs (quote # s) = quote # s"
  by (simp_all add: skipWs_def isWs_def quote_def)

lemma quote_brace: "quote \<noteq> CHR ''}''"
  by (simp add: quote_def)

lemma stops_simps [simp]: "stops []" "stops (CHR '','' # s)" "stops (CHR '']'' # s)" "stops (CHR ''}'' # s)"
  by (simp_all add: stops_def)

lemma printed_start:
  assumes "wfValue v"
  obtains c t where "printValue v = c # t" "\<not> isWs c" "c \<noteq> CHR '']''" "c \<noteq> CHR ''}''"
proof (cases v)
  case (JLit t)
  then show thesis using that literal_again [of t "[]"] assms by (cases t) auto
qed (use that in \<open>auto simp: isWs_def quote_def\<close>)

definition reads :: "string \<Rightarrow> jval \<Rightarrow> string \<Rightarrow> bool" where
  "reads s v r \<longleftrightarrow> (\<exists>m. parseValue m s = Some (v, r))"

lemma elements_read:
  assumes "\<And>v r. v \<in> set vs \<Longrightarrow> stops r \<Longrightarrow> reads (printValue v @ r) v r" "vs \<noteq> []"
  shows "\<exists>m. parseElements m (commas (map printValue vs) @ CHR '']'' # r) = Some (vs, r)"
  using assms
proof (induction vs)
  case (Cons v vs)
  show ?case
  proof (cases vs)
    case Nil
    from Cons.prems(1) [of v "CHR '']'' # r"] obtain m where "parseValue m (printValue v @ CHR '']'' # r) = Some (v, CHR '']'' # r)"
      by (auto simp: reads_def)
    then show ?thesis using Nil by (intro exI [of _ "Suc m"]) simp
  next
    case (Cons w ws)
    let ?t = "commas (map printValue vs) @ CHR '']'' # r" and ?s = "printValue v @ CHR '','' # commas (map printValue vs) @ CHR '']'' # r"
    from Cons.prems(1) [of v "CHR '','' # ?t"] obtain m1 where "parseValue m1 ?s = Some (v, CHR '','' # ?t)"
      by (auto simp: reads_def)
    moreover obtain m2 where "parseElements m2 ?t = Some (vs, r)" using Cons.IH Cons.prems Cons by auto
    ultimately obtain n where "parseValue n ?s = Some (v, CHR '','' # ?t)" "parseElements n ?t = Some (vs, r)"
      using parse_enough(1) [of m1 ?s] parse_enough(2) [of m2 ?t] by (meson nle_le)
    then show ?thesis using Cons by (intro exI [of _ "Suc n"]) simp
  qed
qed simp

lemma members_read:
  assumes "\<And>k v r. (k, v) \<in> set ms \<Longrightarrow> stops r \<Longrightarrow> reads (printValue v @ r) v r \<and> rawString k" "ms \<noteq> []"
  shows "\<exists>m. parseMembers m (commas (map (\<lambda>m. quote # fst m @ quote # CHR '':'' # printValue (snd m)) ms) @ CHR ''}'' # r)
    = Some (ms, r)"
  using assms
proof (induction ms)
  case (Cons kv ms)
  obtain k v where kv: "kv = (k, v)" by fastforce
  let ?item = "\<lambda>m. quote # fst m @ quote # CHR '':'' # printValue (snd m)"
  have k: "takeString (k @ quote # t) = Some (k, t)" for t
    using Cons.prems(1) [of k v "[]"] takeString_complete [of k t] kv by simp
  show ?case
  proof (cases ms)
    case Nil
    from Cons.prems(1) [of k v "CHR ''}'' # r"] kv obtain m where "parseValue m (printValue v @ CHR ''}'' # r) = Some (v, CHR ''}'' # r)"
      by (auto simp: reads_def)
    then show ?thesis using Nil kv k by (intro exI [of _ "Suc m"]) simp
  next
    case (Cons w ws)
    let ?t = "commas (map ?item ms) @ CHR ''}'' # r" and ?s = "printValue v @ CHR '','' # commas (map ?item ms) @ CHR ''}'' # r"
    from Cons.prems(1) [of k v "CHR '','' # ?t"] kv obtain m1 where "parseValue m1 ?s = Some (v, CHR '','' # ?t)"
      by (auto simp: reads_def)
    moreover obtain m2 where "parseMembers m2 ?t = Some (ms, r)" using Cons.IH Cons.prems Cons by auto
    ultimately obtain n where "parseValue n ?s = Some (v, CHR '','' # ?t)" "parseMembers n ?t = Some (ms, r)"
      using parse_enough(1) [of m1 ?s] parse_enough(3) [of m2 ?t] by (meson nle_le)
    then show ?thesis using Cons kv k by (intro exI [of _ "Suc n"]) simp
  qed
qed simp

lemma printed_reads: "wfValue v \<Longrightarrow> stops r \<Longrightarrow> reads (printValue v @ r) v r"
proof (induction v arbitrary: r)
  case (JLit t)
  then have l: "takeLiteral (t @ r) = Some (t, r)" "t \<noteq> []" "\<not> isWs (hd t)" "hd t \<notin> {CHR ''{'', CHR ''['', quote, CHR '']'', CHR ''}''}"
    using literal_again [of t r] by simp_all
  then obtain c t' where "t = c # t'" by (cases t) auto
  then show ?case using l unfolding reads_def by (intro exI [of _ "Suc 0"]) (simp add: skipWs_id)
next
  case (JStr raw)
  then show ?case unfolding reads_def
    by (intro exI [of _ "Suc 0"]) (simp add: takeString_complete, simp add: quote_def)
next
  case (JArr vs)
  show ?case
  proof (cases vs)
    case Nil
    then show ?thesis unfolding reads_def by (intro exI [of _ "Suc 0"]) simp
  next
    case (Cons v ws)
    have el: "\<And>w r. w \<in> set vs \<Longrightarrow> stops r \<Longrightarrow> reads (printValue w @ r) w r" using JArr by (auto simp: list_all_iff)
    obtain m where m: "parseElements m (commas (map printValue vs) @ CHR '']'' # r) = Some (vs, r)"
      using elements_read [of vs r] el Cons by blast
    obtain c t where c: "printValue v = c # t" "\<not> isWs c" "c \<noteq> CHR '']''"
      by (rule printed_start [of v]) (use JArr.prems Cons in auto)
    then obtain u where u: "commas (map printValue vs) @ CHR '']'' # r = c # u" using Cons by (cases ws) auto
    have "parseValue (Suc m) (CHR ''['' # c # u) = Some (JArr vs, r)" using c m [unfolded u] by (simp add: skipWs_id)
    then show ?thesis unfolding reads_def using u by (intro exI [of _ "Suc m"]) (simp del: parseValue.simps)
  qed
next
  case (JObj ms)
  let ?item = "\<lambda>m. quote # fst m @ quote # CHR '':'' # printValue (snd m)"
  show ?case
  proof (cases ms)
    case Nil
    then show ?thesis unfolding reads_def by (intro exI [of _ "Suc 0"]) simp
  next
    case (Cons kv ws)
    have el: "\<And>k w r. (k, w) \<in> set ms \<Longrightarrow> stops r \<Longrightarrow> reads (printValue w @ r) w r \<and> rawString k"
      using JObj by (auto simp: list_all_iff)
    obtain m where m: "parseMembers m (commas (map ?item ms) @ CHR ''}'' # r) = Some (ms, r)"
      using members_read [of ms r] el Cons by blast
    obtain u where u: "commas (map ?item ms) @ CHR ''}'' # r = quote # u" using Cons by (cases ws) auto
    have "parseValue (Suc m) (CHR ''{'' # quote # u) = Some (JObj ms, r)"
      using m [unfolded u] by (simp add: quote_brace)
    then show ?thesis unfolding reads_def using u by (intro exI [of _ "Suc m"]) (simp del: parseValue.simps)
  qed
qed

lemma jsonText_printValue: "wfValue v \<Longrightarrow> jsonText (printValue v) = Some v"
proof -
  assume "wfValue v"
  then obtain m where "parseValue m (printValue v) = Some (v, [])" using printed_reads [of v "[]"] by (auto simp: reads_def)
  then have "parseValue (fuelFor (printValue v)) (printValue v) = Some (v, [])" by (rule parseValue_enough)
  then show ?thesis by (simp add: jsonText_def skipWs_def)
qed

text \<open>Every value the parser returns prints to a text that it reads back.\<close>

lemma parse_wf:
  "parseValue m s = Some (v, rest) \<Longrightarrow> wfValue v"
  "parseElements m s = Some (vs, rest) \<Longrightarrow> list_all wfValue vs"
  "parseMembers m s = Some (ms, rest) \<Longrightarrow> list_all (\<lambda>m. rawString (fst m) \<and> wfValue (snd m)) ms"
proof (induction m s and m s and m s arbitrary: v rest and vs rest and ms rest rule: parseValue_parseElements_parseMembers.induct)
  case (2 m s)
  have lit: "literal t" if "takeLiteral x = Some (t, r)" for x t r using that by (auto simp: literal_def)
  from "2.prems" obtain c s1 where s: "skipWs s = c # s1" by (auto split: list.splits)
  consider "c = CHR ''{''" | "c = CHR ''[''" | "c \<noteq> CHR ''{''" "c \<noteq> CHR ''[''" by blast
  then show ?case
  proof cases
    case 1
    with "2.prems" s obtain d s2 where d: "skipWs s1 = d # s2" by (auto split: list.splits)
    with "2.prems" s 1 consider "v = JObj []" | ms where "d \<noteq> CHR ''}''" "parseMembers m (d # s2) = Some (ms, rest)" "v = JObj ms"
      by (auto split: if_splits)
    then show ?thesis using "2.IH"(1) [OF s 1 d] by cases auto
  next
    case arr: 2
    then have ne: "c \<noteq> CHR ''{''" by simp
    from arr "2.prems" s obtain d s2 where d: "skipWs s1 = d # s2" by (auto split: list.splits)
    with "2.prems" s arr consider "v = JArr []" | vs where "d \<noteq> CHR '']''" "parseElements m (d # s2) = Some (vs, rest)" "v = JArr vs"
      by (auto split: if_splits)
    then show ?thesis using "2.IH"(2) [OF s ne arr d] by cases auto
  next
    case 3
    with "2.prems" s show ?thesis by (auto simp: lit dest: takeString_sound split: if_splits)
  qed
next
  case (4 m s)
  from "4.prems" obtain w s1 where w: "parseValue m s = Some (w, s1)" by (auto split: option.splits)
  with "4.prems" obtain c s2 where c: "skipWs s1 = c # s2" by (auto split: list.splits)
  show ?case
  proof (cases "c = CHR '',''")
    case True
    with "4.prems" w c obtain us where "parseElements m s2 = Some (us, rest)" "vs = w # us" by auto
    then show ?thesis using "4.IH"(1) [OF w] "4.IH"(2) [OF w refl c True] by simp
  next
    case False
    with "4.prems" w c show ?thesis using "4.IH"(1) [OF w] by (auto split: if_splits)
  qed
next
  case (6 m s)
  from "6.prems" obtain q s1 where q: "skipWs s = q # s1" "q = quote" by (auto split: list.splits if_splits)
  with "6.prems" obtain key s2 where k: "takeString s1 = Some (key, s2)" by (auto split: option.splits)
  with "6.prems" q obtain s3 where c: "skipWs s2 = CHR '':'' # s3" by (auto split: list.splits if_splits)
  with "6.prems" q k obtain w s4 where w: "parseValue m s3 = Some (w, s4)" by (auto split: option.splits)
  with "6.prems" q k c obtain d s5 where d: "skipWs s4 = d # s5" by (auto split: list.splits)
  have qn: "\<not> q \<noteq> quote" using q by simp
  have cn: "\<not> CHR '':'' \<noteq> CHR '':''" by simp
  have raw: "rawString key" using takeString_sound [OF k] by simp
  note IH = "6.IH"(1) [OF q(1) qn k refl c cn w]
  show ?case
  proof (cases "d = CHR '',''")
    case True
    with "6.prems" q k c w d obtain us where "parseMembers m s5 = Some (us, rest)" "ms = (key, w) # us" by auto
    then show ?thesis using IH raw "6.IH"(2) [OF q(1) qn k refl c cn w refl d True] by simp
  next
    case False
    with "6.prems" q k c w d show ?thesis using IH raw by (auto split: if_splits)
  qed
qed simp_all

lemma jsonText_wf: "jsonText s = Some v \<Longrightarrow> wfValue v"
  by (auto simp: jsonText_def dest: parse_wf(1) split: option.splits prod.splits if_splits)

subsection \<open>String literals\<close>

definition uEscape :: "nat \<Rightarrow> string" where
  "uEscape r = [backslash, CHR ''u'', hexDigit (r div 4096), hexDigit (r div 256), hexDigit (r div 16), hexDigit r]"

text \<open>How \<open>json.Marshal\<close> writes a byte of the ASCII range.\<close>

definition escapeByte :: "char \<Rightarrow> string" where
  "escapeByte c =
     (let n = of_char c :: nat
      in if c = quote \<or> c = backslash then [backslash, c]
         else if c = CHR 0x08 then [backslash, CHR ''b'']
         else if c = CHR 0x0C then [backslash, CHR ''f'']
         else if c = CHR 0x0A then [backslash, CHR ''n'']
         else if c = CHR 0x0D then [backslash, CHR ''r'']
         else if c = CHR 0x09 then [backslash, CHR ''t'']
         else if n < 0x20 \<or> c = CHR ''<'' \<or> c = CHR ''>'' \<or> c = CHR ''&'' then uEscape n
         else [c])"

function jsonEscape :: "string \<Rightarrow> string" where
  "jsonEscape s =
     (case s of
        [] \<Rightarrow> []
      | c # s1 \<Rightarrow>
          if (of_char c :: nat) < 0x80 then escapeByte c @ jsonEscape s1
          else (let (r, n) = DecodeRune (bytesOf s)
                in (if r = RuneError \<and> n = 1 \<or> r = 0x2028 \<or> r = 0x2029 then uEscape r else take n s)
                   @ jsonEscape (drop n s)))"
  by pat_completeness auto
termination
  by (relation "measure length")
    (auto simp: DecodeRune_def bytesOf_def split: list.splits if_splits)

declare jsonEscape.simps [simp del]

definition unescape :: "char \<Rightarrow> char" where
  "unescape e =
     (if e = CHR ''b'' then CHR 0x08 else if e = CHR ''f'' then CHR 0x0C else if e = CHR ''n'' then CHR 0x0A
      else if e = CHR ''r'' then CHR 0x0D else if e = CHR ''t'' then CHR 0x09 else e)"

definition hexNumber :: "string \<Rightarrow> nat" where
  "hexNumber hs = foldl (\<lambda>n h. 16 * n + (case hexValue h of Some d \<Rightarrow> d | None \<Rightarrow> 0)) 0 hs"

text \<open>The low surrogate that an escape right after a high one gives.\<close>

definition secondHalf :: "nat \<Rightarrow> string \<Rightarrow> nat option" where
  "secondHalf high s =
     (if highSurrogate high \<and> 6 \<le> length s \<and> take 2 s = [backslash, CHR ''u''] \<and> lowSurrogate (hexNumber (take 4 (drop 2 s)))
      then Some (hexNumber (take 4 (drop 2 s))) else None)"

definition encodeText :: "nat \<Rightarrow> string" where "encodeText r = stringOf (EncodeRune r)"

text \<open>The string that a literal denotes.\<close>

function unquote :: "string \<Rightarrow> string" where
  "unquote raw =
     (case raw of
        [] \<Rightarrow> []
      | c # s1 \<Rightarrow>
          if c = backslash then
            (case s1 of
               [] \<Rightarrow> []
             | e # s2 \<Rightarrow>
                 if e = CHR ''u'' then
                   (let r = hexNumber (take 4 s2); s3 = drop 4 s2
                    in if highSurrogate r \<or> lowSurrogate r
                       then (case secondHalf r s3 of
                               Some l \<Rightarrow> encodeText ((r - 0xD800) * 1024 + (l - 0xDC00) + 0x10000) @ unquote (drop 6 s3)
                             | None \<Rightarrow> encodeText RuneError @ unquote s3)
                       else encodeText r @ unquote s3)
                 else unescape e # unquote s2)
          else if (of_char c :: nat) < 0x80 then c # unquote s1
          else (let (r, n) = DecodeRune (bytesOf raw) in encodeText r @ unquote (drop n raw)))"
  by pat_completeness auto
termination
  by (relation "measure length")
    (auto simp: DecodeRune_def bytesOf_def split: list.splits if_splits)

declare unquote.simps [simp del]

lemma hexValue_hexDigit: "hexValue (hexDigit n) = Some (n mod 16)"
proof -
  have "\<forall>k\<in>{..<16}. hexValue (''0123456789abcdef'' ! k) = Some k" by code_simp
  then show ?thesis by (simp add: hexDigit_def)
qed

lemma hexNumber_digits:
  assumes "r < 65536"
  shows "hexNumber [hexDigit (r div 4096), hexDigit (r div 256), hexDigit (r div 16), hexDigit r] = r"
proof -
  have d: "n = n div 16 * 16 + n mod 16" for n :: nat by simp
  have "r div 256 = r div 16 div 16" "r div 4096 = r div 256 div 16" by (simp_all add: div_mult2_eq [symmetric])
  moreover have "r div 4096 < 16" using assms by (simp add: div_less_iff_less_mult)
  ultimately show ?thesis
    using d [of r] d [of "r div 16"] d [of "r div 256"] by (simp add: hexNumber_def hexValue_hexDigit)
qed

lemma uEscape_raw: "rawString raw \<Longrightarrow> rawString (uEscape r @ raw)"
  using rawString.unicode [of raw "[hexDigit (r div 4096), hexDigit (r div 256), hexDigit (r div 16), hexDigit r]"]
  by (simp add: uEscape_def hexValue_hexDigit)

lemma unquote_uEscape:
  assumes "r < 0xD800 \<or> 0xE000 \<le> r" "r < 65536"
  shows "unquote (uEscape r @ t) = encodeText r @ unquote t"
proof -
  have "\<not> highSurrogate r" "\<not> lowSurrogate r" using assms(1) by (auto simp: highSurrogate_def lowSurrogate_def)
  then show ?thesis using hexNumber_digits [OF assms(2)] by (subst unquote.simps) (simp add: uEscape_def)
qed

lemma encodeText_ascii: "(of_char c :: nat) < 0x80 \<Longrightarrow> encodeText (of_char c) = [c]"
  by (simp add: encodeText_def stringOf_def EncodeRune_def scalar_def unat_of_nat)

lemma escapeByte_cases:
  obtains (escaped) e where "escapeByte c = [backslash, e]" "e \<in> set simpleEscapes" "unescape e = c" "e \<noteq> CHR ''u''"
  | (coded) "escapeByte c = uEscape (of_char c)"
  | (plain) "escapeByte c = [c]" "c \<noteq> quote" "c \<noteq> backslash" "0x20 \<le> (of_char c :: nat)"
proof -
  note defs = escapeByte_def Let_def unescape_def simpleEscapes_def quote_def backslash_def
  consider "c = quote" | "c = backslash" | "c = CHR 0x08" | "c = CHR 0x0C" | "c = CHR 0x0A" | "c = CHR 0x0D" | "c = CHR 0x09"
    | "c \<notin> {quote, backslash, CHR 0x08, CHR 0x0C, CHR 0x0A, CHR 0x0D, CHR 0x09}" by blast
  then show thesis
  proof cases
    case 1
    then show thesis by (intro escaped [of quote]) (simp_all add: defs)
  next
    case 2
    then show thesis by (intro escaped [of backslash]) (simp_all add: defs)
  next
    case 3
    then show thesis by (intro escaped [of "CHR ''b''"]) (simp_all add: defs)
  next
    case 4
    then show thesis by (intro escaped [of "CHR ''f''"]) (simp_all add: defs)
  next
    case 5
    then show thesis by (intro escaped [of "CHR ''n''"]) (simp_all add: defs)
  next
    case 6
    then show thesis by (intro escaped [of "CHR ''r''"]) (simp_all add: defs)
  next
    case 7
    then show thesis by (intro escaped [of "CHR ''t''"]) (simp_all add: defs)
  next
    case 8
    show thesis
    proof (cases "(of_char c :: nat) < 0x20 \<or> c = CHR ''<'' \<or> c = CHR ''>'' \<or> c = CHR ''&''")
      case True
      then show thesis using 8 by (intro coded) (simp add: escapeByte_def Let_def)
    next
      case False
      then show thesis using 8 by (intro plain) (simp_all add: escapeByte_def Let_def)
    qed
  qed
qed

lemma escapeByte_raw: "rawString raw \<Longrightarrow> rawString (escapeByte c @ raw)"
  by (cases c rule: escapeByte_cases) (simp_all add: rawString.escape rawString.plain uEscape_raw)

lemma unquote_escapeByte:
  assumes "(of_char c :: nat) < 0x80"
  shows "unquote (escapeByte c @ t) = c # unquote t"
proof (cases c rule: escapeByte_cases)
  case (escaped e)
  then show ?thesis by (subst unquote.simps) simp
next
  case coded
  then show ?thesis using unquote_uEscape [of "of_char c" t] assms encodeText_ascii [OF assms] by simp
next
  case plain
  then show ?thesis using assms by (subst unquote.simps) simp
qed

lemma valid_head:
  assumes "validString (c # s)" "\<not> (of_char c :: nat) < 0x80"
  defines "r \<equiv> fst (DecodeRune (bytesOf (c # s)))" and "n \<equiv> snd (DecodeRune (bytesOf (c # s)))"
  shows "encodeText r = take n (c # s)" "scalar r" "validString (drop n (c # s))" "n \<noteq> 1" "n \<noteq> 0"
    "\<And>t. DecodeRune (bytesOf (take n (c # s) @ t)) = (r, n)"
proof -
  have d: "EncodeRune r = take n (bytesOf (c # s))" "scalar r" "utf8_Valid (drop n (bytesOf (c # s)))" "n \<noteq> 0"
    using DecodeRune_valid [of "bytesOf (c # s)"] assms(1) unfolding r_def n_def validString_def
    by (auto simp: bytesOf_def)
  show "scalar r" "n \<noteq> 0" using d by simp_all
  show e: "encodeText r = take n (c # s)" by (metis bytesOf_def d(1) encodeText_def stringOf_bytesOf take_map)
  show "validString (drop n (c # s))" using d(3) unfolding validString_def bytesOf_def drop_map .
  have l: "length (EncodeRune r) = n"
  proof -
    have "n \<le> length (bytesOf (c # s))" unfolding n_def by (auto simp: DecodeRune_def split: list.splits)
    then show ?thesis using d(1) by simp
  qed
  show "DecodeRune (bytesOf (take n (c # s) @ t)) = (r, n)" for t
  proof -
    have "bytesOf (take n (c # s) @ t) = EncodeRune r @ bytesOf t"
      unfolding d(1) unfolding bytesOf_def take_map map_append ..
    then show ?thesis using DecodeRune_EncodeRune [OF d(2), of "bytesOf t"] l by simp
  qed
  show "n \<noteq> 1"
  proof
    assume "n = 1"
    then have "EncodeRune r = [of_char c]" using d(1) by (simp add: bytesOf_def)
    then have "(of_char c :: byte) = of_nat r \<and> r < 0x80" using d(2)
      by (cases rule: EncodeRune_cases [OF d(2)]) auto
    then have "unat (of_char c :: byte) < 0x80" by (simp add: unat_of_nat)
    then show False using assms(2) by (simp add: unat_of_char)
  qed
qed

lemma nonascii_raw:
  assumes "list_all (\<lambda>c. 0x80 \<le> (of_char c :: nat)) w" "rawString raw"
  shows "rawString (w @ raw)"
  using assms
proof (induction w)
  case (Cons c w)
  then have "c \<noteq> quote" "c \<noteq> backslash" "0x20 \<le> (of_char c :: nat)" by (auto simp: quote_def backslash_def)
  then show ?case using Cons by (simp add: rawString.plain)
qed simp

lemma encodeText_nonascii:
  assumes "scalar r" "0x80 \<le> r"
  shows "list_all (\<lambda>c. 0x80 \<le> (of_char c :: nat)) (encodeText r)"
  using assms(1)
proof (cases rule: EncodeRune_cases)
  case one
  with assms(2) show ?thesis by simp
next
  case (two x y)
  then show ?thesis by (simp add: encodeText_def stringOf_def byte_of_nat del: of_nat_add)
next
  case (three x y z)
  then show ?thesis by (simp add: encodeText_def stringOf_def byte_of_nat del: of_nat_add)
next
  case (four x y z w)
  then show ?thesis by (simp add: encodeText_def stringOf_def byte_of_nat del: of_nat_add)
qed

lemma tail_valid:
  assumes "validString (c # s)" "(of_char c :: nat) < 0x80"
  shows "validString s"
proof -
  have "(of_char c :: byte) \<le> 0x7F" using assms(2) by (simp add: word_le_nat_alt unat_of_char)
  then have "DecodeRune (bytesOf (c # s)) = (of_char c, 1)" by (simp add: DecodeRune_def bytesOf_def unat_of_char)
  then show ?thesis using DecodeRune_valid [of "bytesOf (c # s)"] assms(1) by (simp add: validString_def bytesOf_def)
qed

text \<open>A marshalled string is a literal that denotes the string.\<close>

lemma jsonEscape_roundtrip: "validString s \<Longrightarrow> rawString (jsonEscape s) \<and> unquote (jsonEscape s) = s"
proof (induction s rule: jsonEscape.induct)
  case (1 s)
  show ?case
  proof (cases s)
    case Nil
    then show ?thesis by (simp add: jsonEscape.simps unquote.simps rawString.closed)
  next
    case (Cons c s1)
    show ?thesis
    proof (cases "(of_char c :: nat) < 0x80")
      case True
      then have e: "jsonEscape s = escapeByte c @ jsonEscape s1" using Cons by (subst jsonEscape.simps) simp
      have "validString s1" using tail_valid "1.prems" Cons True by blast
      then have IH: "rawString (jsonEscape s1)" "unquote (jsonEscape s1) = s1" using "1.IH"(1) [OF Cons True] by blast+
      then show ?thesis unfolding e using escapeByte_raw [OF IH(1)] unquote_escapeByte [OF True] Cons by simp
    next
      case False
      obtain r n where rn: "DecodeRune (bytesOf s) = (r, n)" by fastforce
      note h = valid_head [of c s1, folded Cons, unfolded rn fst_conv snd_conv, OF "1.prems" False]
      have IH: "rawString (jsonEscape (drop n s)) \<and> unquote (jsonEscape (drop n s)) = drop n s"
        using "1.IH"(2) [OF Cons False rn [symmetric] refl] h(3) by simp
      have big: "0x80 \<le> r"
      proof (rule ccontr)
        assume "\<not> 0x80 \<le> r"
        then have "length (EncodeRune r) = 1" by (simp add: EncodeRune_def scalar_def)
        then have "length (take n s) = 1" using h(1) by (metis encodeText_def length_map stringOf_def)
        then show False using h(4,5) rn Cons "1.prems" by (auto simp: DecodeRune_def bytesOf_def min_def split: list.splits if_splits)
      qed
      show ?thesis
      proof (cases "r = 0x2028 \<or> r = 0x2029")
        case True
        then have e: "jsonEscape s = uEscape r @ jsonEscape (drop n s)"
          using Cons False rn by (subst jsonEscape.simps) auto
        have "unquote (jsonEscape s) = take n s @ drop n s"
          unfolding e using IH True h(1) unquote_uEscape [of r] by auto
        then show ?thesis unfolding e using IH uEscape_raw by simp
      next
        case plain: False
        have e: "jsonEscape s = take n s @ jsonEscape (drop n s)"
          using Cons False rn plain h(4) by (subst jsonEscape.simps) auto
        have raw: "rawString (jsonEscape s)"
          unfolding e using nonascii_raw encodeText_nonascii [OF h(2) big] h(1) IH by simp
        have "take n s \<noteq> []" using h(5) Cons by simp
        then obtain w where w: "take n s = c # w" using Cons h(5) by (cases n) auto
        have "c \<noteq> backslash" using False by (auto simp: backslash_def)
        then have "unquote (c # w @ jsonEscape (drop n s)) = encodeText r @ unquote (drop n (take n s @ jsonEscape (drop n s)))"
          using h(6) [of "jsonEscape (drop n s)"] w False by (subst unquote.simps) simp
        moreover have "drop n (take n s @ jsonEscape (drop n s)) = jsonEscape (drop n s)"
        proof -
          have "n \<le> length s" using rn by (auto simp: DecodeRune_def bytesOf_def split: list.splits if_splits)
          then show ?thesis by simp
        qed
        ultimately have "unquote (jsonEscape s) = s" unfolding e w append_Cons using IH h(1) w by (metis append_take_drop_id)
        with raw show ?thesis by simp
      qed
    qed
  qed
qed

end
