(* ===== verification/Chat_Requests.thy ===== *)
theory Chat_Requests
  imports Json Events "HOL-Library.Char_ord" "HOL-Library.List_Lexorder"
begin

text \<open>
  \<open>src/internal/protocol/chat\<close>: the documents of the requests that change a chat (WRITE, its reply form, MODIFYMSG,
  DELETEMSG, CREATE, ADDMEM) and of GETMSGS, and the readers of their replies; and the client's methods that send
  them (\<open>src/internal/client/chat.go\<close>, \<open>modify.go\<close> and their wrappers in \<open>client.go\<close>).

  A request is marshalled to the document that \<open>bson.Marshal\<close> of the driver builds. What the session sends is
  a log of command and document pairs; its answers are the environment's.
\<close>

subsection \<open>Message types\<close>

definition AnimatedEmoticon :: int64 where "AnimatedEmoticon = 6"
definition Sticker :: int64 where "Sticker = 12"
definition AnimatedSticker :: int64 where "AnimatedSticker = 20"
definition Spritecon :: int64 where "Spritecon = 22"
definition AnimatedStickerEx :: int64 where "AnimatedStickerEx = 25"
definition Reply :: int64 where "Reply = 26"
definition MultiPhoto :: int64 where "MultiPhoto = 27"

subsection \<open>WRITE\<close>

definition maxTextBytes :: nat where "maxTextBytes = 64 * 1024"

record WriteRequest =
  wr_ChatID :: int64
  wr_MessageID :: int64
  wr_Scope :: int64
  wr_ThreadID :: int64
  wr_Message :: string
  wr_Type :: int64
  wr_NoSeen :: bool
  wr_NoLight :: bool
  wr_Extra :: string
  wr_Supplement :: string
  wr_Silence :: bool
  wr_FeatureStat :: string

definition nul :: char where "nul = CHR 0x00"

definition cleanText :: "string \<Rightarrow> bool" where
  "cleanText s \<longleftrightarrow> validString s \<and> nul \<notin> set s"

definition WriteRequest_Validate :: "WriteRequest \<Rightarrow> go_error option" where
  "WriteRequest_Validate r =
     (if wr_ChatID r \<le> 0 then Some chat_ErrInvalidChatID
      else if wr_MessageID r < 0 then Some chat_ErrInvalidMessageID
      else if wr_Type r \<le> 0 then Some chat_ErrInvalidWriteType
      else
        let emptyAllowed = (wr_Type r = MultiPhoto \<and> wr_Extra r \<noteq> [])
        in if (wr_Message r = [] \<and> \<not> emptyAllowed) \<or> \<not> validString (wr_Message r)
              \<or> length (wr_Message r) > maxTextBytes \<or> nul \<in> set (wr_Message r)
           then Some chat_ErrInvalidMessage
           else if \<exists>s\<in>set [wr_Extra r, wr_Supplement r, wr_FeatureStat r]. \<not> validString s \<or> nul \<in> set s
           then Some chat_ErrInvalidMessage
           else None)"

definition writeDocument :: "WriteRequest \<Rightarrow> (string \<times> 'r field) list" where
  "writeDocument r =
     [(''chatId'', FInt64 (wr_ChatID r)), (''msg'', FString (wr_Message r)), (''type'', FInt32 (wr_Type r)),
      (''noSeen'', FBool (wr_NoSeen r))]
     @ (if wr_MessageID r > 0 then [(''msgId'', FInt64 (wr_MessageID r))] else [])
     @ (if wr_Scope r \<noteq> 0 then [(''scope'', FInt32 (wr_Scope r))] else [])
     @ (if wr_ThreadID r \<noteq> 0 then [(''threadId'', FInt64 (wr_ThreadID r))] else [])
     @ (if wr_NoLight r then [(''noLight'', FBool True)] else [])
     @ (if wr_Extra r \<noteq> [] then [(''extra'', FString (wr_Extra r))] else [])
     @ (if wr_Supplement r \<noteq> [] then [(''supplement'', FString (wr_Supplement r))] else [])
     @ (if wr_Silence r then [(''silence'', FBool True)] else [])
     @ (if wr_FeatureStat r \<noteq> [] then [(''featureStat'', FString (wr_FeatureStat r))] else [])"

definition bsonMarshal :: "'r bson \<Rightarrow> (string \<times> 'r field) list \<Rightarrow> 'r result" where
  "bsonMarshal B kvs = (case bs_Marshal B kvs of None \<Rightarrow> Inl (Other ''bson.Marshal'') | Some raw \<Rightarrow> Inr raw)"

definition WriteRequest_MarshalBSON :: "'r bson \<Rightarrow> WriteRequest \<Rightarrow> 'r result" where
  "WriteRequest_MarshalBSON B r =
     (case WriteRequest_Validate r of Some e \<Rightarrow> Inl e | None \<Rightarrow> bsonMarshal B (writeDocument r))"

definition chat_fields :: Reader where
  "chat_fields = \<lparr>r_Err = Some chat_ErrInvalidResponse, r_NullAbsent = False\<rparr>"

record 'r WriteResponse =
  wp_MessageID :: int64
  wp_ChatID :: int64
  wp_LogID :: int64
  wp_PrevID :: int64
  wp_SendAt :: int64
  wp_ChatLog :: "'r option"

text \<open>An optional integer field: absent is zero.\<close>

definition optionalInt64 :: "'r bson \<Rightarrow> 'r \<Rightarrow> string \<Rightarrow> int64 result" where
  "optionalInt64 B raw key =
     (case Int64 B chat_fields raw [key] of Inl e \<Rightarrow> Inl e | Inr None \<Rightarrow> Inr 0 | Inr (Some n) \<Rightarrow> Inr n)"

definition DecodeWriteResponse :: "'r bson \<Rightarrow> 'r \<Rightarrow> 'r WriteResponse result" where
  "DecodeWriteResponse B raw =
     (case (Int64 B chat_fields raw [''chatId''], Int64 B chat_fields raw [''logId''],
            optionalInt64 B raw ''msgId'', optionalInt64 B raw ''prevId'', optionalInt64 B raw ''sendAt'',
            Document B chat_fields raw [''chatLog'']) of
        (Inr (Some chatID), Inr (Some logID), Inr msgID, Inr prevID, Inr sendAt, Inr chatLog) \<Rightarrow>
          if chatID \<le> 0 \<or> logID \<le> 0 then Inl chat_ErrInvalidWriteResp
          else Inr \<lparr>wp_MessageID = msgID, wp_ChatID = chatID, wp_LogID = logID, wp_PrevID = prevID, wp_SendAt = sendAt,
                    wp_ChatLog = chatLog\<rparr>
      | _ \<Rightarrow> Inl chat_ErrInvalidWriteResp)"

subsection \<open>Replies\<close>

record ReplyTarget =
  rt_LogID :: int64
  rt_UserID :: int64
  rt_LinkID :: int64
  rt_Type :: int64
  rt_Message :: string

definition containsNUL :: "string \<Rightarrow> bool" where "containsNUL s \<longleftrightarrow> 0 \<in> set (runes (bytesOf s))"

definition ReplyTarget_validate :: "ReplyTarget \<Rightarrow> go_error option" where
  "ReplyTarget_validate t =
     (if rt_LogID t \<le> 0 \<or> rt_UserID t \<le> 0 \<or> rt_LinkID t < 0 \<or> rt_Type t \<le> 0 then Some chat_ErrInvalidMessage
      else if \<not> validString (rt_Message t) \<or> length (rt_Message t) > maxTextBytes \<or> containsNUL (rt_Message t)
      then Some chat_ErrInvalidMessage
      else None)"

record ReplyRequest =
  rr_ChatID :: int64
  rr_Message :: string
  rr_Target :: ReplyTarget

text \<open>The attachment, as \<open>json.Marshal\<close> writes the source's anonymous struct.\<close>

definition replyAttachment :: "ReplyTarget \<Rightarrow> jval" where
  "replyAttachment t =
     JObj ([(''src_logId'', JLit (FormatInt (rt_LogID t))), (''src_userId'', JLit (FormatInt (rt_UserID t)))]
       @ (if rt_LinkID t \<noteq> 0 then [(''src_linkId'', JLit (FormatInt (rt_LinkID t)))] else [])
       @ [(''src_type'', JLit (FormatInt (rt_Type t))),
          (''src_message'', JStr (jsonEscape (truncateReplyPreview (rt_Message t)))),
          (''src_spoilers'', JArr [])])"

definition ReplyRequest_MarshalBSON :: "'r bson \<Rightarrow> ReplyRequest \<Rightarrow> 'r result" where
  "ReplyRequest_MarshalBSON B r =
     (if ReplyTarget_validate (rr_Target r) \<noteq> None then Inl chat_ErrInvalidMessage
      else WriteRequest_MarshalBSON B
             \<lparr>wr_ChatID = rr_ChatID r, wr_MessageID = 0, wr_Scope = 0, wr_ThreadID = 0, wr_Message = rr_Message r,
              wr_Type = Reply, wr_NoSeen = False, wr_NoLight = False,
              wr_Extra = printValue (replyAttachment (rr_Target r)), wr_Supplement = [], wr_Silence = False,
              wr_FeatureStat = []\<rparr>)"

subsection \<open>MODIFYMSG and DELETEMSG\<close>

record ModifyRequest =
  md_ChatID :: int64
  md_LogID :: int64
  md_Type :: int64
  md_Message :: string
  md_Extra :: string

definition ModifyRequest_MarshalBSON :: "'r bson \<Rightarrow> ModifyRequest \<Rightarrow> 'r result" where
  "ModifyRequest_MarshalBSON B r =
     (if md_ChatID r \<le> 0 then Inl chat_ErrInvalidChatID
      else if md_LogID r \<le> 0 then Inl chat_ErrInvalidMessageID
      else if md_Type r \<le> 0 \<or> md_Message r = [] \<or> \<not> validString (md_Message r) \<or> length (md_Message r) > maxTextBytes
              \<or> nul \<in> set (md_Message r) \<or> \<not> json_Valid (md_Extra r)
      then Inl chat_ErrInvalidMessage
      else bsonMarshal B [(''chatId'', FInt64 (md_ChatID r)), (''logId'', FInt64 (md_LogID r)), (''type'', FInt32 (md_Type r)),
             (''msg'', FString (md_Message r)), (''extra'', FString (md_Extra r))])"

definition DecodeModifyResponse :: "'r bson \<Rightarrow> int64 \<Rightarrow> 'r \<Rightarrow> int64 result" where
  "DecodeModifyResponse B logID body =
     (case bs_LookupErr B body ''modifiedChatLog'' of
        Some (VDoc modified) \<Rightarrow>
          (case Int64 B chat_fields modified [''logId''] of
             Inr (Some got) \<Rightarrow>
               if got \<noteq> logID then Inl chat_ErrInvalidWriteResp
               else (case Int64 B chat_fields modified [''revision''] of
                       Inr (Some revision) \<Rightarrow> if revision \<le> 0 then Inl chat_ErrInvalidWriteResp else Inr revision
                     | _ \<Rightarrow> Inl chat_ErrInvalidWriteResp)
           | _ \<Rightarrow> Inl chat_ErrInvalidWriteResp)
      | _ \<Rightarrow> Inl chat_ErrInvalidWriteResp)"

record DeleteRequest =
  de_ChatID :: int64
  de_LogID :: int64

definition DeleteRequest_MarshalBSON :: "'r bson \<Rightarrow> DeleteRequest \<Rightarrow> 'r result" where
  "DeleteRequest_MarshalBSON B r =
     (if de_ChatID r \<le> 0 then Inl chat_ErrInvalidChatID
      else if de_LogID r \<le> 0 then Inl chat_ErrInvalidMessageID
      else bsonMarshal B [(''chatId'', FInt64 (de_ChatID r)), (''logId'', FInt64 (de_LogID r))])"

definition StatusDeleteTypeNotAllowed :: int where "StatusDeleteTypeNotAllowed = - 210"
definition StatusAlreadyDeleted :: int where "StatusAlreadyDeleted = - 211"
definition StatusDeleteTimeExpired :: int where "StatusDeleteTimeExpired = - 212"

subsection \<open>GETMSGS\<close>

definition MaxGetMessages :: nat where "MaxGetMessages = 200"

record GetMessagesRequest =
  gm_ChatID :: int64
  gm_LogIDs :: "int64 list"

definition GetMessagesRequest_MarshalBSON :: "'r bson \<Rightarrow> GetMessagesRequest \<Rightarrow> 'r result" where
  "GetMessagesRequest_MarshalBSON B r =
     (if gm_ChatID r \<le> 0 then Inl chat_ErrInvalidChatID
      else if gm_LogIDs r = [] \<or> length (gm_LogIDs r) > MaxGetMessages then Inl chat_ErrInvalidMessageID
      else if \<exists>logID\<in>set (gm_LogIDs r). logID \<le> 0 then Inl chat_ErrInvalidMessageID
      else bsonMarshal B [(''chatIds'', FInt64s (map (\<lambda>_. gm_ChatID r) (gm_LogIDs r))), (''logIds'', FInt64s (gm_LogIDs r))])"

fun documentsOf :: "'r rawvalue list \<Rightarrow> 'r list result" where
  "documentsOf [] = Inr []"
| "documentsOf (item # items) =
     (case item of
        VDoc d \<Rightarrow> (case documentsOf items of Inl e \<Rightarrow> Inl e | Inr ds \<Rightarrow> Inr (d # ds))
      | _ \<Rightarrow> Inl chat_ErrInvalidGetMessagesResp)"

definition DecodeGetMessagesResponse :: "'r bson \<Rightarrow> 'r \<Rightarrow> 'r list result" where
  "DecodeGetMessagesResponse B body =
     (case bs_LookupErr B body ''chatLogs'' of
        None \<Rightarrow> Inr []
      | Some (VArray a) \<Rightarrow>
          (case bs_Values B a of None \<Rightarrow> Inl chat_ErrInvalidGetMessagesResp | Some values \<Rightarrow> documentsOf values)
      | Some _ \<Rightarrow> Inl chat_ErrInvalidGetMessagesResp)"

record EditSource =
  es_LogID :: int64
  es_AuthorID :: int64
  es_Type :: int64
  es_Message :: string
  es_Attachment :: string

text \<open>One log of the reply, once its \<open>logId\<close> is the one asked for.\<close>

definition editSourceOf :: "'r bson \<Rightarrow> int64 \<Rightarrow> 'r \<Rightarrow> EditSource result" where
  "editSourceOf B got log =
     (case (Int64 B chat_fields log [''authorId''], Int32 B chat_fields log [''type''],
            String B chat_fields log [''message''], String B chat_fields log [''attachment'']) of
        (Inr author, Inr (Some typ), Inr message, Inr attachment) \<Rightarrow>
          Inr \<lparr>es_LogID = got, es_AuthorID = (case author of None \<Rightarrow> 0 | Some n \<Rightarrow> n), es_Type = typ,
               es_Message = (case message of None \<Rightarrow> [] | Some s \<Rightarrow> s),
               es_Attachment = (case attachment of None \<Rightarrow> [] | Some s \<Rightarrow> s)\<rparr>
      | _ \<Rightarrow> Inl chat_ErrInvalidGetMessagesResp)"

fun findEditSource :: "'r bson \<Rightarrow> int64 \<Rightarrow> 'r list \<Rightarrow> EditSource result" where
  "findEditSource B logID [] = Inl chat_ErrEditSourceMissing"
| "findEditSource B logID (log # logs) =
     (case Int64 B chat_fields log [''logId''] of
        Inr (Some got) \<Rightarrow> if got = logID then editSourceOf B got log else findEditSource B logID logs
      | _ \<Rightarrow> findEditSource B logID logs)"

definition DecodeEditSource :: "'r bson \<Rightarrow> int64 \<Rightarrow> 'r \<Rightarrow> EditSource result" where
  "DecodeEditSource B logID body =
     (case DecodeGetMessagesResponse B body of Inl e \<Rightarrow> Inl e | Inr logs \<Rightarrow> findEditSource B logID logs)"

subsection \<open>The extra of an edit\<close>

definition emoticonEditKeys :: "string list" where
  "emoticonEditKeys = [''url'', ''name'', ''sound'', ''path'', ''path2'', ''scon'', ''alt'', ''xconVersion'', ''width'', ''height'']"

definition replyEditKeys :: "string list" where
  "replyEditKeys = [''src_logId'', ''src_userId'', ''src_linkId'', ''src_type'', ''attach_only'', ''attach_type'',
     ''attach_content'', ''src_message'', ''src_mentions'']"

text \<open>An object unmarshalled into a \<open>map[string]json.RawMessage\<close>: the last of equal keys wins.\<close>

definition rawMap :: "(string \<times> jval) list \<Rightarrow> string \<rightharpoonup> jval" where
  "rawMap ms = map_of (rev (map (\<lambda>(key, v). (unquote key, v)) ms))"

text \<open>What \<open>json.Marshal\<close> does to a raw message: it is compacted, and the HTML characters of its strings are escaped.\<close>

function htmlEscape :: "string \<Rightarrow> string" where
  "htmlEscape raw =
     (case raw of
        [] \<Rightarrow> []
      | c # s \<Rightarrow>
          if take 2 raw = [CHR 0xE2, CHR 0x80] \<and> 3 \<le> length raw \<and> raw ! 2 \<in> {CHR 0xA8, CHR 0xA9}
          then uEscape (0x2028 + (of_char (raw ! 2) - 0xA8)) @ htmlEscape (drop 3 raw)
          else (if c = CHR ''<'' \<or> c = CHR ''>'' \<or> c = CHR ''&'' then uEscape (of_char c) else [c]) @ htmlEscape s)"
  by pat_completeness auto
termination
  by (relation "measure length") auto

declare htmlEscape.simps [simp del]

fun compact :: "jval \<Rightarrow> jval" where
  "compact (JLit t) = JLit t"
| "compact (JStr raw) = JStr (htmlEscape raw)"
| "compact (JArr vs) = JArr (map compact vs)"
| "compact (JObj ms) = JObj (map (\<lambda>m. (htmlEscape (fst m), compact (snd m))) ms)"

text \<open>\<open>json.Marshal\<close> of such a map, whose keys it sorts.\<close>

definition marshalRawMap :: "(string \<times> jval) list \<Rightarrow> jval" where
  "marshalRawMap kvs = JObj (map (\<lambda>(key, v). (jsonEscape key, compact v)) (sort_key fst kvs))"

definition carriedOver :: "string list \<Rightarrow> (string \<rightharpoonup> jval) \<Rightarrow> (string \<times> jval) list" where
  "carriedOver keys original =
     concat (map (\<lambda>key. case original key of
        Some v \<Rightarrow> if v \<noteq> JLit ''null'' then [(key, v)] else []
      | None \<Rightarrow> []) keys)"

definition editKeys :: "EditSource \<Rightarrow> string list option" where
  "editKeys source =
     (if es_Type source \<in> {AnimatedEmoticon, Sticker, AnimatedSticker, Spritecon, AnimatedStickerEx}
      then (if es_Message source = [] then None else Some emoticonEditKeys)
      else if es_Type source = Reply then Some replyEditKeys
      else None)"

definition ModifyExtra :: "EditSource \<Rightarrow> string result" where
  "ModifyExtra source =
     (if es_Type source = Text then Inr ''{}''
      else (case editKeys source of
              None \<Rightarrow> Inl chat_ErrNotEditable
            | Some keys \<Rightarrow>
                (case json_parse (es_Attachment source) of
                   Some (JObj ms) \<Rightarrow>
                     if es_Type source = Reply \<and> rawMap ms ''attach_only'' = Some (JLit ''true'')
                     then Inl chat_ErrNotEditable
                     else Inr (printValue (marshalRawMap (carriedOver keys (rawMap ms))))
                 | _ \<Rightarrow> Inl chat_ErrNotEditable)))"

subsection \<open>CREATE and ADDMEM\<close>

definition maxCreateMembers :: nat where "maxCreateMembers = 1000"

record CreateRequest =
  cr_MemberIDs :: "int64 list"
  cr_PushAlert :: bool
  cr_MemoChat :: bool
  cr_NickName :: string
  cr_ProfileImageURL :: string

fun memberErrors :: "int64 list \<Rightarrow> int64 list \<Rightarrow> go_error option" where
  "memberErrors seen [] = None"
| "memberErrors seen (m # ms) =
     (if m \<le> 0 then Some chat_ErrInvalidMemberID
      else if m \<in> set seen then Some chat_ErrDuplicateMember
      else memberErrors (m # seen) ms)"

definition CreateRequest_Validate :: "CreateRequest \<Rightarrow> go_error option" where
  "CreateRequest_Validate r =
     (if cr_MemberIDs r = [] then Some chat_ErrNoMembers
      else if length (cr_MemberIDs r) > maxCreateMembers then Some chat_ErrTooManyMembers
      else (case memberErrors [] (cr_MemberIDs r) of
              Some e \<Rightarrow> Some e
            | None \<Rightarrow> if nul \<in> set (cr_NickName r) \<or> nul \<in> set (cr_ProfileImageURL r)
                      then Some (Other ''CREATE strings contain NUL'') else None))"

definition CreateRequest_MarshalBSON :: "'r bson \<Rightarrow> CreateRequest \<Rightarrow> 'r result" where
  "CreateRequest_MarshalBSON B r =
     (case CreateRequest_Validate r of
        Some e \<Rightarrow> Inl e
      | None \<Rightarrow> bsonMarshal B
          ([(''memberIds'', FInt64s (cr_MemberIDs r)), (''pushAlert'', FBool (cr_PushAlert r)), (''memoChat'', FBool (cr_MemoChat r))]
           @ (if cr_NickName r \<noteq> [] then [(''nickName'', FString (cr_NickName r))] else [])
           @ (if cr_ProfileImageURL r \<noteq> [] then [(''profileImageUrl'', FString (cr_ProfileImageURL r))] else [])))"

record 'r CreateResponse =
  cp_ChatID :: int64
  cp_ChatRoom :: 'r

definition DecodeCreateResponse :: "'r bson \<Rightarrow> 'r \<Rightarrow> 'r CreateResponse result" where
  "DecodeCreateResponse B body =
     (case Int64 B chat_fields body [''chatId''] of
        Inr (Some chatID) \<Rightarrow>
          if chatID \<le> 0 then Inl chat_ErrInvalidResponse
          else (case Document B chat_fields body [''chatRoom''] of
                  Inr (Some room) \<Rightarrow> Inr \<lparr>cp_ChatID = chatID, cp_ChatRoom = room\<rparr>
                | _ \<Rightarrow> Inl chat_ErrInvalidResponse)
      | _ \<Rightarrow> Inl chat_ErrInvalidResponse)"

record AddMembersRequest =
  am_ChatID :: int64
  am_MemberIDs :: "int64 list"

definition AddMembersRequest_MarshalBSON :: "'r bson \<Rightarrow> AddMembersRequest \<Rightarrow> 'r result" where
  "AddMembersRequest_MarshalBSON B r =
     (if am_ChatID r \<le> 0 then Inl chat_ErrInvalidChatID
      else (case CreateRequest_Validate \<lparr>cr_MemberIDs = am_MemberIDs r, cr_PushAlert = False, cr_MemoChat = False,
                  cr_NickName = [], cr_ProfileImageURL = []\<rparr> of
              Some e \<Rightarrow> Inl e
            | None \<Rightarrow> bsonMarshal B [(''chatId'', FInt64 (am_ChatID r)), (''memberIds'', FInt64s (am_MemberIDs r))]))"

record 'r AddMembersResponse =
  ap_ChatLog :: "'r option"
  ap_Warning :: string

definition invitationWarning :: "'r bson \<Rightarrow> 'r \<Rightarrow> 'r option \<Rightarrow> 'r AddMembersResponse result" where
  "invitationWarning B raw log =
     (case bs_LookupErr B raw ''warningMsg'' of
        Some (VString warning) \<Rightarrow> Inr \<lparr>ap_ChatLog = log, ap_Warning = warning\<rparr>
      | Some VNull \<Rightarrow> Inr \<lparr>ap_ChatLog = log, ap_Warning = []\<rparr>
      | None \<Rightarrow> Inr \<lparr>ap_ChatLog = log, ap_Warning = []\<rparr>
      | Some _ \<Rightarrow> Inl (Other ''invalid invitation warning''))"

definition DecodeAddMembersResponse :: "'r bson \<Rightarrow> 'r \<Rightarrow> 'r AddMembersResponse result" where
  "DecodeAddMembersResponse B raw =
     (if \<not> bs_Validate B raw then Inl (Other ''bson.Validate'')
      else (case bs_LookupErr B raw ''chatLog'' of
              Some (VDoc log) \<Rightarrow> invitationWarning B raw (Some log)
            | Some VNull \<Rightarrow> invitationWarning B raw None
            | None \<Rightarrow> invitationWarning B raw None
            | Some _ \<Rightarrow> Inl (Other ''invalid invitation log'')))"

subsection \<open>Sending\<close>

text \<open>
  The session under the client: \<open>lk_session\<close> answers \<open>ensureSession\<close> and \<open>lk_answer\<close> the \<open>n\<close>-th exchange of
  \<open>session.request\<close>, a transport error, a status error or the body of the reply.
\<close>

record 'r link_env =
  lk_session :: "nat \<Rightarrow> go_error option"
  lk_answer :: "nat \<Rightarrow> string \<Rightarrow> 'r \<Rightarrow> 'r result"

record 'r link =
  lk_sent :: "(string \<times> 'r) list"
  lk_calls :: nat

definition withSession :: "'r link_env \<Rightarrow> ('r link \<Rightarrow> 'a result \<times> 'r link) \<Rightarrow> 'r link \<Rightarrow> 'a result \<times> 'r link" where
  "withSession env fn L =
     (case lk_session env (lk_calls L) of
        Some e \<Rightarrow> (Inl e, L\<lparr>lk_calls := lk_calls L + 1\<rparr>)
      | None \<Rightarrow> fn (L\<lparr>lk_calls := lk_calls L + 1\<rparr>))"

text \<open>\<open>call\<close>, for the commands that the metadata pacing does not concern.\<close>

definition chatCall :: "'r link_env \<Rightarrow> string \<Rightarrow> 'r result \<Rightarrow> ('r \<Rightarrow> 'a result) \<Rightarrow> 'r link \<Rightarrow> 'a result \<times> 'r link" where
  "chatCall env command body decode L =
     (case body of
        Inl e \<Rightarrow> (Inl e, L)
      | Inr raw \<Rightarrow>
          let L1 = L\<lparr>lk_sent := lk_sent L @ [(command, raw)]\<rparr>
          in (case lk_answer env (length (lk_sent L)) command raw of
                Inl e \<Rightarrow> (Inl e, L1)
              | Inr reply \<Rightarrow> (decode reply, L1)))"

definition textRequest :: "int64 \<Rightarrow> string \<Rightarrow> WriteRequest" where
  "textRequest chatID message =
     \<lparr>wr_ChatID = chatID, wr_MessageID = 0, wr_Scope = 0, wr_ThreadID = 0, wr_Message = message, wr_Type = Text,
      wr_NoSeen = False, wr_NoLight = False, wr_Extra = [], wr_Supplement = [], wr_Silence = False, wr_FeatureStat = []\<rparr>"

definition SendText :: "'r bson \<Rightarrow> 'r link_env \<Rightarrow> int64 \<Rightarrow> string \<Rightarrow> 'r link \<Rightarrow> 'r WriteResponse result \<times> 'r link" where
  "SendText B env chatID message =
     withSession env (\<lambda>L.
       case WriteRequest_Validate (textRequest chatID message) of
         Some e \<Rightarrow> (Inl e, L)
       | None \<Rightarrow> chatCall env ''WRITE'' (WriteRequest_MarshalBSON B (textRequest chatID message)) (DecodeWriteResponse B) L)"

definition SendReply :: "'r bson \<Rightarrow> 'r link_env \<Rightarrow> ReplyRequest \<Rightarrow> 'r link \<Rightarrow> 'r WriteResponse result \<times> 'r link" where
  "SendReply B env request =
     withSession env (chatCall env ''WRITE'' (ReplyRequest_MarshalBSON B request) (DecodeWriteResponse B))"

definition ModifyMessage :: "'r bson \<Rightarrow> 'r link_env \<Rightarrow> ModifyRequest \<Rightarrow> 'r link \<Rightarrow> int64 result \<times> 'r link" where
  "ModifyMessage B env request =
     withSession env (chatCall env ''MODIFYMSG'' (ModifyRequest_MarshalBSON B request) (DecodeModifyResponse B (md_LogID request)))"

definition DeleteMessage :: "'r bson \<Rightarrow> 'r link_env \<Rightarrow> DeleteRequest \<Rightarrow> 'r link \<Rightarrow> unit result \<times> 'r link" where
  "DeleteMessage B env request =
     withSession env (chatCall env ''DELETEMSG'' (DeleteRequest_MarshalBSON B request) (\<lambda>_. Inr ()))"

definition client_EditSource :: "'r bson \<Rightarrow> 'r link_env \<Rightarrow> int64 \<Rightarrow> int64 \<Rightarrow> 'r link \<Rightarrow> EditSource result \<times> 'r link" where
  "client_EditSource B env chatID logID =
     withSession env (chatCall env ''GETMSGS'' (GetMessagesRequest_MarshalBSON B \<lparr>gm_ChatID = chatID, gm_LogIDs = [logID]\<rparr>)
       (DecodeEditSource B logID))"

definition CreateChat :: "'r bson \<Rightarrow> 'r link_env \<Rightarrow> CreateRequest \<Rightarrow> 'r link \<Rightarrow> 'r CreateResponse result \<times> 'r link" where
  "CreateChat B env request =
     withSession env (chatCall env ''CREATE'' (CreateRequest_MarshalBSON B request) (DecodeCreateResponse B))"

definition AddMembers :: "'r bson \<Rightarrow> 'r link_env \<Rightarrow> AddMembersRequest \<Rightarrow> 'r link \<Rightarrow> 'r AddMembersResponse result \<times> 'r link" where
  "AddMembers B env request L =
     (case AddMembersRequest_MarshalBSON B request of
        Inl e \<Rightarrow> (Inl e, L)
      | Inr _ \<Rightarrow> withSession env (chatCall env ''ADDMEM'' (AddMembersRequest_MarshalBSON B request) (DecodeAddMembersResponse B)) L)"

end
