(* ===== verification/Media_Upload.thy ===== *)
theory Media_Upload
  imports Wire Chat_Requests
begin

text \<open>
  Sending media: the request and reply codecs of \<open>src/internal/protocol/media\<close> (\<open>media.go\<close>, \<open>upload.go\<close>, \<open>album.go\<close>,
  \<open>directphoto.go\<close> and the media of \<open>direct.go\<close>) and the uploads of \<open>src/internal/client/media.go\<close> and
  \<open>media_direct.go\<close>.

  A BSON document is its bytes, so that the same documents travel on the session (\<open>link\<close> of
  \<open>Chat_Requests\<close>) and on the media connections (\<open>wireConn\<close> of \<open>Wire\<close>). Unicode normalisation and case mapping, SHA-1
  and the image decoder are the parameter record \<open>media_lib\<close>. The HTTP requests of an alternate upload and
  its ready poll are answers.
\<close>

type_synonym raw = "byte list"

record media_lib =
  ml_NFC :: "string \<Rightarrow> string"
  ml_ToLower :: "string \<Rightarrow> string"
  ml_sha1 :: "byte list \<Rightarrow> byte list"
  ml_DecodeConfig :: "byte list \<Rightarrow> (int64 \<times> int64 \<times> string) option"

subsection \<open>Images\<close>

definition Photo :: int64 where "Photo = 2"
definition Video :: int64 where "Video = 3"
definition File :: int64 where "File = 18"

definition MaxImageBytes :: nat where "MaxImageBytes = 16 * 2 ^ 20"
definition MaxCaptionBytes :: nat where "MaxCaptionBytes = 16 * 2 ^ 10"

definition ValidCaption :: "string \<Rightarrow> bool" where
  "ValidCaption caption \<longleftrightarrow> length caption \<le> MaxCaptionBytes \<and> validString caption \<and> nul \<notin> set caption"

record Image =
  im_Data :: "byte list"
  im_Extension :: string
  im_Width :: int64
  im_Height :: int64
  im_Checksum :: string

text \<open>\<open>strings.ToUpper(hex.EncodeToString(sum))\<close>.\<close>

definition upperHex :: "byte list \<Rightarrow> string" where
  "upperHex digest = concat (map (\<lambda>b. [''0123456789ABCDEF'' ! (unat b div 16), ''0123456789ABCDEF'' ! (unat b mod 16)]) digest)"

definition PrepareImage :: "media_lib \<Rightarrow> byte list \<Rightarrow> Image result" where
  "PrepareImage L data =
     (if data = [] \<or> length data > MaxImageBytes then Inl media_ErrInvalidImage
      else (case ml_DecodeConfig L data of
              None \<Rightarrow> Inl media_ErrInvalidImage
            | Some (width, height, format) \<Rightarrow>
                if width \<le> 0 \<or> height \<le> 0 \<or> width > 2 ^ 20 \<or> height > 2 ^ 20 then Inl media_ErrInvalidImage
                else if format \<noteq> ''jpeg'' \<and> format \<noteq> ''png'' then Inl media_ErrUnsupportedImage
                else Inr \<lparr>im_Data = data, im_Extension = (if format = ''jpeg'' then ''jpg'' else ''png''),
                          im_Width = width, im_Height = height, im_Checksum = upperHex (ml_sha1 L data)\<rparr>))"

subsection \<open>SHIP, POST and COMPLETE\<close>

definition media_fields :: Reader where
  "media_fields = \<lparr>r_Err = Some media_ErrInvalidResponse, r_NullAbsent = False\<rparr>"

definition ShipRequest_MarshalBSON :: "raw bson \<Rightarrow> int64 \<Rightarrow> Image \<Rightarrow> raw result" where
  "ShipRequest_MarshalBSON B chatID img =
     (if chatID \<le> 0 \<or> im_Data img = [] \<or> im_Extension img = [] \<or> im_Checksum img = [] then Inl media_ErrInvalidImage
      else bsonMarshal B [(''c'', FInt64 chatID), (''t'', FInt32 Photo), (''s'', FInt64 (int (length (im_Data img)))),
             (''cs'', FString (im_Checksum img)), (''e'', FString (im_Extension img)), (''ex'', FString ''{}'')])"

record ShipResponse =
  sh_Redirect :: bool
  sh_Key :: string
  sh_Host :: string
  sh_Port :: int64

definition DecodeShipResponse :: "raw bson \<Rightarrow> raw \<Rightarrow> ShipResponse result" where
  "DecodeShipResponse B body =
     (if \<not> bs_Validate B body then Inl media_ErrInvalidResponse
      else (case Bool B media_fields body [''rd''] of
              Inl _ \<Rightarrow> Inl media_ErrInvalidResponse
            | Inr redirect \<Rightarrow>
                if redirect = Some True then Inr \<lparr>sh_Redirect = True, sh_Key = [], sh_Host = [], sh_Port = 0\<rparr>
                else (case (String B media_fields body [''k''], String B media_fields body [''vh''], Int64 B media_fields body [''p'']) of
                        (Inr (Some key), Inr (Some host), Inr (Some port)) \<Rightarrow>
                          if key = [] \<or> host = [] \<or> port \<le> 0 \<or> port > 65535 then Inl media_ErrInvalidResponse
                          else Inr \<lparr>sh_Redirect = False, sh_Key = key, sh_Host = host, sh_Port = port\<rparr>
                      | _ \<Rightarrow> Inl media_ErrInvalidResponse)))"

definition commentExtra :: "string \<Rightarrow> string" where
  "commentExtra comment = (if comment = [] then ''{}'' else printValue (JObj [(''cmt'', JStr (jsonEscape comment))]))"

record PostRequest =
  po_UserID :: int64
  po_Key :: string
  po_ChatID :: int64
  po_AppVersion :: string
  po_MediaID :: int64

definition PostRequest_MarshalBSON :: "raw bson \<Rightarrow> PostRequest \<Rightarrow> Image \<Rightarrow> string \<Rightarrow> raw result" where
  "PostRequest_MarshalBSON B r img comment =
     (if po_UserID r \<le> 0 \<or> po_ChatID r \<le> 0 \<or> po_Key r = [] \<or> po_AppVersion r = [] \<or> po_MediaID r \<le> 0 \<or> im_Data img = []
      then Inl media_ErrInvalidImage
      else if \<not> ValidCaption comment then Inl media_ErrInvalidCaption
      else bsonMarshal B [(''u'', FInt64 (po_UserID r)), (''k'', FString (po_Key r)), (''t'', FInt32 Photo),
             (''s'', FInt64 (int (length (im_Data img)))), (''c'', FInt64 (po_ChatID r)), (''mid'', FInt64 (po_MediaID r)),
             (''w'', FInt32 (im_Width img)), (''h'', FInt32 (im_Height img)), (''mm'', FString ''99999''),
             (''nt'', FInt32 0), (''os'', FString ''mac''), (''av'', FString (po_AppVersion r)),
             (''ex'', FString (commentExtra comment)), (''ns'', FBool False), (''dt'', FInt32 4), (''scp'', FInt32 1)])"

definition DecodePostOffset :: "raw bson \<Rightarrow> raw \<Rightarrow> nat \<Rightarrow> nat result" where
  "DecodePostOffset B body len =
     (case Int64 B media_fields body [''o''] of
        Inl _ \<Rightarrow> Inl media_ErrInvalidOffset
      | Inr None \<Rightarrow> Inr 0
      | Inr (Some offset) \<Rightarrow> if offset < 0 \<or> offset > int len then Inl media_ErrInvalidOffset else Inr (nat offset))"

text \<open>A \<open>SendResult\<close> is its chat log, which may be nil.\<close>

type_synonym SendResult = "raw option"

definition SendResultPosition :: "raw bson \<Rightarrow> SendResult \<Rightarrow> (int64 \<times> int64) result" where
  "SendResultPosition B r =
     (case r of
        None \<Rightarrow> Inl media_ErrInvalidResponse
      | Some log \<Rightarrow>
          (case (Int64 B media_fields log [''logId''], Int64 B media_fields log [''sendAt'']) of
             (Inr (Some logID), Inr (Some sendAt)) \<Rightarrow>
               if logID \<le> 0 \<or> sendAt \<le> 0 then Inl media_ErrInvalidResponse else Inr (logID, sendAt)
           | _ \<Rightarrow> Inl media_ErrInvalidResponse))"

definition DecodeComplete :: "raw bson \<Rightarrow> raw \<Rightarrow> SendResult result" where
  "DecodeComplete B body =
     (case bs_LookupErr B body ''chatLog'' of
        Some (VDoc log) \<Rightarrow> if bs_Validate B log then Inr (Some log) else Inl media_ErrInvalidResponse
      | _ \<Rightarrow> Inl media_ErrInvalidResponse)"

subsection \<open>Files and videos\<close>

definition MaxUploadBytes :: nat where "MaxUploadBytes = 64 * 2 ^ 20"
definition maxUploadName :: nat where "maxUploadName = 512"

text \<open>\<open>strings.Fields\<close>, for text whose only spaces are blanks.\<close>

fun fieldsOf :: "string \<Rightarrow> string \<Rightarrow> string list" where
  "fieldsOf word [] = (if word = [] then [] else [rev word])"
| "fieldsOf word (c # s) =
     (if c = CHR '' '' then (if word = [] then [] else [rev word]) @ fieldsOf [] s else fieldsOf (c # word) s)"

definition videoExtensions :: "string list" where
  "videoExtensions = [''ts'', ''ogv'', ''flv'', ''mov'', ''mp4'', ''mpeg'', ''mpg'', ''mkv'', ''wmv'', ''asf'', ''avi'', ''m4v'']"

definition deniedText :: "string list" where
  "deniedText =
     [''0xe 73k 89k a6p ac acc acr action actm ahk air apk app arscript as asb awk'',
      ''azw2 bat beam bin btm cel celx chm cmd cof com command cpl crt csh dek dld dmc docm dotm dxl ear ebm ebs'',
      ''ebs2 ecf eham elf es ex4 exe exopc ezs fas fileloc fky fpi frs fxp gadget gs ham hms hpf hta iim inc'',
      ''inetloc inf1 ins inx ipa ipf isp isu jar job js jse jsx kix ksh lnk lo ls mam mcr mel mpx mrc ms msc msi'',
      ''msp mst mxe nexe obs ore osx otm out paf pex php pif plx potm ppam ppsm pptm prc prg ps1 pvd pwc pyc pyo'',
      ''qpx rbx reg rgs rox rpj run s2a sbs sca scar scb scr script sct sh shb shs smm spr tcp thm tlb tms u3p'',
      ''udf upx url vb vbe vbs vbscript vlx vpm wcm webloc widget wiz workflow wpk wpm ws wsf xap xbap xlam xlm'',
      ''xlsm xltm xqt xys zl9'']"

definition deniedExtensions :: "string list" where
  "deniedExtensions = concat (map (fieldsOf []) deniedText)"

record Upload =
  ul_Type :: int64
  ul_Name :: string
  ul_Extension :: string
  ul_Data :: "byte list"
  ul_Checksum :: string
  ul_Comment :: string

text \<open>\<open>path.Ext\<close>: the suffix from the last dot of the last path element.\<close>

definition path_Ext :: "string \<Rightarrow> string" where
  "path_Ext name =
     (let inElement = (\<lambda>c. c \<noteq> CHR ''.'' \<and> c \<noteq> CHR ''/'')
      in case dropWhile inElement (rev name) of
           [] \<Rightarrow> []
         | c # _ \<Rightarrow> if c = CHR ''.'' then c # rev (takeWhile inElement (rev name)) else [])"

definition isControl :: "nat \<Rightarrow> bool" where "isControl r \<longleftrightarrow> r < 0x20 \<or> 0x7F \<le> r \<and> r < 0xA0"

definition ClassifyUpload :: "media_lib \<Rightarrow> string \<Rightarrow> string \<Rightarrow> Upload result" where
  "ClassifyUpload L rawName comment =
     (let name = ml_NFC L rawName
      in if name = [] \<or> name = ''.'' \<or> name = ''..'' \<or> length name > maxUploadName \<or> \<not> validString name
            \<or> CHR ''/'' \<in> set name \<or> backslash \<in> set name \<or> (\<exists>r\<in>set (runes (bytesOf name)). isControl r)
         then Inl media_ErrInvalidUpload
         else
           (let ext = ml_ToLower L (tl (path_Ext name))
            in if ext \<in> set deniedExtensions then Inl media_ErrDeniedExtension
               else
                 (let typ = (if ext \<in> set videoExtensions then Video else File)
                  in if typ = File \<and> comment \<noteq> [] then Inl media_ErrCaptionNotSupported
                     else if \<not> ValidCaption comment then Inl media_ErrInvalidCaption
                     else Inr \<lparr>ul_Type = typ, ul_Name = name, ul_Extension = ext, ul_Data = [], ul_Checksum = [], ul_Comment = comment\<rparr>)))"

definition PrepareUpload :: "media_lib \<Rightarrow> string \<Rightarrow> byte list \<Rightarrow> string \<Rightarrow> Upload result" where
  "PrepareUpload L name data comment =
     (if data = [] then Inl media_ErrInvalidUpload
      else if length data > MaxUploadBytes then Inl media_ErrUploadTooLarge
      else (case ClassifyUpload L name comment of
              Inl e \<Rightarrow> Inl e
            | Inr upload \<Rightarrow> Inr (upload\<lparr>ul_Data := data, ul_Checksum := upperHex (ml_sha1 L data)\<rparr>)))"

definition Upload_valid :: "Upload \<Rightarrow> bool" where
  "Upload_valid u \<longleftrightarrow> (ul_Type u = File \<or> ul_Type u = Video) \<and> ul_Data u \<noteq> [] \<and> ul_Name u \<noteq> [] \<and> length (ul_Checksum u) = 40"

definition UploadShipRequest_MarshalBSON :: "raw bson \<Rightarrow> int64 \<Rightarrow> Upload \<Rightarrow> raw result" where
  "UploadShipRequest_MarshalBSON B chatID upload =
     (if chatID \<le> 0 \<or> \<not> Upload_valid upload then Inl media_ErrInvalidUpload
      else bsonMarshal B [(''c'', FInt64 chatID), (''t'', FInt32 (ul_Type upload)), (''s'', FInt64 (int (length (ul_Data upload)))),
             (''cs'', FString (ul_Checksum upload)), (''e'', FString (ul_Extension upload)), (''ex'', FString ''{}'')])"

definition UploadPostRequest_MarshalBSON :: "raw bson \<Rightarrow> PostRequest \<Rightarrow> Upload \<Rightarrow> raw result" where
  "UploadPostRequest_MarshalBSON B r upload =
     (if po_UserID r \<le> 0 \<or> po_ChatID r \<le> 0 \<or> po_Key r = [] \<or> po_AppVersion r = [] \<or> po_MediaID r \<le> 0 \<or> \<not> Upload_valid upload
      then Inl media_ErrInvalidUpload
      else bsonMarshal B [(''u'', FInt64 (po_UserID r)), (''k'', FString (po_Key r)), (''t'', FInt32 (ul_Type upload)),
             (''s'', FInt64 (int (length (ul_Data upload)))), (''c'', FInt64 (po_ChatID r)), (''mid'', FInt64 (po_MediaID r)),
             (''w'', FInt32 0), (''h'', FInt32 0), (''mm'', FString ''99999''), (''nt'', FInt32 0), (''os'', FString ''mac''),
             (''av'', FString (po_AppVersion r)), (''ex'', FString (commentExtra (ul_Comment upload))),
             (''f'', FString (ul_Name upload)), (''ns'', FBool False), (''dt'', FInt32 4), (''scp'', FInt32 1)])"

subsection \<open>Albums\<close>

definition MinAlbumPhotos :: nat where "MinAlbumPhotos = 2"
definition MaxAlbumPhotos :: nat where "MaxAlbumPhotos = 30"

definition AlbumShipRequest_MarshalBSON :: "raw bson \<Rightarrow> int64 \<Rightarrow> Image list \<Rightarrow> raw result" where
  "AlbumShipRequest_MarshalBSON B chatID images =
     (if chatID \<le> 0 \<or> length images < MinAlbumPhotos \<or> length images > MaxAlbumPhotos then Inl media_ErrInvalidAlbum
      else if \<exists>img\<in>set images. im_Data img = [] \<or> im_Extension img = [] \<or> length (im_Checksum img) \<noteq> 40
      then Inl media_ErrInvalidAlbum
      else bsonMarshal B [(''c'', FInt64 chatID), (''t'', FInt32 MultiPhoto),
             (''sl'', FInt64s (map (\<lambda>img. int (length (im_Data img))) images)), (''csl'', FStrings (map im_Checksum images)),
             (''el'', FStrings (map im_Extension images)), (''ex'', FString ''{}'')])"

record AlbumShipResponse =
  as_Keys :: "string list"
  as_MIMEs :: "string list"
  as_Hosts :: "string list"
  as_Ports :: "int64 list"

definition countedArray :: "raw bson \<Rightarrow> raw \<Rightarrow> string \<Rightarrow> nat \<Rightarrow> raw rawvalue list result" where
  "countedArray B raw key count =
     (case bs_LookupErr B raw key of
        Some (VArray a) \<Rightarrow>
          (case bs_Values B a of
             None \<Rightarrow> Inl media_ErrInvalidResponse
           | Some elements \<Rightarrow> if length elements \<noteq> count then Inl media_ErrInvalidResponse else Inr elements)
      | _ \<Rightarrow> Inl media_ErrInvalidResponse)"

definition stringList :: "raw bson \<Rightarrow> raw \<Rightarrow> string \<Rightarrow> nat \<Rightarrow> string list result" where
  "stringList B raw key count =
     (case countedArray B raw key count of
        Inl e \<Rightarrow> Inl e
      | Inr elements \<Rightarrow>
          (case stringElements media_ErrInvalidResponse elements of
             Inl e \<Rightarrow> Inl e
           | Inr texts \<Rightarrow> if [] \<in> set texts then Inl media_ErrInvalidResponse else Inr texts))"

definition DecodeAlbumShipResponse :: "raw bson \<Rightarrow> raw \<Rightarrow> nat \<Rightarrow> AlbumShipResponse result" where
  "DecodeAlbumShipResponse B body count =
     (case (stringList B body ''kl'' count, stringList B body ''mtl'' count, stringList B body ''vhl'' count,
            countedArray B body ''pl'' count) of
        (Inr keys, Inr mimes, Inr hosts, Inr elements) \<Rightarrow>
          (case int64Elements media_ErrInvalidResponse elements of
             Inl e \<Rightarrow> Inl e
           | Inr ports \<Rightarrow>
               if \<exists>port\<in>set ports. port \<le> 0 \<or> port > 65535 then Inl media_ErrInvalidResponse
               else Inr \<lparr>as_Keys = keys, as_MIMEs = mimes, as_Hosts = hosts, as_Ports = ports\<rparr>)
      | _ \<Rightarrow> Inl media_ErrInvalidResponse)"

definition AlbumPostRequest_MarshalBSON :: "raw bson \<Rightarrow> int64 \<Rightarrow> string \<Rightarrow> Image \<Rightarrow> string \<Rightarrow> raw result" where
  "AlbumPostRequest_MarshalBSON B userID key img appVersion =
     (if userID \<le> 0 \<or> key = [] \<or> appVersion = [] \<or> im_Data img = [] then Inl media_ErrInvalidAlbum
      else bsonMarshal B [(''u'', FInt64 userID), (''k'', FString key), (''t'', FInt32 MultiPhoto),
             (''s'', FInt64 (int (length (im_Data img)))), (''scp'', FInt32 1), (''mm'', FString ''99999''), (''nt'', FInt32 0),
             (''os'', FString ''mac''), (''av'', FString appVersion), (''dt'', FInt32 2)])"

definition jsonStrings :: "string list \<Rightarrow> jval" where "jsonStrings ss = JArr (map (\<lambda>s. JStr (jsonEscape s)) ss)"
definition jsonInts :: "int64 list \<Rightarrow> jval" where "jsonInts ns = JArr (map (\<lambda>n. JLit (FormatInt n)) ns)"

definition albumExtra :: "Image list \<Rightarrow> AlbumShipResponse \<Rightarrow> string \<Rightarrow> jval" where
  "albumExtra images ship caption =
     JObj ([(''kl'', jsonStrings (as_Keys ship)), (''wl'', jsonInts (map im_Width images)), (''hl'', jsonInts (map im_Height images)),
            (''mtl'', jsonStrings (as_MIMEs ship)), (''sl'', jsonInts (map (\<lambda>img. int (length (im_Data img))) images)),
            (''csl'', jsonStrings (map im_Checksum images))]
       @ (if caption = [] then [] else [(''cmtl'', jsonStrings (caption # replicate (length images - 1) []))]))"

definition AlbumWriteExtra :: "Image list \<Rightarrow> AlbumShipResponse \<Rightarrow> string \<Rightarrow> string result" where
  "AlbumWriteExtra images ship caption =
     (let n = length images
      in if n < MinAlbumPhotos \<or> n > MaxAlbumPhotos \<or> length (as_Keys ship) \<noteq> n \<or> length (as_MIMEs ship) \<noteq> n \<or> \<not> ValidCaption caption
         then Inl media_ErrInvalidAlbum
         else Inr (printValue (albumExtra images ship caption)))"

subsection \<open>The connection to a media server\<close>

text \<open>
  The answers on one media connection: the dial, the random nonces, the result of writing the POST, and each
  call of \<open>Write\<close> for the stream, which accepts some bytes and may fail.
\<close>

record media_conn =
  mc_dial :: "wireConn result"
  mc_postNonce :: "byte list option"
  mc_postWrite :: "go_error option"
  mc_nonce :: "nat \<Rightarrow> byte list option"
  mc_write :: "nat \<Rightarrow> nat \<times> go_error option"

definition mediaStreamChunk :: nat where "mediaStreamChunk = 4096"

text \<open>
  \<open>writeAllCount\<close> from the \<open>i\<close>-th call of \<open>Write\<close> on: the number of bytes written, the error and the
  number of the next call.
\<close>

function writeAllCount :: "(nat \<Rightarrow> nat \<times> go_error option) \<Rightarrow> nat \<Rightarrow> byte list \<Rightarrow> nat \<times> go_error option \<times> nat" where
  "writeAllCount write i data =
     (if data = [] then (0, None, i)
      else (case write i of
              (accepted, err) \<Rightarrow>
                let n = min accepted (length data)
                in (case err of
                      Some e \<Rightarrow> (n, Some e, i + 1)
                    | None \<Rightarrow>
                        if n = 0 then (0, Some (Other ''zero-byte write''), i + 1)
                        else (case writeAllCount write (i + 1) (drop n data) of (m, r, j) \<Rightarrow> (n + m, r, j)))))"
  by pat_completeness auto
termination
  by (relation "measure (\<lambda>(write, i, data). length data)") auto

declare writeAllCount.simps [simp del]

definition notSent :: "go_error \<Rightarrow> go_error" where "notSent e = Joined [ErrUploadNotSent, e]"

text \<open>
  The stream loop, from the \<open>i\<close>-th frame and the \<open>j\<close>-th write on. The last component is what has been
  put on the wire, one piece per frame.
\<close>

function streamLoop ::
    "seal \<Rightarrow> media_conn \<Rightarrow> SecureV3 option \<Rightarrow> bool \<Rightarrow> nat \<Rightarrow> nat \<Rightarrow> byte list \<Rightarrow> byte list list \<Rightarrow> go_error option \<times> byte list list" where
  "streamLoop seal C secure streamed i j rest out =
     (if rest = [] then (None, out)
      else
        (let n = min (length rest) mediaStreamChunk
         in case Encrypt seal (mc_nonce C i) secure (take n rest) of
              Inl e \<Rightarrow> (Some (if streamed then Joined [e] else notSent (Joined [e])), out)
            | Inr encrypted \<Rightarrow>
                (case writeAllCount (mc_write C) j encrypted of
                   (written, Some e, k) \<Rightarrow>
                     (Some (if \<not> streamed \<and> written = 0 then notSent (Joined [e]) else Joined [e]), out @ [take written encrypted])
                 | (written, None, k) \<Rightarrow>
                     streamLoop seal C secure True (i + 1) k (drop n rest) (out @ [encrypted]))))"
  by pat_completeness auto
termination
  by (relation "measure (\<lambda>(seal, C, secure, streamed, i, j, rest, out). length rest)") (auto simp: mediaStreamChunk_def)

declare streamLoop.simps [simp del]

definition CompleteCommand :: "byte list" where "CompleteCommand = bytesOf ''COMPLETE''"

fun awaitComplete :: "unseal \<Rightarrow> nat \<Rightarrow> wireConn \<Rightarrow> Packet result" where
  "awaitComplete unseal 0 w = Inl (ErrProtocolAt ''COMPLETE'' ''reply'')"
| "awaitComplete unseal (Suc n) w =
     (case read_wire unseal w of
        (Inl e, w1) \<Rightarrow> Inl (Joined [e])
      | (Inr packet, w1) \<Rightarrow> if Method (pk_Header packet) = CompleteCommand then Inr packet else awaitComplete unseal n w1)"

definition completion :: "unseal \<Rightarrow> Packet list \<Rightarrow> wireConn \<Rightarrow> Packet result" where
  "completion unseal pending w =
     (case find (\<lambda>packet. Method (pk_Header packet) = CompleteCommand) pending of
        Some packet \<Rightarrow> Inr packet
      | None \<Rightarrow> awaitComplete unseal requestLimit w)"

text \<open>The POST and its reply: the offset to stream from, the packets that came before the reply, and the connection.\<close>

definition postMedia ::
    "raw bson \<Rightarrow> seal \<Rightarrow> unseal \<Rightarrow> media_conn \<Rightarrow> string \<Rightarrow> raw \<Rightarrow> nat \<Rightarrow> (nat \<times> Packet list \<times> wireConn) result" where
  "postMedia B seal unseal C command postBody len =
     (case mc_dial C of
        Inl e \<Rightarrow> Inl (notSent (Joined [e]))
      | Inr upload \<Rightarrow>
          (case wire_request seal unseal (mc_postNonce C) (mc_postWrite C) 1 (bytesOf command) postBody upload of
             (Inl e, _) \<Rightarrow> Inl (notSent (Joined [e]))
           | (Inr postPacket, pending, w) \<Rightarrow>
               (case loco_Status B (pk_Body postPacket) of
                  Inl e \<Rightarrow> Inl (notSent (ErrProtocolAt command ''status''))
                | Inr status \<Rightarrow>
                    if status \<noteq> 0 then Inl (notSent (StatusError command status))
                    else (case DecodePostOffset B (pk_Body postPacket) len of
                            Inl e \<Rightarrow> Inl (notSent e)
                          | Inr offset \<Rightarrow> Inr (offset, pending, w)))))"

definition uploadToMediaServer ::
    "raw bson \<Rightarrow> seal \<Rightarrow> unseal \<Rightarrow> media_conn \<Rightarrow> string \<Rightarrow> raw \<Rightarrow> byte list \<Rightarrow> Packet result \<times> byte list list" where
  "uploadToMediaServer B seal unseal C command postBody data =
     (case postMedia B seal unseal C command postBody (length data) of
        Inl e \<Rightarrow> (Inl e, [])
      | Inr (offset, pending, w) \<Rightarrow>
          (case streamLoop seal C (wc_secure w) False 0 0 (drop offset data) [] of
             (Some e, out) \<Rightarrow> (Inl e, out)
           | (None, out) \<Rightarrow> (completion unseal pending w, out)))"

definition decodeMediaComplete :: "raw bson \<Rightarrow> Packet \<Rightarrow> SendResult result" where
  "decodeMediaComplete B packet =
     (case loco_Status B (pk_Body packet) of
        Inl _ \<Rightarrow> Inl (ErrProtocolAt ''COMPLETE'' ''status'')
      | Inr status \<Rightarrow> if status \<noteq> 0 then Inl (StatusError ''COMPLETE'' status) else DecodeComplete B (pk_Body packet))"

subsection \<open>Uploads\<close>

text \<open>
  The session of the account, its link, and the media connections it opened: \<open>up_streams\<close> is what was streamed on
  each of them. The answers of an alternate upload are the ticket, the chunked upload and the ready poll.
\<close>

record DirectTicket =
  dt_URL :: string
  dt_Resource :: string
  dt_ResourceType :: string
  dt_UploadKey :: string
  dt_ChunkSize :: int64
  dt_NeedReady :: bool

record DirectMedia =
  dm_MediaType :: string
  dm_Extension :: string
  dm_MIMEType :: string
  dm_Data :: "byte list"

record upload_env =
  ue_lib :: media_lib
  ue_bson :: "raw bson"
  ue_seal :: seal
  ue_unseal :: unseal
  ue_link :: "raw link_env"
  ue_conn :: "nat \<Rightarrow> media_conn"
  ue_millis :: "nat \<Rightarrow> int64"
  ue_userID :: int64
  ue_appVersion :: string
  ue_prepare :: "int64 \<Rightarrow> DirectMedia \<Rightarrow> DirectTicket result"
  ue_direct :: "DirectTicket \<Rightarrow> DirectMedia \<Rightarrow> go_error option"
  ue_ready :: "DirectTicket \<Rightarrow> go_error option"

record uploads =
  up_link :: "raw link"
  up_streams :: "byte list list list"

definition sessionRequest :: "upload_env \<Rightarrow> string \<Rightarrow> raw \<Rightarrow> uploads \<Rightarrow> raw result \<times> uploads" where
  "sessionRequest E command body U =
     (lk_answer (ue_link E) (length (lk_sent (up_link U))) command body,
      U\<lparr>up_link := (up_link U)\<lparr>lk_sent := lk_sent (up_link U) @ [(command, body)]\<rparr>\<rparr>)"

definition openUpload :: "upload_env \<Rightarrow> string \<Rightarrow> raw \<Rightarrow> byte list \<Rightarrow> uploads \<Rightarrow> Packet result \<times> uploads" where
  "openUpload E command postBody data U =
     (let (r, out) = uploadToMediaServer (ue_bson E) (ue_seal E) (ue_unseal E) (ue_conn E (length (up_streams U))) command postBody data
      in (r, U\<lparr>up_streams := up_streams U @ [out]\<rparr>))"

definition trailerUpload ::
    "upload_env \<Rightarrow> raw \<Rightarrow> byte list \<Rightarrow> (string \<Rightarrow> raw result) \<Rightarrow> uploads \<Rightarrow> SendResult result \<times> uploads" where
  "trailerUpload E shipBody data post U =
     (case sessionRequest E ''SHIP'' shipBody U of
        (Inl e, U1) \<Rightarrow> (Inl (notSent e), U1)
      | (Inr reply, U1) \<Rightarrow>
          (case DecodeShipResponse (ue_bson E) reply of
             Inl e \<Rightarrow> (Inl (notSent e), U1)
           | Inr ship \<Rightarrow>
               if sh_Redirect ship then (Inl (notSent media_ErrUploadRedirect), U1)
               else (case post (sh_Key ship) of
                       Inl e \<Rightarrow> (Inl (notSent e), U1)
                     | Inr postBody \<Rightarrow>
                         (case openUpload E ''POST'' postBody data U1 of
                            (Inl e, U2) \<Rightarrow> (Inl e, U2)
                          | (Inr complete, U2) \<Rightarrow> (decodeMediaComplete (ue_bson E) complete, U2)))))"

definition postRequest :: "upload_env \<Rightarrow> int64 \<Rightarrow> uploads \<Rightarrow> string \<Rightarrow> PostRequest" where
  "postRequest E chatID U key =
     \<lparr>po_UserID = ue_userID E, po_Key = key, po_ChatID = chatID, po_AppVersion = ue_appVersion E,
      po_MediaID = ue_millis E (length (lk_sent (up_link U)))\<rparr>"

definition session_SendImage :: "upload_env \<Rightarrow> int64 \<Rightarrow> byte list \<Rightarrow> string \<Rightarrow> uploads \<Rightarrow> SendResult result \<times> uploads" where
  "session_SendImage E chatID data caption U =
     (if \<not> ValidCaption caption then (Inl media_ErrInvalidCaption, U)
      else (case PrepareImage (ue_lib E) data of
              Inl e \<Rightarrow> (Inl e, U)
            | Inr img \<Rightarrow>
                (case ShipRequest_MarshalBSON (ue_bson E) chatID img of
                   Inl e \<Rightarrow> (Inl e, U)
                 | Inr shipBody \<Rightarrow>
                     trailerUpload E shipBody (im_Data img)
                       (\<lambda>key. PostRequest_MarshalBSON (ue_bson E) (postRequest E chatID U key) img caption) U)))"

definition session_SendUpload :: "upload_env \<Rightarrow> int64 \<Rightarrow> Upload \<Rightarrow> uploads \<Rightarrow> SendResult result \<times> uploads" where
  "session_SendUpload E chatID upload U =
     (case UploadShipRequest_MarshalBSON (ue_bson E) chatID upload of
        Inl e \<Rightarrow> (Inl e, U)
      | Inr shipBody \<Rightarrow>
          trailerUpload E shipBody (ul_Data upload)
            (\<lambda>key. UploadPostRequest_MarshalBSON (ue_bson E) (postRequest E chatID U key) upload) U)"

subsection \<open>Sending an album\<close>

fun prepareAll :: "media_lib \<Rightarrow> byte list list \<Rightarrow> Image list result" where
  "prepareAll L [] = Inr []"
| "prepareAll L (data # photos) =
     (case PrepareImage L data of
        Inl e \<Rightarrow> Inl e
      | Inr img \<Rightarrow> (case prepareAll L photos of Inl e \<Rightarrow> Inl e | Inr images \<Rightarrow> Inr (img # images)))"

definition notCreated :: "go_error \<Rightarrow> go_error" where "notCreated e = Joined [ErrAlbumNotCreated, e]"

fun postPhotos :: "upload_env \<Rightarrow> (Image \<times> string) list \<Rightarrow> uploads \<Rightarrow> go_error option \<times> uploads" where
  "postPhotos E [] U = (None, U)"
| "postPhotos E ((img, key) # photos) U =
     (case AlbumPostRequest_MarshalBSON (ue_bson E) (ue_userID E) key img (ue_appVersion E) of
        Inl e \<Rightarrow> (Some (notCreated e), U)
      | Inr postBody \<Rightarrow>
          (case openUpload E ''MPOST'' postBody (im_Data img) U of
             (Inl e, U1) \<Rightarrow> (Some (notCreated e), U1)
           | (Inr complete, U1) \<Rightarrow>
               if loco_Status (ue_bson E) (pk_Body complete) \<noteq> Inr 0 then (Some (notCreated (Other ''COMPLETE status'')), U1)
               else postPhotos E photos U1))"

definition albumWrite :: "upload_env \<Rightarrow> int64 \<Rightarrow> Image list \<Rightarrow> AlbumShipResponse \<Rightarrow> string \<Rightarrow> raw result" where
  "albumWrite E chatID images ship caption =
     (case AlbumWriteExtra images ship caption of
        Inl e \<Rightarrow> Inl (notCreated e)
      | Inr extra \<Rightarrow>
          (case WriteRequest_MarshalBSON (ue_bson E)
                  \<lparr>wr_ChatID = chatID, wr_MessageID = 0, wr_Scope = 0, wr_ThreadID = 0, wr_Message = [], wr_Type = MultiPhoto,
                   wr_NoSeen = False, wr_NoLight = False, wr_Extra = extra, wr_Supplement = [], wr_Silence = False,
                   wr_FeatureStat = []\<rparr> of
             Inl e \<Rightarrow> Inl (notCreated e)
           | Inr body \<Rightarrow> Inr body))"

definition session_SendAlbum ::
    "upload_env \<Rightarrow> int64 \<Rightarrow> byte list list \<Rightarrow> string \<Rightarrow> uploads \<Rightarrow> raw WriteResponse result \<times> uploads" where
  "session_SendAlbum E chatID photos caption U =
     (case prepareAll (ue_lib E) photos of
        Inl e \<Rightarrow> (Inl e, U)
      | Inr images \<Rightarrow>
          (case AlbumShipRequest_MarshalBSON (ue_bson E) chatID images of
             Inl e \<Rightarrow> (Inl e, U)
           | Inr shipBody \<Rightarrow>
               if \<not> ValidCaption caption then (Inl media_ErrInvalidCaption, U)
               else
                 (case sessionRequest E ''MSHIP'' shipBody U of
                    (Inl e, U1) \<Rightarrow> (Inl (notCreated e), U1)
                  | (Inr reply, U1) \<Rightarrow>
                      (case DecodeAlbumShipResponse (ue_bson E) reply (length images) of
                         Inl e \<Rightarrow> (Inl (notCreated e), U1)
                       | Inr ship \<Rightarrow>
                           (case postPhotos E (zip images (as_Keys ship)) U1 of
                              (Some e, U2) \<Rightarrow> (Inl e, U2)
                            | (None, U2) \<Rightarrow>
                                (case albumWrite E chatID images ship caption of
                                   Inl e \<Rightarrow> (Inl e, U2)
                                 | Inr body \<Rightarrow>
                                     (case sessionRequest E ''WRITE'' body U2 of
                                        (Inl e, U3) \<Rightarrow> (Inl e, U3)
                                      | (Inr written, U3) \<Rightarrow> (DecodeWriteResponse (ue_bson E) written, U3))))))))"

subsection \<open>The alternate upload\<close>

definition safeDirectValue :: "string \<Rightarrow> bool" where
  "safeDirectValue s \<longleftrightarrow> s \<noteq> [] \<and> length s \<le> 16384 \<and> validString s \<and> nul \<notin> set s \<and> CHR 0x0D \<notin> set s \<and> CHR 0x0A \<notin> set s"

definition ImageDirectMedia :: "Image \<Rightarrow> DirectMedia" where
  "ImageDirectMedia img =
     \<lparr>dm_MediaType = ''image'', dm_Extension = im_Extension img,
      dm_MIMEType = (if im_Extension img = ''png'' then ''image/png'' else ''image/jpeg''), dm_Data = im_Data img\<rparr>"

definition directVideoMIME :: "(string \<times> string) list" where
  "directVideoMIME =
     [(''ts'', ''video/mp2t''), (''ogv'', ''video/ogg''), (''flv'', ''video/x-flv''), (''mov'', ''video/quicktime''),
      (''mp4'', ''video/mp4''), (''mpeg'', ''video/mpeg''), (''mpg'', ''video/mpeg''), (''mkv'', ''video/x-matroska''),
      (''wmv'', ''video/x-ms-wmv''), (''asf'', ''video/x-ms-asf''), (''avi'', ''video/x-msvideo''), (''m4v'', ''video/x-m4v'')]"

definition UploadDirectMedia :: "Upload \<Rightarrow> DirectMedia result" where
  "UploadDirectMedia upload =
     (if \<not> Upload_valid upload then Inl media_ErrInvalidUpload
      else if ul_Extension upload = [] then Inl media_ErrUploadRedirect
      else Inr \<lparr>dm_MediaType = (if ul_Type upload = Video then ''video'' else ''file''), dm_Extension = ul_Extension upload,
                dm_MIMEType = (case (if ul_Type upload = Video then map_of directVideoMIME (ul_Extension upload) else None) of
                                 Some mime \<Rightarrow> mime | None \<Rightarrow> ''application/octet-stream''),
                dm_Data = ul_Data upload\<rparr>)"

definition writable :: "DirectTicket \<Rightarrow> bool" where
  "writable t \<longleftrightarrow> safeDirectValue (dt_Resource t) \<and> safeDirectValue (dt_UploadKey t) \<and> dt_ResourceType t = ''vk''"

definition directWrite ::
    "raw bson \<Rightarrow> int64 \<Rightarrow> int64 \<Rightarrow> int64 \<Rightarrow> string \<Rightarrow> (string \<times> raw field) list \<Rightarrow> string \<Rightarrow> raw result" where
  "directWrite B chatID messageID messageType mediaKey media caption =
     (case bsonMarshal B media of
        Inl e \<Rightarrow> Inl e
      | Inr resource \<Rightarrow>
          bsonMarshal B
            ([(''chatId'', FInt64 chatID), (''msgId'', FInt64 messageID), (''scope'', FInt32 1), (''type'', FInt32 messageType),
              (''noSeen'', FBool False), (''noLight'', FBool False), (''silence'', FBool False), (mediaKey, FDoc resource)]
             @ (if caption = [] then [] else [(''extra'', FString (commentExtra caption))])))"

definition ticketFields :: "DirectTicket \<Rightarrow> (string \<times> raw field) list" where
  "ticketFields t = [(''resource'', FString (dt_Resource t)), (''resourceType'', FString (dt_ResourceType t)), (''hfac'', FString (dt_UploadKey t))]"

definition DirectPhotoWriteRequest_MarshalBSON ::
    "raw bson \<Rightarrow> int64 \<Rightarrow> int64 \<Rightarrow> Image \<Rightarrow> DirectTicket \<Rightarrow> string \<Rightarrow> raw result" where
  "DirectPhotoWriteRequest_MarshalBSON B chatID messageID img ticket caption =
     (if chatID \<le> 0 \<or> messageID < 0 \<or> im_Width img \<le> 0 \<or> im_Height img \<le> 0 \<or> \<not> writable ticket then Inl media_ErrInvalidImage
      else if \<not> ValidCaption caption then Inl media_ErrInvalidCaption
      else directWrite B chatID messageID Photo ''photo''
             (ticketFields ticket @ [(''width'', FInt32 (im_Width img)), (''height'', FInt32 (im_Height img))]) caption)"

text \<open>\<open>strings.ToLower\<close> of a hexadecimal checksum.\<close>

definition lowerHex :: "string \<Rightarrow> string" where
  "lowerHex s = map (\<lambda>c. let n = (of_char c :: nat) in if 65 \<le> n \<and> n \<le> 90 then char_of (n + 32) else c) s"

definition DirectUploadWriteRequest_MarshalBSON ::
    "raw bson \<Rightarrow> int64 \<Rightarrow> int64 \<Rightarrow> Upload \<Rightarrow> DirectTicket \<Rightarrow> raw result" where
  "DirectUploadWriteRequest_MarshalBSON B chatID messageID upload ticket =
     (if chatID \<le> 0 \<or> messageID < 0 \<or> \<not> Upload_valid upload \<or> \<not> writable ticket then Inl media_ErrInvalidUpload
      else if ul_Type upload = Video
      then (if \<not> ValidCaption (ul_Comment upload) then Inl media_ErrInvalidCaption
            else directWrite B chatID messageID Video ''video'' (ticketFields ticket) (ul_Comment upload))
      else if ul_Type upload = File
      then (if ul_Comment upload \<noteq> [] then Inl media_ErrCaptionNotSupported
            else directWrite B chatID messageID File ''file''
                   (ticketFields ticket @ [(''name'', FString (ul_Name upload)), (''checksum'', FString (lowerHex (ul_Checksum upload)))]) [])
      else Inl media_ErrInvalidUpload)"

definition DecodeDirectWrite :: "raw bson \<Rightarrow> raw \<Rightarrow> int64 \<Rightarrow> SendResult result" where
  "DecodeDirectWrite B body chatID =
     (if Int64 B media_fields body [''chatId''] \<noteq> Inr (Some chatID) then Inl media_ErrInvalidResponse
      else (case Document B media_fields body [''chatLog''] of
              Inl _ \<Rightarrow> Inl media_ErrInvalidResponse
            | Inr log \<Rightarrow>
                let result = Some (case log of None \<Rightarrow> body | Some log \<Rightarrow> log)
                in case SendResultPosition B result of Inl _ \<Rightarrow> Inl media_ErrInvalidResponse | Inr _ \<Rightarrow> Inr result))"

definition directSend ::
    "upload_env \<Rightarrow> int64 \<Rightarrow> DirectMedia \<Rightarrow> (go_error \<Rightarrow> go_error) \<Rightarrow> (DirectTicket \<Rightarrow> raw result) \<Rightarrow> uploads \<Rightarrow> SendResult result \<times> uploads" where
  "directSend E chatID m fail write U =
     (case ue_prepare E chatID m of
        Inl e \<Rightarrow> (Inl (fail e), U)
      | Inr ticket \<Rightarrow>
          (case write ticket of
             Inl e \<Rightarrow> (Inl (fail e), U)
           | Inr body \<Rightarrow>
               (case ue_direct E ticket m of
                  Some e \<Rightarrow> (Inl (fail e), U)
                | None \<Rightarrow>
                    (case (if dt_NeedReady ticket then ue_ready E ticket else None) of
                       Some e \<Rightarrow> (Inl (fail e), U)
                     | None \<Rightarrow>
                         (case sessionRequest E ''WRITEMEDIA'' body U of
                            (Inl e, U1) \<Rightarrow> (Inl e, U1)
                          | (Inr reply, U1) \<Rightarrow> (DecodeDirectWrite (ue_bson E) reply chatID, U1))))))"

definition photoNotCreated :: "go_error \<Rightarrow> go_error" where "photoNotCreated e = Joined [ErrPhotoNotCreated, e]"

definition directPhoto :: "upload_env \<Rightarrow> int64 \<Rightarrow> byte list \<Rightarrow> string \<Rightarrow> uploads \<Rightarrow> SendResult result \<times> uploads" where
  "directPhoto E chatID data caption U =
     (case PrepareImage (ue_lib E) data of
        Inl e \<Rightarrow> (Inl (photoNotCreated e), U)
      | Inr img \<Rightarrow>
          directSend E chatID (ImageDirectMedia img) photoNotCreated
            (\<lambda>ticket. DirectPhotoWriteRequest_MarshalBSON (ue_bson E) chatID (ue_millis E (length (lk_sent (up_link U)))) img ticket caption) U)"

definition directUpload :: "upload_env \<Rightarrow> int64 \<Rightarrow> Upload \<Rightarrow> uploads \<Rightarrow> SendResult result \<times> uploads" where
  "directUpload E chatID upload U =
     (case UploadDirectMedia upload of
        Inl e \<Rightarrow> (Inl (notSent e), U)
      | Inr m \<Rightarrow>
          directSend E chatID m notSent
            (\<lambda>ticket. DirectUploadWriteRequest_MarshalBSON (ue_bson E) chatID (ue_millis E (length (lk_sent (up_link U)))) upload ticket) U)"

subsection \<open>The client's sends\<close>

definition onSession :: "upload_env \<Rightarrow> (uploads \<Rightarrow> 'a result \<times> uploads) \<Rightarrow> uploads \<Rightarrow> 'a result \<times> uploads" where
  "onSession E fn U =
     (let U1 = U\<lparr>up_link := (up_link U)\<lparr>lk_calls := lk_calls (up_link U) + 1\<rparr>\<rparr>
      in case lk_session (ue_link E) (lk_calls (up_link U)) of Some e \<Rightarrow> (Inl e, U1) | None \<Rightarrow> fn U1)"

definition redirected :: "'a result \<Rightarrow> bool" where
  "redirected r = (case r of Inl e \<Rightarrow> errors_Is e media_ErrUploadRedirect | Inr _ \<Rightarrow> False)"

definition SendImage :: "upload_env \<Rightarrow> int64 \<Rightarrow> byte list \<Rightarrow> string \<Rightarrow> uploads \<Rightarrow> SendResult result \<times> uploads" where
  "SendImage E chatID data caption =
     onSession E (\<lambda>U. case session_SendImage E chatID data caption U of
       (r, U1) \<Rightarrow> if \<not> redirected r then (r, U1) else directPhoto E chatID data caption U1)"

definition SendUpload :: "upload_env \<Rightarrow> int64 \<Rightarrow> Upload \<Rightarrow> uploads \<Rightarrow> SendResult result \<times> uploads" where
  "SendUpload E chatID upload =
     onSession E (\<lambda>U. case session_SendUpload E chatID upload U of
       (r, U1) \<Rightarrow> if \<not> redirected r then (r, U1) else directUpload E chatID upload U1)"

definition SendAlbum :: "upload_env \<Rightarrow> int64 \<Rightarrow> byte list list \<Rightarrow> string \<Rightarrow> uploads \<Rightarrow> raw WriteResponse result \<times> uploads" where
  "SendAlbum E chatID photos caption = onSession E (session_SendAlbum E chatID photos caption)"

subsection \<open>Errors of the outside\<close>

text \<open>
  An error that a connection reports is foreign: it is none of the sentinels by which the client marks what
  certainly created no message, and no status of the server.
\<close>

definition foreign :: "go_error \<Rightarrow> bool" where
  "foreign e \<longleftrightarrow> \<not> errors_Is e ErrUploadNotSent \<and> \<not> errors_Is e ErrPhotoNotCreated \<and> \<not> errors_Is e ErrAlbumNotCreated
     \<and> \<not> errors_Is e media_ErrUploadRedirect \<and> \<not> errors_Is e media_ErrUploadFiltered \<and> asStatus e = None"

lemma foreign_simps [simp]:
  "foreign (LocoErr l)" "foreign (Io i)" "foreign (ErrProtocolAt c f)" "foreign (Other t)" "foreign (Joined [e]) = foreign e"
  "foreign media_ErrInvalidResponse" "foreign media_ErrInvalidOffset"
  by (simp_all add: foreign_def errors_Is.simps asStatus.simps)

lemma ParseHeader_foreign: "ParseHeader raw0 limit = Inl e \<Longrightarrow> foreign e"
  by (auto simp: ParseHeader_def Let_def split: if_splits option.splits)

lemma Next_foreign: "Next p = (Inl e, p') \<Longrightarrow> foreign e"
  by (auto simp: Next_def next_frame_def takeBody_def Let_def split: if_splits sum.splits option.splits prod.splits
      dest: ParseHeader_foreign)

lemma ReadFull_foreign: "ReadFull fin n s = (Inl e, s') \<Longrightarrow> foreign fin \<Longrightarrow> foreign e"
  by (auto simp: ReadFull_def split: if_splits)

lemma Decrypt_foreign: "Decrypt unseal sv body = Inl e \<Longrightarrow> foreign e"
  by (auto simp: Decrypt_def Let_def split: if_splits option.splits)

lemma Append_foreign: "Append p bytes = (Some e, p') \<Longrightarrow> foreign e"
  by (auto simp: Append_def Let_def split: if_splits)

lemma Encrypt_foreign: "Encrypt seal random s plaintext = Inl e \<Longrightarrow> foreign e"
  by (auto simp: Encrypt_def Let_def split: if_splits option.splits)

lemma ReadFull_shorter: "ReadFull fin n s = (Inr b, s') \<Longrightarrow> 0 < n \<Longrightarrow> length s' < length s"
  by (auto simp: ReadFull_def split: if_splits)

lemma readSecure_foreign: "readSecure unseal sv fin p s = (Inl e, p', s') \<Longrightarrow> foreign fin \<Longrightarrow> foreign e"
proof (induction "length s" arbitrary: p s rule: less_induct)
  case less
  have again: "foreign e" if "ReadFull fin 4 s = (Inr pre, s1)" "readSecure unseal sv fin q s1 = (Inl e, p', s')" for pre s1 q
    using less.hyps [OF _ that(2)] ReadFull_shorter [OF that(1)] less.prems(2) by simp
  have later: "foreign e" if "ReadFull fin 4 s = (Inr pre, s1)" "ReadFull fin n s1 = (Inr body, s2)"
      "readSecure unseal sv fin q s2 = (Inl e, p', s')" for pre s1 n body s2 q
    using less.hyps [OF _ that(3)] ReadFull_shorter [OF that(1)] that(2) less.prems(2) by (auto simp: ReadFull_def split: if_splits)
  from less.prems(1) [unfolded readSecure.simps [of unseal sv fin p s]] less.prems(2) show ?case
    by (auto simp: Let_def split: prod.splits sum.splits option.splits if_splits
        dest: Next_foreign ReadFull_foreign Decrypt_foreign Append_foreign again later)
qed

lemma readPlain_foreign: "readPlain fin s = (Inl e, s') \<Longrightarrow> foreign fin \<Longrightarrow> foreign e"
  by (auto simp: readPlain_def split: prod.splits sum.splits dest: ReadFull_foreign ParseHeader_foreign)

lemma read_wire_foreign: "read_wire unseal w = (r, w') \<Longrightarrow> foreign (wc_end w) \<Longrightarrow> wc_end w' = wc_end w \<and> (\<forall>e. r = Inl e \<longrightarrow> foreign e)"
  by (auto simp: read_wire_def readFrame_def Let_def split: prod.splits sum.splits option.splits
      dest: readPlain_foreign readSecure_foreign)

subsection \<open>What an upload streams\<close>

definition foreignConn :: "media_conn \<Rightarrow> bool" where
  "foreignConn C \<longleftrightarrow> (case mc_dial C of Inl e \<Rightarrow> foreign e | Inr w \<Rightarrow> foreign (wc_end w))
     \<and> (\<forall>e. mc_postWrite C = Some e \<longrightarrow> foreign e) \<and> (\<forall>i e. snd (mc_write C i) = Some e \<longrightarrow> foreign e)"

text \<open>An upload that reports that it was not sent, for a reason other than a redirect.\<close>

definition unsent :: "go_error \<Rightarrow> bool" where
  "unsent e \<longleftrightarrow> (\<exists>e'. e = notSent e' \<and> \<not> errors_Is e' media_ErrUploadRedirect)"

lemma unsent_notSent [simp]: "foreign e \<Longrightarrow> unsent (notSent e)" "unsent (notSent (StatusError c s))"
  by (auto simp: unsent_def foreign_def errors_Is.simps)

lemma writeAllCount_spec:
  "writeAllCount wr i data = (n, r, j) \<Longrightarrow> \<forall>k e. snd (wr k) = Some e \<longrightarrow> foreign e \<Longrightarrow>
   n \<le> length data \<and> (r = None \<longrightarrow> n = length data) \<and> (\<forall>e. r = Some e \<longrightarrow> foreign e)"
proof (induction wr i data arbitrary: n r j rule: writeAllCount.induct)
  case (1 wr i data)
  show ?case
  proof (cases "data = []")
    case True
    then show ?thesis using "1.prems"(1) by (simp add: writeAllCount.simps)
  next
    case False
    obtain accepted err where w: "wr i = (accepted, err)" by fastforce
    obtain m r' j' where m: "writeAllCount wr (i + 1) (drop (min accepted (length data)) data) = (m, r', j')"
      using prod_cases3 by blast
    have f: "err = Some e \<Longrightarrow> foreign e" for e using "1.prems"(2) w by (metis snd_conv)
    show ?thesis
    proof (cases "err = None \<and> min accepted (length data) \<noteq> 0")
      case True
      note n = True
      have "(n, r, j) = (min accepted (length data) + m, r', j')"
        using "1.prems"(1) False w m n by (simp add: writeAllCount.simps [of wr i data] Let_def)
      moreover have "m \<le> length data - min accepted (length data) \<and> (r' = None \<longrightarrow> m = length data - min accepted (length data))
          \<and> (\<forall>e. r' = Some e \<longrightarrow> foreign e)"
        using "1.IH" [OF False w [symmetric] refl _ _ m "1.prems"(2)] n by simp
      ultimately show ?thesis by auto
    next
      case stop: False
      then show ?thesis using "1.prems"(1) False w f by (auto simp: writeAllCount.simps [of wr i data] Let_def split: option.splits)
    qed
  qed
qed

lemma streamLoop_step:
  assumes "rest \<noteq> []" "Encrypt seal (mc_nonce C i) secure (take mediaStreamChunk rest) = Inr encrypted"
    and "writeAllCount (mc_write C) j encrypted = (written, None, k)"
  shows "streamLoop seal C secure streamed i j rest out
    = streamLoop seal C secure True (i + 1) k (drop mediaStreamChunk rest) (out @ [encrypted])"
proof -
  have "take (min (length rest) mediaStreamChunk) rest = take mediaStreamChunk rest"
    "drop (min (length rest) mediaStreamChunk) rest = drop mediaStreamChunk rest" by (simp_all add: min_def)
  then show ?thesis using assms by (simp add: streamLoop.simps [of seal C secure streamed i j rest out] Let_def)
qed

lemma streamLoop_stop:
  assumes "rest \<noteq> []" "\<And>encrypted. Encrypt seal (mc_nonce C i) secure (take mediaStreamChunk rest) = Inr encrypted \<Longrightarrow>
      \<exists>written e k. writeAllCount (mc_write C) j encrypted = (written, Some e, k)"
    and "foreignConn C" "\<not> streamed \<longrightarrow> concat out = []"
  shows "\<exists>e out'. streamLoop seal C secure streamed i j rest out = (Some e, out') \<and> (unsent e \<and> concat out' = [] \<or> foreign e)"
proof -
  have t: "take (min (length rest) mediaStreamChunk) rest = take mediaStreamChunk rest" by (simp add: min_def)
  have f: "\<forall>k e. snd (mc_write C k) = Some e \<longrightarrow> foreign e" using assms(3) by (simp add: foreignConn_def)
  show ?thesis
  proof (cases "Encrypt seal (mc_nonce C i) secure (take mediaStreamChunk rest)")
    case (Inl e)
    then show ?thesis using assms(1,4) t Encrypt_foreign [OF Inl]
      by (cases streamed) (auto simp: streamLoop.simps [of seal C secure _ i j rest out] Let_def)
  next
    case (Inr encrypted)
    from assms(2) [OF this] obtain written e k where w: "writeAllCount (mc_write C) j encrypted = (written, Some e, k)" by blast
    with writeAllCount_spec [OF w f] show ?thesis
      using assms(1,4) t Inr by (cases streamed) (auto simp: streamLoop.simps [of seal C secure _ i j rest out] Let_def)
  qed
qed

lemma streamLoop_error:
  assumes "foreignConn C"
  shows "streamLoop seal C secure streamed i j rest out = (Some e, out') \<Longrightarrow> \<not> streamed \<longrightarrow> concat out = [] \<Longrightarrow>
    unsent e \<and> concat out' = [] \<or> foreign e"
proof (induction "length rest" arbitrary: streamed i j rest out rule: less_induct)
  case less
  have ne: "rest \<noteq> []" using less.prems(1) by (auto simp: streamLoop.simps)
  show ?case
  proof (cases "\<exists>encrypted written k. Encrypt seal (mc_nonce C i) secure (take mediaStreamChunk rest) = Inr encrypted
      \<and> writeAllCount (mc_write C) j encrypted = (written, None, k)")
    case True
    then obtain encrypted written k where ok: "Encrypt seal (mc_nonce C i) secure (take mediaStreamChunk rest) = Inr encrypted"
      "writeAllCount (mc_write C) j encrypted = (written, None, k)" by blast
    show ?thesis
      by (rule less.hyps [of "drop mediaStreamChunk rest" True])
        (use ne less.prems(1) streamLoop_step [OF ne ok] in \<open>simp_all add: mediaStreamChunk_def\<close>)
  next
    case False
    then have "\<exists>written e k. writeAllCount (mc_write C) j encrypted = (written, Some e, k)"
      if "Encrypt seal (mc_nonce C i) secure (take mediaStreamChunk rest) = Inr encrypted" for encrypted
      using that by (metis option.exhaust prod_cases3)
    from streamLoop_stop [OF ne this assms less.prems(2)] less.prems(1) show ?thesis by fastforce
  qed
qed

lemma streamLoop_ok:
  assumes "foreignConn C"
  shows "streamLoop seal C secure streamed i j rest out = (None, out') \<Longrightarrow> \<not> streamed \<longrightarrow> concat out = [] \<Longrightarrow>
    \<exists>chunks pieces. out' = out @ pieces \<and> concat chunks = rest
      \<and> list_all2 (\<lambda>chunk piece. \<exists>i. Encrypt seal (mc_nonce C i) secure chunk = Inr piece) chunks pieces
      \<and> (\<forall>chunk\<in>set chunks. chunk \<noteq> [] \<and> length chunk \<le> mediaStreamChunk)"
proof (induction "length rest" arbitrary: streamed i j rest out rule: less_induct)
  case less
  show ?case
  proof (cases "rest = []")
    case True
    then show ?thesis using less.prems(1) by (intro exI [of _ "[]"]) (simp add: streamLoop.simps)
  next
    case ne: False
    show ?thesis
    proof (cases "\<exists>encrypted written k. Encrypt seal (mc_nonce C i) secure (take mediaStreamChunk rest) = Inr encrypted
        \<and> writeAllCount (mc_write C) j encrypted = (written, None, k)")
      case True
      then obtain encrypted written k where ok: "Encrypt seal (mc_nonce C i) secure (take mediaStreamChunk rest) = Inr encrypted"
        "writeAllCount (mc_write C) j encrypted = (written, None, k)" by blast
      have "\<exists>chunks pieces. out' = (out @ [encrypted]) @ pieces \<and> concat chunks = drop mediaStreamChunk rest
          \<and> list_all2 (\<lambda>chunk piece. \<exists>i. Encrypt seal (mc_nonce C i) secure chunk = Inr piece) chunks pieces
          \<and> (\<forall>chunk\<in>set chunks. chunk \<noteq> [] \<and> length chunk \<le> mediaStreamChunk)"
        by (rule less.hyps [of "drop mediaStreamChunk rest" True])
          (use ne less.prems(1) streamLoop_step [OF ne ok] in \<open>simp_all add: mediaStreamChunk_def\<close>)
      then obtain chunks pieces where "out' = (out @ [encrypted]) @ pieces" "concat chunks = drop mediaStreamChunk rest"
        "list_all2 (\<lambda>chunk piece. \<exists>i. Encrypt seal (mc_nonce C i) secure chunk = Inr piece) chunks pieces"
        "\<forall>chunk\<in>set chunks. chunk \<noteq> [] \<and> length chunk \<le> mediaStreamChunk" by blast
      then show ?thesis
        using ok ne by (intro exI [of _ "take mediaStreamChunk rest # chunks"] exI [of _ "encrypted # pieces"])
          (auto simp: mediaStreamChunk_def)
    next
      case False
      then have "\<exists>written e k. writeAllCount (mc_write C) j encrypted = (written, Some e, k)"
        if "Encrypt seal (mc_nonce C i) secure (take mediaStreamChunk rest) = Inr encrypted" for encrypted
        using that by (metis option.exhaust prod_cases3)
      from streamLoop_stop [OF ne this assms less.prems(2)] less.prems(1) show ?thesis by fastforce
    qed
  qed
qed

lemma awaitReply_foreign:
  "awaitReply unseal packetID command n w = (r, pending, w') \<Longrightarrow> foreign (wc_end w) \<Longrightarrow>
   wc_end w' = wc_end w \<and> (\<forall>e. r = Inl e \<longrightarrow> foreign e)"
proof (induction n arbitrary: w r pending w')
  case (Suc n)
  obtain x w1 where x: "read_wire unseal w = (x, w1)" by fastforce
  note f = read_wire_foreign [OF x Suc.prems(2)]
  show ?case
  proof (cases x)
    case (Inl e)
    then show ?thesis using Suc.prems(1) x f by simp
  next
    case (Inr packet)
    obtain r2 u2 w2 where again: "awaitReply unseal packetID command n w1 = (r2, u2, w2)" using prod_cases3 by blast
    then have "wc_end w2 = wc_end w1 \<and> (\<forall>e. r2 = Inl e \<longrightarrow> foreign e)" using Suc.IH [OF again] f Suc.prems(2) by simp
    then show ?thesis using Suc.prems(1) x Inr f again by (auto split: if_splits)
  qed
qed auto

lemma encodeRequest_foreign: "encodeRequest seal random secure packetID command body = Inl e \<Longrightarrow> foreign e"
  by (auto simp: encodeRequest_def Packet_MarshalBinary_def Header_MarshalBinary_def Let_def split: sum.splits if_splits
      dest: Encrypt_foreign)

lemma wire_request_foreign:
  assumes "wire_request seal unseal random writeErr packetID command body w = (r, pending, w')" "foreign (wc_end w)"
    and "\<forall>e. writeErr = Some e \<longrightarrow> foreign e"
  shows "wc_end w' = wc_end w \<and> (\<forall>e. r = Inl e \<longrightarrow> foreign e)"
  using assms awaitReply_foreign by (auto simp: wire_request_def split: sum.splits option.splits dest: encodeRequest_foreign)

lemma awaitComplete_spec:
  "foreign (wc_end w) \<Longrightarrow> (case awaitComplete unseal n w of Inl e \<Rightarrow> foreign e | Inr packet \<Rightarrow> Method (pk_Header packet) = CompleteCommand)"
proof (induction n arbitrary: w)
  case (Suc n)
  obtain x w1 where x: "read_wire unseal w = (x, w1)" by fastforce
  note f = read_wire_foreign [OF x Suc.prems]
  from Suc.IH [of w1] Suc.prems f show ?case by (cases x) (auto simp: x)
qed simp

lemma completion_spec:
  "foreign (wc_end w) \<Longrightarrow> (case completion unseal pending w of Inl e \<Rightarrow> foreign e | Inr packet \<Rightarrow> Method (pk_Header packet) = CompleteCommand)"
  using awaitComplete_spec [of w unseal requestLimit]
  by (auto simp: completion_def find_Some_iff split: option.splits)

lemma postMedia_spec:
  assumes "foreignConn C"
  shows "case postMedia B seal unseal C command postBody n of
      Inl e \<Rightarrow> unsent e | Inr (offset, pending, w) \<Rightarrow> offset \<le> n \<and> foreign (wc_end w)"
proof (cases "mc_dial C")
  case (Inl e)
  then show ?thesis using assms by (auto simp: postMedia_def foreignConn_def)
next
  case (Inr upload)
  have up: "foreign (wc_end upload)" using assms Inr by (simp add: foreignConn_def)
  obtain r pending w where q: "wire_request seal unseal (mc_postNonce C) (mc_postWrite C) 1 (bytesOf command) postBody upload = (r, pending, w)"
    using prod_cases3 by blast
  have "\<forall>e. mc_postWrite C = Some e \<longrightarrow> foreign e" using assms unfolding foreignConn_def by blast
  from wire_request_foreign [OF q up this] show ?thesis
    using up Inr q by (auto simp: postMedia_def DecodePostOffset_def split: sum.splits option.splits if_splits)
qed

lemma upload_error:
  assumes "foreignConn C" "uploadToMediaServer B seal unseal C command postBody data = (Inl e, out)"
  shows "unsent e \<and> concat out = [] \<or> foreign e"
proof (cases "postMedia B seal unseal C command postBody (length data)")
  case (Inl e')
  then show ?thesis using assms(2) postMedia_spec [OF assms(1), where n = "length data" and B = B and seal = seal and unseal = unseal and command = command and postBody = postBody]
    by (simp add: uploadToMediaServer_def)
next
  case (Inr posted)
  obtain offset pending w where p: "posted = (offset, pending, w)" using prod_cases3 by blast
  have f: "foreign (wc_end w)" using postMedia_spec [OF assms(1), where n = "length data" and B = B and seal = seal and unseal = unseal and command = command and postBody = postBody] Inr p by simp
  obtain r out' where s: "streamLoop seal C (wc_secure w) False 0 0 (drop offset data) [] = (r, out')" by fastforce
  show ?thesis
  proof (cases r)
    case None
    then show ?thesis using assms(2) Inr p s completion_spec [OF f, of unseal pending]
      by (auto simp: uploadToMediaServer_def split: sum.splits)
  next
    case (Some e')
    then show ?thesis using assms(2) Inr p s streamLoop_error [OF assms(1), of seal "wc_secure w" False 0 0 "drop offset data" "[]" e' out']
      by (simp add: uploadToMediaServer_def)
  qed
qed


text \<open>A media server that answers the POST without an offset and then completes the upload of one byte.\<close>

definition sampleReply :: "byte list \<Rightarrow> Packet" where
  "sampleReply command = \<lparr>pk_Header = \<lparr>PacketID = 1, Status = 0, Method = command, BodyType = 0, BodyLen = 5\<rparr>, pk_Body = [5, 0, 0, 0, 0]\<rparr>"

definition sampleBson :: "raw bson" where
  "sampleBson = \<lparr>bs_Validate = (\<lambda>_. True), bs_LookupErr = (\<lambda>_ k. if k = ''status'' then Some (VInt32 0) else None),
     bs_Values = (\<lambda>_. None), bs_Elements = (\<lambda>_. None), bs_Marshal = (\<lambda>_. Some [0]), bs_MarshalRaw = (\<lambda>_. None)\<rparr>"

definition sampleUploadConn :: "byte list \<Rightarrow> media_conn" where
  "sampleUploadConn stream =
     \<lparr>mc_dial = Inr \<lparr>wc_stream = stream, wc_end = io_EOF, wc_secure = Some sampleSecure, wc_producer = None, wc_observed = None, wc_written = []\<rparr>,
      mc_postNonce = Some (replicate 12 1), mc_postWrite = None, mc_nonce = (\<lambda>_. Some (replicate 12 1)), mc_write = (\<lambda>_. (100, None))\<rparr>"

lemma sampleReply_marshal:
  "command = bytesOf ''POST'' \<or> command = CompleteCommand \<Longrightarrow> \<exists>f. Packet_MarshalBinary (sampleReply command) 0 = Inr f \<and> length f = 27
     \<and> onWire (sampleReply command) = sampleReply command"
  by (auto simp: sampleReply_def Packet_MarshalBinary_def Header_MarshalBinary_def DefaultMaxBody_def MethodFieldSize_def Let_def
      bytesOf_def CompleteCommand_def onWire_def go_copy_def)

lemma sampleUpload:
  "\<exists>stream out. uploadToMediaServer sampleBson toySeal toyUnseal (sampleUploadConn stream) ''POST'' [0] [7]
     = (Inr (sampleReply CompleteCommand), out) \<and> concat out \<noteq> []"
proof -
  obtain f1 f2 where f: "Packet_MarshalBinary (sampleReply (bytesOf ''POST'')) 0 = Inr f1" "length f1 = 27"
    "Packet_MarshalBinary (sampleReply CompleteCommand) 0 = Inr f2" "length f2 = 27"
    "onWire (sampleReply (bytesOf ''POST'')) = sampleReply (bytesOf ''POST'')" "onWire (sampleReply CompleteCommand) = sampleReply CompleteCommand"
    using sampleReply_marshal by blast
  let ?s = "sampleEnvelope (f1 @ f2)"
  let ?u = "\<lparr>wc_stream = ?s, wc_end = io_EOF, wc_secure = Some sampleSecure, wc_producer = None, wc_observed = None, wc_written = []\<rparr>"
  have sec: "sv_maxSize sampleSecure = DefaultMaxCiphertext" by (simp add: sampleSecure_def)
  have env: "list_all2 (envelopeOf toySeal sampleSecure) [f1 @ f2] [?s]" using f by (simp add: sampleEnvelope)
  from readSecure_packet [OF toy_aead sec f(1) env resumes_refl [OF idle_simps(1)], of f2 io_EOF] obtain p1 q1 chunks1 envs1 where
    r1: "readSecure toyUnseal sampleSecure io_EOF (NewProducer 0 0) ?s = (Inr (sampleReply (bytesOf ''POST'')), p1, concat envs1)"
      "resumes p1 q1" "list_all2 (envelopeOf toySeal sampleSecure) chunks1 envs1" "buffer q1 @ concat chunks1 = f2"
    using f(5) by (auto simp: NewProducer_def)
  from readSecure_packet [OF toy_aead sec f(3) r1(3,2), of "[]" io_EOF] r1(4) f(6) obtain p2 s2 where
    r2: "readSecure toyUnseal sampleSecure io_EOF p1 (concat envs1) = (Inr (sampleReply CompleteCommand), p2, s2)" by auto
  obtain rw where rw: "encodeRequest toySeal (Some (replicate 12 1)) (Some sampleSecure) 1 (bytesOf ''POST'') [0] = Inr rw"
    by (simp add: encodeRequest_def requestPacket_def Packet_MarshalBinary_def Header_MarshalBinary_def DefaultMaxBody_def
        MethodFieldSize_def Let_def bytesOf_def Encrypt_def sampleSecure_def DefaultMaxCiphertext_def V3NonceSize_def V3TagSize_def
        BodyTypeBSON_def go_copy_def)
  let ?w = "?u\<lparr>wc_stream := concat envs1, wc_producer := Some p1, wc_written := [rw]\<rparr>"
  have post: "wire_request toySeal toyUnseal (Some (replicate 12 1)) None 1 (bytesOf ''POST'') [0] ?u = (Inr (sampleReply (bytesOf ''POST'')), [], ?w)"
    using rw r1(1) by (simp add: wire_request_def requestLimit_def numeral_eq_Suc read_wire_def readFrame_def)
      (simp add: sampleReply_def)
  have m: "postMedia sampleBson toySeal toyUnseal (sampleUploadConn ?s) ''POST'' [0] 1 = Inr (0, [], ?w)"
    using post by (simp add: postMedia_def sampleUploadConn_def sampleBson_def loco_Status_def Int32_def Int64_def minInt32_def maxInt32_def
        DecodePostOffset_def)
  have fin: "completion toyUnseal [] ?w = Inr (sampleReply CompleteCommand)"
    using r2 by (simp add: completion_def requestLimit_def numeral_eq_Suc read_wire_def readFrame_def) (simp add: sampleReply_def)
  have "\<exists>out. streamLoop toySeal (sampleUploadConn ?s) (Some sampleSecure) False 0 0 [7] [] = (None, out) \<and> concat out \<noteq> []"
    by (simp add: streamLoop.simps mediaStreamChunk_def sampleUploadConn_def Encrypt_def sampleSecure_def DefaultMaxCiphertext_def
        DefaultMaxBody_def V3NonceSize_def V3TagSize_def writeAllCount.simps toySeal_def)
  then show ?thesis using m fin by (intro exI [of _ ?s]) (auto simp: uploadToMediaServer_def)
qed


subsection \<open>What a failed send has done\<close>

text \<open>What \<open>session.request\<close> returns is a transport error or the server's status.\<close>

definition foreignEnv :: "upload_env \<Rightarrow> bool" where
  "foreignEnv E \<longleftrightarrow> (\<forall>n. foreignConn (ue_conn E n))
     \<and> (\<forall>n c b e. lk_answer (ue_link E) n c b = Inl e \<longrightarrow> foreign e \<or> (\<exists>c s. e = StatusError c s))"

text \<open>The requests of the session that create a message, and that each of them since \<open>U\<close> was refused by the server.\<close>

definition creating :: "string \<Rightarrow> bool" where "creating command \<longleftrightarrow> command = ''WRITE'' \<or> command = ''WRITEMEDIA''"

definition sentSince :: "uploads \<Rightarrow> uploads \<Rightarrow> (string \<times> raw) list" where
  "sentSince U U' = drop (length (lk_sent (up_link U))) (lk_sent (up_link U'))"

definition allRefused :: "upload_env \<Rightarrow> uploads \<Rightarrow> uploads \<Rightarrow> bool" where
  "allRefused E U U' \<longleftrightarrow>
     (\<forall>k < length (sentSince U U'). case sentSince U U' ! k of
        (c, b) \<Rightarrow> creating c \<longrightarrow> (\<exists>c' s. lk_answer (ue_link E) (length (lk_sent (up_link U)) + k) c b = Inl (StatusError c' s)))"

definition streamsSince :: "uploads \<Rightarrow> uploads \<Rightarrow> byte list list list" where
  "streamsSince U U' = drop (length (up_streams U)) (up_streams U')"

lemma foreign_media [simp]:
  "foreign media_ErrInvalidImage" "foreign media_ErrInvalidCaption" "foreign media_ErrInvalidUpload" "foreign media_ErrUnsupportedImage"
  "foreign media_ErrInvalidAlbum" "foreign media_ErrCaptionNotSupported" "foreign (Chat c)"
  by (simp_all add: foreign_def errors_Is.simps asStatus.simps)

lemma not_foreign [simp]: "\<not> foreign (StatusError c s)" "\<not> foreign (notSent e)" "\<not> foreign (notCreated e)" "\<not> foreign (photoNotCreated e)"
  by (simp_all add: foreign_def notSent_def notCreated_def photoNotCreated_def errors_Is.simps)

lemma redirected_simps [simp]:
  "\<not> redirected (Inr x)" "foreign e \<Longrightarrow> \<not> redirected (Inl e)" "unsent e \<Longrightarrow> \<not> redirected (Inl e)" "\<not> redirected (Inl (StatusError c s))"
  by (auto simp: redirected_def foreign_def unsent_def notSent_def errors_Is.simps)

lemma bsonMarshal_foreign: "bsonMarshal B kvs = Inl e \<Longrightarrow> foreign e"
  by (auto simp: bsonMarshal_def split: option.splits)

lemma decodeMediaComplete_error:
  "decodeMediaComplete B packet = Inl e \<Longrightarrow> foreign e \<or> (\<exists>st. st \<noteq> 0 \<and> e = StatusError ''COMPLETE'' st)"
  by (auto simp: decodeMediaComplete_def DecodeComplete_def split: sum.splits if_splits option.splits rawvalue.splits)

lemma openUpload_spec:
  assumes "foreignEnv E" "openUpload E command postBody data U = (r, U')"
  shows "\<exists>out. U' = U\<lparr>up_streams := up_streams U @ [out]\<rparr> \<and> (\<forall>e. r = Inl e \<longrightarrow> unsent e \<and> concat out = [] \<or> foreign e)"
proof -
  obtain x out where u: "uploadToMediaServer (ue_bson E) (ue_seal E) (ue_unseal E) (ue_conn E (length (up_streams U))) command postBody data = (x, out)"
    by fastforce
  have "foreignConn (ue_conn E (length (up_streams U)))" using assms(1) by (simp add: foreignEnv_def)
  from upload_error [OF this, of "ue_bson E" "ue_seal E" "ue_unseal E" command postBody data _ out] u show ?thesis
    using assms(2) by (auto simp: openUpload_def)
qed

lemma trailerUpload_spec:
  assumes "foreignEnv E" "trailerUpload E ship data post U = (r, U')"
  shows "\<exists>streams. U' = U\<lparr>up_link := (up_link U)\<lparr>lk_sent := lk_sent (up_link U) @ [(''SHIP'', ship)]\<rparr>, up_streams := up_streams U @ streams\<rparr>
    \<and> length streams \<le> 1 \<and> (redirected r \<longrightarrow> streams = [])
    \<and> (\<forall>e. r = Inl e \<longrightarrow> foreign e \<or> (\<forall>s\<in>set streams. concat s = []) \<or> (\<exists>st. st \<noteq> 0 \<and> e = StatusError ''COMPLETE'' st))"
proof -
  let ?U1 = "U\<lparr>up_link := (up_link U)\<lparr>lk_sent := lk_sent (up_link U) @ [(''SHIP'', ship)]\<rparr>\<rparr>"
  have U1: "?U1 = U\<lparr>up_link := (up_link U)\<lparr>lk_sent := lk_sent (up_link U) @ [(''SHIP'', ship)]\<rparr>, up_streams := up_streams U @ []\<rparr>" by simp
  consider (early) "U' = ?U1" "\<exists>e. r = Inl (notSent e)"
    | (opened) postBody x U2 where "openUpload E ''POST'' postBody data ?U1 = (x, U2)"
        "(r, U') = (case x of Inl e \<Rightarrow> Inl e | Inr complete \<Rightarrow> decodeMediaComplete (ue_bson E) complete, U2)"
    using assms(2) by (auto simp: trailerUpload_def sessionRequest_def split: sum.splits if_splits prod.splits)
  then show ?thesis
  proof cases
    case early
    then show ?thesis using U1 by (intro exI [of _ "[]"]) auto
  next
    case opened
    from openUpload_spec [OF assms(1) opened(1)] obtain out where o: "U2 = ?U1\<lparr>up_streams := up_streams ?U1 @ [out]\<rparr>"
      "\<forall>e. x = Inl e \<longrightarrow> unsent e \<and> concat out = [] \<or> foreign e" by blast
    have err: "foreign e \<or> concat out = [] \<and> unsent e \<or> (\<exists>st. st \<noteq> 0 \<and> e = StatusError ''COMPLETE'' st)" if "r = Inl e" for e
    proof (cases x)
      case (Inl e')
      then show ?thesis using opened(2) that o(2) by auto
    next
      case (Inr complete)
      then show ?thesis using opened(2) that decodeMediaComplete_error [of "ue_bson E" complete e] by auto
    qed
    have red: "\<not> redirected r" by (cases r) (use err in auto)
    have "\<forall>e. r = Inl e \<longrightarrow> foreign e \<or> (\<forall>s\<in>set [out]. concat s = []) \<or> (\<exists>st. st \<noteq> 0 \<and> e = StatusError ''COMPLETE'' st)"
      using err by (metis empty_iff empty_set set_ConsD)
    then show ?thesis using opened(2) o(1) red by (intro exI [of _ "[out]"]) simp
  qed
qed

lemma directSend_spec:
  assumes "foreignEnv E" "directSend E chatID m fail wr U = (r, U')"
  shows "(U' = U \<or> (\<exists>body. U' = U\<lparr>up_link := (up_link U)\<lparr>lk_sent := lk_sent (up_link U) @ [(''WRITEMEDIA'', body)]\<rparr>\<rparr>
      \<and> (\<forall>e. r = Inl e \<longrightarrow> foreign e \<or> (\<exists>c s. lk_answer (ue_link E) (length (lk_sent (up_link U))) ''WRITEMEDIA'' body = Inl (StatusError c s)))))"
  using assms
  by (fastforce simp: directSend_def sessionRequest_def DecodeDirectWrite_def foreignEnv_def Let_def
      split: sum.splits option.splits prod.splits if_splits)

text \<open>
  The effect of a photo or file send that failed: everything the session sent since is refused, and at most
  one media connection was opened, on which nothing was streamed unless the server completed the upload with
  a status that refuses it.
\<close>

definition nothingCreated :: "upload_env \<Rightarrow> go_error \<Rightarrow> uploads \<Rightarrow> uploads \<Rightarrow> bool" where
  "nothingCreated E e U U' \<longleftrightarrow> allRefused E U U' \<and> length (streamsSince U U') \<le> 1
     \<and> ((\<forall>s\<in>set (streamsSince U U'). concat s = []) \<or> (\<exists>st. st \<noteq> 0 \<and> e = StatusError ''COMPLETE'' st))"

lemma nothingCreated_refl: "nothingCreated E e U U"
  by (simp add: nothingCreated_def allRefused_def sentSince_def streamsSince_def)

lemma trailer_direct:
  assumes "foreignEnv E" "trailerUpload E ship data post U = (r, U1)"
    and "(r', U') = (if \<not> redirected r then (r, U1) else direct U1)"
    and "\<And>x V. direct U1 = (x, V) \<Longrightarrow> (V = U1 \<or> (\<exists>body. V = U1\<lparr>up_link := (up_link U1)\<lparr>lk_sent := lk_sent (up_link U1) @ [(''WRITEMEDIA'', body)]\<rparr>\<rparr>
      \<and> (\<forall>e. x = Inl e \<longrightarrow> foreign e \<or> (\<exists>c s. lk_answer (ue_link E) (length (lk_sent (up_link U1))) ''WRITEMEDIA'' body = Inl (StatusError c s)))))"
    and "r' = Inl e" "\<not> foreign e"
  shows "nothingCreated E e U U'"
proof -
  from trailerUpload_spec [OF assms(1,2)] obtain streams where t:
    "U1 = U\<lparr>up_link := (up_link U)\<lparr>lk_sent := lk_sent (up_link U) @ [(''SHIP'', ship)]\<rparr>, up_streams := up_streams U @ streams\<rparr>"
    "length streams \<le> 1" "redirected r \<Longrightarrow> streams = []"
    "\<And>e. r = Inl e \<Longrightarrow> foreign e \<or> (\<forall>s\<in>set streams. concat s = []) \<or> (\<exists>st. st \<noteq> 0 \<and> e = StatusError ''COMPLETE'' st)" by blast
  have c: "\<not> creating ''SHIP''" by (simp add: creating_def)
  show ?thesis
  proof (cases "redirected r")
    case False
    then show ?thesis
      using assms(3,5,6) t(2) t(4) [of e] c
      by (auto simp: t(1) nothingCreated_def allRefused_def sentSince_def streamsSince_def)
  next
    case True
    obtain x V where d: "direct U1 = (x, V)" by fastforce
    from assms(4) [OF d] True assms(3,5,6) d t(3) c show ?thesis
      by (auto simp: t(1) nothingCreated_def allRefused_def sentSince_def streamsSince_def less_2_cases_iff)
  qed
qed

lemma openUpload_link: "up_link (snd (openUpload E command postBody data U)) = up_link U"
  by (simp add: openUpload_def split: prod.split)

lemma postPhotos_link: "up_link (snd (postPhotos E photos U)) = up_link U"
proof (induction photos arbitrary: U)
  case (Cons photo photos)
  obtain img key where p: "photo = (img, key)" by fastforce
  show ?case
  proof (cases "AlbumPostRequest_MarshalBSON (ue_bson E) (ue_userID E) key img (ue_appVersion E)")
    case (Inr postBody)
    obtain x U1 where o: "openUpload E ''MPOST'' postBody (im_Data img) U = (x, U1)" by fastforce
    then show ?thesis using openUpload_link [of E "''MPOST''" postBody "im_Data img" U] Cons.IH [of U1] p Inr
      by (cases x) simp_all
  qed (simp add: p)
qed simp

lemma postPhotos_sent: "postPhotos E photos U = (r, U') \<Longrightarrow> lk_sent (up_link U') = lk_sent (up_link U)"
  using postPhotos_link [of E photos U] by simp

lemma session_SendAlbum_refused:
  assumes "foreignEnv E" "session_SendAlbum E chatID photos caption U = (Inl e, U')" "\<not> foreign e"
  shows "allRefused E U U' \<and> length (filter (creating \<circ> fst) (sentSince U U')) \<le> 1"
proof -
  have c: "\<not> creating ''MSHIP''" by (simp add: creating_def)
  consider (none) "U' = U" | (ship) ship V where "lk_sent (up_link U') = lk_sent (up_link U) @ [(''MSHIP'', ship)]"
    | (wrote) ship body where "lk_sent (up_link U') = lk_sent (up_link U) @ [(''MSHIP'', ship), (''WRITE'', body)]"
        "\<exists>c s. lk_answer (ue_link E) (Suc (length (lk_sent (up_link U)))) ''WRITE'' body = Inl (StatusError c s)"
    using assms
    by (fastforce simp: session_SendAlbum_def sessionRequest_def foreignEnv_def DecodeWriteResponse_def
        split: sum.splits prod.splits if_splits option.splits dest: postPhotos_sent)
  then show ?thesis using c by cases (auto simp: allRefused_def sentSince_def less_Suc_eq creating_def)
qed

lemma session_SendImage_form:
  "session_SendImage E chatID data caption U = (r, U1) \<Longrightarrow>
   (U1 = U \<and> (\<exists>e. r = Inl e \<and> foreign e)) \<or> (\<exists>ship bytes post. trailerUpload E ship bytes post U = (r, U1))"
  by (auto simp: session_SendImage_def PrepareImage_def ShipRequest_MarshalBSON_def split: if_splits sum.splits option.splits
      dest: bsonMarshal_foreign)

lemma session_SendUpload_form:
  "session_SendUpload E chatID upload U = (r, U1) \<Longrightarrow>
   (U1 = U \<and> (\<exists>e. r = Inl e \<and> foreign e)) \<or> (\<exists>ship bytes post. trailerUpload E ship bytes post U = (r, U1))"
  by (auto simp: session_SendUpload_def UploadShipRequest_MarshalBSON_def split: if_splits sum.splits option.splits
      dest: bsonMarshal_foreign)

lemma directPhoto_spec:
  "foreignEnv E \<Longrightarrow> directPhoto E chatID data caption U = (r, U') \<Longrightarrow>
   (U' = U \<or> (\<exists>body. U' = U\<lparr>up_link := (up_link U)\<lparr>lk_sent := lk_sent (up_link U) @ [(''WRITEMEDIA'', body)]\<rparr>\<rparr>
      \<and> (\<forall>e. r = Inl e \<longrightarrow> foreign e \<or> (\<exists>c s. lk_answer (ue_link E) (length (lk_sent (up_link U))) ''WRITEMEDIA'' body = Inl (StatusError c s)))))"
  using directSend_spec by (fastforce simp: directPhoto_def split: sum.splits)

lemma directUpload_spec:
  "foreignEnv E \<Longrightarrow> directUpload E chatID upload U = (r, U') \<Longrightarrow>
   (U' = U \<or> (\<exists>body. U' = U\<lparr>up_link := (up_link U)\<lparr>lk_sent := lk_sent (up_link U) @ [(''WRITEMEDIA'', body)]\<rparr>\<rparr>
      \<and> (\<forall>e. r = Inl e \<longrightarrow> foreign e \<or> (\<exists>c s. lk_answer (ue_link E) (length (lk_sent (up_link U))) ''WRITEMEDIA'' body = Inl (StatusError c s)))))"
  using directSend_spec by (fastforce simp: directUpload_def split: sum.splits)

lemma withRedirect:
  assumes "foreignEnv E" "\<not> foreign e"
    and "\<And>r U1. trailer U = (r, U1) \<Longrightarrow> (U1 = U \<and> (\<exists>e. r = Inl e \<and> foreign e)) \<or> (\<exists>ship bytes post. trailerUpload E ship bytes post U = (r, U1))"
    and "\<And>V r V'. direct V = (r, V') \<Longrightarrow> (V' = V \<or> (\<exists>body. V' = V\<lparr>up_link := (up_link V)\<lparr>lk_sent := lk_sent (up_link V) @ [(''WRITEMEDIA'', body)]\<rparr>\<rparr>
      \<and> (\<forall>e. r = Inl e \<longrightarrow> foreign e \<or> (\<exists>c s. lk_answer (ue_link E) (length (lk_sent (up_link V))) ''WRITEMEDIA'' body = Inl (StatusError c s)))))"
    and "(case trailer U of (r, U1) \<Rightarrow> if \<not> redirected r then (r, U1) else direct U1) = (Inl e, U')"
  shows "nothingCreated E e U U'"
proof -
  obtain r U1 where t: "trailer U = (r, U1)" by fastforce
  show ?thesis
  proof (cases "\<exists>ship bytes post. trailerUpload E ship bytes post U = (r, U1)")
    case True
    then obtain ship bytes post where s: "trailerUpload E ship bytes post U = (r, U1)" by blast
    show ?thesis
      by (rule trailer_direct [OF assms(1) s _ assms(4) refl assms(2)]) (use assms(5) t in \<open>auto split: if_splits\<close>)
  next
    case False
    then have "U1 = U" "\<exists>e. r = Inl e \<and> foreign e" using assms(3) [OF t] by auto
    then show ?thesis using assms(5) t nothingCreated_refl by auto
  qed
qed

text \<open>
  C17: A media send that is reported as certainly not delivered was not delivered. Suppose that connections report
  their own errors and the session a transport error or a server status. If \<open>SendImage\<close>, \<open>SendUpload\<close> or \<open>SendAlbum\<close> fails
  with an error that the connector takes as certain (a status, \<open>ErrUploadNotSent\<close>, \<open>ErrPhotoNotCreated\<close>,
  \<open>ErrAlbumNotCreated\<close>, a redirect or a filter refusal), then every WRITE and WRITEMEDIA since was refused by the
  server's status; and for a photo or a file at most one media connection was opened, on which not a byte was
  streamed unless the server completed the upload with a refusal.
\<close>

theorem media_failure_certain:
  assumes "foreignEnv E" "\<not> foreign e"
  shows "(SendImage E chatID data caption U = (Inl e, U') \<longrightarrow> nothingCreated E e U U')
    \<and> (SendUpload E chatID upload U = (Inl e, U') \<longrightarrow> nothingCreated E e U U')
    \<and> (SendAlbum E chatID photos caption U = (Inl e, U') \<longrightarrow> allRefused E U U')"
proof -
  let ?V = "U\<lparr>up_link := (up_link U)\<lparr>lk_calls := lk_calls (up_link U) + 1\<rparr>\<rparr>"
  have same: "nothingCreated E e ?V U' = nothingCreated E e U U'" "allRefused E ?V U' = allRefused E U U'"
    "nothingCreated E e U ?V" "allRefused E U ?V"
    by (simp_all add: nothingCreated_def allRefused_def sentSince_def streamsSince_def)
  have photo: "nothingCreated E e ?V U'" if "(case session_SendImage E chatID data caption ?V of
      (r, U1) \<Rightarrow> if \<not> redirected r then (r, U1) else directPhoto E chatID data caption U1) = (Inl e, U')"
    by (rule withRedirect [OF assms, where trailer = "session_SendImage E chatID data caption" and direct = "directPhoto E chatID data caption"])
      (rule session_SendImage_form directPhoto_spec assms that | assumption)+
  have upl: "nothingCreated E e ?V U'" if "(case session_SendUpload E chatID upload ?V of
      (r, U1) \<Rightarrow> if \<not> redirected r then (r, U1) else directUpload E chatID upload U1) = (Inl e, U')"
    by (rule withRedirect [OF assms, where trailer = "session_SendUpload E chatID upload" and direct = "directUpload E chatID upload"])
      (rule session_SendUpload_form directUpload_spec assms that | assumption)+
  note album = session_SendAlbum_refused [OF assms(1) _ assms(2), THEN conjunct1]
  show ?thesis
    unfolding SendImage_def SendUpload_def SendAlbum_def onSession_def Let_def
    using photo upl album [of chatID photos caption ?V U'] same by (auto split: option.splits)
qed

text \<open>A photo that SHIP redirects and whose WRITEMEDIA the server refuses.\<close>

definition sampleUploadEnv :: upload_env where
  "sampleUploadEnv =
     \<lparr>ue_lib = \<lparr>ml_NFC = id, ml_ToLower = id, ml_sha1 = (\<lambda>_. replicate 20 0), ml_DecodeConfig = (\<lambda>_. Some (1, 1, ''png''))\<rparr>,
      ue_bson = sampleBson\<lparr>bs_LookupErr := (\<lambda>_ k. if k = ''rd'' then Some (VBool True) else None)\<rparr>,
      ue_seal = toySeal, ue_unseal = toyUnseal,
      ue_link = \<lparr>lk_session = (\<lambda>_. None), lk_answer = (\<lambda>n _ _. if n = 0 then Inr [0] else Inl (StatusError ''WRITEMEDIA'' (- 1)))\<rparr>,
      ue_conn = (\<lambda>_. sampleUploadConn []), ue_millis = (\<lambda>_. 1), ue_userID = 7, ue_appVersion = ''1'',
      ue_prepare = (\<lambda>_ _. Inr \<lparr>dt_URL = ''u'', dt_Resource = ''r'', dt_ResourceType = ''vk'', dt_UploadKey = ''k'', dt_ChunkSize = 1, dt_NeedReady = False\<rparr>),
      ue_direct = (\<lambda>_ _. None), ue_ready = (\<lambda>_. None)\<rparr>"

definition sampleUploads :: uploads where
  "sampleUploads = \<lparr>up_link = \<lparr>lk_sent = [], lk_calls = 0\<rparr>, up_streams = []\<rparr>"

lemma sampleSend:
  "SendImage sampleUploadEnv 5 [1] [] sampleUploads
     = (Inl (StatusError ''WRITEMEDIA'' (- 1)), \<lparr>up_link = \<lparr>lk_sent = [(''SHIP'', [0]), (''WRITEMEDIA'', [0])], lk_calls = 1\<rparr>, up_streams = []\<rparr>)"
proof -
  have v: "validString ''r''" "validString ''k''" "validString []" by (simp_all add: validString_def bytesOf_def)
  have c: "upperHex (replicate 20 0) \<noteq> []" by (simp add: upperHex_def)
  show ?thesis
    using v c by (simp add: SendImage_def onSession_def session_SendImage_def ValidCaption_def PrepareImage_def MaxImageBytes_def
      ShipRequest_MarshalBSON_def bsonMarshal_def trailerUpload_def sessionRequest_def DecodeShipResponse_def Bool_def
      sampleUploadEnv_def sampleUploads_def sampleBson_def redirected_def notSent_def errors_Is.simps directPhoto_def directSend_def
      DirectPhotoWriteRequest_MarshalBSON_def directWrite_def writable_def safeDirectValue_def nul_def)
qed

theorem media_failure_certain_witness:
  "\<exists>U'. SendImage sampleUploadEnv 5 [1] [] sampleUploads = (Inl (StatusError ''WRITEMEDIA'' (- 1)), U')
     \<and> nothingCreated sampleUploadEnv (StatusError ''WRITEMEDIA'' (- 1)) sampleUploads U' \<and> map fst (sentSince sampleUploads U') = [''SHIP'', ''WRITEMEDIA'']"
proof -
  have "foreignEnv sampleUploadEnv"
    by (auto simp: foreignEnv_def sampleUploadEnv_def foreignConn_def sampleUploadConn_def split: if_splits)
  from media_failure_certain [OF this, of "StatusError ''WRITEMEDIA'' (- 1)" 5 "[1]" "[]" sampleUploads] sampleSend show ?thesis
    by (simp add: sentSince_def sampleUploads_def)
qed

end
