(* ===== verification/Kv_Store.thy ===== *)
theory Kv_Store
  imports Bridge_Ids "HOL-Library.Sublist"
begin

text \<open>
  \<open>src/internal/bridge/connector/kv.go\<close>: the connector's rows of the framework's \<open>kv_store\<close> table, for the
  one bridge ID it is opened with.

  The table is a map from keys to values. Each statement is one atomic step of the database: before the
  \<open>n\<close>-th one other connections may have changed the table (\<open>kx_other\<close>), and it may fail, with or without having
  taken effect. The laws the clients rely on are the locale \<open>reservations\<close>.
\<close>

type_synonym kv = "string \<rightharpoonup> string"

datatype exec_answer = Executed | ExecFailed go_error bool

record kv_env =
  kx_exec :: "nat \<Rightarrow> exec_answer"
  kx_rows :: "nat \<Rightarrow> go_error option"
  kx_query :: "nat \<Rightarrow> go_error option"
  kx_other :: "nat \<Rightarrow> kv \<Rightarrow> kv"

record kv_db =
  kd_table :: kv
  kd_ops :: nat

subsection \<open>Statements\<close>

text \<open>The table as the next statement finds it.\<close>

definition enter :: "kv_env \<Rightarrow> kv_db \<Rightarrow> kv_db" where
  "enter env db = \<lparr>kd_table = kx_other env (kd_ops db) (kd_table db), kd_ops = kd_ops db + 1\<rparr>"

text \<open>\<open>db.Exec\<close> of a statement that changes the table and counts the rows it touched.\<close>

definition exec :: "kv_env \<Rightarrow> (kv \<Rightarrow> kv \<times> nat) \<Rightarrow> kv_db \<Rightarrow> nat result \<times> kv_db" where
  "exec env statement db =
     (let db1 = enter env db; (table, rows) = statement (kd_table db1)
      in case kx_exec env (kd_ops db) of
           ExecFailed e applied \<Rightarrow> (Inl e, if applied then db1\<lparr>kd_table := table\<rparr> else db1)
         | Executed \<Rightarrow> (Inr rows, db1\<lparr>kd_table := table\<rparr>))"

text \<open>\<open>RowsAffected\<close> of a statement's result.\<close>

definition execRows :: "kv_env \<Rightarrow> (kv \<Rightarrow> kv \<times> nat) \<Rightarrow> kv_db \<Rightarrow> nat result \<times> kv_db" where
  "execRows env statement db =
     (case exec env statement db of
        (Inl e, db1) \<Rightarrow> (Inl e, db1)
      | (Inr rows, db1) \<Rightarrow> (case kx_rows env (kd_ops db) of Some e \<Rightarrow> (Inl e, db1) | None \<Rightarrow> (Inr rows, db1)))"

definition upsert :: "string \<Rightarrow> string \<Rightarrow> kv \<Rightarrow> kv \<times> nat" where
  "upsert key val table = (table(key \<mapsto> val), 1)"

definition insertAbsent :: "string \<Rightarrow> string \<Rightarrow> kv \<Rightarrow> kv \<times> nat" where
  "insertAbsent key val table = (if table key = None then (table(key \<mapsto> val), 1) else (table, 0))"

definition updateWhere :: "string \<Rightarrow> string \<Rightarrow> string \<Rightarrow> kv \<Rightarrow> kv \<times> nat" where
  "updateWhere key previous val table = (if table key = Some previous then (table(key \<mapsto> val), 1) else (table, 0))"

text \<open>The database compares values by their bytes.\<close>

fun strLess :: "string \<Rightarrow> string \<Rightarrow> bool" where
  "strLess s [] = False"
| "strLess [] (c # t) = True"
| "strLess (b # s) (c # t) = ((of_char b :: nat) < of_char c \<or> b = c \<and> strLess s t)"

text \<open>\<open>key LIKE prefix%\<close>, for a prefix without wildcards, and \<open>value < stamp\<close>; the rows are not counted.\<close>

definition deleteWhere :: "string \<Rightarrow> string \<Rightarrow> kv \<Rightarrow> kv \<times> nat" where
  "deleteWhere pre stamp table =
     ((\<lambda>key. case table key of None \<Rightarrow> None | Some val \<Rightarrow> if prefix pre key \<and> strLess val stamp then None else Some val), 0)"

subsection \<open>Operations\<close>

definition get :: "kv_env \<Rightarrow> string \<Rightarrow> kv_db \<Rightarrow> string option result \<times> kv_db" where
  "get env key db =
     (let db1 = enter env db
      in case kx_query env (kd_ops db) of Some e \<Rightarrow> (Inl e, db1) | None \<Rightarrow> (Inr (kd_table db1 key), db1))"

definition readBack :: "kv_env \<Rightarrow> string \<Rightarrow> string \<Rightarrow> kv_db \<Rightarrow> go_error option \<times> kv_db" where
  "readBack env key val db =
     (case get env key db of
        (Inl e, db1) \<Rightarrow> (Some e, db1)
      | (Inr saved, db1) \<Rightarrow> (if saved \<noteq> Some val then Some errNotDurable else None, db1))"

definition put :: "kv_env \<Rightarrow> string \<Rightarrow> string \<Rightarrow> kv_db \<Rightarrow> go_error option \<times> kv_db" where
  "put env key val db =
     (case exec env (upsert key val) db of
        (Inl e, db1) \<Rightarrow> (Some e, db1)
      | (Inr _, db1) \<Rightarrow> readBack env key val db1)"

definition putIfAbsent :: "kv_env \<Rightarrow> string \<Rightarrow> string \<Rightarrow> kv_db \<Rightarrow> bool result \<times> kv_db" where
  "putIfAbsent env key val db =
     (case execRows env (insertAbsent key val) db of
        (Inl e, db1) \<Rightarrow> (Inl e, db1)
      | (Inr inserted, db1) \<Rightarrow> (Inr (inserted = 1), db1))"

definition deleteOlderThan :: "kv_env \<Rightarrow> string \<Rightarrow> string \<Rightarrow> kv_db \<Rightarrow> go_error option \<times> kv_db" where
  "deleteOlderThan env pre stamp db =
     (case exec env (deleteWhere pre stamp) db of (Inl e, db1) \<Rightarrow> (Some e, db1) | (Inr _, db1) \<Rightarrow> (None, db1))"

definition compareAndSwap :: "kv_env \<Rightarrow> string \<Rightarrow> string \<Rightarrow> string \<Rightarrow> kv_db \<Rightarrow> bool result \<times> kv_db" where
  "compareAndSwap env key previous val db =
     (case (if previous = [] then putIfAbsent env key val db
            else case execRows env (updateWhere key previous val) db of
                   (Inl e, db1) \<Rightarrow> (Inl e, db1) | (Inr rows, db1) \<Rightarrow> (Inr (rows = 1), db1)) of
        (Inl e, db1) \<Rightarrow> (Inl e, db1)
      | (Inr changed, db1) \<Rightarrow>
          if \<not> changed then (Inr False, db1)
          else (case readBack env key val db1 of (Some e, db2) \<Rightarrow> (Inl e, db2) | (None, db2) \<Rightarrow> (Inr True, db2)))"

subsection \<open>Time stamps\<close>

definition Unix :: "gotime \<Rightarrow> int64" where "Unix t = (t - unixEpoch) div 10 ^ 9"

text \<open>\<open>fmt.Sprintf("%020d", n)\<close>.\<close>

definition padded :: "nat \<Rightarrow> string \<Rightarrow> string" where
  "padded width s = replicate (width - length s) (CHR ''0'') @ s"

definition kvTimeStamp :: "gotime \<Rightarrow> string" where
  "kvTimeStamp t = (if Unix t < 0 then CHR ''-'' # padded 19 (formatNat (nat (- Unix t))) else padded 20 (formatNat (nat (Unix t))))"

subsection \<open>Stamps sort in time order\<close>

lemma digitsValue_Cons: "digitsValue (c # s) = (of_char c - 48) * 10 ^ length s + digitsValue s"
proof (induction s rule: rev_induct)
  case Nil
  then show ?case by (simp add: digitsValue_def)
next
  case (snoc d s)
  have "digitsValue ((c # s) @ [d]) = 10 * digitsValue (c # s) + (of_char d - 48)" by (rule digitsValue_snoc)
  then show ?case using snoc by (simp add: digitsValue_snoc algebra_simps)
qed

lemma digitsValue_less: "list_all isDigit s \<Longrightarrow> digitsValue s < 10 ^ length s"
proof (induction s)
  case (Cons c s)
  have "of_char c - 48 \<le> (9 :: nat)" using Cons.prems by (auto simp: isDigit_def)
  then have "(of_char c - 48) * 10 ^ length s \<le> (9 :: nat) * 10 ^ length s" by (rule mult_le_mono1)
  moreover have "digitsValue s < 10 ^ length s" using Cons by simp
  ultimately have "digitsValue (c # s) < 9 * 10 ^ length s + 10 ^ length s" unfolding digitsValue_Cons by linarith
  then show ?case by simp
qed (simp add: digitsValue_def)

lemma strLess_digits:
  assumes "length s = length t" "list_all isDigit s" "list_all isDigit t"
  shows "strLess s t \<longleftrightarrow> digitsValue s < digitsValue t"
  using assms
proof (induction s t rule: list_induct2)
  case (Cons b s c t)
  let ?b = "of_char b - 48 :: nat" and ?c = "of_char c - 48 :: nat" and ?n = "10 ^ length t :: nat"
  have d: "of_char b = ?b + 48" "of_char c = ?c + 48" using Cons.prems by (auto simp: isDigit_def)
  have v: "digitsValue s < ?n" "digitsValue t < ?n"
    using Cons.prems Cons.hyps digitsValue_less [of s] digitsValue_less [of t] by simp_all
  have eq: "b = c \<longleftrightarrow> ?b = ?c" using d by (metis char_of_char)
  have lt: "?b < ?c \<Longrightarrow> ?b * ?n + digitsValue s < ?c * ?n + digitsValue t"
  proof -
    assume "?b < ?c"
    then have "(?b + 1) * ?n \<le> ?c * ?n" by (intro mult_le_mono1) simp
    then show ?thesis using v by simp
  qed
  have gt: "?c < ?b \<Longrightarrow> ?c * ?n + digitsValue t < ?b * ?n + digitsValue s"
  proof -
    assume "?c < ?b"
    then have "(?c + 1) * ?n \<le> ?b * ?n" by (intro mult_le_mono1) simp
    then show ?thesis using v by simp
  qed
  have "strLess (b # s) (c # t) \<longleftrightarrow> (of_char b :: nat) < of_char c \<or> b = c \<and> digitsValue s < digitsValue t"
    using Cons by simp
  also have "\<dots> \<longleftrightarrow> ?b < ?c \<or> ?b = ?c \<and> digitsValue s < digitsValue t" unfolding eq using d by linarith
  also have "\<dots> \<longleftrightarrow> ?b * ?n + digitsValue s < ?c * ?n + digitsValue t"
    by (cases ?b ?c rule: linorder_cases) (use lt gt in \<open>simp_all del: mult_less_cancel2\<close>)
  finally show ?case using Cons.hyps by (simp add: digitsValue_Cons)
qed (simp add: digitsValue_def)

lemma length_formatNat: "n < 10 ^ k \<Longrightarrow> 0 < k \<Longrightarrow> length (formatNat n) \<le> k"
proof (induction n arbitrary: k rule: less_induct)
  case (less n)
  show ?case
  proof (cases "n < 10")
    case True
    then show ?thesis using less.prems by (subst formatNat.simps) simp
  next
    case False
    then obtain j where k: "k = Suc j" "0 < j" using less.prems by (cases k; cases "k - 1") auto
    then have "n div 10 < 10 ^ j" using less.prems by (simp add: div_less_iff_less_mult)
    then have "length (formatNat (n div 10)) \<le> j" using less.IH [of "n div 10" j] False k by simp
    then show ?thesis using False k by (subst formatNat.simps) simp
  qed
qed

definition stampOf :: "nat \<Rightarrow> string" where "stampOf n = padded 20 (formatNat n)"

lemma stampOf_spec:
  assumes "n < 10 ^ 20"
  shows "length (stampOf n) = 20" "list_all isDigit (stampOf n)" "digitsValue (stampOf n) = n"
proof -
  have z: "isDigit (CHR ''0'')" by (simp add: isDigit_def)
  have pre: "digitsValue (replicate k (CHR ''0'') @ s) = digitsValue s" for k s
    by (induction k) (simp_all add: digitsValue_Cons)
  show "length (stampOf n) = 20" using length_formatNat [OF assms] by (simp add: stampOf_def padded_def)
  show "list_all isDigit (stampOf n)" using formatNat_spec [of n] z by (auto simp: stampOf_def padded_def list_all_iff)
  show "digitsValue (stampOf n) = n" using formatNat_spec [of n] by (simp add: stampOf_def padded_def pre)
qed

lemma strLess_stamps: "a < 10 ^ 20 \<Longrightarrow> b < 10 ^ 20 \<Longrightarrow> strLess (stampOf a) (stampOf b) \<longleftrightarrow> a < b"
  using stampOf_spec [of a] stampOf_spec [of b] by (subst strLess_digits) simp_all

lemma kvTimeStamp_stamp: "0 \<le> Unix t \<Longrightarrow> kvTimeStamp t = stampOf (nat (Unix t))"
  by (simp add: kvTimeStamp_def stampOf_def)

subsection \<open>Reservations\<close>

text \<open>
  What the connector builds on \<open>putIfAbsent\<close> and \<open>deleteOlderThan\<close>: a key is reserved at a time, by the first
  caller only, and stays reserved until an expiry beyond that time. The statements of all callers, in the
  order the database runs them, are a list; a statement may be lost.
\<close>

datatype 'k reservation = Reserve 'k nat bool | Expire nat bool

fun runReservations ::
    "('k \<Rightarrow> nat \<Rightarrow> 's \<Rightarrow> bool \<times> 's) \<Rightarrow> (nat \<Rightarrow> 's \<Rightarrow> 's) \<Rightarrow> 'k reservation list \<Rightarrow> 's \<Rightarrow> 's" where
  "runReservations reserve expire [] s = s"
| "runReservations reserve expire (Reserve k t applied # ops) s =
     runReservations reserve expire ops (if applied then snd (reserve k t s) else s)"
| "runReservations reserve expire (Expire t applied # ops) s =
     runReservations reserve expire ops (if applied then expire t s else s)"

lemma runReservations_append:
  "runReservations reserve expire (as @ bs) s = runReservations reserve expire bs (runReservations reserve expire as s)"
proof (induction as arbitrary: s)
  case (Cons a as)
  then show ?case by (cases a) simp_all
qed simp

definition stampableOp :: "(nat \<Rightarrow> bool) \<Rightarrow> 'k reservation \<Rightarrow> bool" where
  "stampableOp stampable op = (case op of Reserve _ t _ \<Rightarrow> stampable t | Expire t _ \<Rightarrow> stampable t)"

locale reservations =
  fixes inv :: "'s \<Rightarrow> bool"
    and held :: "'s \<Rightarrow> 'k \<Rightarrow> nat option"
    and reserve :: "'k \<Rightarrow> nat \<Rightarrow> 's \<Rightarrow> bool \<times> 's"
    and expire :: "nat \<Rightarrow> 's \<Rightarrow> 's"
    and stampable :: "nat \<Rightarrow> bool"
  assumes inv_reserve: "inv s \<Longrightarrow> stampable t \<Longrightarrow> inv (snd (reserve k t s))"
    and inv_expire: "inv s \<Longrightarrow> stampable t \<Longrightarrow> inv (expire t s)"
    and reserve_iff: "inv s \<Longrightarrow> stampable t \<Longrightarrow> fst (reserve k t s) \<longleftrightarrow> held s k = None"
    and held_reserve: "inv s \<Longrightarrow> stampable t \<Longrightarrow>
      held (snd (reserve k t s)) = (if held s k = None then (held s)(k \<mapsto> t) else held s)"
    and held_expire: "inv s \<Longrightarrow> stampable t \<Longrightarrow>
      held (expire t s) k = (case held s k of None \<Rightarrow> None | Some u \<Rightarrow> if u < t then None else Some u)"
begin

lemma inv_run: "inv s \<Longrightarrow> \<forall>op\<in>set ops. stampableOp stampable op \<Longrightarrow> inv (runReservations reserve expire ops s)"
proof (induction ops arbitrary: s)
  case (Cons op ops)
  then show ?case by (cases op) (auto simp: stampableOp_def inv_reserve inv_expire)
qed simp

lemma stays_held:
  "inv s \<Longrightarrow> held s k = Some u \<Longrightarrow> \<forall>op\<in>set ops. stampableOp stampable op \<Longrightarrow>
   \<forall>t. Expire t True \<in> set ops \<longrightarrow> t \<le> u \<Longrightarrow> held (runReservations reserve expire ops s) k = Some u"
proof (induction ops arbitrary: s)
  case (Cons op ops)
  have reserved: "held (snd (reserve k' t s)) k = Some u" if "stampable t" for k' t
    using held_reserve [OF Cons.prems(1) that, of k'] Cons.prems(2) by auto
  from Cons show ?case
    by (cases op) (auto simp: stampableOp_def inv_reserve inv_expire held_expire reserved)
qed simp

text \<open>A key is reserved twice only if it expired in between.\<close>

lemma reserved_once:
  assumes "inv s" "\<forall>op\<in>set (pre @ Reserve k t1 True # mid). stampableOp stampable op" "stampable t2"
    and "fst (reserve k t1 (runReservations reserve expire pre s))"
    and "fst (reserve k t2 (runReservations reserve expire (pre @ Reserve k t1 True # mid) s))"
  shows "\<exists>t. Expire t True \<in> set mid \<and> t1 < t"
proof (rule ccontr)
  assume none: "\<not> ?thesis"
  let ?s1 = "runReservations reserve expire pre s"
  have i1: "inv ?s1" using inv_run [OF assms(1)] assms(2) by simp
  have t1: "stampable t1" using assms(2) by (simp add: stampableOp_def)
  have "held ?s1 k = None" using assms(4) reserve_iff [OF i1 t1] by simp
  then have "held (snd (reserve k t1 ?s1)) k = Some t1" using held_reserve [OF i1 t1] by simp
  then have "held (runReservations reserve expire mid (snd (reserve k t1 ?s1))) k = Some t1"
    by (rule stays_held [OF inv_reserve [OF i1 t1]]) (use assms(2) none in \<open>auto simp: not_less\<close>)
  moreover have "inv (runReservations reserve expire mid (snd (reserve k t1 ?s1)))"
    by (rule inv_run [OF inv_reserve [OF i1 t1]]) (use assms(2) in simp)
  ultimately show False using assms(5) reserve_iff [OF _ assms(3)] by (simp add: runReservations_append)
qed

end

text \<open>The rows of one prefix of the table, each holding a stamp, are reservations.\<close>

definition stamped :: "string \<Rightarrow> kv \<Rightarrow> bool" where
  "stamped pre table \<longleftrightarrow> (\<forall>key val. prefix pre key \<longrightarrow> table key = Some val \<longrightarrow> (\<exists>n < 10 ^ 20. val = stampOf n))"

definition reservedAt :: "string \<Rightarrow> kv \<Rightarrow> string \<Rightarrow> nat option" where
  "reservedAt pre table k = map_option digitsValue (table (pre @ k))"

definition reserveRow :: "string \<Rightarrow> string \<Rightarrow> nat \<Rightarrow> kv \<Rightarrow> bool \<times> kv" where
  "reserveRow pre k t table = (let (table', rows) = insertAbsent (pre @ k) (stampOf t) table in (rows = 1, table'))"

definition expireRows :: "string \<Rightarrow> nat \<Rightarrow> kv \<Rightarrow> kv" where
  "expireRows pre t table = fst (deleteWhere pre (stampOf t) table)"

interpretation kv: reservations "stamped pre" "reservedAt pre" "reserveRow pre" "expireRows pre" "\<lambda>t. t < 10 ^ 20" for pre
proof
  fix s :: kv and t :: nat and k :: string
  assume s: "stamped pre s" and t: "t < 10 ^ 20"
  show "stamped pre (snd (reserveRow pre k t s))"
    using s t by (auto simp: stamped_def reserveRow_def insertAbsent_def)
  show "stamped pre (expireRows pre t s)"
    using s by (auto simp: stamped_def expireRows_def deleteWhere_def split: option.splits if_splits)
  show "fst (reserveRow pre k t s) \<longleftrightarrow> reservedAt pre s k = None"
    by (simp add: reserveRow_def insertAbsent_def reservedAt_def)
  show "reservedAt pre (snd (reserveRow pre k t s)) = (if reservedAt pre s k = None then (reservedAt pre s)(k \<mapsto> t) else reservedAt pre s)"
    using t by (auto simp: reserveRow_def insertAbsent_def reservedAt_def stampOf_spec)
  show "reservedAt pre (expireRows pre t s) k
      = (case reservedAt pre s k of None \<Rightarrow> None | Some u \<Rightarrow> if u < t then None else Some u)"
  proof (cases "s (pre @ k)")
    case None
    then show ?thesis by (simp add: reservedAt_def expireRows_def deleteWhere_def)
  next
    case (Some val)
    with s obtain n where n: "n < 10 ^ 20" "val = stampOf n" unfolding stamped_def by (metis prefixI)
    then show ?thesis using Some t by (simp add: reservedAt_def expireRows_def deleteWhere_def strLess_stamps stampOf_spec)
  qed
qed

end
