(* ===== verification/Outbound.thy ===== *)
theory Outbound
  imports Media_Upload Kv_Store
begin

text \<open>
  What the bridge sends to KakaoTalk for a Matrix event: \<open>outbound_attempts.go\<close>, \<open>status.go\<close>, \<open>message_metadata.go\<close>,
  \<open>outbound_edits.go\<close>, \<open>outbound_media.go\<close>, \<open>checkSourceAccess\<close> of \<open>group_access.go\<close> and \<open>HandleMatrixMessage\<close>, \<open>sendMatrixText\<close>
  and \<open>sentMessage\<close> of \<open>client.go\<close> in \<open>src/internal/bridge/connector\<close>.

  The bridge framework is not part of the repository: its message, edit and redaction events are records of what
  the handlers read, the database rows and the downloads from Matrix are answers, and a message status is a
  record of what the connector sets in it (the text for the user and the logging are left out).
  The state is the key-value table, the session's link with the media streams, the updated message rows and
  the number of times the clock was read.
\<close>

subsection \<open>Statuses\<close>

datatype event_status = MessageStatusFail | MessageStatusRetriable
datatype status_reason = MessageStatusUnsupported | MessageStatusNetworkError

record message_status =
  ms_Error :: go_error
  ms_Status :: event_status
  ms_Reason :: "status_reason option"
  ms_IsCertain :: bool
  ms_SendNotice :: bool
  ms_DisableMSS :: bool

text \<open>What a handler returns as its error: an error of the sources, or a status that wraps one.\<close>

datatype handler_error = Plain go_error | MessageStatus message_status

definition noticeStatus :: "go_error \<Rightarrow> event_status \<Rightarrow> status_reason \<Rightarrow> bool \<Rightarrow> handler_error" where
  "noticeStatus e status reason certain =
     MessageStatus \<lparr>ms_Error = e, ms_Status = status, ms_Reason = Some reason, ms_IsCertain = certain, ms_SendNotice = True, ms_DisableMSS = False\<rparr>"

definition certainRefusal :: "go_error \<Rightarrow> handler_error" where
  "certainRefusal e = noticeStatus e MessageStatusFail MessageStatusUnsupported True"

definition certainSendFailure :: "go_error \<Rightarrow> handler_error" where
  "certainSendFailure e = noticeStatus e MessageStatusFail MessageStatusNetworkError True"

definition uncertainFailure :: "go_error \<Rightarrow> handler_error" where
  "uncertainFailure e = noticeStatus e MessageStatusFail MessageStatusNetworkError False"

definition retriableFetchFailure :: "go_error \<Rightarrow> handler_error" where
  "retriableFetchFailure e = noticeStatus e MessageStatusRetriable MessageStatusNetworkError True"

definition replyTargetStatus :: "go_error \<Rightarrow> handler_error" where
  "replyTargetStatus e = certainRefusal e"

definition outboundSendError :: "go_error \<Rightarrow> handler_error" where
  "outboundSendError e =
     (if errors_Is e ErrPhotoNotCreated then certainSendFailure e
      else if errors_Is e media_ErrUploadRedirect then certainRefusal e
      else if asStatus e \<noteq> None then certainSendFailure e
      else if errors_Is e media_ErrUploadFiltered then certainRefusal e
      else if errors_Is e ErrUploadNotSent then certainSendFailure e
      else uncertainFailure e)"

definition outboundAcceptedWithoutPosition :: "go_error \<Rightarrow> handler_error" where
  "outboundAcceptedWithoutPosition e = uncertainFailure e"

definition certain :: "handler_error \<Rightarrow> bool" where
  "certain h = (case h of MessageStatus s \<Rightarrow> ms_IsCertain s | Plain _ \<Rightarrow> False)"

subsection \<open>Message rows\<close>

record KakaoMessageMetadata =
  km_ChatID :: int64
  km_LogID :: int64
  km_AuthorID :: int64
  km_Type :: int64
  km_Preview :: string
  km_LinkID :: int64
  km_ConversionGap :: string
  km_GapReason :: string
  km_ReactionRevision :: int64
  km_MiniReactionRevision :: int64
  km_Revision :: int64
  km_ReplyUnavailable :: bool
  km_ReactionUnavailable :: bool

text \<open>The metadata of a row is an interface value: nil, a pointer that may be nil, a struct, or of another type.\<close>

datatype row_metadata = MetaNil | MetaPointer "KakaoMessageMetadata option" | MetaValue KakaoMessageMetadata | MetaOther

record Message =
  me_ID :: string
  me_PartID :: string
  me_SenderID :: string
  me_Room :: PortalKey
  me_Timestamp :: gotime
  me_Metadata :: row_metadata

definition newKakaoMessageMetadata :: "int64 \<Rightarrow> int64 \<Rightarrow> int64 \<Rightarrow> int64 \<Rightarrow> string \<Rightarrow> int64 \<Rightarrow> KakaoMessageMetadata" where
  "newKakaoMessageMetadata chatID logID authorID messageType preview linkID =
     \<lparr>km_ChatID = chatID, km_LogID = logID, km_AuthorID = authorID, km_Type = messageType, km_Preview = truncateReplyPreview preview,
      km_LinkID = linkID, km_ConversionGap = [], km_GapReason = [], km_ReactionRevision = 0, km_MiniReactionRevision = 0, km_Revision = 0,
      km_ReplyUnavailable = False, km_ReactionUnavailable = False\<rparr>"

definition metadata_valid :: "KakaoMessageMetadata \<Rightarrow> bool" where
  "metadata_valid m \<longleftrightarrow> km_ChatID m > 0 \<and> km_LogID m > 0 \<and> km_AuthorID m > 0 \<and> km_Type m > 0 \<and> km_LinkID m \<ge> 0"

definition checkedMetadata :: "Message \<Rightarrow> KakaoMessageMetadata \<Rightarrow> KakaoMessageMetadata result" where
  "checkedMetadata message m =
     (if \<not> metadata_valid m then Inl errInvalidReplyTarget
      else if me_SenderID message = [] \<or> me_SenderID message \<noteq> makeUserID (km_AuthorID m) then Inl errReplySenderMismatch
      else Inr m)"

definition metadataFromMessage :: "Message \<Rightarrow> KakaoMessageMetadata result" where
  "metadataFromMessage message =
     (case me_Metadata message of
        MetaPointer (Some m) \<Rightarrow> checkedMetadata message m
      | MetaPointer None \<Rightarrow> Inl errInvalidReplyTarget
      | MetaValue m \<Rightarrow> checkedMetadata message m
      | _ \<Rightarrow> Inl errMissingReplyMetadata)"

definition mustParsePortalID :: "string \<Rightarrow> int64" where
  "mustParsePortalID portalID = (case parseChatID portalID of Inl _ \<Rightarrow> 0 | Inr parsed \<Rightarrow> parsed)"

definition Mvoip :: int64 where "Mvoip = 51"
definition Leverage :: int64 where "Leverage = 71"

definition replyTargetFor :: "Message \<Rightarrow> PortalKey \<Rightarrow> ReplyTarget result" where
  "replyTargetFor message portal =
     (if pk_ID (me_Room message) \<noteq> [] \<and> pk_ID (me_Room message) \<noteq> pk_ID portal
         \<or> pk_Receiver (me_Room message) \<noteq> [] \<and> pk_Receiver (me_Room message) \<noteq> pk_Receiver portal
      then Inl errCrossChatReply
      else (case metadataFromMessage message of
              Inl e \<Rightarrow> Inl e
            | Inr m \<Rightarrow>
                (case parseMessageID (me_ID message) of
                   Inl _ \<Rightarrow> Inl errCrossChatReply
                 | Inr (chatID, logID) \<Rightarrow>
                     if chatID \<noteq> km_ChatID m \<or> chatID \<noteq> mustParsePortalID (pk_ID portal) \<or> logID \<noteq> km_LogID m then Inl errCrossChatReply
                     else if km_Type m = Mvoip then Inl errCallReplyTarget
                     else if km_Type m = Leverage \<and> km_ReplyUnavailable m then Inl errLeverageReplyTarget
                     else Inr \<lparr>rt_LogID = km_LogID m, rt_UserID = km_AuthorID m, rt_LinkID = km_LinkID m, rt_Type = km_Type m,
                               rt_Message = (if km_Type m = Photo then ''Photo'' else km_Preview m)\<rparr>)))"

definition pointerMeta :: "row_metadata \<Rightarrow> KakaoMessageMetadata option" where
  "pointerMeta m = (case m of MetaPointer p \<Rightarrow> p | _ \<Rightarrow> None)"

subsection \<open>The connector's client\<close>

record KakaoPortalMetadata =
  pm_SourceRemoved :: bool
  pm_MembershipPending :: bool

record KakaoClient =
  kc_loginID :: string
  kc_userID :: int64
  kc_client :: bool
  kc_sourceBlocked :: "int64 \<rightharpoonup> go_error"

record MessageEventContent =
  ct_MsgType :: string
  ct_Body :: string
  ct_FileName :: string
  ct_InfoSize :: "int64 option"
  ct_URL :: string
  ct_ReplyTo :: bool

text \<open>
  The answers: the database, the uploads, the clock, the portal rows (an unreadable row, none, or its metadata if it
  has the connector's type), the parts of a message and the results of updating them, the download of a Matrix file with
  its bound, whether the user's intent was found, and the images and caption of a gallery event.
\<close>

record out_env =
  oe_kv :: kv_env
  oe_up :: upload_env
  oe_now :: "nat \<Rightarrow> gotime"
  oe_portal :: "PortalKey \<Rightarrow> KakaoPortalMetadata option option result"
  oe_parts :: "string \<Rightarrow> Message list result"
  oe_update :: "nat \<Rightarrow> go_error option"
  oe_download :: "MessageEventContent \<Rightarrow> nat \<Rightarrow> byte list result"
  oe_intent :: bool
  oe_gallery :: "string \<Rightarrow> (MessageEventContent option list \<times> string) option"

record outbound =
  ob_db :: kv_db
  ob_up :: uploads
  ob_clock :: nat
  ob_updates :: "Message list"

definition checkSourceAccess :: "KakaoClient \<Rightarrow> out_env \<Rightarrow> int64 \<Rightarrow> go_error option" where
  "checkSourceAccess kc env chatID =
     (case kc_sourceBlocked kc chatID of
        Some blocked \<Rightarrow> Some blocked
      | None \<Rightarrow>
          (case oe_portal env (makePortalKey chatID (kc_loginID kc)) of
             Inl e \<Rightarrow> Some e
           | Inr None \<Rightarrow> None
           | Inr (Some None) \<Rightarrow> Some (Other ''source access metadata is unavailable'')
           | Inr (Some (Some meta)) \<Rightarrow>
               if pm_SourceRemoved meta then Some errSourceAccessRemoved
               else if pm_MembershipPending meta then Some errMembershipPending
               else None))"

subsection \<open>The durable attempt\<close>

definition outboundAttemptRetention :: duration where "outboundAttemptRetention = 30 * 24 * 3600 * 10 ^ 9"

definition attemptPrefix :: "KakaoClient \<Rightarrow> string" where
  "attemptPrefix kc = ''kakao:outbound-attempt:'' @ kc_loginID kc @ '':''"

definition reserveOutboundKV :: "KakaoClient \<Rightarrow> out_env \<Rightarrow> string \<Rightarrow> outbound \<Rightarrow> bool result \<times> outbound" where
  "reserveOutboundKV kc env eventID w =
     (let now = oe_now env (ob_clock w); w1 = w\<lparr>ob_clock := ob_clock w + 1\<rparr>
      in case deleteOlderThan (oe_kv env) (attemptPrefix kc) (kvTimeStamp (now - outboundAttemptRetention)) (ob_db w1) of
           (Some e, db1) \<Rightarrow> (Inl e, w1\<lparr>ob_db := db1\<rparr>)
         | (None, db1) \<Rightarrow>
             (case putIfAbsent (oe_kv env) (attemptPrefix kc @ eventID) (kvTimeStamp now) db1 of
                (r, db2) \<Rightarrow> (r, w1\<lparr>ob_db := db2\<rparr>)))"

definition alreadyAttempted :: handler_error where
  "alreadyAttempted =
     MessageStatus \<lparr>ms_Error = errOutboundAlreadyAttempted, ms_Status = MessageStatusFail, ms_Reason = None, ms_IsCertain = False,
             ms_SendNotice = False, ms_DisableMSS = True\<rparr>"

text \<open>The event's identity: nil, or its ID, which may be empty.\<close>

definition beginOutboundEvent :: "KakaoClient \<Rightarrow> out_env \<Rightarrow> string option \<Rightarrow> outbound \<Rightarrow> handler_error option \<times> outbound" where
  "beginOutboundEvent kc env evt w =
     (if evt = None \<or> evt = Some [] then (Some (Plain (Other ''Matrix event has no identity'')), w)
      else (case reserveOutboundKV kc env (the evt) w of
              (Inl e, w1) \<Rightarrow> (Some (Plain (Joined [e])), w1)
            | (Inr reserved, w1) \<Rightarrow> (if \<not> reserved then Some alreadyAttempted else None, w1)))"

text \<open>The one source send of an event, once its attempt is reserved.\<close>

definition attempt ::
    "KakaoClient \<Rightarrow> out_env \<Rightarrow> string option \<Rightarrow> (outbound \<Rightarrow> (handler_error + 'a) \<times> outbound) \<Rightarrow> outbound \<Rightarrow> (handler_error + 'a) \<times> outbound" where
  "attempt kc env evt send w =
     (case beginOutboundEvent kc env evt w of (Some h, w1) \<Rightarrow> (Inl h, w1) | (None, w1) \<Rightarrow> send w1)"

definition onLink :: "(raw link \<Rightarrow> 'a result \<times> raw link) \<Rightarrow> outbound \<Rightarrow> 'a result \<times> outbound" where
  "onLink f w = (case f (up_link (ob_up w)) of (r, L) \<Rightarrow> (r, w\<lparr>ob_up := (ob_up w)\<lparr>up_link := L\<rparr>\<rparr>))"

definition onUploads :: "(uploads \<Rightarrow> 'a result \<times> uploads) \<Rightarrow> outbound \<Rightarrow> 'a result \<times> outbound" where
  "onUploads f w = (case f (ob_up w) of (r, U) \<Rightarrow> (r, w\<lparr>ob_up := U\<rparr>))"

subsection \<open>Text and replies\<close>

definition MsgText :: string where "MsgText = ''m.text''"
definition MsgNotice :: string where "MsgNotice = ''m.notice''"
definition MsgEmote :: string where "MsgEmote = ''m.emote''"
definition MsgImage :: string where "MsgImage = ''m.image''"
definition MsgFile :: string where "MsgFile = ''m.file''"
definition MsgVideo :: string where "MsgVideo = ''m.video''"
definition MsgAudio :: string where "MsgAudio = ''m.audio''"
definition msgBeeperGallery :: string where "msgBeeperGallery = ''com.beeper.gallery''"

record MatrixMessage =
  mm_Event :: "string option"
  mm_Portal :: "PortalKey option"
  mm_Bridge :: bool
  mm_Content :: "MessageEventContent option"
  mm_ReplyTo :: "Message option"

definition kakaoTime :: "int64 \<Rightarrow> gotime" where
  "kakaoTime seconds = (if seconds \<le> 0 then 0 else unixEpoch + seconds * 10 ^ 9)"

definition sentMessage :: "KakaoClient \<Rightarrow> int64 \<Rightarrow> int64 \<Rightarrow> int64 \<Rightarrow> int64 \<Rightarrow> string \<Rightarrow> Message" where
  "sentMessage kc chatID logID sendAt typ preview =
     \<lparr>me_ID = makeMessageID chatID logID, me_PartID = [], me_SenderID = makeUserID (kc_userID kc), me_Room = \<lparr>pk_ID = [], pk_Receiver = []\<rparr>,
      me_Timestamp = kakaoTime sendAt,
      me_Metadata = MetaPointer (Some (newKakaoMessageMetadata chatID logID (kc_userID kc) typ preview 0))\<rparr>"

text \<open>After the one send: a failure is classified, an accepted message without a position is uncertain.\<close>

definition finishWrite ::
    "KakaoClient \<Rightarrow> int64 \<Rightarrow> int64 \<Rightarrow> string \<Rightarrow> raw WriteResponse result \<times> outbound \<Rightarrow> (handler_error + Message) \<times> outbound" where
  "finishWrite kc chatID typ preview answer =
     (case answer of
        (Inl e, w) \<Rightarrow> (Inl (outboundSendError e), w)
      | (Inr response, w) \<Rightarrow>
          if wp_LogID response \<le> 0 then (Inl (outboundAcceptedWithoutPosition (Other ''accepted without a log ID'')), w)
          else (Inr (sentMessage kc chatID (wp_LogID response) (wp_SendAt response) typ preview), w))"

definition sendMatrixText ::
    "KakaoClient \<Rightarrow> out_env \<Rightarrow> int64 \<Rightarrow> string option \<Rightarrow> PortalKey \<Rightarrow> MessageEventContent \<Rightarrow> Message option \<Rightarrow> outbound
     \<Rightarrow> (handler_error + Message) \<times> outbound" where
  "sendMatrixText kc env chatID evt portal ct replyTo w =
     (let body = (if ct_MsgType ct = MsgEmote then ''* '' @ ct_Body ct else ct_Body ct);
          B = ue_bson (oe_up env); link = ue_link (oe_up env)
      in case replyTo of
           Some message \<Rightarrow>
             (case replyTargetFor message portal of
                Inl e \<Rightarrow> (Inl (replyTargetStatus e), w)
              | Inr target \<Rightarrow>
                  attempt kc env evt (\<lambda>w1. finishWrite kc chatID Reply body
                         (onLink (SendReply B link \<lparr>rr_ChatID = chatID, rr_Message = body, rr_Target = target\<rparr>) w1)) w)
         | None \<Rightarrow>
             attempt kc env evt (\<lambda>w1. finishWrite kc chatID Text body (onLink (SendText B link chatID body) w1)) w)"

subsection \<open>Media\<close>

definition MaxAlbumBytes :: nat where "MaxAlbumBytes = 64 * 2 ^ 20"

definition oversizedImage :: "MessageEventContent \<Rightarrow> go_error option" where
  "oversizedImage ct =
     (case ct_InfoSize ct of Some n \<Rightarrow> if n > int MaxImageBytes then Some media_ErrInvalidImage else None | None \<Rightarrow> None)"

definition finishMedia ::
    "KakaoClient \<Rightarrow> raw bson \<Rightarrow> int64 \<Rightarrow> int64 \<Rightarrow> string \<Rightarrow> SendResult result \<times> outbound \<Rightarrow> (handler_error + Message) \<times> outbound" where
  "finishMedia kc B chatID typ preview answer =
     (case answer of
        (Inl e, w) \<Rightarrow> (Inl (outboundSendError e), w)
      | (Inr response, w) \<Rightarrow>
          (case SendResultPosition B response of
             Inl e \<Rightarrow> (Inl (outboundAcceptedWithoutPosition e), w)
           | Inr (logID, sendAt) \<Rightarrow> (Inr (sentMessage kc chatID logID sendAt typ preview), w)))"

definition sendMatrixImage ::
    "KakaoClient \<Rightarrow> out_env \<Rightarrow> int64 \<Rightarrow> string option \<Rightarrow> MessageEventContent \<Rightarrow> outbound \<Rightarrow> (handler_error + Message) \<times> outbound" where
  "sendMatrixImage kc env chatID evt ct w =
     (let caption = (if ct_FileName ct \<noteq> [] \<and> ct_Body ct \<noteq> ct_FileName ct then ct_Body ct else [])
      in if \<not> ValidCaption caption then (Inl (certainRefusal media_ErrInvalidCaption), w)
         else (case oe_download env ct MaxImageBytes of
                 Inl _ \<Rightarrow> (Inl (retriableFetchFailure (Other ''download Matrix image failed'')), w)
               | Inr data \<Rightarrow>
                   (case PrepareImage (ue_lib (oe_up env)) data of
                      Inl e \<Rightarrow> (Inl (certainRefusal e), w)
                    | Inr _ \<Rightarrow>
                        attempt kc env evt (\<lambda>w1. finishMedia kc (ue_bson (oe_up env)) chatID Photo ''[image]''
                               (onUploads (SendImage (oe_up env) chatID data caption) w1)) w)))"

definition uploadRejectedStatus :: "go_error \<Rightarrow> handler_error" where
  "uploadRejectedStatus e = certainRefusal e"

definition sendMatrixUpload ::
    "KakaoClient \<Rightarrow> out_env \<Rightarrow> int64 \<Rightarrow> string option \<Rightarrow> MessageEventContent \<Rightarrow> outbound \<Rightarrow> (handler_error + Message) \<times> outbound" where
  "sendMatrixUpload kc env chatID evt ct w =
     (let name = (if ct_FileName ct = [] then ct_Body ct else ct_FileName ct);
          caption = (if ct_FileName ct \<noteq> [] \<and> ct_Body ct \<noteq> ct_FileName ct then ct_Body ct else []);
          L = ue_lib (oe_up env)
      in if (case ct_InfoSize ct of Some n \<Rightarrow> n > int MaxUploadBytes | None \<Rightarrow> False)
         then (Inl (uploadRejectedStatus media_ErrUploadTooLarge), w)
         else (case ClassifyUpload L name caption of
                 Inl e \<Rightarrow> (Inl (uploadRejectedStatus e), w)
               | Inr _ \<Rightarrow>
                   (case oe_download env ct MaxUploadBytes of
                      Inl _ \<Rightarrow> (Inl (retriableFetchFailure (Other ''download Matrix file failed'')), w)
                    | Inr data \<Rightarrow>
                        (case PrepareUpload L name data caption of
                           Inl e \<Rightarrow> (Inl (uploadRejectedStatus e), w)
                         | Inr upload \<Rightarrow>
                             attempt kc env evt (\<lambda>w1. finishMedia kc (ue_bson (oe_up env)) chatID (ul_Type upload) (ul_Name upload)
                                    (onUploads (SendUpload (oe_up env) chatID upload) w1)) w))))"

text \<open>The photos of an album, fetched and checked one after the other; the count is the bytes so far.\<close>

fun fetchAlbum :: "out_env \<Rightarrow> nat \<Rightarrow> MessageEventContent option list \<Rightarrow> handler_error + byte list list" where
  "fetchAlbum env sofar [] = Inr []"
| "fetchAlbum env sofar (picture # pictures) =
     (case picture of
        None \<Rightarrow> Inl (certainRefusal media_ErrInvalidAlbum)
      | Some ct \<Rightarrow>
          (case oe_download env ct MaxImageBytes of
             Inl _ \<Rightarrow> Inl (retriableFetchFailure (Other ''download Matrix album photo failed''))
           | Inr data \<Rightarrow>
               (case PrepareImage (ue_lib (oe_up env)) data of
                  Inl e \<Rightarrow> Inl (certainRefusal e)
                | Inr _ \<Rightarrow>
                    if sofar + length data > MaxAlbumBytes then Inl (certainRefusal media_ErrInvalidAlbum)
                    else (case fetchAlbum env (sofar + length data) pictures of
                            Inl h \<Rightarrow> Inl h | Inr photos \<Rightarrow> Inr (data # photos)))))"

definition sendMatrixAlbum ::
    "KakaoClient \<Rightarrow> out_env \<Rightarrow> int64 \<Rightarrow> string option \<Rightarrow> MessageEventContent option list \<Rightarrow> string \<Rightarrow> outbound
     \<Rightarrow> (handler_error + Message) \<times> outbound" where
  "sendMatrixAlbum kc env chatID evt pictures caption w =
     (case pictures of
        [Some single] \<Rightarrow>
          sendMatrixImage kc env chatID evt
            (if caption \<noteq> [] then single\<lparr>ct_FileName := ct_Body single, ct_Body := caption\<rparr> else single) w
      | _ \<Rightarrow>
          if length pictures < MinAlbumPhotos \<or> length pictures > MaxAlbumPhotos then (Inl (certainRefusal media_ErrInvalidAlbum), w)
          else if \<not> ValidCaption caption then (Inl (certainRefusal media_ErrInvalidCaption), w)
          else (case fetchAlbum env 0 pictures of
                  Inl h \<Rightarrow> (Inl h, w)
                | Inr photos \<Rightarrow>
                    attempt kc env evt (\<lambda>w1. (case onUploads (SendAlbum (oe_up env) chatID photos caption) w1 of
                            (Inl e, w2) \<Rightarrow>
                              if errors_Is e ErrAlbumNotCreated then (Inl (certainSendFailure e), w2)
                              else (Inl (outboundSendError e), w2)
                          | (Inr response, w2) \<Rightarrow> finishWrite kc chatID MultiPhoto ''[album]'' (Inr response, w2))) w))"

definition sendMatrixGallery ::
    "KakaoClient \<Rightarrow> out_env \<Rightarrow> int64 \<Rightarrow> string option \<Rightarrow> outbound \<Rightarrow> (handler_error + Message) \<times> outbound" where
  "sendMatrixGallery kc env chatID evt w =
     (case evt of
        None \<Rightarrow> (Inl (certainRefusal media_ErrInvalidAlbum), w)
      | Some e \<Rightarrow>
          (case oe_gallery env e of
             None \<Rightarrow> (Inl (certainRefusal media_ErrInvalidAlbum), w)
           | Some (pictures, caption) \<Rightarrow> sendMatrixAlbum kc env chatID evt pictures caption w))"

definition withMediaSend ::
    "out_env \<Rightarrow> MatrixMessage \<Rightarrow> MessageEventContent \<Rightarrow> go_error \<Rightarrow> go_error option
     \<Rightarrow> (outbound \<Rightarrow> (handler_error + Message) \<times> outbound) \<Rightarrow> outbound \<Rightarrow> (handler_error + Message) \<times> outbound" where
  "withMediaSend env msg ct replyRefusal rejected send w =
     (if mm_ReplyTo msg \<noteq> None \<or> ct_ReplyTo ct then (Inl (certainRefusal replyRefusal), w)
      else if \<not> mm_Bridge msg then (Inl (Plain ErrFailedToGetIntent), w)
      else (case rejected of
              Some e \<Rightarrow> (Inl (Plain e), w)
            | None \<Rightarrow> if \<not> oe_intent env then (Inl (Plain ErrFailedToGetIntent), w) else send w))"

subsection \<open>Matrix messages\<close>

definition HandleMatrixMessage ::
    "KakaoClient \<Rightarrow> out_env \<Rightarrow> MatrixMessage option \<Rightarrow> outbound \<Rightarrow> (handler_error + Message) \<times> outbound" where
  "HandleMatrixMessage kc env message w =
     (case message of
        Some msg \<Rightarrow>
          (case (mm_Portal msg, mm_Content msg) of
             (Some portal, Some ct) \<Rightarrow>
               if ct_MsgType ct \<notin> {MsgText, MsgNotice, MsgEmote, MsgImage, MsgFile, MsgVideo, MsgAudio, msgBeeperGallery}
               then (Inl (Plain ErrUnsupportedMessageType), w)
               else (case parseChatID (pk_ID portal) of
                       Inl e \<Rightarrow> (Inl (Plain e), w)
                     | Inr chatID \<Rightarrow>
                         (case checkSourceAccess kc env chatID of
                            Some e \<Rightarrow> (Inl (Plain e), w)
                          | None \<Rightarrow>
                              if mm_ReplyTo msg = None \<and> ct_ReplyTo ct then (Inl (replyTargetStatus errMissingReplyMetadata), w)
                              else if \<not> kc_client kc then (Inl (Plain ErrNotLoggedIn), w)
                              else if ct_MsgType ct = MsgImage
                              then withMediaSend env msg ct errUnsupportedImageReply (oversizedImage ct)
                                     (sendMatrixImage kc env chatID (mm_Event msg) ct) w
                              else if ct_MsgType ct \<in> {MsgFile, MsgVideo, MsgAudio}
                              then withMediaSend env msg ct errUnsupportedUploadReply None
                                     (sendMatrixUpload kc env chatID (mm_Event msg) ct) w
                              else if ct_MsgType ct = msgBeeperGallery
                              then withMediaSend env msg ct errUnsupportedUploadReply None
                                     (sendMatrixGallery kc env chatID (mm_Event msg)) w
                              else sendMatrixText kc env chatID (mm_Event msg) portal ct (mm_ReplyTo msg) w))
           | _ \<Rightarrow> (Inl (Plain errSourceAccessRemoved), w))
      | None \<Rightarrow> (Inl (Plain errSourceAccessRemoved), w))"

subsection \<open>Edits\<close>

definition kakaoEditWindow :: duration where "kakaoEditWindow = 24 * 3600 * 10 ^ 9"
definition kakaoDeleteWindow :: duration where "kakaoDeleteWindow = 1440 * 60 * 10 ^ 9"
definition maxTextLength :: nat where "maxTextLength = 10000"
definition stickerTextPartID :: string where "stickerTextPartID = ''text''"

record MatrixEdit =
  mt_Event :: "string option"
  mt_Portal :: "PortalKey option"
  mt_Body :: "string option"
  mt_EditTarget :: "Message option"

definition editablePart :: "int64 \<Rightarrow> string \<Rightarrow> bool" where
  "editablePart messageType partID =
     (if messageType = Sticker \<or> messageType = AnimatedSticker then partID = stickerTextPartID
      else if messageType = Reply then partID = []
      else False)"

definition editExtra :: "KakaoClient \<Rightarrow> out_env \<Rightarrow> int64 \<Rightarrow> KakaoMessageMetadata \<Rightarrow> outbound \<Rightarrow> (handler_error + string) \<times> outbound" where
  "editExtra kc env chatID meta w =
     (case onLink (client_EditSource (ue_bson (oe_up env)) (ue_link (oe_up env)) chatID (km_LogID meta)) w of
        (Inl e, w1) \<Rightarrow>
          (Inl (if errors_Is e chat_ErrEditSourceMissing then certainRefusal e else certainSendFailure e), w1)
      | (Inr source, w1) \<Rightarrow>
          if es_AuthorID source \<noteq> kc_userID kc \<or> es_Type source \<noteq> km_Type meta then (Inl (certainRefusal errEditNotAllowed), w1)
          else (case ModifyExtra source of
                  Inl e \<Rightarrow> (Inl (certainRefusal errEditNotAllowed), w1)
                | Inr extra \<Rightarrow> (Inr extra, w1)))"

text \<open>The other parts of an edited message.\<close>

fun recordParts :: "out_env \<Rightarrow> string \<Rightarrow> int64 \<Rightarrow> string \<Rightarrow> nat \<Rightarrow> Message list \<Rightarrow> Message list" where
  "recordParts env partID revision text i [] = []"
| "recordParts env partID revision text i (part # parts) =
     (case (if me_PartID part = partID then None else pointerMeta (me_Metadata part)) of
        None \<Rightarrow> recordParts env partID revision text i parts
      | Some meta \<Rightarrow>
          let part' = part\<lparr>me_Metadata := MetaPointer (Some (meta\<lparr>km_Revision := revision, km_Preview := truncateReplyPreview text\<rparr>))\<rparr>
          in (if oe_update env i = None then [part'] else []) @ recordParts env partID revision text (i + 1) parts)"

definition recordEditOnOtherParts :: "out_env \<Rightarrow> Message \<Rightarrow> int64 \<Rightarrow> string \<Rightarrow> outbound \<Rightarrow> outbound" where
  "recordEditOnOtherParts env target revision text w =
     (case oe_parts env (me_ID target) of
        Inl _ \<Rightarrow> w
      | Inr parts \<Rightarrow> w\<lparr>ob_updates := ob_updates w @ recordParts env (me_PartID target) revision text 0 parts\<rparr>)"

text \<open>Kakao's own rules for an edit, in the order they are checked, at a time.\<close>

definition editRefusal :: "KakaoClient \<Rightarrow> int64 \<Rightarrow> gotime \<Rightarrow> Message \<Rightarrow> KakaoMessageMetadata option \<Rightarrow> go_error option" where
  "editRefusal kc chatID now target meta =
     (case meta of
        None \<Rightarrow> Some errEditNotAllowed
      | Some m \<Rightarrow>
          if km_ChatID m \<noteq> chatID \<or> km_LogID m \<le> 0 then Some errEditNotAllowed
          else if km_AuthorID m \<noteq> kc_userID kc then Some errEditNotAllowed
          else if (km_Type m AND DeletedAllChatTypeFlag) \<noteq> 0 then Some errEditNotAllowed
          else if km_Type m \<noteq> Text \<and> \<not> editablePart (km_Type m) (me_PartID target) then Some errEditNotAllowed
          else if now - me_Timestamp target > kakaoEditWindow then Some errEditNotAllowed
          else None)"

text \<open>The send of an edit that passed the rules, and what it records.\<close>

definition sendEdit ::
    "KakaoClient \<Rightarrow> out_env \<Rightarrow> int64 \<Rightarrow> string option \<Rightarrow> Message \<Rightarrow> KakaoMessageMetadata \<Rightarrow> string \<Rightarrow> string \<Rightarrow> outbound
     \<Rightarrow> (handler_error + Message) \<times> outbound" where
  "sendEdit kc env chatID evt target meta body extra w =
     attempt kc env evt (\<lambda>w1. (case onLink (ModifyMessage (ue_bson (oe_up env)) (ue_link (oe_up env))
                  \<lparr>md_ChatID = chatID, md_LogID = km_LogID meta, md_Type = km_Type meta, md_Message = body, md_Extra = extra\<rparr>) w1 of
             (Inl e, w2) \<Rightarrow> (Inl (outboundSendError e), w2)
           | (Inr revision, w2) \<Rightarrow>
               let target' = target\<lparr>me_Metadata := MetaPointer (Some (meta\<lparr>km_Revision := revision, km_Preview := body\<rparr>))\<rparr>
               in (Inr target', recordEditOnOtherParts env target' revision body w2))) w"

definition HandleMatrixEdit ::
    "KakaoClient \<Rightarrow> out_env \<Rightarrow> MatrixEdit option \<Rightarrow> outbound \<Rightarrow> (handler_error + Message) \<times> outbound" where
  "HandleMatrixEdit kc env edit w =
     (case edit of
        None \<Rightarrow> (Inl (Plain errSourceAccessRemoved), w)
      | Some msg \<Rightarrow>
          (case (mt_Portal msg, mt_Body msg, mt_EditTarget msg) of
             (Some portal, Some body, Some target) \<Rightarrow>
               (case parseChatID (pk_ID portal) of
                  Inl e \<Rightarrow> (Inl (Plain e), w)
                | Inr chatID \<Rightarrow>
                    (case checkSourceAccess kc env chatID of
                       Some e \<Rightarrow> (Inl (Plain e), w)
                     | None \<Rightarrow>
                         let meta = pointerMeta (me_Metadata target); now = oe_now env (ob_clock w); w1 = w\<lparr>ob_clock := ob_clock w + 1\<rparr>
                         in (case (editRefusal kc chatID now target meta, meta) of
                               (None, Some m) \<Rightarrow>
                                 if body = km_Preview m then (Inr target, w1)
                                 else if body = [] \<or> length body > maxTextLength then (Inl (certainRefusal errEditNotAllowed), w1)
                                 else if \<not> kc_client kc then (Inl (Plain ErrNotLoggedIn), w1)
                                 else if km_Type m = Text then sendEdit kc env chatID (mt_Event msg) target m body ''{}'' w1
                                 else (case editExtra kc env chatID m w1 of
                                         (Inl h, w2) \<Rightarrow> (Inl h, w2)
                                       | (Inr extra, w2) \<Rightarrow> sendEdit kc env chatID (mt_Event msg) target m body extra w2)
                             | _ \<Rightarrow> (Inl (certainRefusal errEditNotAllowed), w1))))
           | _ \<Rightarrow> (Inl (Plain errSourceAccessRemoved), w)))"

subsection \<open>Deletions\<close>

record MatrixMessageRemove =
  mr_Event :: "string option"
  mr_Portal :: "PortalKey option"
  mr_TargetMessage :: "Message option"

definition matrixDeletionKey :: "KakaoClient \<Rightarrow> string \<Rightarrow> string" where
  "matrixDeletionKey kc messageID = ''kakao:matrix-deleted:'' @ kc_loginID kc @ '':'' @ messageID"

definition recordMatrixDeletion :: "KakaoClient \<Rightarrow> out_env \<Rightarrow> string \<Rightarrow> outbound \<Rightarrow> outbound" where
  "recordMatrixDeletion kc env messageID w =
     w\<lparr>ob_clock := ob_clock w + 1,
       ob_db := snd (putIfAbsent (oe_kv env) (matrixDeletionKey kc messageID) (kvTimeStamp (oe_now env (ob_clock w))) (ob_db w))\<rparr>"

definition deletedFromMatrix :: "KakaoClient \<Rightarrow> out_env \<Rightarrow> string \<Rightarrow> outbound \<Rightarrow> bool" where
  "deletedFromMatrix kc env messageID w =
     (case fst (get (oe_kv env) (matrixDeletionKey kc messageID) (ob_db w)) of Inl _ \<Rightarrow> False | Inr found \<Rightarrow> found \<noteq> None)"

datatype removal = RemovalRefused go_error | RemovalLocal | RemovalAllowed KakaoMessageMetadata

definition removalRule :: "KakaoClient \<Rightarrow> int64 \<Rightarrow> gotime \<Rightarrow> Message \<Rightarrow> removal" where
  "removalRule kc chatID now target =
     (case pointerMeta (me_Metadata target) of
        None \<Rightarrow> RemovalRefused errDeleteNotAllowed
      | Some m \<Rightarrow>
          if km_ChatID m \<noteq> chatID \<or> km_LogID m \<le> 0 then RemovalRefused errDeleteNotAllowed
          else if (km_Type m AND DeletedAllChatTypeFlag) \<noteq> 0 then RemovalLocal
          else if km_Type m = Mvoip then RemovalRefused errCallDeleteNotSupported
          else if km_AuthorID m \<noteq> kc_userID kc then RemovalRefused errDeleteNotAllowed
          else if km_Type m = Leverage then RemovalRefused errLeverageDeleteNotSupported
          else if now - me_Timestamp target > kakaoDeleteWindow then RemovalRefused errDeleteNotAllowed
          else RemovalAllowed m)"

definition finishDelete ::
    "KakaoClient \<Rightarrow> out_env \<Rightarrow> string \<Rightarrow> unit result \<times> outbound \<Rightarrow> (handler_error + unit) \<times> outbound" where
  "finishDelete kc env messageID answer =
     (case answer of
        (Inr _, w) \<Rightarrow> (Inr (), recordMatrixDeletion kc env messageID w)
      | (Inl e, w) \<Rightarrow>
          if asStatus e = Some StatusAlreadyDeleted then (Inr (), recordMatrixDeletion kc env messageID w)
          else if asStatus e = Some StatusDeleteTimeExpired then (Inl (certainRefusal errDeleteNotAllowed), w)
          else if asStatus e = Some StatusDeleteTypeNotAllowed then (Inl (certainRefusal errDeleteNotAllowed), w)
          else (Inl (outboundSendError e), w))"

definition HandleMatrixMessageRemove ::
    "KakaoClient \<Rightarrow> out_env \<Rightarrow> MatrixMessageRemove option \<Rightarrow> outbound \<Rightarrow> (handler_error + unit) \<times> outbound" where
  "HandleMatrixMessageRemove kc env removal w =
     (case removal of
        None \<Rightarrow> (Inl (Plain errSourceAccessRemoved), w)
      | Some msg \<Rightarrow>
          (case (mr_Portal msg, mr_TargetMessage msg) of
             (Some portal, Some target) \<Rightarrow>
               (case parseChatID (pk_ID portal) of
                  Inl e \<Rightarrow> (Inl (Plain e), w)
                | Inr chatID \<Rightarrow>
                    (case checkSourceAccess kc env chatID of
                       Some e \<Rightarrow> (Inl (Plain e), w)
                     | None \<Rightarrow>
                         let w1 = w\<lparr>ob_clock := ob_clock w + 1\<rparr>
                         in (case removalRule kc chatID (oe_now env (ob_clock w)) target of
                               RemovalRefused e \<Rightarrow> (Inl (certainRefusal e), w1)
                             | RemovalLocal \<Rightarrow> (Inr (), w1)
                             | RemovalAllowed m \<Rightarrow>
                                 if \<not> kc_client kc then (Inl (Plain ErrNotLoggedIn), w1)
                                 else attempt kc env (mr_Event msg) (\<lambda>w2. finishDelete kc env (me_ID target)
                                             (onLink (DeleteMessage (ue_bson (oe_up env)) (ue_link (oe_up env))
                                                \<lparr>de_ChatID = chatID, de_LogID = km_LogID m\<rparr>) w2)) w1)))
           | _ \<Rightarrow> (Inl (Plain errSourceAccessRemoved), w)))"

subsection \<open>Nothing is sent before its reservation\<close>

text \<open>
  A run that reserved the event: its two statements were executed, the second found no row for the event, and
  the row is there now.
\<close>

definition reservedBy :: "KakaoClient \<Rightarrow> out_env \<Rightarrow> string option \<Rightarrow> gotime \<Rightarrow> kv_db \<Rightarrow> kv_db \<Rightarrow> bool" where
  "reservedBy kc env evt now db db' \<longleftrightarrow>
     (\<exists>k db1. evt = Some k \<and> k \<noteq> []
        \<and> exec (oe_kv env) (deleteWhere (attemptPrefix kc) (kvTimeStamp (now - outboundAttemptRetention))) db = (Inr 0, db1)
        \<and> kx_exec (oe_kv env) (kd_ops db1) = Executed
        \<and> kd_table (enter (oe_kv env) db1) (attemptPrefix kc @ k) = None
        \<and> db' = (enter (oe_kv env) db1)\<lparr>kd_table := (kd_table (enter (oe_kv env) db1))(attemptPrefix kc @ k \<mapsto> kvTimeStamp now)\<rparr>)"

lemma reserveOutboundKV_simps:
  "reserveOutboundKV kc env k w = (r, w1) \<Longrightarrow> ob_up w1 = ob_up w \<and> ob_updates w1 = ob_updates w"
  by (auto simp: reserveOutboundKV_def Let_def split: prod.splits option.splits)

lemma beginOutboundEvent_up: "beginOutboundEvent kc env evt w = (h, w1) \<Longrightarrow> ob_up w1 = ob_up w \<and> ob_updates w1 = ob_updates w"
  using reserveOutboundKV_simps by (auto simp: beginOutboundEvent_def split: if_splits prod.splits sum.splits)

lemma beginOutboundEvent_reserves:
  assumes "beginOutboundEvent kc env evt w = (None, w1)"
  shows "reservedBy kc env evt (oe_now env (ob_clock w)) (ob_db w) (ob_db w1)"
proof -
  from assms obtain k where k: "evt = Some k" "k \<noteq> []" "reserveOutboundKV kc env k w = (Inr True, w1)"
    by (auto simp: beginOutboundEvent_def split: if_splits prod.splits sum.splits)
  then obtain db1 where d: "deleteOlderThan (oe_kv env) (attemptPrefix kc) (kvTimeStamp (oe_now env (ob_clock w) - outboundAttemptRetention)) (ob_db w)
      = (None, db1)" "putIfAbsent (oe_kv env) (attemptPrefix kc @ k) (kvTimeStamp (oe_now env (ob_clock w))) db1 = (Inr True, ob_db w1)"
    by (auto simp: reserveOutboundKV_def Let_def split: prod.splits option.splits)
  have "exec (oe_kv env) (deleteWhere (attemptPrefix kc) (kvTimeStamp (oe_now env (ob_clock w) - outboundAttemptRetention))) (ob_db w) = (Inr 0, db1)"
    using d(1) by (auto simp: deleteOlderThan_def exec_def Let_def deleteWhere_def split: prod.splits sum.splits exec_answer.splits if_splits)
  moreover have "kx_exec (oe_kv env) (kd_ops db1) = Executed" "kd_table (enter (oe_kv env) db1) (attemptPrefix kc @ k) = None"
    "ob_db w1 = (enter (oe_kv env) db1)\<lparr>kd_table := (kd_table (enter (oe_kv env) db1))(attemptPrefix kc @ k \<mapsto> kvTimeStamp (oe_now env (ob_clock w)))\<rparr>"
    using d(2) by (auto simp: putIfAbsent_def execRows_def exec_def Let_def insertAbsent_def
        split: prod.splits sum.splits exec_answer.splits option.splits if_splits)
  ultimately show ?thesis using k unfolding reservedBy_def by blast
qed

lemma finish_simps:
  "snd (finishWrite kc chatID typ preview written) = snd written"
  "snd (finishMedia kc B chatID typ preview uploaded) = snd uploaded"
  by (auto simp: finishWrite_def finishMedia_def split: prod.splits sum.splits)

lemma attempt_cases:
  assumes "attempt kc env evt send w = (r, w')"
  obtains (refused) h where "r = Inl h" "\<not> certain h" "ob_up w' = ob_up w"
  | (sent) w1 where "reservedBy kc env evt (oe_now env (ob_clock w)) (ob_db w) (ob_db w1)" "ob_up w1 = ob_up w" "send w1 = (r, w')"
proof -
  obtain h w1 where b: "beginOutboundEvent kc env evt w = (h, w1)" by fastforce
  show ?thesis
  proof (cases h)
    case None
    then show ?thesis using sent [of w1] assms b beginOutboundEvent_reserves [of kc env evt w w1] beginOutboundEvent_up [OF b]
      by (simp add: attempt_def)
  next
    case (Some x)
    then have "\<not> certain x" using b
      by (auto simp: beginOutboundEvent_def certain_def alreadyAttempted_def split: if_splits prod.splits sum.splits)
    then show ?thesis using refused [of x] assms b Some beginOutboundEvent_up [OF b] by (simp add: attempt_def)
  qed
qed

text \<open>Nothing was sent, or the event was reserved first.\<close>

definition onceReserved :: "KakaoClient \<Rightarrow> out_env \<Rightarrow> string option \<Rightarrow> outbound \<Rightarrow> outbound \<Rightarrow> bool" where
  "onceReserved kc env evt w w' \<longleftrightarrow>
     ob_up w' = ob_up w \<or> (\<exists>db'. reservedBy kc env evt (oe_now env (ob_clock w)) (ob_db w) db')"

lemma onceReserved_refl [simp]: "onceReserved kc env evt w w"
  by (simp add: onceReserved_def)

lemma attempt_reserved: "attempt kc env evt send w = (r, w') \<Longrightarrow> onceReserved kc env evt w w'"
  by (erule attempt_cases) (auto simp: onceReserved_def)

lemma sendMatrixText_reserved:
  "sendMatrixText kc env chatID evt portal ct replyTo w = (r, w') \<Longrightarrow> onceReserved kc env evt w w'"
  by (auto simp: sendMatrixText_def Let_def split: option.splits sum.splits dest: attempt_reserved)

lemma sendMatrixImage_reserved: "sendMatrixImage kc env chatID evt ct w = (r, w') \<Longrightarrow> onceReserved kc env evt w w'"
  by (auto simp: sendMatrixImage_def Let_def split: if_splits sum.splits dest: attempt_reserved)

lemma sendMatrixUpload_reserved: "sendMatrixUpload kc env chatID evt ct w = (r, w') \<Longrightarrow> onceReserved kc env evt w w'"
  by (auto simp: sendMatrixUpload_def Let_def split: if_splits sum.splits option.splits dest: attempt_reserved)

lemma sendMatrixGallery_reserved: "sendMatrixGallery kc env chatID evt w = (r, w') \<Longrightarrow> onceReserved kc env evt w w'"
  by (auto simp: sendMatrixGallery_def sendMatrixAlbum_def split: option.splits list.splits if_splits sum.splits prod.splits
      dest: attempt_reserved sendMatrixImage_reserved)

lemma withMediaSend_reserved:
  "withMediaSend env msg ct refusal rejected send w = (r, w') \<Longrightarrow> (\<And>r w'. send w = (r, w') \<Longrightarrow> onceReserved kc env evt w w') \<Longrightarrow>
   onceReserved kc env evt w w'"
  by (auto simp: withMediaSend_def split: if_splits option.splits)

lemma message_reserved:
  "HandleMatrixMessage kc env (Some msg) w = (r, w') \<Longrightarrow> onceReserved kc env (mm_Event msg) w w'"
  by (auto simp: HandleMatrixMessage_def split: option.splits if_splits sum.splits
      dest: sendMatrixText_reserved sendMatrixImage_reserved sendMatrixUpload_reserved sendMatrixGallery_reserved
      elim!: withMediaSend_reserved)

subsection \<open>Each event is sent once\<close>

definition mutating :: "string \<Rightarrow> bool" where
  "mutating command \<longleftrightarrow> command \<in> {''WRITE'', ''WRITEMEDIA'', ''MODIFYMSG'', ''DELETEMSG''}"

definition commandsSince :: "outbound \<Rightarrow> outbound \<Rightarrow> string list" where
  "commandsSince w w' = map fst (sentSince (ob_up w) (ob_up w'))"

text \<open>What the session has sent only grows.\<close>

definition extends :: "uploads \<Rightarrow> string list \<Rightarrow> uploads \<Rightarrow> bool" where
  "extends U commands U' \<longleftrightarrow> (\<exists>reqs. lk_sent (up_link U') = lk_sent (up_link U) @ reqs \<and> map fst reqs = commands)"

lemma extends_refl: "extends U [] U"
  by (simp add: extends_def)

lemma extends_trans: "extends U as V \<Longrightarrow> extends V bs W \<Longrightarrow> extends U (as @ bs) W"
  by (auto simp: extends_def)

lemma extends_since: "extends (ob_up w) commands (ob_up w') \<Longrightarrow> commandsSince w w' = commands"
  by (auto simp: extends_def commandsSince_def sentSince_def)

lemma sessionRequest_extends: "sessionRequest E command body U = (r, U') \<Longrightarrow> extends U [command] U'"
  by (auto simp: sessionRequest_def extends_def)

lemma openUpload_sent: "openUpload E command postBody data U = (r, U') \<Longrightarrow> lk_sent (up_link U') = lk_sent (up_link U)"
  using openUpload_link [of E command postBody data U] by simp

lemma trailerUpload_extends: "trailerUpload E ship data post U = (r, U') \<Longrightarrow> extends U [''SHIP''] U'"
  by (auto simp: trailerUpload_def sessionRequest_def extends_def split: sum.splits if_splits prod.splits dest: openUpload_sent)

lemma directSend_extends:
  "directSend E chatID m fail wr U = (r, U') \<Longrightarrow> extends U [] U' \<or> extends U [''WRITEMEDIA''] U'"
  by (auto simp: directSend_def sessionRequest_def extends_def split: sum.splits option.splits prod.splits if_splits)

lemma directs_extend:
  "directPhoto E chatID data caption U = (r, U') \<Longrightarrow> extends U [] U' \<or> extends U [''WRITEMEDIA''] U'"
  "directUpload E chatID upload U = (r, U') \<Longrightarrow> extends U [] U' \<or> extends U [''WRITEMEDIA''] U'"
  by (auto simp: directPhoto_def directUpload_def extends_refl split: sum.splits dest: directSend_extends)

lemma onSession_extends:
  assumes "onSession E fn U = (r, U')" "\<And>V r V'. fn V = (r, V') \<Longrightarrow> \<exists>commands\<in>shapes. extends V commands V'" "[] \<in> shapes"
  shows "\<exists>commands\<in>shapes. extends U commands U'"
proof -
  let ?V = "U\<lparr>up_link := (up_link U)\<lparr>lk_calls := lk_calls (up_link U) + 1\<rparr>\<rparr>"
  have "extends ?V commands W = extends U commands W" for commands W by (simp add: extends_def)
  moreover have "extends U [] ?V" by (simp add: extends_def)
  ultimately show ?thesis using assms(1,3) assms(2) [of ?V r U'] by (auto simp: onSession_def Let_def split: option.splits)
qed

definition mediaShapes :: "string list set" where
  "mediaShapes = {[], [''SHIP''], [''SHIP'', ''WRITEMEDIA'']}"

lemma SendImage_extends: "SendImage E chatID data caption U = (r, U') \<Longrightarrow> \<exists>commands\<in>mediaShapes. extends U commands U'"
proof (unfold SendImage_def, erule onSession_extends)
  fix V r V'
  assume s: "(case session_SendImage E chatID data caption V of
      (r, U1) \<Rightarrow> if \<not> redirected r then (r, U1) else directPhoto E chatID data caption U1) = (r, V')"
  obtain r1 U1 where u: "session_SendImage E chatID data caption V = (r1, U1)" by fastforce
  from session_SendImage_form [OF u] show "\<exists>commands\<in>mediaShapes. extends V commands V'"
    using s u extends_refl [of V] by (auto simp: mediaShapes_def split: if_splits
        dest!: trailerUpload_extends directs_extend(1) dest: extends_trans)
qed (simp add: mediaShapes_def)

lemma SendUpload_extends: "SendUpload E chatID upload U = (r, U') \<Longrightarrow> \<exists>commands\<in>mediaShapes. extends U commands U'"
proof (unfold SendUpload_def, erule onSession_extends)
  fix V r V'
  assume s: "(case session_SendUpload E chatID upload V of
      (r, U1) \<Rightarrow> if \<not> redirected r then (r, U1) else directUpload E chatID upload U1) = (r, V')"
  obtain r1 U1 where u: "session_SendUpload E chatID upload V = (r1, U1)" by fastforce
  from session_SendUpload_form [OF u] show "\<exists>commands\<in>mediaShapes. extends V commands V'"
    using s u extends_refl [of V] by (auto simp: mediaShapes_def split: if_splits
        dest!: trailerUpload_extends directs_extend(2) dest: extends_trans)
qed (simp add: mediaShapes_def)

lemma SendAlbum_extends:
  "SendAlbum E chatID photos caption U = (r, U') \<Longrightarrow> \<exists>commands\<in>{[], [''MSHIP''], [''MSHIP'', ''WRITE'']}. extends U commands U'"
  unfolding SendAlbum_def
  by (erule onSession_extends)
    (auto simp: session_SendAlbum_def sessionRequest_def extends_def split: sum.splits if_splits prod.splits option.splits
      dest: postPhotos_sent)

text \<open>One call on the session sends at most one request.\<close>

lemma withSession_call:
  "withSession env (chatCall env c body dec) L = (r, L') \<Longrightarrow>
   lk_sent L' = lk_sent L \<or> (\<exists>doc. body = Inr doc \<and> lk_sent L' = lk_sent L @ [(c, doc)]
     \<and> (\<forall>e. r = Inl e \<longrightarrow> lk_answer env (length (lk_sent L)) c doc = Inl e
          \<or> (\<exists>reply. lk_answer env (length (lk_sent L)) c doc = Inr reply \<and> dec reply = Inl e)))"
  by (auto simp: withSession_def chatCall_def Let_def split: option.splits sum.splits)

lemma attempt_extends:
  assumes "attempt kc env evt send w = (r, w')" "\<And>w1. send w1 = (r, w') \<Longrightarrow> \<exists>commands\<in>shapes. extends (ob_up w1) commands (ob_up w')" "[] \<in> shapes"
  shows "\<exists>commands\<in>shapes. extends (ob_up w) commands (ob_up w')"
  using assms(1)
proof (cases rule: attempt_cases)
  case (refused h)
  then show ?thesis using assms(3) extends_refl [of "ob_up w"] by auto
next
  case (sent w1)
  then show ?thesis using assms(2) [OF sent(3)] by simp
qed

definition sendsOne :: "string \<Rightarrow> (raw link \<Rightarrow> 'a result \<times> raw link) \<Rightarrow> bool" where
  "sendsOne c f \<longleftrightarrow> (\<forall>L. lk_sent (snd (f L)) = lk_sent L \<or> (\<exists>doc. lk_sent (snd (f L)) = lk_sent L @ [(c, doc)]))"

definition shaped :: "string list set \<Rightarrow> (uploads \<Rightarrow> 'a result \<times> uploads) \<Rightarrow> bool" where
  "shaped shapes g \<longleftrightarrow> (\<forall>U. \<exists>commands\<in>shapes. extends U commands (snd (g U)))"

lemma onLink_extends:
  assumes "sendsOne c f"
  shows "extends (ob_up w) [] (ob_up (snd (onLink f w))) \<or> extends (ob_up w) [c] (ob_up (snd (onLink f w)))"
proof -
  have "lk_sent (snd (f (up_link (ob_up w)))) = lk_sent (up_link (ob_up w))
      \<or> (\<exists>doc. lk_sent (snd (f (up_link (ob_up w)))) = lk_sent (up_link (ob_up w)) @ [(c, doc)])" using assms unfolding sendsOne_def by blast
  then show ?thesis by (auto simp: onLink_def case_prod_beta extends_def)
qed

lemma onUploads_extends: "shaped shapes g \<Longrightarrow> \<exists>commands\<in>shapes. extends (ob_up w) commands (ob_up (snd (onUploads g w)))"
  by (simp add: onUploads_def case_prod_beta shaped_def)

lemma sends_one:
  "sendsOne ''WRITE'' (SendText B env chatID body)" "sendsOne ''WRITE'' (SendReply B env request)"
  "sendsOne ''MODIFYMSG'' (ModifyMessage B env modify)" "sendsOne ''DELETEMSG'' (DeleteMessage B env delete)"
  "sendsOne ''GETMSGS'' (client_EditSource B env chatID logID)"
  by (auto simp: sendsOne_def SendText_def SendReply_def ModifyMessage_def DeleteMessage_def client_EditSource_def
      withSession_def chatCall_def Let_def split: option.splits sum.splits)

definition messageShapes :: "string list set" where
  "messageShapes = {[], [''WRITE''], [''SHIP''], [''SHIP'', ''WRITEMEDIA''], [''MSHIP''], [''MSHIP'', ''WRITE'']}"

lemma shaped_sends:
  "shaped messageShapes (SendImage E chatID data caption)" "shaped messageShapes (SendUpload E chatID upload)"
  "shaped messageShapes (SendAlbum E chatID photos caption)"
  using SendImage_extends [where E = E and chatID = chatID and data = data and caption = caption, OF surjective_pairing]
    SendUpload_extends [where E = E and chatID = chatID and upload = upload, OF surjective_pairing]
    SendAlbum_extends [where E = E and chatID = chatID and photos = photos and caption = caption, OF surjective_pairing]
  by (simp_all add: shaped_def messageShapes_def mediaShapes_def) blast+

lemma finishWrite_extends:
  "sendsOne ''WRITE'' f \<Longrightarrow> finishWrite kc chatID typ preview (onLink f w1) = (r, w') \<Longrightarrow> \<exists>commands\<in>messageShapes. extends (ob_up w1) commands (ob_up w')"
  using onLink_extends [of "''WRITE''" f w1] finish_simps(1) [of kc chatID "typ" preview "onLink f w1"]
  by (auto simp: messageShapes_def)

lemma finishMedia_extends:
  "shaped messageShapes g \<Longrightarrow> finishMedia kc B chatID typ preview (onUploads g w1) = (r, w') \<Longrightarrow> \<exists>commands\<in>messageShapes. extends (ob_up w1) commands (ob_up w')"
  using onUploads_extends [of messageShapes g w1] finish_simps(2) [of kc B chatID "typ" preview "onUploads g w1"] by simp

lemma shape_refl: "\<exists>commands\<in>messageShapes. extends U commands U"
  using extends_refl [of U] by (auto simp: messageShapes_def)

lemma Nil_shape [simp]: "[] \<in> messageShapes"
  by (simp add: messageShapes_def)

lemma sendMatrixText_extends:
  "sendMatrixText kc env chatID evt portal ct replyTo w = (r, w') \<Longrightarrow> \<exists>commands\<in>messageShapes. extends (ob_up w) commands (ob_up w')"
  by (auto simp: sendMatrixText_def Let_def shape_refl split: option.splits sum.splits
      elim!: attempt_extends intro: finishWrite_extends sends_one)

lemma sendMatrixImage_extends:
  "sendMatrixImage kc env chatID evt ct w = (r, w') \<Longrightarrow> \<exists>commands\<in>messageShapes. extends (ob_up w) commands (ob_up w')"
  by (auto simp: sendMatrixImage_def Let_def shape_refl split: if_splits sum.splits
      elim!: attempt_extends intro: finishMedia_extends shaped_sends)

lemma sendMatrixUpload_extends:
  "sendMatrixUpload kc env chatID evt ct w = (r, w') \<Longrightarrow> \<exists>commands\<in>messageShapes. extends (ob_up w) commands (ob_up w')"
  by (auto simp: sendMatrixUpload_def Let_def shape_refl split: if_splits sum.splits option.splits
      elim!: attempt_extends intro: finishMedia_extends shaped_sends)

lemma sendMatrixAlbum_extends:
  "sendMatrixAlbum kc env chatID evt pictures caption w = (r, w') \<Longrightarrow> \<exists>commands\<in>messageShapes. extends (ob_up w) commands (ob_up w')"
proof -
  have a: "\<exists>commands\<in>messageShapes. extends (ob_up w1) commands (ob_up w')"
    if "(case onUploads (SendAlbum (oe_up env) chatID photos caption) w1 of
        (Inl e, w2) \<Rightarrow> if errors_Is e ErrAlbumNotCreated then (Inl (certainSendFailure e), w2) else (Inl (outboundSendError e), w2)
      | (Inr response, w2) \<Rightarrow> finishWrite kc chatID MultiPhoto ''[album]'' (Inr response, w2)) = (r, w')" for w1 photos
    using that onUploads_extends [OF shaped_sends(3), of w1 "oe_up env" chatID photos caption]
    by (auto simp: finishWrite_def split: prod.splits sum.splits if_splits)
  assume "sendMatrixAlbum kc env chatID evt pictures caption w = (r, w')"
  then show ?thesis
    by (auto simp: sendMatrixAlbum_def shape_refl split: list.splits option.splits if_splits sum.splits
        dest: sendMatrixImage_extends elim!: attempt_extends intro: a)
qed

lemma message_extended:
  "HandleMatrixMessage kc env (Some msg) w = (r, w') \<Longrightarrow> \<exists>commands\<in>messageShapes. extends (ob_up w) commands (ob_up w')"
  by (auto simp: HandleMatrixMessage_def withMediaSend_def sendMatrixGallery_def shape_refl split: option.splits if_splits sum.splits prod.splits
      dest: sendMatrixText_extends sendMatrixImage_extends sendMatrixUpload_extends sendMatrixAlbum_extends)

text \<open>
  What one run has sent: at most one request that changes a chat; and unless the event was reserved in this
  run, with the clock read at \<open>clk\<close>, at most a read (GETMSGS), and no media.
\<close>

definition sentOnce :: "KakaoClient \<Rightarrow> out_env \<Rightarrow> string option \<Rightarrow> nat \<Rightarrow> outbound \<Rightarrow> outbound \<Rightarrow> bool" where
  "sentOnce kc env evt clk w w' \<longleftrightarrow>
     lk_sent (up_link (ob_up w')) = lk_sent (up_link (ob_up w)) @ sentSince (ob_up w) (ob_up w')
     \<and> length (filter mutating (commandsSince w w')) \<le> 1
     \<and> (set (commandsSince w w') \<subseteq> {''GETMSGS''} \<and> up_streams (ob_up w') = up_streams (ob_up w)
        \<or> (\<exists>db'. reservedBy kc env evt (oe_now env clk) (ob_db w) db'))"

lemma sentOnceI:
  assumes "extends (ob_up w) commands (ob_up w')" "length (filter mutating commands) \<le> 1"
    and "set commands \<subseteq> {''GETMSGS''} \<and> up_streams (ob_up w') = up_streams (ob_up w)
        \<or> (\<exists>db'. reservedBy kc env evt (oe_now env clk) (ob_db w) db')"
  shows "sentOnce kc env evt clk w w'"
  using assms extends_since [OF assms(1)] by (auto simp: sentOnce_def extends_def sentSince_def)

lemma sentOnce_same: "ob_up w' = ob_up w \<Longrightarrow> sentOnce kc env evt clk w w'"
  by (rule sentOnceI [of w "[]" w']) (use extends_refl [of "ob_up w"] in simp_all)

lemma editExtra_state:
  assumes "editExtra kc env chatID m w = (r, w1)"
  shows "ob_db w1 = ob_db w \<and> ob_clock w1 = ob_clock w \<and> up_streams (ob_up w1) = up_streams (ob_up w)
    \<and> (extends (ob_up w) [] (ob_up w1) \<or> extends (ob_up w) [''GETMSGS''] (ob_up w1))"
proof -
  let ?x = "onLink (client_EditSource (ue_bson (oe_up env)) (ue_link (oe_up env)) chatID (km_LogID m)) w"
  have "w1 = snd ?x" using assms by (auto simp: editExtra_def split: prod.splits sum.splits if_splits)
  moreover have "ob_db (snd ?x) = ob_db w" "ob_clock (snd ?x) = ob_clock w" "up_streams (ob_up (snd ?x)) = up_streams (ob_up w)"
    by (simp_all add: onLink_def case_prod_beta)
  ultimately show ?thesis using onLink_extends [OF sends_one(5), of w] by simp
qed

lemma recordEdit_up [simp]: "ob_up (recordEditOnOtherParts env target revision body w) = ob_up w"
  by (simp add: recordEditOnOtherParts_def split: sum.split)

lemma onLink_streams: "up_streams (ob_up (snd (onLink f w))) = up_streams (ob_up w)"
  by (simp add: onLink_def case_prod_beta)

lemma sendEdit_spec:
  assumes "sendEdit kc env chatID evt target meta body extra w = (r, w')"
  shows "up_streams (ob_up w') = up_streams (ob_up w) \<and> (ob_up w' = ob_up w
    \<or> (\<exists>db'. reservedBy kc env evt (oe_now env (ob_clock w)) (ob_db w) db')
      \<and> (extends (ob_up w) [] (ob_up w') \<or> extends (ob_up w) [''MODIFYMSG''] (ob_up w')))"
  using assms unfolding sendEdit_def
proof (cases rule: attempt_cases)
  case (sent w1)
  let ?x = "onLink (ModifyMessage (ue_bson (oe_up env)) (ue_link (oe_up env))
     \<lparr>md_ChatID = chatID, md_LogID = km_LogID meta, md_Type = km_Type meta, md_Message = body, md_Extra = extra\<rparr>) w1"
  have "ob_up w' = ob_up (snd ?x)" using sent(3) by (auto simp: Let_def split: prod.splits sum.splits)
  then show ?thesis using sent(1,2) onLink_extends [OF sends_one(3), of w1] onLink_streams by metis
qed simp

lemma edit_once:
  assumes "HandleMatrixEdit kc env (Some msg) w = (r, w')"
  shows "sentOnce kc env (mt_Event msg) (ob_clock w + 1) w w'"
proof -
  let ?w1 = "w\<lparr>ob_clock := ob_clock w + 1\<rparr>"
  have send: "sentOnce kc env (mt_Event msg) (ob_clock w + 1) w w'"
    if x: "extends (ob_up w) pre (ob_up v)" "pre = [] \<or> pre = [''GETMSGS'']" "ob_db v = ob_db w" "ob_clock v = ob_clock w + 1"
      "up_streams (ob_up v) = up_streams (ob_up w)" and s: "sendEdit kc env chatID (mt_Event msg) target m body extra v = (r, w')"
    for pre v chatID target m body extra
  proof (cases "ob_up w' = ob_up v")
    case True
    then show ?thesis by (intro sentOnceI [of w pre w']) (use x in \<open>auto simp: mutating_def\<close>)
  next
    case False
    with sendEdit_spec [OF s] x obtain post where p: "extends (ob_up v) post (ob_up w')" "post = [] \<or> post = [''MODIFYMSG'']"
      and r: "\<exists>db'. reservedBy kc env (mt_Event msg) (oe_now env (ob_clock w + 1)) (ob_db w) db'" by auto
    show ?thesis by (rule sentOnceI [OF extends_trans [OF x(1) p(1)]]) (use r x(2) p(2) in \<open>auto simp: mutating_def\<close>)
  qed
  have plain: "sendEdit kc env chatID (mt_Event msg) target m body extra ?w1 = (r, w') \<Longrightarrow> sentOnce kc env (mt_Event msg) (ob_clock w + 1) w w'"
    for chatID target m body extra
    by (rule send [of "[]" ?w1]) (simp_all add: extends_refl)
  have extra: "sentOnce kc env (mt_Event msg) (ob_clock w + 1) w w'"
    if e: "editExtra kc env chatID m ?w1 = (Inr extra, v)" "sendEdit kc env chatID (mt_Event msg) target m body extra v = (r, w')"
    for chatID target m body extra v
    using editExtra_state [OF e(1)] e(2) send [of "[]" v] send [of "[''GETMSGS'']" v] by auto
  have refused: "sentOnce kc env (mt_Event msg) (ob_clock w + 1) w v" if e: "editExtra kc env chatID m ?w1 = (Inl h, v)" for chatID m h v
    using editExtra_state [OF e] by (auto intro!: sentOnceI [of w _ v] simp: mutating_def)
  from assms show ?thesis
    by (auto simp: HandleMatrixEdit_def Let_def split: option.splits sum.splits if_splits prod.splits intro: sentOnce_same plain [simplified] extra [simplified] refused [simplified])
qed

lemma finishDelete_up: "finishDelete kc env messageID answer = (r, w') \<Longrightarrow> ob_up w' = ob_up (snd answer)"
  by (auto simp: finishDelete_def recordMatrixDeletion_def split: prod.splits sum.splits if_splits)

lemma remove_once:
  assumes "HandleMatrixMessageRemove kc env (Some msg) w = (r, w')"
  shows "sentOnce kc env (mr_Event msg) (ob_clock w + 1) w w'"
proof -
  let ?w1 = "w\<lparr>ob_clock := ob_clock w + 1\<rparr>"
  have send: "sentOnce kc env (mr_Event msg) (ob_clock w + 1) w w'"
    if "attempt kc env (mr_Event msg) (\<lambda>w2. finishDelete kc env messageID (onLink (DeleteMessage B L request) w2)) ?w1 = (r, w')" for messageID B L request
    using that
  proof (cases rule: attempt_cases)
    case (refused h)
    then show ?thesis by (simp add: sentOnce_same)
  next
    case (sent w1)
    have up: "ob_up w' = ob_up (snd (onLink (DeleteMessage B L request) w1))" by (rule finishDelete_up [OF sent(3)])
    obtain post where p: "extends (ob_up w) post (ob_up w')" "post = [] \<or> post = [''DELETEMSG'']"
      using onLink_extends [OF sends_one(4), of w1 B L request] up sent(2) by auto
    show ?thesis by (rule sentOnceI [OF p(1)]) (use p(2) sent(1) in \<open>auto simp: mutating_def\<close>)
  qed
  from assms show ?thesis
    by (auto simp: HandleMatrixMessageRemove_def Let_def split: option.splits sum.splits if_splits removal.splits
        intro: sentOnce_same send [simplified])
qed

text \<open>
  C14: Nothing is sent for a Matrix event before its attempt is reserved, and then at most one change of a chat.
  Whatever a message, an edit or a redaction contains and whatever database, session, media server
  and clock answer, one run of the handler sends at most one WRITE, WRITEMEDIA, MODIFYMSG or DELETEMSG. If it sends
  anything but a read, or streams media, then before that both statements of the reservation were executed, the second found
  no row for this event and the row was written with the time of this run.
\<close>

theorem handlers_send_once:
  "(case HandleMatrixMessage kc env (Some msg) w of (_, w') \<Rightarrow> sentOnce kc env (mm_Event msg) (ob_clock w) w w')
   \<and> (case HandleMatrixEdit kc env (Some edit) w of (_, w') \<Rightarrow> sentOnce kc env (mt_Event edit) (ob_clock w + 1) w w')
   \<and> (case HandleMatrixMessageRemove kc env (Some remove) w of (_, w') \<Rightarrow> sentOnce kc env (mr_Event remove) (ob_clock w + 1) w w')"
proof (intro conjI)
  obtain r w' where m: "HandleMatrixMessage kc env (Some msg) w = (r, w')" by fastforce
  from message_extended [OF m] obtain commands where c: "commands \<in> messageShapes" "extends (ob_up w) commands (ob_up w')" by blast
  have "sentOnce kc env (mm_Event msg) (ob_clock w) w w'"
  proof (cases "ob_up w' = ob_up w")
    case True
    then show ?thesis by (intro sentOnceI [of w "[]" w']) (simp_all add: extends_refl)
  next
    case False
    then show ?thesis using message_reserved [OF m] c(1)
      by (intro sentOnceI [OF c(2)]) (auto simp: onceReserved_def messageShapes_def mutating_def)
  qed
  then show "case HandleMatrixMessage kc env (Some msg) w of (_, w') \<Rightarrow> sentOnce kc env (mm_Event msg) (ob_clock w) w w'"
    by (simp add: m)
  show "case HandleMatrixEdit kc env (Some edit) w of (_, w') \<Rightarrow> sentOnce kc env (mt_Event edit) (ob_clock w + 1) w w'"
    using edit_once [of kc env edit w] by (simp split: prod.split)
  show "case HandleMatrixMessageRemove kc env (Some remove) w of (_, w') \<Rightarrow> sentOnce kc env (mr_Event remove) (ob_clock w + 1) w w'"
    using remove_once [of kc env remove w] by (simp split: prod.split)
qed

subsection \<open>Copies of an event, interleaved\<close>

text \<open>
  A homeserver may deliver an event several times, and copies run at the same time or after a restart. A run is one
  execution of a handler that has reached \<open>beginOutboundEvent\<close>; its steps are the two statements of
  \<open>reserveOutboundKV\<close>, each atomic and each possibly lost or failing after it took effect, and the send. A crash is a run that
  takes no further step. The table is the rows under the login's prefix. The log of the statements is kept for the
  proofs.
\<close>

datatype phase = Reserving | Pruned | Reserved nat | Sent nat | Stopped

record run =
  rn_event :: string
  rn_now :: gotime
  rn_phase :: phase

record attempts =
  at_table :: kv
  at_runs :: "nat \<rightharpoonup> run"
  at_log :: "string reservation list"

definition cutoff :: "gotime \<Rightarrow> gotime" where "cutoff now = now - outboundAttemptRetention"

text \<open>Times that \<open>kvTimeStamp\<close> formats with twenty digits: after 1970 and before \<open>10 ^ 20\<close> seconds after it.\<close>

definition stampableTime :: "gotime \<Rightarrow> bool" where
  "stampableTime now \<longleftrightarrow> 0 \<le> Unix (cutoff now) \<and> Unix now < 10 ^ 20"

inductive attemptStep :: "string \<Rightarrow> attempts \<Rightarrow> attempts \<Rightarrow> bool" for pre where
  began: "at_runs y i = None \<Longrightarrow> stampableTime now \<Longrightarrow>
    attemptStep pre y (y\<lparr>at_runs := (at_runs y)(i \<mapsto> \<lparr>rn_event = k, rn_now = now, rn_phase = Reserving\<rparr>)\<rparr>)"
| prune: "at_runs y i = Some r \<Longrightarrow> rn_phase r = Reserving \<Longrightarrow> (ok \<Longrightarrow> applied) \<Longrightarrow>
    attemptStep pre y (y\<lparr>at_table := (if applied then fst (deleteWhere pre (kvTimeStamp (cutoff (rn_now r))) (at_table y)) else at_table y),
      at_runs := (at_runs y)(i \<mapsto> r\<lparr>rn_phase := (if ok then Pruned else Stopped)\<rparr>),
      at_log := at_log y @ [Expire (nat (Unix (cutoff (rn_now r)))) applied]\<rparr>)"
| reserve: "at_runs y i = Some r \<Longrightarrow> rn_phase r = Pruned \<Longrightarrow> (ok \<Longrightarrow> applied) \<Longrightarrow>
    insertAbsent (pre @ rn_event r) (kvTimeStamp (rn_now r)) (at_table y) = (table, rows) \<Longrightarrow>
    attemptStep pre y (y\<lparr>at_table := (if applied then table else at_table y),
      at_runs := (at_runs y)(i \<mapsto> r\<lparr>rn_phase := (if ok \<and> rows = 1 then Reserved (length (at_log y)) else Stopped)\<rparr>),
      at_log := at_log y @ [Reserve (rn_event r) (nat (Unix (rn_now r))) applied]\<rparr>)"
| send: "at_runs y i = Some r \<Longrightarrow> rn_phase r = Reserved n \<Longrightarrow>
    attemptStep pre y (y\<lparr>at_runs := (at_runs y)(i \<mapsto> r\<lparr>rn_phase := Sent n\<rparr>)\<rparr>)"

inductive attemptsFrom :: "string \<Rightarrow> kv \<Rightarrow> attempts \<Rightarrow> bool" for pre table0 where
  start: "stamped pre table0 \<Longrightarrow> attemptsFrom pre table0 \<lparr>at_table = table0, at_runs = Map.empty, at_log = []\<rparr>"
| stepped: "attemptsFrom pre table0 y \<Longrightarrow> attemptStep pre y y' \<Longrightarrow> attemptsFrom pre table0 y'"

text \<open>The positions of a run's reservation in the log.\<close>

fun reservedIn :: "phase \<Rightarrow> nat option" where
  "reservedIn (Reserved n) = Some n"
| "reservedIn (Sent n) = Some n"
| "reservedIn _ = None"

abbreviation "runRows pre \<equiv> runReservations (reserveRow pre) (expireRows pre)"

definition attemptsOK :: "string \<Rightarrow> kv \<Rightarrow> attempts \<Rightarrow> bool" where
  "attemptsOK pre table0 y \<longleftrightarrow>
     stamped pre table0 \<and> at_table y = runRows pre (at_log y) table0
     \<and> (\<forall>op\<in>set (at_log y). stampableOp (\<lambda>t. t < 10 ^ 20) op)
     \<and> (\<forall>i r. at_runs y i = Some r \<longrightarrow> stampableTime (rn_now r))
     \<and> (\<forall>t. Expire t True \<in> set (at_log y) \<longrightarrow> (\<exists>m r. at_runs y m = Some r \<and> t = nat (Unix (cutoff (rn_now r)))))
     \<and> (\<forall>i r n. at_runs y i = Some r \<longrightarrow> reservedIn (rn_phase r) = Some n \<longrightarrow>
          n < length (at_log y) \<and> at_log y ! n = Reserve (rn_event r) (nat (Unix (rn_now r))) True
          \<and> fst (reserveRow pre (rn_event r) (nat (Unix (rn_now r))) (runRows pre (take n (at_log y)) table0)))
     \<and> (\<forall>i j r s n. at_runs y i = Some r \<longrightarrow> at_runs y j = Some s \<longrightarrow> reservedIn (rn_phase r) = Some n \<longrightarrow> reservedIn (rn_phase s) = Some n \<longrightarrow> i = j)"

lemma stampable_bounds:
  assumes "stampableTime now"
  shows "nat (Unix now) < 10 ^ 20" "nat (Unix (cutoff now)) < 10 ^ 20" "kvTimeStamp now = stampOf (nat (Unix now))"
    "kvTimeStamp (cutoff now) = stampOf (nat (Unix (cutoff now)))"
proof -
  have le: "Unix (cutoff now) \<le> Unix now"
    by (simp add: cutoff_def outboundAttemptRetention_def Unix_def zdiv_mono1)
  show "nat (Unix now) < 10 ^ 20" "nat (Unix (cutoff now)) < 10 ^ 20" using assms le by (auto simp: stampableTime_def)
  show "kvTimeStamp now = stampOf (nat (Unix now))" "kvTimeStamp (cutoff now) = stampOf (nat (Unix (cutoff now)))"
    using assms le by (auto simp: stampableTime_def intro: kvTimeStamp_stamp)
qed

text \<open>The two statements of \<open>reserveOutboundKV\<close> are the steps of a run, whatever the database answers.\<close>

lemma prune_statement:
  assumes "deleteOlderThan env pre (kvTimeStamp (rn_now r - outboundAttemptRetention)) db = (e, db1)"
    and "at_runs y i = Some r" "rn_phase r = Reserving" "at_table y = kd_table (enter env db)"
  shows "\<exists>y'. attemptStep pre y y' \<and> at_table y' = kd_table db1
    \<and> at_runs y' = (at_runs y)(i \<mapsto> r\<lparr>rn_phase := (if e = None then Pruned else Stopped)\<rparr>)"
proof -
  have step: "attemptStep pre y (y\<lparr>at_table := (if applied then fst (deleteWhere pre (kvTimeStamp (cutoff (rn_now r))) (at_table y)) else at_table y),
      at_runs := (at_runs y)(i \<mapsto> r\<lparr>rn_phase := (if e = None then Pruned else Stopped)\<rparr>),
      at_log := at_log y @ [Expire (nat (Unix (cutoff (rn_now r)))) applied]\<rparr>)" if "e = None \<Longrightarrow> applied" for applied
    by (rule attemptStep.prune) (use assms(2,3) that in auto)
  show ?thesis
  proof (cases "kx_exec env (kd_ops db)")
    case Executed
    then have "e = None" "kd_table db1 = fst (deleteWhere pre (kvTimeStamp (cutoff (rn_now r))) (at_table y))"
      using assms(1,4) by (auto simp: deleteOlderThan_def exec_def Let_def cutoff_def split: prod.splits)
    then show ?thesis by - (rule exI, intro conjI, rule step [of True], simp_all)
  next
    case (ExecFailed f applied)
    then have "e = Some f" "kd_table db1 = (if applied then fst (deleteWhere pre (kvTimeStamp (cutoff (rn_now r))) (at_table y)) else at_table y)"
      using assms(1,4) by (auto simp: deleteOlderThan_def exec_def Let_def cutoff_def split: prod.splits if_splits)
    then show ?thesis by - (rule exI, intro conjI, rule step [of applied], simp_all)
  qed
qed

lemma reserve_statement:
  assumes "putIfAbsent env (pre @ rn_event r) (kvTimeStamp (rn_now r)) db = (answer, db1)"
    and "at_runs y i = Some r" "rn_phase r = Pruned" "at_table y = kd_table (enter env db)"
  shows "\<exists>y'. attemptStep pre y y' \<and> at_table y' = kd_table db1
    \<and> at_runs y' = (at_runs y)(i \<mapsto> r\<lparr>rn_phase := (if answer = Inr True then Reserved (length (at_log y)) else Stopped)\<rparr>)"
proof -
  let ?row = "insertAbsent (pre @ rn_event r) (kvTimeStamp (rn_now r)) (at_table y)"
  have step: "attemptStep pre y (y\<lparr>at_table := (if applied then fst ?row else at_table y),
      at_runs := (at_runs y)(i \<mapsto> r\<lparr>rn_phase := (if ok \<and> snd ?row = 1 then Reserved (length (at_log y)) else Stopped)\<rparr>),
      at_log := at_log y @ [Reserve (rn_event r) (nat (Unix (rn_now r))) applied]\<rparr>)" if "ok \<Longrightarrow> applied" for ok applied
    by (rule attemptStep.reserve) (use assms(2,3) that in auto)
  show ?thesis
  proof (cases "kx_exec env (kd_ops db)")
    case Executed
    let ?ok = "kx_rows env (kd_ops db) = None"
    have "kd_table db1 = fst ?row" "answer = Inr True \<longleftrightarrow> ?ok \<and> snd ?row = 1"
      using assms(1,4) Executed by (auto simp: putIfAbsent_def execRows_def exec_def Let_def split: prod.splits option.splits)
    then show ?thesis by - (rule exI, intro conjI, rule step [of ?ok True], simp_all)
  next
    case (ExecFailed f applied)
    then have "kd_table db1 = (if applied then fst ?row else at_table y)" "answer = Inl f"
      using assms(1,4) by (auto simp: putIfAbsent_def execRows_def exec_def Let_def split: prod.splits if_splits)
    then show ?thesis by - (rule exI, intro conjI, rule step [of False applied], simp_all)
  qed
qed

text \<open>A statement added to the log: the runs' reservations are where they were.\<close>

lemma attemptsOK_logged:
  assumes "attemptsOK pre table0 y" "stampableOp (\<lambda>t. t < 10 ^ 20) op"
    and "at_runs y i = Some r" "rn_now r' = rn_now r" "rn_event r' = rn_event r"
    and "\<And>t. op = Expire t True \<Longrightarrow> t = nat (Unix (cutoff (rn_now r)))"
    and "\<And>n. reservedIn (rn_phase r') = Some n \<Longrightarrow> n = length (at_log y) \<and> op = Reserve (rn_event r) (nat (Unix (rn_now r))) True
      \<and> fst (reserveRow pre (rn_event r) (nat (Unix (rn_now r))) (at_table y))"
    and "at_table y' = runRows pre [op] (at_table y)" "at_runs y' = (at_runs y)(i \<mapsto> r')" "at_log y' = at_log y @ [op]"
  shows "attemptsOK pre table0 y'"
proof -
  let ?runs = "(at_runs y)(i \<mapsto> r')"
  have ok: "stamped pre table0" "at_table y = runRows pre (at_log y) table0"
    "\<forall>op\<in>set (at_log y). stampableOp (\<lambda>t. t < 10 ^ 20) op" "\<And>j s. at_runs y j = Some s \<Longrightarrow> stampableTime (rn_now s)"
    "\<And>t. Expire t True \<in> set (at_log y) \<Longrightarrow> \<exists>m s. at_runs y m = Some s \<and> t = nat (Unix (cutoff (rn_now s)))"
    "\<And>j s n. at_runs y j = Some s \<Longrightarrow> reservedIn (rn_phase s) = Some n \<Longrightarrow>
       n < length (at_log y) \<and> at_log y ! n = Reserve (rn_event s) (nat (Unix (rn_now s))) True
       \<and> fst (reserveRow pre (rn_event s) (nat (Unix (rn_now s))) (runRows pre (take n (at_log y)) table0))"
    "\<And>j k s s' n. at_runs y j = Some s \<Longrightarrow> at_runs y k = Some s' \<Longrightarrow> reservedIn (rn_phase s) = Some n \<Longrightarrow>
       reservedIn (rn_phase s') = Some n \<Longrightarrow> j = k"
    using assms(1) unfolding attemptsOK_def by blast+
  have kept: "\<exists>m s. ?runs m = Some s \<and> rn_now s = now" if "\<exists>m s. at_runs y m = Some s \<and> rn_now s = now" for now
    using that assms(3,4) by (metis fun_upd_apply option.inject)
  have expired: "\<exists>m s. ?runs m = Some s \<and> t = nat (Unix (cutoff (rn_now s)))" if "Expire t True \<in> set (at_log y @ [op])" for t
  proof -
    have "\<exists>m s. at_runs y m = Some s \<and> t = nat (Unix (cutoff (rn_now s)))"
    proof (cases "op = Expire t True")
      case True
      then show ?thesis using assms(3,6) by blast
    next
      case False
      then show ?thesis using that by (intro ok(5)) auto
    qed
    then obtain m s where "at_runs y m = Some s" "t = nat (Unix (cutoff (rn_now s)))" by blast
    then show ?thesis using kept [of "rn_now s"] by metis
  qed
  have placed: "n < length (at_log y @ [op]) \<and> (at_log y @ [op]) ! n = Reserve (rn_event s) (nat (Unix (rn_now s))) True
      \<and> fst (reserveRow pre (rn_event s) (nat (Unix (rn_now s))) (runRows pre (take n (at_log y @ [op])) table0))"
    if "?runs j = Some s" "reservedIn (rn_phase s) = Some n" for j s n
  proof (cases "j = i")
    case True
    then show ?thesis using that assms(4,5,7) ok(2) by simp
  next
    case False
    then show ?thesis using that ok(6) [of j s n] by (simp add: nth_append)
  qed
  have own: "j = i \<longleftrightarrow> n = length (at_log y)" if "?runs j = Some s" "reservedIn (rn_phase s) = Some n" for j s n
    using that assms(7) ok(6) [of j s n] by (cases "j = i") auto
  have "j = k" if "?runs j = Some s" "?runs k = Some s'" "reservedIn (rn_phase s) = Some n" "reservedIn (rn_phase s') = Some n" for j k s s' n
  proof (cases "n = length (at_log y)")
    case True
    then show ?thesis using own [OF that(1,3)] own [OF that(2,4)] by simp
  next
    case False
    then have "j \<noteq> i" "k \<noteq> i" using own [OF that(1,3)] own [OF that(2,4)] by simp_all
    then show ?thesis using that by (intro ok(7) [of j s k s' n]) simp_all
  qed
  moreover have "stampableTime (rn_now s)" if "?runs j = Some s" for j s
    using that ok(4) assms(3,4) by (auto split: if_splits)
  ultimately show ?thesis
    unfolding attemptsOK_def assms(8-10) using ok(1-3) assms(2) expired placed
    by (intro conjI allI impI) (auto simp: runReservations_append simp del: runReservations.simps fun_upd_apply)
qed

lemma attemptsOK_began:
  assumes "attemptsOK pre table0 y" "at_runs y i = None" "stampableTime now"
  shows "attemptsOK pre table0 (y\<lparr>at_runs := (at_runs y)(i \<mapsto> \<lparr>rn_event = k, rn_now = now, rn_phase = Reserving\<rparr>)\<rparr>)"
  using assms unfolding attemptsOK_def by (auto split: if_splits) (metis option.distinct(1))+

lemma attemptsOK_sent:
  assumes "attemptsOK pre table0 y" "at_runs y i = Some r" "rn_phase r = Reserved n"
    and "at_runs y' = (at_runs y)(i \<mapsto> r\<lparr>rn_phase := Sent n\<rparr>)" "at_table y' = at_table y" "at_log y' = at_log y"
  shows "attemptsOK pre table0 y'"
proof -
  let ?runs = "(at_runs y)(i \<mapsto> r\<lparr>rn_phase := Sent n\<rparr>)"
  have same: "\<exists>s'. at_runs y j = Some s' \<and> rn_now s' = rn_now s \<and> rn_event s' = rn_event s \<and> reservedIn (rn_phase s') = reservedIn (rn_phase s)"
    if "?runs j = Some s" for j s using that assms(2,3) by (auto split: if_splits)
  have conv: "\<exists>s. ?runs j = Some s \<and> rn_now s = rn_now s'" if "at_runs y j = Some s'" for j s'
    using that assms(2) by auto
  have ok: "attemptsOK pre table0 y" by fact
  have "stampableTime (rn_now s)" if "?runs j = Some s" for j s
    using same [OF that] ok unfolding attemptsOK_def by metis
  moreover have "\<exists>m s. ?runs m = Some s \<and> t = nat (Unix (cutoff (rn_now s)))" if x: "Expire t True \<in> set (at_log y)" for t
  proof -
    obtain m s' where "at_runs y m = Some s'" "t = nat (Unix (cutoff (rn_now s')))"
      using ok x unfolding attemptsOK_def by blast
    then show ?thesis using conv by metis
  qed
  moreover have "n < length (at_log y) \<and> at_log y ! n = Reserve (rn_event s) (nat (Unix (rn_now s))) True
      \<and> fst (reserveRow pre (rn_event s) (nat (Unix (rn_now s))) (runRows pre (take n (at_log y)) table0))"
    if "?runs j = Some s" "reservedIn (rn_phase s) = Some n" for j s n
    using same [OF that(1)] that(2) ok unfolding attemptsOK_def by metis
  moreover have "j = k" if "?runs j = Some s" "?runs k = Some s'" "reservedIn (rn_phase s) = Some n" "reservedIn (rn_phase s') = Some n" for j k s s' n
    using same [OF that(1)] same [OF that(2)] that(3,4) ok unfolding attemptsOK_def by metis
  ultimately show ?thesis using ok unfolding attemptsOK_def assms(4-6) by (intro conjI allI impI) blast+
qed

lemma attemptStep_ok: "attemptStep pre y y' \<Longrightarrow> attemptsOK pre table0 y \<Longrightarrow> attemptsOK pre table0 y'"
proof (induction rule: attemptStep.induct)
  case (prune y i r ok applied)
  have t: "stampableTime (rn_now r)" using prune(1,4) unfolding attemptsOK_def by blast
  show ?case
    by (rule attemptsOK_logged [OF prune(4), where op = "Expire (nat (Unix (cutoff (rn_now r)))) applied" and i = i and r = r
        and r' = "r\<lparr>rn_phase := (if ok then Pruned else Stopped)\<rparr>"])
       (use prune(1) stampable_bounds [OF t] in \<open>auto simp: stampableOp_def expireRows_def split: if_splits\<close>)
next
  case (reserve y i r ok applied table rows)
  let ?op = "Reserve (rn_event r) (nat (Unix (rn_now r))) applied"
  let ?r = "r\<lparr>rn_phase := (if ok \<and> rows = 1 then Reserved (length (at_log y)) else Stopped)\<rparr>"
  have t: "stampableTime (rn_now r)" using reserve(1,5) unfolding attemptsOK_def by blast
  have row: "reserveRow pre (rn_event r) (nat (Unix (rn_now r))) (at_table y) = (rows = 1, table)"
    using reserve(4) unfolding reserveRow_def stampable_bounds(3) [OF t] by simp
  have op: "stampableOp (\<lambda>t. t < 10 ^ 20) ?op" using stampable_bounds(1) [OF t] by (simp add: stampableOp_def)
  have own: "n = length (at_log y) \<and> ?op = Reserve (rn_event r) (nat (Unix (rn_now r))) True
      \<and> fst (reserveRow pre (rn_event r) (nat (Unix (rn_now r))) (at_table y))" if "reservedIn (rn_phase ?r) = Some n" for n
    using that reserve(3) unfolding row by (cases ok; cases "rows = 1") simp_all
  have table: "(if applied then table else at_table y) = runRows pre [?op] (at_table y)" unfolding runReservations.simps row by simp
  show ?case
  proof (rule attemptsOK_logged [OF reserve(5) op reserve(1), where r' = ?r])
    show "n = length (at_log y) \<and> ?op = Reserve (rn_event r) (nat (Unix (rn_now r))) True
      \<and> fst (reserveRow pre (rn_event r) (nat (Unix (rn_now r))) (at_table y))" if "reservedIn (rn_phase ?r) = Some n" for n
      using that by (rule own)
  qed (simp_all only: table attempts.simps run.simps reservation.simps, simp_all)
next
  case (send y i r n)
  show ?case by (rule attemptsOK_sent [OF send(3,1,2)]) simp_all
next
  case (began y i now k)
  from began(3,1,2) show ?case by (rule attemptsOK_began)
qed

lemma attemptsFrom_ok: "attemptsFrom pre table0 y \<Longrightarrow> attemptsOK pre table0 y"
  by (induction rule: attemptsFrom.induct) (simp add: attemptsOK_def, rule attemptStep_ok)

text \<open>Of two runs that reserved the same event, the earlier reservation had expired for the other.\<close>

lemma reserved_apart:
  assumes "attemptsOK pre table0 y" "at_runs y i = Some a" "at_runs y j = Some b" "rn_event a = rn_event b"
    and "reservedIn (rn_phase a) = Some m" "reservedIn (rn_phase b) = Some n" "m < n"
  shows "\<exists>k c. at_runs y k = Some c \<and> nat (Unix (rn_now a)) < nat (Unix (cutoff (rn_now c)))"
proof -
  let ?log = "at_log y" and ?k = "rn_event a" and ?t = "\<lambda>r. nat (Unix (rn_now r))"
  let ?mid = "take (n - Suc m) (drop (Suc m) ?log)"
  have ok: "stamped pre table0" "\<forall>op\<in>set ?log. stampableOp (\<lambda>t. t < 10 ^ 20) op" "stampableTime (rn_now b)"
    and ex: "\<And>t. Expire t True \<in> set ?log \<Longrightarrow> \<exists>k c. at_runs y k = Some c \<and> t = nat (Unix (cutoff (rn_now c)))"
    using assms(1,3) unfolding attemptsOK_def by blast+
  have placed: "q < length ?log \<and> ?log ! q = Reserve (rn_event r) (?t r) True
      \<and> fst (reserveRow pre (rn_event r) (?t r) (runRows pre (take q ?log) table0))"
    if "at_runs y p = Some r" "reservedIn (rn_phase r) = Some q" for p q r
    using assms(1) that unfolding attemptsOK_def by blast
  note at = placed [OF assms(2,5)] and bt = placed [OF assms(3,6), folded assms(4)]
  have split: "take n ?log = take m ?log @ Reserve ?k (?t a) True # ?mid"
  proof -
    have n: "n = Suc m + (n - Suc m)" using assms(7) by simp
    have "take n ?log = take (Suc m) ?log @ ?mid" by (subst n) (rule take_add)
    then show ?thesis using at by (simp add: take_Suc_conv_app_nth)
  qed
  have ops: "\<forall>op\<in>set (take n ?log). stampableOp (\<lambda>t. t < 10 ^ 20) op" using ok(2) by (auto dest: in_set_takeD)
  have "\<exists>t. Expire t True \<in> set ?mid \<and> ?t a < t"
  proof (rule kv.reserved_once [OF ok(1), of "take m ?log" ?k "?t a" ?mid "?t b"])
    show "\<forall>op\<in>set (take m ?log @ Reserve ?k (?t a) True # ?mid). stampableOp (\<lambda>t. t < 10 ^ 20) op"
      by (subst split [symmetric]) (rule ops)
    show "?t b < 10 ^ 20" by (rule stampable_bounds(1) [OF ok(3)])
    show "fst (reserveRow pre ?k (?t a) (runRows pre (take m ?log) table0))" by (rule at [THEN conjunct2, THEN conjunct2])
    show "fst (reserveRow pre ?k (?t b) (runRows pre (take m ?log @ Reserve ?k (?t a) True # ?mid) table0))"
      by (subst split [symmetric]) (rule bt [THEN conjunct2, THEN conjunct2])
  qed
  then obtain t where t: "Expire t True \<in> set ?mid" "?t a < t" by blast
  obtain k c where "at_runs y k = Some c" "t = nat (Unix (cutoff (rn_now c)))"
    using ex [OF in_set_dropD [OF in_set_takeD [OF t(1)]]] by blast
  then show ?thesis using t(2) by blast
qed


text \<open>A run that nothing disturbs sends its event, when the event's row is absent or expired.\<close>

lemma undisturbed:
  fixes now :: gotime
  defines "old \<equiv> now - outboundAttemptRetention"
  assumes "attemptsFrom pre table0 y" "at_runs y i = None" "stampableTime now"
    and "fst (deleteWhere pre (kvTimeStamp old) (at_table y)) (pre @ k) = None"
  shows "attemptsFrom pre table0
    \<lparr>at_table = (fst (deleteWhere pre (kvTimeStamp old) (at_table y)))(pre @ k \<mapsto> kvTimeStamp now),
     at_runs = (at_runs y)(i \<mapsto> \<lparr>rn_event = k, rn_now = now, rn_phase = Sent (Suc (length (at_log y)))\<rparr>),
     at_log = at_log y @ [Expire (nat (Unix old)) True, Reserve k (nat (Unix now)) True]\<rparr>"
proof -
  let ?table = "fst (deleteWhere pre (kvTimeStamp old) (at_table y))" and ?r = "\<lambda>p. \<lparr>rn_event = k, rn_now = now, rn_phase = p\<rparr>"
  let ?runs = "\<lambda>p. (at_runs y)(i \<mapsto> ?r p)" and ?log = "at_log y @ [Expire (nat (Unix old)) True]"
  have "attemptsFrom pre table0 (y\<lparr>at_runs := ?runs Reserving\<rparr>)"
    by (rule attemptsFrom.stepped [OF assms(2) attemptStep.began]) fact+
  then have "attemptsFrom pre table0 (y\<lparr>at_table := ?table, at_runs := ?runs Pruned, at_log := ?log\<rparr>)"
    by (rule attemptsFrom.stepped) (use attemptStep.prune [of "y\<lparr>at_runs := ?runs Reserving\<rparr>" i "?r Reserving" True True pre] in
        \<open>simp add: cutoff_def old_def\<close>)
  then have "attemptsFrom pre table0 (y\<lparr>at_table := ?table(pre @ k \<mapsto> kvTimeStamp now), at_runs := ?runs (Reserved (length ?log)),
      at_log := ?log @ [Reserve k (nat (Unix now)) True]\<rparr>)"
    by (rule attemptsFrom.stepped) (use attemptStep.reserve [of "y\<lparr>at_table := ?table, at_runs := ?runs Pruned, at_log := ?log\<rparr>" i "?r Pruned"
        True True pre "?table(pre @ k \<mapsto> kvTimeStamp now)" 1] assms(5) in \<open>simp add: insertAbsent_def\<close>)
  then have "attemptsFrom pre table0 (y\<lparr>at_table := ?table(pre @ k \<mapsto> kvTimeStamp now), at_runs := ?runs (Sent (length ?log)),
      at_log := ?log @ [Reserve k (nat (Unix now)) True]\<rparr>)"
    by (rule attemptsFrom.stepped) (use attemptStep.send [of "y\<lparr>at_table := ?table(pre @ k \<mapsto> kvTimeStamp now), at_runs := ?runs (Reserved (length ?log)),
      at_log := ?log @ [Reserve k (nat (Unix now)) True]\<rparr>" i "?r (Reserved (length ?log))" "length ?log" pre] in \<open>cases y, simp\<close>)
  then show ?thesis by (cases y) simp
qed

text \<open>Two copies of an event thirty-one days apart are both sent: the second prunes the first's row.\<close>

definition day :: "int \<Rightarrow> gotime" where "day n = unixEpoch + n * (24 * 3600 * 10 ^ 9)"

lemma day_simps [simp]:
  "Unix (day n) = n * 86400" "day n - outboundAttemptRetention = day (n - 30)" "cutoff (day n) = day (n - 30)"
  by (simp_all add: Unix_def day_def outboundAttemptRetention_def cutoff_def algebra_simps)
     (simp add: mult.commute [of n] flip: div_mult2_eq)?

definition copies :: attempts where
  "copies = \<lparr>at_table = [''pe'' \<mapsto> stampOf (131 * 86400)],
     at_runs = [0 \<mapsto> \<lparr>rn_event = ''e'', rn_now = day 100, rn_phase = Sent 1\<rparr>, 1 \<mapsto> \<lparr>rn_event = ''e'', rn_now = day 131, rn_phase = Sent 3\<rparr>],
     at_log = [Expire (70 * 86400) True, Reserve ''e'' (100 * 86400) True,
               Expire (101 * 86400) True, Reserve ''e'' (131 * 86400) True]\<rparr>"

lemma copies_reached: "attemptsFrom ''p'' Map.empty copies"
proof -
  have k: "kvTimeStamp (day n) = stampOf (nat (n * 86400))" if "0 \<le> n" for n using that by (simp add: kvTimeStamp_stamp)
  let ?first = "\<lparr>at_table = [''pe'' \<mapsto> stampOf (100 * 86400)],
     at_runs = [0 \<mapsto> \<lparr>rn_event = ''e'', rn_now = day 100, rn_phase = Sent 1\<rparr>],
     at_log = [Expire (70 * 86400) True, Reserve ''e'' (100 * 86400) True]\<rparr>"
  have "attemptsFrom ''p'' Map.empty \<lparr>at_table = Map.empty, at_runs = Map.empty, at_log = []\<rparr>"
    by (rule attemptsFrom.start) (simp add: stamped_def)
  from undisturbed [OF this, where i = 0 and now = "day 100" and k = "''e''"]
  have "attemptsFrom ''p'' Map.empty ?first" by (simp add: stampableTime_def deleteWhere_def k)
  moreover have "(\<lambda>key. case [''pe'' \<mapsto> stampOf 8640000] key of None \<Rightarrow> None
      | Some val \<Rightarrow> if prefix ''p'' key \<and> strLess val (stampOf 8726400) then None else Some val) = Map.empty"
    by (auto simp: strLess_stamps split: if_splits option.splits)
  ultimately have first: "attemptsFrom ''p'' Map.empty ?first"
    "fst (deleteWhere ''p'' (stampOf 8726400) (at_table ?first)) = Map.empty" by (simp_all add: deleteWhere_def)
  have old: "kvTimeStamp (day 131 - outboundAttemptRetention) = stampOf 8726400" by (simp add: k)
  from undisturbed [OF first(1), where i = 1 and now = "day 131" and k = "''e''", unfolded old first(2)]
  have "attemptsFrom ''p'' Map.empty copies" by (simp add: stampableTime_def k copies_def fun_upd_def numeral_3_eq_3)
  then show ?thesis .
qed


subsection \<open>Only one's own recent messages are changed\<close>

definition ownMessage :: "KakaoClient \<Rightarrow> int64 \<Rightarrow> gotime \<Rightarrow> Message \<Rightarrow> KakaoMessageMetadata \<Rightarrow> bool" where
  "ownMessage kc chatID now target m \<longleftrightarrow>
     pointerMeta (me_Metadata target) = Some m \<and> km_ChatID m = chatID \<and> km_LogID m > 0 \<and> km_AuthorID m = kc_userID kc
     \<and> (km_Type m AND DeletedAllChatTypeFlag) = 0 \<and> now - me_Timestamp target \<le> 24 * 3600 * 10 ^ 9"

lemma editRefusal_own: "editRefusal kc chatID now target (Some m) = None \<Longrightarrow> pointerMeta (me_Metadata target) = Some m \<Longrightarrow>
   ownMessage kc chatID now target m \<and> (km_Type m = Text \<or> editablePart (km_Type m) (me_PartID target))"
  by (auto simp: editRefusal_def ownMessage_def kakaoEditWindow_def split: if_splits)

lemma removalRule_own: "removalRule kc chatID now target = RemovalAllowed m \<Longrightarrow>
   ownMessage kc chatID now target m \<and> km_Type m \<noteq> Mvoip \<and> km_Type m \<noteq> Leverage"
  by (auto simp: removalRule_def ownMessage_def kakaoDeleteWindow_def split: if_splits option.splits)

text \<open>The requests a run adds to what the session has sent.\<close>

definition adds :: "uploads \<Rightarrow> (string \<times> raw) list \<Rightarrow> uploads \<Rightarrow> bool" where
  "adds U reqs U' \<longleftrightarrow> lk_sent (up_link U') = lk_sent (up_link U) @ reqs"

lemma adds_since: "adds U reqs U' \<Longrightarrow> sentSince U U' = reqs"
  by (simp add: adds_def sentSince_def)

lemma adds_refl [simp]: "adds U [] U"
  by (simp add: adds_def)

lemma adds_none: "\<exists>reqs. adds U reqs U \<and> list_all P reqs"
  by (intro exI [of _ "[]"]) simp

lemma onLink_call:
  "\<exists>reqs. adds (ob_up w) reqs (ob_up (snd (onLink (withSession link (chatCall link command body decode)) w)))
     \<and> (\<forall>x\<in>set reqs. \<exists>doc. body = Inr doc \<and> x = (command, doc))"
  by (auto simp: onLink_def withSession_def chatCall_def adds_def Let_def split: option.splits sum.splits prod.splits)

lemma sendEdit_adds:
  assumes "sendEdit kc env chatID evt target m body extra w = (r, w')"
  shows "\<exists>reqs. adds (ob_up w) reqs (ob_up w') \<and> (\<forall>x\<in>set reqs. \<exists>doc. x = (''MODIFYMSG'', doc)
    \<and> ModifyRequest_MarshalBSON (ue_bson (oe_up env))
        \<lparr>md_ChatID = chatID, md_LogID = km_LogID m, md_Type = km_Type m, md_Message = body, md_Extra = extra\<rparr> = Inr doc)"
  using assms unfolding sendEdit_def
proof (cases rule: attempt_cases)
  case (sent w1)
  let ?req = "\<lparr>md_ChatID = chatID, md_LogID = km_LogID m, md_Type = km_Type m, md_Message = body, md_Extra = extra\<rparr>"
  have "ob_up w' = ob_up (snd (onLink (ModifyMessage (ue_bson (oe_up env)) (ue_link (oe_up env)) ?req) w1))"
    using sent(3) by (auto simp: Let_def split: prod.splits sum.splits)
  then show ?thesis
    using onLink_call [of w1 "ue_link (oe_up env)" "''MODIFYMSG''" "ModifyRequest_MarshalBSON (ue_bson (oe_up env)) ?req"
        "DecodeModifyResponse (ue_bson (oe_up env)) (km_LogID m)"] sent(2)
    unfolding ModifyMessage_def ModifyRequest.simps by metis
qed (auto intro: exI [of _ "[]"])

lemma editExtra_adds:
  assumes "editExtra kc env chatID m w = (r, w')"
  shows "\<exists>reqs. adds (ob_up w) reqs (ob_up w') \<and> (\<forall>x\<in>set reqs. fst x = ''GETMSGS'')"
proof -
  let ?B = "ue_bson (oe_up env)"
  have "w' = snd (onLink (client_EditSource ?B (ue_link (oe_up env)) chatID (km_LogID m)) w)"
    using assms by (auto simp: editExtra_def split: prod.splits sum.splits if_splits)
  then show ?thesis
    using onLink_call [of w "ue_link (oe_up env)" "''GETMSGS''" "GetMessagesRequest_MarshalBSON ?B \<lparr>gm_ChatID = chatID, gm_LogIDs = [km_LogID m]\<rparr>"
        "DecodeEditSource ?B (km_LogID m)"]
    unfolding client_EditSource_def by (metis fst_conv)
qed

definition editedOwn :: "KakaoClient \<Rightarrow> out_env \<Rightarrow> MatrixEdit \<Rightarrow> gotime \<Rightarrow> string \<times> raw \<Rightarrow> bool" where
  "editedOwn kc env edit now req \<longleftrightarrow>
     fst req = ''GETMSGS''
     \<or> (\<exists>portal body target chatID m extra.
          mt_Portal edit = Some portal \<and> mt_Body edit = Some body \<and> mt_EditTarget edit = Some target
          \<and> parseChatID (pk_ID portal) = Inr chatID \<and> checkSourceAccess kc env chatID = None
          \<and> ownMessage kc chatID now target m \<and> (km_Type m = Text \<or> editablePart (km_Type m) (me_PartID target))
          \<and> body \<noteq> [] \<and> length body \<le> maxTextLength
          \<and> fst req = ''MODIFYMSG''
          \<and> ModifyRequest_MarshalBSON (ue_bson (oe_up env))
              \<lparr>md_ChatID = chatID, md_LogID = km_LogID m, md_Type = km_Type m, md_Message = body, md_Extra = extra\<rparr> = Inr (snd req))"

definition deletedOwn :: "KakaoClient \<Rightarrow> out_env \<Rightarrow> MatrixMessageRemove \<Rightarrow> gotime \<Rightarrow> string \<times> raw \<Rightarrow> bool" where
  "deletedOwn kc env remove now req \<longleftrightarrow>
     (\<exists>portal target chatID m.
        mr_Portal remove = Some portal \<and> mr_TargetMessage remove = Some target
        \<and> parseChatID (pk_ID portal) = Inr chatID \<and> checkSourceAccess kc env chatID = None
        \<and> ownMessage kc chatID now target m \<and> km_Type m \<noteq> Mvoip \<and> km_Type m \<noteq> Leverage
        \<and> fst req = ''DELETEMSG''
        \<and> DeleteRequest_MarshalBSON (ue_bson (oe_up env)) \<lparr>de_ChatID = chatID, de_LogID = km_LogID m\<rparr> = Inr (snd req))"

lemma edit_own:
  assumes h: "HandleMatrixEdit kc env (Some edit) w = (r, w')"
  shows "\<exists>reqs. adds (ob_up w) reqs (ob_up w') \<and> list_all (editedOwn kc env edit (oe_now env (ob_clock w))) reqs"
proof -
  let ?w1 = "w\<lparr>ob_clock := ob_clock w + 1\<rparr>" and ?own = "editedOwn kc env edit (oe_now env (ob_clock w))"
  show ?thesis
  proof (cases "\<exists>portal body target chatID m. mt_Portal edit = Some portal \<and> mt_Body edit = Some body \<and> mt_EditTarget edit = Some target
      \<and> parseChatID (pk_ID portal) = Inr chatID \<and> checkSourceAccess kc env chatID = None
      \<and> pointerMeta (me_Metadata target) = Some m \<and> editRefusal kc chatID (oe_now env (ob_clock w)) target (Some m) = None
      \<and> body \<noteq> km_Preview m \<and> body \<noteq> [] \<and> length body \<le> maxTextLength \<and> kc_client kc")
    case False
    then have "ob_up w' = ob_up w" using h
      by (auto simp: HandleMatrixEdit_def Let_def not_less split: option.splits sum.splits if_splits prod.splits)
    then show ?thesis by (simp add: adds_none)
  next
    case True
    then obtain portal body target chatID m where g: "mt_Portal edit = Some portal" "mt_Body edit = Some body" "mt_EditTarget edit = Some target"
      "parseChatID (pk_ID portal) = Inr chatID" "checkSourceAccess kc env chatID = None" "pointerMeta (me_Metadata target) = Some m"
      "editRefusal kc chatID (oe_now env (ob_clock w)) target (Some m) = None" "body \<noteq> km_Preview m" "body \<noteq> []"
      "length body \<le> maxTextLength" "kc_client kc" by blast
    have own: "?own x" if "fst x = ''MODIFYMSG''" "ModifyRequest_MarshalBSON (ue_bson (oe_up env))
        \<lparr>md_ChatID = chatID, md_LogID = km_LogID m, md_Type = km_Type m, md_Message = body, md_Extra = extra\<rparr> = Inr (snd x)" for x extra
      using that g editRefusal_own [OF g(7,6)] unfolding editedOwn_def by metis
    have sent: "\<exists>reqs. adds (ob_up v) reqs (ob_up w') \<and> list_all ?own reqs"
      if "sendEdit kc env chatID (mt_Event edit) target m body extra v = (r, w')" for extra v
      using sendEdit_adds [OF that] own [of _ extra] unfolding list_all_iff by (metis fst_conv snd_conv)
    consider (plain) "sendEdit kc env chatID (mt_Event edit) target m body ''{}'' ?w1 = (r, w')"
      | (refused) h where "editExtra kc env chatID m ?w1 = (Inl h, w')"
      | (extra) extra v where "editExtra kc env chatID m ?w1 = (Inr extra, v)" "sendEdit kc env chatID (mt_Event edit) target m body extra v = (r, w')"
      using h g by (auto simp: HandleMatrixEdit_def Let_def not_less split: if_splits prod.splits sum.splits)
    then show ?thesis
    proof cases
      case plain
      show ?thesis using sent [OF plain] by simp
    next
      case refused
      then show ?thesis using editExtra_adds [OF refused] by (auto simp: list_all_iff editedOwn_def)
    next
      case extra
      obtain as bs where "adds (ob_up w) as (ob_up v)" "list_all ?own as" "adds (ob_up v) bs (ob_up w')" "list_all ?own bs"
        using editExtra_adds [OF extra(1)] sent [OF extra(2)] by (auto simp: list_all_iff editedOwn_def)
      then show ?thesis by (intro exI [of _ "as @ bs"]) (simp add: adds_def)
    qed
  qed
qed

lemma remove_own:
  assumes h: "HandleMatrixMessageRemove kc env (Some remove) w = (r, w')"
  shows "\<exists>reqs. adds (ob_up w) reqs (ob_up w') \<and> list_all (deletedOwn kc env remove (oe_now env (ob_clock w))) reqs"
proof -
  let ?w1 = "w\<lparr>ob_clock := ob_clock w + 1\<rparr>" and ?own = "deletedOwn kc env remove (oe_now env (ob_clock w))"
  let ?B = "ue_bson (oe_up env)" and ?link = "ue_link (oe_up env)"
  have send: ?thesis
    if g: "mr_Portal remove = Some portal" "mr_TargetMessage remove = Some target" "parseChatID (pk_ID portal) = Inr chatID"
      "checkSourceAccess kc env chatID = None" "removalRule kc chatID (oe_now env (ob_clock w)) target = RemovalAllowed m"
      and a: "attempt kc env (mr_Event remove) (\<lambda>w2. finishDelete kc env (me_ID target)
        (onLink (DeleteMessage ?B ?link \<lparr>de_ChatID = chatID, de_LogID = km_LogID m\<rparr>) w2)) ?w1 = (r, w')" for portal target chatID m
    using a
  proof (cases rule: attempt_cases)
    case (refused h)
    then show ?thesis by (simp add: adds_none)
  next
    case (sent w1)
    let ?req = "\<lparr>de_ChatID = chatID, de_LogID = km_LogID m\<rparr>"
    have own: "?own x" if "fst x = ''DELETEMSG''" "DeleteRequest_MarshalBSON ?B ?req = Inr (snd x)" for x
      using that g removalRule_own [OF g(5)] unfolding deletedOwn_def by metis
    have "ob_up w' = ob_up (snd (onLink (DeleteMessage ?B ?link ?req) w1))" by (rule finishDelete_up [OF sent(3)])
    moreover obtain reqs where "adds (ob_up w1) reqs (ob_up (snd (onLink (DeleteMessage ?B ?link ?req) w1)))"
      "\<forall>x\<in>set reqs. \<exists>doc. DeleteRequest_MarshalBSON ?B ?req = Inr doc \<and> x = (''DELETEMSG'', doc)"
      using onLink_call [of w1 ?link "''DELETEMSG''" "DeleteRequest_MarshalBSON ?B ?req" "\<lambda>_. Inr ()"] unfolding DeleteMessage_def by metis
    ultimately show ?thesis using sent(2) own by (intro exI [of _ reqs]) (auto simp: list_all_iff)
  qed
  from h show ?thesis
    by (auto simp: HandleMatrixMessageRemove_def Let_def split: option.splits sum.splits if_splits removal.splits
        intro: adds_none send [simplified])
qed

text \<open>
  C16: An edit or a redaction changes only a message the rules of KakaoTalk allow to be changed. Whatever the event
  names and whatever the session answers, the handler of an edit sends nothing but reads and a MODIFYMSG, and the handler of a redaction
  nothing but a DELETEMSG, for a message of the room's own chat that this account wrote, that is not marked
  deleted and not older than twenty-four hours at the clock's reading; an edit is of a text, or of the text part of a
  reply or a sticker, with a new text of 1 to 10000 bytes, and no call and no leverage message is deleted.
\<close>

theorem only_own_changed:
  "(case HandleMatrixEdit kc env (Some edit) w of
      (_, w') \<Rightarrow> list_all (editedOwn kc env edit (oe_now env (ob_clock w))) (sentSince (ob_up w) (ob_up w')))
   \<and> (case HandleMatrixMessageRemove kc env (Some remove) w of
        (_, w') \<Rightarrow> list_all (deletedOwn kc env remove (oe_now env (ob_clock w))) (sentSince (ob_up w) (ob_up w')))"
proof (intro conjI)
  obtain r w' where h: "HandleMatrixEdit kc env (Some edit) w = (r, w')" by fastforce
  from edit_own [OF h] show "case HandleMatrixEdit kc env (Some edit) w of
      (_, w') \<Rightarrow> list_all (editedOwn kc env edit (oe_now env (ob_clock w))) (sentSince (ob_up w) (ob_up w'))"
    unfolding h by (auto simp: adds_since)
next
  obtain r w' where h: "HandleMatrixMessageRemove kc env (Some remove) w = (r, w')" by fastforce
  from remove_own [OF h] show "case HandleMatrixMessageRemove kc env (Some remove) w of
        (_, w') \<Rightarrow> list_all (deletedOwn kc env remove (oe_now env (ob_clock w))) (sentSince (ob_up w) (ob_up w'))"
    unfolding h by (auto simp: adds_since)
qed

text \<open>
  An unchanged text is not sent, but the text it is compared with is the stored preview, cut to one hundred UTF-16
  units: an edit that shortens a longer message to exactly its preview is dropped as if nothing had changed.
\<close>

lemma edit_to_preview_dropped:
  assumes "mt_Portal edit = Some portal" "parseChatID (pk_ID portal) = Inr chatID" "checkSourceAccess kc env chatID = None"
    and "mt_EditTarget edit = Some (sentMessage kc chatID logID sendAt Text body)" "0 < logID"
    and "oe_now env (ob_clock w) - kakaoTime sendAt \<le> kakaoEditWindow"
    and "mt_Body edit = Some (truncateReplyPreview body)"
  shows "HandleMatrixEdit kc env (Some edit) w
    = (Inr (sentMessage kc chatID logID sendAt Text body), w\<lparr>ob_clock := ob_clock w + 1\<rparr>)"
proof -
  have "editRefusal kc chatID (oe_now env (ob_clock w)) (sentMessage kc chatID logID sendAt Text body)
      (Some (newKakaoMessageMetadata chatID logID (kc_userID kc) Text body 0)) = None"
    using assms(5,6) by (simp add: editRefusal_def newKakaoMessageMetadata_def sentMessage_def Text_def DeletedAllChatTypeFlag_def)
  then show ?thesis using assms
    by (simp add: HandleMatrixEdit_def Let_def sentMessage_def pointerMeta_def newKakaoMessageMetadata_def)
qed

end
