(* ===== verification/Group_Create.thy ===== *)
theory Group_Create
  imports Outbound "HOL-Library.AList"
begin

text \<open>
  Creating a KakaoTalk group for a Matrix room: \<open>group_create.go\<close> and \<open>group_reconcile.go\<close> of \<open>src/internal/bridge/connector\<close>,
  with \<open>rosterMatches\<close> of \<open>chat_snapshot.go\<close> and \<open>joinedAs\<close> of \<open>group_membership.go\<close>.

  A creation cannot be repeated safely when its outcome is unknown, so each room has a durable record of its attempt. The journal
  is a table of the login's metadata: the copy in memory (\<open>gs_meta\<close>) and the row in the database (\<open>gs_saved\<close>). Saving it
  may fail with or without having taken effect. The answers of the framework (rooms, portals, members, the projection of a chat)
  and of the database are the record \<open>group_env\<close>; \<open>groupGate\<close> makes the operations atomic with respect to each other.
\<close>

record groupCreateAttempt =
  ga_Fingerprint :: string
  ga_Participants :: "int64 list"
  ga_ChatID :: int64
  ga_Rejected :: bool
  ga_Bound :: bool
  ga_InviteAttempted :: bool
  ga_Invitees :: "int64 list"

type_synonym journal = "(string \<times> groupCreateAttempt) list"

record GroupCreateParams =
  gp_Type :: string
  gp_RoomID :: string
  gp_Username :: string
  gp_Parent :: bool
  gp_Avatar :: "string option"
  gp_Topic :: "string option"
  gp_Disappear :: "int64 option"
  gp_Name :: "string option"
  gp_Participants :: "string list"

text \<open>What the connector reads of a Matrix room.\<close>

datatype membership = MembershipJoin | MembershipInvite | MembershipOther

datatype state_type = StateBridge | StateRoomName | StateRoomAvatar | StateTopic | StateMember | StateElementFunctionalMembers

record power_levels =
  pw_user :: "string \<Rightarrow> int"
  pw_event :: "state_type \<Rightarrow> int"
  pw_invite :: int

record room_answers =
  ra_bridge :: bool
  ra_existing :: "PortalKey option result"
  ra_provider :: bool
  ra_power :: "power_levels option option result"
  ra_create :: "bool result"
  ra_members :: "(string \<times> membership) list result"
  ra_owner :: string
  ra_bot :: string
  ra_ghost :: "string \<Rightarrow> string result"
  ra_doublePuppet :: bool

record ChatInfo =
  ci_Name :: "string option"
  ci_Topic :: "string option"
  ci_Avatar :: bool

record portal_state =
  ps_NameSet :: bool
  ps_Name :: string
  ps_TopicSet :: bool
  ps_Topic :: string
  ps_AvatarSet :: bool

datatype row_answer = RowFailed go_error | RowMissing | RowOther | RowRead

text \<open>
  One binding: the room before and after, the portal, the projection of the source chat with its roster (given the stored
  roster, if any), and each save with the error it reports and whether it took effect.
\<close>

record bind_answers =
  ba_room :: room_answers
  ba_portal :: "go_error option"
  ba_info :: "int64 list option \<Rightarrow> (ChatInfo \<times> int64 list) result"
  ba_update :: "go_error option \<times> bool"
  ba_save :: "go_error option \<times> bool"
  ba_state :: portal_state
  ba_members :: "(string \<times> membership) list result"
  ba_checkpoint :: "go_error option \<times> bool"
  ba_saveAgain :: "go_error option \<times> bool"
  ba_row :: row_answer

record ChatRoom =
  rm_ChatID :: int64
  rm_Type :: string
  rm_ActiveMemberIDs :: "int64 list"

record group_env =
  ge_bson :: "raw bson"
  ge_link :: "raw link_env"
  ge_login :: bool
  ge_journal :: bool
  ge_client :: "go_error option"
  ge_fingerprint :: "CreateRequest \<Rightarrow> string result"
  ge_chatRoom :: "raw \<Rightarrow> ChatRoom result"
  ge_room :: room_answers
  ge_save :: "nat \<Rightarrow> go_error option \<times> bool"
  ge_row :: "nat \<Rightarrow> row_answer"
  ge_bind :: "nat \<Rightarrow> bind_answers"
  ge_order :: "journal \<Rightarrow> journal"
  ge_detached :: "go_error option"
  ge_connect :: "go_error option"
  ge_release :: "go_error option"
  ge_roster :: "int64 list result"

record groups =
  gs_link :: "raw link"
  gs_meta :: journal
  gs_saved :: journal
  gs_saves :: nat
  gs_binds :: nat
  gs_mxid :: "PortalKey \<Rightarrow> string"
  gs_bound :: "PortalKey \<Rightarrow> string"

definition errGroupCreateUnresolved :: go_error where "errGroupCreateUnresolved = Other ''a group creation has an unresolved outcome''"

text \<open>The command of the \<open>StatusError\<close> that \<open>errors.As\<close> finds.\<close>

function statusCommand :: "go_error \<Rightarrow> string option" where
  "statusCommand e =
     (case e of
        StatusError command status \<Rightarrow> Some command
      | Joined es \<Rightarrow> (case filter (\<lambda>s. s \<noteq> None) (map statusCommand es) of [] \<Rightarrow> None | s # _ \<Rightarrow> s)
      | _ \<Rightarrow> None)"
  by pat_completeness auto
termination
  by (relation "measure size") (auto simp: less_Suc_eq_le size_list_estimation')

declare statusCommand.simps [simp del]

subsection \<open>The request\<close>

fun memberIDs :: "int64 \<Rightarrow> string list \<Rightarrow> int64 list result" where
  "memberIDs self [] = Inr []"
| "memberIDs self (participant # participants) =
     (case parseUserID participant of
        Inl e \<Rightarrow> Inl e
      | Inr userID \<Rightarrow>
          if userID = self then Inl (Other ''select participants other than the creating account'')
          else (case memberIDs self participants of Inl e \<Rightarrow> Inl e | Inr ids \<Rightarrow> Inr (userID # ids)))"

definition groupCreateRequest :: "KakaoClient \<Rightarrow> group_env \<Rightarrow> GroupCreateParams option \<Rightarrow> (CreateRequest \<times> string) result" where
  "groupCreateRequest kc env params =
     (case params of
        None \<Rightarrow> Inl (Other ''regular group creation requires an explicit existing Matrix room'')
      | Some p \<Rightarrow>
          if gp_Type p \<noteq> ''regular'' \<or> take 1 (gp_RoomID p) \<noteq> ''!'' \<or> CHR '':'' \<notin> set (gp_RoomID p)
          then Inl (Other ''regular group creation requires an explicit existing Matrix room'')
          else if gp_Username p \<noteq> [] \<or> gp_Parent p \<or> gp_Avatar p \<notin> {None, Some []} \<or> gp_Topic p \<notin> {None, Some []}
              \<or> gp_Disappear p \<notin> {None, Some 0}
          then Inl (Other ''unsupported group creation option'')
          else (case memberIDs (kc_userID kc) (gp_Participants p) of
                  Inl e \<Rightarrow> Inl e
                | Inr ids \<Rightarrow>
                    let request = \<lparr>cr_MemberIDs = ids, cr_PushAlert = True, cr_MemoChat = False,
                          cr_NickName = (case gp_Name p of None \<Rightarrow> [] | Some name \<Rightarrow> name), cr_ProfileImageURL = []\<rparr>
                    in if length ids < 2 then Inl (Other ''regular groups require at least two other participants'')
                       else (case CreateRequest_Validate request of
                               Some e \<Rightarrow> Inl e
                             | None \<Rightarrow>
                                 let sorted_request = request\<lparr>cr_MemberIDs := sort ids\<rparr>
                                 in (case ge_fingerprint env sorted_request of
                                       Inl e \<Rightarrow> Inl e | Inr digest \<Rightarrow> Inr (sorted_request, digest)))))"

subsection \<open>The journal\<close>

definition createMetadata :: "group_env \<Rightarrow> go_error option" where
  "createMetadata env =
     (if \<not> ge_login env then Some ErrNotLoggedIn
      else if \<not> ge_journal env then Some (Other ''missing creation journal'') else None)"

definition journalRow :: "row_answer \<Rightarrow> journal \<Rightarrow> string \<Rightarrow> groupCreateAttempt \<Rightarrow> go_error option" where
  "journalRow row saved room att =
     (case row of
        RowFailed e \<Rightarrow> Some e
      | RowMissing \<Rightarrow> Some (Other ''creation journal login disappeared'')
      | RowOther \<Rightarrow> Some (Other ''creation journal could not be verified'')
      | RowRead \<Rightarrow> if map_of saved room \<noteq> Some att then Some (Other ''creation journal update was not durable'') else None)"

definition saveGroupAttempt :: "group_env \<Rightarrow> string \<Rightarrow> groupCreateAttempt \<Rightarrow> groups \<Rightarrow> go_error option \<times> groups" where
  "saveGroupAttempt env room att g =
     (case createMetadata env of
        Some e \<Rightarrow> (Some e, g)
      | None \<Rightarrow>
          let next = AList.update room att (gs_meta g);
              (e, applied) = ge_save env (gs_saves g);
              saved = (if applied then next else gs_saved g);
              g1 = g\<lparr>gs_saves := gs_saves g + 1, gs_saved := saved\<rparr>
          in (case (case e of Some e \<Rightarrow> Some e | None \<Rightarrow> journalRow (ge_row env (gs_saves g)) saved room att) of
                Some e \<Rightarrow> (Some e, g1)
              | None \<Rightarrow> (None, g1\<lparr>gs_meta := next\<rparr>)))"

definition unresolved :: "groupCreateAttempt \<Rightarrow> bool" where
  "unresolved att \<longleftrightarrow> \<not> ga_Rejected att \<and> \<not> ga_Bound att"

definition checkUnresolvedGroupCreates :: "group_env \<Rightarrow> groups \<Rightarrow> go_error option" where
  "checkUnresolvedGroupCreates env g =
     (if \<not> ge_login env then None
      else (case createMetadata env of
              Some e \<Rightarrow> Some e
            | None \<Rightarrow> if list_ex (\<lambda>(room, att). unresolved att) (gs_meta g) then Some errGroupCreateUnresolved else None))"

subsection \<open>The room\<close>

definition botStates :: "state_type list" where
  "botStates = [StateBridge, StateRoomName, StateRoomAvatar, StateTopic, StateMember, StateElementFunctionalMembers]"

definition inviteOrJoin :: "membership \<Rightarrow> bool" where
  "inviteOrJoin m \<longleftrightarrow> m = MembershipJoin \<or> m = MembershipInvite"

text \<open>The ghosts of the participants must be in the room; the result is their Matrix IDs.\<close>

fun presentGhosts :: "room_answers \<Rightarrow> (string \<times> membership) list \<Rightarrow> string list \<Rightarrow> string list result" where
  "presentGhosts R members [] = Inr []"
| "presentGhosts R members (participant # participants) =
     (case ra_ghost R participant of
        Inl e \<Rightarrow> Inl e
      | Inr ghost \<Rightarrow>
          (case map_of members ghost of
             Some m \<Rightarrow>
               if \<not> inviteOrJoin m then Inl (Other ''all selected Kakao ghosts must be invited or joined'')
               else (case presentGhosts R members participants of Inl e \<Rightarrow> Inl e | Inr ghosts \<Rightarrow> Inr (ghost # ghosts))
           | None \<Rightarrow> Inl (Other ''all selected Kakao ghosts must be invited or joined'')))"

definition roomPowers :: "room_answers \<Rightarrow> power_levels \<Rightarrow> go_error option" where
  "roomPowers R pl =
     (if pw_user pl (ra_owner R) < pw_event pl StateBridge
      then Some (Other ''login owner lacks permission to bridge the selected room'')
      else if list_ex (\<lambda>state. pw_user pl (ra_bot R) < pw_event pl state) botStates
      then Some (Other ''bridge bot lacks required room state permissions'')
      else if pw_user pl (ra_bot R) < pw_invite pl then Some (Other ''bridge bot cannot invite selected source identities'')
      else None)"

definition roomMembers :: "KakaoClient \<Rightarrow> room_answers \<Rightarrow> string list \<Rightarrow> PortalKey option \<Rightarrow> (string \<times> membership) list \<Rightarrow> go_error option" where
  "roomMembers kc R participants allowedKey members =
     (if map_of members (ra_owner R) \<noteq> Some MembershipJoin \<or> map_of members (ra_bot R) \<noteq> Some MembershipJoin
      then Some (Other ''login owner and bridge bot must be joined to the selected room'')
      else (case (if allowedKey = None then Inr []
                  else (case ra_ghost R (makeUserID (kc_userID kc)) of Inl e \<Rightarrow> Inl e | Inr self \<Rightarrow> Inr [self])) of
              Inl e \<Rightarrow> Some e
            | Inr self \<Rightarrow>
                (case presentGhosts R members participants of
                   Inl e \<Rightarrow> Some e
                 | Inr ghosts \<Rightarrow>
                     if list_ex (\<lambda>(user, m). inviteOrJoin m \<and> user \<notin> set ([ra_owner R, ra_bot R] @ self @ ghosts)) members
                     then Some (Other ''selected room contains an unselected participant'') else None)))"

definition validateGroupRoom :: "KakaoClient \<Rightarrow> room_answers \<Rightarrow> string list \<Rightarrow> PortalKey option \<Rightarrow> go_error option" where
  "validateGroupRoom kc R participants allowedKey =
     (if \<not> ra_bridge R then Some (Other ''Matrix room validation is unavailable'')
      else (case ra_existing R of
              Inl e \<Rightarrow> Some e
            | Inr existing \<Rightarrow>
                if existing \<noteq> None \<and> (allowedKey = None \<or> existing \<noteq> allowedKey)
                then Some (Other ''selected Matrix room is already bridged'')
                else if \<not> ra_provider R then Some (Other ''Matrix room permission validation is unavailable'')
                else (case ra_power R of
                        Inl e \<Rightarrow> Some e
                      | Inr None \<Rightarrow> Some (Other ''room power levels are unavailable'')
                      | Inr (Some None) \<Rightarrow> Some (Other ''room power levels could not be validated'')
                      | Inr (Some (Some pl)) \<Rightarrow>
                          (case ra_create R of
                             Inl e \<Rightarrow> Some e
                           | Inr present \<Rightarrow>
                               if \<not> present then Some (Other ''room creation state is unavailable'')
                               else (case roomPowers R pl of
                                       Some e \<Rightarrow> Some e
                                     | None \<Rightarrow>
                                         (case ra_members R of
                                            Inl e \<Rightarrow> Some e
                                          | Inr members \<Rightarrow> roomMembers kc R participants allowedKey members))))))"

subsection \<open>The source roster\<close>

definition errRosterIncomplete :: go_error where "errRosterIncomplete = Other ''source roster is incomplete or differs in size''"
definition errRosterUnexpected :: go_error where "errRosterUnexpected = Other ''source roster has an unexpected participant''"

definition rosterMatches :: "KakaoClient \<Rightarrow> int64 list \<Rightarrow> string list \<Rightarrow> bool \<Rightarrow> go_error option" where
  "rosterMatches kc roster expected allowSubset =
     (let actual = remdups (map makeUserID (kc_userID kc # roster))
      in if roster = [] then Some errRosterIncomplete
         else if \<not> allowSubset \<and> length actual \<noteq> length (remdups expected) then Some errRosterIncomplete
         else if \<not> list_all (\<lambda>userID. userID \<in> set expected) actual then Some errRosterUnexpected
         else None)"

fun rosterLoop :: "int64 list \<Rightarrow> int64 list \<Rightarrow> int64 list \<Rightarrow> int64 list result" where
  "rosterLoop allowed actual [] = Inr actual"
| "rosterLoop allowed actual (member # roster) =
     (if member \<le> 0 \<or> member \<in> set actual \<or> member \<notin> set allowed
      then Inl (Other ''source roster contains an invalid, duplicate or unselected identity'')
      else rosterLoop allowed (member # actual) roster)"

definition creationSourceRoster :: "KakaoClient \<Rightarrow> int64 list \<Rightarrow> int64 list \<Rightarrow> int64 list result" where
  "creationSourceRoster kc roster participants =
     (case rosterLoop (kc_userID kc # participants) [] roster of
        Inl e \<Rightarrow> Inl e
      | Inr actual \<Rightarrow>
          if kc_userID kc \<notin> set actual then Inl (Other ''creating account is absent from the source roster'') else Inr actual)"

definition expectedUsers :: "KakaoClient \<Rightarrow> int64 list \<Rightarrow> string list" where
  "expectedUsers kc participants = makeUserID (kc_userID kc) # map makeUserID participants"

definition joinedAs :: "KakaoClient \<Rightarrow> room_answers \<Rightarrow> (string \<times> membership) list \<Rightarrow> string \<Rightarrow> string \<Rightarrow> bool" where
  "joinedAs kc R members user ghost \<longleftrightarrow>
     map_of members ghost = Some MembershipJoin
     \<or> user = makeUserID (kc_userID kc) \<and> ra_doublePuppet R \<and> map_of members (ra_owner R) = Some MembershipJoin"

fun allJoined :: "KakaoClient \<Rightarrow> room_answers \<Rightarrow> (string \<times> membership) list \<Rightarrow> string list \<Rightarrow> go_error option" where
  "allJoined kc R members [] = None"
| "allJoined kc R members (user # users) =
     (case ra_ghost R user of
        Inl e \<Rightarrow> Some e
      | Inr ghost \<Rightarrow>
          if \<not> joinedAs kc R members user ghost then Some (Other ''created group roster has not converged in Matrix'')
          else allJoined kc R members users)"

definition verifyGroupBinding :: "KakaoClient \<Rightarrow> bind_answers \<Rightarrow> ChatInfo \<Rightarrow> string list \<Rightarrow> go_error option" where
  "verifyGroupBinding kc A info expected =
     (let p = ba_state A
      in if ci_Name info \<noteq> None \<and> (\<not> ps_NameSet p \<or> Some (ps_Name p) \<noteq> ci_Name info)
         then Some (Other ''created group name has not converged in Matrix'')
         else if ci_Topic info \<noteq> None \<and> (\<not> ps_TopicSet p \<or> Some (ps_Topic p) \<noteq> ci_Topic info)
         then Some (Other ''created group topic has not converged in Matrix'')
         else if ci_Avatar info \<and> \<not> ps_AvatarSet p then Some (Other ''created group avatar has not converged in Matrix'')
         else (case ba_members A of Inl e \<Rightarrow> Some e | Inr members \<Rightarrow> allJoined kc (ba_room A) members expected))"

subsection \<open>Binding\<close>

definition createdRoom :: "group_env \<Rightarrow> raw CreateResponse \<Rightarrow> ChatRoom option" where
  "createdRoom env response =
     (if cp_ChatRoom response = [] then None
      else (case ge_chatRoom env (cp_ChatRoom response) of
              Inl _ \<Rightarrow> None
            | Inr room \<Rightarrow>
                if rm_ChatID room \<noteq> cp_ChatID response \<or> rm_Type room \<noteq> ''MultiChat'' \<or> rm_ActiveMemberIDs room = [] then None
                else Some room))"

text \<open>Saving the portal writes its Matrix room to the database, if it takes effect.\<close>

definition portal_Save :: "PortalKey \<Rightarrow> go_error option \<times> bool \<Rightarrow> groups \<Rightarrow> go_error option \<times> groups" where
  "portal_Save key answer g =
     (fst answer, if snd answer then g\<lparr>gs_bound := (gs_bound g)(key := gs_mxid g key)\<rparr> else g)"

text \<open>
  The room is entered in the portal and saved, the room is verified, the membership checkpoint and the portal are saved
  again, and the row is read back before the attempt is marked bound.
\<close>

definition bindPortal ::
    "KakaoClient \<Rightarrow> group_env \<Rightarrow> bind_answers \<Rightarrow> string \<Rightarrow> groupCreateAttempt \<Rightarrow> ChatInfo \<Rightarrow> groups \<Rightarrow> PortalKey result \<times> groups" where
  "bindPortal kc env A room att info g =
     (let key = makePortalKey (ga_ChatID att) (kc_loginID kc);
          g1 = (if snd (ba_update A) then g\<lparr>gs_mxid := (gs_mxid g)(key := room)\<rparr> else g)
      in if gs_mxid g key \<noteq> [] \<and> gs_mxid g key \<noteq> room
         then (Inl (Other ''source group is already bound to another Matrix room''), g)
         else (case fst (ba_update A) of
                 Some e \<Rightarrow> (Inl e, g1)
               | None \<Rightarrow>
                   (case portal_Save key (ba_save A) g1 of
                      (Some e, g2) \<Rightarrow> (Inl e, g2)
                    | (None, g2) \<Rightarrow>
                        (case verifyGroupBinding kc A info (expectedUsers kc (ga_Participants att)) of
                           Some e \<Rightarrow> (Inl e, g2)
                         | None \<Rightarrow>
                             (case portal_Save key (ba_checkpoint A) g2 of
                                (Some e, g3) \<Rightarrow> (Inl e, g3)
                              | (None, g3) \<Rightarrow>
                                  (case portal_Save key (ba_saveAgain A) g3 of
                                     (Some e, g4) \<Rightarrow> (Inl e, g4)
                                   | (None, g4) \<Rightarrow>
                                       (case ba_row A of
                                          RowFailed e \<Rightarrow> (Inl e, g4)
                                        | RowRead \<Rightarrow>
                                            if gs_bound g4 key \<noteq> room then (Inl (Other ''group room binding was not persisted''), g4)
                                            else (case saveGroupAttempt env room (att\<lparr>ga_Bound := True\<rparr>) g4 of
                                                    (Some e, g5) \<Rightarrow> (Inl e, g5)
                                                  | (None, g5) \<Rightarrow> (Inr key, g5))
                                        | _ \<Rightarrow> (Inl (Other ''group room binding was not persisted''), g4))))))))"

definition bindCreatedGroup ::
    "KakaoClient \<Rightarrow> group_env \<Rightarrow> string \<Rightarrow> groupCreateAttempt \<Rightarrow> ChatRoom option \<Rightarrow> groups \<Rightarrow> PortalKey result \<times> groups" where
  "bindCreatedGroup kc env room att created g0 =
     (let key = makePortalKey (ga_ChatID att) (kc_loginID kc); A = ge_bind env (gs_binds g0); g = g0\<lparr>gs_binds := gs_binds g0 + 1\<rparr>
      in case validateGroupRoom kc (ba_room A) (map makeUserID (ga_Participants att)) (Some key) of
           Some e \<Rightarrow> (Inl e, g)
         | None \<Rightarrow>
             (case ba_portal A of
                Some e \<Rightarrow> (Inl e, g)
              | None \<Rightarrow>
                  (case ba_info A (map_option (\<lambda>c. sort (rm_ActiveMemberIDs c)) created) of
                     Inl e \<Rightarrow> (Inl e, g)
                   | Inr (info, roster) \<Rightarrow>
                       (case creationSourceRoster kc roster (ga_Participants att) of
                          Inl e \<Rightarrow> (Inl e, g)
                        | Inr rawRoster \<Rightarrow>
                            if length rawRoster \<noteq> length (remdups (expectedUsers kc (ga_Participants att)))
                            then (Inl (Other ''source roster is incomplete for group binding''), g)
                            else (case rosterMatches kc roster (expectedUsers kc (ga_Participants att)) False of
                                    Some e \<Rightarrow> (Inl (Joined [e]), g)
                                  | None \<Rightarrow> bindPortal kc env A room att info g)))))"

subsection \<open>Creating\<close>

text \<open>The one CREATE of a journalled attempt, and its outcome in the journal.\<close>

definition sendCreate ::
    "group_env \<Rightarrow> string \<Rightarrow> groupCreateAttempt \<Rightarrow> CreateRequest \<Rightarrow> groups \<Rightarrow> (groupCreateAttempt \<times> ChatRoom option) result \<times> groups" where
  "sendCreate env room att request g =
     (case CreateChat (ge_bson env) (ge_link env) request (gs_link g) of
        (Inl e, L) \<Rightarrow>
          let g1 = g\<lparr>gs_link := L\<rparr>
          in if statusCommand e = Some ''CREATE''
             then (case saveGroupAttempt env room (att\<lparr>ga_Rejected := True\<rparr>) g1 of
                     (Some e, g2) \<Rightarrow> (Inl e, g2)
                   | (None, g2) \<Rightarrow> (Inl (Other ''group creation rejected; not retried''), g2))
             else (Inl errGroupCreateUnresolved, g1)
      | (Inr response, L) \<Rightarrow>
          let g1 = g\<lparr>gs_link := L\<rparr>; att1 = att\<lparr>ga_ChatID := cp_ChatID response\<rparr>
          in if cp_ChatID response \<le> 0 then (Inl errGroupCreateUnresolved, g1)
             else (case saveGroupAttempt env room att1 g1 of
                     (Some _, g2) \<Rightarrow> (Inl errGroupCreateUnresolved, g2)
                   | (None, g2) \<Rightarrow> (Inr (att1, createdRoom env response), g2)))"

definition firstCreate ::
    "KakaoClient \<Rightarrow> group_env \<Rightarrow> GroupCreateParams \<Rightarrow> CreateRequest \<Rightarrow> string \<Rightarrow> groups
     \<Rightarrow> (groupCreateAttempt \<times> ChatRoom option) result \<times> groups" where
  "firstCreate kc env p request fingerprint g =
     (case checkUnresolvedGroupCreates env g of
        Some e \<Rightarrow> (Inl e, g)
      | None \<Rightarrow>
          (case validateGroupRoom kc (ge_room env) (gp_Participants p) None of
             Some e \<Rightarrow> (Inl e, g)
           | None \<Rightarrow>
               let att = \<lparr>ga_Fingerprint = fingerprint, ga_Participants = cr_MemberIDs request, ga_ChatID = 0, ga_Rejected = False,
                     ga_Bound = False, ga_InviteAttempted = False, ga_Invitees = []\<rparr>
               in (case saveGroupAttempt env (gp_RoomID p) att g of
                     (Some e, g1) \<Rightarrow> (Inl e, g1)
                   | (None, g1) \<Rightarrow> sendCreate env (gp_RoomID p) att request g1)))"

text \<open>The attempt of a room: the confirmed one of the journal, or a first one.\<close>

definition createAttempt ::
    "KakaoClient \<Rightarrow> group_env \<Rightarrow> GroupCreateParams \<Rightarrow> CreateRequest \<Rightarrow> string \<Rightarrow> groups
     \<Rightarrow> (groupCreateAttempt \<times> ChatRoom option) result \<times> groups" where
  "createAttempt kc env p request fingerprint g =
     (case map_of (gs_meta g) (gp_RoomID p) of
        Some att \<Rightarrow>
          if ga_Fingerprint att \<noteq> fingerprint then (Inl (Other ''this room already has a different group creation attempt''), g)
          else if ga_Rejected att then (Inl (Other ''source rejected this creation; no automatic retry''), g)
          else if ga_ChatID att = 0 then (Inl errGroupCreateUnresolved, g)
          else (Inr (att, None), g)
      | None \<Rightarrow> firstCreate kc env p request fingerprint g)"

definition CreateGroup :: "KakaoClient \<Rightarrow> group_env \<Rightarrow> GroupCreateParams option \<Rightarrow> groups \<Rightarrow> PortalKey result \<times> groups" where
  "CreateGroup kc env params g =
     (case groupCreateRequest kc env params of
        Inl e \<Rightarrow> (Inl e, g)
      | Inr (request, fingerprint) \<Rightarrow>
          (case createMetadata env of
             Some e \<Rightarrow> (Inl e, g)
           | None \<Rightarrow>
               (case ge_client env of
                  Some e \<Rightarrow> (Inl e, g)
                | None \<Rightarrow>
                    (case createAttempt kc env (the params) request fingerprint g of
                       (Inl e, g1) \<Rightarrow> (Inl e, g1)
                     | (Inr (att, created), g1) \<Rightarrow>
                         (case bindCreatedGroup kc env (gp_RoomID (the params)) att created g1 of
                            (Inl e, g2) \<Rightarrow> (Inl (Joined [e]), g2)
                          | (Inr key, g2) \<Rightarrow> (Inr key, g2))))))"

subsection \<open>Resuming and reconciling\<close>

definition permanentAdmissionError :: "go_error \<Rightarrow> go_error" where
  "permanentAdmissionError e = Joined [Other ''permanent admission error'', e]"

text \<open>The loop ranges over the journal as it was when it began, in an order of its own.\<close>

fun resumeLoop :: "KakaoClient \<Rightarrow> group_env \<Rightarrow> journal \<Rightarrow> groups \<Rightarrow> go_error option \<times> groups" where
  "resumeLoop kc env [] g = (None, g)"
| "resumeLoop kc env ((room, att) # rest) g =
     (if ga_Rejected att \<or> ga_Bound att then resumeLoop kc env rest g
      else if ga_ChatID att = 0 then (Some (permanentAdmissionError errGroupCreateUnresolved), g)
      else (case bindCreatedGroup kc env room att None g of
              (Inl e, g1) \<Rightarrow> (Some e, g1)
            | (Inr _, g1) \<Rightarrow> resumeLoop kc env rest g1))"

definition resumeGroupCreates :: "KakaoClient \<Rightarrow> group_env \<Rightarrow> groups \<Rightarrow> go_error option \<times> groups" where
  "resumeGroupCreates kc env g =
     (if \<not> ge_login env then (None, g)
      else (case createMetadata env of Some e \<Rightarrow> (Some e, g) | None \<Rightarrow> resumeLoop kc env (ge_order env (gs_meta g)) g))"

text \<open>The missing participants of a confirmed group, invited once.\<close>

definition inviteOnce ::
    "group_env \<Rightarrow> string \<Rightarrow> groupCreateAttempt \<Rightarrow> int64 list \<Rightarrow> groups \<Rightarrow> groupCreateAttempt result \<times> groups" where
  "inviteOnce env room att missing g =
     (let att1 = att\<lparr>ga_InviteAttempted := True, ga_Invitees := missing\<rparr>
      in case saveGroupAttempt env room att1 g of
           (Some e, g1) \<Rightarrow> (Inl e, g1)
         | (None, g1) \<Rightarrow>
             (case AddMembers (ge_bson env) (ge_link env) \<lparr>am_ChatID = ga_ChatID att, am_MemberIDs = missing\<rparr> (gs_link g1) of
                (Inl _, L) \<Rightarrow> (Inl (Other ''invitation did not confirm completion''), g1\<lparr>gs_link := L\<rparr>)
              | (Inr response, L) \<Rightarrow>
                  if ap_Warning response \<noteq> [] then (Inl (Other ''source returned an invitation warning''), g1\<lparr>gs_link := L\<rparr>)
                  else (Inr att1, g1\<lparr>gs_link := L\<rparr>)))"

definition inviteMissing ::
    "KakaoClient \<Rightarrow> group_env \<Rightarrow> string \<Rightarrow> groupCreateAttempt \<Rightarrow> int64 list \<Rightarrow> groups \<Rightarrow> groupCreateAttempt result \<times> groups" where
  "inviteMissing kc env room att roster g =
     (case creationSourceRoster kc roster (ga_Participants att) of
        Inl e \<Rightarrow> (Inl e, g)
      | Inr rawRoster \<Rightarrow>
          let missing = filter (\<lambda>participant. participant \<notin> set rawRoster) (ga_Participants att)
          in if missing = [] then (Inr att, g)
             else if ga_InviteAttempted att then (Inl (Other ''invitation outcome remains incomplete''), g)
             else inviteOnce env room att missing g)"

text \<open>With the connected client: the roster of the selected chat, the invitations, and the binding.\<close>

definition reconcileWith ::
    "KakaoClient \<Rightarrow> group_env \<Rightarrow> string \<Rightarrow> int64 \<Rightarrow> bool \<Rightarrow> groupCreateAttempt \<Rightarrow> groups \<Rightarrow> PortalKey result \<times> groups" where
  "reconcileWith kc env room chatID invite att g =
     (case ge_roster env of
        Inl e \<Rightarrow> (Inl e, g)
      | Inr roster \<Rightarrow>
          (case rosterMatches kc roster (expectedUsers kc (ga_Participants att)) invite of
             Some e \<Rightarrow> (Inl (Joined [e]), g)
           | None \<Rightarrow>
               (case (if invite then inviteMissing kc env room att roster g else (Inr att, g)) of
                  (Inl e, g1) \<Rightarrow> (Inl e, g1)
                | (Inr att1, g1) \<Rightarrow>
                    (case saveGroupAttempt env room (att1\<lparr>ga_ChatID := chatID\<rparr>) g1 of
                       (Some e, g2) \<Rightarrow> (Inl e, g2)
                     | (None, g2) \<Rightarrow> bindCreatedGroup kc env room (att1\<lparr>ga_ChatID := chatID\<rparr>) None g2))))"

text \<open>A client opened for the reconciliation alone is connected first, and released in the end.\<close>

definition detached :: "group_env \<Rightarrow> (groups \<Rightarrow> PortalKey result \<times> groups) \<Rightarrow> groups \<Rightarrow> PortalKey result \<times> groups" where
  "detached env run g =
     (case ge_client env of
        None \<Rightarrow> run g
      | Some _ \<Rightarrow>
          (case ge_detached env of
             Some e \<Rightarrow> (Inl e, g)
           | None \<Rightarrow>
               (case (case ge_connect env of Some e \<Rightarrow> (Inl e, g) | None \<Rightarrow> run g) of
                  (r, g1) \<Rightarrow> (if ge_release env \<noteq> None then Inl (Other ''reconciliation profile shutdown failed'') else r, g1))))"

definition reconcileGroup :: "KakaoClient \<Rightarrow> group_env \<Rightarrow> string \<Rightarrow> int64 \<Rightarrow> bool \<Rightarrow> groups \<Rightarrow> PortalKey result \<times> groups" where
  "reconcileGroup kc env room chatID0 invite g =
     (if \<not> invite \<and> chatID0 \<le> 0 then (Inl (Other ''reconciliation requires a context and positive source chat ID''), g)
      else (case createMetadata env of
              Some e \<Rightarrow> (Inl e, g)
            | None \<Rightarrow>
                (case map_of (gs_meta g) room of
                   None \<Rightarrow> (Inl (Other ''this Matrix room has no unresolved creation to reconcile''), g)
                 | Some att \<Rightarrow>
                     if ga_Rejected att \<or> ga_Bound att then (Inl (Other ''this Matrix room has no unresolved creation to reconcile''), g)
                     else if invite \<and> ga_ChatID att \<le> 0 then (Inl (Other ''invitation completion requires a confirmed source group''), g)
                     else let chatID = (if invite then ga_ChatID att else chatID0);
                              key = makePortalKey chatID (kc_loginID kc);
                              participants = map makeUserID (ga_Participants att)
                          in if ga_ChatID att \<noteq> 0 \<and> ga_ChatID att \<noteq> chatID
                             then (Inl (Other ''confirmed source identity cannot be replaced''), g)
                             else (case groupCreateRequest kc env (Some \<lparr>gp_Type = ''regular'', gp_RoomID = room, gp_Username = [], gp_Parent = False,
                                          gp_Avatar = None, gp_Topic = None, gp_Disappear = None, gp_Name = None, gp_Participants = participants\<rparr>) of
                                     Inl _ \<Rightarrow> (Inl (Other ''saved group participant selection is invalid''), g)
                                   | Inr _ \<Rightarrow>
                                       (case validateGroupRoom kc (ge_room env) participants (Some key) of
                                          Some e \<Rightarrow> (Inl e, g)
                                        | None \<Rightarrow> detached env (reconcileWith kc env room chatID invite att) g)))))"

definition ReconcileGroup :: "KakaoClient \<Rightarrow> group_env \<Rightarrow> string \<Rightarrow> int64 \<Rightarrow> groups \<Rightarrow> PortalKey result \<times> groups" where
  "ReconcileGroup kc env room chatID = reconcileGroup kc env room chatID False"

definition CompleteGroupInvitations :: "KakaoClient \<Rightarrow> group_env \<Rightarrow> string \<Rightarrow> groups \<Rightarrow> PortalKey result \<times> groups" where
  "CompleteGroupInvitations kc env room = reconcileGroup kc env room 0 True"

subsection \<open>What the journal keeps\<close>

text \<open>
  A room is recorded when both copies of the journal have an attempt for it, and recorded as invited when the attempts say so.
\<close>

definition recordedIn :: "bool \<Rightarrow> string \<Rightarrow> journal \<Rightarrow> bool" where
  "recordedIn invited room j \<longleftrightarrow> (\<exists>att. map_of j room = Some att \<and> (invited \<longrightarrow> ga_InviteAttempted att))"

definition recorded :: "bool \<Rightarrow> string \<Rightarrow> groups \<Rightarrow> bool" where
  "recorded invited room g \<longleftrightarrow> recordedIn invited room (gs_meta g) \<and> recordedIn invited room (gs_saved g)"

definition keysOK :: "groups \<Rightarrow> bool" where
  "keysOK g \<longleftrightarrow> distinct (map fst (gs_meta g)) \<and> distinct (map fst (gs_saved g))"

text \<open>An operation on a room keeps the records, if what it writes for that room keeps them.\<close>

definition keepsRecords :: "string \<Rightarrow> groupCreateAttempt \<Rightarrow> groups \<Rightarrow> groups \<Rightarrow> bool" where
  "keepsRecords room att g g' \<longleftrightarrow>
     (keysOK g \<longrightarrow> keysOK g')
     \<and> (\<forall>invited room'. recorded invited room' g \<longrightarrow> (room' = room \<longrightarrow> invited \<longrightarrow> ga_InviteAttempted att) \<longrightarrow> recorded invited room' g')"

lemma keepsRecords_refl [simp]: "keepsRecords room att g g"
  by (simp add: keepsRecords_def)

lemma keepsRecords_trans: "keepsRecords room att g g' \<Longrightarrow> keepsRecords room att g' g'' \<Longrightarrow> keepsRecords room att g g''"
  by (simp add: keepsRecords_def)

lemma keepsRecords_same: "gs_meta g' = gs_meta g \<Longrightarrow> gs_saved g' = gs_saved g \<Longrightarrow> keepsRecords room att g g'"
  by (simp add: keepsRecords_def recorded_def keysOK_def)

lemma keepsRecords_cong: "ga_InviteAttempted att = ga_InviteAttempted att' \<Longrightarrow> keepsRecords room att = keepsRecords room att'"
  by (simp add: keepsRecords_def fun_eq_iff)

lemma saveGroupAttempt_spec:
  assumes "saveGroupAttempt env room att g = (e, g')"
  shows "gs_link g' = gs_link g \<and> (gs_saved g' = gs_saved g \<or> gs_saved g' = AList.update room att (gs_meta g))
    \<and> gs_meta g' = (if e = None then AList.update room att (gs_meta g) else gs_meta g)
    \<and> (e = None \<longrightarrow> map_of (gs_saved g') room = Some att)"
proof (cases "createMetadata env")
  case (Some x)
  then show ?thesis using assms by (auto simp: saveGroupAttempt_def)
next
  case None
  obtain e0 applied where s: "ge_save env (gs_saves g) = (e0, applied)" by fastforce
  show ?thesis
  proof (cases e0)
    case (Some x)
    then show ?thesis using assms None s by (auto simp: saveGroupAttempt_def Let_def)
  next
    case e0: None
    show ?thesis using assms None s e0
      by (cases "ge_row env (gs_saves g)")
         (auto simp: saveGroupAttempt_def journalRow_def Let_def split: if_split_asm)
  qed
qed

lemma recordedIn_update:
  "recordedIn invited room' j \<Longrightarrow> (room' = room \<longrightarrow> invited \<longrightarrow> ga_InviteAttempted att) \<Longrightarrow> recordedIn invited room' (AList.update room att j)"
  by (auto simp: recordedIn_def AList.update_conv')

lemma journal_keeps: "saveGroupAttempt env room att g = (e, g') \<Longrightarrow> keepsRecords room att g g'"
  by (drule saveGroupAttempt_spec)
     (auto simp: keepsRecords_def recorded_def keysOK_def recordedIn_update AList.distinct_update split: if_split_asm)

lemma save_records:
  "saveGroupAttempt env room att g = (None, g') \<Longrightarrow> (invited \<longrightarrow> ga_InviteAttempted att) \<Longrightarrow> recorded invited room g'"
  by (drule saveGroupAttempt_spec) (auto simp: recorded_def recordedIn_def AList.update_conv')

lemma save_link: "saveGroupAttempt env room att g = (e, g') \<Longrightarrow> gs_link g' = gs_link g"
  by (drule saveGroupAttempt_spec) simp

lemma portal_Save_state [simp]:
  "gs_meta (snd (portal_Save key a g)) = gs_meta g" "gs_saved (snd (portal_Save key a g)) = gs_saved g"
  "gs_link (snd (portal_Save key a g)) = gs_link g"
  by (simp_all add: portal_Save_def)

lemma portal_Save_same:
  "portal_Save key a g = (e, g') \<Longrightarrow> gs_meta g' = gs_meta g \<and> gs_saved g' = gs_saved g \<and> gs_link g' = gs_link g"
  by (metis portal_Save_state snd_conv)

lemma bindPortal_journal:
  assumes "bindPortal kc env A room att info g = (r, g')"
  shows "gs_link g' = gs_link g \<and> keepsRecords room att g g'
    \<and> (gs_meta g' = gs_meta g \<or> gs_meta g' = AList.update room (att\<lparr>ga_Bound := True\<rparr>) (gs_meta g))"
proof -
  let ?key = "makePortalKey (ga_ChatID att) (kc_loginID kc)"
  define g1 where "g1 = (if snd (ba_update A) then g\<lparr>gs_mxid := (gs_mxid g)(?key := room)\<rparr> else g)"
  define g2 where "g2 = snd (portal_Save ?key (ba_save A) g1)"
  define g3 where "g3 = snd (portal_Save ?key (ba_checkpoint A) g2)"
  define g4 where "g4 = snd (portal_Save ?key (ba_saveAgain A) g3)"
  have same: "gs_meta h = gs_meta g \<and> gs_saved h = gs_saved g \<and> gs_link h = gs_link g" if "h \<in> {g, g1, g2, g3, g4}" for h
    using that by (auto simp: g1_def g2_def g3_def g4_def)
  have "g' \<in> {g, g1, g2, g3, g4} \<or> g' = snd (saveGroupAttempt env room (att\<lparr>ga_Bound := True\<rparr>) g4)"
    using assms unfolding bindPortal_def Let_def g4_def g3_def g2_def g1_def case_prod_beta
    by (simp split: option.split_asm if_split_asm row_answer.split_asm)
  then consider "g' \<in> {g, g1, g2, g3, g4}" | e where "saveGroupAttempt env room (att\<lparr>ga_Bound := True\<rparr>) g4 = (e, g')"
    by (metis prod.collapse)
  then show ?thesis
  proof cases
    case 1
    then show ?thesis using same keepsRecords_same by blast
  next
    case 2
    have "keepsRecords room att g4 g'"
      using journal_keeps [OF 2] keepsRecords_cong [of "att\<lparr>ga_Bound := True\<rparr>" att room] by simp
    moreover have g4: "gs_meta g4 = gs_meta g \<and> gs_saved g4 = gs_saved g \<and> gs_link g4 = gs_link g" by (rule same) simp
    ultimately have "keepsRecords room att g g'" using keepsRecords_trans keepsRecords_same by blast
    then show ?thesis using saveGroupAttempt_spec [OF 2] g4 by (simp split: if_splits)
  qed
qed

lemma bind_journal:
  assumes "bindCreatedGroup kc env room att created g = (r, g')"
  shows "gs_link g' = gs_link g \<and> keepsRecords room att g g'
    \<and> (gs_meta g' = gs_meta g \<or> gs_meta g' = AList.update room (att\<lparr>ga_Bound := True\<rparr>) (gs_meta g))"
proof -
  let ?g = "g\<lparr>gs_binds := gs_binds g + 1\<rparr>"
  have "g' = ?g \<or> (\<exists>A info. bindPortal kc env A room att info ?g = (r, g'))"
    using assms unfolding bindCreatedGroup_def Let_def by (auto split: option.splits sum.splits prod.splits if_splits)
  then have "gs_link g' = gs_link ?g \<and> keepsRecords room att ?g g'
      \<and> (gs_meta g' = gs_meta ?g \<or> gs_meta g' = AList.update room (att\<lparr>ga_Bound := True\<rparr>) (gs_meta ?g))"
    using bindPortal_journal [of kc env _ room att _ ?g r g'] by (elim disjE exE) simp_all
  then show ?thesis using keepsRecords_trans [OF keepsRecords_same [of ?g g]] by simp
qed

text \<open>The operations keep every record.\<close>

definition allKept :: "groups \<Rightarrow> groups \<Rightarrow> bool" where
  "allKept g g' \<longleftrightarrow> (keysOK g \<longrightarrow> keysOK g') \<and> (\<forall>invited room. recorded invited room g \<longrightarrow> recorded invited room g')"

lemma allKept_refl [simp]: "allKept g g"
  by (simp add: allKept_def)

lemma allKept_trans: "allKept g g' \<Longrightarrow> allKept g' g'' \<Longrightarrow> allKept g g''"
  by (simp add: allKept_def)

lemma allKeptI: "keepsRecords room att g g' \<Longrightarrow> (recorded True room g \<Longrightarrow> ga_InviteAttempted att) \<Longrightarrow> allKept g g'"
  unfolding keepsRecords_def allKept_def by metis

lemma recorded_attempt: "recorded True room g \<Longrightarrow> map_of (gs_meta g) room = Some att \<Longrightarrow> ga_InviteAttempted att"
  by (simp add: recorded_def recordedIn_def)

definition sends :: "groups \<Rightarrow> (string \<times> raw) list \<Rightarrow> groups \<Rightarrow> bool" where
  "sends g reqs g' \<longleftrightarrow> lk_sent (gs_link g') = lk_sent (gs_link g) @ reqs"

lemma sends_none: "gs_link g' = gs_link g \<Longrightarrow> sends g [] g'"
  by (simp add: sends_def)

lemma chatCall_sent:
  "\<exists>reqs. lk_sent (snd (withSession link (chatCall link command body decode) L)) = lk_sent L @ reqs \<and> (reqs = [] \<or> (\<exists>doc. reqs = [(command, doc)]))"
  by (auto simp: withSession_def chatCall_def Let_def split: option.split sum.split)

lemma CreateChat_sent:
  assumes "CreateChat B link request L = (r, L')"
  shows "\<exists>reqs. lk_sent L' = lk_sent L @ reqs \<and> (reqs = [] \<or> (\<exists>doc. reqs = [(''CREATE'', doc)]))"
  using chatCall_sent [of link "''CREATE''" "CreateRequest_MarshalBSON B request" "DecodeCreateResponse B" L] assms
  by (simp add: CreateChat_def)

lemma AddMembers_sent:
  assumes "AddMembers B link request L = (r, L')"
  shows "\<exists>reqs. lk_sent L' = lk_sent L @ reqs \<and> (reqs = [] \<or> (\<exists>doc. reqs = [(''ADDMEM'', doc)]))"
  using chatCall_sent [of link "''ADDMEM''" "AddMembersRequest_MarshalBSON B request" "DecodeAddMembersResponse B" L] assms
  by (auto simp: AddMembers_def split: sum.splits)

text \<open>The outcome of a CREATE on a recorded room is saved without losing a record.\<close>

lemma outcome_saved:
  assumes "saveGroupAttempt env room att' g = (f, h)" "ga_InviteAttempted att' = ga_InviteAttempted att" "recorded False room g"
  shows "keepsRecords room att g h \<and> recorded False room h \<and> gs_link h = gs_link g"
proof -
  have "keepsRecords room att g h" using journal_keeps [OF assms(1)] unfolding keepsRecords_cong [OF assms(2)] .
  moreover from this have "recorded False room h" using assms(3) unfolding keepsRecords_def by blast
  ultimately show ?thesis using save_link [OF assms(1)] by simp
qed

lemma sendCreate_spec:
  assumes "sendCreate env room att request g = (r, g')" "recorded False room g"
  shows "keepsRecords room att g g' \<and> recorded False room g' \<and> (\<exists>reqs. sends g reqs g' \<and> (reqs = [] \<or> (\<exists>doc. reqs = [(''CREATE'', doc)])))
    \<and> (\<forall>att' created. r = Inr (att', created) \<longrightarrow> map_of (gs_meta g') room = Some att')"
proof -
  obtain x L where c: "CreateChat (ge_bson env) (ge_link env) request (gs_link g) = (x, L)" by fastforce
  let ?g = "g\<lparr>gs_link := L\<rparr>"
  have k: "keepsRecords room att g ?g" "recorded False room ?g" using assms(2) by (auto intro: keepsRecords_same simp: recorded_def)
  have saved: ?thesis
    if "saveGroupAttempt env room att' ?g = (f, g')" "ga_InviteAttempted att' = ga_InviteAttempted att"
      "(\<exists>y. r = Inl y) \<or> f = None \<and> (\<exists>created. r = Inr (att', created))" for att' f
    using outcome_saved [OF that(1,2) k(2)] keepsRecords_trans [OF k(1)] CreateChat_sent [OF c] that(3) saveGroupAttempt_spec [OF that(1)]
    by (auto simp: sends_def AList.update_conv')
  have plain: ?thesis if "g' = ?g" "\<exists>y. r = Inl y" using k CreateChat_sent [OF c] that by (auto simp: sends_def)
  note run = assms(1) [unfolded sendCreate_def Let_def c prod.case]
  show ?thesis
  proof (cases x)
    case (Inl e)
    obtain f h where f: "saveGroupAttempt env room (att\<lparr>ga_Rejected := True\<rparr>) ?g = (f, h)" by fastforce
    then show ?thesis using run Inl saved [of "att\<lparr>ga_Rejected := True\<rparr>" f] plain by (auto split: if_splits option.splits)
  next
    case (Inr response)
    obtain f h where f: "saveGroupAttempt env room (att\<lparr>ga_ChatID := cp_ChatID response\<rparr>) ?g = (f, h)" by fastforce
    then show ?thesis using run Inr saved [of "att\<lparr>ga_ChatID := cp_ChatID response\<rparr>" f] plain by (auto split: if_splits option.splits)
  qed
qed

lemma firstCreate_spec:
  assumes "firstCreate kc env p request fingerprint g = (r, g')" "map_of (gs_meta g) (gp_RoomID p) = None"
  shows "allKept g g' \<and> (\<exists>reqs. sends g reqs g' \<and> (reqs = [] \<or> (\<exists>doc. reqs = [(''CREATE'', doc)]) \<and> recorded False (gp_RoomID p) g'))
    \<and> (\<forall>att created. r = Inr (att, created) \<longrightarrow> map_of (gs_meta g') (gp_RoomID p) = Some att)"
proof -
  let ?room = "gp_RoomID p"
  define att where "att = \<lparr>ga_Fingerprint = fingerprint, ga_Participants = cr_MemberIDs request, ga_ChatID = 0, ga_Rejected = False,
    ga_Bound = False, ga_InviteAttempted = False, ga_Invitees = []\<rparr>"
  have fresh: "\<not> recorded invited ?room g" for invited using assms(2) by (simp add: recorded_def recordedIn_def)
  have kept: "allKept g h" if "keepsRecords ?room att g h" for h using allKeptI [OF that] fresh by blast
  obtain e g1 where s: "saveGroupAttempt env ?room att g = (e, g1)" by fastforce
  have k1: "keepsRecords ?room att g g1" "gs_link g1 = gs_link g" using journal_keeps [OF s] save_link [OF s] by simp_all
  consider "g' = g" "\<exists>x. r = Inl x" | "g' = g1" "\<exists>x. r = Inl x" | "e = None" "sendCreate env ?room att request g1 = (r, g')"
    using assms(1) s unfolding firstCreate_def Let_def att_def [symmetric] by (auto split: option.splits)
  then show ?thesis
  proof cases
    case 1
    then show ?thesis using sends_none [of g g] by auto
  next
    case 2
    then show ?thesis using kept [OF k1(1)] sends_none [OF k1(2)] by auto
  next
    case 3
    have "recorded False ?room g1" by (rule save_records [OF s [unfolded 3(1)]]) simp
    from sendCreate_spec [OF 3(2) this] show ?thesis
      using kept [OF keepsRecords_trans [OF k1(1)]] k1(2) by (auto simp: sends_def)
  qed
qed

lemma bind_kept:
  assumes "bindCreatedGroup kc env room att created g = (r, g')" "recorded True room g \<Longrightarrow> ga_InviteAttempted att"
  shows "allKept g g' \<and> gs_link g' = gs_link g"
  using bind_journal [OF assms(1)] allKeptI assms(2) by blast

text \<open>What one operation on a room may send: nothing, or one request of a command that was not recorded and is recorded now.\<close>

definition onceRecorded :: "string \<Rightarrow> bool \<Rightarrow> string \<Rightarrow> groups \<Rightarrow> groups \<Rightarrow> bool" where
  "onceRecorded command invited room g g' \<longleftrightarrow>
     allKept g g' \<and> (\<exists>reqs. sends g reqs g'
       \<and> (reqs = [] \<or> (\<exists>doc. reqs = [(command, doc)]) \<and> \<not> recorded invited room g \<and> recorded invited room g'))"

lemma onceRecorded_none: "allKept g g' \<Longrightarrow> gs_link g' = gs_link g \<Longrightarrow> onceRecorded command invited room g g'"
  using sends_none by (auto simp: onceRecorded_def)

lemma onceRecorded_then:
  "onceRecorded command invited room g g' \<Longrightarrow> allKept g' g'' \<Longrightarrow> gs_link g'' = gs_link g' \<Longrightarrow> onceRecorded command invited room g g''"
  unfolding onceRecorded_def allKept_def sends_def by metis

lemma createAttempt_once:
  assumes "createAttempt kc env p request fingerprint g = (r, g')"
  shows "onceRecorded ''CREATE'' False (gp_RoomID p) g g' \<and> (\<forall>att created. r = Inr (att, created) \<longrightarrow> map_of (gs_meta g') (gp_RoomID p) = Some att)"
proof (cases "map_of (gs_meta g) (gp_RoomID p)")
  case None
  then have "firstCreate kc env p request fingerprint g = (r, g')" using assms by (simp add: createAttempt_def)
  from firstCreate_spec [OF this None] show ?thesis using None by (auto simp: onceRecorded_def recorded_def recordedIn_def)
next
  case (Some att)
  then have "g' = g" "\<And>att' c. r = Inr (att', c) \<Longrightarrow> att' = att" using assms by (auto simp: createAttempt_def split: if_splits)
  then show ?thesis using Some by (auto intro: onceRecorded_none)
qed

lemma CreateGroup_once:
  assumes "CreateGroup kc env (Some p) g = (r, g')"
  shows "onceRecorded ''CREATE'' False (gp_RoomID p) g g'"
proof -
  consider "g' = g" | request fingerprint e where "createAttempt kc env p request fingerprint g = (Inl e, g')"
    | request fingerprint att created h s where "createAttempt kc env p request fingerprint g = (Inr (att, created), h)"
        "bindCreatedGroup kc env (gp_RoomID p) att created h = (s, g')"
    using assms unfolding CreateGroup_def by (auto split: sum.splits prod.splits option.splits)
  then show ?thesis
  proof cases
    case 1
    then show ?thesis by (simp add: onceRecorded_none)
  next
    case 2
    then show ?thesis using createAttempt_once by blast
  next
    case 3
    from createAttempt_once [OF 3(1)] have o: "onceRecorded ''CREATE'' False (gp_RoomID p) g h" and m: "map_of (gs_meta h) (gp_RoomID p) = Some att" by auto
    from bind_kept [OF 3(2) recorded_attempt [OF _ m]] show ?thesis using onceRecorded_then [OF o] by blast
  qed
qed

lemma inviteOnce_once:
  assumes "inviteOnce env room att missing g = (r, g')" "map_of (gs_meta g) room = Some att" "\<not> ga_InviteAttempted att"
  shows "onceRecorded ''ADDMEM'' True room g g' \<and> (\<forall>att'. r = Inr att' \<longrightarrow> map_of (gs_meta g') room = Some att')"
proof -
  define att1 where "att1 = att\<lparr>ga_InviteAttempted := True, ga_Invitees := missing\<rparr>"
  obtain e g1 where s: "saveGroupAttempt env room att1 g = (e, g1)" by fastforce
  obtain x L where a: "AddMembers (ge_bson env) (ge_link env) \<lparr>am_ChatID = ga_ChatID att, am_MemberIDs = missing\<rparr> (gs_link g1) = (x, L)" by fastforce
  have k1: "allKept g g1" by (rule allKeptI [OF journal_keeps [OF s]]) (simp add: att1_def)
  note run = assms(1) [unfolded inviteOnce_def Let_def att1_def [symmetric] s prod.case a]
  show ?thesis
  proof (cases e)
    case (Some y)
    then have "g' = g1" "\<exists>y. r = Inl y" using run by auto
    then show ?thesis using k1 save_link [OF s] by (auto intro: onceRecorded_none)
  next
    case None
    have g': "g' = g1\<lparr>gs_link := L\<rparr>" and r: "\<And>att'. r = Inr att' \<Longrightarrow> att' = att1" using run None by (auto split: sum.splits if_splits)
    have k: "allKept g g'" using k1 unfolding g' by (simp add: allKept_def recorded_def keysOK_def)
    have "recorded True room g1" by (rule save_records [OF s [unfolded None]]) (simp add: att1_def)
    then have rec: "recorded True room g'" unfolding g' by (simp add: recorded_def)
    have not: "\<not> recorded True room g" using recorded_attempt [OF _ assms(2)] assms(3) by blast
    have "\<exists>reqs. sends g reqs g' \<and> (reqs = [] \<or> (\<exists>doc. reqs = [(''ADDMEM'', doc)]))"
      using AddMembers_sent [OF a] save_link [OF s] unfolding g' by (simp add: sends_def)
    moreover have "map_of (gs_meta g') room = Some att1"
      using saveGroupAttempt_spec [OF s] None unfolding g' by (simp add: AList.update_conv')
    ultimately show ?thesis using k rec not r unfolding onceRecorded_def by blast
  qed
qed

lemma inviteMissing_once:
  assumes "inviteMissing kc env room att roster g = (r, g')" "map_of (gs_meta g) room = Some att"
  shows "onceRecorded ''ADDMEM'' True room g g' \<and> (\<forall>att'. r = Inr att' \<longrightarrow> map_of (gs_meta g') room = Some att')"
proof -
  consider "g' = g" "\<forall>att'. r = Inr att' \<longrightarrow> att' = att" | missing where "\<not> ga_InviteAttempted att" "inviteOnce env room att missing g = (r, g')"
    using assms(1) unfolding inviteMissing_def Let_def by (auto split: sum.splits if_splits)
  then show ?thesis
    using assms(2) inviteOnce_once by cases (auto intro: onceRecorded_none)
qed

lemma save_then_bind:
  assumes "saveGroupAttempt env room att h = (e, g1)" "recorded True room h \<Longrightarrow> ga_InviteAttempted att"
    and "(case e of Some x \<Rightarrow> (Inl x, g1) | None \<Rightarrow> bindCreatedGroup kc env room att created g1) = (r, g')"
  shows "allKept h g' \<and> gs_link g' = gs_link h"
proof -
  have k: "allKept h g1" "gs_link g1 = gs_link h" using allKeptI [OF journal_keeps [OF assms(1)] assms(2)] save_link [OF assms(1)] by simp_all
  show ?thesis
  proof (cases e)
    case (Some x)
    then show ?thesis using assms(3) k by simp
  next
    case None
    then have "map_of (gs_meta g1) room = Some att" using saveGroupAttempt_spec [OF assms(1)] by (simp add: AList.update_conv')
    from bind_kept [OF _ recorded_attempt [OF _ this]] show ?thesis using assms(3) None k allKept_trans by auto
  qed
qed

lemma reconcileWith_once:
  assumes "reconcileWith kc env room chatID invite att g = (r, g')" "map_of (gs_meta g) room = Some att"
  shows "onceRecorded ''ADDMEM'' True room g g'"
proof (cases "\<exists>roster. ge_roster env = Inr roster \<and> rosterMatches kc roster (expectedUsers kc (ga_Participants att)) invite = None")
  case False
  then have "g' = g" using assms(1) unfolding reconcileWith_def by (auto split: sum.splits option.splits)
  then show ?thesis by (simp add: onceRecorded_none)
next
  case True
  then obtain roster where roster: "ge_roster env = Inr roster" "rosterMatches kc roster (expectedUsers kc (ga_Participants att)) invite = None" by blast
  obtain x h where i: "(if invite then inviteMissing kc env room att roster g else (Inr att, g)) = (x, h)" by fastforce
  have o: "onceRecorded ''ADDMEM'' True room g h \<and> (\<forall>att'. x = Inr att' \<longrightarrow> map_of (gs_meta h) room = Some att')"
    using i inviteMissing_once [of kc env room att roster g x h] assms(2) by (cases invite) (auto intro: onceRecorded_none)
  note run = assms(1) [unfolded reconcileWith_def roster sum.case option.case i prod.case]
  show ?thesis
  proof (cases x)
    case (Inl e)
    then show ?thesis using run o by simp
  next
    case (Inr att1)
    let ?att = "att1\<lparr>ga_ChatID := chatID\<rparr>"
    obtain e g1 where s: "saveGroupAttempt env room ?att h = (e, g1)" by fastforce
    have m: "map_of (gs_meta h) room = Some att1" using o Inr by blast
    have "(case e of Some x \<Rightarrow> (Inl x, g1) | None \<Rightarrow> bindCreatedGroup kc env room ?att None g1) = (r, g')" using run Inr s by simp
    from save_then_bind [OF s _ this] have "allKept h g' \<and> gs_link g' = gs_link h" using recorded_attempt [OF _ m] by simp
    then show ?thesis using o onceRecorded_then by blast
  qed
qed

lemma reconcileGroup_once:
  assumes "reconcileGroup kc env room chatID invite g = (r, g')"
  shows "onceRecorded ''ADDMEM'' True room g g'"
proof -
  have run: "onceRecorded ''ADDMEM'' True room g h"
    if "detached env (reconcileWith kc env room chat invite att) g = (x, h)" "map_of (gs_meta g) room = Some att" for chat att x h
    using that reconcileWith_once [of kc env room chat invite att g _ h] onceRecorded_none [OF allKept_refl, of g]
    by (auto simp: detached_def split: option.splits prod.splits if_splits)
  have none: "onceRecorded ''ADDMEM'' True room h h" for h by (simp add: onceRecorded_none)
  from assms show ?thesis unfolding reconcileGroup_def Let_def
    by (auto split: if_splits option.splits sum.splits intro: run none)
qed

text \<open>The entries that the loop ranges over are those of a journal that is as good as the one in memory.\<close>

lemma resumeLoop_kept:
  assumes "resumeLoop kc env entries g = (e, g')" "\<forall>(room, att)\<in>set entries. map_of j room = Some att"
    and "\<forall>room a att. map_of (gs_meta g) room = Some a \<longrightarrow> ga_InviteAttempted a \<longrightarrow> map_of j room = Some att \<longrightarrow> ga_InviteAttempted att"
  shows "allKept g g' \<and> gs_link g' = gs_link g"
  using assms
proof (induction kc env entries g arbitrary: e g' rule: resumeLoop.induct)
  case (2 kc env room att rest g)
  have j: "map_of j room = Some att" "\<forall>(room, att)\<in>set rest. map_of j room = Some att" using "2.prems"(2) by auto
  obtain x g1 where b: "bindCreatedGroup kc env room att None g = (x, g1)" by fastforce
  have flag: "ga_InviteAttempted att" if "recorded True room g" using that j(1) "2.prems"(3) by (auto simp: recorded_def recordedIn_def)
  have k: "allKept g g1 \<and> gs_link g1 = gs_link g" by (rule bind_kept [OF b flag])
  have m: "\<forall>room a att. map_of (gs_meta g1) room = Some a \<longrightarrow> ga_InviteAttempted a \<longrightarrow> map_of j room = Some att \<longrightarrow> ga_InviteAttempted att"
    using bind_journal [OF b] "2.prems"(3) j(1) by (auto simp: AList.update_conv' split: if_splits)
  consider "ga_Rejected att \<or> ga_Bound att" "resumeLoop kc env rest g = (e, g')" | "g' = g" | "g' = g1"
    | key where "\<not> (ga_Rejected att \<or> ga_Bound att)" "ga_ChatID att \<noteq> 0" "x = Inr key" "resumeLoop kc env rest g1 = (e, g')"
    using "2.prems"(1) b by (auto split: if_splits sum.splits)
  then show ?case
  proof cases
    case 1
    then show ?thesis using "2.IH"(1) j(2) "2.prems"(3) by blast
  next
    case 4
    then show ?thesis using "2.IH"(2) [OF _ _ b [symmetric] _ _ j(2) m] k allKept_trans by auto
  qed (use k in simp_all)
qed simp

lemma resume_kept:
  assumes "resumeGroupCreates kc env g = (e, g')" "keysOK g" "set (ge_order env (gs_meta g)) \<subseteq> set (gs_meta g)"
  shows "allKept g g' \<and> gs_link g' = gs_link g"
proof -
  have "\<forall>(room, att)\<in>set (ge_order env (gs_meta g)). map_of (gs_meta g) room = Some att"
    using assms(2,3) by (auto simp: keysOK_def)
  then show ?thesis
    using assms(1) resumeLoop_kept [of kc env "ge_order env (gs_meta g)" g e g' "gs_meta g"]
    by (auto simp: resumeGroupCreates_def split: if_splits option.splits)
qed

subsection \<open>What is bound\<close>

lemma makeUserID_inj: "inj_on makeUserID A"
proof (rule inj_onI)
  have digits: "CHR ''-'' \<notin> set (formatNat n)" for n using formatNat_spec [of n] by (auto simp: list_all_iff isDigit_def)
  have nat: "formatNat a = formatNat b \<Longrightarrow> a = b" for a b using formatNat_spec [of a] formatNat_spec [of b] by metis
  fix a b assume "makeUserID a = makeUserID b"
  then show "a = b" using nat digits [of "nat a"] digits [of "nat b"]
    by (auto simp: makeUserID_def FormatInt_def split: if_splits dest!: nat) (metis list.set_intros(1))+
qed

lemma rosterLoop_spec:
  "rosterLoop allowed actual roster = Inr result \<Longrightarrow> distinct actual \<Longrightarrow> set actual \<subseteq> set allowed \<Longrightarrow>
   result = rev roster @ actual \<and> distinct result \<and> set result \<subseteq> set allowed"
  by (induction allowed actual roster rule: rosterLoop.induct) (auto split: if_splits)

lemma bindPortal_bound:
  assumes "bindPortal kc env A room att info g = (Inr key, g')"
  shows "key = makePortalKey (ga_ChatID att) (kc_loginID kc) \<and> gs_bound g' key = room
    \<and> map_of (gs_meta g') room = Some (att\<lparr>ga_Bound := True\<rparr>) \<and> map_of (gs_saved g') room = Some (att\<lparr>ga_Bound := True\<rparr>)"
proof -
  let ?key = "makePortalKey (ga_ChatID att) (kc_loginID kc)"
  define g1 where "g1 = (if snd (ba_update A) then g\<lparr>gs_mxid := (gs_mxid g)(?key := room)\<rparr> else g)"
  define h where "h = snd (portal_Save ?key (ba_saveAgain A) (snd (portal_Save ?key (ba_checkpoint A) (snd (portal_Save ?key (ba_save A) g1)))))"
  have "gs_bound h ?key = room \<and> fst (saveGroupAttempt env room (att\<lparr>ga_Bound := True\<rparr>) h) = None
      \<and> snd (saveGroupAttempt env room (att\<lparr>ga_Bound := True\<rparr>) h) = g' \<and> key = ?key"
    using assms unfolding bindPortal_def Let_def case_prod_beta g1_def [symmetric] h_def [symmetric]
    by (simp split: option.split_asm if_split_asm row_answer.split_asm)
  then have h: "gs_bound h ?key = room" "saveGroupAttempt env room (att\<lparr>ga_Bound := True\<rparr>) h = (None, g')" "key = ?key"
    by (metis prod.collapse)+
  have "gs_bound g' = gs_bound h"
    using h(2) unfolding saveGroupAttempt_def Let_def case_prod_beta by (simp split: option.split_asm) auto
  then show ?thesis using h saveGroupAttempt_spec [OF h(2)] by (simp add: AList.update_conv')
qed

text \<open>
  A group counts as bound only if its source roster is exactly the account and the selected participants, each once, the
  portal row names the room and both copies of the journal say so.
\<close>

lemma bound_exact:
  assumes "bindCreatedGroup kc env room att created g = (Inr key, g')"
  shows "key = makePortalKey (ga_ChatID att) (kc_loginID kc) \<and> gs_bound g' key = room
    \<and> map_of (gs_meta g') room = Some (att\<lparr>ga_Bound := True\<rparr>) \<and> map_of (gs_saved g') room = Some (att\<lparr>ga_Bound := True\<rparr>)
    \<and> (\<exists>info roster. ba_info (ge_bind env (gs_binds g)) (map_option (\<lambda>c. sort (rm_ActiveMemberIDs c)) created) = Inr (info, roster)
         \<and> distinct roster \<and> set roster = insert (kc_userID kc) (set (ga_Participants att)))"
proof -
  let ?A = "ge_bind env (gs_binds g)" and ?allowed = "kc_userID kc # ga_Participants att"
  obtain info roster raw where i: "ba_info ?A (map_option (\<lambda>c. sort (rm_ActiveMemberIDs c)) created) = Inr (info, roster)"
    "creationSourceRoster kc roster (ga_Participants att) = Inr raw" "length raw = length (remdups (expectedUsers kc (ga_Participants att)))"
    "bindPortal kc env ?A room att info (g\<lparr>gs_binds := gs_binds g + 1\<rparr>) = (Inr key, g')"
    using assms unfolding bindCreatedGroup_def Let_def by (auto split: option.splits sum.splits prod.splits if_splits)
  have raw: "raw = rev roster" "distinct raw" "set raw \<subseteq> set ?allowed"
    using i(2) rosterLoop_spec [of ?allowed "[]" roster raw] by (auto simp: creationSourceRoster_def split: sum.splits if_splits)
  have "length (remdups (expectedUsers kc (ga_Participants att))) = card (makeUserID ` set ?allowed)"
    unfolding expectedUsers_def list.map(2) [symmetric] length_remdups_card_conv set_map ..
  also have "\<dots> = card (set ?allowed)" by (rule card_image) (rule makeUserID_inj)
  finally have "card (set raw) = card (set ?allowed)" using i(3) raw(2) by (simp add: distinct_card)
  then have "set raw = set ?allowed" using raw(3) by (intro card_subset_eq) simp_all
  then show ?thesis using bindPortal_bound [OF i(4)] i(1) raw by auto
qed

subsection \<open>Once per room\<close>

text \<open>
  The life of a login: any operations in any order, each with answers of its own; other parts of the connector that save the same
  metadata; and restarts, which lose the copy in memory. The history has each request with the room it was sent for.
\<close>

definition requestsFor :: "string \<Rightarrow> groups \<Rightarrow> groups \<Rightarrow> (string \<times> string) list" where
  "requestsFor room g g' = map (\<lambda>req. (room, fst req)) (drop (length (lk_sent (gs_link g))) (lk_sent (gs_link g')))"

inductive groupRun :: "KakaoClient \<Rightarrow> groups \<Rightarrow> groups \<Rightarrow> (string \<times> string) list \<Rightarrow> bool" for kc g0 where
  opened: "groupRun kc g0 g0 []"
| creates: "groupRun kc g0 g h \<Longrightarrow> CreateGroup kc env (Some p) g = (r, g') \<Longrightarrow> groupRun kc g0 g' (h @ requestsFor (gp_RoomID p) g g')"
| reconciles: "groupRun kc g0 g h \<Longrightarrow> reconcileGroup kc env room chatID invite g = (r, g') \<Longrightarrow> groupRun kc g0 g' (h @ requestsFor room g g')"
| resumes: "groupRun kc g0 g h \<Longrightarrow> set (ge_order env (gs_meta g)) \<subseteq> set (gs_meta g) \<Longrightarrow> resumeGroupCreates kc env g = (e, g') \<Longrightarrow>
    groupRun kc g0 g' (h @ requestsFor [] g g')"
| saves: "groupRun kc g0 g h \<Longrightarrow> groupRun kc g0 (g\<lparr>gs_saved := gs_meta g\<rparr>) h"
| restarts: "groupRun kc g0 g h \<Longrightarrow> groupRun kc g0 (g\<lparr>gs_meta := gs_saved g, gs_mxid := gs_bound g\<rparr>) h"

text \<open>The command that each kind of record stands for.\<close>

definition commandOf :: "bool \<Rightarrow> string" where
  "commandOf invited = (if invited then ''ADDMEM'' else ''CREATE'')"

definition runOK :: "groups \<Rightarrow> (string \<times> string) list \<Rightarrow> groups \<Rightarrow> bool" where
  "runOK g0 h g \<longleftrightarrow> keysOK g
     \<and> (\<forall>invited room. recorded invited room g0 \<longrightarrow> recorded invited room g \<and> (room, commandOf invited) \<notin> set h)
     \<and> (\<forall>invited room. (room, commandOf invited) \<in> set h \<longrightarrow> recorded invited room g)
     \<and> (\<forall>invited room. count_list h (room, commandOf invited) \<le> 1)"

lemma sends_requestsFor: "sends g reqs g' \<Longrightarrow> requestsFor room g g' = map (\<lambda>req. (room, fst req)) reqs"
  by (simp add: requestsFor_def sends_def)

lemma requestsFor_same: "gs_link g' = gs_link g \<Longrightarrow> requestsFor room g g' = []"
  by (simp add: requestsFor_def)

lemma runOK_kept: "runOK g0 h g \<Longrightarrow> allKept g g' \<Longrightarrow> runOK g0 h g'"
  by (simp add: runOK_def allKept_def)

lemma commandOf_inj [simp]: "commandOf a = commandOf b \<longleftrightarrow> a = b"
  by (simp add: commandOf_def)

lemma runOK_once:
  assumes "runOK g0 h g" "onceRecorded (commandOf invited) invited room g g'"
  shows "runOK g0 (h @ requestsFor room g g') g'"
proof -
  have kept: "runOK g0 h g'" using assms runOK_kept by (simp add: onceRecorded_def)
  from assms(2) obtain reqs where reqs: "sends g reqs g'"
    "reqs = [] \<or> (\<exists>doc. reqs = [(commandOf invited, doc)]) \<and> \<not> recorded invited room g \<and> recorded invited room g'"
    unfolding onceRecorded_def by blast
  show ?thesis
  proof (cases "reqs = []")
    case True
    then show ?thesis using kept sends_requestsFor [OF reqs(1), of room] by simp
  next
    case False
    then have new: "requestsFor room g g' = [(room, commandOf invited)]" "\<not> recorded invited room g" "recorded invited room g'"
      using reqs sends_requestsFor [OF reqs(1), of room] by auto
    have "(room, commandOf invited) \<notin> set h" using assms(1) new(2) by (auto simp: runOK_def)
    then have "count_list h (room, commandOf invited) = 0" by simp
    moreover have "\<not> recorded invited room g0" using assms(1) new(2) by (auto simp: runOK_def)
    ultimately show ?thesis using kept new by (auto simp: runOK_def) (metis (full_types))+
  qed
qed

lemma groupRun_ok: "groupRun kc g0 g h \<Longrightarrow> keysOK g0 \<Longrightarrow> runOK g0 h g"
proof (induction rule: groupRun.induct)
  case (creates g h env p r g')
  then show ?case using CreateGroup_once [OF creates(2)] by (intro runOK_once [where invited = False]) (simp_all add: commandOf_def)
next
  case (reconciles g h env room chatID invite r g')
  then show ?case using reconcileGroup_once [OF reconciles(2)] by (intro runOK_once [where invited = True]) (simp_all add: commandOf_def)
next
  case (resumes g h env e g')
  then have "keysOK g" by (simp add: runOK_def)
  from resume_kept [OF resumes(3) this resumes(2)] resumes show ?case by (simp add: requestsFor_same runOK_kept)
qed (auto simp: runOK_def keysOK_def recorded_def)

text \<open>
  C15: A group is created once, and its missing members are invited once. Over the whole life of a login, with any calls to create,
  reconcile, complete and resume groups, any failures of the database, of the session and of the framework, saves that fail after
  they took effect or succeed without it, and restarts at any point: for every Matrix room at most one CREATE and at most one ADDMEM
  is ever sent to KakaoTalk, and none for a room whose attempt was already in both copies of the journal.
\<close>

theorem created_once:
  assumes "groupRun kc g0 g h" "keysOK g0"
  shows "count_list h (room, ''CREATE'') \<le> 1 \<and> count_list h (room, ''ADDMEM'') \<le> 1
    \<and> (recorded False room g0 \<longrightarrow> (room, ''CREATE'') \<notin> set h)"
proof -
  have ok: "runOK g0 h g" using groupRun_ok [OF assms] .
  have "count_list h (room, commandOf invited) \<le> 1" for invited using ok by (simp add: runOK_def)
  moreover have "(room, commandOf False) \<notin> set h" if "recorded False room g0" using ok that by (simp add: runOK_def)
  ultimately show ?thesis by (metis commandOf_def)
qed

text \<open>A login whose only creation the source refuses, and which is restarted after it.\<close>

definition sampleRoom :: room_answers where
  "sampleRoom = \<lparr>ra_bridge = True, ra_existing = Inr None, ra_provider = True,
     ra_power = Inr (Some (Some \<lparr>pw_user = (\<lambda>_. 100), pw_event = (\<lambda>_. 50), pw_invite = 0\<rparr>)), ra_create = Inr True,
     ra_members = Inr [(''@owner:h'', MembershipJoin), (''@bot:h'', MembershipJoin), (''@8:h'', MembershipInvite), (''@9:h'', MembershipJoin)],
     ra_owner = ''@owner:h'', ra_bot = ''@bot:h'', ra_ghost = (\<lambda>user. Inr (''@'' @ user @ '':h'')), ra_doublePuppet = False\<rparr>"

definition sampleGroupEnv :: group_env where
  "sampleGroupEnv = \<lparr>ge_bson = sampleBson, ge_link = \<lparr>lk_session = (\<lambda>_. None), lk_answer = (\<lambda>_ _ _. Inl (StatusError ''CREATE'' (- 1)))\<rparr>,
     ge_login = True, ge_journal = True, ge_client = None, ge_fingerprint = (\<lambda>_. Inr ''f''), ge_chatRoom = (\<lambda>_. Inl ErrProtocol), ge_room = sampleRoom,
     ge_save = (\<lambda>_. (None, True)), ge_row = (\<lambda>_. RowRead),
     ge_bind = (\<lambda>_. \<lparr>ba_room = sampleRoom, ba_portal = None, ba_info = (\<lambda>_. Inl ErrProtocol), ba_update = (None, True), ba_save = (None, True),
        ba_state = \<lparr>ps_NameSet = False, ps_Name = [], ps_TopicSet = False, ps_Topic = [], ps_AvatarSet = False\<rparr>, ba_members = Inr [],
        ba_checkpoint = (None, True), ba_saveAgain = (None, True), ba_row = RowRead\<rparr>),
     ge_order = id, ge_detached = None, ge_connect = None, ge_release = None, ge_roster = Inr []\<rparr>"

definition sampleParams :: GroupCreateParams where
  "sampleParams = \<lparr>gp_Type = ''regular'', gp_RoomID = ''!r:h'', gp_Username = [], gp_Parent = False, gp_Avatar = None, gp_Topic = None,
     gp_Disappear = None, gp_Name = None, gp_Participants = [''8'', ''9'']\<rparr>"

definition sampleGroups :: groups where
  "sampleGroups = \<lparr>gs_link = \<lparr>lk_sent = [], lk_calls = 0\<rparr>, gs_meta = [], gs_saved = [], gs_saves = 0, gs_binds = 0, gs_mxid = (\<lambda>_. []), gs_bound = (\<lambda>_. [])\<rparr>"

definition sampleKakao :: KakaoClient where
  "sampleKakao = \<lparr>kc_loginID = ''7'', kc_userID = 7, kc_client = True, kc_sourceBlocked = Map.empty\<rparr>"

lemma sample_create:
  "gs_link (snd (CreateGroup sampleKakao sampleGroupEnv (Some sampleParams) sampleGroups)) = \<lparr>lk_sent = [(''CREATE'', [0])], lk_calls = 1\<rparr>"
  by code_simp

theorem created_once_witness:
  "\<exists>g h. groupRun sampleKakao sampleGroups g h \<and> (''!r:h'', ''CREATE'') \<in> set h \<and> count_list h (''!r:h'', ''CREATE'') \<le> 1"
proof -
  let ?run = "CreateGroup sampleKakao sampleGroupEnv (Some sampleParams) sampleGroups"
  have run: "?run = (fst ?run, snd ?run)" by simp
  from groupRun.restarts [OF groupRun.creates [OF groupRun.opened run]]
  obtain g where g: "groupRun sampleKakao sampleGroups g (requestsFor ''!r:h'' sampleGroups (snd ?run))" by (auto simp: sampleParams_def)
  have h: "requestsFor ''!r:h'' sampleGroups (snd ?run) = [(''!r:h'', ''CREATE'')]"
    using sample_create by (simp add: requestsFor_def sampleGroups_def)
  have keys: "keysOK sampleGroups" by (simp add: keysOK_def sampleGroups_def)
  note once = created_once [OF g keys, of "''!r:h''", THEN conjunct1, unfolded h]
  have "(''!r:h'', ''CREATE'') \<in> set [(''!r:h'', ''CREATE'')]" by simp
  then show ?thesis using g [unfolded h] once by blast
qed

end
