(* ===== verification/Strict_Json.thy ===== *)
theory Strict_Json
  imports Json
begin

text \<open>
  \<open>src/internal/protocol/strictjson/strictjson.go\<close>: the admission check on JSON from the network. The source walks the
  tokens of a decoder; the model walks the tree that the tokens spell. Every rejection but the size bound is
  \<open>ErrInvalid\<close>, so it makes no difference that the source meets a limit before a later syntax error.
\<close>

record Limits =
  MaxBytes :: nat
  MaxKeys :: nat
  Nested :: bool
  MaxDepth :: nat
  MaxArray :: nat
  MaxValues :: nat

text \<open>The walker: \<open>None\<close> is the rejection, otherwise the number of values counted so far.\<close>

fun walk :: "Limits \<Rightarrow> nat \<Rightarrow> jval \<Rightarrow> nat \<Rightarrow> nat option"
and walkMembers :: "Limits \<Rightarrow> nat \<Rightarrow> (string \<times> jval) list \<Rightarrow> string list \<Rightarrow> nat \<Rightarrow> nat option"
and walkElements :: "Limits \<Rightarrow> nat \<Rightarrow> jval list \<Rightarrow> nat \<Rightarrow> nat \<Rightarrow> nat option" where
  "walk limits depth v values0 =
     (if depth > 0 \<and> \<not> Nested limits then (if nesting v \<le> maxNestingDepth then Some values0 else None)
      else
        let values = (if Nested limits then values0 + 1 else values0)
        in if Nested limits \<and> (MaxDepth limits > 0 \<and> depth > MaxDepth limits \<or> MaxValues limits > 0 \<and> values > MaxValues limits)
           then None
           else (case v of
                   JObj ms \<Rightarrow> walkMembers limits (depth + 1) ms [] values
                 | JArr vs \<Rightarrow> walkElements limits (depth + 1) vs 0 values
                 | _ \<Rightarrow> Some values))"
| "walkMembers limits depth [] seen values = Some values"
| "walkMembers limits depth ((key, v) # ms) seen values =
     (if unquote key \<in> set seen \<or> MaxKeys limits > 0 \<and> length seen \<ge> MaxKeys limits then None
      else (case walk limits depth v values of
              None \<Rightarrow> None
            | Some values1 \<Rightarrow> walkMembers limits depth ms (unquote key # seen) values1))"
| "walkElements limits depth [] count values = Some values"
| "walkElements limits depth (v # vs) count values =
     (if MaxArray limits > 0 \<and> count + 1 > MaxArray limits then None
      else (case walk limits depth v values of
              None \<Rightarrow> None
            | Some values1 \<Rightarrow> walkElements limits depth vs (count + 1) values1))"

declare walk.simps [simp del]

definition strictjson_Validate :: "string \<Rightarrow> Limits \<Rightarrow> go_error option" where
  "strictjson_Validate data limits =
     (if MaxBytes limits > 0 \<and> length data > MaxBytes limits then Some strictjson_ErrTooLarge
      else (case jsonText data of
              None \<Rightarrow> Some strictjson_ErrInvalid
            | Some v \<Rightarrow> (case walk limits 0 v 0 of None \<Rightarrow> Some strictjson_ErrInvalid | Some _ \<Rightarrow> None)))"

text \<open>\<open>decode\<close> is \<open>json.Unmarshal\<close> into the caller's type, after its check of the text.\<close>

definition strictjson_Unmarshal :: "(jval \<Rightarrow> 'a option) \<Rightarrow> string \<Rightarrow> Limits \<Rightarrow> 'a result" where
  "strictjson_Unmarshal decode data limits =
     (if MaxBytes limits > 0 \<and> length data > MaxBytes limits then Inl strictjson_ErrTooLarge
      else (case skipWs data of
              [] \<Rightarrow> Inl strictjson_ErrInvalid
            | c # _ \<Rightarrow>
                if c \<noteq> CHR ''{'' then Inl strictjson_ErrInvalid
                else (case strictjson_Validate data limits of
                        Some e \<Rightarrow> Inl e
                      | None \<Rightarrow>
                          (case json_parse data of
                             None \<Rightarrow> Inl strictjson_ErrInvalid
                           | Some v \<Rightarrow> (case decode v of None \<Rightarrow> Inl strictjson_ErrInvalid | Some x \<Rightarrow> Inr x)))))"

subsection \<open>What is admitted\<close>

text \<open>The limits on one container, and every value of a tree with its depth.\<close>

definition containerOk :: "Limits \<Rightarrow> jval \<Rightarrow> bool" where
  "containerOk limits v =
     (case v of
        JObj ms \<Rightarrow> distinct (map (\<lambda>m. unquote (fst m)) ms) \<and> (MaxKeys limits > 0 \<longrightarrow> length ms \<le> MaxKeys limits)
      | JArr vs \<Rightarrow> MaxArray limits > 0 \<longrightarrow> length vs \<le> MaxArray limits
      | _ \<Rightarrow> True)"

fun children :: "jval \<Rightarrow> jval list" where
  "children (JObj ms) = map snd ms"
| "children (JArr vs) = vs"
| "children _ = []"

fun subvalues :: "nat \<Rightarrow> jval \<Rightarrow> (nat \<times> jval) list" where
  "subvalues d (JArr vs) = (d, JArr vs) # concat (map (subvalues (Suc d)) vs)"
| "subvalues d (JObj ms) = (d, JObj ms) # concat (map (\<lambda>m. subvalues (Suc d) (snd m)) ms)"
| "subvalues d v = [(d, v)]"

definition admitted :: "Limits \<Rightarrow> jval \<Rightarrow> bool" where
  "admitted limits v =
     (if Nested limits
      then (\<forall>(d, x)\<in>set (subvalues 0 v). containerOk limits x \<and> (MaxDepth limits > 0 \<longrightarrow> d \<le> MaxDepth limits))
        \<and> (MaxValues limits > 0 \<longrightarrow> length (subvalues 0 v) \<le> MaxValues limits)
      else containerOk limits v \<and> (\<forall>x\<in>set (children v). nesting x \<le> maxNestingDepth))"

definition valueOk :: "Limits \<Rightarrow> nat \<times> jval \<Rightarrow> bool" where
  "valueOk limits dv \<longleftrightarrow> containerOk limits (snd dv) \<and> (MaxDepth limits > 0 \<longrightarrow> fst dv \<le> MaxDepth limits)"

definition within :: "nat \<Rightarrow> nat \<Rightarrow> bool" where "within bound n \<longleftrightarrow> (bound > 0 \<longrightarrow> n \<le> bound)"

lemma valueOk_simps [simp]:
  "valueOk limits (d, JObj ms) \<longleftrightarrow> distinct (map (\<lambda>m. unquote (fst m)) ms) \<and> within (MaxKeys limits) (length ms) \<and> within (MaxDepth limits) d"
  "valueOk limits (d, JArr vs) \<longleftrightarrow> within (MaxArray limits) (length vs) \<and> within (MaxDepth limits) d"
  "valueOk limits (d, JLit t) \<longleftrightarrow> within (MaxDepth limits) d"
  "valueOk limits (d, JStr t) \<longleftrightarrow> within (MaxDepth limits) d"
  by (auto simp: valueOk_def containerOk_def within_def)

text \<open>The walk of a nested check, with what it has counted and seen before.\<close>

lemma walk_nested:
  "Nested limits \<Longrightarrow> walk limits d v n =
     (if list_all (valueOk limits) (subvalues d v) \<and> within (MaxValues limits) (n + length (subvalues d v))
      then Some (n + length (subvalues d v)) else None)"
  "Nested limits \<Longrightarrow> within (MaxValues limits) n \<Longrightarrow> within (MaxKeys limits) (length seen) \<Longrightarrow>
   walkMembers limits d ms seen n =
     (let vs = concat (map (\<lambda>m. subvalues d (snd m)) ms); keys = map (\<lambda>m. unquote (fst m)) ms
      in if distinct keys \<and> set keys \<inter> set seen = {} \<and> within (MaxKeys limits) (length seen + length ms)
            \<and> list_all (valueOk limits) vs \<and> within (MaxValues limits) (n + length vs)
         then Some (n + length vs) else None)"
  "Nested limits \<Longrightarrow> within (MaxValues limits) n \<Longrightarrow> within (MaxArray limits) count \<Longrightarrow>
   walkElements limits d us count n =
     (let vs = concat (map (subvalues d) us)
      in if within (MaxArray limits) (count + length us) \<and> list_all (valueOk limits) vs
            \<and> within (MaxValues limits) (n + length vs)
         then Some (n + length vs) else None)"
proof (induction limits d v n and limits d ms seen n and limits d us count n rule: walk_walkMembers_walkElements.induct)
  case (1 limits d v n)
  let ?ok = "within (MaxDepth limits) d \<and> within (MaxValues limits) (n + 1)"
  show ?case
  proof (cases ?ok)
    case False
    then have "walk limits d v n = None" using "1.prems" by (auto simp: walk.simps [of limits d v n] within_def)
    moreover have "\<not> (list_all (valueOk limits) (subvalues d v) \<and> within (MaxValues limits) (n + length (subvalues d v)))"
      using False by (cases v) (auto simp: within_def)
    ultimately show ?thesis by simp
  next
    case True
    then have enter: "walk limits d v n = (case v of
        JObj ms \<Rightarrow> walkMembers limits (d + 1) ms [] (n + 1) | JArr vs \<Rightarrow> walkElements limits (d + 1) vs 0 (n + 1) | _ \<Rightarrow> Some (n + 1))"
      using "1.prems" unfolding walk.simps [of limits d v n] by (cases v) (auto simp: within_def)
    show ?thesis
    proof (cases v)
      case (JObj ms)
      have "walkMembers limits (d + 1) ms [] (n + 1) = (let vs = concat (map (\<lambda>m. subvalues (d + 1) (snd m)) ms); keys = map (\<lambda>m. unquote (fst m)) ms
        in if distinct keys \<and> set keys \<inter> set [] = {} \<and> within (MaxKeys limits) (length ([] :: string list) + length ms)
            \<and> list_all (valueOk limits) vs \<and> within (MaxValues limits) (n + 1 + length vs)
         then Some (n + 1 + length vs) else None)"
        by (rule "1.IH"(2)) (use "1.prems" JObj True in \<open>auto simp: within_def\<close>)
      then show ?thesis using True JObj unfolding enter by (auto simp: Let_def)
    next
      case (JArr vs)
      have "walkElements limits (d + 1) vs 0 (n + 1) = (let us = concat (map (subvalues (d + 1)) vs)
        in if within (MaxArray limits) (0 + length vs) \<and> list_all (valueOk limits) us
            \<and> within (MaxValues limits) (n + 1 + length us)
         then Some (n + 1 + length us) else None)"
        by (rule "1.IH"(1)) (use "1.prems" JArr True in \<open>auto simp: within_def\<close>)
      then show ?thesis using True JArr unfolding enter by (auto simp: Let_def)
    qed (use True enter in auto)
  qed
next
  case (3 limits d key v ms seen n)
  let ?vs = "subvalues d v"
  show ?case
  proof (cases "unquote key \<in> set seen \<or> \<not> within (MaxKeys limits) (Suc (length seen))")
    case True
    then show ?thesis using "3.prems" by (auto simp: Let_def within_def)
  next
    case False
    then have key: "\<not> (unquote key \<in> set seen \<or> MaxKeys limits > 0 \<and> length seen \<ge> MaxKeys limits)" by (auto simp: within_def)
    show ?thesis
    proof (cases "list_all (valueOk limits) ?vs \<and> within (MaxValues limits) (n + length ?vs)")
      case ok: True
      then have w: "walk limits d v n = Some (n + length ?vs)" using "3.IH"(1) [OF key "3.prems"(1)] by simp
      note IH = "3.IH"(2) [OF key w "3.prems"(1)]
      show ?thesis using key w ok False IH by (auto simp: Let_def add.assoc)
    next
      case bad: False
      then have "walk limits d v n = None" using "3.IH"(1) [OF key "3.prems"(1)] by simp
      then show ?thesis using key bad by (auto simp: Let_def within_def)
    qed
  qed
next
  case (5 limits d v vs count n)
  let ?vs = "subvalues d v"
  show ?case
  proof (cases "within (MaxArray limits) (count + 1)")
    case False
    then show ?thesis by (auto simp: Let_def within_def)
  next
    case True
    then have c: "\<not> (MaxArray limits > 0 \<and> count + 1 > MaxArray limits)" by (auto simp: within_def)
    show ?thesis
    proof (cases "list_all (valueOk limits) ?vs \<and> within (MaxValues limits) (n + length ?vs)")
      case ok: True
      then have w: "walk limits d v n = Some (n + length ?vs)" using "5.IH"(1) [OF c "5.prems"(1)] by simp
      note IH = "5.IH"(2) [OF c w "5.prems"(1)]
      show ?thesis using c w ok True IH by (auto simp: Let_def add.assoc)
    next
      case bad: False
      then have "walk limits d v n = None" using "5.IH"(1) [OF c "5.prems"(1)] by simp
      then show ?thesis using c bad by (auto simp: Let_def within_def)
    qed
  qed
qed (simp_all add: Let_def)

lemma walk_flat_members:
  assumes "\<not> Nested limits" "within (MaxKeys limits) (length seen)"
  shows "walkMembers limits (Suc d) ms seen n =
    (let keys = map (\<lambda>m. unquote (fst m)) ms
     in if distinct keys \<and> set keys \<inter> set seen = {} \<and> within (MaxKeys limits) (length seen + length ms)
           \<and> list_all (\<lambda>m. nesting (snd m) \<le> maxNestingDepth) ms then Some n else None)"
  using assms(2)
proof (induction ms arbitrary: seen)
  case (Cons m ms)
  obtain key v where m: "m = (key, v)" by fastforce
  have w: "walk limits (Suc d) v n = (if nesting v \<le> maxNestingDepth then Some n else None)"
    using assms(1) by (simp add: walk.simps [of limits "Suc d" v n])
  show ?case
  proof (cases "unquote key \<in> set seen \<or> \<not> within (MaxKeys limits) (Suc (length seen))")
    case True
    then show ?thesis using Cons.prems by (auto simp: m Let_def within_def)
  next
    case False
    then show ?thesis using Cons.IH [of "unquote key # seen"] by (auto simp: m w Let_def within_def)
  qed
qed (simp add: Let_def)

lemma walk_flat_elements:
  assumes "\<not> Nested limits" "within (MaxArray limits) count"
  shows "walkElements limits (Suc d) vs count n =
    (if within (MaxArray limits) (count + length vs) \<and> list_all (\<lambda>v. nesting v \<le> maxNestingDepth) vs then Some n else None)"
  using assms(2)
proof (induction vs arbitrary: count)
  case (Cons v vs)
  have w: "walk limits (Suc d) v n = (if nesting v \<le> maxNestingDepth then Some n else None)"
    using assms(1) by (simp add: walk.simps [of limits "Suc d" v n])
  show ?case
  proof (cases "within (MaxArray limits) (Suc count)")
    case True
    then show ?thesis using Cons.IH [of "Suc count"] by (auto simp: w within_def)
  qed (auto simp: within_def)
qed simp

lemma walk_admitted: "walk limits 0 v 0 \<noteq> None \<longleftrightarrow> admitted limits v"
proof (cases "Nested limits")
  case True
  have "list_all (valueOk limits) (subvalues 0 v)
      \<longleftrightarrow> (\<forall>(d, x)\<in>set (subvalues 0 v). containerOk limits x \<and> (MaxDepth limits > 0 \<longrightarrow> d \<le> MaxDepth limits))"
    by (auto simp: list_all_iff valueOk_def)
  then show ?thesis using True walk_nested(1) [OF True, of 0 v 0] by (simp add: admitted_def within_def)
next
  case False
  then have "walk limits 0 v 0 = (case v of JObj ms \<Rightarrow> walkMembers limits (Suc 0) ms [] 0 | JArr vs \<Rightarrow> walkElements limits (Suc 0) vs 0 0 | _ \<Rightarrow> Some 0)"
    unfolding walk.simps [of limits 0 v 0] by (cases v) simp_all
  then show ?thesis using False walk_flat_members [OF False, of "[]" 0] walk_flat_elements [OF False, of 0 0]
    by (cases v) (auto simp: admitted_def containerOk_def within_def list_all_iff Let_def)
qed

text \<open>
  C40: The admission check accepts exactly the texts that are within the size bound and spell one JSON value,
  with white space around it at most, which satisfies the limits: no object with two equal keys (compared
  after their escapes are resolved) or more than \<open>MaxKeys\<close>, no array longer than \<open>MaxArray\<close>, and, when the check
  is nested, in every container at every level, with no value deeper than \<open>MaxDepth\<close> and no more than
  \<open>MaxValues\<close> values in all; without \<open>Nested\<close> only the root container is checked. A text over the size bound is
  reported as too large, every other rejected text as invalid.
\<close>

theorem strict_admission:
  "strictjson_Validate data limits =
     (if MaxBytes limits > 0 \<and> length data > MaxBytes limits then Some strictjson_ErrTooLarge
      else if \<exists>v. jsonText data = Some v \<and> admitted limits v then None
      else Some strictjson_ErrInvalid)"
proof -
  have "(case walk limits 0 v 0 of None \<Rightarrow> Some strictjson_ErrInvalid | Some _ \<Rightarrow> None)
      = (if admitted limits v then None else Some strictjson_ErrInvalid)" for v
    using walk_admitted [of limits v] by (auto split: option.splits)
  then show ?thesis by (cases "jsonText data") (simp_all add: strictjson_Validate_def)
qed

end
