(* ===== verification/Spec2Isabelle.thy ===== *)
theory Spec2Isabelle
  imports Session_Safety Bulk_Catch_Up Read_Receipts History_Demand Route Delivery_Hold
    Group_Create Strict_Json
begin

text \<open>
  A verification library for \<open>mooo\<close>, a KakaoTalk client and Matrix bridge written in Go
  (\<open>src/internal\<close>, \<open>src/cmd\<close>).

  \<^bold>\<open>The program.\<close> A client owns one profile directory and at most one session. The session
  speaks LOCO, a framed protocol whose bodies are BSON documents, over an encrypted carriage
  connection. The bridge connector runs the client for Matrix: it consumes the client's event
  stream, hands each event to the bridge framework and, once the event is stored there, commits it.
  The promise that the code is built around is that no message is lost: the checkpoint of a profile
  records what was committed, what a login announced and which intervals are missing; what was
  announced and not committed is read again (catch-up), and nothing is committed before it was
  handed over, in order, per chat.

  \<^bold>\<open>Prelude and wire format.\<close>
  \<^item> \<open>Go_Prelude\<close>: 64-bit integers as \<open>int\<close> with the wrap-around written out, results as
    \<open>go_error + 'a\<close>, one constructor of \<open>go_error\<close> per sentinel of the sources, wrapped errors and
    \<open>errors.Is\<close>, and the lemmas on lists and sorting the components share.
  \<^item> \<open>Loco\<close>, \<open>Loco_Stream\<close>: \<open>protocol/loco\<close> (\<open>frame.go\<close>, \<open>producer.go\<close>, \<open>secure.go\<close>) on 8, 16 and 32-bit
    words. A stream of frames cut in pieces in any way is delivered exactly; the producer's buffer
    is bounded and its failure final; frames and secure envelopes round trip.
  \<^item> \<open>Wire\<close>: \<open>client/wire.go\<close>: a connection as the bytes its reads return and a cipher; what the peer framed
    (and sealed) is what is read, and a request on a connection of its own returns its own reply.
  \<^item> \<open>Runes\<close>, \<open>Json\<close>, \<open>Strict_Json\<close>: UTF-8 and UTF-16, the JSON grammar with a parser whose fuel is proved
    enough and a printer that round trips, and \<open>protocol/strictjson\<close>: the streaming check admits
    exactly the texts within its limits.
  \<^item> \<open>Bson_Field\<close>: \<open>protocol/bsonfield\<close> and \<open>loco/status.go\<close>. The BSON library is the parameter
    record \<open>bson\<close>; its laws are the named hypotheses \<open>marshal_lawful\<close>, \<open>elements_lawful\<close>, and the
    witnesses use \<open>docBson\<close>, an implementation over documents as association lists.
  \<^item> \<open>Sync_Wire\<close>: SYNCMSG, MCHATLOGS and the chat-log envelope (\<open>protocol/syncmsg\<close>, \<open>mchatlogs\<close>,
    \<open>chatlog\<close>).
  \<^item> \<open>Events\<close>: \<open>protocol/events\<close>: every packet decoder, feeds, membership notices, message gaps. The
    decoders of the content of each message type are the parameter record \<open>content\<close>.

  \<^bold>\<open>Durable state.\<close>
  \<^item> \<open>Private_Json\<close>: \<open>privatejson.go\<close> over a record of answers to each system call.
  \<^item> \<open>Chat_Table\<close>: the sorted tables of \<open>continuity.go\<close>; the locale \<open>chat_table\<close> is the interface
    through which the checkpoint uses them, interpreted for each of its five tables.
  \<^item> \<open>Continuity\<close>, \<open>Continuity_Ledger\<close>: \<open>continuity.go\<close>. Every operation of the store refines an
    operation on a ledger of maps; reachable stores are valid; a failed write changes nothing in memory;
    commits survive every later operation but the deletion of their chat; old versions migrate.
  \<^item> \<open>History_Coverage\<close>, \<open>History_Store\<close>, \<open>History_Safety\<close>, \<open>History_Window\<close>: \<open>client/history*.go\<close>.
    Coverage is exact, lookups and windows stay within it, a deletion is permanent and the
    content of a deleted message is never shown.
  \<^item> \<open>History_Admission\<close>, \<open>History_Demand\<close>: \<open>history_admission.go\<close>, \<open>history_account.go\<close> over a heap of
    account gates: requests of an account are spaced, demand is bounded.

  \<^bold>\<open>Client operations.\<close>
  \<^item> \<open>Delivery\<close>: the event stream and the commits of \<open>client.go\<close>.
  \<^item> \<open>Catch_Up\<close>, \<open>Bulk_Catch_Up\<close>: \<open>sync.go\<close>, \<open>bulk_catchup.go\<close>: what a catch-up returns is the whole
    missed interval, or the rest is recorded as a gap; failures lose nothing.
  \<^item> \<open>Read_State\<close>: \<open>read_state.go\<close>: only confirmed reads are recorded, the loop ends and completes.
  \<^item> \<open>Login_Sync\<close>: \<open>login_sync.go\<close>, \<open>protocol/sessionlogin\<close>, \<open>adoptSession\<close>: the pages of a login equal
    the last word on each chat, and adopting the session installs exactly that.
  \<^item> \<open>Session\<close>, \<open>Session_Safety\<close>: \<open>session.go\<close>, \<open>ping_timer_owner.go\<close>: the session state with its pending
    requests, receive-header timers, keep-alive owner, pushes and bootstrap, and a step relation in
    which callers, the reader, timers and the consumer interleave. Replies reach their callers,
    no caller is left waiting, pushes keep their order, a closed session stays quiet.
  \<^item> \<open>Chat_Requests\<close>: \<open>protocol/chat\<close>, \<open>chat.go\<close>, \<open>modify.go\<close>: the documents of WRITE, MODIFYMSG, DELETEMSG,
    GETMSGS, CREATE and ADDMEM and the client methods that send them.
  \<^item> \<open>Media_Upload\<close>: \<open>protocol/media\<close> (the upload side), \<open>client/media.go\<close>, \<open>media_direct.go\<close>: photos, files and
    albums. What a media connection receives is the file from the server's offset in whole sealed chunks;
    an upload that is reported as certainly failed created no message.
  \<^item> \<open>Route\<close>: \<open>protocol/booking\<close>, \<open>route.go\<close> and the part of \<open>connectSession\<close> that dials.

  \<^bold>\<open>Bridge connector.\<close>
  \<^item> \<open>Delivery_Hold\<close>: \<open>delivery_hold.go\<close>, \<open>recovery_schedule.go\<close> and the event pump of \<open>lifecycle.go\<close>:
    per chat, events reach the bridge in order and a failed one is retried before any later one.
  \<^item> \<open>Bridge_Ids\<close>: \<open>ids.go\<close>. \<open>Kv_Store\<close>: \<open>kv.go\<close> over a table of rows; the locale \<open>reservations\<close> states what a
    client of the store relies on when it reserves a key, interpreted for \<open>putIfAbsent\<close> and
    \<open>deleteOlderThan\<close>.
  \<^item> \<open>Outbound\<close>: \<open>outbound_attempts.go\<close>, \<open>outbound_edits.go\<close>, \<open>outbound_media.go\<close>, \<open>status.go\<close>,
    \<open>message_metadata.go\<close> and the message handler of \<open>client.go\<close>: one run of a handler sends at most one change, only
    after it reserved the event; copies of an event, interleaved and crashing in any way, send it once within the
    retention; edits and redactions change only the account's own recent messages.
  \<^item> \<open>Group_Create\<close>: \<open>group_create.go\<close>, \<open>group_reconcile.go\<close>: the journal of group creations in memory and in the database.
    Whatever fails and whenever the bridge restarts, a room's group is created at most once and its missing members are
    invited at most once; a group counts as bound only with exactly the selected roster.
  \<^item> \<open>Read_Receipts\<close>: \<open>read_receipts.go\<close>: receipts move forward, a read is declared with
    exactly the stored messages, scheduled acknowledgements are never lost or lowered.

  \<^bold>\<open>Conventions.\<close> Structs are records with a prefix per type, enums and event types are datatypes,
  methods are functions that take and return the state. What the outside answers (file system,
  server replies, dials, clock, random numbers, database) is an argument: a record of functions
  of the call's number or of its arguments. Every error return is a branch. All functions are total;
  loops are structural or have a termination proof, and the only bounds are those of the source:
  \<open>maxCatchUpPages\<close> and \<open>maxBulkCatchUpPages\<close> (100), 20 login pages, \<open>readSyncHeldCap\<close> (300),
  \<open>maxHeldEvents\<close> (1024), at most 4096 pending history requests, \<open>bookingAttempts\<close> (3).

  \<^bold>\<open>Not modelled.\<close> Sockets, timers and goroutines as such (their interleaving appears as the order of
  the steps); cryptography, the BSON library and the typed decoding of JSON (parameters); the
  bridge framework, which is not part of the repository, and the code that only fills its
  structures; the HTTP steps of uploads and the download and decoding of received media; the command line; logging.
\<close>

end
